(* ===== verification/Double.thy ===== *)
theory Double
  imports Complex_Main "HOL-Library.Log_Nat"
begin

text \<open>
  The clock of the simulator is a C++ \<^verbatim>\<open>double\<close> (\<^verbatim>\<open>sim_time_t\<close> and \<^verbatim>\<open>tdiff_t\<close> in
  \<^verbatim>\<open>src/src/dr_evt_types.hpp\<close>).  This theory models IEEE-754 binary64 arithmetic in the default
  rounding mode: a value is a rational that is its own rounding, the two infinities are the
  rationals \<open>\<plusminus>2^1024\<close> (the magnitude at which rounding overflows), and every arithmetic operation is
  the exact rational operation followed by round-to-nearest-even.  There is one zero, and this
  type has no NaN: the operations whose IEEE result is NaN (\<open>\<infinity> - \<infinity>\<close>, \<open>0 * \<infinity>\<close>, \<open>0 / 0\<close>, \<open>\<infinity> / \<infinity>\<close>) return a
  fixed value here.  NaN is the extra value of the type \<open>number\<close> of the theory Number.  The text readers use
  it, because they accept the text of a NaN: the SWF and capacity-schedule loaders do not refuse one.  The times
  inside the simulator are of type \<open>double\<close>: they are sums and differences of finite times, and the infinities and the
  maximum it uses as sentinels are only compared.  A job that an SWF log gives a run time of NaN is marked in
  its record and is outside the simulations modelled here.

  What the components use of the arithmetic is collected in \<open>dbl_simps\<close> (exactness on integers up to
  \<open>2^53\<close>, which evaluates the witnesses) and in the monotonicity lemmas at the end.
\<close>

named_theorems dbl_simps \<open>evaluation of binary64 arithmetic on small integers\<close>

section \<open>Rounding to nearest, ties to even\<close>

definition rhe :: "rat \<Rightarrow> int" where
  "rhe x = (let f = \<lfloor>x\<rfloor>; d = x - of_int f in
     if d < 1/2 then f else if 1/2 < d then f + 1 else if even f then f else f + 1)"

lemma rhe_bounds: "\<lfloor>x\<rfloor> \<le> rhe x" "rhe x \<le> \<lfloor>x\<rfloor> + 1"
  by (auto simp: rhe_def Let_def)

lemma rhe_of_int [simp]: "rhe (of_int n) = n"
  by (simp add: rhe_def)

lemma rhe_mono: "x \<le> y \<Longrightarrow> rhe x \<le> rhe y"
proof -
  assume xy: "x \<le> y"
  then have fl: "\<lfloor>x\<rfloor> \<le> \<lfloor>y\<rfloor>" by (rule floor_mono)
  show ?thesis
  proof (cases "\<lfloor>x\<rfloor> = \<lfloor>y\<rfloor>")
    case True
    with xy show ?thesis by (auto simp: rhe_def Let_def)
  next
    case False
    with fl have "\<lfloor>x\<rfloor> + 1 \<le> \<lfloor>y\<rfloor>" by simp
    with rhe_bounds(2)[of x] rhe_bounds(1)[of y] show ?thesis by linarith
  qed
qed

lemma rhe_minus: "rhe (- x) = - rhe x"
proof (cases "x = of_int \<lfloor>x\<rfloor>")
  case True
  then show ?thesis by (metis of_int_minus rhe_of_int)
next
  case False
  then have f: "\<lfloor>- x\<rfloor> = - \<lfloor>x\<rfloor> - 1"
    by (metis (no_types) ceiling_altdef ceiling_def minus_diff_eq minus_minus diff_minus_eq_add
        minus_add_distrib uminus_add_conv_diff)
  show ?thesis
    by (auto simp: rhe_def Let_def f)
qed

section \<open>The exponent of the last place\<close>

definition ilog2 :: "rat \<Rightarrow> int" where
  "ilog2 x = (let (p, q) = quotient_of x; k = bitlen p - bitlen q in
     if 2 powi k \<le> x then k else k - 1)"

lemma ilog2_bounds:
  assumes "0 < x"
  shows "2 powi (ilog2 x) \<le> x" "x < 2 powi (ilog2 x + 1)"
proof -
  obtain p q where pq: "quotient_of x = (p, q)" by force
  then have q: "0 < q" by (rule quotient_of_denom_pos)
  have x: "x = of_int p / of_int q" using pq by (rule quotient_of_div)
  with assms q have p: "0 < p"
    by (metis of_int_0_less_iff zero_less_divide_iff order_less_asym)
  define a b where "a = bitlen p" and "b = bitlen q"
  have ab: "0 < a" "0 < b"
    using p q bitlen_eq_zero_iff[of p] bitlen_eq_zero_iff[of q] bitlen_nonneg[of p] bitlen_nonneg[of q]
    by (auto simp: a_def b_def less_le)
  have two: "(2::rat) powi (n - 1) \<le> of_int z" "of_int z < (2::rat) powi n"
    if "0 < z" "n = bitlen z" "0 < n" for z n
  proof -
    have z: "2 ^ nat (n - 1) \<le> z" "z < 2 ^ nat n"
      using bitlen_bounds[of z] that by auto
    have "(2::rat) powi (n - 1) = of_int (2 ^ nat (n - 1))" "(2::rat) powi n = of_int (2 ^ nat n)"
      using that(3) by (simp_all add: power_int_def)
    with z show "(2::rat) powi (n - 1) \<le> of_int z" "of_int z < (2::rat) powi n"
      by (simp_all only: of_int_le_iff of_int_less_iff)
  qed
  note P = two[OF p a_def ab(1)] and Q = two[OF q b_def ab(2)]
  have q0: "(0::rat) < of_int q" using q by simp
  have lo: "2 powi (a - b - 1) < x"
  proof -
    have "(2::rat) powi (a - b - 1) * of_int q < 2 powi (a - b - 1) * 2 powi b"
      using Q(2) by simp
    also have "\<dots> = 2 powi (a - 1)" by (simp flip: power_int_add)
    also have "\<dots> \<le> of_int p" by (rule P(1))
    finally show ?thesis using q0 by (simp add: x pos_less_divide_eq)
  qed
  have hi: "x < 2 powi (a - b + 1)"
  proof -
    have "of_int p < (2::rat) powi a" by (rule P(2))
    also have "\<dots> = 2 powi (a - b + 1) * 2 powi (b - 1)" by (simp flip: power_int_add)
    also have "\<dots> \<le> 2 powi (a - b + 1) * of_int q" using Q(1) by simp
    finally show ?thesis using q0 by (simp add: x pos_divide_less_eq)
  qed
  have "ilog2 x = (if 2 powi (a - b) \<le> x then a - b else a - b - 1)"
    by (simp add: ilog2_def pq a_def b_def)
  with lo hi show "2 powi (ilog2 x) \<le> x" "x < 2 powi (ilog2 x + 1)"
    by (auto split: if_splits)
qed

definition ulp_exp :: "rat \<Rightarrow> int" where
  "ulp_exp x = (if x = 0 then - 1074 else max (- 1074) (ilog2 \<bar>x\<bar> - 52))"

lemma ulp_exp_ge: "- 1074 \<le> ulp_exp x"
  by (simp add: ulp_exp_def)

lemma ulp_exp_minus [simp]: "ulp_exp (- x) = ulp_exp x"
  by (simp add: ulp_exp_def)

lemma ulp_exp_upper: "\<bar>x\<bar> < 2 powi (ulp_exp x + 53)"
proof (cases "x = 0")
  case False
  then have "\<bar>x\<bar> < 2 powi (ilog2 \<bar>x\<bar> + 1)" by (simp add: ilog2_bounds)
  also have "\<dots> \<le> 2 powi (ulp_exp x + 53)"
    by (rule power_int_increasing) (use False in \<open>auto simp: ulp_exp_def\<close>)
  finally show ?thesis .
qed simp

lemma ulp_exp_lower: "- 1074 < ulp_exp x \<Longrightarrow> 2 powi (ulp_exp x + 52) \<le> \<bar>x\<bar>"
proof -
  assume *: "- 1074 < ulp_exp x"
  then have x: "x \<noteq> 0" "ulp_exp x = ilog2 \<bar>x\<bar> - 52" by (auto simp: ulp_exp_def split: if_splits)
  then show ?thesis using ilog2_bounds(1)[of "\<bar>x\<bar>"] by simp
qed

section \<open>Rounding a rational\<close>

definition rnd :: "rat \<Rightarrow> rat" where
  "rnd x = of_int (rhe (x / 2 powi ulp_exp x)) * 2 powi ulp_exp x"

lemma rnd_0 [simp]: "rnd 0 = 0"
  by (simp add: rnd_def rhe_def)

lemma rnd_minus: "rnd (- x) = - rnd x"
  by (simp add: rnd_def rhe_minus)

lemma powi_split: "e \<le> n \<Longrightarrow> (2::rat) powi n = of_int (2 ^ nat (n - e)) * 2 powi e"
proof -
  assume "e \<le> n"
  then have "(2::rat) powi (n - e) = of_int (2 ^ nat (n - e))" by (simp add: power_int_def)
  moreover have "(2::rat) powi n = 2 powi (n - e) * 2 powi e" by (simp flip: power_int_add)
  ultimately show ?thesis by simp
qed

lemma rhe_scaled: "e \<le> n \<Longrightarrow> rhe (2 powi n / 2 powi e) = 2 ^ nat (n - e)"
  using powi_split[of e n] rhe_of_int[of "2 ^ nat (n - e)"] by simp

lemma rnd_le_pow: "x \<le> 2 powi n \<Longrightarrow> ulp_exp x \<le> n \<Longrightarrow> rnd x \<le> 2 powi n"
proof -
  assume a: "x \<le> 2 powi n" "ulp_exp x \<le> n"
  then have "rhe (x / 2 powi ulp_exp x) \<le> 2 ^ nat (n - ulp_exp x)"
    using rhe_mono[of "x / 2 powi ulp_exp x" "2 powi n / 2 powi ulp_exp x"]
    by (simp add: rhe_scaled divide_right_mono)
  then have "rnd x \<le> of_int (2 ^ nat (n - ulp_exp x)) * 2 powi ulp_exp x"
    unfolding rnd_def by (intro mult_right_mono) (simp_all only: of_int_le_iff, simp)
  then show ?thesis using powi_split[OF a(2)] by simp
qed

lemma rnd_ge_pow: "2 powi n \<le> x \<Longrightarrow> ulp_exp x \<le> n \<Longrightarrow> 2 powi n \<le> rnd x"
proof -
  assume a: "2 powi n \<le> x" "ulp_exp x \<le> n"
  then have "2 ^ nat (n - ulp_exp x) \<le> rhe (x / 2 powi ulp_exp x)"
    using rhe_mono[of "2 powi n / 2 powi ulp_exp x" "x / 2 powi ulp_exp x"]
    by (simp add: rhe_scaled divide_right_mono)
  then have "of_int (2 ^ nat (n - ulp_exp x)) * 2 powi ulp_exp x \<le> rnd x"
    unfolding rnd_def by (intro mult_right_mono) (simp_all only: of_int_le_iff, simp)
  then show ?thesis using powi_split[OF a(2)] by simp
qed

lemma rnd_nonneg: "0 \<le> x \<Longrightarrow> 0 \<le> rnd x"
  using rhe_mono[of 0 "x / 2 powi ulp_exp x"] rhe_of_int[of 0] by (simp add: rnd_def)

lemma rnd_mono_nonneg:
  assumes "0 \<le> x" "x \<le> y"
  shows "rnd x \<le> rnd y"
proof (cases "ulp_exp y \<le> ulp_exp x")
  case True
  show ?thesis
  proof (cases "ulp_exp x = ulp_exp y")
    case True
    have "rhe (x / 2 powi ulp_exp y) \<le> rhe (y / 2 powi ulp_exp y)"
      using assms(2) by (intro rhe_mono divide_right_mono) simp_all
    then show ?thesis by (simp add: rnd_def True)
  next
    case False
    with True have lt: "ulp_exp y < ulp_exp x" by simp
    with ulp_exp_ge[of y] have "2 powi (ulp_exp x + 52) \<le> x"
      using ulp_exp_lower[of x] assms(1) by simp
    also note assms(2)
    also have "y < 2 powi (ulp_exp y + 53)" using ulp_exp_upper[of y] assms by simp
    also have "\<dots> \<le> 2 powi (ulp_exp x + 52)" by (rule power_int_increasing) (use lt in auto)
    finally show ?thesis by simp
  qed
next
  case False
  then have lt: "ulp_exp x < ulp_exp y" by simp
  let ?n = "ulp_exp y + 52"
  have "x < 2 powi (ulp_exp x + 53)" using ulp_exp_upper[of x] assms(1) by simp
  also have "\<dots> \<le> 2 powi ?n" by (rule power_int_increasing) (use lt in auto)
  finally have "rnd x \<le> 2 powi ?n" using lt by (intro rnd_le_pow) simp_all
  also have "\<dots> \<le> rnd y"
    using ulp_exp_lower[of y] ulp_exp_ge[of x] lt assms by (intro rnd_ge_pow) simp_all
  finally show ?thesis .
qed

lemma rnd_mono: "x \<le> y \<Longrightarrow> rnd x \<le> rnd y"
proof -
  assume xy: "x \<le> y"
  consider "0 \<le> x" | "x < 0" "0 \<le> y" | "y < 0" by linarith
  then show ?thesis
  proof cases
    case 1
    then show ?thesis using xy by (rule rnd_mono_nonneg)
  next
    case 2
    then show ?thesis using rnd_nonneg[of y] rnd_nonneg[of "- x"] by (simp add: rnd_minus)
  next
    case 3
    then show ?thesis using rnd_mono_nonneg[of "- y" "- x"] xy by (simp add: rnd_minus)
  qed
qed

text \<open>A number with a 53-bit significand is its own rounding.\<close>

lemma rnd_exact:
  assumes "\<bar>k\<bar> \<le> 2 ^ 53" "- 1074 \<le> e"
  shows "rnd (of_int k * 2 powi e) = of_int k * 2 powi e"
proof (cases "k = 0")
  case False
  let ?v = "of_int k * 2 powi e :: rat"
  let ?f = "ulp_exp ?v"
  have exact: "rnd ?v = ?v" if "?v = of_int m * 2 powi ?f" for m :: int
  proof -
    have "?v / 2 powi ?f = of_int m" by (subst that) simp
    then have "rhe (?v / 2 powi ?f) = m" by simp
    then show ?thesis unfolding rnd_def using that by simp
  qed
  have vabs: "\<bar>?v\<bar> = of_int \<bar>k\<bar> * 2 powi e" by (simp add: abs_mult)
  show ?thesis
  proof (cases "?f \<le> e")
    case True
    have "?v = of_int k * (of_int (2 ^ nat (e - ?f)) * 2 powi ?f)"
      by (rule arg_cong[where f = "\<lambda>z. of_int k * z", OF powi_split[OF True]])
    then have "?v = of_int (k * 2 ^ nat (e - ?f)) * 2 powi ?f"
      by (simp only: of_int_mult mult.assoc)
    then show ?thesis by (rule exact)
  next
    case False
    then have gt: "e + 1 \<le> ?f" by simp
    with assms(2) have low: "2 powi (?f + 52) \<le> \<bar>?v\<bar>" by (intro ulp_exp_lower) simp
    have "2 powi (e + 53) \<le> (2::rat) powi (?f + 52)"
      by (rule power_int_increasing) (use gt in auto)
    also note low
    also note vabs
    finally have "2 powi (53 + e) \<le> (of_int \<bar>k\<bar> :: rat) * 2 powi e" by (simp add: add.commute)
    then have "2 powi 53 * 2 powi e \<le> (of_int \<bar>k\<bar> :: rat) * 2 powi e"
      by (subst (asm) power_int_add) simp_all
    then have "(2 powi 53 :: rat) \<le> of_int \<bar>k\<bar>" by simp
    then have "(of_int (2 ^ 53) :: rat) \<le> of_int \<bar>k\<bar>" by (simp add: power_int_def)
    then have k: "\<bar>k\<bar> = 2 ^ 53" using assms(1) by (simp only: of_int_le_iff)
    have "2 powi (?f + 52) \<le> (2::rat) powi (e + 53)"
      using low vabs k by (simp add: power_int_add)
    then have "\<not> e + 53 < ?f + 52"
      using power_int_strict_increasing[of "e + 53" "?f + 52" "2::rat"] by linarith
    with gt have f: "?f = e + 1" by simp
    from k have "even \<bar>k\<bar>" by simp
    then obtain m where m: "k = 2 * m" by auto
    have "?v = of_int m * 2 powi (e + 1)" by (simp add: m power_int_add)
    then show ?thesis by (rule exact[unfolded f])
  qed
qed simp

lemma rnd_significand: "\<exists>k e. rnd x = of_int k * 2 powi e \<and> \<bar>k\<bar> \<le> 2 ^ 53 \<and> - 1074 \<le> e"
proof (intro exI conjI)
  let ?e = "ulp_exp x"
  show "rnd x = of_int (rhe (x / 2 powi ?e)) * 2 powi ?e" by (simp add: rnd_def)
  have x: "\<bar>x\<bar> < of_int (2 ^ 53) * 2 powi ?e"
    using ulp_exp_upper[of x] powi_split[of ?e "?e + 53"] by simp
  then have "x / 2 powi ?e \<le> of_int (2 ^ 53)" "of_int (- (2 ^ 53)) \<le> x / 2 powi ?e"
    by (simp_all add: pos_divide_le_eq pos_le_divide_eq abs_less_iff)
  from this[THEN rhe_mono] show "\<bar>rhe (x / 2 powi ?e)\<bar> \<le> 2 ^ 53"
    unfolding rhe_of_int by linarith
  show "- 1074 \<le> ?e" by (rule ulp_exp_ge)
qed

lemma rnd_idem [simp]: "rnd (rnd x) = rnd x"
  using rnd_significand[of x] rnd_exact by metis

lemma rnd_of_int: "\<bar>n\<bar> \<le> 2 ^ 53 \<Longrightarrow> rnd (of_int n) = of_int n"
  using rnd_exact[of n 0] by simp

section \<open>The type of doubles\<close>

definition huge :: rat where
  "huge = 2 ^ 1024"

definition fl :: "rat \<Rightarrow> rat" where
  "fl x = max (- huge) (min huge (rnd x))"

lemma huge_pos [simp]: "0 < huge" "0 \<le> huge" "- huge < huge" "- huge \<le> huge" "huge \<noteq> 0"
  "- huge < 0" "- huge \<le> 0" "\<not> huge \<le> 0"
  by (simp_all add: huge_def)

lemma rnd_huge [simp]: "rnd huge = huge" "rnd (- huge) = - huge"
proof -
  have "rnd (of_int 1 * 2 powi 1024) = of_int 1 * 2 powi 1024" by (rule rnd_exact) simp_all
  then show "rnd huge = huge" by (simp add: huge_def power_int_def)
  then show "rnd (- huge) = - huge" by (simp add: rnd_minus)
qed

lemma fl_mono: "x \<le> y \<Longrightarrow> fl x \<le> fl y"
  unfolding fl_def using rnd_mono[of x y] by linarith

lemma fl_idem [simp]: "fl (fl x) = fl x"
  using huge_pos(1) by (auto simp: fl_def max_def min_def)

lemma fl_bounds [simp]: "fl x \<le> huge" "- huge \<le> fl x"
  unfolding fl_def using huge_pos(4) by linarith+

lemma fl_ge_neg_huge: "- a = huge \<Longrightarrow> a \<le> fl x"
  using fl_bounds(2)[of x] by linarith

lemma fl_0 [simp]: "fl 0 = 0" and fl_huge [simp]: "fl huge = huge" "fl (- huge) = - huge"
  by (simp_all add: fl_def)

lemma fl_minus: "fl (- x) = - fl x"
  unfolding fl_def rnd_minus using huge_pos(4) by linarith

lemma fl_of_int: "\<bar>n\<bar> \<le> 2 ^ 53 \<Longrightarrow> fl (of_int n) = of_int n"
proof -
  assume n: "\<bar>n\<bar> \<le> 2 ^ 53"
  have "(of_int \<bar>n\<bar> :: rat) \<le> of_int (2 ^ 53)" using n by (simp only: of_int_le_iff)
  also have "\<dots> \<le> huge" by (simp add: huge_def)
  finally show ?thesis using n by (simp add: fl_def rnd_of_int abs_le_iff)
qed

typedef double = "{x :: rat. fl x = x}"
  morphisms val Abs_double
  by (rule exI[of _ 0]) simp

setup_lifting type_definition_double

instantiation double :: "{zero, one, plus, minus, uminus, times, divide, inverse, linorder, equal}"
begin

lift_definition zero_double :: double is 0 by simp

lift_definition one_double :: double is "fl 1" by simp

lift_definition uminus_double :: "double \<Rightarrow> double" is uminus by (simp add: fl_minus)

lift_definition plus_double :: "double \<Rightarrow> double \<Rightarrow> double" is
  "\<lambda>a b. if \<bar>a\<bar> = huge then a else if \<bar>b\<bar> = huge then b else fl (a + b)"
  by auto

lift_definition minus_double :: "double \<Rightarrow> double \<Rightarrow> double" is
  "\<lambda>a b. if \<bar>a\<bar> = huge then a else if \<bar>b\<bar> = huge then - b else fl (a - b)"
  by (auto simp: fl_minus)

lift_definition times_double :: "double \<Rightarrow> double \<Rightarrow> double" is
  "\<lambda>a b. if \<bar>a\<bar> = huge \<or> \<bar>b\<bar> = huge then sgn (a * b) * huge else fl (a * b)"
  by (auto simp: sgn_if fl_minus)

lift_definition divide_double :: "double \<Rightarrow> double \<Rightarrow> double" is
  "\<lambda>a b. if b = 0 then sgn a * huge else if \<bar>b\<bar> = huge then 0
     else if \<bar>a\<bar> = huge then sgn (a * b) * huge else fl (a / b)"
  by (auto simp: sgn_if fl_minus)

lift_definition inverse_double :: "double \<Rightarrow> double" is
  "\<lambda>b. if b = 0 then huge else if \<bar>b\<bar> = huge then 0 else fl (1 / b)"
  by auto

lift_definition less_eq_double :: "double \<Rightarrow> double \<Rightarrow> bool" is "(\<le>)" .

lift_definition less_double :: "double \<Rightarrow> double \<Rightarrow> bool" is "(<)" .

lift_definition equal_double :: "double \<Rightarrow> double \<Rightarrow> bool" is "(=)" .

instance
  by standard (transfer; auto)+

end

text \<open>Conversion from an integer (\<^verbatim>\<open>static_cast<double>\<close>), the constants of
  \<^verbatim>\<open>std::numeric_limits<double>\<close>, and the functions of \<^verbatim>\<open><cmath>\<close> the code uses.\<close>

lift_definition dbl :: "int \<Rightarrow> double" is "\<lambda>n. fl (of_int n)" by simp

lift_definition dbl_inf :: double is huge by simp

lift_definition dbl_max :: double is "fl (of_int (2 ^ 53 - 1) * 2 ^ 971)" by simp

definition dbl_lowest :: double where
  "dbl_lowest = - dbl_max"

definition isfinite :: "double \<Rightarrow> bool" where
  "isfinite x \<longleftrightarrow> x \<noteq> dbl_inf \<and> x \<noteq> - dbl_inf"

lift_definition dbl_ceil :: "double \<Rightarrow> double" is
  "\<lambda>x. if \<bar>x\<bar> = huge then x else fl (of_int \<lceil>x\<rceil>)" by auto

lift_definition dbl_floor :: "double \<Rightarrow> double" is
  "\<lambda>x. if \<bar>x\<bar> = huge then x else fl (of_int \<lfloor>x\<rfloor>)" by auto

section \<open>The laws the components use\<close>

lemma fl_range: "fl x = x \<Longrightarrow> - huge \<le> x \<and> x \<le> huge"
  using fl_bounds[of x] by simp

lemma dbl_add_right_mono: "b \<le> c \<Longrightarrow> a + b \<le> a + (c::double)"
proof (transfer, goal_cases)
  case (1 b c a)
  then show ?case using fl_range[of b] fl_range[of c] fl_mono[of "a + b" "a + c"]
    by (auto simp: abs_if intro: fl_bounds fl_ge_neg_huge split: if_splits)
qed

lemma dbl_add_left_mono: "a \<le> b \<Longrightarrow> a + c \<le> b + (c::double)"
proof (transfer, goal_cases)
  case (1 a b c)
  then show ?case using fl_range[of a] fl_range[of b] fl_range[of c] fl_mono[of "a + c" "b + c"]
    by (auto simp: abs_if intro: fl_bounds fl_ge_neg_huge split: if_splits)
qed

lemma dbl_add_0 [simp]: "a + 0 = (a::double)"
  by transfer auto

lemma dbl_0_add [simp]: "0 + a = (a::double)"
  by transfer auto

lemma dbl_add_commute_finite: "isfinite a \<Longrightarrow> isfinite b \<Longrightarrow> a + b = b + (a::double)"
  unfolding isfinite_def by transfer (auto simp: add.commute abs_if split: if_splits)

lemma dbl_le_add: "0 \<le> d \<Longrightarrow> a \<le> a + (d::double)"
  using dbl_add_right_mono[of 0 d a] by simp

lemma dbl_add_nonpos: "d \<le> 0 \<Longrightarrow> a + d \<le> (a::double)"
  using dbl_add_right_mono[of d 0 a] by simp

lemma dbl_interval_empty: "s \<le> t \<Longrightarrow> t < s + d \<Longrightarrow> d \<le> 0 \<Longrightarrow> False" for d :: double
  using dbl_add_nonpos[of d s] by simp

lemma dbl_diff_pos: "a < b \<Longrightarrow> 0 \<le> b - (a::double)"
proof (transfer, goal_cases)
  case (1 a b)
  then show ?case using fl_mono[of 0 "b - a"] fl_range[of b] fl_range[of a]
    by (auto simp: abs_if split: if_splits)
qed

lemma dbl_mult_nonneg: "0 \<le> a \<Longrightarrow> 0 \<le> b \<Longrightarrow> 0 \<le> a * (b::double)"
proof (transfer, goal_cases)
  case (1 a b)
  then show ?case using fl_mono[of 0 "a * b"] by (auto simp: sgn_if)
qed

lemma dbl_divide_nonneg: "0 \<le> a \<Longrightarrow> 0 \<le> b \<Longrightarrow> 0 \<le> a / (b::double)"
proof (transfer, goal_cases)
  case (1 a b)
  then show ?case using fl_mono[of 0 "a / b"] by (auto simp: sgn_if)
qed

lemma dbl_diff_self [simp]: "isfinite a \<Longrightarrow> a - a = (0::double)"
  unfolding isfinite_def by transfer (auto simp: abs_if split: if_splits)

lemma dbl_diff_nonneg: "a \<le> b \<Longrightarrow> isfinite a \<Longrightarrow> 0 \<le> b - (a::double)"
  unfolding isfinite_def
proof (transfer, goal_cases)
  case (1 a b)
  then show ?case using fl_mono[of 0 "b - a"] fl_range[of b] fl_range[of a]
    by (auto simp: abs_if split: if_splits)
qed

subsection \<open>Evaluation on integers\<close>

lemma val_dbl: "\<bar>n\<bar> \<le> 2 ^ 53 \<Longrightarrow> val (dbl n) = of_int n"
  by (simp add: dbl.rep_eq fl_of_int)

lemma small_ne_huge: "\<bar>n\<bar> \<le> 2 ^ 53 \<Longrightarrow> \<bar>of_int n :: rat\<bar> \<noteq> huge"
proof -
  assume n: "\<bar>n\<bar> \<le> 2 ^ 53"
  have "(of_int \<bar>n\<bar> :: rat) \<le> of_int (2 ^ 53)" using n by (simp only: of_int_le_iff)
  also have "\<dots> < huge" by (simp add: huge_def)
  finally show ?thesis by simp
qed

lemma dbl_zero [dbl_simps]: "(0::double) = dbl 0"
  by transfer simp

lemma dbl_add [dbl_simps]:
  "\<bar>a\<bar> \<le> 9007199254740992 \<Longrightarrow> \<bar>b\<bar> \<le> 9007199254740992 \<Longrightarrow> dbl a + dbl b = dbl (a + b)"
  using small_ne_huge[of a] small_ne_huge[of b]
  by (intro val_inject[THEN iffD1]) (simp add: plus_double.rep_eq val_dbl, simp add: dbl.rep_eq)

lemma dbl_diff [dbl_simps]:
  "\<bar>a\<bar> \<le> 9007199254740992 \<Longrightarrow> \<bar>b\<bar> \<le> 9007199254740992 \<Longrightarrow> dbl a - dbl b = dbl (a - b)"
  using small_ne_huge[of a] small_ne_huge[of b]
  by (intro val_inject[THEN iffD1]) (simp add: minus_double.rep_eq val_dbl, simp add: dbl.rep_eq)

lemma dbl_mult [dbl_simps]:
  "\<bar>a\<bar> \<le> 9007199254740992 \<Longrightarrow> \<bar>b\<bar> \<le> 9007199254740992 \<Longrightarrow> dbl a * dbl b = dbl (a * b)"
  using small_ne_huge[of a] small_ne_huge[of b]
  by (intro val_inject[THEN iffD1]) (simp add: times_double.rep_eq val_dbl, simp add: dbl.rep_eq)

lemma dbl_div [dbl_simps]:
  assumes "\<bar>a\<bar> \<le> 9007199254740992" "\<bar>b\<bar> \<le> 9007199254740992" "b \<noteq> 0" "b dvd a"
  shows "dbl a / dbl b = dbl (a div b)"
proof -
  obtain c where c: "a = b * c" using assms(4) by (rule dvdE)
  have "\<bar>c\<bar> * 1 \<le> \<bar>c\<bar> * \<bar>b\<bar>" using assms(3) by (intro mult_left_mono) simp_all
  also have "\<dots> = \<bar>a\<bar>" by (simp add: c abs_mult mult.commute)
  finally have q: "\<bar>a div b\<bar> \<le> 2 ^ 53" using assms(1,3) by (simp add: c)
  have "(of_int a / of_int b :: rat) = of_int (a div b)" using assms(3) by (simp add: c)
  then have "val (dbl a / dbl b) = fl (of_int (a div b))"
    using assms(1-3) small_ne_huge[of a] small_ne_huge[of b]
    by (simp add: divide_double.rep_eq val_dbl)
  then show ?thesis using fl_of_int[OF q] val_dbl[OF q] by (simp add: val_inject[symmetric])
qed

lemma dbl_le [dbl_simps]:
  "\<bar>a\<bar> \<le> 9007199254740992 \<Longrightarrow> \<bar>b\<bar> \<le> 9007199254740992 \<Longrightarrow> dbl a \<le> dbl b \<longleftrightarrow> a \<le> b"
  by (simp add: less_eq_double.rep_eq val_dbl)

lemma dbl_less [dbl_simps]:
  "\<bar>a\<bar> \<le> 9007199254740992 \<Longrightarrow> \<bar>b\<bar> \<le> 9007199254740992 \<Longrightarrow> dbl a < dbl b \<longleftrightarrow> a < b"
  by (simp add: less_double.rep_eq val_dbl)

lemma dbl_eq [dbl_simps]:
  "\<bar>a\<bar> \<le> 9007199254740992 \<Longrightarrow> \<bar>b\<bar> \<le> 9007199254740992 \<Longrightarrow> dbl a = dbl b \<longleftrightarrow> a = b"
  by (simp add: val_inject[symmetric] val_dbl)

lemma val_dbl_max: "val dbl_max = of_int (2 ^ 53 - 1) * 2 ^ 971"
proof -
  have "rnd (of_int (2 ^ 53 - 1) * 2 powi 971) = of_int (2 ^ 53 - 1) * 2 powi 971"
    by (rule rnd_exact) simp_all
  then have "fl (of_int (2 ^ 53 - 1) * 2 powi 971) = of_int (2 ^ 53 - 1) * 2 powi 971"
    by (simp add: fl_def huge_def power_int_def)
  then show ?thesis by (simp add: dbl_max.rep_eq power_int_def)
qed

lemma dbl_less_max [dbl_simps]: "\<bar>a\<bar> \<le> 9007199254740992 \<Longrightarrow> dbl a < dbl_max"
proof -
  assume a: "\<bar>a\<bar> \<le> 9007199254740992"
  have "(of_int a :: rat) \<le> of_int 9007199254740992" using a by (simp only: of_int_le_iff)
  also have "\<dots> < val dbl_max" by (simp add: val_dbl_max)
  finally show ?thesis using a by (simp add: less_double.rep_eq val_dbl)
qed

lemma dbl_le_max [dbl_simps]: "\<bar>a\<bar> \<le> 9007199254740992 \<Longrightarrow> dbl a \<le> dbl_max"
  by (rule less_imp_le) (rule dbl_less_max)

lemma dbl_neq_max [dbl_simps]: "\<bar>a\<bar> \<le> 9007199254740992 \<Longrightarrow> dbl a \<noteq> dbl_max"
  "\<bar>a\<bar> \<le> 9007199254740992 \<Longrightarrow> dbl_max \<noteq> dbl a" "\<bar>a\<bar> \<le> 9007199254740992 \<Longrightarrow> \<not> dbl_max \<le> dbl a"
  "\<bar>a\<bar> \<le> 9007199254740992 \<Longrightarrow> \<not> dbl_max < dbl a"
  using dbl_less_max[of a] by auto

lemma isfinite_dbl [dbl_simps]: "\<bar>a\<bar> \<le> 9007199254740992 \<Longrightarrow> isfinite (dbl a)"
  using small_ne_huge[of a]
  by (auto simp: isfinite_def val_inject[symmetric] val_dbl dbl_inf.rep_eq uminus_double.rep_eq)

lemma dbl_lowest_less [dbl_simps]: "\<bar>a\<bar> \<le> 9007199254740992 \<Longrightarrow> dbl_lowest < dbl a"
proof -
  assume a: "\<bar>a\<bar> \<le> 9007199254740992"
  then have "- a \<le> 9007199254740992" by simp
  then have "(of_int (- a) :: rat) \<le> of_int 9007199254740992" by (simp only: of_int_le_iff)
  also have "\<dots> < val dbl_max" by (simp add: val_dbl_max)
  finally show ?thesis using a
    by (simp add: less_double.rep_eq val_dbl dbl_lowest_def uminus_double.rep_eq)
qed

end
