(* ===== verification/Prelude.thy ===== *)
theory Prelude
  imports Double "HOL-Library.Word" "HOL-Library.Product_Lexorder" "HOL-Library.Multiset"
begin

text \<open>
  The vocabulary of the development: the scalar types of \<^verbatim>\<open>src/src/dr_evt_types.hpp\<close>, the policy
  enumerations of \<^verbatim>\<open>src/src/sim/scheduler_policies.hpp\<close> and \<^verbatim>\<open>src/src/params/sim_params.hpp\<close>, the
  fact collections of the components, and the generic lemmas on lists and words that the component
  proofs share.

  Node counts are 32-bit words, so a subtraction below zero wraps as it does in the code.  Container
  sizes, queue indices and job numbers (\<^verbatim>\<open>size_t\<close>) are natural numbers: they count objects that are in
  memory, and every subtraction the code makes on them is shown not to go below zero.
\<close>

named_theorems tl_simps \<open>capacity of a timeline after an operation\<close>
named_theorems eval_simps \<open>unfolding of the model on a concrete state\<close>

section \<open>Scalar types\<close>

type_synonym num_nodes = "32 word"
type_synonym sim_time = double
type_synonym tdiff = double
type_synonym job_no = nat

text \<open>\<^verbatim>\<open>DR_Event_Kind\<close>: the declaration order is the processing order at one timestamp.\<close>

datatype dr_event_kind = Departure | Release | Arrival

section \<open>Policy enumerations\<close>

datatype backfill_policy = EASY | CONSERVATIVE | NONE | HYBRID

datatype priority_policy = FCFS | FCFS_ALT | FCFS_CONSERVATIVE | SJF | LJF

datatype run_time_mode = ACTUAL | DISTRIBUTION | LIMIT

datatype release_delay_model = CONSTANT | EXPONENTIAL | RD_UNIFORM

datatype distribution_type = NORMAL | LOGNORMAL | DT_UNIFORM

datatype trace_mode = REPLAY | SIMULATION

datatype queue_implementation = CIRCULAR | DEQUE | MULTIMAP | BLOCK

datatype circular_overflow_policy = ABORT | GROW

text \<open>The exceptions the modelled code throws, by their C++ class; \<open>Exit_Failure\<close> is the failure status of a loader.  The last
  two are not exceptions: C++ leaves the execution undefined there, so no handler catches them.  \<open>Undefined_Read\<close> is a
  read past the end of a vector, \<open>Undefined_Conversion\<close> the conversion to an integer type of a floating-point value that is not
  a number or does not fit.\<close>

datatype exn = Runtime_Error | Invalid_Argument | Logic_Error | Out_Of_Range | Domain_Error | Length_Error | Exit_Failure
  | Undefined_Read | Undefined_Conversion

definition is_undefined :: "exn \<Rightarrow> bool" where
  "is_undefined e \<longleftrightarrow> e = Undefined_Read \<or> e = Undefined_Conversion"

section \<open>Lists\<close>

lemma takeWhile_dropWhile_split: "xs = takeWhile P xs @ dropWhile P xs"
  by simp

lemma sorted_wrt_append_hd:
  "sorted_wrt (<) (map fst (as @ b # bs)) \<Longrightarrow> x \<in> set as \<Longrightarrow> fst x < fst b"
  for b :: "'a::linorder \<times> 'b"
  by (auto simp: sorted_wrt_append)

lemma hd_dropWhile_not: "dropWhile P xs \<noteq> [] \<Longrightarrow> \<not> P (hd (dropWhile P xs))"
  by (induction xs) auto

lemma filter_take_drop: "filter P xs = filter P (take n xs) @ filter P (drop n xs)"
  by (metis append_take_drop_id filter_append)

lemma length_filter_take_le: "length (filter P (take n xs)) \<le> n"
  using length_filter_le[of P "take n xs"] by simp

section \<open>Words\<close>

lemma unat_sub_le: "b \<le> a \<Longrightarrow> unat (a - b) = unat a - unat (b :: 'a::len word)"
  by (rule unat_sub)

lemma word_le_minus_mono: "c \<le> b \<Longrightarrow> b \<le> a \<Longrightarrow> b - c \<le> a - (c :: 'a::len word)"
  by (simp add: word_le_nat_alt unat_sub order_trans[of "unat c" "unat b"] diff_le_mono)

end
