(* ===== verification/Timeline.thy ===== *)
theory Timeline
  imports Prelude
begin

text \<open>
  \<^verbatim>\<open>Reservation_Timeline\<close> of \<^verbatim>\<open>src/src/sim/scheduler_base.hpp\<close>: the free-node profile on which every
  scheduler plans.  The vector of segments is a list of pairs (start of the segment, free nodes); an
  iterator into it is the suffix that starts at the iterator, so that the end iterator is the empty
  list.  The specification is the capacity function \<open>cap\<close>, and \<open>fits\<close>: a request fits at a time when
  the capacity covers it there and throughout its interval.  The theory shows that \<open>earliest_fit\<close>
  returns the least fitting start and that \<open>reserve\<close> subtracts the request exactly on its interval.
\<close>

type_synonym segment = "sim_time \<times> num_nodes"

section \<open>The code\<close>

definition lower_bound :: "segment list \<Rightarrow> sim_time \<Rightarrow> nat" where
  "lower_bound xs t = length (takeWhile (\<lambda>s. fst s < t) xs)"

definition upper_bound :: "segment list \<Rightarrow> sim_time \<Rightarrow> nat" where
  "upper_bound xs t = length (takeWhile (\<lambda>s. fst s \<le> t) xs)"

definition split_at :: "segment list \<Rightarrow> sim_time \<Rightarrow> nat \<times> segment list" where
  "split_at xs t = (let b = lower_bound xs t in
     if b = length xs \<or> fst (xs ! b) \<noteq> t
     then (b, take b xs @ (t, snd (xs ! (b - 1))) # drop b xs)
     else (b, xs))"

text \<open>The inner scan of \<^verbatim>\<open>earliest_fit\<close>: the flag says that the scan is still at the segment it
  started from, whose start is not compared with the end of the interval.\<close>

fun scan_fit :: "num_nodes \<Rightarrow> sim_time \<Rightarrow> bool \<Rightarrow> segment list \<Rightarrow> segment list" where
  "scan_fit n stop at_segment [] = []"
| "scan_fit n stop at_segment (x # xs) =
     (if (at_segment \<or> fst x < stop) \<and> n \<le> snd x then scan_fit n stop False xs else x # xs)"

lemma length_scan_fit: "length (scan_fit n stop b xs) \<le> length xs"
  by (induction n stop b xs rule: scan_fit.induct) auto

function earliest_loop :: "num_nodes \<Rightarrow> tdiff \<Rightarrow> sim_time \<Rightarrow> segment list \<Rightarrow> sim_time option" where
  "earliest_loop n d start seg =
     (let scan = scan_fit n (start + d) True seg in
      if scan = [] \<or> (scan \<noteq> seg \<and> start + d \<le> fst (hd scan)) then Some start
      else (let nxt = dropWhile (\<lambda>s. snd s < n) (tl scan) in
            if nxt = [] then None else earliest_loop n d (fst (hd nxt)) nxt))"
  by pat_completeness auto
termination
proof (relation "measure (\<lambda>(n, d, start, seg). length seg)", goal_cases)
  case (2 n d start seg scan nxt)
  have "length nxt \<le> length (tl scan)" unfolding 2(3) by (rule length_dropWhile_le)
  also have "\<dots> < length scan" using 2 by (cases scan) auto
  also have "\<dots> \<le> length seg" using 2(1) by (simp add: length_scan_fit)
  finally show ?case by simp
qed simp

declare earliest_loop.simps [simp del]

definition earliest_fit :: "segment list \<Rightarrow> num_nodes \<Rightarrow> tdiff \<Rightarrow> sim_time \<Rightarrow> sim_time option" where
  "earliest_fit xs n d start =
     (if xs = [] then None
      else let seg = drop (upper_bound xs start - 1) xs in
        if d \<le> 0 then
          (case dropWhile (\<lambda>s. snd s < n) seg of
             [] \<Rightarrow> None
           | s # _ \<Rightarrow> Some (if fst s \<le> start then start else fst s))
        else earliest_loop n d start seg)"

definition can_fit :: "segment list \<Rightarrow> sim_time \<Rightarrow> num_nodes \<Rightarrow> tdiff \<Rightarrow> bool" where
  "can_fit xs start n d \<longleftrightarrow> earliest_fit xs n d start = Some start"

text \<open>The subtraction loop over the indices from \<open>lo\<close> up to \<open>hi\<close>, and the \<^verbatim>\<open>coalesce\<close> lambda:
  whether the boundary was erased, and the segments after it.\<close>

definition sub_range :: "nat \<Rightarrow> nat \<Rightarrow> num_nodes \<Rightarrow> segment list \<Rightarrow> segment list" where
  "sub_range lo hi n xs =
     take lo xs @ map (\<lambda>s. (fst s, snd s - n)) (take (hi - lo) (drop lo xs)) @ drop hi xs"

definition coalesce :: "nat \<Rightarrow> segment list \<Rightarrow> bool \<times> segment list" where
  "coalesce b xs =
     (if b \<noteq> 0 \<and> snd (xs ! (b - 1)) = snd (xs ! b) then (True, take b xs @ drop (Suc b) xs)
      else (False, xs))"

definition reserve :: "segment list \<Rightarrow> sim_time \<Rightarrow> num_nodes \<Rightarrow> tdiff \<Rightarrow> segment list" where
  "reserve xs start n d =
     (if d \<le> 0 then xs
      else let (lo, xs1) = split_at xs start;
               (hi, xs2) = split_at xs1 (start + d);
               xs3 = sub_range lo hi n xs2;
               (erased, xs4) = coalesce lo xs3;
               hi' = (if erased then hi - 1 else hi)
           in snd (coalesce hi' xs4))"

section \<open>The specification\<close>

definition wf_tl :: "segment list \<Rightarrow> bool" where
  "wf_tl xs \<longleftrightarrow> xs \<noteq> [] \<and> sorted_wrt (<) (map fst xs)"

definition origin :: "segment list \<Rightarrow> sim_time" where
  "origin xs = fst (hd xs)"

fun cap :: "segment list \<Rightarrow> sim_time \<Rightarrow> num_nodes" where
  "cap [] t = 0"
| "cap [x] t = snd x"
| "cap (x # y # ys) t = (if fst y \<le> t then cap (y # ys) t else snd x)"

definition fits :: "segment list \<Rightarrow> num_nodes \<Rightarrow> tdiff \<Rightarrow> sim_time \<Rightarrow> bool" where
  "fits xs n d s \<longleftrightarrow> n \<le> cap xs s \<and> (\<forall>t. s \<le> t \<and> t < s + d \<longrightarrow> n \<le> cap xs t)"

section \<open>Capacity\<close>

lemma cap_Cons: "cap (x # xs) t = (if xs \<noteq> [] \<and> fst (hd xs) \<le> t then cap xs t else snd x)"
  by (cases xs) auto

lemma cap_append:
  assumes "sorted_wrt (<) (map fst (as @ b # bs))" "as \<noteq> []"
  shows "cap (as @ b # bs) t = (if fst b \<le> t then cap (b # bs) t else cap as t)"
  using assms
proof (induction as)
  case (Cons a as)
  show ?case
  proof (cases as)
    case Nil
    then show ?thesis by simp
  next
    case (Cons a' as')
    with Cons.IH Cons.prems show ?thesis
      by (auto simp: cap_Cons[of a] sorted_wrt_append)
  qed
qed simp

lemma cap_in_set: "xs \<noteq> [] \<Longrightarrow> \<exists>x\<in>set xs. cap xs t = snd x"
  by (induction xs t rule: cap.induct) auto

lemma cap_map_snd: "xs \<noteq> [] \<Longrightarrow> cap (map (\<lambda>s. (fst s, f (snd s))) xs) t = f (cap xs t)"
  by (induction xs t rule: cap.induct) auto

lemma cap_suffix:
  assumes "sorted_wrt (<) (map fst (as @ bs))" "bs \<noteq> []" "fst (hd bs) \<le> t"
  shows "cap (as @ bs) t = cap bs t"
  using assms by (cases "as = []"; cases bs) (auto simp: cap_append)

lemma cap_hd: "xs \<noteq> [] \<Longrightarrow> sorted_wrt (<) (map fst xs) \<Longrightarrow> cap xs (origin xs) = snd (hd xs)"
  by (cases xs rule: list.exhaust; cases "tl xs") (auto simp: cap_Cons origin_def)

section \<open>The least fitting start\<close>

lemma scan_fit_split:
  "\<exists>ok. xs = ok @ scan_fit n stop b xs \<and> (\<forall>x\<in>set ok. n \<le> snd x) \<and>
     (scan_fit n stop b xs \<noteq> [] \<longrightarrow> \<not> ((ok = [] \<and> b \<or> fst (hd (scan_fit n stop b xs)) < stop)
        \<and> n \<le> snd (hd (scan_fit n stop b xs))))"
proof (induction n stop b xs rule: scan_fit.induct)
  case (2 n stop b x xs)
  show ?case
  proof (cases "(b \<or> fst x < stop) \<and> n \<le> snd x")
    case True
    with 2 obtain ok where "xs = ok @ scan_fit n stop False xs" "\<forall>x\<in>set ok. n \<le> snd x"
      "scan_fit n stop False xs \<noteq> [] \<longrightarrow> \<not> (fst (hd (scan_fit n stop False xs)) < stop
        \<and> n \<le> snd (hd (scan_fit n stop False xs)))"
      by auto
    with True show ?thesis by (intro exI[of _ "x # ok"]) auto
  next
    case False
    then show ?thesis by (intro exI[of _ "[]"]) auto
  qed
qed simp

text \<open>The loop state: the iterator stands on the segment that contains \<open>start\<close>.\<close>

definition at_start :: "segment list \<Rightarrow> sim_time \<Rightarrow> bool" where
  "at_start seg start \<longleftrightarrow> seg \<noteq> [] \<and> sorted_wrt (<) (map fst seg) \<and> fst (hd seg) \<le> start \<and>
     (tl seg \<noteq> [] \<longrightarrow> start < fst (hd (tl seg)))"

lemma at_start_cap: "at_start seg start \<Longrightarrow> cap seg start = snd (hd seg)"
  by (cases seg) (auto simp: at_start_def cap_Cons)

lemma scan_fits:
  assumes st: "at_start seg start" and seg: "seg = ok @ scan"
    and ok: "\<forall>x\<in>set ok. n \<le> snd x" "ok \<noteq> []"
    and stop: "scan = [] \<or> start + d \<le> fst (hd scan)"
  shows "fits seg n d start"
proof -
  have hd: "hd seg \<in> set ok" using seg ok(2) by simp
  have sorted: "sorted_wrt (<) (map fst seg)" using st by (simp add: at_start_def)
  have "n \<le> cap seg t" if "t < start + d" for t
  proof -
    have "cap seg t = cap ok t"
    proof (cases scan)
      case (Cons b bs)
      then show ?thesis using cap_append[of ok b bs t] sorted stop that ok(2) seg by auto
    qed (simp add: seg)
    then show ?thesis using cap_in_set[OF ok(2), of t] ok(1) by auto
  qed
  moreover have "n \<le> cap seg start" using at_start_cap[OF st] hd ok(1) by simp
  ultimately show ?thesis by (simp add: fits_def)
qed

lemma blocked_no_fit:
  assumes sorted: "sorted_wrt (<) (map fst (ok @ b # bad @ nxt))"
    and bad: "snd b < n" "\<forall>x\<in>set bad. snd x < n"
    and start: "ok = [] \<longrightarrow> fst b \<le> start" "ok \<noteq> [] \<longrightarrow> fst b < start + d"
    and s: "start \<le> s" "nxt \<noteq> [] \<longrightarrow> s < fst (hd nxt)"
  shows "\<not> fits (ok @ b # bad @ nxt) n d s"
proof (cases "fst b \<le> s")
  case True
  have "cap (ok @ b # bad @ nxt) s = cap (b # bad @ nxt) s"
    using cap_suffix[of ok "b # bad @ nxt" s] sorted True by simp
  also have "\<dots> = cap (b # bad) s"
  proof (cases nxt)
    case (Cons c cs)
    then show ?thesis using cap_append[of "b # bad" c cs s] sorted s(2)
      by (auto simp: sorted_wrt_append)
  qed simp
  finally have "cap (ok @ b # bad @ nxt) s < n"
    using cap_in_set[of "b # bad" s] bad by auto
  then show ?thesis by (auto simp: fits_def)
next
  case False
  with start s(1) have "ok \<noteq> []" by auto
  with start have "fst b < start + d" by simp
  also have "\<dots> \<le> s + d" using s(1) by (rule dbl_add_left_mono)
  finally have "fst b < s + d" .
  moreover have "cap (ok @ b # bad @ nxt) (fst b) = snd b"
    using cap_suffix[of ok "b # bad @ nxt" "fst b"] cap_hd[of "b # bad @ nxt"] sorted
    by (simp add: sorted_wrt_append origin_def)
  ultimately show ?thesis using False bad(1) by (auto simp: fits_def intro!: exI[of _ "fst b"])
qed

definition least_fit :: "segment list \<Rightarrow> num_nodes \<Rightarrow> tdiff \<Rightarrow> sim_time \<Rightarrow> sim_time option \<Rightarrow> bool" where
  "least_fit xs n d start r \<longleftrightarrow>
     (case r of None \<Rightarrow> \<forall>s. start \<le> s \<longrightarrow> \<not> fits xs n d s
      | Some s \<Rightarrow> start \<le> s \<and> fits xs n d s \<and> (\<forall>s'. start \<le> s' \<and> s' < s \<longrightarrow> \<not> fits xs n d s'))"

lemma fits_suffix:
  assumes "sorted_wrt (<) (map fst (as @ bs))" "bs \<noteq> []" "fst (hd bs) \<le> s"
  shows "fits (as @ bs) n d s = fits bs n d s"
  using assms cap_suffix[of as bs] by (auto simp: fits_def)

lemma least_fit_later:
  assumes least: "least_fit ys n d s1 r" and le: "start \<le> s1"
    and none: "\<And>s. start \<le> s \<Longrightarrow> s < s1 \<Longrightarrow> \<not> fits xs n d s"
    and same: "\<And>s. s1 \<le> s \<Longrightarrow> fits xs n d s = fits ys n d s"
  shows "least_fit xs n d start r"
proof (cases r)
  case None
  have "\<not> fits xs n d s" if "start \<le> s" for s
    using least None none[OF that] same[of s] by (cases "s1 \<le> s") (auto simp: least_fit_def)
  then show ?thesis by (simp add: least_fit_def None)
next
  case (Some a)
  have a: "s1 \<le> a" "fits ys n d a" using least Some by (auto simp: least_fit_def)
  have "\<not> fits xs n d s" if "start \<le> s" "s < a" for s
    using least Some none[OF that(1)] same[of s] that(2) by (cases "s1 \<le> s") (auto simp: least_fit_def)
  then show ?thesis using a same[of a] order_trans[OF le a(1)] by (simp add: least_fit_def Some)
qed

lemma earliest_loop_least: "at_start seg start \<Longrightarrow> least_fit seg n d start (earliest_loop n d start seg)"
proof (induction n d start seg rule: earliest_loop.induct)
  case (1 n d start seg)
  let ?scan = "scan_fit n (start + d) True seg"
  obtain ok where ok: "seg = ok @ ?scan" "\<forall>x\<in>set ok. n \<le> snd x"
    "?scan \<noteq> [] \<longrightarrow> \<not> ((ok = [] \<or> fst (hd ?scan) < start + d) \<and> n \<le> snd (hd ?scan))"
    using scan_fit_split[of seg n "start + d" True] by auto
  have seg0: "seg \<noteq> []" using "1.prems" by (simp add: at_start_def)
  have scan_eq: "?scan = seg \<longleftrightarrow> ok = []" using ok(1) by (metis append_self_conv2)
  show ?case
  proof (cases "?scan = [] \<or> (?scan \<noteq> seg \<and> start + d \<le> fst (hd ?scan))")
    case True
    then have "ok \<noteq> []" using scan_eq seg0 ok(1) by auto
    with True ok "1.prems" have "fits seg n d start" by (intro scan_fits[of _ _ ok ?scan]) auto
    with True show ?thesis
      by (auto simp: earliest_loop.simps[of n d start seg] least_fit_def)
  next
    case False
    obtain b bs where bs: "?scan = b # bs" using False by (cases ?scan) auto
    let ?bad = "takeWhile (\<lambda>s. snd s < n) bs" and ?nxt = "dropWhile (\<lambda>s. snd s < n) bs"
    have seg: "seg = ok @ b # ?bad @ ?nxt" using ok(1) bs by simp
    have sorted: "sorted_wrt (<) (map fst (ok @ b # ?bad @ ?nxt))"
      using "1.prems" seg by (metis at_start_def)
    have start: "ok = [] \<longrightarrow> fst b \<le> start" "ok \<noteq> [] \<longrightarrow> fst b < start + d"
      using "1.prems" ok(1) bs False scan_eq by (auto simp: at_start_def)
    have bad: "snd b < n" "\<forall>x\<in>set ?bad. snd x < n"
      using ok(3) bs start(2) by (auto dest: set_takeWhileD)
    have none: "\<not> fits seg n d s" if "start \<le> s" "?nxt \<noteq> [] \<longrightarrow> s < fst (hd ?nxt)" for s
      unfolding seg by (rule blocked_no_fit[OF sorted bad start that])
    show ?thesis
    proof (cases "?nxt = []")
      case True
      with False bs none show ?thesis
        by (auto simp: earliest_loop.simps[of n d start seg] least_fit_def Let_def
              simp del: dropWhile_eq_Nil_conv)
    next
      case nxt: False
      have suffix: "fits seg n d s = fits ?nxt n d s" if "fst (hd ?nxt) \<le> s" for s
        using fits_suffix[of "ok @ b # ?bad" ?nxt s] sorted nxt that seg by simp
      have snxt: "sorted_wrt (<) (map fst ?nxt)" using sorted
        by (simp only: map_append list.map sorted_wrt_append sorted_wrt.simps)
      then have "at_start ?nxt (fst (hd ?nxt))"
        using nxt by (cases ?nxt; cases "tl ?nxt") (auto simp: at_start_def)
      with 1 False bs nxt have "least_fit ?nxt n d (fst (hd ?nxt)) (earliest_loop n d (fst (hd ?nxt)) ?nxt)"
        by (simp del: dropWhile_eq_Nil_conv)
      moreover have "start < fst (hd ?nxt)"
      proof -
        have lt: "\<forall>x\<in>set (tl seg). start < fst x"
          using "1.prems" by (cases seg; cases "tl seg") (auto simp: at_start_def)
        have "hd ?nxt \<in> set bs" using nxt by (metis hd_in_set set_dropWhileD)
        then have "hd ?nxt \<in> set (tl seg)" using ok(1) bs by (cases ok) auto
        with lt show ?thesis by blast
      qed
      ultimately have "least_fit seg n d start (earliest_loop n d (fst (hd ?nxt)) ?nxt)"
        by (rule least_fit_later[OF _ less_imp_le none suffix]) simp_all
      then show ?thesis using False bs nxt
        by (auto simp: earliest_loop.simps[of n d start seg] Let_def simp del: dropWhile_eq_Nil_conv)
    qed
  qed
qed

lemma at_start_drop:
  assumes "wf_tl xs" "origin xs \<le> start"
  shows "at_start (drop (upper_bound xs start - 1) xs) start"
proof -
  let ?tw = "takeWhile (\<lambda>s. fst s \<le> start) xs"
  define dw where "dw = dropWhile (\<lambda>s. fst s \<le> start) xs"
  have "?tw \<noteq> []" using assms by (cases xs) (auto simp: wf_tl_def origin_def)
  then obtain p l where tw: "?tw = p @ [l]" by (metis rev_exhaust)
  have xs: "p @ l # dw = xs"
    using takeWhile_dropWhile_id[of "\<lambda>s. fst s \<le> start" xs] tw by (simp add: dw_def)
  have "drop (upper_bound xs start - 1) (p @ l # dw) = l # dw"
    by (simp add: upper_bound_def tw)
  then have "drop (upper_bound xs start - 1) xs = l # dw" unfolding xs .
  moreover have "l \<in> set ?tw" unfolding tw by simp
  then have "fst l \<le> start" by (auto dest: set_takeWhileD)
  moreover have "sorted_wrt (<) (map fst (p @ l # dw))" unfolding xs using assms(1) by (simp add: wf_tl_def)
  moreover have "dw \<noteq> [] \<longrightarrow> start < fst (hd dw)"
    using hd_dropWhile_not[of "\<lambda>s. fst s \<le> start" xs] by (simp add: dw_def not_le)
  ultimately show ?thesis by (simp add: at_start_def sorted_wrt_append)
qed

lemma least_fit_suffix:
  assumes "sorted_wrt (<) (map fst (as @ bs))" "bs \<noteq> []" "fst (hd bs) \<le> start"
  shows "least_fit (as @ bs) n d start r = least_fit bs n d start r"
proof -
  have "fits (as @ bs) n d s = fits bs n d s" if "start \<le> s" for s
    using fits_suffix[OF assms(1,2)] assms(3) that by simp
  then show ?thesis by (cases r) (auto simp: least_fit_def)
qed

lemma fits_point: "d \<le> 0 \<Longrightarrow> fits xs n d s \<longleftrightarrow> n \<le> cap xs s"
  using dbl_add_nonpos[of d s] by (auto simp: fits_def)

lemma cap_prefix_bad:
  assumes "sorted_wrt (<) (map fst (bad @ nxt))" "\<forall>x\<in>set bad. snd x < n" "bad \<noteq> []"
    and "nxt \<noteq> [] \<longrightarrow> s < fst (hd nxt)"
  shows "cap (bad @ nxt) s < n"
proof -
  have "cap (bad @ nxt) s = cap bad s" using assms by (cases nxt) (auto simp: cap_append)
  then show ?thesis using cap_in_set[OF assms(3), of s] assms(2) by auto
qed

lemma point_query_least:
  assumes st: "at_start seg start" and d: "d \<le> 0"
  shows "least_fit seg n d start (case dropWhile (\<lambda>s. snd s < n) seg of [] \<Rightarrow> None
    | s # _ \<Rightarrow> Some (if fst s \<le> start then start else fst s))"
proof -
  define bad nxt where "bad = takeWhile (\<lambda>s. snd s < n) seg" and "nxt = dropWhile (\<lambda>s. snd s < n) seg"
  have seg: "bad @ nxt = seg" by (simp add: bad_def nxt_def)
  have sorted: "sorted_wrt (<) (map fst (bad @ nxt))" unfolding seg using st by (simp add: at_start_def)
  have bad: "\<forall>x\<in>set bad. snd x < n" by (auto simp: bad_def dest: set_takeWhileD)
  have none: "cap seg s < n" if "bad \<noteq> []" "nxt \<noteq> [] \<longrightarrow> s < fst (hd nxt)" for s
    using cap_prefix_bad[OF sorted bad that] seg by simp
  have "least_fit seg n d start (case nxt of [] \<Rightarrow> None
    | s # _ \<Rightarrow> Some (if fst s \<le> start then start else fst s))"
  proof (cases nxt)
    case Nil
    with seg st have "bad \<noteq> []" by (auto simp: at_start_def)
    with Nil show ?thesis using none d by (simp add: least_fit_def fits_point not_le)
  next
    case (Cons b bs)
    have nb: "n \<le> snd b" using hd_dropWhile_not[of "\<lambda>s. snd s < n" seg] Cons
      by (simp add: nxt_def not_less del: dropWhile_eq_Nil_conv)
    show ?thesis
    proof (cases "bad = []")
      case True
      with seg Cons have "seg = b # bs" by simp
      then show ?thesis using Cons nb d st at_start_cap[OF st]
        by (auto simp: least_fit_def fits_point at_start_def)
    next
      case False
      have "cap seg (fst b) = snd b"
        using cap_suffix[of bad nxt "fst b"] cap_hd[of nxt] sorted Cons seg
        by (simp add: origin_def sorted_wrt_append)
      moreover have "start < fst b"
      proof -
        have "b \<in> set (tl seg)" using seg False Cons by auto
        then show ?thesis using st by (cases seg; cases "tl seg") (auto simp: at_start_def)
      qed
      ultimately show ?thesis using Cons none[OF False] nb d
        by (auto simp: least_fit_def fits_point not_le)
    qed
  qed
  then show ?thesis by (simp add: nxt_def)
qed

theorem earliest_fit_least:
  assumes "wf_tl xs" "origin xs \<le> start"
  shows "least_fit xs n d start (earliest_fit xs n d start)"
proof -
  let ?seg = "drop (upper_bound xs start - 1) xs"
  have st: "at_start ?seg start" using assms by (rule at_start_drop)
  have "least_fit ?seg n d start (earliest_fit xs n d start)"
    using st assms(1) point_query_least[OF st] earliest_loop_least[OF st]
    by (simp add: earliest_fit_def wf_tl_def Let_def)
  moreover have "sorted_wrt (<) (map fst (take (upper_bound xs start - 1) xs @ ?seg))"
    using assms(1) by (simp add: wf_tl_def)
  ultimately show ?thesis
    using least_fit_suffix[of "take (upper_bound xs start - 1) xs" ?seg start n d] st
    by (simp add: at_start_def)
qed

lemma least_fit_unique: "least_fit xs n d start r \<Longrightarrow> least_fit xs n d start r' \<Longrightarrow> r = r'"
  by (cases r; cases r') (auto simp: least_fit_def, meson linorder_neqE)

lemma earliest_fit_eqI:
  "wf_tl xs \<Longrightarrow> origin xs \<le> start \<Longrightarrow> least_fit xs n d start r \<Longrightarrow> earliest_fit xs n d start = r"
  using earliest_fit_least least_fit_unique by blast

lemma earliest_fit_SomeD:
  assumes "wf_tl xs" "origin xs \<le> start" "earliest_fit xs n d start = Some s"
  shows "start \<le> s" "fits xs n d s"
  using earliest_fit_least[OF assms(1,2), of n d] assms(3) by (simp_all add: least_fit_def)

lemma can_fit_iff: "wf_tl xs \<Longrightarrow> origin xs \<le> start \<Longrightarrow> can_fit xs start n d \<longleftrightarrow> fits xs n d start"
  using earliest_fit_SomeD(2)[of xs start n d start] earliest_fit_eqI[of xs start n d "Some start"]
  by (auto simp: can_fit_def least_fit_def not_less[symmetric])

section \<open>Reserving an interval\<close>

lemma cap_merge:
  "sorted_wrt (<) (map fst (pre @ x # y # post)) \<Longrightarrow> snd x = snd y \<Longrightarrow>
   cap (pre @ x # y # post) t = cap (pre @ x # post) t"
proof (induction pre)
  case Nil
  then show ?case by (cases post) (auto simp: cap_Cons)
next
  case (Cons a pre)
  then show ?case by (cases pre) (auto simp: cap_Cons)
qed

lemma coalesce_correct:
  assumes "wf_tl xs" "b < length xs"
  shows "wf_tl (snd (coalesce b xs))" "origin (snd (coalesce b xs)) = origin xs"
    "cap (snd (coalesce b xs)) t = cap xs t"
    "length (snd (coalesce b xs)) = length xs - (if fst (coalesce b xs) then 1 else 0)"
    "fst (coalesce b xs) \<Longrightarrow> 0 < b"
proof -
  have "wf_tl (snd (coalesce b xs)) \<and> origin (snd (coalesce b xs)) = origin xs \<and>
    cap (snd (coalesce b xs)) t = cap xs t \<and>
    length (snd (coalesce b xs)) = length xs - (if fst (coalesce b xs) then 1 else 0)"
  proof (cases "b \<noteq> 0 \<and> snd (xs ! (b - 1)) = snd (xs ! b)")
    case True
    then obtain c where c: "b = Suc c" by (cases b) auto
    have xs: "take c xs @ xs ! c # xs ! b # drop (Suc b) xs = xs"
      using assms(2) c by (simp add: Cons_nth_drop_Suc flip: id_take_nth_drop)
    have ys: "take b xs @ drop (Suc b) xs = take c xs @ xs ! c # drop (Suc b) xs"
      using assms(2) c by (simp add: take_Suc_conv_app_nth)
    have sorted: "sorted_wrt (<) (map fst (take c xs @ xs ! c # xs ! b # drop (Suc b) xs))"
      unfolding xs using assms(1) by (simp add: wf_tl_def)
    then have "sorted_wrt (<) (map fst (take b xs @ drop (Suc b) xs))"
      unfolding ys by (auto simp: sorted_wrt_append)
    moreover have "cap xs t = cap (take b xs @ drop (Suc b) xs) t"
      using cap_merge[OF sorted, of t] True c unfolding ys xs by simp
    ultimately show ?thesis using True assms c
      by (auto simp: coalesce_def wf_tl_def origin_def hd_append)
  qed (use assms in \<open>auto simp: coalesce_def\<close>)
  then show "wf_tl (snd (coalesce b xs))" "origin (snd (coalesce b xs)) = origin xs"
    "cap (snd (coalesce b xs)) t = cap xs t"
    "length (snd (coalesce b xs)) = length xs - (if fst (coalesce b xs) then 1 else 0)"
    by auto
  show "fst (coalesce b xs) \<Longrightarrow> 0 < b" by (auto simp: coalesce_def split: if_splits)
qed

lemma split_at_correct:
  assumes "wf_tl xs" "origin xs \<le> t"
  obtains v bs where "split_at xs t =
      (length (takeWhile (\<lambda>s. fst s < t) xs), takeWhile (\<lambda>s. fst s < t) xs @ (t, v) # bs)"
    "wf_tl (takeWhile (\<lambda>s. fst s < t) xs @ (t, v) # bs)"
    "\<And>u. cap (takeWhile (\<lambda>s. fst s < t) xs @ (t, v) # bs) u = cap xs u"
    "origin (takeWhile (\<lambda>s. fst s < t) xs @ (t, v) # bs) = origin xs"
proof -
  define as cs where "as = takeWhile (\<lambda>s. fst s < t) xs" and "cs = dropWhile (\<lambda>s. fst s < t) xs"
  have xs: "as @ cs = xs" by (simp add: as_def cs_def)
  have sorted: "sorted_wrt (<) (map fst (as @ cs))" unfolding xs using assms(1) by (simp add: wf_tl_def)
  have lt: "\<forall>x\<in>set as. fst x < t" by (auto simp: as_def dest: set_takeWhileD)
  have ge: "cs \<noteq> [] \<Longrightarrow> t \<le> fst (hd cs)"
    using hd_dropWhile_not[of "\<lambda>s. fst s < t" xs] by (auto simp: cs_def simp del: dropWhile_eq_Nil_conv)
  have lb: "lower_bound (as @ cs) t = length as" unfolding xs by (simp add: lower_bound_def as_def)
  show ?thesis
  proof (cases "cs = [] \<or> fst (hd cs) \<noteq> t")
    case True
    have "as \<noteq> []"
    proof
      assume "as = []"
      with xs have "cs = xs" by simp
      with True ge assms show False by (auto simp: wf_tl_def origin_def)
    qed
    then obtain p l where as: "as = p @ [l]" by (metis rev_exhaust)
    have gt: "\<forall>x\<in>set cs. t < fst x"
      using True ge sorted by (cases cs) (auto simp: sorted_wrt_append)
    have sp: "split_at xs t = (length as, as @ (t, snd l) # cs)"
      unfolding xs[symmetric] split_at_def lb Let_def
      using True by (cases cs) (auto simp: as nth_append)
    have sorted': "sorted_wrt (<) (map fst (p @ l # (t, snd l) # cs))"
      using sorted lt gt as by (auto simp: sorted_wrt_append)
    have "cap (as @ (t, snd l) # cs) u = cap xs u" for u
      using cap_merge[OF sorted', of u] as xs by (metis append.assoc append_Cons append_Nil snd_conv)
    moreover have "wf_tl (as @ (t, snd l) # cs)" using sorted' as by (simp add: wf_tl_def)
    moreover have "origin (as @ (t, snd l) # cs) = origin xs"
      unfolding xs[symmetric] as by (simp add: origin_def hd_append)
    ultimately show ?thesis using sp that[of "snd l" cs, folded as_def] by blast
  next
    case False
    then obtain v bs where cs: "cs = (t, v) # bs" by (cases cs) auto
    have sp: "split_at xs t = (length as, as @ (t, v) # bs)"
      unfolding xs[symmetric] split_at_def lb Let_def by (simp add: cs nth_append)
    with sorted cs xs that[of v bs] assms(1) show ?thesis
      unfolding as_def[symmetric] by (auto simp: sorted_wrt_append wf_tl_def)
  qed
qed

text \<open>The subtraction between two boundaries that are in the list.\<close>

lemma cap_sub_range:
  assumes "sorted_wrt (<) (map fst (as @ mid @ b # bs))" "mid \<noteq> []" "as = [] \<longrightarrow> fst (hd mid) \<le> t"
  shows "cap (as @ map (\<lambda>s. (fst s, snd s - n)) mid @ b # bs) t =
    (if fst (hd mid) \<le> t \<and> t < fst b then cap (as @ mid @ b # bs) t - n else cap (as @ mid @ b # bs) t)"
proof -
  have eq: "cap (as @ m # mid' @ b # bs) t =
    (if fst b \<le> t then cap (b # bs) t else if fst m \<le> t then cap (m # mid') t else cap as t)"
    if "sorted_wrt (<) (map fst (as @ m # mid' @ b # bs))" "as = [] \<longrightarrow> fst m \<le> t" for m mid'
  proof -
    have "cap (as @ m # mid' @ b # bs) t =
      (if fst m \<le> t then cap (m # mid' @ b # bs) t else cap as t)"
      using that cap_append[of as m "mid' @ b # bs" t] by (cases "as = []") auto
    moreover have "cap (m # mid' @ b # bs) t = (if fst b \<le> t then cap (b # bs) t else cap (m # mid') t)"
      using that cap_append[of "m # mid'" b bs t] by (auto simp: sorted_wrt_append)
    moreover have "fst m < fst b" using that(1) by (auto simp: sorted_wrt_append)
    ultimately show ?thesis by auto
  qed
  obtain m mid' where mid: "mid = m # mid'" using assms(2) by (cases mid) auto
  let ?f = "\<lambda>s. (fst s, snd s - n) :: segment"
  have "map fst (map ?f mid) = map fst mid" by simp
  then have sorted': "sorted_wrt (<) (map fst (as @ ?f m # map ?f mid' @ b # bs))"
    using assms(1) mid by (simp add: comp_def)
  show ?thesis
    using eq[of m mid'] eq[OF sorted'] assms(1,3) mid cap_map_snd[of "m # mid'" "\<lambda>v. v - n" t]
    by (auto simp: not_le)
qed

text \<open>Both boundaries of the interval are in the list after the two splits, and no capacity has changed.\<close>

lemma two_splits:
  assumes wf: "wf_tl xs" and o: "origin xs \<le> start" and se: "start \<le> stop"
  obtains as mid w cs ys where "split_at xs start = (length as, ys)"
    "split_at ys stop = (length (as @ mid), as @ mid @ (stop, w) # cs)"
    "wf_tl (as @ mid @ (stop, w) # cs)" "\<And>u. cap (as @ mid @ (stop, w) # cs) u = cap xs u"
    "origin (as @ mid @ (stop, w) # cs) = origin xs"
    "mid = [] \<longleftrightarrow> stop = start" "mid \<noteq> [] \<longrightarrow> fst (hd mid) = start"
proof -
  define as where "as = takeWhile (\<lambda>s. fst s < start) xs"
  obtain v bs where 1: "split_at xs start = (length as, as @ (start, v) # bs)"
    "wf_tl (as @ (start, v) # bs)" "\<And>u. cap (as @ (start, v) # bs) u = cap xs u"
    "origin (as @ (start, v) # bs) = origin xs"
    by (rule split_at_correct[OF wf o, folded as_def]) blast
  define mid where "mid = takeWhile (\<lambda>s. fst s < stop) ((start, v) # bs)"
  have lt: "\<forall>x\<in>set as. fst x < stop" using se by (auto simp: as_def dest!: set_takeWhileD)
  then have tw: "takeWhile (\<lambda>s. fst s < stop) (as @ (start, v) # bs) = as @ mid"
    by (simp add: mid_def takeWhile_append)
  have o2: "origin (as @ (start, v) # bs) \<le> stop" using o se 1(4) by simp
  obtain w cs where 2: "split_at (as @ (start, v) # bs) stop =
      (length (as @ mid), as @ mid @ (stop, w) # cs)"
    "wf_tl (as @ mid @ (stop, w) # cs)"
    "\<And>u. cap (as @ mid @ (stop, w) # cs) u = cap (as @ (start, v) # bs) u"
    "origin (as @ mid @ (stop, w) # cs) = origin (as @ (start, v) # bs)"
    by (rule split_at_correct[OF 1(2) o2, unfolded tw append_assoc]) blast
  have "mid = [] \<longleftrightarrow> stop = start" "mid \<noteq> [] \<longrightarrow> fst (hd mid) = start"
    using se by (auto simp: mid_def)
  with that[OF 1(1) 2(1,2)] 1(3,4) 2(3,4) show thesis by simp
qed

text \<open>The subtraction from the interval between the boundaries.\<close>

lemma subtract_correct:
  assumes wf: "wf_tl xs" and o: "origin xs \<le> start" and d: "0 \<le> d"
  obtains as mid w cs xs1 ys where "split_at xs start = (length as, xs1)"
    "split_at xs1 (start + d) = (length (as @ mid), as @ mid @ (start + d, w) # cs)"
    "ys = as @ map (\<lambda>s. (fst s, snd s - n)) mid @ (start + d, w) # cs"
    "\<forall>x\<in>set as. fst x < start" "\<forall>x\<in>set mid. fst x < start + d"
    "fst (hd (mid @ (start + d, w) # cs)) = start" "wf_tl ys" "origin ys = origin xs"
    "\<forall>t. origin xs \<le> t \<longrightarrow> cap ys t = (if start \<le> t \<and> t < start + d then cap xs t - n else cap xs t)"
proof -
  have "start \<le> start + d" using d by (simp add: dbl_le_add)
  from two_splits[OF wf o this] obtain as mid w cs xs1 where sp:
    "split_at xs start = (length as, xs1)"
    "split_at xs1 (start + d) = (length (as @ mid), as @ mid @ (start + d, w) # cs)"
    and w: "wf_tl (as @ mid @ (start + d, w) # cs)" "\<And>u. cap (as @ mid @ (start + d, w) # cs) u = cap xs u"
    "origin (as @ mid @ (start + d, w) # cs) = origin xs"
    and mid: "mid = [] \<longleftrightarrow> start + d = start" "mid \<noteq> [] \<longrightarrow> fst (hd mid) = start"
    by metis
  define ys where "ys = as @ map (\<lambda>s. (fst s, snd s - n)) mid @ (start + d, w) # cs"
  have fst_ys: "map fst ys = map fst (as @ mid @ (start + d, w) # cs)" by (simp add: ys_def comp_def)
  then have wf_ys: "wf_tl ys" using w(1) unfolding wf_tl_def by (metis map_is_Nil_conv)
  have o_ys: "origin ys = origin xs"
    using w(3) mid(2) by (cases as; cases mid) (auto simp: origin_def ys_def)
  have cap_ys: "cap ys t = (if start \<le> t \<and> t < start + d then cap xs t - n else cap xs t)"
    if "origin xs \<le> t" for t
  proof (cases "mid = []")
    case True
    then have "ys = as @ mid @ (start + d, w) # cs" by (simp add: ys_def)
    then show ?thesis using True mid w(2) by auto
  next
    case ne: False
    have "as = [] \<longrightarrow> start \<le> t" using that w(3) mid(2) ne by (auto simp: origin_def)
    then show ?thesis using cap_sub_range[of as mid "(start + d, w)" cs t n] w ne mid(2)
      by (simp add: ys_def wf_tl_def)
  qed
  have key: "fst (hd (mid @ (start + d, w) # cs)) = start" using mid by (cases mid) auto
  have sorted: "sorted_wrt (<) (map fst (as @ mid @ (start + d, w) # cs))" using w(1) by (simp add: wf_tl_def)
  then have "\<forall>x\<in>set as. \<forall>y\<in>set (mid @ (start + d, w) # cs). fst x < fst y"
    unfolding sorted_wrt_map sorted_wrt_append by auto
  moreover have "hd (mid @ (start + d, w) # cs) \<in> set (mid @ (start + d, w) # cs)" by (rule hd_in_set) simp
  ultimately have "\<forall>x\<in>set as. fst x < start" using key by metis
  moreover have "\<forall>x\<in>set mid. fst x < start + d" using sorted by (simp add: sorted_wrt_map sorted_wrt_append)
  ultimately show thesis using that[OF sp ys_def] key wf_ys o_ys cap_ys by simp
qed

lemma reserve_correct:
  assumes wf: "wf_tl xs" and o: "origin xs \<le> start"
  shows "wf_tl (reserve xs start n d) \<and> origin (reserve xs start n d) = origin xs \<and>
    (\<forall>t. origin xs \<le> t \<longrightarrow> cap (reserve xs start n d) t =
      (if start \<le> t \<and> t < start + d then cap xs t - n else cap xs t))"
proof (cases "d \<le> 0")
  case True
  then show ?thesis using wf by (auto simp: reserve_def dest: dbl_interval_empty)
next
  case False
  then have d: "0 \<le> d" by simp
  obtain as mid w cs xs1 ys where sp: "split_at xs start = (length as, xs1)"
    "split_at xs1 (start + d) = (length (as @ mid), as @ mid @ (start + d, w) # cs)"
    and ys: "ys = as @ map (\<lambda>s. (fst s, snd s - n)) mid @ (start + d, w) # cs"
    and keys: "\<forall>x\<in>set as. fst x < start" "\<forall>x\<in>set mid. fst x < start + d" "fst (hd (mid @ (start + d, w) # cs)) = start"
    and laws: "wf_tl ys" "origin ys = origin xs"
    "\<forall>t. origin xs \<le> t \<longrightarrow> cap ys t = (if start \<le> t \<and> t < start + d then cap xs t - n else cap xs t)"
    by (rule subtract_correct[OF wf o d, of n]) blast
  define zs where "zs = snd (coalesce (length as) ys)"
  let ?hi = "if fst (coalesce (length as) ys) then length (as @ mid) - 1 else length (as @ mid)"
  have len: "length as < length ys" by (simp add: ys)
  note c1 = coalesce_correct[OF laws(1) len, folded zs_def]
  have "?hi < length zs" using c1(4,5) len by (cases as) (auto simp: ys)
  note c2 = coalesce_correct[OF c1(1) this]
  have "reserve xs start n d = snd (coalesce ?hi zs)"
    using False sp by (simp add: reserve_def Let_def case_prod_beta zs_def sub_range_def ys)
  then show ?thesis using c1 c2 laws by simp
qed

lemma wf_reserve [simp]: "wf_tl xs \<Longrightarrow> origin xs \<le> start \<Longrightarrow> wf_tl (reserve xs start n d)"
  using reserve_correct by blast

lemma origin_reserve [simp]: "wf_tl xs \<Longrightarrow> origin xs \<le> start \<Longrightarrow> origin (reserve xs start n d) = origin xs"
  using reserve_correct by blast

lemma cap_reserve [tl_simps]:
  "wf_tl xs \<Longrightarrow> origin xs \<le> start \<Longrightarrow> origin xs \<le> t \<Longrightarrow>
   cap (reserve xs start n d) t = (if start \<le> t \<and> t < start + d then cap xs t - n else cap xs t)"
  using reserve_correct by blast

text \<open>A reservation that fits does not wrap: it only lowers the profile, so no request can start
  earlier after it.\<close>

lemma reserve_fits_le:
  assumes "wf_tl xs" "origin xs \<le> start" "fits xs n d start" "origin xs \<le> t"
  shows "cap (reserve xs start n d) t \<le> cap xs t"
proof -
  have "n \<le> cap xs t" if "start \<le> t" "t < start + d" using assms(3) that by (simp add: fits_def)
  then show ?thesis using assms by (simp add: tl_simps word_sub_le)
qed

lemma fits_mono:
  "(\<And>t. s \<le> t \<Longrightarrow> cap ys t \<le> cap xs t) \<Longrightarrow> fits ys n d s \<Longrightarrow> fits xs n d s"
  unfolding fits_def by (meson order_trans order_refl)

lemma fits_shorter: "e \<le> d \<Longrightarrow> fits xs n d s \<Longrightarrow> fits xs n e s"
  unfolding fits_def by (meson dbl_add_right_mono less_le_trans)

lemma fits_reserve_imp:
  "wf_tl xs \<Longrightarrow> origin xs \<le> start \<Longrightarrow> fits xs n d start \<Longrightarrow> origin xs \<le> s \<Longrightarrow>
   fits (reserve xs start n d) m e s \<Longrightarrow> fits xs m e s"
  by (rule fits_mono[rotated]) (auto intro: reserve_fits_le order_trans)

section \<open>Evaluation\<close>

lemmas timeline_eval [eval_simps] = lower_bound_def upper_bound_def split_at_def earliest_loop.simps
  earliest_fit_def can_fit_def sub_range_def coalesce_def reserve_def

end
