(* ===== verification/Scheduler_Base.thy ===== *)
theory Scheduler_Base
  imports Timeline
begin

text \<open>
  \<^verbatim>\<open>SchedulerBase\<close> (\<^verbatim>\<open>src/src/sim/scheduler_base.hpp\<close> and \<^verbatim>\<open>scheduler_base.cpp\<close>): the state every
  scheduler shares, the planning helpers, the projection of the free-node profile from the running
  jobs and the scheduled capacity changes, the head reservation, and the drain-time prediction.  The
  concrete schedulers extend the record \<open>scheduler_base\<close>, as their classes extend the base class.

  The capacity range that the code keeps as two pointers is the list of the changes in it.  The signed
  64-bit balance is an \<^typ>\<open>int\<close>: it is a sum of at most as many 32-bit node counts as there are jobs.
\<close>

section \<open>State\<close>

record running_job =
  rj_start_time :: sim_time
  rj_run_time :: tdiff
  rj_nodes :: num_nodes

type_synonym running_jobs = "(job_no \<times> running_job) list"
type_synonym projected_starts = "running_job list"

record capacity_change =
  cc_time :: sim_time
  cc_total_nodes :: num_nodes

record scheduler_base =
  m_total_nodes :: num_nodes
  m_backfill_policy :: backfill_policy
  m_fcfs_reservation_time :: sim_time
  m_planning_time_resolution :: tdiff
  m_outlook_capacity :: num_nodes
  m_outlook_occupied :: num_nodes
  m_outlook_changes :: "capacity_change list"
  m_planning_horizon :: tdiff

definition new_base :: "num_nodes \<Rightarrow> backfill_policy \<Rightarrow> scheduler_base" where
  "new_base total_nodes bf = \<lparr>m_total_nodes = total_nodes, m_backfill_policy = bf, m_fcfs_reservation_time = 0,
     m_planning_time_resolution = 0, m_outlook_capacity = 0, m_outlook_occupied = 0,
     m_outlook_changes = [], m_planning_horizon = dbl_max\<rparr>"

section \<open>Setters and planning helpers\<close>

definition set_planning_time_resolution :: "tdiff \<Rightarrow> 'a scheduler_base_scheme \<Rightarrow> 'a scheduler_base_scheme" where
  "set_planning_time_resolution r s = s\<lparr>m_planning_time_resolution := r\<rparr>"

definition set_planning_horizon :: "tdiff \<Rightarrow> 'a scheduler_base_scheme \<Rightarrow> exn + 'a scheduler_base_scheme" where
  "set_planning_horizon h s =
     (if \<not> isfinite h \<or> h < 0 then Inl Invalid_Argument else Inr (s\<lparr>m_planning_horizon := h\<rparr>))"

definition reservation_within_horizon :: "'a scheduler_base_scheme \<Rightarrow> sim_time \<Rightarrow> sim_time \<Rightarrow> bool" where
  "reservation_within_horizon s r now \<longleftrightarrow>
     (if r = dbl_max then False else r - now \<le> m_planning_horizon s)"

definition release_estimate :: "'a scheduler_base_scheme \<Rightarrow> sim_time \<Rightarrow> tdiff \<Rightarrow> tdiff" where
  "release_estimate s start rte =
     (let release_time = start + rte;
          release_time = (if m_planning_time_resolution s \<noteq> 0
                          then dbl_ceil (release_time / m_planning_time_resolution s) * m_planning_time_resolution s
                          else release_time)
      in release_time - start)"

text \<open>The scan of \<^verbatim>\<open>queue_depth_scan_end\<close>: the number of entries it steps over, from the entries in
  the index range and their \<^verbatim>\<open>removed\<close> flags.\<close>

fun depth_walk :: "nat \<Rightarrow> bool list \<Rightarrow> nat" where
  "depth_walk remaining [] = 0"
| "depth_walk remaining (r # rs) =
     (if remaining > 0 then Suc (depth_walk (if r then remaining else remaining - 1) rs) else 0)"

definition queue_depth_scan_end :: "bool list \<Rightarrow> nat \<Rightarrow> nat \<Rightarrow> nat \<Rightarrow> bool \<Rightarrow> nat" where
  "queue_depth_scan_end removed_flags b e queue_depth head_planned =
     (if queue_depth = 0 then e
      else b + depth_walk (queue_depth - (if head_planned then 1 else 0)) (drop b (take e removed_flags)))"

definition set_capacity_outlook ::
  "num_nodes \<Rightarrow> num_nodes \<Rightarrow> capacity_change list \<Rightarrow> 'a scheduler_base_scheme \<Rightarrow> 'a scheduler_base_scheme" where
  "set_capacity_outlook current_capacity occupied changes s =
     s\<lparr>m_outlook_capacity := current_capacity, m_outlook_occupied := occupied, m_outlook_changes := changes\<rparr>"

section \<open>The projected profile\<close>

definition end_time :: "running_job \<Rightarrow> sim_time" where
  "end_time j = rj_start_time j + rj_run_time j"

definition release_deltas :: "sim_time \<Rightarrow> running_job list \<Rightarrow> (sim_time \<times> int) list" where
  "release_deltas now js = map (\<lambda>j. (end_time j, uint (rj_nodes j))) (filter (\<lambda>j. now < end_time j) js)"

definition initial_balance :: "'a scheduler_base_scheme \<Rightarrow> num_nodes \<Rightarrow> int" where
  "initial_balance s free =
     (if free = 0 \<and> m_outlook_capacity s < m_outlook_occupied s
      then uint (m_outlook_capacity s) - uint (m_outlook_occupied s) else uint free)"

text \<open>The two loops over the scheduled changes: those already due only move the reference capacity.\<close>

fun skip_due :: "sim_time \<Rightarrow> num_nodes \<Rightarrow> capacity_change list \<Rightarrow> num_nodes \<times> capacity_change list" where
  "skip_due now ref [] = (ref, [])"
| "skip_due now ref (c # cs) =
     (if cc_time c \<le> now then skip_due now (cc_total_nodes c) cs else (ref, c # cs))"

fun change_deltas :: "sim_time \<Rightarrow> num_nodes \<Rightarrow> capacity_change list \<Rightarrow> (sim_time \<times> int) list" where
  "change_deltas now ref [] = []"
| "change_deltas now ref (c # cs) =
     (if now < cc_time c then [(cc_time c, uint (cc_total_nodes c) - uint ref)] else []) @
     change_deltas now (cc_total_nodes c) cs"

definition clamp :: "int \<Rightarrow> num_nodes" where
  "clamp v = (if v > 0 then word_of_int v else 0)"

text \<open>The coalescing loop: deltas of one timestamp are netted before the balance is sampled.\<close>

function profile_loop :: "int \<Rightarrow> (sim_time \<times> int) list \<Rightarrow> segment list" where
  "profile_loop balance [] = []"
| "profile_loop balance (x # xs) =
     (let same = takeWhile (\<lambda>y. fst y = fst x) xs;
          balance' = balance + (snd x + sum_list (map snd same))
      in (fst x, clamp balance') # profile_loop balance' (dropWhile (\<lambda>y. fst y = fst x) xs))"
  by pat_completeness auto
termination
  by (relation "measure (\<lambda>(b, xs). length xs)") (auto simp: less_Suc_eq_le length_dropWhile_le)

definition reservation_timeline ::
  "'a scheduler_base_scheme \<Rightarrow> num_nodes \<Rightarrow> running_jobs \<Rightarrow> sim_time \<Rightarrow> projected_starts \<Rightarrow> segment list" where
  "reservation_timeline s free running now projected =
     (let released = release_deltas now (map snd running) @ release_deltas now projected;
          balance = initial_balance s free;
          (ref, changes) = skip_due now (m_outlook_capacity s) (m_outlook_changes s);
          deltas = sort (released @ change_deltas now ref changes)
      in (now, clamp balance) # profile_loop balance deltas)"

definition value_or_max :: "sim_time option \<Rightarrow> sim_time" where
  "value_or_max r = (case r of None \<Rightarrow> dbl_max | Some t \<Rightarrow> t)"

definition calculate_fcfs_reservation ::
  "'a scheduler_base_scheme \<Rightarrow> num_nodes \<Rightarrow> num_nodes \<Rightarrow> running_jobs \<Rightarrow> sim_time \<Rightarrow> projected_starts \<Rightarrow> sim_time" where
  "calculate_fcfs_reservation s needed free running now projected =
     value_or_max (earliest_fit (reservation_timeline s free running now projected) needed 0 now)"

section \<open>Drain-time prediction\<close>

text \<open>\<^verbatim>\<open>releases_by_time[end] += nodes\<close> on the ordered map, and the two loops of \<^verbatim>\<open>prediction_horizon\<close>.\<close>

fun add_release :: "sim_time \<Rightarrow> num_nodes \<Rightarrow> (sim_time \<times> num_nodes) list \<Rightarrow> (sim_time \<times> num_nodes) list" where
  "add_release t n [] = [(t, n)]"
| "add_release t n ((u, m) # rs) =
     (if t < u then (t, n) # (u, m) # rs else if t = u then (u, m + n) # rs else (u, m) # add_release t n rs)"

fun collect_releases ::
  "sim_time \<Rightarrow> double \<Rightarrow> (sim_time \<times> num_nodes) list \<Rightarrow> running_job list \<Rightarrow> double \<times> (sim_time \<times> num_nodes) list" where
  "collect_releases shadow avail rel [] = (avail, rel)"
| "collect_releases shadow avail rel (j # js) =
     (if shadow < end_time j
      then collect_releases shadow (avail - dbl (uint (rj_nodes j))) (add_release (end_time j) (rj_nodes j) rel) js
      else collect_releases shadow avail rel js)"

fun drain_loop ::
  "double \<Rightarrow> sim_time \<Rightarrow> tdiff \<Rightarrow> double \<Rightarrow> num_nodes \<Rightarrow> tdiff \<Rightarrow> sim_time \<Rightarrow> (sim_time \<times> num_nodes) list \<Rightarrow> tdiff" where
  "drain_loop util shadow queued avail total_nodes usable previous [] =
     previous - shadow + (queued - usable) / (util * dbl (uint total_nodes))"
| "drain_loop util shadow queued avail total_nodes usable previous ((t, n) # rs) =
     (let usable' = usable + util * avail * (t - previous) in
      if queued \<le> usable' then t - shadow
      else drain_loop util shadow queued (avail + dbl (uint n)) total_nodes usable' t rs)"

definition prediction_horizon ::
  "'a scheduler_base_scheme \<Rightarrow> tdiff option \<Rightarrow> running_jobs \<Rightarrow> sim_time \<Rightarrow> double \<Rightarrow> exn + tdiff" where
  "prediction_horizon s waiting_area running now utilization =
     (if m_backfill_policy s \<noteq> EASY then Inl Logic_Error
      else if \<not> isfinite utilization \<or> utilization < 0 \<or> 1 < utilization then Inl Invalid_Argument
      else case waiting_area of None \<Rightarrow> Inl Logic_Error
      | Some queued \<Rightarrow>
          if queued \<le> 0 then Inr 0
          else if m_total_nodes s = 0 then Inr dbl_inf
          else let util = (if utilization = 0 then 1 else utilization);
                   shadow = max now (m_fcfs_reservation_time s);
                   (avail, rel) = collect_releases shadow (dbl (uint (m_total_nodes s))) [] (map snd running)
               in Inr (drain_loop util shadow queued avail (m_total_nodes s) 0 shadow rel))"

section \<open>What the profile means\<close>

text \<open>The specification: the signed balance of free nodes at a time, from the releases up to then and
  the scheduled capacity in effect then.\<close>

fun sched_cap :: "num_nodes \<Rightarrow> capacity_change list \<Rightarrow> sim_time \<Rightarrow> num_nodes" where
  "sched_cap c [] t = c"
| "sched_cap c (x # xs) t = (if cc_time x \<le> t then sched_cap (cc_total_nodes x) xs t else c)"

definition released :: "sim_time \<Rightarrow> running_job list \<Rightarrow> sim_time \<Rightarrow> int" where
  "released now js t =
     sum_list (map (\<lambda>j. uint (rj_nodes j)) (filter (\<lambda>j. now < end_time j \<and> end_time j \<le> t) js))"

definition outlook_ok :: "'a scheduler_base_scheme \<Rightarrow> bool" where
  "outlook_ok s \<longleftrightarrow> sorted_wrt (<) (map cc_time (m_outlook_changes s))"

definition balance_at ::
  "'a scheduler_base_scheme \<Rightarrow> num_nodes \<Rightarrow> running_jobs \<Rightarrow> sim_time \<Rightarrow> projected_starts \<Rightarrow> sim_time \<Rightarrow> int" where
  "balance_at s free running now projected t =
     initial_balance s free + released now (map snd running) t + released now projected t +
     (uint (sched_cap (m_outlook_capacity s) (m_outlook_changes s) t) -
      uint (sched_cap (m_outlook_capacity s) (m_outlook_changes s) now))"

definition delta_sum :: "(sim_time \<times> int) list \<Rightarrow> sim_time \<Rightarrow> int" where
  "delta_sum xs t = sum_list (map snd (filter (\<lambda>x. fst x \<le> t) xs))"

lemma delta_sum_simps [simp]:
  "delta_sum [] t = 0"
  "delta_sum (x # xs) t = (if fst x \<le> t then snd x else 0) + delta_sum xs t"
  "delta_sum (xs @ ys) t = delta_sum xs t + delta_sum ys t"
  by (auto simp: delta_sum_def)

lemma delta_sum_sort [simp]: "delta_sum (sort xs) t = delta_sum xs t"
proof -
  have "mset (map snd (filter (\<lambda>x. fst x \<le> t) (sort xs))) = mset (map snd (filter (\<lambda>x. fst x \<le> t) xs))"
    by simp
  then show ?thesis unfolding delta_sum_def by (metis sum_mset_sum_list)
qed

lemma delta_sum_none: "\<forall>x\<in>set xs. t < fst x \<Longrightarrow> delta_sum xs t = 0"
  by (induction xs) auto

lemma delta_sum_same: "\<forall>x\<in>set xs. fst x \<le> t \<Longrightarrow> delta_sum xs t = sum_list (map snd xs)"
  by (induction xs) auto

lemma delta_sum_release: "delta_sum (release_deltas now js) t = released now js t"
  by (induction js) (auto simp: release_deltas_def released_def)

lemma profile_loop_correct:
  assumes "sorted (map fst xs)" "\<forall>x\<in>set xs. t0 < fst x"
  shows "sorted_wrt (<) (map fst ((t0, v) # profile_loop b xs)) \<and>
    (t0 \<le> t \<longrightarrow> cap ((t0, clamp b) # profile_loop b xs) t = clamp (b + delta_sum xs t))"
  using assms
proof (induction b xs arbitrary: t0 v rule: profile_loop.induct)
  case (2 b x xs)
  define same rest where "same = takeWhile (\<lambda>y. fst y = fst x) xs" and "rest = dropWhile (\<lambda>y. fst y = fst x) xs"
  have xs: "same @ rest = xs" by (simp add: same_def rest_def)
  have same: "\<forall>y\<in>set same. fst y = fst x" by (auto simp: same_def dest: set_takeWhileD)
  have sorted: "sorted (map fst (same @ rest))" "\<forall>y\<in>set (same @ rest). fst x \<le> fst y"
    unfolding xs using "2.prems"(1) by auto
  have rest: "\<forall>y\<in>set rest. fst x < fst y"
  proof (cases rest)
    case (Cons r rs)
    have "fst r \<noteq> fst x" using hd_dropWhile_not[of "\<lambda>y. fst y = fst x" xs] Cons
      by (simp add: rest_def del: dropWhile_eq_Nil_conv)
    then have "fst x < fst r" using sorted(2) Cons by auto
    then show ?thesis using sorted(1) Cons by (auto simp: sorted_append)
  qed simp
  let ?b = "b + (snd x + sum_list (map snd same))"
  have IH: "sorted_wrt (<) (map fst ((fst x, clamp ?b) # profile_loop ?b rest)) \<and>
    (fst x \<le> t \<longrightarrow> cap ((fst x, clamp ?b) # profile_loop ?b rest) t = clamp (?b + delta_sum rest t))"
    using "2.IH"[OF same_def refl, folded rest_def, of "fst x" "clamp ?b"] sorted(1) rest
    by (simp add: sorted_append)
  have step: "profile_loop b (x # xs) = (fst x, clamp ?b) # profile_loop ?b rest"
    by (simp add: same_def rest_def Let_def)
  have "delta_sum (x # xs) t = (if fst x \<le> t then snd x + sum_list (map snd same) + delta_sum rest t else 0)"
  proof (cases "fst x \<le> t")
    case True
    then show ?thesis using same delta_sum_same[of same t] unfolding xs[symmetric] by auto
  next
    case False
    with sorted(2) have "\<forall>y\<in>set (same @ rest). t < fst y" by force
    then show ?thesis using False delta_sum_none[of xs t] xs by simp
  qed
  then show ?case using IH "2.prems"(2) unfolding step by (auto simp: add.assoc)
qed simp

lemma skip_due_eq:
  "skip_due now ref cs = (sched_cap ref cs now, dropWhile (\<lambda>c. cc_time c \<le> now) cs)"
  by (induction now ref cs rule: skip_due.induct) auto

lemma sched_cap_drop:
  "now \<le> t \<Longrightarrow> sched_cap (sched_cap ref cs now) (dropWhile (\<lambda>c. cc_time c \<le> now) cs) t = sched_cap ref cs t"
  by (induction cs arbitrary: ref) auto

lemma delta_sum_changes:
  "sorted_wrt (<) (map cc_time cs) \<Longrightarrow> \<forall>c\<in>set cs. now < cc_time c \<Longrightarrow>
   delta_sum (change_deltas now ref cs) t = uint (sched_cap ref cs t) - uint ref"
proof (induction cs arbitrary: ref)
  case (Cons c cs)
  have "sched_cap r cs t = r" if "t < cc_time c" for r
    using that Cons.prems(1) by (cases cs) auto
  then show ?case using Cons by auto
qed simp

lemma change_deltas_after: "x \<in> set (change_deltas now ref cs) \<Longrightarrow> now < fst x"
  by (induction cs arbitrary: ref) (auto split: if_splits)

lemma dropWhile_after:
  "sorted_wrt (<) (map cc_time cs) \<Longrightarrow> c \<in> set (dropWhile (\<lambda>c. cc_time c \<le> now) cs) \<Longrightarrow> now < cc_time c"
  by (induction cs) (auto split: if_splits)

lemma sorted_dropWhile_changes:
  "sorted_wrt (<) (map cc_time cs) \<Longrightarrow> sorted_wrt (<) (map cc_time (dropWhile P cs))"
  by (induction cs) auto

lemma sorted_map_fst_sort: "sorted (map fst (sort (xs :: ('a::linorder \<times> 'b::linorder) list)))"
proof -
  have "sorted (map fst ys)" if "sorted ys" for ys :: "('a \<times> 'b) list"
    using that by (induction ys) (auto simp: less_eq_prod_def)
  then show ?thesis by simp
qed

lemma timeline_correct:
  "wf_tl (reservation_timeline s free running now projected) \<and>
   origin (reservation_timeline s free running now projected) = now \<and>
   (outlook_ok s \<longrightarrow> now \<le> t \<longrightarrow>
    cap (reservation_timeline s free running now projected) t =
    clamp (balance_at s free running now projected t))"
proof -
  let ?ref = "sched_cap (m_outlook_capacity s) (m_outlook_changes s) now"
  let ?cs = "dropWhile (\<lambda>c. cc_time c \<le> now) (m_outlook_changes s)"
  define ds where "ds = release_deltas now (map snd running) @ release_deltas now projected @
    change_deltas now ?ref ?cs"
  have tl: "reservation_timeline s free running now projected =
    (now, clamp (initial_balance s free)) # profile_loop (initial_balance s free) (sort ds)"
    by (simp add: reservation_timeline_def skip_due_eq ds_def Let_def)
  have after: "\<forall>x\<in>set (sort ds). now < fst x"
    by (auto simp: ds_def release_deltas_def dest: change_deltas_after)
  have sum: "initial_balance s free + delta_sum ds t = balance_at s free running now projected t"
    if "outlook_ok s" "now \<le> t"
    using that delta_sum_changes[of ?cs now ?ref t] sched_cap_drop[of now t]
      dropWhile_after[of "m_outlook_changes s" _ now]
    by (simp add: ds_def delta_sum_release balance_at_def outlook_ok_def sorted_dropWhile_changes)
  show ?thesis
    using profile_loop_correct[OF sorted_map_fst_sort after, of _ "initial_balance s free" t] sum tl
    by (auto simp: wf_tl_def origin_def)
qed

lemma wf_reservation_timeline [simp]: "wf_tl (reservation_timeline s free running now projected)"
  using timeline_correct by blast

lemma origin_reservation_timeline [simp]: "origin (reservation_timeline s free running now projected) = now"
  using timeline_correct by blast

lemma cap_reservation_timeline [tl_simps]:
  "outlook_ok s \<Longrightarrow> now \<le> t \<Longrightarrow> cap (reservation_timeline s free running now projected) t =
   clamp (balance_at s free running now projected t)"
  using timeline_correct by blast

lemma uint_clamp: "v < 2 ^ 32 \<Longrightarrow> uint (clamp v) = max 0 v"
  by (simp add: clamp_def uint_word_of_int_eq take_bit_int_eq_self)

section \<open>Evaluation\<close>

lemmas base_eval [eval_simps] = new_base_def reservation_within_horizon_def release_estimate_def
  queue_depth_scan_end_def end_time_def release_deltas_def initial_balance_def clamp_def
  reservation_timeline_def value_or_max_def calculate_fcfs_reservation_def scheduler_base.defs

end
