(* ===== verification/Easy_Deque.thy ===== *)
theory Easy_Deque
  imports Scheduler_Base
begin

text \<open>
  \<^verbatim>\<open>FCFSEasyDequeScheduler\<close> (\<^verbatim>\<open>src/src/sim/scheduler_fcfs_easy_deque.hpp\<close> and \<^verbatim>\<open>.cpp\<close>): the arrival-ordered
  wait queue with lazy deletion, its garbage collection, and one EASY scheduling pass.  The loops of
  the pass are recursions over the entries they visit; the queue they leave behind is reassembled from
  the visited entries and the rest.  The functions are polymorphic in the record extension, so the
  classes with the same fields can reuse the loops.  The build option \<^verbatim>\<open>DR_EVT_LEGACY_RESERVATION_BARRIER\<close> is off by
  default; the default branch is the one modelled.
\<close>

section \<open>State\<close>

record job_entry =
  job_id :: job_no
  submit_time :: sim_time
  run_time_estimate :: tdiff
  nodes_requested :: num_nodes
  removed :: bool

record fcfs_queue = scheduler_base +
  m_wait_queue :: "job_entry list"
  m_eligible_end_idx :: nat
  m_current_tracked_time :: sim_time
  m_removed_count :: nat
  m_backfill_queue_depth :: nat

definition new_entry :: "job_no \<Rightarrow> sim_time \<Rightarrow> tdiff \<Rightarrow> num_nodes \<Rightarrow> job_entry" where
  "new_entry i t r n = \<lparr>job_id = i, submit_time = t, run_time_estimate = r, nodes_requested = n, removed = False\<rparr>"

definition new_deque :: "num_nodes \<Rightarrow> backfill_policy \<Rightarrow> nat \<Rightarrow> fcfs_queue" where
  "new_deque total_nodes bf depth = scheduler_base.extend (new_base total_nodes bf)
     (fcfs_queue.fields [] 0 0 0 depth)"

section \<open>Queue operations\<close>

definition deque_insert_job ::
  "'a fcfs_queue_scheme \<Rightarrow> job_no \<Rightarrow> sim_time \<Rightarrow> tdiff \<Rightarrow> num_nodes \<Rightarrow> 'a fcfs_queue_scheme" where
  "deque_insert_job s i t r n =
     (let s = s\<lparr>m_wait_queue := m_wait_queue s @ [new_entry i t r n]\<rparr> in
      if t \<le> m_current_tracked_time s then s\<lparr>m_eligible_end_idx := length (m_wait_queue s)\<rparr> else s)"

definition arrived_prefix :: "sim_time \<Rightarrow> job_entry list \<Rightarrow> nat" where
  "arrived_prefix now q = length (takeWhile (\<lambda>j. submit_time j \<le> now) q)"

definition deque_sync_to :: "'a fcfs_queue_scheme \<Rightarrow> sim_time \<Rightarrow> 'a fcfs_queue_scheme" where
  "deque_sync_to s now =
     (if now \<le> m_current_tracked_time s then s
      else s\<lparr>m_eligible_end_idx := m_eligible_end_idx s
               + arrived_prefix now (drop (m_eligible_end_idx s) (m_wait_queue s)),
             m_current_tracked_time := now\<rparr>)"

fun mark_entry :: "job_no \<Rightarrow> job_entry list \<Rightarrow> bool \<times> job_entry list" where
  "mark_entry i [] = (False, [])"
| "mark_entry i (j # q) =
     (if job_id j = i \<and> \<not> removed j then (True, j\<lparr>removed := True\<rparr> # q)
      else let (found, q') = mark_entry i q in (found, j # q'))"

definition deque_mark_removed :: "job_no \<Rightarrow> 'a fcfs_queue_scheme \<Rightarrow> 'a fcfs_queue_scheme" where
  "deque_mark_removed i s =
     (let (found, q) = mark_entry i (m_wait_queue s) in
      s\<lparr>m_wait_queue := q, m_removed_count := (if found then Suc (m_removed_count s) else m_removed_count s)\<rparr>)"

definition deque_active_job_count :: "'a fcfs_queue_scheme \<Rightarrow> nat" where
  "deque_active_job_count s = m_eligible_end_idx s - m_removed_count s"

definition deque_next_arrival_time :: "'a fcfs_queue_scheme \<Rightarrow> sim_time" where
  "deque_next_arrival_time s =
     (case dropWhile removed (drop (m_eligible_end_idx s) (m_wait_queue s)) of
        [] \<Rightarrow> dbl_max | j # _ \<Rightarrow> submit_time j)"

definition deque_has_eligible_jobs :: "'a fcfs_queue_scheme \<Rightarrow> bool" where
  "deque_has_eligible_jobs s \<longleftrightarrow> deque_active_job_count s > 0"

definition deque_pending_job_ids :: "'a fcfs_queue_scheme \<Rightarrow> job_no list" where
  "deque_pending_job_ids s = map job_id (filter (\<lambda>j. \<not> removed j) (m_wait_queue s))"

definition deque_waiting_resource_area :: "'a fcfs_queue_scheme \<Rightarrow> tdiff" where
  "deque_waiting_resource_area s =
     foldl (\<lambda>area j. if removed j then area else area + dbl (uint (nodes_requested j)) * run_time_estimate j)
       0 (take (m_eligible_end_idx s) (m_wait_queue s))"

section \<open>The scheduling pass\<close>

text \<open>Garbage collection when more than half of the queue is removed entries.\<close>

definition deque_compact :: "'a fcfs_queue_scheme \<Rightarrow> 'a fcfs_queue_scheme" where
  "deque_compact s =
     (if m_removed_count s > 0 \<and> m_removed_count s * 2 > length (m_wait_queue s)
      then s\<lparr>m_wait_queue := filter (\<lambda>j. \<not> removed j) (m_wait_queue s),
             m_eligible_end_idx := m_eligible_end_idx s
               - length (filter removed (take (m_eligible_end_idx s) (m_wait_queue s))),
             m_removed_count := 0\<rparr>
      else s)"

text \<open>Step 1: consume the front.  The result is the started heads, the nodes left, the eligible end,
  the removed count and the remaining queue.\<close>

fun start_heads :: "nat \<Rightarrow> nat \<Rightarrow> num_nodes \<Rightarrow> job_entry list \<Rightarrow> job_entry list \<times> num_nodes \<times> nat \<times> nat \<times> job_entry list" where
  "start_heads e r avail [] = ([], avail, e, r, [])"
| "start_heads e r avail (j # q) =
     (if e > 0 \<and> (removed j \<or> nodes_requested j \<le> avail) then
        (if \<not> removed j then
           (let (hs, rest) = start_heads (e - 1) r (avail - nodes_requested j) q in (j # hs, rest))
         else start_heads (e - 1) (r - 1) avail q)
      else ([], avail, e, r, j # q))"

definition projected :: "'a scheduler_base_scheme \<Rightarrow> sim_time \<Rightarrow> job_entry \<Rightarrow> running_job" where
  "projected s now j = \<lparr>rj_start_time = now, rj_run_time = release_estimate s now (run_time_estimate j),
     rj_nodes = nodes_requested j\<rparr>"

text \<open>Step 2: the candidate scan.  The result is the started candidates and the visited entries with
  their flags.\<close>

fun backfill_scan ::
  "'a scheduler_base_scheme \<Rightarrow> sim_time \<Rightarrow> bool \<Rightarrow> bool \<Rightarrow> num_nodes \<Rightarrow> segment list \<Rightarrow> job_entry list \<Rightarrow> job_entry list \<times> job_entry list" where
  "backfill_scan s now has_projection planned avail plan [] = ([], [])"
| "backfill_scan s now has_projection planned avail plan (j # js) =
     (if removed j then (let (st, js') = backfill_scan s now has_projection planned avail plan js in (st, j # js'))
      else if avail < nodes_requested j
      then (let (st, js') = backfill_scan s now has_projection planned avail plan js in (st, j # js'))
      else let dur = release_estimate s now (run_time_estimate j) in
        if has_projection \<and> (\<not> planned \<or> can_fit plan now (nodes_requested j) dur) then
          (let avail' = avail - nodes_requested j;
               plan' = (if planned then reserve plan now (nodes_requested j) dur else plan)
           in if avail' = 0 then ([j], j\<lparr>removed := True\<rparr> # js)
              else let (st, js') = backfill_scan s now has_projection planned avail' plan' js
                   in (j # st, j\<lparr>removed := True\<rparr> # js'))
        else (let (st, js') = backfill_scan s now has_projection planned avail plan js in (st, j # js')))"

definition deque_pass ::
  "'a fcfs_queue_scheme \<Rightarrow> num_nodes \<Rightarrow> running_jobs \<Rightarrow> sim_time \<Rightarrow> job_no list \<times> 'a fcfs_queue_scheme" where
  "deque_pass s free running now =
     (let (heads, avail, e, r, q) = start_heads (m_eligible_end_idx s) (m_removed_count s) free (m_wait_queue s);
          s = s\<lparr>m_wait_queue := q, m_eligible_end_idx := e, m_removed_count := r\<rparr>;
          ids = map job_id heads
      in if deque_active_job_count s = 0 then (ids, s)
      else if m_backfill_policy s = NONE then (ids, s)
      else let head = hd q;
               plan = reservation_timeline s avail running now (map (projected s now) heads);
               res = value_or_max (earliest_fit plan (nodes_requested head) 0 now);
               s = s\<lparr>m_fcfs_reservation_time := res\<rparr>;
               planned = reservation_within_horizon s res now;
               plan = (if planned then reserve plan res (nodes_requested head)
                         (release_estimate s res (run_time_estimate head)) else plan)
      in if avail = 0 then (ids, s)
      else let scan_end = queue_depth_scan_end (map removed q) 1 e (m_backfill_queue_depth s) planned;
               (st, visited) = backfill_scan s now (res \<noteq> dbl_max) planned avail plan (drop 1 (take scan_end q))
           in (ids @ map job_id st,
               s\<lparr>m_wait_queue := take 1 q @ visited @ drop scan_end q, m_removed_count := r + length st\<rparr>))"

definition deque_schedule ::
  "'a fcfs_queue_scheme \<Rightarrow> num_nodes \<Rightarrow> running_jobs \<Rightarrow> sim_time \<Rightarrow> job_no list \<times> 'a fcfs_queue_scheme" where
  "deque_schedule s free running now =
     (let s = deque_compact (deque_sync_to s now) in
      if m_eligible_end_idx s = 0 then ([], s) else deque_pass s free running now)"

section \<open>Evaluation\<close>

lemmas deque_eval [eval_simps] = new_entry_def new_deque_def deque_insert_job_def arrived_prefix_def
  deque_sync_to_def deque_active_job_count_def deque_compact_def projected_def deque_pass_def
  deque_schedule_def fcfs_queue.defs

end
