(* ===== verification/Easy_Spec.thy ===== *)
theory Easy_Spec
  imports Easy_Deque "HOL-Library.Sublist"
begin

text \<open>
  The abstract EASY pass: a function on the plain list of waiting jobs, with no removal flags, no
  indices and no garbage collection.  Its properties are proved here once; the queue implementations
  refine it.  The central property is the EASY guarantee: projecting the head's start again, with the
  backfilled jobs counted as running, gives the reservation the pass made.
\<close>

section \<open>The specification\<close>

fun spec_heads :: "num_nodes \<Rightarrow> job_entry list \<Rightarrow> job_entry list \<times> num_nodes \<times> job_entry list" where
  "spec_heads avail [] = ([], avail, [])"
| "spec_heads avail (j # q) =
     (if nodes_requested j \<le> avail
      then (let (hs, rest) = spec_heads (avail - nodes_requested j) q in (j # hs, rest))
      else ([], avail, j # q))"

definition admits :: "'a scheduler_base_scheme \<Rightarrow> sim_time \<Rightarrow> bool \<Rightarrow> bool \<Rightarrow> num_nodes \<Rightarrow> segment list \<Rightarrow> job_entry \<Rightarrow> bool" where
  "admits s now has_projection planned avail plan j \<longleftrightarrow>
     nodes_requested j \<le> avail \<and> has_projection \<and>
     (\<not> planned \<or> can_fit plan now (nodes_requested j) (release_estimate s now (run_time_estimate j)))"

definition charge :: "'a scheduler_base_scheme \<Rightarrow> sim_time \<Rightarrow> bool \<Rightarrow> segment list \<Rightarrow> job_entry \<Rightarrow> segment list" where
  "charge s now planned plan j =
     (if planned then reserve plan now (nodes_requested j) (release_estimate s now (run_time_estimate j)) else plan)"

fun spec_backfill ::
  "'a scheduler_base_scheme \<Rightarrow> sim_time \<Rightarrow> bool \<Rightarrow> bool \<Rightarrow> num_nodes \<Rightarrow> segment list \<Rightarrow> job_entry list \<Rightarrow> job_entry list \<times> job_entry list" where
  "spec_backfill s now hp planned avail plan [] = ([], [])"
| "spec_backfill s now hp planned avail plan (j # js) =
     (if admits s now hp planned avail plan j then
        (if avail - nodes_requested j = 0 then ([j], js)
         else let (st, js') = spec_backfill s now hp planned (avail - nodes_requested j) (charge s now planned plan j) js
              in (j # st, js'))
      else let (st, js') = spec_backfill s now hp planned avail plan js in (st, j # js'))"

definition candidates :: "nat \<Rightarrow> bool \<Rightarrow> 'a list \<Rightarrow> 'a list \<times> 'a list" where
  "candidates depth planned js =
     (if depth = 0 then (js, [])
      else let k = depth - (if planned then 1 else 0) in (take k js, drop k js))"

record easy_result =
  er_heads :: "job_entry list"
  er_backfilled :: "job_entry list"
  er_waiting :: "job_entry list"
  er_avail :: num_nodes
  er_reservation :: sim_time

definition head_plan ::
  "'a scheduler_base_scheme \<Rightarrow> num_nodes \<Rightarrow> running_jobs \<Rightarrow> sim_time \<Rightarrow> job_entry list \<Rightarrow> segment list" where
  "head_plan s avail running now hs = reservation_timeline s avail running now (map (projected s now) hs)"

definition easy_pass ::
  "'a scheduler_base_scheme \<Rightarrow> nat \<Rightarrow> num_nodes \<Rightarrow> running_jobs \<Rightarrow> sim_time \<Rightarrow> job_entry list \<Rightarrow> easy_result" where
  "easy_pass s depth free running now waiting =
     (let (hs, avail, rest) = spec_heads free waiting;
          none = \<lparr>er_heads = hs, er_backfilled = [], er_waiting = rest, er_avail = avail,
                  er_reservation = m_fcfs_reservation_time s\<rparr>
      in case rest of [] \<Rightarrow> none
         | head # behind \<Rightarrow>
           if m_backfill_policy s = NONE then none
           else let plan = head_plan s avail running now hs;
                    res = value_or_max (earliest_fit plan (nodes_requested head) 0 now);
                    planned = reservation_within_horizon s res now;
                    plan = (if planned then reserve plan res (nodes_requested head)
                              (release_estimate s res (run_time_estimate head)) else plan)
                in if avail = 0 then none\<lparr>er_reservation := res\<rparr>
                   else let (cs, unseen) = candidates depth planned behind;
                            (st, kept) = spec_backfill s now (res \<noteq> dbl_max) planned avail plan cs
                        in none\<lparr>er_backfilled := st, er_waiting := head # kept @ unseen, er_reservation := res\<rparr>)"

section \<open>Accounting\<close>

definition nodes_sum :: "job_entry list \<Rightarrow> nat" where
  "nodes_sum js = sum_list (map (\<lambda>j. unat (nodes_requested j)) js)"

lemma nodes_sum_simps [simp]:
  "nodes_sum [] = 0" "nodes_sum (j # js) = unat (nodes_requested j) + nodes_sum js"
  "nodes_sum (xs @ ys) = nodes_sum xs + nodes_sum ys"
  by (simp_all add: nodes_sum_def)

lemma spec_heads_correct:
  "spec_heads avail q = (hs, avail', rest) \<Longrightarrow>
   q = hs @ rest \<and> nodes_sum hs + unat avail' = unat avail \<and>
   (rest \<noteq> [] \<longrightarrow> avail' < nodes_requested (hd rest))"
proof (induction avail q arbitrary: hs avail' rest rule: spec_heads.induct)
  case (2 avail j q)
  show ?case
  proof (cases "nodes_requested j \<le> avail")
    case True
    obtain hs' where "spec_heads (avail - nodes_requested j) q = (hs', avail', rest)" "hs = j # hs'"
      using 2(2) True by (auto split: prod.splits)
    with 2(1)[OF True] True show ?thesis by (auto simp: unat_sub word_le_nat_alt)
  qed (use 2(2) in auto)
qed simp

lemma spec_backfill_mset:
  "spec_backfill s now hp planned avail plan js = (st, kept) \<Longrightarrow> mset js = mset st + mset kept"
  by (induction s now hp planned avail plan js arbitrary: st kept rule: spec_backfill.induct)
     (auto simp: Let_def split: if_splits prod.splits)

lemma spec_backfill_nodes:
  "spec_backfill s now hp planned avail plan js = (st, kept) \<Longrightarrow> nodes_sum st \<le> unat avail"
proof (induction s now hp planned avail plan js arbitrary: st kept rule: spec_backfill.induct)
  case (2 s now hp planned avail plan j js)
  then show ?case
    by (fastforce split: if_splits prod.splits simp: admits_def unat_sub word_le_nat_alt)
qed simp

lemma spec_backfill_subseq:
  "spec_backfill s now hp planned avail plan js = (st, kept) \<Longrightarrow> subseq st js \<and> subseq kept js"
  by (induction s now hp planned avail plan js arbitrary: st kept rule: spec_backfill.induct)
     (auto simp: Let_def split: if_splits prod.splits)

lemma candidates_append: "candidates depth planned js = (cs, unseen) \<Longrightarrow> js = cs @ unseen"
  by (auto simp: candidates_def Let_def split: if_splits)

text \<open>The cases of a pass: without a backfill scan, and with one.\<close>

lemma easy_pass_cases:
  obtains (no_scan) hs avail rest where "spec_heads free waiting = (hs, avail, rest)"
      "er_heads (easy_pass s depth free running now waiting) = hs"
      "er_backfilled (easy_pass s depth free running now waiting) = []"
      "er_waiting (easy_pass s depth free running now waiting) = rest"
    | (scan) hs avail head behind plan res w plan' cs unseen st kept
      where "spec_heads free waiting = (hs, avail, head # behind)" "m_backfill_policy s \<noteq> NONE" "avail \<noteq> 0"
      "plan = head_plan s avail running now hs"
      "res = value_or_max (earliest_fit plan (nodes_requested head) 0 now)"
      "w = reservation_within_horizon s res now"
      "plan' = (if w then reserve plan res (nodes_requested head)
                  (release_estimate s res (run_time_estimate head)) else plan)"
      "candidates depth w behind = (cs, unseen)"
      "spec_backfill s now (res \<noteq> dbl_max) w avail plan' cs = (st, kept)"
      "easy_pass s depth free running now waiting = \<lparr>er_heads = hs, er_backfilled = st,
         er_waiting = head # kept @ unseen, er_avail = avail, er_reservation = res\<rparr>"
proof -
  obtain hs avail rest where h: "spec_heads free waiting = (hs, avail, rest)" by (metis prod_cases3)
  show thesis
  proof (cases "rest = [] \<or> m_backfill_policy s = NONE \<or> avail = 0")
    case True
    then show thesis using h by (intro no_scan[OF h]) (auto simp: easy_pass_def Let_def split: list.splits)
  next
    case False
    then obtain head behind where rest: "rest = head # behind" by (cases rest) auto
    define plan res w plan' where "plan = head_plan s avail running now hs"
      and "res = value_or_max (earliest_fit plan (nodes_requested head) 0 now)"
      and "w = reservation_within_horizon s res now"
      and "plan' = (if w then reserve plan res (nodes_requested head)
                      (release_estimate s res (run_time_estimate head)) else plan)"
    obtain cs unseen where c: "candidates depth w behind = (cs, unseen)" by fastforce
    obtain st kept where b: "spec_backfill s now (res \<noteq> dbl_max) w avail plan' cs = (st, kept)" by fastforce
    have "easy_pass s depth free running now waiting = \<lparr>er_heads = hs, er_backfilled = st,
         er_waiting = head # kept @ unseen, er_avail = avail, er_reservation = res\<rparr>"
      using False h rest c b[unfolded plan'_def]
      by (cases w) (simp_all add: easy_pass_def Let_def plan_def[symmetric] res_def[symmetric] w_def[symmetric])
    then show thesis using False h rest by (intro scan[OF _ _ _ plan_def res_def w_def plan'_def c b]) auto
  qed
qed

lemma easy_pass_partition:
  "mset waiting = mset (er_heads (easy_pass s depth free running now waiting)) +
     mset (er_backfilled (easy_pass s depth free running now waiting)) +
     mset (er_waiting (easy_pass s depth free running now waiting))"
proof (cases rule: easy_pass_cases[of free waiting s depth running now])
  case (no_scan hs avail rest)
  then show ?thesis using spec_heads_correct[OF no_scan(1)] by simp
next
  case (scan hs avail head behind plan res w plan' cs unseen st kept)
  show ?thesis
    using spec_heads_correct[OF scan(1)] candidates_append[OF scan(8)] spec_backfill_mset[OF scan(9)] scan(10)
    by simp
qed

lemma easy_pass_nodes:
  "nodes_sum (er_heads (easy_pass s depth free running now waiting)) +
   nodes_sum (er_backfilled (easy_pass s depth free running now waiting)) \<le> unat free"
proof (cases rule: easy_pass_cases[of free waiting s depth running now])
  case (no_scan hs avail rest)
  then show ?thesis using spec_heads_correct[OF no_scan(1)] by simp
next
  case (scan hs avail head behind plan res w plan' cs unseen st kept)
  show ?thesis using spec_heads_correct[OF scan(1)] spec_backfill_nodes[OF scan(9)] scan(10) by simp
qed

section \<open>The EASY guarantee\<close>

text \<open>Nodes that the started candidates still hold at a time.\<close>

definition held :: "'a scheduler_base_scheme \<Rightarrow> sim_time \<Rightarrow> job_entry list \<Rightarrow> sim_time \<Rightarrow> nat" where
  "held s now js t = nodes_sum (filter (\<lambda>j. t < end_time (projected s now j)) js)"

lemma end_time_projected: "end_time (projected s now j) = now + release_estimate s now (run_time_estimate j)"
  by (simp add: end_time_def projected_def)

text \<open>Every capacity the scan consumes was on the plan: at no time do the started candidates hold more
  than the plan had free.\<close>

lemma spec_backfill_held:
  "spec_backfill s now hp True avail plan js = (st, kept) \<Longrightarrow> wf_tl plan \<Longrightarrow> origin plan = now \<Longrightarrow>
   now \<le> t \<Longrightarrow> held s now st t \<le> unat (cap plan t)"
proof (induction js arbitrary: avail plan st kept)
  case (Cons j js)
  let ?d = "release_estimate s now (run_time_estimate j)"
  show ?case
  proof (cases "admits s now hp True avail plan j")
    case True
    then have fit: "fits plan (nodes_requested j) ?d now"
      using Cons.prems can_fit_iff by (simp add: admits_def)
    then have le: "t < now + ?d \<Longrightarrow> nodes_requested j \<le> cap plan t"
      using Cons.prems(4) by (simp add: fits_def)
    show ?thesis
    proof (cases "avail - nodes_requested j = 0")
      case zero: True
      then show ?thesis using Cons.prems(1) True le
        by (auto simp: held_def end_time_projected word_le_nat_alt)
    next
      case False
      then obtain st' where st': "spec_backfill s now hp True (avail - nodes_requested j)
          (charge s now True plan j) js = (st', kept)" "st = j # st'"
        using Cons.prems(1) True by (auto simp: Let_def split: prod.splits)
      have "held s now st' t \<le> unat (cap (charge s now True plan j) t)"
        using Cons.prems by (intro Cons.IH[OF st'(1)]) (auto simp: charge_def)
      moreover have "cap (charge s now True plan j) t =
          (if t < now + ?d then cap plan t - nodes_requested j else cap plan t)"
        using Cons.prems by (simp add: charge_def tl_simps)
      ultimately show ?thesis using le st'(2)
        by (auto simp: held_def end_time_projected word_le_nat_alt unat_sub split: if_splits)
    qed
  next
    case False
    then obtain kept' where "spec_backfill s now hp True avail plan js = (st, kept')"
      using Cons.prems(1) by (auto simp: Let_def split: prod.splits)
    then show ?thesis using Cons.IH Cons.prems by blast
  qed
qed (simp add: held_def)

text \<open>Counting started candidates as projected starts lowers the balance by what they still hold.\<close>

lemma released_append: "released now (xs @ ys) t = released now xs t + released now ys t"
  by (simp add: released_def)

lemma released_projected:
  "\<forall>j\<in>set st. now < end_time (projected s now j) \<Longrightarrow>
   released now (map (projected s now) st) t + int (held s now st t) = int (nodes_sum st)"
  by (induction st) (auto simp: released_def held_def projected_def[of s now])

lemma unat_minus_sum:
  "nodes_sum st \<le> unat avail \<Longrightarrow>
   unat (avail - sum_list (map nodes_requested st)) = unat avail - nodes_sum st"
proof (induction st arbitrary: avail)
  case (Cons j st)
  then have le: "nodes_requested j \<le> avail" by (simp add: word_le_nat_alt)
  with Cons.prems have "nodes_sum st \<le> unat (avail - nodes_requested j)" by (simp add: unat_sub)
  from Cons.IH[OF this] show ?case using le by (simp add: unat_sub diff_diff_eq)
qed simp

lemma balance_after_starts:
  assumes "m_outlook_occupied s \<le> m_outlook_capacity s" "nodes_sum st \<le> unat avail"
    and "\<forall>j\<in>set st. now < end_time (projected s now j)"
  shows "balance_at s (avail - sum_list (map nodes_requested st)) running now
      (map (projected s now) (hs @ st)) t =
    balance_at s avail running now (map (projected s now) hs) t - int (held s now st t)"
proof -
  have "uint (avail - sum_list (map nodes_requested st)) = uint avail - int (nodes_sum st)"
    using arg_cong[OF unat_minus_sum[OF assms(2)], of int] assms(2) by (simp add: of_nat_diff)
  then have "initial_balance s (avail - sum_list (map nodes_requested st)) =
      initial_balance s avail - int (nodes_sum st)"
    using assms(1) by (simp add: initial_balance_def not_less[symmetric])
  then show ?thesis using released_projected[OF assms(3), of t]
    by (simp add: balance_at_def released_append)
qed

lemma clamp_mono: "a \<le> b \<Longrightarrow> b < 2 ^ 32 \<Longrightarrow> clamp a \<le> clamp b"
  using uint_clamp[of a] uint_clamp[of b] by (auto simp: word_le_def)

lemma point_reservation:
  "wf_tl xs \<Longrightarrow> origin xs \<le> now \<Longrightarrow> now \<le> r \<Longrightarrow> n \<le> cap xs r \<Longrightarrow>
   (\<And>t. now \<le> t \<Longrightarrow> t < r \<Longrightarrow> \<not> n \<le> cap xs t) \<Longrightarrow> earliest_fit xs n 0 now = Some r"
  by (intro earliest_fit_eqI) (auto simp: least_fit_def fits_point)

lemma value_or_max_SomeD: "value_or_max r \<noteq> dbl_max \<Longrightarrow> r = Some (value_or_max r)"
  by (cases r) (auto simp: value_or_max_def)

theorem backfill_keeps_reservation:
  assumes out: "outlook_ok s" "m_outlook_occupied s \<le> m_outlook_capacity s"
    and bound: "\<And>t. now \<le> t \<Longrightarrow> balance_at s avail running now (map (projected s now) hs) t < 2 ^ 32"
    and res: "res = calculate_fcfs_reservation s (nodes_requested head) avail running now (map (projected s now) hs)"
    and planned: "reservation_within_horizon s res now"
    and head: "res < res + d"
    and scan: "spec_backfill s now hp True avail
        (reserve (head_plan s avail running now hs) res (nodes_requested head) d) cs = (st, kept)"
    and pos: "\<forall>j\<in>set st. now < end_time (projected s now j)"
  shows "calculate_fcfs_reservation s (nodes_requested head) (avail - sum_list (map nodes_requested st))
      running now (map (projected s now) (hs @ st)) = res"
proof -
  define T where "T = head_plan s avail running now hs"
  define T' where "T' = reservation_timeline s (avail - sum_list (map nodes_requested st)) running now
    (map (projected s now) (hs @ st))"
  have wf: "wf_tl T" "origin T = now" "wf_tl T'" "origin T' = now" by (simp_all add: T_def T'_def head_plan_def)
  have "res \<noteq> dbl_max" using planned by (auto simp: reservation_within_horizon_def)
  then have fit: "earliest_fit T (nodes_requested head) 0 now = Some res"
    using res value_or_max_SomeD by (simp add: calculate_fcfs_reservation_def T_def head_plan_def)
  with earliest_fit_least[of T now "nodes_requested head" 0] wf
  have at_res: "now \<le> res" "nodes_requested head \<le> cap T res"
    and before: "\<And>t. now \<le> t \<Longrightarrow> t < res \<Longrightarrow> \<not> nodes_requested head \<le> cap T t"
    by (auto simp: least_fit_def fits_point)
  have capT: "uint (cap T t) = max 0 (balance_at s avail running now (map (projected s now) hs) t)"
    if "now \<le> t" for t
    using that bound out(1) by (simp add: T_def head_plan_def tl_simps uint_clamp)
  have capT': "cap T' t = clamp (balance_at s avail running now (map (projected s now) hs) t - int (held s now st t))"
    if "now \<le> t" for t
    using that out balance_after_starts[OF out(2) spec_backfill_nodes[OF scan] pos]
    by (simp add: T'_def tl_simps)
  have "held s now st res \<le> unat (cap (reserve T res (nodes_requested head) d) res)"
    using spec_backfill_held[OF scan] at_res wf by (simp add: T_def[symmetric])
  then have "held s now st res + unat (nodes_requested head) \<le> unat (cap T res)"
    using wf at_res head by (simp add: tl_simps unat_sub word_le_nat_alt)
  then have "int (held s now st res) + uint (nodes_requested head) \<le> uint (cap T res)"
    by (metis int_eq_iff of_nat_add of_nat_le_iff uint_nat)
  then have "nodes_requested head \<le> cap T' res"
    using capT[OF at_res(1)] capT'[OF at_res(1)] bound[OF at_res(1)]
      uint_clamp[of "balance_at s avail running now (map (projected s now) hs) res - int (held s now st res)"]
    by (simp add: word_le_def)
  moreover have "cap T' t \<le> cap T t" if "now \<le> t" for t
    using that bound[OF that] out(1) clamp_mono
    by (simp add: capT' T_def head_plan_def tl_simps)
  ultimately have "earliest_fit T' (nodes_requested head) 0 now = Some res"
    using wf at_res before by (intro point_reservation) (auto intro: order_trans)
  then show ?thesis by (simp add: calculate_fcfs_reservation_def T'_def value_or_max_def)
qed

lemma balance_heads:
  assumes out: "m_outlook_occupied s \<le> m_outlook_capacity s"
    and h: "spec_heads free waiting = (hs, avail, rest)"
    and pos: "\<forall>j\<in>set waiting. now < end_time (projected s now j)"
  shows "avail = free - sum_list (map nodes_requested hs)"
    "balance_at s avail running now (map (projected s now) hs) t \<le> balance_at s free running now [] t"
proof -
  note c = spec_heads_correct[OF h]
  show eq: "avail = free - sum_list (map nodes_requested hs)"
    unfolding word_unat_eq_iff using c unat_minus_sum[of hs free] by linarith
  show "balance_at s avail running now (map (projected s now) hs) t \<le> balance_at s free running now [] t"
    using balance_after_starts[of s hs free now running "[]" t] out c pos by (simp add: eq)
qed

lemma easy_pass_head:
  assumes "m_backfill_policy s \<noteq> NONE" "er = easy_pass s depth free running now waiting"
    and "er_waiting er = head # rest"
  obtains avail behind where "spec_heads free waiting = (er_heads er, avail, head # behind)"
    "er_reservation er = calculate_fcfs_reservation s (nodes_requested head) avail running now
       (map (projected s now) (er_heads er))"
    "reservation_within_horizon s (er_reservation er) now \<Longrightarrow> er_backfilled er \<noteq> [] \<Longrightarrow>
     \<exists>cs kept. spec_backfill s now True True avail (reserve (head_plan s avail running now (er_heads er))
       (er_reservation er) (nodes_requested head)
       (release_estimate s (er_reservation er) (run_time_estimate head))) cs = (er_backfilled er, kept)"
proof (cases rule: easy_pass_cases[of free waiting s depth running now])
  case (no_scan hs avail rest')
  then have "rest' = head # rest" "er_heads er = hs" "er_backfilled er = []" using assms by auto
  moreover have "er_reservation er = calculate_fcfs_reservation s (nodes_requested head) avail running now
       (map (projected s now) hs)"
  proof (cases "avail = 0")
    case True
    then show ?thesis using no_scan(1) assms calculation(1)
      by (simp add: easy_pass_def Let_def calculate_fcfs_reservation_def head_plan_def)
  next
    case False
    then show ?thesis using no_scan(1) assms calculation(1)
      by (simp add: easy_pass_def Let_def calculate_fcfs_reservation_def head_plan_def case_prod_beta)
  qed
  ultimately show thesis using that no_scan(1) by blast
next
  case (scan hs avail head' behind plan res w plan' cs unseen st kept)
  have er: "er_heads er = hs" "er_backfilled er = st" "er_reservation er = res" "head' = head"
    using scan(10) assms by auto
  have "res \<noteq> dbl_max" if "reservation_within_horizon s res now"
    using that by (auto simp: reservation_within_horizon_def)
  then show thesis
    using scan er that[of avail behind] by (fastforce simp: calculate_fcfs_reservation_def head_plan_def)
qed

theorem easy_pass_guarantee:
  assumes out: "outlook_ok s" "m_outlook_occupied s \<le> m_outlook_capacity s"
    and bound: "\<And>t. now \<le> t \<Longrightarrow> balance_at s free running now [] t < 2 ^ 32"
    and pol: "m_backfill_policy s \<noteq> NONE"
    and er: "er = easy_pass s depth free running now waiting" "er_waiting er = head # rest"
    and planned: "reservation_within_horizon s (er_reservation er) now"
    and head: "er_reservation er < er_reservation er + release_estimate s (er_reservation er) (run_time_estimate head)"
    and pos: "\<forall>j\<in>set waiting. now < now + release_estimate s now (run_time_estimate j)"
  shows "calculate_fcfs_reservation s (nodes_requested head)
      (free - sum_list (map nodes_requested (er_heads er @ er_backfilled er))) running now
      (map (projected s now) (er_heads er @ er_backfilled er)) = er_reservation er"
proof -
  obtain avail behind where a: "spec_heads free waiting = (er_heads er, avail, head # behind)"
    and res: "er_reservation er = calculate_fcfs_reservation s (nodes_requested head) avail running now
       (map (projected s now) (er_heads er))"
    and scan: "er_backfilled er \<noteq> [] \<Longrightarrow>
     \<exists>cs kept. spec_backfill s now True True avail (reserve (head_plan s avail running now (er_heads er))
       (er_reservation er) (nodes_requested head)
       (release_estimate s (er_reservation er) (run_time_estimate head))) cs = (er_backfilled er, kept)"
    using easy_pass_head[OF pol er] planned by metis
  have pos': "\<forall>j\<in>set waiting. now < end_time (projected s now j)" using pos by (simp add: end_time_projected)
  note heads = balance_heads[OF out(2) a pos']
  have "set (er_backfilled er) \<subseteq> set waiting"
    using mset_eq_setD[of waiting "er_heads er @ er_backfilled er @ er_waiting er"]
      easy_pass_partition[of waiting s depth free running now] er(1) by (auto simp: union_assoc)
  then have bpos: "\<forall>j\<in>set (er_backfilled er). now < end_time (projected s now j)" using pos' by blast
  have b: "balance_at s avail running now (map (projected s now) (er_heads er)) t < 2 ^ 32" if "now \<le> t" for t
    using le_less_trans[OF heads(2) bound[OF that]] .
  show ?thesis
  proof (cases "er_backfilled er = []")
    case True
    then show ?thesis using res heads(1) by simp
  next
    case False
    then obtain cs kept where "spec_backfill s now True True avail (reserve (head_plan s avail running now (er_heads er))
       (er_reservation er) (nodes_requested head)
       (release_estimate s (er_reservation er) (run_time_estimate head))) cs = (er_backfilled er, kept)"
      using scan by blast
    from backfill_keeps_reservation[OF out b res planned head this bpos] heads(1)
    show ?thesis by (simp add: diff_diff_eq)
  qed
qed

end
