(* ===== verification/Scheduler_Interface.thy ===== *)
theory Scheduler_Interface
  imports Easy_Spec
begin

text \<open>
  What the simulation relies on in a scheduler, stated once for the virtual interface of
  \<^verbatim>\<open>SchedulerBase\<close> (\<^verbatim>\<open>insert_job\<close>, \<^verbatim>\<open>sync_to\<close>, \<^verbatim>\<open>schedule\<close>) and interpreted on every queue
  implementation.  The client lemma is about any sequence of calls: every submitted job is either
  still pending or has been returned by exactly one scheduling pass, and no pass returns more nodes
  than it was given.
\<close>

datatype sched_op =
    Submit job_no sim_time tdiff num_nodes
  | Sync sim_time
  | Pass num_nodes running_jobs sim_time

type_synonym 's insert_fun = "'s \<Rightarrow> job_no \<Rightarrow> sim_time \<Rightarrow> tdiff \<Rightarrow> num_nodes \<Rightarrow> exn + 's"
type_synonym 's schedule_fun = "'s \<Rightarrow> num_nodes \<Rightarrow> running_jobs \<Rightarrow> sim_time \<Rightarrow> job_no list \<times> 's"

text \<open>A sequence of calls: the batches of identifiers the passes returned and the final state, or the
  exception of the call that threw.\<close>

fun run_ops ::
  "'s insert_fun \<Rightarrow> ('s \<Rightarrow> sim_time \<Rightarrow> 's) \<Rightarrow> 's schedule_fun \<Rightarrow> 's \<Rightarrow> sched_op list \<Rightarrow> exn + (job_no list list \<times> 's)" where
  "run_ops ins syn sch s [] = Inr ([], s)"
| "run_ops ins syn sch s (Submit i t r n # ops) =
     (case ins s i t r n of Inl e \<Rightarrow> Inl e | Inr s' \<Rightarrow> run_ops ins syn sch s' ops)"
| "run_ops ins syn sch s (Sync t # ops) = run_ops ins syn sch (syn s t) ops"
| "run_ops ins syn sch s (Pass free running now # ops) =
     (let (ids, s') = sch s free running now in
      case run_ops ins syn sch s' ops of Inl e \<Rightarrow> Inl e | Inr (batches, s'') \<Rightarrow> Inr (ids # batches, s''))"

definition batches_of :: "exn + (job_no list list \<times> 's) \<Rightarrow> exn + job_no list list" where
  "batches_of x = (case x of Inl e \<Rightarrow> Inl e | Inr (b, _) \<Rightarrow> Inr b)"

lemma batches_of_Pass:
  "batches_of (run_ops ins syn sch s (Pass free running now # ops)) =
   (case batches_of (run_ops ins syn sch (snd (sch s free running now)) ops) of
      Inl e \<Rightarrow> Inl e | Inr b \<Rightarrow> Inr (fst (sch s free running now) # b))"
  by (auto simp: batches_of_def case_prod_beta split: sum.splits)

fun submitted :: "sched_op list \<Rightarrow> job_no list" where
  "submitted [] = []"
| "submitted (Submit i t r n # ops) = i # submitted ops"
| "submitted (Sync t # ops) = submitted ops"
| "submitted (Pass free running now # ops) = submitted ops"

text \<open>Which sequences a client may issue: every submission meets the precondition of its state.\<close>

fun admissible ::
  "('s \<Rightarrow> job_no \<Rightarrow> sim_time \<Rightarrow> bool) \<Rightarrow> 's insert_fun \<Rightarrow> ('s \<Rightarrow> sim_time \<Rightarrow> 's) \<Rightarrow> 's schedule_fun \<Rightarrow> 's \<Rightarrow> sched_op list \<Rightarrow> bool" where
  "admissible pre ins syn sch s [] = True"
| "admissible pre ins syn sch s (Submit i t r n # ops) =
     (pre s i t \<and> (case ins s i t r n of Inl e \<Rightarrow> True | Inr s' \<Rightarrow> admissible pre ins syn sch s' ops))"
| "admissible pre ins syn sch s (Sync t # ops) = admissible pre ins syn sch (syn s t) ops"
| "admissible pre ins syn sch s (Pass free running now # ops) =
     admissible pre ins syn sch (snd (sch s free running now)) ops"

locale scheduler =
  fixes ins :: "'s insert_fun"
    and syn :: "'s \<Rightarrow> sim_time \<Rightarrow> 's"
    and sch :: "'s schedule_fun"
    and pre :: "'s \<Rightarrow> job_no \<Rightarrow> sim_time \<Rightarrow> bool"
    and jobs :: "'s \<Rightarrow> job_entry list"
    and ok :: "'s \<Rightarrow> bool"
    and clock :: "'s \<Rightarrow> sim_time"
  assumes ins_law: "ok s \<Longrightarrow> pre s i t \<Longrightarrow> ins s i t r n = Inr s' \<Longrightarrow>
        ok s' \<and> mset (jobs s') = add_mset (new_entry i t r n) (mset (jobs s)) \<and> clock s' = clock s"
    and syn_law: "ok s \<Longrightarrow> ok (syn s t) \<and> mset (jobs (syn s t)) = mset (jobs s) \<and> clock (syn s t) = max (clock s) t"
    and sch_law: "ok s \<Longrightarrow> sch s free running now = (ids, s') \<Longrightarrow>
        ok s' \<and> clock s' = max (clock s) now \<and>
        (\<exists>st. ids = map job_id st \<and> mset (jobs s) = mset st + mset (jobs s') \<and>
           nodes_sum st \<le> unat free \<and> (\<forall>j\<in>set st. submit_time j \<le> clock s'))"
begin

lemma run_conserves:
  "ok s \<Longrightarrow> admissible pre ins syn sch s ops \<Longrightarrow> run_ops ins syn sch s ops = Inr (batches, s') \<Longrightarrow>
   ok s' \<and> mset (concat batches) + mset (map job_id (jobs s')) =
     mset (map job_id (jobs s)) + mset (submitted ops)"
proof (induction ops arbitrary: s batches rule: submitted.induct)
  case (2 i t r n ops)
  then obtain s1 where s1: "ins s i t r n = Inr s1" by (auto split: sum.splits)
  have l: "ok s1" "mset (jobs s1) = add_mset (new_entry i t r n) (mset (jobs s))"
    using ins_law[OF 2(2) _ s1] 2(3) by auto
  have "ok s' \<and> mset (concat batches) + mset (map job_id (jobs s')) = mset (map job_id (jobs s1)) + mset (submitted ops)"
    using 2(1)[OF l(1)] 2(3,4) s1 by simp
  moreover have "mset (map job_id (jobs s1)) = add_mset i (mset (map job_id (jobs s)))"
    using l(2) by (simp add: new_entry_def)
  ultimately show ?case by simp
next
  case (3 t ops)
  then show ?case using syn_law[of s t] by fastforce
next
  case (4 free running now ops)
  obtain ids s1 where s1: "sch s free running now = (ids, s1)" by fastforce
  then obtain bs where bs: "run_ops ins syn sch s1 ops = Inr (bs, s')" "batches = ids # bs"
    using 4(4) by (auto split: sum.splits)
  obtain st where st: "ok s1" "ids = map job_id st" "mset (jobs s) = mset st + mset (jobs s1)"
    using sch_law[OF 4(2) s1] by blast
  then have "mset (map job_id (jobs s)) = mset ids + mset (map job_id (jobs s1))" by simp
  moreover have "ok s' \<and> mset (concat bs) + mset (map job_id (jobs s')) = mset (map job_id (jobs s1)) + mset (submitted ops)"
    using 4(1)[OF st(1) _ bs(1)] 4(3) s1 by simp
  ultimately show ?case using bs(2) by (simp add: union_assoc)
qed simp

lemma started_once:
  assumes "ok s" "jobs s = []" "admissible pre ins syn sch s ops"
    "run_ops ins syn sch s ops = Inr (batches, s')" "distinct (submitted ops)"
  shows "distinct (concat batches) \<and> set (concat batches) \<inter> set (map job_id (jobs s')) = {} \<and>
    set (concat batches) \<union> set (map job_id (jobs s')) = set (submitted ops)"
proof -
  have m: "mset (concat batches @ map job_id (jobs s')) = mset (submitted ops)"
    using run_conserves[OF assms(1,3,4)] assms(2) by simp
  then have "distinct (concat batches @ map job_id (jobs s'))"
    using assms(5) by (metis mset_eq_imp_distinct_iff)
  moreover have "set (concat batches @ map job_id (jobs s')) = set (submitted ops)"
    using m by (rule mset_eq_setD)
  ultimately show ?thesis by simp
qed

end

end
