(* ===== verification/Easy_Refine.thy ===== *)
theory Easy_Refine
  imports Scheduler_Interface
begin

text \<open>
  The deque scheduler refines the abstract EASY pass.  The invariant \<open>fq_inv\<close> is the one the class
  documents: submit-time order, the eligible prefix, and the removed count.  Under it the abstraction,
  the waiting jobs and the future arrivals, is what every query reports and what the pass works on:
  removal flags, indices and garbage collection are invisible.
\<close>

section \<open>Invariant and abstraction\<close>

abbreviation live :: "job_entry list \<Rightarrow> job_entry list" where
  "live q \<equiv> filter (\<lambda>j. \<not> removed j) q"

definition fq_inv :: "'a fcfs_queue_scheme \<Rightarrow> bool" where
  "fq_inv s \<longleftrightarrow> m_eligible_end_idx s \<le> length (m_wait_queue s) \<and>
     m_removed_count s = length (filter removed (take (m_eligible_end_idx s) (m_wait_queue s))) \<and>
     (\<forall>j\<in>set (drop (m_eligible_end_idx s) (m_wait_queue s)). \<not> removed j \<and> m_current_tracked_time s < submit_time j) \<and>
     (\<forall>j\<in>set (take (m_eligible_end_idx s) (m_wait_queue s)). submit_time j \<le> m_current_tracked_time s) \<and>
     sorted (map submit_time (m_wait_queue s))"

definition waiting :: "'a fcfs_queue_scheme \<Rightarrow> job_entry list" where
  "waiting s = live (take (m_eligible_end_idx s) (m_wait_queue s))"

definition future :: "'a fcfs_queue_scheme \<Rightarrow> job_entry list" where
  "future s = drop (m_eligible_end_idx s) (m_wait_queue s)"

lemma length_live: "length (live q) = length q - length (filter removed q)"
  using sum_length_filter_compl[of removed q] by simp

lemma live_future: "fq_inv s \<Longrightarrow> live (drop (m_eligible_end_idx s) (m_wait_queue s)) = future s"
  by (auto simp: fq_inv_def future_def)

lemma pending_split: "fq_inv s \<Longrightarrow> live (m_wait_queue s) = waiting s @ future s"
  using live_future[of s] filter_take_drop[of "\<lambda>j. \<not> removed j" "m_wait_queue s" "m_eligible_end_idx s"]
  by (simp add: waiting_def)

section \<open>Queries\<close>

lemma active_job_count_waiting: "fq_inv s \<Longrightarrow> deque_active_job_count s = length (waiting s)"
  by (simp add: deque_active_job_count_def waiting_def length_live fq_inv_def)

lemma pending_ids_split: "fq_inv s \<Longrightarrow> deque_pending_job_ids s = map job_id (waiting s @ future s)"
  by (simp add: deque_pending_job_ids_def pending_split)

lemma next_arrival_future:
  "fq_inv s \<Longrightarrow> deque_next_arrival_time s = (case future s of [] \<Rightarrow> dbl_max | j # _ \<Rightarrow> submit_time j)"
  by (cases "drop (m_eligible_end_idx s) (m_wait_queue s)")
     (auto simp: deque_next_arrival_time_def future_def fq_inv_def)

section \<open>Arrivals\<close>

definition in_order :: "'a fcfs_queue_scheme \<Rightarrow> sim_time \<Rightarrow> bool" where
  "in_order s t \<longleftrightarrow> (\<forall>j\<in>set (m_wait_queue s). submit_time j \<le> t)"

lemma insert_future_nil:
  assumes "fq_inv s" "in_order s t" and True: "t \<le> m_current_tracked_time s"
  shows "future s = []"
proof (rule ccontr)
  assume "future s \<noteq> []"
  then obtain j where "j \<in> set (drop (m_eligible_end_idx s) (m_wait_queue s))"
    by (metis future_def list.set_sel(1))
  moreover from this have "submit_time j \<le> m_current_tracked_time s"
    using assms(2) True in_set_dropD[of j] by (auto simp: in_order_def intro: order_trans)
  ultimately show False using assms(1) by (auto simp: fq_inv_def)
qed

lemma insert_job_refines:
  assumes "fq_inv s" "in_order s t"
  shows "fq_inv (deque_insert_job s i t r n) \<and>
    waiting (deque_insert_job s i t r n) =
      (if t \<le> m_current_tracked_time s then waiting s @ [new_entry i t r n] else waiting s) \<and>
    future (deque_insert_job s i t r n) =
      (if t \<le> m_current_tracked_time s then [] else future s @ [new_entry i t r n])"
proof (cases "t \<le> m_current_tracked_time s")
  case True
  have "drop (m_eligible_end_idx s) (m_wait_queue s) = []"
    using insert_future_nil[OF assms True] by (simp add: future_def)
  then have "m_eligible_end_idx s = length (m_wait_queue s)" using assms(1) by (auto simp: fq_inv_def)
  with assms True show ?thesis
    by (auto simp: deque_insert_job_def fq_inv_def waiting_def future_def new_entry_def in_order_def sorted_append)
next
  case False
  with assms show ?thesis
    by (auto simp: deque_insert_job_def fq_inv_def waiting_def future_def new_entry_def in_order_def sorted_append)
qed

lemma arrived_split:
  "sorted (map submit_time q) \<Longrightarrow> j \<in> set (drop (arrived_prefix now q) q) \<Longrightarrow> now < submit_time j"
  unfolding arrived_prefix_def
proof (induction q)
  case (Cons a q)
  then show ?case by (cases "submit_time a \<le> now") auto
qed simp

lemma take_arrived: "take (arrived_prefix now q) q = takeWhile (\<lambda>j. submit_time j \<le> now) q"
  by (metis arrived_prefix_def takeWhile_eq_take)

lemma sync_to_refines:
  assumes "fq_inv s"
  shows "fq_inv (deque_sync_to s now) \<and>
    waiting (deque_sync_to s now) = (if now \<le> m_current_tracked_time s then waiting s
       else waiting s @ takeWhile (\<lambda>j. submit_time j \<le> now) (future s)) \<and>
    future (deque_sync_to s now) = (if now \<le> m_current_tracked_time s then future s
       else dropWhile (\<lambda>j. submit_time j \<le> now) (future s))"
proof (cases "now \<le> m_current_tracked_time s")
  case False
  define e q where "e = m_eligible_end_idx s" and "q = m_wait_queue s"
  define k where "k = arrived_prefix now (drop e q)"
  have sorted: "sorted (map submit_time q)" "sorted (map submit_time (drop e q))"
    using assms by (simp_all add: fq_inv_def q_def sorted_wrt_drop flip: drop_map)
  have k: "e + k \<le> length q" "take k (drop e q) = takeWhile (\<lambda>j. submit_time j \<le> now) (drop e q)"
    "drop k (drop e q) = dropWhile (\<lambda>j. submit_time j \<le> now) (drop e q)"
    using assms length_takeWhile_le[of "\<lambda>j. submit_time j \<le> now" "drop e q"] take_arrived[of now "drop e q"]
    by (auto simp: k_def arrived_prefix_def fq_inv_def e_def q_def dropWhile_eq_drop)
  have tk: "take (e + k) q = take e q @ takeWhile (\<lambda>j. submit_time j \<le> now) (drop e q)"
    using k(2) by (simp add: take_add)
  have "\<forall>j\<in>set (takeWhile (\<lambda>j. submit_time j \<le> now) (drop e q)). \<not> removed j"
    using assms by (auto simp: fq_inv_def e_def q_def dest!: set_takeWhileD)
  then have live: "live (takeWhile (\<lambda>j. submit_time j \<le> now) (drop e q)) = takeWhile (\<lambda>j. submit_time j \<le> now) (drop e q)"
    and nrem: "filter removed (takeWhile (\<lambda>j. submit_time j \<le> now) (drop e q)) = []"
    by (simp_all add: filter_empty_conv)
  have s': "deque_sync_to s now = s\<lparr>m_eligible_end_idx := e + k, m_current_tracked_time := now\<rparr>"
    using False by (simp add: deque_sync_to_def e_def q_def k_def)
  have "\<forall>j\<in>set (drop (e + k) q). \<not> removed j \<and> now < submit_time j"
    using assms arrived_split[OF sorted(2), of _ now] set_drop_subset[of k "drop e q"]
    by (auto simp: fq_inv_def e_def[symmetric] q_def[symmetric] k_def add.commute)
  moreover have "\<forall>j\<in>set (take (e + k) q). submit_time j \<le> now"
    using assms False unfolding tk by (auto simp: fq_inv_def e_def q_def dest!: set_takeWhileD)
  ultimately have "fq_inv (deque_sync_to s now)"
    using assms k(1) tk nrem sorted(1) by (simp add: fq_inv_def s' e_def[symmetric] q_def[symmetric])
  moreover have "waiting (deque_sync_to s now) = waiting s @ takeWhile (\<lambda>j. submit_time j \<le> now) (future s)"
    using live by (simp add: waiting_def future_def s' tk e_def[symmetric] q_def[symmetric])
  moreover have "future (deque_sync_to s now) = dropWhile (\<lambda>j. submit_time j \<le> now) (future s)"
    using k(3) by (simp add: future_def s' e_def[symmetric] q_def[symmetric] add.commute)
  ultimately show ?thesis using False by simp
qed (use assms in \<open>simp add: deque_sync_to_def\<close>)

lemma sorted_map_filter: "sorted (map f q) \<Longrightarrow> sorted (map f (filter P q))"
  by (induction q) auto

lemma compact_refines:
  assumes "fq_inv s"
  shows "fq_inv (deque_compact s) \<and> waiting (deque_compact s) = waiting s \<and> future (deque_compact s) = future s"
proof (cases "m_removed_count s > 0 \<and> m_removed_count s * 2 > length (m_wait_queue s)")
  case True
  define W F where "W = waiting s" and "F = future s"
  have e: "m_eligible_end_idx s - length (filter removed (take (m_eligible_end_idx s) (m_wait_queue s))) = length W"
    using assms by (simp add: W_def waiting_def length_live fq_inv_def)
  have s': "deque_compact s = s\<lparr>m_wait_queue := W @ F, m_eligible_end_idx := length W, m_removed_count := 0\<rparr>"
    using True e pending_split[OF assms] by (simp add: deque_compact_def W_def F_def)
  have "sorted (map submit_time (W @ F))"
    using assms pending_split[OF assms] sorted_map_filter[of submit_time "m_wait_queue s" "\<lambda>j. \<not> removed j"]
    by (simp add: fq_inv_def W_def F_def)
  moreover have "\<forall>j\<in>set F. \<not> removed j \<and> m_current_tracked_time s < submit_time j"
    "\<forall>j\<in>set W. \<not> removed j \<and> submit_time j \<le> m_current_tracked_time s"
    using assms by (auto simp: fq_inv_def F_def future_def W_def waiting_def)
  moreover have "waiting (deque_compact s) = live W" "future (deque_compact s) = F"
    by (simp_all add: s' waiting_def future_def)
  ultimately show ?thesis
    by (auto simp: fq_inv_def s' filter_empty_conv simp flip: W_def F_def)
qed (use assms in \<open>auto simp: deque_compact_def\<close>)

section \<open>The loops of the pass\<close>

lemma start_heads_refines:
  assumes "start_heads e r a q = (hs, a', e', r', q')"
    and "e \<le> length q" "r = length (filter removed (take e q))"
  shows "spec_heads a (live (take e q)) = (hs, a', live (take e' q')) \<and> e' \<le> length q' \<and>
    r' = length (filter removed (take e' q')) \<and> drop e q = drop e' q' \<and>
    (live (take e' q') \<noteq> [] \<longrightarrow> q' \<noteq> [] \<and> 0 < e' \<and> \<not> removed (hd q')) \<and>
    (\<exists>k \<le> e. q' = drop k q \<and> e' = e - k)"
  using assms
proof (induction e r a q arbitrary: hs rule: start_heads.induct)
  case (2 e r a j q)
  show ?case
  proof (cases "e > 0 \<and> (removed j \<or> nodes_requested j \<le> a)")
    case True
    then obtain f where f: "e = Suc f" by (cases e) auto
    have ext: "\<exists>k\<le>e. xs = drop k (j # q) \<and> m = e - k" if "\<exists>k\<le>f. xs = drop k q \<and> m = f - k" for xs m
      using that f by (metis Suc_le_mono diff_Suc_Suc drop_Suc_Cons)
    show ?thesis
    proof (cases "removed j")
      case rem: True
      with 2(3) True f have "start_heads f (r - 1) a q = (hs, a', e', r', q')" by simp
      with 2(2)[OF True] rem 2(4,5) f show ?thesis using ext by (auto simp del: split_paired_Ex)
    next
      case live: False
      with 2(3) True f obtain hs' where hs': "start_heads f r (a - nodes_requested j) q = (hs', a', e', r', q')" "hs = j # hs'"
        by (auto split: prod.splits)
      with 2(1)[OF True live] live True 2(4,5) f show ?thesis using ext by (auto simp del: split_paired_Ex)
    qed
  next
    case False
    with 2(3) have "hs = []" "a' = a" "e' = e" "r' = r" "q' = j # q" by auto
    with False 2(4,5) show ?thesis by (cases e) (auto intro!: exI[of _ 0])
  qed
qed auto

lemma depth_walk_filter:
  "depth_walk k (map P xs) \<le> length xs \<and>
   filter (\<lambda>x. \<not> P x) (take (depth_walk k (map P xs)) xs) = take k (filter (\<lambda>x. \<not> P x) xs) \<and>
   filter (\<lambda>x. \<not> P x) (drop (depth_walk k (map P xs)) xs) = drop k (filter (\<lambda>x. \<not> P x) xs)"
proof (induction xs arbitrary: k)
  case (Cons x xs)
  then show ?case by (cases k) auto
qed simp

lemmas depth_walk_live = depth_walk_filter[where P = removed]

lemma backfill_scan_Cons:
  "backfill_scan s now hp planned a plan (j # js) =
    (if \<not> removed j \<and> admits s now hp planned a plan j then
       (if a - nodes_requested j = 0 then ([j], j\<lparr>removed := True\<rparr> # js)
        else let (st, js') = backfill_scan s now hp planned (a - nodes_requested j) (charge s now planned plan j) js
             in (j # st, j\<lparr>removed := True\<rparr> # js'))
     else let (st, js') = backfill_scan s now hp planned a plan js in (st, j # js'))"
  by (auto simp: admits_def charge_def Let_def linorder_not_le[symmetric] simp del: right_minus_eq)

lemma backfill_scan_refines:
  assumes "backfill_scan s now hp planned a plan xs = (st, xs')"
  shows "spec_backfill s now hp planned a plan (live xs) = (st, live xs') \<and>
    map submit_time xs' = map submit_time xs \<and>
    length (filter removed xs') = length (filter removed xs) + length st"
  using assms
proof (induction xs arbitrary: a plan st xs')
  case (Cons j xs)
  then show ?case
    by (fastforce simp: backfill_scan_Cons simp del: backfill_scan.simps split: if_splits prod.splits)
qed simp

section \<open>The pass\<close>

text \<open>The planning helpers read only the planning fields of the state.\<close>

definition same_planning :: "'a scheduler_base_scheme \<Rightarrow> 'b scheduler_base_scheme \<Rightarrow> bool" where
  "same_planning s s' \<longleftrightarrow> m_backfill_policy s = m_backfill_policy s' \<and>
     m_planning_time_resolution s = m_planning_time_resolution s' \<and>
     m_outlook_capacity s = m_outlook_capacity s' \<and> m_outlook_occupied s = m_outlook_occupied s' \<and>
     m_outlook_changes s = m_outlook_changes s' \<and> m_planning_horizon s = m_planning_horizon s'"

lemma planning_cong:
  assumes "same_planning s s'"
  shows "release_estimate s = release_estimate s'" "reservation_timeline s = reservation_timeline s'"
    "projected s = projected s'" "reservation_within_horizon s = reservation_within_horizon s'"
    "m_backfill_policy s = m_backfill_policy s'"
proof -
  show re: "release_estimate s = release_estimate s'"
    using assms by (intro ext) (simp add: release_estimate_def same_planning_def Let_def)
  show "reservation_timeline s = reservation_timeline s'"
    using assms by (intro ext) (simp add: reservation_timeline_def initial_balance_def same_planning_def)
  show "projected s = projected s'" by (intro ext) (simp add: projected_def re)
  show "reservation_within_horizon s = reservation_within_horizon s'" "m_backfill_policy s = m_backfill_policy s'"
    using assms by (auto intro!: ext simp: reservation_within_horizon_def same_planning_def)
qed

lemma spec_backfill_cong:
  assumes "same_planning s s'"
  shows "spec_backfill s now hp planned a plan js = spec_backfill s' now hp planned a plan js"
proof -
  have "admits s = admits s'" "charge s = charge s'"
    by (intro ext; simp add: admits_def charge_def planning_cong(1)[OF assms])+
  then show ?thesis by (induction js arbitrary: a plan) simp_all
qed

lemma backfill_scan_cong:
  assumes "same_planning s s'"
  shows "backfill_scan s = backfill_scan s'"
proof -
  have eq: "admits s = admits s'" "charge s = charge s'"
    by (intro ext; simp add: admits_def charge_def planning_cong(1)[OF assms])+
  have "backfill_scan s now hp planned a plan js = backfill_scan s' now hp planned a plan js"
    for now hp planned a plan js
    by (induction js arbitrary: a plan) (simp_all add: backfill_scan_Cons eq del: backfill_scan.simps(2))
  then show ?thesis by (intro ext)
qed

lemma live_pos: "q \<noteq> [] \<Longrightarrow> 0 < e \<Longrightarrow> \<not> removed (hd q) \<Longrightarrow> live (take e q) = hd q # live (drop 1 (take e q))"
  by (cases q; cases e) auto

lemma scan_range:
  assumes "q \<noteq> []" "0 < e" "e \<le> length q"
    and k_def: "k = queue_depth_scan_end (map removed q) 1 e depth planned"
  shows "1 \<le> k \<and> k \<le> e \<and>
    candidates depth planned (live (drop 1 (take e q))) = (live (drop 1 (take k q)), live (drop k (take e q)))"
proof (cases "depth = 0")
  case True
  then show ?thesis using assms by (simp add: queue_depth_scan_end_def candidates_def)
next
  case False
  define d xs where "d = depth - (if planned then 1 else 0)" and "xs = drop 1 (take e q)"
  have "drop 1 (take e (map removed q)) = map removed xs" by (simp add: xs_def take_map drop_map)
  moreover define w where "w = depth_walk d (map removed xs)"
  ultimately have k: "k = 1 + w" using False by (simp add: k_def queue_depth_scan_end_def d_def)
  have w: "w \<le> length xs" using depth_walk_live by (auto simp: w_def)
  have le: "1 \<le> k \<and> k \<le> e" using w k assms by (simp add: xs_def)
  then have "drop 1 (take k q) = take w xs" using k by (auto simp: xs_def drop_take min_absorb1)
  moreover have "drop k (take e q) = drop w xs" by (simp add: xs_def k)
  ultimately show ?thesis using depth_walk_live[of d xs, folded w_def] le False
    by (simp add: candidates_def d_def[symmetric] xs_def[unfolded One_nat_def, symmetric])
qed

lemma splice_range:
  assumes "1 \<le> k" "k \<le> e" "e \<le> length q" "length ys = k - 1"
  shows "take e (take 1 q @ ys @ drop k q) = take 1 q @ ys @ drop k (take e q)"
    "drop e (take 1 q @ ys @ drop k q) = drop e q"
    "take 1 q @ drop 1 (take k q) @ drop k q = q"
proof -
  have "length (take 1 q) = 1" using assms by simp
  then show "take e (take 1 q @ ys @ drop k q) = take 1 q @ ys @ drop k (take e q)"
    "drop e (take 1 q @ ys @ drop k q) = drop e q"
    using assms by (simp_all add: take_append drop_append drop_take)
  have "take 1 q @ drop 1 (take k q) = take k q"
    using assms by (metis append_take_drop_id min_absorb1 take_take)
  then show "take 1 q @ drop 1 (take k q) @ drop k q = q" by (metis append_assoc append_take_drop_id)
qed

text \<open>Replacing the visited range of the queue keeps the invariant.\<close>

lemma fq_inv_splice:
  assumes inv: "fq_inv s" and q: "q = m_wait_queue s" and e: "e = m_eligible_end_idx s"
    and k: "1 \<le> k" "k \<le> e"
    and ys: "map submit_time ys = map submit_time (drop 1 (take k q))"
      "length (filter removed ys) = length (filter removed (drop 1 (take k q))) + n"
    and s': "s' = s\<lparr>m_wait_queue := take 1 q @ ys @ drop k q, m_removed_count := m_removed_count s + n, m_fcfs_reservation_time := x\<rparr>"
  shows "fq_inv s' \<and> waiting s' = live (take 1 q @ ys @ drop k (take e q)) \<and> future s' = future s"
proof -
  have el: "e \<le> length q" using inv q e by (simp add: fq_inv_def)
  have len: "length ys = k - 1" using arg_cong[OF ys(1), of length] k el by simp
  note sp = splice_range[OF k el len]
  have sub: "map submit_time (take 1 q @ ys @ drop k q) = map submit_time q"
    using ys(1) sp(3) by (metis map_append)
  have lx: "length (drop 1 (take k q)) = k - 1" using k el by simp
  have tk: "take 1 q @ drop 1 (take k q) @ drop k (take e q) = take e q"
    by (rule splice_range(1)[OF k el lx, unfolded sp(3), symmetric])
  have subt: "map submit_time (take 1 q @ ys @ drop k (take e q)) = map submit_time (take e q)"
    using sub sp(1) by (metis take_map)
  have cnt: "length (filter removed (take 1 q @ ys @ drop k (take e q))) = length (filter removed (take e q)) + n"
    using ys(2) arg_cong[OF tk, of "\<lambda>xs. length (filter removed xs)"] by simp
  have "\<forall>j\<in>set (take 1 q @ ys @ drop k (take e q)). submit_time j \<le> m_current_tracked_time s"
  proof -
    have "\<forall>t\<in>set (map submit_time (take e q)). t \<le> m_current_tracked_time s"
      using inv q e by (simp add: fq_inv_def)
    then show ?thesis unfolding subt[symmetric] by auto
  qed
  then show ?thesis using inv el sp(1,2) sub cnt len k
    unfolding s' fq_inv_def waiting_def future_def by (simp add: q[symmetric] e[symmetric])
qed

lemma start_heads_inv:
  assumes inv: "fq_inv s"
    and sh: "start_heads (m_eligible_end_idx s) (m_removed_count s) free (m_wait_queue s) = (hs, a, e, r, q)"
  shows "fq_inv (s\<lparr>m_wait_queue := q, m_eligible_end_idx := e, m_removed_count := r\<rparr>) \<and>
    spec_heads free (waiting s) = (hs, a, live (take e q)) \<and> drop e q = future s \<and>
    (live (take e q) \<noteq> [] \<longrightarrow> q \<noteq> [] \<and> 0 < e \<and> \<not> removed (hd q))"
proof -
  have pre: "m_eligible_end_idx s \<le> length (m_wait_queue s)"
    "m_removed_count s = length (filter removed (take (m_eligible_end_idx s) (m_wait_queue s)))"
    using inv by (simp_all add: fq_inv_def)
  note r = start_heads_refines[OF sh pre]
  then obtain k where k: "k \<le> m_eligible_end_idx s" "q = drop k (m_wait_queue s)" "e = m_eligible_end_idx s - k"
    by blast
  have "take e q = drop k (take (m_eligible_end_idx s) (m_wait_queue s))" using k by (simp add: drop_take)
  then have "set (take e q) \<subseteq> set (take (m_eligible_end_idx s) (m_wait_queue s))"
    by (simp add: set_drop_subset)
  moreover have "sorted (map submit_time q)" using inv k(2) by (simp add: fq_inv_def sorted_wrt_drop flip: drop_map)
  ultimately have "fq_inv (s\<lparr>m_wait_queue := q, m_eligible_end_idx := e, m_removed_count := r\<rparr>)"
    using r inv unfolding fq_inv_def by (simp add: subset_iff)
  then show ?thesis using r by (simp add: waiting_def future_def)
qed

lemma deque_pass_refines:
  assumes inv: "fq_inv s"
    and er_def: "er = easy_pass s (m_backfill_queue_depth s) free running now (waiting s)"
  shows "fst (deque_pass s free running now) = map job_id (er_heads er @ er_backfilled er) \<and>
    fq_inv (snd (deque_pass s free running now)) \<and>
    waiting (snd (deque_pass s free running now)) = er_waiting er \<and>
    future (snd (deque_pass s free running now)) = future s \<and>
    m_fcfs_reservation_time (snd (deque_pass s free running now)) = er_reservation er"
proof -
  obtain hs a e r q where sh: "start_heads (m_eligible_end_idx s) (m_removed_count s) free (m_wait_queue s) =
    (hs, a, e, r, q)" by (metis prod_cases5)
  define s1 where "s1 = s\<lparr>m_wait_queue := q, m_eligible_end_idx := e, m_removed_count := r\<rparr>"
  note h = start_heads_inv[OF inv sh, folded s1_def]
  have w1: "waiting s1 = live (take e q)" "future s1 = future s" "e \<le> length q"
    using h by (auto simp: s1_def waiting_def future_def fq_inv_def)
  have sp: "same_planning s1 s" "same_planning (s1\<lparr>m_fcfs_reservation_time := x\<rparr>) s" for x
    by (simp_all add: same_planning_def s1_def)
  note cong = planning_cong[OF sp(1)] planning_cong[OF sp(2)]
  show ?thesis
  proof (cases "waiting s1 = [] \<or> m_backfill_policy s = NONE")
    case True
    then have "deque_pass s free running now = (map job_id hs, s1)"
      using active_job_count_waiting[of s1] h sh cong by (auto simp: deque_pass_def s1_def Let_def)
    moreover have "er = \<lparr>er_heads = hs, er_backfilled = [], er_waiting = live (take e q), er_avail = a,
        er_reservation = m_fcfs_reservation_time s\<rparr>"
      using True h w1 by (auto simp: er_def easy_pass_def Let_def split: list.splits)
    ultimately show ?thesis using h w1 by (simp add: s1_def)
  next
    case False
    then have ne: "live (take e q) \<noteq> []" using w1(1) by simp
    then have q: "q \<noteq> []" "0 < e" "\<not> removed (hd q)" using h by blast+
    note rest = live_pos[OF q]
    define plan res w plan' where "plan = head_plan s a running now hs"
      and "res = value_or_max (earliest_fit plan (nodes_requested (hd q)) 0 now)"
      and "w = reservation_within_horizon s res now"
      and "plan' = (if w then reserve plan res (nodes_requested (hd q))
                      (release_estimate s res (run_time_estimate (hd q))) else plan)"
    define s2 where "s2 = s1\<lparr>m_fcfs_reservation_time := res\<rparr>"
    define k where "k = queue_depth_scan_end (map removed q) 1 e (m_backfill_queue_depth s) w"
    obtain st ys where bs: "backfill_scan s2 now (res \<noteq> dbl_max) w a plan' (drop 1 (take k q)) = (st, ys)"
      by fastforce
    have sp2: "same_planning s2 s" using sp(2) by (simp add: s2_def)
    have s2: "m_backfill_queue_depth s2 = m_backfill_queue_depth s" "release_estimate s2 = release_estimate s"
      "reservation_within_horizon s2 = reservation_within_horizon s"
      using cong by (simp_all add: s2_def) (simp add: s1_def)
    note folds = plan_def[unfolded head_plan_def, symmetric] res_def[symmetric] w_def[symmetric]
    have pass: "deque_pass s free running now = (if a = 0 then (map job_id hs, s2)
       else (map job_id hs @ map job_id st,
         s2\<lparr>m_wait_queue := take 1 q @ ys @ drop k q, m_removed_count := r + length st\<rparr>))"
      using False active_job_count_waiting[of s1] h sh bs[unfolded plan'_def k_def]
      by (cases w) (simp_all add: deque_pass_def Let_def folds cong s1_def[symmetric] s2_def[symmetric] s2 k_def)
    have er: "er = \<lparr>er_heads = hs, er_backfilled = (if a = 0 then [] else st),
        er_waiting = (if a = 0 then live (take e q) else hd q # live ys @ live (drop k (take e q))),
        er_avail = a, er_reservation = res\<rparr>"
      unfolding er_def using False ne h rest scan_range[OF q(1,2) w1(3) k_def]
        backfill_scan_refines[OF bs, unfolded spec_backfill_cong[OF sp2] plan'_def]
      by (cases w) (simp_all add: easy_pass_def Let_def plan_def[symmetric] res_def[symmetric] w_def[symmetric])
    show ?thesis
    proof (cases "a = 0")
      case True
      then show ?thesis using pass er w1 h by (simp add: s2_def fq_inv_def waiting_def future_def)
    next
      case a: False
      have s': "snd (deque_pass s free running now) = s1\<lparr>m_wait_queue := take 1 q @ ys @ drop k q,
          m_removed_count := m_removed_count s1 + length st, m_fcfs_reservation_time := res\<rparr>"
        using pass a by (simp add: s2_def s1_def)
      have "fq_inv (snd (deque_pass s free running now)) \<and>
          waiting (snd (deque_pass s free running now)) = live (take 1 q @ ys @ drop k (take e q)) \<and>
          future (snd (deque_pass s free running now)) = future s1"
        using scan_range[OF q(1,2) w1(3) k_def] backfill_scan_refines[OF bs] h
        by (intro fq_inv_splice[OF _ _ _ _ _ _ _ s']) (simp_all add: s1_def)
      moreover have "live (take 1 q) = [hd q]" using q by (cases q) auto
      moreover have "m_fcfs_reservation_time (snd (deque_pass s free running now)) = res" unfolding s' by simp
      ultimately show ?thesis using pass a er w1(2) by simp
    qed
  qed
qed

lemma easy_pass_cong:
  assumes "same_planning s s'" "m_fcfs_reservation_time s = m_fcfs_reservation_time s'"
  shows "easy_pass s = easy_pass s'"
proof -
  have sb: "spec_backfill s = spec_backfill s'" by (intro ext) (rule spec_backfill_cong[OF assms(1)])
  show ?thesis unfolding easy_pass_def head_plan_def planning_cong[OF assms(1)] assms(2) sb ..
qed

lemma sync_compact_params:
  "same_planning (deque_compact (deque_sync_to s now)) s"
  "m_fcfs_reservation_time (deque_compact (deque_sync_to s now)) = m_fcfs_reservation_time s"
  "m_backfill_queue_depth (deque_compact (deque_sync_to s now)) = m_backfill_queue_depth s"
  by (simp_all add: same_planning_def deque_compact_def deque_sync_to_def)

text \<open>One scheduling call is one abstract pass over the jobs that have arrived.\<close>

theorem deque_schedule_refines:
  assumes inv: "fq_inv s"
    and er_def: "er = easy_pass s (m_backfill_queue_depth s) free running now (waiting (deque_sync_to s now))"
  shows "fst (deque_schedule s free running now) = map job_id (er_heads er @ er_backfilled er) \<and>
    fq_inv (snd (deque_schedule s free running now)) \<and>
    waiting (snd (deque_schedule s free running now)) = er_waiting er \<and>
    future (snd (deque_schedule s free running now)) = future (deque_sync_to s now) \<and>
    m_fcfs_reservation_time (snd (deque_schedule s free running now)) = er_reservation er"
proof -
  define c where "c = deque_compact (deque_sync_to s now)"
  have c: "fq_inv c" "waiting c = waiting (deque_sync_to s now)" "future c = future (deque_sync_to s now)"
    using sync_to_refines[OF inv] compact_refines unfolding c_def by blast+
  have er: "er = easy_pass c (m_backfill_queue_depth c) free running now (waiting c)"
    using er_def easy_pass_cong[OF sync_compact_params(1,2)[of s now]] sync_compact_params(3)[of s now] c(2)
    by (simp add: c_def)
  show ?thesis
  proof (cases "m_eligible_end_idx c = 0")
    case True
    then have "waiting c = []" by (simp add: waiting_def)
    then show ?thesis using True c er
      by (simp add: deque_schedule_def Let_def c_def[symmetric] easy_pass_def)
  next
    case False
    then show ?thesis using deque_pass_refines[OF c(1) er] c(3)
      by (simp add: deque_schedule_def Let_def c_def[symmetric])
  qed
qed

section \<open>The scheduler interface\<close>

lemma deque_pass_clock: "m_current_tracked_time (snd (deque_pass s free running now)) = m_current_tracked_time s"
  by (simp add: deque_pass_def Let_def case_prod_beta)

lemma deque_clock:
  "m_current_tracked_time (deque_sync_to s now) = max (m_current_tracked_time s) now"
  "m_current_tracked_time (deque_compact s) = m_current_tracked_time s"
  "m_current_tracked_time (snd (deque_schedule s free running now)) = max (m_current_tracked_time s) now"
proof -
  show 1: "m_current_tracked_time (deque_sync_to s now) = max (m_current_tracked_time s) now" for s :: "'a fcfs_queue_scheme"
    by (auto simp: deque_sync_to_def max_def)
  show 2: "m_current_tracked_time (deque_compact s) = m_current_tracked_time s" for s :: "'a fcfs_queue_scheme"
    by (simp add: deque_compact_def)
  show "m_current_tracked_time (snd (deque_schedule s free running now)) = max (m_current_tracked_time s) now"
    by (simp add: deque_schedule_def Let_def deque_pass_clock 1 2)
qed

lemma waiting_arrived: "fq_inv s \<Longrightarrow> j \<in> set (waiting s) \<Longrightarrow> submit_time j \<le> m_current_tracked_time s"
  by (auto simp: fq_inv_def waiting_def)

definition pending :: "'a fcfs_queue_scheme \<Rightarrow> job_entry list" where
  "pending s = waiting s @ future s"

definition deque_insert :: "'a fcfs_queue_scheme \<Rightarrow> job_no \<Rightarrow> sim_time \<Rightarrow> tdiff \<Rightarrow> num_nodes \<Rightarrow> exn + 'a fcfs_queue_scheme" where
  "deque_insert s i t r n = Inr (deque_insert_job s i t r n)"

lemma sync_pending: "fq_inv s \<Longrightarrow> pending (deque_sync_to s now) = pending s"
  using sync_to_refines[of s now] by (auto simp: pending_def)

lemma deque_started:
  assumes inv: "fq_inv s"
    and er_def: "er = easy_pass s (m_backfill_queue_depth s) free running now (waiting (deque_sync_to s now))"
    and sch: "deque_schedule s free running now = (ids, s')"
  shows "mset (pending s) = mset (er_heads er @ er_backfilled er) + mset (pending s')"
proof -
  let ?W = "waiting (deque_sync_to s now)"
  note r = deque_schedule_refines[OF inv er_def, unfolded sch fst_conv snd_conv]
  have "mset ?W = mset (er_heads er @ er_backfilled er) + mset (er_waiting er)"
    using easy_pass_partition[of ?W s] by (simp add: er_def)
  moreover have "mset (pending s) = mset ?W + mset (future s')"
    using r sync_pending[OF inv, of now, symmetric] by (simp add: pending_def)
  ultimately show ?thesis using r by (simp add: pending_def)
qed

lemma deque_schedule_law:
  assumes inv: "fq_inv s" and sch: "deque_schedule s free running now = (ids, s')"
  shows "fq_inv s' \<and> m_current_tracked_time s' = max (m_current_tracked_time s) now \<and>
    (\<exists>st. ids = map job_id st \<and> mset (pending s) = mset st + mset (pending s') \<and>
       nodes_sum st \<le> unat free \<and> (\<forall>j\<in>set st. submit_time j \<le> m_current_tracked_time s'))"
proof -
  let ?W = "waiting (deque_sync_to s now)"
  define er where "er = easy_pass s (m_backfill_queue_depth s) free running now ?W"
  note r = deque_schedule_refines[OF inv er_def, unfolded sch fst_conv snd_conv]
  have sync: "fq_inv (deque_sync_to s now)" using sync_to_refines[OF inv] by blast
  have clk: "m_current_tracked_time s' = max (m_current_tracked_time s) now"
    using deque_clock(3)[of s free running now] sch by simp
  have part: "mset ?W = mset (er_heads er @ er_backfilled er) + mset (er_waiting er)"
    using easy_pass_partition[of ?W s] by (simp add: er_def)
  have "\<forall>j\<in>set (er_heads er @ er_backfilled er). submit_time j \<le> m_current_tracked_time s'"
    using waiting_arrived[OF sync] mset_eq_setD[of ?W "(er_heads er @ er_backfilled er) @ er_waiting er"] part
    by (auto simp: clk deque_clock)
  moreover note deque_started[OF inv er_def sch]
  moreover have "nodes_sum (er_heads er @ er_backfilled er) \<le> unat free"
    using easy_pass_nodes by (simp add: er_def)
  ultimately show ?thesis using r clk by blast
qed

interpretation dq: scheduler deque_insert deque_sync_to deque_schedule
  "\<lambda>s i t. in_order s t" pending fq_inv m_current_tracked_time
proof unfold_locales
  fix s :: "'a fcfs_queue_scheme" and i t r n s'
  assume "fq_inv s" "in_order s t" "deque_insert s i t r n = Inr s'"
  then show "fq_inv s' \<and> mset (pending s') = add_mset (new_entry i t r n) (mset (pending s)) \<and>
      m_current_tracked_time s' = m_current_tracked_time s"
    using insert_job_refines[of s t i r n] insert_future_nil[of s t]
    by (auto simp: deque_insert_def pending_def deque_insert_job_def Let_def split: if_splits)
next
  fix s :: "'a fcfs_queue_scheme" and t
  assume inv: "fq_inv s"
  show "fq_inv (deque_sync_to s t) \<and> mset (pending (deque_sync_to s t)) = mset (pending s) \<and>
      m_current_tracked_time (deque_sync_to s t) = max (m_current_tracked_time s) t"
    using sync_to_refines[OF inv, of t] by (simp add: deque_clock sync_pending[OF inv])
qed (rule deque_schedule_law)

end
