(* ===== verification/Easy_Circular.thy ===== *)
theory Easy_Circular
  imports Easy_Refine
begin

text \<open>
  \<^verbatim>\<open>FCFSEasyCircularScheduler\<close> (\<^verbatim>\<open>src/src/sim/scheduler_fcfs_easy_circular.hpp\<close> and \<^verbatim>\<open>.cpp\<close>): the same
  queue on a \<^verbatim>\<open>boost::circular_buffer\<close> of fixed capacity.  The buffer is not part of the repository; the
  two of its operations whose documented behaviour depends on the capacity, \<^verbatim>\<open>push_back\<close> and
  \<^verbatim>\<open>set_capacity\<close>, are the parameter \<open>circular_buffer\<close> of the model, and what the code relies on is the
  hypothesis \<open>buffer_ok\<close>: a push into a buffer that is not full appends, and a capacity that is not
  below the size keeps the elements.  The class's documentation says it is otherwise identical to the
  deque scheduler; the theory shows that, for every call.
\<close>

section \<open>The buffer\<close>

record circular_buffer =
  cb_push_back :: "nat \<Rightarrow> job_entry list \<Rightarrow> job_entry \<Rightarrow> job_entry list"
  cb_set_capacity :: "nat \<Rightarrow> job_entry list \<Rightarrow> job_entry list"

definition buffer_ok :: "circular_buffer \<Rightarrow> bool" where
  "buffer_ok b \<longleftrightarrow> (\<forall>c xs x. length xs < c \<longrightarrow> cb_push_back b c xs x = xs @ [x]) \<and>
     (\<forall>c xs. length xs \<le> c \<longrightarrow> cb_set_capacity b c xs = xs)"

section \<open>The scheduler\<close>

record circular_queue = fcfs_queue +
  m_capacity :: nat
  m_overflow_policy :: circular_overflow_policy

definition new_circular ::
  "num_nodes \<Rightarrow> nat \<Rightarrow> backfill_policy \<Rightarrow> nat \<Rightarrow> circular_overflow_policy \<Rightarrow> nat \<Rightarrow> circular_queue" where
  "new_circular total_nodes initial_job_count bf initial_capacity overflow depth =
     fcfs_queue.extend (scheduler_base.extend (new_base total_nodes bf) (fcfs_queue.fields [] 0 0 0 depth))
       (circular_queue.fields (if initial_capacity \<noteq> 0 then initial_capacity else initial_job_count) overflow)"

definition circular_insert_job ::
  "circular_buffer \<Rightarrow> 'a circular_queue_scheme \<Rightarrow> job_no \<Rightarrow> sim_time \<Rightarrow> tdiff \<Rightarrow> num_nodes \<Rightarrow> exn + 'a circular_queue_scheme" where
  "circular_insert_job b s i t r n =
     (let full = (length (m_wait_queue s) = m_capacity s) in
      if full \<and> m_overflow_policy s = ABORT then Inl Runtime_Error
      else let s = (if full then (let c = max (m_capacity s * 2) 1 in
                                  s\<lparr>m_capacity := c, m_wait_queue := cb_set_capacity b c (m_wait_queue s)\<rparr>)
                    else s);
               s = s\<lparr>m_wait_queue := cb_push_back b (m_capacity s) (m_wait_queue s) (new_entry i t r n)\<rparr>
           in Inr (if t \<le> m_current_tracked_time s then s\<lparr>m_eligible_end_idx := length (m_wait_queue s)\<rparr> else s))"

definition circular_sync_to :: "'a circular_queue_scheme \<Rightarrow> sim_time \<Rightarrow> 'a circular_queue_scheme" where
  "circular_sync_to s now =
     (if now \<le> m_current_tracked_time s then s
      else s\<lparr>m_eligible_end_idx := m_eligible_end_idx s
               + length (takeWhile (\<lambda>j. submit_time j \<le> now) (drop (m_eligible_end_idx s) (m_wait_queue s))),
             m_current_tracked_time := now\<rparr>)"

definition circular_mark_removed :: "job_no \<Rightarrow> 'a circular_queue_scheme \<Rightarrow> 'a circular_queue_scheme" where
  "circular_mark_removed i s =
     (let (found, q) = mark_entry i (m_wait_queue s) in
      s\<lparr>m_wait_queue := q, m_removed_count := (if found then Suc (m_removed_count s) else m_removed_count s)\<rparr>)"

definition circular_active_job_count :: "'a circular_queue_scheme \<Rightarrow> nat" where
  "circular_active_job_count s = m_eligible_end_idx s - m_removed_count s"

definition circular_next_arrival_time :: "'a circular_queue_scheme \<Rightarrow> sim_time" where
  "circular_next_arrival_time s =
     (case dropWhile removed (drop (m_eligible_end_idx s) (m_wait_queue s)) of
        [] \<Rightarrow> dbl_max | j # _ \<Rightarrow> submit_time j)"

definition circular_pending_job_ids :: "'a circular_queue_scheme \<Rightarrow> job_no list" where
  "circular_pending_job_ids s = map job_id (filter (\<lambda>j. \<not> removed j) (m_wait_queue s))"

definition circular_schedule ::
  "'a circular_queue_scheme \<Rightarrow> num_nodes \<Rightarrow> running_jobs \<Rightarrow> sim_time \<Rightarrow> job_no list \<times> 'a circular_queue_scheme" where
  "circular_schedule s free running now =
     (let s = circular_sync_to s now;
          s = (if m_removed_count s > 0 \<and> m_removed_count s * 2 > length (m_wait_queue s)
               then s\<lparr>m_wait_queue := filter (\<lambda>j. \<not> removed j) (m_wait_queue s),
                      m_eligible_end_idx := m_eligible_end_idx s
                        - length (filter removed (take (m_eligible_end_idx s) (m_wait_queue s))),
                      m_removed_count := 0\<rparr>
               else s)
      in if m_eligible_end_idx s = 0 then ([], s)
      else let (heads, avail, e, r, q) = start_heads (m_eligible_end_idx s) (m_removed_count s) free (m_wait_queue s);
               s = s\<lparr>m_wait_queue := q, m_eligible_end_idx := e, m_removed_count := r\<rparr>;
               ids = map job_id heads
      in if circular_active_job_count s = 0 then (ids, s)
      else if m_backfill_policy s = NONE then (ids, s)
      else let head = hd q;
               plan = reservation_timeline s avail running now (map (projected s now) heads);
               res = value_or_max (earliest_fit plan (nodes_requested head) 0 now);
               s = s\<lparr>m_fcfs_reservation_time := res\<rparr>;
               planned = reservation_within_horizon s res now;
               plan = (if planned then reserve plan res (nodes_requested head)
                         (release_estimate s res (run_time_estimate head)) else plan)
      in if avail = 0 then (ids, s)
      else let scan_end = queue_depth_scan_end (map removed q) 1 e (m_backfill_queue_depth s) planned;
               (st, visited) = backfill_scan s now (res \<noteq> dbl_max) planned avail plan (drop 1 (take scan_end q))
           in (ids @ map job_id st,
               s\<lparr>m_wait_queue := take 1 q @ visited @ drop scan_end q, m_removed_count := r + length st\<rparr>))"

section \<open>Equivalence with the deque\<close>

lemma circular_sync_eq: "circular_sync_to s now = deque_sync_to s now"
  by (simp add: circular_sync_to_def deque_sync_to_def arrived_prefix_def)

lemma circular_active_eq: "circular_active_job_count s = deque_active_job_count s"
  by (simp add: circular_active_job_count_def deque_active_job_count_def)

lemma circular_schedule_eq: "circular_schedule s free running now = deque_schedule s free running now"
  unfolding circular_schedule_def deque_schedule_def deque_pass_def deque_compact_def circular_sync_eq
    circular_active_eq Let_def by (rule refl)

text \<open>Below its capacity, and always under GROW, an insertion is the deque's insertion.\<close>

definition circ_inv :: "'a circular_queue_scheme \<Rightarrow> bool" where
  "circ_inv s \<longleftrightarrow> fq_inv s \<and> length (m_wait_queue s) \<le> m_capacity s"

lemma circular_insert_eq:
  assumes b: "buffer_ok b" and le: "length (m_wait_queue s) \<le> m_capacity s"
  shows "circular_insert_job b s i t r n =
    (if length (m_wait_queue s) = m_capacity s then
       (if m_overflow_policy s = ABORT then Inl Runtime_Error
        else Inr (deque_insert_job (s\<lparr>m_capacity := max (m_capacity s * 2) 1\<rparr>) i t r n))
     else Inr (deque_insert_job s i t r n))"
proof -
  have grow: "cb_set_capacity b (max (m_capacity s * 2) 1) (m_wait_queue s) = m_wait_queue s"
    "cb_push_back b (max (m_capacity s * 2) 1) (m_wait_queue s) x = m_wait_queue s @ [x]"
    if "length (m_wait_queue s) = m_capacity s" for x
    using b that unfolding buffer_ok_def by (simp_all add: max_def)
  have push: "cb_push_back b (m_capacity s) (m_wait_queue s) x = m_wait_queue s @ [x]"
    if "length (m_wait_queue s) \<noteq> m_capacity s" for x
    using b le that unfolding buffer_ok_def by simp
  show ?thesis
    by (simp add: circular_insert_job_def deque_insert_job_def Let_def grow[unfolded One_nat_def] push)
qed

lemma circular_insert_inv:
  assumes "buffer_ok b" "circ_inv s" "in_order s t" "circular_insert_job b s i t r n = Inr s'"
  shows "circ_inv s' \<and> waiting s' @ future s' = waiting (deque_insert_job s i t r n) @ future (deque_insert_job s i t r n) \<and>
    m_current_tracked_time s' = m_current_tracked_time s"
proof -
  have le: "length (m_wait_queue s) \<le> m_capacity s" and inv: "fq_inv s" using assms(2) by (simp_all add: circ_inv_def)
  obtain c where s': "s' = deque_insert_job (s\<lparr>m_capacity := c\<rparr>) i t r n" and c: "length (m_wait_queue s) < c"
  proof (cases "length (m_wait_queue s) = m_capacity s")
    case True
    then show thesis using that[of "max (m_capacity s * 2) 1"] circular_insert_eq[OF assms(1) le] assms(4)
      by (auto split: if_splits)
  next
    case False
    then show thesis using that[of "m_capacity s"] circular_insert_eq[OF assms(1) le] assms(4) le by simp
  qed
  have "fq_inv (s\<lparr>m_capacity := c\<rparr>)" "in_order (s\<lparr>m_capacity := c\<rparr>) t"
    using inv assms(3) by (simp_all add: fq_inv_def in_order_def)
  then have "fq_inv s'" using insert_job_refines s' by blast
  moreover have "m_wait_queue s' = m_wait_queue s @ [new_entry i t r n]" "m_capacity s' = c"
    "m_wait_queue (deque_insert_job s i t r n) = m_wait_queue s @ [new_entry i t r n]"
    "m_current_tracked_time s' = m_current_tracked_time s"
    "m_eligible_end_idx s' = m_eligible_end_idx (deque_insert_job s i t r n)"
    by (simp_all add: s' deque_insert_job_def Let_def)
  ultimately show ?thesis using c by (simp add: circ_inv_def waiting_def future_def)
qed

lemma circular_insert_abort:
  "length (m_wait_queue s) = m_capacity s \<Longrightarrow> m_overflow_policy s = ABORT \<Longrightarrow>
   circular_insert_job b s i t r n = Inl Runtime_Error"
  by (simp add: circular_insert_job_def)

lemma circular_insert_grow:
  "m_overflow_policy s = GROW \<Longrightarrow> \<exists>s'. circular_insert_job b s i t r n = Inr s'"
  by (simp add: circular_insert_job_def Let_def)

text \<open>No call makes the queue longer than an insertion does, so the capacity bound is kept.\<close>

lemma start_heads_length: "start_heads e r a q = (hs, a', e', r', q') \<Longrightarrow> length q' \<le> length q"
  by (induction e r a q arbitrary: hs rule: start_heads.induct) (fastforce split: if_splits prod.splits)+

lemma backfill_scan_length: "length (snd (backfill_scan s now hp planned a plan xs)) = length xs"
  using backfill_scan_refines[of s now hp planned a plan xs] by (metis length_map prod.collapse)

lemma splice_length:
  "0 < e \<Longrightarrow> k = queue_depth_scan_end rs (Suc 0) e depth w \<Longrightarrow> min l (Suc 0) + (min l k - Suc 0 + (l - k)) \<le> l"
  by (auto simp: queue_depth_scan_end_def min_def)

lemma deque_pass_length: "length (m_wait_queue (snd (deque_pass s free running now))) \<le> length (m_wait_queue s)"
proof -
  obtain hs a e r q where sh: "start_heads (m_eligible_end_idx s) (m_removed_count s) free (m_wait_queue s) =
    (hs, a, e, r, q)" by (metis prod_cases5)
  have "length (m_wait_queue (snd (deque_pass s free running now))) \<le> length q"
  proof (cases "e - r = 0 \<or> m_backfill_policy s = NONE \<or> a = 0")
    case True
    then show ?thesis by (auto simp: deque_pass_def sh Let_def deque_active_job_count_def)
  next
    case False
    then have "0 < e" by auto
    with False show ?thesis
      by (simp add: deque_pass_def sh Let_def deque_active_job_count_def case_prod_beta
          backfill_scan_length splice_length[OF _ refl])
  qed
  with start_heads_length[OF sh] show ?thesis by simp
qed

lemma deque_schedule_length:
  "length (m_wait_queue (snd (deque_schedule s free running now))) \<le> length (m_wait_queue s)"
proof -
  have "length (m_wait_queue (deque_compact (deque_sync_to s now))) \<le> length (m_wait_queue s)"
    by (simp add: deque_compact_def deque_sync_to_def)
  then show ?thesis using deque_pass_length[of "deque_compact (deque_sync_to s now)" free running now]
    by (simp add: deque_schedule_def Let_def)
qed

lemma deque_pass_capacity:
  "m_capacity (snd (deque_pass s free running now)) = m_capacity s" for s :: "'a circular_queue_scheme"
  by (simp add: deque_pass_def Let_def case_prod_beta)

lemma deque_schedule_capacity:
  "m_capacity (snd (deque_schedule s free running now)) = m_capacity s" for s :: "'a circular_queue_scheme"
proof -
  have "m_capacity (deque_compact (deque_sync_to s now)) = m_capacity s"
    by (simp add: deque_compact_def deque_sync_to_def)
  then show ?thesis by (simp add: deque_schedule_def Let_def deque_pass_capacity)
qed

text \<open>The deque view of a circular scheduler: every operation commutes with forgetting the capacity.\<close>

abbreviation deque_view :: "'a fcfs_queue_scheme \<Rightarrow> fcfs_queue" where
  "deque_view \<equiv> fcfs_queue.truncate"

lemma view_fields [simp]:
  "m_wait_queue (deque_view s) = m_wait_queue s" "m_eligible_end_idx (deque_view s) = m_eligible_end_idx s"
  "m_removed_count (deque_view s) = m_removed_count s" "m_backfill_policy (deque_view s) = m_backfill_policy s"
  "m_current_tracked_time (deque_view s) = m_current_tracked_time s"
  "m_backfill_queue_depth (deque_view s) = m_backfill_queue_depth s"
  by (simp_all add: fcfs_queue.defs)

lemma view_updates [simp]:
  "deque_view (s\<lparr>m_wait_queue := q\<rparr>) = deque_view s\<lparr>m_wait_queue := q\<rparr>"
  "deque_view (s\<lparr>m_eligible_end_idx := e\<rparr>) = deque_view s\<lparr>m_eligible_end_idx := e\<rparr>"
  "deque_view (s\<lparr>m_removed_count := r\<rparr>) = deque_view s\<lparr>m_removed_count := r\<rparr>"
  "deque_view (s\<lparr>m_current_tracked_time := t\<rparr>) = deque_view s\<lparr>m_current_tracked_time := t\<rparr>"
  "deque_view (s\<lparr>m_fcfs_reservation_time := t\<rparr>) = deque_view s\<lparr>m_fcfs_reservation_time := t\<rparr>"
  by (simp_all add: fcfs_queue.defs)

lemma view_planning: "same_planning s s' \<Longrightarrow> same_planning (deque_view s) s'"
  by (simp add: same_planning_def fcfs_queue.defs)

lemma view_sync: "deque_view (deque_sync_to s now) = deque_sync_to (deque_view s) now"
  by (simp add: deque_sync_to_def)

lemma view_compact: "deque_view (deque_compact s) = deque_compact (deque_view s)"
  by (simp add: deque_compact_def)

lemma view_insert: "deque_view (deque_insert_job s i t r n) = deque_insert_job (deque_view s) i t r n"
  by (simp add: deque_insert_job_def Let_def)

lemma view_pass: "deque_pass (deque_view s) free running now = map_prod id deque_view (deque_pass s free running now)"
proof -
  have sp: "same_planning (deque_view s\<lparr>m_wait_queue := q, m_eligible_end_idx := e, m_removed_count := r\<rparr>)
      (s\<lparr>m_wait_queue := q, m_eligible_end_idx := e, m_removed_count := r\<rparr>)"
    "same_planning (deque_view s\<lparr>m_wait_queue := q, m_eligible_end_idx := e, m_removed_count := r, m_fcfs_reservation_time := x\<rparr>)
      (s\<lparr>m_wait_queue := q, m_eligible_end_idx := e, m_removed_count := r, m_fcfs_reservation_time := x\<rparr>)" for q e r x
    by (simp_all add: same_planning_def fcfs_queue.defs)
  show ?thesis unfolding deque_pass_def
    by (simp add: Let_def planning_cong[OF sp(1)] planning_cong[OF sp(2)] backfill_scan_cong[OF sp(2)]
        deque_active_job_count_def split: prod.splits)
qed

lemma view_schedule:
  "deque_schedule (deque_view s) free running now = map_prod id deque_view (deque_schedule s free running now)"
  by (simp add: deque_schedule_def Let_def view_sync[symmetric] view_compact[symmetric] view_pass)

section \<open>The scheduler interface\<close>

lemma circular_scheduler:
  assumes b: "buffer_ok b"
  shows "scheduler (circular_insert_job b) circular_sync_to circular_schedule
    (\<lambda>s i t. in_order s t) pending circ_inv (m_current_tracked_time :: 'a circular_queue_scheme \<Rightarrow> _)"
proof
  fix s :: "'a circular_queue_scheme" and i t r n s'
  assume inv: "circ_inv s" and t: "in_order s t" and ins: "circular_insert_job b s i t r n = Inr s'"
  have "mset (pending (deque_insert_job s i t r n)) = add_mset (new_entry i t r n) (mset (pending s))"
    using inv t by (intro dq.ins_law[THEN conjunct2, THEN conjunct1]) (simp_all add: circ_inv_def deque_insert_def)
  with circular_insert_inv[OF b inv t ins]
  show "circ_inv s' \<and> mset (pending s') = add_mset (new_entry i t r n) (mset (pending s)) \<and>
      m_current_tracked_time s' = m_current_tracked_time s"
    by (simp add: pending_def)
next
  fix s :: "'a circular_queue_scheme" and t
  assume "circ_inv s"
  then show "circ_inv (circular_sync_to s t) \<and> mset (pending (circular_sync_to s t)) = mset (pending s) \<and>
      m_current_tracked_time (circular_sync_to s t) = max (m_current_tracked_time s) t"
    using dq.syn_law[of s t] by (simp add: circ_inv_def circular_sync_eq) (simp add: deque_sync_to_def)
next
  fix s :: "'a circular_queue_scheme" and free running now ids s'
  assume inv: "circ_inv s" and sch: "circular_schedule s free running now = (ids, s')"
  then have "length (m_wait_queue s') \<le> m_capacity s'"
    using deque_schedule_length[of s free running now] deque_schedule_capacity[of s free running now]
    by (simp add: circ_inv_def circular_schedule_eq)
  moreover have "fq_inv s" "deque_schedule s free running now = (ids, s')"
    using inv sch by (simp_all add: circ_inv_def circular_schedule_eq)
  note dq.sch_law[OF this]
  ultimately show "circ_inv s' \<and> m_current_tracked_time s' = max (m_current_tracked_time s) now \<and>
      (\<exists>st. ids = map job_id st \<and> mset (pending s) = mset st + mset (pending s') \<and>
         nodes_sum st \<le> unat free \<and> (\<forall>j\<in>set st. submit_time j \<le> m_current_tracked_time s'))"
    unfolding circ_inv_def by blast
qed

text \<open>The contract of the buffer gives the contract of the scheduler, and the behaviour that the
  library documents meets it: a push into a full buffer overwrites the oldest element, and a capacity
  below the size drops the last elements.\<close>

locale buffer_law =
  fixes b :: circular_buffer
  assumes law: "buffer_ok b"

sublocale buffer_law \<subseteq> scheduler "circular_insert_job b" circular_sync_to circular_schedule
    "\<lambda>s i t. in_order s t" pending circ_inv m_current_tracked_time
  by (rule circular_scheduler[OF law])

definition documented_buffer :: circular_buffer where
  "documented_buffer = \<lparr>
     cb_push_back = (\<lambda>c xs x. if c = 0 then [] else if length xs < c then xs @ [x] else tl xs @ [x]),
     cb_set_capacity = (\<lambda>c xs. take c xs)\<rparr>"

lemma documented_buffer_ok: "buffer_ok documented_buffer"
  by (auto simp: buffer_ok_def documented_buffer_def)

interpretation cq: buffer_law documented_buffer
  by unfold_locales (rule documented_buffer_ok)

section \<open>Same decisions\<close>

lemma deque_schedule_overflow:
  "m_overflow_policy (snd (deque_schedule s free running now)) = m_overflow_policy s" for s :: "'a circular_queue_scheme"
proof -
  have "m_overflow_policy (snd (deque_pass c free running now)) = m_overflow_policy c" for c :: "'a circular_queue_scheme"
    by (simp add: deque_pass_def Let_def case_prod_beta)
  moreover have "m_overflow_policy (deque_compact (deque_sync_to s now)) = m_overflow_policy s"
    by (simp add: deque_compact_def deque_sync_to_def)
  ultimately show ?thesis by (simp add: deque_schedule_def Let_def)
qed

text \<open>Under GROW the circular scheduler makes the decisions of the deque scheduler, for any calls.\<close>

lemma grow_insert:
  assumes "buffer_ok b" "length (m_wait_queue s) \<le> m_capacity s" "m_overflow_policy s = GROW"
  shows "\<exists>s'. circular_insert_job b s i t r n = Inr s' \<and> deque_view s' = deque_insert_job (deque_view s) i t r n \<and>
    length (m_wait_queue s') \<le> m_capacity s' \<and> m_overflow_policy s' = GROW"
  using assms(2,3) by (auto simp: circular_insert_eq[OF assms(1,2)] deque_insert_job_def Let_def)
    (auto simp: fcfs_queue.defs)

lemma grow_run_eq:
  assumes b: "buffer_ok b"
  shows "length (m_wait_queue s) \<le> m_capacity s \<Longrightarrow> m_overflow_policy s = GROW \<Longrightarrow>
    batches_of (run_ops (circular_insert_job b) circular_sync_to circular_schedule s ops) =
    batches_of (run_ops deque_insert deque_sync_to deque_schedule (deque_view s) ops)"
proof (induction ops arbitrary: s rule: submitted.induct)
  case (2 i t r n ops)
  then show ?case using grow_insert[OF b 2(2,3), of i t r n] by (auto simp: deque_insert_def)
next
  case (3 t ops)
  have "length (m_wait_queue (circular_sync_to s t)) \<le> m_capacity (circular_sync_to s t)"
    "m_overflow_policy (circular_sync_to s t) = GROW"
    using 3(2,3) by (simp_all add: circular_sync_to_def)
  from 3(1)[OF this] show ?case by (simp add: circular_sync_eq[of s] view_sync)
next
  case (4 free running now ops)
  define s1 where "s1 = snd (deque_schedule s free running now)"
  have "length (m_wait_queue s1) \<le> m_capacity s1" "m_overflow_policy s1 = GROW"
    using 4(2,3) deque_schedule_length[of s free running now]
    by (simp_all add: s1_def deque_schedule_capacity deque_schedule_overflow)
  from 4(1)[OF this] show ?case
    by (simp add: batches_of_Pass circular_schedule_eq view_schedule s1_def del: run_ops.simps cong: sum.case_cong)
qed (simp add: batches_of_def)

end
