(* ===== verification/Epoch.thy ===== *)
theory Epoch
  imports Prelude
begin

text \<open>
  Timestamps and job records: \<^verbatim>\<open>epoch_t\<close> (\<^verbatim>\<open>src/src/trace/epoch.hpp\<close>), a pair of whole seconds and a
  single-precision fraction, its conversions from and to the simulation clock, and \<^verbatim>\<open>Job_Record\<close>
  (\<^verbatim>\<open>src/src/trace/job_record.hpp\<close>, \<^verbatim>\<open>.cpp\<close>).

  A \<^verbatim>\<open>float\<close> is the double with its value.  \<open>to_single\<close> rounds to the 24-bit significand; the fractions
  the code converts are below two, so the overflow of the narrower exponent range does not arise.  A
  \<^verbatim>\<open>float\<close> addition is the double addition followed by that rounding, which gives the correctly rounded
  sum because a double has more than twice the significand.  Whole seconds are \<^typ>\<open>int\<close>: they are
  64-bit in the code and every timestamp is far from the bound except the sentinel, which is never
  added to.
\<close>

section \<open>Single precision and truncation\<close>

definition single_exp :: "rat \<Rightarrow> int" where
  "single_exp x = (if x = 0 then - 149 else max (- 149) (ilog2 \<bar>x\<bar> - 23))"

lift_definition to_single :: "double \<Rightarrow> double" is
  "\<lambda>x. fl (of_int (rhe (x / 2 powi single_exp x)) * 2 powi single_exp x)" by simp

lift_definition dbl_trunc :: "double \<Rightarrow> int" is "\<lambda>x. if 0 \<le> x then \<lfloor>x\<rfloor> else \<lceil>x\<rceil>" .

lemma single_exact:
  assumes "\<bar>k\<bar> < 2 ^ 24" "- 149 \<le> e"
  shows "of_int (rhe (of_int k * 2 powi e / 2 powi single_exp (of_int k * 2 powi e))) * 2 powi single_exp (of_int k * 2 powi e) =
    (of_int k * 2 powi e :: rat)"
proof (cases "k = 0")
  case True
  then show ?thesis by (simp add: rhe_def)
next
  case False
  let ?v = "of_int k * 2 powi e :: rat" and ?f = "single_exp (of_int k * 2 powi e)"
  have "\<bar>?v\<bar> = of_int \<bar>k\<bar> * 2 powi e" by (simp add: abs_mult)
  also have "\<dots> < of_int (2 ^ 24) * 2 powi e"
    using assms(1) by (intro mult_strict_right_mono) (simp_all only: of_int_less_iff, simp)
  also have "\<dots> = 2 powi (e + 24)" by (simp add: power_int_add)
  finally have "2 powi ilog2 \<bar>?v\<bar> < (2::rat) powi (e + 24)"
    using ilog2_bounds(1)[of "\<bar>?v\<bar>"] False by simp
  then have "ilog2 \<bar>?v\<bar> < e + 24"
    using power_int_increasing[of "e + 24" "ilog2 \<bar>?v\<bar>" "2::rat"] by linarith
  then have le: "?f \<le> e" using assms(2) False by (simp add: single_exp_def)
  have "?v = of_int k * (of_int (2 ^ nat (e - ?f)) * 2 powi ?f)"
    by (rule arg_cong[where f = "\<lambda>z. of_int k * z", OF powi_split[OF le]])
  then have v: "?v = of_int (k * 2 ^ nat (e - ?f)) * 2 powi ?f" by (simp only: of_int_mult mult.assoc)
  then have "?v / 2 powi ?f = of_int (k * 2 ^ nat (e - ?f))"
    by (metis nonzero_mult_div_cancel_right power_int_not_zero zero_neq_numeral)
  then show ?thesis using v by (simp only: rhe_of_int)
qed

lemma to_single_exact: "val t = of_int k * 2 powi e \<Longrightarrow> \<bar>k\<bar> < 2 ^ 24 \<Longrightarrow> - 149 \<le> e \<Longrightarrow> to_single t = t"
proof -
  assume a: "val t = of_int k * 2 powi e" "\<bar>k\<bar> < 2 ^ 24" "- 149 \<le> e"
  have "val (to_single t) = fl (val t)"
    unfolding to_single.rep_eq a(1) single_exact[OF a(2,3)] ..
  also have "\<dots> = val t" using val[of t] by simp
  finally show ?thesis by (simp add: val_inject)
qed

lemma to_single_dbl [dbl_simps]: "\<bar>a\<bar> < 16777216 \<Longrightarrow> to_single (dbl a) = dbl a"
  by (rule to_single_exact[of _ a 0]) (simp_all add: val_dbl)

lemma dbl_trunc_dbl [dbl_simps]: "\<bar>a\<bar> \<le> 9007199254740992 \<Longrightarrow> dbl_trunc (dbl a) = a"
  by (simp add: dbl_trunc.rep_eq val_dbl)

section \<open>Timestamps\<close>

type_synonym epoch = "int \<times> double"

definition epoch_less :: "epoch \<Rightarrow> epoch \<Rightarrow> bool" where
  "epoch_less t1 t2 \<longleftrightarrow> fst t1 < fst t2 \<or> (fst t1 = fst t2 \<and> snd t1 < snd t2)"

definition epoch_minus :: "epoch \<Rightarrow> epoch \<Rightarrow> tdiff" where
  "epoch_minus t1 t2 = dbl (fst t1 - fst t2) + to_single (snd t1 - snd t2)"

definition convert_epoch :: "epoch \<Rightarrow> sim_time" where
  "convert_epoch e = dbl (fst e) + snd e"

definition to_epoch :: "sim_time \<Rightarrow> epoch" where
  "to_epoch t = (let sec = dbl_trunc t in (sec, to_single (t - dbl sec)))"

lemma epoch_order: "\<not> epoch_less t t" "epoch_less a b \<Longrightarrow> epoch_less b c \<Longrightarrow> epoch_less a c"
  "epoch_less a b \<or> a = b \<or> epoch_less b a"
  by (auto simp: epoch_less_def prod_eq_iff)

lemma fl_exact: "\<bar>k\<bar> \<le> 2 ^ 53 \<Longrightarrow> - 1074 \<le> e \<Longrightarrow> e \<le> 0 \<Longrightarrow> fl (of_int k * 2 powi e) = of_int k * 2 powi e"
proof -
  assume a: "\<bar>k\<bar> \<le> 2 ^ 53" "- 1074 \<le> e" "e \<le> 0"
  have "(2::rat) powi e \<le> 2 powi 0" using a(3) by (intro power_int_increasing) simp_all
  then have p: "(2::rat) powi e \<le> 1" "0 \<le> (2::rat) powi e" by simp_all
  have "\<bar>of_int k * 2 powi e :: rat\<bar> = of_int \<bar>k\<bar> * 2 powi e" by (simp add: abs_mult)
  also have "\<dots> \<le> of_int (2 ^ 53) * 1"
  proof (rule mult_mono)
    show "rat_of_int \<bar>k\<bar> \<le> of_int (2 ^ 53)" using a(1) by (simp only: of_int_le_iff)
  qed (use p in simp_all)
  also have "\<dots> \<le> huge" by (simp add: huge_def)
  finally show ?thesis using rnd_exact[OF a(1,2)] by (simp add: fl_def abs_le_iff)
qed

text \<open>A clock value on the grid of the single-precision fraction survives the round trip.\<close>

lemma epoch_roundtrip_grid:
  assumes t: "val t = of_int n * 2 powi (- int f)" and n: "0 \<le> n" "n \<le> 2 ^ 53" and f: "f \<le> 23"
  shows "convert_epoch (to_epoch t) = t \<and> 0 \<le> snd (to_epoch t) \<and> snd (to_epoch t) < dbl 1"
proof -
  define s m where "s = n div 2 ^ f" and "m = n mod 2 ^ f"
  have pw: "(2::rat) powi (- int f) = 1 / 2 ^ f" by (simp add: power_int_minus divide_inverse)
  have nsm1: "n = s * 2 ^ f + m" unfolding s_def m_def by (rule div_mult_mod_eq[symmetric])
  have "0 \<le> m" "m < 2 ^ f" "0 \<le> s" using n(1) by (simp_all add: s_def m_def pos_imp_zdiv_nonneg_iff)
  note nsm = nsm1 this
  have vt: "val t = of_int n / 2 ^ f" using t pw by simp
  also have "\<dots> = of_int s + of_int m / 2 ^ f" using nsm(1) by (simp add: add_divide_distrib)
  finally have vt': "val t = of_int s + of_int m / 2 ^ f" .
  have mf: "(0::rat) \<le> of_int m / 2 ^ f" "(of_int m / 2 ^ f :: rat) < 1"
    using nsm(2,3) by (simp_all)
  have "\<lfloor>val t\<rfloor> = s" unfolding vt' using mf by linarith
  moreover have "0 \<le> val t" unfolding vt using n(1) by simp
  ultimately have tr: "dbl_trunc t = s" by (simp add: dbl_trunc.rep_eq)
  have "s * 1 \<le> s * 2 ^ f" using nsm(4) by (intro mult_left_mono) simp_all
  then have "s \<le> n" using nsm(1,2) by linarith
  then have s53: "\<bar>s\<bar> \<le> 2 ^ 53" using nsm(4) n(2) by simp
  have fin: "\<bar>val t\<bar> \<noteq> huge"
  proof -
    have "val t \<le> of_int n" unfolding vt using n(1) by (simp add: divide_le_eq mult_le_cancel_left1)
    also have "(of_int n :: rat) \<le> of_int (2 ^ 53)" using n(2) by (simp only: of_int_le_iff)
    also have "\<dots> < huge" by (simp add: huge_def)
    finally show ?thesis using \<open>0 \<le> val t\<close> by simp
  qed
  have "2 ^ f \<le> (2::int) ^ 23" using f by (intro power_increasing) simp_all
  then have m24: "\<bar>m\<bar> < 2 ^ 24" and m53: "\<bar>m\<bar> \<le> 2 ^ 53" using nsm(2,3) by simp_all
  have d: "val (t - dbl s) = of_int m * 2 powi (- int f)"
    using fin small_ne_huge[OF s53] fl_exact[of m "- int f"] m53 f
    by (simp add: minus_double.rep_eq val_dbl[OF s53] vt' pw)
  then have single: "to_single (t - dbl s) = t - dbl s" using m24 f by (intro to_single_exact) auto
  have dv: "val (t - dbl s) = of_int m / 2 ^ f" using d pw by simp
  have "(1::rat) < huge" by (simp add: huge_def)
  then have dh: "\<bar>val (t - dbl s)\<bar> \<noteq> huge" unfolding dv using mf by linarith
  have "val (dbl s + (t - dbl s)) = fl (of_int s + of_int m / 2 ^ f)"
    using small_ne_huge[OF s53] dh by (simp add: plus_double.rep_eq val_dbl[OF s53] d pw)
  also have "\<dots> = val t" using val[of t] vt' by simp
  finally have "dbl s + (t - dbl s) = t" by (simp add: val_inject)
  moreover have "0 \<le> t - dbl s" "t - dbl s < dbl 1"
    using d pw mf by (simp_all add: less_eq_double.rep_eq less_double.rep_eq zero_double.rep_eq val_dbl)
  ultimately show ?thesis by (simp add: convert_epoch_def to_epoch_def Let_def tr single)
qed

section \<open>Job records\<close>

record job_record =
  m_t_begin :: epoch
  m_t_end :: epoch
  m_t_submit :: epoch
  m_t_limit :: "32 word"
  m_actual_run_time :: tdiff
  m_num_nodes :: num_nodes
  m_q :: nat
  m_is_simulated :: bool
  m_dat :: bool
  m_busy_nodes :: num_nodes

definition unscheduled_sentinel :: epoch where
  "unscheduled_sentinel = (9223372036854775807, 0)"

definition new_job_record :: "epoch \<Rightarrow> num_nodes \<Rightarrow> nat \<Rightarrow> 32 word \<Rightarrow> job_record" where
  "new_job_record submit nodes queue limit = \<lparr>m_t_begin = unscheduled_sentinel, m_t_end = unscheduled_sentinel,
     m_t_submit = submit, m_t_limit = limit, m_actual_run_time = 0, m_num_nodes = nodes, m_q = queue,
     m_is_simulated = False, m_dat = False, m_busy_nodes = 0\<rparr>"

definition limit_time :: "job_record \<Rightarrow> tdiff" where
  "limit_time j = dbl (uint (m_t_limit j))"

definition suppress_output :: "job_record \<Rightarrow> job_record" where
  "suppress_output j = j\<lparr>m_is_simulated := False, m_t_end := unscheduled_sentinel, m_t_submit := unscheduled_sentinel\<rparr>"

definition prepare_for_resimulation :: "job_record \<Rightarrow> job_record" where
  "prepare_for_resimulation j = j\<lparr>m_is_simulated := False, m_t_begin := unscheduled_sentinel, m_t_end := unscheduled_sentinel\<rparr>"

definition get_wait_time :: "job_record \<Rightarrow> tdiff" where
  "get_wait_time j = epoch_minus (m_t_begin j) (m_t_submit j)"

definition is_scheduled :: "job_record \<Rightarrow> bool" where
  "is_scheduled j \<longleftrightarrow> m_is_simulated j \<or> m_t_end j \<noteq> unscheduled_sentinel"

definition set_begin_time :: "epoch \<Rightarrow> job_record \<Rightarrow> job_record" where
  "set_begin_time t j = j\<lparr>m_t_begin := t, m_is_simulated := True\<rparr>"

definition compute_end_time :: "job_record \<Rightarrow> job_record" where
  "compute_end_time j =
     (let seconds = dbl_trunc (m_actual_run_time j);
          fraction = to_single (m_actual_run_time j - dbl seconds);
          first = fst (m_t_begin j) + seconds;
          second = to_single (snd (m_t_begin j) + fraction)
      in j\<lparr>m_t_end := (if dbl 1 \<le> second then (first + 1, to_single (second - dbl 1)) else (first, second))\<rparr>)"

definition set_busy_nodes :: "num_nodes \<Rightarrow> bool \<Rightarrow> job_record \<Rightarrow> job_record" where
  "set_busy_nodes n dat j = j\<lparr>m_busy_nodes := (if dat then 795 else n), m_dat := dat\<rparr>"

definition validate_simulation_run_time :: "tdiff \<Rightarrow> 32 word \<Rightarrow> bool" where
  "validate_simulation_run_time actual limit \<longleftrightarrow> isfinite actual \<and> \<not> dbl (uint limit) < actual"

definition record_less :: "job_record \<Rightarrow> job_record \<Rightarrow> bool" where
  "record_less r1 r2 \<longleftrightarrow> epoch_less (m_t_submit r1) (m_t_submit r2)"

lemmas epoch_eval [eval_simps] = epoch_minus_def convert_epoch_def to_epoch_def new_job_record_def limit_time_def
  set_begin_time_def compute_end_time_def unscheduled_sentinel_def is_scheduled_def get_wait_time_def

text \<open>On whole seconds the record's completion time is the sum the event queue uses.\<close>

lemma end_time_whole:
  assumes "0 \<le> s" "0 \<le> d" "s + d \<le> 9007199254740992" "m_t_begin j = to_epoch (dbl s)" "m_actual_run_time j = dbl d"
  shows "convert_epoch (m_t_end (compute_end_time j)) = dbl s + dbl d"
  using assms by (simp add: compute_end_time_def to_epoch_def convert_epoch_def Let_def dbl_simps)

end
