(* ===== verification/Events.thy ===== *)
theory Events
  imports Epoch
begin

text \<open>
  \<^verbatim>\<open>DR_Event\<close> (\<^verbatim>\<open>src/src/trace/dr_event.hpp\<close>), the event queue, which is a \<^verbatim>\<open>std::set\<close> ordered by time,
  kind and job, and \<^verbatim>\<open>Node_Release_Delay\<close> (\<^verbatim>\<open>src/src/trace/node_release_delay.cpp\<close>).  The queue is the
  list of its events in order.  The random engine and the transcendental functions of \<^verbatim>\<open><cmath>\<close> that
  the sampler calls are the parameter \<open>delay_math\<close>.
\<close>

section \<open>Events and their order\<close>

record dr_event =
  ev_job :: job_no
  ev_time :: sim_time
  ev_nodes :: num_nodes
  ev_kind :: dr_event_kind

fun kind_rank :: "dr_event_kind \<Rightarrow> nat" where
  "kind_rank Departure = 0"
| "kind_rank Release = 1"
| "kind_rank Arrival = 2"

lemma kind_rank_inj [simp]: "kind_rank a = kind_rank b \<longleftrightarrow> a = b"
  by (cases a; cases b) simp_all

definition job_event :: "job_no \<Rightarrow> sim_time \<Rightarrow> dr_event_kind \<Rightarrow> dr_event" where
  "job_event i t k = \<lparr>ev_job = i, ev_time = t, ev_nodes = 0, ev_kind = k\<rparr>"

definition release_event :: "job_no \<Rightarrow> sim_time \<Rightarrow> num_nodes \<Rightarrow> dr_event" where
  "release_event i t n = (job_event i t Release)\<lparr>ev_nodes := n\<rparr>"

definition event_less :: "dr_event \<Rightarrow> dr_event \<Rightarrow> bool" where
  "event_less e1 e2 \<longleftrightarrow> ev_time e1 < ev_time e2 \<or> (ev_time e1 = ev_time e2 \<and>
     (kind_rank (ev_kind e1) < kind_rank (ev_kind e2) \<or> (ev_kind e1 = ev_kind e2 \<and> ev_job e1 < ev_job e2)))"

text \<open>Insertion into the set: an event equivalent to one already there is not inserted.\<close>

fun evtq_insert :: "dr_event \<Rightarrow> dr_event list \<Rightarrow> dr_event list" where
  "evtq_insert e [] = [e]"
| "evtq_insert e (x # xs) =
     (if event_less e x then e # x # xs else if event_less x e then x # evtq_insert e xs else x # xs)"

definition ev_key :: "dr_event \<Rightarrow> sim_time \<times> nat \<times> job_no" where
  "ev_key e = (ev_time e, kind_rank (ev_kind e), ev_job e)"

lemma event_less_key: "event_less a b \<longleftrightarrow> ev_key a < ev_key b"
  by (auto simp: event_less_def ev_key_def)

lemma ev_key_eq: "ev_key a = ev_key b \<longleftrightarrow> ev_time a = ev_time b \<and> ev_kind a = ev_kind b \<and> ev_job a = ev_job b"
  by (auto simp: ev_key_def)

definition evtq_ok :: "dr_event list \<Rightarrow> bool" where
  "evtq_ok q \<longleftrightarrow> sorted_wrt (<) (map ev_key q)"

lemma evtq_insert_mset:
  "ev_key e \<notin> ev_key ` set q \<Longrightarrow> mset (evtq_insert e q) = add_mset e (mset q)"
  by (induction q) (auto simp: event_less_key)

lemma evtq_insert_dup:
  "evtq_ok q \<Longrightarrow> ev_key e \<in> ev_key ` set q \<Longrightarrow> evtq_insert e q = q"
  by (induction q) (auto simp: event_less_key evtq_ok_def)

lemma evtq_insert_keys: "ev_key ` set (evtq_insert e q) = insert (ev_key e) (ev_key ` set q)"
  by (induction q) (auto simp: event_less_key)

lemma evtq_insert_set: "set (evtq_insert e q) \<subseteq> insert e (set q)"
  by (induction q) auto

lemma evtq_insert_ok: "evtq_ok q \<Longrightarrow> evtq_ok (evtq_insert e q)"
proof (induction q)
  case (Cons x q)
  have "ev_key x < ev_key y" if "y \<in> set (evtq_insert e q)" "ev_key x < ev_key e" for y
    using that evtq_insert_set[of e q] Cons.prems by (auto simp: evtq_ok_def)
  then show ?case using Cons by (auto simp: event_less_key evtq_ok_def)
qed (simp add: evtq_ok_def)

lemma evtq_tl_ok: "evtq_ok (e # q) \<Longrightarrow> evtq_ok q"
  by (simp add: evtq_ok_def)

lemma evtq_front_least: "evtq_ok (e # q) \<Longrightarrow> x \<in> set q \<Longrightarrow> ev_key e < ev_key x \<and> ev_time e \<le> ev_time x"
  by (auto simp: evtq_ok_def ev_key_def less_prod_def')

section \<open>The release delay\<close>

record ('g) delay_math =
  dm_unit :: "'g \<Rightarrow> double \<times> 'g"
  dm_pow :: "double \<Rightarrow> double \<Rightarrow> double"
  dm_log1p :: "double \<Rightarrow> double"
  dm_below_one :: double

record ('g) release_delay =
  rd_delay :: double
  rd_spread :: double
  rd_model :: release_delay_model
  rd_active :: bool
  rd_rng :: 'g

definition release_model_name :: "release_delay_model \<Rightarrow> string" where
  "release_model_name m = (case m of EXPONENTIAL \<Rightarrow> ''exponential'' | RD_UNIFORM \<Rightarrow> ''uniform'' | CONSTANT \<Rightarrow> ''constant'')"

definition set_release_delay_model :: "string \<Rightarrow> release_delay_model option" where
  "set_release_delay_model name =
     (if name = ''constant'' then Some CONSTANT
      else if name = ''exponential'' then Some EXPONENTIAL
      else if name = ''uniform'' then Some RD_UNIFORM
      else None)"

definition validate_node_release_delay :: "double \<Rightarrow> double \<Rightarrow> exn + unit" where
  "validate_node_release_delay delay spread =
     (if \<not> isfinite delay \<or> delay < 0 then Inl Invalid_Argument
      else if \<not> isfinite spread \<or> spread < 0 then Inl Invalid_Argument
      else Inr ())"

definition node_release_delay_requested :: "double \<Rightarrow> release_delay_model \<Rightarrow> double \<Rightarrow> bool" where
  "node_release_delay_requested delay model spread \<longleftrightarrow> 0 < delay \<or> (model = RD_UNIFORM \<and> 0 < spread)"

definition new_release_delay :: "double \<Rightarrow> release_delay_model \<Rightarrow> double \<Rightarrow> 'g \<Rightarrow> exn + 'g release_delay" where
  "new_release_delay delay model spread rng =
     (case validate_node_release_delay delay spread of
        Inl e \<Rightarrow> Inl e
      | Inr _ \<Rightarrow> Inr \<lparr>rd_delay = delay, rd_spread = spread, rd_model = model,
                    rd_active = node_release_delay_requested delay model spread, rd_rng = rng\<rparr>)"

definition no_release_delay :: "'g \<Rightarrow> 'g release_delay" where
  "no_release_delay rng = \<lparr>rd_delay = 0, rd_spread = 0, rd_model = CONSTANT, rd_active = False, rd_rng = rng\<rparr>"

definition delay_sample :: "'g delay_math \<Rightarrow> 'g release_delay \<Rightarrow> num_nodes \<Rightarrow> tdiff \<times> 'g release_delay" where
  "delay_sample dm d nodes =
     (if \<not> rd_active d then (0, d)
      else if rd_model d = CONSTANT then (rd_delay d, d)
      else let n = dbl (uint (max nodes 1));
               (u, rng) = dm_unit dm (rd_rng d);
               p = dm_pow dm u (dbl 1 / n);
               p = (if dbl 1 \<le> p then dm_below_one dm else p);
               value = (if rd_model d = EXPONENTIAL then (- rd_delay d) * dm_log1p dm (- p)
                        else let lo = max 0 (rd_delay d - rd_spread d); hi = rd_delay d + rd_spread d
                             in lo + (hi - lo) * p);
               value = (if \<not> isfinite value \<or> value < 0 then 0 else value)
           in (value, d\<lparr>rd_rng := rng\<rparr>))"

definition delay_ok :: "'g release_delay \<Rightarrow> bool" where
  "delay_ok d \<longleftrightarrow> isfinite (rd_delay d) \<and> 0 \<le> rd_delay d"

lemma new_release_delay_ok: "new_release_delay delay model spread rng = Inr d \<Longrightarrow> delay_ok d"
  by (auto simp: new_release_delay_def validate_node_release_delay_def delay_ok_def split: if_splits)

lemma isfinite_0 [simp]: "isfinite 0"
  using isfinite_dbl[of 0] by (simp flip: dbl_zero)

lemma delay_sample_bounds:
  assumes "delay_ok d"
  shows "isfinite (fst (delay_sample dm d n)) \<and> 0 \<le> fst (delay_sample dm d n) \<and>
    delay_ok (snd (delay_sample dm d n)) \<and> rd_active (snd (delay_sample dm d n)) = rd_active d"
  using assms by (simp add: delay_sample_def delay_ok_def Let_def case_prod_beta not_less)

lemma release_model_roundtrip: "set_release_delay_model (release_model_name m) = Some m"
  by (cases m) (simp_all add: set_release_delay_model_def release_model_name_def)

lemmas events_eval [eval_simps] = job_event_def release_event_def event_less_def no_release_delay_def delay_sample_def

end
