(* ===== verification/Trace.thy ===== *)
theory Trace
  imports Events
begin

text \<open>
  \<^verbatim>\<open>BasicTrace<Standard_Trace_Policy>\<close> (\<^verbatim>\<open>src/src/trace/trace.hpp\<close>, \<^verbatim>\<open>trace.cpp\<close>) in the default build
  (queue identifiers, no Redis): the job store with its permanent identifiers and its reclamation, and
  the event processing that accounts for the nodes in use and the nodes being released.

  The job store is a circular buffer: the list of its records, its capacity, and the number of records
  already removed from its front.  The two output streams are the lists of what was written to them,
  \<open>None\<close> when the stream is not open; the text of a row is not modelled.  The policy hooks of the
  standard policy are empty, and no queue is exclusive in the default build.
\<close>

section \<open>State\<close>

record resource_sample =
  rs_time :: sim_time
  rs_allocated :: num_nodes
  rs_capacity :: num_nodes
  rs_releasing :: num_nodes

record append_request =
  ar_submit_time :: epoch
  ar_num_nodes :: num_nodes
  ar_queue :: nat
  ar_limit_time :: "32 word"
  ar_actual_run_time :: "tdiff option"

record ('g) trace =
  m_data :: "job_record list"
  m_num_reclaimed :: nat
  m_data_capacity :: nat
  m_job_store_capacity :: nat
  m_job_store_capacity_resolved :: bool
  m_job_store_overflow :: circular_overflow_policy
  m_job_flush_interval :: nat
  m_departures_since_job_flush :: nat
  m_replay_jobs_enqueued :: nat
  m_memory_pressure_fraction :: double
  m_trace_mode :: trace_mode
  m_has_loaded_a_file :: bool
  m_last_loaded_submit_time :: epoch
  m_completed_count :: nat
  m_wait_time_sum :: tdiff
  m_turnaround_time_sum :: tdiff
  m_makespan :: sim_time
  m_n_nodes_in_use :: num_nodes
  m_n_nodes_releasing :: num_nodes
  m_evtq :: "dr_event list"
  m_resource_history :: "resource_sample list"
  m_history_capacity :: nat
  m_resource_history_capacity :: nat
  m_resource_history_capacity_resolved :: bool
  m_resource_trace_current_capacity :: num_nodes
  m_resource_capacity_initialized :: bool
  m_resource_recording_start :: sim_time
  m_resource_recording_baseline :: "resource_sample option"
  m_resource_trace_ofs :: "resource_sample list option"
  m_simulated_trace_ofs :: "job_record list option"
  m_simulated_trace_buffer :: "job_record list"
  m_next_job_to_write :: nat
  m_release_delay :: "'g release_delay"
  m_release_delay_from :: sim_time
  m_last_departure_delayed :: bool
  m_last_release_time :: sim_time

definition new_trace :: "trace_mode \<Rightarrow> 'g \<Rightarrow> 'g trace" where
  "new_trace mode rng = \<lparr>m_data = [], m_num_reclaimed = 0, m_data_capacity = 0, m_job_store_capacity = 0,
     m_job_store_capacity_resolved = False, m_job_store_overflow = GROW, m_job_flush_interval = 0,
     m_departures_since_job_flush = 0, m_replay_jobs_enqueued = 0, m_memory_pressure_fraction = 0, m_trace_mode = mode,
     m_has_loaded_a_file = False, m_last_loaded_submit_time = (0, 0), m_completed_count = 0, m_wait_time_sum = 0,
     m_turnaround_time_sum = 0, m_makespan = 0, m_n_nodes_in_use = 0, m_n_nodes_releasing = 0, m_evtq = [],
     m_resource_history = [], m_history_capacity = 0, m_resource_history_capacity = 0,
     m_resource_history_capacity_resolved = False, m_resource_trace_current_capacity = 0,
     m_resource_capacity_initialized = False, m_resource_recording_start = 0, m_resource_recording_baseline = None,
     m_resource_trace_ofs = None,
     m_simulated_trace_ofs = None, m_simulated_trace_buffer = [], m_next_job_to_write = 0,
     m_release_delay = no_release_delay rng, m_release_delay_from = 0, m_last_departure_delayed = False,
     m_last_release_time = 0\<rparr>"

section \<open>The job store\<close>

definition job_at :: "'g trace \<Rightarrow> job_no \<Rightarrow> exn + job_record" where
  "job_at tr i =
     (if i < m_num_reclaimed tr then Inl Runtime_Error
      else let idx = i - m_num_reclaimed tr in
        if idx \<ge> length (m_data tr) then Inl Runtime_Error else Inr (m_data tr ! idx))"

text \<open>A write through the reference that \<^verbatim>\<open>job_at\<close> returned.\<close>

definition set_job :: "job_no \<Rightarrow> job_record \<Rightarrow> 'g trace \<Rightarrow> 'g trace" where
  "set_job i j tr = tr\<lparr>m_data := (m_data tr)[i - m_num_reclaimed tr := j]\<rparr>"

definition resolve_job_store_capacity :: "nat \<Rightarrow> 'g trace \<Rightarrow> 'g trace" where
  "resolve_job_store_capacity hint tr =
     (if m_job_store_capacity_resolved tr then tr
      else let cap = (if m_job_store_capacity tr = 0 then max hint 4096 else m_job_store_capacity tr)
           in tr\<lparr>m_data_capacity := cap, m_job_store_capacity_resolved := True\<rparr>)"

definition is_job_reclaimable :: "'g trace \<Rightarrow> job_no \<Rightarrow> job_record \<Rightarrow> sim_time \<Rightarrow> bool" where
  "is_job_reclaimable tr i j now =
     (if m_t_submit j = unscheduled_sentinel then True
      else if m_trace_mode tr = REPLAY \<and> i \<ge> m_replay_jobs_enqueued tr then False
      else if m_evtq tr \<noteq> [] \<and> ev_time (hd (m_evtq tr)) \<le> now then False
      else convert_epoch (m_t_end j) \<le> now)"

definition is_front_reclaimable :: "'g trace \<Rightarrow> sim_time \<Rightarrow> bool" where
  "is_front_reclaimable tr now =
     (if m_data tr = [] then False else is_job_reclaimable tr (m_num_reclaimed tr) (hd (m_data tr)) now)"

subsection \<open>Configuration\<close>

text \<open>The setters of the trace.  The store capacity and the history capacity are used when they are first resolved.\<close>

definition set_job_store_capacity :: "nat \<Rightarrow> 'g trace \<Rightarrow> 'g trace" where
  "set_job_store_capacity capacity tr = tr\<lparr>m_job_store_capacity := capacity\<rparr>"

definition set_job_store_overflow :: "circular_overflow_policy \<Rightarrow> 'g trace \<Rightarrow> 'g trace" where
  "set_job_store_overflow policy tr = tr\<lparr>m_job_store_overflow := policy\<rparr>"

definition set_job_flush_interval :: "nat \<Rightarrow> 'g trace \<Rightarrow> 'g trace" where
  "set_job_flush_interval interval tr = tr\<lparr>m_job_flush_interval := interval\<rparr>"

definition set_memory_pressure_fraction :: "double \<Rightarrow> 'g trace \<Rightarrow> 'g trace" where
  "set_memory_pressure_fraction fraction tr = tr\<lparr>m_memory_pressure_fraction := fraction\<rparr>"

definition set_resource_history_capacity :: "nat \<Rightarrow> 'g trace \<Rightarrow> 'g trace" where
  "set_resource_history_capacity capacity tr = tr\<lparr>m_resource_history_capacity := capacity\<rparr>"

definition set_node_release_delay :: "'g release_delay \<Rightarrow> 'g trace \<Rightarrow> 'g trace" where
  "set_node_release_delay model tr = tr\<lparr>m_release_delay := model\<rparr>"

definition set_node_release_delay_from :: "sim_time \<Rightarrow> 'g trace \<Rightarrow> 'g trace" where
  "set_node_release_delay_from from_time tr = tr\<lparr>m_release_delay_from := from_time\<rparr>"

subsection \<open>Output\<close>

definition simulated_trace_output_active :: "'g trace \<Rightarrow> bool" where
  "simulated_trace_output_active tr \<longleftrightarrow> m_simulated_trace_ofs tr \<noteq> None"

definition write_job_line :: "job_record \<Rightarrow> 'g trace \<Rightarrow> 'g trace" where
  "write_job_line j tr =
     (if \<not> is_scheduled j then tr
      else let wait = get_wait_time j;
               tr = tr\<lparr>m_completed_count := m_completed_count tr + 1, m_wait_time_sum := m_wait_time_sum tr + wait,
                      m_turnaround_time_sum := m_turnaround_time_sum tr + (wait + m_actual_run_time j),
                      m_makespan := max (m_makespan tr) (convert_epoch (m_t_begin j) + m_actual_run_time j)\<rparr>
           in if m_simulated_trace_ofs tr = None then tr
              else tr\<lparr>m_simulated_trace_buffer := m_simulated_trace_buffer tr @ [j]\<rparr>)"

definition write_job_range :: "job_record list \<Rightarrow> job_no \<Rightarrow> sim_time \<Rightarrow> 'g trace \<Rightarrow> exn + 'g trace" where
  "write_job_range jobs first_job_id completed_through tr =
     (if first_job_id > m_next_job_to_write tr then Inl Logic_Error
      else let skip = m_next_job_to_write tr - first_job_id in
        if skip \<ge> length jobs then Inr tr
        else let tr = fold (\<lambda>j tr. if is_scheduled j \<and> convert_epoch (m_t_end j) \<le> completed_through
                                then write_job_line j tr else tr) (drop skip jobs) tr
             in Inr (tr\<lparr>m_next_job_to_write := first_job_id + length jobs\<rparr>))"

definition flush_simulated_trace_buffer :: "'g trace \<Rightarrow> 'g trace" where
  "flush_simulated_trace_buffer tr =
     (case m_simulated_trace_ofs tr of
        None \<Rightarrow> tr
      | Some out \<Rightarrow> tr\<lparr>m_simulated_trace_ofs := Some (out @ m_simulated_trace_buffer tr), m_simulated_trace_buffer := []\<rparr>)"

definition pop_front_jobs :: "nat \<Rightarrow> 'g trace \<Rightarrow> 'g trace" where
  "pop_front_jobs n tr = tr\<lparr>m_data := drop n (m_data tr), m_num_reclaimed := m_num_reclaimed tr + n\<rparr>"

fun reclaimable_prefix :: "'g trace \<Rightarrow> sim_time \<Rightarrow> job_no \<Rightarrow> job_record list \<Rightarrow> nat" where
  "reclaimable_prefix tr now i [] = 0"
| "reclaimable_prefix tr now i (j # js) =
     (if is_job_reclaimable tr i j now then Suc (reclaimable_prefix tr now (Suc i) js) else 0)"

definition flush_completed_jobs_impl :: "sim_time \<Rightarrow> 'g trace \<Rightarrow> exn + 'g trace" where
  "flush_completed_jobs_impl now tr =
     (let n = reclaimable_prefix tr now (m_num_reclaimed tr) (m_data tr) in
      case (if n \<noteq> 0 then write_job_range (take n (m_data tr)) (m_num_reclaimed tr) now tr else Inr tr) of
        Inl e \<Rightarrow> Inl e
      | Inr tr \<Rightarrow> Inr ((flush_simulated_trace_buffer (pop_front_jobs n tr))\<lparr>m_departures_since_job_flush := 0\<rparr>))"

definition effective_job_flush_interval :: "'g trace \<Rightarrow> nat" where
  "effective_job_flush_interval tr =
     (if m_job_flush_interval tr \<noteq> 0 then m_job_flush_interval tr else max (m_data_capacity tr) 1)"

definition maybe_flush_completed_jobs :: "sim_time \<Rightarrow> nat \<Rightarrow> 'g trace \<Rightarrow> exn + 'g trace" where
  "maybe_flush_completed_jobs now departures tr =
     (if \<not> simulated_trace_output_active tr then Inr tr
      else let interval = effective_job_flush_interval tr;
               since = m_departures_since_job_flush tr;
               tr = tr\<lparr>m_departures_since_job_flush :=
                      (if departures \<ge> interval - min interval since then interval else since + departures)\<rparr>
           in if m_departures_since_job_flush tr \<ge> interval then flush_completed_jobs_impl now tr else Inr tr)"

subsection \<open>Reclamation and insertion\<close>

fun reclaim_walk :: "'g trace \<Rightarrow> sim_time \<Rightarrow> nat \<Rightarrow> nat \<Rightarrow> job_record list \<Rightarrow> nat" where
  "reclaim_walk tr now min_free n [] = n"
| "reclaim_walk tr now min_free n (j # js) =
     (if m_data_capacity tr < length (m_data tr) - n + min_free \<and> is_job_reclaimable tr (m_num_reclaimed tr + n) j now
      then reclaim_walk tr now min_free (Suc n) js else n)"

definition grow_or_abort :: "'g trace \<Rightarrow> exn + 'g trace" where
  "grow_or_abort tr =
     (if m_job_store_overflow tr = ABORT then Inl Runtime_Error
      else Inr (tr\<lparr>m_data_capacity := max (m_data_capacity tr * 2) 1\<rparr>))"

definition data_full :: "'g trace \<Rightarrow> bool" where
  "data_full tr \<longleftrightarrow> length (m_data tr) = m_data_capacity tr"

definition reclaim_front_jobs :: "sim_time \<Rightarrow> nat \<Rightarrow> bool \<Rightarrow> 'g trace \<Rightarrow> exn + 'g trace" where
  "reclaim_front_jobs now min_free handle_overflow tr =
     (if m_data_capacity tr \<ge> length (m_data tr) + min_free then Inr tr
      else let n = reclaim_walk tr now min_free 0 (m_data tr) in
        case (if n \<noteq> 0 then write_job_range (take n (m_data tr)) (m_num_reclaimed tr) now tr else Inr tr) of
          Inl e \<Rightarrow> Inl e
        | Inr tr \<Rightarrow>
            let tr = pop_front_jobs n tr;
                tr = (if n \<noteq> 0 then (flush_simulated_trace_buffer tr)\<lparr>m_departures_since_job_flush := 0\<rparr> else tr)
            in if handle_overflow \<and> data_full tr then grow_or_abort tr else Inr tr)"

definition push_record :: "job_record \<Rightarrow> tdiff option \<Rightarrow> 'g trace \<Rightarrow> 'g trace" where
  "push_record j actual tr =
     tr\<lparr>m_data := m_data tr @ [case actual of None \<Rightarrow> j | Some d \<Rightarrow> j\<lparr>m_actual_run_time := d\<rparr>]\<rparr>"

definition append_job :: "sim_time \<Rightarrow> append_request \<Rightarrow> 'g trace \<Rightarrow> exn + (job_no \<times> 'g trace)" where
  "append_job now req tr =
     (let tr = resolve_job_store_capacity (length (m_data tr)) tr in
      case reclaim_front_jobs now 1 True tr of
        Inl e \<Rightarrow> Inl e
      | Inr tr \<Rightarrow>
          (case (if data_full tr then grow_or_abort tr else Inr tr) of
             Inl e \<Rightarrow> Inl e
           | Inr tr \<Rightarrow>
               let tr = push_record (new_job_record (ar_submit_time req) (ar_num_nodes req) (ar_queue req) (ar_limit_time req))
                          (ar_actual_run_time req) tr
               in Inr (m_num_reclaimed tr + length (m_data tr) - 1, tr)))"

function grow_cap :: "nat \<Rightarrow> nat \<Rightarrow> nat" where
  "grow_cap needed cap = (if cap < needed then grow_cap needed (max (cap * 2) 1) else cap)"
  by pat_completeness auto
termination
  by (relation "measure (\<lambda>(needed, cap). needed - cap)") auto

declare grow_cap.simps [simp del]

text \<open>The memory check: \<open>available\<close> is what \<^verbatim>\<open>get_available_memory_bytes\<close> reports (zero when unknown) and
  \<open>record_size\<close> is \<^verbatim>\<open>sizeof\<close> of a record.\<close>

definition check_memory_pressure :: "nat \<Rightarrow> nat \<Rightarrow> nat \<Rightarrow> 'g trace \<Rightarrow> exn + unit" where
  "check_memory_pressure available record_size batch tr =
     (if available = 0 then Inr ()
      else let old_cap = m_data_capacity tr;
               new_cap = grow_cap (length (m_data tr) + batch) old_cap;
               buffer_peak = (if new_cap > old_cap then old_cap + new_cap else old_cap);
               limit_jobs = nat (dbl_trunc (m_memory_pressure_fraction tr * dbl (int available) / dbl (int record_size)))
           in if buffer_peak + batch > limit_jobs then Inl Runtime_Error else Inr ())"

text \<open>The two operations of a batch keep the state when they throw, as a caller that catches the exception finds it:
  room may have been made by reclaiming records.\<close>

definition ensure_batch_capacity_st :: "nat \<Rightarrow> nat \<Rightarrow> sim_time \<Rightarrow> nat \<Rightarrow> 'g trace \<Rightarrow> (exn + unit) \<times> 'g trace" where
  "ensure_batch_capacity_st available record_size now batch tr =
     (let tr = resolve_job_store_capacity (length (m_data tr)) tr in
      case reclaim_front_jobs now batch False tr of
        Inl e \<Rightarrow> (Inl e, tr)
      | Inr tr \<Rightarrow>
          (case (if 0 < m_memory_pressure_fraction tr then check_memory_pressure available record_size batch tr else Inr ()) of
             Inl e \<Rightarrow> (Inl e, tr)
           | Inr _ \<Rightarrow>
               let needed = length (m_data tr) + batch in
               if needed > m_data_capacity tr then
                 (if m_job_store_overflow tr = ABORT then (Inl Runtime_Error, tr)
                  else (Inr (), tr\<lparr>m_data_capacity := grow_cap needed (m_data_capacity tr)\<rparr>))
               else (Inr (), tr)))"

text \<open>The result alone, for the callers an exception ends.\<close>

definition result_of :: "(exn + 'a) \<times> 's \<Rightarrow> exn + 'a \<times> 's" where
  "result_of p = (case fst p of Inl e \<Rightarrow> Inl e | Inr x \<Rightarrow> Inr (x, snd p))"

definition ensure_batch_capacity :: "nat \<Rightarrow> nat \<Rightarrow> sim_time \<Rightarrow> nat \<Rightarrow> 'g trace \<Rightarrow> exn + 'g trace" where
  "ensure_batch_capacity available record_size now batch tr =
     map_sum id snd (result_of (ensure_batch_capacity_st available record_size now batch tr))"

fun nondecreasing :: "epoch list \<Rightarrow> bool" where
  "nondecreasing (a # b # ts) = (\<not> epoch_less b a \<and> nondecreasing (b # ts))"
| "nondecreasing _ = True"

fun push_requests :: "append_request list \<Rightarrow> 'g trace \<Rightarrow> job_no list \<times> 'g trace" where
  "push_requests [] tr = ([], tr)"
| "push_requests (req # reqs) tr =
     (let tr = push_record (new_job_record (ar_submit_time req) (ar_num_nodes req) (ar_queue req) (ar_limit_time req))
                 (ar_actual_run_time req) tr;
          i = m_num_reclaimed tr + length (m_data tr) - 1;
          (is, tr) = push_requests reqs tr
      in (i # is, tr))"

definition append_jobs_st :: "nat \<Rightarrow> nat \<Rightarrow> sim_time \<Rightarrow> append_request list \<Rightarrow> 'g trace \<Rightarrow> (exn + job_no list) \<times> 'g trace" where
  "append_jobs_st available record_size now reqs tr =
     (if \<not> nondecreasing (map ar_submit_time reqs) then (Inl Runtime_Error, tr)
      else case ensure_batch_capacity_st available record_size now (length reqs) tr of
        (Inl e, tr) \<Rightarrow> (Inl e, tr)
      | (Inr _, tr) \<Rightarrow> (case push_requests reqs tr of (ids, tr) \<Rightarrow> (Inr ids, tr)))"

definition append_jobs :: "nat \<Rightarrow> nat \<Rightarrow> sim_time \<Rightarrow> append_request list \<Rightarrow> 'g trace \<Rightarrow> exn + (job_no list \<times> 'g trace)" where
  "append_jobs available record_size now reqs tr = result_of (append_jobs_st available record_size now reqs tr)"

lemma ensure_batch_capacity_eq:
  "ensure_batch_capacity available record_size now batch tr =
     (let tr = resolve_job_store_capacity (length (m_data tr)) tr in
      case reclaim_front_jobs now batch False tr of
        Inl e \<Rightarrow> Inl e
      | Inr tr \<Rightarrow>
          (case (if 0 < m_memory_pressure_fraction tr then check_memory_pressure available record_size batch tr else Inr ()) of
             Inl e \<Rightarrow> Inl e
           | Inr _ \<Rightarrow>
               let needed = length (m_data tr) + batch in
               if needed > m_data_capacity tr then
                 (if m_job_store_overflow tr = ABORT then Inl Runtime_Error
                  else Inr (tr\<lparr>m_data_capacity := grow_cap needed (m_data_capacity tr)\<rparr>))
               else Inr tr))"
  by (simp add: ensure_batch_capacity_def ensure_batch_capacity_st_def result_of_def Let_def split: sum.split)

lemma append_jobs_eq:
  "append_jobs available record_size now reqs tr =
     (if \<not> nondecreasing (map ar_submit_time reqs) then Inl Runtime_Error
      else case ensure_batch_capacity available record_size now (length reqs) tr of
        Inl e \<Rightarrow> Inl e
      | Inr tr \<Rightarrow> Inr (push_requests reqs tr))"
  by (auto simp: append_jobs_def append_jobs_st_def ensure_batch_capacity_def result_of_def split: prod.split sum.split)

text \<open>Loading: the records the policy's loader read from the file are an argument.\<close>

fun store_loaded :: "job_record list \<Rightarrow> 'g trace \<Rightarrow> exn + 'g trace" where
  "store_loaded [] tr = Inr tr"
| "store_loaded (j # js) tr =
     (case (if data_full tr then grow_or_abort tr else Inr tr) of
        Inl e \<Rightarrow> Inl e
      | Inr tr \<Rightarrow> store_loaded js (tr\<lparr>m_data := m_data tr @ [j]\<rparr>))"

definition load_data :: "job_record list \<Rightarrow> 'g trace \<Rightarrow> exn + 'g trace" where
  "load_data loaded tr =
     (let sorted = sort_key m_t_submit loaded in
      store_loaded sorted (resolve_job_store_capacity (length loaded) tr))"

definition load_next_file :: "nat \<Rightarrow> nat \<Rightarrow> sim_time \<Rightarrow> job_record list option \<Rightarrow> 'g trace \<Rightarrow> exn + (job_no list \<times> 'g trace)" where
  "load_next_file available record_size now file tr =
     (case file of
        None \<Rightarrow> Inl Runtime_Error
      | Some loaded \<Rightarrow>
          if loaded = [] then Inr ([], tr)
          else if \<not> nondecreasing (map m_t_submit loaded) then Inl Runtime_Error
          else if m_has_loaded_a_file tr \<and> epoch_less (m_t_submit (hd loaded)) (m_last_loaded_submit_time tr) then Inl Runtime_Error
          else case ensure_batch_capacity available record_size now (length loaded) tr of
            Inl e \<Rightarrow> Inl e
          | Inr tr \<Rightarrow>
              let base = m_num_reclaimed tr + length (m_data tr)
              in Inr ([base..<base + length loaded],
                      tr\<lparr>m_data := m_data tr @ loaded, m_last_loaded_submit_time := m_t_submit (List.last loaded),
                        m_has_loaded_a_file := True\<rparr>))"

section \<open>Event processing\<close>

definition resolve_resource_history_capacity :: "'g trace \<Rightarrow> 'g trace" where
  "resolve_resource_history_capacity tr =
     (if m_resource_history_capacity_resolved tr then tr
      else let cap = (if m_resource_history_capacity tr = 0 then max (length (m_data tr) * 2) 4096 else m_resource_history_capacity tr)
           in tr\<lparr>m_history_capacity := cap, m_resource_history_capacity_resolved := True\<rparr>)"

definition flush_resource_history :: "'g trace \<Rightarrow> 'g trace" where
  "flush_resource_history tr =
     (case m_resource_trace_ofs tr of
        None \<Rightarrow> tr\<lparr>m_resource_history := []\<rparr>
      | Some out \<Rightarrow> tr\<lparr>m_resource_trace_ofs := Some (out @ m_resource_history tr), m_resource_history := []\<rparr>)"

definition make_resource_sample :: "sim_time \<Rightarrow> num_nodes \<Rightarrow> 'g trace \<Rightarrow> resource_sample" where
  "make_resource_sample t allocated tr = \<lparr>rs_time = t, rs_allocated = allocated,
     rs_capacity = m_resource_trace_current_capacity tr, rs_releasing = m_n_nodes_releasing tr\<rparr>"

definition record_resource_sample :: "sim_time \<Rightarrow> num_nodes \<Rightarrow> 'g trace \<Rightarrow> 'g trace" where
  "record_resource_sample t allocated tr =
     (let tr = resolve_resource_history_capacity tr;
          tr = (if length (m_resource_history tr) = m_history_capacity tr then flush_resource_history tr else tr)
      in tr\<lparr>m_resource_history := m_resource_history tr @ [make_resource_sample t allocated tr]\<rparr>)"

definition set_resource_capacity :: "sim_time \<Rightarrow> num_nodes \<Rightarrow> 'g trace \<Rightarrow> 'g trace" where
  "set_resource_capacity t cap tr =
     (let tr = tr\<lparr>m_resource_trace_current_capacity := cap\<rparr> in record_resource_sample t (m_n_nodes_in_use tr) tr)"

text \<open>Opening the outputs: \<open>opens\<close> says that a file name was given and the file could be opened.  The rows
  already written are the stream; the header line is not a row.\<close>

definition reset_resource_capacity :: "num_nodes \<Rightarrow> 'g trace \<Rightarrow> 'g trace" where
  "reset_resource_capacity cap tr = tr\<lparr>m_resource_trace_current_capacity := cap, m_resource_capacity_initialized := True\<rparr>"

definition reset_resource_recording :: "sim_time \<Rightarrow> 'g trace \<Rightarrow> 'g trace" where
  "reset_resource_recording t tr = tr\<lparr>m_resource_history := [], m_resource_recording_start := t,
     m_resource_recording_baseline := Some (make_resource_sample t (m_n_nodes_in_use tr) tr)\<rparr>"

definition start_resource_trace :: "bool \<Rightarrow> num_nodes \<Rightarrow> 'g trace \<Rightarrow> 'g trace" where
  "start_resource_trace opens total_nodes tr =
     (let tr = (if m_resource_capacity_initialized tr then tr
                else tr\<lparr>m_resource_trace_current_capacity := total_nodes, m_resource_capacity_initialized := True\<rparr>)
      in if \<not> opens \<or> m_resource_trace_ofs tr \<noteq> None then tr
         else let baseline = (case m_resource_recording_baseline tr of
                                Some b \<Rightarrow> b
                              | None \<Rightarrow> make_resource_sample (m_resource_recording_start tr) (m_n_nodes_in_use tr) tr)
              in tr\<lparr>m_resource_trace_ofs := Some [baseline], m_resource_recording_baseline := None\<rparr>)"

definition start_simulated_trace :: "bool \<Rightarrow> 'g trace \<Rightarrow> 'g trace" where
  "start_simulated_trace opens tr =
     (if \<not> opens \<or> simulated_trace_output_active tr then tr else tr\<lparr>m_simulated_trace_ofs := Some []\<rparr>)"

definition finish_job_nodes :: "'g delay_math \<Rightarrow> job_no \<Rightarrow> sim_time \<Rightarrow> num_nodes \<Rightarrow> 'g trace \<Rightarrow> 'g trace" where
  "finish_job_nodes dm i end_time nodes tr =
     (if rd_active (m_release_delay tr) then
        (if end_time \<ge> m_release_delay_from tr then
           (let (d, rd) = delay_sample dm (m_release_delay tr) nodes;
                release = end_time + d
            in tr\<lparr>m_release_delay := rd, m_n_nodes_in_use := m_n_nodes_in_use tr - nodes,
                 m_n_nodes_releasing := m_n_nodes_releasing tr + nodes,
                 m_evtq := evtq_insert (release_event i release nodes) (m_evtq tr),
                 m_last_release_time := release, m_last_departure_delayed := True\<rparr>)
         else tr\<lparr>m_last_departure_delayed := False, m_n_nodes_in_use := m_n_nodes_in_use tr - nodes\<rparr>)
      else tr\<lparr>m_n_nodes_in_use := m_n_nodes_in_use tr - nodes\<rparr>)"

text \<open>The accounting of one event taken from the queue, shared by both event-processing paths.\<close>

definition account_event :: "'g delay_math \<Rightarrow> dr_event \<Rightarrow> 'g trace \<Rightarrow> exn + 'g trace" where
  "account_event dm e tr =
     (if ev_kind e = Release then Inr (tr\<lparr>m_n_nodes_releasing := m_n_nodes_releasing tr - ev_nodes e\<rparr>)
      else case job_at tr (ev_job e) of
        Inl x \<Rightarrow> Inl x
      | Inr j \<Rightarrow> Inr (if ev_kind e = Arrival then tr\<lparr>m_n_nodes_in_use := m_n_nodes_in_use tr + m_num_nodes j\<rparr>
                     else finish_job_nodes dm (ev_job e) (ev_time e) (m_num_nodes j) tr))"

definition process_single_event :: "'g delay_math \<Rightarrow> 'g trace \<Rightarrow> exn + (bool \<times> 'g trace)" where
  "process_single_event dm tr =
     (case m_evtq tr of
        [] \<Rightarrow> Inr (False, tr)
      | e # q \<Rightarrow>
         (case account_event dm e (tr\<lparr>m_evtq := q\<rparr>) of
            Inl x \<Rightarrow> Inl x
          | Inr tr \<Rightarrow>
              let tr = record_resource_sample (ev_time e) (m_n_nodes_in_use tr) tr;
                  drained = (m_evtq tr = [] \<or> ev_time e < ev_time (hd (m_evtq tr)));
                  tr = (if ev_kind e = Departure \<and> simulated_trace_output_active tr \<and>
                           m_departures_since_job_flush tr < effective_job_flush_interval tr
                        then tr\<lparr>m_departures_since_job_flush := m_departures_since_job_flush tr + 1\<rparr> else tr)
              in if simulated_trace_output_active tr \<and> drained \<and>
                    m_departures_since_job_flush tr \<ge> effective_job_flush_interval tr
                 then (case flush_completed_jobs_impl (ev_time e) tr of Inl x \<Rightarrow> Inl x | Inr tr \<Rightarrow> Inr (True, tr))
                 else Inr (True, tr)))"

text \<open>What the recording and flushing operations leave alone.\<close>

lemma record_resource_sample_simps [simp]:
  "m_data (record_resource_sample t a tr) = m_data tr" "m_num_reclaimed (record_resource_sample t a tr) = m_num_reclaimed tr"
  "m_evtq (record_resource_sample t a tr) = m_evtq tr" "m_n_nodes_in_use (record_resource_sample t a tr) = m_n_nodes_in_use tr"
  "m_n_nodes_releasing (record_resource_sample t a tr) = m_n_nodes_releasing tr"
  "m_release_delay (record_resource_sample t a tr) = m_release_delay tr"
  "m_release_delay_from (record_resource_sample t a tr) = m_release_delay_from tr"
  "m_last_departure_delayed (record_resource_sample t a tr) = m_last_departure_delayed tr"
  "m_simulated_trace_ofs (record_resource_sample t a tr) = m_simulated_trace_ofs tr"
  "m_trace_mode (record_resource_sample t a tr) = m_trace_mode tr"
  "m_next_job_to_write (record_resource_sample t a tr) = m_next_job_to_write tr"
  by (auto simp: record_resource_sample_def resolve_resource_history_capacity_def flush_resource_history_def Let_def split: option.splits)

fun event_weight :: "dr_event_kind \<Rightarrow> nat" where
  "event_weight Departure = 2"
| "event_weight Release = 1"
| "event_weight Arrival = 1"

definition queue_weight :: "dr_event list \<Rightarrow> nat" where
  "queue_weight q = sum_list (map (event_weight \<circ> ev_kind) q)"

lemma queue_weight_insert: "queue_weight (evtq_insert e q) \<le> event_weight (ev_kind e) + queue_weight q"
  by (induction q) (auto simp: queue_weight_def)

lemma finish_job_nodes_weight: "queue_weight (m_evtq (finish_job_nodes dm i t n tr)) \<le> 1 + queue_weight (m_evtq tr)"
  using queue_weight_insert[of "release_event i u n" "m_evtq tr" for u]
  by (auto simp: finish_job_nodes_def release_event_def job_event_def Let_def split: prod.splits)

lemma account_event_weight:
  "account_event dm e tr = Inr tr' \<Longrightarrow> queue_weight (m_evtq tr') < event_weight (ev_kind e) + queue_weight (m_evtq tr)"
  using finish_job_nodes_weight[of dm "ev_job e" "ev_time e" n tr for n]
  by (cases "ev_kind e") (auto simp: account_event_def less_Suc_eq_le split: sum.splits if_splits)

function process_loop :: "'g delay_math \<Rightarrow> sim_time \<Rightarrow> nat \<Rightarrow> 'g trace \<Rightarrow> exn + (nat \<times> 'g trace)" where
  "process_loop dm t_sub departures tr =
     (case m_evtq tr of
        [] \<Rightarrow> Inr (departures, tr)
      | e # q \<Rightarrow>
          if t_sub < ev_time e then Inr (departures, tr)
          else (case account_event dm e (tr\<lparr>m_evtq := q\<rparr>) of
                  Inl x \<Rightarrow> Inl x
                | Inr tr' \<Rightarrow> process_loop dm t_sub (if ev_kind e = Departure then Suc departures else departures)
                              (record_resource_sample (ev_time e) (m_n_nodes_in_use tr') tr')))"
  by pat_completeness auto
termination
proof (relation "measure (\<lambda>(dm, t, d, tr). queue_weight (m_evtq tr))")
  fix dm :: "'g delay_math" and t_sub d and tr :: "'g trace" and e q tr'
  assume "m_evtq tr = e # q" "account_event dm e (tr\<lparr>m_evtq := q\<rparr>) = Inr tr'"
  then have "queue_weight (m_evtq tr') < queue_weight (m_evtq tr)"
    using account_event_weight[of dm e "tr\<lparr>m_evtq := q\<rparr>" tr'] by (simp add: queue_weight_def)
  then show "((dm, t_sub, if ev_kind e = Departure then Suc d else d, record_resource_sample (ev_time e) (m_n_nodes_in_use tr') tr'),
      dm, t_sub, d, tr) \<in> measure (\<lambda>(dm, t, d, tr). queue_weight (m_evtq tr))" by simp
qed simp

declare process_loop.simps [simp del]

definition process_events_until :: "'g delay_math \<Rightarrow> sim_time \<Rightarrow> 'g trace \<Rightarrow> exn + 'g trace" where
  "process_events_until dm t_sub tr =
     (if m_evtq tr = [] then Inr tr
      else case process_loop dm t_sub 0 tr of
        Inl x \<Rightarrow> Inl x
      | Inr (departures, tr') \<Rightarrow>
          if departures \<noteq> 0 then maybe_flush_completed_jobs t_sub departures tr' else Inr tr')"

lemma write_job_line_simps [simp]:
  "m_evtq (write_job_line j tr) = m_evtq tr" "m_data (write_job_line j tr) = m_data tr"
  "m_num_reclaimed (write_job_line j tr) = m_num_reclaimed tr" "m_n_nodes_in_use (write_job_line j tr) = m_n_nodes_in_use tr"
  "m_n_nodes_releasing (write_job_line j tr) = m_n_nodes_releasing tr" "m_release_delay (write_job_line j tr) = m_release_delay tr"
  "m_release_delay_from (write_job_line j tr) = m_release_delay_from tr"
  "m_last_departure_delayed (write_job_line j tr) = m_last_departure_delayed tr"
  "m_data_capacity (write_job_line j tr) = m_data_capacity tr" "m_next_job_to_write (write_job_line j tr) = m_next_job_to_write tr"
  "m_trace_mode (write_job_line j tr) = m_trace_mode tr"
  "m_resource_history (write_job_line j tr) = m_resource_history tr" "m_resource_trace_ofs (write_job_line j tr) = m_resource_trace_ofs tr"
  "(m_simulated_trace_ofs (write_job_line j tr) = None) = (m_simulated_trace_ofs tr = None)"
  by (auto simp: write_job_line_def Let_def)

text \<open>A flush only removes records from the front: every other field of the accounting is as before.\<close>

definition same_account :: "'g trace \<Rightarrow> 'g trace \<Rightarrow> bool" where
  "same_account tr tr' \<longleftrightarrow> m_evtq tr' = m_evtq tr \<and> m_n_nodes_in_use tr' = m_n_nodes_in_use tr \<and>
     m_n_nodes_releasing tr' = m_n_nodes_releasing tr \<and> m_release_delay tr' = m_release_delay tr \<and>
     m_release_delay_from tr' = m_release_delay_from tr \<and> m_last_departure_delayed tr' = m_last_departure_delayed tr \<and>
     m_resource_history tr' = m_resource_history tr \<and> m_resource_trace_ofs tr' = m_resource_trace_ofs tr"

definition dropped :: "nat \<Rightarrow> 'g trace \<Rightarrow> 'g trace \<Rightarrow> bool" where
  "dropped n tr tr' \<longleftrightarrow> n \<le> length (m_data tr) \<and> m_data tr' = drop n (m_data tr) \<and> m_num_reclaimed tr' = m_num_reclaimed tr + n"

lemma write_job_range_keeps:
  assumes "write_job_range js i t tr = Inr tr'"
  shows "same_account tr tr' \<and> m_data tr' = m_data tr \<and> m_num_reclaimed tr' = m_num_reclaimed tr \<and>
    m_data_capacity tr' = m_data_capacity tr"
proof -
  let ?f = "\<lambda>j tr. if is_scheduled j \<and> convert_epoch (m_t_end j) \<le> t then write_job_line j tr else tr"
  have "same_account tr (fold ?f js tr) \<and> m_data (fold ?f js tr) = m_data tr \<and> m_num_reclaimed (fold ?f js tr) = m_num_reclaimed tr \<and>
      m_data_capacity (fold ?f js tr) = m_data_capacity tr" for js and tr :: "'a trace"
    by (induction js arbitrary: tr) (auto simp: same_account_def)
  then show ?thesis using assms by (auto simp: write_job_range_def Let_def same_account_def split: if_splits)
qed

lemma flush_buffer_keeps [simp]:
  "same_account tr (flush_simulated_trace_buffer tr)" "m_data (flush_simulated_trace_buffer tr) = m_data tr"
  "m_num_reclaimed (flush_simulated_trace_buffer tr) = m_num_reclaimed tr" "m_evtq (flush_simulated_trace_buffer tr) = m_evtq tr"
  by (auto simp: flush_simulated_trace_buffer_def same_account_def split: option.splits)

lemma reclaimable_prefix_le: "reclaimable_prefix tr now i js \<le> length js"
  by (induction js arbitrary: i) auto

lemma flush_completed_keeps:
  assumes "flush_completed_jobs_impl now tr = Inr tr'"
  shows "same_account tr tr' \<and> dropped (reclaimable_prefix tr now (m_num_reclaimed tr) (m_data tr)) tr tr'"
proof -
  define n where "n = reclaimable_prefix tr now (m_num_reclaimed tr) (m_data tr)"
  have n: "n \<le> length (m_data tr)" by (simp add: n_def reclaimable_prefix_le)
  obtain tr1 where tr1: "(if n \<noteq> 0 then write_job_range (take n (m_data tr)) (m_num_reclaimed tr) now tr else Inr tr) = Inr tr1"
    "tr' = (flush_simulated_trace_buffer (pop_front_jobs n tr1))\<lparr>m_departures_since_job_flush := 0\<rparr>"
    using assms by (auto simp: flush_completed_jobs_impl_def n_def[symmetric] Let_def split: sum.splits)
  have k: "same_account tr tr1 \<and> m_data tr1 = m_data tr \<and> m_num_reclaimed tr1 = m_num_reclaimed tr"
    using tr1(1) write_job_range_keeps by (fastforce simp: same_account_def split: if_splits)
  have "same_account (pop_front_jobs n tr1) tr'" using tr1(2) flush_buffer_keeps(1)[of "pop_front_jobs n tr1"] by (simp add: same_account_def)
  then show ?thesis using k tr1(2) n by (auto simp: same_account_def dropped_def pop_front_jobs_def n_def)
qed

lemma maybe_flush_evtq: "maybe_flush_completed_jobs now d tr = Inr tr' \<Longrightarrow> m_evtq tr' = m_evtq tr"
  using flush_completed_keeps by (fastforce simp: maybe_flush_completed_jobs_def Let_def same_account_def split: if_splits)

lemma process_loop_weight:
  "process_loop dm t d tr = Inr (d', tr') \<Longrightarrow> queue_weight (m_evtq tr') \<le> queue_weight (m_evtq tr) \<and>
   (m_evtq tr \<noteq> [] \<and> \<not> t < ev_time (hd (m_evtq tr)) \<longrightarrow> queue_weight (m_evtq tr') < queue_weight (m_evtq tr))"
proof (induction dm t d tr rule: process_loop.induct)
  case (1 dm t d tr)
  show ?case
  proof (cases "m_evtq tr")
    case Nil
    then show ?thesis using 1(2) by (simp add: process_loop.simps)
  next
    case (Cons e q)
    show ?thesis
    proof (cases "t < ev_time e")
      case True
      then show ?thesis using 1(2) Cons by (simp add: process_loop.simps[of dm t d tr])
    next
      case False
      then obtain tr1 where a: "account_event dm e (tr\<lparr>m_evtq := q\<rparr>) = Inr tr1"
        using 1(2) Cons by (auto simp: process_loop.simps[of dm t d tr] split: sum.splits)
      have "queue_weight (m_evtq tr1) < queue_weight (m_evtq tr)"
        using account_event_weight[OF a] Cons by (simp add: queue_weight_def)
      moreover have "queue_weight (m_evtq tr') \<le> queue_weight (m_evtq tr1)"
        using 1(1)[OF Cons False a] 1(2) Cons False a by (simp add: process_loop.simps[of dm t d tr])
      ultimately show ?thesis by simp
    qed
  qed
qed

lemma process_events_until_weight:
  "process_events_until dm t tr = Inr tr' \<Longrightarrow> m_evtq tr \<noteq> [] \<Longrightarrow> ev_time (hd (m_evtq tr)) \<le> t \<Longrightarrow>
   queue_weight (m_evtq tr') < queue_weight (m_evtq tr)"
  using process_loop_weight[of dm t 0 tr] maybe_flush_evtq[of t _ _ tr']
  by (fastforce simp: process_events_until_def split: sum.splits if_splits)

function run_until_inclusive :: "'g delay_math \<Rightarrow> sim_time \<Rightarrow> 'g trace \<Rightarrow> exn + 'g trace" where
  "run_until_inclusive dm target tr =
     (if m_evtq tr = [] then Inr tr
      else let event_time = ev_time (hd (m_evtq tr)) in
        if event_time > target then Inr tr
        else case process_events_until dm event_time tr of
          Inl x \<Rightarrow> Inl x
        | Inr tr' \<Rightarrow> run_until_inclusive dm target tr')"
  by pat_completeness auto
termination
  by (relation "measure (\<lambda>(dm, t, tr). queue_weight (m_evtq tr))") (auto intro: process_events_until_weight)

declare run_until_inclusive.simps [simp del]

definition run_until_exclusive :: "'g delay_math \<Rightarrow> sim_time \<Rightarrow> 'g trace \<Rightarrow> exn + 'g trace" where
  "run_until_exclusive dm target tr = process_events_until dm target tr"

text \<open>Starting a job: its two events enter the queue, and its record gets its times.\<close>

definition insert_job :: "job_no \<Rightarrow> sim_time \<Rightarrow> 'g trace \<Rightarrow> exn + 'g trace" where
  "insert_job i start_time tr =
     (case job_at tr i of
        Inl x \<Rightarrow> Inl x
      | Inr j \<Rightarrow>
          let j = (if m_actual_run_time j \<le> 0 then j\<lparr>m_actual_run_time := limit_time j\<rparr> else j);
              q = evtq_insert (job_event i start_time Arrival) (m_evtq tr);
              q = evtq_insert (job_event i (start_time + m_actual_run_time j) Departure) q
          in Inr ((set_job i (compute_end_time (set_begin_time (to_epoch start_time) j)) tr)
                    \<lparr>m_evtq := q, m_replay_jobs_enqueued := max (m_replay_jobs_enqueued tr) (i + 1)\<rparr>))"

definition enqueue_replay_job :: "job_no \<Rightarrow> 'g trace \<Rightarrow> exn + 'g trace" where
  "enqueue_replay_job i tr =
     (if m_trace_mode tr \<noteq> REPLAY then Inl Logic_Error
      else case job_at tr i of
        Inl x \<Rightarrow> Inl x
      | Inr j \<Rightarrow>
          let q = evtq_insert (job_event i (convert_epoch (m_t_begin j)) Arrival) (m_evtq tr);
              q = evtq_insert (job_event i (convert_epoch (m_t_end j)) Departure) q
          in Inr (tr\<lparr>m_evtq := q, m_replay_jobs_enqueued := max (m_replay_jobs_enqueued tr) (i + 1)\<rparr>))"

end
