(* ===== verification/Trace_Laws.thy ===== *)
theory Trace_Laws
  imports Trace
begin

text \<open>
  The laws of the job store and of the event accounting: identifiers are permanent, no pending event
  refers to a reclaimed record, and the two node counters equal what the pending events say.  The
  operations a simulation performs on a trace are the steps of a transition relation, and the
  accounting invariant holds in every reachable state.
\<close>

section \<open>Permanent identifiers\<close>

definition num_jobs :: "'g trace \<Rightarrow> nat" where
  "num_jobs tr = m_num_reclaimed tr + length (m_data tr)"

lemma job_at_iff: "job_at tr i = Inr j \<longleftrightarrow> m_num_reclaimed tr \<le> i \<and> i < num_jobs tr \<and> j = m_data tr ! (i - m_num_reclaimed tr)"
  by (auto simp: job_at_def num_jobs_def Let_def)

lemma job_at_cong: "m_data tr' = m_data tr \<Longrightarrow> m_num_reclaimed tr' = m_num_reclaimed tr \<Longrightarrow> job_at tr' i = job_at tr i"
  by (simp add: job_at_def Let_def)

lemma job_at_evtq [simp]: "job_at (tr\<lparr>m_evtq := q\<rparr>) i = job_at tr i"
  by (rule job_at_cong) simp_all

lemma job_at_dropped: "dropped n tr tr' \<Longrightarrow> m_num_reclaimed tr + n \<le> i \<Longrightarrow> job_at tr' i = job_at tr i"
  by (auto simp: job_at_def dropped_def Let_def nth_drop add.commute)

lemma num_jobs_dropped: "dropped n tr tr' \<Longrightarrow> num_jobs tr' = num_jobs tr"
  by (auto simp: dropped_def num_jobs_def)

lemma dropped_0: "m_data tr' = m_data tr \<Longrightarrow> m_num_reclaimed tr' = m_num_reclaimed tr \<Longrightarrow> dropped 0 tr tr'"
  by (simp add: dropped_def)

lemma same_account_refl [simp]: "same_account tr tr"
  by (simp add: same_account_def)

lemma reclaimable_prefix_all:
  "m < reclaimable_prefix tr now i js \<Longrightarrow> m < length js \<and> is_job_reclaimable tr (i + m) (js ! m) now"
proof (induction js arbitrary: i m)
  case (Cons j js)
  then show ?case using Cons.IH[of "m - 1" "Suc i"] by (cases m) (auto split: if_splits)
qed simp

lemma reclaim_walk_le: "n \<le> reclaim_walk tr now k n js \<and> reclaim_walk tr now k n js \<le> n + length js"
proof (induction js arbitrary: n)
  case (Cons j js)
  show ?case using Cons.IH[of "Suc n"] by simp
qed simp

lemma reclaim_walk_all:
  "m < reclaim_walk tr now k n js - n \<Longrightarrow> is_job_reclaimable tr (m_num_reclaimed tr + n + m) (js ! m) now"
proof (induction js arbitrary: n m)
  case (Cons j js)
  then show ?case using Cons.IH[of "m - 1" "Suc n"] by (cases m) (auto split: if_splits)
qed simp

section \<open>Writing and reclaiming\<close>

definition write_ok :: "'g trace \<Rightarrow> bool" where
  "write_ok tr \<longleftrightarrow> m_num_reclaimed tr \<le> m_next_job_to_write tr"

text \<open>Reclaiming the first \<open>n\<close> records, all of them reclaimable.\<close>

definition reclaims :: "'g trace \<Rightarrow> sim_time \<Rightarrow> nat \<Rightarrow> bool" where
  "reclaims tr now n \<longleftrightarrow> n \<le> length (m_data tr) \<and>
     (\<forall>m<n. is_job_reclaimable tr (m_num_reclaimed tr + m) (m_data tr ! m) now)"

lemma fold_write_next [simp]:
  "m_next_job_to_write (fold (\<lambda>j tr. if is_scheduled j \<and> convert_epoch (m_t_end j) \<le> t then write_job_line j tr else tr) js tr) =
   m_next_job_to_write tr"
  by (induction js arbitrary: tr) auto

lemma write_job_range_total:
  assumes "write_ok tr"
  shows "\<exists>tr'. write_job_range js (m_num_reclaimed tr) t tr = Inr tr' \<and> m_num_reclaimed tr + length js \<le> m_next_job_to_write tr'"
  using assms by (auto simp: write_job_range_def write_ok_def Let_def)

text \<open>A step of the store: it drops reclaimable records and keeps the accounting.\<close>

definition store_step :: "sim_time \<Rightarrow> 'g trace \<Rightarrow> 'g trace \<Rightarrow> bool" where
  "store_step now tr tr' \<longleftrightarrow> same_account tr tr' \<and> write_ok tr' \<and> (\<exists>n. reclaims tr now n \<and> dropped n tr tr')"

lemma flush_buffer_next [simp]: "m_next_job_to_write (flush_simulated_trace_buffer tr) = m_next_job_to_write tr"
  by (simp add: flush_simulated_trace_buffer_def split: option.split)

lemma write_pop:
  assumes "write_ok tr" "reclaims tr now n"
  obtains tr' where "(if n \<noteq> 0 then write_job_range (take n (m_data tr)) (m_num_reclaimed tr) now tr else Inr tr) = Inr tr'"
    "same_account tr tr'" "m_data tr' = m_data tr" "m_num_reclaimed tr' = m_num_reclaimed tr"
    "m_num_reclaimed tr + n \<le> m_next_job_to_write tr'"
proof (cases "n = 0")
  case True
  then show ?thesis using that[of tr] assms(1) by (simp add: write_ok_def)
next
  case False
  obtain tr' where t: "write_job_range (take n (m_data tr)) (m_num_reclaimed tr) now tr = Inr tr'"
    "m_num_reclaimed tr + length (take n (m_data tr)) \<le> m_next_job_to_write tr'"
    using write_job_range_total[OF assms(1)] by blast
  then show ?thesis using that[of tr'] False write_job_range_keeps[OF t(1)] assms(2) by (auto simp: reclaims_def)
qed

lemma flush_total:
  assumes "write_ok tr"
  shows "\<exists>tr'. flush_completed_jobs_impl now tr = Inr tr' \<and> store_step now tr tr'"
proof -
  define n where "n = reclaimable_prefix tr now (m_num_reclaimed tr) (m_data tr)"
  have r: "reclaims tr now n"
    using reclaimable_prefix_all[of _ tr now "m_num_reclaimed tr" "m_data tr"] by (simp add: reclaims_def n_def reclaimable_prefix_le)
  obtain tr1 where t: "(if n \<noteq> 0 then write_job_range (take n (m_data tr)) (m_num_reclaimed tr) now tr else Inr tr) = Inr tr1"
    "m_num_reclaimed tr1 = m_num_reclaimed tr" "m_num_reclaimed tr + n \<le> m_next_job_to_write tr1"
    by (rule write_pop[OF assms r])
  define tr2 where "tr2 = (flush_simulated_trace_buffer (pop_front_jobs n tr1))\<lparr>m_departures_since_job_flush := 0\<rparr>"
  have f: "flush_completed_jobs_impl now tr = Inr tr2"
    by (simp only: flush_completed_jobs_impl_def n_def[symmetric] Let_def t(1) sum.case tr2_def)
  have "write_ok tr2" using t by (simp add: tr2_def write_ok_def pop_front_jobs_def)
  then show ?thesis using f flush_completed_keeps[OF f] r by (auto simp: store_step_def n_def)
qed

lemma grow_keeps:
  "(if b then grow_or_abort tr else Inr tr) = Inr tr' \<Longrightarrow> same_account tr tr' \<and> m_data tr' = m_data tr \<and>
    m_num_reclaimed tr' = m_num_reclaimed tr \<and> m_next_job_to_write tr' = m_next_job_to_write tr"
  by (auto simp: grow_or_abort_def same_account_def split: if_splits)

lemma reclaim_front_step:
  assumes "write_ok tr" "reclaim_front_jobs now k b tr = Inr tr'"
  shows "store_step now tr tr'"
proof (cases "m_data_capacity tr \<ge> length (m_data tr) + k")
  case True
  then show ?thesis using assms
    by (auto simp: store_step_def reclaim_front_jobs_def reclaims_def intro!: exI[of _ 0] dropped_0)
next
  case False
  define n where "n = reclaim_walk tr now k 0 (m_data tr)"
  have r: "reclaims tr now n"
    using reclaim_walk_all[of _ tr now k 0 "m_data tr"] reclaim_walk_le[of 0 tr now k "m_data tr"]
    by (simp add: reclaims_def n_def)
  obtain tr1 where t: "(if n \<noteq> 0 then write_job_range (take n (m_data tr)) (m_num_reclaimed tr) now tr else Inr tr) = Inr tr1"
    "same_account tr tr1" "m_data tr1 = m_data tr" "m_num_reclaimed tr1 = m_num_reclaimed tr"
    "m_num_reclaimed tr + n \<le> m_next_job_to_write tr1"
    by (rule write_pop[OF assms(1) r])
  define tr2 where "tr2 = (if n \<noteq> 0 then (flush_simulated_trace_buffer (pop_front_jobs n tr1))\<lparr>m_departures_since_job_flush := 0\<rparr>
    else pop_front_jobs n tr1)"
  have "(if b \<and> data_full tr2 then grow_or_abort tr2 else Inr tr2) = Inr tr'"
    using assms(2) by (simp only: reclaim_front_jobs_def False if_False n_def[symmetric] Let_def t(1) sum.case tr2_def)
  note g = grow_keeps[OF this]
  have "same_account tr1 tr2 \<and> m_data tr2 = drop n (m_data tr1) \<and> m_num_reclaimed tr2 = m_num_reclaimed tr1 + n \<and>
      m_next_job_to_write tr2 = m_next_job_to_write tr1"
    using flush_buffer_keeps(1)[of "pop_front_jobs n tr1"] by (auto simp: tr2_def pop_front_jobs_def same_account_def)
  then have "same_account tr tr' \<and> write_ok tr' \<and> dropped n tr tr'"
    using g t(2-5) r by (auto simp: same_account_def write_ok_def dropped_def reclaims_def)
  then show ?thesis using r by (auto simp: store_step_def)
qed

text \<open>A new record is stored under the next identifier.\<close>

definition stored :: "'g trace \<Rightarrow> job_record list \<Rightarrow> 'g trace \<Rightarrow> bool" where
  "stored tr js tr' \<longleftrightarrow> m_data tr' = m_data tr @ js \<and> m_num_reclaimed tr' = m_num_reclaimed tr \<and>
     m_next_job_to_write tr' = m_next_job_to_write tr \<and> same_account tr tr'"

definition request_record :: "append_request \<Rightarrow> job_record" where
  "request_record req = (let j = new_job_record (ar_submit_time req) (ar_num_nodes req) (ar_queue req) (ar_limit_time req)
     in case ar_actual_run_time req of None \<Rightarrow> j | Some d \<Rightarrow> j\<lparr>m_actual_run_time := d\<rparr>)"

lemma resolve_keeps [simp]:
  "same_account tr (resolve_job_store_capacity h tr)" "m_data (resolve_job_store_capacity h tr) = m_data tr"
  "m_num_reclaimed (resolve_job_store_capacity h tr) = m_num_reclaimed tr"
  "m_next_job_to_write (resolve_job_store_capacity h tr) = m_next_job_to_write tr"
  "m_trace_mode (resolve_job_store_capacity h tr) = m_trace_mode tr"
  "m_replay_jobs_enqueued (resolve_job_store_capacity h tr) = m_replay_jobs_enqueued tr"
  by (simp_all add: resolve_job_store_capacity_def same_account_def Let_def)

lemma reclaims_resolve: "reclaims (resolve_job_store_capacity h tr) now n = reclaims tr now n"
  using resolve_keeps(1)[of tr h] by (simp add: reclaims_def is_job_reclaimable_def same_account_def)

lemma append_job_step:
  assumes "write_ok tr" "append_job now req tr = Inr (i, tr')"
  shows "\<exists>tr1. store_step now tr tr1 \<and> stored tr1 [request_record req] tr' \<and> i = num_jobs tr"
proof -
  define tr0 where "tr0 = resolve_job_store_capacity (length (m_data tr)) tr"
  obtain tr1 tr2 where
    a: "reclaim_front_jobs now 1 True tr0 = Inr tr1" "(if data_full tr1 then grow_or_abort tr1 else Inr tr1) = Inr tr2" and
    b: "tr' = push_record (new_job_record (ar_submit_time req) (ar_num_nodes req) (ar_queue req) (ar_limit_time req))
      (ar_actual_run_time req) tr2" "i = m_num_reclaimed tr' + length (m_data tr') - 1"
    using assms(2) by (auto simp: append_job_def tr0_def[symmetric] Let_def split: sum.splits)
  have w0: "write_ok tr0" using assms(1) by (simp add: write_ok_def tr0_def)
  have s0: "store_step now tr tr1"
    using reclaim_front_step[OF w0 a(1)] resolve_keeps(1)[of tr "length (m_data tr)"]
    by (auto simp: store_step_def tr0_def reclaims_resolve dropped_def same_account_def)
  have s1: "stored tr1 [request_record req] tr'"
    using grow_keeps[OF a(2)] b(1)
    by (auto simp: stored_def push_record_def request_record_def Let_def same_account_def split: option.split)
  have "num_jobs tr1 = num_jobs tr" using s0 num_jobs_dropped by (auto simp: store_step_def)
  then have "i = num_jobs tr" using s1 b(2) by (simp add: stored_def num_jobs_def)
  then show ?thesis using s0 s1 by blast
qed

lemma push_requests_law:
  "push_requests reqs tr = (ids, tr') \<Longrightarrow> stored tr (map request_record reqs) tr' \<and> ids = [num_jobs tr..<num_jobs tr + length reqs]"
proof (induction reqs arbitrary: tr ids)
  case Nil
  then show ?case by (simp add: stored_def)
next
  case (Cons r reqs)
  define tr1 where "tr1 = push_record (new_job_record (ar_submit_time r) (ar_num_nodes r) (ar_queue r) (ar_limit_time r))
    (ar_actual_run_time r) tr"
  have s1: "stored tr [request_record r] tr1"
    by (simp add: tr1_def stored_def push_record_def request_record_def same_account_def Let_def split: option.split)
  obtain ids' where p: "push_requests reqs tr1 = (ids', tr')" "ids = (m_num_reclaimed tr1 + length (m_data tr1) - 1) # ids'"
    using Cons.prems by (auto simp: Let_def tr1_def split: prod.splits)
  have "num_jobs tr1 = Suc (num_jobs tr)" using s1 by (simp add: stored_def num_jobs_def)
  moreover have "m_num_reclaimed tr1 + length (m_data tr1) - 1 = num_jobs tr" using s1 by (simp add: stored_def num_jobs_def)
  ultimately have "ids = num_jobs tr # [Suc (num_jobs tr)..<Suc (num_jobs tr) + length reqs]"
    using Cons.IH[OF p(1)] p(2) by simp
  moreover have "stored tr (map request_record (r # reqs)) tr'"
    using Cons.IH[OF p(1)] s1 by (simp add: stored_def same_account_def)
  moreover have "[num_jobs tr..<num_jobs tr + length (r # reqs)] = num_jobs tr # [Suc (num_jobs tr)..<Suc (num_jobs tr) + length reqs]"
    by (subst upt_conv_Cons) (simp_all del: upt_Suc)
  ultimately show ?case by (simp only:)
qed

lemma reclaim_front_error:
  "write_ok tr \<Longrightarrow> reclaim_front_jobs now k b tr = Inl e \<Longrightarrow> e = Runtime_Error"
proof -
  assume w: "write_ok tr" and e: "reclaim_front_jobs now k b tr = Inl e"
  define n where "n = reclaim_walk tr now k 0 (m_data tr)"
  have "reclaims tr now n"
    using reclaim_walk_all[of _ tr now k 0 "m_data tr"] reclaim_walk_le[of 0 tr now k "m_data tr"]
    by (simp add: reclaims_def n_def)
  then obtain tr1 where "(if n \<noteq> 0 then write_job_range (take n (m_data tr)) (m_num_reclaimed tr) now tr else Inr tr) = Inr tr1"
    by (rule write_pop[OF w])
  then show ?thesis using e
    by (simp only: reclaim_front_jobs_def n_def[symmetric] Let_def sum.case) (simp add: grow_or_abort_def split: if_splits)
qed

text \<open>A batch: with or without an exception the store made a step, and the records are stored only without one.\<close>

lemma ensure_batch_st_step:
  assumes w: "write_ok tr" and e: "ensure_batch_capacity_st av rs now k tr = (r, tr')"
  shows "store_step now tr tr' \<and> (\<forall>x. r = Inl x \<longrightarrow> x = Runtime_Error)"
proof -
  define tr0 where "tr0 = resolve_job_store_capacity (length (m_data tr)) tr"
  have w0: "write_ok tr0" using w by (simp add: write_ok_def tr0_def)
  have lift: "store_step now tr tr'" if "store_step now tr0 tr1" "tr' = tr1\<lparr>m_data_capacity := m_data_capacity tr'\<rparr>" for tr1
    using that resolve_keeps(1)[of tr "length (m_data tr)"]
    by (cases tr') (auto simp: store_step_def tr0_def reclaims_resolve dropped_def same_account_def write_ok_def)
  show ?thesis
  proof (cases "reclaim_front_jobs now k False tr0")
    case (Inl x)
    have "store_step now tr0 tr0" using w0 by (auto simp: store_step_def reclaims_def intro!: exI[of _ 0] dropped_0)
    then have "store_step now tr tr'"
      using e Inl by (intro lift[of tr0]) (auto simp: ensure_batch_capacity_st_def tr0_def[symmetric] Let_def)
    then show ?thesis using e Inl reclaim_front_error[OF w0 Inl] by (auto simp: ensure_batch_capacity_st_def tr0_def[symmetric] Let_def)
  next
    case (Inr tr1)
    have "store_step now tr tr'"
      using e Inr by (intro lift[OF reclaim_front_step[OF w0 Inr]])
        (auto simp: ensure_batch_capacity_st_def tr0_def[symmetric] Let_def split: sum.splits if_splits)
    moreover have "\<forall>x. r = Inl x \<longrightarrow> x = Runtime_Error"
      using e Inr by (auto simp: ensure_batch_capacity_st_def tr0_def[symmetric] check_memory_pressure_def Let_def
          split: sum.splits if_splits)
    ultimately show ?thesis by blast
  qed
qed

lemma append_jobs_st_step:
  assumes "write_ok tr" "append_jobs_st av rs now reqs tr = (r, tr')"
  shows "case r of
      Inl e \<Rightarrow> e = Runtime_Error \<and> (if nondecreasing (map ar_submit_time reqs) then store_step now tr tr' else tr' = tr)
    | Inr ids \<Rightarrow> nondecreasing (map ar_submit_time reqs) \<and> ids = [num_jobs tr..<num_jobs tr + length reqs] \<and>
        (\<exists>tr1. store_step now tr tr1 \<and> stored tr1 (map request_record reqs) tr')"
proof (cases "nondecreasing (map ar_submit_time reqs)")
  case False
  then show ?thesis using assms(2) by (auto simp: append_jobs_st_def)
next
  case True
  obtain r1 tr1 where e: "ensure_batch_capacity_st av rs now (length reqs) tr = (r1, tr1)" by (rule prod.exhaust)
  note st = ensure_batch_st_step[OF assms(1) e]
  show ?thesis
  proof (cases r1)
    case (Inl x)
    then show ?thesis using True assms(2) e st by (auto simp: append_jobs_st_def)
  next
    case (Inr u)
    then obtain ids where p: "push_requests reqs tr1 = (ids, tr')" "r = Inr ids"
      using True assms(2) e by (auto simp: append_jobs_st_def split: prod.splits)
    have "num_jobs tr1 = num_jobs tr" using st num_jobs_dropped by (auto simp: store_step_def)
    then show ?thesis using True p(2) st push_requests_law[OF p(1)] by auto
  qed
qed

lemma load_next_step:
  assumes "write_ok tr" "load_next_file av rs now content tr = Inr (ids, tr')"
  shows "tr' = tr \<or> (\<exists>tr1 js. store_step now tr tr1 \<and> stored tr1 js tr')"
proof (cases "content = Some []")
  case False
  then obtain js tr1 where "ensure_batch_capacity av rs now (length js) tr = Inr tr1" "stored tr1 js tr'"
    using assms(2) by (fastforce simp: load_next_file_def Let_def stored_def same_account_def split: option.splits if_splits sum.splits)
  then have "store_step now tr tr1" "stored tr1 js tr'"
    using ensure_batch_st_step[OF assms(1) surjective_pairing, where av = av and rs = rs and now = now and k = "length js"]
    by (auto simp: ensure_batch_capacity_def result_of_def split: sum.splits)
  then show ?thesis by blast
qed (use assms(2) in \<open>simp add: load_next_file_def\<close>)

lemma stored_new: "stored tr js tr' \<Longrightarrow> k < length js \<Longrightarrow> job_at tr' (num_jobs tr + k) = Inr (js ! k)"
  by (simp add: stored_def job_at_iff num_jobs_def nth_append)

lemma stored_job_at: "stored tr js tr' \<Longrightarrow> i < num_jobs tr \<Longrightarrow> job_at tr' i = job_at tr i"
  by (auto simp: stored_def job_at_def num_jobs_def Let_def nth_append)

lemma store_step_job_at: "store_step now tr tr' \<Longrightarrow> m_num_reclaimed tr' \<le> i \<Longrightarrow> job_at tr' i = job_at tr i"
  using job_at_dropped by (fastforce simp: store_step_def dropped_def)

section \<open>The accounting invariant\<close>

definition nodes_of :: "'g trace \<Rightarrow> job_no \<Rightarrow> num_nodes" where
  "nodes_of tr i = (case job_at tr i of Inl _ \<Rightarrow> 0 | Inr j \<Rightarrow> m_num_nodes j)"

definition event_nodes :: "'g trace \<Rightarrow> dr_event_kind \<Rightarrow> dr_event \<Rightarrow> num_nodes" where
  "event_nodes tr k e =
     (if ev_kind e \<noteq> k then 0 else if k = Release then ev_nodes e else nodes_of tr (ev_job e))"

text \<open>The nodes of the pending events of one kind.\<close>

definition pend :: "'g trace \<Rightarrow> dr_event_kind \<Rightarrow> dr_event list \<Rightarrow> num_nodes" where
  "pend tr k q = sum_list (map (event_nodes tr k) q)"

definition event_ok :: "'g trace \<Rightarrow> dr_event \<Rightarrow> bool" where
  "event_ok tr e \<longleftrightarrow> ev_kind e = Release \<or>
     (case job_at tr (ev_job e) of
        Inl _ \<Rightarrow> False
      | Inr j \<Rightarrow> m_t_submit j \<noteq> unscheduled_sentinel \<and> ev_time e \<le> convert_epoch (m_t_end j))"

definition queue_ok :: "dr_event list \<Rightarrow> bool" where
  "queue_ok q \<longleftrightarrow> evtq_ok q \<and> distinct (map (\<lambda>e. (ev_job e, ev_kind e)) q) \<and>
     (\<forall>e\<in>set q. ev_kind e = Departure \<longrightarrow> (ev_job e, Release) \<notin> (\<lambda>e. (ev_job e, ev_kind e)) ` set q)"

definition trace_ok :: "'g trace \<Rightarrow> bool" where
  "trace_ok tr \<longleftrightarrow> write_ok tr \<and> queue_ok (m_evtq tr) \<and> (\<forall>e\<in>set (m_evtq tr). event_ok tr e) \<and>
     m_n_nodes_in_use tr + pend tr Arrival (m_evtq tr) = pend tr Departure (m_evtq tr) \<and>
     m_n_nodes_releasing tr = pend tr Release (m_evtq tr)"

lemma new_trace_ok: "trace_ok (new_trace mode rng)"
  by (simp add: trace_ok_def new_trace_def write_ok_def queue_ok_def evtq_ok_def pend_def)

lemma pend_cong: "(\<And>e. e \<in> set q \<Longrightarrow> ev_kind e \<noteq> Release \<Longrightarrow> job_at tr' (ev_job e) = job_at tr (ev_job e)) \<Longrightarrow> pend tr' k q = pend tr k q"
  unfolding pend_def by (intro arg_cong[of _ _ sum_list] map_cong) (auto simp: event_nodes_def nodes_of_def)

lemma pend_insert:
  "ev_key e \<notin> ev_key ` set q \<Longrightarrow> pend tr k (evtq_insert e q) = event_nodes tr k e + pend tr k q"
  using evtq_insert_mset[of e q] unfolding pend_def by (simp flip: sum_mset_sum_list)

text \<open>An operation that keeps the pending records keeps the invariant.\<close>

lemma trace_ok_keep:
  assumes "trace_ok tr" "same_account tr tr'" "write_ok tr'"
    and "\<And>e. e \<in> set (m_evtq tr) \<Longrightarrow> ev_kind e \<noteq> Release \<Longrightarrow> job_at tr' (ev_job e) = job_at tr (ev_job e)"
  shows "trace_ok tr'"
proof -
  have "event_ok tr' e" if "e \<in> set (m_evtq tr)" for e
    using assms(1,4) that by (cases "ev_kind e = Release") (auto simp: trace_ok_def event_ok_def)
  then show ?thesis using assms(1-3) pend_cong[of "m_evtq tr" tr' tr] assms(4)
    by (simp add: trace_ok_def same_account_def)
qed

lemma pending_job:
  "trace_ok tr \<Longrightarrow> e \<in> set (m_evtq tr) \<Longrightarrow> ev_kind e \<noteq> Release \<Longrightarrow>
   \<exists>j. job_at tr (ev_job e) = Inr j \<and> m_t_submit j \<noteq> unscheduled_sentinel \<and> ev_time e \<le> convert_epoch (m_t_end j)"
  by (cases "job_at tr (ev_job e)") (force simp: trace_ok_def event_ok_def)+

text \<open>A reclaimable record has no pending event.\<close>

lemma pending_not_reclaimable:
  assumes "trace_ok tr" "e \<in> set (m_evtq tr)" "ev_kind e \<noteq> Release"
    "job_at tr (ev_job e) = Inr j"
  shows "\<not> is_job_reclaimable tr (ev_job e) j now"
proof
  assume a: "is_job_reclaimable tr (ev_job e) j now"
  have e: "m_t_submit j \<noteq> unscheduled_sentinel" "ev_time e \<le> convert_epoch (m_t_end j)"
    using assms by (auto simp: trace_ok_def event_ok_def)
  obtain f q where q: "m_evtq tr = f # q" using assms(2) by (cases "m_evtq tr") auto
  have "ev_time f \<le> ev_time e"
    using assms(1,2) q evtq_front_least[of f q e] by (auto simp: trace_ok_def queue_ok_def)
  then show False using a e q by (auto simp: is_job_reclaimable_def split: if_splits)
qed

lemma store_step_ok:
  assumes "trace_ok tr" "store_step now tr tr'"
  shows "trace_ok tr'"
proof -
  obtain n where n: "reclaims tr now n" "dropped n tr tr'" using assms(2) by (auto simp: store_step_def)
  show ?thesis
  proof (rule trace_ok_keep[OF assms(1)])
    fix e
    assume e: "e \<in> set (m_evtq tr)" "ev_kind e \<noteq> Release"
    obtain j where j: "job_at tr (ev_job e) = Inr j"
      using pending_job[OF assms(1) e] by blast
    have "\<not> ev_job e < m_num_reclaimed tr + n"
    proof
      assume "ev_job e < m_num_reclaimed tr + n"
      then have "ev_job e - m_num_reclaimed tr < n" "m_num_reclaimed tr \<le> ev_job e" "j = m_data tr ! (ev_job e - m_num_reclaimed tr)"
        using j by (auto simp: job_at_iff)
      then have "is_job_reclaimable tr (ev_job e) j now" using n(1) by (auto simp: reclaims_def)
      then show False using pending_not_reclaimable[OF assms(1) e j] by blast
    qed
    then show "job_at tr' (ev_job e) = job_at tr (ev_job e)" using job_at_dropped[OF n(2)] by simp
  qed (use assms(2) in \<open>auto simp: store_step_def\<close>)
qed

lemma event_ok_stored: "trace_ok tr \<Longrightarrow> e \<in> set (m_evtq tr) \<Longrightarrow> ev_kind e \<noteq> Release \<Longrightarrow> ev_job e < num_jobs tr"
  using pending_job[of tr e] by (auto simp: job_at_iff)

lemma stored_ok: "trace_ok tr \<Longrightarrow> stored tr js tr' \<Longrightarrow> trace_ok tr'"
  by (rule trace_ok_keep[of tr]) (auto simp: stored_def write_ok_def trace_ok_def event_ok_stored stored_job_at)

lemma append_job_ok: "trace_ok tr \<Longrightarrow> append_job now req tr = Inr (i, tr') \<Longrightarrow> trace_ok tr'"
  using append_job_step[of tr now req i tr'] store_step_ok stored_ok by (metis trace_ok_def)

subsection \<open>Processing an event\<close>

lemma queue_ok_tl: "queue_ok (e # q) \<Longrightarrow> queue_ok q"
  using evtq_tl_ok by (auto simp: queue_ok_def)

lemma queue_ok_insert:
  assumes "queue_ok q" "(ev_job e, ev_kind e) \<notin> (\<lambda>e. (ev_job e, ev_kind e)) ` set q"
    "ev_kind e = Release \<Longrightarrow> (ev_job e, Departure) \<notin> (\<lambda>e. (ev_job e, ev_kind e)) ` set q"
    "ev_kind e = Departure \<Longrightarrow> (ev_job e, Release) \<notin> (\<lambda>e. (ev_job e, ev_kind e)) ` set q"
  shows "ev_key e \<notin> ev_key ` set q" "queue_ok (evtq_insert e q)"
proof -
  show k: "ev_key e \<notin> ev_key ` set q" using assms(2) by (force simp: ev_key_eq)
  have m: "mset (evtq_insert e q) = mset (e # q)" using evtq_insert_mset[OF k] by simp
  have st: "set (evtq_insert e q) = insert e (set q)" using m by (metis set_mset_mset list.simps(15))
  have "distinct (map (\<lambda>e. (ev_job e, ev_kind e)) (evtq_insert e q)) = distinct (map (\<lambda>e. (ev_job e, ev_kind e)) (e # q))"
    using m by (intro mset_eq_imp_distinct_iff) (simp only: mset_map)
  then have d: "distinct (map (\<lambda>e. (ev_job e, ev_kind e)) (evtq_insert e q))" using assms(1,2) by (simp add: queue_ok_def)
  have "(ev_job f, Release) \<notin> (\<lambda>e. (ev_job e, ev_kind e)) ` insert e (set q)" if "f \<in> insert e (set q)" "ev_kind f = Departure" for f
    using that assms(1,3,4) by (force simp: queue_ok_def image_iff)
  then show "queue_ok (evtq_insert e q)"
    using d assms(1) evtq_insert_ok[of q e] by (simp only: queue_ok_def st) blast
qed

lemma pend_Cons [simp]: "pend tr k (e # q) = event_nodes tr k e + pend tr k q"
  by (simp add: pend_def)

lemma pend_evtq [simp]: "pend (tr\<lparr>m_evtq := q'\<rparr>) k q = pend tr k q"
  by (rule pend_cong) simp

text \<open>The invariant over the parts of the state it reads.\<close>

lemma trace_okI:
  assumes "write_ok tr" "m_data tr' = m_data tr" "m_num_reclaimed tr' = m_num_reclaimed tr"
    "m_next_job_to_write tr' = m_next_job_to_write tr" "queue_ok (m_evtq tr')"
    "\<And>e. e \<in> set (m_evtq tr') \<Longrightarrow> event_ok tr e"
    "m_n_nodes_in_use tr' + pend tr Arrival (m_evtq tr') = pend tr Departure (m_evtq tr')"
    "m_n_nodes_releasing tr' = pend tr Release (m_evtq tr')"
  shows "trace_ok tr'"
proof -
  have j: "job_at tr' i = job_at tr i" for i using assms(2,3) by (rule job_at_cong)
  then have "pend tr' k q = pend tr k q" for k q by (intro pend_cong)
  then show ?thesis using assms j by (simp add: trace_ok_def event_ok_def write_ok_def)
qed

lemma finish_job_nodes_ok:
  assumes ok: "trace_ok tr" and q: "m_evtq tr = e # q" and k: "ev_kind e = Departure"
    and n: "n = nodes_of tr (ev_job e)"
  shows "trace_ok (finish_job_nodes dm (ev_job e) (ev_time e) n (tr\<lparr>m_evtq := q\<rparr>))"
proof -
  have t: "queue_ok (e # q)" "queue_ok q" using ok q queue_ok_tl by (auto simp: trace_ok_def)
  have nk: "(ev_job e, Release) \<notin> (\<lambda>e. (ev_job e, ev_kind e)) ` set q"
    "(ev_job e, Departure) \<notin> (\<lambda>e. (ev_job e, ev_kind e)) ` set q"
    using t(1) k by (auto simp: queue_ok_def)
  note ins = queue_ok_insert[OF t(2), of "release_event (ev_job e) u n" for u,
      unfolded release_event_def job_event_def, simplified, OF nk(1), OF nk(2)]
  have a: "m_n_nodes_in_use tr + pend tr Arrival q = n + pend tr Departure q" "m_n_nodes_releasing tr = pend tr Release q"
    using ok q k n by (simp_all add: trace_ok_def event_nodes_def)
  have ev: "event_ok tr f" if "f \<in> set q" for f using ok q that by (simp add: trace_ok_def)
  have w: "write_ok tr" using ok by (simp add: trace_ok_def)
  show ?thesis
  proof (rule trace_okI[OF w])
    fix f assume "f \<in> set (m_evtq (finish_job_nodes dm (ev_job e) (ev_time e) n (tr\<lparr>m_evtq := q\<rparr>)))"
    then show "event_ok tr f"
      using ev evtq_insert_set[of "release_event (ev_job e) u n" q for u]
      by (fastforce simp: finish_job_nodes_def Let_def release_event_def job_event_def event_ok_def split: prod.splits if_splits)
  qed (use t(2) a ins in \<open>auto simp: finish_job_nodes_def release_event_def job_event_def Let_def pend_insert
        event_nodes_def algebra_simps split: prod.splits\<close>)
qed

lemma account_event_ok:
  assumes ok: "trace_ok tr" and q: "m_evtq tr = e # q"
  shows "\<exists>tr'. account_event dm e (tr\<lparr>m_evtq := q\<rparr>) = Inr tr' \<and> trace_ok tr'"
proof (cases "ev_kind e = Release")
  case True
  have t: "queue_ok q" using ok q queue_ok_tl by (auto simp: trace_ok_def)
  have "trace_ok (tr\<lparr>m_evtq := q, m_n_nodes_releasing := m_n_nodes_releasing tr - ev_nodes e\<rparr>)"
    using ok q t True by (intro trace_okI[of tr]) (auto simp: trace_ok_def event_nodes_def)
  then show ?thesis using True by (simp add: account_event_def)
next
  case False
  obtain j where j: "job_at tr (ev_job e) = Inr j" using pending_job[OF ok, of e] q False by auto
  then have j': "job_at (tr\<lparr>m_evtq := q\<rparr>) (ev_job e) = Inr j" by simp
  have n: "m_num_nodes j = nodes_of tr (ev_job e)" using j by (simp add: nodes_of_def)
  have t: "queue_ok q" using ok q queue_ok_tl by (auto simp: trace_ok_def)
  show ?thesis
  proof (cases "ev_kind e")
    case Arrival
    then have "trace_ok (tr\<lparr>m_evtq := q, m_n_nodes_in_use := m_n_nodes_in_use tr + m_num_nodes j\<rparr>)"
      using ok q t n by (intro trace_okI[of tr]) (auto simp: trace_ok_def event_nodes_def algebra_simps)
    then show ?thesis using Arrival j' by (simp add: account_event_def)
  next
    case Departure
    then show ?thesis using finish_job_nodes_ok[OF ok q Departure n] j' by (simp add: account_event_def)
  qed (use False in simp)
qed

lemma trace_ok_irrelevant:
  "trace_ok tr \<Longrightarrow> trace_ok (tr\<lparr>m_departures_since_job_flush := n\<rparr>)"
  "trace_ok tr \<Longrightarrow> trace_ok (record_resource_sample t a tr)"
  by (rule trace_okI[of tr]; simp add: trace_ok_def)+

lemma process_single_event_ok:
  assumes "trace_ok tr"
  shows "\<exists>tr'. process_single_event dm tr = Inr (m_evtq tr \<noteq> [], tr') \<and> trace_ok tr'"
proof (cases "m_evtq tr")
  case Nil
  then show ?thesis using assms by (simp add: process_single_event_def)
next
  case (Cons e q)
  obtain tr1 where t1: "account_event dm e (tr\<lparr>m_evtq := q\<rparr>) = Inr tr1" "trace_ok tr1"
    using account_event_ok[OF assms Cons] by blast
  define tr2 where "tr2 = record_resource_sample (ev_time e) (m_n_nodes_in_use tr1) tr1"
  define tr3 where "tr3 = (if ev_kind e = Departure \<and> simulated_trace_output_active tr2 \<and>
      m_departures_since_job_flush tr2 < effective_job_flush_interval tr2
    then tr2\<lparr>m_departures_since_job_flush := m_departures_since_job_flush tr2 + 1\<rparr> else tr2)"
  have t3: "trace_ok tr3" using t1(2) by (simp add: tr3_def tr2_def trace_ok_irrelevant)
  obtain tr4 where t4: "flush_completed_jobs_impl (ev_time e) tr3 = Inr tr4" "store_step (ev_time e) tr3 tr4"
    using flush_total[of tr3] t3 by (auto simp: trace_ok_def)
  have "process_single_event dm tr =
      (if simulated_trace_output_active tr3 \<and> (m_evtq tr2 = [] \<or> ev_time e < ev_time (hd (m_evtq tr2))) \<and>
          m_departures_since_job_flush tr3 \<ge> effective_job_flush_interval tr3 then Inr (True, tr4) else Inr (True, tr3))"
    unfolding process_single_event_def Cons list.case t1(1) sum.case Let_def tr2_def[symmetric] tr3_def[symmetric] t4(1) ..
  then show ?thesis using store_step_ok[OF t3 t4(2)] t3 Cons by auto
qed

subsection \<open>Starting a job\<close>

definition timed_record :: "job_record \<Rightarrow> job_record" where
  "timed_record j = (if m_actual_run_time j \<le> 0 then j\<lparr>m_actual_run_time := limit_time j\<rparr> else j)"

definition started_record :: "sim_time \<Rightarrow> job_record \<Rightarrow> job_record" where
  "started_record t j = compute_end_time (set_begin_time (to_epoch t) (timed_record j))"

text \<open>The single-precision record of the completion is not before the event that completes the job.\<close>

definition exact_end :: "sim_time \<Rightarrow> job_record \<Rightarrow> bool" where
  "exact_end t j \<longleftrightarrow> t \<le> convert_epoch (m_t_end (started_record t j)) \<and>
     t + m_actual_run_time (timed_record j) \<le> convert_epoch (m_t_end (started_record t j))"

lemma exact_end_whole:
  assumes "0 \<le> s" "0 \<le> d" "s + d \<le> 9007199254740992" "m_actual_run_time (timed_record j) = dbl d"
  shows "exact_end (dbl s) j"
proof -
  have "convert_epoch (m_t_end (started_record (dbl s) j)) = dbl s + dbl d"
    unfolding started_record_def
    by (rule end_time_whole[OF assms(1-3)]) (simp_all add: set_begin_time_def assms(4))
  moreover have "dbl s + dbl d = dbl (s + d)" "dbl s \<le> dbl (s + d)" using assms by (simp_all add: dbl_simps)
  ultimately show ?thesis by (simp add: exact_end_def assms(4))
qed

lemma started_record_simps [simp]:
  "m_num_nodes (started_record t j) = m_num_nodes j" "m_t_submit (started_record t j) = m_t_submit j"
  by (simp_all add: started_record_def timed_record_def compute_end_time_def set_begin_time_def Let_def)

definition start_events :: "job_no \<Rightarrow> sim_time \<Rightarrow> job_record \<Rightarrow> dr_event list \<Rightarrow> dr_event list" where
  "start_events i t j q = evtq_insert (job_event i (t + m_actual_run_time (timed_record j)) Departure)
     (evtq_insert (job_event i t Arrival) q)"

lemma insert_job_eq:
  "job_at tr i = Inr j \<Longrightarrow> insert_job i t tr = Inr ((set_job i (started_record t j) tr)
     \<lparr>m_evtq := start_events i t j (m_evtq tr), m_replay_jobs_enqueued := max (m_replay_jobs_enqueued tr) (i + 1)\<rparr>)"
  by (simp add: insert_job_def Let_def started_record_def timed_record_def start_events_def)

lemma job_at_set_job:
  "job_at tr i = Inr j \<Longrightarrow> job_at (set_job i j' tr) k = (if k = i then Inr j' else job_at tr k)"
  by (auto simp: job_at_def set_job_def Let_def nth_list_update split: if_splits)

lemma insert_job_ok:
  assumes ok: "trace_ok tr" and j: "job_at tr i = Inr j" "m_t_submit j \<noteq> unscheduled_sentinel"
    and new: "i \<notin> ev_job ` set (m_evtq tr)" and ex: "exact_end t j"
  shows "\<exists>tr'. insert_job i t tr = Inr tr' \<and> trace_ok tr'"
proof -
  let ?q = "m_evtq tr" and ?a = "job_event i t Arrival" and ?d = "job_event i (t + m_actual_run_time (timed_record j)) Departure"
  define tr1 where "tr1 = set_job i (started_record t j) tr"
  have at: "job_at tr1 k = (if k = i then Inr (started_record t j) else job_at tr k)" for k
    using job_at_set_job[OF j(1)] by (simp add: tr1_def)
  have n1: "m_n_nodes_in_use tr1 = m_n_nodes_in_use tr" "m_n_nodes_releasing tr1 = m_n_nodes_releasing tr"
    by (simp_all add: tr1_def set_job_def)
  have q: "queue_ok ?q" and w: "write_ok tr1" using ok by (auto simp: trace_ok_def tr1_def set_job_def write_ok_def)
  have qa: "ev_key ?a \<notin> ev_key ` set ?q" "queue_ok (evtq_insert ?a ?q)"
    using queue_ok_insert[OF q, of ?a] new by (auto simp: job_event_def)
  have sa: "set (evtq_insert ?a ?q) = insert ?a (set ?q)"
    using evtq_insert_mset[OF qa(1)] by (metis set_mset_add_mset_insert set_mset_mset)
  have qd: "ev_key ?d \<notin> ev_key ` set (evtq_insert ?a ?q)" "queue_ok (start_events i t j ?q)"
    using queue_ok_insert[OF qa(2), of ?d] new unfolding sa start_events_def by (auto simp: job_event_def)
  have p0: "pend tr1 k ?q = pend tr k ?q" for k using new at by (intro pend_cong) auto
  have p: "pend tr1 k (start_events i t j ?q) = event_nodes tr1 k ?d + (event_nodes tr1 k ?a + pend tr k ?q)" for k
    unfolding start_events_def pend_insert[OF qd(1)] pend_insert[OF qa(1)] p0 ..
  have ev: "event_ok tr1 e" if "e \<in> set (start_events i t j ?q)" for e
  proof -
    have "e = ?d \<or> e = ?a \<or> e \<in> set ?q" using that evtq_insert_set[of ?d] sa by (auto simp: start_events_def)
    moreover have "event_ok tr1 ?d" "event_ok tr1 ?a"
      using ex j(2) by (auto simp: event_ok_def job_event_def at exact_end_def)
    moreover have "event_ok tr1 e" if "e \<in> set ?q" using that ok new by (auto simp: trace_ok_def event_ok_def at)
    ultimately show ?thesis by blast
  qed
  have "trace_ok (tr1\<lparr>m_evtq := start_events i t j ?q, m_replay_jobs_enqueued := max (m_replay_jobs_enqueued tr) (i + 1)\<rparr>)"
    using ok qd(2) ev
    by (intro trace_okI[OF w]) (auto simp: p trace_ok_def n1 event_nodes_def job_event_def nodes_of_def at algebra_simps)
  then show ?thesis by (simp add: insert_job_eq[OF j(1)] tr1_def)
qed

subsection \<open>Reachable traces\<close>

subsection \<open>Running events up to a time\<close>

lemma process_loop_ok:
  "trace_ok tr \<Longrightarrow> \<exists>d' tr'. process_loop dm t d tr = Inr (d', tr') \<and> trace_ok tr' \<and>
   (m_evtq tr' = [] \<or> t < ev_time (hd (m_evtq tr')))"
proof (induction dm t d tr rule: process_loop.induct)
  case (1 dm t d tr)
  show ?case
  proof (cases "m_evtq tr")
    case Nil
    then show ?thesis using 1(2) by (simp add: process_loop.simps[of dm t d tr])
  next
    case (Cons e q)
    show ?thesis
    proof (cases "t < ev_time e")
      case True
      then show ?thesis using 1(2) Cons by (simp add: process_loop.simps[of dm t d tr])
    next
      case False
      obtain tr1 where a: "account_event dm e (tr\<lparr>m_evtq := q\<rparr>) = Inr tr1" "trace_ok tr1"
        using account_event_ok[OF 1(2) Cons] by blast
      have "trace_ok (record_resource_sample (ev_time e) (m_n_nodes_in_use tr1) tr1)"
        using a(2) by (rule trace_ok_irrelevant)
      then show ?thesis using 1(1)[OF Cons False a(1)] Cons False a(1) by (simp add: process_loop.simps[of dm t d tr])
    qed
  qed
qed

lemma maybe_flush_ok:
  assumes "trace_ok tr"
  shows "\<exists>tr'. maybe_flush_completed_jobs now d tr = Inr tr' \<and> trace_ok tr' \<and> m_evtq tr' = m_evtq tr"
proof -
  have "\<exists>tr'. flush_completed_jobs_impl now (tr\<lparr>m_departures_since_job_flush := n\<rparr>) = Inr tr' \<and> trace_ok tr' \<and>
      m_evtq tr' = m_evtq tr" for n
  proof -
    have ok: "trace_ok (tr\<lparr>m_departures_since_job_flush := n\<rparr>)" using assms by (rule trace_ok_irrelevant)
    then obtain tr' where "flush_completed_jobs_impl now (tr\<lparr>m_departures_since_job_flush := n\<rparr>) = Inr tr'"
      "store_step now (tr\<lparr>m_departures_since_job_flush := n\<rparr>) tr'"
      using flush_total by (metis trace_ok_def)
    then show ?thesis using store_step_ok[OF ok] by (auto simp: store_step_def same_account_def)
  qed
  then show ?thesis using assms trace_ok_irrelevant(1)[OF assms] by (simp add: maybe_flush_completed_jobs_def Let_def)
qed

lemma process_events_until_ok:
  assumes "trace_ok tr"
  shows "\<exists>tr'. process_events_until dm t tr = Inr tr' \<and> trace_ok tr' \<and> (m_evtq tr' = [] \<or> t < ev_time (hd (m_evtq tr')))"
proof -
  obtain d tr1 where a: "process_loop dm t 0 tr = Inr (d, tr1)" "trace_ok tr1" "m_evtq tr1 = [] \<or> t < ev_time (hd (m_evtq tr1))"
    using process_loop_ok[OF assms] by blast
  then show ?thesis using assms maybe_flush_ok[OF a(2), of t d] by (auto simp: process_events_until_def)
qed

lemma run_until_inclusive_ok:
  "trace_ok tr \<Longrightarrow> \<exists>tr'. run_until_inclusive dm t tr = Inr tr' \<and> trace_ok tr' \<and> (\<forall>e\<in>set (m_evtq tr'). t < ev_time e)"
proof (induction dm t tr rule: run_until_inclusive.induct)
  case (1 dm t tr)
  show ?case
  proof (cases "m_evtq tr")
    case Nil
    then show ?thesis using 1(2) by (simp add: run_until_inclusive.simps[of dm t tr])
  next
    case (Cons e q)
    show ?thesis
    proof (cases "ev_time e > t")
      case True
      have "\<forall>f\<in>set (m_evtq tr). t < ev_time f"
        using True Cons 1(2) evtq_front_least[of e q] by (auto simp: trace_ok_def queue_ok_def intro: less_le_trans)
      then show ?thesis using 1(2) Cons True by (simp add: run_until_inclusive.simps[of dm t tr])
    next
      case False
      obtain tr1 where a: "process_events_until dm (ev_time e) tr = Inr tr1" "trace_ok tr1"
        using process_events_until_ok[OF 1(2)] by blast
      then show ?thesis using 1(1)[of "ev_time e" tr1] Cons False by (simp add: run_until_inclusive.simps[of dm t tr])
    qed
  qed
qed

section \<open>Reachable traces\<close>

text \<open>What is done with a trace, in any order: configure it (the store, the release delay, the outputs), submit jobs one by
  one or in batches that may be refused, load a further file, start a submitted job at a whole second for a whole number of
  seconds, process one event or all events up to a time, flush the completed jobs, and change the capacity that samples
  report.\<close>

inductive trace_step :: "'g delay_math \<Rightarrow> 'g trace \<Rightarrow> 'g trace \<Rightarrow> bool" for dm where
  store_capacity: "trace_step dm tr (set_job_store_capacity n tr)"
| store_overflow: "trace_step dm tr (set_job_store_overflow pol tr)"
| flush_interval: "trace_step dm tr (set_job_flush_interval n tr)"
| memory_fraction: "trace_step dm tr (set_memory_pressure_fraction x tr)"
| history_capacity: "trace_step dm tr (set_resource_history_capacity n tr)"
| release_delay: "trace_step dm tr (set_node_release_delay model tr)"
| release_delay_from: "trace_step dm tr (set_node_release_delay_from t tr)"
| open_jobs: "trace_step dm tr (start_simulated_trace opens tr)"
| open_resources: "trace_step dm tr (start_resource_trace opens nodes tr)"
| reset_capacity: "trace_step dm tr (reset_resource_capacity nodes tr)"
| reset_recording: "trace_step dm tr (reset_resource_recording t tr)"
| append: "append_job now req tr = Inr (i, tr') \<Longrightarrow> trace_step dm tr tr'"
| append_batch: "append_jobs_st available record_size now reqs tr = (r, tr') \<Longrightarrow> trace_step dm tr tr'"
| load_file: "load_next_file available record_size now content tr = Inr (ids, tr') \<Longrightarrow> trace_step dm tr tr'"
| begin_job: "job_at tr i = Inr j \<Longrightarrow> m_t_submit j \<noteq> unscheduled_sentinel \<Longrightarrow> i \<notin> ev_job ` set (m_evtq tr) \<Longrightarrow>
     m_actual_run_time (timed_record j) = dbl d \<Longrightarrow> 0 \<le> s \<Longrightarrow> 0 \<le> d \<Longrightarrow> s + d \<le> 9007199254740992 \<Longrightarrow>
     insert_job i (dbl s) tr = Inr tr' \<Longrightarrow> trace_step dm tr tr'"
| event: "process_single_event dm tr = Inr (b, tr') \<Longrightarrow> trace_step dm tr tr'"
| run_to: "run_until_inclusive dm t tr = Inr tr' \<Longrightarrow> trace_step dm tr tr'"
| run_before: "run_until_exclusive dm t tr = Inr tr' \<Longrightarrow> trace_step dm tr tr'"
| flush: "flush_completed_jobs_impl now tr = Inr tr' \<Longrightarrow> trace_step dm tr tr'"
| capacity: "trace_step dm tr (set_resource_capacity t cap tr)"

inductive trace_reachable :: "'g delay_math \<Rightarrow> 'g trace \<Rightarrow> bool" for dm where
  init: "trace_reachable dm (new_trace mode rng)"
| step: "trace_reachable dm tr \<Longrightarrow> trace_step dm tr tr' \<Longrightarrow> trace_reachable dm tr'"

text \<open>A configuration step changes nothing that the invariant reads.\<close>

lemma configure_ok:
  assumes "trace_ok tr"
  shows "trace_ok (set_job_store_capacity n tr)" "trace_ok (set_job_store_overflow pol tr)" "trace_ok (set_job_flush_interval n tr)"
    "trace_ok (set_memory_pressure_fraction x tr)" "trace_ok (set_resource_history_capacity n tr)"
    "trace_ok (set_node_release_delay model tr)" "trace_ok (set_node_release_delay_from t tr)"
    "trace_ok (start_simulated_trace opens tr)" "trace_ok (start_resource_trace opens nodes tr)"
    "trace_ok (reset_resource_capacity nodes tr)" "trace_ok (reset_resource_recording t tr)"
proof -
  have keep: "trace_ok tr'" if "m_data tr' = m_data tr" "m_num_reclaimed tr' = m_num_reclaimed tr"
    "m_next_job_to_write tr' = m_next_job_to_write tr" "m_evtq tr' = m_evtq tr" "m_n_nodes_in_use tr' = m_n_nodes_in_use tr"
    "m_n_nodes_releasing tr' = m_n_nodes_releasing tr" for tr' :: "'a trace"
    using assms that by (intro trace_okI[of tr]) (simp_all add: trace_ok_def)
  show "trace_ok (set_job_store_capacity n tr)" "trace_ok (set_job_store_overflow pol tr)" "trace_ok (set_job_flush_interval n tr)"
    "trace_ok (set_memory_pressure_fraction x tr)" "trace_ok (set_resource_history_capacity n tr)"
    "trace_ok (set_node_release_delay model tr)" "trace_ok (set_node_release_delay_from t tr)"
    "trace_ok (start_simulated_trace opens tr)" "trace_ok (start_resource_trace opens nodes tr)"
    "trace_ok (reset_resource_capacity nodes tr)" "trace_ok (reset_resource_recording t tr)"
    by (rule keep; simp add: set_job_store_capacity_def set_job_store_overflow_def set_job_flush_interval_def
        set_memory_pressure_fraction_def set_resource_history_capacity_def set_node_release_delay_def
        set_node_release_delay_from_def start_simulated_trace_def start_resource_trace_def reset_resource_capacity_def
        reset_resource_recording_def Let_def)+
qed

lemma set_resource_capacity_ok: "trace_ok tr \<Longrightarrow> trace_ok (set_resource_capacity t cap tr)"
  unfolding set_resource_capacity_def Let_def
  by (intro trace_ok_irrelevant(2)) (rule trace_okI[of tr], simp_all add: trace_ok_def)

lemma append_jobs_st_ok: "trace_ok tr \<Longrightarrow> append_jobs_st av rs now reqs tr = (r, tr') \<Longrightarrow> trace_ok tr'"
proof -
  assume ok: "trace_ok tr" and a: "append_jobs_st av rs now reqs tr = (r, tr')"
  then have w: "write_ok tr" by (simp add: trace_ok_def)
  from append_jobs_st_step[OF w a] ok show ?thesis
    by (cases r) (auto intro: store_step_ok stored_ok split: if_splits)
qed

lemma load_next_ok: "trace_ok tr \<Longrightarrow> load_next_file av rs now content tr = Inr (ids, tr') \<Longrightarrow> trace_ok tr'"
proof -
  assume ok: "trace_ok tr" and a: "load_next_file av rs now content tr = Inr (ids, tr')"
  then have w: "write_ok tr" by (simp add: trace_ok_def)
  from load_next_step[OF w a] ok show ?thesis by (auto intro: store_step_ok stored_ok)
qed

lemma trace_step_ok: "trace_step dm tr tr' \<Longrightarrow> trace_ok tr \<Longrightarrow> trace_ok tr'"
proof (induction rule: trace_step.induct)
  case (append now req tr i tr')
  then show ?case using append_job_ok by blast
next
  case (begin_job tr i j d s tr')
  then show ?case using insert_job_ok[of tr i j "dbl s"] exact_end_whole by auto
next
  case (event tr b tr')
  then show ?case using process_single_event_ok[of tr dm] by auto
next
  case (run_to t tr tr')
  then show ?case using run_until_inclusive_ok[of tr dm t] by auto
next
  case (run_before t tr tr')
  then show ?case using process_events_until_ok[of tr dm t] by (auto simp: run_until_exclusive_def)
next
  case (flush now tr tr')
  then show ?case using flush_total[of tr now] store_step_ok[of tr now tr'] by (auto simp: trace_ok_def)
qed (auto intro: configure_ok set_resource_capacity_ok append_jobs_st_ok load_next_ok)

lemma trace_reachable_ok: "trace_reachable dm tr \<Longrightarrow> trace_ok tr"
  by (induction rule: trace_reachable.induct) (auto intro: new_trace_ok trace_step_ok)

end
