(* ===== verification/Session.thy ===== *)
theory Session
  imports Scheduler_Interface
begin

text \<open>
  Sessions of a scheduler with two entry points: \<^verbatim>\<open>schedule\<close> at ticks and \<^verbatim>\<open>schedule_event\<close> at state
  events (\<^verbatim>\<open>SchedulerBase\<close> in \<^verbatim>\<open>src/src/sim/scheduler_base.hpp\<close>).  A session is any interleaving of
  submissions, synchronisations, ticks and events; the contract of the two passes gives conservation
  of jobs by rule induction.
\<close>

text \<open>What a pass must do: keep the invariant, advance the clock, and move some arrived pending jobs,
  within the free nodes, to its result.\<close>

definition lawful :: "('s \<Rightarrow> bool) \<Rightarrow> ('s \<Rightarrow> job_entry list) \<Rightarrow> ('s \<Rightarrow> sim_time) \<Rightarrow> 's schedule_fun \<Rightarrow> bool" where
  "lawful ok jobs clock f \<longleftrightarrow> (\<forall>s free running now ids s'. ok s \<longrightarrow> f s free running now = (ids, s') \<longrightarrow>
     ok s' \<and> clock s' = max (clock s) now \<and>
     (\<exists>st. ids = map job_id st \<and> mset (jobs s) = mset st + mset (jobs s') \<and>
        nodes_sum st \<le> unat free \<and> (\<forall>j\<in>set st. submit_time j \<le> clock s')))"

lemma lawfulD:
  assumes "lawful ok jobs clock f" "ok s" "f s free running now = (ids, s')"
  shows "ok s'" "mset (map job_id (jobs s)) = mset ids + mset (map job_id (jobs s'))"
proof -
  from assms show "ok s'" unfolding lawful_def by blast
  from assms obtain st where st: "ids = map job_id st" "mset (jobs s) = mset st + mset (jobs s')"
    unfolding lawful_def by blast
  then show "mset (map job_id (jobs s)) = mset ids + mset (map job_id (jobs s'))" by simp
qed

inductive session ::
  "'s insert_fun \<Rightarrow> ('s \<Rightarrow> sim_time \<Rightarrow> 's) \<Rightarrow> 's schedule_fun \<Rightarrow> 's schedule_fun \<Rightarrow> ('s \<Rightarrow> job_no \<Rightarrow> sim_time \<Rightarrow> bool) \<Rightarrow> 's \<Rightarrow>
   's \<Rightarrow> job_no list \<Rightarrow> job_no list \<Rightarrow> bool"
  for ins syn sch ev pre s0 where
  start: "session ins syn sch ev pre s0 s0 [] []"
| submit: "session ins syn sch ev pre s0 s sub st \<Longrightarrow> pre s i t \<Longrightarrow> ins s i t r n = Inr s' \<Longrightarrow>
    session ins syn sch ev pre s0 s' (i # sub) st"
| sync: "session ins syn sch ev pre s0 s sub st \<Longrightarrow> session ins syn sch ev pre s0 (syn s t) sub st"
| tick: "session ins syn sch ev pre s0 s sub st \<Longrightarrow> sch s free running now = (ids, s') \<Longrightarrow>
    session ins syn sch ev pre s0 s' sub (st @ ids)"
| event: "session ins syn sch ev pre s0 s sub st \<Longrightarrow> ev s free running now = (ids, s') \<Longrightarrow>
    session ins syn sch ev pre s0 s' sub (st @ ids)"

locale event_scheduler = scheduler ins syn sch pre jobs ok clock
  for ins :: "'s insert_fun" and syn sch pre jobs ok clock +
  fixes ev :: "'s schedule_fun"
  assumes ev_law: "lawful ok jobs clock ev"
begin

lemma tick_law: "lawful ok jobs clock sch"
  unfolding lawful_def using sch_law by blast

lemma session_conserves:
  assumes "session ins syn sch ev pre s0 s sub st" "ok s0"
  shows "ok s \<and> mset st + mset (map job_id (jobs s)) = mset (map job_id (jobs s0)) + mset sub"
  using assms
proof (induction rule: session.induct)
  case (submit s sub st i t r n s')
  then have "ok s'" "mset (jobs s') = add_mset (new_entry i t r n) (mset (jobs s))" using ins_law by blast+
  then show ?case using submit by (simp add: new_entry_def)
next
  case (sync s sub st t)
  then show ?case using syn_law[of s t] by simp
next
  case (tick s sub st free running now ids s')
  then show ?case using lawfulD[OF tick_law, of s free running now ids s'] by (simp add: union_assoc)
next
  case (event s sub st free running now ids s')
  then show ?case using lawfulD[OF ev_law, of s free running now ids s'] by (simp add: union_assoc)
qed simp

lemma session_once:
  assumes "session ins syn sch ev pre s0 s sub st" "ok s0" "jobs s0 = []" "distinct sub"
  shows "distinct st \<and> set st \<inter> set (map job_id (jobs s)) = {} \<and> set st \<union> set (map job_id (jobs s)) = set sub"
proof -
  have m: "mset (st @ map job_id (jobs s)) = mset sub" using session_conserves[OF assms(1,2)] assms(3) by simp
  then have "distinct (st @ map job_id (jobs s))" using assms(4) by (metis mset_eq_imp_distinct_iff)
  then show ?thesis using mset_eq_setD[OF m] by simp
qed

end

end
