(* ===== verification/Simulation.thy ===== *)
theory Simulation
  imports Trace_Laws Session
begin

text \<open>
  \<^verbatim>\<open>BasicSimulation<Trace>\<close> (\<^verbatim>\<open>src/src/sim/sim.hpp\<close>, \<^verbatim>\<open>sim.cpp\<close>): job submission, the streaming interface,
  and the event loop \<^verbatim>\<open>advance_to\<close> that drives a scheduler and a trace.  The scheduler object is its
  state and the table of its virtual functions, \<open>scheduler_ops\<close>.  The template parameters of
  \<^verbatim>\<open>advance_to_impl\<close> that \<^verbatim>\<open>advance_to\<close> chooses for the standard schedulers are the four modes of
  \<open>sim_mode\<close>; the custom scheduler, the warm start, progress messages and checkpoints are left out.

  A function whose loop depends on the scheduler may not return: it gives \<open>None\<close> then.  \<open>Some (Inl e)\<close> is an
  exception and \<open>Some (Inr s)\<close> the new state.
\<close>

section \<open>State\<close>

record 's scheduler_ops =
  so_insert_job :: "'s insert_fun"
  so_schedule :: "'s schedule_fun"
  so_schedule_event :: "'s schedule_fun"
  so_sync_to :: "'s \<Rightarrow> sim_time \<Rightarrow> 's"
  so_active_job_count :: "'s \<Rightarrow> nat"
  so_get_next_arrival_time :: "'s \<Rightarrow> sim_time"
  so_has_eligible_jobs :: "'s \<Rightarrow> bool"
  so_can_ever_run :: "'s \<Rightarrow> num_nodes \<Rightarrow> bool"
  so_set_capacity_outlook :: "num_nodes \<Rightarrow> num_nodes \<Rightarrow> capacity_change list \<Rightarrow> 's \<Rightarrow> 's"

record sim_params =
  p_total_nodes :: num_nodes
  p_backfill_interval :: tdiff
  p_dispatch_interval :: tdiff
  p_dispatch_on_events :: bool
  p_planning_time_resolution :: tdiff
  p_job_flush_interval :: nat
  p_resource_history_capacity :: nat
  p_outfile_opens :: bool
  p_resource_trace_opens :: bool
  p_backfill_policy :: backfill_policy
  p_planning_horizon :: tdiff
  p_reservation_depth :: nat
  p_max_jobs :: nat
  p_max_time :: "sim_time option"
  p_infile_list :: bool
  p_checkpoint_file :: bool
  p_checkpoint_interval_jobs :: nat
  p_job_store_capacity :: nat
  p_job_store_overflow :: circular_overflow_policy
  p_memory_pressure_fraction :: double
  p_run_time_mode :: run_time_mode
  p_run_time_distribution :: distribution_type
  p_run_time_scale :: double
  p_run_time_stddev :: double
  p_node_release_delay :: double
  p_node_release_delay_model :: release_delay_model
  p_node_release_delay_spread :: double

text \<open>An optional parameter and the flag that says whether it was given are one field: \<open>p_max_time\<close> is \<^verbatim>\<open>m_max_time\<close>
  when \<^verbatim>\<open>m_is_time_set\<close>, \<open>p_max_jobs\<close> is zero when \<^verbatim>\<open>m_is_jobs_set\<close> is false; of the file names the record keeps
  whether one was given.\<close>

record query_record =
  qr_submit_time :: sim_time
  qr_limit_time :: tdiff
  qr_num_nodes :: num_nodes
  qr_start_time :: sim_time
  qr_end_time :: sim_time
  qr_tracked :: bool
  qr_scheduled :: bool
  qr_rejected :: bool

record ('s, 'g) simulation =
  m_params :: sim_params
  m_trace :: "'g trace"
  m_scheduler :: 's
  m_current_time :: sim_time
  m_next_backfill_evaluation :: sim_time
  m_periodic_backfill_dirty :: bool
  m_job_rejection_capacity :: num_nodes
  m_capacity_changes :: "capacity_change list"
  m_next_capacity_change :: nat
  m_current_capacity :: num_nodes
  m_capacity_area :: tdiff
  m_capacity_area_time :: sim_time
  m_jobs_completed :: nat
  m_jobs_submitted :: nat
  m_jobs_started :: nat
  m_latest_submit_time :: sim_time
  m_jobs_releasing :: "64 word"
  m_running_jobs :: running_jobs
  m_queue_length_sum :: nat
  m_queue_length_samples :: nat
  m_queue_length_peak :: nat
  m_pending_queue_arrivals :: "(sim_time \<times> nat) list"
  m_first_appended_job_idx :: nat
  m_appended_job_query_records :: "query_record list"

definition scheduling_interval :: "sim_params \<Rightarrow> tdiff" where
  "scheduling_interval p = (if 0 < p_dispatch_interval p then p_dispatch_interval p else p_backfill_interval p)"

text \<open>\<^verbatim>\<open>std::map\<close> and \<^verbatim>\<open>std::unordered_map\<close> as association lists: assignment through \<^verbatim>\<open>operator[]\<close>, increment of
  a counter, erasure.\<close>

fun alist_put :: "'k \<Rightarrow> 'v \<Rightarrow> ('k \<times> 'v) list \<Rightarrow> ('k \<times> 'v) list" where
  "alist_put k v [] = [(k, v)]"
| "alist_put k v ((k', v') # xs) = (if k = k' then (k, v) # xs else (k', v') # alist_put k v xs)"

definition alist_inc :: "'k \<Rightarrow> ('k \<times> nat) list \<Rightarrow> ('k \<times> nat) list" where
  "alist_inc k xs = alist_put k (case map_of xs k of None \<Rightarrow> 1 | Some n \<Rightarrow> n + 1) xs"

definition alist_erase :: "'k \<Rightarrow> ('k \<times> 'v) list \<Rightarrow> ('k \<times> 'v) list" where
  "alist_erase k xs = filter (\<lambda>x. fst x \<noteq> k) xs"

section \<open>Node accounting\<close>

definition get_nodes_occupied :: "'g trace \<Rightarrow> num_nodes" where
  "get_nodes_occupied tr = m_n_nodes_in_use tr + m_n_nodes_releasing tr"

definition get_available_nodes :: "('s, 'g) simulation \<Rightarrow> num_nodes" where
  "get_available_nodes s =
     (let occupied = get_nodes_occupied (m_trace s) in
      if occupied < m_current_capacity s then m_current_capacity s - occupied else 0)"

definition publish_capacity_outlook :: "'s scheduler_ops \<Rightarrow> ('s, 'g) simulation \<Rightarrow> ('s, 'g) simulation" where
  "publish_capacity_outlook ops s =
     s\<lparr>m_scheduler := so_set_capacity_outlook ops (m_current_capacity s) (get_nodes_occupied (m_trace s))
         (drop (m_next_capacity_change s) (m_capacity_changes s)) (m_scheduler s)\<rparr>"

definition planning_run_time :: "('s, 'g) simulation \<Rightarrow> sim_time \<Rightarrow> tdiff \<Rightarrow> tdiff" where
  "planning_run_time s start_time rte =
     (let resolution = p_planning_time_resolution (m_params s);
          release_time = start_time + rte;
          release_time = (if resolution \<noteq> 0 then dbl_ceil (release_time / resolution) * resolution else release_time)
      in release_time - start_time)"

definition advance_capacity_accounting_to :: "sim_time \<Rightarrow> ('s, 'g) simulation \<Rightarrow> exn + ('s, 'g) simulation" where
  "advance_capacity_accounting_to t s =
     (if \<not> isfinite t then Inr s
      else if t < m_capacity_area_time s then Inl Logic_Error
      else let effective = max (m_current_capacity s) (get_nodes_occupied (m_trace s))
           in Inr (s\<lparr>m_capacity_area := m_capacity_area s + dbl (uint effective) * (t - m_capacity_area_time s),
                    m_capacity_area_time := t\<rparr>))"

definition capacity_area_through :: "sim_time \<Rightarrow> ('s, 'g) simulation \<Rightarrow> tdiff" where
  "capacity_area_through t s =
     (if isfinite t \<and> m_capacity_area_time s < t
      then m_capacity_area s + dbl (uint (max (m_current_capacity s) (get_nodes_occupied (m_trace s)))) *
             (t - m_capacity_area_time s)
      else m_capacity_area s)"

function apply_changes :: "sim_time \<Rightarrow> bool \<Rightarrow> ('s, 'g) simulation \<Rightarrow> bool \<times> ('s, 'g) simulation" where
  "apply_changes t changed s =
     (if m_next_capacity_change s < length (m_capacity_changes s) \<and>
         cc_time (m_capacity_changes s ! m_next_capacity_change s) \<le> t
      then let c = m_capacity_changes s ! m_next_capacity_change s
           in apply_changes t True (s\<lparr>m_next_capacity_change := Suc (m_next_capacity_change s),
                m_current_capacity := cc_total_nodes c,
                m_trace := set_resource_capacity (cc_time c) (cc_total_nodes c) (m_trace s)\<rparr>)
      else (changed, s))"
  by pat_completeness auto
termination
  by (relation "measure (\<lambda>(t, b, s). length (m_capacity_changes s) - m_next_capacity_change s)") auto

declare apply_changes.simps [simp del]

definition apply_capacity_changes :: "sim_time \<Rightarrow> ('s, 'g) simulation \<Rightarrow> bool \<times> ('s, 'g) simulation" where
  "apply_capacity_changes t s = apply_changes t False s"

definition reset_capacity_schedule :: "('s, 'g) simulation \<Rightarrow> ('s, 'g) simulation" where
  "reset_capacity_schedule s =
     s\<lparr>m_next_capacity_change := 0, m_current_capacity := p_total_nodes (m_params s),
       m_trace := reset_resource_capacity (p_total_nodes (m_params s)) (m_trace s),
       m_capacity_area := 0, m_capacity_area_time := m_current_time s\<rparr>"

section \<open>Submission\<close>

definition submit_job :: "'s scheduler_ops \<Rightarrow> job_no \<Rightarrow> sim_time \<Rightarrow> sim_time \<Rightarrow> ('s, 'g) simulation \<Rightarrow> exn + ('s, 'g) simulation" where
  "submit_job ops i submit arrival s =
     (if arrival < m_current_time s then Inl Runtime_Error
      else case job_at (m_trace s) i of
        Inl e \<Rightarrow> Inl e
      | Inr j \<Rightarrow>
          if m_job_rejection_capacity s < m_num_nodes j \<or> \<not> so_can_ever_run ops (m_scheduler s) (m_num_nodes j)
          then Inr (s\<lparr>m_trace := set_job i (j\<lparr>m_t_submit := unscheduled_sentinel\<rparr>) (m_trace s)\<rparr>)
          else let s = s\<lparr>m_trace := set_job i (set_busy_nodes (m_n_nodes_in_use (m_trace s)) False j) (m_trace s)\<rparr> in
            case so_insert_job ops (m_scheduler s) i submit (limit_time j) (m_num_nodes j) of
              Inl e \<Rightarrow> Inl e
            | Inr sc \<Rightarrow>
                Inr (s\<lparr>m_scheduler := sc,
                      m_periodic_backfill_dirty := (if 0 < scheduling_interval (m_params s) then True else m_periodic_backfill_dirty s),
                      m_pending_queue_arrivals := alist_inc arrival (m_pending_queue_arrivals s),
                      m_latest_submit_time := max (m_latest_submit_time s) submit,
                      m_jobs_submitted := m_jobs_submitted s + 1\<rparr>))"

definition no_query :: query_record where
  "no_query = \<lparr>qr_submit_time = 0, qr_limit_time = 0, qr_num_nodes = 0, qr_start_time = 0, qr_end_time = 0,
     qr_tracked = False, qr_scheduled = False, qr_rejected = False\<rparr>"

definition record_appended_job ::
  "job_no \<Rightarrow> sim_time \<Rightarrow> num_nodes \<Rightarrow> tdiff \<Rightarrow> ('s, 'g) simulation \<Rightarrow> exn + ('s, 'g) simulation" where
  "record_appended_job i submit nodes limit s =
     (let s = (if m_appended_job_query_records s = [] then s\<lparr>m_first_appended_job_idx := i\<rparr> else s) in
      if i < m_first_appended_job_idx s then Inl Logic_Error
      else let offset = i - m_first_appended_job_idx s;
               qs = m_appended_job_query_records s;
               qs = (if offset \<ge> length qs then qs @ replicate (offset + 1 - length qs) no_query else qs)
           in case job_at (m_trace s) i of
             Inl e \<Rightarrow> Inl e
           | Inr j \<Rightarrow>
               Inr (s\<lparr>m_appended_job_query_records := qs[offset := (qs ! offset)\<lparr>qr_submit_time := submit, qr_limit_time := limit,
                       qr_num_nodes := nodes, qr_tracked := True, qr_rejected := (m_t_submit j = unscheduled_sentinel)\<rparr>]\<rparr>))"

definition record_appended_job_start :: "job_no \<Rightarrow> ('s, 'g) simulation \<Rightarrow> exn + ('s, 'g) simulation" where
  "record_appended_job_start i s =
     (if i < m_first_appended_job_idx s then Inr s
      else let offset = i - m_first_appended_job_idx s; qs = m_appended_job_query_records s in
        if offset \<ge> length qs \<or> \<not> qr_tracked (qs ! offset) then Inr s
        else case job_at (m_trace s) i of
          Inl e \<Rightarrow> Inl e
        | Inr j \<Rightarrow>
            Inr (s\<lparr>m_appended_job_query_records := qs[offset := (qs ! offset)\<lparr>qr_start_time := convert_epoch (m_t_begin j),
                    qr_end_time := convert_epoch (m_t_end j), qr_scheduled := True\<rparr>]\<rparr>))"

definition checked_streaming_limit :: "tdiff \<Rightarrow> exn + 32 word" where
  "checked_streaming_limit limit =
     (if \<not> isfinite limit \<or> limit \<le> 0 \<or> dbl (dbl_trunc limit) \<noteq> limit \<or> dbl 4294967295 < limit
      then Inl Invalid_Argument else Inr (word_of_int (dbl_trunc limit)))"

definition bad_actual :: "32 word \<Rightarrow> tdiff option \<Rightarrow> bool" where
  "bad_actual limit actual = (case actual of None \<Rightarrow> False
     | Some a \<Rightarrow> \<not> isfinite a \<or> a \<le> 0 \<or> dbl (uint limit) < a)"

definition open_outputs :: "('s, 'g) simulation \<Rightarrow> ('s, 'g) simulation" where
  "open_outputs s =
     (let p = m_params s;
          tr = (m_trace s)\<lparr>m_job_flush_interval := p_job_flush_interval p, m_resource_history_capacity := p_resource_history_capacity p\<rparr>
      in s\<lparr>m_trace := start_resource_trace (p_resource_trace_opens p) (p_total_nodes p) (start_simulated_trace (p_outfile_opens p) tr)\<rparr>)"

text \<open>\<^verbatim>\<open>queue\<close> is the queue identifier that \<^verbatim>\<open>set_by_queue_id\<close> reads from the text.\<close>

definition sim_append_job ::
  "'s scheduler_ops \<Rightarrow> sim_time \<Rightarrow> num_nodes \<Rightarrow> nat \<Rightarrow> tdiff \<Rightarrow> tdiff option \<Rightarrow> ('s, 'g) simulation \<Rightarrow> exn + (job_no \<times> ('s, 'g) simulation)" where
  "sim_append_job ops submit nodes queue limit actual s =
     (if submit < m_current_time s then Inl Runtime_Error
      else if submit < m_latest_submit_time s then Inl Invalid_Argument
      else case checked_streaming_limit limit of
        Inl e \<Rightarrow> Inl e
      | Inr stored_limit \<Rightarrow>
          if bad_actual stored_limit actual then Inl Invalid_Argument
          else let s = open_outputs s in
            case append_job (m_current_time s) \<lparr>ar_submit_time = to_epoch submit, ar_num_nodes = nodes, ar_queue = queue,
                   ar_limit_time = stored_limit, ar_actual_run_time = actual\<rparr> (m_trace s) of
              Inl e \<Rightarrow> Inl e
            | Inr (i, tr) \<Rightarrow>
                (case submit_job ops i submit submit (s\<lparr>m_trace := tr\<rparr>) of
                   Inl e \<Rightarrow> Inl e
                 | Inr s \<Rightarrow>
                     (case record_appended_job i submit nodes (dbl (uint stored_limit)) s of
                        Inl e \<Rightarrow> Inl e
                      | Inr s \<Rightarrow> Inr (i, s))))"

section \<open>The event loop\<close>

datatype sim_mode = Event_Driven | Periodic_Backfill | Fixed_Dispatch | Dispatch_On_Events

fun periodic_backfill :: "sim_mode \<Rightarrow> bool" where
  "periodic_backfill Event_Driven = False"
| "periodic_backfill _ = True"

fun fixed_dispatch :: "sim_mode \<Rightarrow> bool" where
  "fixed_dispatch Fixed_Dispatch = True"
| "fixed_dispatch Dispatch_On_Events = True"
| "fixed_dispatch _ = False"

definition dispatch_on_events :: "sim_mode \<Rightarrow> bool" where
  "dispatch_on_events m \<longleftrightarrow> m = Dispatch_On_Events"

definition record_queue_arrivals :: "'s scheduler_ops \<Rightarrow> sim_time \<Rightarrow> ('s, 'g) simulation \<Rightarrow> exn + (bool \<times> ('s, 'g) simulation)" where
  "record_queue_arrivals ops t s =
     (case map_of (m_pending_queue_arrivals s) t of
        None \<Rightarrow> Inr (False, s)
      | Some n \<Rightarrow>
          let active_after_sync = so_active_job_count ops (m_scheduler s) in
          if active_after_sync < n then Inl Logic_Error
          else let jobs_already_waiting = active_after_sync - n
               in Inr (True, s\<lparr>m_queue_length_sum := m_queue_length_sum s + sum_list (map (\<lambda>i. jobs_already_waiting + i) [0..<n]),
                               m_queue_length_samples := m_queue_length_samples s + n,
                               m_pending_queue_arrivals := alist_erase t (m_pending_queue_arrivals s)\<rparr>))"

definition align_backfill_tick :: "('s, 'g) simulation \<Rightarrow> ('s, 'g) simulation" where
  "align_backfill_tick s =
     (let interval = scheduling_interval (m_params s); next = m_next_backfill_evaluation s in
      if interval \<le> 0 then s
      else if next = dbl_max then s\<lparr>m_next_backfill_evaluation := m_current_time s + interval\<rparr>
      else if next < m_current_time s
      then s\<lparr>m_next_backfill_evaluation := next + dbl_ceil ((m_current_time s - next) / interval) * interval\<rparr>
      else s)"

text \<open>Starting one job that the scheduler selected.\<close>

definition start_job :: "job_no \<Rightarrow> ('s, 'g) simulation \<Rightarrow> exn + ('s, 'g) simulation" where
  "start_job i s =
     (case insert_job i (m_current_time s) (m_trace s) of
        Inl e \<Rightarrow> Inl e
      | Inr tr \<Rightarrow>
          (case record_appended_job_start i (s\<lparr>m_trace := tr\<rparr>) of
             Inl e \<Rightarrow> Inl e
           | Inr s \<Rightarrow>
               (case job_at (m_trace s) i of
                  Inl e \<Rightarrow> Inl e
                | Inr j \<Rightarrow>
                    Inr (s\<lparr>m_running_jobs := alist_put i \<lparr>rj_start_time = m_current_time s,
                             rj_run_time = planning_run_time s (m_current_time s) (limit_time j),
                             rj_nodes = m_num_nodes j\<rparr> (m_running_jobs s),
                           m_jobs_started := m_jobs_started s + 1\<rparr>))))"

text \<open>The start event of a job started before the loop, and of a job started in it.\<close>

definition settle_initial :: "'g delay_math \<Rightarrow> ('s, 'g) simulation \<Rightarrow> exn + ('s, 'g) simulation" where
  "settle_initial dm s =
     (case run_until_inclusive dm (m_current_time s) (m_trace s) of Inl e \<Rightarrow> Inl e | Inr tr \<Rightarrow> Inr (s\<lparr>m_trace := tr\<rparr>))"

definition settle_start :: "'g delay_math \<Rightarrow> ('s, 'g) simulation \<Rightarrow> exn + ('s, 'g) simulation" where
  "settle_start dm s =
     (case m_evtq (m_trace s) of
        [] \<Rightarrow> Inr s
      | e # _ \<Rightarrow>
          if ev_time e \<noteq> m_current_time s \<or> ev_kind e \<noteq> Arrival then Inr s
          else case process_single_event dm (m_trace s) of Inl x \<Rightarrow> Inl x | Inr (_, tr) \<Rightarrow> Inr (s\<lparr>m_trace := tr\<rparr>))"

fun start_jobs :: "(('s, 'g) simulation \<Rightarrow> exn + ('s, 'g) simulation) \<Rightarrow> job_no list \<Rightarrow> ('s, 'g) simulation \<Rightarrow> exn + ('s, 'g) simulation" where
  "start_jobs settle [] s = Inr s"
| "start_jobs settle (i # is) s =
     (case start_job i s of
        Inl e \<Rightarrow> Inl e
      | Inr s \<Rightarrow> (case settle s of Inl e \<Rightarrow> Inl e | Inr s \<Rightarrow> start_jobs settle is s))"

text \<open>One call of the scheduler, and the loop that calls it until it starts nothing; a dispatch cycle calls it
  once.  The result says whether a job was started.\<close>

definition call_scheduler ::
  "'s scheduler_ops \<Rightarrow> 's schedule_fun \<Rightarrow> ('s, 'g) simulation \<Rightarrow> job_no list \<times> ('s, 'g) simulation" where
  "call_scheduler ops pass s =
     (let free_nodes = get_available_nodes s;
          s = publish_capacity_outlook ops s;
          (ids, sc) = pass (m_scheduler s) free_nodes (m_running_jobs s) (m_current_time s)
      in (ids, s\<lparr>m_scheduler := sc\<rparr>))"

partial_function (option) schedule_loop ::
  "'s scheduler_ops \<Rightarrow> 's schedule_fun \<Rightarrow> (('s, 'g) simulation \<Rightarrow> exn + ('s, 'g) simulation) \<Rightarrow> bool \<Rightarrow> bool \<Rightarrow>
   ('s, 'g) simulation \<Rightarrow> (exn + (bool \<times> ('s, 'g) simulation)) option" where
  "schedule_loop ops pass settle once started s =
     (case call_scheduler ops pass s of (ids, s) \<Rightarrow>
        if ids = [] then Some (Inr (started, s))
        else case start_jobs settle ids s of
          Inl e \<Rightarrow> Some (Inl e)
        | Inr s \<Rightarrow> if once then Some (Inr (True, s)) else schedule_loop ops pass settle once True s)"

text \<open>All events at the current time; the flag says that nodes were freed.\<close>

definition finish_event :: "dr_event \<Rightarrow> bool \<Rightarrow> ('s, 'g) simulation \<Rightarrow> bool \<times> ('s, 'g) simulation" where
  "finish_event e freed s =
     (if ev_kind e = Departure then
        (if m_last_departure_delayed (m_trace s)
         then (freed, s\<lparr>m_jobs_releasing := m_jobs_releasing s + 1\<rparr>)
         else (True, s\<lparr>m_running_jobs := alist_erase (ev_job e) (m_running_jobs s)\<rparr>))
      else if ev_kind e = Release then
        (True, if map_of (m_running_jobs s) (ev_job e) \<noteq> None
               then s\<lparr>m_running_jobs := alist_erase (ev_job e) (m_running_jobs s), m_jobs_releasing := m_jobs_releasing s - 1\<rparr>
               else s)
      else (freed, s))"

lemma process_single_event_cases:
  assumes "process_single_event dm tr = Inr (b, tr')" "m_evtq tr = e # q"
  obtains tr1 where "account_event dm e (tr\<lparr>m_evtq := q\<rparr>) = Inr tr1" "m_evtq tr' = m_evtq tr1"
proof -
  obtain tr1 where a: "account_event dm e (tr\<lparr>m_evtq := q\<rparr>) = Inr tr1"
    using assms by (auto simp: process_single_event_def split: sum.splits)
  define tr2 where "tr2 = record_resource_sample (ev_time e) (m_n_nodes_in_use tr1) tr1"
  define tr3 where "tr3 = (if ev_kind e = Departure \<and> simulated_trace_output_active tr2 \<and>
      m_departures_since_job_flush tr2 < effective_job_flush_interval tr2
    then tr2\<lparr>m_departures_since_job_flush := m_departures_since_job_flush tr2 + 1\<rparr> else tr2)"
  have q3: "m_evtq tr3 = m_evtq tr1" by (simp add: tr3_def tr2_def)
  have "Inr (b, tr') = (if simulated_trace_output_active tr3 \<and> (m_evtq tr2 = [] \<or> ev_time e < ev_time (hd (m_evtq tr2))) \<and>
          m_departures_since_job_flush tr3 \<ge> effective_job_flush_interval tr3
        then (case flush_completed_jobs_impl (ev_time e) tr3 of Inl x \<Rightarrow> Inl x | Inr tr \<Rightarrow> Inr (True, tr)) else Inr (True, tr3))"
    using assms(1) unfolding process_single_event_def assms(2) list.case a sum.case Let_def tr2_def[symmetric] tr3_def[symmetric]
    by (rule sym)
  then have "m_evtq tr' = m_evtq tr3"
    using flush_completed_keeps[of "ev_time e" tr3] by (auto simp: same_account_def split: if_splits sum.splits)
  then show thesis using that[OF a] q3 by simp
qed

lemma process_single_event_weight:
  assumes "process_single_event dm tr = Inr (b, tr')" "m_evtq tr = e # q"
  shows "queue_weight (m_evtq tr') < queue_weight (m_evtq tr)"
proof -
  obtain tr1 where a: "account_event dm e (tr\<lparr>m_evtq := q\<rparr>) = Inr tr1" "m_evtq tr' = m_evtq tr1"
    by (rule process_single_event_cases[OF assms])
  show ?thesis using account_event_weight[OF a(1)] a(2) assms(2) by (simp add: queue_weight_def)
qed

lemma finish_event_trace [simp]: "m_trace (snd (finish_event e freed s)) = m_trace s"
  by (simp add: finish_event_def)

function event_loop :: "'g delay_math \<Rightarrow> bool \<Rightarrow> ('s, 'g) simulation \<Rightarrow> exn + (bool \<times> ('s, 'g) simulation)" where
  "event_loop dm freed s =
     (case m_evtq (m_trace s) of
        [] \<Rightarrow> Inr (freed, s)
      | e # _ \<Rightarrow>
          if ev_time e \<noteq> m_current_time s then Inr (freed, s)
          else case process_single_event dm (m_trace s) of
            Inl x \<Rightarrow> Inl x
          | Inr (_, tr) \<Rightarrow>
              (let s' = s\<lparr>m_jobs_completed := (if ev_kind e = Departure then m_jobs_completed s + 1 else m_jobs_completed s),
                         m_trace := tr\<rparr>;
                   r = finish_event e freed s'
               in event_loop dm (fst r) (snd r)))"
  by pat_completeness auto
termination
proof (relation "measure (\<lambda>x. queue_weight (m_evtq (m_trace (snd (snd x)))))", goal_cases)
  case (2 dm freed s e q r b tr s' r')
  then show ?case using process_single_event_weight[of dm "m_trace s" b tr e q] by simp
qed simp

declare event_loop.simps [simp del]

text \<open>Every branch of the event selection first moves the clock: it advances the capacity accounting, synchronises
  the scheduler and samples the queue length at arrivals.\<close>

definition move_clock :: "'s scheduler_ops \<Rightarrow> sim_time \<Rightarrow> ('s, 'g) simulation \<Rightarrow> exn + (bool \<times> ('s, 'g) simulation)" where
  "move_clock ops t s =
     (case advance_capacity_accounting_to t (s\<lparr>m_current_time := t\<rparr>) of
        Inl e \<Rightarrow> Inl e
      | Inr s \<Rightarrow> record_queue_arrivals ops t (s\<lparr>m_scheduler := so_sync_to ops (m_scheduler s) t\<rparr>))"

record loop_vars =
  lv_active_count :: nat
  lv_next_arrival :: sim_time
  lv_next_capacity :: sim_time
  lv_initial_notification :: bool

record decision =
  de_should_schedule :: bool
  de_arrival_notification :: bool
  de_periodic_evaluation :: bool

definition next_capacity_time :: "('s, 'g) simulation \<Rightarrow> sim_time" where
  "next_capacity_time s =
     (if m_next_capacity_change s < length (m_capacity_changes s)
      then cc_time (m_capacity_changes s ! m_next_capacity_change s) else dbl_max)"

definition next_replay_time :: "('s, 'g) simulation \<Rightarrow> sim_time" where
  "next_replay_time s = (case m_evtq (m_trace s) of [] \<Rightarrow> dbl_max | e # _ \<Rightarrow> ev_time e)"

definition next_tick :: "sim_mode \<Rightarrow> loop_vars \<Rightarrow> ('s, 'g) simulation \<Rightarrow> sim_time" where
  "next_tick m lv s = (if periodic_backfill m \<and> lv_active_count lv > 0 then m_next_backfill_evaluation s else dbl_max)"

definition loop_condition :: "sim_mode \<Rightarrow> sim_time \<Rightarrow> loop_vars \<Rightarrow> ('s, 'g) simulation \<Rightarrow> bool" where
  "loop_condition m target lv s \<longleftrightarrow>
     lv_active_count lv > 0 \<or> m_evtq (m_trace s) \<noteq> [] \<or> lv_next_arrival lv < dbl_max \<or>
     (target < dbl_max \<and> lv_next_capacity lv \<le> target) \<or>
     (periodic_backfill m \<and> lv_active_count lv > 0 \<and> m_next_backfill_evaluation s \<le> target \<and>
      (m_evtq (m_trace s) \<noteq> [] \<or> lv_next_arrival lv < dbl_max \<or> (lv_next_capacity lv < dbl_max \<and> lv_next_capacity lv \<le> target)))"

text \<open>The four branches that process something, in their order; \<open>None\<close> is the branch that leaves the loop.\<close>

definition replay_branch ::
  "'s scheduler_ops \<Rightarrow> 'g delay_math \<Rightarrow> sim_mode \<Rightarrow> loop_vars \<Rightarrow> ('s, 'g) simulation \<Rightarrow> exn + (decision \<times> ('s, 'g) simulation)" where
  "replay_branch ops dm m lv s =
     (case move_clock ops (next_replay_time s) s of
        Inl e \<Rightarrow> Inl e
      | Inr (arrivals, s) \<Rightarrow>
          (case event_loop dm False s of
             Inl e \<Rightarrow> Inl e
           | Inr (freed, s) \<Rightarrow>
               let (changed, s) = apply_capacity_changes (m_current_time s) s;
                   should = (freed \<or> changed \<or> lv_next_arrival lv = m_current_time s);
                   s = (if periodic_backfill m then s\<lparr>m_periodic_backfill_dirty := m_periodic_backfill_dirty s \<or> should\<rparr> else s)
               in Inr (\<lparr>de_should_schedule = should, de_arrival_notification = dispatch_on_events m \<and> arrivals,
                        de_periodic_evaluation = False\<rparr>, s)))"

definition timed_branch ::
  "'s scheduler_ops \<Rightarrow> sim_mode \<Rightarrow> sim_time \<Rightarrow> ('s, 'g) simulation \<Rightarrow> exn + (decision \<times> ('s, 'g) simulation)" where
  "timed_branch ops m t s =
     (case move_clock ops t s of
        Inl e \<Rightarrow> Inl e
      | Inr (arrivals, s) \<Rightarrow>
          let (changed, s) = apply_capacity_changes (m_current_time s) s;
              s = (if periodic_backfill m then s\<lparr>m_periodic_backfill_dirty := True\<rparr> else s)
          in Inr (\<lparr>de_should_schedule = True, de_arrival_notification = dispatch_on_events m \<and> arrivals,
                   de_periodic_evaluation = False\<rparr>, s))"

definition tick_branch ::
  "'s scheduler_ops \<Rightarrow> sim_mode \<Rightarrow> loop_vars \<Rightarrow> ('s, 'g) simulation \<Rightarrow> exn + (decision \<times> ('s, 'g) simulation)" where
  "tick_branch ops m lv s =
     (case move_clock ops (next_tick m lv s) s of
        Inl e \<Rightarrow> Inl e
      | Inr (arrivals, s) \<Rightarrow>
          let evaluation = (fixed_dispatch m \<or> m_periodic_backfill_dirty s)
          in Inr (\<lparr>de_should_schedule = evaluation, de_arrival_notification = dispatch_on_events m \<and> arrivals,
                   de_periodic_evaluation = evaluation\<rparr>,
                  s\<lparr>m_next_backfill_evaluation := m_next_backfill_evaluation s + scheduling_interval (m_params s)\<rparr>))"

definition select_event ::
  "'s scheduler_ops \<Rightarrow> 'g delay_math \<Rightarrow> sim_mode \<Rightarrow> sim_time \<Rightarrow> loop_vars \<Rightarrow> ('s, 'g) simulation \<Rightarrow>
   (exn + (decision \<times> ('s, 'g) simulation)) option" where
  "select_event ops dm m target lv s =
     (let replay = next_replay_time s; arrival = lv_next_arrival lv; capacity = lv_next_capacity lv; tick = next_tick m lv s in
      if m_evtq (m_trace s) \<noteq> [] \<and> replay \<le> arrival \<and> replay \<le> capacity \<and> replay \<le> tick \<and> replay \<le> target
      then Some (replay_branch ops dm m lv s)
      else if arrival < dbl_max \<and> arrival \<le> capacity \<and> arrival \<le> tick \<and> arrival \<le> target
      then Some (timed_branch ops m arrival s)
      else if capacity < dbl_max \<and> capacity \<le> tick \<and> capacity \<le> target
      then Some (timed_branch ops m capacity s)
      else if tick < dbl_max \<and> tick \<le> target \<and>
              (fixed_dispatch m \<or> m_evtq (m_trace s) \<noteq> [] \<or> arrival < dbl_max \<or> (capacity < dbl_max \<and> capacity \<le> target))
      then Some (tick_branch ops m lv s)
      else None)"

text \<open>The periodic bookkeeping between the event and the scheduling pass: whether to schedule, and whether the pass
  is a periodic evaluation.\<close>

definition settle_tick ::
  "sim_mode \<Rightarrow> sim_time \<Rightarrow> bool \<Rightarrow> decision \<Rightarrow> ('s, 'g) simulation \<Rightarrow> decision \<times> ('s, 'g) simulation" where
  "settle_tick m initial_time initial_notification d s =
     (if \<not> periodic_backfill m then (d, s)
      else let s = (if fixed_dispatch m then align_backfill_tick s else s);
               on_tick = (\<not> de_periodic_evaluation d \<and> m_next_backfill_evaluation s = m_current_time s);
               s = (if on_tick then s\<lparr>m_next_backfill_evaluation := m_next_backfill_evaluation s + scheduling_interval (m_params s)\<rparr> else s);
               evaluation = (de_periodic_evaluation d \<or> on_tick);
               should = (if fixed_dispatch m
                         then evaluation \<or> (dispatch_on_events m \<and>
                                (de_arrival_notification d \<or> (initial_notification \<and> m_current_time s = initial_time)))
                         else de_should_schedule d);
               s = (if evaluation then s\<lparr>m_periodic_backfill_dirty := False\<rparr> else s)
           in (d\<lparr>de_should_schedule := should, de_periodic_evaluation := evaluation\<rparr>, s))"

definition choose_pass :: "'s scheduler_ops \<Rightarrow> sim_mode \<Rightarrow> bool \<Rightarrow> 's schedule_fun" where
  "choose_pass ops m evaluation =
     (if periodic_backfill m \<and> \<not> fixed_dispatch m \<and> \<not> evaluation then so_schedule_event ops else so_schedule ops)"

text \<open>The catch-up of a tick that was passed.\<close>

definition catch_up_tick :: "sim_mode \<Rightarrow> ('s, 'g) simulation \<Rightarrow> ('s, 'g) simulation" where
  "catch_up_tick m s =
     (if periodic_backfill m \<and> m_next_backfill_evaluation s \<le> m_current_time s
      then let interval = scheduling_interval (m_params s);
               missed = dbl_trunc (dbl_floor ((m_current_time s - m_next_backfill_evaluation s) / interval)) + 1
           in s\<lparr>m_next_backfill_evaluation := m_next_backfill_evaluation s + dbl missed * interval\<rparr>
      else s)"

definition read_loop_vars :: "'s scheduler_ops \<Rightarrow> bool \<Rightarrow> ('s, 'g) simulation \<Rightarrow> loop_vars" where
  "read_loop_vars ops notification s =
     \<lparr>lv_active_count = so_active_job_count ops (m_scheduler s),
      lv_next_arrival = so_get_next_arrival_time ops (m_scheduler s),
      lv_next_capacity = next_capacity_time s, lv_initial_notification = notification\<rparr>"

definition update_peak :: "nat \<Rightarrow> ('s, 'g) simulation \<Rightarrow> ('s, 'g) simulation" where
  "update_peak n s = s\<lparr>m_queue_length_peak := max (m_queue_length_peak s) n\<rparr>"

text \<open>The body of the loop: \<open>None\<close> when the scheduling loop does not return; the flag says whether the loop goes on.\<close>

definition finish_iteration ::
  "'s scheduler_ops \<Rightarrow> sim_mode \<Rightarrow> bool \<Rightarrow> bool \<Rightarrow> ('s, 'g) simulation \<Rightarrow> bool \<times> loop_vars \<times> ('s, 'g) simulation" where
  "finish_iteration ops m evaluation started s =
     (let lv = read_loop_vars ops False s;
          s = catch_up_tick m s
      in if fixed_dispatch m \<and> evaluation \<and> \<not> started \<and> m_evtq (m_trace s) = [] \<and> lv_next_arrival lv = dbl_max \<and>
            lv_next_capacity lv = dbl_max
         then (False, lv, s) else (True, lv, update_peak (lv_active_count lv) s))"

definition loop_body ::
  "'s scheduler_ops \<Rightarrow> 'g delay_math \<Rightarrow> sim_mode \<Rightarrow> sim_time \<Rightarrow> sim_time \<Rightarrow> loop_vars \<Rightarrow> ('s, 'g) simulation \<Rightarrow>
   (exn + (bool \<times> loop_vars \<times> ('s, 'g) simulation)) option" where
  "loop_body ops dm m initial_time target lv s =
     (case select_event ops dm m target lv s of
        None \<Rightarrow> Some (Inr (False, lv, s))
      | Some (Inl e) \<Rightarrow> Some (Inl e)
      | Some (Inr (d, s)) \<Rightarrow>
          (case settle_tick m initial_time (lv_initial_notification lv) d s of (d, s) \<Rightarrow>
             (case (if de_should_schedule d
                    then schedule_loop ops (choose_pass ops m (de_periodic_evaluation d)) (settle_start dm) (fixed_dispatch m) False s
                    else Some (Inr (False, s))) of
                None \<Rightarrow> None
              | Some (Inl e) \<Rightarrow> Some (Inl e)
              | Some (Inr (started, s)) \<Rightarrow> Some (Inr (finish_iteration ops m (de_periodic_evaluation d) started s)))))"

partial_function (option) main_loop ::
  "'s scheduler_ops \<Rightarrow> 'g delay_math \<Rightarrow> sim_mode \<Rightarrow> sim_time \<Rightarrow> sim_time \<Rightarrow> loop_vars \<Rightarrow> ('s, 'g) simulation \<Rightarrow>
   (exn + ('s, 'g) simulation) option" where
  "main_loop ops dm m initial_time target lv s =
     (if \<not> loop_condition m target lv s then Some (Inr s)
      else Option.bind (loop_body ops dm m initial_time target lv s) (\<lambda>r.
        case r of
          Inl e \<Rightarrow> Some (Inl e)
        | Inr (go_on, lv, s) \<Rightarrow> if go_on then main_loop ops dm m initial_time target lv s else Some (Inr s)))"

text \<open>The pass before the loop.  The flag of the result is the pending initial notification.\<close>

definition initial_pass ::
  "'s scheduler_ops \<Rightarrow> 'g delay_math \<Rightarrow> sim_mode \<Rightarrow> ('s, 'g) simulation \<Rightarrow> (exn + (bool \<times> ('s, 'g) simulation)) option" where
  "initial_pass ops dm m s =
     (let s = (if dispatch_on_events m then align_backfill_tick s else s);
          s = s\<lparr>m_scheduler := so_sync_to ops (m_scheduler s) (m_current_time s)\<rparr>
      in case record_queue_arrivals ops (m_current_time s) s of
        Inl e \<Rightarrow> Some (Inl e)
      | Inr (arrivals, s) \<Rightarrow>
          let (changed, s) = apply_capacity_changes (m_current_time s) s;
              notification = (dispatch_on_events m \<and> arrivals);
              replay_batch = (m_evtq (m_trace s) \<noteq> [] \<and> ev_time (hd (m_evtq (m_trace s))) = m_current_time s);
              schedule_initial = (if dispatch_on_events m then notification \<and> \<not> replay_batch else \<not> fixed_dispatch m);
              s = (if dispatch_on_events m \<and> schedule_initial \<and> m_next_backfill_evaluation s = m_current_time s
                   then s\<lparr>m_next_backfill_evaluation := m_next_backfill_evaluation s + p_dispatch_interval (m_params s)\<rparr> else s)
          in if \<not> (schedule_initial \<and> so_has_eligible_jobs ops (m_scheduler s)) then Some (Inr (notification, s))
             else (case schedule_loop ops (choose_pass ops m False) (settle_initial dm) (fixed_dispatch m) False s of
                     None \<Rightarrow> None
                   | Some (Inl e) \<Rightarrow> Some (Inl e)
                   | Some (Inr (started, s)) \<Rightarrow> Some (Inr (notification \<and> \<not> started, s))))"

definition advance_to_impl ::
  "'s scheduler_ops \<Rightarrow> 'g delay_math \<Rightarrow> sim_mode \<Rightarrow> sim_time \<Rightarrow> ('s, 'g) simulation \<Rightarrow> (exn + ('s, 'g) simulation) option" where
  "advance_to_impl ops dm m target s =
     (if target < m_current_time s then Some (Inl Runtime_Error)
      else case initial_pass ops dm m s of
        None \<Rightarrow> None
      | Some (Inl e) \<Rightarrow> Some (Inl e)
      | Some (Inr (notification, s1)) \<Rightarrow>
          let lv = read_loop_vars ops notification s1;
              s2 = (if periodic_backfill m then align_backfill_tick s1 else s1)
          in (case main_loop ops dm m (m_current_time s) target lv (update_peak (lv_active_count lv) s2) of
                None \<Rightarrow> None
              | Some (Inl e) \<Rightarrow> Some (Inl e)
              | Some (Inr s3) \<Rightarrow> Some (Inr (if target = dbl_max then s3 else s3\<lparr>m_current_time := target\<rparr>))))"

definition mode_of :: "sim_params \<Rightarrow> sim_mode" where
  "mode_of p =
     (if 0 < p_dispatch_interval p then (if p_dispatch_on_events p then Dispatch_On_Events else Fixed_Dispatch)
      else if 0 < p_backfill_interval p then Periodic_Backfill else Event_Driven)"

definition advance_to ::
  "'s scheduler_ops \<Rightarrow> 'g delay_math \<Rightarrow> sim_time \<Rightarrow> ('s, 'g) simulation \<Rightarrow> (exn + ('s, 'g) simulation) option" where
  "advance_to ops dm target s = advance_to_impl ops dm (mode_of (m_params s)) target s"

section \<open>A batch run\<close>

definition new_simulation ::
  "sim_params \<Rightarrow> 'g trace \<Rightarrow> 's \<Rightarrow> capacity_change list \<Rightarrow> ('s, 'g) simulation" where
  "new_simulation p tr sc changes = reset_capacity_schedule \<lparr>m_params = p, m_trace = tr, m_scheduler = sc, m_current_time = 0,
     m_next_backfill_evaluation = dbl_max, m_periodic_backfill_dirty = True, m_job_rejection_capacity = p_total_nodes p,
     m_capacity_changes = changes, m_next_capacity_change = 0, m_current_capacity = p_total_nodes p, m_capacity_area = 0,
     m_capacity_area_time = 0, m_jobs_completed = 0, m_jobs_submitted = 0, m_jobs_started = 0,
     m_latest_submit_time = - dbl_inf, m_jobs_releasing = 0, m_running_jobs = [], m_queue_length_sum = 0,
     m_queue_length_samples = 0, m_queue_length_peak = 0, m_pending_queue_arrivals = [],
     m_first_appended_job_idx = 18446744073709551615, m_appended_job_query_records = []\<rparr>"

text \<open>\<^verbatim>\<open>sample\<close> is \<^verbatim>\<open>sample_run_time\<close> with the configured distribution: it maps a limit and the random engine to a
  run time.\<close>

definition determine_one_job_run_time ::
  "run_time_mode \<Rightarrow> (tdiff \<Rightarrow> 'r \<Rightarrow> tdiff \<times> 'r) \<Rightarrow> job_record \<Rightarrow> 'r \<Rightarrow> job_record \<times> 'r" where
  "determine_one_job_run_time mode sample j rng =
     (case mode of
        ACTUAL \<Rightarrow> (j, rng)
      | DISTRIBUTION \<Rightarrow> (let (t, rng) = sample (limit_time j) rng in (j\<lparr>m_actual_run_time := t\<rparr>, rng))
      | LIMIT \<Rightarrow> (j\<lparr>m_actual_run_time := limit_time j\<rparr>, rng))"

fun determine_job_run_time ::
  "run_time_mode \<Rightarrow> (tdiff \<Rightarrow> 'r \<Rightarrow> tdiff \<times> 'r) \<Rightarrow> job_record list \<Rightarrow> 'r \<Rightarrow> job_record list \<times> 'r" where
  "determine_job_run_time mode sample [] rng = ([], rng)"
| "determine_job_run_time mode sample (j # js) rng =
     (let (j, rng) = determine_one_job_run_time mode sample j rng;
          (js, rng) = determine_job_run_time mode sample js rng
      in (j # js, rng))"

fun submit_all :: "'s scheduler_ops \<Rightarrow> job_no list \<Rightarrow> ('s, 'g) simulation \<Rightarrow> exn + ('s, 'g) simulation" where
  "submit_all ops [] s = Inr s"
| "submit_all ops (i # is) s =
     (case job_at (m_trace s) i of
        Inl e \<Rightarrow> Inl e
      | Inr j \<Rightarrow>
          let t = convert_epoch (m_t_submit j) in
          case submit_job ops i t t s of Inl e \<Rightarrow> Inl e | Inr s \<Rightarrow> submit_all ops is s)"

definition run_batch ::
  "'s scheduler_ops \<Rightarrow> 'g delay_math \<Rightarrow> sim_time option \<Rightarrow> ('s, 'g) simulation \<Rightarrow> (exn + ('s, 'g) simulation) option" where
  "run_batch ops dm max_time s =
     (case submit_all ops [0..<length (m_data (m_trace s))] s of
        Inl e \<Rightarrow> Some (Inl e)
      | Inr s \<Rightarrow> advance_to ops dm (case max_time of None \<Rightarrow> dbl_max | Some t \<Rightarrow> t) s)"

end
