(* ===== verification/Custom.thy ===== *)
theory Custom
  imports Easy_Circular Simulation
begin

text \<open>
  \<^verbatim>\<open>FCFSEasyCustomScheduler\<close> (\<^verbatim>\<open>src/src/sim/scheduler_fcfs_easy_custom.hpp\<close> and \<^verbatim>\<open>.cpp\<close>): first-come dispatch on
  a circular buffer with EASY backfill chosen by code outside the class.  A call collects at most
  \<^verbatim>\<open>m_num_max_candidates\<close> jobs that fit beside the reservation of the head, shows them with their costs to a
  selector, and starts the one that it returns.

  The cost function, the selector and the virtual hooks are the record \<open>custom_policy\<close>, an argument of the
  operations: each acts on a state \<open>'w\<close> of its own and the first two may throw.  \<open>base_policy\<close> is the class itself, whose hooks do
  nothing.  Overrides that throw from a hook, or that write the protected members of the scheduler, are outside the model.

  A call that throws leaves the members as they were at the throw, so \<open>custom_schedule\<close> returns the state
  beside the exception.
\<close>

section \<open>State\<close>

record custom_entry = job_entry +
  m_cost :: int

type_synonym backfill_candidates = "(job_no \<times> int) list"

record 'w custom_policy =
  m_job_cost_function :: "(job_no \<Rightarrow> sim_time \<Rightarrow> tdiff \<Rightarrow> num_nodes \<Rightarrow> 'w \<Rightarrow> (exn + int) \<times> 'w) option"
  m_backfill_selector :: "(backfill_candidates \<Rightarrow> 'w \<Rightarrow> (exn + job_no option) \<times> 'w) option"
  cp_select_override :: "(backfill_candidates \<Rightarrow> num_nodes \<Rightarrow> running_jobs \<Rightarrow> sim_time \<Rightarrow> 'w \<Rightarrow> (exn + job_no option) \<times> 'w) option"
  on_jobs_became_eligible :: "nat \<Rightarrow> nat \<Rightarrow> num_nodes \<Rightarrow> running_jobs \<Rightarrow> sim_time \<Rightarrow> 'w \<Rightarrow> 'w"
  on_backfill_candidates_ready :: "backfill_candidates \<Rightarrow> num_nodes \<Rightarrow> running_jobs \<Rightarrow> sim_time \<Rightarrow> bool \<Rightarrow> 'w \<Rightarrow> 'w"
  on_scheduling_cycle_complete :: "num_nodes \<Rightarrow> running_jobs \<Rightarrow> sim_time \<Rightarrow> 'w \<Rightarrow> 'w"

record custom_queue = scheduler_base +
  cq_wait_queue :: "custom_entry list"
  cq_capacity :: nat
  cq_overflow_policy :: circular_overflow_policy
  cq_eligible_end_idx :: nat
  cq_current_tracked_time :: sim_time
  cq_removed_count :: nat
  m_num_max_candidates :: nat
  m_newly_eligible_begin_idx :: nat
  m_arrival_update_pending :: bool
  m_reevaluate_all_candidates :: bool
  m_candidate_preparation_pending :: bool
  m_resource_area :: tdiff
  m_resource_area_time :: sim_time
  m_resource_area_start :: sim_time
  m_accounted_available_nodes :: num_nodes
  cq_backfill_queue_depth :: nat

text \<open>The buffer, as for the circular scheduler.\<close>

record custom_buffer =
  cub_push_back :: "nat \<Rightarrow> custom_entry list \<Rightarrow> custom_entry \<Rightarrow> custom_entry list"
  cub_set_capacity :: "nat \<Rightarrow> custom_entry list \<Rightarrow> custom_entry list"

definition custom_buffer_ok :: "custom_buffer \<Rightarrow> bool" where
  "custom_buffer_ok b \<longleftrightarrow> (\<forall>c xs x. length xs < c \<longrightarrow> cub_push_back b c xs x = xs @ [x]) \<and>
     (\<forall>c xs. length xs \<le> c \<longrightarrow> cub_set_capacity b c xs = xs)"

definition new_custom_entry :: "job_no \<Rightarrow> sim_time \<Rightarrow> tdiff \<Rightarrow> num_nodes \<Rightarrow> int \<Rightarrow> custom_entry" where
  "new_custom_entry i t r n cost = job_entry.extend (new_entry i t r n) (custom_entry.fields cost)"

text \<open>The constructor for subclasses, and the public one, which requires both functions.\<close>

definition new_custom_core ::
  "num_nodes \<Rightarrow> nat \<Rightarrow> backfill_policy \<Rightarrow> nat \<Rightarrow> nat \<Rightarrow> circular_overflow_policy \<Rightarrow> exn + custom_queue" where
  "new_custom_core total_nodes initial_job_count bf num_max_candidates initial_capacity overflow =
     (if num_max_candidates = 0 then Inl Invalid_Argument
      else if bf = CONSERVATIVE then Inl Invalid_Argument
      else Inr (scheduler_base.extend (new_base total_nodes bf)
        (custom_queue.fields [] (if initial_capacity \<noteq> 0 then initial_capacity else initial_job_count) overflow
           0 0 0 num_max_candidates 0 False False True 0 0 0 total_nodes 0)))"

definition base_policy ::
  "(job_no \<Rightarrow> sim_time \<Rightarrow> tdiff \<Rightarrow> num_nodes \<Rightarrow> 'w \<Rightarrow> (exn + int) \<times> 'w) option \<Rightarrow>
   (backfill_candidates \<Rightarrow> 'w \<Rightarrow> (exn + job_no option) \<times> 'w) option \<Rightarrow> 'w custom_policy" where
  "base_policy cost selector = \<lparr>m_job_cost_function = cost, m_backfill_selector = selector, cp_select_override = None,
     on_jobs_became_eligible = (\<lambda>_ _ _ _ _ w. w), on_backfill_candidates_ready = (\<lambda>_ _ _ _ _ w. w),
     on_scheduling_cycle_complete = (\<lambda>_ _ _ w. w)\<rparr>"

definition new_custom ::
  "num_nodes \<Rightarrow> nat \<Rightarrow> backfill_policy \<Rightarrow> nat \<Rightarrow> 'w custom_policy \<Rightarrow> nat \<Rightarrow> circular_overflow_policy \<Rightarrow> exn + custom_queue" where
  "new_custom total_nodes initial_job_count bf num_max_candidates p initial_capacity overflow =
     (case new_custom_core total_nodes initial_job_count bf num_max_candidates initial_capacity overflow of
        Inl e \<Rightarrow> Inl e
      | Inr s \<Rightarrow> if m_job_cost_function p = None then Inl Invalid_Argument
                 else if m_backfill_selector p = None then Inl Invalid_Argument
                 else Inr s)"

definition set_backfill_queue_depth :: "nat \<Rightarrow> 'a custom_queue_scheme \<Rightarrow> 'a custom_queue_scheme" where
  "set_backfill_queue_depth depth s = s\<lparr>cq_backfill_queue_depth := depth\<rparr>"

section \<open>Resource accounting\<close>

definition advance_resource_accounting_to :: "sim_time \<Rightarrow> 'a custom_queue_scheme \<Rightarrow> exn + 'a custom_queue_scheme" where
  "advance_resource_accounting_to now s =
     (if now < m_resource_area_time s then Inl Logic_Error
      else if \<not> isfinite now then Inr s
      else let allocated = m_total_nodes s - m_accounted_available_nodes s in
        Inr (s\<lparr>m_resource_area := m_resource_area s + dbl (uint allocated) * (now - m_resource_area_time s),
               m_resource_area_time := now\<rparr>))"

definition commit_available_nodes :: "num_nodes \<Rightarrow> 'a custom_queue_scheme \<Rightarrow> exn + 'a custom_queue_scheme" where
  "commit_available_nodes available s =
     (if m_total_nodes s < available then Inl Logic_Error else Inr (s\<lparr>m_accounted_available_nodes := available\<rparr>))"

definition reset_resource_accounting :: "sim_time \<Rightarrow> num_nodes \<Rightarrow> 'a custom_queue_scheme \<Rightarrow> exn + 'a custom_queue_scheme" where
  "reset_resource_accounting start available s =
     (if \<not> isfinite start \<or> start < 0 then Inl Invalid_Argument
      else if m_total_nodes s < available then Inl Invalid_Argument
      else Inr (s\<lparr>m_resource_area := 0, m_resource_area_time := start, m_resource_area_start := start,
                  m_accounted_available_nodes := available\<rparr>))"

definition reset_empty_accounting :: "'a custom_queue_scheme \<Rightarrow> exn + 'a custom_queue_scheme" where
  "reset_empty_accounting s = reset_resource_accounting 0 (m_total_nodes s) s"

definition resource_area_through :: "'a custom_queue_scheme \<Rightarrow> sim_time \<Rightarrow> tdiff" where
  "resource_area_through s through =
     (let area = m_resource_area s in
      if isfinite through \<and> m_resource_area_time s < through
      then area + dbl (uint (m_total_nodes s - m_accounted_available_nodes s)) * (through - m_resource_area_time s)
      else area)"

definition utilization_through :: "'a custom_queue_scheme \<Rightarrow> sim_time \<Rightarrow> double" where
  "utilization_through s through =
     (let duration = through - m_resource_area_start s in
      if m_total_nodes s = 0 \<or> duration \<le> 0 then 0
      else resource_area_through s through / (dbl (uint (m_total_nodes s)) * duration))"

definition custom_waiting_resource_area :: "'a custom_queue_scheme \<Rightarrow> tdiff" where
  "custom_waiting_resource_area s =
     foldl (\<lambda>area j. if removed j then area else area + dbl (uint (nodes_requested j)) * run_time_estimate j)
       0 (take (cq_eligible_end_idx s) (cq_wait_queue s))"

section \<open>Queue operations\<close>

definition insert_job_with_cost ::
  "custom_buffer \<Rightarrow> job_no \<Rightarrow> sim_time \<Rightarrow> tdiff \<Rightarrow> num_nodes \<Rightarrow> int \<Rightarrow> 'a custom_queue_scheme \<Rightarrow> exn + 'a custom_queue_scheme" where
  "insert_job_with_cost b i t r n cost s =
     (let full = (length (cq_wait_queue s) = cq_capacity s) in
      if full \<and> cq_overflow_policy s = ABORT then Inl Runtime_Error
      else let s = (if full then (let c = max (cq_capacity s * 2) 1 in
                                  s\<lparr>cq_capacity := c, cq_wait_queue := cub_set_capacity b c (cq_wait_queue s)\<rparr>)
                    else s);
               s = s\<lparr>cq_wait_queue := cub_push_back b (cq_capacity s) (cq_wait_queue s) (new_custom_entry i t r n cost)\<rparr>
           in Inr (if t \<le> cq_current_tracked_time s
                   then s\<lparr>m_newly_eligible_begin_idx := min (m_newly_eligible_begin_idx s) (cq_eligible_end_idx s),
                          cq_eligible_end_idx := length (cq_wait_queue s),
                          m_arrival_update_pending := True, m_candidate_preparation_pending := True\<rparr>
                   else s))"

definition custom_insert_job ::
  "custom_buffer \<Rightarrow> 'w custom_policy \<Rightarrow> job_no \<Rightarrow> sim_time \<Rightarrow> tdiff \<Rightarrow> num_nodes \<Rightarrow> 'a custom_queue_scheme \<Rightarrow> 'w \<Rightarrow>
   (exn + 'a custom_queue_scheme) \<times> 'w" where
  "custom_insert_job b p i t r n s w =
     (case m_job_cost_function p of
        None \<Rightarrow> (Inl Logic_Error, w)
      | Some f \<Rightarrow> (case f i t r n w of
          (Inl e, w) \<Rightarrow> (Inl e, w)
        | (Inr cost, w) \<Rightarrow> (insert_job_with_cost b i t r n cost s, w)))"

definition custom_sync_to :: "'a custom_queue_scheme \<Rightarrow> sim_time \<Rightarrow> 'a custom_queue_scheme" where
  "custom_sync_to s now =
     (if now \<le> cq_current_tracked_time s then s
      else let e = cq_eligible_end_idx s;
               e' = e + length (takeWhile (\<lambda>j. submit_time j \<le> now) (drop e (cq_wait_queue s)));
               s = s\<lparr>m_newly_eligible_begin_idx := e, cq_eligible_end_idx := e'\<rparr>;
               s = (if e' \<noteq> e then s\<lparr>m_arrival_update_pending := True, m_candidate_preparation_pending := True\<rparr> else s)
           in s\<lparr>cq_current_tracked_time := now\<rparr>)"

definition custom_active_job_count :: "'a custom_queue_scheme \<Rightarrow> nat" where
  "custom_active_job_count s = cq_eligible_end_idx s - cq_removed_count s"

definition custom_next_arrival_time :: "'a custom_queue_scheme \<Rightarrow> sim_time" where
  "custom_next_arrival_time s =
     (case dropWhile removed (drop (cq_eligible_end_idx s) (cq_wait_queue s)) of
        [] \<Rightarrow> dbl_max | j # _ \<Rightarrow> submit_time j)"

definition custom_has_eligible_jobs :: "'a custom_queue_scheme \<Rightarrow> bool" where
  "custom_has_eligible_jobs s \<longleftrightarrow> custom_active_job_count s > 0"

definition custom_pending_job_ids :: "'a custom_queue_scheme \<Rightarrow> job_no list" where
  "custom_pending_job_ids s = map job_id (filter (\<lambda>j. \<not> removed j) (cq_wait_queue s))"

definition custom_compact :: "'a custom_queue_scheme \<Rightarrow> 'a custom_queue_scheme" where
  "custom_compact s =
     (if cq_removed_count s = 0 \<or> cq_removed_count s * 2 \<le> length (cq_wait_queue s) then s
      else let q = cq_wait_queue s; e = cq_eligible_end_idx s; b = m_newly_eligible_begin_idx s
           in s\<lparr>cq_wait_queue := filter (\<lambda>j. \<not> removed j) q,
                cq_eligible_end_idx := e - length (filter removed (take e q)),
                m_newly_eligible_begin_idx := b - length (filter removed (take (min b e) q)),
                cq_removed_count := 0\<rparr>)"

text \<open>What the event loop calls besides \<^verbatim>\<open>schedule\<close>, and the end of a cycle.\<close>

definition notify_resource_change :: "'a custom_queue_scheme \<Rightarrow> 'a custom_queue_scheme" where
  "notify_resource_change s = s\<lparr>m_reevaluate_all_candidates := True, m_candidate_preparation_pending := True\<rparr>"

definition complete_candidate_scan :: "'a custom_queue_scheme \<Rightarrow> 'a custom_queue_scheme" where
  "complete_candidate_scan s = s\<lparr>m_newly_eligible_begin_idx := cq_eligible_end_idx s, m_reevaluate_all_candidates := False,
     m_candidate_preparation_pending := False\<rparr>"

section \<open>The candidates\<close>

definition candidate_of :: "custom_entry \<Rightarrow> job_no \<times> int" where
  "candidate_of j = (job_id j, m_cost j)"

definition feasible :: "'a scheduler_base_scheme \<Rightarrow> sim_time \<Rightarrow> bool \<Rightarrow> num_nodes \<Rightarrow> segment list \<Rightarrow> custom_entry \<Rightarrow> bool" where
  "feasible s now planned avail plan j \<longleftrightarrow> \<not> (removed j \<or> avail < nodes_requested j) \<and>
     \<not> (planned \<and> \<not> can_fit plan now (nodes_requested j) (release_estimate s now (run_time_estimate j)))"

text \<open>The loop of \<^verbatim>\<open>find_backfill_candidates_from\<close>, with the number of candidates it may still add.\<close>

fun candidate_loop ::
  "'a scheduler_base_scheme \<Rightarrow> sim_time \<Rightarrow> bool \<Rightarrow> num_nodes \<Rightarrow> segment list \<Rightarrow> nat \<Rightarrow> custom_entry list \<Rightarrow> backfill_candidates" where
  "candidate_loop s now planned avail plan m [] = []"
| "candidate_loop s now planned avail plan m (j # js) =
     (if \<not> feasible s now planned avail plan j then candidate_loop s now planned avail plan m js
      else candidate_of j # (if m = 1 then [] else candidate_loop s now planned avail plan (m - 1) js))"

text \<open>The plan with the head's reservation on it, as both the scan and the check of the selected job build it.\<close>

definition protected_plan ::
  "'a custom_queue_scheme \<Rightarrow> num_nodes \<Rightarrow> sim_time \<Rightarrow> sim_time \<Rightarrow> running_jobs \<Rightarrow> projected_starts \<Rightarrow> segment list" where
  "protected_plan s avail now res running starts =
     (let plan = reservation_timeline s avail running now starts; head = hd (cq_wait_queue s) in
      if reservation_within_horizon s res now
      then reserve plan res (nodes_requested head) (release_estimate s res (run_time_estimate head)) else plan)"

definition find_backfill_candidates_from ::
  "'a custom_queue_scheme \<Rightarrow> nat \<Rightarrow> num_nodes \<Rightarrow> sim_time \<Rightarrow> sim_time \<Rightarrow> running_jobs \<Rightarrow> projected_starts \<Rightarrow> backfill_candidates" where
  "find_backfill_candidates_from s begin_idx avail now res running starts =
     (if m_num_max_candidates s = 0 \<or> cq_eligible_end_idx s \<le> 1 then []
      else let planned = reservation_within_horizon s res now;
               plan = protected_plan s avail now res running starts;
               scan_end = queue_depth_scan_end (map removed (cq_wait_queue s)) 1 (cq_eligible_end_idx s)
                 (cq_backfill_queue_depth s) planned
           in candidate_loop s now planned avail plan (m_num_max_candidates s)
                (drop (max 1 begin_idx) (take scan_end (cq_wait_queue s))))"

definition find_backfill_candidates :: "'a custom_queue_scheme \<Rightarrow> num_nodes \<Rightarrow> sim_time \<Rightarrow> sim_time \<Rightarrow> backfill_candidates" where
  "find_backfill_candidates s avail now res = find_backfill_candidates_from s 1 avail now res [] []"

definition select_backfill_candidate ::
  "'w custom_policy \<Rightarrow> backfill_candidates \<Rightarrow> num_nodes \<Rightarrow> running_jobs \<Rightarrow> sim_time \<Rightarrow> 'w \<Rightarrow> (exn + job_no option) \<times> 'w" where
  "select_backfill_candidate p cs avail effective now w =
     (case cp_select_override p of
        Some f \<Rightarrow> f cs avail effective now w
      | None \<Rightarrow> (case m_backfill_selector p of None \<Rightarrow> (Inl Logic_Error, w) | Some f \<Rightarrow> f cs w))"

section \<open>The scheduling pass\<close>

text \<open>The loop over the front of the queue; beside the counters of the deque it moves the start of the newly
  eligible range.\<close>

fun custom_heads ::
  "nat \<Rightarrow> nat \<Rightarrow> nat \<Rightarrow> num_nodes \<Rightarrow> custom_entry list \<Rightarrow> custom_entry list \<times> num_nodes \<times> nat \<times> nat \<times> nat \<times> custom_entry list" where
  "custom_heads e r b avail [] = ([], avail, e, r, b, [])"
| "custom_heads e r b avail (j # q) =
     (if e > 0 \<and> (removed j \<or> nodes_requested j \<le> avail) then
        (if \<not> removed j then
           (let (hs, rest) = custom_heads (e - 1) r (b - 1) (avail - nodes_requested j) q in (j # hs, rest))
         else custom_heads (e - 1) (r - 1) (b - 1) avail q)
      else ([], avail, e, r, b, j # q))"

definition custom_projected :: "'a scheduler_base_scheme \<Rightarrow> sim_time \<Rightarrow> custom_entry \<Rightarrow> running_job" where
  "custom_projected s now j = \<lparr>rj_start_time = now, rj_run_time = release_estimate s now (run_time_estimate j),
     rj_nodes = nodes_requested j\<rparr>"

fun custom_mark :: "job_no \<Rightarrow> custom_entry list \<Rightarrow> bool \<times> custom_entry list" where
  "custom_mark i [] = (False, [])"
| "custom_mark i (j # q) =
     (if \<not> removed j \<and> job_id j = i then (True, j\<lparr>removed := True\<rparr> # q)
      else let (found, q') = custom_mark i q in (found, j # q'))"

text \<open>The end of a call that selected nothing.\<close>

definition end_of_cycle ::
  "'w custom_policy \<Rightarrow> job_no list \<Rightarrow> num_nodes \<Rightarrow> running_jobs \<Rightarrow> sim_time \<Rightarrow> 'a custom_queue_scheme \<Rightarrow> 'w \<Rightarrow>
   (exn + job_no list) \<times> 'a custom_queue_scheme \<times> 'w" where
  "end_of_cycle p ids avail running now s w =
     (Inr ids, complete_candidate_scan s, if ids = [] then on_scheduling_cycle_complete p avail running now w else w)"

text \<open>The last part of \<^verbatim>\<open>schedule\<close>: what is done with a selection.\<close>

definition start_selected ::
  "'w custom_policy \<Rightarrow> job_no list \<Rightarrow> num_nodes \<Rightarrow> running_jobs \<Rightarrow> running_jobs \<Rightarrow> projected_starts \<Rightarrow> sim_time \<Rightarrow>
   backfill_candidates \<Rightarrow> job_no \<Rightarrow> 'a custom_queue_scheme \<Rightarrow> 'w \<Rightarrow> (exn + job_no list) \<times> 'a custom_queue_scheme \<times> 'w" where
  "start_selected p ids avail running effective starts now cs i s w =
     (if i \<notin> fst ` set cs then (Inl Invalid_Argument, s, w)
      else let res = m_fcfs_reservation_time s;
               planned = reservation_within_horizon s res now;
               plan = protected_plan s avail now res running starts;
               q = cq_wait_queue s; e = cq_eligible_end_idx s;
               rejected = (case dropWhile (\<lambda>j. removed j \<or> job_id j \<noteq> i) (drop 1 (take e q)) of
                   [] \<Rightarrow> True
                 | j # _ \<Rightarrow> planned \<and> \<not> can_fit plan now (nodes_requested j) (release_estimate s now (run_time_estimate j)))
           in if rejected then end_of_cycle p ids avail effective now s w
              else let (found, visited) = custom_mark i (drop 1 (take e q)) in
                   (Inr (if found then ids @ [i] else ids),
                    s\<lparr>cq_wait_queue := take 1 q @ visited @ drop e q,
                      cq_removed_count := (if found then Suc (cq_removed_count s) else cq_removed_count s)\<rparr>, w))"

definition dispatch_heads ::
  "'a custom_queue_scheme \<Rightarrow> num_nodes \<Rightarrow> custom_entry list \<times> num_nodes \<times> 'a custom_queue_scheme" where
  "dispatch_heads s free =
     (let (heads, avail, e, r, b, q) =
            custom_heads (cq_eligible_end_idx s) (cq_removed_count s) (m_newly_eligible_begin_idx s) free (cq_wait_queue s)
      in (heads, avail, s\<lparr>cq_wait_queue := q, cq_eligible_end_idx := e, cq_removed_count := r, m_newly_eligible_begin_idx := b\<rparr>))"

definition reserve_head ::
  "'a custom_queue_scheme \<Rightarrow> num_nodes \<Rightarrow> running_jobs \<Rightarrow> sim_time \<Rightarrow> projected_starts \<Rightarrow> 'a custom_queue_scheme" where
  "reserve_head s avail running now starts =
     s\<lparr>m_fcfs_reservation_time :=
         calculate_fcfs_reservation s (nodes_requested (hd (cq_wait_queue s))) avail running now starts\<rparr>"

definition pass_candidates ::
  "'a custom_queue_scheme \<Rightarrow> num_nodes \<Rightarrow> running_jobs \<Rightarrow> sim_time \<Rightarrow> projected_starts \<Rightarrow> backfill_candidates" where
  "pass_candidates s avail running now starts =
     (let begin_idx = (if m_reevaluate_all_candidates s \<or> cq_backfill_queue_depth s \<noteq> 0 then 1 else m_newly_eligible_begin_idx s)
      in find_backfill_candidates_from s begin_idx avail now (m_fcfs_reservation_time s) running starts)"

definition effective_running :: "running_jobs \<Rightarrow> custom_entry list \<Rightarrow> projected_starts \<Rightarrow> running_jobs" where
  "effective_running running heads starts = foldl (\<lambda>m (j, run). alist_put (job_id j) run m) running (zip heads starts)"

definition custom_pass ::
  "'w custom_policy \<Rightarrow> 'a custom_queue_scheme \<Rightarrow> num_nodes \<Rightarrow> running_jobs \<Rightarrow> sim_time \<Rightarrow> 'w \<Rightarrow>
   (exn + job_no list) \<times> 'a custom_queue_scheme \<times> 'w" where
  "custom_pass p s free running now w =
     (let (heads, avail, s) = dispatch_heads s free; ids = map job_id heads; starts = map (custom_projected s now) heads
      in if custom_active_job_count s = 0 \<or> m_backfill_policy s = NONE then end_of_cycle p ids avail running now s w
      else let s = reserve_head s avail running now starts; cs = pass_candidates s avail running now starts
      in if cs = [] then end_of_cycle p ids avail running now s w
      else let effective = effective_running running heads starts;
               w = (if m_candidate_preparation_pending s
                    then on_backfill_candidates_ready p cs avail effective now (ids \<noteq> []) w else w);
               s = s\<lparr>m_candidate_preparation_pending := False\<rparr>
      in case select_backfill_candidate p cs avail effective now w of
           (Inl e, w) \<Rightarrow> (Inl e, s, w)
         | (Inr None, w) \<Rightarrow> end_of_cycle p ids avail effective now s w
         | (Inr (Some i), w) \<Rightarrow> start_selected p ids avail running effective starts now cs i s w)"

definition custom_schedule ::
  "'w custom_policy \<Rightarrow> 'a custom_queue_scheme \<Rightarrow> num_nodes \<Rightarrow> running_jobs \<Rightarrow> sim_time \<Rightarrow> 'w \<Rightarrow>
   (exn + job_no list) \<times> 'a custom_queue_scheme \<times> 'w" where
  "custom_schedule p s free running now w =
     (let s = custom_compact (custom_sync_to s now);
          w = (if m_arrival_update_pending s
               then on_jobs_became_eligible p (m_newly_eligible_begin_idx s) (cq_eligible_end_idx s) free running now w else w);
          s = s\<lparr>m_arrival_update_pending := False\<rparr>
      in if cq_eligible_end_idx s = 0 then end_of_cycle p [] free running now s w
         else custom_pass p s free running now w)"

end
