(* ===== verification/Custom_Laws.thy ===== *)
theory Custom_Laws
  imports Custom
begin

text \<open>
  The custom scheduler against the deque.  Forgetting the costs and the extra members gives a state of the deque
  scheduler, and arrivals, garbage collection and the dispatch of heads commute with that view, so the invariant and the
  abstraction of the deque carry over.  What is new is the selection: whatever the selector answers, a call starts the
  heads and at most one candidate, and a candidate leaves the reservation of the head where it is.
\<close>

section \<open>The view\<close>

definition plain :: "custom_entry \<Rightarrow> job_entry" where
  "plain j = job_entry.truncate j"

lemma plain_fields [simp]:
  "job_id (plain j) = job_id j" "submit_time (plain j) = submit_time j" "run_time_estimate (plain j) = run_time_estimate j"
  "nodes_requested (plain j) = nodes_requested j" "removed (plain j) = removed j"
  "plain (j\<lparr>removed := x\<rparr>) = plain j\<lparr>removed := x\<rparr>" "plain (new_custom_entry i t r n c) = new_entry i t r n"
  by (simp_all add: plain_def job_entry.defs new_custom_entry_def new_entry_def custom_entry.defs)

lemma plain_comp [simp]: "job_id \<circ> plain = job_id" "submit_time \<circ> plain = submit_time" "removed \<circ> plain = removed"
  by auto

definition queue_view :: "'a custom_queue_scheme \<Rightarrow> fcfs_queue" where
  "queue_view s = scheduler_base.extend (scheduler_base.truncate s) (fcfs_queue.fields (map plain (cq_wait_queue s))
     (cq_eligible_end_idx s) (cq_current_tracked_time s) (cq_removed_count s) (cq_backfill_queue_depth s))"

lemma queue_view_fields [simp]:
  "m_wait_queue (queue_view s) = map plain (cq_wait_queue s)" "m_eligible_end_idx (queue_view s) = cq_eligible_end_idx s"
  "m_current_tracked_time (queue_view s) = cq_current_tracked_time s" "m_removed_count (queue_view s) = cq_removed_count s"
  "m_backfill_queue_depth (queue_view s) = cq_backfill_queue_depth s" "m_backfill_policy (queue_view s) = m_backfill_policy s"
  "m_fcfs_reservation_time (queue_view s) = m_fcfs_reservation_time s"
  by (simp_all add: queue_view_def scheduler_base.defs fcfs_queue.defs)

lemma queue_view_updates [simp]:
  "queue_view (s\<lparr>cq_wait_queue := q\<rparr>) = queue_view s\<lparr>m_wait_queue := map plain q\<rparr>"
  "queue_view (s\<lparr>cq_eligible_end_idx := e\<rparr>) = queue_view s\<lparr>m_eligible_end_idx := e\<rparr>"
  "queue_view (s\<lparr>cq_current_tracked_time := t\<rparr>) = queue_view s\<lparr>m_current_tracked_time := t\<rparr>"
  "queue_view (s\<lparr>cq_removed_count := r\<rparr>) = queue_view s\<lparr>m_removed_count := r\<rparr>"
  "queue_view (s\<lparr>m_fcfs_reservation_time := x\<rparr>) = queue_view s\<lparr>m_fcfs_reservation_time := x\<rparr>"
  "queue_view (s\<lparr>cq_capacity := c\<rparr>) = queue_view s"
  "queue_view (s\<lparr>m_newly_eligible_begin_idx := b\<rparr>) = queue_view s"
  "queue_view (s\<lparr>m_arrival_update_pending := x1\<rparr>) = queue_view s"
  "queue_view (s\<lparr>m_reevaluate_all_candidates := x1\<rparr>) = queue_view s"
  "queue_view (s\<lparr>m_candidate_preparation_pending := x1\<rparr>) = queue_view s"
  by (simp_all add: queue_view_def scheduler_base.defs fcfs_queue.defs)

lemma view_same_planning [simp]: "same_planning (queue_view s) s" "same_planning s (queue_view s)"
  by (simp_all add: same_planning_def queue_view_def scheduler_base.defs fcfs_queue.defs)

lemma view_complete [simp]: "queue_view (complete_candidate_scan s) = queue_view s"
  by (simp add: complete_candidate_scan_def)

lemma view_notify [simp]: "queue_view (notify_resource_change s) = queue_view s"
  by (simp add: notify_resource_change_def)

lemma custom_view_sync: "queue_view (custom_sync_to s now) = deque_sync_to (queue_view s) now"
  by (simp add: custom_sync_to_def deque_sync_to_def arrived_prefix_def Let_def drop_map takeWhile_map comp_def)

lemma custom_view_compact: "queue_view (custom_compact s) = deque_compact (queue_view s)"
  by (auto simp: custom_compact_def deque_compact_def Let_def filter_map comp_def take_map)

lemma view_heads:
  "custom_heads e r b a q = (hs, a', e', r', b', q') \<Longrightarrow> start_heads e r a (map plain q) = (map plain hs, a', e', r', map plain q')"
  by (induction e r b a q arbitrary: hs rule: custom_heads.induct) (auto simp: Let_def split: if_splits prod.splits)

lemma custom_view_insert:
  assumes b: "custom_buffer_ok b" and le: "length (cq_wait_queue s) \<le> cq_capacity s"
    and ins: "insert_job_with_cost b i t r n cost s = Inr s'"
  shows "queue_view s' = deque_insert_job (queue_view s) i t r n"
    "cq_wait_queue s' = cq_wait_queue s @ [new_custom_entry i t r n cost]" "length (cq_wait_queue s') \<le> cq_capacity s'"
    "cq_overflow_policy s' = cq_overflow_policy s" "m_num_max_candidates s' = m_num_max_candidates s"
    "m_newly_eligible_begin_idx s \<le> cq_eligible_end_idx s \<Longrightarrow> cq_eligible_end_idx s \<le> length (cq_wait_queue s) \<Longrightarrow>
       m_newly_eligible_begin_idx s' \<le> cq_eligible_end_idx s'"
proof -
  define c where "c = (if length (cq_wait_queue s) = cq_capacity s then max (cq_capacity s * 2) 1 else cq_capacity s)"
  have c: "length (cq_wait_queue s) < c" using le by (auto simp: c_def)
  have push: "cub_push_back b c (cub_set_capacity b c (cq_wait_queue s)) x = cq_wait_queue s @ [x]"
    "cub_push_back b c (cq_wait_queue s) x = cq_wait_queue s @ [x]" for x
    using b c unfolding custom_buffer_ok_def by simp_all
  have eq: "s' = (let s = s\<lparr>cq_capacity := c, cq_wait_queue := cq_wait_queue s @ [new_custom_entry i t r n cost]\<rparr> in
      if t \<le> cq_current_tracked_time s
      then s\<lparr>m_newly_eligible_begin_idx := min (m_newly_eligible_begin_idx s) (cq_eligible_end_idx s),
             cq_eligible_end_idx := length (cq_wait_queue s),
             m_arrival_update_pending := True, m_candidate_preparation_pending := True\<rparr> else s)"
  proof (cases "length (cq_wait_queue s) = cq_capacity s")
    case True
    then have "c = max (cq_capacity s * 2) 1" by (simp add: c_def)
    then show ?thesis using ins push True by (auto simp: insert_job_with_cost_def Let_def split: if_splits)
  next
    case False
    then have "c = cq_capacity s" by (simp add: c_def)
    then show ?thesis using ins push False by (auto simp: insert_job_with_cost_def Let_def split: if_splits)
  qed
  show "queue_view s' = deque_insert_job (queue_view s) i t r n" by (simp add: eq deque_insert_job_def Let_def)
  show "cq_wait_queue s' = cq_wait_queue s @ [new_custom_entry i t r n cost]" by (simp add: eq Let_def)
  show "length (cq_wait_queue s') \<le> cq_capacity s'" using c by (simp add: eq Let_def)
  show "cq_overflow_policy s' = cq_overflow_policy s" "m_num_max_candidates s' = m_num_max_candidates s"
    by (simp_all add: eq Let_def)
  show "m_newly_eligible_begin_idx s' \<le> cq_eligible_end_idx s'"
    if "m_newly_eligible_begin_idx s \<le> cq_eligible_end_idx s" "cq_eligible_end_idx s \<le> length (cq_wait_queue s)"
    using that by (simp add: eq Let_def)
qed

section \<open>Invariant\<close>

abbreviation clive :: "custom_entry list \<Rightarrow> custom_entry list" where
  "clive q \<equiv> filter (\<lambda>j. \<not> removed j) q"

lemma live_plain: "live (map plain q) = map plain (clive q)"
  by (simp add: filter_map comp_def)

lemma removed_plain: "filter removed (map plain q) = map plain (filter removed q)"
  by (simp add: filter_map comp_def)

definition cq_inv :: "'a custom_queue_scheme \<Rightarrow> bool" where
  "cq_inv s \<longleftrightarrow> fq_inv (queue_view s) \<and> length (cq_wait_queue s) \<le> cq_capacity s \<and>
     m_newly_eligible_begin_idx s \<le> cq_eligible_end_idx s \<and> distinct (map job_id (clive (cq_wait_queue s)))"

abbreviation custom_pending :: "'a custom_queue_scheme \<Rightarrow> job_entry list" where
  "custom_pending s \<equiv> pending (queue_view s)"

lemma view_eligible_le: "fq_inv (queue_view s) \<Longrightarrow> cq_eligible_end_idx s \<le> length (cq_wait_queue s)"
  by (simp add: fq_inv_def)

lemma view_pending: "fq_inv (queue_view s) \<Longrightarrow> custom_pending s = map plain (clive (cq_wait_queue s))"
  using pending_split[of "queue_view s"] by (simp add: pending_def live_plain)

lemma clive_ids: "fq_inv (queue_view s) \<Longrightarrow> map job_id (clive (cq_wait_queue s)) = map job_id (custom_pending s)"
  by (simp add: view_pending)

lemma cq_inv_alt:
  "cq_inv s \<longleftrightarrow> fq_inv (queue_view s) \<and> length (cq_wait_queue s) \<le> cq_capacity s \<and>
     m_newly_eligible_begin_idx s \<le> cq_eligible_end_idx s \<and> distinct (map job_id (custom_pending s))"
  by (auto simp: cq_inv_def clive_ids)

lemma custom_sync_inv:
  assumes "cq_inv s"
  shows "cq_inv (custom_sync_to s now)"
proof -
  have "fq_inv (queue_view (custom_sync_to s now))" "custom_pending (custom_sync_to s now) = custom_pending s"
    using assms sync_to_refines[of "queue_view s" now] sync_pending[of "queue_view s" now] by (simp_all add: cq_inv_def custom_view_sync)
  then show ?thesis using assms by (auto simp: cq_inv_alt custom_sync_to_def Let_def)
qed

lemma filter_take_le: "m \<le> n \<Longrightarrow> n \<le> length q \<Longrightarrow> m - length (filter P (take m q)) \<le> n - length (filter P (take n q))"
proof -
  assume "m \<le> n" "n \<le> length q"
  then obtain k where k: "take n q = take m q @ take k (drop m q)" "n = m + k" by (metis le_iff_add take_add)
  have "length (filter P (take k (drop m q))) \<le> k" "length (filter P (take m q)) \<le> m"
    using length_filter_le[of P "take k (drop m q)"] length_filter_le[of P "take m q"] by simp_all
  then show ?thesis unfolding k(1) using k(2) by simp
qed

lemma custom_compact_inv:
  assumes "cq_inv s"
  shows "cq_inv (custom_compact s) \<and> custom_pending (custom_compact s) = custom_pending s"
proof -
  have v: "fq_inv (queue_view (custom_compact s))" "custom_pending (custom_compact s) = custom_pending s"
    using assms compact_refines[of "queue_view s"] by (simp_all add: cq_inv_def custom_view_compact pending_def)
  have "m_newly_eligible_begin_idx (custom_compact s) \<le> cq_eligible_end_idx (custom_compact s)"
    using assms filter_take_le[of "m_newly_eligible_begin_idx s" "cq_eligible_end_idx s" "cq_wait_queue s" removed]
      view_eligible_le[of s] by (auto simp: custom_compact_def Let_def cq_inv_def)
  moreover have "length (cq_wait_queue (custom_compact s)) \<le> cq_capacity (custom_compact s)"
    using assms length_filter_le[of "\<lambda>j. \<not> removed j" "cq_wait_queue s"]
    by (auto simp: custom_compact_def Let_def cq_inv_def simp del: length_filter_le intro: order_trans)
  ultimately show ?thesis using v assms by (simp add: cq_inv_alt)
qed

section \<open>Candidates\<close>

lemma candidate_loop_eq:
  "0 < m \<Longrightarrow> candidate_loop s now planned avail plan m js = map candidate_of (take m (filter (feasible s now planned avail plan) js))"
proof (induction s now planned avail plan m js rule: candidate_loop.induct)
  case (2 s now planned avail plan m j js)
  show ?case
  proof (cases "feasible s now planned avail plan j")
    case True
    obtain k where k: "m = Suc k" using 2(3) by (cases m) auto
    show ?thesis using True 2(2) k by (cases "k = 0") simp_all
  qed (use 2(1,3) in simp)
qed simp

lemma feasible_admits:
  "feasible s now planned avail plan j \<longleftrightarrow> \<not> removed j \<and> admits s now True planned avail plan (plain j)"
  by (auto simp: feasible_def admits_def)

lemma mark_split:
  assumes "\<exists>j\<in>set xs. \<not> removed j \<and> job_id j = i"
  obtains as j bs where "xs = as @ j # bs" "\<not> removed j" "job_id j = i"
    "dropWhile (\<lambda>j. removed j \<or> job_id j \<noteq> i) xs = j # bs" "custom_mark i xs = (True, as @ j\<lparr>removed := True\<rparr> # bs)"
  using assms
proof (induction xs arbitrary: thesis)
  case (Cons x xs)
  show ?case
  proof (cases "\<not> removed x \<and> job_id x = i")
    case True
    then show ?thesis using Cons(2)[of "[]" x xs] by simp
  next
    case False
    then have "\<exists>j\<in>set xs. \<not> removed j \<and> job_id j = i" using Cons(3) by auto
    from Cons(1)[OF _ this] obtain as j bs where "xs = as @ j # bs" "\<not> removed j" "job_id j = i"
      "dropWhile (\<lambda>j. removed j \<or> job_id j \<noteq> i) xs = j # bs" "custom_mark i xs = (True, as @ j\<lparr>removed := True\<rparr> # bs)" by blast
    then show ?thesis using Cons(2)[of "x # as" j bs] False by auto
  qed
qed simp

text \<open>The candidates are feasible jobs behind the head; the window of the depth is a part of the eligible range.\<close>

lemma find_candidates_sound:
  assumes inv: "fq_inv (queue_view s)" and live: "cq_wait_queue s \<noteq> []"
    and c: "(i, c) \<in> set (find_backfill_candidates_from s b avail now res running starts)"
  shows "1 < cq_eligible_end_idx s \<and>
    (\<exists>j\<in>set (drop 1 (take (cq_eligible_end_idx s) (cq_wait_queue s))). job_id j = i \<and> m_cost j = c \<and>
       feasible s now (reservation_within_horizon s res now) avail (protected_plan s avail now res running starts) j)"
proof -
  let ?q = "cq_wait_queue s" and ?e = "cq_eligible_end_idx s" and ?w = "reservation_within_horizon s res now"
  define k where "k = queue_depth_scan_end (map removed ?q) 1 ?e (cq_backfill_queue_depth s) ?w"
  have g: "0 < m_num_max_candidates s" "1 < ?e"
    using c by (auto simp: find_backfill_candidates_from_def split: if_splits)
  have "k \<le> ?e"
    using scan_range[of "map plain ?q" ?e k "cq_backfill_queue_depth s" ?w] live g(2) view_eligible_le[OF inv]
    by (simp add: k_def comp_def)
  obtain j where j: "j \<in> set (drop (max 1 b) (take k ?q))" "candidate_of j = (i, c)"
      "feasible s now ?w avail (protected_plan s avail now res running starts) j"
    using c g by (auto simp: find_backfill_candidates_from_def candidate_loop_eq Let_def k_def dest!: in_set_takeD)
  have "drop (max 1 b) (take k ?q) = drop (max 1 b - 1) (drop 1 (take k ?q))" by simp
  then have "j \<in> set (drop 1 (take k ?q))" using j(1) by (metis in_set_dropD)
  moreover have "take k ?q = take k (take ?e ?q)" using \<open>k \<le> ?e\<close> by (simp add: min_def)
  then have "drop 1 (take k ?q) = take (k - 1) (drop 1 (take ?e ?q))" by (metis drop_take)
  ultimately have "j \<in> set (drop 1 (take ?e ?q))" by (metis in_set_takeD)
  then show ?thesis using g(2) j(2,3) by (auto simp: candidate_of_def)
qed

section \<open>The parts of a call\<close>

lemma custom_heads_drop:
  "custom_heads e r b a q = (hs, a', e', r', b', q') \<Longrightarrow> b \<le> e \<Longrightarrow> b' \<le> e' \<and> (\<exists>k. q' = drop k q)"
proof (induction e r b a q arbitrary: hs rule: custom_heads.induct)
  case (2 e r b a j q)
  show ?case
  proof (cases "e > 0 \<and> (removed j \<or> nodes_requested j \<le> a)")
    case True
    have ext: "\<exists>k. q' = drop k (j # q)" if "\<exists>k. q' = drop k q" using that by (metis drop_Suc_Cons)
    have le: "b - 1 \<le> e - 1" using 2(4) by simp
    show ?thesis
    proof (cases "removed j")
      case rem: True
      then show ?thesis using 2(2)[OF True] rem 2(3) True le ext by simp
    next
      case live: False
      then obtain hs' where "custom_heads (e - 1) r (b - 1) (a - nodes_requested j) q = (hs', a', e', r', b', q')"
        using 2(3) True by (auto split: prod.splits)
      then show ?thesis using 2(1)[OF True live] le ext by blast
    qed
  next
    case False
    then show ?thesis using 2(3,4) by (auto intro: exI[of _ 0])
  qed
qed auto

lemma custom_heads_inv:
  assumes inv: "cq_inv s"
    and ch: "custom_heads (cq_eligible_end_idx s) (cq_removed_count s) (m_newly_eligible_begin_idx s) free (cq_wait_queue s) =
      (hs, a, e, r, b, q)"
    and s1: "s1 = s\<lparr>cq_wait_queue := q, cq_eligible_end_idx := e, cq_removed_count := r, m_newly_eligible_begin_idx := b\<rparr>"
  shows "cq_inv s1" "spec_heads free (waiting (queue_view s)) = (map plain hs, a, waiting (queue_view s1))"
    "future (queue_view s1) = future (queue_view s)"
    "waiting (queue_view s1) \<noteq> [] \<longrightarrow> q \<noteq> [] \<and> 0 < e \<and> \<not> removed (hd q)"
proof -
  have "start_heads (m_eligible_end_idx (queue_view s)) (m_removed_count (queue_view s)) free (m_wait_queue (queue_view s)) =
      (map plain hs, a, e, r, map plain q)" using view_heads[OF ch] by simp
  note h = start_heads_inv[OF _ this]
  have v: "queue_view s1 = queue_view s\<lparr>m_wait_queue := map plain q, m_eligible_end_idx := e, m_removed_count := r\<rparr>"
    by (simp add: s1)
  have f: "fq_inv (queue_view s)" using inv by (simp add: cq_inv_def)
  have w: "waiting (queue_view s1) = live (take e (map plain q))" "future (queue_view s1) = drop e (map plain q)"
    unfolding v by (simp_all add: waiting_def future_def)
  show "spec_heads free (waiting (queue_view s)) = (map plain hs, a, waiting (queue_view s1))"
    "future (queue_view s1) = future (queue_view s)"
    using h[OF f] by (simp_all add: w)
  show "waiting (queue_view s1) \<noteq> [] \<longrightarrow> q \<noteq> [] \<and> 0 < e \<and> \<not> removed (hd q)"
    using h[OF f] unfolding w by (auto simp: hd_map)
  obtain k where k: "q = drop k (cq_wait_queue s)" "b \<le> e" using custom_heads_drop[OF ch] inv by (auto simp: cq_inv_def)
  have "clive (cq_wait_queue s) = clive (take k (cq_wait_queue s)) @ clive q" unfolding k(1) by (metis append_take_drop_id filter_append)
  then have "distinct (map job_id (clive q))" using inv by (simp add: cq_inv_def)
  moreover have "fq_inv (queue_view s1)" using h[OF f] unfolding v by blast
  moreover have "length q \<le> cq_capacity s" using inv unfolding k(1) cq_inv_def length_drop by linarith
  ultimately show "cq_inv s1" using k(2) by (simp add: cq_inv_def s1)
qed

lemma clive_split:
  "q = h # as @ j # bs @ ts \<Longrightarrow> \<not> removed h \<Longrightarrow> \<not> removed j \<Longrightarrow>
   clive q = h # clive as @ j # clive bs @ clive ts \<and> length q = length (h # as @ j # bs @ ts)"
  by simp

lemma start_selected_law:
  assumes inv: "cq_inv s" and q: "cq_wait_queue s \<noteq> []" "\<not> removed (hd (cq_wait_queue s))"
    and cs: "cs = find_backfill_candidates_from s b avail now (m_fcfs_reservation_time s) running starts"
    and ss: "start_selected p ids avail running effective starts now cs i s w = (r, s', w')"
  shows "i \<notin> fst ` set cs \<Longrightarrow> r = Inl Invalid_Argument \<and> s' = s"
    and "i \<in> fst ` set cs \<Longrightarrow> cq_inv s' \<and> r = Inr (ids @ [i]) \<and> w' = w \<and> future (queue_view s') = future (queue_view s) \<and>
      m_fcfs_reservation_time s' = m_fcfs_reservation_time s \<and> cq_current_tracked_time s' = cq_current_tracked_time s \<and>
      (\<exists>head as j bs. waiting (queue_view s) = head # as @ j # bs \<and> waiting (queue_view s') = head # as @ bs \<and> job_id j = i \<and>
         head = plain (hd (cq_wait_queue s)) \<and>
         admits s now True (reservation_within_horizon s (m_fcfs_reservation_time s) now) avail
           (protected_plan s avail now (m_fcfs_reservation_time s) running starts) j)"
proof -
  let ?q = "cq_wait_queue s" and ?e = "cq_eligible_end_idx s" and ?res = "m_fcfs_reservation_time s"
  let ?w = "reservation_within_horizon s ?res now" and ?plan = "protected_plan s avail now ?res running starts"
  show "i \<notin> fst ` set cs \<Longrightarrow> r = Inl Invalid_Argument \<and> s' = s" using ss by (simp add: start_selected_def)
  assume i: "i \<in> fst ` set cs"
  then obtain c where "(i, c) \<in> set (find_backfill_candidates_from s b avail now ?res running starts)" unfolding cs by auto
  from find_candidates_sound[OF _ q(1) this] inv obtain x where e: "1 < ?e"
    and x: "x \<in> set (drop 1 (take ?e ?q))" "job_id x = i" "feasible s now ?w avail ?plan x" by (auto simp: cq_inv_def)
  have ex: "\<exists>j\<in>set (drop 1 (take ?e ?q)). \<not> removed j \<and> job_id j = i" using x by (auto simp: feasible_def)
  obtain as j bs where m: "drop 1 (take ?e ?q) = as @ j # bs" "\<not> removed j" "job_id j = i"
    "dropWhile (\<lambda>j. removed j \<or> job_id j \<noteq> i) (drop 1 (take ?e ?q)) = j # bs"
    "custom_mark i (drop 1 (take ?e ?q)) = (True, as @ j\<lparr>removed := True\<rparr> # bs)" by (rule mark_split[OF ex])
  have el: "?e \<le> length ?q" using inv view_eligible_le[of s] by (simp add: cq_inv_def)
  have tq: "take ?e ?q = hd ?q # as @ j # bs" using m(1) q(1) e by (cases ?q; cases ?e) auto
  then have split: "?q = hd ?q # as @ j # bs @ drop ?e ?q" by (metis append.assoc append_Cons append_take_drop_id)
  note cl = clive_split[OF split q(2) m(2)]
  have "distinct (map job_id (hd ?q # clive as @ j # clive bs @ clive (drop ?e ?q)))"
    using inv unfolding cq_inv_def cl[THEN conjunct1] by blast
  then have uniq: "k = j" if "k \<in> set (as @ j # bs)" "\<not> removed k" "job_id k = i" for k
    using that m(2,3) by (auto simp: image_iff)
  have "x = j" using uniq[of x] x m(1) by (simp add: feasible_def)
  then have f: "feasible s now ?w avail ?plan j" using x(3) by simp
  have s': "s' = s\<lparr>cq_wait_queue := take 1 ?q @ (as @ j\<lparr>removed := True\<rparr> # bs) @ drop ?e ?q,
      cq_removed_count := Suc (cq_removed_count s)\<rparr>" and r: "r = Inr (ids @ [i])" "w' = w"
    using ss i m(4,5) f by (auto simp: start_selected_def feasible_def Let_def)
  have v: "queue_view s' = queue_view s\<lparr>m_wait_queue := take 1 (map plain ?q) @ map plain (as @ j\<lparr>removed := True\<rparr> # bs) @ drop ?e (map plain ?q),
      m_removed_count := m_removed_count (queue_view s) + 1, m_fcfs_reservation_time := m_fcfs_reservation_time (queue_view s)\<rparr>"
    by (simp add: s' take_map drop_map)
  have d1: "drop 1 (take ?e (map plain ?q)) = map plain (as @ j # bs)" using m(1) by (metis drop_map take_map)
  have "fq_inv (queue_view s') \<and> waiting (queue_view s') =
      live (take 1 (map plain ?q) @ map plain (as @ j\<lparr>removed := True\<rparr> # bs) @ drop ?e (take ?e (map plain ?q))) \<and>
      future (queue_view s') = future (queue_view s)"
  proof (rule fq_inv_splice[OF _ _ _ _ _ _ _ v])
    show "fq_inv (queue_view s)" using inv by (simp add: cq_inv_def)
    show "map submit_time (map plain (as @ j\<lparr>removed := True\<rparr> # bs)) = map submit_time (drop 1 (take ?e (map plain ?q)))"
      unfolding d1 by simp
    show "length (filter removed (map plain (as @ j\<lparr>removed := True\<rparr> # bs))) = length (filter removed (drop 1 (take ?e (map plain ?q)))) + 1"
      unfolding d1 using m(2) by simp
  qed (use e in simp_all)
  moreover have t1: "take 1 ?q = [hd ?q]" using q(1) by (cases ?q) auto
  ultimately have w: "fq_inv (queue_view s')" "future (queue_view s') = future (queue_view s)"
    "waiting (queue_view s') = plain (hd ?q) # live (map plain as) @ live (map plain bs)"
    using q(2) by (simp_all add: take_map)
  have w0: "waiting (queue_view s) = plain (hd ?q) # live (map plain as) @ plain j # live (map plain bs)"
    using tq q(2) m(2) by (simp add: waiting_def take_map)
  have "cq_wait_queue s' = hd ?q # as @ j\<lparr>removed := True\<rparr> # bs @ drop ?e ?q" by (simp add: s' t1[unfolded One_nat_def])
  then have q': "clive (cq_wait_queue s') = hd ?q # clive as @ clive bs @ clive (drop ?e ?q)"
    "length (cq_wait_queue s') = length (hd ?q # as @ j # bs @ drop ?e ?q)" using q(2) by simp_all
  have "distinct (map job_id (clive (cq_wait_queue s')))"
    using inv unfolding cq_inv_def cl[THEN conjunct1] q'(1) by simp
  moreover have "length (cq_wait_queue s') = length ?q" using q'(2) cl by metis
  moreover have "cq_capacity s' = cq_capacity s" "m_newly_eligible_begin_idx s' = m_newly_eligible_begin_idx s"
    "cq_eligible_end_idx s' = cq_eligible_end_idx s" by (simp_all add: s')
  ultimately have "cq_inv s'" using inv w(1) unfolding cq_inv_def by metis
  moreover have "m_fcfs_reservation_time s' = ?res" "cq_current_tracked_time s' = cq_current_tracked_time s" by (simp_all add: s')
  moreover have "job_id (plain j) = i" "admits s now True ?w avail ?plan (plain j)" using m(3) f by (simp_all add: feasible_admits)
  ultimately show "cq_inv s' \<and> r = Inr (ids @ [i]) \<and> w' = w \<and> future (queue_view s') = future (queue_view s) \<and>
      m_fcfs_reservation_time s' = ?res \<and> cq_current_tracked_time s' = cq_current_tracked_time s \<and>
      (\<exists>head as j bs. waiting (queue_view s) = head # as @ j # bs \<and> waiting (queue_view s') = head # as @ bs \<and> job_id j = i \<and>
         head = plain (hd ?q) \<and> admits s now True ?w avail ?plan j)"
    using r w w0 by blast
qed

section \<open>A call\<close>

text \<open>The outcome of a call after the heads: nothing more, or one candidate, or the exception of a selection.\<close>

definition picks ::
  "'a scheduler_base_scheme \<Rightarrow> num_nodes \<Rightarrow> running_jobs \<Rightarrow> sim_time \<Rightarrow> job_entry list \<Rightarrow> job_entry list \<Rightarrow> sim_time \<Rightarrow> job_entry \<Rightarrow> job_entry list \<Rightarrow> bool" where
  "picks s avail running now hs rest res j kept \<longleftrightarrow>
     (\<exists>head as bs. rest = head # as @ j # bs \<and> kept = head # as @ bs \<and> m_backfill_policy s \<noteq> NONE \<and>
        res = calculate_fcfs_reservation s (nodes_requested head) avail running now (map (projected s now) hs) \<and>
        admits s now True (reservation_within_horizon s res now) avail
          (if reservation_within_horizon s res now
           then reserve (head_plan s avail running now hs) res (nodes_requested head)
                  (release_estimate s res (run_time_estimate head))
           else head_plan s avail running now hs) j)"

definition custom_outcome ::
  "'a custom_queue_scheme \<Rightarrow> num_nodes \<Rightarrow> running_jobs \<Rightarrow> sim_time \<Rightarrow> job_entry list \<Rightarrow> job_entry list \<Rightarrow>
   (exn + job_no list) \<Rightarrow> 'a custom_queue_scheme \<Rightarrow> bool" where
  "custom_outcome s avail running now hs rest r s' \<longleftrightarrow> cq_inv s' \<and> future (queue_view s') = future (queue_view s) \<and>
     cq_current_tracked_time s' = cq_current_tracked_time s \<and>
     (\<forall>head behind. rest = head # behind \<and> m_backfill_policy s \<noteq> NONE \<longrightarrow> m_fcfs_reservation_time s' =
        calculate_fcfs_reservation s (nodes_requested head) avail running now (map (projected s now) hs)) \<and>
     (((r = Inr (map job_id hs) \<or> (\<exists>e. r = Inl e)) \<and> waiting (queue_view s') = rest) \<or>
      (\<exists>j. r = Inr (map job_id hs @ [job_id j]) \<and>
        picks s avail running now hs rest (m_fcfs_reservation_time s') j (waiting (queue_view s'))))"

lemma planning_views: "same_planning s1 s \<Longrightarrow> release_estimate s1 = release_estimate s"
  by (rule planning_cong(1))

lemma custom_projected_plain: "custom_projected s now j = projected s now (plain j)"
  by (simp add: custom_projected_def projected_def)

lemma admits_cong: "same_planning s s' \<Longrightarrow> admits s = admits s'"
  by (intro ext) (simp add: admits_def planning_cong(1))

lemma reservation_cong: "same_planning s s' \<Longrightarrow> calculate_fcfs_reservation s = calculate_fcfs_reservation s'"
  by (intro ext) (simp add: calculate_fcfs_reservation_def planning_cong(2))

lemma cq_inv_flags:
  "cq_inv s \<Longrightarrow> cq_inv (complete_candidate_scan s)"
  "cq_inv (s\<lparr>m_arrival_update_pending := x\<rparr>) = cq_inv s" "cq_inv (s\<lparr>m_candidate_preparation_pending := x\<rparr>) = cq_inv s"
  "cq_inv (s\<lparr>m_fcfs_reservation_time := y\<rparr>) = cq_inv s" "cq_inv s \<Longrightarrow> cq_inv (notify_resource_change s)"
proof -
  show "cq_inv s \<Longrightarrow> cq_inv (complete_candidate_scan s)" by (simp add: cq_inv_def) (simp add: complete_candidate_scan_def)
  show "cq_inv s \<Longrightarrow> cq_inv (notify_resource_change s)" by (simp add: cq_inv_def) (simp add: notify_resource_change_def)
  show "cq_inv (s\<lparr>m_fcfs_reservation_time := y\<rparr>) = cq_inv s" by (simp add: cq_inv_def fq_inv_def)
qed (simp_all add: cq_inv_def)

lemma end_outcome:
  assumes "cq_inv s1" "future (queue_view s1) = future (queue_view s)" "waiting (queue_view s1) = rest"
    "cq_current_tracked_time s1 = cq_current_tracked_time s" "ids = map job_id hs"
    and "end_of_cycle p ids avail' running' now s1 w = (r, s', w')"
    and "\<And>head behind. rest = head # behind \<Longrightarrow> m_backfill_policy s \<noteq> NONE \<Longrightarrow> m_fcfs_reservation_time s1 =
        calculate_fcfs_reservation s (nodes_requested head) avail running now (map (projected s now) hs)"
  shows "custom_outcome s avail running now hs rest r s'"
proof -
  have s': "s' = complete_candidate_scan s1" "r = Inr ids" using assms(6) by (auto simp: end_of_cycle_def)
  have "cq_current_tracked_time s' = cq_current_tracked_time s1" "m_fcfs_reservation_time s' = m_fcfs_reservation_time s1" by (simp_all add: s' complete_candidate_scan_def)
  then show ?thesis using assms s' cq_inv_flags(1)[OF assms(1)] by (simp add: custom_outcome_def)
qed

lemma find_candidates_flag:
  "find_backfill_candidates_from (s\<lparr>m_candidate_preparation_pending := x\<rparr>) = find_backfill_candidates_from s"
proof -
  have sp: "same_planning (s\<lparr>m_candidate_preparation_pending := x\<rparr>) s" by (simp add: same_planning_def)
  have "candidate_loop (s\<lparr>m_candidate_preparation_pending := x\<rparr>) now planned avail plan m js = candidate_loop s now planned avail plan m js"
    for now planned avail plan m js
    by (induction js arbitrary: m) (simp_all add: feasible_admits admits_cong[OF sp])
  then show ?thesis
    by (intro ext) (simp add: find_backfill_candidates_from_def protected_plan_def planning_cong[OF sp] Let_def)
qed

text \<open>What a call shows to the selector, and what it makes of the answer.\<close>

definition call_candidates :: "'a custom_queue_scheme \<Rightarrow> num_nodes \<Rightarrow> running_jobs \<Rightarrow> sim_time \<Rightarrow> backfill_candidates" where
  "call_candidates s free running now =
     (let (heads, avail, s) = dispatch_heads s free; starts = map (custom_projected s now) heads
      in if custom_active_job_count s = 0 \<or> m_backfill_policy s = NONE then []
         else pass_candidates (reserve_head s avail running now starts) avail running now starts)"

definition answered :: "job_no list \<Rightarrow> backfill_candidates \<Rightarrow> exn + job_no option \<Rightarrow> exn + job_no list" where
  "answered ids cs answer = (case answer of
       Inl e \<Rightarrow> Inl e
     | Inr None \<Rightarrow> Inr ids
     | Inr (Some i) \<Rightarrow> if i \<in> fst ` set cs then Inr (ids @ [i]) else Inl Invalid_Argument)"

lemma custom_pass_outcome:
  assumes inv: "cq_inv s" and sh: "spec_heads free (waiting (queue_view s)) = (hs, avail, rest)"
    and pass: "custom_pass p s free running now w = (r, s', w')"
  shows "custom_outcome s avail running now hs rest r s' \<and>
    (if call_candidates s free running now = [] then r = Inr (map job_id hs)
     else \<exists>effective w1. r = answered (map job_id hs) (call_candidates s free running now)
       (fst (select_backfill_candidate p (call_candidates s free running now) avail effective now w1)))"
proof -
  obtain chs a e rc b q where ch: "custom_heads (cq_eligible_end_idx s) (cq_removed_count s) (m_newly_eligible_begin_idx s) free (cq_wait_queue s) =
      (chs, a, e, rc, b, q)" by (metis prod_cases6)
  define s1 where "s1 = s\<lparr>cq_wait_queue := q, cq_eligible_end_idx := e, cq_removed_count := rc, m_newly_eligible_begin_idx := b\<rparr>"
  have dh: "dispatch_heads s free = (chs, a, s1)" by (simp add: dispatch_heads_def ch s1_def)
  note h = custom_heads_inv[OF inv ch s1_def]
  have eq: "hs = map plain chs" "avail = a" "rest = waiting (queue_view s1)" using h(2) sh by simp_all
  have f1: "cq_current_tracked_time s1 = cq_current_tracked_time s" "cq_wait_queue s1 = q" "m_backfill_policy s1 = m_backfill_policy s"
    by (simp_all add: s1_def)
  have ids: "map job_id chs = map job_id hs" by (simp add: eq(1))
  have act: "custom_active_job_count s1 = length rest"
    using active_job_count_waiting[of "queue_view s1"] h(1) eq(3)
    by (simp add: custom_active_job_count_def deque_active_job_count_def cq_inv_def)
  have sp: "same_planning s1 s" by (simp add: same_planning_def s1_def)
  define starts where "starts = map (custom_projected s1 now) chs"
  have starts: "starts = map (projected s now) hs"
    by (simp add: starts_def eq(1) custom_projected_plain planning_cong(3)[OF sp] comp_def)
  note stop = end_outcome[where hs = hs and ids = "map job_id chs" and rest = rest and s = s and r = r and s' = s' and w' = w' and p = p and now = now]
  show ?thesis
  proof (cases "rest = [] \<or> m_backfill_policy s = NONE")
    case True
    then have "end_of_cycle p (map job_id chs) a running now s1 w = (r, s', w')"
      using pass act f1(3) by (auto simp: custom_pass_def dh)
    moreover have "call_candidates s free running now = []" using True act f1(3) by (simp add: call_candidates_def dh)
    ultimately show ?thesis using stop[OF h(1,3) eq(3)[symmetric] f1(1) ids] ids True by (auto simp: end_of_cycle_def)
  next
    case False
    then have q: "q \<noteq> []" "0 < e" "\<not> removed (hd q)" using h(4) eq(3) by auto
    define s2 where "s2 = reserve_head s1 a running now starts"
    define cs where "cs = pass_candidates s2 a running now starts"
    define s3 where "s3 = s2\<lparr>m_candidate_preparation_pending := False\<rparr>"
    define res where "res = m_fcfs_reservation_time s2"
    define w1 where "w1 = (if m_candidate_preparation_pending s2
      then on_backfill_candidates_ready p cs a (effective_running running chs starts) now (map job_id chs \<noteq> []) w else w)"
    have cc: "call_candidates s free running now = cs"
      using False act f1(3) by (simp add: call_candidates_def dh cs_def s2_def starts_def Let_def)
    have go: "custom_pass p s free running now w =
      (if cs = [] then end_of_cycle p (map job_id chs) a running now s2 w
       else case select_backfill_candidate p cs a (effective_running running chs starts) now w1 of
           (Inl e, w) \<Rightarrow> (Inl e, s3, w)
         | (Inr None, w) \<Rightarrow> end_of_cycle p (map job_id chs) a (effective_running running chs starts) now s3 w
         | (Inr (Some i), w) \<Rightarrow> start_selected p (map job_id chs) a running (effective_running running chs starts) starts now cs i s3 w)"
      using False act f1(3) unfolding custom_pass_def dh Let_def prod.case starts_def[symmetric] s2_def[symmetric]
        cs_def[symmetric] w1_def[symmetric] s3_def[symmetric] by simp
    have v3: "queue_view s3 = queue_view s1\<lparr>m_fcfs_reservation_time := res\<rparr>" "queue_view s2 = queue_view s1\<lparr>m_fcfs_reservation_time := res\<rparr>"
      by (simp_all add: s3_def s2_def res_def reserve_head_def)
    have i3: "cq_inv s3" "cq_inv s2" using h(1) by (simp_all add: s3_def s2_def reserve_head_def cq_inv_flags)
    have w3: "waiting (queue_view s3) = rest" "future (queue_view s3) = future (queue_view s)"
      "waiting (queue_view s2) = rest" "future (queue_view s2) = future (queue_view s)"
      using eq(3) h(3) unfolding v3 by (simp_all add: waiting_def future_def)
    have t3: "cq_current_tracked_time s3 = cq_current_tracked_time s" "cq_current_tracked_time s2 = cq_current_tracked_time s"
      "m_fcfs_reservation_time s3 = res" "cq_wait_queue s3 = q"
      using f1 by (simp_all add: s3_def s2_def res_def reserve_head_def)
    have sp3: "same_planning s3 s" using sp by (simp add: same_planning_def s3_def s2_def reserve_head_def)
    define effective where "effective = effective_running running chs starts"
    have rest_hd: "rest = plain (hd q) # tl rest"
    proof -
      have "rest = live (take e (map plain q))" using eq(3) by (simp add: waiting_def s1_def take_map)
      then show ?thesis using live_pos[of "map plain q" e] q by (simp add: hd_map)
    qed
    have res: "res = calculate_fcfs_reservation s (nodes_requested (plain (hd q))) a running now (map (projected s now) hs)"
      by (simp add: res_def s2_def reserve_head_def f1 starts reservation_cong[OF sp])
    have rsv: "\<And>head behind. rest = head # behind \<Longrightarrow> m_backfill_policy s \<noteq> NONE \<Longrightarrow> res =
        calculate_fcfs_reservation s (nodes_requested head) avail running now (map (projected s now) hs)"
      using rest_hd res eq(2) by (metis list.inject)
    have r23: "m_fcfs_reservation_time s2 = res" "m_fcfs_reservation_time s3 = res" by (simp_all add: res_def s3_def)
    obtain o1 w2 where sel: "select_backfill_candidate p cs a effective now w1 = (o1, w2)" by fastforce
    have ans: "?thesis" if "custom_outcome s avail running now hs rest r s'" "if cs = [] then r = Inr (map job_id hs) else r = answered (map job_id hs) cs o1"
      using that sel unfolding cc eq(2) by (metis fst_conv)
    consider (empty) "cs = []" "end_of_cycle p (map job_id chs) a running now s2 w = (r, s', w')"
      | (threw) x where "cs \<noteq> []" "o1 = Inl x" "r = Inl x" "s' = s3"
      | (declined) "cs \<noteq> []" "o1 = Inr None" "end_of_cycle p (map job_id chs) a effective now s3 w2 = (r, s', w')"
      | (selected) i where "cs \<noteq> []" "o1 = Inr (Some i)"
          "start_selected p (map job_id chs) a running effective starts now cs i s3 w2 = (r, s', w')"
      using pass sel unfolding go effective_def by (cases o1) (auto split: if_splits option.splits)
    then show ?thesis
    proof cases
      case empty
      then show ?thesis using stop[OF i3(2) w3(4,3) t3(2) ids] ids rsv r23 by (intro ans) (auto simp: end_of_cycle_def)
    next
      case threw
      then show ?thesis using i3 w3 t3 rsv by (intro ans) (simp_all add: custom_outcome_def answered_def)
    next
      case declined
      then show ?thesis using stop[OF i3(1) w3(2,1) t3(1) ids] ids rsv r23 by (intro ans) (auto simp: end_of_cycle_def answered_def)
    next
      case selected
      obtain k where cs3: "cs = find_backfill_candidates_from s3 k a now (m_fcfs_reservation_time s3) running starts"
        by (simp add: cs_def pass_candidates_def s3_def find_candidates_flag)
      note l = start_selected_law[OF i3(1) _ _ cs3 selected(3), unfolded t3(4), OF q(1,3)]
      show ?thesis
      proof (cases "i \<in> fst ` set cs")
        case False
        with l(1)[OF this] selected show ?thesis
          using i3 w3 t3 rsv by (intro ans) (simp_all add: custom_outcome_def answered_def)
      next
        case True
        from l(2)[OF this] obtain as j bs where j: "rest = plain (hd q) # as @ j # bs" "waiting (queue_view s') = plain (hd q) # as @ bs"
            "job_id j = i" "admits s3 now True (reservation_within_horizon s3 res now) a (protected_plan s3 a now res running starts) j"
          unfolding w3 t3 by blast
        have pl: "protected_plan s3 a now res running starts = (if reservation_within_horizon s res now
            then reserve (head_plan s a running now hs) res (nodes_requested (plain (hd q)))
                   (release_estimate s res (run_time_estimate (plain (hd q))))
            else head_plan s a running now hs)"
          by (simp add: protected_plan_def head_plan_def starts planning_cong[OF sp3] t3(4) Let_def)
        have "admits s now True (reservation_within_horizon s res now) a (if reservation_within_horizon s res now
            then reserve (head_plan s a running now hs) res (nodes_requested (plain (hd q)))
                   (release_estimate s res (run_time_estimate (plain (hd q))))
            else head_plan s a running now hs) j"
          using j(4) unfolding admits_cong[OF sp3] planning_cong(4)[OF sp3] pl .
        then have "picks s avail running now hs rest res j (waiting (queue_view s'))"
          unfolding picks_def eq(2) using j(1,2) False res
          by (intro exI[of _ "plain (hd q)"] exI[of _ as] exI[of _ bs]) blast
        then have "custom_outcome s avail running now hs rest r s'"
          using l(2)[OF True] j(3) w3 t3 ids rsv unfolding custom_outcome_def by auto
        then show ?thesis using l(2)[OF True] selected True ids by (intro ans) (simp_all add: answered_def)
      qed
    qed
  qed
qed

lemma picks_cong:
  assumes "same_planning s s'"
  shows "picks s = picks s'"
proof -
  have "m_backfill_policy s = m_backfill_policy s'" using assms by (simp add: same_planning_def)
  then show ?thesis
    by (intro ext) (simp add: picks_def head_plan_def reservation_cong[OF assms] admits_cong[OF assms] planning_cong[OF assms])
qed

definition at_call :: "'a custom_queue_scheme \<Rightarrow> sim_time \<Rightarrow> 'a custom_queue_scheme" where
  "at_call s now = (custom_compact (custom_sync_to s now))\<lparr>m_arrival_update_pending := False\<rparr>"

definition offered :: "'a custom_queue_scheme \<Rightarrow> num_nodes \<Rightarrow> running_jobs \<Rightarrow> sim_time \<Rightarrow> backfill_candidates" where
  "offered s free running now = call_candidates (at_call s now) free running now"

lemma offered_none: "cq_eligible_end_idx s = 0 \<Longrightarrow> call_candidates s free running now = []"
proof -
  have "custom_heads 0 r b a q = ([], a, 0, r, b, q)" for r b a q by (cases q) simp_all
  then show "cq_eligible_end_idx s = 0 \<Longrightarrow> call_candidates s free running now = []"
    by (simp add: call_candidates_def dispatch_heads_def custom_active_job_count_def)
qed

lemma at_call_law:
  assumes "cq_inv s"
  shows "cq_inv (at_call s now)" "waiting (queue_view (at_call s now)) = waiting (queue_view (custom_sync_to s now))"
    "future (queue_view (at_call s now)) = future (queue_view (custom_sync_to s now))"
    "cq_current_tracked_time (at_call s now) = cq_current_tracked_time (custom_sync_to s now)"
    "same_planning (at_call s now) (custom_sync_to s now)"
proof -
  let ?u = "custom_sync_to s now"
  have u: "cq_inv ?u" by (rule custom_sync_inv[OF assms])
  have v: "queue_view (at_call s now) = deque_compact (queue_view ?u)" by (simp add: at_call_def custom_view_compact)
  show "cq_inv (at_call s now)" using custom_compact_inv[OF u] by (simp add: at_call_def cq_inv_flags)
  show "waiting (queue_view (at_call s now)) = waiting (queue_view ?u)" "future (queue_view (at_call s now)) = future (queue_view ?u)"
    using compact_refines[of "queue_view ?u"] u unfolding v cq_inv_def by blast+
  show "cq_current_tracked_time (at_call s now) = cq_current_tracked_time ?u" "same_planning (at_call s now) ?u"
    by (simp_all add: at_call_def custom_compact_def Let_def same_planning_def)
qed

theorem custom_schedule_outcome:
  assumes inv: "cq_inv s" and sh: "spec_heads free (waiting (queue_view (custom_sync_to s now))) = (hs, avail, rest)"
    and sch: "custom_schedule p s free running now w = (r, s', w')"
  shows "custom_outcome (custom_sync_to s now) avail running now hs rest r s' \<and>
    (if offered s free running now = [] then r = Inr (map job_id hs)
     else \<exists>effective w1. r = answered (map job_id hs) (offered s free running now)
       (fst (select_backfill_candidate p (offered s free running now) avail effective now w1)))"
proof -
  define c where "c = at_call s now"
  note c = at_call_law[OF inv, of now, folded c_def]
  have move: "custom_outcome (custom_sync_to s now) avail running now hs rest r s'" if "custom_outcome c avail running now hs rest r s'"
    using that unfolding custom_outcome_def c(3,4) picks_cong[OF c(5)] reservation_cong[OF c(5)] planning_cong(3,5)[OF c(5)] .
  obtain w0 where go: "custom_schedule p s free running now w =
      (if cq_eligible_end_idx c = 0 then end_of_cycle p [] free running now c w0 else custom_pass p c free running now w0)"
    unfolding custom_schedule_def Let_def at_call_def[symmetric] c_def[symmetric] by (simp add: c_def at_call_def)
  have off: "offered s free running now = call_candidates c free running now" by (simp add: offered_def c_def)
  show ?thesis
  proof (cases "cq_eligible_end_idx c = 0")
    case True
    then have nil: "waiting (queue_view c) = []" by (simp add: waiting_def)
    then have e: "hs = []" "rest = []" using sh c(2) by auto
    have cyc: "end_of_cycle p [] free running now c w0 = (r, s', w')" using sch go True by simp
    then have "custom_outcome c avail running now hs rest r s'"
      using nil e by (intro end_outcome[OF c(1) refl _ refl]) simp_all
    moreover have "r = Inr []" using cyc by (simp add: end_of_cycle_def)
    ultimately show ?thesis using move off offered_none[OF True] e by simp
  next
    case False
    then have "custom_pass p c free running now w0 = (r, s', w')" using sch go by simp
    from custom_pass_outcome[OF c(1) sh[folded c(2)] this] show ?thesis using move off by simp
  qed
qed

text \<open>The clock, and that the members that plan are the caller's.\<close>

lemma custom_clock: "cq_current_tracked_time (custom_sync_to s now) = max (cq_current_tracked_time s) now"
  by (auto simp: custom_sync_to_def max_def Let_def)

lemma sync_planning: "same_planning (custom_sync_to s now) s"
  by (simp add: custom_sync_to_def same_planning_def Let_def)

lemma picked_nodes: "picks s avail running now hs rest res j kept \<Longrightarrow> nodes_requested j \<le> avail"
  by (auto simp: picks_def admits_def)

lemma custom_schedule_law:
  assumes inv: "cq_inv s" and sch: "custom_schedule p s free running now w = (r, s', w')"
  shows "cq_inv s' \<and> cq_current_tracked_time s' = max (cq_current_tracked_time s) now \<and>
    (\<forall>ids. r = Inr ids \<longrightarrow> (\<exists>st. ids = map job_id st \<and> mset (custom_pending s) = mset st + mset (custom_pending s') \<and>
       nodes_sum st \<le> unat free \<and> (\<forall>j\<in>set st. submit_time j \<le> cq_current_tracked_time s')))"
proof -
  let ?u = "custom_sync_to s now"
  obtain hs a rest where sh: "spec_heads free (waiting (queue_view ?u)) = (hs, a, rest)" by (metis prod_cases3)
  note o = conjunct1[OF custom_schedule_outcome[OF inv sh sch], unfolded custom_outcome_def]
  note h = spec_heads_correct[OF sh]
  have u: "fq_inv (queue_view ?u)" "custom_pending ?u = custom_pending s"
    using custom_sync_inv[OF inv] sync_pending[of "queue_view s" now] inv by (simp_all add: cq_inv_def custom_view_sync)
  have clk: "cq_current_tracked_time s' = max (cq_current_tracked_time s) now" using o custom_clock[of s now] by auto
  have arrived: "submit_time j \<le> cq_current_tracked_time s'" if "j \<in> set (waiting (queue_view ?u))" for j
    using waiting_arrived[OF u(1) that] by (simp add: clk custom_clock)
  have pend: "mset (custom_pending s) = mset hs + mset rest + mset (future (queue_view ?u))"
    using u(2) h by (metis mset_append pending_def)
  have pend': "mset (custom_pending s') = mset (waiting (queue_view s')) + mset (future (queue_view ?u))"
    using o by (metis mset_append pending_def)
  have "\<exists>st. ids = map job_id st \<and> mset (custom_pending s) = mset st + mset (custom_pending s') \<and>
       nodes_sum st \<le> unat free \<and> (\<forall>j\<in>set st. submit_time j \<le> cq_current_tracked_time s')" if r: "r = Inr ids" for ids
  proof -
    consider (none) "ids = map job_id hs" "waiting (queue_view s') = rest"
      | (one) j where "ids = map job_id hs @ [job_id j]"
        "picks ?u a running now hs rest (m_fcfs_reservation_time s') j (waiting (queue_view s'))" using o r by auto
    then show ?thesis
    proof cases
      case none
      have "\<forall>j\<in>set hs. submit_time j \<le> cq_current_tracked_time s'" using arrived h by auto
      then show ?thesis using h none pend pend' by (intro exI[of _ hs] conjI) (simp_all add: union_assoc)
    next
      case one
      then obtain head as bs where k: "rest = head # as @ j # bs" "waiting (queue_view s') = head # as @ bs"
        by (auto simp: picks_def)
      have "nodes_sum (hs @ [j]) \<le> unat free" using h picked_nodes[OF one(2)] by (simp add: word_le_nat_alt)
      moreover have "\<forall>j\<in>set (hs @ [j]). submit_time j \<le> cq_current_tracked_time s'" using arrived h k(1) by auto
      ultimately show ?thesis using one(1) pend pend' k by (intro exI[of _ "hs @ [j]"] conjI) simp_all
    qed
  qed
  then show ?thesis using o clk by blast
qed

section \<open>The EASY guarantee\<close>

text \<open>Whatever job the selector picked, the head's reservation, projected again with the picked job running, is the same.\<close>

lemma picks_guarantee:
  assumes out: "outlook_ok s" "m_outlook_occupied s \<le> m_outlook_capacity s"
    and bound: "\<And>t. now \<le> t \<Longrightarrow> balance_at s free running now [] t < 2 ^ 32"
    and sh: "spec_heads free ws = (hs, avail, rest)"
    and pk: "picks s avail running now hs rest res j kept"
    and planned: "reservation_within_horizon s res now"
    and head: "res < res + release_estimate s res (run_time_estimate (hd rest))"
    and pos: "\<forall>j\<in>set ws. now < now + release_estimate s now (run_time_estimate j)"
  shows "calculate_fcfs_reservation s (nodes_requested (hd rest)) (free - sum_list (map nodes_requested (hs @ [j]))) running now
      (map (projected s now) (hs @ [j])) = res"
proof -
  obtain hd' as bs where k: "rest = hd' # as @ j # bs" "hd rest = hd'"
    "res = calculate_fcfs_reservation s (nodes_requested hd') avail running now (map (projected s now) hs)"
    "admits s now True True avail (reserve (head_plan s avail running now hs) res (nodes_requested hd')
        (release_estimate s res (run_time_estimate hd'))) j"
    using pk planned by (auto simp: picks_def)
  have pos': "\<forall>j\<in>set ws. now < end_time (projected s now j)" using pos by (simp add: end_time_projected)
  note heads = balance_heads[OF out(2) sh pos']
  have b: "balance_at s avail running now (map (projected s now) hs) t < 2 ^ 32" if "now \<le> t" for t
    using le_less_trans[OF heads(2) bound[OF that]] .
  have "spec_backfill s now True True avail (reserve (head_plan s avail running now hs) res (nodes_requested hd')
      (release_estimate s res (run_time_estimate hd'))) [j] = ([j], [])" using k(4) by simp
  moreover have "j \<in> set ws" using spec_heads_correct[OF sh] k(1) by auto
  ultimately show ?thesis
    using backfill_keeps_reservation[OF out b k(3) planned, of "release_estimate s res (run_time_estimate hd')" True "[j]" "[j]" "[]"]
      head pos' heads(1) k(2) by (simp add: diff_diff_eq)
qed

theorem custom_head_kept:
  assumes inv: "cq_inv s" and out: "outlook_ok s" "m_outlook_occupied s \<le> m_outlook_capacity s"
    and bound: "\<And>t. now \<le> t \<Longrightarrow> balance_at s free running now [] t < 2 ^ 32"
    and pol: "m_backfill_policy s \<noteq> NONE"
    and sch: "custom_schedule p s free running now w = (Inr ids, s', w')"
    and blocked: "waiting (queue_view s') = head # behind"
    and planned: "reservation_within_horizon s (m_fcfs_reservation_time s') now"
    and head: "m_fcfs_reservation_time s' < m_fcfs_reservation_time s' + release_estimate s (m_fcfs_reservation_time s') (run_time_estimate head)"
    and pos: "\<forall>j\<in>set (waiting (queue_view (custom_sync_to s now))). now < now + release_estimate s now (run_time_estimate j)"
  shows "\<exists>st. ids = map job_id st \<and> mset (waiting (queue_view (custom_sync_to s now))) = mset st + mset (waiting (queue_view s')) \<and>
    calculate_fcfs_reservation s (nodes_requested head) (free - sum_list (map nodes_requested st)) running now (map (projected s now) st) =
      m_fcfs_reservation_time s'"
proof -
  let ?u = "custom_sync_to s now" and ?res = "m_fcfs_reservation_time s'"
  obtain hs a rest where sh: "spec_heads free (waiting (queue_view ?u)) = (hs, a, rest)" by (metis prod_cases3)
  have sp: "same_planning ?u s" by (rule sync_planning)
  note o = conjunct1[OF custom_schedule_outcome[OF inv sh sch], unfolded custom_outcome_def picks_cong[OF sp] reservation_cong[OF sp]
      planning_cong(3,5)[OF sp]]
  note h = spec_heads_correct[OF sh]
  have pos': "\<forall>j\<in>set (waiting (queue_view ?u)). now < end_time (projected s now j)" using pos by (simp add: end_time_projected)
  consider (none) "ids = map job_id hs" "waiting (queue_view s') = rest"
    | (one) j where "ids = map job_id hs @ [job_id j]" "picks s a running now hs rest ?res j (waiting (queue_view s'))"
    using o by auto
  then show ?thesis
  proof cases
    case none
    have "rest = head # behind" using none(2) blocked by simp
    then have "?res = calculate_fcfs_reservation s (nodes_requested head) a running now (map (projected s now) hs)"
      using o pol by blast
    then show ?thesis using none h balance_heads(1)[OF out(2) sh pos'] by (intro exI[of _ hs] conjI) simp_all
  next
    case one
    obtain as bs where k: "rest = head # as @ j # bs" "waiting (queue_view s') = head # as @ bs"
      using one(2) blocked unfolding picks_def by force
    have "calculate_fcfs_reservation s (nodes_requested (hd rest)) (free - sum_list (map nodes_requested (hs @ [j]))) running now
        (map (projected s now) (hs @ [j])) = ?res"
      using head k(1) by (intro picks_guarantee[OF out bound sh one(2) planned _ pos]) simp_all
    moreover have "mset (waiting (queue_view ?u)) = mset (hs @ [j]) + mset (waiting (queue_view s'))"
      using conjunct1[OF h] k by simp
    ultimately show ?thesis using one(1) k(1) by (intro exI[of _ "hs @ [j]"] conjI) simp_all
  qed
qed

section \<open>What the selector sees\<close>

lemma drop_live: "\<exists>k. live (drop m xs) = drop k (live xs) \<and> (m = 0 \<longrightarrow> k = 0)"
proof (cases "m = 0")
  case False
  have "live xs = live (take m xs) @ live (drop m xs)" by (metis append_take_drop_id filter_append)
  then have "live (drop m xs) = drop (length (live (take m xs))) (live xs)" by simp
  then show ?thesis using False by blast
qed auto

lemma feasible_plain:
  "map fst (map candidate_of (take m (filter (feasible s now planned avail plan) xs))) =
   map job_id (take m (filter (admits s now True planned avail plan) (live (map plain xs))))"
proof -
  have "map plain (filter (feasible s now planned avail plan) xs) = filter (admits s now True planned avail plan) (live (map plain xs))"
    by (induction xs) (auto simp: feasible_admits)
  then have "map job_id (take m (filter (admits s now True planned avail plan) (live (map plain xs)))) =
      map job_id (take m (map plain (filter (feasible s now planned avail plan) xs)))" by simp
  then show ?thesis by (simp add: take_map candidate_of_def comp_def)
qed

lemma call_candidates_eq:
  assumes inv: "cq_inv s" and sh: "spec_heads free (waiting (queue_view s)) = (hs, avail, head # behind)"
    and pol: "m_backfill_policy s \<noteq> NONE" and m: "0 < m_num_max_candidates s"
    and res: "res = calculate_fcfs_reservation s (nodes_requested head) avail running now (map (projected s now) hs)"
    and planned: "planned = reservation_within_horizon s res now"
    and plan: "plan = (if planned then reserve (head_plan s avail running now hs) res (nodes_requested head)
        (release_estimate s res (run_time_estimate head)) else head_plan s avail running now hs)"
  shows "\<exists>k. map fst (call_candidates s free running now) = map job_id (take (m_num_max_candidates s)
      (filter (admits s now True planned avail plan) (drop k (fst (candidates (cq_backfill_queue_depth s) planned behind))))) \<and>
    (m_reevaluate_all_candidates s \<or> cq_backfill_queue_depth s \<noteq> 0 \<longrightarrow> k = 0)"
proof -
  obtain chs a e rc b q where ch: "custom_heads (cq_eligible_end_idx s) (cq_removed_count s) (m_newly_eligible_begin_idx s) free (cq_wait_queue s) =
      (chs, a, e, rc, b, q)" by (metis prod_cases6)
  define s1 where "s1 = s\<lparr>cq_wait_queue := q, cq_eligible_end_idx := e, cq_removed_count := rc, m_newly_eligible_begin_idx := b\<rparr>"
  have dh: "dispatch_heads s free = (chs, a, s1)" by (simp add: dispatch_heads_def ch s1_def)
  note h = custom_heads_inv[OF inv ch s1_def]
  have eq: "hs = map plain chs" "avail = a" "head # behind = waiting (queue_view s1)" using h(2) sh by simp_all
  have q: "q \<noteq> []" "0 < e" "\<not> removed (hd q)" using h(4) eq(3)[symmetric] by simp_all
  have act: "custom_active_job_count s1 \<noteq> 0"
    using active_job_count_waiting[of "queue_view s1"] h(1) eq(3)[symmetric]
    by (simp add: custom_active_job_count_def deque_active_job_count_def cq_inv_def)
  define starts where "starts = map (custom_projected s1 now) chs"
  define s2 where "s2 = reserve_head s1 a running now starts"
  have sp: "same_planning s1 s" "same_planning s2 s" by (simp_all add: same_planning_def s1_def s2_def reserve_head_def)
  have starts: "starts = map (projected s now) hs"
    by (simp add: starts_def eq(1) custom_projected_plain planning_cong(3)[OF sp(1)] comp_def)
  have el: "e \<le> length q" using view_eligible_le[of s1] h(1) by (simp add: cq_inv_def s1_def)
  have w: "waiting (queue_view s1) = live (take e (map plain q))" by (simp add: waiting_def s1_def take_map)
  have hd: "head = plain (hd q)" "behind = live (drop 1 (take e (map plain q)))"
    using live_pos[of "map plain q" e] q eq(3) w by (simp_all add: hd_map)
  have r2: "m_fcfs_reservation_time s2 = res" "cq_wait_queue s2 = q" "cq_eligible_end_idx s2 = e"
    "cq_backfill_queue_depth s2 = cq_backfill_queue_depth s" "m_num_max_candidates s2 = m_num_max_candidates s"
    "m_reevaluate_all_candidates s2 = m_reevaluate_all_candidates s"
    using res by (simp_all add: s2_def reserve_head_def) (simp_all add: s1_def starts eq(2) hd(1) reservation_cong[OF sp(1), unfolded s1_def])
  have pl: "protected_plan s2 a now res running starts = plan"
    by (simp add: protected_plan_def r2 starts planning_cong[OF sp(2)] plan planned hd(1) head_plan_def eq(2) Let_def)
  define n where "n = (if m_reevaluate_all_candidates s2 \<or> cq_backfill_queue_depth s2 \<noteq> 0 then 1 else m_newly_eligible_begin_idx s2)"
  have cc: "call_candidates s free running now = find_backfill_candidates_from s2 n a now res running starts"
    using act pol by (simp add: call_candidates_def dh Let_def pass_candidates_def n_def r2 starts_def[symmetric] s2_def[symmetric]) (simp add: s1_def)
  define k where "k = queue_depth_scan_end (map removed (map plain q)) 1 e (cq_backfill_queue_depth s) planned"
  have sr: "fst (candidates (cq_backfill_queue_depth s) planned behind) = live (map plain (drop 1 (take k q)))"
    using scan_range[of "map plain q" e k "cq_backfill_queue_depth s" planned] q el unfolding hd(2) by (simp add: k_def take_map drop_map)
  obtain i where i: "live (drop (max 1 n - 1) (map plain (drop 1 (take k q)))) = drop i (live (map plain (drop 1 (take k q))))"
    "max 1 n - 1 = 0 \<longrightarrow> i = 0" using drop_live by blast
  have "map fst (call_candidates s free running now) = map job_id (take (m_num_max_candidates s)
      (filter (admits s now True planned avail plan) (drop i (fst (candidates (cq_backfill_queue_depth s) planned behind)))))"
  proof (cases "e \<le> 1")
    case True
    then have "behind = []" unfolding hd(2) by simp
    then show ?thesis using True unfolding cc by (simp add: find_backfill_candidates_from_def r2 candidates_def)
  next
    case False
    have "call_candidates s free running now = map candidate_of (take (m_num_max_candidates s)
        (filter (feasible s2 now planned avail plan) (drop (max 1 n) (take k q))))"
      using False m unfolding cc by (simp add: find_backfill_candidates_from_def r2 pl candidate_loop_eq Let_def k_def comp_def
          planning_cong(4)[OF sp(2)] planned[symmetric] eq(2))
    moreover have "drop (max 1 n) (take k q) = drop (max 1 n - 1) (drop 1 (take k q))" by simp
    ultimately show ?thesis using i(1) unfolding sr
      by (simp only: feasible_plain drop_map[symmetric] admits_cong[OF sp(2)])
  qed
  moreover have "m_reevaluate_all_candidates s \<or> cq_backfill_queue_depth s \<noteq> 0 \<longrightarrow> i = 0"
    using i(2) by (auto simp: n_def r2)
  ultimately show ?thesis by blast
qed

lemma at_call_fields:
  "m_num_max_candidates (at_call s now) = m_num_max_candidates s" "cq_backfill_queue_depth (at_call s now) = cq_backfill_queue_depth s"
  "m_reevaluate_all_candidates (at_call s now) = m_reevaluate_all_candidates s"
  by (simp_all add: at_call_def custom_compact_def custom_sync_to_def Let_def)

lemma at_call_planning: "same_planning (at_call s now) s"
proof -
  have "same_planning (at_call s now) (custom_sync_to s now)"
    by (simp add: at_call_def custom_compact_def Let_def same_planning_def)
  then show ?thesis using sync_planning[of s now] by (simp add: same_planning_def)
qed

theorem offered_law:
  assumes inv: "cq_inv s" and sh: "spec_heads free (waiting (queue_view (custom_sync_to s now))) = (hs, avail, head # behind)"
    and pol: "m_backfill_policy s \<noteq> NONE" and m: "0 < m_num_max_candidates s"
    and res: "res = calculate_fcfs_reservation s (nodes_requested head) avail running now (map (projected s now) hs)"
    and planned: "planned = reservation_within_horizon s res now"
    and plan: "plan = (if planned then reserve (head_plan s avail running now hs) res (nodes_requested head)
        (release_estimate s res (run_time_estimate head)) else head_plan s avail running now hs)"
  shows "\<exists>k. map fst (offered s free running now) = map job_id (take (m_num_max_candidates s)
      (filter (admits s now True planned avail plan) (drop k (fst (candidates (cq_backfill_queue_depth s) planned behind))))) \<and>
    (m_reevaluate_all_candidates s \<or> cq_backfill_queue_depth s \<noteq> 0 \<longrightarrow> k = 0)"
proof -
  note c = at_call_law[OF inv, of now] and sp = at_call_planning[of s now]
  have pol': "m_backfill_policy (at_call s now) \<noteq> NONE" "0 < m_num_max_candidates (at_call s now)"
    using pol m sp by (simp_all add: at_call_fields same_planning_def)
  have cong: "calculate_fcfs_reservation (at_call s now) = calculate_fcfs_reservation s"
    "reservation_within_horizon (at_call s now) = reservation_within_horizon s" "admits (at_call s now) = admits s"
    "head_plan (at_call s now) = head_plan s" "release_estimate (at_call s now) = release_estimate s"
    "projected (at_call s now) = projected s"
    by (simp_all add: reservation_cong[OF sp] planning_cong[OF sp] admits_cong[OF sp]) (intro ext, simp add: head_plan_def planning_cong[OF sp])
  show ?thesis
    using call_candidates_eq[OF c(1) sh[folded c(2)] pol' refl refl refl, of running now] unfolding offered_def at_call_fields cong res planned plan .
qed

section \<open>Against the EASY pass\<close>

lemma spec_first:
  "spec_backfill s now True planned avail plan js = (st, kept) \<Longrightarrow> take 1 st = take 1 (filter (admits s now True planned avail plan) js)"
  by (induction js arbitrary: st kept) (auto split: if_splits prod.splits)

lemma map_fst_hd: "cs \<noteq> [] \<Longrightarrow> fst (hd cs) = hd (map fst cs)"
  by (cases cs) auto

theorem first_choice_is_easy:
  assumes inv: "cq_inv s" and m: "0 < m_num_max_candidates s" and scan: "m_reevaluate_all_candidates s \<or> cq_backfill_queue_depth s \<noteq> 0"
    and first: "\<And>cs a eff w. cs \<noteq> [] \<Longrightarrow> fst (select_backfill_candidate p cs a eff now w) = Inr (Some (fst (hd cs)))"
    and er: "er = easy_pass s (cq_backfill_queue_depth s) free running now (waiting (queue_view (custom_sync_to s now)))"
    and pos: "\<forall>j\<in>set (waiting (queue_view (custom_sync_to s now))). 0 < nodes_requested j"
    and proj: "er_reservation er \<noteq> dbl_max"
    and sch: "custom_schedule p s free running now w = (r, s', w')"
  shows "r = Inr (map job_id (er_heads er @ take 1 (er_backfilled er)))"
proof -
  let ?W = "waiting (queue_view (custom_sync_to s now))" and ?off = "offered s free running now"
  obtain hs a rest where sh: "spec_heads free ?W = (hs, a, rest)" by (metis prod_cases3)
  note o = custom_schedule_outcome[OF inv sh sch]
  have ans: "r = Inr (map job_id hs @ take 1 (map fst ?off))"
  proof (cases "?off = []")
    case False
    with o first[OF False] obtain i where i: "fst (hd ?off) = i" "r = answered (map job_id hs) ?off (Inr (Some i))" by auto
    have "i \<in> fst ` set ?off" using False i(1) by (metis hd_in_set image_eqI)
    moreover have "take 1 (map fst ?off) = [i]" using False i(1) by (cases ?off) auto
    ultimately show ?thesis using i(2) by (simp add: answered_def)
  qed (use o in simp)
  show ?thesis
  proof (cases "rest = [] \<or> m_backfill_policy s = NONE")
    case True
    then have "?off = [] \<and> er_heads er = hs \<and> er_backfilled er = []"
    proof -
      have "er_heads er = hs \<and> er_backfilled er = []"
        using True unfolding er by (auto simp: easy_pass_def sh Let_def split: list.splits)
      moreover have "?off = []"
      proof (rule ccontr)
        assume "?off \<noteq> []"
        then have "r \<noteq> Inr (map job_id hs)" using ans by (cases ?off) auto
        then show False using o True by (auto simp: custom_outcome_def picks_def sync_planning[unfolded same_planning_def] ans)
      qed
      ultimately show ?thesis by blast
    qed
    then show ?thesis using ans by simp
  next
    case False
    then obtain head behind where rest: "rest = head # behind" by (cases rest) auto
    define plan where "plan = head_plan s a running now hs"
    define res where "res = calculate_fcfs_reservation s (nodes_requested head) a running now (map (projected s now) hs)"
    define planned where "planned = reservation_within_horizon s res now"
    define plan' where "plan' = (if planned then reserve (head_plan s a running now hs) res (nodes_requested head)
        (release_estimate s res (run_time_estimate head)) else head_plan s a running now hs)"
    note off = offered_law[OF inv sh[unfolded rest] _ m res_def planned_def plan'_def]
    obtain cs unseen where c: "candidates (cq_backfill_queue_depth s) planned behind = (cs, unseen)" by fastforce
    have ids: "map fst ?off = map job_id (take (m_num_max_candidates s) (filter (admits s now True planned a plan') cs))"
      using off False scan c by fastforce
    have res': "value_or_max (earliest_fit plan (nodes_requested head) 0 now) = res"
      by (simp add: res_def plan_def calculate_fcfs_reservation_def head_plan_def)
    obtain st kept where sb: "spec_backfill s now True planned a plan' cs = (st, kept)" by fastforce
    have e: "er_heads er = hs" "er_reservation er = res" "er_backfilled er = (if a = 0 then [] else st)"
      using False sb[unfolded plan'_def, folded plan_def] proj unfolding er
      by (auto simp: easy_pass_def sh rest Let_def plan_def[symmetric] res' planned_def[symmetric] c split: prod.splits if_splits)
    have "take 1 (map fst ?off) = map job_id (take 1 (filter (admits s now True planned a plan') cs))"
      using m unfolding ids by (simp add: take_map min_def)
    also have "\<dots> = map job_id (take 1 (er_backfilled er))"
    proof (cases "a = 0")
      case True
      have "set cs \<subseteq> set ?W" using spec_heads_correct[OF sh] rest candidates_append[OF c] by auto
      then have "0 < nodes_requested j" if "j \<in> set cs" for j using pos that by blast
      then have "filter (admits s now True planned a plan') cs = []" using True by (force simp: filter_empty_conv admits_def)
      then show ?thesis using e True by simp
    qed (use e spec_first[OF sb] in simp)
    finally show ?thesis using ans e by simp
  qed
qed

text \<open>A head that the plan has no place for: the built-in schedulers start nothing behind it, the custom one
  offers every job that fits now.\<close>

lemma admits_unplanned: "admits s now True False a plan = (\<lambda>j. nodes_requested j \<le> a)"
  by (intro ext) (simp add: admits_def)

lemma spec_no_projection: "spec_backfill s now False planned a plan js = ([], js)"
  by (induction js) (simp_all add: admits_def)

theorem unprojected_head:
  assumes inv: "cq_inv s" and m: "0 < m_num_max_candidates s" and pol: "m_backfill_policy s \<noteq> NONE"
    and scan: "m_reevaluate_all_candidates s \<or> cq_backfill_queue_depth s \<noteq> 0"
    and sh: "spec_heads free (waiting (queue_view (custom_sync_to s now))) = (hs, a, head # behind)"
    and none: "calculate_fcfs_reservation s (nodes_requested head) a running now (map (projected s now) hs) = dbl_max"
  shows "map fst (offered s free running now) = map job_id (take (m_num_max_candidates s)
      (filter (\<lambda>j. nodes_requested j \<le> a) (fst (candidates (cq_backfill_queue_depth s) False behind))))"
    and "er_backfilled (easy_pass s (cq_backfill_queue_depth s) free running now (waiting (queue_view (custom_sync_to s now)))) = []"
proof -
  have h: "\<not> reservation_within_horizon s dbl_max now" by (simp add: reservation_within_horizon_def)
  show "map fst (offered s free running now) = map job_id (take (m_num_max_candidates s)
      (filter (\<lambda>j. nodes_requested j \<le> a) (fst (candidates (cq_backfill_queue_depth s) False behind))))"
    using offered_law[OF inv sh pol m refl refl refl, of running] scan by (auto simp: none h admits_unplanned)
  have "value_or_max (earliest_fit (head_plan s a running now hs) (nodes_requested head) 0 now) = dbl_max"
    using none by (simp add: calculate_fcfs_reservation_def head_plan_def)
  then show "er_backfilled (easy_pass s (cq_backfill_queue_depth s) free running now (waiting (queue_view (custom_sync_to s now)))) = []"
    using h by (auto simp: easy_pass_def sh Let_def spec_no_projection split: prod.splits)
qed

section \<open>The query without running jobs\<close>

text \<open>\<^verbatim>\<open>find_backfill_candidates\<close> plans without the running jobs.  The head of a blocked queue needs more than the free
  nodes, so subtracting its reservation wraps, and the reservation excludes no job.\<close>

lemma wrapped_capacity:
  fixes a h n :: "32 word"
  assumes "a < h" "h \<le> 2147483648" "n \<le> a"
  shows "n \<le> a - h"
  using assms by (simp add: word_le_nat_alt word_less_nat_alt unat_sub_if')

lemma flat_timeline:
  assumes "m_outlook_changes s = []" "\<not> (a = 0 \<and> m_outlook_capacity s < m_outlook_occupied s)" "now \<le> t"
  shows "cap (reservation_timeline s a [] now []) t = a"
proof -
  have "0 < uint a \<or> a = 0" using uint_0_iff[of a] uint_ge_0[of a] by linarith
  then show ?thesis using assms by (auto simp: tl_simps outlook_ok_def balance_at_def initial_balance_def released_def clamp_def)
qed

theorem query_ignores_reservation:
  assumes flat: "m_outlook_changes s = []" "\<not> (a = 0 \<and> m_outlook_capacity s < m_outlook_occupied s)"
    and q: "cq_wait_queue s = head # behind" and blocked: "a < nodes_requested head" "nodes_requested head \<le> 2147483648"
    and now: "now \<le> res" and m: "0 < m_num_max_candidates s" and depth: "cq_backfill_queue_depth s = 0"
  shows "find_backfill_candidates s a now res =
    map candidate_of (take (m_num_max_candidates s)
      (filter (\<lambda>j. \<not> removed j \<and> nodes_requested j \<le> a) (take (cq_eligible_end_idx s - 1) behind)))"
proof -
  define T where "T = reservation_timeline s a [] now []"
  have wf: "wf_tl T" "origin T = now" by (simp_all add: T_def)
  have cap: "cap T t = a" if "now \<le> t" for t using flat_timeline[OF flat that] by (simp add: T_def)
  define d where "d = release_estimate s res (run_time_estimate head)"
  have le: "n \<le> cap (reserve T res (nodes_requested head) d) t" if "now \<le> t" "n \<le> a" for n t
    using that wf now cap[OF that(1)] wrapped_capacity[OF blocked that(2)] by (simp add: tl_simps)
  have fit: "can_fit (if p then reserve T res (nodes_requested head) d else T) now n l" if "n \<le> a" for p n l
    using that wf now le cap by (auto simp: can_fit_iff fits_def)
  have "feasible s now p a (protected_plan s a now res [] []) j \<longleftrightarrow> \<not> removed j \<and> nodes_requested j \<le> a" for p j
    using fit[of "nodes_requested j" "reservation_within_horizon s res now"]
    by (auto simp: feasible_def protected_plan_def Let_def q T_def[symmetric] d_def[symmetric])
  then have feas: "feasible s now p a (protected_plan s a now res [] []) = (\<lambda>j. \<not> removed j \<and> nodes_requested j \<le> a)" for p
    by (intro ext)
  show ?thesis
    using m depth by (simp add: find_backfill_candidates_def find_backfill_candidates_from_def queue_depth_scan_end_def
        candidate_loop_eq feas Let_def q take_Cons')
qed

section \<open>The scheduler interface\<close>

text \<open>A selector that answers with a candidate or with nothing, and does not throw.\<close>

definition honest :: "'w custom_policy \<Rightarrow> bool" where
  "honest p \<longleftrightarrow> (\<forall>cs a eff now w. cs \<noteq> [] \<longrightarrow>
     (case fst (select_backfill_candidate p cs a eff now w) of
        Inl _ \<Rightarrow> False | Inr None \<Rightarrow> True | Inr (Some i) \<Rightarrow> i \<in> fst ` set cs))"

definition custom_insert :: "custom_buffer \<Rightarrow> 'w custom_policy \<Rightarrow> ('a custom_queue_scheme \<times> 'w) insert_fun" where
  "custom_insert b p s i t r n =
     (case custom_insert_job b p i t r n (fst s) (snd s) of (Inl e, _) \<Rightarrow> Inl e | (Inr s', w') \<Rightarrow> Inr (s', w'))"

definition custom_sync :: "'a custom_queue_scheme \<times> 'w \<Rightarrow> sim_time \<Rightarrow> 'a custom_queue_scheme \<times> 'w" where
  "custom_sync s t = (custom_sync_to (fst s) t, snd s)"

definition custom_call :: "'w custom_policy \<Rightarrow> ('a custom_queue_scheme \<times> 'w) schedule_fun" where
  "custom_call p s free running now =
     (case custom_schedule p (fst s) free running now (snd s) of (Inl _, s') \<Rightarrow> ([], s') | (Inr ids, s') \<Rightarrow> (ids, s'))"

definition custom_accepts :: "'a custom_queue_scheme \<times> 'w \<Rightarrow> job_no \<Rightarrow> sim_time \<Rightarrow> bool" where
  "custom_accepts s i t \<longleftrightarrow> in_order (queue_view (fst s)) t \<and> i \<notin> job_id ` set (custom_pending (fst s))"

lemma honest_returns:
  assumes "honest p" "cq_inv s" "custom_schedule p s free running now w = (r, s', w')"
  shows "\<exists>ids. r = Inr ids"
proof -
  obtain hs a rest where sh: "spec_heads free (waiting (queue_view (custom_sync_to s now))) = (hs, a, rest)" by (metis prod_cases3)
  have o: "if offered s free running now = [] then r = Inr (map job_id hs)
     else \<exists>effective w1. r = answered (map job_id hs) (offered s free running now)
       (fst (select_backfill_candidate p (offered s free running now) a effective now w1))"
    using custom_schedule_outcome[OF assms(2) sh assms(3)] by blast
  show ?thesis
  proof (cases "offered s free running now = []")
    case False
    with o obtain eff w1 where r: "r = answered (map job_id hs) (offered s free running now)
        (fst (select_backfill_candidate p (offered s free running now) a eff now w1))" by auto
    have "case fst (select_backfill_candidate p (offered s free running now) a eff now w1) of
        Inl _ \<Rightarrow> False | Inr None \<Rightarrow> True | Inr (Some i) \<Rightarrow> i \<in> fst ` set (offered s free running now)"
      using assms(1) False unfolding honest_def by blast
    then show ?thesis unfolding r answered_def by (auto split: sum.splits option.splits)
  qed (use o in auto)
qed

lemma custom_insert_law:
  assumes b: "custom_buffer_ok b" and inv: "cq_inv s" and ord: "in_order (queue_view s) t" and new: "i \<notin> job_id ` set (custom_pending s)"
    and ins: "insert_job_with_cost b i t r n c s = Inr s'"
  shows "cq_inv s' \<and> mset (custom_pending s') = add_mset (new_entry i t r n) (mset (custom_pending s)) \<and>
    cq_current_tracked_time s' = cq_current_tracked_time s"
proof -
  have le: "length (cq_wait_queue s) \<le> cq_capacity s" "m_newly_eligible_begin_idx s \<le> cq_eligible_end_idx s"
    "fq_inv (queue_view s)" using inv by (simp_all add: cq_inv_def)
  note v = custom_view_insert[OF b le(1) ins]
  have "deque_insert (queue_view s) i t r n = Inr (queue_view s')" by (simp add: deque_insert_def v(1))
  from dq.ins_law[OF le(3) ord this] have d: "fq_inv (queue_view s')"
    "mset (custom_pending s') = add_mset (new_entry i t r n) (mset (custom_pending s))"
    "m_current_tracked_time (queue_view s') = m_current_tracked_time (queue_view s)" by blast+
  have "mset (map job_id (custom_pending s')) = mset (i # map job_id (custom_pending s))" using d(2) by (simp add: new_entry_def)
  then have "distinct (map job_id (custom_pending s')) = distinct (i # map job_id (custom_pending s))" by (rule mset_eq_imp_distinct_iff)
  then have "distinct (map job_id (custom_pending s'))" using new inv by (simp add: cq_inv_alt)
  then show ?thesis using d v(3) v(6)[OF le(2) view_eligible_le[OF le(3)]] by (simp add: cq_inv_alt)
qed

locale custom_client =
  fixes b :: custom_buffer and p :: "'w custom_policy"
  assumes push_law: "custom_buffer_ok b"
    and answer_law: "honest p"

sublocale custom_client \<subseteq> scheduler "custom_insert b p" custom_sync "custom_call p" custom_accepts
    "\<lambda>s. custom_pending (fst s)" "\<lambda>s. cq_inv (fst s)" "\<lambda>s. cq_current_tracked_time (fst s)"
proof (unfold_locales, goal_cases)
  case (1 s i t r n s')
  then obtain c where "insert_job_with_cost b i t r n c (fst s) = Inr (fst s')"
    by (auto simp: custom_insert_def custom_insert_job_def split: option.splits prod.splits sum.splits)
  then show ?case using 1(1,2) custom_insert_law[OF push_law, of "fst s" t i r n c "fst s'"] by (simp add: custom_accepts_def)
next
  case (2 s t)
  then show ?case using custom_sync_inv[of "fst s" t] sync_pending[of "queue_view (fst s)" t]
    by (simp add: custom_sync_def custom_clock custom_view_sync cq_inv_def)
next
  case (3 s free running now ids s')
  obtain o1 s1 w1 where c: "custom_schedule p (fst s) free running now (snd s) = (o1, s1, w1)" by (metis prod_cases3)
  then obtain js where "o1 = Inr js" using honest_returns[OF answer_law 3(1)] by blast
  then have "ids = js" "s' = (s1, w1)" "o1 = Inr ids" using 3(2) c by (simp_all add: custom_call_def)
  then show ?case using custom_schedule_law[OF 3(1) c] by (simp only: fst_conv) metis
qed

context custom_client
begin

lemma custom_started_once:
  assumes "cq_inv (fst s)" "custom_pending (fst s) = []"
    and "admissible custom_accepts (custom_insert b p) custom_sync (custom_call p) s ops"
    and "run_ops (custom_insert b p) custom_sync (custom_call p) s ops = Inr (batches, s')" "distinct (submitted ops)"
  shows "distinct (concat batches) \<and> set (concat batches) \<inter> set (map job_id (custom_pending (fst s'))) = {} \<and>
    set (concat batches) \<union> set (map job_id (custom_pending (fst s'))) = set (submitted ops)"
  using started_once[OF assms] .

end

text \<open>The buffer as its library documents it, and the selector that takes the first candidate at the cost of a job's number.\<close>

definition documented_custom_buffer :: custom_buffer where
  "documented_custom_buffer = \<lparr>
     cub_push_back = (\<lambda>c xs x. if c = 0 then [] else if length xs < c then xs @ [x] else tl xs @ [x]),
     cub_set_capacity = (\<lambda>c xs. take c xs)\<rparr>"

lemma documented_custom_buffer_ok: "custom_buffer_ok documented_custom_buffer"
  by (auto simp: custom_buffer_ok_def documented_custom_buffer_def)

definition first_choice :: "unit custom_policy" where
  "first_choice = base_policy (Some (\<lambda>i t r n w. (Inr (int i), w)))
     (Some (\<lambda>cs w. (Inr (case cs of [] \<Rightarrow> None | c # _ \<Rightarrow> Some (fst c)), w)))"

lemma first_choice_select: "select_backfill_candidate first_choice cs a eff now w = (Inr (case cs of [] \<Rightarrow> None | c # _ \<Rightarrow> Some (fst c)), w)"
  by (simp add: first_choice_def base_policy_def select_backfill_candidate_def)

lemma first_choice_honest: "honest first_choice"
  by (auto simp: honest_def first_choice_select split: list.split)

interpretation fc: custom_client documented_custom_buffer first_choice
  by unfold_locales (rule documented_custom_buffer_ok first_choice_honest)+

text \<open>The constructor establishes the invariant.\<close>

lemma new_custom_inv:
  assumes "new_custom tn initial bf m p capacity overflow = Inr s"
  shows "cq_inv s" "custom_pending s = []" "m_num_max_candidates s = m" "0 < m" "m_backfill_policy s = bf" "bf \<noteq> CONSERVATIVE"
    "cq_current_tracked_time s = 0" "cq_overflow_policy s = overflow" "m_total_nodes s = tn"
proof -
  have s: "s = scheduler_base.extend (new_base tn bf)
        (custom_queue.fields [] (if capacity \<noteq> 0 then capacity else initial) overflow 0 0 0 m 0 False False True 0 0 0 tn 0)"
    and g: "m \<noteq> 0" "bf \<noteq> CONSERVATIVE"
    using assms by (auto simp: new_custom_def new_custom_core_def split: if_splits)
  show "cq_inv s" "custom_pending s = []" "m_num_max_candidates s = m" "0 < m" "m_backfill_policy s = bf" "bf \<noteq> CONSERVATIVE"
    "cq_current_tracked_time s = 0" "cq_overflow_policy s = overflow" "m_total_nodes s = tn"
    using g by (simp_all add: s cq_inv_def fq_inv_def pending_def waiting_def future_def new_base_def scheduler_base.defs custom_queue.defs)
qed

section \<open>Resource accounting\<close>

text \<open>The event loop's calls over a sequence of event times: close the interval, then commit the free nodes.\<close>

fun account :: "(int \<times> num_nodes) list \<Rightarrow> 'a custom_queue_scheme \<Rightarrow> exn + 'a custom_queue_scheme" where
  "account [] s = Inr s"
| "account ((t, n) # es) s = (case advance_resource_accounting_to (dbl t) s of
       Inl e \<Rightarrow> Inl e
     | Inr s \<Rightarrow> (case commit_available_nodes n s of Inl e \<Rightarrow> Inl e | Inr s \<Rightarrow> account es s))"

fun node_seconds :: "int \<Rightarrow> int \<Rightarrow> int \<Rightarrow> (int \<times> num_nodes) list \<Rightarrow> int" where
  "node_seconds machine t free [] = 0"
| "node_seconds machine t free ((t', n) # es) = (machine - free) * (t' - t) + node_seconds machine t' (uint n) es"

lemma account_exact:
  assumes "m_resource_area s = dbl area" "m_resource_area_time s = dbl t" "m_accounted_available_nodes s \<le> m_total_nodes s"
    and "0 \<le> t" "sorted (t # map fst es)" "\<forall>e\<in>set es. fst e \<le> l \<and> snd e \<le> m_total_nodes s"
    and "0 \<le> area" "area \<le> uint (m_total_nodes s) * t" "uint (m_total_nodes s) * l \<le> 9007199254740992" "t \<le> l" "l \<le> 9007199254740992"
  shows "\<exists>s'. account es s = Inr s' \<and>
    m_resource_area s' = dbl (area + node_seconds (uint (m_total_nodes s)) t (uint (m_accounted_available_nodes s)) es)"
  using assms
proof (induction es arbitrary: s area t)
  case (Cons e es)
  obtain t' n where e: "e = (t', n)" by fastforce
  let ?T = "uint (m_total_nodes s)" and ?f = "uint (m_accounted_available_nodes s)"
  have t': "t \<le> t'" "t' \<le> l" "n \<le> m_total_nodes s" "0 \<le> t'" using Cons.prems e by auto
  have f: "?f \<le> ?T" "0 \<le> ?f" using Cons.prems(3) by (simp_all add: word_le_def)
  have al: "uint (m_total_nodes s - m_accounted_available_nodes s) = ?T - ?f"
    using Cons.prems(3) by (simp add: uint_minus_simple_alt)
  define d where "d = (?T - ?f) * (t' - t)"
  have "(?T - ?f) * (t' - t) \<le> ?T * (t' - t)" using f t' by (intro mult_right_mono) auto
  then have "d \<le> ?T * t' - ?T * t" by (simp add: d_def right_diff_distrib)
  then have d: "0 \<le> d" "area + d \<le> ?T * t'" using f t' Cons.prems(8) by (simp_all add: d_def)
  have "?T * t' \<le> ?T * l" using t' by (intro mult_left_mono) auto
  then have b: "area + d \<le> 9007199254740992" "d \<le> 9007199254740992" using d Cons.prems(7,9) by linarith+
  have "?T < 4294967296" using uint_lt2p[of "m_total_nodes s"] by simp
  then have Tb: "\<bar>?T - ?f\<bar> \<le> 9007199254740992" using f by linarith
  have tb: "\<bar>t\<bar> \<le> 9007199254740992" "\<bar>t'\<bar> \<le> 9007199254740992" "\<bar>t' - t\<bar> \<le> 9007199254740992"
    using t' Cons.prems(4,11) by linarith+
  have ab: "\<bar>area\<bar> \<le> 9007199254740992" "\<bar>d\<bar> \<le> 9007199254740992" using b d(1) Cons.prems(7) by linarith+
  have "dbl (?T - ?f) * (dbl t' - dbl t) = dbl d" by (simp add: dbl_diff[OF tb(2,1)] dbl_mult[OF Tb tb(3)] d_def)
  then have sum: "dbl area + dbl (?T - ?f) * (dbl t' - dbl t) = dbl (area + d)" by (simp add: dbl_add[OF ab])
  have "\<not> dbl t' < dbl t" "isfinite (dbl t')" using t'(1) by (simp_all add: dbl_less[OF tb(2,1)] isfinite_dbl[OF tb(2)])
  then have adv: "advance_resource_accounting_to (dbl t') s =
      Inr (s\<lparr>m_resource_area := dbl (area + d), m_resource_area_time := dbl t'\<rparr>)"
    using Cons.prems(1,2) by (simp add: advance_resource_accounting_to_def al sum)
  define s2 where "s2 = s\<lparr>m_resource_area := dbl (area + d), m_resource_area_time := dbl t', m_accounted_available_nodes := n\<rparr>"
  have go: "account (e # es) s = account es s2"
    using leD[OF t'(3)] by (simp add: e adv commit_available_nodes_def s2_def)
  have T2: "m_total_nodes s2 = m_total_nodes s" "m_accounted_available_nodes s2 = n" by (simp_all add: s2_def)
  have "\<exists>s'. account es s2 = Inr s' \<and>
      m_resource_area s' = dbl (area + d + node_seconds (uint (m_total_nodes s2)) t' (uint (m_accounted_available_nodes s2)) es)"
    using Cons.prems(5,6,7,9,11) d t' e by (intro Cons.IH) (auto simp: s2_def)
  then show ?case unfolding go T2 by (simp add: e d_def add.assoc)
qed simp

lemma accounting_backwards: "now < m_resource_area_time s \<Longrightarrow> advance_resource_accounting_to now s = Inl Logic_Error"
  by (simp add: advance_resource_accounting_to_def)

end
