(* ===== verification/Simulation_Laws.thy ===== *)
theory Simulation_Laws
  imports Simulation
begin

text \<open>
  The contract of the event loop in its event-driven mode, for every scheduler that obeys its own
  contract: the loop returns, no node is handed out twice, the clock reaches the target, and a drain
  completes every job.  Run times and submit times are whole seconds, there is no release delay and no
  scheduled capacity change.
\<close>

section \<open>One event of the trace\<close>

lemma account_event_no_delay:
  assumes "account_event dm e tr = Inr tr'" "\<not> rd_active (m_release_delay tr)"
  shows "m_evtq tr' = m_evtq tr \<and> m_data tr' = m_data tr \<and> m_num_reclaimed tr' = m_num_reclaimed tr \<and>
    m_release_delay tr' = m_release_delay tr \<and> m_last_departure_delayed tr' = m_last_departure_delayed tr \<and>
    m_resource_history tr' = m_resource_history tr \<and> m_resource_trace_ofs tr' = m_resource_trace_ofs tr"
  using assms by (auto simp: account_event_def finish_job_nodes_def split: if_splits sum.splits)

lemma store_step_keeps:
  assumes "store_step now tr tr'" "job_at tr i = Inr r" "\<not> is_job_reclaimable tr i r now"
  shows "job_at tr' i = Inr r"
proof -
  obtain n where n: "reclaims tr now n" "dropped n tr tr'" using assms(1) by (auto simp: store_step_def)
  have "\<not> i < m_num_reclaimed tr + n"
  proof
    assume "i < m_num_reclaimed tr + n"
    then have "i - m_num_reclaimed tr < n" "m_num_reclaimed tr \<le> i" "r = m_data tr ! (i - m_num_reclaimed tr)"
      using assms(2) by (auto simp: job_at_iff)
    then have "is_job_reclaimable tr i r now" using n(1) by (auto simp: reclaims_def)
    then show False using assms(3) by simp
  qed
  then show ?thesis using job_at_dropped[OF n(2)] assms(2) by simp
qed

definition live_record :: "sim_time \<Rightarrow> job_record \<Rightarrow> bool" where
  "live_record t r \<longleftrightarrow> m_t_submit r \<noteq> unscheduled_sentinel \<and> t < convert_epoch (m_t_end r)"

lemma live_not_reclaimable: "live_record t r \<Longrightarrow> \<not> is_job_reclaimable tr i r t"
  by (auto simp: live_record_def is_job_reclaimable_def not_le)

text \<open>The samples recorded so far, written or not, and a bound on the nodes they report.\<close>

definition samples :: "'g trace \<Rightarrow> resource_sample list" where
  "samples tr = (case m_resource_trace_ofs tr of None \<Rightarrow> [] | Some out \<Rightarrow> out) @ m_resource_history tr"

definition sampled :: "num_nodes \<Rightarrow> 'g trace \<Rightarrow> bool" where
  "sampled c tr \<longleftrightarrow> (\<forall>x\<in>set (samples tr). rs_allocated x \<le> c)"

lemma sampled_record: "sampled c tr \<Longrightarrow> a \<le> c \<Longrightarrow> sampled c (record_resource_sample t a tr)"
  by (auto simp: sampled_def samples_def record_resource_sample_def resolve_resource_history_capacity_def
      flush_resource_history_def make_resource_sample_def Let_def split: option.splits)

lemma sampled_cong: "m_resource_trace_ofs tr' = m_resource_trace_ofs tr \<Longrightarrow> m_resource_history tr' = m_resource_history tr \<Longrightarrow>
  sampled c tr' = sampled c tr"
  by (simp add: sampled_def samples_def)

lemma process_single_event_law:
  assumes ok: "trace_ok tr" and q: "m_evtq tr = e # q" and rd: "\<not> rd_active (m_release_delay tr)"
  shows "\<exists>tr'. process_single_event dm tr = Inr (True, tr') \<and> trace_ok tr' \<and> m_evtq tr' = q \<and>
    m_release_delay tr' = m_release_delay tr \<and> m_last_departure_delayed tr' = m_last_departure_delayed tr \<and>
    (\<forall>f\<in>set q. ev_kind f \<noteq> Release \<longrightarrow> job_at tr' (ev_job f) = job_at tr (ev_job f)) \<and>
    (\<forall>i r. job_at tr i = Inr r \<longrightarrow> live_record (ev_time e) r \<longrightarrow> job_at tr' i = Inr r) \<and>
    (\<forall>c. sampled c tr \<longrightarrow> m_n_nodes_in_use tr' \<le> c \<longrightarrow> sampled c tr')"
proof -
  obtain tr1 where t1: "account_event dm e (tr\<lparr>m_evtq := q\<rparr>) = Inr tr1" "trace_ok tr1"
    using account_event_ok[OF ok q] by blast
  have f1: "m_evtq tr1 = q \<and> m_data tr1 = m_data tr \<and> m_num_reclaimed tr1 = m_num_reclaimed tr \<and>
      m_release_delay tr1 = m_release_delay tr \<and> m_last_departure_delayed tr1 = m_last_departure_delayed tr"
    and h1: "m_resource_history tr1 = m_resource_history tr" "m_resource_trace_ofs tr1 = m_resource_trace_ofs tr"
    using account_event_no_delay[OF t1(1)] rd by simp_all
  define tr2 where "tr2 = record_resource_sample (ev_time e) (m_n_nodes_in_use tr1) tr1"
  define tr3 where "tr3 = (if ev_kind e = Departure \<and> simulated_trace_output_active tr2 \<and>
      m_departures_since_job_flush tr2 < effective_job_flush_interval tr2
    then tr2\<lparr>m_departures_since_job_flush := m_departures_since_job_flush tr2 + 1\<rparr> else tr2)"
  have t3: "trace_ok tr3" using t1(2) by (simp add: tr3_def tr2_def trace_ok_irrelevant)
  have f3: "m_evtq tr3 = q \<and> m_data tr3 = m_data tr \<and> m_num_reclaimed tr3 = m_num_reclaimed tr \<and>
      m_release_delay tr3 = m_release_delay tr \<and> m_last_departure_delayed tr3 = m_last_departure_delayed tr"
    using f1 by (simp add: tr3_def tr2_def)
  then have j3: "job_at tr3 i = job_at tr i" for i by (intro job_at_cong) auto
  obtain tr4 where t4: "flush_completed_jobs_impl (ev_time e) tr3 = Inr tr4" "store_step (ev_time e) tr3 tr4"
    using flush_total[of tr3] t3 by (auto simp: trace_ok_def)
  have t4': "trace_ok tr4" by (rule store_step_ok[OF t3 t4(2)])
  have f4: "m_evtq tr4 = q \<and> m_release_delay tr4 = m_release_delay tr \<and> m_last_departure_delayed tr4 = m_last_departure_delayed tr"
    using f3 t4(2) by (auto simp: store_step_def same_account_def)
  have p4: "job_at tr4 (ev_job f) = job_at tr (ev_job f)" if f: "f \<in> set q" "ev_kind f \<noteq> Release" for f
  proof -
    obtain r where r: "job_at tr3 (ev_job f) = Inr r" using pending_job[OF t3, of f] f f3 by auto
    have "\<not> is_job_reclaimable tr3 (ev_job f) r (ev_time e)" using pending_not_reclaimable[OF t3, of f r] f f3 r by auto
    then show ?thesis using store_step_keeps[OF t4(2) r] r j3 by simp
  qed
  have l4: "job_at tr4 i = Inr r" if "job_at tr i = Inr r" "live_record (ev_time e) r" for i r
    using store_step_keeps[OF t4(2) _ live_not_reclaimable[OF that(2)]] that(1) j3 by simp
  have s3: "sampled c tr3" if "sampled c tr" "m_n_nodes_in_use tr3 \<le> c" for c
  proof -
    have "sampled c tr3 = sampled c tr2" by (rule sampled_cong) (simp_all add: tr3_def)
    moreover have "m_n_nodes_in_use tr3 = m_n_nodes_in_use tr1" by (simp add: tr3_def tr2_def)
    moreover have "sampled c tr2" unfolding tr2_def
      by (rule sampled_record) (use that sampled_cong[OF h1(2,1), of c] calculation(2) in simp_all)
    ultimately show ?thesis by simp
  qed
  have s4: "sampled c tr4 = sampled c tr3" "m_n_nodes_in_use tr4 = m_n_nodes_in_use tr3" for c
    using t4(2) by (auto simp: store_step_def same_account_def intro!: sampled_cong[of tr4 tr3 c])
  have eq: "process_single_event dm tr =
      (if simulated_trace_output_active tr3 \<and> (m_evtq tr2 = [] \<or> ev_time e < ev_time (hd (m_evtq tr2))) \<and>
          m_departures_since_job_flush tr3 \<ge> effective_job_flush_interval tr3 then Inr (True, tr4) else Inr (True, tr3))"
    unfolding process_single_event_def q list.case t1(1) sum.case Let_def tr2_def[symmetric] tr3_def[symmetric] t4(1) ..
  show ?thesis
  proof (cases "simulated_trace_output_active tr3 \<and> (m_evtq tr2 = [] \<or> ev_time e < ev_time (hd (m_evtq tr2))) \<and>
      m_departures_since_job_flush tr3 \<ge> effective_job_flush_interval tr3")
    case True
    then have "process_single_event dm tr = Inr (True, tr4)" unfolding eq by (rule if_P)
    then show ?thesis using t4' f4 p4 l4 s3 s4 by simp
  next
    case False
    then have "process_single_event dm tr = Inr (True, tr3)" unfolding eq by (rule if_not_P)
    then show ?thesis using t3 f3 j3 s3 by simp
  qed
qed

section \<open>The invariant\<close>

text \<open>\<open>D\<close> gives the whole seconds a job runs, \<open>B\<close> bounds every time of the run; \<open>js\<close> are the jobs not
  started yet.\<close>

definition work :: "(job_no \<Rightarrow> int) \<Rightarrow> job_entry list \<Rightarrow> int" where
  "work D js = sum_list (map (\<lambda>j. D (job_id j)) js)"

definition occupied :: "'g trace \<Rightarrow> nat" where
  "occupied tr = sum_list (map (\<lambda>e. unat (nodes_of tr (ev_job e))) (m_evtq tr))"

definition job_ok :: "(job_no \<Rightarrow> int) \<Rightarrow> num_nodes \<Rightarrow> 'g trace \<Rightarrow> job_entry \<Rightarrow> bool" where
  "job_ok D capacity tr j \<longleftrightarrow>
     (case job_at tr (job_id j) of
        Inl _ \<Rightarrow> False
      | Inr r \<Rightarrow> m_num_nodes r = nodes_requested j \<and> m_t_submit r \<noteq> unscheduled_sentinel \<and> m_t_end r = unscheduled_sentinel \<and>
          m_actual_run_time (timed_record r) = dbl (D (job_id j))) \<and>
     0 < D (job_id j) \<and> nodes_requested j \<le> capacity"

definition within_bound :: "int \<Rightarrow> sim_time \<Rightarrow> bool" where
  "within_bound b t \<longleftrightarrow> (\<exists>n. t = dbl n \<and> 0 \<le> n \<and> n \<le> b)"

definition core :: "(job_no \<Rightarrow> int) \<Rightarrow> int \<Rightarrow> job_entry list \<Rightarrow> ('s, 'g) simulation \<Rightarrow> bool" where
  "core D B js s \<longleftrightarrow>
     trace_ok (m_trace s) \<and> \<not> rd_active (m_release_delay (m_trace s)) \<and> \<not> m_last_departure_delayed (m_trace s) \<and>
     distinct (map job_id js) \<and> (\<forall>j\<in>set js. job_ok D (m_current_capacity s) (m_trace s) j \<and> within_bound (B - work D js) (submit_time j)) \<and>
     job_id ` set js \<inter> ev_job ` set (m_evtq (m_trace s)) = {} \<and>
     B \<le> 9007199254740992 \<and> within_bound (B - work D js) (m_current_time s) \<and>
     (\<forall>e\<in>set (m_evtq (m_trace s)). ev_kind e = Departure \<and> m_current_time s \<le> ev_time e \<and> within_bound (B - work D js) (ev_time e)) \<and>
     occupied (m_trace s) \<le> unat (m_current_capacity s) \<and> sampled (m_current_capacity s) (m_trace s) \<and>
     length (m_capacity_changes s) \<le> m_next_capacity_change s \<and> m_capacity_area_time s \<le> m_current_time s \<and>
     m_jobs_submitted s = m_jobs_started s + length js \<and>
     m_jobs_started s = m_jobs_completed s + length (m_evtq (m_trace s))"

definition settled :: "('s, 'g) simulation \<Rightarrow> bool" where
  "settled s \<longleftrightarrow> (\<forall>e\<in>set (m_evtq (m_trace s)). m_current_time s < ev_time e)"

subsection \<open>Times\<close>

lemma sentinel_late: "dbl 9007199254740992 < convert_epoch unscheduled_sentinel"
proof -
  have "rnd (of_int 9007199254740992 * 2 powi 1) = of_int 9007199254740992 * 2 powi 1" by (rule rnd_exact) simp_all
  then have "fl 18014398509481984 = 18014398509481984" by (simp add: fl_def huge_def)
  moreover have "fl 18014398509481984 \<le> fl (of_int 9223372036854775807)" by (rule fl_mono) simp
  moreover have "val (convert_epoch unscheduled_sentinel) = fl (of_int 9223372036854775807)"
    by (simp add: convert_epoch_def unscheduled_sentinel_def dbl.rep_eq)
  ultimately show ?thesis by (simp add: less_double.rep_eq val_dbl)
qed

lemma within_boundE:
  assumes "within_bound b t" obtains n where "t = dbl n" "0 \<le> n" "n \<le> b"
  using assms by (auto simp: within_bound_def)

lemma within_bound_mono: "within_bound b t \<Longrightarrow> b \<le> c \<Longrightarrow> within_bound c t"
  by (fastforce simp: within_bound_def)

lemma within_bound_late: "within_bound b t \<Longrightarrow> b \<le> 9007199254740992 \<Longrightarrow> t < convert_epoch unscheduled_sentinel"
  using sentinel_late by (auto simp: within_bound_def dbl_le intro!: le_less_trans[OF _ sentinel_late])

lemma within_bound_max: "within_bound b t \<Longrightarrow> b \<le> 9007199254740992 \<Longrightarrow> t < dbl_max \<and> isfinite t"
  by (auto simp: within_bound_def dbl_less_max isfinite_dbl)

lemma within_bound_add:
  "within_bound b t \<Longrightarrow> 0 < d \<Longrightarrow> b + d \<le> 9007199254740992 \<Longrightarrow> within_bound (b + d) (t + dbl d) \<and> t < t + dbl d"
  by (auto simp: within_bound_def dbl_add dbl_less)

lemma work_nonneg: "(\<And>j. j \<in> set js \<Longrightarrow> 0 < D (job_id j)) \<Longrightarrow> 0 \<le> work D js"
  unfolding work_def by (rule sum_list_nonneg) force

lemma work_Cons [simp]: "work D (j # js) = D (job_id j) + work D js"
  by (simp add: work_def)

lemma work_perm: "mset js = mset js' \<Longrightarrow> work D js = work D js'"
  unfolding work_def by (metis mset_map sum_mset_sum_list)

subsection \<open>Nodes in use\<close>

lemma unat_sum_list:
  "sum_list (map (\<lambda>x. unat (f x)) xs) < 2 ^ 32 \<Longrightarrow> unat (sum_list (map f xs) :: num_nodes) = sum_list (map (\<lambda>x. unat (f x)) xs)"
proof (induction xs)
  case (Cons x xs)
  have "unat (f x + sum_list (map f xs)) = unat (f x) + unat (sum_list (map f xs))"
    using Cons by (subst unat_add_lem[THEN iffD1]) simp_all
  then show ?case using Cons by simp
qed simp

lemma departures_occupied:
  assumes ok: "trace_ok tr" and dep: "\<forall>e\<in>set (m_evtq tr). ev_kind e = Departure" and le: "occupied tr \<le> unat c"
  shows "unat (m_n_nodes_in_use tr) = occupied tr" "m_n_nodes_releasing tr = 0" "m_n_nodes_in_use tr \<le> c"
proof -
  have z: "pend tr k (m_evtq tr) = 0" if "k \<noteq> Departure" for k
  proof -
    have "map (event_nodes tr k) (m_evtq tr) = map (\<lambda>e. 0) (m_evtq tr)" using dep that by (simp add: event_nodes_def)
    then show ?thesis unfolding pend_def by (simp only: sum_list_0)
  qed
  have "pend tr Departure (m_evtq tr) = sum_list (map (\<lambda>e. nodes_of tr (ev_job e)) (m_evtq tr))"
    unfolding pend_def by (intro arg_cong[of _ _ sum_list] map_cong refl) (use dep in \<open>simp add: event_nodes_def\<close>)
  then have u: "m_n_nodes_in_use tr = sum_list (map (\<lambda>e. nodes_of tr (ev_job e)) (m_evtq tr))"
    and r: "m_n_nodes_releasing tr = 0"
    using ok z by (simp_all add: trace_ok_def)
  have "unat c < 2 ^ 32" using unsigned_less[of c] by simp
  then show n: "unat (m_n_nodes_in_use tr) = occupied tr"
    using unat_sum_list[of "\<lambda>e. nodes_of tr (ev_job e)" "m_evtq tr"] le by (simp add: u occupied_def)
  show "m_n_nodes_releasing tr = 0" by (rule r)
  show "m_n_nodes_in_use tr \<le> c" using n le by (simp add: word_le_nat_alt)
qed

subsection \<open>The invariant under the steps\<close>

lemma core_perm: "mset js = mset js' \<Longrightarrow> core D B js s = core D B js' s"
proof -
  assume m: "mset js = mset js'"
  have "distinct (map job_id js) = distinct (map job_id js')" using m by (intro mset_eq_imp_distinct_iff) simp
  moreover have "set js = set js'" using m by (rule mset_eq_setD)
  moreover have "work D js = work D js'" using m by (rule work_perm)
  moreover have "length js = length js'" using m by (rule mset_eq_length)
  ultimately show ?thesis by (simp add: core_def)
qed

lemma core_frame:
  assumes "core D B js s" "m_trace s' = m_trace s" "m_current_time s' = m_current_time s"
    "m_current_capacity s' = m_current_capacity s" "m_capacity_changes s' = m_capacity_changes s"
    "m_next_capacity_change s' = m_next_capacity_change s" "m_capacity_area_time s' = m_capacity_area_time s"
    "m_jobs_submitted s' = m_jobs_submitted s" "m_jobs_started s' = m_jobs_started s" "m_jobs_completed s' = m_jobs_completed s"
  shows "core D B js s'"
  using assms by (simp add: core_def)

text \<open>What a step of the loop may not touch.\<close>

definition framed :: "('s, 'g) simulation \<Rightarrow> ('s, 'g) simulation \<Rightarrow> bool" where
  "framed s s' \<longleftrightarrow> m_scheduler s' = m_scheduler s \<and> m_current_time s' = m_current_time s \<and>
     m_current_capacity s' = m_current_capacity s \<and> m_pending_queue_arrivals s' = m_pending_queue_arrivals s \<and>
     m_params s' = m_params s \<and> m_jobs_submitted s' = m_jobs_submitted s"

lemma framed_trans: "framed a b \<Longrightarrow> framed b c \<Longrightarrow> framed a c"
  by (simp add: framed_def)

lemma nodes_of_cong: "job_at tr' i = job_at tr i \<Longrightarrow> nodes_of tr' i = nodes_of tr i"
  by (simp add: nodes_of_def)

lemma job_ok_record:
  "job_ok D c tr j \<Longrightarrow> \<exists>r. job_at tr (job_id j) = Inr r"
  by (cases "job_at tr (job_id j)") (simp_all add: job_ok_def)

lemma live_waiting: "job_ok D c tr j \<Longrightarrow> job_at tr (job_id j) = Inr r \<Longrightarrow> within_bound b t \<Longrightarrow> b \<le> 9007199254740992 \<Longrightarrow> live_record t r"
  using within_bound_late[of b t] by (simp add: job_ok_def live_record_def)

text \<open>A departure at the current time.\<close>

lemma core_departure:
  assumes c: "core D B js s" and q: "m_evtq (m_trace s) = e # q" and now: "ev_time e = m_current_time s"
  shows "\<exists>tr. process_single_event dm (m_trace s) = Inr (True, tr) \<and> m_evtq tr = q \<and> ev_kind e = Departure \<and>
    (let s' = snd (finish_event e freed (s\<lparr>m_jobs_completed := m_jobs_completed s + 1, m_trace := tr\<rparr>)) in
       fst (finish_event e freed (s\<lparr>m_jobs_completed := m_jobs_completed s + 1, m_trace := tr\<rparr>)) \<and>
       core D B js s' \<and> framed s s' \<and> m_trace s' = tr)"
proof -
  have ok: "trace_ok (m_trace s)" and rd: "\<not> rd_active (m_release_delay (m_trace s))" "\<not> m_last_departure_delayed (m_trace s)"
    and dep: "ev_kind e = Departure" "\<forall>f\<in>set q. ev_kind f = Departure" and B: "B \<le> 9007199254740992"
    and jok: "\<forall>j\<in>set js. job_ok D (m_current_capacity s) (m_trace s) j"
    using c q by (auto simp: core_def)
  have W: "0 \<le> work D js" using jok by (intro work_nonneg) (simp add: job_ok_def)
  have nb: "within_bound (B - work D js) (ev_time e)" using c q by (simp add: core_def)
  obtain tr where tr: "process_single_event dm (m_trace s) = Inr (True, tr)" "trace_ok tr" "m_evtq tr = q"
    "m_release_delay tr = m_release_delay (m_trace s)" "m_last_departure_delayed tr = m_last_departure_delayed (m_trace s)"
    "\<forall>f\<in>set q. ev_kind f \<noteq> Release \<longrightarrow> job_at tr (ev_job f) = job_at (m_trace s) (ev_job f)"
    "\<forall>i r. job_at (m_trace s) i = Inr r \<longrightarrow> live_record (ev_time e) r \<longrightarrow> job_at tr i = Inr r"
    "\<forall>c. sampled c (m_trace s) \<longrightarrow> m_n_nodes_in_use tr \<le> c \<longrightarrow> sampled c tr"
    using process_single_event_law[OF ok q rd(1)] by blast
  have jok': "\<forall>j\<in>set js. job_ok D (m_current_capacity s) tr j"
  proof
    fix j assume j: "j \<in> set js"
    then obtain r where r: "job_at (m_trace s) (job_id j) = Inr r" using jok job_ok_record by blast
    have "live_record (ev_time e) r" by (rule live_waiting[OF bspec[OF jok j] r nb]) (use W B in simp)
    then have "job_at tr (job_id j) = Inr r" using tr(7) r by blast
    then show "job_ok D (m_current_capacity s) tr j" using jok j r by (auto simp: job_ok_def)
  qed
  have occ: "map (\<lambda>f. unat (nodes_of tr (ev_job f))) q = map (\<lambda>f. unat (nodes_of (m_trace s) (ev_job f))) q"
    using tr(6) dep(2) by (simp add: nodes_of_def)
  have le: "occupied tr \<le> occupied (m_trace s)" by (simp add: occupied_def tr(3) q occ)
  also have "\<dots> \<le> unat (m_current_capacity s)" using c by (simp add: core_def)
  finally have "m_n_nodes_in_use tr \<le> m_current_capacity s"
    by (intro departures_occupied(3)[OF tr(2)]) (use dep tr(3) in simp_all)
  then have "sampled (m_current_capacity s) tr" using tr(8) c by (simp add: core_def)
  then show ?thesis using le
    using c tr rd q dep jok' by (intro exI[of _ tr]) (auto simp: core_def finish_event_def framed_def Let_def)
qed

lemma event_loop_law:
  assumes "core D B js s"
  shows "\<exists>freed' s'. event_loop dm freed s = Inr (freed', s') \<and> core D B js s' \<and> settled s' \<and> framed s s' \<and>
    length (m_evtq (m_trace s')) \<le> length (m_evtq (m_trace s)) \<and>
    (next_replay_time s = m_current_time s \<and> m_evtq (m_trace s) \<noteq> [] \<longrightarrow>
       freed' \<and> length (m_evtq (m_trace s')) < length (m_evtq (m_trace s))) \<and> (freed \<longrightarrow> freed')"
  using assms
proof (induction dm freed s rule: event_loop.induct)
  case (1 dm freed s)
  show ?case
  proof (cases "m_evtq (m_trace s)")
    case Nil
    then show ?thesis using 1(2) by (simp add: event_loop.simps[of dm freed s] settled_def framed_def)
  next
    case (Cons e q)
    show ?thesis
    proof (cases "ev_time e = m_current_time s")
      case False
      have "m_current_time s \<le> ev_time e" using 1(2) Cons by (simp add: core_def)
      moreover have "\<forall>f\<in>set q. ev_time e \<le> ev_time f"
        using 1(2) Cons evtq_front_least[of e q] by (auto simp: core_def trace_ok_def queue_ok_def)
      ultimately have "settled s" using False Cons by (force simp: settled_def)
      then show ?thesis using 1(2) Cons False by (simp add: event_loop.simps[of dm freed s] framed_def next_replay_time_def)
    next
      case True
      obtain tr where tr: "process_single_event dm (m_trace s) = Inr (True, tr)" "m_evtq tr = q" "ev_kind e = Departure"
        using core_departure[OF 1(2) Cons True] by blast
      define s1 where "s1 = s\<lparr>m_jobs_completed := m_jobs_completed s + 1, m_trace := tr\<rparr>"
      have s1: "fst (finish_event e freed s1)" "core D B js (snd (finish_event e freed s1))" "framed s (snd (finish_event e freed s1))"
        using core_departure[OF 1(2) Cons True, of dm freed] tr by (simp_all add: s1_def Let_def)
      have step: "event_loop dm freed s = event_loop dm (fst (finish_event e freed s1)) (snd (finish_event e freed s1))"
        using Cons True tr by (simp add: event_loop.simps[of dm freed s] s1_def Let_def)
      have tr1: "m_evtq (m_trace (snd (finish_event e freed s1))) = q" by (simp add: s1_def tr)
      define s2 where "s2 = snd (finish_event e freed s1)"
      obtain freed' s' where r: "event_loop dm (fst (finish_event e freed s1)) s2 = Inr (freed', s')" "core D B js s'" "settled s'"
        "framed s2 s'" "length (m_evtq (m_trace s')) \<le> length (m_evtq (m_trace s2))" "fst (finish_event e freed s1) \<longrightarrow> freed'"
        using 1(1)[OF Cons _ tr(1) refl _ refl, of s1] True tr(3) s1(2) unfolding s2_def by (auto simp: s1_def)
      have "event_loop dm freed s = Inr (freed', s')" using step r(1) by (simp add: s2_def)
      moreover have "framed s s'" using s1(3) r(4) framed_trans unfolding s2_def by blast
      moreover have "length (m_evtq (m_trace s')) < length (m_evtq (m_trace s))" using r(5) tr1 Cons by (simp add: s2_def)
      ultimately show ?thesis using r s1(1) by (intro exI[of _ freed'] exI[of _ s']) simp
    qed
  qed
qed

subsection \<open>Starting jobs\<close>

text \<open>What processing the front event leaves alone.\<close>

definition settles :: "sim_time \<Rightarrow> 'g trace \<Rightarrow> 'g trace \<Rightarrow> bool" where
  "settles t tr tr' \<longleftrightarrow> trace_ok tr' \<and> m_evtq tr' = tl (m_evtq tr) \<and> m_release_delay tr' = m_release_delay tr \<and>
     m_last_departure_delayed tr' = m_last_departure_delayed tr \<and>
     (\<forall>f\<in>set (tl (m_evtq tr)). ev_kind f \<noteq> Release \<longrightarrow> job_at tr' (ev_job f) = job_at tr (ev_job f)) \<and>
     (\<forall>i r. job_at tr i = Inr r \<longrightarrow> live_record t r \<longrightarrow> job_at tr' i = Inr r) \<and>
     (\<forall>c. sampled c tr \<longrightarrow> m_n_nodes_in_use tr' \<le> c \<longrightarrow> sampled c tr')"

lemma run_until_one:
  assumes ok: "trace_ok tr" and q: "m_evtq tr = e # q" and e: "ev_time e = t" "ev_kind e = Arrival"
    and late: "\<forall>f\<in>set q. t < ev_time f" and rd: "\<not> rd_active (m_release_delay tr)"
  shows "\<exists>tr'. run_until_inclusive dm t tr = Inr tr' \<and> settles t tr tr'"
proof -
  obtain tr1 where t1: "account_event dm e (tr\<lparr>m_evtq := q\<rparr>) = Inr tr1" "trace_ok tr1"
    using account_event_ok[OF ok q] by blast
  have f1: "m_evtq tr1 = q \<and> m_data tr1 = m_data tr \<and> m_num_reclaimed tr1 = m_num_reclaimed tr \<and>
      m_release_delay tr1 = m_release_delay tr \<and> m_last_departure_delayed tr1 = m_last_departure_delayed tr"
    and h1: "m_resource_history tr1 = m_resource_history tr" "m_resource_trace_ofs tr1 = m_resource_trace_ofs tr"
    using account_event_no_delay[OF t1(1)] rd by simp_all
  define tr2 where "tr2 = record_resource_sample (ev_time e) (m_n_nodes_in_use tr1) tr1"
  have t2: "trace_ok tr2" "m_evtq tr2 = q" using t1(2) f1 by (simp_all add: tr2_def trace_ok_irrelevant)
  have "process_loop dm t d tr2 = Inr (d, tr2)" for d
    using t2(2) late by (cases q) (simp_all add: process_loop.simps[of dm t d tr2])
  then have "process_loop dm t 0 tr = Inr (0, tr2)"
    using q e t1(1) by (simp add: process_loop.simps[of dm t 0 tr] tr2_def)
  then have "process_events_until dm t tr = Inr tr2" by (simp add: process_events_until_def q)
  moreover have "run_until_inclusive dm t tr2 = Inr tr2"
    using t2(2) late by (cases q) (simp_all add: run_until_inclusive.simps[of dm t tr2])
  ultimately have "run_until_inclusive dm t tr = Inr tr2"
    using q e by (simp add: run_until_inclusive.simps[of dm t tr])
  moreover have "job_at tr2 i = job_at tr i" for i using f1 by (intro job_at_cong) (simp_all add: tr2_def)
  moreover have "sampled c tr2" if "sampled c tr" "m_n_nodes_in_use tr2 \<le> c" for c
    using that sampled_record[of c tr1 "m_n_nodes_in_use tr1" "ev_time e"] sampled_cong[OF h1(2,1)] by (simp add: tr2_def)
  ultimately show ?thesis using t2 f1 q by (intro exI[of _ tr2]) (simp add: settles_def tr2_def)
qed

text \<open>Both ways of processing a start event.\<close>

definition settling :: "'g delay_math \<Rightarrow> (('s, 'g) simulation \<Rightarrow> exn + ('s, 'g) simulation) \<Rightarrow> bool" where
  "settling dm f \<longleftrightarrow> f = settle_start dm \<or> f = settle_initial dm"

lemma settling_law:
  assumes "settling dm f" "trace_ok (m_trace s)" "m_evtq (m_trace s) = e # q" "ev_time e = m_current_time s" "ev_kind e = Arrival"
    "\<forall>f\<in>set q. m_current_time s < ev_time f" "\<not> rd_active (m_release_delay (m_trace s))"
  shows "\<exists>tr. f s = Inr (s\<lparr>m_trace := tr\<rparr>) \<and> settles (m_current_time s) (m_trace s) tr"
proof (cases "f = settle_start dm")
  case True
  obtain tr where "process_single_event dm (m_trace s) = Inr (True, tr)" "settles (ev_time e) (m_trace s) tr"
    using process_single_event_law[OF assms(2,3,7)] assms(3) by (fastforce simp: settles_def)
  then show ?thesis using True assms(3-5) by (intro exI[of _ tr]) (simp add: settle_start_def)
next
  case False
  then have f: "f = settle_initial dm" using assms(1) by (simp add: settling_def)
  obtain tr where "run_until_inclusive dm (m_current_time s) (m_trace s) = Inr tr" "settles (m_current_time s) (m_trace s) tr"
    using run_until_one[OF assms(2-7)] by blast
  then show ?thesis using f by (intro exI[of _ tr]) (simp add: settle_initial_def)
qed

text \<open>The two events of a start: the start event is the front, the end event joins the pending ones.\<close>

lemma start_events_front:
  assumes "\<forall>f\<in>set q. t < ev_time f" "t < t + m_actual_run_time (timed_record r)"
  shows "start_events i t r q = job_event i t Arrival # evtq_insert (job_event i (t + m_actual_run_time (timed_record r)) Departure) q"
proof -
  have "evtq_insert (job_event i t Arrival) q = job_event i t Arrival # q"
    using assms(1) by (cases q) (auto simp: event_less_def job_event_def)
  then show ?thesis using assms(2) by (auto simp: start_events_def event_less_def job_event_def)
qed

lemma record_start_total:
  assumes "job_at (m_trace s) i = Inr r"
  shows "\<exists>qs. record_appended_job_start i s = Inr (s\<lparr>m_appended_job_query_records := qs\<rparr>)"
proof -
  have "s = s\<lparr>m_appended_job_query_records := m_appended_job_query_records s\<rparr>" by simp
  then show ?thesis using assms unfolding record_appended_job_start_def Let_def by (metis sum.case(2))
qed

lemma start_job_total:
  assumes "insert_job i (m_current_time s) (m_trace s) = Inr tr" "job_at tr i = Inr r"
  shows "\<exists>s'. start_job i s = Inr s' \<and> m_trace s' = tr \<and> framed s s' \<and> m_jobs_started s' = m_jobs_started s + 1 \<and>
    m_jobs_completed s' = m_jobs_completed s \<and> m_capacity_changes s' = m_capacity_changes s \<and>
    m_next_capacity_change s' = m_next_capacity_change s \<and> m_capacity_area_time s' = m_capacity_area_time s"
proof -
  obtain qs where "record_appended_job_start i (s\<lparr>m_trace := tr\<rparr>) = Inr (s\<lparr>m_trace := tr, m_appended_job_query_records := qs\<rparr>)"
    using record_start_total[of "s\<lparr>m_trace := tr\<rparr>" i r] assms(2) by auto
  then show ?thesis using assms by (simp add: start_job_def framed_def)
qed

lemma sum_list_insert:
  assumes "ev_key e \<notin> ev_key ` set q"
  shows "sum_list (map f (evtq_insert e q)) = (f e :: nat) + sum_list (map f q)" "length (evtq_insert e q) = Suc (length q)"
    "set (evtq_insert e q) = insert e (set q)"
proof -
  note m = evtq_insert_mset[OF assms]
  have "sum_mset (image_mset f (mset (evtq_insert e q))) = sum_mset (image_mset f (add_mset e (mset q)))" by (simp only: m)
  then show "sum_list (map f (evtq_insert e q)) = f e + sum_list (map f q)" by (simp flip: sum_mset_sum_list)
  show "length (evtq_insert e q) = Suc (length q)" using arg_cong[OF m, of size] by simp
  show "set (evtq_insert e q) = insert e (set q)" using m by (metis set_mset_add_mset_insert set_mset_mset)
qed

lemma core_start_trace:
  assumes c: "core D B (j # js) s" and late: "settled s"
  shows "\<exists>r tr1. job_at (m_trace s) (job_id j) = Inr r \<and> insert_job (job_id j) (m_current_time s) (m_trace s) = Inr tr1 \<and>
    trace_ok tr1 \<and> m_evtq tr1 = job_event (job_id j) (m_current_time s) Arrival #
      evtq_insert (job_event (job_id j) (m_current_time s + dbl (D (job_id j))) Departure) (m_evtq (m_trace s)) \<and>
    m_release_delay tr1 = m_release_delay (m_trace s) \<and> m_last_departure_delayed tr1 = m_last_departure_delayed (m_trace s) \<and>
    m_resource_history tr1 = m_resource_history (m_trace s) \<and> m_resource_trace_ofs tr1 = m_resource_trace_ofs (m_trace s) \<and>
    (\<forall>k. job_at tr1 k = (if k = job_id j then Inr (started_record (m_current_time s) r) else job_at (m_trace s) k))"
proof -
  have jok: "job_ok D (m_current_capacity s) (m_trace s) j" and B: "B \<le> 9007199254740992"
    and W: "0 \<le> work D js" and ok: "trace_ok (m_trace s)" and new: "job_id j \<notin> ev_job ` set (m_evtq (m_trace s))"
    using c by (auto simp: core_def job_ok_def intro!: work_nonneg)
  obtain r where r: "job_at (m_trace s) (job_id j) = Inr r" using job_ok_record[OF jok] by blast
  have rr: "m_t_submit r \<noteq> unscheduled_sentinel" "m_actual_run_time (timed_record r) = dbl (D (job_id j))" "0 < D (job_id j)"
    using jok r by (simp_all add: job_ok_def)
  obtain n where n: "m_current_time s = dbl n" "0 \<le> n" "n \<le> B - (D (job_id j) + work D js)"
    using c by (auto simp: core_def elim: within_boundE)
  have ex: "exact_end (m_current_time s) r" unfolding n(1) by (rule exact_end_whole) (use n rr B W in simp_all)
  have lt: "m_current_time s < m_current_time s + m_actual_run_time (timed_record r)"
    unfolding n(1) rr(2) using n rr(3) B W by (simp add: dbl_add dbl_less)
  obtain tr1 where tr1: "insert_job (job_id j) (m_current_time s) (m_trace s) = Inr tr1" "trace_ok tr1"
    using insert_job_ok[OF ok r rr(1) new ex] by blast
  have eq: "tr1 = (set_job (job_id j) (started_record (m_current_time s) r) (m_trace s))
      \<lparr>m_evtq := start_events (job_id j) (m_current_time s) r (m_evtq (m_trace s)),
        m_replay_jobs_enqueued := max (m_replay_jobs_enqueued (m_trace s)) (job_id j + 1)\<rparr>"
    using tr1(1) insert_job_eq[OF r, of "m_current_time s"] by simp
  have at: "job_at tr1 k = job_at (set_job (job_id j) (started_record (m_current_time s) r) (m_trace s)) k" for k
    unfolding eq by (rule job_at_cong) simp_all
  show ?thesis
    using r tr1 at job_at_set_job[OF r] start_events_front[OF _ lt, of "m_evtq (m_trace s)" "job_id j"] late
    by (intro exI[of _ r] exI[of _ tr1]) (simp add: eq rr(2) set_job_def settled_def)
qed

lemma core_start:
  assumes c: "core D B (j # js) s" and late: "settled s" and f: "settling dm f"
    and room: "occupied (m_trace s) + unat (nodes_requested j) \<le> unat (m_current_capacity s)"
  shows "\<exists>s1 s2. start_job (job_id j) s = Inr s1 \<and> f s1 = Inr s2 \<and> core D B js s2 \<and> settled s2 \<and> framed s s2 \<and>
    occupied (m_trace s2) = occupied (m_trace s) + unat (nodes_requested j) \<and>
    length (m_evtq (m_trace s2)) = Suc (length (m_evtq (m_trace s)))"
proof -
  let ?t = "m_current_time s" and ?q = "m_evtq (m_trace s)"
  let ?dep = "job_event (job_id j) (?t + dbl (D (job_id j))) Departure"
  obtain r tr1 where r: "job_at (m_trace s) (job_id j) = Inr r" and ins: "insert_job (job_id j) ?t (m_trace s) = Inr tr1"
    and ok1: "trace_ok tr1" and q1: "m_evtq tr1 = job_event (job_id j) ?t Arrival # evtq_insert ?dep ?q"
    and rd1: "m_release_delay tr1 = m_release_delay (m_trace s)" "m_last_departure_delayed tr1 = m_last_departure_delayed (m_trace s)"
    and h1: "m_resource_history tr1 = m_resource_history (m_trace s)" "m_resource_trace_ofs tr1 = m_resource_trace_ofs (m_trace s)"
    and at1: "\<And>k. job_at tr1 k = (if k = job_id j then Inr (started_record ?t r) else job_at (m_trace s) k)"
    using core_start_trace[OF c late] by blast
  have cd: "job_id j \<notin> job_id ` set js" "job_id j \<notin> ev_job ` set ?q" "job_id ` set js \<inter> ev_job ` set ?q = {}"
    using c by (simp_all add: core_def)
  have new: "ev_key ?dep \<notin> ev_key ` set ?q"
    using cd(2) by (auto simp: ev_key_eq job_event_def)
  note si = sum_list_insert[OF new]
  have B: "B \<le> 9007199254740992" and jok: "\<forall>k\<in>set (j # js). job_ok D (m_current_capacity s) (m_trace s) k"
    and dep: "\<forall>e\<in>set ?q. ev_kind e = Departure" and tb: "within_bound (B - work D (j # js)) ?t"
    and evb: "\<forall>e\<in>set ?q. within_bound (B - work D (j # js)) (ev_time e)"
    using c by (auto simp: core_def)
  have W: "0 \<le> work D js" and d: "0 < D (job_id j)" using jok by (auto simp: job_ok_def intro!: work_nonneg)
  have dt: "within_bound (B - work D js) (?t + dbl (D (job_id j)))" "?t < ?t + dbl (D (job_id j))"
    using within_bound_add[OF tb d] B W by (simp_all add: algebra_simps)
  have tb': "within_bound (B - work D js) ?t" "\<forall>e\<in>set ?q. within_bound (B - work D js) (ev_time e)"
    using tb evb d by (auto intro: within_bound_mono)
  have sb: "\<forall>k\<in>set js. within_bound (B - work D js) (submit_time k)"
    using c d by (auto simp: core_def intro: within_bound_mono)
  obtain s1 where s1: "start_job (job_id j) s = Inr s1" "m_trace s1 = tr1" "framed s s1" "m_jobs_started s1 = m_jobs_started s + 1"
    "m_jobs_completed s1 = m_jobs_completed s" "m_capacity_changes s1 = m_capacity_changes s"
    "m_next_capacity_change s1 = m_next_capacity_change s" "m_capacity_area_time s1 = m_capacity_area_time s"
    using start_job_total[OF ins] at1 by auto
  have t1: "m_current_time s1 = ?t" using s1(3) by (simp add: framed_def)
  have "\<forall>g\<in>set (evtq_insert ?dep ?q). ?t < ev_time g"
    unfolding si(3) using late dt(2) by (auto simp: settled_def job_event_def)
  then obtain tr2 where tr2: "f s1 = Inr (s1\<lparr>m_trace := tr2\<rparr>)" "settles ?t tr1 tr2"
    using settling_law[OF f, of s1] ok1 q1 t1 s1(2) rd1(1) c by (auto simp: job_event_def core_def)
  have q2: "m_evtq tr2 = evtq_insert ?dep ?q" using tr2(2) q1 by (simp add: settles_def)
  have at2: "job_at tr2 (ev_job g) = job_at tr1 (ev_job g)" if "g \<in> set (m_evtq tr2)" for g
  proof -
    have "ev_kind g \<noteq> Release" using that dep unfolding q2 si(3) by (auto simp: job_event_def)
    then show ?thesis using tr2(2) that q1 q2 by (simp add: settles_def)
  qed
  have jok2: "job_ok D (m_current_capacity s) tr2 k" if k: "k \<in> set js" for k
  proof -
    have kj: "job_id k \<noteq> job_id j" using cd(1) k by (metis imageI)
    have k': "job_ok D (m_current_capacity s) (m_trace s) k" using jok k by simp
    obtain u where u: "job_at (m_trace s) (job_id k) = Inr u" using job_ok_record[OF k'] by blast
    have "live_record ?t u" by (rule live_waiting[OF k' u tb'(1)]) (use B W in simp)
    then have "job_at tr2 (job_id k) = Inr u" using tr2(2) at1[of "job_id k"] kj u by (simp add: settles_def)
    then show ?thesis using k' u by (simp add: job_ok_def)
  qed
  have nd: "nodes_of tr2 (job_id j) = nodes_requested j"
  proof -
    have "?dep \<in> set (m_evtq tr2)" unfolding q2 si(3) by simp
    from at2[OF this] have "job_at tr2 (job_id j) = job_at tr1 (job_id j)" by (simp add: job_event_def)
    then show ?thesis using at1[of "job_id j"] jok r by (simp add: nodes_of_def job_ok_def)
  qed
  have nq: "map (\<lambda>e. unat (nodes_of tr2 (ev_job e))) ?q = map (\<lambda>e. unat (nodes_of (m_trace s) (ev_job e))) ?q"
  proof (rule map_cong[OF refl])
    fix e assume e: "e \<in> set ?q"
    then have "ev_job e \<noteq> job_id j" using cd(2) by (metis imageI)
    then show "unat (nodes_of tr2 (ev_job e)) = unat (nodes_of (m_trace s) (ev_job e))"
      using at2[of e] e at1[of "ev_job e"] by (simp add: q2 si(3) nodes_of_def)
  qed
  have occ: "occupied tr2 = occupied (m_trace s) + unat (nodes_requested j)"
    by (simp add: occupied_def q2 si(1) nq) (simp add: job_event_def nd)
  have dis: "job_id ` set js \<inter> ev_job ` set (m_evtq tr2) = {}"
    using cd unfolding q2 si(3) by (auto simp: job_event_def)
  have evs: "\<forall>e\<in>set (m_evtq tr2). ev_kind e = Departure \<and> ?t < ev_time e \<and> within_bound (B - work D js) (ev_time e)"
    unfolding q2 si(3) using dep late tb'(2) dt by (auto simp: settled_def job_event_def)
  have evs': "\<forall>e\<in>set (m_evtq tr2). ev_kind e = Departure \<and> ?t \<le> ev_time e \<and> within_bound (B - work D js) (ev_time e)"
    using evs by (simp add: less_imp_le)
  have t2: "trace_ok tr2" "\<not> rd_active (m_release_delay tr2)" "\<not> m_last_departure_delayed tr2"
    using tr2(2) rd1 c by (simp_all add: settles_def core_def)
  have len: "length (m_evtq tr2) = Suc (length ?q)" by (simp add: q2 si(2))
  have "m_n_nodes_in_use tr2 \<le> m_current_capacity s"
    using departures_occupied(3)[OF t2(1), of "m_current_capacity s"] evs' occ room by simp
  moreover have "sampled (m_current_capacity s) tr1" using c sampled_cong[OF h1(2,1)] by (simp add: core_def)
  ultimately have sm: "sampled (m_current_capacity s) tr2" using tr2(2) by (simp add: settles_def)
  have c': "distinct (map job_id js)" "m_jobs_submitted s = m_jobs_started s + Suc (length js)"
    "m_jobs_started s = m_jobs_completed s + length ?q" "length (m_capacity_changes s) \<le> m_next_capacity_change s"
    "m_capacity_area_time s \<le> ?t"
    using c by (simp_all add: core_def)
  have fr: "m_current_time s1 = ?t" "m_current_capacity s1 = m_current_capacity s" "m_jobs_submitted s1 = m_jobs_submitted s"
    using s1(3) by (simp_all add: framed_def)
  have "core D B js (s1\<lparr>m_trace := tr2\<rparr>)"
    unfolding core_def using t2 sm jok2 sb dis B tb'(1) evs' occ room len c' fr s1(4-8) by simp
  then show ?thesis using s1 tr2 evs occ si(2) q2 t1
    by (intro exI[of _ s1] exI[of _ "s1\<lparr>m_trace := tr2\<rparr>"]) (simp add: settled_def framed_def)
qed

lemma start_jobs_law:
  "core D B (st @ rest) s \<Longrightarrow> settled s \<Longrightarrow> settling dm f \<Longrightarrow>
   occupied (m_trace s) + nodes_sum st \<le> unat (m_current_capacity s) \<Longrightarrow>
   \<exists>s'. start_jobs f (map job_id st) s = Inr s' \<and> core D B rest s' \<and> settled s' \<and> framed s s' \<and>
     length (m_evtq (m_trace s')) = length st + length (m_evtq (m_trace s))"
proof (induction st arbitrary: s)
  case Nil
  then show ?case by (simp add: framed_def)
next
  case (Cons j st)
  have room: "occupied (m_trace s) + unat (nodes_requested j) \<le> unat (m_current_capacity s)" using Cons.prems(4) by simp
  obtain s1 s2 where s: "start_job (job_id j) s = Inr s1" "f s1 = Inr s2" "core D B (st @ rest) s2" "settled s2" "framed s s2"
    "occupied (m_trace s2) = occupied (m_trace s) + unat (nodes_requested j)"
    "length (m_evtq (m_trace s2)) = Suc (length (m_evtq (m_trace s)))"
    using core_start[OF _ Cons.prems(2,3) room, of D B "st @ rest"] Cons.prems(1) by auto
  obtain s' where s': "start_jobs f (map job_id st) s2 = Inr s'" "core D B rest s'" "settled s'" "framed s2 s'"
    "length (m_evtq (m_trace s')) = length st + length (m_evtq (m_trace s2))"
    using Cons.IH[OF s(3,4) Cons.prems(3)] s(5,6) Cons.prems(4) by (auto simp: framed_def)
  show ?case using s s' framed_trans[OF s(5) s'(4)] by simp
qed

section \<open>The free nodes\<close>

lemma core_occupied:
  assumes "core D B js s"
  shows "unat (get_nodes_occupied (m_trace s)) = occupied (m_trace s)"
  using departures_occupied[of "m_trace s" "m_current_capacity s"] assms by (simp add: core_def get_nodes_occupied_def)

lemma core_free:
  assumes "core D B js s"
  shows "unat (get_available_nodes s) = unat (m_current_capacity s) - occupied (m_trace s)"
proof (cases "get_nodes_occupied (m_trace s) < m_current_capacity s")
  case True
  then show ?thesis using core_occupied[OF assms] by (simp add: get_available_nodes_def unat_sub less_imp_le)
next
  case False
  then have "unat (m_current_capacity s) \<le> occupied (m_trace s)"
    using core_occupied[OF assms] by (simp add: not_less word_le_nat_alt)
  then show ?thesis using False by (simp add: get_available_nodes_def)
qed

end
