(* ===== verification/Simulation_Loop.thy ===== *)
theory Simulation_Loop
  imports Simulation_Laws
begin

text \<open>
  The event loop in its event-driven mode, for a scheduler that obeys the contract \<open>sim_scheduler\<close>: each
  iteration keeps the invariant and decreases a measure, so the loop returns; when it does, nothing
  is left at or before the target time.
\<close>

definition arrived_jobs :: "sim_time \<Rightarrow> job_entry list \<Rightarrow> job_entry list" where
  "arrived_jobs t js = filter (\<lambda>j. submit_time j \<le> t) js"

lemma length_filter_mono: "(\<And>x. P x \<Longrightarrow> Q x) \<Longrightarrow> length (filter P xs) \<le> length (filter Q xs)"
  by (induction xs) auto

definition kept :: "('s, 'g) simulation \<Rightarrow> ('s, 'g) simulation \<Rightarrow> bool" where
  "kept s s' \<longleftrightarrow> m_current_capacity s' = m_current_capacity s \<and> m_params s' = m_params s \<and>
     m_jobs_submitted s' = m_jobs_submitted s"

lemma kept_trans: "kept a b \<Longrightarrow> kept b c \<Longrightarrow> kept a c"
  by (simp add: kept_def)

text \<open>The pending arrivals: each count is backed by jobs that arrive at that time.\<close>

definition arrivals_ok :: "sim_time \<Rightarrow> job_entry list \<Rightarrow> (sim_time \<times> nat) list \<Rightarrow> bool" where
  "arrivals_ok now js ps \<longleftrightarrow> distinct (map fst ps) \<and>
     (\<forall>p\<in>set ps. now \<le> fst p \<and> 0 < snd p \<and> snd p \<le> length (filter (\<lambda>j. submit_time j = fst p) js))"

definition arrivals_after :: "sim_time \<Rightarrow> (sim_time \<times> nat) list \<Rightarrow> bool" where
  "arrivals_after now ps \<longleftrightarrow> (\<forall>p\<in>set ps. now < fst p)"

lemma arrivals_perm: "mset js = mset js' \<Longrightarrow> arrivals_ok now js ps = arrivals_ok now js' ps"
  unfolding arrivals_ok_def by (metis mset_filter size_mset)

lemma arrivals_started:
  assumes "arrivals_ok now js ps" "arrivals_after now ps" "mset js = mset st + mset js'" "\<forall>j\<in>set st. submit_time j \<le> now"
  shows "arrivals_ok now js' ps"
proof -
  have "length (filter (\<lambda>j. submit_time j = t) js) = length (filter (\<lambda>j. submit_time j = t) js')" if "now < t" for t
  proof -
    have "filter (\<lambda>j. submit_time j = t) st = []" using assms(4) that by (auto simp: filter_empty_conv)
    moreover have "size (filter_mset (\<lambda>j. submit_time j = t) (mset js)) =
        size (filter_mset (\<lambda>j. submit_time j = t) (mset st)) + size (filter_mset (\<lambda>j. submit_time j = t) (mset js'))"
      unfolding assms(3) by simp
    ultimately show ?thesis by (simp flip: mset_filter)
  qed
  then show ?thesis using assms(1,2) by (simp add: arrivals_ok_def arrivals_after_def)
qed

lemma core_times: "core D B js s \<Longrightarrow> j \<in> set js \<Longrightarrow> submit_time j < dbl_max"
proof -
  assume c: "core D B js s" and j: "j \<in> set js"
  have "0 \<le> work D js" using c by (intro work_nonneg) (simp add: core_def job_ok_def)
  then show ?thesis using c j within_bound_max[of "B - work D js" "submit_time j"] by (simp add: core_def)
qed

locale sim_scheduler = scheduler "so_insert_job ops" "so_sync_to ops" "so_schedule ops" pre jobs ok clock
  for ops :: "'s scheduler_ops" and pre jobs ok clock +
  assumes outlook_law: "ok s \<Longrightarrow> ok (so_set_capacity_outlook ops c u ch s) \<and>
        jobs (so_set_capacity_outlook ops c u ch s) = jobs s \<and> clock (so_set_capacity_outlook ops c u ch s) = clock s"
    and active_law: "ok s \<Longrightarrow> so_active_job_count ops s = length (arrived_jobs (clock s) (jobs s))"
    and arrival_law: "ok s \<Longrightarrow> (\<forall>j\<in>set (jobs s). submit_time j \<le> clock s \<or> so_get_next_arrival_time ops s \<le> submit_time j) \<and>
        (so_get_next_arrival_time ops s = dbl_max \<or>
          (\<exists>j\<in>set (jobs s). clock s < submit_time j \<and> submit_time j = so_get_next_arrival_time ops s))"
    and eligible_law: "ok s \<Longrightarrow> so_has_eligible_jobs ops s \<longleftrightarrow> so_active_job_count ops s > 0"
    and progress_law: "ok s \<Longrightarrow> so_schedule ops s free running now = ([], s') \<Longrightarrow> clock s \<le> now \<Longrightarrow>
        (\<forall>j\<in>set (jobs s). nodes_requested j \<le> free \<and> submit_time j < dbl_max) \<Longrightarrow> arrived_jobs now (jobs s) = []"
    and accept_law: "ok s \<Longrightarrow> clock s \<le> t \<Longrightarrow> (\<forall>j\<in>set (jobs s). submit_time j \<le> t \<and> job_id j \<noteq> i) \<Longrightarrow>
        pre s i t \<and> (\<exists>s'. so_insert_job ops s i t r n = Inr s')"
    and run_law: "ok s \<Longrightarrow> so_can_ever_run ops s n"
begin

text \<open>The invariant at one moment, with the scheduler synchronised to the clock.\<close>

definition moment :: "(job_no \<Rightarrow> int) \<Rightarrow> int \<Rightarrow> ('s, 'g) simulation \<Rightarrow> bool" where
  "moment D B s \<longleftrightarrow> core D B (jobs (m_scheduler s)) s \<and> ok (m_scheduler s) \<and> clock (m_scheduler s) = m_current_time s"

definition no_idle :: "('s, 'g) simulation \<Rightarrow> bool" where
  "no_idle s \<longleftrightarrow> (m_evtq (m_trace s) = [] \<longrightarrow> arrived_jobs (m_current_time s) (jobs (m_scheduler s)) = [])"

lemma call_law:
  assumes m: "moment D B s" and c: "call_scheduler ops (so_schedule ops) s = (ids, s')"
  shows "\<exists>st. ids = map job_id st \<and> core D B (st @ jobs (m_scheduler s')) s' \<and> ok (m_scheduler s') \<and>
    clock (m_scheduler s') = m_current_time s' \<and> m_current_time s' = m_current_time s \<and> kept s s' \<and> m_trace s' = m_trace s \<and>
    m_pending_queue_arrivals s' = m_pending_queue_arrivals s \<and>
    mset (jobs (m_scheduler s)) = mset st + mset (jobs (m_scheduler s')) \<and> occupied (m_trace s) + nodes_sum st \<le> unat (m_current_capacity s) \<and>
    (\<forall>j\<in>set st. submit_time j \<le> m_current_time s) \<and> (st = [] \<longrightarrow> no_idle s')"
proof -
  define s1 where "s1 = publish_capacity_outlook ops s"
  let ?free = "get_available_nodes s"
  have f1: "m_trace s1 = m_trace s" "m_current_time s1 = m_current_time s" "kept s s1" "m_running_jobs s1 = m_running_jobs s"
    "m_pending_queue_arrivals s1 = m_pending_queue_arrivals s" "ok (m_scheduler s1)" "jobs (m_scheduler s1) = jobs (m_scheduler s)"
    "clock (m_scheduler s1) = m_current_time s"
    using m outlook_law[of "m_scheduler s"] by (simp_all add: s1_def publish_capacity_outlook_def kept_def moment_def)
  obtain sc where sc: "so_schedule ops (m_scheduler s1) ?free (m_running_jobs s1) (m_current_time s1) = (ids, sc)"
    "s' = s1\<lparr>m_scheduler := sc\<rparr>"
    using c by (auto simp: call_scheduler_def s1_def Let_def split: prod.splits)
  obtain st where st: "ok sc" "clock sc = m_current_time s" "ids = map job_id st" "mset (jobs (m_scheduler s)) = mset st + mset (jobs sc)"
    "nodes_sum st \<le> unat ?free" "\<forall>j\<in>set st. submit_time j \<le> m_current_time s"
    using sch_law[OF f1(6) sc(1)] f1 by auto
  have co: "core D B (jobs (m_scheduler s)) s" using m by (simp add: moment_def)
  have le: "occupied (m_trace s) \<le> unat (m_current_capacity s)" using co by (simp add: core_def)
  have "core D B (st @ jobs sc) s" using co st(4) core_perm[of "jobs (m_scheduler s)" "st @ jobs sc" D B s] by simp
  then have co': "core D B (st @ jobs sc) s'"
    by (rule core_frame) (simp_all add: sc(2) s1_def publish_capacity_outlook_def)
  have idle: "no_idle s'" if "st = []"
  proof -
    have "arrived_jobs (m_current_time s) (jobs (m_scheduler s1)) = []" if q: "m_evtq (m_trace s) = []"
    proof (rule progress_law[OF f1(6)])
      show "so_schedule ops (m_scheduler s1) ?free (m_running_jobs s1) (m_current_time s) = ([], sc)"
        using sc(1) st(3) \<open>st = []\<close> f1(2) by simp
      have "unat ?free = unat (m_current_capacity s)" using core_free[OF co] q by (simp add: occupied_def)
      then have "?free = m_current_capacity s" by (simp only: word_unat_eq_iff)
      moreover have "submit_time j < dbl_max" if "j \<in> set (jobs (m_scheduler s))" for j
        using core_times[OF co that] .
      ultimately show "\<forall>j\<in>set (jobs (m_scheduler s1)). nodes_requested j \<le> ?free \<and> submit_time j < dbl_max"
        using co f1(7) by (simp add: core_def job_ok_def)
    qed (simp add: f1)
    moreover have "mset (jobs (m_scheduler s1)) = mset (jobs sc)" using st(4) that f1(7) by simp
    ultimately show ?thesis
      unfolding no_idle_def arrived_jobs_def sc(2) using f1 by (auto simp: filter_empty_conv dest: mset_eq_setD)
  qed
  show ?thesis
    using co' st sc(2) f1 idle core_free[OF co] le by (intro exI[of _ st]) (simp add: kept_def)
qed

text \<open>Jobs moved from the scheduler to the running state at the current time.\<close>

definition moved :: "('s, 'g) simulation \<Rightarrow> ('s, 'g) simulation \<Rightarrow> bool" where
  "moved s s' \<longleftrightarrow> kept s s' \<and> m_current_time s' = m_current_time s \<and>
     m_pending_queue_arrivals s' = m_pending_queue_arrivals s \<and>
     (\<exists>st. mset (jobs (m_scheduler s)) = mset st + mset (jobs (m_scheduler s')) \<and>
        (\<forall>j\<in>set st. submit_time j \<le> m_current_time s) \<and>
        length (m_evtq (m_trace s')) = length st + length (m_evtq (m_trace s)))"

lemma moved_refl: "moved s s"
  by (auto simp: moved_def kept_def intro!: exI[of _ "[]"])

lemma moved_trans:
  assumes "moved a b" "moved b c" shows "moved a c"
proof -
  obtain st st' where "mset (jobs (m_scheduler a)) = mset st + mset (jobs (m_scheduler b))" "\<forall>j\<in>set st. submit_time j \<le> m_current_time a"
    "length (m_evtq (m_trace b)) = length st + length (m_evtq (m_trace a))"
    "mset (jobs (m_scheduler b)) = mset st' + mset (jobs (m_scheduler c))" "\<forall>j\<in>set st'. submit_time j \<le> m_current_time b"
    "length (m_evtq (m_trace c)) = length st' + length (m_evtq (m_trace b))"
    using assms by (auto simp: moved_def)
  then show ?thesis using assms kept_trans by (auto simp: moved_def intro!: exI[of _ "st @ st'"])
qed

lemma schedule_loop_law:
  assumes "moment D B s" "settled s" "settling dm f"
  shows "\<exists>b s'. schedule_loop ops (so_schedule ops) f False started s = Some (Inr (b, s')) \<and>
    moment D B s' \<and> settled s' \<and> moved s s' \<and> no_idle s'"
  using assms
proof (induction "length (jobs (m_scheduler s))" arbitrary: s started rule: less_induct)
  case less
  obtain ids s1 where c: "call_scheduler ops (so_schedule ops) s = (ids, s1)" by fastforce
  obtain st where st: "ids = map job_id st" "core D B (st @ jobs (m_scheduler s1)) s1" "ok (m_scheduler s1)"
    "clock (m_scheduler s1) = m_current_time s1" "m_current_time s1 = m_current_time s" "kept s s1" "m_trace s1 = m_trace s"
    "m_pending_queue_arrivals s1 = m_pending_queue_arrivals s"
    "mset (jobs (m_scheduler s)) = mset st + mset (jobs (m_scheduler s1))"
    "occupied (m_trace s) + nodes_sum st \<le> unat (m_current_capacity s)" "\<forall>j\<in>set st. submit_time j \<le> m_current_time s"
    "st = [] \<longrightarrow> no_idle s1"
    using call_law[OF less.prems(1) c] by blast
  have settled1: "settled s1" using less.prems(2) st(5,7) by (simp add: settled_def)
  show ?case
  proof (cases "ids = []")
    case True
    have "moved s s1" using st True by (auto simp: moved_def intro!: exI[of _ st])
    then show ?thesis using st True c settled1
      by (intro exI[of _ started] exI[of _ s1], subst schedule_loop.simps) (simp add: moment_def)
  next
    case False
    obtain s2 where s2: "start_jobs f (map job_id st) s1 = Inr s2" "core D B (jobs (m_scheduler s1)) s2" "settled s2" "framed s1 s2"
      "length (m_evtq (m_trace s2)) = length st + length (m_evtq (m_trace s1))"
      using start_jobs_law[OF st(2) settled1 less.prems(3)] st(6,7,10) by (auto simp: kept_def)
    have m2: "moment D B s2" using s2(2,4) st(3,4) by (simp add: moment_def framed_def)
    have mv: "moved s s2" using st s2(4,5) by (auto simp: moved_def kept_def framed_def intro!: exI[of _ st])
    have "size (mset (jobs (m_scheduler s))) = length st + length (jobs (m_scheduler s1))" by (simp add: st(9))
    then have "length (jobs (m_scheduler s2)) < length (jobs (m_scheduler s))" using False st(1) s2(4) by (simp add: framed_def)
    from less.hyps[OF this m2 s2(3) less.prems(3), of True]
    obtain b s' where r: "schedule_loop ops (so_schedule ops) f False True s2 = Some (Inr (b, s'))" "moment D B s'" "settled s'"
      "moved s2 s'" "no_idle s'" by blast
    have step: "schedule_loop ops (so_schedule ops) f False started s = schedule_loop ops (so_schedule ops) f False True s2"
      by (subst schedule_loop.simps) (use c False s2(1) st(1) in simp)
    show ?thesis using trans[OF step r(1)] r(2,3,5) moved_trans[OF mv r(4)] by blast
  qed
qed

text \<open>Synchronisation and the queue-length sample at arrivals.\<close>

lemma erase_law:
  "distinct (map fst ps) \<Longrightarrow> distinct (map fst (alist_erase t ps)) \<and> set (alist_erase t ps) = {p \<in> set ps. fst p \<noteq> t}"
  by (auto simp: alist_erase_def distinct_map_filter)

lemma record_law:
  assumes m: "moment D B s" and a: "arrivals_ok (m_current_time s) (jobs (m_scheduler s)) (m_pending_queue_arrivals s)"
  shows "\<exists>b s'. record_queue_arrivals ops (m_current_time s) s = Inr (b, s') \<and> moment D B s' \<and> kept s s' \<and> m_trace s' = m_trace s \<and>
    m_current_time s' = m_current_time s \<and> m_scheduler s' = m_scheduler s \<and>
    arrivals_ok (m_current_time s) (jobs (m_scheduler s)) (m_pending_queue_arrivals s') \<and>
    arrivals_after (m_current_time s) (m_pending_queue_arrivals s')"
proof (cases "map_of (m_pending_queue_arrivals s) (m_current_time s)")
  case None
  then have "\<forall>p\<in>set (m_pending_queue_arrivals s). fst p \<noteq> m_current_time s" by (metis map_of_eq_None_iff imageI)
  then show ?thesis using m a None
    by (auto simp: record_queue_arrivals_def kept_def arrivals_after_def arrivals_ok_def order_le_less)
next
  case (Some n)
  let ?t = "m_current_time s" and ?js = "jobs (m_scheduler s)"
  have "(?t, n) \<in> set (m_pending_queue_arrivals s)" using Some by (rule map_of_SomeD)
  then have "n \<le> length (filter (\<lambda>j. submit_time j = ?t) ?js)" using a by (fastforce simp: arrivals_ok_def)
  also have "\<dots> \<le> length (arrived_jobs ?t ?js)"
    unfolding arrived_jobs_def by (rule length_filter_mono) simp
  also have "\<dots> = so_active_job_count ops (m_scheduler s)" using m active_law by (simp add: moment_def)
  finally have n: "\<not> so_active_job_count ops (m_scheduler s) < n" by simp
  have e: "distinct (map fst (alist_erase ?t (m_pending_queue_arrivals s)))"
    "set (alist_erase ?t (m_pending_queue_arrivals s)) = {p \<in> set (m_pending_queue_arrivals s). fst p \<noteq> ?t}"
    using erase_law[of "m_pending_queue_arrivals s" ?t] a unfolding arrivals_ok_def by blast+
  have "core D B ?js s" using m by (simp add: moment_def)
  then show ?thesis using Some n a e m
    by (auto simp: record_queue_arrivals_def Let_def moment_def kept_def arrivals_ok_def arrivals_after_def order_le_less
        elim!: core_frame)
qed

definition future_jobs :: "('s, 'g) simulation \<Rightarrow> job_entry list" where
  "future_jobs s = filter (\<lambda>j. m_current_time s < submit_time j) (jobs (m_scheduler s))"

text \<open>The state at the head of the loop.\<close>

definition loop_ok :: "(job_no \<Rightarrow> int) \<Rightarrow> int \<Rightarrow> ('s, 'g) simulation \<Rightarrow> bool" where
  "loop_ok D B s \<longleftrightarrow> moment D B s \<and> settled s \<and> no_idle s \<and>
     arrivals_ok (m_current_time s) (jobs (m_scheduler s)) (m_pending_queue_arrivals s) \<and>
     arrivals_after (m_current_time s) (m_pending_queue_arrivals s)"

text \<open>Moving the clock to the next time at which anything happens.\<close>

lemma move_law:
  assumes l: "loop_ok D B s" and now: "m_current_time s \<le> t" and wb: "within_bound (B - work D (jobs (m_scheduler s))) t"
    and ev: "\<forall>e\<in>set (m_evtq (m_trace s)). t \<le> ev_time e"
    and fut: "\<forall>j\<in>set (jobs (m_scheduler s)). submit_time j \<le> m_current_time s \<or> t \<le> submit_time j"
  shows "\<exists>b s'. move_clock ops t s = Inr (b, s') \<and> moment D B s' \<and> kept s s' \<and> m_trace s' = m_trace s \<and> m_current_time s' = t \<and>
    mset (jobs (m_scheduler s')) = mset (jobs (m_scheduler s)) \<and>
    arrivals_ok t (jobs (m_scheduler s')) (m_pending_queue_arrivals s') \<and> arrivals_after t (m_pending_queue_arrivals s')"
proof -
  have m: "core D B (jobs (m_scheduler s)) s" "ok (m_scheduler s)" "clock (m_scheduler s) = m_current_time s"
    using l by (simp_all add: loop_ok_def moment_def)
  have W: "0 \<le> work D (jobs (m_scheduler s))" using m(1) by (intro work_nonneg) (simp add: core_def job_ok_def)
  have fin: "isfinite t" using within_bound_max[OF wb] m(1) W by (simp add: core_def)
  have "m_capacity_area_time s \<le> m_current_time s" using m(1) by (simp add: core_def)
  then have area: "\<not> t < m_capacity_area_time s" using now by (simp add: not_less)
  obtain a where a: "advance_capacity_accounting_to t (s\<lparr>m_current_time := t\<rparr>) =
      Inr (s\<lparr>m_current_time := t, m_capacity_area := a, m_capacity_area_time := t\<rparr>)"
    using fin area by (simp add: advance_capacity_accounting_to_def Let_def)
  define s1 where "s1 = s\<lparr>m_current_time := t, m_capacity_area := a, m_capacity_area_time := t,
    m_scheduler := so_sync_to ops (m_scheduler s) t\<rparr>"
  have sy: "ok (m_scheduler s1)" "mset (jobs (m_scheduler s1)) = mset (jobs (m_scheduler s))" "clock (m_scheduler s1) = t"
    using syn_law[OF m(2), of t] now m(3) by (simp_all add: s1_def max_def)
  have "core D B (jobs (m_scheduler s)) s1" using m(1) wb ev by (simp add: core_def s1_def)
  then have m1: "moment D B s1" using sy core_perm[of "jobs (m_scheduler s1)" "jobs (m_scheduler s)" D B s1]
    by (simp add: moment_def s1_def)
  have "t \<le> fst p" if p: "p \<in> set (m_pending_queue_arrivals s)" for p
  proof -
    have "0 < snd p" "snd p \<le> length (filter (\<lambda>j. submit_time j = fst p) (jobs (m_scheduler s)))" "m_current_time s < fst p"
      using l p by (simp_all add: loop_ok_def arrivals_ok_def arrivals_after_def)
    then have "filter (\<lambda>j. submit_time j = fst p) (jobs (m_scheduler s)) \<noteq> []" by auto
    then obtain j where "j \<in> set (jobs (m_scheduler s))" "submit_time j = fst p"
      unfolding filter_empty_conv by blast
    then show ?thesis using fut \<open>m_current_time s < fst p\<close> by auto
  qed
  then have "arrivals_ok t (jobs (m_scheduler s)) (m_pending_queue_arrivals s)"
    using l by (simp add: loop_ok_def arrivals_ok_def)
  then have "arrivals_ok (m_current_time s1) (jobs (m_scheduler s1)) (m_pending_queue_arrivals s1)"
    using arrivals_perm[OF sy(2)] by (simp add: s1_def)
  from record_law[OF m1 this] show ?thesis
    using a sy(2) by (auto simp: move_clock_def s1_def kept_def)
qed

lemma no_change: "length (m_capacity_changes s) \<le> m_next_capacity_change s \<Longrightarrow> apply_capacity_changes t s = (False, s)"
  by (simp add: apply_capacity_changes_def apply_changes.simps[of t False s])

text \<open>One decision of the loop leads to a scheduling point: time has moved, and an event or an arrival was consumed.\<close>

definition progress :: "('s, 'g) simulation \<Rightarrow> ('s, 'g) simulation \<Rightarrow> bool" where
  "progress s s' \<longleftrightarrow> kept s s' \<and> m_current_time s \<le> m_current_time s' \<and>
     mset (jobs (m_scheduler s')) = mset (jobs (m_scheduler s)) \<and>
     (length (m_evtq (m_trace s')) < length (m_evtq (m_trace s)) \<or>
      (length (m_evtq (m_trace s')) = length (m_evtq (m_trace s)) \<and>
       (\<exists>j\<in>set (jobs (m_scheduler s)). m_current_time s < submit_time j \<and> submit_time j \<le> m_current_time s')))"

definition schedule_point :: "(job_no \<Rightarrow> int) \<Rightarrow> int \<Rightarrow> ('s, 'g) simulation \<Rightarrow> ('s, 'g) simulation \<Rightarrow> bool" where
  "schedule_point D B s s' \<longleftrightarrow> moment D B s' \<and> settled s' \<and> progress s s' \<and>
     arrivals_ok (m_current_time s') (jobs (m_scheduler s')) (m_pending_queue_arrivals s') \<and>
     arrivals_after (m_current_time s') (m_pending_queue_arrivals s')"

lemma loop_facts:
  assumes "loop_ok D B s"
  shows "core D B (jobs (m_scheduler s)) s" "0 \<le> work D (jobs (m_scheduler s))" "B \<le> 9007199254740992"
    "next_capacity_time s = dbl_max" "length (m_capacity_changes s) \<le> m_next_capacity_change s"
    "j \<in> set (jobs (m_scheduler s)) \<Longrightarrow> within_bound (B - work D (jobs (m_scheduler s))) (submit_time j)"
    "e \<in> set (m_evtq (m_trace s)) \<Longrightarrow> within_bound (B - work D (jobs (m_scheduler s))) (ev_time e)"
proof -
  show c: "core D B (jobs (m_scheduler s)) s" using assms by (simp add: loop_ok_def moment_def)
  then show "0 \<le> work D (jobs (m_scheduler s))" by (intro work_nonneg) (simp add: core_def job_ok_def)
qed (use assms in \<open>simp_all add: loop_ok_def moment_def core_def next_capacity_time_def\<close>)

lemma bounded_max: "loop_ok D B s \<Longrightarrow> within_bound (B - work D (jobs (m_scheduler s))) t \<Longrightarrow> t < dbl_max"
  using within_bound_max[of "B - work D (jobs (m_scheduler s))" t] loop_facts(2,3)[of D B s] by simp

lemma replay_law:
  assumes l: "loop_ok D B s" and q: "m_evtq (m_trace s) = e # q"
    and na: "next_replay_time s \<le> so_get_next_arrival_time ops (m_scheduler s)"
    and lv: "lv_next_arrival lv = so_get_next_arrival_time ops (m_scheduler s)"
  shows "\<exists>d s'. replay_branch ops dm Event_Driven lv s = Inr (d, s') \<and> de_should_schedule d \<and> schedule_point D B s s' \<and>
    m_current_time s' = next_replay_time s"
proof -
  let ?t = "ev_time e"
  have t: "next_replay_time s = ?t" by (simp add: next_replay_time_def q)
  have sl: "m_current_time s < ?t" using l q by (simp add: loop_ok_def settled_def)
  have late: "\<forall>f\<in>set (m_evtq (m_trace s)). ?t \<le> ev_time f"
    using loop_facts(1)[OF l] q evtq_front_least[of e q] by (auto simp: core_def trace_ok_def queue_ok_def)
  have okc: "ok (m_scheduler s)" "clock (m_scheduler s) = m_current_time s" using l by (simp_all add: loop_ok_def moment_def)
  have fut: "\<forall>j\<in>set (jobs (m_scheduler s)). submit_time j \<le> m_current_time s \<or> ?t \<le> submit_time j"
    using arrival_law[OF okc(1)] na t okc(2) by force
  obtain b s1 where s1: "move_clock ops ?t s = Inr (b, s1)" "moment D B s1" "kept s s1" "m_trace s1 = m_trace s" "m_current_time s1 = ?t"
    "mset (jobs (m_scheduler s1)) = mset (jobs (m_scheduler s))"
    "arrivals_ok ?t (jobs (m_scheduler s1)) (m_pending_queue_arrivals s1)" "arrivals_after ?t (m_pending_queue_arrivals s1)"
    using move_law[OF l less_imp_le[OF sl] loop_facts(7)[OF l] late fut] q by auto
  have c1: "core D B (jobs (m_scheduler s1)) s1" using s1(2) by (simp add: moment_def)
  obtain freed s2 where s2: "event_loop dm False s1 = Inr (freed, s2)" "core D B (jobs (m_scheduler s1)) s2" "settled s2" "framed s1 s2"
    "freed" "length (m_evtq (m_trace s2)) < length (m_evtq (m_trace s1))"
    using event_loop_law[OF c1, of dm False] q s1(4,5) by (auto simp: next_replay_time_def)
  have ch: "apply_capacity_changes (m_current_time s2) s2 = (False, s2)" using s2(2) by (intro no_change) (simp add: core_def)
  have "replay_branch ops dm Event_Driven lv s =
      Inr (\<lparr>de_should_schedule = True, de_arrival_notification = False, de_periodic_evaluation = False\<rparr>, s2)"
    by (simp add: replay_branch_def t s1(1) s2(1,5) ch dispatch_on_events_def)
  moreover have "schedule_point D B s s2"
    using s1 s2 sl by (auto simp: schedule_point_def progress_def moment_def framed_def kept_def)
  moreover have "m_current_time s2 = ?t" using s2(4) s1(5) by (simp add: framed_def)
  ultimately show ?thesis using t by force
qed

lemma arrival_branch_law:
  assumes l: "loop_ok D B s" and na: "so_get_next_arrival_time ops (m_scheduler s) = t" "t < dbl_max"
    and ev: "\<forall>e\<in>set (m_evtq (m_trace s)). t < ev_time e"
  shows "\<exists>d s'. timed_branch ops Event_Driven t s = Inr (d, s') \<and> de_should_schedule d \<and> schedule_point D B s s' \<and> m_current_time s' = t"
proof -
  have okc: "ok (m_scheduler s)" "clock (m_scheduler s) = m_current_time s" using l by (simp_all add: loop_ok_def moment_def)
  obtain j where j: "j \<in> set (jobs (m_scheduler s))" "m_current_time s < submit_time j" "submit_time j = t"
    using arrival_law[OF okc(1)] na okc(2) by auto
  have fut: "\<forall>j\<in>set (jobs (m_scheduler s)). submit_time j \<le> m_current_time s \<or> t \<le> submit_time j"
    using arrival_law[OF okc(1)] na okc(2) by force
  have late: "\<forall>e\<in>set (m_evtq (m_trace s)). t \<le> ev_time e" using ev less_imp_le by blast
  obtain b s1 where s1: "move_clock ops t s = Inr (b, s1)" "moment D B s1" "kept s s1" "m_trace s1 = m_trace s" "m_current_time s1 = t"
    "mset (jobs (m_scheduler s1)) = mset (jobs (m_scheduler s))"
    "arrivals_ok t (jobs (m_scheduler s1)) (m_pending_queue_arrivals s1)" "arrivals_after t (m_pending_queue_arrivals s1)"
    using move_law[OF l less_imp_le _ late fut] j loop_facts(6)[OF l j(1)] by auto
  have ch: "apply_capacity_changes (m_current_time s1) s1 = (False, s1)"
    using s1(2) by (intro no_change) (simp add: core_def moment_def)
  have "timed_branch ops Event_Driven t s =
      Inr (\<lparr>de_should_schedule = True, de_arrival_notification = False, de_periodic_evaluation = False\<rparr>, s1)"
    using ch s1(5) by (simp add: timed_branch_def s1(1) dispatch_on_events_def)
  moreover have "schedule_point D B s s1"
    using s1 j ev by (auto simp: schedule_point_def progress_def settled_def intro!: bexI[of _ j])
  ultimately show ?thesis using s1(5) by force
qed

text \<open>The decision of the loop in the event-driven mode.\<close>

definition vars_ok :: "loop_vars \<Rightarrow> ('s, 'g) simulation \<Rightarrow> bool" where
  "vars_ok lv s \<longleftrightarrow> (\<exists>n. lv = read_loop_vars ops n s)"

definition quiet :: "sim_time \<Rightarrow> ('s, 'g) simulation \<Rightarrow> bool" where
  "quiet target s \<longleftrightarrow> (\<forall>e\<in>set (m_evtq (m_trace s)). target < ev_time e) \<and>
     (\<forall>j\<in>set (jobs (m_scheduler s)). submit_time j \<le> m_current_time s \<or> target < submit_time j)"

lemma arrival_facts:
  assumes "loop_ok D B s"
  shows "j \<in> set (jobs (m_scheduler s)) \<Longrightarrow> submit_time j \<le> m_current_time s \<or> so_get_next_arrival_time ops (m_scheduler s) \<le> submit_time j"
    "so_get_next_arrival_time ops (m_scheduler s) \<le> dbl_max"
proof -
  have o: "ok (m_scheduler s)" "clock (m_scheduler s) = m_current_time s" using assms by (simp_all add: loop_ok_def moment_def)
  show "j \<in> set (jobs (m_scheduler s)) \<Longrightarrow> submit_time j \<le> m_current_time s \<or> so_get_next_arrival_time ops (m_scheduler s) \<le> submit_time j"
    using arrival_law[OF o(1)] o(2) by simp
  show "so_get_next_arrival_time ops (m_scheduler s) \<le> dbl_max"
    using arrival_law[OF o(1)] bounded_max[OF assms loop_facts(6)[OF assms]] less_imp_le by fastforce
qed

lemma quiet_no_arrivals:
  assumes l: "loop_ok D B s" and n: "\<not> so_get_next_arrival_time ops (m_scheduler s) < dbl_max"
  shows "j \<in> set (jobs (m_scheduler s)) \<Longrightarrow> submit_time j \<le> m_current_time s"
  using arrival_facts(1)[OF l, of j] bounded_max[OF l loop_facts(6)[OF l], of j] n by auto

lemma select_law:
  assumes l: "loop_ok D B s" and v: "vars_ok lv s"
  shows "case select_event ops dm Event_Driven target lv s of
      None \<Rightarrow> quiet target s
    | Some r \<Rightarrow> (\<exists>d s'. r = Inr (d, s') \<and> de_should_schedule d \<and> schedule_point D B s s' \<and> m_current_time s' \<le> target)"
proof -
  let ?na = "so_get_next_arrival_time ops (m_scheduler s)"
  have lv: "lv_next_arrival lv = ?na" "lv_next_capacity lv = dbl_max" "next_tick Event_Driven lv s = dbl_max"
    using v loop_facts(4)[OF l] by (auto simp: vars_ok_def read_loop_vars_def next_tick_def)
  have na: "?na \<le> dbl_max" by (rule arrival_facts(2)[OF l])
  show ?thesis
  proof (cases "m_evtq (m_trace s)")
    case Nil
    have rt: "next_replay_time s = dbl_max" by (simp add: next_replay_time_def Nil)
    show ?thesis
    proof (cases "?na < dbl_max \<and> ?na \<le> target")
      case True
      then show ?thesis using arrival_branch_law[OF l refl] Nil na lv by (fastforce simp: select_event_def Let_def)
    next
      case False
      have "quiet target s" using False arrival_facts(1)[OF l] quiet_no_arrivals[OF l] Nil
        by (fastforce simp: quiet_def not_le)
      then show ?thesis using False lv Nil by (auto simp: select_event_def Let_def)
    qed
  next
    case (Cons e q)
    have rt: "next_replay_time s = ev_time e" by (simp add: next_replay_time_def Cons)
    have lm: "ev_time e < dbl_max" using bounded_max[OF l loop_facts(7)[OF l]] Cons by simp
    have late: "\<forall>f\<in>set (m_evtq (m_trace s)). ev_time e \<le> ev_time f"
      using loop_facts(1)[OF l] Cons evtq_front_least[of e q] by (auto simp: core_def trace_ok_def queue_ok_def)
    consider (replay) "ev_time e \<le> ?na" "ev_time e \<le> target" | (arrival) "?na < dbl_max" "?na \<le> target" "?na < ev_time e"
      | (none) "\<not> (ev_time e \<le> ?na \<and> ev_time e \<le> target)" "\<not> (?na < dbl_max \<and> ?na \<le> target)"
      using lm by (force simp: not_le)
    then show ?thesis
    proof cases
      case replay
      then show ?thesis using replay_law[OF l Cons _ lv(1)] rt lm lv Cons less_imp_le by (fastforce simp: select_event_def Let_def)
    next
      case arrival
      have "\<forall>f\<in>set (m_evtq (m_trace s)). ?na < ev_time f" using late arrival(3) less_le_trans by blast
      from arrival_branch_law[OF l refl arrival(1) this]
      show ?thesis using arrival rt lv less_imp_le by (fastforce simp: select_event_def Let_def)
    next
      case none
      have "target < ev_time e" using none lm by (metis less_le_trans not_le order_less_imp_le linorder_not_less)
      then have "quiet target s" using none late arrival_facts(1)[OF l] quiet_no_arrivals[OF l]
        by (fastforce simp: quiet_def not_le)
      moreover have "select_event ops dm Event_Driven target lv s = None" using none lv rt lm less_imp_le Cons
        by (auto simp: select_event_def Let_def)
      ultimately show ?thesis by simp
    qed
  qed
qed

text \<open>The measure of the loop: every iteration consumes an event or an arrival.\<close>

definition weight :: "('s, 'g) simulation \<Rightarrow> nat" where
  "weight s = 2 * length (jobs (m_scheduler s)) + length (m_evtq (m_trace s)) + length (future_jobs s)"

lemma future_less:
  assumes "\<And>x. x \<in> set xs \<Longrightarrow> P x \<Longrightarrow> Q x" "x \<in> set xs" "Q x" "\<not> P x"
  shows "length (filter P xs) < length (filter Q xs)"
  using assms
proof (induction xs)
  case (Cons y xs)
  have "length (filter P xs) \<le> length (filter Q xs)" if "\<And>x. x \<in> set xs \<Longrightarrow> P x \<Longrightarrow> Q x" for xs
    using that by (induction xs) auto
  from this[of xs] show ?case using Cons by (auto simp: less_Suc_eq_le)
qed simp

lemma progress_weight:
  assumes "progress s s1" "moved s1 s2"
  shows "weight s2 < weight s"
proof -
  let ?J = "jobs (m_scheduler s)" and ?J1 = "jobs (m_scheduler s1)" and ?J2 = "jobs (m_scheduler s2)"
  obtain st where st: "mset ?J1 = mset st + mset ?J2" "length (m_evtq (m_trace s2)) = length st + length (m_evtq (m_trace s1))"
    "m_current_time s2 = m_current_time s1"
    using assms(2) by (auto simp: moved_def)
  have p: "mset ?J1 = mset ?J" "m_current_time s \<le> m_current_time s1" using assms(1) by (simp_all add: progress_def)
  have "size (mset ?J) = size (mset st + mset ?J2)" using st(1) p(1) by simp
  then have l2: "length ?J = length st + length ?J2" by simp
  have f2: "length (future_jobs s2) \<le> length (filter (\<lambda>j. m_current_time s1 < submit_time j) ?J)"
  proof -
    have "size (filter_mset (\<lambda>j. m_current_time s1 < submit_time j) (mset ?J2)) \<le> size (filter_mset (\<lambda>j. m_current_time s1 < submit_time j) (mset ?J))"
      using st(1) p(1) by (metis filter_union_mset le_add2 size_union)
    then show ?thesis by (simp add: future_jobs_def st(3) flip: mset_filter)
  qed
  have f1: "length (filter (\<lambda>j. m_current_time s1 < submit_time j) ?J) \<le> length (future_jobs s)"
    unfolding future_jobs_def using p(2) by (intro length_filter_mono) (rule le_less_trans)
  consider "length (m_evtq (m_trace s1)) < length (m_evtq (m_trace s))"
    | j where "length (m_evtq (m_trace s1)) = length (m_evtq (m_trace s))" "j \<in> set ?J" "m_current_time s < submit_time j"
        "submit_time j \<le> m_current_time s1"
    using assms(1) by (auto simp: progress_def)
  then show ?thesis
  proof cases
    case 1
    then show ?thesis using st(2) l2 f1 f2 by (simp add: weight_def)
  next
    case 2
    have "length (filter (\<lambda>j. m_current_time s1 < submit_time j) ?J) < length (future_jobs s)"
      unfolding future_jobs_def by (rule future_less[of _ _ _ j]) (use 2 p(2) in \<open>auto intro: le_less_trans\<close>)
    then show ?thesis using st(2) l2 f2 2 by (simp add: weight_def)
  qed
qed

lemma moved_loop_ok:
  assumes "moment D B s1" "arrivals_ok (m_current_time s1) (jobs (m_scheduler s1)) (m_pending_queue_arrivals s1)"
    "arrivals_after (m_current_time s1) (m_pending_queue_arrivals s1)" "moment D B s2" "settled s2" "moved s1 s2" "no_idle s2"
  shows "loop_ok D B s2"
proof -
  obtain st where st: "mset (jobs (m_scheduler s1)) = mset st + mset (jobs (m_scheduler s2))" "\<forall>j\<in>set st. submit_time j \<le> m_current_time s1"
    "m_current_time s2 = m_current_time s1" "m_pending_queue_arrivals s2 = m_pending_queue_arrivals s1"
    using assms(6) by (auto simp: moved_def)
  then show ?thesis using assms arrivals_started[OF assms(2,3) st(1,2)] by (simp add: loop_ok_def)
qed

lemma loop_ok_peak: "loop_ok D B s \<Longrightarrow> loop_ok D B (update_peak n s)"
  by (auto simp: loop_ok_def update_peak_def moment_def settled_def no_idle_def elim!: core_frame)

lemma body_law:
  assumes l: "loop_ok D B s" and v: "vars_ok lv s"
  shows "loop_body ops dm Event_Driven t0 target lv s = Some (Inr (False, lv, s)) \<and> quiet target s \<or>
    (\<exists>lv' s'. loop_body ops dm Event_Driven t0 target lv s = Some (Inr (True, lv', s')) \<and> loop_ok D B s' \<and> vars_ok lv' s' \<and>
       weight s' < weight s \<and> kept s s' \<and> m_current_time s' \<le> target \<and> m_current_time s \<le> m_current_time s')"
proof (cases "select_event ops dm Event_Driven target lv s")
  case None
  then show ?thesis using select_law[OF l v, where dm = dm and target = target] by (simp add: loop_body_def)
next
  case (Some r)
  obtain d s1 where s1: "r = Inr (d, s1)" "de_should_schedule d" "schedule_point D B s s1" "m_current_time s1 \<le> target"
    using select_law[OF l v, where dm = dm and target = target] Some by auto
  have m1: "moment D B s1" "settled s1" using s1(3) by (simp_all add: schedule_point_def)
  have "settling dm (settle_start dm)" by (simp add: settling_def)
  from schedule_loop_law[OF m1 this, of False] obtain b s2 where
    s2: "schedule_loop ops (so_schedule ops) (settle_start dm) False False s1 = Some (Inr (b, s2))" "moment D B s2" "settled s2"
      "moved s1 s2" "no_idle s2" by blast
  define s' where "s' = update_peak (lv_active_count (read_loop_vars ops False s2)) s2"
  have body: "loop_body ops dm Event_Driven t0 target lv s = Some (Inr (True, read_loop_vars ops False s2, s'))"
    using Some s1(1,2) s2(1)
    by (simp add: loop_body_def settle_tick_def choose_pass_def finish_iteration_def catch_up_tick_def s'_def Let_def)
  have "loop_ok D B s2" using moved_loop_ok[OF m1(1) _ _ s2(2-5)] s1(3) by (simp add: schedule_point_def)
  then have "loop_ok D B s'" by (simp add: s'_def loop_ok_peak)
  moreover have "vars_ok (read_loop_vars ops False s2) s'"
    unfolding vars_ok_def by (rule exI[of _ False]) (simp add: s'_def read_loop_vars_def update_peak_def next_capacity_time_def)
  moreover have "weight s' < weight s"
    using progress_weight[of s s1 s2] s1(3) s2(4) by (simp add: s'_def update_peak_def weight_def future_jobs_def schedule_point_def)
  moreover have "kept s s'" "m_current_time s' = m_current_time s1" "m_current_time s \<le> m_current_time s1"
    using s1(3) s2(4) by (simp_all add: s'_def update_peak_def kept_def schedule_point_def progress_def moved_def)
  ultimately show ?thesis using body s1(4) by auto
qed

lemma loop_law:
  assumes "loop_ok D B s" "vars_ok lv s" "m_current_time s \<le> target"
  shows "\<exists>s'. main_loop ops dm Event_Driven t0 target lv s = Some (Inr s') \<and> loop_ok D B s' \<and> quiet target s' \<and>
    kept s s' \<and> m_current_time s' \<le> target \<and> m_current_time s \<le> m_current_time s'"
  using assms
proof (induction "weight s" arbitrary: s lv rule: less_induct)
  case less
  show ?case
  proof (cases "loop_condition Event_Driven target lv s")
    case False
    have z: "lv_active_count lv = so_active_job_count ops (m_scheduler s)" "lv_next_arrival lv = so_get_next_arrival_time ops (m_scheduler s)"
      using less.prems(2) by (auto simp: vars_ok_def read_loop_vars_def)
    have "m_evtq (m_trace s) = []" "\<not> so_get_next_arrival_time ops (m_scheduler s) < dbl_max"
      using False z by (auto simp: loop_condition_def)
    then have "quiet target s" using quiet_no_arrivals[OF less.prems(1)] by (simp add: quiet_def)
    then show ?thesis using False less.prems by (subst main_loop.simps) (simp add: kept_def)
  next
    case True
    from body_law[OF less.prems(1,2), where dm = dm and ?t0.0 = t0 and target = target] show ?thesis
    proof (elim disjE exE conjE)
      assume "loop_body ops dm Event_Driven t0 target lv s = Some (Inr (False, lv, s))" "quiet target s"
      then show ?thesis using True less.prems by (subst main_loop.simps) (simp add: kept_def)
    next
      fix lv' s'
      assume b: "loop_body ops dm Event_Driven t0 target lv s = Some (Inr (True, lv', s'))" "loop_ok D B s'" "vars_ok lv' s'"
        "weight s' < weight s" "kept s s'" "m_current_time s' \<le> target" "m_current_time s \<le> m_current_time s'"
      from less.hyps[OF b(4,2,3,6)] obtain s'' where
        r: "main_loop ops dm Event_Driven t0 target lv' s' = Some (Inr s'')" "loop_ok D B s''" "quiet target s''" "kept s' s''"
          "m_current_time s'' \<le> target" "m_current_time s' \<le> m_current_time s''" by blast
      have "main_loop ops dm Event_Driven t0 target lv s = main_loop ops dm Event_Driven t0 target lv' s'"
        by (subst main_loop.simps) (use True b(1) in simp)
      from trans[OF this r(1)] show ?thesis
        using r(2,3,5) kept_trans[OF b(5) r(4)] order_trans[OF b(7) r(6)] by blast
    qed
  qed
qed

end

end
