(* ===== verification/Simulation_Advance.thy ===== *)
theory Simulation_Advance
  imports Simulation_Loop
begin

text \<open>
  Whole calls of the simulation: \<^verbatim>\<open>advance_to\<close>, a drain, a submission and a batch run, for every scheduler
  of the contract \<open>sim_scheduler\<close>.
\<close>

text \<open>A record that was loaded and not started: \<open>D i\<close> is the whole number of seconds it runs.\<close>

definition fresh_record :: "int \<Rightarrow> job_record \<Rightarrow> bool" where
  "fresh_record d r \<longleftrightarrow> m_t_submit r \<noteq> unscheduled_sentinel \<and> m_t_end r = unscheduled_sentinel \<and>
     m_actual_run_time (timed_record r) = dbl d \<and> 0 < d"

definition same_setup :: "('s, 'g) simulation \<Rightarrow> ('s, 'g) simulation \<Rightarrow> bool" where
  "same_setup s s' \<longleftrightarrow> m_params s' = m_params s \<and> m_current_capacity s' = m_current_capacity s \<and>
     m_job_rejection_capacity s' = m_job_rejection_capacity s \<and> m_current_time s' = m_current_time s"

lemma set_job_keep:
  assumes "trace_ok tr" "job_at tr i = Inr r" "i \<notin> ev_job ` set (m_evtq tr)"
  shows "trace_ok (set_job i r' tr)"
proof (rule trace_ok_keep[OF assms(1)])
  show "same_account tr (set_job i r' tr)" by (simp add: same_account_def set_job_def)
  show "write_ok (set_job i r' tr)" using assms(1) by (simp add: trace_ok_def write_ok_def set_job_def)
next
  fix e assume "e \<in> set (m_evtq tr)"
  then have "ev_job e \<noteq> i" using assms(3) by (metis imageI)
  then show "job_at (set_job i r' tr) (ev_job e) = job_at tr (ev_job e)" by (simp add: job_at_set_job[OF assms(2)])
qed

lemma occupied_set_job:
  assumes "job_at tr i = Inr r" "i \<notin> ev_job ` set (m_evtq tr)"
  shows "occupied (set_job i r' tr) = occupied tr"
proof -
  have "map (\<lambda>e. unat (nodes_of (set_job i r' tr) (ev_job e))) (m_evtq tr) = map (\<lambda>e. unat (nodes_of tr (ev_job e))) (m_evtq tr)"
  proof (rule map_cong[OF refl])
    fix e assume "e \<in> set (m_evtq tr)"
    then have "ev_job e \<noteq> i" using assms(2) by (metis imageI)
    then show "unat (nodes_of (set_job i r' tr) (ev_job e)) = unat (nodes_of tr (ev_job e))"
      by (simp add: nodes_of_def job_at_set_job[OF assms(1)])
  qed
  moreover have "m_evtq (set_job i r' tr) = m_evtq tr" by (simp add: set_job_def)
  ultimately show ?thesis by (simp only: occupied_def)
qed

text \<open>The record of one job that is neither waiting nor running may change.\<close>

lemma core_set_job:
  assumes c: "core D B js s" and r: "job_at (m_trace s) i = Inr r" and new: "i \<notin> job_id ` set js" "i \<notin> ev_job ` set (m_evtq (m_trace s))"
  shows "core D B js (s\<lparr>m_trace := set_job i r' (m_trace s)\<rparr>)"
proof -
  have "job_ok D (m_current_capacity s) (set_job i r' (m_trace s)) j" if "j \<in> set js" for j
  proof -
    have "job_id j \<noteq> i" using that new(1) by (metis imageI)
    moreover have "job_ok D (m_current_capacity s) (m_trace s) j" using c that by (simp add: core_def)
    ultimately show ?thesis by (simp add: job_ok_def job_at_set_job[OF r])
  qed
  moreover have "sampled (m_current_capacity s) (set_job i r' (m_trace s)) = sampled (m_current_capacity s) (m_trace s)"
    by (rule sampled_cong) (simp_all add: set_job_def)
  moreover have "m_evtq (set_job i r' (m_trace s)) = m_evtq (m_trace s)" "m_release_delay (set_job i r' (m_trace s)) = m_release_delay (m_trace s)"
    "m_last_departure_delayed (set_job i r' (m_trace s)) = m_last_departure_delayed (m_trace s)" by (simp_all add: set_job_def)
  ultimately show ?thesis
    using c set_job_keep[OF _ r new(2)] occupied_set_job[OF r new(2)] by (simp add: core_def)
qed

lemma core_more:
  assumes "core D B js s" "B \<le> B'" "B' \<le> 9007199254740992"
  shows "core D B' js s"
  using assms within_bound_mono[of "B - work D js" _ "B' - work D js"] by (auto simp: core_def)

text \<open>A new waiting job.\<close>

lemma core_add:
  assumes c: "core D B js s" and r: "job_at (m_trace s) (job_id j) = Inr r" "fresh_record (D (job_id j)) r"
    "m_num_nodes r = nodes_requested j" "nodes_requested j \<le> m_current_capacity s"
    and new: "job_id j \<notin> job_id ` set js" "job_id j \<notin> ev_job ` set (m_evtq (m_trace s))"
    and t: "within_bound (B - work D js) (submit_time j)" and B: "B + D (job_id j) \<le> 9007199254740992"
    and s': "m_trace s' = m_trace s" "m_current_time s' = m_current_time s"
    "m_current_capacity s' = m_current_capacity s" "m_capacity_changes s' = m_capacity_changes s"
    "m_next_capacity_change s' = m_next_capacity_change s" "m_capacity_area_time s' = m_capacity_area_time s"
    "m_jobs_submitted s' = Suc (m_jobs_submitted s)" "m_jobs_started s' = m_jobs_started s" "m_jobs_completed s' = m_jobs_completed s"
  shows "core D (B + D (job_id j)) (j # js) s'"
proof -
  have eq: "B + D (job_id j) - work D (j # js) = B - work D js" by simp
  have "job_ok D (m_current_capacity s) (m_trace s) j" using r by (simp add: job_ok_def fresh_record_def)
  then show ?thesis unfolding core_def eq using c t B new s' by (auto simp: core_def)
qed

lemma alist_put_law:
  "distinct (map fst ps) \<Longrightarrow> distinct (map fst (alist_put k v ps)) \<and> set (alist_put k v ps) = insert (k, v) {p \<in> set ps. fst p \<noteq> k}"
proof (induction ps)
  case (Cons p ps)
  have e: "set (alist_put k v ps) = insert (k, v) {p \<in> set ps. fst p \<noteq> k}" "distinct (map fst (alist_put k v ps))"
    using Cons by simp_all
  have "fst ` set (alist_put k v ps) \<subseteq> insert k (fst ` set ps)" unfolding e(1) by auto
  then show ?case using Cons.prems e by (cases p) force
qed simp

lemma arrivals_inc:
  assumes a: "arrivals_ok now js ps" and t: "now \<le> t" "submit_time j = t"
  shows "arrivals_ok now (j # js) (alist_inc t ps)"
proof -
  define n :: nat where "n = (case map_of ps t of None \<Rightarrow> 1 | Some n \<Rightarrow> n + 1)"
  have d: "distinct (map fst ps)" and ps: "\<forall>p\<in>set ps. now \<le> fst p \<and> 0 < snd p \<and> snd p \<le> length (filter (\<lambda>j. submit_time j = fst p) js)"
    using a by (simp_all add: arrivals_ok_def)
  have n: "0 < n" "n \<le> Suc (length (filter (\<lambda>j. submit_time j = t) js))"
    using ps by (auto simp: n_def split: option.splits dest!: map_of_SomeD)
  have q: "alist_inc t ps = alist_put t n ps" by (simp add: alist_inc_def n_def)
  show ?thesis unfolding q using alist_put_law[OF d, of t n] ps n t by (auto simp: arrivals_ok_def le_SucI)
qed

definition submitted_at :: "'g trace \<Rightarrow> job_no \<Rightarrow> sim_time" where
  "submitted_at tr i = (case job_at tr i of Inl _ \<Rightarrow> 0 | Inr r \<Rightarrow> convert_epoch (m_t_submit r))"

lemma job_at_views: "job_at tr' i = job_at tr i \<Longrightarrow> submitted_at tr' i = submitted_at tr i \<and> nodes_of tr' i = nodes_of tr i"
  by (simp add: submitted_at_def nodes_of_def)

definition accepted :: "num_nodes \<Rightarrow> 'g trace \<Rightarrow> job_no list \<Rightarrow> nat" where
  "accepted c tr ids = length (filter (\<lambda>i. nodes_of tr i \<le> c) ids)"

lemma accepted_cong: "(\<And>i. i \<in> set ids \<Longrightarrow> job_at tr' i = job_at tr i) \<Longrightarrow> accepted c tr' ids = accepted c tr ids"
  unfolding accepted_def by (intro arg_cong[of _ _ length] filter_cong refl) (simp add: nodes_of_def)

lemma accepted_Cons: "accepted c tr (i # ids) = (if nodes_of tr i \<le> c then Suc (accepted c tr ids) else accepted c tr ids)"
  by (simp add: accepted_def)

text \<open>Identifiers that may be submitted to a state: their records are fresh and arrive in order, not before the
  clock and the waiting jobs \<open>js\<close>.\<close>

definition submittable :: "(job_no \<Rightarrow> int) \<Rightarrow> int \<Rightarrow> job_entry list \<Rightarrow> ('s, 'g) simulation \<Rightarrow> job_no list \<Rightarrow> bool" where
  "submittable D b js s ids \<longleftrightarrow> distinct ids \<and> sorted (map (submitted_at (m_trace s)) ids) \<and>
     (\<forall>i\<in>set ids. (\<exists>r. job_at (m_trace s) i = Inr r \<and> fresh_record (D i) r) \<and> i \<notin> job_id ` set js \<and>
        i \<notin> ev_job ` set (m_evtq (m_trace s)) \<and> m_current_time s \<le> submitted_at (m_trace s) i \<and>
        within_bound b (submitted_at (m_trace s) i) \<and> (\<forall>j\<in>set js. submit_time j \<le> submitted_at (m_trace s) i))"

lemma submittable_step:
  assumes "submittable D b js s (i # ids)" "job_at (m_trace s) i = Inr r" "m_trace s' = set_job i r' (m_trace s)" "m_current_time s' = m_current_time s"
    and js': "set js' \<subseteq> insert (new_entry i (submitted_at (m_trace s) i) l n) (set js)"
  shows "submittable D b js' s' ids"
proof -
  have ne: "k \<noteq> i" if "k \<in> set ids" for k using assms(1) that by (auto simp: submittable_def)
  have at: "job_at (m_trace s') k = job_at (m_trace s) k" if "k \<in> set ids" for k
    using ne[OF that] assms(3) by (simp add: job_at_set_job[OF assms(2)])
  have tm: "submitted_at (m_trace s') k = submitted_at (m_trace s) k" if "k \<in> set ids" for k
    using job_at_views[OF at[OF that]] by simp
  have q: "m_evtq (m_trace s') = m_evtq (m_trace s)" by (simp add: assms(3) set_job_def)
  have "map (submitted_at (m_trace s')) ids = map (submitted_at (m_trace s)) ids" using tm by simp
  moreover have "job_id j \<noteq> k \<and> submit_time j \<le> submitted_at (m_trace s) k" if "k \<in> set ids" "j \<in> set js'" for j k
  proof (cases "j = new_entry i (submitted_at (m_trace s) i) l n")
    case True
    then show ?thesis using assms(1) ne[OF that(1)] that(1) by (auto simp: submittable_def new_entry_def)
  next
    case False
    then have "j \<in> set js" using js' that(2) by blast
    moreover have "k \<notin> job_id ` set js" "\<forall>j\<in>set js. submit_time j \<le> submitted_at (m_trace s) k"
      using assms(1) that(1) by (simp_all add: submittable_def)
    ultimately show ?thesis by blast
  qed
  moreover have "sorted (map (submitted_at (m_trace s)) ids)" "distinct ids" using assms(1) by (simp_all add: submittable_def)
  moreover have "(\<exists>r. job_at (m_trace s) k = Inr r \<and> fresh_record (D k) r) \<and> k \<notin> ev_job ` set (m_evtq (m_trace s)) \<and>
      m_current_time s \<le> submitted_at (m_trace s) k \<and> within_bound b (submitted_at (m_trace s) k)" if "k \<in> set ids" for k
    using assms(1) that unfolding submittable_def by simp
  ultimately show ?thesis unfolding submittable_def q assms(4) by (auto simp only: at tm)
qed

section \<open>What a batch run does\<close>

text \<open>The inputs of a batch run: records in order of submission at whole seconds up to \<open>b\<close>, the record of job
  \<open>i\<close> running a positive whole number \<open>D i\<close> of seconds, the whole run within \<open>2 ^ 53\<close> seconds.\<close>

definition well_posed :: "(job_no \<Rightarrow> int) \<Rightarrow> int \<Rightarrow> sim_params \<Rightarrow> job_record list \<Rightarrow> bool" where
  "well_posed D b p recs \<longleftrightarrow> mode_of p = Event_Driven \<and>
     (\<forall>i<length recs. fresh_record (D i) (recs ! i) \<and> within_bound b (convert_epoch (m_t_submit (recs ! i)))) \<and>
     sorted (map (\<lambda>r. convert_epoch (m_t_submit r)) recs) \<and> 0 \<le> b \<and>
     b + sum_list (map D [0..<length recs]) \<le> 9007199254740992"

definition drains ::
  "('s \<Rightarrow> job_entry list) \<Rightarrow> sim_params \<Rightarrow> job_record list \<Rightarrow> (exn + ('s, 'g) simulation) option \<Rightarrow> bool" where
  "drains jobs p recs r = (case r of
     Some (Inr s) \<Rightarrow> jobs (m_scheduler s) = [] \<and> m_evtq (m_trace s) = [] \<and>
       m_jobs_submitted s = length (filter (\<lambda>r. m_num_nodes r \<le> p_total_nodes p) recs) \<and>
       m_jobs_completed s = m_jobs_submitted s \<and> sampled (p_total_nodes p) (m_trace s)
   | _ \<Rightarrow> False)"

definition stops_at ::
  "('s \<Rightarrow> job_entry list) \<Rightarrow> sim_params \<Rightarrow> job_record list \<Rightarrow> sim_time \<Rightarrow> (exn + ('s, 'g) simulation) option \<Rightarrow> bool" where
  "stops_at jobs p recs t r = (case r of
     Some (Inr s) \<Rightarrow> m_current_time s = t \<and> (\<forall>e\<in>set (m_evtq (m_trace s)). t < ev_time e) \<and>
       m_jobs_submitted s = length (filter (\<lambda>r. m_num_nodes r \<le> p_total_nodes p) recs) \<and>
       m_jobs_submitted s = m_jobs_started s + length (jobs (m_scheduler s)) \<and>
       m_jobs_started s = m_jobs_completed s + length (m_evtq (m_trace s)) \<and>
       (m_evtq (m_trace s) = [] \<longrightarrow> (\<forall>j\<in>set (jobs (m_scheduler s)). t < submit_time j)) \<and>
       m_n_nodes_in_use (m_trace s) \<le> p_total_nodes p \<and> sampled (p_total_nodes p) (m_trace s)
   | _ \<Rightarrow> False)"

text \<open>A simulation that holds the records of its trace and has done nothing yet.\<close>

definition unstarted :: "sim_params \<Rightarrow> job_record list \<Rightarrow> ('s, 'g) simulation \<Rightarrow> bool" where
  "unstarted p recs s \<longleftrightarrow> m_params s = p \<and> m_current_time s = 0 \<and> m_current_capacity s = p_total_nodes p \<and>
     m_job_rejection_capacity s = p_total_nodes p \<and> m_jobs_submitted s = 0 \<and> m_jobs_started s = 0 \<and> m_jobs_completed s = 0 \<and>
     m_pending_queue_arrivals s = [] \<and> length (m_capacity_changes s) \<le> m_next_capacity_change s \<and> m_capacity_area_time s \<le> 0 \<and>
     m_data (m_trace s) = recs \<and> m_num_reclaimed (m_trace s) = 0 \<and> m_evtq (m_trace s) = [] \<and> trace_ok (m_trace s) \<and>
     \<not> rd_active (m_release_delay (m_trace s)) \<and> \<not> m_last_departure_delayed (m_trace s) \<and>
     sampled (p_total_nodes p) (m_trace s)"

lemma new_unstarted: "unstarted p recs (new_simulation p ((new_trace mode rng)\<lparr>m_data := recs\<rparr>) sc [])"
  by (simp add: unstarted_def new_simulation_def reset_capacity_schedule_def reset_resource_capacity_def new_trace_def
      trace_ok_def write_ok_def queue_ok_def evtq_ok_def pend_def sampled_def samples_def no_release_delay_def)

section \<open>Advancing the clock\<close>

context sim_scheduler
begin

text \<open>The state between two calls of the simulation's interface.\<close>

definition ready :: "(job_no \<Rightarrow> int) \<Rightarrow> int \<Rightarrow> ('s, 'g) simulation \<Rightarrow> bool" where
  "ready D B s \<longleftrightarrow> core D B (jobs (m_scheduler s)) s \<and> settled s \<and> ok (m_scheduler s) \<and> clock (m_scheduler s) \<le> m_current_time s \<and>
     arrivals_ok (m_current_time s) (jobs (m_scheduler s)) (m_pending_queue_arrivals s)"

lemma initial_law:
  assumes r: "ready D B s"
  shows "\<exists>s'. initial_pass ops dm Event_Driven s = Some (Inr (False, s')) \<and> loop_ok D B s' \<and> kept s s' \<and>
    m_current_time s' = m_current_time s"
proof -
  define s1 where "s1 = s\<lparr>m_scheduler := so_sync_to ops (m_scheduler s) (m_current_time s)\<rparr>"
  have sy: "ok (m_scheduler s1)" "mset (jobs (m_scheduler s1)) = mset (jobs (m_scheduler s))" "clock (m_scheduler s1) = m_current_time s"
    using syn_law[of "m_scheduler s" "m_current_time s"] r by (simp_all add: ready_def s1_def max_def)
  have "core D B (jobs (m_scheduler s1)) s" using r unfolding ready_def core_perm[OF sy(2)] by blast
  then have "core D B (jobs (m_scheduler s1)) s1" by (rule core_frame) (simp_all add: s1_def)
  then have m1: "moment D B s1" using sy by (simp add: moment_def s1_def)
  have f1: "m_current_time s1 = m_current_time s" "kept s s1" "settled s1"
    using r by (simp_all add: s1_def kept_def ready_def settled_def)
  have "arrivals_ok (m_current_time s1) (jobs (m_scheduler s1)) (m_pending_queue_arrivals s1)"
    using r arrivals_perm[OF sy(2)] by (simp add: ready_def s1_def)
  from record_law[OF m1 this] obtain b s2 where
    s2: "record_queue_arrivals ops (m_current_time s1) s1 = Inr (b, s2)" "moment D B s2" "kept s1 s2" "m_trace s2 = m_trace s1"
      "m_current_time s2 = m_current_time s1" "m_scheduler s2 = m_scheduler s1"
      "arrivals_ok (m_current_time s1) (jobs (m_scheduler s1)) (m_pending_queue_arrivals s2)"
      "arrivals_after (m_current_time s1) (m_pending_queue_arrivals s2)" by blast
  have ch: "apply_capacity_changes (m_current_time s2) s2 = (False, s2)"
    using s2(2) by (intro no_change) (simp add: moment_def core_def)
  have set2: "settled s2" using f1(3) s2(4,5) by (simp add: settled_def)
  have ip: "initial_pass ops dm Event_Driven s =
      (if \<not> so_has_eligible_jobs ops (m_scheduler s2) then Some (Inr (False, s2))
       else (case schedule_loop ops (so_schedule ops) (settle_initial dm) False False s2 of
               None \<Rightarrow> None | Some (Inl e) \<Rightarrow> Some (Inl e) | Some (Inr (started, s)) \<Rightarrow> Some (Inr (False \<and> \<not> started, s))))"
    using s2(1,5) ch f1(1) unfolding initial_pass_def s1_def
    by (simp add: Let_def dispatch_on_events_def choose_pass_def)
  show ?thesis
  proof (cases "so_has_eligible_jobs ops (m_scheduler s2)")
    case False
    have "arrived_jobs (m_current_time s2) (jobs (m_scheduler s2)) = []"
      using False s2(2) eligible_law[of "m_scheduler s2"] active_law[of "m_scheduler s2"] by (simp add: moment_def)
    then have "loop_ok D B s2" using s2 set2 by (simp add: loop_ok_def no_idle_def)
    then show ?thesis using ip False s2(3,5) f1 kept_trans by auto
  next
    case True
    have "settling dm (settle_initial dm)" by (simp add: settling_def)
    from schedule_loop_law[OF s2(2) set2 this, of False] obtain c s3 where
      s3: "schedule_loop ops (so_schedule ops) (settle_initial dm) False False s2 = Some (Inr (c, s3))" "moment D B s3" "settled s3"
        "moved s2 s3" "no_idle s3" by blast
    have "loop_ok D B s3" by (rule moved_loop_ok[OF s2(2) _ _ s3(2-5)]) (use s2 in simp_all)
    moreover have "kept s s3" using s3(4) s2(3) f1(2) by (auto simp: moved_def kept_def)
    moreover have "m_current_time s3 = m_current_time s" using s3(4) s2(5) f1(1) by (simp add: moved_def)
    ultimately show ?thesis using ip True s3(1) by simp
  qed
qed

lemma advance_law:
  assumes r: "ready D B s" and mode: "mode_of (m_params s) = Event_Driven" and t: "m_current_time s \<le> target"
  shows "\<exists>s'. advance_to ops dm target s = Some (Inr (if target = dbl_max then s' else s'\<lparr>m_current_time := target\<rparr>)) \<and>
    loop_ok D B s' \<and> quiet target s' \<and> kept s s' \<and> m_current_time s' \<le> target"
proof -
  obtain s1 where s1: "initial_pass ops dm Event_Driven s = Some (Inr (False, s1))" "loop_ok D B s1" "kept s s1"
    "m_current_time s1 = m_current_time s" using initial_law[OF r] by blast
  let ?lv = "read_loop_vars ops False s1"
  let ?s2 = "update_peak (lv_active_count ?lv) s1"
  have "vars_ok ?lv ?s2" unfolding vars_ok_def
    by (rule exI[of _ False]) (simp add: read_loop_vars_def update_peak_def next_capacity_time_def)
  moreover have "m_current_time ?s2 \<le> target" using t s1(4) by (simp add: update_peak_def)
  ultimately obtain s3 where s3: "main_loop ops dm Event_Driven (m_current_time s) target ?lv ?s2 = Some (Inr s3)" "loop_ok D B s3"
    "quiet target s3" "kept ?s2 s3" "m_current_time s3 \<le> target"
    using loop_law[OF loop_ok_peak[OF s1(2)], of ?lv "lv_active_count ?lv" target dm "m_current_time s"] by auto
  have "kept s s3" using s1(3) s3(4) by (simp add: kept_def update_peak_def)
  moreover have "advance_to ops dm target s = Some (Inr (if target = dbl_max then s3 else s3\<lparr>m_current_time := target\<rparr>))"
    using t s1(1) s3(1) by (simp add: advance_to_def advance_to_impl_def mode not_less Let_def)
  ultimately show ?thesis using s3 by blast
qed

text \<open>A call that stays within the bound can be followed by another.\<close>

lemma ready_after:
  assumes l: "loop_ok D B s" and q: "quiet target s" and t: "m_current_time s \<le> target"
    and b: "within_bound (B - work D (jobs (m_scheduler s))) target"
  shows "ready D B (s\<lparr>m_current_time := target\<rparr>)"
proof -
  have m: "core D B (jobs (m_scheduler s)) s" "ok (m_scheduler s)" "clock (m_scheduler s) = m_current_time s" "settled s"
    using l by (simp_all add: loop_ok_def moment_def)
  have ev: "\<forall>e\<in>set (m_evtq (m_trace s)). target < ev_time e" using q by (simp add: quiet_def)
  have "m_capacity_area_time s \<le> m_current_time s" using m(1) by (simp add: core_def)
  then have "m_capacity_area_time s \<le> target" using t by simp
  then have "core D B (jobs (m_scheduler s)) (s\<lparr>m_current_time := target\<rparr>)"
    using m(1) b ev by (auto simp: core_def less_imp_le)
  moreover have "target \<le> fst p" if p: "p \<in> set (m_pending_queue_arrivals s)" for p
  proof -
    have n: "0 < snd p" "snd p \<le> length (filter (\<lambda>j. submit_time j = fst p) (jobs (m_scheduler s)))" "m_current_time s < fst p"
      using l p by (simp_all add: loop_ok_def arrivals_ok_def arrivals_after_def)
    then have "filter (\<lambda>j. submit_time j = fst p) (jobs (m_scheduler s)) \<noteq> []" by auto
    then obtain j where "j \<in> set (jobs (m_scheduler s))" "submit_time j = fst p" unfolding filter_empty_conv by blast
    then show ?thesis using q n(3) by (force simp: quiet_def)
  qed
  then have "arrivals_ok target (jobs (m_scheduler s)) (m_pending_queue_arrivals s)"
    using l by (simp add: loop_ok_def arrivals_ok_def)
  ultimately show ?thesis using m ev t by (simp add: ready_def settled_def)
qed

text \<open>A drain leaves nothing behind.\<close>

lemma drained:
  assumes l: "loop_ok D B s" and q: "quiet dbl_max s"
  shows "m_evtq (m_trace s) = []" "jobs (m_scheduler s) = []" "m_jobs_completed s = m_jobs_submitted s"
proof -
  show e: "m_evtq (m_trace s) = []"
  proof (rule ccontr)
    assume "m_evtq (m_trace s) \<noteq> []"
    then have "hd (m_evtq (m_trace s)) \<in> set (m_evtq (m_trace s))" by simp
    moreover from this have "ev_time (hd (m_evtq (m_trace s))) < dbl_max" using bounded_max[OF l loop_facts(7)[OF l]] by blast
    ultimately show False using q by (force simp: quiet_def)
  qed
  have "\<forall>j\<in>set (jobs (m_scheduler s)). submit_time j \<le> m_current_time s"
    using q bounded_max[OF l loop_facts(6)[OF l]] by (force simp: quiet_def)
  then have "arrived_jobs (m_current_time s) (jobs (m_scheduler s)) = jobs (m_scheduler s)"
    by (simp add: arrived_jobs_def)
  then show j: "jobs (m_scheduler s) = []" using l e by (simp add: loop_ok_def no_idle_def)
  show "m_jobs_completed s = m_jobs_submitted s" using loop_facts(1)[OF l] e j by (simp add: core_def)
qed

section \<open>Submission\<close>

lemma submit_law:
  assumes r: "ready D B s" and rec: "job_at (m_trace s) i = Inr r" "fresh_record (D i) r"
    and new: "i \<notin> job_id ` set (jobs (m_scheduler s))" "i \<notin> ev_job ` set (m_evtq (m_trace s))"
    and t: "m_current_time s \<le> t" "within_bound (B - work D (jobs (m_scheduler s))) t" "\<forall>j\<in>set (jobs (m_scheduler s)). submit_time j \<le> t"
    and B: "B + D i \<le> 9007199254740992" and cap: "m_job_rejection_capacity s = m_current_capacity s"
  shows "\<exists>r' s'. submit_job ops i t t s = Inr s' \<and> ready D (B + D i) s' \<and> same_setup s s' \<and> m_trace s' = set_job i r' (m_trace s) \<and>
    (if m_current_capacity s < m_num_nodes r then jobs (m_scheduler s') = jobs (m_scheduler s) \<and> m_jobs_submitted s' = m_jobs_submitted s
     else mset (jobs (m_scheduler s')) = add_mset (new_entry i t (limit_time r) (m_num_nodes r)) (mset (jobs (m_scheduler s))) \<and>
       m_jobs_submitted s' = Suc (m_jobs_submitted s))"
proof -
  let ?js = "jobs (m_scheduler s)"
  have c: "core D B ?js s" "ok (m_scheduler s)" "clock (m_scheduler s) \<le> m_current_time s" "settled s"
    "arrivals_ok (m_current_time s) ?js (m_pending_queue_arrivals s)" using r by (simp_all add: ready_def)
  have d: "0 < D i" using rec(2) by (simp add: fresh_record_def)
  have now: "\<not> t < m_current_time s" using t(1) by (simp add: not_less)
  have can: "so_can_ever_run ops (m_scheduler s) (m_num_nodes r)" by (rule run_law[OF c(2)])
  show ?thesis
  proof (cases "m_current_capacity s < m_num_nodes r")
    case True
    define s' where "s' = s\<lparr>m_trace := set_job i (r\<lparr>m_t_submit := unscheduled_sentinel\<rparr>) (m_trace s)\<rparr>"
    have "core D (B + D i) ?js s'" unfolding s'_def by (intro core_more[OF core_set_job[OF c(1) rec(1) new]]) (use d B in simp_all)
    moreover have "submit_job ops i t t s = Inr s'" using now rec(1) True cap by (simp add: submit_job_def s'_def)
    ultimately show ?thesis using True c
      by (intro exI[of _ "r\<lparr>m_t_submit := unscheduled_sentinel\<rparr>"] exI[of _ s'])
         (simp add: ready_def s'_def settled_def set_job_def same_setup_def)
  next
    case False
    let ?e = "new_entry i t (limit_time r) (m_num_nodes r)"
    define r' where "r' = set_busy_nodes (m_n_nodes_in_use (m_trace s)) False r"
    define s1 where "s1 = s\<lparr>m_trace := set_job i r' (m_trace s)\<rparr>"
    have c1: "core D B ?js s1" unfolding s1_def by (rule core_set_job[OF c(1) rec(1) new])
    have tl: "clock (m_scheduler s) \<le> t" using c(3) t(1) by simp
    obtain sc where sc: "so_insert_job ops (m_scheduler s) i t (limit_time r) (m_num_nodes r) = Inr sc" "pre (m_scheduler s) i t"
      using accept_law[OF c(2) tl, of i "limit_time r" "m_num_nodes r"] t(3) new(1) by blast
    have il: "ok sc" "mset (jobs sc) = mset (?e # ?js)" "clock sc = clock (m_scheduler s)"
      using ins_law[OF c(2) sc(2,1)] by simp_all
    define s' where "s' = s1\<lparr>m_scheduler := sc,
      m_periodic_backfill_dirty := (if 0 < scheduling_interval (m_params s) then True else m_periodic_backfill_dirty s),
      m_pending_queue_arrivals := alist_inc t (m_pending_queue_arrivals s),
      m_latest_submit_time := max (m_latest_submit_time s) t, m_jobs_submitted := m_jobs_submitted s + 1\<rparr>"
    have sub: "submit_job ops i t t s = Inr s'"
      using now rec(1) False cap can sc(1) by (simp add: submit_job_def s'_def s1_def r'_def Let_def)
    have fr: "fresh_record (D i) r'" "m_num_nodes r' = m_num_nodes r"
      using rec(2) by (simp_all add: fresh_record_def r'_def set_busy_nodes_def timed_record_def limit_time_def split: if_splits)
    have at: "job_at (m_trace s1) i = Inr r'" by (simp add: s1_def job_at_set_job[OF rec(1)])
    have "core D (B + D i) (?e # ?js) s'"
      using core_add[OF c1, of ?e r' s'] at fr False new t B
      by (simp add: new_entry_def s'_def s1_def set_job_def not_less)
    then have "core D (B + D i) (jobs sc) s'" unfolding core_perm[OF il(2)] .
    moreover have "arrivals_ok (m_current_time s) (jobs sc) (alist_inc t (m_pending_queue_arrivals s))"
      unfolding arrivals_perm[OF il(2)] by (rule arrivals_inc[OF c(5) t(1)]) (simp add: new_entry_def)
    ultimately have "ready D (B + D i) s'"
      using il c(3,4) by (simp add: ready_def s'_def s1_def settled_def set_job_def)
    then show ?thesis using sub il(2) False
      by (intro exI[of _ r'] exI[of _ s']) (simp add: s'_def s1_def same_setup_def)
  qed
qed

lemma submit_all_law:
  assumes "ready D B s" "submittable D b (jobs (m_scheduler s)) s ids" "b \<le> B - work D (jobs (m_scheduler s))"
    "B + sum_list (map D ids) \<le> 9007199254740992" "m_job_rejection_capacity s = m_current_capacity s"
  shows "\<exists>s'. submit_all ops ids s = Inr s' \<and> ready D (B + sum_list (map D ids)) s' \<and> same_setup s s' \<and>
    m_jobs_submitted s' = m_jobs_submitted s + accepted (m_current_capacity s) (m_trace s) ids"
  using assms
proof (induction ids arbitrary: s B)
  case Nil
  then show ?case by (simp add: same_setup_def accepted_def)
next
  case (Cons i ids)
  note p = Cons.prems
  obtain r where r: "job_at (m_trace s) i = Inr r" "fresh_record (D i) r" using p(2) by (auto simp: submittable_def)
  have dp: "\<forall>k\<in>set ids. 0 < D k" using p(2) by (auto simp: submittable_def fresh_record_def)
  let ?t = "convert_epoch (m_t_submit r)"
  have tm: "submitted_at (m_trace s) i = ?t" by (simp add: submitted_at_def r(1))
  have t: "m_current_time s \<le> ?t" "within_bound (B - work D (jobs (m_scheduler s))) ?t"
    "\<forall>j\<in>set (jobs (m_scheduler s)). submit_time j \<le> ?t"
    and new: "i \<notin> job_id ` set (jobs (m_scheduler s))" "i \<notin> ev_job ` set (m_evtq (m_trace s))"
    using p(2) tm within_bound_mono[OF _ p(3)] by (simp_all add: submittable_def)
  have "0 \<le> sum_list (map D ids)" by (rule sum_list_nonneg) (use dp in force)
  then have B: "B + D i \<le> 9007199254740992" using p(4) by simp
  obtain r' s1 where s1: "submit_job ops i ?t ?t s = Inr s1" "ready D (B + D i) s1" "same_setup s s1" "m_trace s1 = set_job i r' (m_trace s)"
    and ch: "if m_current_capacity s < m_num_nodes r then jobs (m_scheduler s1) = jobs (m_scheduler s) \<and> m_jobs_submitted s1 = m_jobs_submitted s
     else mset (jobs (m_scheduler s1)) = add_mset (new_entry i ?t (limit_time r) (m_num_nodes r)) (mset (jobs (m_scheduler s))) \<and>
       m_jobs_submitted s1 = Suc (m_jobs_submitted s)"
    using submit_law[where D = D, OF p(1) r new t B p(5)] by blast
  have st: "set (jobs (m_scheduler s1)) \<subseteq> insert (new_entry i (submitted_at (m_trace s) i) (limit_time r) (m_num_nodes r)) (set (jobs (m_scheduler s)))"
    using ch unfolding tm by (auto split: if_splits dest!: arg_cong[where f = set_mset])
  have "work D (jobs (m_scheduler s1)) \<le> D i + work D (jobs (m_scheduler s))"
  proof (cases "m_current_capacity s < m_num_nodes r")
    case True
    then show ?thesis using ch r(2) by (simp add: fresh_record_def)
  next
    case False
    then have m: "mset (jobs (m_scheduler s1)) = mset (new_entry i ?t (limit_time r) (m_num_nodes r) # jobs (m_scheduler s))" using ch by simp
    show ?thesis using work_perm[OF m, of D] by (simp add: new_entry_def)
  qed
  then have b: "b \<le> B + D i - work D (jobs (m_scheduler s1))" using p(3) by simp
  have sub: "submittable D b (jobs (m_scheduler s1)) s1 ids"
    by (rule submittable_step[OF p(2) r(1) s1(4) _ st]) (use s1(3) in \<open>simp add: same_setup_def\<close>)
  have at: "job_at (m_trace s1) k = job_at (m_trace s) k" if "k \<in> set ids" for k
    using p(2) that s1(4) by (auto simp: submittable_def job_at_set_job[OF r(1)])
  obtain s2 where s2: "submit_all ops ids s1 = Inr s2" "ready D (B + D i + sum_list (map D ids)) s2" "same_setup s1 s2"
    "m_jobs_submitted s2 = m_jobs_submitted s1 + accepted (m_current_capacity s1) (m_trace s1) ids"
    using Cons.IH[OF s1(2) sub b] p(4,5) s1(3) by (auto simp: same_setup_def algebra_simps)
  have "nodes_of (m_trace s) i = m_num_nodes r" by (simp add: nodes_of_def r(1))
  then have "m_jobs_submitted s2 = m_jobs_submitted s + accepted (m_current_capacity s) (m_trace s) (i # ids)"
    using s2(4) ch s1(3) accepted_cong[of ids, OF at] by (auto simp: accepted_Cons same_setup_def split: if_splits)
  then show ?case using s1 s2 r(1) by (simp add: same_setup_def algebra_simps)
qed

section \<open>Batch runs\<close>

text \<open>An empty scheduler on a simulation that has done nothing yet.\<close>

definition fresh_scheduler :: "'s \<Rightarrow> bool" where
  "fresh_scheduler sc \<longleftrightarrow> ok sc \<and> jobs sc = [] \<and> clock sc \<le> 0"

lemma batch_ready:
  assumes "unstarted p recs s" "fresh_scheduler (m_scheduler s)" "0 \<le> B" "B \<le> 9007199254740992"
  shows "ready D B s"
proof -
  have "within_bound B 0" using assms(3) by (auto simp: within_bound_def dbl_zero intro!: exI[of _ 0])
  then show ?thesis using assms
    by (simp add: ready_def core_def unstarted_def fresh_scheduler_def occupied_def settled_def arrivals_ok_def work_def)
qed

lemma batch_submit:
  assumes u: "unstarted p recs s0" and sc: "fresh_scheduler (m_scheduler s0)" and w: "well_posed D b p recs"
  shows "\<exists>s1. submit_all ops [0..<length recs] s0 = Inr s1 \<and>
    ready D (b + sum_list (map D [0..<length recs])) s1 \<and> m_params s1 = p \<and> m_current_time s1 = 0 \<and>
    m_current_capacity s1 = p_total_nodes p \<and>
    m_jobs_submitted s1 = length (filter (\<lambda>r. m_num_nodes r \<le> p_total_nodes p) recs)"
proof -
  let ?ids = "[0..<length recs]"
  have recs: "\<forall>i<length recs. fresh_record (D i) (recs ! i) \<and> within_bound b (convert_epoch (m_t_submit (recs ! i)))"
    and so: "sorted (map (\<lambda>r. convert_epoch (m_t_submit r)) recs)"
    and b: "0 \<le> b" "b + sum_list (map D ?ids) \<le> 9007199254740992"
    using w by (simp_all add: well_posed_def)
  have f0: "m_current_time s0 = 0" "m_current_capacity s0 = p_total_nodes p" "m_params s0 = p"
    "m_job_rejection_capacity s0 = p_total_nodes p" "m_jobs_submitted s0 = 0" "m_evtq (m_trace s0) = []"
    "m_data (m_trace s0) = recs" "m_num_reclaimed (m_trace s0) = 0" and sj: "jobs (m_scheduler s0) = []"
    using u sc by (simp_all add: unstarted_def fresh_scheduler_def)
  have D0: "0 \<le> sum_list (map D ?ids)" by (rule sum_list_nonneg) (use recs in \<open>auto simp: fresh_record_def\<close>)
  have r0: "ready D b s0" by (rule batch_ready[OF u sc b(1)]) (use b D0 in simp)
  have at: "job_at (m_trace s0) i = Inr (recs ! i)" if "i < length recs" for i
    using that f0 by (simp add: job_at_def Let_def)
  have sa: "submitted_at (m_trace s0) i = convert_epoch (m_t_submit (recs ! i))" if "i < length recs" for i
    by (simp add: submitted_at_def at[OF that])
  have nn: "map (nodes_of (m_trace s0)) ?ids = map m_num_nodes recs"
    by (rule nth_equalityI) (simp_all add: nodes_of_def at)
  have "map (submitted_at (m_trace s0)) ?ids = map (\<lambda>r. convert_epoch (m_t_submit r)) recs"
    by (rule nth_equalityI) (simp_all add: sa)
  moreover have "0 \<le> convert_epoch (m_t_submit (recs ! i))" if i: "i < length recs" for i
  proof -
    obtain n where "convert_epoch (m_t_submit (recs ! i)) = dbl n" "0 \<le> n" "n \<le> b" using recs i by (auto simp: within_bound_def)
    then show ?thesis using b D0 by (simp add: dbl_zero dbl_le)
  qed
  ultimately have "submittable D b (jobs (m_scheduler s0)) s0 ?ids"
    using so recs sj f0(1,6) by (simp add: submittable_def at sa)
  moreover have "work D (jobs (m_scheduler s0)) = 0" using sj by (simp add: work_def)
  ultimately obtain s1 where s1: "submit_all ops ?ids s0 = Inr s1" "ready D (b + sum_list (map D ?ids)) s1" "same_setup s0 s1"
    "m_jobs_submitted s1 = accepted (p_total_nodes p) (m_trace s0) ?ids"
    using submit_all_law[OF r0, of b ?ids] b f0 by auto
  have "accepted (p_total_nodes p) (m_trace s0) ?ids = length (filter (\<lambda>n. n \<le> p_total_nodes p) (map (nodes_of (m_trace s0)) ?ids))"
    by (simp add: accepted_def filter_map comp_def)
  also have "\<dots> = length (filter (\<lambda>r. m_num_nodes r \<le> p_total_nodes p) recs)" unfolding nn by (simp add: filter_map comp_def)
  finally show ?thesis using s1 f0 by (intro exI[of _ s1]) (simp add: same_setup_def)
qed

lemma batch_advance:
  assumes u: "unstarted p recs s0" and sc: "fresh_scheduler (m_scheduler s0)" and w: "well_posed D b p recs" and T: "0 \<le> target"
    and t: "target = (case bound of None \<Rightarrow> dbl_max | Some t \<Rightarrow> t)"
  shows "\<exists>s'. run_batch ops dm bound s0 =
      Some (Inr (if target = dbl_max then s' else s'\<lparr>m_current_time := target\<rparr>)) \<and>
    loop_ok D (b + sum_list (map D [0..<length recs])) s' \<and> quiet target s' \<and> m_current_time s' \<le> target \<and>
    m_current_capacity s' = p_total_nodes p \<and> m_jobs_submitted s' = length (filter (\<lambda>r. m_num_nodes r \<le> p_total_nodes p) recs)"
proof -
  obtain s1 where s1: "submit_all ops [0..<length recs] s0 = Inr s1" "ready D (b + sum_list (map D [0..<length recs])) s1"
    "m_params s1 = p" "m_current_time s1 = 0" "m_current_capacity s1 = p_total_nodes p"
    "m_jobs_submitted s1 = length (filter (\<lambda>r. m_num_nodes r \<le> p_total_nodes p) recs)"
    using batch_submit[OF u sc w] by (elim exE conjE)
  have len: "length (m_data (m_trace s0)) = length recs"
    using u by (simp add: unstarted_def)
  obtain s2 where s2: "advance_to ops dm target s1 = Some (Inr (if target = dbl_max then s2 else s2\<lparr>m_current_time := target\<rparr>))"
    "loop_ok D (b + sum_list (map D [0..<length recs])) s2" "quiet target s2" "kept s1 s2" "m_current_time s2 \<le> target"
    using advance_law[OF s1(2), of target dm] w s1(3,4) T by (auto simp: well_posed_def)
  have "run_batch ops dm bound s0 = advance_to ops dm target s1" by (simp add: run_batch_def len s1(1) t)
  then show ?thesis using s2 s1(5,6) by (intro exI[of _ s2]) (simp add: kept_def)
qed

lemma batch_law:
  assumes u: "unstarted p recs s0" and sc: "fresh_scheduler (m_scheduler s0)" and w: "well_posed D b p recs"
  shows "drains jobs p recs (run_batch ops dm None s0)"
proof -
  have "(0::sim_time) \<le> dbl_max" using dbl_less_max[of 0] by (simp add: dbl_zero less_imp_le)
  from batch_advance[OF u sc w this, of None dm, unfolded option.case, OF refl, unfolded if_P[OF refl]]
  obtain s' where s': "run_batch ops dm None s0 = Some (Inr s')"
    "loop_ok D (b + sum_list (map D [0..<length recs])) s'" "quiet dbl_max s'" "m_current_capacity s' = p_total_nodes p"
    "m_jobs_submitted s' = length (filter (\<lambda>r. m_num_nodes r \<le> p_total_nodes p) recs)"
    by (elim exE conjE)
  have "sampled (m_current_capacity s') (m_trace s')" using loop_facts(1)[OF s'(2)] by (simp add: core_def)
  then show ?thesis using drained[OF s'(2,3)] s'(1,4,5) by (simp add: drains_def)
qed

lemma batch_until_law:
  assumes u: "unstarted p recs s0" and sc: "fresh_scheduler (m_scheduler s0)" and w: "well_posed D b p recs" and t: "0 \<le> t" "t < dbl_max"
  shows "stops_at jobs p recs t (run_batch ops dm (Some t) s0)"
proof -
  have "t \<noteq> dbl_max" using t(2) by simp
  from batch_advance[OF u sc w t(1), of "Some t" dm, unfolded option.case, OF refl, unfolded if_not_P[OF this]]
  obtain s' where s': "run_batch ops dm (Some t) s0 = Some (Inr (s'\<lparr>m_current_time := t\<rparr>))"
    "loop_ok D (b + sum_list (map D [0..<length recs])) s'" "quiet t s'" "m_current_capacity s' = p_total_nodes p" "m_current_time s' \<le> t"
    "m_jobs_submitted s' = length (filter (\<lambda>r. m_num_nodes r \<le> p_total_nodes p) recs)"
    by (elim exE conjE)
  have c: "core D (b + sum_list (map D [0..<length recs])) (jobs (m_scheduler s')) s'" by (rule loop_facts(1)[OF s'(2)])
  have "m_n_nodes_in_use (m_trace s') \<le> p_total_nodes p"
    by (rule departures_occupied(3)) (use c s'(4) in \<open>simp_all add: core_def\<close>)
  moreover have "m_evtq (m_trace s') = [] \<longrightarrow> (\<forall>j\<in>set (jobs (m_scheduler s')). t < submit_time j)"
    using s'(2,3) by (auto simp: loop_ok_def no_idle_def quiet_def arrived_jobs_def filter_empty_conv)
  ultimately show ?thesis using s' c by (simp add: stops_at_def core_def quiet_def)
qed

end

end
