(* ===== verification/Search_Cache.thy ===== *)
theory Search_Cache
  imports Timeline "HOL-Library.AList"
begin

text \<open>
  The planner interface and its two providers.  A planner answers earliest-fit queries and takes
  reservations; the hybrid schedulers are written once over any planner (\<^verbatim>\<open>reserve_fcfs_job\<close> and
  \<^verbatim>\<open>schedule_with_protection\<close> are templates over the plan type).  The locale \<open>planner\<close> states what the
  templates rely on: every operation answers as \<open>earliest_fit\<close> and \<open>reserve\<close> do on an abstract timeline.
  It is interpreted on \<^verbatim>\<open>Reservation_Timeline\<close> itself and on \<^verbatim>\<open>Reservation_Search_Cache\<close>
  (\<^verbatim>\<open>src/src/sim/reservation_search_cache.hpp\<close>), whose lower bounds are shown never to change an answer.
\<close>

section \<open>The interface\<close>

locale planner =
  fixes fit :: "'p \<Rightarrow> num_nodes \<Rightarrow> tdiff \<Rightarrow> sim_time \<Rightarrow> sim_time option \<times> 'p"
    and commit :: "'p \<Rightarrow> sim_time \<Rightarrow> num_nodes \<Rightarrow> tdiff \<Rightarrow> 'p"
    and plan :: "'p \<Rightarrow> segment list"
    and ok :: "'p \<Rightarrow> bool"
  assumes ok_wf: "ok p \<Longrightarrow> wf_tl (plan p)"
    and fit_eq: "ok p \<Longrightarrow> origin (plan p) \<le> start \<Longrightarrow>
        fst (fit p n d start) = earliest_fit (plan p) n d start"
    and fit_plan: "ok p \<Longrightarrow> origin (plan p) \<le> start \<Longrightarrow> plan (snd (fit p n d start)) = plan p"
    and fit_ok: "ok p \<Longrightarrow> origin (plan p) \<le> start \<Longrightarrow> ok (snd (fit p n d start))"
    and commit_plan: "ok p \<Longrightarrow> origin (plan p) \<le> start \<Longrightarrow>
        plan (commit p start n d) = reserve (plan p) start n d"
    and commit_ok: "ok p \<Longrightarrow> origin (plan p) \<le> start \<Longrightarrow> ok (commit p start n d)"
begin

lemma commit_origin:
  "ok p \<Longrightarrow> origin (plan p) \<le> start \<Longrightarrow> origin (plan (commit p start n d)) = origin (plan p)"
  by (simp add: commit_plan ok_wf)

lemma fit_least:
  "ok p \<Longrightarrow> origin (plan p) \<le> start \<Longrightarrow> least_fit (plan p) n d start (fst (fit p n d start))"
  by (simp add: fit_eq ok_wf earliest_fit_least)

lemma fit_SomeD:
  assumes "ok p" "origin (plan p) \<le> start" "fit p n d start = (Some s, q)"
  shows "start \<le> s" "fits (plan p) n d s" "plan q = plan p" "ok q"
  using fit_least[OF assms(1,2), of n d] fit_plan[OF assms(1,2), of n d] fit_ok[OF assms(1,2), of n d]
    assms(3) by (auto simp: least_fit_def)

lemma commit_fit_covers:
  assumes "ok p" "origin (plan p) \<le> start" "fit p n d start = (Some s, q)" "origin (plan p) \<le> t"
  shows "unat (cap (plan (commit q s n d)) t) + (if s \<le> t \<and> t < s + d then unat n else 0) =
    unat (cap (plan p) t)"
proof -
  note s = fit_SomeD[OF assms(1-3)]
  have "n \<le> cap (plan p) t" if "s \<le> t" "t < s + d" using s(2) that by (simp add: fits_def)
  then show ?thesis using assms s
    by (auto simp: commit_plan ok_wf cap_reserve unat_sub word_le_nat_alt)
qed

end

section \<open>The plain timeline\<close>

definition timeline_fit :: "segment list \<Rightarrow> num_nodes \<Rightarrow> tdiff \<Rightarrow> sim_time \<Rightarrow> sim_time option \<times> segment list" where
  "timeline_fit xs n d start = (earliest_fit xs n d start, xs)"

interpretation tl: planner timeline_fit reserve "\<lambda>xs. xs" wf_tl
  by unfold_locales (auto simp: timeline_fit_def)

section \<open>The search cache\<close>

record bound =
  bd_origin :: sim_time
  bd_earliest :: "sim_time option"

record fit =
  ft_nodes :: num_nodes
  ft_duration :: tdiff
  ft_start :: sim_time

record search_cache =
  m_plan :: "segment list"
  m_bounds :: "((num_nodes \<times> tdiff) \<times> bound) list"
  m_last_fit :: "fit option"

definition max_cached_shapes :: nat where
  "max_cached_shapes = 256"

definition new_cache :: "segment list \<Rightarrow> search_cache" where
  "new_cache p = \<lparr>m_plan = p, m_bounds = [], m_last_fit = None\<rparr>"

definition cache_earliest_fit ::
  "search_cache \<Rightarrow> num_nodes \<Rightarrow> tdiff \<Rightarrow> sim_time \<Rightarrow> sim_time option \<times> search_cache" where
  "cache_earliest_fit c n d start =
     (let c = c\<lparr>m_last_fit := None\<rparr>;
          key = (n, max d 0);
          cached = map_of (m_bounds c) key
      in case cached of
           Some b \<Rightarrow>
             if bd_origin b = start \<and> bd_earliest b = None then (None, c)
             else (let search_start = (if bd_origin b = start then the (bd_earliest b) else start);
                       r = earliest_fit (m_plan c) n d search_start;
                       c = c\<lparr>m_bounds := AList.update key \<lparr>bd_origin = start, bd_earliest = r\<rparr> (m_bounds c)\<rparr>
                   in (r, c\<lparr>m_last_fit := map_option (\<lambda>s. \<lparr>ft_nodes = n, ft_duration = d, ft_start = s\<rparr>) r\<rparr>))
         | None \<Rightarrow>
             (let r = earliest_fit (m_plan c) n d start;
                  c = (if length (m_bounds c) < max_cached_shapes
                       then c\<lparr>m_bounds := AList.update key \<lparr>bd_origin = start, bd_earliest = r\<rparr> (m_bounds c)\<rparr>
                       else c)
              in (r, c\<lparr>m_last_fit := map_option (\<lambda>s. \<lparr>ft_nodes = n, ft_duration = d, ft_start = s\<rparr>) r\<rparr>)))"

definition cache_reserve :: "search_cache \<Rightarrow> sim_time \<Rightarrow> num_nodes \<Rightarrow> tdiff \<Rightarrow> search_cache" where
  "cache_reserve c start n d =
     (if d \<le> 0 then c
      else let c = (case m_last_fit c of
                      Some f \<Rightarrow> if ft_nodes f \<noteq> n \<or> ft_start f \<noteq> start \<or> ft_duration f < d
                                then c\<lparr>m_bounds := []\<rparr> else c
                    | None \<Rightarrow> c\<lparr>m_bounds := []\<rparr>)
           in c\<lparr>m_plan := reserve (m_plan c) start n d, m_last_fit := None\<rparr>)"

section \<open>The cache invariant\<close>

text \<open>A bound rules out every start from its origin up to its answer, on the current plan.\<close>

definition bound_ok :: "segment list \<Rightarrow> (num_nodes \<times> tdiff) \<times> bound \<Rightarrow> bool" where
  "bound_ok xs kb = (case kb of ((n, d), b) \<Rightarrow> 0 \<le> d \<and> origin xs \<le> bd_origin b \<and>
     (case bd_earliest b of
        None \<Rightarrow> \<forall>s. bd_origin b \<le> s \<longrightarrow> \<not> fits xs n d s
      | Some e \<Rightarrow> bd_origin b \<le> e \<and> (\<forall>s. bd_origin b \<le> s \<and> s < e \<longrightarrow> \<not> fits xs n d s)))"

definition last_fit_ok :: "segment list \<Rightarrow> fit option \<Rightarrow> bool" where
  "last_fit_ok xs f = (case f of None \<Rightarrow> True
     | Some f \<Rightarrow> origin xs \<le> ft_start f \<and> fits xs (ft_nodes f) (ft_duration f) (ft_start f))"

definition cache_ok :: "search_cache \<Rightarrow> bool" where
  "cache_ok c \<longleftrightarrow> wf_tl (m_plan c) \<and> (\<forall>kb\<in>set (m_bounds c). bound_ok (m_plan c) kb) \<and>
     distinct (map fst (m_bounds c)) \<and> length (m_bounds c) \<le> max_cached_shapes \<and>
     last_fit_ok (m_plan c) (m_last_fit c)"

lemma last_fit_ok_None [simp]: "last_fit_ok xs None"
  by (simp add: last_fit_ok_def)

lemma new_cache_ok: "wf_tl p \<Longrightarrow> cache_ok (new_cache p)"
  by (simp add: cache_ok_def new_cache_def)

lemma fits_max: "fits xs n (max d 0) s = fits xs n d s"
  by (cases "d \<le> 0") (auto simp: fits_point max_def)

lemma least_bound_ok:
  "least_fit xs n d start r \<Longrightarrow> origin xs \<le> start \<Longrightarrow>
   bound_ok xs ((n, max d 0), \<lparr>bd_origin = start, bd_earliest = r\<rparr>)"
  by (cases r) (auto simp: bound_ok_def least_fit_def fits_max)

lemma least_last_fit_ok:
  "least_fit xs n d start r \<Longrightarrow> origin xs \<le> start \<Longrightarrow>
   last_fit_ok xs (map_option (\<lambda>s. \<lparr>ft_nodes = n, ft_duration = d, ft_start = s\<rparr>) r)"
  by (cases r) (auto simp: last_fit_ok_def least_fit_def)

text \<open>A search from a sound bound finds what a search from the origin finds.\<close>

lemma bounded_search:
  assumes "wf_tl xs" "bound_ok xs ((n, max d 0), b)" "bd_earliest b = Some e"
  shows "least_fit xs n d (bd_origin b) (earliest_fit xs n d e)"
proof -
  have e: "origin xs \<le> bd_origin b" "bd_origin b \<le> e"
    "\<And>s. bd_origin b \<le> s \<Longrightarrow> s < e \<Longrightarrow> \<not> fits xs n d s"
    using assms(2,3) by (auto simp: bound_ok_def fits_max)
  show ?thesis
    by (rule least_fit_later[OF earliest_fit_least[OF assms(1) order_trans[OF e(1,2)]] e(2,3)]) simp_all
qed

lemma set_alist_update: "set (AList.update k v ps) \<subseteq> insert (k, v) (set ps)"
  by (induction ps) auto

lemma length_alist_update:
  "length (AList.update k v ps) = (if k \<in> fst ` set ps then length ps else Suc (length ps))"
  by (induction ps) auto

lemma bounds_update:
  assumes "\<forall>kb\<in>set bs. bound_ok xs kb" "bound_ok xs (k, b)"
  shows "\<forall>kb\<in>set (AList.update k b bs). bound_ok xs kb"
  using assms set_alist_update[of k b bs] by blast

lemma cache_fit_correct:
  assumes c: "cache_ok c" and o: "origin (m_plan c) \<le> start"
  shows "fst (cache_earliest_fit c n d start) = earliest_fit (m_plan c) n d start \<and>
    m_plan (snd (cache_earliest_fit c n d start)) = m_plan c \<and>
    cache_ok (snd (cache_earliest_fit c n d start))"
proof -
  have wf: "wf_tl (m_plan c)" and bs: "\<forall>kb\<in>set (m_bounds c). bound_ok (m_plan c) kb"
    and size: "distinct (map fst (m_bounds c))" "length (m_bounds c) \<le> max_cached_shapes"
    using c by (auto simp: cache_ok_def)
  note least = earliest_fit_least[OF wf o, of n d]
  note upd = bounds_update[OF bs least_bound_ok[OF least o]] least_last_fit_ok[OF least o]
  show ?thesis
  proof (cases "map_of (m_bounds c) (n, max d 0)")
    case None
    then have "(n, max d 0) \<notin> fst ` set (m_bounds c)" by (simp add: map_of_eq_None_iff)
    then show ?thesis using None wf bs size upd
      by (auto simp: cache_earliest_fit_def Let_def cache_ok_def length_alist_update distinct_update)
  next
    case (Some b)
    then have mem: "((n, max d 0), b) \<in> set (m_bounds c)" by (rule map_of_SomeD)
    then have b: "bound_ok (m_plan c) ((n, max d 0), b)" using bs by blast
    have dom: "(n, max d 0) \<in> fst ` set (m_bounds c)" using mem by force
    show ?thesis
    proof (cases "bd_origin b = start \<and> bd_earliest b = None")
      case True
      then have "earliest_fit (m_plan c) n d start = None"
        using b by (intro earliest_fit_eqI[OF wf o]) (auto simp: bound_ok_def least_fit_def fits_max)
      then show ?thesis using True Some c by (simp add: cache_earliest_fit_def cache_ok_def Let_def)
    next
      case False
      then have "earliest_fit (m_plan c) n d (if bd_origin b = start then the (bd_earliest b) else start) =
          earliest_fit (m_plan c) n d start"
        using bounded_search[OF wf b] earliest_fit_eqI[OF wf o, of n d] by auto
      then show ?thesis using False Some dom wf size upd bs
        by (auto simp: cache_earliest_fit_def Let_def cache_ok_def length_alist_update distinct_update)
    qed
  qed
qed

lemma bound_ok_reserve:
  assumes "wf_tl xs" "origin xs \<le> start" "fits xs n d start" "bound_ok xs kb"
  shows "bound_ok (reserve xs start n d) kb"
proof -
  have "\<not> fits (reserve xs start n d) m e s" if "\<not> fits xs m e s" "origin xs \<le> s" for m e s
    using that fits_reserve_imp[OF assms(1-3)] by blast
  then show ?thesis using assms(4,1,2)
    by (auto simp: bound_ok_def split: prod.splits option.splits intro: order_trans)
qed

lemma cache_reserve_correct:
  assumes c: "cache_ok c" and o: "origin (m_plan c) \<le> start"
  shows "m_plan (cache_reserve c start n d) = reserve (m_plan c) start n d \<and>
    cache_ok (cache_reserve c start n d)"
proof (cases "d \<le> 0")
  case True
  then show ?thesis using c by (simp add: cache_reserve_def reserve_def)
next
  case False
  have keep: "\<forall>kb\<in>set (m_bounds c). bound_ok (reserve (m_plan c) start n d) kb"
    if "m_last_fit c = Some f" "ft_nodes f = n" "ft_start f = start" "d \<le> ft_duration f" for f
    using that c o fits_shorter[of d "ft_duration f" "m_plan c" n start]
    by (auto simp: cache_ok_def last_fit_ok_def intro!: bound_ok_reserve)
  show ?thesis using False c o keep
    by (cases "m_last_fit c") (auto simp: cache_reserve_def Let_def cache_ok_def last_fit_ok_def not_less)
qed

lemma cache_ok_wf: "cache_ok c \<Longrightarrow> wf_tl (m_plan c)"
  by (simp add: cache_ok_def)

interpretation sc: planner cache_earliest_fit cache_reserve m_plan cache_ok
  using cache_fit_correct cache_reserve_correct cache_ok_wf by unfold_locales blast+

end
