(* ===== verification/Hybrid.thy ===== *)
theory Hybrid
  imports Easy_Circular Search_Cache
begin

text \<open>
  The hybrid and conservative schedulers: \<^verbatim>\<open>FCFSHybridDequeScheduler\<close>
  (\<^verbatim>\<open>src/src/sim/scheduler_fcfs_hybrid_deque.hpp\<close>, \<^verbatim>\<open>.cpp\<close>) and \<^verbatim>\<open>FCFSHybridCircularScheduler\<close>
  (\<^verbatim>\<open>scheduler_fcfs_hybrid_circular.hpp\<close>, \<^verbatim>\<open>.cpp\<close>, \<^verbatim>\<open>.tpp\<close>).  The traversal of the circular class is a C++ template
  over the protection planner; here it takes the planner's two operations and its constructor as
  arguments.  The virtual \<^verbatim>\<open>horizon_skipped_job_uses_depth_slot\<close> is the flag \<open>uses_slot\<close>.  The build option
  \<^verbatim>\<open>DR_EVT_LEGACY_RESERVATION_BARRIER\<close> is off; \<^verbatim>\<open>calculate_hybrid_window\<close>, which only that option calls,
  is modelled as well.
\<close>

section \<open>State\<close>

record hybrid_queue = fcfs_queue +
  m_reservation_depth :: nat
  m_backfill_depth_time :: sim_time
  m_backfill_depth_examined :: nat
  m_backfill_depth_head_accounted :: bool

record hybrid_circular = hybrid_queue +
  mh_capacity :: nat
  mh_overflow_policy :: circular_overflow_policy

definition new_hybrid_deque :: "num_nodes \<Rightarrow> backfill_policy \<Rightarrow> nat \<Rightarrow> nat \<Rightarrow> exn + hybrid_queue" where
  "new_hybrid_deque total_nodes bf reservation_depth queue_depth =
     (if bf = EASY then Inl Invalid_Argument
      else Inr (fcfs_queue.extend (scheduler_base.extend (new_base total_nodes bf)
             (fcfs_queue.fields [] 0 0 0 queue_depth)) (hybrid_queue.fields reservation_depth dbl_lowest 0 False)))"

definition new_hybrid_circular ::
  "num_nodes \<Rightarrow> nat \<Rightarrow> backfill_policy \<Rightarrow> nat \<Rightarrow> circular_overflow_policy \<Rightarrow> nat \<Rightarrow> nat \<Rightarrow> exn + hybrid_circular" where
  "new_hybrid_circular total_nodes initial_job_count bf initial_capacity overflow reservation_depth queue_depth =
     (if bf = EASY then Inl Invalid_Argument
      else Inr (hybrid_queue.extend (fcfs_queue.extend (scheduler_base.extend (new_base total_nodes bf)
             (fcfs_queue.fields [] 0 0 0 queue_depth)) (hybrid_queue.fields reservation_depth dbl_lowest 0 False))
             (hybrid_circular.fields (if initial_capacity \<noteq> 0 then initial_capacity else initial_job_count) overflow)))"

section \<open>Queue operations\<close>

definition hybrid_insert_job ::
  "'a hybrid_queue_scheme \<Rightarrow> job_no \<Rightarrow> sim_time \<Rightarrow> tdiff \<Rightarrow> num_nodes \<Rightarrow> 'a hybrid_queue_scheme" where
  "hybrid_insert_job s i t r n =
     (let s = s\<lparr>m_wait_queue := m_wait_queue s @ [new_entry i t r n]\<rparr> in
      if t \<le> m_current_tracked_time s then s\<lparr>m_eligible_end_idx := length (m_wait_queue s)\<rparr> else s)"

definition hybrid_sync_to :: "'a hybrid_queue_scheme \<Rightarrow> sim_time \<Rightarrow> 'a hybrid_queue_scheme" where
  "hybrid_sync_to s now =
     (if now \<le> m_current_tracked_time s then s
      else s\<lparr>m_eligible_end_idx := m_eligible_end_idx s
               + length (takeWhile (\<lambda>j. submit_time j \<le> now) (drop (m_eligible_end_idx s) (m_wait_queue s))),
             m_current_tracked_time := now\<rparr>)"

definition hybrid_active_job_count :: "'a hybrid_queue_scheme \<Rightarrow> nat" where
  "hybrid_active_job_count s = m_eligible_end_idx s - m_removed_count s"

definition hybrid_mark_removed :: "job_no \<Rightarrow> 'a hybrid_queue_scheme \<Rightarrow> 'a hybrid_queue_scheme" where
  "hybrid_mark_removed i s =
     (let (found, q) = mark_entry i (m_wait_queue s) in
      s\<lparr>m_wait_queue := q, m_removed_count := (if found then Suc (m_removed_count s) else m_removed_count s)\<rparr>)"

definition hybrid_next_arrival_time :: "'a hybrid_queue_scheme \<Rightarrow> sim_time" where
  "hybrid_next_arrival_time s =
     (case dropWhile removed (drop (m_eligible_end_idx s) (m_wait_queue s)) of
        [] \<Rightarrow> dbl_max | j # _ \<Rightarrow> submit_time j)"

definition hybrid_pending_job_ids :: "'a hybrid_queue_scheme \<Rightarrow> job_no list" where
  "hybrid_pending_job_ids s = map job_id (filter (\<lambda>j. \<not> removed j) (m_wait_queue s))"

definition hc_insert_job ::
  "circular_buffer \<Rightarrow> 'a hybrid_circular_scheme \<Rightarrow> job_no \<Rightarrow> sim_time \<Rightarrow> tdiff \<Rightarrow> num_nodes \<Rightarrow> exn + 'a hybrid_circular_scheme" where
  "hc_insert_job b s i t r n =
     (let full = (length (m_wait_queue s) = mh_capacity s) in
      if full \<and> mh_overflow_policy s = ABORT then Inl Runtime_Error
      else let s = (if full then (let c = max (mh_capacity s * 2) 1 in
                                  s\<lparr>mh_capacity := c, m_wait_queue := cb_set_capacity b c (m_wait_queue s)\<rparr>)
                    else s);
               s = s\<lparr>m_wait_queue := cb_push_back b (mh_capacity s) (m_wait_queue s) (new_entry i t r n)\<rparr>
           in Inr (if t \<le> m_current_tracked_time s then s\<lparr>m_eligible_end_idx := length (m_wait_queue s)\<rparr> else s))"

definition hc_sync_to :: "'a hybrid_circular_scheme \<Rightarrow> sim_time \<Rightarrow> 'a hybrid_circular_scheme" where
  "hc_sync_to s now =
     (if now \<le> m_current_tracked_time s then s
      else s\<lparr>m_eligible_end_idx := m_eligible_end_idx s
               + length (takeWhile (\<lambda>j. submit_time j \<le> now) (drop (m_eligible_end_idx s) (m_wait_queue s))),
             m_current_tracked_time := now\<rparr>)"

definition hc_next_arrival_time :: "'a hybrid_circular_scheme \<Rightarrow> sim_time" where
  "hc_next_arrival_time s =
     (case dropWhile removed (drop (m_eligible_end_idx s) (m_wait_queue s)) of
        [] \<Rightarrow> dbl_max | j # _ \<Rightarrow> submit_time j)"

definition hc_pending_job_ids :: "'a hybrid_circular_scheme \<Rightarrow> job_no list" where
  "hc_pending_job_ids s = map job_id (filter (\<lambda>j. \<not> removed j) (m_wait_queue s))"

text \<open>The legacy window: the earliest start in the chained plan of the protected jobs ahead.\<close>

fun hybrid_window ::
  "'a scheduler_base_scheme \<Rightarrow> sim_time \<Rightarrow> nat \<Rightarrow> nat \<Rightarrow> segment list \<Rightarrow> sim_time \<Rightarrow> job_entry list \<Rightarrow> sim_time" where
  "hybrid_window s now depth reserved plan earliest [] = earliest"
| "hybrid_window s now depth reserved plan earliest (j # js) =
     (if removed j then hybrid_window s now depth reserved plan earliest js
      else if depth \<noteq> 0 \<and> reserved \<ge> depth then earliest
      else case earliest_fit plan (nodes_requested j) (release_estimate s now (run_time_estimate j)) now of
        None \<Rightarrow> hybrid_window s now depth reserved plan earliest js
      | Some r \<Rightarrow>
          if \<not> reservation_within_horizon s r now then hybrid_window s now depth reserved plan earliest js
          else hybrid_window s now depth (Suc reserved)
                 (reserve plan r (nodes_requested j) (release_estimate s r (run_time_estimate j))) (min earliest r) js)"

definition calculate_hybrid_window ::
  "'a hybrid_queue_scheme \<Rightarrow> nat \<Rightarrow> num_nodes \<Rightarrow> running_jobs \<Rightarrow> sim_time \<Rightarrow> projected_starts \<Rightarrow> sim_time" where
  "calculate_hybrid_window s i avail running now starts =
     hybrid_window s now (if m_backfill_policy s = HYBRID then m_reservation_depth s else 0) 0
       (reservation_timeline s avail running now starts) dbl_max (take i (m_wait_queue s))"

section \<open>The traversal\<close>

text \<open>The \<^verbatim>\<open>protect_job\<close> lambda on the count of protected jobs and the protection plan.\<close>

definition protect_job ::
  "('p \<Rightarrow> num_nodes \<Rightarrow> tdiff \<Rightarrow> sim_time \<Rightarrow> sim_time option \<times> 'p) \<Rightarrow> ('p \<Rightarrow> sim_time \<Rightarrow> num_nodes \<Rightarrow> tdiff \<Rightarrow> 'p) \<Rightarrow>
   'a scheduler_base_scheme \<Rightarrow> sim_time \<Rightarrow> nat \<Rightarrow> nat \<times> 'p \<Rightarrow> job_entry \<Rightarrow> sim_time option \<Rightarrow> nat \<times> 'p" where
  "protect_job pfit pres s now depth cp j reservation =
     (case cp of (cnt, plan) \<Rightarrow>
      if depth \<noteq> 0 \<and> cnt \<ge> depth then (cnt, plan)
      else let dur = release_estimate s now (run_time_estimate j);
               (r, plan) = (if reservation = None then pfit plan (nodes_requested j) dur now else (reservation, plan))
           in case r of None \<Rightarrow> (cnt, plan)
              | Some t \<Rightarrow> if \<not> reservation_within_horizon s t now then (cnt, plan)
                          else (Suc cnt, pres plan t (nodes_requested j) (release_estimate s t (run_time_estimate j))))"

text \<open>The candidate loop.  The result is the started jobs, the visited entries with their flags, the
  examined count and the final count and plan.\<close>

fun hybrid_scan ::
  "('p \<Rightarrow> num_nodes \<Rightarrow> tdiff \<Rightarrow> sim_time \<Rightarrow> sim_time option \<times> 'p) \<Rightarrow> ('p \<Rightarrow> sim_time \<Rightarrow> num_nodes \<Rightarrow> tdiff \<Rightarrow> 'p) \<Rightarrow>
   'a scheduler_base_scheme \<Rightarrow> sim_time \<Rightarrow> bool \<Rightarrow> nat \<Rightarrow> nat \<Rightarrow> num_nodes \<Rightarrow> segment list \<Rightarrow> nat \<times> 'p \<Rightarrow> nat \<Rightarrow> job_entry list \<Rightarrow>
   job_entry list \<times> job_entry list \<times> nat \<times> nat \<times> 'p" where
  "hybrid_scan pfit pres s now uses_slot qdepth pdepth avail aplan cp ex [] = ([], [], ex, cp)"
| "hybrid_scan pfit pres s now uses_slot qdepth pdepth avail aplan cp ex (j # js) =
     (let job_reservation = value_or_max (earliest_fit aplan (nodes_requested j) 0 now);
          in_horizon = reservation_within_horizon s job_reservation now;
          dur = release_estimate s now (run_time_estimate j)
      in
      if removed j \<or> (\<not> in_horizon \<and> \<not> uses_slot) then
        (let (st, js', r) = hybrid_scan pfit pres s now uses_slot qdepth pdepth avail aplan cp ex js in (st, j # js', r))
      else if qdepth \<noteq> 0 \<and> ex \<ge> qdepth then ([], j # js, ex, cp)
      else if \<not> in_horizon then
        (let (st, js', r) = hybrid_scan pfit pres s now uses_slot qdepth pdepth avail aplan cp (Suc ex) js in (st, j # js', r))
      else if avail < nodes_requested j then
        (let (st, js', r) = hybrid_scan pfit pres s now uses_slot qdepth pdepth avail aplan
               (protect_job pfit pres s now pdepth cp j None) (Suc ex) js in (st, j # js', r))
      else
        (let (protected_start, plan) = pfit (snd cp) (nodes_requested j) dur now in
         if protected_start = Some now then
           (let avail' = avail - nodes_requested j;
                aplan' = reserve aplan now (nodes_requested j) dur;
                cp' = (fst cp, pres plan now (nodes_requested j) dur)
            in if avail' = 0 then ([j], j\<lparr>removed := True\<rparr> # js, Suc ex, cp')
               else let (st, js', r) = hybrid_scan pfit pres s now uses_slot qdepth pdepth avail' aplan' cp' (Suc ex) js
                    in (j # st, j\<lparr>removed := True\<rparr> # js', r))
         else
           (let (st, js', r) = hybrid_scan pfit pres s now uses_slot qdepth pdepth avail aplan
                  (protect_job pfit pres s now pdepth (fst cp, plan) j protected_start) (Suc ex) js
            in (st, j # js', r))))"

text \<open>The queue-depth accounting cycle: one budget per timestamp, of which the blocked head takes a slot.\<close>

definition account_head :: "'a hybrid_queue_scheme \<Rightarrow> sim_time \<Rightarrow> bool \<Rightarrow> 'a hybrid_queue_scheme" where
  "account_head s now uses_slot =
     (let s = (if m_backfill_depth_time s \<noteq> now
               then s\<lparr>m_backfill_depth_time := now, m_backfill_depth_examined := 0, m_backfill_depth_head_accounted := False\<rparr>
               else s)
      in if (uses_slot \<or> reservation_within_horizon s (m_fcfs_reservation_time s) now) \<and> \<not> m_backfill_depth_head_accounted s
         then s\<lparr>m_backfill_depth_examined := Suc (m_backfill_depth_examined s), m_backfill_depth_head_accounted := True\<rparr>
         else s)"

definition hybrid_pass ::
  "('p \<Rightarrow> num_nodes \<Rightarrow> tdiff \<Rightarrow> sim_time \<Rightarrow> sim_time option \<times> 'p) \<Rightarrow> ('p \<Rightarrow> sim_time \<Rightarrow> num_nodes \<Rightarrow> tdiff \<Rightarrow> 'p) \<Rightarrow>
   (segment list \<Rightarrow> 'p) \<Rightarrow> bool \<Rightarrow> 'a hybrid_queue_scheme \<Rightarrow> num_nodes \<Rightarrow> running_jobs \<Rightarrow> sim_time \<Rightarrow>
   job_no list \<times> 'a hybrid_queue_scheme" where
  "hybrid_pass pfit pres pnew uses_slot s free running now =
     (let (heads, avail, e, r, q) = start_heads (m_eligible_end_idx s) (m_removed_count s) free (m_wait_queue s);
          s = s\<lparr>m_wait_queue := q, m_eligible_end_idx := e, m_removed_count := r\<rparr>;
          ids = map job_id heads;
          starts = map (projected s now) heads
      in if hybrid_active_job_count s = 0 \<or> m_backfill_policy s = NONE then (ids, s)
      else let s = s\<lparr>m_fcfs_reservation_time :=
                 calculate_fcfs_reservation s (nodes_requested (hd q)) avail running now starts\<rparr>
      in if avail = 0 then (ids, s)
      else let s = account_head s now uses_slot;
               baseline = reservation_timeline s avail running now starts;
               pdepth = (if m_backfill_policy s = HYBRID then m_reservation_depth s else 0);
               cp = protect_job pfit pres s now pdepth (0, pnew baseline) (hd q) None;
               (st, visited, ex, _) = hybrid_scan pfit pres s now uses_slot (m_backfill_queue_depth s) pdepth
                  avail baseline cp (m_backfill_depth_examined s) (drop 1 (take e q))
           in (ids @ map job_id st,
               s\<lparr>m_wait_queue := take 1 q @ visited @ drop e q, m_removed_count := r + length st,
                 m_backfill_depth_examined := ex\<rparr>))"

definition schedule_with_protection ::
  "('p \<Rightarrow> num_nodes \<Rightarrow> tdiff \<Rightarrow> sim_time \<Rightarrow> sim_time option \<times> 'p) \<Rightarrow> ('p \<Rightarrow> sim_time \<Rightarrow> num_nodes \<Rightarrow> tdiff \<Rightarrow> 'p) \<Rightarrow>
   (segment list \<Rightarrow> 'p) \<Rightarrow> bool \<Rightarrow> 'a hybrid_circular_scheme \<Rightarrow> num_nodes \<Rightarrow> running_jobs \<Rightarrow> sim_time \<Rightarrow>
   job_no list \<times> 'a hybrid_circular_scheme" where
  "schedule_with_protection pfit pres pnew uses_slot s free running now =
     (let s = hc_sync_to s now;
          s = (if m_removed_count s > 0 \<and> m_removed_count s * 2 > length (m_wait_queue s)
               then s\<lparr>m_wait_queue := filter (\<lambda>j. \<not> removed j) (m_wait_queue s),
                      m_eligible_end_idx := m_eligible_end_idx s
                        - length (filter removed (take (m_eligible_end_idx s) (m_wait_queue s))),
                      m_removed_count := 0\<rparr>
               else s)
      in if m_eligible_end_idx s = 0 then ([], s)
         else hybrid_pass pfit pres pnew uses_slot s free running now)"

definition hc_schedule ::
  "bool \<Rightarrow> 'a hybrid_circular_scheme \<Rightarrow> num_nodes \<Rightarrow> running_jobs \<Rightarrow> sim_time \<Rightarrow> job_no list \<times> 'a hybrid_circular_scheme" where
  "hc_schedule uses_slot s free running now =
     schedule_with_protection timeline_fit reserve (\<lambda>xs. xs) uses_slot s free running now"

text \<open>The deque class has the loop without the planner template and without the slot rule.\<close>

fun hybrid_deque_scan ::
  "'a scheduler_base_scheme \<Rightarrow> sim_time \<Rightarrow> nat \<Rightarrow> nat \<Rightarrow> num_nodes \<Rightarrow> segment list \<Rightarrow> nat \<times> segment list \<Rightarrow> nat \<Rightarrow> job_entry list \<Rightarrow>
   job_entry list \<times> job_entry list \<times> nat \<times> nat \<times> segment list" where
  "hybrid_deque_scan s now qdepth pdepth avail aplan cp ex [] = ([], [], ex, cp)"
| "hybrid_deque_scan s now qdepth pdepth avail aplan cp ex (j # js) =
     (if removed j then
        (let (st, js', r) = hybrid_deque_scan s now qdepth pdepth avail aplan cp ex js in (st, j # js', r))
      else if \<not> reservation_within_horizon s (value_or_max (earliest_fit aplan (nodes_requested j) 0 now)) now then
        (let (st, js', r) = hybrid_deque_scan s now qdepth pdepth avail aplan cp ex js in (st, j # js', r))
      else if qdepth \<noteq> 0 \<and> ex \<ge> qdepth then ([], j # js, ex, cp)
      else if avail < nodes_requested j then
        (let (st, js', r) = hybrid_deque_scan s now qdepth pdepth avail aplan
               (protect_job timeline_fit reserve s now pdepth cp j None) (Suc ex) js in (st, j # js', r))
      else
        (let dur = release_estimate s now (run_time_estimate j);
             protected_start = earliest_fit (snd cp) (nodes_requested j) dur now in
         if protected_start = Some now then
           (let avail' = avail - nodes_requested j;
                aplan' = reserve aplan now (nodes_requested j) dur;
                cp' = (fst cp, reserve (snd cp) now (nodes_requested j) dur)
            in if avail' = 0 then ([j], j\<lparr>removed := True\<rparr> # js, Suc ex, cp')
               else let (st, js', r) = hybrid_deque_scan s now qdepth pdepth avail' aplan' cp' (Suc ex) js
                    in (j # st, j\<lparr>removed := True\<rparr> # js', r))
         else
           (let (st, js', r) = hybrid_deque_scan s now qdepth pdepth avail aplan
                  (protect_job timeline_fit reserve s now pdepth cp j protected_start) (Suc ex) js
            in (st, j # js', r))))"

definition hybrid_schedule ::
  "'a hybrid_queue_scheme \<Rightarrow> num_nodes \<Rightarrow> running_jobs \<Rightarrow> sim_time \<Rightarrow> job_no list \<times> 'a hybrid_queue_scheme" where
  "hybrid_schedule s free running now =
     (let s = hybrid_sync_to s now;
          s = (if m_removed_count s > 0 \<and> m_removed_count s * 2 > length (m_wait_queue s)
               then s\<lparr>m_wait_queue := filter (\<lambda>j. \<not> removed j) (m_wait_queue s),
                      m_eligible_end_idx := m_eligible_end_idx s
                        - length (filter removed (take (m_eligible_end_idx s) (m_wait_queue s))),
                      m_removed_count := 0\<rparr>
               else s)
      in if m_eligible_end_idx s = 0 then ([], s)
      else let (heads, avail, e, r, q) = start_heads (m_eligible_end_idx s) (m_removed_count s) free (m_wait_queue s);
               s = s\<lparr>m_wait_queue := q, m_eligible_end_idx := e, m_removed_count := r\<rparr>;
               ids = map job_id heads;
               starts = map (projected s now) heads
      in if hybrid_active_job_count s = 0 then (ids, s)
      else if m_backfill_policy s = NONE then (ids, s)
      else let s = s\<lparr>m_fcfs_reservation_time :=
                 calculate_fcfs_reservation s (nodes_requested (hd q)) avail running now starts\<rparr>
      in if avail = 0 then (ids, s)
      else let s = account_head s now False;
               baseline = reservation_timeline s avail running now starts;
               pdepth = (if m_backfill_policy s = HYBRID then m_reservation_depth s else 0);
               cp = protect_job timeline_fit reserve s now pdepth (0, baseline) (hd q) None;
               (st, visited, ex, _) = hybrid_deque_scan s now (m_backfill_queue_depth s) pdepth
                  avail baseline cp (m_backfill_depth_examined s) (drop 1 (take e q))
           in (ids @ map job_id st,
               s\<lparr>m_wait_queue := take 1 q @ visited @ drop e q, m_removed_count := r + length st,
                 m_backfill_depth_examined := ex\<rparr>))"

end
