(* ===== verification/Hybrid_Refine.thy ===== *)
theory Hybrid_Refine
  imports Hybrid
begin

text \<open>
  Properties of the hybrid schedulers.  The traversal is independent of the protection planner: any
  provider of the \<open>planner\<close> interface gives the decisions of the plain timeline.  A pass starts only
  arrived jobs, at most as many nodes as are free, and each job once; the deque and the circular class
  make the same decisions.
\<close>

section \<open>The cases of the traversal\<close>

definition in_horizon :: "'a scheduler_base_scheme \<Rightarrow> sim_time \<Rightarrow> segment list \<Rightarrow> job_entry \<Rightarrow> bool" where
  "in_horizon s now aplan j =
     reservation_within_horizon s (value_or_max (earliest_fit aplan (nodes_requested j) 0 now)) now"

abbreviation est :: "'a scheduler_base_scheme \<Rightarrow> sim_time \<Rightarrow> job_entry \<Rightarrow> tdiff" where
  "est s now j \<equiv> release_estimate s now (run_time_estimate j)"

definition visit :: "job_entry \<Rightarrow> job_entry list \<times> job_entry list \<times> 'r \<Rightarrow> job_entry list \<times> job_entry list \<times> 'r" where
  "visit j x = (fst x, j # fst (snd x), snd (snd x))"

definition take_start :: "job_entry \<Rightarrow> job_entry list \<times> job_entry list \<times> 'r \<Rightarrow> job_entry list \<times> job_entry list \<times> 'r" where
  "take_start j x = (j # fst x, j\<lparr>removed := True\<rparr> # fst (snd x), snd (snd x))"

lemma visitE:
  assumes "visit j x = (st, js', r)"
  obtains ys where "x = (st, ys, r)" "js' = j # ys"
  using assms by (cases x) (auto simp: visit_def)

lemma startE:
  assumes "take_start j x = (st, js', r)"
  obtains st' ys where "x = (st', ys, r)" "st = j # st'" "js' = j\<lparr>removed := True\<rparr> # ys"
  using assms by (cases x) (auto simp: take_start_def)

lemma scan_skip:
  "removed j \<or> (\<not> in_horizon s now aplan j \<and> \<not> u) \<Longrightarrow>
   hybrid_scan f g s now u qd pd a aplan cp ex (j # js) = visit j (hybrid_scan f g s now u qd pd a aplan cp ex js)"
  by (auto simp: in_horizon_def visit_def Let_def case_prod_beta)

lemma scan_stop:
  "\<not> removed j \<Longrightarrow> in_horizon s now aplan j \<or> u \<Longrightarrow> qd \<noteq> 0 \<Longrightarrow> qd \<le> ex \<Longrightarrow>
   hybrid_scan f g s now u qd pd a aplan cp ex (j # js) = ([], j # js, ex, cp)"
  by (auto simp: in_horizon_def)

lemma scan_slot:
  "\<not> removed j \<Longrightarrow> u \<Longrightarrow> qd = 0 \<or> ex < qd \<Longrightarrow> \<not> in_horizon s now aplan j \<Longrightarrow>
   hybrid_scan f g s now u qd pd a aplan cp ex (j # js) = visit j (hybrid_scan f g s now u qd pd a aplan cp (Suc ex) js)"
  by (auto simp: in_horizon_def visit_def Let_def case_prod_beta)

lemma scan_big:
  "\<not> removed j \<Longrightarrow> in_horizon s now aplan j \<Longrightarrow> qd = 0 \<or> ex < qd \<Longrightarrow> a < nodes_requested j \<Longrightarrow>
   hybrid_scan f g s now u qd pd a aplan cp ex (j # js) =
     visit j (hybrid_scan f g s now u qd pd a aplan (protect_job f g s now pd cp j None) (Suc ex) js)"
  by (auto simp: in_horizon_def visit_def Let_def case_prod_beta)

lemma scan_start:
  "\<not> removed j \<Longrightarrow> in_horizon s now aplan j \<Longrightarrow> qd = 0 \<or> ex < qd \<Longrightarrow> nodes_requested j \<le> a \<Longrightarrow>
   f (snd cp) (nodes_requested j) (est s now j) now = (Some now, p) \<Longrightarrow>
   hybrid_scan f g s now u qd pd a aplan cp ex (j # js) =
     (let cp' = (fst cp, g p now (nodes_requested j) (est s now j)) in
      if a - nodes_requested j = 0 then ([j], j\<lparr>removed := True\<rparr> # js, Suc ex, cp')
      else take_start j (hybrid_scan f g s now u qd pd (a - nodes_requested j)
             (reserve aplan now (nodes_requested j) (est s now j)) cp' (Suc ex) js))"
  by (auto simp: in_horizon_def take_start_def Let_def case_prod_beta)

lemma scan_keep:
  "\<not> removed j \<Longrightarrow> in_horizon s now aplan j \<Longrightarrow> qd = 0 \<or> ex < qd \<Longrightarrow> nodes_requested j \<le> a \<Longrightarrow>
   f (snd cp) (nodes_requested j) (est s now j) now = (x, p) \<Longrightarrow> x \<noteq> Some now \<Longrightarrow>
   hybrid_scan f g s now u qd pd a aplan cp ex (j # js) =
     visit j (hybrid_scan f g s now u qd pd a aplan (protect_job f g s now pd (fst cp, p) j x) (Suc ex) js)"
  by (auto simp: in_horizon_def visit_def Let_def case_prod_beta)

lemma scan_cases:
  fixes qd ex :: nat
  obtains (skip) "removed j \<or> (\<not> in_horizon s now aplan j \<and> \<not> u)"
    | (stop) "\<not> removed j" "in_horizon s now aplan j \<or> u" "qd \<noteq> 0" "qd \<le> ex"
    | (slot) "\<not> removed j" "u" "qd = 0 \<or> ex < qd" "\<not> in_horizon s now aplan j"
    | (big) "\<not> removed j" "in_horizon s now aplan j" "qd = 0 \<or> ex < qd" "a < nodes_requested j"
    | (cand) "\<not> removed j" "in_horizon s now aplan j" "qd = 0 \<or> ex < qd" "nodes_requested j \<le> a"
proof -
  have "nodes_requested j \<le> a \<or> a < nodes_requested j" "qd = 0 \<or> ex < qd \<or> (qd \<noteq> 0 \<and> qd \<le> ex)" by auto
  then show thesis using skip stop slot big cand by blast
qed

section \<open>The planner is invisible\<close>

context planner
begin

lemma protect_eq:
  assumes p: "ok p" "origin (plan p) = now" and r: "\<And>t. r = Some t \<Longrightarrow> now \<le> t"
  shows "fst (protect_job fit commit s now d (c, p) j r) = fst (protect_job timeline_fit reserve s now d (c, plan p) j r) \<and>
    plan (snd (protect_job fit commit s now d (c, p) j r)) = snd (protect_job timeline_fit reserve s now d (c, plan p) j r) \<and>
    ok (snd (protect_job fit commit s now d (c, p) j r)) \<and>
    origin (plan (snd (protect_job fit commit s now d (c, p) j r))) = now"
proof (cases r)
  case (Some t)
  then have "origin (plan p) \<le> t" using p(2) r by simp
  with Some p show ?thesis
    by (auto simp: protect_job_def Let_def commit_plan commit_ok commit_origin ok_wf)
next
  case None
  have o: "origin (plan p) \<le> now" using p(2) by simp
  obtain x q where f: "fit p (nodes_requested j) (release_estimate s now (run_time_estimate j)) now = (x, q)"
    by fastforce
  have q: "plan q = plan p" "ok q" "earliest_fit (plan p) (nodes_requested j) (release_estimate s now (run_time_estimate j)) now = x"
    using fit_plan[OF p(1) o] fit_ok[OF p(1) o] fit_eq[OF p(1) o] f by (metis fst_conv snd_conv)+
  have le: "origin (plan q) \<le> t" if "x = Some t" for t
    using fit_SomeD(1)[OF p(1) o] f that q(1) p(2) by simp
  show ?thesis
  proof (cases x)
    case None
    with \<open>r = None\<close> f q p show ?thesis by (auto simp: protect_job_def Let_def timeline_fit_def)
  next
    case (Some t)
    with \<open>r = None\<close> f q p le[OF Some] show ?thesis
      by (auto simp: protect_job_def Let_def timeline_fit_def commit_plan commit_ok commit_origin ok_wf)
  qed
qed

lemma protect_eqE:
  assumes "ok p" "origin (plan p) = now" "\<And>t. r = Some t \<Longrightarrow> now \<le> t"
  obtains c' p' where "protect_job fit commit s now d (c, p) j r = (c', p')"
    "protect_job timeline_fit reserve s now d (c, plan p) j r = (c', plan p')" "ok p'" "origin (plan p') = now"
  using protect_eq[OF assms, where s = s and d = d and c = c and j = j] that by (metis prod.collapse)

lemma scan_eq:
  assumes "ok p" "origin (plan p) = now"
  shows "fst (hybrid_scan fit commit s now u qd pd a aplan (c, p) ex js) =
      fst (hybrid_scan timeline_fit reserve s now u qd pd a aplan (c, plan p) ex js) \<and>
    fst (snd (hybrid_scan fit commit s now u qd pd a aplan (c, p) ex js)) =
      fst (snd (hybrid_scan timeline_fit reserve s now u qd pd a aplan (c, plan p) ex js)) \<and>
    fst (snd (snd (hybrid_scan fit commit s now u qd pd a aplan (c, p) ex js))) =
      fst (snd (snd (hybrid_scan timeline_fit reserve s now u qd pd a aplan (c, plan p) ex js)))"
  using assms
proof (induction js arbitrary: a aplan c p ex)
  case (Cons j js)
  show ?case
  proof (cases rule: scan_cases[where j = j and s = s and now = now and aplan = aplan and u = u and qd = qd and ex = ex and a = a])
    case skip
    then show ?thesis using Cons.IH[OF Cons.prems] by (simp add: scan_skip visit_def del: hybrid_scan.simps)
  next
    case stop
    then show ?thesis by (simp add: scan_stop del: hybrid_scan.simps)
  next
    case slot
    then show ?thesis using Cons.IH[OF Cons.prems] by (simp add: scan_slot visit_def del: hybrid_scan.simps)
  next
    case big
    obtain c1 p1 where "protect_job fit commit s now pd (c, p) j None = (c1, p1)"
      "protect_job timeline_fit reserve s now pd (c, plan p) j None = (c1, plan p1)" "ok p1" "origin (plan p1) = now"
      by (rule protect_eqE[OF Cons.prems, where r = None and s = s and d = pd and c = c and j = j]) auto
    then show ?thesis using big Cons.IH by (simp add: scan_big visit_def del: hybrid_scan.simps)
  next
    case cand
    have o: "origin (plan p) \<le> now" using Cons.prems(2) by simp
    obtain x q where f: "fit p (nodes_requested j) (est s now j) now = (x, q)" by fastforce
    have q: "plan q = plan p" "ok q" "earliest_fit (plan p) (nodes_requested j) (est s now j) now = x"
      using fit_plan[OF Cons.prems(1) o] fit_ok[OF Cons.prems(1) o] fit_eq[OF Cons.prems(1) o] f
      by (metis fst_conv snd_conv)+
    have t: "timeline_fit (plan p) (nodes_requested j) (est s now j) now = (x, plan p)"
      by (simp add: timeline_fit_def q(3))
    have oq: "origin (plan q) = now" "origin (plan q) \<le> now" using q(1) Cons.prems(2) by simp_all
    show ?thesis
    proof (cases "x = Some now")
      case True
      have k: "ok (commit q now (nodes_requested j) (est s now j))"
        "origin (plan (commit q now (nodes_requested j) (est s now j))) = now"
        "plan (commit q now (nodes_requested j) (est s now j)) = reserve (plan p) now (nodes_requested j) (est s now j)"
        using q(1,2) oq ok_wf[OF Cons.prems(1)] by (simp_all add: commit_ok commit_plan)
      show ?thesis using True cand f t Cons.IH[OF k(1,2)] k(3)
        by (simp add: scan_start Let_def take_start_def del: hybrid_scan.simps)
    next
      case False
      have "now \<le> t" if "x = Some t" for t using fit_SomeD(1)[OF Cons.prems(1) o] f that by simp
      then obtain c1 p1 where "protect_job fit commit s now pd (c, q) j x = (c1, p1)"
        "protect_job timeline_fit reserve s now pd (c, plan q) j x = (c1, plan p1)" "ok p1" "origin (plan p1) = now"
        using protect_eqE[OF q(2) oq(1), where r = x and s = s and d = pd and c = c and j = j] by metis
      then show ?thesis using False cand f t q(1) Cons.IH
        by (simp add: scan_keep visit_def del: hybrid_scan.simps)
    qed
  qed
qed simp

text \<open>A whole pass, from any plan constructor that wraps the profile.\<close>

lemma pass_eq:
  assumes new: "\<And>xs. wf_tl xs \<Longrightarrow> ok (pnew xs) \<and> plan (pnew xs) = xs"
  shows "hybrid_pass fit commit pnew u s free running now = hybrid_pass timeline_fit reserve (\<lambda>xs. xs) u s free running now"
proof -
  have scan: "fst (hybrid_scan fit commit r now u qd pd a xs (protect_job fit commit r now pd (0, pnew xs) h None) ex js) =
      fst (hybrid_scan timeline_fit reserve r now u qd pd a xs (protect_job timeline_fit reserve r now pd (0, xs) h None) ex js) \<and>
    fst (snd (hybrid_scan fit commit r now u qd pd a xs (protect_job fit commit r now pd (0, pnew xs) h None) ex js)) =
      fst (snd (hybrid_scan timeline_fit reserve r now u qd pd a xs (protect_job timeline_fit reserve r now pd (0, xs) h None) ex js)) \<and>
    fst (snd (snd (hybrid_scan fit commit r now u qd pd a xs (protect_job fit commit r now pd (0, pnew xs) h None) ex js))) =
      fst (snd (snd (hybrid_scan timeline_fit reserve r now u qd pd a xs (protect_job timeline_fit reserve r now pd (0, xs) h None) ex js)))"
    if "wf_tl xs" "origin xs = now" for r :: "'b scheduler_base_scheme" and qd pd a xs h ex js
  proof -
    have p: "ok (pnew xs)" "plan (pnew xs) = xs" "origin (plan (pnew xs)) = now" using new that by auto
    obtain c1 p1 where "protect_job fit commit r now pd (0, pnew xs) h None = (c1, p1)"
      "protect_job timeline_fit reserve r now pd (0, plan (pnew xs)) h None = (c1, plan p1)" "ok p1" "origin (plan p1) = now"
      by (rule protect_eqE[OF p(1,3), where r = None and s = r and d = pd and c = 0 and j = h]) auto
    then show ?thesis using scan_eq p(2) by simp
  qed
  show ?thesis
    unfolding hybrid_pass_def by (simp add: Let_def case_prod_beta scan)
qed

end

section \<open>What a pass does to the queue\<close>

text \<open>One pass on the raw queue: the part beyond the eligible end is untouched, the entries left are a
  suffix of the eligible entries up to their flags, the removed count is exact again, and the jobs
  started are the ones no longer live, within the free nodes.\<close>

definition raw_step ::
  "job_entry list \<Rightarrow> nat \<Rightarrow> num_nodes \<Rightarrow> job_no list \<Rightarrow> job_entry list \<Rightarrow> nat \<Rightarrow> nat \<Rightarrow> bool" where
  "raw_step q e free ids q' e' r' \<longleftrightarrow>
     e' \<le> length q' \<and> r' = length (filter removed (take e' q')) \<and> drop e' q' = drop e q \<and>
     (\<exists>k\<le>e. e' = e - k \<and> map submit_time q' = drop k (map submit_time q)) \<and>
     (\<exists>st. ids = map job_id st \<and> mset (live (take e q)) = mset st + mset (live (take e' q')) \<and>
        nodes_sum st \<le> unat free)"

lemma scan_structure:
  "hybrid_scan f g s now u qd pd a aplan cp ex js = (st, js', r) \<Longrightarrow>
   mset (live js) = mset st + mset (live js') \<and> nodes_sum st \<le> unat a \<and>
   map submit_time js' = map submit_time js \<and> length (filter removed js') = length (filter removed js) + length st"
proof (induction js arbitrary: a aplan cp ex st js')
  case (Cons j js)
  obtain x p where f: "f (snd cp) (nodes_requested j) (est s now j) now = (x, p)" by fastforce
  show ?case
  proof (cases rule: scan_cases[where j = j and s = s and now = now and aplan = aplan and u = u and qd = qd and ex = ex and a = a])
    case skip
    with Cons.prems obtain ys where "hybrid_scan f g s now u qd pd a aplan cp ex js = (st, ys, r)" "js' = j # ys"
      by (auto simp: scan_skip simp del: hybrid_scan.simps elim: visitE)
    with Cons.IH[OF this(1)] show ?thesis by simp
  next
    case stop
    with Cons.prems show ?thesis by (auto simp: scan_stop simp del: hybrid_scan.simps)
  next
    case slot
    with Cons.prems obtain ys where "hybrid_scan f g s now u qd pd a aplan cp (Suc ex) js = (st, ys, r)" "js' = j # ys"
      by (auto simp: scan_slot simp del: hybrid_scan.simps elim: visitE)
    with Cons.IH[OF this(1)] show ?thesis by simp
  next
    case big
    with Cons.prems obtain ys where "hybrid_scan f g s now u qd pd a aplan (protect_job f g s now pd cp j None) (Suc ex) js = (st, ys, r)"
      "js' = j # ys" by (auto simp: scan_big simp del: hybrid_scan.simps elim: visitE)
    with Cons.IH[OF this(1)] show ?thesis by simp
  next
    case cand
    show ?thesis
    proof (cases "x = Some now")
      case False
      with cand f Cons.prems obtain ys where
        "hybrid_scan f g s now u qd pd a aplan (protect_job f g s now pd (fst cp, p) j x) (Suc ex) js = (st, ys, r)" "js' = j # ys"
        by (auto simp: scan_keep simp del: hybrid_scan.simps elim: visitE)
      with Cons.IH[OF this(1)] show ?thesis by simp
    next
      case True
      note eq = scan_start[where f = f and cp = cp and p = p, OF cand f[unfolded True], where g = g and pd = pd and u = u and js = js]
      show ?thesis
      proof (cases "a - nodes_requested j = 0")
        case zero: True
        with eq Cons.prems cand show ?thesis by (auto simp: Let_def simp del: hybrid_scan.simps)
      next
        case nz: False
        with eq Cons.prems have "take_start j (hybrid_scan f g s now u qd pd (a - nodes_requested j)
            (reserve aplan now (nodes_requested j) (est s now j))
            (fst cp, g p now (nodes_requested j) (est s now j)) (Suc ex) js) = (st, js', r)"
          by (simp add: Let_def del: hybrid_scan.simps)
        then obtain st1 ys where rec: "hybrid_scan f g s now u qd pd (a - nodes_requested j)
            (reserve aplan now (nodes_requested j) (est s now j))
            (fst cp, g p now (nodes_requested j) (est s now j)) (Suc ex) js = (st1, ys, r)"
          "st = j # st1" "js' = j\<lparr>removed := True\<rparr> # ys" by (rule startE)
        with Cons.IH[OF rec(1)] cand show ?thesis by (auto simp: unat_sub word_le_nat_alt)
      qed
    qed
  qed
qed simp

lemma raw_step_refl:
  assumes "start_heads e r free q = (hs, a, e', r', q')" "e \<le> length q" "r = length (filter removed (take e q))"
  shows "raw_step q e free (map job_id hs) q' e' r'"
proof -
  note h = start_heads_refines[OF assms]
  then obtain k where k: "k \<le> e" "q' = drop k q" "e' = e - k" by blast
  have c: "live (take e q) = hs @ live (take e' q')" "nodes_sum hs \<le> unat free"
    using spec_heads_correct[OF h[THEN conjunct1]] by auto
  have "\<exists>k\<le>e. e' = e - k \<and> map submit_time q' = drop k (map submit_time q)" using k by (auto simp: drop_map)
  moreover have "\<exists>st. map job_id hs = map job_id st \<and> mset (live (take e q)) = mset st + mset (live (take e' q')) \<and>
      nodes_sum st \<le> unat free" using c by (intro exI[of _ hs]) simp
  moreover have "e' \<le> length q'" "r' = length (filter removed (take e' q'))" "drop e' q' = drop e q"
    using h by simp_all
  ultimately show ?thesis unfolding raw_step_def by blast
qed

lemma raw_step_scan:
  assumes sh: "start_heads e r free q = (hs, a, e', r', q')" and len: "e \<le> length q"
    and r: "r = length (filter removed (take e q))" and pos: "0 < e'"
    and sc: "hybrid_scan f g s now u qd pd a aplan cp ex (drop 1 (take e' q')) = (st, ys, x)"
  shows "raw_step q e free (map job_id hs @ map job_id st) (take 1 q' @ ys @ drop e' q') e' (r' + length st)"
proof -
  note h = start_heads_refines[OF sh len r] and s = scan_structure[OF sc]
  from h obtain k where k: "k \<le> e" "q' = drop k q" "e' = e - k" by blast
  have le: "e' \<le> length q'" using h by blast
  have ly: "length ys = e' - 1" using arg_cong[OF s[THEN conjunct2, THEN conjunct2, THEN conjunct1], of length] le by simp
  have sp: "take e' (take 1 q' @ ys @ drop e' q') = take 1 q' @ ys" "drop e' (take 1 q' @ ys @ drop e' q') = drop e' q'"
    using splice_range(1,2)[of e' e' q' ys] pos le ly by simp_all
  have tk: "take 1 q' @ drop 1 (take e' q') = take e' q'"
    using pos by (metis append_take_drop_id min_absorb1 One_nat_def Suc_leI take_take)
  have sub: "map submit_time (take 1 q' @ ys @ drop e' q') = map submit_time q'"
    using s tk by (metis append_assoc append_take_drop_id map_append)
  have heads: "live (take e q) = hs @ live (take e' q')" "nodes_sum hs + unat a = unat free"
    using spec_heads_correct[OF h[THEN conjunct1]] by auto
  have "mset (live (take e' q')) = mset st + mset (live (take 1 q' @ ys))"
    using s arg_cong[OF tk, of "\<lambda>z. mset (live z)"] by (simp add: ac_simps)
  moreover have "r' + length st = length (filter removed (take 1 q' @ ys))"
    using h s arg_cong[OF tk, of "\<lambda>z. length (filter removed z)"] by simp
  ultimately have "\<exists>ss. map job_id hs @ map job_id st = map job_id ss \<and>
      mset (live (take e q)) = mset ss + mset (live (take 1 q' @ ys)) \<and> nodes_sum ss \<le> unat free"
    "r' + length st = length (filter removed (take 1 q' @ ys))"
    using heads s by (auto intro!: exI[of _ "hs @ st"])
  moreover have "\<exists>k\<le>e. e' = e - k \<and> map submit_time (take 1 q' @ ys @ drop e' q') = drop k (map submit_time q)"
    unfolding sub using k by (auto simp: drop_map)
  moreover have "drop e' q' = drop e q" using h by simp
  moreover have "e' \<le> length (take 1 q' @ ys @ drop e' q')" using le ly pos by simp
  ultimately show ?thesis unfolding raw_step_def sp by blast
qed

lemma account_head_fields [simp]:
  "m_wait_queue (account_head s now u) = m_wait_queue s" "m_eligible_end_idx (account_head s now u) = m_eligible_end_idx s"
  "m_removed_count (account_head s now u) = m_removed_count s"
  "m_current_tracked_time (account_head s now u) = m_current_tracked_time s"
  "m_fcfs_reservation_time (account_head s now u) = m_fcfs_reservation_time s"
  by (simp_all add: account_head_def Let_def)

lemma hybrid_pass_raw:
  assumes len: "m_eligible_end_idx s \<le> length (m_wait_queue s)"
    and r: "m_removed_count s = length (filter removed (take (m_eligible_end_idx s) (m_wait_queue s)))"
    and p: "hybrid_pass f g pnew u s free running now = (ids, s')"
  shows "raw_step (m_wait_queue s) (m_eligible_end_idx s) free ids (m_wait_queue s') (m_eligible_end_idx s') (m_removed_count s') \<and>
    m_current_tracked_time s' = m_current_tracked_time s"
proof -
  obtain hs a e r q where sh: "start_heads (m_eligible_end_idx s) (m_removed_count s) free (m_wait_queue s) =
    (hs, a, e, r, q)" by (metis prod_cases5)
  show ?thesis
  proof (cases "e - r = 0 \<or> m_backfill_policy s = NONE \<or> a = 0")
    case True
    with p sh have "ids = map job_id hs" "m_wait_queue s' = q" "m_eligible_end_idx s' = e" "m_removed_count s' = r"
      "m_current_tracked_time s' = m_current_tracked_time s"
      by (auto simp: hybrid_pass_def hybrid_active_job_count_def Let_def split: if_splits)
    with raw_step_refl[OF sh len assms(2)] show ?thesis by simp
  next
    case False
    then have e: "0 < e" by auto
    define s1 where "s1 = s\<lparr>m_wait_queue := q, m_eligible_end_idx := e, m_removed_count := r\<rparr>"
    define s2 where "s2 = account_head (s1\<lparr>m_fcfs_reservation_time := calculate_fcfs_reservation s1
      (nodes_requested (hd q)) a running now (map (projected s1 now) hs)\<rparr>) now u"
    have s1: "m_eligible_end_idx s1 = e" "m_removed_count s1 = r" "m_backfill_policy s1 = m_backfill_policy s"
      by (simp_all add: s1_def)
    define base where "base = reservation_timeline s2 a running now (map (projected s1 now) hs)"
    obtain st ys ex z where sc: "hybrid_scan f g s2 now u (m_backfill_queue_depth s2)
        (if m_backfill_policy s2 = HYBRID then m_reservation_depth s2 else 0) a base
        (protect_job f g s2 now (if m_backfill_policy s2 = HYBRID then m_reservation_depth s2 else 0) (0, pnew base) (hd q) None) (m_backfill_depth_examined s2) (drop 1 (take e q)) = (st, ys, ex, z)"
      by (metis prod_cases4)
    have "hybrid_pass f g pnew u s free running now = (map job_id hs @ map job_id st,
        s2\<lparr>m_wait_queue := take 1 q @ ys @ drop e q, m_removed_count := r + length st, m_backfill_depth_examined := ex\<rparr>)"
      using False sh sc
      by (cases "m_backfill_policy s2 = HYBRID")
         (simp_all add: hybrid_pass_def hybrid_active_job_count_def Let_def s1_def[symmetric] s2_def[symmetric]
           base_def[symmetric] s1)
    then have out: "ids = map job_id hs @ map job_id st" "m_wait_queue s' = take 1 q @ ys @ drop e q"
        "m_eligible_end_idx s' = e" "m_removed_count s' = r + length st"
        "m_current_tracked_time s' = m_current_tracked_time s"
      using p by (auto simp: s2_def s1_def)
    show ?thesis using raw_step_scan[OF sh len assms(2) e sc] out by simp
  qed
qed

text \<open>Back to the invariant and the pending jobs.\<close>

lemma raw_step_law:
  assumes inv: "fq_inv s"
    and step: "raw_step (m_wait_queue s) (m_eligible_end_idx s) free ids (m_wait_queue s') (m_eligible_end_idx s') (m_removed_count s')"
    and clk: "m_current_tracked_time s' = m_current_tracked_time s"
  shows "fq_inv s' \<and> length (m_wait_queue s') \<le> length (m_wait_queue s) \<and>
    (\<exists>st. ids = map job_id st \<and> mset (pending s) = mset st + mset (pending s') \<and>
       nodes_sum st \<le> unat free \<and> (\<forall>j\<in>set st. submit_time j \<le> m_current_tracked_time s'))"
proof -
  define q e where "q = m_wait_queue s" and "e = m_eligible_end_idx s"
  obtain k st where k: "k \<le> e" "m_eligible_end_idx s' = e - k" "map submit_time (m_wait_queue s') = drop k (map submit_time q)"
    and st: "ids = map job_id st" "mset (live (take e q)) = mset st + mset (live (take (m_eligible_end_idx s') (m_wait_queue s')))"
      "nodes_sum st \<le> unat free"
    and d: "drop (m_eligible_end_idx s') (m_wait_queue s') = drop e q"
    and c: "m_eligible_end_idx s' \<le> length (m_wait_queue s')"
      "m_removed_count s' = length (filter removed (take (m_eligible_end_idx s') (m_wait_queue s')))"
    using step by (auto simp: raw_step_def q_def e_def)
  have "sorted (map submit_time (m_wait_queue s'))"
    unfolding k(3) using inv by (simp add: fq_inv_def q_def sorted_wrt_drop)
  moreover have "\<forall>j\<in>set (take (m_eligible_end_idx s') (m_wait_queue s')). submit_time j \<le> m_current_tracked_time s"
  proof -
    have "map submit_time (take (m_eligible_end_idx s') (m_wait_queue s')) = drop k (map submit_time (take e q))"
      unfolding take_map[symmetric] k(3) k(2) by (simp add: drop_take)
    then have "set (map submit_time (take (m_eligible_end_idx s') (m_wait_queue s'))) \<subseteq> set (map submit_time (take e q))"
      by (metis set_drop_subset)
    then show ?thesis using inv by (auto simp: fq_inv_def q_def e_def)
  qed
  ultimately have inv': "fq_inv s'" using inv d c clk by (simp add: fq_inv_def q_def e_def)
  have "set st \<subseteq> set (waiting s)"
    using arg_cong[OF st(2), of set_mset] by (auto simp: waiting_def q_def e_def)
  then have "\<forall>j\<in>set st. submit_time j \<le> m_current_tracked_time s'"
    using waiting_arrived[OF inv] clk by auto
  moreover have "length (m_wait_queue s') \<le> length q" using arg_cong[OF k(3), of length] by simp
  moreover have "mset (pending s) = mset st + mset (pending s')"
    using st(2) d by (simp add: pending_def waiting_def future_def q_def e_def)
  ultimately show ?thesis using inv' st by (auto simp: q_def)
qed

section \<open>Whole calls\<close>

lemma hc_sync_eq: "hc_sync_to s now = deque_sync_to s now"
  by (simp add: hc_sync_to_def deque_sync_to_def arrived_prefix_def)

lemma hybrid_sync_eq: "hybrid_sync_to s now = deque_sync_to s now"
  by (simp add: hybrid_sync_to_def deque_sync_to_def arrived_prefix_def)

lemma hybrid_active_eq: "hybrid_active_job_count s = deque_active_job_count s"
  by (simp add: hybrid_active_job_count_def deque_active_job_count_def)

lemma protection_eq:
  "schedule_with_protection f g pnew u s free running now =
     (let c = deque_compact (deque_sync_to s now) in
      if m_eligible_end_idx c = 0 then ([], c) else hybrid_pass f g pnew u c free running now)"
  unfolding schedule_with_protection_def deque_compact_def hc_sync_eq Let_def by (rule refl)

text \<open>The cached and the plain traversal are the same function.\<close>

lemma cached_schedule_eq:
  "schedule_with_protection cache_earliest_fit cache_reserve new_cache u s free running now = hc_schedule u s free running now"
proof -
  have "hybrid_pass cache_earliest_fit cache_reserve new_cache u c free running now =
      hybrid_pass timeline_fit reserve (\<lambda>xs. xs) u c free running now" for c :: "'a hybrid_circular_scheme"
    by (rule sc.pass_eq) (simp add: new_cache_ok, simp add: new_cache_def)
  then show ?thesis by (simp add: hc_schedule_def protection_eq Let_def)
qed

text \<open>The loop of the deque class is the template's loop at the plain timeline, without the slot rule.\<close>

lemma deque_scan_eq: "hybrid_deque_scan s now qd pd a aplan cp ex js = hybrid_scan timeline_fit reserve s now False qd pd a aplan cp ex js"
proof (induction js arbitrary: qd a aplan cp ex)
  case (Cons j js)
  let ?x = "earliest_fit (snd cp) (nodes_requested j) (est s now j) now"
  have f: "timeline_fit (snd cp) (nodes_requested j) (est s now j) now = (?x, snd cp)" by (simp add: timeline_fit_def)
  show ?case
  proof (cases rule: scan_cases[where j = j and s = s and now = now and aplan = aplan and u = False and qd = qd and ex = ex and a = a])
    case skip
    then show ?thesis by (auto simp: scan_skip visit_def Cons.IH in_horizon_def case_prod_beta simp del: hybrid_scan.simps)
  next
    case stop
    then show ?thesis by (auto simp: scan_stop in_horizon_def simp del: hybrid_scan.simps)
  next
    case big
    then show ?thesis by (auto simp: scan_big visit_def Cons.IH in_horizon_def case_prod_beta simp del: hybrid_scan.simps)
  next
    case cand
    show ?thesis
    proof (cases "?x = Some now")
      case True
      then show ?thesis using cand f
        by (auto simp: scan_start take_start_def Cons.IH in_horizon_def Let_def case_prod_beta simp del: hybrid_scan.simps)
    next
      case False
      then show ?thesis using cand scan_keep[where f = timeline_fit and cp = cp, OF cand f False]
        by (auto simp: visit_def Cons.IH in_horizon_def Let_def case_prod_beta simp del: hybrid_scan.simps)
    qed
  qed simp
qed simp

lemma if_or: "(if A \<or> B then x else y) = (if A then x else if B then x else y)"
  by simp

lemma hybrid_schedule_eq:
  "hybrid_schedule s free running now =
     (let c = deque_compact (deque_sync_to s now) in
      if m_eligible_end_idx c = 0 then ([], c) else hybrid_pass timeline_fit reserve (\<lambda>xs. xs) False c free running now)"
  unfolding hybrid_schedule_def hybrid_pass_def deque_compact_def hybrid_sync_eq deque_scan_eq Let_def if_or
  by (rule refl)

lemma compact_pending: "fq_inv s \<Longrightarrow> pending (deque_compact s) = pending s"
  using compact_refines[of s] by (simp add: pending_def)

lemma hybrid_call_law:
  assumes inv: "fq_inv s"
    and call: "(let c = deque_compact (deque_sync_to s now) in
      if m_eligible_end_idx c = 0 then ([], c) else hybrid_pass f g pnew u c free running now) = (ids, s')"
  shows "fq_inv s' \<and> length (m_wait_queue s') \<le> length (m_wait_queue s) \<and>
    m_current_tracked_time s' = max (m_current_tracked_time s) now \<and>
    (\<exists>st. ids = map job_id st \<and> mset (pending s) = mset st + mset (pending s') \<and>
       nodes_sum st \<le> unat free \<and> (\<forall>j\<in>set st. submit_time j \<le> m_current_tracked_time s'))"
proof -
  define c where "c = deque_compact (deque_sync_to s now)"
  have sync: "fq_inv (deque_sync_to s now)" using sync_to_refines[OF inv] by blast
  have c: "fq_inv c" "pending c = pending s" "m_current_tracked_time c = max (m_current_tracked_time s) now"
    "length (m_wait_queue c) \<le> length (m_wait_queue s)"
    using compact_refines[OF sync] compact_pending[OF sync] sync_pending[OF inv]
    by (auto simp: c_def deque_clock) (simp add: deque_compact_def deque_sync_to_def)
  show ?thesis
  proof (cases "m_eligible_end_idx c = 0")
    case True
    with call have "ids = []" "s' = c" by (auto simp: c_def Let_def split: if_splits)
    with c show ?thesis by simp
  next
    case False
    with call have p: "hybrid_pass f g pnew u c free running now = (ids, s')" by (simp add: c_def Let_def split: if_splits)
    have "m_eligible_end_idx c \<le> length (m_wait_queue c)"
      "m_removed_count c = length (filter removed (take (m_eligible_end_idx c) (m_wait_queue c)))"
      using c(1) by (simp_all add: fq_inv_def)
    note raw = hybrid_pass_raw[OF this p]
    from raw_step_law[OF c(1) raw[THEN conjunct1] raw[THEN conjunct2]] raw c show ?thesis by auto
  qed
qed

section \<open>The scheduler interface\<close>

lemma hybrid_insert_eq: "hybrid_insert_job s i t r n = deque_insert_job s i t r n"
  by (simp add: hybrid_insert_job_def deque_insert_job_def)

definition hybrid_insert :: "'a hybrid_queue_scheme \<Rightarrow> job_no \<Rightarrow> sim_time \<Rightarrow> tdiff \<Rightarrow> num_nodes \<Rightarrow> exn + 'a hybrid_queue_scheme" where
  "hybrid_insert s i t r n = Inr (hybrid_insert_job s i t r n)"

interpretation hd: scheduler hybrid_insert hybrid_sync_to hybrid_schedule
  "\<lambda>s i t. in_order s t" pending fq_inv m_current_tracked_time
proof unfold_locales
  fix s :: "'a hybrid_queue_scheme" and i t r n s'
  assume "fq_inv s" "in_order s t" "hybrid_insert s i t r n = Inr s'"
  then show "fq_inv s' \<and> mset (pending s') = add_mset (new_entry i t r n) (mset (pending s)) \<and>
      m_current_tracked_time s' = m_current_tracked_time s"
    by (intro dq.ins_law) (simp_all add: hybrid_insert_def deque_insert_def hybrid_insert_eq)
next
  fix s :: "'a hybrid_queue_scheme" and t
  assume "fq_inv s"
  then show "fq_inv (hybrid_sync_to s t) \<and> mset (pending (hybrid_sync_to s t)) = mset (pending s) \<and>
      m_current_tracked_time (hybrid_sync_to s t) = max (m_current_tracked_time s) t"
    unfolding hybrid_sync_eq by (rule dq.syn_law)
next
  fix s :: "'a hybrid_queue_scheme" and free running now ids s'
  assume "fq_inv s" "hybrid_schedule s free running now = (ids, s')"
  then show "fq_inv s' \<and> m_current_tracked_time s' = max (m_current_tracked_time s) now \<and>
      (\<exists>st. ids = map job_id st \<and> mset (pending s) = mset st + mset (pending s') \<and>
         nodes_sum st \<le> unat free \<and> (\<forall>j\<in>set st. submit_time j \<le> m_current_tracked_time s'))"
    using hybrid_call_law[of s now timeline_fit reserve "\<lambda>xs. xs" False free running ids s'] hybrid_schedule_eq[of s free running now]
    by auto
qed

end
