(* ===== verification/Ordered.thy ===== *)
theory Ordered
  imports Session Easy_Refine
begin

text \<open>
  The schedulers on an ordered multimap: \<^verbatim>\<open>FCFSEasyMultimapScheduler\<close>
  (\<^verbatim>\<open>src/src/sim/scheduler_fcfs_easy_multimap.hpp\<close>, \<^verbatim>\<open>.cpp\<close>), \<^verbatim>\<open>SJFEasyScheduler\<close>
  (\<^verbatim>\<open>scheduler_sjf_easy.hpp\<close>, \<^verbatim>\<open>.cpp\<close>) and \<^verbatim>\<open>LJFEasyScheduler\<close> (\<^verbatim>\<open>scheduler_ljf_easy.hpp\<close>, \<^verbatim>\<open>.cpp\<close>).  The three
  classes differ in the key and comparison of the multimap and in \<^verbatim>\<open>find_fcfs_head\<close>, and agree in every
  other line of \<^verbatim>\<open>update_eligible_jobs\<close> and \<^verbatim>\<open>schedule\<close>; those bodies are \<open>mm_update_eligible\<close> and
  \<open>mm_schedule\<close>, which take the head search as an argument.

  A \<^verbatim>\<open>std::multimap\<close> is the list of its pairs in iteration order; an insertion goes after the entries
  with an equivalent key.  An iterator is the position of its element in that list.
\<close>

section \<open>State\<close>

record mm_entry =
  mm_job_id :: job_no
  mm_submit_time :: sim_time
  mm_run_time :: tdiff
  mm_nodes :: num_nodes

record mm_queue = scheduler_base +
  mm_wait_queue :: "(double \<times> mm_entry) list"
  mm_eligible_jobs :: "job_no set"
  mm_current_tracked_time :: sim_time
  mm_backfill_queue_depth :: nat

definition new_mm_queue :: "num_nodes \<Rightarrow> backfill_policy \<Rightarrow> nat \<Rightarrow> mm_queue" where
  "new_mm_queue total_nodes bf depth = scheduler_base.extend (new_base total_nodes bf) (mm_queue.fields [] {} 0 depth)"

section \<open>Queue operations\<close>

definition multimap_insert :: "(double \<Rightarrow> double \<Rightarrow> bool) \<Rightarrow> double \<Rightarrow> 'e \<Rightarrow> (double \<times> 'e) list \<Rightarrow> (double \<times> 'e) list" where
  "multimap_insert before k x m =
     takeWhile (\<lambda>p. \<not> before k (fst p)) m @ (k, x) # dropWhile (\<lambda>p. \<not> before k (fst p)) m"

definition mm_entry_of :: "job_no \<Rightarrow> sim_time \<Rightarrow> tdiff \<Rightarrow> num_nodes \<Rightarrow> mm_entry" where
  "mm_entry_of i t r n = \<lparr>mm_job_id = i, mm_submit_time = t, mm_run_time = r, mm_nodes = n\<rparr>"

definition fcfs_mm_insert_job :: "'a mm_queue_scheme \<Rightarrow> job_no \<Rightarrow> sim_time \<Rightarrow> tdiff \<Rightarrow> num_nodes \<Rightarrow> 'a mm_queue_scheme" where
  "fcfs_mm_insert_job s i t r n =
     (let s = s\<lparr>mm_wait_queue := multimap_insert (<) t (mm_entry_of i t r n) (mm_wait_queue s)\<rparr> in
      if t \<le> mm_current_tracked_time s then s\<lparr>mm_eligible_jobs := insert i (mm_eligible_jobs s)\<rparr> else s)"

definition sjf_insert_job :: "'a mm_queue_scheme \<Rightarrow> job_no \<Rightarrow> sim_time \<Rightarrow> tdiff \<Rightarrow> num_nodes \<Rightarrow> 'a mm_queue_scheme" where
  "sjf_insert_job s i t r n =
     (let s = s\<lparr>mm_wait_queue := multimap_insert (<) r (mm_entry_of i t r n) (mm_wait_queue s)\<rparr> in
      if t \<le> mm_current_tracked_time s then s\<lparr>mm_eligible_jobs := insert i (mm_eligible_jobs s)\<rparr> else s)"

definition descending_run_time :: "tdiff \<Rightarrow> tdiff \<Rightarrow> bool" where
  "descending_run_time a b \<longleftrightarrow> a > b"

definition ljf_insert_job :: "'a mm_queue_scheme \<Rightarrow> job_no \<Rightarrow> sim_time \<Rightarrow> tdiff \<Rightarrow> num_nodes \<Rightarrow> 'a mm_queue_scheme" where
  "ljf_insert_job s i t r n =
     (let s = s\<lparr>mm_wait_queue := multimap_insert descending_run_time r (mm_entry_of i t r n) (mm_wait_queue s)\<rparr> in
      if t \<le> mm_current_tracked_time s then s\<lparr>mm_eligible_jobs := insert i (mm_eligible_jobs s)\<rparr> else s)"

definition mm_update_eligible :: "'a mm_queue_scheme \<Rightarrow> sim_time \<Rightarrow> 'a mm_queue_scheme" where
  "mm_update_eligible s now =
     (if now \<le> mm_current_tracked_time s then s
      else s\<lparr>mm_eligible_jobs := mm_eligible_jobs s \<union>
               set (map (\<lambda>p. mm_job_id (snd p)) (filter (\<lambda>p. mm_submit_time (snd p) \<le> now
                  \<and> mm_submit_time (snd p) > mm_current_tracked_time s) (mm_wait_queue s))),
             mm_current_tracked_time := now\<rparr>)"

definition mm_active_job_count :: "'a mm_queue_scheme \<Rightarrow> nat" where
  "mm_active_job_count s = card (mm_eligible_jobs s)"

definition mm_has_eligible_jobs :: "'a mm_queue_scheme \<Rightarrow> bool" where
  "mm_has_eligible_jobs s \<longleftrightarrow> mm_eligible_jobs s \<noteq> {}"

definition mm_next_arrival_time :: "'a mm_queue_scheme \<Rightarrow> sim_time" where
  "mm_next_arrival_time s =
     foldl (\<lambda>next p. if mm_submit_time (snd p) > mm_current_tracked_time s \<and> mm_submit_time (snd p) < next
                     then mm_submit_time (snd p) else next) dbl_max (mm_wait_queue s)"

definition mm_pending_job_ids :: "'a mm_queue_scheme \<Rightarrow> job_no list" where
  "mm_pending_job_ids s = map (\<lambda>p. mm_job_id (snd p)) (mm_wait_queue s)"

definition mm_waiting_resource_area :: "'a mm_queue_scheme \<Rightarrow> tdiff" where
  "mm_waiting_resource_area s =
     foldl (\<lambda>area p. if mm_job_id (snd p) \<in> mm_eligible_jobs s
                     then area + dbl (uint (mm_nodes (snd p))) * mm_run_time (snd p) else area) 0 (mm_wait_queue s)"

section \<open>The head search\<close>

text \<open>The FCFS class returns the first eligible entry of the queue; the other two scan for the smallest
  submission time, the first of several.  None is \<^verbatim>\<open>end()\<close>.\<close>

fun fcfs_mm_head :: "job_no set \<Rightarrow> nat \<Rightarrow> (double \<times> mm_entry) list \<Rightarrow> nat option" where
  "fcfs_mm_head el i [] = None"
| "fcfs_mm_head el i (p # ps) = (if mm_job_id (snd p) \<notin> el then fcfs_mm_head el (Suc i) ps else Some i)"

fun earliest_submit_head :: "job_no set \<Rightarrow> nat \<Rightarrow> sim_time \<Rightarrow> nat option \<Rightarrow> (double \<times> mm_entry) list \<Rightarrow> nat option" where
  "earliest_submit_head el i earliest it [] = it"
| "earliest_submit_head el i earliest it (p # ps) =
     (if mm_job_id (snd p) \<notin> el then earliest_submit_head el (Suc i) earliest it ps
      else if mm_submit_time (snd p) < earliest
      then earliest_submit_head el (Suc i) (mm_submit_time (snd p)) (Some i) ps
      else earliest_submit_head el (Suc i) earliest it ps)"

definition fcfs_mm_find_head :: "'a mm_queue_scheme \<Rightarrow> nat option" where
  "fcfs_mm_find_head s = fcfs_mm_head (mm_eligible_jobs s) 0 (mm_wait_queue s)"

definition sjf_find_fcfs_head :: "'a mm_queue_scheme \<Rightarrow> nat option" where
  "sjf_find_fcfs_head s = earliest_submit_head (mm_eligible_jobs s) 0 dbl_max None (mm_wait_queue s)"

definition ljf_find_fcfs_head :: "'a mm_queue_scheme \<Rightarrow> nat option" where
  "ljf_find_fcfs_head s = earliest_submit_head (mm_eligible_jobs s) 0 dbl_max None (mm_wait_queue s)"

section \<open>The scheduling pass\<close>

text \<open>The candidate loop from position \<open>i\<close>.  The result is the started entries, the entries left in the
  queue and the eligible identifiers left.\<close>

fun mm_scan ::
  "'a mm_queue_scheme \<Rightarrow> sim_time \<Rightarrow> nat \<Rightarrow> bool \<Rightarrow> bool \<Rightarrow> nat \<Rightarrow> num_nodes \<Rightarrow> segment list \<Rightarrow> nat \<Rightarrow> job_no set \<Rightarrow>
   (double \<times> mm_entry) list \<Rightarrow> mm_entry list \<times> (double \<times> mm_entry) list \<times> job_no set" where
  "mm_scan s now head has_projection planned i avail plan ex el [] = ([], [], el)"
| "mm_scan s now head has_projection planned i avail plan ex el (p # ps) =
     (if \<not> avail > 0 then ([], p # ps, el)
      else if i = head \<or> mm_job_id (snd p) \<notin> el then
        (let (st, ps', el') = mm_scan s now head has_projection planned (Suc i) avail plan ex el ps in (st, p # ps', el'))
      else if mm_backfill_queue_depth s \<noteq> 0 \<and> ex \<ge> mm_backfill_queue_depth s then ([], p # ps, el)
      else
        let ex' = (if mm_backfill_queue_depth s \<noteq> 0 then Suc ex else ex);
            e = snd p;
            dur = release_estimate s now (mm_run_time e)
        in if (m_backfill_policy s = EASY \<or> m_backfill_policy s = CONSERVATIVE) \<and> mm_nodes e \<le> avail
              \<and> has_projection \<and> (\<not> planned \<or> can_fit plan now (mm_nodes e) dur)
           then (let plan' = (if planned then reserve plan now (mm_nodes e) dur else plan);
                     (st, ps', el') = mm_scan s now head has_projection planned (Suc i) (avail - mm_nodes e) plan' ex'
                                        (el - {mm_job_id e}) ps
                 in (e # st, ps', el'))
           else (let (st, ps', el') = mm_scan s now head has_projection planned (Suc i) avail plan ex' el ps
                 in (st, p # ps', el')))"

definition remove_at :: "nat \<Rightarrow> 'e list \<Rightarrow> 'e list" where
  "remove_at i xs = take i xs @ drop (Suc i) xs"

definition mm_schedule ::
  "('a mm_queue_scheme \<Rightarrow> nat option) \<Rightarrow> 'a mm_queue_scheme \<Rightarrow> num_nodes \<Rightarrow> running_jobs \<Rightarrow> sim_time \<Rightarrow>
   job_no list \<times> 'a mm_queue_scheme" where
  "mm_schedule find_head s free running now =
     (let s = mm_update_eligible s now in
      if mm_wait_queue s = [] \<or> mm_eligible_jobs s = {} then ([], s)
      else case find_head s of None \<Rightarrow> ([], s)
      | Some h \<Rightarrow>
        let e = snd (mm_wait_queue s ! h) in
        if mm_nodes e \<le> free then
          ([mm_job_id e], s\<lparr>mm_eligible_jobs := mm_eligible_jobs s - {mm_job_id e},
                            mm_wait_queue := remove_at h (mm_wait_queue s)\<rparr>)
        else
          let plan = reservation_timeline s free running now [];
              res = value_or_max (earliest_fit plan (mm_nodes e) 0 now);
              s = s\<lparr>m_fcfs_reservation_time := res\<rparr>
          in if res \<le> now then ([], s)
          else
            let planned = reservation_within_horizon s res now;
                plan = (if planned then reserve plan res (mm_nodes e) (release_estimate s res (mm_run_time e)) else plan);
                (st, q, el) = mm_scan s now h (res \<noteq> dbl_max) planned 0 free plan (if planned then 1 else 0)
                                (mm_eligible_jobs s) (mm_wait_queue s)
            in (map mm_job_id st, s\<lparr>mm_wait_queue := q, mm_eligible_jobs := el\<rparr>))"

definition fcfs_mm_schedule ::
  "'a mm_queue_scheme \<Rightarrow> num_nodes \<Rightarrow> running_jobs \<Rightarrow> sim_time \<Rightarrow> job_no list \<times> 'a mm_queue_scheme" where
  "fcfs_mm_schedule s free running now = mm_schedule fcfs_mm_find_head s free running now"

definition sjf_schedule ::
  "'a mm_queue_scheme \<Rightarrow> num_nodes \<Rightarrow> running_jobs \<Rightarrow> sim_time \<Rightarrow> job_no list \<times> 'a mm_queue_scheme" where
  "sjf_schedule s free running now = mm_schedule sjf_find_fcfs_head s free running now"

definition ljf_schedule ::
  "'a mm_queue_scheme \<Rightarrow> num_nodes \<Rightarrow> running_jobs \<Rightarrow> sim_time \<Rightarrow> job_no list \<times> 'a mm_queue_scheme" where
  "ljf_schedule s free running now = mm_schedule ljf_find_fcfs_head s free running now"

lemmas mm_eval [eval_simps] = new_mm_queue_def multimap_insert_def mm_entry_of_def fcfs_mm_insert_job_def
  sjf_insert_job_def ljf_insert_job_def descending_run_time_def mm_update_eligible_def fcfs_mm_find_head_def
  sjf_find_fcfs_head_def ljf_find_fcfs_head_def remove_at_def mm_schedule_def fcfs_mm_schedule_def
  sjf_schedule_def ljf_schedule_def mm_queue.defs

end
