(* ===== verification/Ordered_Laws.thy ===== *)
theory Ordered_Laws
  imports Ordered
begin

text \<open>
  Correctness of the multimap schedulers of theory \<open>Ordered\<close>.  The locale states what the three classes
  share: a strict weak order on the keys, an insertion by that order, and a head search that returns an
  eligible entry.  The scheduler interface, the order of the queue and the EASY guarantee are proved in
  it once.
\<close>

section \<open>Abstraction\<close>

definition entry_of :: "mm_entry \<Rightarrow> job_entry" where
  "entry_of e = new_entry (mm_job_id e) (mm_submit_time e) (mm_run_time e) (mm_nodes e)"

lemma entry_of_simps [simp]:
  "job_id (entry_of e) = mm_job_id e" "submit_time (entry_of e) = mm_submit_time e"
  "run_time_estimate (entry_of e) = mm_run_time e" "nodes_requested (entry_of e) = mm_nodes e"
  by (simp_all add: entry_of_def new_entry_def)

abbreviation pair_id :: "double \<times> mm_entry \<Rightarrow> job_no" where
  "pair_id p \<equiv> mm_job_id (snd p)"

definition mm_jobs :: "'a mm_queue_scheme \<Rightarrow> job_entry list" where
  "mm_jobs s = map (\<lambda>p. entry_of (snd p)) (mm_wait_queue s)"

definition mm_waiting :: "'a mm_queue_scheme \<Rightarrow> job_entry list" where
  "mm_waiting s = map (\<lambda>p. entry_of (snd p)) (filter (\<lambda>p. pair_id p \<in> mm_eligible_jobs s) (mm_wait_queue s))"

definition mm_inv :: "(double \<Rightarrow> double \<Rightarrow> bool) \<Rightarrow> (mm_entry \<Rightarrow> double) \<Rightarrow> 'a mm_queue_scheme \<Rightarrow> bool" where
  "mm_inv before key s \<longleftrightarrow>
     (\<forall>p\<in>set (mm_wait_queue s). fst p = key (snd p)) \<and>
     sorted_wrt (\<lambda>p q. \<not> before (fst q) (fst p)) (mm_wait_queue s) \<and>
     distinct (map pair_id (mm_wait_queue s)) \<and>
     mm_eligible_jobs s = pair_id ` {p \<in> set (mm_wait_queue s). mm_submit_time (snd p) \<le> mm_current_tracked_time s}"

section \<open>The candidate scan\<close>

lemma mm_scan_law:
  "mm_scan s now h hp planned i avail plan ex el ps = (st, ps', el') \<Longrightarrow> distinct (map pair_id ps) \<Longrightarrow>
   mset (map snd ps) = mset st + mset (map snd ps') \<and> subseq ps' ps \<and> el' = el - mm_job_id ` set st \<and>
   mm_job_id ` set st \<subseteq> el \<and> nodes_sum (map entry_of st) \<le> unat avail"
proof (induction ps arbitrary: i avail plan ex el st ps' el')
  case (Cons p ps)
  let ?dur = "release_estimate s now (mm_run_time (snd p))"
  have dist: "distinct (map pair_id ps)" "pair_id p \<notin> pair_id ` set ps" using Cons.prems(2) by auto
  consider (stop) "st = []" "ps' = p # ps" "el' = el"
    | (keep) ex' ys where "mm_scan s now h hp planned (Suc i) avail plan ex' el ps = (st, ys, el')" "ps' = p # ys"
    | (go) st1 plan' ex' where "mm_nodes (snd p) \<le> avail" "pair_id p \<in> el" "st = snd p # st1"
      "mm_scan s now h hp planned (Suc i) (avail - mm_nodes (snd p)) plan' ex' (el - {pair_id p}) ps = (st1, ps', el')"
    using Cons.prems(1) by (simp add: Let_def split: if_splits prod.splits) blast+
  then show ?case
  proof cases
    case (keep ex' ys)
    from Cons.IH[OF keep(1) dist(1)] keep(2) show ?thesis by simp
  next
    case (go st1 plan' ex')
    from Cons.IH[OF go(4) dist(1)] have "mset (map snd ps) = mset st1 + mset (map snd ps')" "subseq ps' ps"
      "el' = el - {pair_id p} - mm_job_id ` set st1" "mm_job_id ` set st1 \<subseteq> el"
      "nodes_sum (map entry_of st1) \<le> unat (avail - mm_nodes (snd p))" by auto
    with go show ?thesis by (auto simp: unat_sub word_le_nat_alt)
  qed simp
qed simp

text \<open>The scan is the abstract candidate scan on the eligible entries other than the head, up to the
  queue depth.\<close>

fun mm_candidates :: "nat \<Rightarrow> nat \<Rightarrow> job_no set \<Rightarrow> (double \<times> mm_entry) list \<Rightarrow> job_entry list" where
  "mm_candidates h i el [] = []"
| "mm_candidates h i el (p # ps) =
     (if i = h \<or> pair_id p \<notin> el then mm_candidates h (Suc i) el ps else entry_of (snd p) # mm_candidates h (Suc i) el ps)"

lemma mm_candidates_cong:
  "(\<And>p. p \<in> set ps \<Longrightarrow> pair_id p \<in> el \<longleftrightarrow> pair_id p \<in> el') \<Longrightarrow> mm_candidates h i el ps = mm_candidates h i el' ps"
  by (induction ps arbitrary: i) auto

definition depth_take :: "nat \<Rightarrow> nat \<Rightarrow> 'e list \<Rightarrow> 'e list" where
  "depth_take depth ex xs = (if depth = 0 then xs else take (depth - ex) xs)"

lemma depth_take_simps [simp]:
  "depth_take depth ex [] = []"
  "depth \<noteq> 0 \<Longrightarrow> depth \<le> ex \<Longrightarrow> depth_take depth ex xs = []"
  "\<not> (depth \<noteq> 0 \<and> depth \<le> ex) \<Longrightarrow> depth_take depth ex (x # xs) = x # depth_take depth (if depth \<noteq> 0 then Suc ex else ex) xs"
  by (auto simp: depth_take_def take_Cons' Suc_diff_Suc)

lemma mm_scan_zero: "mm_scan s now h hp planned i 0 plan ex el ps = ([], ps, el)"
  by (cases ps) simp_all

lemma mm_scan_spec:
  assumes "m_backfill_policy s = EASY \<or> m_backfill_policy s = CONSERVATIVE"
  shows "avail > 0 \<Longrightarrow> distinct (map pair_id ps) \<Longrightarrow>
    map entry_of (fst (mm_scan s now h hp planned i avail plan ex el ps)) =
    fst (spec_backfill s now hp planned avail plan (depth_take (mm_backfill_queue_depth s) ex (mm_candidates h i el ps)))"
proof (induction ps arbitrary: i avail plan ex el)
  case (Cons p ps)
  let ?e = "entry_of (snd p)" and ?d = "mm_backfill_queue_depth s"
  let ?ex = "if ?d \<noteq> 0 then Suc ex else ex"
  have dist: "distinct (map pair_id ps)" "pair_id p \<notin> pair_id ` set ps" using Cons.prems(2) by auto
  show ?case
  proof (cases "i = h \<or> pair_id p \<notin> el")
    case True
    then show ?thesis using Cons.IH[OF Cons.prems(1) dist(1)] Cons.prems(1) by (auto simp: case_prod_beta)
  next
    case cand: False
    show ?thesis
    proof (cases "?d \<noteq> 0 \<and> ex \<ge> ?d")
      case True
      then show ?thesis using cand Cons.prems(1) by simp
    next
      case more: False
      have dt: "depth_take ?d ex (mm_candidates h i el (p # ps)) = ?e # depth_take ?d ?ex (mm_candidates h (Suc i) el ps)"
        using more cand by simp
      have el: "mm_candidates h (Suc i) (el - {pair_id p}) ps = mm_candidates h (Suc i) el ps"
        using dist(2) by (intro mm_candidates_cong) (metis Diff_iff image_eqI singletonD)
      have adm: "admits s now hp planned avail plan ?e \<longleftrightarrow> mm_nodes (snd p) \<le> avail \<and> hp \<and>
          (\<not> planned \<or> can_fit plan now (mm_nodes (snd p)) (release_estimate s now (mm_run_time (snd p))))"
        by (simp add: admits_def)
      show ?thesis
      proof (cases "admits s now hp planned avail plan ?e")
        case False
        then have "fst (mm_scan s now h hp planned i avail plan ex el (p # ps)) =
            fst (mm_scan s now h hp planned (Suc i) avail plan ?ex el ps)"
          using more cand Cons.prems(1) unfolding adm by (auto simp: Let_def case_prod_beta)
        with False Cons.IH[OF Cons.prems(1) dist(1), of "Suc i" plan ?ex el] show ?thesis
          unfolding dt by (simp add: case_prod_beta)
      next
        case True
        then have go: "fst (mm_scan s now h hp planned i avail plan ex el (p # ps)) = snd p #
            fst (mm_scan s now h hp planned (Suc i) (avail - mm_nodes (snd p)) (charge s now planned plan ?e) ?ex (el - {pair_id p}) ps)"
          using more cand Cons.prems(1) assms unfolding adm charge_def by (auto simp: Let_def case_prod_beta)
        show ?thesis
        proof (cases "avail - mm_nodes (snd p) = 0")
          case zero: True
          then show ?thesis unfolding go dt using True by (simp add: mm_scan_zero)
        next
          case False
          then have "avail - mm_nodes (snd p) > 0" by (metis eq_iff_diff_eq_0 word_greater_zero_iff)
          from Cons.IH[OF this dist(1), of "Suc i" "charge s now planned plan ?e" ?ex "el - {pair_id p}"]
          show ?thesis unfolding go dt el using True False by (simp add: case_prod_beta)
        qed
      qed
    qed
  qed
qed simp

section \<open>The invariant under the updates\<close>

lemma sorted_wrt_subseq: "subseq xs ys \<Longrightarrow> sorted_wrt P ys \<Longrightarrow> sorted_wrt P xs"
  by (induction rule: list_emb.induct) (auto dest: list_emb_set)

lemma subseq_set: "subseq xs ys \<Longrightarrow> set xs \<subseteq> set ys"
  by (induction rule: list_emb.induct) auto

lemma mm_inv_remove:
  assumes inv: "mm_inv before key s" and sub: "subseq q (mm_wait_queue s)"
    and m: "mset (map snd (mm_wait_queue s)) = mset st + mset (map snd q)"
  shows "mm_inv before key (s\<lparr>mm_wait_queue := q, mm_eligible_jobs := mm_eligible_jobs s - mm_job_id ` set st\<rparr>)"
proof -
  let ?Q = "mm_wait_queue s"
  have "mset (map pair_id ?Q) = mset (map mm_job_id st @ map pair_id q)"
    using arg_cong[OF m, of "image_mset mm_job_id"] by (simp add: image_mset.compositionality comp_def)
  then have d: "distinct (map mm_job_id st @ map pair_id q)"
    using inv mset_eq_imp_distinct_iff[of "map pair_id ?Q" "map mm_job_id st @ map pair_id q"] unfolding mm_inv_def by blast
  have qs: "set q \<subseteq> set ?Q" using sub by (rule subseq_set)
  have cover: "snd ` set ?Q = set st \<union> snd ` set q"
    using arg_cong[OF m, of set_mset] by simp
  have "mm_eligible_jobs s - mm_job_id ` set st =
      pair_id ` {p \<in> set q. mm_submit_time (snd p) \<le> mm_current_tracked_time s}" (is "?l = ?r")
  proof
    show "?l \<subseteq> ?r"
    proof
      fix i assume "i \<in> ?l"
      then obtain p where p: "p \<in> set ?Q" "mm_submit_time (snd p) \<le> mm_current_tracked_time s" "i = pair_id p"
        "pair_id p \<notin> mm_job_id ` set st" using inv by (auto simp: mm_inv_def)
      then have "snd p \<in> snd ` set q" using cover by (metis UnE image_eqI)
      then obtain p' where "p' \<in> set q" "snd p' = snd p" by auto
      then show "i \<in> ?r" using p by (intro image_eqI[of _ _ p']) auto
    qed
    have "pair_id p \<notin> mm_job_id ` set st" if "p \<in> set q" for p
      using d that unfolding distinct_append by (metis IntI empty_iff image_eqI list.set_map)
    then show "?r \<subseteq> ?l" using qs inv by (auto simp: mm_inv_def)
  qed
  then show ?thesis using inv sub qs d by (auto simp: mm_inv_def intro: sorted_wrt_subseq)
qed

lemma mm_inv_new [simp]: "mm_inv before key (new_mm_queue total_nodes bf depth)" "mm_jobs (new_mm_queue total_nodes bf depth) = []"
  by (simp_all add: mm_inv_def mm_jobs_def new_mm_queue_def mm_queue.defs scheduler_base.defs)

lemma mm_inv_sorted:
  assumes "mm_inv (<) key s"
  shows "sorted (map (\<lambda>p. key (snd p)) (mm_wait_queue s))"
proof -
  have eq: "map (\<lambda>p. key (snd p)) (mm_wait_queue s) = map fst (mm_wait_queue s)"
    using assms by (intro map_cong) (auto simp: mm_inv_def)
  have "sorted (map fst (mm_wait_queue s))" using assms by (simp add: mm_inv_def sorted_map not_less)
  then show ?thesis unfolding eq .
qed

lemma mm_update_law:
  assumes "mm_inv before key s"
  shows "mm_inv before key (mm_update_eligible s now)" "mm_wait_queue (mm_update_eligible s now) = mm_wait_queue s"
    "mm_current_tracked_time (mm_update_eligible s now) = max (mm_current_tracked_time s) now"
proof -
  have "mm_eligible_jobs s \<union> pair_id ` {p \<in> set (mm_wait_queue s). mm_submit_time (snd p) \<le> now \<and>
      mm_submit_time (snd p) > mm_current_tracked_time s} =
      pair_id ` {p \<in> set (mm_wait_queue s). mm_submit_time (snd p) \<le> now}" if "mm_current_tracked_time s < now"
  proof -
    have "{p \<in> set (mm_wait_queue s). mm_submit_time (snd p) \<le> now} =
        {p \<in> set (mm_wait_queue s). mm_submit_time (snd p) \<le> mm_current_tracked_time s} \<union>
        {p \<in> set (mm_wait_queue s). mm_submit_time (snd p) \<le> now \<and> mm_submit_time (snd p) > mm_current_tracked_time s}"
      using that by (auto simp: not_le)
    then show ?thesis using assms unfolding mm_inv_def by (simp only: image_Un)
  qed
  then show "mm_inv before key (mm_update_eligible s now)"
    using assms by (simp add: mm_inv_def mm_update_eligible_def set_filter)
qed (auto simp: mm_update_eligible_def max_def)

lemma multimap_insert_mset: "mset (multimap_insert before k x m) = add_mset (k, x) (mset m)"
  unfolding multimap_insert_def by (metis mset.simps(2) mset_append takeWhile_dropWhile_id union_mset_add_mset_right)

lemma mm_schedule_outcome:
  assumes sch: "mm_schedule find_head s free running now = (ids, s')" and u: "u = mm_update_eligible s now"
  obtains (none) "ids = []" "s' = u" | (blocked) res where "ids = []" "s' = u\<lparr>m_fcfs_reservation_time := res\<rparr>"
    | (one) h where "find_head u = Some h" "mm_nodes (snd (mm_wait_queue u ! h)) \<le> free"
        "ids = [pair_id (mm_wait_queue u ! h)]"
        "s' = u\<lparr>mm_wait_queue := remove_at h (mm_wait_queue u), mm_eligible_jobs := mm_eligible_jobs u - {pair_id (mm_wait_queue u ! h)}\<rparr>"
    | (scan) h res hp planned plan ex st q el where
        "mm_scan (u\<lparr>m_fcfs_reservation_time := res\<rparr>) now h hp planned 0 free plan ex (mm_eligible_jobs u) (mm_wait_queue u) = (st, q, el)"
        "ids = map mm_job_id st" "s' = u\<lparr>m_fcfs_reservation_time := res, mm_wait_queue := q, mm_eligible_jobs := el\<rparr>"
proof (cases "mm_wait_queue u = [] \<or> mm_eligible_jobs u = {} \<or> find_head u = None")
  case True
  then have "mm_schedule find_head s free running now = ([], u)"
    unfolding mm_schedule_def u[symmetric] Let_def by auto
  then show thesis using sch none by simp
next
  case False
  then obtain h where h: "find_head u = Some h" by auto
  let ?e = "snd (mm_wait_queue u ! h)"
  define plan where "plan = reservation_timeline u free running now []"
  define res where "res = value_or_max (earliest_fit plan (mm_nodes ?e) 0 now)"
  define v where "v = u\<lparr>m_fcfs_reservation_time := res\<rparr>"
  define plan' where "plan' = (if reservation_within_horizon v res now
     then reserve plan res (mm_nodes ?e) (release_estimate v res (mm_run_time ?e)) else plan)"
  have eq: "mm_schedule find_head s free running now =
     (if mm_nodes ?e \<le> free then ([mm_job_id ?e], u\<lparr>mm_eligible_jobs := mm_eligible_jobs u - {mm_job_id ?e},
                            mm_wait_queue := remove_at h (mm_wait_queue u)\<rparr>)
      else if res \<le> now then ([], v)
      else let (st, q, el) = mm_scan v now h (res \<noteq> dbl_max) (reservation_within_horizon v res now) 0 free plan'
             (if reservation_within_horizon v res now then 1 else 0) (mm_eligible_jobs v) (mm_wait_queue v)
           in (map mm_job_id st, v\<lparr>mm_wait_queue := q, mm_eligible_jobs := el\<rparr>))"
    using False h unfolding mm_schedule_def u[symmetric] Let_def plan_def res_def v_def plan'_def by simp
  obtain st q el where sc: "mm_scan v now h (res \<noteq> dbl_max) (reservation_within_horizon v res now) 0 free plan'
             (if reservation_within_horizon v res now then 1 else 0) (mm_eligible_jobs v) (mm_wait_queue v) = (st, q, el)"
    by (rule prod_cases3)
  consider "mm_nodes ?e \<le> free" | "\<not> mm_nodes ?e \<le> free" "res \<le> now" | "\<not> mm_nodes ?e \<le> free" "\<not> res \<le> now" by blast
  then show thesis
  proof cases
    case 1
    then show thesis using one[OF h] eq sch by auto
  next
    case 2
    then show thesis using blocked[of res] eq sch by (simp add: v_def)
  next
    case 3
    then have "ids = map mm_job_id st" "s' = v\<lparr>mm_wait_queue := q, mm_eligible_jobs := el\<rparr>" using eq sch sc by auto
    then show thesis using scan[where res = res and st = st and q = q and el = el] sc by (simp add: v_def)
  qed
qed

section \<open>The shared contract\<close>

locale multimap_scheduler =
  fixes before :: "double \<Rightarrow> double \<Rightarrow> bool" and key :: "mm_entry \<Rightarrow> double"
    and ins :: "'a mm_queue_scheme \<Rightarrow> job_no \<Rightarrow> sim_time \<Rightarrow> tdiff \<Rightarrow> num_nodes \<Rightarrow> 'a mm_queue_scheme"
    and find_head :: "'a mm_queue_scheme \<Rightarrow> nat option"
  assumes asym: "before a b \<Longrightarrow> \<not> before b a"
    and neg_trans: "before a b \<Longrightarrow> \<not> before c b \<Longrightarrow> before a c"
    and ins_eq: "ins s i t r n =
      (let s = s\<lparr>mm_wait_queue := multimap_insert before (key (mm_entry_of i t r n)) (mm_entry_of i t r n) (mm_wait_queue s)\<rparr> in
       if t \<le> mm_current_tracked_time s then s\<lparr>mm_eligible_jobs := insert i (mm_eligible_jobs s)\<rparr> else s)"
    and find_valid: "find_head s = Some h \<Longrightarrow> h < length (mm_wait_queue s) \<and> pair_id (mm_wait_queue s ! h) \<in> mm_eligible_jobs s"
begin

lemma insert_sorted:
  assumes "sorted_wrt (\<lambda>p q. \<not> before (fst q) (fst p)) m"
  shows "sorted_wrt (\<lambda>p q. \<not> before (fst q) (fst p)) (multimap_insert before k x m)"
proof -
  define L R where "L = takeWhile (\<lambda>p. \<not> before k (fst p)) m" and "R = dropWhile (\<lambda>p. \<not> before k (fst p)) m"
  have m: "m = L @ R" by (simp add: L_def R_def)
  have L: "\<forall>p\<in>set L. \<not> before k (fst p)" by (auto simp: L_def dest: set_takeWhileD)
  have R: "\<forall>p\<in>set R. before k (fst p)"
  proof (cases R)
    case (Cons r rs)
    then have "before k (fst r)" using hd_dropWhile_not[of "\<lambda>p. \<not> before k (fst p)" m] by (simp add: R_def)
    moreover have "\<forall>q\<in>set rs. \<not> before (fst q) (fst r)" using assms Cons m by (simp add: sorted_wrt_append)
    ultimately show ?thesis using Cons neg_trans[of k "fst r"] by simp
  qed simp
  have "sorted_wrt (\<lambda>p q. \<not> before (fst q) (fst p)) (L @ (k, x) # R)"
    using assms L R unfolding m sorted_wrt_append sorted_wrt.simps(2) fst_conv
    by (metis asym fst_conv set_ConsD)
  then show ?thesis by (simp add: multimap_insert_def L_def R_def)
qed

lemma ins_inv:
  assumes inv: "mm_inv before key s" and new: "i \<notin> set (map pair_id (mm_wait_queue s))"
  shows "mm_inv before key (ins s i t r n)"
proof -
  let ?e = "mm_entry_of i t r n"
  let ?m = "multimap_insert before (key ?e) ?e (mm_wait_queue s)"
  have set: "set ?m = insert (key ?e, ?e) (set (mm_wait_queue s))"
    using arg_cong[OF multimap_insert_mset[of before "key ?e" ?e "mm_wait_queue s"], of set_mset] by simp
  have "mset (map pair_id ?m) = mset (i # map pair_id (mm_wait_queue s))"
    by (simp add: multimap_insert_mset mm_entry_of_def)
  then have "distinct (map pair_id ?m)"
    using inv new mset_eq_imp_distinct_iff[of "map pair_id ?m" "i # map pair_id (mm_wait_queue s)"]
    unfolding mm_inv_def distinct.simps(2) by blast
  moreover have "sorted_wrt (\<lambda>p q. \<not> before (fst q) (fst p)) ?m"
    using inv insert_sorted[of "mm_wait_queue s"] unfolding mm_inv_def by blast
  moreover have "{p \<in> set ?m. mm_submit_time (snd p) \<le> mm_current_tracked_time s} =
      (if t \<le> mm_current_tracked_time s then insert (key ?e, ?e) else id)
        {p \<in> set (mm_wait_queue s). mm_submit_time (snd p) \<le> mm_current_tracked_time s}"
    unfolding set by (auto simp: mm_entry_of_def)
  then have "pair_id ` {p \<in> set ?m. mm_submit_time (snd p) \<le> mm_current_tracked_time s} =
      (if t \<le> mm_current_tracked_time s then insert i (mm_eligible_jobs s) else mm_eligible_jobs s)"
    using inv unfolding mm_inv_def by (simp add: mm_entry_of_def)
  ultimately show ?thesis using inv set by (simp add: ins_eq mm_inv_def Let_def)
qed

text \<open>What a call does: start nothing, start the head alone, or run the scan.\<close>

lemma schedule_cases:
  assumes inv: "mm_inv before key s" and sch: "mm_schedule find_head s free running now = (ids, s')"
  obtains (idle) "ids = []" "mm_wait_queue s' = mm_wait_queue s" "mm_inv before key s'"
      "mm_current_tracked_time s' = max (mm_current_tracked_time s) now"
    | (starts) st where "ids = map mm_job_id st" "mset (map snd (mm_wait_queue s)) = mset st + mset (map snd (mm_wait_queue s'))"
      "mm_inv before key s'" "nodes_sum (map entry_of st) \<le> unat free" "mm_job_id ` set st \<subseteq> mm_eligible_jobs (mm_update_eligible s now)"
      "mm_current_tracked_time s' = max (mm_current_tracked_time s) now"
proof -
  define u where "u = mm_update_eligible s now"
  note u = mm_update_law[OF inv, of now, folded u_def]
  have dist: "distinct (map pair_id (mm_wait_queue u))" using u(1) by (simp add: mm_inv_def)
  consider (none) "ids = []" "s' = u" | (blocked) res where "ids = []" "s' = u\<lparr>m_fcfs_reservation_time := res\<rparr>"
    | (one) h where "find_head u = Some h" "mm_nodes (snd (mm_wait_queue u ! h)) \<le> free"
        "ids = [pair_id (mm_wait_queue u ! h)]"
        "s' = u\<lparr>mm_wait_queue := remove_at h (mm_wait_queue u), mm_eligible_jobs := mm_eligible_jobs u - {pair_id (mm_wait_queue u ! h)}\<rparr>"
    | (scan) h res hp planned plan ex st q el where
        "mm_scan (u\<lparr>m_fcfs_reservation_time := res\<rparr>) now h hp planned 0 free plan ex (mm_eligible_jobs u) (mm_wait_queue u) = (st, q, el)"
        "ids = map mm_job_id st" "s' = u\<lparr>m_fcfs_reservation_time := res, mm_wait_queue := q, mm_eligible_jobs := el\<rparr>"
    by (rule mm_schedule_outcome[OF sch u_def])
  then show thesis
  proof cases
    case none
    then show thesis using u idle by simp
  next
    case blocked
    then show thesis using u by (intro idle) (simp_all add: mm_inv_def)
  next
    case (one h)
    let ?p = "mm_wait_queue u ! h"
    have h: "h < length (mm_wait_queue u)" "pair_id ?p \<in> mm_eligible_jobs u" using find_valid[OF one(1)] by auto
    have q: "mm_wait_queue u = take h (mm_wait_queue u) @ ?p # drop (Suc h) (mm_wait_queue u)"
      using h(1) by (rule id_take_nth_drop)
    have m: "mset (map snd (mm_wait_queue u)) = mset [snd ?p] + mset (map snd (remove_at h (mm_wait_queue u)))"
      using arg_cong[OF q, of "\<lambda>z. mset (map snd z)"] by (simp add: remove_at_def)
    have sub: "subseq (remove_at h (mm_wait_queue u)) (mm_wait_queue u)"
      unfolding remove_at_def by (subst (3) q) (simp add: list_emb_append_mono subseq_Cons')
    from mm_inv_remove[OF u(1) sub m] show thesis
      using one h u m by (intro starts[of "[snd ?p]"]) (simp_all add: u_def[symmetric] word_le_nat_alt)
  next
    case (scan h res hp planned plan ex st q el)
    note l = mm_scan_law[OF scan(1) dist]
    have "mm_inv before key (u\<lparr>mm_wait_queue := q, mm_eligible_jobs := mm_eligible_jobs u - mm_job_id ` set st\<rparr>)"
      using l by (intro mm_inv_remove[OF u(1)]) auto
    then have "mm_inv before key s'" using l scan(3) by (simp add: mm_inv_def)
    then show thesis using l scan u by (intro starts[of st]) (simp_all add: u_def[symmetric])
  qed
qed

lemma sch_lawful: "lawful (mm_inv before key) mm_jobs mm_current_tracked_time (mm_schedule find_head)"
  unfolding lawful_def
proof (intro allI impI)
  fix s free running now ids s'
  assume inv: "mm_inv before key s" and sch: "mm_schedule find_head s free running now = (ids, s')"
  show "mm_inv before key s' \<and> mm_current_tracked_time s' = max (mm_current_tracked_time s) now \<and>
      (\<exists>st. ids = map job_id st \<and> mset (mm_jobs s) = mset st + mset (mm_jobs s') \<and>
         nodes_sum st \<le> unat free \<and> (\<forall>j\<in>set st. submit_time j \<le> mm_current_tracked_time s'))"
  proof (cases rule: schedule_cases[OF inv sch])
    case 1
    then show ?thesis by (simp add: mm_jobs_def)
  next
    case (2 st)
    define u where "u = mm_update_eligible s now"
    note u = mm_update_law[OF inv, of now, folded u_def]
    have jobs: "mset (mm_jobs x) = image_mset entry_of (mset (map snd (mm_wait_queue x)))" for x :: "'a mm_queue_scheme"
      by (simp add: mm_jobs_def image_mset.compositionality comp_def)
    have "mm_submit_time e \<le> mm_current_tracked_time s'" if e: "e \<in> set st" for e
    proof -
      have "mm_job_id e \<in> mm_eligible_jobs u" using 2(5) e by (auto simp: u_def)
      then obtain p where p: "p \<in> set (mm_wait_queue s)" "pair_id p = mm_job_id e" "mm_submit_time (snd p) \<le> mm_current_tracked_time u"
        using u(1,2) by (auto simp: mm_inv_def)
      have "e \<in> snd ` set (mm_wait_queue s)" using arg_cong[OF 2(2), of set_mset] e by auto
      then obtain p' where p': "p' \<in> set (mm_wait_queue s)" "snd p' = e" by auto
      have "distinct (map pair_id (mm_wait_queue s))" using inv by (simp add: mm_inv_def)
      then have "p = p'" using p p' by (metis distinct_map inj_onD)
      then show ?thesis using p p' u(3) 2(6) by simp
    qed
    then have "\<forall>j\<in>set (map entry_of st). submit_time j \<le> mm_current_tracked_time s'" by auto
    moreover have "mset (mm_jobs s) = mset (map entry_of st) + mset (mm_jobs s')" unfolding jobs 2(2) by simp
    moreover have "ids = map job_id (map entry_of st)" using 2(1) by simp
    ultimately show ?thesis using 2(3,4,6) by blast
  qed
qed

lemma is_scheduler:
  "scheduler (\<lambda>s i t r n. Inr (ins s i t r n)) mm_update_eligible (mm_schedule find_head)
     (\<lambda>s i t. i \<notin> set (map pair_id (mm_wait_queue s))) mm_jobs (mm_inv before key) mm_current_tracked_time"
proof
  fix s i t r n s'
  assume inv: "mm_inv before key s" and new: "i \<notin> set (map pair_id (mm_wait_queue s))"
    and ins: "Inr (ins s i t r n) = (Inr s' :: exn + _)"
  have s': "s' = ins s i t r n" using ins by simp
  have "mm_wait_queue s' = multimap_insert before (key (mm_entry_of i t r n)) (mm_entry_of i t r n) (mm_wait_queue s)"
    "mm_current_tracked_time s' = mm_current_tracked_time s" by (simp_all add: s' ins_eq Let_def)
  then show "mm_inv before key s' \<and> mset (mm_jobs s') = add_mset (new_entry i t r n) (mset (mm_jobs s)) \<and>
      mm_current_tracked_time s' = mm_current_tracked_time s"
    using ins_inv[OF inv new] s' by (simp add: mm_jobs_def multimap_insert_mset entry_of_def mm_entry_of_def)
next
  fix s t
  assume "mm_inv before key s"
  then show "mm_inv before key (mm_update_eligible s t) \<and> mset (mm_jobs (mm_update_eligible s t)) = mset (mm_jobs s) \<and>
      mm_current_tracked_time (mm_update_eligible s t) = max (mm_current_tracked_time s) t"
    using mm_update_law[of before key s t] by (simp add: mm_jobs_def)
qed (use sch_lawful[unfolded lawful_def] in blast)

end

sublocale multimap_scheduler \<subseteq> scheduler "\<lambda>s i t r n. Inr (ins s i t r n)" mm_update_eligible "mm_schedule find_head"
    "\<lambda>s i t. i \<notin> set (map pair_id (mm_wait_queue s))" mm_jobs "mm_inv before key" mm_current_tracked_time
  by (rule is_scheduler)

section \<open>The three classes\<close>

lemma fcfs_head_valid:
  "fcfs_mm_head el i ps = Some h \<Longrightarrow> i \<le> h \<and> h - i < length ps \<and> pair_id (ps ! (h - i)) \<in> el \<and>
     filter (\<lambda>p. pair_id p \<in> el) (take (h - i) ps) = []"
  by (induction el i ps rule: fcfs_mm_head.induct)
     (auto simp: nth_Cons' take_Cons' split: if_splits)

lemma earliest_head_valid:
  "earliest_submit_head el i earliest it ps = Some h \<Longrightarrow>
   it = Some h \<or> (i \<le> h \<and> h - i < length ps \<and> pair_id (ps ! (h - i)) \<in> el)"
  by (induction el i earliest it ps rule: earliest_submit_head.induct)
     (fastforce simp: nth_Cons' split: if_splits)+

interpretation fm: multimap_scheduler "(<)" mm_submit_time fcfs_mm_insert_job fcfs_mm_find_head
  by unfold_locales (auto simp: fcfs_mm_insert_job_def fcfs_mm_find_head_def mm_entry_of_def dest: fcfs_head_valid)

interpretation sj: multimap_scheduler "(<)" mm_run_time sjf_insert_job sjf_find_fcfs_head
  by unfold_locales (auto simp: sjf_insert_job_def sjf_find_fcfs_head_def mm_entry_of_def dest: earliest_head_valid)

interpretation lj: multimap_scheduler descending_run_time mm_run_time ljf_insert_job ljf_find_fcfs_head
  by unfold_locales (auto simp: ljf_insert_job_def ljf_find_fcfs_head_def mm_entry_of_def descending_run_time_def
    dest: earliest_head_valid)

section \<open>The EASY guarantee\<close>

lemma mm_scan_none:
  "m_backfill_policy s \<noteq> EASY \<Longrightarrow> m_backfill_policy s \<noteq> CONSERVATIVE \<Longrightarrow>
   fst (mm_scan s now h hp planned i avail plan ex el ps) = []"
  by (induction ps arbitrary: i avail plan ex el) (auto simp: Let_def case_prod_beta)

text \<open>A call with a blocked head starts what the abstract candidate scan starts, behind the head's
  reservation, in the order of the multimap.\<close>

lemma mm_schedule_blocked:
  assumes u: "u = mm_update_eligible s now" and h: "find_head u = Some h" "h < length (mm_wait_queue u)"
      "pair_id (mm_wait_queue u ! h) \<in> mm_eligible_jobs u"
    and e: "e = entry_of (snd (mm_wait_queue u ! h))" and blocked: "\<not> nodes_requested e \<le> free" and free: "0 < free"
    and dist: "distinct (map pair_id (mm_wait_queue u))"
    and res: "res = calculate_fcfs_reservation s (nodes_requested e) free running now []" "now < res"
    and planned: "planned = reservation_within_horizon s res now"
    and plan: "plan = (if planned then reserve (head_plan s free running now []) res (nodes_requested e)
        (release_estimate s res (run_time_estimate e)) else head_plan s free running now [])"
    and pol: "m_backfill_policy s = EASY \<or> m_backfill_policy s = CONSERVATIVE"
  shows "fst (mm_schedule find_head s free running now) = map job_id (fst (spec_backfill s now (res \<noteq> dbl_max) planned free plan
      (depth_take (mm_backfill_queue_depth s) (if planned then 1 else 0) (mm_candidates h 0 (mm_eligible_jobs u) (mm_wait_queue u))))) \<and>
    m_fcfs_reservation_time (snd (mm_schedule find_head s free running now)) = res"
proof -
  define v where "v = u\<lparr>m_fcfs_reservation_time := res\<rparr>"
  have sp: "same_planning u s" "same_planning v s" "mm_backfill_queue_depth v = mm_backfill_queue_depth s"
    by (simp_all add: same_planning_def u v_def mm_update_eligible_def)
  note cong = planning_cong[OF sp(1)] planning_cong[OF sp(2)]
  have ne: "mm_wait_queue u \<noteq> []" "mm_eligible_jobs u \<noteq> {}" using h by auto
  have r: "value_or_max (earliest_fit (reservation_timeline s free running now []) (nodes_requested e) 0 now) = res"
    by (simp add: res(1) calculate_fcfs_reservation_def)
  obtain st q el where sc: "mm_scan v now h (res \<noteq> dbl_max) planned 0 free plan (if planned then 1 else 0)
      (mm_eligible_jobs u) (mm_wait_queue u) = (st, q, el)" by (rule prod_cases3)
  have eq: "mm_schedule find_head s free running now = (map mm_job_id st, v\<lparr>mm_wait_queue := q, mm_eligible_jobs := el\<rparr>)"
    using ne h blocked res(2) sc
    unfolding mm_schedule_def u[symmetric] Let_def plan planned e entry_of_simps head_plan_def list.map
    by (cases "reservation_within_horizon s res now")
       (simp_all add: cong r[unfolded e entry_of_simps] v_def[symmetric] not_le[symmetric], simp_all add: v_def)
  have "map entry_of st = fst (spec_backfill s now (res \<noteq> dbl_max) planned free plan
      (depth_take (mm_backfill_queue_depth s) (if planned then 1 else 0) (mm_candidates h 0 (mm_eligible_jobs u) (mm_wait_queue u))))"
    using mm_scan_spec[of v free "mm_wait_queue u" now h "res \<noteq> dbl_max" planned 0 plan "if planned then 1 else 0" "mm_eligible_jobs u"]
      pol free dist sc by (simp add: cong sp(3) spec_backfill_cong[OF sp(2)])
  from arg_cong[OF this, of "map job_id"] have "map mm_job_id st = map job_id (fst (spec_backfill s now (res \<noteq> dbl_max) planned free plan
      (depth_take (mm_backfill_queue_depth s) (if planned then 1 else 0) (mm_candidates h 0 (mm_eligible_jobs u) (mm_wait_queue u)))))"
    by (simp add: comp_def)
  then show ?thesis using eq by (simp add: v_def)
qed

lemma mm_head_not_delayed:
  assumes out: "outlook_ok s" "m_outlook_occupied s \<le> m_outlook_capacity s"
    and bound: "\<And>t. now \<le> t \<Longrightarrow> balance_at s free running now [] t < 2 ^ 32"
    and u: "u = mm_update_eligible s now" and h: "find_head u = Some h" "h < length (mm_wait_queue u)"
      "pair_id (mm_wait_queue u ! h) \<in> mm_eligible_jobs u"
    and e: "e = entry_of (snd (mm_wait_queue u ! h))" and blocked: "\<not> nodes_requested e \<le> free" and free: "0 < free"
    and dist: "distinct (map pair_id (mm_wait_queue u))"
    and sch: "mm_schedule find_head s free running now = (ids, s')"
    and res: "res = calculate_fcfs_reservation s (nodes_requested e) free running now []" "now < res"
    and planned: "reservation_within_horizon s res now" "res < res + release_estimate s res (run_time_estimate e)"
    and pos: "\<forall>j\<in>set (mm_jobs s). now < now + release_estimate s now (run_time_estimate j)"
    and pol: "m_backfill_policy s = EASY \<or> m_backfill_policy s = CONSERVATIVE"
  shows "\<exists>st. ids = map job_id st \<and> m_fcfs_reservation_time s' = res \<and>
    calculate_fcfs_reservation s (nodes_requested e) (free - sum_list (map nodes_requested st)) running now
      (map (projected s now) st) = res"
proof -
  define cs where "cs = depth_take (mm_backfill_queue_depth s) 1 (mm_candidates h 0 (mm_eligible_jobs u) (mm_wait_queue u))"
  define plan where "plan = reserve (head_plan s free running now []) res (nodes_requested e) (release_estimate s res (run_time_estimate e))"
  obtain st kept where sp: "spec_backfill s now (res \<noteq> dbl_max) True free plan cs = (st, kept)" by (rule prod.exhaust)
  have pl: "True = reservation_within_horizon s res now" "plan = (if True then reserve (head_plan s free running now []) res (nodes_requested e)
        (release_estimate s res (run_time_estimate e)) else head_plan s free running now [])"
    using planned(1) by (simp_all add: plan_def)
  have b: "fst (mm_schedule find_head s free running now) = map job_id (fst (spec_backfill s now (res \<noteq> dbl_max) True free plan
      (depth_take (mm_backfill_queue_depth s) (if True then 1 else 0) (mm_candidates h 0 (mm_eligible_jobs u) (mm_wait_queue u))))) \<and>
    m_fcfs_reservation_time (snd (mm_schedule find_head s free running now)) = res"
    by (rule mm_schedule_blocked[where find_head = find_head, OF u h e blocked free dist res pl pol])
  have ids: "ids = map job_id st" "m_fcfs_reservation_time s' = res"
    using b sp sch by (simp_all add: cs_def)
  have sub: "set (mm_candidates h i el ps) \<subseteq> (\<lambda>p. entry_of (snd p)) ` set ps" for i el ps
    by (induction ps arbitrary: i) auto
  have "set st \<subseteq> set cs" using arg_cong[OF spec_backfill_mset[OF sp], of set_mset] by auto
  also have "\<dots> \<subseteq> set (mm_candidates h 0 (mm_eligible_jobs u) (mm_wait_queue u))"
    by (auto simp: cs_def depth_take_def dest: in_set_takeD split: if_splits)
  also have "\<dots> \<subseteq> set (mm_jobs s)" using sub by (auto simp: mm_jobs_def u mm_update_eligible_def)
  finally have "\<forall>j\<in>set st. now < end_time (projected s now j)" using pos by (auto simp: end_time_projected)
  then have "calculate_fcfs_reservation s (nodes_requested e) (free - sum_list (map nodes_requested st)) running now
      (map (projected s now) ([] @ st)) = res"
    using bound res(1) planned sp
    by (intro backfill_keeps_reservation[OF out, where d = "release_estimate s res (run_time_estimate e)"])
       (auto simp: plan_def)
  then show ?thesis using ids by auto
qed

section \<open>The FCFS multimap and the EASY pass\<close>

text \<open>On the FCFS queue the head is the first waiting job and the candidates are the ones behind it, so
  a call with a blocked head is the abstract pass; a call with a head that fits starts it alone.\<close>

lemma mm_candidates_none: "h < i \<Longrightarrow> mm_candidates h i el ps = map (\<lambda>p. entry_of (snd p)) (filter (\<lambda>p. pair_id p \<in> el) ps)"
  by (induction ps arbitrary: i) auto

lemma fcfs_candidates:
  "fcfs_mm_head el i ps = Some h \<Longrightarrow>
   map (\<lambda>p. entry_of (snd p)) (filter (\<lambda>p. pair_id p \<in> el) ps) = entry_of (snd (ps ! (h - i))) # mm_candidates h i el ps"
proof (induction el i ps rule: fcfs_mm_head.induct)
  case (2 el i p ps)
  show ?case
  proof (cases "pair_id p \<in> el")
    case True
    then have "h = i" using 2(2) by simp
    then show ?thesis using True by (simp add: mm_candidates_none)
  next
    case False
    then have "fcfs_mm_head el (Suc i) ps = Some h" using 2(2) by simp
    with 2(1)[OF False] False fcfs_head_valid[OF this] show ?thesis by (auto simp: nth_Cons')
  qed
qed simp

lemma depth_candidates: "depth_take depth (if planned then 1 else 0) js = fst (candidates depth planned js)"
  by (simp add: depth_take_def candidates_def Let_def)

lemma easy_pass_heads:
  assumes "er = easy_pass s depth free running now js"
  shows "er_heads er = fst (spec_heads free js)"
  by (cases rule: easy_pass_cases[where s = s and depth = depth and free = free and running = running and now = now and waiting = js])
     (simp_all add: assms)

lemma easy_pass_blocked:
  assumes er: "er = easy_pass s depth free running now (j # js)" and blocked: "\<not> nodes_requested j \<le> free"
    and pol: "m_backfill_policy s \<noteq> NONE" and free: "0 < free"
    and res: "res = calculate_fcfs_reservation s (nodes_requested j) free running now []"
    and planned: "planned = reservation_within_horizon s res now"
    and plan: "plan = (if planned then reserve (head_plan s free running now []) res (nodes_requested j)
        (release_estimate s res (run_time_estimate j)) else head_plan s free running now [])"
    and sp: "spec_backfill s now (res \<noteq> dbl_max) planned free plan (fst (candidates depth planned js)) = (st, kept)"
  shows "er_heads er = [] \<and> er_backfilled er = st \<and> er_reservation er = res"
proof -
  have r: "value_or_max (earliest_fit (head_plan s free running now []) (nodes_requested j) 0 now) = res"
    by (simp add: res calculate_fcfs_reservation_def head_plan_def)
  obtain cs unseen where cs: "candidates depth planned js = (cs, unseen)" by (rule prod.exhaust)
  have "free \<noteq> 0" using free by auto
  then show ?thesis using blocked pol sp cs
    by (cases planned) (simp_all add: er easy_pass_def Let_def r planned[symmetric] plan)
qed

lemma fcfs_mm_refines:
  assumes inv: "mm_inv (<) mm_submit_time s"
    and u: "u = mm_update_eligible s now" and w: "mm_waiting u = j # js"
    and er: "er = easy_pass s (mm_backfill_queue_depth s) free running now (mm_waiting u)"
    and pol: "m_backfill_policy s = EASY" and free: "0 < free"
    and fut: "nodes_requested j \<le> free \<or> now < calculate_fcfs_reservation s (nodes_requested j) free running now []"
  shows "fst (fcfs_mm_schedule s free running now) =
      (if nodes_requested j \<le> free then [job_id (hd (er_heads er))] else map job_id (er_heads er @ er_backfilled er)) \<and>
    (\<not> nodes_requested j \<le> free \<longrightarrow> m_fcfs_reservation_time (snd (fcfs_mm_schedule s free running now)) = er_reservation er)"
proof -
  note ul = mm_update_law[OF inv, of now, folded u]
  have dist: "distinct (map pair_id (mm_wait_queue u))" using ul(1) by (simp add: mm_inv_def)
  have ne: "filter (\<lambda>p. pair_id p \<in> mm_eligible_jobs u) (mm_wait_queue u) \<noteq> []" using w by (auto simp: mm_waiting_def)
  have "fcfs_mm_head el i ps \<noteq> None" if "filter (\<lambda>p. pair_id p \<in> el) ps \<noteq> []" for el i ps
    using that by (induction el i ps rule: fcfs_mm_head.induct) auto
  then obtain h where h: "fcfs_mm_head (mm_eligible_jobs u) 0 (mm_wait_queue u) = Some h" using ne by blast
  note hv = fcfs_head_valid[OF h, simplified]
  have c: "mm_waiting u = entry_of (snd (mm_wait_queue u ! h)) # mm_candidates h 0 (mm_eligible_jobs u) (mm_wait_queue u)"
    using fcfs_candidates[OF h] by (simp add: mm_waiting_def)
  then have j: "j = entry_of (snd (mm_wait_queue u ! h))" "js = mm_candidates h 0 (mm_eligible_jobs u) (mm_wait_queue u)"
    using w by simp_all
  have fh: "fcfs_mm_find_head u = Some h" using h by (simp add: fcfs_mm_find_head_def)
  show ?thesis
  proof (cases "nodes_requested j \<le> free")
    case True
    have ne2: "mm_wait_queue u \<noteq> []" "mm_eligible_jobs u \<noteq> {}" using hv by auto
    have "fst (fcfs_mm_schedule s free running now) = [job_id j]"
      using True ne2 fh j by (simp add: fcfs_mm_schedule_def mm_schedule_def u[symmetric] Let_def)
    moreover have "hd (er_heads er) = j"
      using True w easy_pass_heads[OF er] by (simp add: case_prod_beta)
    ultimately show ?thesis using True by simp
  next
    case False
    define res where "res = calculate_fcfs_reservation s (nodes_requested j) free running now []"
    define planned where "planned = reservation_within_horizon s res now"
    define plan where "plan = (if planned then reserve (head_plan s free running now []) res (nodes_requested j)
        (release_estimate s res (run_time_estimate j)) else head_plan s free running now [])"
    have now: "now < res" using fut False by (simp add: res_def)
    have pol': "m_backfill_policy s = EASY \<or> m_backfill_policy s = CONSERVATIVE" using pol by simp
    obtain st kept where sp: "spec_backfill s now (res \<noteq> dbl_max) planned free plan (fst (candidates (mm_backfill_queue_depth s) planned js)) = (st, kept)"
      by (rule prod.exhaust)
    have b: "fst (fcfs_mm_schedule s free running now) = map job_id st"
      "m_fcfs_reservation_time (snd (fcfs_mm_schedule s free running now)) = res"
      using mm_schedule_blocked[where find_head = fcfs_mm_find_head, OF u fh _ _ j(1) False free dist res_def now planned_def plan_def pol'] hv sp
      by (simp_all add: fcfs_mm_schedule_def depth_candidates j(2)[symmetric])
    have "er_heads er = [] \<and> er_backfilled er = st \<and> er_reservation er = res"
      using easy_pass_blocked[OF er[unfolded w] False _ free res_def planned_def plan_def sp] pol by simp
    then show ?thesis using False b by simp
  qed
qed

end
