(* ===== verification/Simulation_Schedulers.thy ===== *)
theory Simulation_Schedulers
  imports Simulation_Advance Hybrid_Refine Ordered_Laws
begin

text \<open>
  The virtual tables of the scheduler classes the event-driven simulation uses, and their contract
  \<open>sim_scheduler\<close>: the deque, the hybrid deque and the three ordered multimaps.
\<close>

section \<open>The deque classes\<close>

definition deque_ops :: "'a fcfs_queue_scheme scheduler_ops" where
  "deque_ops = \<lparr>so_insert_job = deque_insert, so_schedule = deque_schedule, so_schedule_event = deque_schedule,
     so_sync_to = deque_sync_to, so_active_job_count = deque_active_job_count,
     so_get_next_arrival_time = deque_next_arrival_time, so_has_eligible_jobs = deque_has_eligible_jobs,
     so_can_ever_run = (\<lambda>_ _. True), so_set_capacity_outlook = set_capacity_outlook\<rparr>"

definition hybrid_has_eligible_jobs :: "'a hybrid_queue_scheme \<Rightarrow> bool" where
  "hybrid_has_eligible_jobs s \<longleftrightarrow> hybrid_active_job_count s > 0"

definition hybrid_ops :: "'a hybrid_queue_scheme scheduler_ops" where
  "hybrid_ops = \<lparr>so_insert_job = hybrid_insert, so_schedule = hybrid_schedule, so_schedule_event = hybrid_schedule,
     so_sync_to = hybrid_sync_to, so_active_job_count = hybrid_active_job_count,
     so_get_next_arrival_time = hybrid_next_arrival_time, so_has_eligible_jobs = hybrid_has_eligible_jobs,
     so_can_ever_run = (\<lambda>_ _. True), so_set_capacity_outlook = set_capacity_outlook\<rparr>"

lemma fq_outlook:
  assumes "fq_inv s"
  shows "fq_inv (set_capacity_outlook c u ch s) \<and> pending (set_capacity_outlook c u ch s) = pending s \<and>
    m_current_tracked_time (set_capacity_outlook c u ch s) = m_current_tracked_time s"
  using assms by (simp add: set_capacity_outlook_def fq_inv_def pending_def waiting_def future_def)

lemma fq_future_late: "fq_inv s \<Longrightarrow> j \<in> set (future s) \<Longrightarrow> m_current_tracked_time s < submit_time j"
  by (auto simp: fq_inv_def future_def)

lemma fq_arrived: "fq_inv s \<Longrightarrow> arrived_jobs (m_current_tracked_time s) (pending s) = waiting s"
  using fq_future_late[of s] waiting_arrived[of s]
  by (force simp: arrived_jobs_def pending_def filter_id_conv filter_empty_conv)

lemma fq_arrival:
  assumes inv: "fq_inv s"
  shows "(\<forall>j\<in>set (pending s). submit_time j \<le> m_current_tracked_time s \<or> deque_next_arrival_time s \<le> submit_time j) \<and>
    (deque_next_arrival_time s = dbl_max \<or>
     (\<exists>j\<in>set (pending s). m_current_tracked_time s < submit_time j \<and> submit_time j = deque_next_arrival_time s))"
proof (cases "future s")
  case Nil
  then show ?thesis using waiting_arrived[OF inv] by (simp add: next_arrival_future[OF inv] pending_def)
next
  case (Cons j js)
  have "sorted (map submit_time (future s))"
    using inv by (simp add: fq_inv_def future_def sorted_wrt_drop flip: drop_map)
  then have "\<forall>k\<in>set (future s). submit_time j \<le> submit_time k" using Cons by simp
  moreover have "m_current_tracked_time s < submit_time j" using fq_future_late[OF inv] Cons by simp
  ultimately show ?thesis
    using waiting_arrived[OF inv] Cons by (auto simp: next_arrival_future[OF inv] pending_def)
qed

lemma fq_accept:
  assumes "fq_inv s" "m_current_tracked_time s \<le> t" "\<forall>j\<in>set (pending s). submit_time j \<le> t"
  shows "in_order s t"
proof -
  have "submit_time j \<le> t" if "j \<in> set (take (m_eligible_end_idx s) (m_wait_queue s) @ drop (m_eligible_end_idx s) (m_wait_queue s))" for j
  proof (cases "j \<in> set (take (m_eligible_end_idx s) (m_wait_queue s))")
    case True
    then have "submit_time j \<le> m_current_tracked_time s" using assms(1) by (simp add: fq_inv_def)
    then show ?thesis using assms(2) by simp
  next
    case False
    then have "j \<in> set (future s)" using that unfolding future_def set_append by blast
    then show ?thesis using assms(3) by (simp add: pending_def)
  qed
  then show ?thesis unfolding in_order_def append_take_drop_id by blast
qed

text \<open>The front of the queue starts when it fits.\<close>

lemma spec_heads_nothing: "spec_heads a w = ([], b, r) \<Longrightarrow> \<forall>j\<in>set w. nodes_requested j \<le> a \<Longrightarrow> w = []"
  by (cases w) (auto split: prod.splits)

lemma fq_progress:
  assumes inv: "fq_inv s" and c: "m_current_tracked_time s \<le> now" and n: "\<forall>j\<in>set (pending s). nodes_requested j \<le> free"
    and w: "spec_heads free (waiting (deque_sync_to s now)) = ([], b, r)"
  shows "arrived_jobs now (pending s) = []"
proof -
  let ?s = "deque_sync_to s now"
  have p: "pending ?s = pending s" by (rule sync_pending[OF inv])
  have "waiting ?s = []" by (rule spec_heads_nothing[OF w]) (use n in \<open>simp flip: p, simp add: pending_def\<close>)
  moreover have "fq_inv ?s" "m_current_tracked_time ?s = now" using sync_to_refines[OF inv] c by (auto simp: deque_clock max_def)
  ultimately show ?thesis using fq_arrived[of ?s] p by simp
qed

lemma deque_progress:
  assumes inv: "fq_inv s" and sch: "deque_schedule s free running now = ([], s')" and c: "m_current_tracked_time s \<le> now"
    and n: "\<forall>j\<in>set (pending s). nodes_requested j \<le> free \<and> submit_time j < dbl_max"
  shows "arrived_jobs now (pending s) = []"
proof -
  define er where "er = easy_pass s (m_backfill_queue_depth s) free running now (waiting (deque_sync_to s now))"
  have "er_heads er = []" using deque_schedule_refines[OF inv er_def] sch by simp
  moreover obtain hs b r where sh: "spec_heads free (waiting (deque_sync_to s now)) = (hs, b, r)" by (metis prod_cases3)
  moreover have "er_heads er = hs" by (auto simp: er_def easy_pass_def sh Let_def split: list.split prod.split)
  ultimately show ?thesis using fq_progress[OF inv c] n by auto
qed

lemma hybrid_pass_heads:
  assumes "hybrid_pass f g pnew u c free running now = ([], s')"
    "start_heads (m_eligible_end_idx c) (m_removed_count c) free (m_wait_queue c) = (hs, a, e, r, q)"
  shows "hs = []"
  using assms by (auto simp: hybrid_pass_def Let_def split: if_splits prod.splits)

lemma hybrid_progress:
  assumes inv: "fq_inv s" and sch: "hybrid_schedule s free running now = ([], s')" and c: "m_current_tracked_time s \<le> now"
    and n: "\<forall>j\<in>set (pending s). nodes_requested j \<le> free \<and> submit_time j < dbl_max"
  shows "arrived_jobs now (pending s) = []"
proof -
  define k where "k = deque_compact (deque_sync_to s now)"
  have sync: "fq_inv (deque_sync_to s now)" using sync_to_refines[OF inv] by blast
  have k: "fq_inv k" "waiting k = waiting (deque_sync_to s now)" using compact_refines[OF sync] by (simp_all add: k_def)
  obtain hs a e r q where sh: "start_heads (m_eligible_end_idx k) (m_removed_count k) free (m_wait_queue k) = (hs, a, e, r, q)"
    by (metis prod_cases5)
  have sp: "spec_heads free (waiting k) = (hs, a, live (take e q))" using start_heads_inv[OF k(1) sh] by blast
  have "hs = []"
  proof (cases "m_eligible_end_idx k = 0")
    case True
    then have "waiting k = []" by (simp add: waiting_def)
    then show ?thesis using sp by simp
  next
    case False
    then show ?thesis using hybrid_pass_heads[OF _ sh] sch by (simp add: hybrid_schedule_eq k_def[symmetric] Let_def)
  qed
  then show ?thesis using fq_progress[OF inv c, of free] n sp k(2) by simp
qed

interpretation dqs: sim_scheduler deque_ops "\<lambda>s i t. in_order s t" pending fq_inv m_current_tracked_time
proof (unfold_locales, goal_cases)
  case (1 s i t r n s')
  then show ?case using dq.ins_law by (simp add: deque_ops_def)
next
  case (2 s t)
  then show ?case using dq.syn_law by (simp add: deque_ops_def)
next
  case (3 s free running now ids s')
  then show ?case using dq.sch_law by (simp add: deque_ops_def)
next
  case (4 s c u ch)
  then show ?case using fq_outlook by (simp add: deque_ops_def)
next
  case (5 s)
  then show ?case by (simp add: deque_ops_def active_job_count_waiting fq_arrived)
next
  case (6 s)
  then show ?case using fq_arrival by (simp add: deque_ops_def)
next
  case (7 s)
  then show ?case by (simp add: deque_ops_def deque_has_eligible_jobs_def)
next
  case (8 s free running now s')
  then show ?case using deque_progress[of s free running now s'] by (simp add: deque_ops_def)
next
  case (9 s t i r n)
  then show ?case using fq_accept[of s t] by (simp add: deque_ops_def deque_insert_def)
next
  case (10 s n)
  then show ?case by (simp add: deque_ops_def)
qed

lemma hybrid_queries:
  "hybrid_active_job_count s = deque_active_job_count s" "hybrid_next_arrival_time s = deque_next_arrival_time s"
  by (simp_all add: hybrid_active_job_count_def deque_active_job_count_def hybrid_next_arrival_time_def deque_next_arrival_time_def)

interpretation hds: sim_scheduler hybrid_ops "\<lambda>s i t. in_order s t" pending fq_inv m_current_tracked_time
proof (unfold_locales, goal_cases)
  case (1 s i t r n s')
  then show ?case using hd.ins_law by (simp add: hybrid_ops_def)
next
  case (2 s t)
  then show ?case using hd.syn_law by (simp add: hybrid_ops_def)
next
  case (3 s free running now ids s')
  then show ?case using hd.sch_law by (simp add: hybrid_ops_def)
next
  case (4 s c u ch)
  then show ?case using fq_outlook by (simp add: hybrid_ops_def)
next
  case (5 s)
  then show ?case by (simp add: hybrid_ops_def hybrid_queries active_job_count_waiting fq_arrived)
next
  case (6 s)
  then show ?case using fq_arrival by (simp add: hybrid_ops_def hybrid_queries)
next
  case (7 s)
  then show ?case by (simp add: hybrid_ops_def hybrid_has_eligible_jobs_def)
next
  case (8 s free running now s')
  then show ?case using hybrid_progress[of s free running now s'] by (simp add: hybrid_ops_def)
next
  case (9 s t i r n)
  then show ?case using fq_accept[of s t] by (simp add: hybrid_ops_def hybrid_insert_def)
next
  case (10 s n)
  then show ?case by (simp add: hybrid_ops_def)
qed

section \<open>The ordered multimaps\<close>

definition mm_ops ::
  "('a mm_queue_scheme \<Rightarrow> job_no \<Rightarrow> sim_time \<Rightarrow> tdiff \<Rightarrow> num_nodes \<Rightarrow> 'a mm_queue_scheme) \<Rightarrow> ('a mm_queue_scheme \<Rightarrow> nat option) \<Rightarrow>
   'a mm_queue_scheme scheduler_ops" where
  "mm_ops ins find_head = \<lparr>so_insert_job = (\<lambda>s i t r n. Inr (ins s i t r n)), so_schedule = mm_schedule find_head,
     so_schedule_event = mm_schedule find_head, so_sync_to = mm_update_eligible, so_active_job_count = mm_active_job_count,
     so_get_next_arrival_time = mm_next_arrival_time, so_has_eligible_jobs = mm_has_eligible_jobs,
     so_can_ever_run = (\<lambda>_ _. True), so_set_capacity_outlook = set_capacity_outlook\<rparr>"

lemma mm_outlook:
  assumes "mm_inv before key s"
  shows "mm_inv before key (set_capacity_outlook c u ch s) \<and> mm_jobs (set_capacity_outlook c u ch s) = mm_jobs s \<and>
    mm_current_tracked_time (set_capacity_outlook c u ch s) = mm_current_tracked_time s"
  using assms by (simp add: set_capacity_outlook_def mm_inv_def mm_jobs_def)

text \<open>The eligible set is the set of the arrived entries.\<close>

lemma mm_arrived:
  assumes "mm_inv before key s"
  shows "mm_active_job_count s = length (arrived_jobs (mm_current_tracked_time s) (mm_jobs s))"
proof -
  let ?A = "filter (\<lambda>p. mm_submit_time (snd p) \<le> mm_current_tracked_time s) (mm_wait_queue s)"
  have "distinct (map pair_id ?A)" using assms by (simp add: mm_inv_def distinct_map_filter)
  moreover have "mm_eligible_jobs s = set (map pair_id ?A)" using assms by (auto simp: mm_inv_def)
  ultimately have "mm_active_job_count s = length ?A" by (metis mm_active_job_count_def distinct_card length_map)
  also have "\<dots> = length (arrived_jobs (mm_current_tracked_time s) (mm_jobs s))"
    by (simp add: arrived_jobs_def mm_jobs_def filter_map comp_def)
  finally show ?thesis .
qed

lemma foldl_next_law:
  fixes f :: "'p \<Rightarrow> double" and c :: double
  defines "g \<equiv> \<lambda>next p. if f p > c \<and> f p < next then f p else next"
  shows "foldl g m ps \<le> m \<and> (\<forall>p\<in>set ps. f p \<le> c \<or> foldl g m ps \<le> f p) \<and>
    (foldl g m ps = m \<or> (\<exists>p\<in>set ps. c < f p \<and> f p = foldl g m ps))"
proof (induction ps arbitrary: m)
  case (Cons p ps)
  have "g m p \<le> m" "f p \<le> c \<or> g m p \<le> f p" "g m p = m \<or> c < f p \<and> f p = g m p" by (auto simp: g_def)
  then show ?case using Cons[of "g m p"] by auto
qed simp

lemma mm_arrival:
  "(\<forall>j\<in>set (mm_jobs s). submit_time j \<le> mm_current_tracked_time s \<or> mm_next_arrival_time s \<le> submit_time j) \<and>
   (mm_next_arrival_time s = dbl_max \<or>
    (\<exists>j\<in>set (mm_jobs s). mm_current_tracked_time s < submit_time j \<and> submit_time j = mm_next_arrival_time s))"
  using foldl_next_law[where f = "\<lambda>p. mm_submit_time (snd p)" and c = "mm_current_tracked_time s" and m = dbl_max and ps = "mm_wait_queue s"]
  by (auto simp: mm_next_arrival_time_def mm_jobs_def)

text \<open>A class whose head search finds an eligible entry when there is one.\<close>

locale multimap_simulation = multimap_scheduler before key ins find_head
  for before key ins and find_head :: "'a mm_queue_scheme \<Rightarrow> nat option" +
  assumes find_total: "mm_eligible_jobs s \<inter> set (map pair_id (mm_wait_queue s)) \<noteq> {} \<Longrightarrow>
    \<forall>p\<in>set (mm_wait_queue s). mm_submit_time (snd p) < dbl_max \<Longrightarrow> find_head s \<noteq> None"
begin

lemma mm_progress:
  assumes inv: "mm_inv before key s" and sch: "mm_schedule find_head s free running now = ([], s')"
    and c: "mm_current_tracked_time s \<le> now" and n: "\<forall>j\<in>set (mm_jobs s). nodes_requested j \<le> free \<and> submit_time j < dbl_max"
  shows "arrived_jobs now (mm_jobs s) = []"
proof (rule ccontr)
  assume a: "arrived_jobs now (mm_jobs s) \<noteq> []"
  define u where "u = mm_update_eligible s now"
  note u = mm_update_law[OF inv, of now, folded u_def]
  have "length (arrived_jobs (mm_current_tracked_time u) (mm_jobs u)) \<noteq> 0"
    using a u c by (simp add: mm_jobs_def max_def)
  then have el: "mm_eligible_jobs u \<noteq> {}" using mm_arrived[OF u(1)] by (auto simp: mm_active_job_count_def)
  have "mm_eligible_jobs u \<subseteq> set (map pair_id (mm_wait_queue u))" using u(1) by (auto simp: mm_inv_def)
  then have "find_head u \<noteq> None" using el n u(2) by (intro find_total) (auto simp: mm_jobs_def)
  then obtain h where h: "find_head u = Some h" by blast
  have hv: "h < length (mm_wait_queue u)" using find_valid[OF h] by blast
  have "mm_nodes (snd (mm_wait_queue u ! h)) \<le> free" using n hv by (simp add: mm_jobs_def u(2))
  moreover have "mm_wait_queue u \<noteq> []" using hv by auto
  ultimately have "fst (mm_schedule find_head s free running now) \<noteq> []"
    using el h by (simp add: mm_schedule_def u_def[symmetric] Let_def)
  then show False using sch by simp
qed

end

sublocale multimap_simulation \<subseteq> simulated: sim_scheduler "mm_ops ins find_head" "\<lambda>s i t. i \<notin> set (map pair_id (mm_wait_queue s))"
    mm_jobs "mm_inv before key" mm_current_tracked_time
proof (unfold_locales, goal_cases)
  case (1 s i t r n s')
  then show ?case using ins_law[of s i t r n s'] by (simp add: mm_ops_def)
next
  case (2 s t)
  then show ?case using syn_law[of s t] by (simp add: mm_ops_def)
next
  case (3 s free running now ids s')
  then have "mm_inv before key s" "mm_schedule find_head s free running now = (ids, s')" by (simp_all add: mm_ops_def)
  then show ?case by (rule sch_law)
next
  case (4 s c u ch)
  then show ?case using mm_outlook[of before key s] by (simp add: mm_ops_def)
next
  case (5 s)
  then show ?case using mm_arrived[of before key s] by (simp add: mm_ops_def)
next
  case (6 s)
  then show ?case using mm_arrival[of s] by (simp add: mm_ops_def)
next
  case (7 s)
  then have "finite (mm_eligible_jobs s)" by (simp add: mm_inv_def)
  then show ?case by (simp add: mm_ops_def mm_has_eligible_jobs_def mm_active_job_count_def card_gt_0_iff)
next
  case (8 s free running now s')
  then show ?case using mm_progress[of s free running now s'] by (simp add: mm_ops_def)
next
  case (9 s t i r n)
  then have "\<forall>p\<in>set (mm_wait_queue s). pair_id p \<noteq> i" by (simp add: mm_jobs_def entry_of_def new_entry_def)
  then show ?case by (auto simp: mm_ops_def)
next
  case (10 s n)
  then show ?case by (simp add: mm_ops_def)
qed

lemma fcfs_head_total: "el \<inter> set (map pair_id ps) \<noteq> {} \<Longrightarrow> fcfs_mm_head el i ps \<noteq> None"
  by (induction el i ps rule: fcfs_mm_head.induct) auto

lemma earliest_head_total:
  "it \<noteq> None \<or> (earliest = dbl_max \<and> el \<inter> set (map pair_id ps) \<noteq> {} \<and> (\<forall>p\<in>set ps. mm_submit_time (snd p) < dbl_max)) \<Longrightarrow>
   earliest_submit_head el i earliest it ps \<noteq> None"
  by (induction el i earliest it ps rule: earliest_submit_head.induct) (auto split: if_splits)

interpretation fms: multimap_simulation "(<)" mm_submit_time fcfs_mm_insert_job fcfs_mm_find_head
  by unfold_locales (use fcfs_head_total in \<open>auto simp: fcfs_mm_find_head_def\<close>)

interpretation sjs: multimap_simulation "(<)" mm_run_time sjf_insert_job sjf_find_fcfs_head
  by unfold_locales (use earliest_head_total[of None dbl_max] in \<open>auto simp: sjf_find_fcfs_head_def\<close>)

interpretation ljs: multimap_simulation descending_run_time mm_run_time ljf_insert_job ljf_find_fcfs_head
  by unfold_locales (use earliest_head_total[of None dbl_max] in \<open>auto simp: ljf_find_fcfs_head_def\<close>)

section \<open>New schedulers\<close>

lemma new_deque_empty: "fq_inv (new_deque n policy depth)" "pending (new_deque n policy depth) = []"
  "m_current_tracked_time (new_deque n policy depth) \<le> 0"
  by (simp_all add: new_deque_def fcfs_queue.defs new_base_def scheduler_base.defs fq_inv_def pending_def waiting_def future_def)

lemma new_hybrid_empty:
  assumes "new_hybrid_deque n policy depth qdepth = Inr s"
  shows "fq_inv s" "pending s = []" "m_current_tracked_time s \<le> 0"
  using assms by (auto simp: new_hybrid_deque_def hybrid_queue.defs fcfs_queue.defs new_base_def scheduler_base.defs fq_inv_def
      pending_def waiting_def future_def split: if_splits)

lemma new_mm_empty: "mm_inv before key (new_mm_queue n policy depth)" "mm_jobs (new_mm_queue n policy depth) = []"
  "mm_current_tracked_time (new_mm_queue n policy depth) \<le> 0"
  by simp_all (simp add: new_mm_queue_def mm_queue.defs scheduler_base.defs)

end
