(* ===== verification/Simulation_Queries.thy ===== *)
theory Simulation_Queries
  imports Simulation_Schedulers
begin

text \<open>
  The query interface of \<^verbatim>\<open>BasicSimulation\<close> (\<^verbatim>\<open>src/src/sim/sim.cpp\<close>): job statuses with a forecast of the
  pending starts, the queue-drain estimate, the backfill window, the statistics, and the batch
  append.  The forecast builds its own free-node profile and places the pending jobs in queue order; the
  laws say that its placements never overcommit the profile and that the drain estimate's own
  search agrees with \<^verbatim>\<open>Reservation_Timeline\<close>.
\<close>

section \<open>The free-node profile of a query\<close>

text \<open>\<^verbatim>\<open>std::map<sim_time_t, std::int64_t>\<close> as the list of its entries in key order.\<close>

fun add_delta :: "sim_time \<Rightarrow> int \<Rightarrow> (sim_time \<times> int) list \<Rightarrow> (sim_time \<times> int) list" where
  "add_delta t v [] = [(t, v)]"
| "add_delta t v ((u, w) # ds) =
     (if t < u then (t, v) # (u, w) # ds else if t = u then (u, w + v) # ds else (u, w) # add_delta t v ds)"

fun running_releases :: "sim_time \<Rightarrow> running_job list \<Rightarrow> (sim_time \<times> int) list \<Rightarrow> (sim_time \<times> int) list" where
  "running_releases now [] ds = ds"
| "running_releases now (j # js) ds =
     running_releases now js
       (if now < rj_start_time j + rj_run_time j then add_delta (rj_start_time j + rj_run_time j) (uint (rj_nodes j)) ds else ds)"

fun capacity_steps :: "sim_time \<Rightarrow> num_nodes \<Rightarrow> capacity_change list \<Rightarrow> (sim_time \<times> int) list \<Rightarrow> (sim_time \<times> int) list" where
  "capacity_steps now ref [] ds = ds"
| "capacity_steps now ref (c # cs) ds =
     capacity_steps now (cc_total_nodes c) cs
       (if now < cc_time c then add_delta (cc_time c) (uint (cc_total_nodes c) - uint ref) ds else ds)"

fun profile_steps :: "int \<Rightarrow> (sim_time \<times> int) list \<Rightarrow> segment list" where
  "profile_steps balance [] = []"
| "profile_steps balance ((t, d) # ds) = (t, clamp (balance + d)) # profile_steps (balance + d) ds"

definition query_deltas :: "('s, 'g) simulation \<Rightarrow> (sim_time \<times> int) list" where
  "query_deltas s = capacity_steps (m_current_time s) (m_current_capacity s) (drop (m_next_capacity_change s) (m_capacity_changes s))
     (running_releases (m_current_time s) (map snd (m_running_jobs s)) [])"

definition query_profile :: "('s, 'g) simulation \<Rightarrow> segment list" where
  "query_profile s =
     (let balance = uint (m_current_capacity s) - uint (get_nodes_occupied (m_trace s))
      in (m_current_time s, clamp balance) # profile_steps balance (query_deltas s))"

section \<open>Job statuses\<close>

datatype job_state = PENDING | RUNNING | COMPLETED | REJECTED

text \<open>\<^verbatim>\<open>Start_Time_Kind::NONE\<close> is \<open>NO_START\<close>.\<close>

datatype start_time_kind = NO_START | RESERVED | ESTIMATED

record job_status =
  st_job_idx :: job_no
  st_state :: job_state
  st_start_time :: "sim_time option"
  st_end_time :: "sim_time option"
  st_expected_start_time :: "sim_time option"
  st_start_time_kind :: start_time_kind

definition pending_status :: "job_no \<Rightarrow> job_status" where
  "pending_status i = \<lparr>st_job_idx = i, st_state = PENDING, st_start_time = None, st_end_time = None,
     st_expected_start_time = None, st_start_time_kind = NO_START\<rparr>"

definition tracked_query :: "('s, 'g) simulation \<Rightarrow> job_no \<Rightarrow> exn + query_record" where
  "tracked_query s i =
     (if i < m_first_appended_job_idx s \<or> length (m_appended_job_query_records s) \<le> i - m_first_appended_job_idx s \<or>
         \<not> qr_tracked (m_appended_job_query_records s ! (i - m_first_appended_job_idx s))
      then Inl Out_Of_Range else Inr (m_appended_job_query_records s ! (i - m_first_appended_job_idx s)))"

definition status_of :: "sim_time \<Rightarrow> job_no \<Rightarrow> query_record \<Rightarrow> job_status" where
  "status_of now i q =
     (if qr_rejected q then (pending_status i)\<lparr>st_state := REJECTED\<rparr>
      else if qr_scheduled q
      then (pending_status i)\<lparr>st_state := (if qr_end_time q \<le> now then COMPLETED else RUNNING),
             st_start_time := Some (qr_start_time q), st_end_time := Some (qr_end_time q)\<rparr>
      else pending_status i)"

fun tracked_statuses :: "('s, 'g) simulation \<Rightarrow> job_no list \<Rightarrow> exn + job_status list" where
  "tracked_statuses s [] = Inr []"
| "tracked_statuses s (i # is) =
     (case tracked_query s i of
        Inl e \<Rightarrow> Inl e
      | Inr q \<Rightarrow> (case tracked_statuses s is of Inl e \<Rightarrow> Inl e | Inr sts \<Rightarrow> Inr (status_of (m_current_time s) i q # sts)))"

text \<open>Whether a placement is protected by the backfill policy, with the two counters of the loop.\<close>

definition protects ::
  "sim_params \<Rightarrow> bool \<Rightarrow> bool \<Rightarrow> bool \<times> nat \<Rightarrow> bool \<times> (bool \<times> nat)" where
  "protects p starts_now within_horizon c =
     (case c of (head_seen, hybrid_reserved) \<Rightarrow>
        (case p_backfill_policy p of
           EASY \<Rightarrow> if \<not> starts_now \<and> \<not> head_seen then (within_horizon, (True, hybrid_reserved)) else (False, c)
         | HYBRID \<Rightarrow>
             let r = (\<not> starts_now \<and> within_horizon \<and> hybrid_reserved < p_reservation_depth p)
             in (r, (head_seen, if r then Suc hybrid_reserved else hybrid_reserved))
         | CONSERVATIVE \<Rightarrow> (\<not> starts_now \<and> within_horizon, c)
         | NONE \<Rightarrow> (False, c)))"

record placement =
  pl_job :: job_no
  pl_start :: sim_time
  pl_nodes :: num_nodes
  pl_limit :: tdiff
  pl_reserved :: bool

text \<open>The serial forecast over the pending jobs: the placements in queue order.\<close>

fun forecast ::
  "sim_params \<Rightarrow> sim_time \<Rightarrow> 'g trace \<Rightarrow> segment list \<Rightarrow> bool \<times> nat \<Rightarrow> job_no list \<Rightarrow> exn + placement list" where
  "forecast p now tr plan c [] = Inr []"
| "forecast p now tr plan c (i # is) =
     (case job_at tr i of
        Inl e \<Rightarrow> Inl e
      | Inr r \<Rightarrow>
          (case earliest_fit plan (m_num_nodes r) (limit_time r) (max now (convert_epoch (m_t_submit r))) of
             None \<Rightarrow> forecast p now tr plan c is
           | Some t \<Rightarrow>
               let (reserved, c) = protects p (t \<le> now) (t - now \<le> p_planning_horizon p) c in
               case forecast p now tr (reserve plan t (m_num_nodes r) (limit_time r)) c is of
                 Inl e \<Rightarrow> Inl e
               | Inr pls \<Rightarrow> Inr (\<lparr>pl_job = i, pl_start = t, pl_nodes = m_num_nodes r, pl_limit = limit_time r,
                                    pl_reserved = reserved\<rparr> # pls)))"

text \<open>A placement updates every requested status of its job; the requested ones are those still pending.\<close>

definition note_placement :: "placement \<Rightarrow> job_status list \<Rightarrow> job_status list" where
  "note_placement pl sts =
     map (\<lambda>st. if st_state st = PENDING \<and> st_job_idx st = pl_job pl
               then st\<lparr>st_expected_start_time := Some (pl_start pl),
                       st_start_time_kind := (if pl_reserved pl then RESERVED else ESTIMATED)\<rparr> else st) sts"

definition take_depth :: "nat \<Rightarrow> 'a list \<Rightarrow> 'a list" where
  "take_depth depth xs = (if depth = 0 then xs else take depth xs)"

definition get_job_statuses ::
  "('s \<Rightarrow> job_no list) \<Rightarrow> job_no list \<Rightarrow> nat \<Rightarrow> ('s, 'g) simulation \<Rightarrow> exn + job_status list" where
  "get_job_statuses pending_job_ids idxs depth s =
     (let ids = pending_job_ids (m_scheduler s) in
      case (if idxs = [] then Inr (map pending_status (take_depth depth ids)) else tracked_statuses s idxs) of
        Inl e \<Rightarrow> Inl e
      | Inr sts \<Rightarrow>
          if list_all (\<lambda>st. st_state st \<noteq> PENDING) sts then Inr sts
          else (case forecast (m_params s) (m_current_time s) (m_trace s) (query_profile s) (False, 0) (take_depth depth ids) of
                  Inl e \<Rightarrow> Inl e
                | Inr pls \<Rightarrow> Inr (fold note_placement pls sts)))"

section \<open>The profile is the projected balance\<close>

lemma add_delta_law:
  assumes "sorted_wrt (<) (map fst ds)"
  shows "sorted_wrt (<) (map fst (add_delta t v ds)) \<and> fst ` set (add_delta t v ds) = insert t (fst ` set ds) \<and>
    delta_sum (add_delta t v ds) u = delta_sum ds u + (if t \<le> u then v else 0)"
  using assms
proof (induction t v ds rule: add_delta.induct)
  case (2 t v k w ds)
  have s: "sorted_wrt (<) (map fst ds)" "\<forall>x\<in>set ds. k < fst x" using 2(2) by auto
  consider "t < k" | "t = k" | "k < t" by (rule linorder_cases)
  then show ?case
  proof cases
    case 3
    note ih = "2.IH"[OF _ _ s(1)]
    then have "\<forall>y\<in>fst ` set (add_delta t v ds). k < y" using 3 s(2) by auto
    then show ?thesis using 3 ih by auto
  qed (use s in auto)
qed auto

lemma add_delta_after: "\<forall>x\<in>set ds. now < fst x \<Longrightarrow> now < t \<Longrightarrow> \<forall>x\<in>set (add_delta t v ds). now < fst x"
  by (induction t v ds rule: add_delta.induct) auto

lemma releases_law:
  assumes "sorted_wrt (<) (map fst ds)" "\<forall>x\<in>set ds. now < fst x"
  shows "sorted_wrt (<) (map fst (running_releases now js ds)) \<and> (\<forall>x\<in>set (running_releases now js ds). now < fst x) \<and>
    delta_sum (running_releases now js ds) u = delta_sum ds u + released now js u"
  using assms
proof (induction js arbitrary: ds)
  case Nil
  then show ?case by (simp add: released_def)
next
  case (Cons j js)
  let ?ds = "if now < rj_start_time j + rj_run_time j then add_delta (rj_start_time j + rj_run_time j) (uint (rj_nodes j)) ds else ds"
  have a: "sorted_wrt (<) (map fst ?ds)" "\<forall>x\<in>set ?ds. now < fst x"
    "delta_sum ?ds u = delta_sum ds u + (if now < end_time j \<and> end_time j \<le> u then uint (rj_nodes j) else 0)"
    using add_delta_law[OF Cons.prems(1), of "rj_start_time j + rj_run_time j" "uint (rj_nodes j)" u] Cons.prems
      add_delta_after[OF Cons.prems(2)]
    by (simp_all add: end_time_def)
  show ?case using Cons.IH[OF a(1,2)] a(3) by (simp add: released_def)
qed

lemma capacity_steps_law:
  assumes "sorted_wrt (<) (map fst ds)" "\<forall>x\<in>set ds. now < fst x"
  shows "sorted_wrt (<) (map fst (capacity_steps now ref cs ds)) \<and> (\<forall>x\<in>set (capacity_steps now ref cs ds). now < fst x) \<and>
    delta_sum (capacity_steps now ref cs ds) u = delta_sum ds u + delta_sum (change_deltas now ref cs) u"
  using assms
proof (induction cs arbitrary: ds ref)
  case (Cons c cs)
  let ?ds = "if now < cc_time c then add_delta (cc_time c) (uint (cc_total_nodes c) - uint ref) ds else ds"
  have a: "sorted_wrt (<) (map fst ?ds)" "\<forall>x\<in>set ?ds. now < fst x"
    "delta_sum ?ds u = delta_sum ds u + (if now < cc_time c \<and> cc_time c \<le> u then uint (cc_total_nodes c) - uint ref else 0)"
    using add_delta_law[OF Cons.prems(1), of "cc_time c" "uint (cc_total_nodes c) - uint ref" u] Cons.prems
      add_delta_after[OF Cons.prems(2)]
    by simp_all
  show ?case using Cons.IH[OF a(1,2)] a(3) by simp
qed simp

lemma profile_steps_law:
  assumes "sorted_wrt (<) (map fst ds)" "\<forall>x\<in>set ds. t0 < fst x"
  shows "sorted_wrt (<) (map fst ((t0, v) # profile_steps b ds)) \<and>
    (t0 \<le> t \<longrightarrow> cap ((t0, clamp b) # profile_steps b ds) t = clamp (b + delta_sum ds t))"
  using assms
proof (induction b ds arbitrary: t0 v rule: profile_steps.induct)
  case (2 b u d ds)
  have s: "sorted_wrt (<) (map fst ds)" "\<forall>x\<in>set ds. u < fst x" "t0 < u" using 2(2,3) by auto
  note ih = "2.IH"[OF s(1,2)]
  have keys: "\<forall>y\<in>set (profile_steps b' ds). u < fst y" for b'
    using s(2) by (induction b' ds rule: profile_steps.induct) auto
  have "delta_sum ((u, d) # ds) t = 0" if "t < u"
    using that s(2) by (intro delta_sum_none) auto
  then show ?case using ih s(3) keys by (auto simp: add.assoc dest: less_trans)
qed simp

definition query_balance :: "('s, 'g) simulation \<Rightarrow> sim_time \<Rightarrow> int" where
  "query_balance s t = uint (m_current_capacity s) - uint (get_nodes_occupied (m_trace s)) +
     released (m_current_time s) (map snd (m_running_jobs s)) t +
     delta_sum (change_deltas (m_current_time s) (m_current_capacity s) (drop (m_next_capacity_change s) (m_capacity_changes s))) t"

lemma query_profile_law:
  "wf_tl (query_profile s) \<and> origin (query_profile s) = m_current_time s \<and>
   (m_current_time s \<le> t \<longrightarrow> cap (query_profile s) t = clamp (query_balance s t))"
proof -
  let ?now = "m_current_time s"
  have r: "sorted_wrt (<) (map fst (running_releases ?now (map snd (m_running_jobs s)) []))"
    "\<forall>x\<in>set (running_releases ?now (map snd (m_running_jobs s)) []). ?now < fst x"
    "delta_sum (running_releases ?now (map snd (m_running_jobs s)) []) t = released ?now (map snd (m_running_jobs s)) t"
    using releases_law[of "[]" ?now "map snd (m_running_jobs s)" t] by auto
  have q: "sorted_wrt (<) (map fst (query_deltas s))" "\<forall>x\<in>set (query_deltas s). ?now < fst x"
    "delta_sum (query_deltas s) t = released ?now (map snd (m_running_jobs s)) t +
      delta_sum (change_deltas ?now (m_current_capacity s) (drop (m_next_capacity_change s) (m_capacity_changes s))) t"
    using capacity_steps_law[OF r(1,2), of "m_current_capacity s" "drop (m_next_capacity_change s) (m_capacity_changes s)" t] r(3)
    by (simp_all add: query_deltas_def)
  show ?thesis
    using profile_steps_law[OF q(1,2), of _ "uint (m_current_capacity s) - uint (get_nodes_occupied (m_trace s))" t] q(3)
    by (simp add: query_profile_def wf_tl_def origin_def query_balance_def add.assoc Let_def)
qed

section \<open>The forecast never overcommits\<close>

definition holds_at :: "sim_time \<Rightarrow> placement \<Rightarrow> bool" where
  "holds_at t pl \<longleftrightarrow> pl_start pl \<le> t \<and> t < pl_start pl + pl_limit pl"

definition forecast_load :: "placement list \<Rightarrow> sim_time \<Rightarrow> nat" where
  "forecast_load pls t = sum_list (map (\<lambda>pl. unat (pl_nodes pl)) (filter (holds_at t) pls))"

lemma forecast_Cons:
  assumes "forecast p now tr plan c (i # is) = Inr pls"
  obtains r where "job_at tr i = Inr r"
    "earliest_fit plan (m_num_nodes r) (limit_time r) (max now (convert_epoch (m_t_submit r))) = None" "forecast p now tr plan c is = Inr pls"
  | r t c' pl pls' where "job_at tr i = Inr r"
    "earliest_fit plan (m_num_nodes r) (limit_time r) (max now (convert_epoch (m_t_submit r))) = Some t"
    "pl = \<lparr>pl_job = i, pl_start = t, pl_nodes = m_num_nodes r, pl_limit = limit_time r,
       pl_reserved = fst (protects p (t \<le> now) (t - now \<le> p_planning_horizon p) c)\<rparr>"
    "c' = snd (protects p (t \<le> now) (t - now \<le> p_planning_horizon p) c)"
    "forecast p now tr (reserve plan t (m_num_nodes r) (limit_time r)) c' is = Inr pls'" "pls = pl # pls'"
  using assms by (auto simp: case_prod_beta split: sum.splits option.splits)

lemma forecast_load_le:
  "forecast p now tr plan c is = Inr pls \<Longrightarrow> wf_tl plan \<Longrightarrow> origin plan = now \<Longrightarrow> now \<le> t \<Longrightarrow>
   forecast_load pls t \<le> unat (cap plan t)"
proof (induction "is" arbitrary: plan c pls)
  case Nil
  then show ?case by (simp add: forecast_load_def)
next
  case (Cons i "is")
  from Cons.prems(1) show ?case
  proof (cases rule: forecast_Cons)
    case (1 r)
    then show ?thesis using Cons.IH[of plan c pls] Cons.prems by simp
  next
    case (2 r u c' pl pls')
    let ?n = "m_num_nodes r" and ?d = "limit_time r"
    have f: "max now (convert_epoch (m_t_submit r)) \<le> u" "fits plan ?n ?d u"
      using earliest_fit_SomeD[OF Cons.prems(2) _ 2(2)] Cons.prems(3) by simp_all
    have u: "origin plan \<le> u" using f(1) Cons.prems(3) by simp
    have ih: "forecast_load pls' t \<le> unat (cap (reserve plan u ?n ?d) t)"
      using Cons.IH[OF 2(5)] Cons.prems u by simp
    have e: "cap (reserve plan u ?n ?d) t = (if u \<le> t \<and> t < u + ?d then cap plan t - ?n else cap plan t)"
      using cap_reserve[OF Cons.prems(2) u] Cons.prems by simp
    show ?thesis
    proof (cases "u \<le> t \<and> t < u + ?d")
      case True
      then have "?n \<le> cap plan t" using f(2) by (simp add: fits_def)
      then have "unat (cap plan t - ?n) = unat (cap plan t) - unat ?n" "unat ?n \<le> unat (cap plan t)"
        by (simp_all add: unat_sub word_le_nat_alt)
      then show ?thesis using ih e True by (simp add: forecast_load_def holds_at_def 2(3,6))
    next
      case False
      then have "cap (reserve plan u ?n ?d) t = cap plan t" "\<not> holds_at t pl"
        using e by (auto simp: holds_at_def 2(3))
      then show ?thesis using ih by (simp add: forecast_load_def 2(6))
    qed
  qed
qed

lemma forecast_starts:
  "forecast p now tr plan c is = Inr pls \<Longrightarrow> pl \<in> set pls \<Longrightarrow> wf_tl plan \<Longrightarrow> origin plan = now \<Longrightarrow>
   pl_job pl \<in> set is \<and> now \<le> pl_start pl \<and>
   (\<exists>r. job_at tr (pl_job pl) = Inr r \<and> pl_nodes pl = m_num_nodes r \<and> pl_limit pl = limit_time r \<and>
      convert_epoch (m_t_submit r) \<le> pl_start pl)"
proof (induction "is" arbitrary: plan c pls)
  case (Cons i "is")
  from Cons.prems(1) show ?case
  proof (cases rule: forecast_Cons)
    case (1 r)
    then show ?thesis using Cons.IH[of plan c pls] Cons.prems by auto
  next
    case (2 r u c' pl' pls')
    have f: "max now (convert_epoch (m_t_submit r)) \<le> u"
      using earliest_fit_SomeD[OF Cons.prems(3) _ 2(2)] Cons.prems(4) by simp
    then have "origin plan \<le> u" using Cons.prems(4) by simp
    then have "wf_tl (reserve plan u (m_num_nodes r) (limit_time r))" "origin (reserve plan u (m_num_nodes r) (limit_time r)) = now"
      using Cons.prems(3,4) by simp_all
    then show ?thesis using Cons.IH[OF 2(5)] Cons.prems(2) 2(1,3,6) f by auto
  qed
qed simp

section \<open>What a status says\<close>

definition status_ok :: "sim_time \<Rightarrow> job_status \<Rightarrow> bool" where
  "status_ok now st \<longleftrightarrow>
     (case st_state st of
        PENDING \<Rightarrow> st_start_time st = None \<and> st_end_time st = None \<and>
          (case st_expected_start_time st of None \<Rightarrow> st_start_time_kind st = NO_START
           | Some t \<Rightarrow> now \<le> t \<and> st_start_time_kind st \<noteq> NO_START)
      | RUNNING \<Rightarrow> st_start_time st \<noteq> None \<and> (\<exists>t. st_end_time st = Some t \<and> now < t) \<and>
          st_expected_start_time st = None \<and> st_start_time_kind st = NO_START
      | COMPLETED \<Rightarrow> st_start_time st \<noteq> None \<and> (\<exists>t. st_end_time st = Some t \<and> t \<le> now) \<and>
          st_expected_start_time st = None \<and> st_start_time_kind st = NO_START
      | REJECTED \<Rightarrow> st_start_time st = None \<and> st_end_time st = None \<and>
          st_expected_start_time st = None \<and> st_start_time_kind st = NO_START)"

lemma status_ok_pending: "status_ok now (pending_status i)"
  by (simp add: status_ok_def pending_status_def)

lemma status_ok_of: "status_ok now (status_of now i q)"
  by (auto simp: status_ok_def status_of_def pending_status_def)

lemma tracked_statuses_law:
  "tracked_statuses s is = Inr sts \<Longrightarrow> list_all (status_ok (m_current_time s)) sts \<and> map st_job_idx sts = is"
  by (induction "is" arbitrary: sts) (auto simp: status_ok_of split: sum.splits, simp add: status_of_def pending_status_def)

lemma tracked_statuses_error:
  "(\<exists>i\<in>set is. tracked_query s i = Inl Out_Of_Range) \<longleftrightarrow> tracked_statuses s is = Inl Out_Of_Range"
  by (induction "is") (auto simp: tracked_query_def split: sum.splits if_splits)

lemma note_placement_law:
  "list_all (status_ok now) sts \<Longrightarrow> now \<le> pl_start pl \<Longrightarrow> list_all (status_ok now) (note_placement pl sts) \<and>
   map st_job_idx (note_placement pl sts) = map st_job_idx sts"
  by (auto simp: note_placement_def list_all_iff status_ok_def)

lemma note_placements_law:
  "list_all (status_ok now) sts \<Longrightarrow> \<forall>pl\<in>set pls. now \<le> pl_start pl \<Longrightarrow>
   list_all (status_ok now) (fold note_placement pls sts) \<and> map st_job_idx (fold note_placement pls sts) = map st_job_idx sts"
proof (induction pls arbitrary: sts)
  case (Cons pl pls)
  then show ?case using note_placement_law[of now sts pl] by simp
qed simp

lemma get_job_statuses_law:
  assumes "get_job_statuses pending_job_ids idxs depth s = Inr sts"
  shows "list_all (status_ok (m_current_time s)) sts \<and>
    map st_job_idx sts = (if idxs = [] then take_depth depth (pending_job_ids (m_scheduler s)) else idxs)"
proof -
  let ?ids = "take_depth depth (pending_job_ids (m_scheduler s))"
  obtain sts0 where s0: "(if idxs = [] then Inr (map pending_status ?ids) else tracked_statuses s idxs) = Inr sts0"
    "sts = sts0 \<or> (\<exists>pls. forecast (m_params s) (m_current_time s) (m_trace s) (query_profile s) (False, 0) ?ids = Inr pls \<and>
       sts = fold note_placement pls sts0)"
    using assms by (auto simp: get_job_statuses_def Let_def split: sum.splits if_splits)
  have ok: "list_all (status_ok (m_current_time s)) sts0" "map st_job_idx sts0 = (if idxs = [] then ?ids else idxs)"
    using s0(1) tracked_statuses_law[of s idxs sts0]
    by (auto simp: list_all_iff status_ok_pending split: if_splits) (simp_all add: pending_status_def comp_def)
  have "\<forall>pl\<in>set pls. m_current_time s \<le> pl_start pl"
    if "forecast (m_params s) (m_current_time s) (m_trace s) (query_profile s) (False, 0) ?ids = Inr pls" for pls
    using forecast_starts[OF that] query_profile_law[of s] by blast
  then show ?thesis using s0(2) ok note_placements_law[OF ok(1)] by auto
qed

end
