(* ===== verification/Simulation_Drain.thy ===== *)
theory Simulation_Drain
  imports Simulation_Queries
begin

text \<open>
  \<^verbatim>\<open>BasicSimulation::get_queue_drain_start_times\<close> (\<^verbatim>\<open>src/src/sim/sim.cpp\<close>): the queue-drain estimate.  The
  policy-protected jobs get a reservation on a local profile, which the function keeps in a
  \<^verbatim>\<open>std::map\<close> with its own \<^verbatim>\<open>split_at\<close>, \<^verbatim>\<open>earliest_fit\<close> and \<^verbatim>\<open>reserve\<close>; every other job starts when the node-time
  area that is left has served the demand queued before it.  The first section is the code; the
  laws say that the local search is that of \<^verbatim>\<open>Reservation_Timeline\<close>, and where the estimates lie.
\<close>

section \<open>The code\<close>

text \<open>The lambdas on the map, which is the list of its entries.  \<^verbatim>\<open>split_at\<close> is that of the timeline; the
  search has no case for an empty duration, and the subtraction does not merge equal neighbours.\<close>

definition drain_fit :: "segment list \<Rightarrow> num_nodes \<Rightarrow> tdiff \<Rightarrow> sim_time \<Rightarrow> sim_time option" where
  "drain_fit xs n d start = earliest_loop n d start (drop (upper_bound xs start - 1) xs)"

definition drain_reserve :: "segment list \<Rightarrow> sim_time \<Rightarrow> num_nodes \<Rightarrow> tdiff \<Rightarrow> segment list" where
  "drain_reserve xs start n d =
     (if d \<le> 0 then xs
      else let ys = snd (split_at (snd (split_at xs start)) (start + d));
               lo = lower_bound ys start
           in take lo ys @ map (\<lambda>s. (fst s, snd s - n)) (takeWhile (\<lambda>s. fst s < start + d) (drop lo ys)) @
              dropWhile (\<lambda>s. fst s < start + d) (drop lo ys))"

record pending_plan =
  pp_job :: job_no
  pp_nodes :: num_nodes
  pp_limit :: tdiff
  pp_reservation :: "sim_time option"
  pp_reserved :: bool

definition may_reserve :: "sim_params \<Rightarrow> bool \<times> nat \<Rightarrow> bool" where
  "may_reserve p c \<longleftrightarrow> p_backfill_policy p = CONSERVATIVE \<or> (p_backfill_policy p = HYBRID \<and> snd c < p_reservation_depth p) \<or>
     (p_backfill_policy p = EASY \<and> \<not> fst c)"

definition drain_protects :: "sim_params \<Rightarrow> sim_time \<Rightarrow> sim_time option \<Rightarrow> bool \<times> nat \<Rightarrow> bool \<times> (bool \<times> nat)" where
  "drain_protects p now reservation c =
     (let starts_now = (case reservation of None \<Rightarrow> False | Some t \<Rightarrow> t \<le> now);
          within_horizon = (case reservation of None \<Rightarrow> False | Some t \<Rightarrow> t - now \<le> p_planning_horizon p);
          reserved = (\<not> starts_now \<and> within_horizon)
      in case p_backfill_policy p of
           EASY \<Rightarrow> (reserved, (fst c \<or> \<not> starts_now, snd c))
         | HYBRID \<Rightarrow> (reserved, (fst c, if reserved then Suc (snd c) else snd c))
         | CONSERVATIVE \<Rightarrow> (reserved, c)
         | NONE \<Rightarrow> (False, c))"

text \<open>The planning loop over the operations of the profile: the plans and the profile they leave.\<close>

fun drain_plans ::
  "(segment list \<Rightarrow> num_nodes \<Rightarrow> tdiff \<Rightarrow> sim_time \<Rightarrow> sim_time option) \<Rightarrow>
   (segment list \<Rightarrow> sim_time \<Rightarrow> num_nodes \<Rightarrow> tdiff \<Rightarrow> segment list) \<Rightarrow>
   sim_params \<Rightarrow> sim_time \<Rightarrow> 'g trace \<Rightarrow> segment list \<Rightarrow> bool \<times> nat \<Rightarrow> job_no list \<Rightarrow>
   exn + (pending_plan list \<times> segment list)" where
  "drain_plans fit res p now tr profile c [] = Inr ([], profile)"
| "drain_plans fit res p now tr profile c (i # is) =
     (case job_at tr i of
        Inl e \<Rightarrow> Inl e
      | Inr r \<Rightarrow>
          let reservation = (if may_reserve p c
                then fit profile (m_num_nodes r) (limit_time r) (max now (convert_epoch (m_t_submit r))) else None);
              (reserved, c') = (if may_reserve p c then drain_protects p now reservation c else (False, c));
              profile' = (case reservation of None \<Rightarrow> profile
                | Some t \<Rightarrow> if reserved then res profile t (m_num_nodes r) (limit_time r) else profile)
          in case drain_plans fit res p now tr profile' c' is of
               Inl e \<Rightarrow> Inl e
             | Inr (pls, final) \<Rightarrow>
                 Inr (\<lparr>pp_job = i, pp_nodes = m_num_nodes r, pp_limit = limit_time r, pp_reservation = reservation,
                        pp_reserved = reserved\<rparr> # pls, final))"

text \<open>The cursor of \<^verbatim>\<open>time_for_area\<close>: \<^verbatim>\<open>area_time\<close>, \<^verbatim>\<open>accumulated_area\<close> and the suffix at \<^verbatim>\<open>area_segment\<close>.\<close>

type_synonym area_cursor = "sim_time \<times> double \<times> segment list"

fun time_for_area :: "double \<Rightarrow> double \<Rightarrow> area_cursor \<Rightarrow> sim_time \<times> area_cursor" where
  "time_for_area u target (t, acc, []) = (t, (t, acc, []))"
| "time_for_area u target (t, acc, [x]) =
     (if acc < target
      then let rate = u * dbl (uint (snd x)) in
        if rate = 0 then (dbl_inf, (t, acc, [x]))
        else let t' = t + (target - acc) / rate in (t', (t', target, [x]))
      else (t, (t, acc, [x])))"
| "time_for_area u target (t, acc, x # y # ys) =
     (if acc < target
      then let rate = u * dbl (uint (snd x)); area = rate * (fst y - t) in
        if target \<le> acc + area
        then if rate = 0 then time_for_area u target (fst y, acc, y # ys)
             else let t' = t + (target - acc) / rate in (t', (t', target, x # y # ys))
        else time_for_area u target (fst y, acc + area, y # ys)
      else (t, (t, acc, x # y # ys)))"

definition first_node_feasible_time :: "segment list \<Rightarrow> sim_time \<Rightarrow> num_nodes \<Rightarrow> sim_time" where
  "first_node_feasible_time xs start n =
     (let seg = drop (upper_bound xs start - 1) xs in
      if n \<le> snd (hd seg) then start
      else case dropWhile (\<lambda>s. snd s < n) (tl seg) of [] \<Rightarrow> dbl_inf | s # _ \<Rightarrow> fst s)"

record drain_estimate =
  de_job :: job_no
  de_start :: sim_time
  de_kind :: start_time_kind

fun drain_results :: "double \<Rightarrow> segment list \<Rightarrow> area_cursor \<Rightarrow> double \<Rightarrow> pending_plan list \<Rightarrow> drain_estimate list" where
  "drain_results u profile cur area [] = []"
| "drain_results u profile cur area (pl # pls) =
     (if pp_reserved pl
      then \<lparr>de_job = pp_job pl, de_start = the (pp_reservation pl), de_kind = RESERVED\<rparr> # drain_results u profile cur area pls
      else let (area_start, cur') = time_for_area u area cur
           in \<lparr>de_job = pp_job pl, de_start = first_node_feasible_time profile area_start (pp_nodes pl), de_kind = ESTIMATED\<rparr> #
              drain_results u profile cur' (area + dbl (uint (pp_nodes pl)) * pp_limit pl) pls)"

definition get_queue_drain_start_times ::
  "('s \<Rightarrow> job_no list) \<Rightarrow> double \<Rightarrow> nat \<Rightarrow> ('s, 'g) simulation \<Rightarrow> exn + drain_estimate list" where
  "get_queue_drain_start_times pending_job_ids utilization depth s =
     (if \<not> isfinite utilization \<or> utilization < 0 \<or> dbl 1 < utilization then Inl Invalid_Argument
      else case drain_plans drain_fit drain_reserve (m_params s) (m_current_time s) (m_trace s) (query_profile s) (False, 0)
                  (take_depth depth (pending_job_ids (m_scheduler s))) of
             Inl e \<Rightarrow> Inl e
           | Inr (pls, profile) \<Rightarrow>
               Inr (drain_results (if utilization = 0 then dbl 1 else utilization) profile
                      (m_current_time s, 0, profile) 0 pls))"

section \<open>The local search is that of the timeline\<close>

lemma drain_fit_eq:
  assumes "wf_tl xs" "origin xs \<le> start"
  shows "drain_fit xs n d start = earliest_fit xs n d start"
proof -
  let ?seg = "drop (upper_bound xs start - 1) xs"
  have st: "at_start ?seg start" using assms by (rule at_start_drop)
  have "sorted_wrt (<) (map fst (take (upper_bound xs start - 1) xs @ ?seg))"
    using assms(1) by (simp add: wf_tl_def)
  then have "least_fit xs n d start (drain_fit xs n d start)"
    using earliest_loop_least[OF st, of n d] least_fit_suffix[of "take (upper_bound xs start - 1) xs" ?seg start n d] st
    by (simp add: at_start_def drain_fit_def)
  then show ?thesis by (rule earliest_fit_eqI[OF assms, symmetric])
qed

lemma drain_reserve_correct:
  assumes wf: "wf_tl xs" and o: "origin xs \<le> start"
  shows "wf_tl (drain_reserve xs start n d) \<and> origin (drain_reserve xs start n d) = origin xs \<and>
    (\<forall>t. origin xs \<le> t \<longrightarrow> cap (drain_reserve xs start n d) t =
      (if start \<le> t \<and> t < start + d then cap xs t - n else cap xs t))"
proof (cases "d \<le> 0")
  case True
  then show ?thesis using wf by (auto simp: drain_reserve_def dest: dbl_interval_empty)
next
  case False
  then have d: "0 \<le> d" by simp
  obtain as mid w cs xs1 ys where sp: "split_at xs start = (length as, xs1)"
    "split_at xs1 (start + d) = (length (as @ mid), as @ mid @ (start + d, w) # cs)"
    and ys: "ys = as @ map (\<lambda>s. (fst s, snd s - n)) mid @ (start + d, w) # cs"
    and keys: "\<forall>x\<in>set as. fst x < start" "\<forall>x\<in>set mid. fst x < start + d" "fst (hd (mid @ (start + d, w) # cs)) = start"
    and laws: "wf_tl ys" "origin ys = origin xs"
    "\<forall>t. origin xs \<le> t \<longrightarrow> cap ys t = (if start \<le> t \<and> t < start + d then cap xs t - n else cap xs t)"
    by (rule subtract_correct[OF wf o d, of n]) blast
  have "lower_bound (as @ mid @ (start + d, w) # cs) start = length as"
    using keys(1,3) by (cases mid) (auto simp: lower_bound_def takeWhile_append2)
  then have "drain_reserve xs start n d = ys"
    using False sp keys(2) by (simp add: drain_reserve_def takeWhile_append2 dropWhile_append2 ys)
  then show ?thesis using laws by simp
qed

text \<open>The plan fails only on a job that is not in the store.\<close>

lemma drain_plans_total:
  "\<forall>i\<in>set is. \<exists>r. job_at tr i = Inr r \<Longrightarrow> \<exists>pls final. drain_plans fit res p now tr profile c is = Inr (pls, final)"
proof (induction "is" arbitrary: profile c)
  case (Cons i "is")
  obtain r where "job_at tr i = Inr r" using Cons.prems by auto
  moreover have "\<exists>pls final. drain_plans fit res p now tr ys c' is = Inr (pls, final)" for ys c'
    using Cons.IH Cons.prems by simp
  ultimately show ?case by (simp add: case_prod_beta Let_def split: sum.split) (metis Inr_not_Inl)
qed simp

lemma drain_plans_error:
  "drain_plans fit res p now tr profile c is = Inl e \<Longrightarrow> e = Runtime_Error \<and> (\<exists>i\<in>set is. job_at tr i = Inl e)"
proof (induction "is" arbitrary: profile c)
  case (Cons i "is")
  show ?case
  proof (cases "job_at tr i")
    case (Inl x)
    then have "x = e" using Cons.prems by simp
    then show ?thesis using Inl by (auto simp: job_at_def Let_def split: if_splits)
  next
    case (Inr r)
    then obtain c' ys where "drain_plans fit res p now tr ys c' is = Inl e"
      using Cons.prems by (auto simp: case_prod_beta Let_def split: sum.splits)
    from Cons.IH[OF this] show ?thesis by auto
  qed
qed simp

text \<open>The errors of the query: a utilization that is not one, and a queued job that is not in the store.\<close>

lemma drain_errors:
  "(get_queue_drain_start_times pending_job_ids u depth s = Inl Invalid_Argument \<longleftrightarrow> \<not> (isfinite u \<and> 0 \<le> u \<and> u \<le> dbl 1)) \<and>
   (get_queue_drain_start_times pending_job_ids u depth s = Inl e \<longrightarrow> e \<noteq> Invalid_Argument \<longrightarrow>
     e = Runtime_Error \<and> (\<exists>i\<in>set (take_depth depth (pending_job_ids (m_scheduler s))). job_at (m_trace s) i = Inl e))"
proof (cases "isfinite u \<and> 0 \<le> u \<and> u \<le> dbl 1")
  case False
  then have "get_queue_drain_start_times pending_job_ids u depth s = Inl Invalid_Argument"
    by (auto simp: get_queue_drain_start_times_def not_le not_less)
  then show ?thesis using False by auto
next
  case True
  let ?plans = "drain_plans drain_fit drain_reserve (m_params s) (m_current_time s) (m_trace s) (query_profile s) (False, 0)
    (take_depth depth (pending_job_ids (m_scheduler s)))"
  have ok: "isfinite u" "\<not> u < 0" "\<not> dbl 1 < u" using True by (simp_all add: not_less)
  show ?thesis
  proof (cases ?plans)
    case (Inl x)
    then have "get_queue_drain_start_times pending_job_ids u depth s = Inl x"
      by (simp only: get_queue_drain_start_times_def ok simp_thms if_False sum.case)
    then show ?thesis using drain_plans_error[OF Inl] True by auto
  next
    case (Inr r)
    then have "\<exists>es. get_queue_drain_start_times pending_job_ids u depth s = Inr es"
      by (simp only: get_queue_drain_start_times_def ok simp_thms if_False sum.case case_prod_beta) blast
    then show ?thesis using True by auto
  qed
qed

text \<open>Two profiles with the same capacity from the clock on.\<close>

definition same_cap :: "sim_time \<Rightarrow> segment list \<Rightarrow> segment list \<Rightarrow> bool" where
  "same_cap now xs ys \<longleftrightarrow> wf_tl xs \<and> wf_tl ys \<and> origin xs = now \<and> origin ys = now \<and> (\<forall>t. now \<le> t \<longrightarrow> cap xs t = cap ys t)"

lemma same_cap_fit:
  assumes "same_cap now xs ys" "now \<le> start"
  shows "earliest_fit xs n d start = earliest_fit ys n d start"
proof -
  have "fits xs n d t \<longleftrightarrow> fits ys n d t" if "start \<le> t" for t
    using assms order_trans[OF assms(2) that] unfolding same_cap_def fits_def by (metis order_trans)
  then have "least_fit xs n d start r = least_fit ys n d start r" for r
    by (cases r) (auto simp: least_fit_def)
  then show ?thesis
    using earliest_fit_least[of ys start n d] assms
    by (intro earliest_fit_eqI) (auto simp: same_cap_def)
qed

lemma same_cap_reserve:
  "same_cap now xs ys \<Longrightarrow> now \<le> start \<Longrightarrow> same_cap now (drain_reserve xs start n d) (reserve ys start n d)"
  using drain_reserve_correct[of xs start n d] reserve_correct[of ys start n d] by (simp add: same_cap_def)

lemma drain_plans_Cons:
  "drain_plans fit res p now tr profile c (i # is) =
     (case job_at tr i of
        Inl e \<Rightarrow> Inl e
      | Inr r \<Rightarrow>
          let reservation = (if may_reserve p c
                then fit profile (m_num_nodes r) (limit_time r) (max now (convert_epoch (m_t_submit r))) else None);
              reserved = (may_reserve p c \<and> fst (drain_protects p now reservation c));
              profile' = (case reservation of None \<Rightarrow> profile
                | Some t \<Rightarrow> if reserved then res profile t (m_num_nodes r) (limit_time r) else profile)
          in map_sum id (\<lambda>(pls, final). (\<lparr>pp_job = i, pp_nodes = m_num_nodes r, pp_limit = limit_time r,
                 pp_reservation = reservation, pp_reserved = reserved\<rparr> # pls, final))
               (drain_plans fit res p now tr profile' (if may_reserve p c then snd (drain_protects p now reservation c) else c) is))"
  by (simp add: case_prod_beta Let_def split: sum.split option.split)

lemma drain_plans_timeline:
  "same_cap now xs ys \<Longrightarrow>
   map_sum id fst (drain_plans drain_fit drain_reserve p now tr xs c is) =
   map_sum id fst (drain_plans earliest_fit reserve p now tr ys c is)"
proof (induction "is" arbitrary: xs ys c)
  case (Cons i "is")
  show ?case
  proof (cases "job_at tr i")
    case (Inr r)
    let ?t0 = "max now (convert_epoch (m_t_submit r))"
    have f: "drain_fit xs n d ?t0 = earliest_fit ys n d ?t0" for n d
      using drain_fit_eq[of xs ?t0 n d] same_cap_fit[OF Cons.prems, of ?t0 n d] Cons.prems by (simp add: same_cap_def)
    have k: "same_cap now (case q of None \<Rightarrow> xs | Some t \<Rightarrow> if b then drain_reserve xs t n d else xs)
      (case q of None \<Rightarrow> ys | Some t \<Rightarrow> if b then reserve ys t n d else ys)" if "\<forall>t. q = Some t \<longrightarrow> now \<le> t" for q b n d
      using that same_cap_reserve[OF Cons.prems] Cons.prems by (simp split: option.split)
    have m: "map_sum id fst (map_sum id (\<lambda>(pls, final). (pl # pls, final)) z) = map_sum id ((#) pl) (map_sum id fst z)"
      for pl and z :: "exn + (pending_plan list \<times> segment list)"
      by (cases z) auto
    define q where "q = (if may_reserve p c then earliest_fit ys (m_num_nodes r) (limit_time r) ?t0 else None)"
    have "now \<le> t" if "q = Some t" for t
    proof -
      have "earliest_fit ys (m_num_nodes r) (limit_time r) ?t0 = Some t" using that by (simp add: q_def split: if_splits)
      then have "?t0 \<le> t" using earliest_fit_SomeD(1) Cons.prems unfolding same_cap_def by (metis max.cobounded1)
      then show ?thesis by simp
    qed
    then have "\<forall>t. q = Some t \<longrightarrow> now \<le> t" by blast
    note ih = Cons.IH[OF k[OF this]]
    show ?thesis
      unfolding drain_plans_Cons Inr sum.case Let_def f m q_def[symmetric] ih ..
  qed (simp add: drain_plans_Cons)
qed simp

section \<open>Where the estimates lie\<close>

definition reserved_load :: "pending_plan list \<Rightarrow> sim_time \<Rightarrow> nat" where
  "reserved_load pls t = sum_list (map (\<lambda>pl. unat (pp_nodes pl))
     (filter (\<lambda>pl. pp_reserved pl \<and> the (pp_reservation pl) \<le> t \<and> t < the (pp_reservation pl) + pp_limit pl) pls))"

definition plan_ok :: "sim_time \<Rightarrow> 'g trace \<Rightarrow> segment list \<Rightarrow> pending_plan \<Rightarrow> bool" where
  "plan_ok now tr xs pl \<longleftrightarrow> (\<exists>r. job_at tr (pp_job pl) = Inr r \<and> pp_nodes pl = m_num_nodes r \<and> pp_limit pl = limit_time r) \<and>
     (pp_reserved pl \<longrightarrow> (\<exists>t. pp_reservation pl = Some t \<and> now \<le> t \<and> fits xs (pp_nodes pl) (pp_limit pl) t))"

lemma drain_plans_law:
  "drain_plans drain_fit drain_reserve p now tr xs c is = Inr (pls, final) \<Longrightarrow> wf_tl xs \<Longrightarrow> origin xs = now \<Longrightarrow>
   map pp_job pls = is \<and> wf_tl final \<and> origin final = now \<and> list_all (plan_ok now tr xs) pls \<and>
   (\<forall>t. now \<le> t \<longrightarrow> reserved_load pls t + unat (cap final t) = unat (cap xs t))"
proof (induction "is" arbitrary: xs c pls)
  case Nil
  then show ?case by (simp add: reserved_load_def)
next
  case (Cons i "is")
  then obtain r where r: "job_at tr i = Inr r" by (cases "job_at tr i") (simp_all add: drain_plans_Cons)
  let ?n = "m_num_nodes r" and ?d = "limit_time r" and ?t0 = "max now (convert_epoch (m_t_submit r))"
  define q where "q = (if may_reserve p c then drain_fit xs ?n ?d ?t0 else None)"
  define b where "b \<longleftrightarrow> may_reserve p c \<and> fst (drain_protects p now q c)"
  define ys where "ys = (case q of None \<Rightarrow> xs | Some t \<Rightarrow> if b then drain_reserve xs t ?n ?d else xs)"
  define c' where "c' = (if may_reserve p c then snd (drain_protects p now q c) else c)"
  obtain pls' where rest: "drain_plans drain_fit drain_reserve p now tr ys c' is = Inr (pls', final)"
    and pls: "pls = \<lparr>pp_job = i, pp_nodes = ?n, pp_limit = ?d, pp_reservation = q, pp_reserved = b\<rparr> # pls'"
    using Cons.prems(1) unfolding drain_plans_Cons r sum.case Let_def q_def[symmetric] b_def[symmetric] ys_def[symmetric] c'_def[symmetric]
    by (cases "drain_plans drain_fit drain_reserve p now tr ys c' is") auto
  have b: "\<exists>t. q = Some t" if b
    using that by (cases q) (auto simp: b_def drain_protects_def split: backfill_policy.splits)
  have fit: "now \<le> t \<and> fits xs ?n ?d t" if "q = Some t" for t
    using that earliest_fit_SomeD[of xs ?t0 ?n ?d t] drain_fit_eq[of xs ?t0 ?n ?d] Cons.prems(2,3)
    by (simp add: q_def split: if_splits)
  have ys: "wf_tl ys" "origin ys = now"
    using fit drain_reserve_correct[OF Cons.prems(2)] Cons.prems(2,3) by (auto simp: ys_def split: option.split)
  have cap_ys: "unat (cap ys t) + (if b \<and> the q \<le> t \<and> t < the q + ?d then unat ?n else 0) = unat (cap xs t)" if "now \<le> t" for t
  proof (cases b)
    case True
    then obtain u where u: "q = Some u" using b by blast
    have e: "cap ys t = (if u \<le> t \<and> t < u + ?d then cap xs t - ?n else cap xs t)"
      using True u fit[OF u] drain_reserve_correct[OF Cons.prems(2), of u ?n ?d] Cons.prems(3) that by (simp add: ys_def)
    have "?n \<le> cap xs t" if "u \<le> t" "t < u + ?d" using fit[OF u] that by (simp add: fits_def)
    then show ?thesis using e True u by (auto simp: unat_sub word_le_nat_alt)
  qed (simp add: ys_def split: option.split)
  have le: "cap ys t \<le> cap xs t" if "now \<le> t" for t
    using cap_ys[OF that] by (simp add: word_le_nat_alt split: if_splits)
  have "plan_ok now tr xs pl" if "plan_ok now tr ys pl" for pl
    using that le unfolding plan_ok_def by (meson fits_mono order_trans)
  then have "list_all (plan_ok now tr xs) pls'" using Cons.IH[OF rest ys] by (auto simp: list_all_iff)
  moreover have "plan_ok now tr xs (hd pls)" using r b fit by (auto simp: plan_ok_def pls)
  moreover have "reserved_load pls t = (if b \<and> the q \<le> t \<and> t < the q + ?d then unat ?n else 0) + reserved_load pls' t" for t
    by (simp add: reserved_load_def pls)
  moreover have "reserved_load pls' t + unat (cap final t) = unat (cap ys t)" if "now \<le> t" for t
    using Cons.IH[OF rest ys] that by blast
  ultimately have "reserved_load pls t + unat (cap final t) = unat (cap xs t)" if "now \<le> t" for t
    using cap_ys[OF that] that by (simp only: add.assoc)
  moreover have "map pp_job pls = i # is" "wf_tl final" "origin final = now"
    using Cons.IH[OF rest ys] by (simp_all add: pls)
  ultimately show ?case
    using \<open>list_all (plan_ok now tr xs) pls'\<close> \<open>plan_ok now tr xs (hd pls)\<close> by (simp add: pls)
qed

lemma dbl_uint_nonneg: "0 \<le> dbl (uint n)" for n :: num_nodes
proof -
  have "(0::rat) \<le> of_int (uint n)" by (simp only: of_int_0_le_iff uint_ge_0)
  from fl_mono[OF this] show ?thesis unfolding fl_0 less_eq_double.rep_eq zero_double.rep_eq dbl.rep_eq .
qed

lemma dbl_le_inf [simp]: "t \<le> dbl_inf"
  by transfer (auto dest: fl_range)

lemma area_start_later:
  fixes n :: num_nodes
  assumes "0 \<le> u" "now \<le> t" "acc < target"
  shows "now \<le> t + (target - acc) / (u * dbl (uint n))"
proof -
  have "0 \<le> (target - acc) / (u * dbl (uint n))"
    using assms(1,3) by (intro dbl_divide_nonneg dbl_mult_nonneg dbl_diff_pos dbl_uint_nonneg)
  then show ?thesis using dbl_le_add[of _ t] assms(2) by (metis order_trans)
qed

lemma time_for_area_law:
  assumes "0 \<le> u" "now \<le> t" "list_all (\<lambda>x. now \<le> fst x) seg" "time_for_area u target (t, acc, seg) = (r, t', acc', seg')"
  shows "now \<le> r \<and> now \<le> t' \<and> list_all (\<lambda>x. now \<le> fst x) seg'"
  using assms
proof (induction u target "(t, acc, seg)" arbitrary: t acc seg rule: time_for_area.induct)
  case (2 u target t acc x)
  have "now \<le> t + (target - acc) / (u * dbl (uint (snd x)))" if "acc < target"
    using area_start_later[OF 2(1,2) that] .
  then show ?case using 2 by (auto simp: Let_def split: if_splits)
next
  case (3 u target t acc x y ys)
  have "now \<le> t + (target - acc) / (u * dbl (uint (snd x)))" if "acc < target"
    using area_start_later[OF 3(3,4) that] .
  then show ?case using 3 by (auto simp: Let_def split: if_splits)
qed simp

lemma first_node_law:
  assumes "wf_tl xs" "origin xs \<le> start"
  shows "start \<le> first_node_feasible_time xs start n \<and>
    (first_node_feasible_time xs start n = dbl_inf \<or> n \<le> cap xs (first_node_feasible_time xs start n))"
proof -
  let ?seg = "drop (upper_bound xs start - 1) xs"
  have st: "at_start ?seg start" using assms by (rule at_start_drop)
  have e: "first_node_feasible_time xs start n = (case earliest_fit xs n 0 start of None \<Rightarrow> dbl_inf | Some t \<Rightarrow> t)"
  proof -
    obtain x seg where seg: "?seg = x # seg" using st by (cases ?seg) (auto simp: at_start_def)
    have s: "sorted_wrt (<) (map fst (x # seg))" "fst x \<le> start" "seg = [] \<or> start < fst (hd seg)"
      using st unfolding seg at_start_def by auto
    then have later: "\<forall>y\<in>set seg. start < fst y" by (cases seg) (auto dest: less_trans)
    have "xs \<noteq> []" using assms(1) by (simp add: wf_tl_def)
    moreover have "start < fst y" if "dropWhile (\<lambda>s. snd s < n) seg = y # ys" for y ys
      using later that by (metis list.set_intros(1) set_dropWhileD)
    ultimately have gt: "\<not> fst y \<le> start" if "dropWhile (\<lambda>s. snd s < n) seg = y # ys" for y ys
      using that by (simp add: not_le)
    have hit: "dropWhile (\<lambda>s. snd s < n) (x # seg) = x # seg" if "n \<le> snd x" using that by simp
    have miss: "dropWhile (\<lambda>s. snd s < n) (x # seg) = dropWhile (\<lambda>s. snd s < n) seg" if "\<not> n \<le> snd x"
      using that by simp
    show ?thesis
      unfolding first_node_feasible_time_def earliest_fit_def seg Let_def list.sel
      using s(2) \<open>xs \<noteq> []\<close> hit miss gt
      by (cases "n \<le> snd x"; cases "dropWhile (\<lambda>s. snd s < n) seg") (simp_all del: dropWhile_eq_Nil_conv dropWhile.simps)
  qed
  show ?thesis
  proof (cases "earliest_fit xs n 0 start")
    case (Some t)
    then show ?thesis using earliest_fit_SomeD[OF assms Some] by (simp add: e fits_def)
  qed (simp add: e)
qed

lemma drain_results_law:
  assumes "wf_tl xs" "origin xs = now" "0 \<le> u"
  shows "now \<le> fst cur \<Longrightarrow> list_all (\<lambda>x. now \<le> fst x) (snd (snd cur)) \<Longrightarrow>
    map de_job (drain_results u xs cur area pls) = map pp_job pls \<and>
    list_all2 (\<lambda>pl e. if pp_reserved pl then de_start e = the (pp_reservation pl) \<and> de_kind e = RESERVED
       else de_kind e = ESTIMATED \<and> now \<le> de_start e \<and> (de_start e = dbl_inf \<or> pp_nodes pl \<le> cap xs (de_start e)))
      pls (drain_results u xs cur area pls)"
proof (induction pls arbitrary: cur area)
  case (Cons pl pls)
  show ?case
  proof (cases "pp_reserved pl")
    case False
    obtain r t acc seg where c: "time_for_area u area cur = (r, t, acc, seg)" by (metis prod.exhaust)
    then have l: "now \<le> r" "now \<le> t" "list_all (\<lambda>x. now \<le> fst x) seg"
      using time_for_area_law[OF assms(3), of now "fst cur" "snd (snd cur)" area "fst (snd cur)" r t acc seg] Cons.prems
      by simp_all
    then show ?thesis
      using False Cons.IH[of "(t, acc, seg)"] first_node_law[OF assms(1), of r "pp_nodes pl"] assms(2) c
      by (auto intro: order_trans)
  qed (use Cons in simp)
qed simp

lemma drain_estimates_law:
  assumes "get_queue_drain_start_times pending_job_ids utilization depth s = Inr ests"
  shows "isfinite utilization \<and> 0 \<le> utilization \<and> utilization \<le> dbl 1 \<and>
    map de_job ests = take_depth depth (pending_job_ids (m_scheduler s)) \<and>
    (\<exists>pls final. drain_plans drain_fit drain_reserve (m_params s) (m_current_time s) (m_trace s) (query_profile s) (False, 0)
        (take_depth depth (pending_job_ids (m_scheduler s))) = Inr (pls, final) \<and>
      (\<forall>t. m_current_time s \<le> t \<longrightarrow> reserved_load pls t + unat (cap final t) = unat (cap (query_profile s) t)) \<and>
      list_all2 (\<lambda>pl e. m_current_time s \<le> de_start e \<and>
        (if pp_reserved pl then de_kind e = RESERVED \<and> fits (query_profile s) (pp_nodes pl) (pp_limit pl) (de_start e)
         else de_kind e = ESTIMATED \<and> (de_start e = dbl_inf \<or> pp_nodes pl \<le> cap (query_profile s) (de_start e)))) pls ests)"
proof -
  let ?now = "m_current_time s" and ?xs = "query_profile s" and ?ids = "take_depth depth (pending_job_ids (m_scheduler s))"
    and ?u = "if utilization = 0 then dbl 1 else utilization"
  have u: "isfinite utilization" "0 \<le> utilization" "utilization \<le> dbl 1"
    using assms by (auto simp: get_queue_drain_start_times_def not_less split: if_splits)
  obtain pls final where p: "drain_plans drain_fit drain_reserve (m_params s) ?now (m_trace s) ?xs (False, 0) ?ids = Inr (pls, final)"
    and e: "ests = drain_results ?u final (?now, 0, final) 0 pls"
    using assms by (auto simp: get_queue_drain_start_times_def split: if_splits sum.splits)
  have wf: "wf_tl ?xs" "origin ?xs = ?now" using query_profile_law[of s] by simp_all
  note l = drain_plans_law[OF p wf]
  have le: "cap final t \<le> cap ?xs t" if "?now \<le> t" for t
    using l that by (metis le_add2 word_le_nat_alt)
  have keys: "list_all (\<lambda>x. ?now \<le> fst x) final"
    using l by (cases final) (auto simp: wf_tl_def origin_def list_all_iff less_imp_le)
  have "0 \<le> ?u" using u(2) by (simp add: dbl_zero dbl_le)
  from drain_results_law[OF _ _ this, of final ?now "(?now, 0, final)" 0 pls] l keys
  have r: "map de_job ests = ?ids" "list_all2 (\<lambda>pl e. if pp_reserved pl then de_start e = the (pp_reservation pl) \<and> de_kind e = RESERVED
       else de_kind e = ESTIMATED \<and> ?now \<le> de_start e \<and> (de_start e = dbl_inf \<or> pp_nodes pl \<le> cap final (de_start e))) pls ests"
    by (simp_all add: e)
  have "list_all2 (\<lambda>pl e. ?now \<le> de_start e \<and>
      (if pp_reserved pl then de_kind e = RESERVED \<and> fits ?xs (pp_nodes pl) (pp_limit pl) (de_start e)
       else de_kind e = ESTIMATED \<and> (de_start e = dbl_inf \<or> pp_nodes pl \<le> cap ?xs (de_start e)))) pls ests"
  proof (rule list.rel_mono_strong[OF r(2)], goal_cases)
    case (1 pl e)
    have "plan_ok ?now (m_trace s) ?xs pl" using l 1(1) by (simp add: list_all_iff)
    then show ?case using 1(3) le[of "de_start e"] by (auto simp: plan_ok_def intro: order_trans split: if_splits)
  qed
  then show ?thesis using u r(1) p l by blast
qed

section \<open>The profile of a query is the plan of the scheduler\<close>

lemma change_deltas_skip: "skip_due now ref cs = (ref', cs') \<Longrightarrow> change_deltas now ref' cs' = change_deltas now ref cs"
  by (induction now ref cs rule: skip_due.induct) (auto split: if_splits)

lemma available_balance:
  "initial_balance (set_capacity_outlook (m_current_capacity s) (get_nodes_occupied (m_trace s)) cs b) (get_available_nodes s) =
   uint (m_current_capacity s) - uint (get_nodes_occupied (m_trace s))"
proof -
  let ?c = "m_current_capacity s" and ?o = "get_nodes_occupied (m_trace s)"
  have "uint (?c - ?o) = uint ?c - uint ?o" if "?o < ?c" 
    using that uint_minus_simple_alt[of ?o ?c] by (simp add: less_imp_le)
  moreover have "?c - ?o \<noteq> 0" if "?o < ?c" using that by auto
  ultimately show ?thesis
    by (auto simp: initial_balance_def set_capacity_outlook_def get_available_nodes_def Let_def not_less order_le_less)
qed

lemma query_profile_plan:
  assumes "b' = set_capacity_outlook (m_current_capacity s) (get_nodes_occupied (m_trace s))
    (drop (m_next_capacity_change s) (m_capacity_changes s)) b"
  shows "same_cap (m_current_time s) (query_profile s)
    (reservation_timeline b' (get_available_nodes s) (m_running_jobs s) (m_current_time s) [])"
proof -
  let ?now = "m_current_time s"
  obtain ref cs where sk: "skip_due ?now (m_outlook_capacity b') (m_outlook_changes b') = (ref, cs)" by (metis prod.exhaust)
  define ds where "ds = release_deltas ?now (map snd (m_running_jobs s)) @ change_deltas ?now ref cs"
  have after: "\<forall>x\<in>set (sort ds). ?now < fst x"
    by (auto simp: ds_def release_deltas_def dest: change_deltas_after)
  have "initial_balance b' (get_available_nodes s) + delta_sum ds t = query_balance s t" for t
    using change_deltas_skip[OF sk]
    by (simp add: ds_def delta_sum_release query_balance_def assms available_balance)
      (simp add: set_capacity_outlook_def)
  moreover have "reservation_timeline b' (get_available_nodes s) (m_running_jobs s) ?now [] =
    (?now, clamp (initial_balance b' (get_available_nodes s))) # profile_loop (initial_balance b' (get_available_nodes s)) (sort ds)"
    by (simp add: reservation_timeline_def sk ds_def Let_def release_deltas_def)
  ultimately have "cap (reservation_timeline b' (get_available_nodes s) (m_running_jobs s) ?now []) t = clamp (query_balance s t)"
    if "?now \<le> t" for t
    using profile_loop_correct[OF sorted_map_fst_sort after, of "0" "initial_balance b' (get_available_nodes s)" t] that by simp
  then show ?thesis using query_profile_law[of s] unfolding same_cap_def by simp
qed

end
