(* ===== verification/Replay.thy ===== *)
theory Replay
  imports Trace_Laws
begin

text \<open>
  Replaying recorded history: \<^verbatim>\<open>BasicTrace::run_job_trace\<close> and \<^verbatim>\<open>write_resource_trace\<close>
  (\<^verbatim>\<open>src/src/trace/trace.cpp\<close>).  No scheduler is involved: the jobs are walked in store order, the events
  before each submission are processed, and the recorded start and end of the job enter the queue.  The
  laws say that a replay returns, and what it leaves.
\<close>

section \<open>The code\<close>

definition write_resource_trace :: "bool \<Rightarrow> num_nodes \<Rightarrow> 'g trace \<Rightarrow> 'g trace" where
  "write_resource_trace opens total_nodes tr =
     (if \<not> opens then tr
      else flush_resource_history (if m_resource_trace_ofs tr = None then start_resource_trace opens total_nodes tr else tr))"

definition enqueue_recorded :: "job_no \<Rightarrow> job_record \<Rightarrow> 'g trace \<Rightarrow> 'g trace" where
  "enqueue_recorded i j tr =
     (let q = evtq_insert (job_event i (convert_epoch (m_t_begin j)) Arrival) (m_evtq tr);
          q = evtq_insert (job_event i (convert_epoch (m_t_end j)) Departure) q
      in (set_job i (set_busy_nodes (m_n_nodes_in_use tr) False j) tr)\<lparr>m_evtq := q, m_replay_jobs_enqueued := Suc i\<rparr>)"

text \<open>The loop from the job \<open>i\<close> on, with the number of jobs left.\<close>

fun replay_walk :: "'g delay_math \<Rightarrow> sim_time \<Rightarrow> job_no \<Rightarrow> nat \<Rightarrow> 'g trace \<Rightarrow> exn + 'g trace" where
  "replay_walk dm max_time i 0 tr = Inr tr"
| "replay_walk dm max_time i (Suc k) tr =
     (case job_at tr i of
        Inl x \<Rightarrow> Inl x
      | Inr j \<Rightarrow>
          let t = convert_epoch (m_t_submit j) in
          if max_time < t then Inr tr
          else (case process_events_until dm t tr of
                  Inl x \<Rightarrow> Inl x
                | Inr tr \<Rightarrow>
                    (case job_at tr i of
                       Inl x \<Rightarrow> Inl x
                     | Inr j \<Rightarrow> replay_walk dm max_time (Suc i) k (enqueue_recorded i j tr))))"

text \<open>\<open>max_stamp\<close> is the clock value of \<^verbatim>\<open>convert_time(max_tstamp)\<close>, which depends on the time zone.\<close>

definition run_job_trace ::
  "'g delay_math \<Rightarrow> sim_time \<Rightarrow> bool \<Rightarrow> num_nodes \<Rightarrow> sim_time \<Rightarrow> 'g trace \<Rightarrow> exn + 'g trace" where
  "run_job_trace dm max_stamp opens total_nodes max_time tr =
     (if m_data tr = [] then Inr tr
      else if m_trace_mode tr \<noteq> REPLAY then Inl Runtime_Error
      else let tr = start_resource_trace opens total_nodes tr in
        case replay_walk dm max_time (m_num_reclaimed tr) (length (m_data tr)) tr of
          Inl x \<Rightarrow> Inl x
        | Inr tr \<Rightarrow>
            (case (if max_time = dbl_max then process_events_until dm max_stamp tr else run_until_inclusive dm max_time tr) of
               Inl x \<Rightarrow> Inl x
             | Inr tr \<Rightarrow> Inr (write_resource_trace opens total_nodes tr)))"

section \<open>What the processing of events leaves of the store\<close>

definition replay_frame :: "'g trace \<Rightarrow> 'g trace \<Rightarrow> bool" where
  "replay_frame tr tr' \<longleftrightarrow> m_trace_mode tr' = m_trace_mode tr \<and> m_replay_jobs_enqueued tr' = m_replay_jobs_enqueued tr"

lemma frame_refl: "replay_frame tr tr" and frame_trans: "replay_frame a b \<Longrightarrow> replay_frame b c \<Longrightarrow> replay_frame a c"
  by (simp_all add: replay_frame_def)

lemma frame_line: "replay_frame tr (write_job_line j tr)"
  by (simp add: replay_frame_def write_job_line_def Let_def)

lemma frame_flush:
  assumes "flush_completed_jobs_impl now tr = Inr tr'"
  shows "replay_frame tr tr'"
proof -
  have f: "replay_frame tr (fold (\<lambda>j tr. if P j then write_job_line j tr else tr) js tr)" for P js and tr :: "'a trace"
    by (induction js arbitrary: tr) (auto intro: frame_refl frame_trans frame_line)
  have w: "replay_frame tr tr1" if "write_job_range js i now tr = Inr tr1" for js i tr1
    using that f[of tr "\<lambda>j. is_scheduled j \<and> convert_epoch (m_t_end j) \<le> now"]
    by (auto simp: write_job_range_def Let_def replay_frame_def split: if_splits)
  show ?thesis using assms w
    by (fastforce simp: flush_completed_jobs_impl_def Let_def replay_frame_def pop_front_jobs_def
        flush_simulated_trace_buffer_def split: sum.splits if_splits option.splits)
qed

lemma evtq_insertD: "f \<in> set (evtq_insert e q) \<Longrightarrow> f = e \<or> f \<in> set q"
  using evtq_insert_set[of e q] by blast

lemma frame_account: "account_event dm e tr = Inr tr' \<Longrightarrow> replay_frame tr tr' \<and> m_data tr' = m_data tr \<and>
    m_num_reclaimed tr' = m_num_reclaimed tr \<and> ev_job ` set (m_evtq tr') \<subseteq> insert (ev_job e) (ev_job ` set (m_evtq tr))"
  by (auto simp: account_event_def replay_frame_def finish_job_nodes_def release_event_def job_event_def Let_def
      split: sum.splits if_splits prod.splits dest!: evtq_insertD)

lemma frame_sample: "replay_frame tr (record_resource_sample t n tr)"
  by (simp add: replay_frame_def record_resource_sample_def resolve_resource_history_capacity_def
      flush_resource_history_def Let_def split: option.split)

lemma process_loop_frame:
  "process_loop dm t d tr = Inr (d', tr') \<Longrightarrow> replay_frame tr tr' \<and> m_data tr' = m_data tr \<and>
    m_num_reclaimed tr' = m_num_reclaimed tr \<and> ev_job ` set (m_evtq tr') \<subseteq> ev_job ` set (m_evtq tr)"
proof (induction dm t d tr rule: process_loop.induct)
  case (1 dm t d tr)
  show ?case
  proof (cases "m_evtq tr")
    case Nil
    then show ?thesis using 1(2) by (simp add: process_loop.simps[of dm t d tr] frame_refl)
  next
    case (Cons e q)
    show ?thesis
    proof (cases "t < ev_time e")
      case True
      then show ?thesis using 1(2) Cons by (simp add: process_loop.simps[of dm t d tr] frame_refl)
    next
      case False
      then obtain tr1 where a: "account_event dm e (tr\<lparr>m_evtq := q\<rparr>) = Inr tr1"
        using 1(2) Cons by (auto simp: process_loop.simps[of dm t d tr] split: sum.splits)
      let ?tr2 = "record_resource_sample (ev_time e) (m_n_nodes_in_use tr1) tr1"
      have "process_loop dm t (if ev_kind e = Departure then Suc d else d) ?tr2 = Inr (d', tr')"
        using 1(2) Cons False a by (simp add: process_loop.simps[of dm t d tr])
      note ih = 1(1)[OF Cons False a this]
      have "replay_frame (tr\<lparr>m_evtq := q\<rparr>) tr1" "replay_frame ?tr2 tr'" using ih frame_account[OF a] by simp_all
      then have "replay_frame (tr\<lparr>m_evtq := q\<rparr>) tr'" by (rule frame_trans[OF frame_trans[OF _ frame_sample]])
      then have "replay_frame tr tr'" by (simp add: replay_frame_def)
      moreover have "ev_job ` set (m_evtq tr1) \<subseteq> ev_job ` set (m_evtq tr)" using frame_account[OF a] Cons by auto
      moreover have "ev_job ` set (m_evtq tr') \<subseteq> ev_job ` set (m_evtq tr1)" using ih by simp
      ultimately show ?thesis using ih frame_account[OF a] by (simp add: subset_trans)
    qed
  qed
qed

text \<open>A record that was not enqueued stays in the store.\<close>

definition replayable :: "sim_time \<Rightarrow> sim_time \<Rightarrow> job_record \<Rightarrow> bool" where
  "replayable hz fin j \<longleftrightarrow> convert_epoch (m_t_submit j) \<le> hz \<and> convert_epoch (m_t_end j) \<le> fin \<and> m_t_submit j \<noteq> unscheduled_sentinel \<and> convert_epoch (m_t_begin j) \<le> convert_epoch (m_t_end j)"

definition replay_ok :: "sim_time \<Rightarrow> sim_time \<Rightarrow> job_no \<Rightarrow> job_no \<Rightarrow> 'g trace \<Rightarrow> bool" where
  "replay_ok hz fin i stop tr \<longleftrightarrow> trace_ok tr \<and> m_trace_mode tr = REPLAY \<and> m_replay_jobs_enqueued tr \<le> i \<and> m_num_reclaimed tr \<le> i \<and>
     num_jobs tr = stop \<and> list_all (replayable hz fin) (m_data tr) \<and> (\<forall>e\<in>set (m_evtq tr). ev_job e < i)"

lemma flush_kept:
  assumes "flush_completed_jobs_impl now tr = Inr tr'" "m_trace_mode tr = REPLAY" "m_replay_jobs_enqueued tr \<le> i"
    "m_num_reclaimed tr \<le> i" "list_all (replayable hz fin) (m_data tr)"
  shows "m_num_reclaimed tr' \<le> i \<and> list_all (replayable hz fin) (m_data tr') \<and> num_jobs tr' = num_jobs tr"
proof -
  let ?n = "reclaimable_prefix tr now (m_num_reclaimed tr) (m_data tr)"
  have d: "dropped ?n tr tr'" using flush_completed_keeps[OF assms(1)] by simp
  have "?n \<le> i - m_num_reclaimed tr"
  proof (rule ccontr)
    assume "\<not> ?thesis"
    then have "i - m_num_reclaimed tr < ?n" by simp
    from reclaimable_prefix_all[OF this] assms(3-5) show False
      using assms(2) by (auto simp: is_job_reclaimable_def list_all_length replayable_def)
  qed
  then show ?thesis using d num_jobs_dropped[OF d] assms(4,5)
    by (auto simp: dropped_def list_all_iff dest: in_set_dropD)
qed

lemma process_events_until_replay:
  assumes "replay_ok hz fin i stop tr"
  shows "\<exists>tr'. process_events_until dm t tr = Inr tr' \<and> replay_ok hz fin i stop tr' \<and> replay_frame tr tr' \<and>
    (m_evtq tr' = [] \<or> t < ev_time (hd (m_evtq tr')))"
proof (cases "m_evtq tr = []")
  case True
  then show ?thesis using assms by (simp add: process_events_until_def frame_refl)
next
  case False
  have ok: "trace_ok tr" using assms by (simp add: replay_ok_def)
  obtain d tr1 where a: "process_loop dm t 0 tr = Inr (d, tr1)" "trace_ok tr1"
    "m_evtq tr1 = [] \<or> t < ev_time (hd (m_evtq tr1))"
    using process_loop_ok[OF ok] by blast
  have r: "replay_ok hz fin i stop tr1"
    using assms a(2) process_loop_frame[OF a(1)] by (fastforce simp: replay_ok_def replay_frame_def num_jobs_def)
  obtain tr2 where b: "maybe_flush_completed_jobs t d tr1 = Inr tr2" "trace_ok tr2" "m_evtq tr2 = m_evtq tr1"
    using maybe_flush_ok[OF a(2)] by blast
  have "replay_ok hz fin i stop tr2 \<and> replay_frame tr1 tr2"
  proof (cases "\<exists>n. flush_completed_jobs_impl t (tr1\<lparr>m_departures_since_job_flush := n\<rparr>) = Inr tr2")
    case True
    then obtain n where f: "flush_completed_jobs_impl t (tr1\<lparr>m_departures_since_job_flush := n\<rparr>) = Inr tr2" ..
    show ?thesis using flush_kept[OF f, of i hz fin] frame_flush[OF f] r b
      by (simp add: replay_ok_def replay_frame_def num_jobs_def)
  next
    case no: False
    then have "m_data tr2 = m_data tr1 \<and> m_num_reclaimed tr2 = m_num_reclaimed tr1 \<and> replay_frame tr1 tr2"
      using b(1) by (auto simp: maybe_flush_completed_jobs_def Let_def replay_frame_def split: if_splits)
    then show ?thesis using r b by (simp add: replay_ok_def replay_frame_def num_jobs_def)
  qed
  moreover have "replay_frame tr tr1" using process_loop_frame[OF a(1)] by simp
  ultimately show ?thesis using False a b r frame_trans by (auto simp: process_events_until_def)
qed

section \<open>The walk\<close>

lemma enqueue_recorded_ok:
  assumes ok: "trace_ok tr" and j: "job_at tr i = Inr j" "replayable hz fin j" and new: "\<forall>e\<in>set (m_evtq tr). ev_job e < i"
  shows "trace_ok (enqueue_recorded i j tr)"
proof -
  let ?q = "m_evtq tr" and ?a = "job_event i (convert_epoch (m_t_begin j)) Arrival"
    and ?d = "job_event i (convert_epoch (m_t_end j)) Departure"
  define tr1 where "tr1 = set_job i (set_busy_nodes (m_n_nodes_in_use tr) False j) tr"
  define q2 where "q2 = evtq_insert ?d (evtq_insert ?a ?q)"
  have e: "enqueue_recorded i j tr = tr1\<lparr>m_evtq := q2, m_replay_jobs_enqueued := Suc i\<rparr>"
    by (simp add: enqueue_recorded_def tr1_def q2_def Let_def)
  have at: "job_at tr1 k = (if k = i then Inr (set_busy_nodes (m_n_nodes_in_use tr) False j) else job_at tr k)" for k
    using job_at_set_job[OF j(1)] by (simp add: tr1_def)
  have b: "m_t_submit (set_busy_nodes n False j) = m_t_submit j" "m_t_end (set_busy_nodes n False j) = m_t_end j"
    "m_num_nodes (set_busy_nodes n False j) = m_num_nodes j" for n
    by (simp_all add: set_busy_nodes_def)
  have n1: "m_n_nodes_in_use tr1 = m_n_nodes_in_use tr" "m_n_nodes_releasing tr1 = m_n_nodes_releasing tr"
    by (simp_all add: tr1_def set_job_def)
  have fresh: "(i, k) \<notin> (\<lambda>e. (ev_job e, ev_kind e)) ` set ?q" for k using new by auto
  have q: "queue_ok ?q" and w: "write_ok tr1" using ok by (auto simp: trace_ok_def tr1_def set_job_def write_ok_def)
  have qa: "ev_key ?a \<notin> ev_key ` set ?q" "queue_ok (evtq_insert ?a ?q)"
    using queue_ok_insert[OF q, of ?a] fresh by (simp_all add: job_event_def)
  have sa: "set (evtq_insert ?a ?q) = insert ?a (set ?q)"
    using evtq_insert_mset[OF qa(1)] by (metis set_mset_add_mset_insert set_mset_mset)
  have fresh2: "(i, Departure) \<notin> (\<lambda>e. (ev_job e, ev_kind e)) ` set (evtq_insert ?a ?q)"
    "(i, Release) \<notin> (\<lambda>e. (ev_job e, ev_kind e)) ` set (evtq_insert ?a ?q)"
    unfolding sa using fresh by (simp_all add: job_event_def)
  have qd: "ev_key ?d \<notin> ev_key ` set (evtq_insert ?a ?q)" "queue_ok q2"
    using queue_ok_insert[OF qa(2), of ?d] fresh2 by (simp_all add: q2_def job_event_def)
  have p0: "pend tr1 k ?q = pend tr k ?q" for k using new at by (intro pend_cong) auto
  have p: "pend tr1 k q2 = event_nodes tr1 k ?d + (event_nodes tr1 k ?a + pend tr k ?q)" for k
    unfolding q2_def pend_insert[OF qd(1)] pend_insert[OF qa(1)] p0 ..
  have "event_ok tr1 ?d" "event_ok tr1 ?a"
    using j(2) by (simp_all add: event_ok_def job_event_def at b replayable_def)
  moreover have "event_ok tr1 f" if "f \<in> set ?q" for f using that ok new by (auto simp: trace_ok_def event_ok_def at)
  ultimately have ev: "event_ok tr1 f" if "f \<in> set q2" for f
    using that evtq_insertD[of f ?d "evtq_insert ?a ?q"] unfolding q2_def sa by blast
  show ?thesis unfolding e
    using ok qd(2) ev
    by (intro trace_okI[OF w]) (simp_all add: p trace_ok_def n1 event_nodes_def job_event_def nodes_of_def at b algebra_simps)
qed

lemma replay_ok_step:
  assumes ok: "replay_ok hz fin i stop tr" and i: "i < stop" and j: "job_at tr i = Inr j"
  shows "replay_ok hz fin (Suc i) stop (enqueue_recorded i j tr)"
proof -
  have r: "replayable hz fin j" using ok j by (auto simp: replay_ok_def job_at_def list_all_length Let_def split: if_splits)
  have "replayable hz fin (set_busy_nodes n False j)" for n using r by (simp add: replayable_def set_busy_nodes_def)
  then have "list_all (replayable hz fin) (m_data (enqueue_recorded i j tr))"
    using ok by (auto simp: replay_ok_def enqueue_recorded_def Let_def set_job_def list_all_iff
        dest!: subsetD[OF set_update_subset_insert])
  moreover have "\<forall>e\<in>set (m_evtq (enqueue_recorded i j tr)). ev_job e < Suc i"
    using ok by (auto simp: replay_ok_def enqueue_recorded_def Let_def job_event_def less_Suc_eq dest!: evtq_insertD)
  moreover have "m_trace_mode (enqueue_recorded i j tr) = m_trace_mode tr" "m_replay_jobs_enqueued (enqueue_recorded i j tr) = Suc i"
    "m_num_reclaimed (enqueue_recorded i j tr) = m_num_reclaimed tr" "num_jobs (enqueue_recorded i j tr) = num_jobs tr"
    by (simp_all add: enqueue_recorded_def Let_def set_job_def num_jobs_def)
  ultimately show ?thesis
    using ok enqueue_recorded_ok[of tr i j] r j by (simp add: replay_ok_def)
qed

lemma replay_job: "replay_ok hz fin i stop tr \<Longrightarrow> i < stop \<Longrightarrow> \<exists>j. job_at tr i = Inr j"
  by (auto simp: replay_ok_def num_jobs_def job_at_def Let_def)

lemma replay_walk_ok:
  "replay_ok hz fin i stop tr \<Longrightarrow> i + k = stop \<Longrightarrow>
   \<exists>i' tr'. replay_walk dm max_time i k tr = Inr tr' \<and> replay_ok hz fin i' stop tr' \<and>
     (hz \<le> max_time \<longrightarrow> 0 < k \<longrightarrow> m_replay_jobs_enqueued tr' = stop)"
proof (induction k arbitrary: i tr)
  case 0
  then show ?case by auto
next
  case (Suc k)
  have i: "i < stop" using Suc.prems(2) by simp
  obtain j where j: "job_at tr i = Inr j" using replay_job[OF Suc.prems(1) i] ..
  have r: "convert_epoch (m_t_submit j) \<le> hz"
    using Suc.prems(1) j by (auto simp: replay_ok_def job_at_def list_all_length Let_def replayable_def split: if_splits)
  show ?case
  proof (cases "max_time < convert_epoch (m_t_submit j)")
    case True
    then have "\<not> hz \<le> max_time" using r by simp
    then show ?thesis using True j Suc.prems(1) by auto
  next
    case False
    obtain tr1 where p: "process_events_until dm (convert_epoch (m_t_submit j)) tr = Inr tr1" "replay_ok hz fin i stop tr1"
      using process_events_until_replay[OF Suc.prems(1)] by blast
    obtain j1 where j1: "job_at tr1 i = Inr j1" using replay_job[OF p(2) i] ..
    have s: "Suc i + k = stop" using Suc.prems(2) by simp
    have "m_replay_jobs_enqueued (enqueue_recorded i j1 tr1) = Suc i" by (simp add: enqueue_recorded_def Let_def)
    then show ?thesis using Suc.IH[OF replay_ok_step[OF p(2) i j1] s] False j p(1) j1 s by (cases k) auto
  qed
qed

lemma start_resource_keeps: "m_data (start_resource_trace b n tr) = m_data tr"
  "m_num_reclaimed (start_resource_trace b n tr) = m_num_reclaimed tr"
  "m_next_job_to_write (start_resource_trace b n tr) = m_next_job_to_write tr"
  "m_evtq (start_resource_trace b n tr) = m_evtq tr" "m_n_nodes_in_use (start_resource_trace b n tr) = m_n_nodes_in_use tr"
  "m_n_nodes_releasing (start_resource_trace b n tr) = m_n_nodes_releasing tr"
  "m_trace_mode (start_resource_trace b n tr) = m_trace_mode tr"
  "m_replay_jobs_enqueued (start_resource_trace b n tr) = m_replay_jobs_enqueued tr"
  by (auto simp: start_resource_trace_def Let_def)

lemma write_resource_keeps: "m_data (write_resource_trace b n tr) = m_data tr"
  "m_num_reclaimed (write_resource_trace b n tr) = m_num_reclaimed tr"
  "m_next_job_to_write (write_resource_trace b n tr) = m_next_job_to_write tr"
  "m_evtq (write_resource_trace b n tr) = m_evtq tr" "m_n_nodes_in_use (write_resource_trace b n tr) = m_n_nodes_in_use tr"
  "m_n_nodes_releasing (write_resource_trace b n tr) = m_n_nodes_releasing tr"
  "m_replay_jobs_enqueued (write_resource_trace b n tr) = m_replay_jobs_enqueued tr"
  by (simp_all add: write_resource_trace_def flush_resource_history_def start_resource_keeps split: option.split)

text \<open>A loaded history that has not been replayed.\<close>

definition unreplayed :: "sim_time \<Rightarrow> sim_time \<Rightarrow> 'g trace \<Rightarrow> bool" where
  "unreplayed hz fin tr \<longleftrightarrow> trace_ok tr \<and> m_trace_mode tr = REPLAY \<and> m_replay_jobs_enqueued tr \<le> m_num_reclaimed tr \<and>
     m_evtq tr = [] \<and> m_data tr \<noteq> [] \<and> list_all (replayable hz fin) (m_data tr)"

lemma run_until_replay:
  "replay_ok hz fin i stop tr \<Longrightarrow> \<exists>tr'. run_until_inclusive dm t tr = Inr tr' \<and> replay_ok hz fin i stop tr' \<and> replay_frame tr tr'"
proof (induction dm t tr rule: run_until_inclusive.induct)
  case (1 dm t tr)
  show ?case
  proof (cases "m_evtq tr = [] \<or> ev_time (hd (m_evtq tr)) > t")
    case True
    then show ?thesis using 1(2) by (auto simp: run_until_inclusive.simps[of dm t tr] frame_refl)
  next
    case False
    obtain tr1 where a: "process_events_until dm (ev_time (hd (m_evtq tr))) tr = Inr tr1" "replay_ok hz fin i stop tr1"
      "replay_frame tr tr1"
      using process_events_until_replay[OF 1(2)] by blast
    then show ?thesis using 1(1)[OF _ refl, of tr1] False frame_trans[OF a(3)]
      by (auto simp: run_until_inclusive.simps[of dm t tr])
  qed
qed

lemma run_job_trace_law:
  assumes u: "unreplayed hz fin tr" and st: "stop = (if max_time = dbl_max then max_stamp else max_time)"
  shows "\<exists>tr'. run_job_trace dm max_stamp opens total_nodes max_time tr = Inr tr' \<and> trace_ok tr' \<and>
    (\<forall>e\<in>set (m_evtq tr'). stop < ev_time e) \<and> num_jobs tr' = num_jobs tr \<and>
    (hz \<le> max_time \<longrightarrow> m_replay_jobs_enqueued tr' = num_jobs tr) \<and> (fin \<le> stop \<longrightarrow> m_n_nodes_in_use tr' = 0)"
proof -
  let ?tr0 = "start_resource_trace opens total_nodes tr"
  note k = start_resource_keeps[of opens total_nodes tr]
  have t: "trace_ok tr" using u by (simp add: unreplayed_def)
  have "trace_ok ?tr0" using t by (intro trace_okI[of tr]) (simp_all add: k trace_ok_def)
  then have "replay_ok hz fin (m_num_reclaimed tr) (num_jobs tr) ?tr0" using u k by (simp add: unreplayed_def replay_ok_def num_jobs_def)
  moreover have "m_num_reclaimed tr + length (m_data tr) = num_jobs tr" "0 < length (m_data tr)"
    using u by (simp_all add: num_jobs_def unreplayed_def)
  ultimately obtain i tr1 where w: "replay_walk dm max_time (m_num_reclaimed tr) (length (m_data tr)) ?tr0 = Inr tr1"
    "replay_ok hz fin i (num_jobs tr) tr1" "hz \<le> max_time \<longrightarrow> m_replay_jobs_enqueued tr1 = num_jobs tr"
    using replay_walk_ok by blast
  let ?last = "if max_time = dbl_max then process_events_until dm max_stamp tr1 else run_until_inclusive dm max_time tr1"
  have ok1: "trace_ok tr1" using w(2) by (simp add: replay_ok_def)
  obtain tr2 where f: "?last = Inr tr2" "replay_ok hz fin i (num_jobs tr) tr2" "replay_frame tr1 tr2"
    using process_events_until_replay[OF w(2), of dm max_stamp] run_until_replay[OF w(2), of dm max_time] by (cases "max_time = dbl_max") auto
  have ok2: "trace_ok tr2" using f(2) by (simp add: replay_ok_def)
  have after: "\<forall>e\<in>set (m_evtq tr2). stop < ev_time e"
  proof (cases "max_time = dbl_max")
    case True
    then have "m_evtq tr2 = [] \<or> max_stamp < ev_time (hd (m_evtq tr2))"
      using process_events_until_ok[OF ok1, of dm max_stamp] f(1) by auto
    then show ?thesis using True st ok2 evtq_front_least[of "hd (m_evtq tr2)" "tl (m_evtq tr2)"]
      by (cases "m_evtq tr2") (auto simp: trace_ok_def queue_ok_def intro: less_le_trans)
  next
    case False
    then show ?thesis using run_until_inclusive_ok[OF ok1, of dm max_time] f(1) st by auto
  qed
  have "m_n_nodes_in_use tr2 = 0" if "fin \<le> stop"
  proof -
    have rel: "ev_kind e = Release" if e: "e \<in> set (m_evtq tr2)" for e
    proof (rule ccontr)
      assume "ev_kind e \<noteq> Release"
      then obtain j where j: "job_at tr2 (ev_job e) = Inr j" "ev_time e \<le> convert_epoch (m_t_end j)"
        using pending_job[OF ok2 e] by blast
      have "convert_epoch (m_t_end j) \<le> fin"
        using f(2) j(1) by (auto simp: replay_ok_def job_at_def list_all_length Let_def replayable_def split: if_splits)
      then show False using j(2) after e \<open>fin \<le> stop\<close> by (meson leD order_trans)
    qed
    have "pend tr2 c (m_evtq tr2) = 0" if "c \<noteq> Release" for c
    proof -
      have "map (event_nodes tr2 c) (m_evtq tr2) = map (\<lambda>_. 0) (m_evtq tr2)"
        using rel that by (intro map_cong) (auto simp: event_nodes_def)
      then show ?thesis by (simp add: pend_def map_replicate_const sum_list_replicate)
    qed
    then show ?thesis using ok2 by (simp add: trace_ok_def)
  qed
  moreover have "m_data tr \<noteq> []" "m_trace_mode tr = REPLAY" using u by (simp_all add: unreplayed_def)
  then have "run_job_trace dm max_stamp opens total_nodes max_time tr = Inr (write_resource_trace opens total_nodes tr2)"
    using w(1) f(1) k by (simp add: run_job_trace_def Let_def)
  moreover have "trace_ok (write_resource_trace opens total_nodes tr2)"
    using ok2 write_resource_keeps[of opens total_nodes tr2] by (intro trace_okI[of tr2]) (simp_all add: trace_ok_def)
  ultimately show ?thesis using after f(2,3) w(3)
    by (simp add: write_resource_keeps num_jobs_def replay_ok_def replay_frame_def)
qed

end
