(* ===== verification/Simulation_Runs.thy ===== *)
theory Simulation_Runs
  imports Simulation_Schedulers Replay
begin

text \<open>
  The entry points of \<^verbatim>\<open>BasicSimulation\<close> (\<^verbatim>\<open>src/src/sim/sim.cpp\<close>) above the event loop: the batch append, the
  sampled run times, the loading of a trace, and \<^verbatim>\<open>run()\<close> with its batch, replay and progressive branches.
  The simulation starts at time zero (no warm start) and writes no checkpoint.  What a loader read from a file
  is an argument; the random engine and the distributions of \<^verbatim>\<open><random>\<close> are arguments.  \<open>available\<close> and
  \<open>record_size\<close> are those of \<^verbatim>\<open>check_memory_pressure\<close>.
\<close>

section \<open>Appending a batch\<close>

record sim_request =
  sr_submit_time :: sim_time
  sr_num_nodes :: num_nodes
  sr_queue :: nat
  sr_limit_time :: tdiff
  sr_actual_run_time :: "tdiff option"

definition check_request :: "('s, 'g) simulation \<Rightarrow> sim_request \<Rightarrow> exn + unit" where
  "check_request s r =
     (if sr_submit_time r < m_current_time s then Inl Runtime_Error
      else if sr_submit_time r < m_latest_submit_time s then Inl Invalid_Argument
      else case checked_streaming_limit (sr_limit_time r) of
        Inl e \<Rightarrow> Inl e
      | Inr limit \<Rightarrow> if bad_actual limit (sr_actual_run_time r) then Inl Invalid_Argument else Inr ())"

fun check_requests :: "('s, 'g) simulation \<Rightarrow> sim_request list \<Rightarrow> exn + unit" where
  "check_requests s [] = Inr ()"
| "check_requests s (r # rs) = (case check_request s r of Inl e \<Rightarrow> Inl e | Inr _ \<Rightarrow> check_requests s rs)"

definition stored_limit :: "sim_request \<Rightarrow> 32 word" where
  "stored_limit r = word_of_int (dbl_trunc (sr_limit_time r))"

definition trace_request :: "sim_request \<Rightarrow> append_request" where
  "trace_request r = \<lparr>ar_submit_time = to_epoch (sr_submit_time r), ar_num_nodes = sr_num_nodes r, ar_queue = sr_queue r,
     ar_limit_time = stored_limit r, ar_actual_run_time = sr_actual_run_time r\<rparr>"

fun submit_appended ::
  "'s scheduler_ops \<Rightarrow> (job_no \<times> sim_request) list \<Rightarrow> ('s, 'g) simulation \<Rightarrow> exn + ('s, 'g) simulation" where
  "submit_appended ops [] s = Inr s"
| "submit_appended ops ((i, r) # rs) s =
     (case submit_job ops i (sr_submit_time r) (sr_submit_time r) s of
        Inl e \<Rightarrow> Inl e
      | Inr s \<Rightarrow>
          (case record_appended_job i (sr_submit_time r) (sr_num_nodes r) (dbl (uint (stored_limit r))) s of
             Inl e \<Rightarrow> Inl e
           | Inr s \<Rightarrow> submit_appended ops rs s))"

definition sim_append_jobs ::
  "'s scheduler_ops \<Rightarrow> nat \<Rightarrow> nat \<Rightarrow> sim_request list \<Rightarrow> ('s, 'g) simulation \<Rightarrow> exn + (job_no list \<times> ('s, 'g) simulation)" where
  "sim_append_jobs ops available record_size rs s =
     (let s = open_outputs s in
      case check_requests s rs of
        Inl e \<Rightarrow> Inl e
      | Inr _ \<Rightarrow>
          (case append_jobs available record_size (m_current_time s) (map trace_request rs) (m_trace s) of
             Inl e \<Rightarrow> Inl e
           | Inr (ids, tr) \<Rightarrow>
               (case submit_appended ops (zip ids rs) (s\<lparr>m_trace := tr\<rparr>) of Inl e \<Rightarrow> Inl e | Inr s \<Rightarrow> Inr (ids, s))))"

section \<open>Run times\<close>

text \<open>The distributions of the standard library on the engine state \<open>'r\<close>, and \<^verbatim>\<open>std::log\<close>.\<close>

record 'r sampling =
  sm_normal :: "double \<Rightarrow> double \<Rightarrow> 'r \<Rightarrow> double \<times> 'r"
  sm_lognormal :: "double \<Rightarrow> double \<Rightarrow> 'r \<Rightarrow> double \<times> 'r"
  sm_uniform :: "double \<Rightarrow> double \<Rightarrow> 'r \<Rightarrow> double \<times> 'r"
  sm_log :: "double \<Rightarrow> double"

text \<open>In the uniform case a local \<^verbatim>\<open>min_run_time\<close> hides the floor declared before the switch.\<close>

definition sample_run_time :: "'r sampling \<Rightarrow> distribution_type \<Rightarrow> double \<Rightarrow> double \<Rightarrow> tdiff \<Rightarrow> 'r \<Rightarrow> tdiff \<times> 'r" where
  "sample_run_time sm distr scale stddev limit rng =
     (if limit \<le> 0 then (0, rng)
      else let min_run_time = min (dbl 1) limit in
        case distr of
          NORMAL \<Rightarrow>
            let (t, rng) = sm_normal sm (limit * scale) (limit * stddev) rng
            in (min limit (max min_run_time t), rng)
        | LOGNORMAL \<Rightarrow>
            let (t, rng) = sm_lognormal sm (sm_log sm (limit * scale)) stddev rng
            in (min limit (max min_run_time t), rng)
        | DT_UNIFORM \<Rightarrow>
            let min_run_time = limit * scale;
                max_run_time = limit * (scale + stddev);
                (t, rng) = sm_uniform sm min_run_time max_run_time rng
            in (max min_run_time t, rng))"

definition params_sample :: "'r sampling \<Rightarrow> sim_params \<Rightarrow> tdiff \<Rightarrow> 'r \<Rightarrow> tdiff \<times> 'r" where
  "params_sample sm p = sample_run_time sm (p_run_time_distribution p) (p_run_time_scale p) (p_run_time_stddev p)"

text \<open>The overload of \<^verbatim>\<open>determine_job_run_time\<close> for given jobs.\<close>

fun determine_run_time_of ::
  "run_time_mode \<Rightarrow> (tdiff \<Rightarrow> 'r \<Rightarrow> tdiff \<times> 'r) \<Rightarrow> job_no list \<Rightarrow> 'r \<Rightarrow> 'g trace \<Rightarrow> exn + ('g trace \<times> 'r)" where
  "determine_run_time_of mode sample [] rng tr = Inr (tr, rng)"
| "determine_run_time_of mode sample (i # is) rng tr =
     (case job_at tr i of
        Inl e \<Rightarrow> Inl e
      | Inr j \<Rightarrow> let (j, rng) = determine_one_job_run_time mode sample j rng
                 in determine_run_time_of mode sample is rng (set_job i j tr))"

section \<open>Loading\<close>

definition configure_node_release_delay :: "'g \<Rightarrow> ('s, 'g) simulation \<Rightarrow> exn + ('s, 'g) simulation" where
  "configure_node_release_delay seed s =
     (let p = m_params s in
      case validate_node_release_delay (p_node_release_delay p) (p_node_release_delay_spread p) of
        Inl e \<Rightarrow> Inl e
      | Inr _ \<Rightarrow>
          if \<not> node_release_delay_requested (p_node_release_delay p) (p_node_release_delay_model p) (p_node_release_delay_spread p)
          then Inr s
          else (case new_release_delay (p_node_release_delay p) (p_node_release_delay_model p) (p_node_release_delay_spread p) seed of
                  Inl e \<Rightarrow> Inl e
                | Inr d \<Rightarrow> Inr (s\<lparr>m_trace := (m_trace s)\<lparr>m_release_delay := d\<rparr>\<rparr>)))"

text \<open>The reset both loading paths end with; the batch path also forgets the appended jobs.\<close>

definition reset_counters :: "('s, 'g) simulation \<Rightarrow> ('s, 'g) simulation" where
  "reset_counters s = (reset_capacity_schedule (s\<lparr>m_current_time := 0\<rparr>))\<lparr>m_jobs_submitted := 0, m_jobs_started := 0,
     m_latest_submit_time := - dbl_inf, m_jobs_completed := 0, m_jobs_releasing := 0, m_next_backfill_evaluation := dbl_max,
     m_periodic_backfill_dirty := True\<rparr>"

text \<open>\<open>load n\<close> is what the loader of the trace policy returns for at most \<open>n\<close> jobs (zero: all of them).\<close>

definition initialize_trace ::
  "'r sampling \<Rightarrow> (nat \<Rightarrow> job_record list option) \<Rightarrow> nat \<Rightarrow> 'r \<Rightarrow> ('s, 'g) simulation \<Rightarrow> exn + (nat \<times> 'r \<times> ('s, 'g) simulation)" where
  "initialize_trace sm load max_jobs rng s =
     (case load (if 0 < max_jobs then max_jobs else p_max_jobs (m_params s)) of
        None \<Rightarrow> Inl Runtime_Error
      | Some loaded \<Rightarrow>
          (case load_data loaded ((m_trace s)\<lparr>m_data := []\<rparr>) of
             Inl e \<Rightarrow> Inl e
           | Inr tr \<Rightarrow>
               let js = sort_key m_t_submit (m_data tr);
                   (js, rng) = (if m_trace_mode tr = SIMULATION
                     then determine_job_run_time (p_run_time_mode (m_params s)) (params_sample sm (m_params s)) js rng else (js, rng));
                   s = (reset_counters (s\<lparr>m_trace := tr\<lparr>m_data := js\<rparr>\<rparr>))
                         \<lparr>m_first_appended_job_idx := 18446744073709551615, m_appended_job_query_records := []\<rparr>
               in Inr (length js, rng, s)))"

section \<open>The run\<close>

definition run_limit :: "sim_params \<Rightarrow> sim_time" where
  "run_limit p = (case p_max_time p of None \<Rightarrow> dbl_max | Some t \<Rightarrow> t)"

definition open_traces :: "('s, 'g) simulation \<Rightarrow> ('s, 'g) simulation" where
  "open_traces s = s\<lparr>m_trace := start_resource_trace (p_resource_trace_opens (m_params s)) (p_total_nodes (m_params s))
     (start_simulated_trace (p_outfile_opens (m_params s)) (m_trace s))\<rparr>"

text \<open>The counting loop of the replay branch, over the records with their identifiers: \<^verbatim>\<open>replay_end\<close> and the state.\<close>

fun count_replayed :: "job_no \<Rightarrow> job_record list \<Rightarrow> sim_time \<times> ('s, 'g) simulation \<Rightarrow> sim_time \<times> ('s, 'g) simulation" where
  "count_replayed i [] (replay_end, s) = (replay_end, s)"
| "count_replayed i (j # js) (replay_end, s) =
     (let p = m_params s; b = convert_epoch (m_t_begin j); e = convert_epoch (m_t_end j) in
      count_replayed (Suc i) js
        (if convert_epoch (m_t_submit j) \<le> run_limit p
         then (max replay_end e,
               if e \<le> run_limit p then s\<lparr>m_jobs_completed := m_jobs_completed s + 1\<rparr>
               else if p_max_time p \<noteq> None \<and> b \<le> run_limit p
               then s\<lparr>m_running_jobs := alist_put i \<lparr>rj_start_time = b, rj_run_time = e - b, rj_nodes = m_num_nodes j\<rparr> (m_running_jobs s)\<rparr>
               else s)
         else (replay_end, s)))"

definition run_replay :: "'g delay_math \<Rightarrow> sim_time \<Rightarrow> ('s, 'g) simulation \<Rightarrow> exn + ('s, 'g) simulation" where
  "run_replay dm max_stamp s =
     (let p = m_params s;
          (replay_end, s) = count_replayed (m_num_reclaimed (m_trace s)) (m_data (m_trace s)) (m_current_time s, s)
      in case run_job_trace dm max_stamp False (p_total_nodes p) (run_limit p) (m_trace s) of
           Inl e \<Rightarrow> Inl e
         | Inr tr \<Rightarrow> Inr (s\<lparr>m_trace := tr, m_current_time := (case p_max_time p of None \<Rightarrow> replay_end | Some _ \<Rightarrow> run_limit p)\<rparr>))"

text \<open>The files of a progressive run: each is what its loader read.\<close>

fun run_files ::
  "'s scheduler_ops \<Rightarrow> 'g delay_math \<Rightarrow> 'r sampling \<Rightarrow> nat \<Rightarrow> nat \<Rightarrow> job_record list option list \<Rightarrow> 'r \<Rightarrow> ('s, 'g) simulation \<Rightarrow>
   (exn + ('s, 'g) simulation) option" where
  "run_files ops dm sm available record_size [] rng s = Some (Inr s)"
| "run_files ops dm sm available record_size (f # fs) rng s =
     (let p = m_params s in
      case load_next_file available record_size (m_current_time s) f (m_trace s) of
        Inl e \<Rightarrow> Some (Inl e)
      | Inr (ids, tr) \<Rightarrow>
          if ids = [] then run_files ops dm sm available record_size fs rng (s\<lparr>m_trace := tr\<rparr>)
          else (case (if m_trace_mode tr = SIMULATION
                      then determine_run_time_of (p_run_time_mode p) (params_sample sm p) ids rng tr else Inr (tr, rng)) of
                  Inl e \<Rightarrow> Some (Inl e)
                | Inr (tr, rng) \<Rightarrow>
                    (case submit_all ops ids (s\<lparr>m_trace := tr\<rparr>) of
                       Inl e \<Rightarrow> Some (Inl e)
                     | Inr s \<Rightarrow>
                         (case job_at (m_trace s) (List.last ids) of
                            Inl e \<Rightarrow> Some (Inl e)
                          | Inr j \<Rightarrow>
                              let last_submit_time = convert_epoch (m_t_submit j);
                                  limit = (case p_max_time p of None \<Rightarrow> last_submit_time | Some t \<Rightarrow> t)
                              in (case advance_to ops dm (min last_submit_time limit) s of
                                    None \<Rightarrow> None
                                  | Some (Inl e) \<Rightarrow> Some (Inl e)
                                  | Some (Inr s) \<Rightarrow>
                                      if (case p_max_time p of None \<Rightarrow> False | Some t \<Rightarrow> t \<le> last_submit_time) then Some (Inr s)
                                      else run_files ops dm sm available record_size fs rng s)))))"

definition run_progressive ::
  "'s scheduler_ops \<Rightarrow> 'g delay_math \<Rightarrow> 'r sampling \<Rightarrow> nat \<Rightarrow> nat \<Rightarrow> job_record list option list \<Rightarrow> 'r \<Rightarrow> ('s, 'g) simulation \<Rightarrow>
   (exn + ('s, 'g) simulation) option" where
  "run_progressive ops dm sm available record_size files rng s =
     (let p = m_params s;
          s = reset_counters (s\<lparr>m_trace := (m_trace s)\<lparr>m_data := []\<rparr>\<rparr>);
          s = open_traces (s\<lparr>m_trace := (m_trace s)\<lparr>m_resource_history_capacity := p_resource_history_capacity p\<rparr>\<rparr>)
      in case run_files ops dm sm available record_size files rng s of
           None \<Rightarrow> None
         | Some (Inl e) \<Rightarrow> Some (Inl e)
         | Some (Inr s) \<Rightarrow> if m_current_time s < run_limit p then advance_to ops dm (run_limit p) s else Some (Inr s))"

definition run ::
  "'s scheduler_ops \<Rightarrow> 'g delay_math \<Rightarrow> 'r sampling \<Rightarrow> sim_time \<Rightarrow> nat \<Rightarrow> nat \<Rightarrow> (nat \<Rightarrow> job_record list option) \<Rightarrow>
   job_record list option list \<Rightarrow> 'r \<Rightarrow> ('s, 'g) simulation \<Rightarrow> (exn + ('s, 'g) simulation) option" where
  "run ops dm sm max_stamp available record_size load files rng s =
     (let p = m_params s in
      if \<not> p_checkpoint_file p \<and> p_checkpoint_interval_jobs p \<noteq> 0 then Some (Inl Invalid_Argument)
      else if (case p_max_time p of None \<Rightarrow> False | Some t \<Rightarrow> \<not> isfinite t \<or> t < 0) then Some (Inl Invalid_Argument)
      else let s = s\<lparr>m_trace := (m_trace s)\<lparr>m_job_store_capacity := p_job_store_capacity p, m_job_store_overflow := p_job_store_overflow p,
                       m_job_flush_interval := p_job_flush_interval p, m_memory_pressure_fraction := p_memory_pressure_fraction p\<rparr>\<rparr> in
        if p_infile_list p
        then if m_trace_mode (m_trace s) = REPLAY then Some (Inl Runtime_Error)
             else run_progressive ops dm sm available record_size files rng s
        else case initialize_trace sm load 0 rng s of
          Inl e \<Rightarrow> Some (Inl e)
        | Inr (n, rng, s) \<Rightarrow>
            let s = s\<lparr>m_trace := (m_trace s)\<lparr>m_resource_history_capacity := p_resource_history_capacity p\<rparr>\<rparr> in
            if m_trace_mode (m_trace s) = REPLAY
            then Some (run_replay dm max_stamp (open_traces (s\<lparr>m_trace := (m_trace s)\<lparr>m_release_delay_from := dbl_inf\<rparr>\<rparr>)))
            else run_batch ops dm (p_max_time p) (open_traces s))"

section \<open>Bounds of the sampled run times\<close>

lemma sample_run_time_law:
  assumes "0 < limit" "distr \<noteq> DT_UNIFORM"
  shows "min (dbl 1) limit \<le> fst (sample_run_time sm distr scale stddev limit rng) \<and>
    fst (sample_run_time sm distr scale stddev limit rng) \<le> limit \<and> 0 < fst (sample_run_time sm distr scale stddev limit rng)"
proof -
  have "(0::double) < dbl 1" by (simp add: dbl_simps)
  then have m: "min (dbl 1) limit \<le> limit" "0 < min (dbl 1) limit" using assms(1) by simp_all
  have "min (dbl 1) limit \<le> min limit (max (min (dbl 1) limit) t)" for t using m(1) by simp
  then show ?thesis using assms m(2) less_le_trans[OF m(2)] not_le[of limit 0]
    by (cases distr) (simp_all add: sample_run_time_def Let_def case_prod_beta)
qed

text \<open>In the uniform case only the sampler bounds the run time from below.\<close>

lemma sample_uniform:
  assumes "0 < limit" "fst (sm_uniform sm (limit * scale) (limit * (scale + stddev)) rng) = limit * scale"
  shows "fst (sample_run_time sm DT_UNIFORM scale stddev limit rng) = limit * scale"
  using assms not_le[of limit 0] by (simp add: sample_run_time_def Let_def case_prod_beta)

section \<open>Appending\<close>

definition request_valid :: "('s, 'g) simulation \<Rightarrow> sim_request \<Rightarrow> bool" where
  "request_valid s r \<longleftrightarrow> m_current_time s \<le> sr_submit_time r \<and> m_latest_submit_time s \<le> sr_submit_time r \<and>
     isfinite (sr_limit_time r) \<and> 0 < sr_limit_time r \<and> sr_limit_time r \<le> dbl 4294967295 \<and>
     dbl (dbl_trunc (sr_limit_time r)) = sr_limit_time r \<and>
     (\<forall>a. sr_actual_run_time r = Some a \<longrightarrow> isfinite a \<and> 0 < a \<and> a \<le> dbl (uint (stored_limit r)))"

lemma check_request_law: "check_request s r = Inr () \<longleftrightarrow> request_valid s r"
  by (auto simp: check_request_def request_valid_def checked_streaming_limit_def bad_actual_def stored_limit_def not_less
      split: option.split if_splits)

lemma check_requests_law: "check_requests s rs = Inr () \<longleftrightarrow> list_all (request_valid s) rs"
  by (induction rs) (auto simp: check_request_law[symmetric] split: sum.split)

lemma checked_limit_stored: "checked_streaming_limit (sr_limit_time r) = Inr w \<Longrightarrow> w = stored_limit r"
  by (auto simp: checked_streaming_limit_def stored_limit_def split: if_splits)

text \<open>In the store, a batch of one request is an append.\<close>

lemma grow_cap_one: "n = c \<Longrightarrow> grow_cap (n + 1) c = max (c * 2) 1"
  by (subst grow_cap.simps, subst grow_cap.simps) auto

lemma resolve_fixed: "m_job_store_capacity_resolved tr \<Longrightarrow> resolve_job_store_capacity n tr = tr"
  by (simp add: resolve_job_store_capacity_def)

lemma reclaim_overflow:
  "reclaim_front_jobs now k True tr =
     (case reclaim_front_jobs now k False tr of
        Inl e \<Rightarrow> Inl e
      | Inr tr' \<Rightarrow> if m_data_capacity tr < length (m_data tr) + k \<and> data_full tr' then grow_or_abort tr' else Inr tr')"
  by (simp add: reclaim_front_jobs_def Let_def split: sum.split)

lemma reclaim_length:
  assumes "reclaim_front_jobs now k False tr = Inr tr'" "length (m_data tr) \<le> m_data_capacity tr"
  shows "length (m_data tr') \<le> m_data_capacity tr'"
proof -
  have f: "m_data_capacity (flush_simulated_trace_buffer t) = m_data_capacity t" for t :: "'a trace"
    by (simp add: flush_simulated_trace_buffer_def split: option.split)
  have w: "m_data_capacity t' = m_data_capacity t \<and> m_data t' = m_data t"
    if "(if n \<noteq> 0 then write_job_range js i now t else Inr t) = Inr t'" for n js i and t t' :: "'a trace"
    using that write_job_range_keeps[of js i now t t'] by (auto split: if_splits)
  show ?thesis using assms w
    by (fastforce simp: reclaim_front_jobs_def Let_def pop_front_jobs_def f split: sum.splits if_splits)
qed

lemma reclaim_fraction:
  assumes "reclaim_front_jobs now k False tr = Inr tr'"
  shows "m_memory_pressure_fraction tr' = m_memory_pressure_fraction tr"
proof -
  have "m_memory_pressure_fraction (fold (\<lambda>j tr. if P j then write_job_line j tr else tr) js t) = m_memory_pressure_fraction t"
    for P js and t :: "'a trace"
    by (induction js arbitrary: t) (simp_all add: write_job_line_def Let_def)
  then have w: "m_memory_pressure_fraction t' = m_memory_pressure_fraction t"
    if "(if n \<noteq> 0 then write_job_range js i now t else Inr t) = Inr t'" for n js i and t t' :: "'a trace"
    using that by (auto simp: write_job_range_def Let_def split: if_splits)
  have f: "m_memory_pressure_fraction (flush_simulated_trace_buffer t) = m_memory_pressure_fraction t" for t :: "'a trace"
    by (simp add: flush_simulated_trace_buffer_def split: option.split)
  show ?thesis using assms w
    by (fastforce simp: reclaim_front_jobs_def Let_def pop_front_jobs_def f split: sum.splits if_splits)
qed

lemma append_one:
  assumes mem: "m_memory_pressure_fraction tr = 0" and len: "length (m_data (resolve_job_store_capacity (length (m_data tr)) tr)) \<le>
    m_data_capacity (resolve_job_store_capacity (length (m_data tr)) tr)"
  shows "append_jobs available record_size now [req] tr = map_sum id (\<lambda>(i, tr). ([i], tr)) (append_job now req tr)"
proof -
  define tr0 where "tr0 = resolve_job_store_capacity (length (m_data tr)) tr"
  have mem0: "m_memory_pressure_fraction tr0 = 0" using mem by (simp add: tr0_def resolve_job_store_capacity_def Let_def)
  show ?thesis
  proof (cases "reclaim_front_jobs now 1 False tr0")
    case (Inl e)
    then show ?thesis
      by (simp add: append_jobs_eq ensure_batch_capacity_eq append_job_def Let_def tr0_def[symmetric] reclaim_overflow)
  next
    case (Inr tr1)
    have l: "length (m_data tr1) \<le> m_data_capacity tr1" using reclaim_length[OF Inr] len by (simp add: tr0_def)
    have same: "m_memory_pressure_fraction tr1 = 0" using reclaim_fraction[OF Inr] mem0 by simp
    have fl: "m_data_capacity tr0 < length (m_data tr0) + 1 \<or> \<not> data_full tr1"
      using Inr by (cases "m_data_capacity tr0 < length (m_data tr0) + 1") (auto simp: reclaim_front_jobs_def data_full_def)
    have full: "data_full tr1 \<longleftrightarrow> m_data_capacity tr1 < length (m_data tr1) + 1" using l by (auto simp: data_full_def)
    have g: "grow_or_abort tr1 = (if m_job_store_overflow tr1 = ABORT then Inl Runtime_Error
       else Inr (tr1\<lparr>m_data_capacity := grow_cap (length (m_data tr1) + 1) (m_data_capacity tr1)\<rparr>))" if "data_full tr1"
      using that grow_cap_one[of "length (m_data tr1)" "m_data_capacity tr1"] by (simp add: grow_or_abort_def data_full_def)
    have nf: "\<not> data_full tr2" if "grow_or_abort tr1 = Inr tr2" "data_full tr1" for tr2
      using that by (auto simp: grow_or_abort_def data_full_def split: if_splits)
    have R: "reclaim_front_jobs now 1 True tr0 = (if data_full tr1 then grow_or_abort tr1 else Inr tr1)"
      using fl unfolding reclaim_overflow Inr by auto
    have E: "ensure_batch_capacity available record_size now 1 tr = (if data_full tr1 then grow_or_abort tr1 else Inr tr1)"
      using full g unfolding ensure_batch_capacity_eq Let_def tr0_def[symmetric] Inr sum.case same by simp
    show ?thesis
    proof (cases "data_full tr1")
      case False
      then show ?thesis using R E by (simp add: append_jobs_eq append_job_def Let_def tr0_def[symmetric])
    next
      case True
      then show ?thesis using R E nf
        by (cases "grow_or_abort tr1") (simp_all add: append_jobs_eq append_job_def Let_def tr0_def[symmetric])
    qed
  qed
qed

text \<open>The job store within its capacity, once that is resolved, and no memory check.\<close>

definition store_open :: "'g trace \<Rightarrow> bool" where
  "store_open tr \<longleftrightarrow> m_memory_pressure_fraction tr = 0 \<and>
     length (m_data tr) \<le> m_data_capacity (resolve_job_store_capacity (length (m_data tr)) tr)"

lemma append_one_open:
  "store_open tr \<Longrightarrow> append_jobs available record_size now [req] tr = map_sum id (\<lambda>(i, tr). ([i], tr)) (append_job now req tr)"
  by (rule append_one) (simp_all add: store_open_def)

lemma open_outputs_keeps:
  "m_current_time (open_outputs s) = m_current_time s" "m_latest_submit_time (open_outputs s) = m_latest_submit_time s"
  "store_open (m_trace (open_outputs s)) = store_open (m_trace s)"
  by (auto simp: open_outputs_def store_open_def start_resource_trace_def start_simulated_trace_def Let_def
      resolve_job_store_capacity_def)

lemma check_request_open: "check_request (open_outputs s) r = check_request s r"
  by (simp add: check_request_def open_outputs_keeps)

lemma sim_append_one:
  assumes "store_open (m_trace s)"
  shows "sim_append_jobs ops available record_size [r] s =
    map_sum id (\<lambda>(i, s). ([i], s))
      (sim_append_job ops (sr_submit_time r) (sr_num_nodes r) (sr_queue r) (sr_limit_time r) (sr_actual_run_time r) s)"
proof (cases "check_request s r")
  case (Inl e)
  then have "check_requests (open_outputs s) [r] = Inl e" by (simp add: check_request_open)
  moreover have "sim_append_job ops (sr_submit_time r) (sr_num_nodes r) (sr_queue r) (sr_limit_time r) (sr_actual_run_time r) s = Inl e"
    using Inl by (auto simp: check_request_def sim_append_job_def split: sum.splits if_splits)
  ultimately show ?thesis by (simp add: sim_append_jobs_def Let_def)
next
  case (Inr u)
  then have ok: "check_requests (open_outputs s) [r] = Inr ()"
    by (simp add: check_request_open)
  have lim: "checked_streaming_limit (sr_limit_time r) = Inr (stored_limit r)"
    "\<not> bad_actual (stored_limit r) (sr_actual_run_time r)" "\<not> sr_submit_time r < m_current_time s"
    "\<not> sr_submit_time r < m_latest_submit_time s"
    using Inr checked_limit_stored[of r] by (auto simp: check_request_def split: sum.splits if_splits)
  let ?app = "append_job (m_current_time s) (trace_request r) (m_trace (open_outputs s))"
  have b: "append_jobs available record_size (m_current_time s) [trace_request r] (m_trace (open_outputs s)) =
      map_sum id (\<lambda>(i, tr). ([i], tr)) ?app"
    using assms by (intro append_one_open) (simp add: open_outputs_keeps)
  have "sim_append_job ops (sr_submit_time r) (sr_num_nodes r) (sr_queue r) (sr_limit_time r) (sr_actual_run_time r) s =
      (case ?app of Inl e \<Rightarrow> Inl e
       | Inr (i, tr) \<Rightarrow>
          (case submit_job ops i (sr_submit_time r) (sr_submit_time r) ((open_outputs s)\<lparr>m_trace := tr\<rparr>) of
             Inl e \<Rightarrow> Inl e
           | Inr s \<Rightarrow>
               (case record_appended_job i (sr_submit_time r) (sr_num_nodes r) (dbl (uint (stored_limit r))) s of
                  Inl e \<Rightarrow> Inl e | Inr s \<Rightarrow> Inr (i, s))))"
    using lim by (simp add: sim_append_job_def Let_def trace_request_def open_outputs_keeps)
  then show ?thesis
    using ok b by (cases ?app) (auto simp: sim_append_jobs_def Let_def open_outputs_keeps split: sum.split)
qed

section \<open>The whole run\<close>

lemma store_loaded_grow:
  "m_job_store_overflow tr = GROW \<Longrightarrow> \<exists>c. store_loaded js tr = Inr (tr\<lparr>m_data := m_data tr @ js, m_data_capacity := c\<rparr>)"
proof (induction js arbitrary: tr)
  case Nil
  show ?case by (intro exI[of _ "m_data_capacity tr"]) simp
next
  case (Cons j js)
  let ?tr = "if data_full tr then tr\<lparr>m_data_capacity := max (m_data_capacity tr * 2) 1\<rparr> else tr"
  have "m_job_store_overflow (?tr\<lparr>m_data := m_data ?tr @ [j]\<rparr>) = GROW" using Cons.prems by simp
  from Cons.IH[OF this] obtain c where
    "store_loaded js (?tr\<lparr>m_data := m_data ?tr @ [j]\<rparr>) = Inr (tr\<lparr>m_data := m_data tr @ j # js, m_data_capacity := c\<rparr>)"
    by (auto split: if_splits)
  then show ?case using Cons.prems by (intro exI[of _ c]) (auto simp: grow_or_abort_def)
qed

definition run_records :: "'r sampling \<Rightarrow> sim_params \<Rightarrow> 'r \<Rightarrow> job_record list \<Rightarrow> job_record list" where
  "run_records sm p rng loaded = fst (determine_job_run_time (p_run_time_mode p) (params_sample sm p) (sort_key m_t_submit loaded) rng)"

text \<open>Parameters of a batch run: no list of files, a growing store, a time limit that \<^verbatim>\<open>run\<close> accepts.\<close>

definition batch_params :: "sim_params \<Rightarrow> bool" where
  "batch_params p \<longleftrightarrow> (p_checkpoint_file p \<or> p_checkpoint_interval_jobs p = 0) \<and> \<not> p_infile_list p \<and>
     p_job_store_overflow p = GROW \<and> (\<forall>t. p_max_time p = Some t \<longrightarrow> isfinite t \<and> 0 \<le> t)"

lemma load_data_grow:
  assumes "m_job_store_overflow tr = GROW" "m_data tr = []"
  shows "\<exists>c. load_data loaded tr = Inr (tr\<lparr>m_job_store_capacity_resolved := True, m_data := sort_key m_t_submit loaded, m_data_capacity := c\<rparr>)"
proof -
  have "\<exists>c. resolve_job_store_capacity (length loaded) tr = tr\<lparr>m_data_capacity := c, m_job_store_capacity_resolved := True\<rparr>"
  proof (cases "m_job_store_capacity_resolved tr")
    case True
    then have "resolve_job_store_capacity (length loaded) tr = tr\<lparr>m_data_capacity := m_data_capacity tr, m_job_store_capacity_resolved := True\<rparr>"
      by (cases tr) (simp add: resolve_job_store_capacity_def)
    then show ?thesis ..
  next
    case False
    then show ?thesis unfolding resolve_job_store_capacity_def Let_def by (intro exI) (simp only: if_False)
  qed
  then obtain c where c: "resolve_job_store_capacity (length loaded) tr = tr\<lparr>m_data_capacity := c, m_job_store_capacity_resolved := True\<rparr>" ..
  from store_loaded_grow[of "tr\<lparr>m_data_capacity := c, m_job_store_capacity_resolved := True\<rparr>" "sort_key m_t_submit loaded"]
  show ?thesis using assms by (simp add: load_data_def c)
qed

lemma initialize_law:
  assumes l: "load (p_max_jobs (m_params s)) = Some loaded" and o: "m_job_store_overflow (m_trace s) = GROW" "m_trace_mode (m_trace s) = SIMULATION"
  shows "\<exists>c rng2. initialize_trace sm load 0 rng s = Inr (length loaded, rng2,
      (reset_counters (s\<lparr>m_trace := (m_trace s)\<lparr>m_job_store_capacity_resolved := True,
         m_data_capacity := c, m_data := run_records sm (m_params s) rng loaded\<rparr>\<rparr>))
      \<lparr>m_first_appended_job_idx := 18446744073709551615, m_appended_job_query_records := []\<rparr>)"
proof -
  obtain c where c: "load_data loaded ((m_trace s)\<lparr>m_data := []\<rparr>) =
      Inr ((m_trace s)\<lparr>m_job_store_capacity_resolved := True, m_data := sort_key m_t_submit loaded, m_data_capacity := c\<rparr>)"
    using load_data_grow[of "(m_trace s)\<lparr>m_data := []\<rparr>" loaded] o by auto
  have so: "sort_key m_t_submit (sort_key m_t_submit loaded) = sort_key m_t_submit loaded"
    by (rule sort_key_id_if_sorted) simp
  have len: "length (fst (determine_job_run_time mode sample js r)) = length js" for mode sample js r
    by (induction js arbitrary: r) (simp_all add: case_prod_beta)
  show ?thesis using l o
    by (simp add: initialize_trace_def c so case_prod_beta Let_def run_records_def len) blast
qed

lemma trace_ok_unstarted:
  "m_evtq tr = [] \<Longrightarrow> m_n_nodes_in_use tr = 0 \<Longrightarrow> m_n_nodes_releasing tr = 0 \<Longrightarrow> write_ok tr \<Longrightarrow> trace_ok tr"
  by (simp add: trace_ok_def queue_ok_def evtq_ok_def pend_def)

lemma open_traces_unstarted:
  assumes "unstarted p recs s" "m_n_nodes_in_use (m_trace s) = 0" "m_n_nodes_releasing (m_trace s) = 0"
    "m_resource_recording_baseline (m_trace s) = None" "m_resource_trace_ofs (m_trace s) = None" "m_resource_history (m_trace s) = []"
  shows "unstarted p recs (open_traces s)"
  using assms
  by (auto simp: unstarted_def open_traces_def start_resource_trace_def start_simulated_trace_def Let_def make_resource_sample_def
      sampled_def samples_def trace_ok_def write_ok_def pend_def)

lemma run_batch_start:
  assumes p: "batch_params p" and l: "load (p_max_jobs p) = Some loaded"
  shows "\<exists>s0. run ops dm sm max_stamp available record_size load files rng (new_simulation p (new_trace SIMULATION rng') sc []) =
      run_batch ops dm (p_max_time p) s0 \<and> unstarted p (run_records sm p rng loaded) s0 \<and> m_scheduler s0 = sc"
proof -
  let ?s = "new_simulation p (new_trace SIMULATION rng') sc []"
  define s1 where "s1 = ?s\<lparr>m_trace := (m_trace ?s)\<lparr>m_job_store_capacity := p_job_store_capacity p, m_job_store_overflow := p_job_store_overflow p,
      m_job_flush_interval := p_job_flush_interval p, m_memory_pressure_fraction := p_memory_pressure_fraction p\<rparr>\<rparr>"
  have f: "m_params s1 = p" "m_job_store_overflow (m_trace s1) = GROW" "m_trace_mode (m_trace s1) = SIMULATION" "m_scheduler s1 = sc"
    "m_params ?s = p"
    using p by (simp_all add: s1_def new_simulation_def reset_capacity_schedule_def reset_resource_capacity_def new_trace_def batch_params_def)
  obtain c rng2 where i: "initialize_trace sm load 0 rng s1 = Inr (length loaded, rng2,
      (reset_counters (s1\<lparr>m_trace := (m_trace s1)\<lparr>m_job_store_capacity_resolved := True,
         m_data_capacity := c, m_data := run_records sm p rng loaded\<rparr>\<rparr>))
      \<lparr>m_first_appended_job_idx := 18446744073709551615, m_appended_job_query_records := []\<rparr>)"
    using initialize_law[of load s1 loaded sm rng] l f by auto
  define s2 where "s2 = (reset_counters (s1\<lparr>m_trace := (m_trace s1)\<lparr>m_job_store_capacity_resolved := True,
         m_data_capacity := c, m_data := run_records sm p rng loaded\<rparr>\<rparr>))
      \<lparr>m_first_appended_job_idx := 18446744073709551615, m_appended_job_query_records := []\<rparr>"
  define s3 where "s3 = s2\<lparr>m_trace := (m_trace s2)\<lparr>m_resource_history_capacity := p_resource_history_capacity p\<rparr>\<rparr>"
  have g: "unstarted p (run_records sm p rng loaded) s3" "m_n_nodes_in_use (m_trace s3) = 0" "m_n_nodes_releasing (m_trace s3) = 0"
    "m_resource_recording_baseline (m_trace s3) = None" "m_resource_trace_ofs (m_trace s3) = None" "m_resource_history (m_trace s3) = []"
    "m_trace_mode (m_trace s3) = SIMULATION" "m_scheduler s3 = sc"
    by (simp_all add: s3_def s2_def s1_def reset_counters_def unstarted_def new_simulation_def reset_capacity_schedule_def
        reset_resource_capacity_def new_trace_def trace_ok_unstarted write_ok_def sampled_def samples_def no_release_delay_def)
  have "run ops dm sm max_stamp available record_size load files rng ?s = run_batch ops dm (p_max_time p) (open_traces s3)"
    using p unfolding run_def Let_def f(5) s1_def[symmetric] i s2_def[symmetric] sum.case prod.case s3_def[symmetric] g(7)
    by (auto simp: batch_params_def split: option.split)
  moreover have "m_scheduler (open_traces s3) = sc" using g(8) by (simp add: open_traces_def)
  ultimately show ?thesis using open_traces_unstarted[OF g(1-6)] by blast
qed

context sim_scheduler
begin

lemma whole_run_law:
  assumes "batch_params p" "load (p_max_jobs p) = Some loaded" "fresh_scheduler sc" "well_posed D b p (run_records sm p rng loaded)"
    and t: "p_max_time p = None"
  shows "drains jobs p (run_records sm p rng loaded)
    (run ops dm sm max_stamp available record_size load files rng (new_simulation p (new_trace SIMULATION rng') sc []))"
proof -
  obtain s0 where s0: "run ops dm sm max_stamp available record_size load files rng (new_simulation p (new_trace SIMULATION rng') sc []) =
      run_batch ops dm (p_max_time p) s0" "unstarted p (run_records sm p rng loaded) s0" "m_scheduler s0 = sc"
    using run_batch_start[where load = load and loaded = loaded, OF assms(1,2), of ops dm sm max_stamp available record_size files rng rng' sc]
    by (elim exE conjE)
  show ?thesis unfolding s0(1) t by (rule batch_law[OF s0(2) _ assms(4)]) (simp add: s0(3) assms(3))
qed

lemma whole_run_until_law:
  assumes "batch_params p" "load (p_max_jobs p) = Some loaded" "fresh_scheduler sc" "well_posed D b p (run_records sm p rng loaded)"
    and t: "p_max_time p = Some t" "t < dbl_max"
  shows "stops_at jobs p (run_records sm p rng loaded) t
    (run ops dm sm max_stamp available record_size load files rng (new_simulation p (new_trace SIMULATION rng') sc []))"
proof -
  obtain s0 where s0: "run ops dm sm max_stamp available record_size load files rng (new_simulation p (new_trace SIMULATION rng') sc []) =
      run_batch ops dm (p_max_time p) s0" "unstarted p (run_records sm p rng loaded) s0" "m_scheduler s0 = sc"
    using run_batch_start[where load = load and loaded = loaded, OF assms(1,2), of ops dm sm max_stamp available record_size files rng rng' sc]
    by (elim exE conjE)
  have "0 \<le> t" using assms(1) t(1) by (simp add: batch_params_def)
  then show ?thesis unfolding s0(1) t(1) by (intro batch_until_law[OF s0(2) _ assms(4)]) (simp_all add: s0(3) assms(3) t(2))
qed

end

text \<open>The configurations \<^verbatim>\<open>run\<close> refuses before it loads anything.\<close>

lemma run_rejects:
  "(p_checkpoint_file (m_params s) = False \<and> p_checkpoint_interval_jobs (m_params s) \<noteq> 0) \<or>
     (\<exists>t. p_max_time (m_params s) = Some t \<and> (\<not> isfinite t \<or> t < 0)) \<Longrightarrow>
   run ops dm sm max_stamp available record_size load files rng s = Some (Inl Invalid_Argument)"
  by (auto simp: run_def Let_def)

end
