(* ===== verification/Simulation_Stats.thy ===== *)
theory Simulation_Stats
  imports Simulation_Drain Simulation_Runs
begin

text \<open>
  The read-only reports of \<^verbatim>\<open>BasicSimulation\<close> (\<^verbatim>\<open>src/src/sim/sim.hpp\<close>, \<^verbatim>\<open>sim.cpp\<close>): the shadow time of the queue
  head, the backfill window, and the statistics over the records in the store.
\<close>

section \<open>The backfill window\<close>

text \<open>\<open>reservation_time\<close> reads \<^verbatim>\<open>m_fcfs_reservation_time\<close> of the scheduler.\<close>

definition get_fcfs_head_shadow_time :: "'s scheduler_ops \<Rightarrow> ('s \<Rightarrow> sim_time) \<Rightarrow> ('s, 'g) simulation \<Rightarrow> sim_time" where
  "get_fcfs_head_shadow_time ops reservation_time s =
     (if so_active_job_count ops (m_scheduler s) = 0 then - dbl 1
      else let reservation = reservation_time (m_scheduler s) in if reservation = dbl_max then - dbl 1 else reservation)"

record backfill_window =
  bw_current_time :: sim_time
  bw_available_nodes :: num_nodes
  bw_shadow_time :: sim_time
  bw_releases :: "(sim_time \<times> num_nodes) list"

fun window_releases :: "sim_time \<Rightarrow> running_job list \<Rightarrow> (sim_time \<times> num_nodes) list \<Rightarrow> (sim_time \<times> num_nodes) list" where
  "window_releases now [] rel = rel"
| "window_releases now (j # js) rel =
     window_releases now js (if now < end_time j then add_release (end_time j) (rj_nodes j) rel else rel)"

definition get_backfill_window :: "'s scheduler_ops \<Rightarrow> ('s \<Rightarrow> sim_time) \<Rightarrow> ('s, 'g) simulation \<Rightarrow> backfill_window" where
  "get_backfill_window ops reservation_time s =
     \<lparr>bw_current_time = m_current_time s, bw_available_nodes = get_available_nodes s,
      bw_shadow_time = get_fcfs_head_shadow_time ops reservation_time s,
      bw_releases = window_releases (m_current_time s) (map snd (m_running_jobs s)) []\<rparr>"

section \<open>Statistics\<close>

record statistics =
  s_jobs_submitted :: nat
  s_jobs_started :: nat
  s_jobs_completed :: nat
  s_jobs_running :: "64 word"
  s_jobs_waiting :: nat
  s_current_time :: sim_time
  s_total_nodes :: num_nodes
  s_nodes_in_use :: num_nodes
  s_nodes_available :: num_nodes
  s_avg_wait_time :: tdiff
  s_avg_run_time :: tdiff
  s_avg_turnaround_time :: tdiff
  s_avg_bounded_slowdown :: double
  s_makespan :: sim_time
  s_resource_area :: tdiff
  s_utilization :: double

text \<open>The accumulators of the loop over the records.\<close>

record totals =
  t_wait :: tdiff
  t_run_time :: tdiff
  t_turnaround :: tdiff
  t_bounded_slowdown :: double
  t_max_completion :: sim_time
  t_max_scheduled_completion :: sim_time
  t_completed_count :: nat
  t_node_seconds :: tdiff

definition bounded_slowdown_threshold :: tdiff where
  "bounded_slowdown_threshold = dbl 10"

definition bounded_slowdown :: "tdiff \<Rightarrow> tdiff \<Rightarrow> double" where
  "bounded_slowdown wait exec = max (dbl 1) ((wait + exec) / max exec bounded_slowdown_threshold)"

definition add_record :: "sim_time \<Rightarrow> job_record \<Rightarrow> totals \<Rightarrow> totals" where
  "add_record now j t =
     (if \<not> is_scheduled j then t
      else let completion = convert_epoch (m_t_end j);
               t = t\<lparr>t_max_scheduled_completion := max (t_max_scheduled_completion t) completion,
                     t_node_seconds := t_node_seconds t + dbl (uint (m_num_nodes j)) * m_actual_run_time j\<rparr>
           in if completion \<le> now
              then let wait = get_wait_time j; exec = m_actual_run_time j
                   in t\<lparr>t_wait := t_wait t + wait, t_run_time := t_run_time t + exec,
                        t_turnaround := t_turnaround t + (wait + exec),
                        t_bounded_slowdown := t_bounded_slowdown t + bounded_slowdown wait exec,
                        t_max_completion := max (t_max_completion t) completion,
                        t_completed_count := t_completed_count t + 1\<rparr>
              else t)"

definition no_totals :: totals where
  "no_totals = \<lparr>t_wait = 0, t_run_time = 0, t_turnaround = 0, t_bounded_slowdown = 0, t_max_completion = 0,
     t_max_scheduled_completion = 0, t_completed_count = 0, t_node_seconds = 0\<rparr>"

definition average :: "nat \<Rightarrow> double \<Rightarrow> double" where
  "average n x = (if 0 < n then x / dbl (int n) else 0)"

text \<open>The branch for the standard schedulers, without a warm start.\<close>

definition get_statistics :: "'s scheduler_ops \<Rightarrow> ('s, 'g) simulation \<Rightarrow> statistics" where
  "get_statistics ops s =
     (let t = fold (add_record (m_current_time s)) (m_data (m_trace s)) no_totals;
          n = t_completed_count t;
          capacity_area = capacity_area_through (max (t_max_scheduled_completion t) 0) s
      in \<lparr>s_jobs_submitted = m_jobs_submitted s, s_jobs_started = m_jobs_started s, s_jobs_completed = m_jobs_completed s,
          s_jobs_running = of_nat (length (m_running_jobs s)) - m_jobs_releasing s,
          s_jobs_waiting = so_active_job_count ops (m_scheduler s), s_current_time = m_current_time s,
          s_total_nodes = p_total_nodes (m_params s), s_nodes_in_use = m_n_nodes_in_use (m_trace s),
          s_nodes_available = get_available_nodes s, s_avg_wait_time = average n (t_wait t),
          s_avg_run_time = average n (t_run_time t), s_avg_turnaround_time = average n (t_turnaround t),
          s_avg_bounded_slowdown = average n (t_bounded_slowdown t), s_makespan = t_max_completion t,
          s_resource_area = t_node_seconds t,
          s_utilization = (if 0 < capacity_area then t_node_seconds t / capacity_area else 0)\<rparr>)"

section \<open>Laws\<close>

text \<open>The releases of a window, up to a time, are the nodes the running jobs release by then.\<close>

definition release_sum :: "(sim_time \<times> num_nodes) list \<Rightarrow> sim_time \<Rightarrow> num_nodes" where
  "release_sum rel t = sum_list (map snd (filter (\<lambda>x. fst x \<le> t) rel))"

lemma add_release_law:
  assumes "sorted_wrt (<) (map fst rel)" "\<forall>x\<in>set rel. now < fst x" "now < t"
  shows "sorted_wrt (<) (map fst (add_release t n rel)) \<and> (\<forall>x\<in>set (add_release t n rel). now < fst x) \<and>
    fst ` set (add_release t n rel) = insert t (fst ` set rel) \<and>
    release_sum (add_release t n rel) u = release_sum rel u + (if t \<le> u then n else 0)"
  using assms
proof (induction t n rel rule: add_release.induct)
  case (2 t n k m rel)
  consider "t < k" | "t = k" | "k < t" by (rule linorder_cases)
  then show ?case
  proof cases
    case 3
    then have ih: "sorted_wrt (<) (map fst (add_release t n rel))" "\<forall>x\<in>set (add_release t n rel). now < fst x"
      "fst ` set (add_release t n rel) = insert t (fst ` set rel)"
      "release_sum (add_release t n rel) u = release_sum rel u + (if t \<le> u then n else 0)"
      using 2 by simp_all
    have "\<forall>y\<in>fst ` set (add_release t n rel). k < y" unfolding ih(3) using 3 2(2) by auto
    then show ?thesis using 3 ih 2(3) by (auto simp: release_sum_def)
  qed (use 2 in \<open>auto simp: release_sum_def\<close>)
qed (simp add: release_sum_def)

lemma window_releases_law:
  assumes "sorted_wrt (<) (map fst rel)" "\<forall>x\<in>set rel. now < fst x"
  shows "sorted_wrt (<) (map fst (window_releases now js rel)) \<and> (\<forall>x\<in>set (window_releases now js rel). now < fst x) \<and>
    release_sum (window_releases now js rel) u = release_sum rel u + word_of_int (released now js u)"
  using assms
proof (induction js arbitrary: rel)
  case (Cons j js)
  let ?rel = "if now < end_time j then add_release (end_time j) (rj_nodes j) rel else rel"
  have "sorted_wrt (<) (map fst ?rel) \<and> (\<forall>x\<in>set ?rel. now < fst x) \<and>
      release_sum ?rel u = release_sum rel u + (if now < end_time j \<and> end_time j \<le> u then rj_nodes j else 0)"
    using add_release_law[OF Cons.prems, of "end_time j" "rj_nodes j" u] Cons.prems by simp
  then show ?case using Cons.IH[of ?rel] by (simp add: released_def)
qed (simp add: released_def)

lemma bounded_slowdown_ge: "dbl 1 \<le> bounded_slowdown wait exec"
  by (simp add: bounded_slowdown_def)

lemma dbl_divide_right_mono: "a \<le> b \<Longrightarrow> 0 < c \<Longrightarrow> c \<noteq> dbl_inf \<Longrightarrow> a / c \<le> b / (c::double)"
proof (transfer, goal_cases)
  case (1 a b c)
  have c: "c \<noteq> 0" "\<bar>c\<bar> \<noteq> huge" using 1 by auto
  have "a / c \<le> b / c" using 1 by (simp add: divide_right_mono)
  then have "fl (a / c) \<le> fl (b / c)" by (rule fl_mono)
  moreover have "\<bar>b\<bar> = huge \<Longrightarrow> b = huge \<or> b = - huge" "\<bar>a\<bar> = huge \<Longrightarrow> a = huge \<or> a = - huge" by auto
  moreover have "- huge \<le> a" "b \<le> huge" "a \<le> huge" "- huge \<le> b" using 1 fl_range by blast+
  ultimately show ?case using c 1 by (auto simp: sgn_if zero_less_mult_iff)
qed

definition completed_by :: "sim_time \<Rightarrow> job_record \<Rightarrow> bool" where
  "completed_by t j \<longleftrightarrow> is_scheduled j \<and> convert_epoch (m_t_end j) \<le> t"

lemma add_record_completed:
  "t_completed_count (add_record now j t) = t_completed_count t + (if completed_by now j then 1 else 0)"
  "t_max_completion (add_record now j t) =
     (if completed_by now j then max (convert_epoch (m_t_end j)) (t_max_completion t) else t_max_completion t)"
  by (auto simp: add_record_def completed_by_def Let_def max.commute)

lemma totals_count:
  "t_completed_count (fold (add_record now) js t) = t_completed_count t + length (filter (completed_by now) js) \<and>
   t_max_completion (fold (add_record now) js t) =
     fold max (map (\<lambda>j. convert_epoch (m_t_end j)) (filter (completed_by now) js)) (t_max_completion t)"
  by (induction js arbitrary: t) (simp_all add: add_record_completed)

lemma totals_slowdown:
  "int (t_completed_count t) + int (length js) \<le> 9007199254740992 \<Longrightarrow> dbl (int (t_completed_count t)) \<le> t_bounded_slowdown t \<Longrightarrow>
   dbl (int (t_completed_count (fold (add_record now) js t))) \<le> t_bounded_slowdown (fold (add_record now) js t)"
proof (induction js arbitrary: t)
  case (Cons j js)
  have s: "dbl (int (t_completed_count t) + 1) \<le> t_bounded_slowdown t + bounded_slowdown w e" for w e
  proof -
    have "dbl (int (t_completed_count t) + 1) = dbl (int (t_completed_count t)) + dbl 1"
      using Cons.prems(1) by (simp add: dbl_add)
    also have "\<dots> \<le> t_bounded_slowdown t + bounded_slowdown w e"
      by (rule order_trans[OF dbl_add_left_mono[OF Cons.prems(2)] dbl_add_right_mono[OF bounded_slowdown_ge]])
    finally show ?thesis .
  qed
  have "dbl (int (t_completed_count (add_record now j t))) \<le> t_bounded_slowdown (add_record now j t)"
    using s Cons.prems(2) by (simp add: add_record_def Let_def add.commute)
  moreover have "int (t_completed_count (add_record now j t)) + int (length js) \<le> 9007199254740992"
    using Cons.prems(1) by (simp add: add_record_completed)
  ultimately show ?case using Cons.IH by simp
qed simp

lemma fold_max_le: "(\<forall>x\<in>set xs. x \<le> b) \<Longrightarrow> m \<le> b \<Longrightarrow> fold max xs m \<le> (b :: sim_time)"
  by (induction xs arbitrary: m) auto

lemma statistics_law:
  fixes s :: "('s, 'g) simulation"
  assumes "int (length (m_data (m_trace s))) \<le> 9007199254740992" "0 \<le> m_current_time s"
  defines "ended \<equiv> filter (completed_by (m_current_time s)) (m_data (m_trace s))"
  shows "(ended = [] \<longrightarrow> s_avg_bounded_slowdown (get_statistics ops s) = 0) \<and>
    (ended \<noteq> [] \<longrightarrow> dbl 1 \<le> s_avg_bounded_slowdown (get_statistics ops s)) \<and>
    s_makespan (get_statistics ops s) = fold max (map (\<lambda>j. convert_epoch (m_t_end j)) ended) 0 \<and>
    s_makespan (get_statistics ops s) \<le> m_current_time s"
proof -
  let ?t = "fold (add_record (m_current_time s)) (m_data (m_trace s)) no_totals"
  have z: "t_completed_count no_totals = 0" "dbl (int (t_completed_count no_totals)) \<le> t_bounded_slowdown no_totals"
    "t_max_completion no_totals = 0"
    by (simp_all add: no_totals_def) (simp add: dbl_zero)
  have t: "t_completed_count ?t = length ended" "t_max_completion ?t = fold max (map (\<lambda>j. convert_epoch (m_t_end j)) ended) 0"
    using totals_count[of "m_current_time s" "m_data (m_trace s)" no_totals] z by (simp_all add: ended_def)
  have sl: "dbl (int (length ended)) \<le> t_bounded_slowdown ?t"
    using totals_slowdown[OF _ z(2), of "m_data (m_trace s)" "m_current_time s"] assms(1) z(1) t(1) by simp
  have len: "length ended \<le> length (m_data (m_trace s))" by (simp add: ended_def)
  have n: "int (length ended) \<le> 9007199254740992" using assms(1) len by linarith
  have "dbl 1 \<le> t_bounded_slowdown ?t / dbl (int (length ended))" if "ended \<noteq> []"
  proof -
    have p: "0 < int (length ended)" using that by simp
    have "dbl 1 = dbl (int (length ended)) / dbl (int (length ended))" using n p by (simp add: dbl_div)
    also have "\<dots> \<le> t_bounded_slowdown ?t / dbl (int (length ended))"
      using sl n p isfinite_dbl[of "int (length ended)"] by (intro dbl_divide_right_mono) (simp_all add: dbl_zero dbl_less isfinite_def)
    finally show ?thesis .
  qed
  moreover have "fold max (map (\<lambda>j. convert_epoch (m_t_end j)) ended) 0 \<le> m_current_time s"
    using assms(2) by (intro fold_max_le) (auto simp: ended_def completed_by_def)
  ultimately show ?thesis
    by (simp add: get_statistics_def Let_def t average_def)
qed

end
