(* ===== verification/Simulation_Bisim.thy ===== *)
theory Simulation_Bisim
  imports Simulation_Runs
begin

text \<open>
  The simulation sees a scheduler only through its virtual table.  If two schedulers answer alike, two
  simulations that differ in nothing else go through the same events: the same exception or the same trace,
  clock, counters and running jobs.  The locale states what it takes for one call of \<^verbatim>\<open>advance_to\<close>, its
  extension what it takes for whole runs; the circular scheduler is interpreted against the deque scheduler.
\<close>

section \<open>A simulation with another scheduler\<close>

definition with_scheduler :: "'b \<Rightarrow> ('a, 'g) simulation \<Rightarrow> ('b, 'g) simulation" where
  "with_scheduler b s = \<lparr>m_params = m_params s, m_trace = m_trace s, m_scheduler = b, m_current_time = m_current_time s,
     m_next_backfill_evaluation = m_next_backfill_evaluation s, m_periodic_backfill_dirty = m_periodic_backfill_dirty s,
     m_job_rejection_capacity = m_job_rejection_capacity s, m_capacity_changes = m_capacity_changes s,
     m_next_capacity_change = m_next_capacity_change s, m_current_capacity = m_current_capacity s,
     m_capacity_area = m_capacity_area s, m_capacity_area_time = m_capacity_area_time s, m_jobs_completed = m_jobs_completed s,
     m_jobs_submitted = m_jobs_submitted s, m_jobs_started = m_jobs_started s, m_latest_submit_time = m_latest_submit_time s,
     m_jobs_releasing = m_jobs_releasing s, m_running_jobs = m_running_jobs s, m_queue_length_sum = m_queue_length_sum s,
     m_queue_length_samples = m_queue_length_samples s, m_queue_length_peak = m_queue_length_peak s,
     m_pending_queue_arrivals = m_pending_queue_arrivals s, m_first_appended_job_idx = m_first_appended_job_idx s,
     m_appended_job_query_records = m_appended_job_query_records s\<rparr>"

named_theorems ws_simps \<open>steps that leave the scheduler alone\<close>

lemma ws_fields [simp, ws_simps]:
  "m_params (with_scheduler b s) = m_params s" "m_trace (with_scheduler b s) = m_trace s"
  "m_scheduler (with_scheduler b s) = b" "m_current_time (with_scheduler b s) = m_current_time s"
  "m_next_backfill_evaluation (with_scheduler b s) = m_next_backfill_evaluation s"
  "m_periodic_backfill_dirty (with_scheduler b s) = m_periodic_backfill_dirty s"
  "m_job_rejection_capacity (with_scheduler b s) = m_job_rejection_capacity s"
  "m_capacity_changes (with_scheduler b s) = m_capacity_changes s"
  "m_next_capacity_change (with_scheduler b s) = m_next_capacity_change s"
  "m_current_capacity (with_scheduler b s) = m_current_capacity s" "m_capacity_area (with_scheduler b s) = m_capacity_area s"
  "m_capacity_area_time (with_scheduler b s) = m_capacity_area_time s"
  "m_jobs_completed (with_scheduler b s) = m_jobs_completed s" "m_jobs_submitted (with_scheduler b s) = m_jobs_submitted s"
  "m_jobs_started (with_scheduler b s) = m_jobs_started s" "m_latest_submit_time (with_scheduler b s) = m_latest_submit_time s"
  "m_jobs_releasing (with_scheduler b s) = m_jobs_releasing s" "m_running_jobs (with_scheduler b s) = m_running_jobs s"
  "m_queue_length_sum (with_scheduler b s) = m_queue_length_sum s"
  "m_queue_length_samples (with_scheduler b s) = m_queue_length_samples s"
  "m_queue_length_peak (with_scheduler b s) = m_queue_length_peak s"
  "m_pending_queue_arrivals (with_scheduler b s) = m_pending_queue_arrivals s"
  "m_first_appended_job_idx (with_scheduler b s) = m_first_appended_job_idx s"
  "m_appended_job_query_records (with_scheduler b s) = m_appended_job_query_records s"
  by (simp_all add: with_scheduler_def)

lemma ws_updates [simp]:
  "(with_scheduler b s)\<lparr>m_trace := tr\<rparr> = with_scheduler b (s\<lparr>m_trace := tr\<rparr>)"
  "(with_scheduler b s)\<lparr>m_scheduler := c\<rparr> = with_scheduler c s"
  "(with_scheduler b s)\<lparr>m_current_time := t\<rparr> = with_scheduler b (s\<lparr>m_current_time := t\<rparr>)"
  "(with_scheduler b s)\<lparr>m_next_backfill_evaluation := t\<rparr> = with_scheduler b (s\<lparr>m_next_backfill_evaluation := t\<rparr>)"
  "(with_scheduler b s)\<lparr>m_periodic_backfill_dirty := d\<rparr> = with_scheduler b (s\<lparr>m_periodic_backfill_dirty := d\<rparr>)"
  "(with_scheduler b s)\<lparr>m_next_capacity_change := n\<rparr> = with_scheduler b (s\<lparr>m_next_capacity_change := n\<rparr>)"
  "(with_scheduler b s)\<lparr>m_current_capacity := c'\<rparr> = with_scheduler b (s\<lparr>m_current_capacity := c'\<rparr>)"
  "(with_scheduler b s)\<lparr>m_capacity_area := a\<rparr> = with_scheduler b (s\<lparr>m_capacity_area := a\<rparr>)"
  "(with_scheduler b s)\<lparr>m_capacity_area_time := t\<rparr> = with_scheduler b (s\<lparr>m_capacity_area_time := t\<rparr>)"
  "(with_scheduler b s)\<lparr>m_jobs_completed := n\<rparr> = with_scheduler b (s\<lparr>m_jobs_completed := n\<rparr>)"
  "(with_scheduler b s)\<lparr>m_jobs_submitted := n\<rparr> = with_scheduler b (s\<lparr>m_jobs_submitted := n\<rparr>)"
  "(with_scheduler b s)\<lparr>m_jobs_started := n\<rparr> = with_scheduler b (s\<lparr>m_jobs_started := n\<rparr>)"
  "(with_scheduler b s)\<lparr>m_latest_submit_time := t\<rparr> = with_scheduler b (s\<lparr>m_latest_submit_time := t\<rparr>)"
  "(with_scheduler b s)\<lparr>m_jobs_releasing := w\<rparr> = with_scheduler b (s\<lparr>m_jobs_releasing := w\<rparr>)"
  "(with_scheduler b s)\<lparr>m_running_jobs := r\<rparr> = with_scheduler b (s\<lparr>m_running_jobs := r\<rparr>)"
  "(with_scheduler b s)\<lparr>m_queue_length_sum := n\<rparr> = with_scheduler b (s\<lparr>m_queue_length_sum := n\<rparr>)"
  "(with_scheduler b s)\<lparr>m_queue_length_samples := n\<rparr> = with_scheduler b (s\<lparr>m_queue_length_samples := n\<rparr>)"
  "(with_scheduler b s)\<lparr>m_queue_length_peak := n\<rparr> = with_scheduler b (s\<lparr>m_queue_length_peak := n\<rparr>)"
  "(with_scheduler b s)\<lparr>m_pending_queue_arrivals := p\<rparr> = with_scheduler b (s\<lparr>m_pending_queue_arrivals := p\<rparr>)"
  "(with_scheduler b s)\<lparr>m_first_appended_job_idx := n\<rparr> = with_scheduler b (s\<lparr>m_first_appended_job_idx := n\<rparr>)"
  "(with_scheduler b s)\<lparr>m_appended_job_query_records := q\<rparr> = with_scheduler b (s\<lparr>m_appended_job_query_records := q\<rparr>)"
  by (simp_all add: with_scheduler_def)

lemma ws_ws [simp]: "with_scheduler c (with_scheduler b s) = with_scheduler c s"
  by (simp add: with_scheduler_def)

lemma ws_self [simp]: "with_scheduler (m_scheduler s) s = s"
  by (cases s) (simp add: with_scheduler_def)

lemma ws_idem [simp]: "with_scheduler b (s\<lparr>m_scheduler := a\<rparr>) = with_scheduler b s"
  by (simp add: with_scheduler_def)

section \<open>Steps that leave the scheduler alone\<close>

lemma ws_accounting: "advance_capacity_accounting_to t (with_scheduler b s) = map_sum id (with_scheduler b) (advance_capacity_accounting_to t s)"
  by (simp add: advance_capacity_accounting_to_def Let_def)

lemma ws_available: "get_available_nodes (with_scheduler b s) = get_available_nodes s"
  by (simp add: get_available_nodes_def Let_def)

lemma ws_changes: "apply_changes t c (with_scheduler b s) = map_prod id (with_scheduler b) (apply_changes t c s)"
  by (induction t c s rule: apply_changes.induct) (subst (1 2) apply_changes.simps, simp add: Let_def id_def)

lemma ws_align: "align_backfill_tick (with_scheduler b s) = with_scheduler b (align_backfill_tick s)"
  by (simp add: align_backfill_tick_def Let_def)

lemma ws_start_job: "start_job i (with_scheduler b s) = map_sum id (with_scheduler b) (start_job i s)"
  by (simp add: start_job_def record_appended_job_start_def planning_run_time_def Let_def split: sum.split)

lemma ws_settle_initial: "settle_initial dm (with_scheduler b s) = map_sum id (with_scheduler b) (settle_initial dm s)"
  by (simp add: settle_initial_def split: sum.split)

lemma ws_settle_start: "settle_start dm (with_scheduler b s) = map_sum id (with_scheduler b) (settle_start dm s)"
  by (simp add: settle_start_def split: sum.split list.split)

lemma ws_start_jobs:
  assumes "\<And>s. settle' (with_scheduler b s) = map_sum id (with_scheduler b) (settle s)"
  shows "start_jobs settle' ids (with_scheduler b s) = map_sum id (with_scheduler b) (start_jobs settle ids s)"
  by (induction ids arbitrary: s) (auto simp: ws_start_job assms split: sum.split)

lemma ws_finish_event: "finish_event e f (with_scheduler b s) = map_prod id (with_scheduler b) (finish_event e f s)"
  by (simp add: finish_event_def)

lemma ws_event_loop: "event_loop dm f (with_scheduler b s) = map_sum id (map_prod id (with_scheduler b)) (event_loop dm f s)"
proof (induction dm f s rule: event_loop.induct)
  case (1 dm f s)
  show ?case
  proof (cases "m_evtq (m_trace s)")
    case Nil
    then show ?thesis by (subst (1 2) event_loop.simps) simp
  next
    case (Cons e q)
    show ?thesis
    proof (cases "ev_time e = m_current_time s")
      case True
      show ?thesis
      proof (cases "process_single_event dm (m_trace s)")
        case (Inl x)
        then show ?thesis using Cons True by (subst (1 2) event_loop.simps) simp
      next
        case (Inr r)
        obtain c tr where r: "r = (c, tr)" by (cases r)
        note ih = 1[OF Cons _ Inr[unfolded r] refl refl refl]
        show ?thesis using Cons True Inr r ih
          by (cases "ev_kind e = Departure"; subst (1 2) event_loop.simps) (simp_all add: Let_def ws_finish_event id_def)
      qed
    next
      case False
      then show ?thesis using Cons by (subst (1 2) event_loop.simps) simp
    qed
  qed
qed

lemma ws_settle_tick:
  "settle_tick m t0 nt d (with_scheduler b s) = map_prod id (with_scheduler b) (settle_tick m t0 nt d s)"
  by (simp add: settle_tick_def ws_align Let_def)

lemma ws_catch_up: "catch_up_tick m (with_scheduler b s) = with_scheduler b (catch_up_tick m s)"
  by (simp add: catch_up_tick_def Let_def)

lemma ws_peak: "update_peak n (with_scheduler b s) = with_scheduler b (update_peak n s)"
  by (simp add: update_peak_def)

section \<open>Related simulations\<close>

definition sim_rel :: "('a \<Rightarrow> 'b \<Rightarrow> bool) \<Rightarrow> ('a, 'g) simulation \<Rightarrow> ('b, 'g) simulation \<Rightarrow> bool" where
  "sim_rel R s t \<longleftrightarrow> R (m_scheduler s) (m_scheduler t) \<and> t = with_scheduler (m_scheduler t) s"

lemma sim_relI: "R (m_scheduler s) b \<Longrightarrow> sim_rel R s (with_scheduler b s)"
  by (simp add: sim_rel_def)

lemma sim_relE:
  assumes "sim_rel R s t"
  obtains b where "t = with_scheduler b s" "R (m_scheduler s) b"
  using assms by (auto simp: sim_rel_def)

lemma sim_rel_flip: "sim_rel R\<inverse>\<inverse> t s \<longleftrightarrow> sim_rel R s t"
proof -
  have a: "t = with_scheduler (m_scheduler t) s" if "s = with_scheduler (m_scheduler s) t" by (subst that) simp
  have b: "s = with_scheduler (m_scheduler s) t" if "t = with_scheduler (m_scheduler t) s" by (subst that) simp
  show ?thesis unfolding sim_rel_def conversep_iff using a b by blast
qed

lemma kept_scheduler: "s' = with_scheduler (m_scheduler s) s' \<Longrightarrow> m_scheduler s' = m_scheduler s"
  by (drule arg_cong[of _ _ m_scheduler]) (simp only: ws_fields)

text \<open>A step that leaves the scheduler alone relates related simulations.\<close>

lemma rel_step:
  assumes "sim_rel R s t" "\<And>b. f' (with_scheduler b s) = map_sum id (with_scheduler b) (f s)"
    and "f (with_scheduler (m_scheduler s) s) = map_sum id (with_scheduler (m_scheduler s)) (f s)"
  shows "rel_sum (=) (sim_rel R) (f s) (f' t)"
proof -
  obtain b where t: "t = with_scheduler b s" "R (m_scheduler s) b" using assms(1) by (rule sim_relE)
  show ?thesis
  proof (cases "f s")
    case (Inr s')
    then have "m_scheduler s' = m_scheduler s" using assms(3) by (intro kept_scheduler) simp
    then show ?thesis using Inr t assms(2) by (simp add: sim_rel_def)
  qed (use t assms(2) in simp)
qed

lemma rel_step_pair:
  assumes "sim_rel R s t" "\<And>b. f' (with_scheduler b s) = map_prod id (with_scheduler b) (f s)"
    and "f (with_scheduler (m_scheduler s) s) = map_prod id (with_scheduler (m_scheduler s)) (f s)"
  shows "rel_prod (=) (sim_rel R) (f s) (f' t)"
proof -
  obtain b where t: "t = with_scheduler b s" "R (m_scheduler s) b" using assms(1) by (rule sim_relE)
  obtain c s' where f: "f s = (c, s')" by (cases "f s")
  then have "m_scheduler s' = m_scheduler s" using assms(3) by (intro kept_scheduler) simp
  then show ?thesis using f t assms(2) by (simp add: sim_rel_def)
qed

lemma rel_step_sum_pair:
  assumes "sim_rel R s t" "\<And>b. f' (with_scheduler b s) = map_sum id (map_prod id (with_scheduler b)) (f s)"
    and "f (with_scheduler (m_scheduler s) s) = map_sum id (map_prod id (with_scheduler (m_scheduler s))) (f s)"
  shows "rel_sum (=) (rel_prod (=) (sim_rel R)) (f s) (f' t)"
proof -
  obtain b where t: "t = with_scheduler b s" "R (m_scheduler s) b" using assms(1) by (rule sim_relE)
  show ?thesis
  proof (cases "f s")
    case (Inr r)
    obtain c s' where r: "r = (c, s')" by (cases r)
    then have "m_scheduler s' = m_scheduler s" using assms(3) Inr by (intro kept_scheduler) simp
    then show ?thesis using Inr r t assms(2) by (simp add: sim_rel_def)
  qed (use t assms(2) in simp)
qed

lemma rel_fields:
  assumes "sim_rel R s t"
  shows "m_params t = m_params s" "m_trace t = m_trace s" "m_current_time t = m_current_time s"
    "m_next_backfill_evaluation t = m_next_backfill_evaluation s" "m_periodic_backfill_dirty t = m_periodic_backfill_dirty s"
    "m_capacity_changes t = m_capacity_changes s" "m_next_capacity_change t = m_next_capacity_change s"
    "m_current_capacity t = m_current_capacity s" "m_running_jobs t = m_running_jobs s"
    "m_pending_queue_arrivals t = m_pending_queue_arrivals s" "R (m_scheduler s) (m_scheduler t)"
  using assms by (auto elim!: sim_relE)

lemma rel_updates:
  assumes "sim_rel R s t"
  shows "sim_rel R (s\<lparr>m_current_time := u\<rparr>) (t\<lparr>m_current_time := u\<rparr>)"
    "sim_rel R (s\<lparr>m_trace := tr\<rparr>) (t\<lparr>m_trace := tr\<rparr>)"
    "sim_rel R (s\<lparr>m_periodic_backfill_dirty := d\<rparr>) (t\<lparr>m_periodic_backfill_dirty := d\<rparr>)"
    "sim_rel R (s\<lparr>m_next_backfill_evaluation := u\<rparr>) (t\<lparr>m_next_backfill_evaluation := u\<rparr>)"
    "R a b \<Longrightarrow> sim_rel R (s\<lparr>m_scheduler := a\<rparr>) (t\<lparr>m_scheduler := b\<rparr>)"
  using assms by (elim sim_relE; simp add: sim_rel_def)+

text \<open>Sequential composition of related steps.\<close>

lemma rel_case_sum:
  assumes "rel_sum (=) Q x y" "\<And>v w. Q v w \<Longrightarrow> rel_sum (=) P (f v) (g w)"
  shows "rel_sum (=) P (case x of Inl e \<Rightarrow> Inl e | Inr v \<Rightarrow> f v) (case y of Inl e \<Rightarrow> Inl e | Inr w \<Rightarrow> g w)"
  using assms by (cases x; cases y) auto

lemma rel_case_prod:
  assumes "rel_prod (=) Q p q" "\<And>c v w. Q v w \<Longrightarrow> P (f c v) (g c w)"
  shows "P (case p of (c, v) \<Rightarrow> f c v) (case q of (c, w) \<Rightarrow> g c w)"
  using assms by (cases p; cases q) auto

lemma rel_case_some:
  assumes "rel_sum (=) Q x y" "\<And>v w. Q v w \<Longrightarrow> rel_option (rel_sum (=) P) (f v) (g w)"
  shows "rel_option (rel_sum (=) P) (case x of Inl e \<Rightarrow> Some (Inl e) | Inr v \<Rightarrow> f v) (case y of Inl e \<Rightarrow> Some (Inl e) | Inr w \<Rightarrow> g w)"
  using assms by (cases x; cases y) auto

lemma rel_case_option:
  assumes "rel_option (rel_sum (=) Q) x y" "\<And>v w. Q v w \<Longrightarrow> rel_option (rel_sum (=) P) (f v) (g w)"
  shows "rel_option (rel_sum (=) P) (case x of None \<Rightarrow> None | Some (Inl e) \<Rightarrow> Some (Inl e) | Some (Inr v) \<Rightarrow> f v)
    (case y of None \<Rightarrow> None | Some (Inl e) \<Rightarrow> Some (Inl e) | Some (Inr w) \<Rightarrow> g w)"
  using assms(1)
proof (cases rule: option.rel_cases)
  case (Some v w)
  then show ?thesis using assms(2) by (cases v; cases w) auto
qed simp

lemma rel_some: "rel_option Q (Some x) (Some y) = Q x y"
  by simp

lemma event_loop_rel: "sim_rel R s t \<Longrightarrow> rel_sum (=) (rel_prod (=) (sim_rel R)) (event_loop dm f s) (event_loop dm f t)"
  by (erule rel_step_sum_pair) (simp_all only: ws_event_loop)

lemma changes_rel: "sim_rel R s t \<Longrightarrow> rel_prod (=) (sim_rel R) (apply_capacity_changes u s) (apply_capacity_changes u t)"
  unfolding apply_capacity_changes_def by (erule rel_step_pair) (simp_all only: ws_changes)

lemma align_rel: "sim_rel R s t \<Longrightarrow> sim_rel R (align_backfill_tick s) (align_backfill_tick t)"
  by (erule sim_relE) (simp add: ws_align sim_rel_def align_backfill_tick_def Let_def)

lemma settle_tick_rel: "sim_rel R s t \<Longrightarrow> rel_prod (=) (sim_rel R) (settle_tick m u nt d s) (settle_tick m u nt d t)"
  by (erule rel_step_pair) (simp_all only: ws_settle_tick)

lemma catch_up_rel: "sim_rel R s t \<Longrightarrow> sim_rel R (catch_up_tick m s) (catch_up_tick m t)"
  by (erule sim_relE) (simp add: ws_catch_up sim_rel_def catch_up_tick_def Let_def)

lemma peak_rel: "sim_rel R s t \<Longrightarrow> sim_rel R (update_peak n s) (update_peak n t)"
  by (erule sim_relE) (simp add: ws_peak sim_rel_def update_peak_def)

text \<open>The pass before the loop, with its two conditions named.\<close>

definition initial_flag :: "sim_mode \<Rightarrow> bool \<Rightarrow> ('s, 'g) simulation \<Rightarrow> bool" where
  "initial_flag m arrivals s \<longleftrightarrow>
     (if dispatch_on_events m
      then (dispatch_on_events m \<and> arrivals) \<and> \<not> (m_evtq (m_trace s) \<noteq> [] \<and> ev_time (hd (m_evtq (m_trace s))) = m_current_time s)
      else \<not> fixed_dispatch m)"

definition initial_skip :: "sim_mode \<Rightarrow> bool \<Rightarrow> ('s, 'g) simulation \<Rightarrow> ('s, 'g) simulation" where
  "initial_skip m arrivals s =
     (if dispatch_on_events m \<and> initial_flag m arrivals s \<and> m_next_backfill_evaluation s = m_current_time s
      then s\<lparr>m_next_backfill_evaluation := m_next_backfill_evaluation s + p_dispatch_interval (m_params s)\<rparr> else s)"

lemma initial_pass_alt:
  "initial_pass ops dm m s =
     (let s = (if dispatch_on_events m then align_backfill_tick s else s);
          s = s\<lparr>m_scheduler := so_sync_to ops (m_scheduler s) (m_current_time s)\<rparr>
      in case record_queue_arrivals ops (m_current_time s) s of
        Inl e \<Rightarrow> Some (Inl e)
      | Inr (c, s1) \<Rightarrow>
          (case apply_capacity_changes (m_current_time s1) s1 of (ch, s2) \<Rightarrow>
             if \<not> (initial_flag m c s2 \<and> so_has_eligible_jobs ops (m_scheduler (initial_skip m c s2)))
             then Some (Inr (dispatch_on_events m \<and> c, initial_skip m c s2))
             else (case schedule_loop ops (choose_pass ops m False) (settle_initial dm) (fixed_dispatch m) False (initial_skip m c s2) of
                     None \<Rightarrow> None
                   | Some (Inl e) \<Rightarrow> Some (Inl e)
                   | Some (Inr (started, s)) \<Rightarrow> Some (Inr ((dispatch_on_events m \<and> c) \<and> \<not> started, s)))))"
  unfolding initial_pass_def initial_skip_def initial_flag_def Let_def by (rule refl)

lemma initial_rel:
  assumes "sim_rel R s t"
  shows "initial_flag m c t \<longleftrightarrow> initial_flag m c s" "sim_rel R (initial_skip m c s) (initial_skip m c t)"
  using rel_fields[OF assms] rel_updates(4)[OF assms] assms by (simp_all add: initial_flag_def initial_skip_def)

lemma ws_count: "count_replayed i js (e, with_scheduler b s) = map_prod id (with_scheduler b) (count_replayed i js (e, s))"
  by (induction js arbitrary: i e s) (simp_all add: Let_def id_def)

lemma ws_replay: "run_replay dm stamp (with_scheduler b s) = map_sum id (with_scheduler b) (run_replay dm stamp s)"
proof -
  obtain e s1 where "count_replayed (m_num_reclaimed (m_trace s)) (m_data (m_trace s)) (m_current_time s, s) = (e, s1)"
    by (cases "count_replayed (m_num_reclaimed (m_trace s)) (m_data (m_trace s)) (m_current_time s, s)")
  then show ?thesis by (simp add: run_replay_def ws_count Let_def split: sum.split)
qed

lemma ws_initialize:
  "initialize_trace sm load n rng (with_scheduler b s) = map_sum id (map_prod id (map_prod id (with_scheduler b))) (initialize_trace sm load n rng s)"
  by (simp add: initialize_trace_def reset_counters_def reset_capacity_schedule_def Let_def split: option.split sum.split prod.split)

section \<open>Schedulers that answer alike\<close>

text \<open>The capacity outlook is published before every pass, so the two need only agree after that.\<close>

locale bisimilar =
  fixes A :: "'a scheduler_ops" and B :: "'b scheduler_ops" and R :: "'a \<Rightarrow> 'b \<Rightarrow> bool"
  assumes sync_law: "R a b \<Longrightarrow> R (so_sync_to A a t) (so_sync_to B b t)"
    and count_law: "R a b \<Longrightarrow> so_active_job_count A a = so_active_job_count B b"
    and next_law: "R a b \<Longrightarrow> so_get_next_arrival_time A a = so_get_next_arrival_time B b"
    and eligible_law: "R a b \<Longrightarrow> so_has_eligible_jobs A a = so_has_eligible_jobs B b"
    and pass_law: "R a b \<Longrightarrow> rel_prod (=) R
      (so_schedule A (so_set_capacity_outlook A c u ch a) free running now)
      (so_schedule B (so_set_capacity_outlook B c u ch b) free running now)"
    and event_law: "R a b \<Longrightarrow> rel_prod (=) R
      (so_schedule_event A (so_set_capacity_outlook A c u ch a) free running now)
      (so_schedule_event B (so_set_capacity_outlook B c u ch b) free running now)"
begin

lemma flipped: "bisimilar B A R\<inverse>\<inverse>"
proof (unfold_locales, goal_cases)
  case (5 b a c u ch free running now)
  then show ?case using pass_law[of a b c u ch free running now] by (simp add: rel_prod_sel)
next
  case (6 b a c u ch free running now)
  then show ?case using event_law[of a b c u ch free running now] by (simp add: rel_prod_sel)
qed (simp_all add: sync_law count_law next_law eligible_law)

lemma call_rel:
  assumes "sim_rel R s t"
  shows "rel_prod (=) (sim_rel R) (call_scheduler A (choose_pass A m ev) s) (call_scheduler B (choose_pass B m ev) t)"
proof -
  obtain b where t: "t = with_scheduler b s" "R (m_scheduler s) b" using assms by (rule sim_relE)
  define pa where "pa = choose_pass A m ev (so_set_capacity_outlook A (m_current_capacity s) (get_nodes_occupied (m_trace s))
    (drop (m_next_capacity_change s) (m_capacity_changes s)) (m_scheduler s)) (get_available_nodes s) (m_running_jobs s) (m_current_time s)"
  define pb where "pb = choose_pass B m ev (so_set_capacity_outlook B (m_current_capacity s) (get_nodes_occupied (m_trace s))
    (drop (m_next_capacity_change s) (m_capacity_changes s)) b) (get_available_nodes s) (m_running_jobs s) (m_current_time s)"
  have r: "rel_prod (=) R pa pb" unfolding pa_def pb_def choose_pass_def using pass_law[OF t(2)] event_law[OF t(2)] by simp
  have "call_scheduler A (choose_pass A m ev) s = (fst pa, s\<lparr>m_scheduler := snd pa\<rparr>)"
    by (simp add: call_scheduler_def publish_capacity_outlook_def Let_def case_prod_beta pa_def)
  moreover have "call_scheduler B (choose_pass B m ev) t = (fst pb, with_scheduler (snd pb) s)"
    by (simp add: call_scheduler_def publish_capacity_outlook_def Let_def case_prod_beta pb_def t(1) ws_available)
  ultimately show ?thesis using r by (auto simp: rel_prod_sel sim_rel_def)
qed

lemma start_jobs_rel:
  assumes "\<And>b s. settle' (with_scheduler b s) = map_sum id (with_scheduler b) (settle s)"
    and "\<And>b s. settle (with_scheduler b s) = map_sum id (with_scheduler b) (settle s)" "sim_rel R s t"
  shows "rel_sum (=) (sim_rel R) (start_jobs settle ids s) (start_jobs settle' ids t)"
  by (rule rel_step[OF assms(3)]) (simp_all only: ws_start_jobs[of settle' _ settle, OF assms(1)] ws_start_jobs[of settle _ settle, OF assms(2)])

lemma schedule_loop_sim:
  assumes st: "\<And>ids s t. sim_rel R s t \<Longrightarrow> rel_sum (=) (sim_rel R) (start_jobs settle ids s) (start_jobs settle' ids t)"
    and l: "schedule_loop A (choose_pass A m ev) settle once started s = Some x" and r: "sim_rel R s t"
  shows "\<exists>y. schedule_loop B (choose_pass B m ev) settle' once started t = Some y \<and> rel_sum (=) (rel_prod (=) (sim_rel R)) x y"
proof -
  have "ops = A \<longrightarrow> pass = choose_pass A m ev \<longrightarrow> stl = settle \<longrightarrow> (\<forall>t. sim_rel R s t \<longrightarrow>
      (\<exists>y. schedule_loop B (choose_pass B m ev) settle' once started t = Some y \<and> rel_sum (=) (rel_prod (=) (sim_rel R)) x y))"
    if "schedule_loop ops pass stl once started s = Some x" for ops pass stl once started s x
    using that
  proof (induction ops pass stl once started s x rule: schedule_loop.raw_induct[rotated, consumes 1, case_names step])
    case (step loop ops pass stl once started s x)
    show ?case
    proof (intro impI allI)
      fix t assume e: "ops = A" "pass = choose_pass A m ev" "stl = settle" and r: "sim_rel R s t"
      obtain ids s1 where c: "call_scheduler A (choose_pass A m ev) s = (ids, s1)" by (cases "call_scheduler A (choose_pass A m ev) s")
      obtain t1 where d: "call_scheduler B (choose_pass B m ev) t = (ids, t1)" "sim_rel R s1 t1"
        using call_rel[OF r, of m ev] c by (cases "call_scheduler B (choose_pass B m ev) t") auto
      show "\<exists>y. schedule_loop B (choose_pass B m ev) settle' once started t = Some y \<and> rel_sum (=) (rel_prod (=) (sim_rel R)) x y"
      proof (cases "ids = []")
        case True
        then show ?thesis using step(2) c d e by (subst schedule_loop.simps) auto
      next
        case False
        show ?thesis
        proof (cases "start_jobs settle ids s1")
          case (Inl z)
          then have "start_jobs settle' ids t1 = Inl z" using st[OF d(2), of ids] by (cases "start_jobs settle' ids t1") auto
          then show ?thesis using step(2) c d e False Inl by (subst schedule_loop.simps) auto
        next
          case (Inr s2)
          then obtain t2 where t2: "start_jobs settle' ids t1 = Inr t2" "sim_rel R s2 t2"
            using st[OF d(2), of ids] by (cases "start_jobs settle' ids t1") auto
          show ?thesis
          proof (cases once)
            case True
            then show ?thesis using step(2) c d e False Inr t2 by (subst schedule_loop.simps) auto
          next
            case once: False
            have "loop A (choose_pass A m ev) settle once True s2 = Some x" using step(2) c e False Inr once by simp
            from step(1)[OF this] t2 show ?thesis using c d e False Inr once by (subst schedule_loop.simps) simp
          qed
        qed
      qed
    qed
  qed
  then show ?thesis using l r by blast
qed

lemma move_clock_rel: "sim_rel R s t \<Longrightarrow> rel_sum (=) (rel_prod (=) (sim_rel R)) (move_clock A u s) (move_clock B u t)"
proof -
  assume r: "sim_rel R s t"
  then have "sim_rel R (s\<lparr>m_current_time := u\<rparr>) (t\<lparr>m_current_time := u\<rparr>)" by (elim sim_relE) (simp add: sim_rel_def)
  from rel_step[OF this, of "advance_capacity_accounting_to u" "advance_capacity_accounting_to u"]
  have a: "rel_sum (=) (sim_rel R) (advance_capacity_accounting_to u (s\<lparr>m_current_time := u\<rparr>))
      (advance_capacity_accounting_to u (t\<lparr>m_current_time := u\<rparr>))" by (simp add: ws_accounting)
  have q: "rel_sum (=) (rel_prod (=) (sim_rel R)) (record_queue_arrivals A u (s\<lparr>m_scheduler := so_sync_to A (m_scheduler s) u\<rparr>))
      (record_queue_arrivals B u (t\<lparr>m_scheduler := so_sync_to B (m_scheduler t) u\<rparr>))" if h: "sim_rel R s t" for s t
  proof -
    obtain b where t: "t = with_scheduler b s" "R (m_scheduler s) b" using h by (rule sim_relE)
    show ?thesis unfolding t(1)
      using count_law[OF sync_law[OF t(2), of u]] sync_law[OF t(2), of u]
      by (auto simp: record_queue_arrivals_def Let_def sim_rel_def split: option.split)
  qed
  show ?thesis
  proof (cases "advance_capacity_accounting_to u (s\<lparr>m_current_time := u\<rparr>)")
    case (Inl e)
    then show ?thesis using a by (cases "advance_capacity_accounting_to u (t\<lparr>m_current_time := u\<rparr>)") (simp_all add: move_clock_def)
  next
    case (Inr s1)
    then obtain t1 where "advance_capacity_accounting_to u (t\<lparr>m_current_time := u\<rparr>) = Inr t1" "sim_rel R s1 t1"
      using a by (cases "advance_capacity_accounting_to u (t\<lparr>m_current_time := u\<rparr>)") auto
    then show ?thesis using Inr q by (simp add: move_clock_def)
  qed
qed

lemma replay_branch_rel:
  assumes "sim_rel R s t"
  shows "rel_sum (=) (rel_prod (=) (sim_rel R)) (replay_branch A dm m lv s) (replay_branch B dm m lv t)"
proof -
  have n: "next_replay_time t = next_replay_time s" using rel_fields[OF assms] by (simp add: next_replay_time_def)
  show ?thesis unfolding replay_branch_def n
  proof (rule rel_case_sum[OF move_clock_rel[OF assms]], erule rel_case_prod, rule rel_case_sum[OF event_loop_rel], assumption,
      erule rel_case_prod, goal_cases)
    case (1 v w c s1 t1 v' w' f s2 t2)
    show ?case unfolding Let_def rel_fields(3)[OF 1(2)]
      by (rule rel_case_prod[OF changes_rel[OF 1(2)]]) (simp add: rel_fields rel_updates)
  qed
qed

lemma timed_branch_rel:
  assumes "sim_rel R s t"
  shows "rel_sum (=) (rel_prod (=) (sim_rel R)) (timed_branch A m u s) (timed_branch B m u t)"
  unfolding timed_branch_def
proof (rule rel_case_sum[OF move_clock_rel[OF assms]], erule rel_case_prod, goal_cases)
  case (1 v w c s1 t1)
  show ?case unfolding Let_def rel_fields(3)[OF 1]
    by (rule rel_case_prod[OF changes_rel[OF 1]]) (simp add: rel_updates)
qed

lemma tick_branch_rel:
  assumes "sim_rel R s t"
  shows "rel_sum (=) (rel_prod (=) (sim_rel R)) (tick_branch A m lv s) (tick_branch B m lv t)"
proof -
  have n: "next_tick m lv t = next_tick m lv s" using rel_fields[OF assms] by (simp add: next_tick_def)
  show ?thesis unfolding tick_branch_def n
    by (rule rel_case_sum[OF move_clock_rel[OF assms]], erule rel_case_prod) (simp add: rel_fields rel_updates Let_def)
qed

lemma select_event_rel:
  assumes "sim_rel R s t"
  shows "rel_option (rel_sum (=) (rel_prod (=) (sim_rel R))) (select_event A dm m target lv s) (select_event B dm m target lv t)"
proof -
  have n: "next_tick m lv t = next_tick m lv s" "next_replay_time t = next_replay_time s"
    using rel_fields[OF assms] by (simp_all add: next_tick_def next_replay_time_def)
  show ?thesis
    by (simp add: select_event_def Let_def n rel_fields(2)[OF assms] replay_branch_rel[OF assms] timed_branch_rel[OF assms] tick_branch_rel[OF assms])
qed

lemma loop_vars_rel: "sim_rel R s t \<Longrightarrow> read_loop_vars A nt s = read_loop_vars B nt t"
  using rel_fields[of R s t] count_law next_law by (simp add: read_loop_vars_def next_capacity_time_def)

lemma finish_rel:
  assumes "sim_rel R s t"
  shows "rel_prod (=) (rel_prod (=) (sim_rel R)) (finish_iteration A m ev st s) (finish_iteration B m ev st t)"
  using rel_fields[OF catch_up_rel[OF assms, of m]] catch_up_rel[OF assms, of m] peak_rel[OF catch_up_rel[OF assms, of m]]
  by (simp add: finish_iteration_def Let_def loop_vars_rel[OF assms])

lemma loop_body_sim:
  assumes "loop_body A dm m u target lv s = Some x" "sim_rel R s t"
  shows "\<exists>y. loop_body B dm m u target lv t = Some y \<and> rel_sum (=) (rel_prod (=) (rel_prod (=) (sim_rel R))) x y"
proof (cases "select_event A dm m target lv s")
  case None
  then have "select_event B dm m target lv t = None" using select_event_rel[OF assms(2), of dm m target lv] by simp
  then show ?thesis using assms None by (auto simp: loop_body_def)
next
  case (Some r)
  then obtain r' where r': "select_event B dm m target lv t = Some r'" "rel_sum (=) (rel_prod (=) (sim_rel R)) r r'"
    using select_event_rel[OF assms(2), of dm m target lv] by (auto simp: option_rel_Some1)
  show ?thesis
  proof (cases r)
    case (Inl e)
    then show ?thesis using assms(1) Some r' by (cases r') (auto simp: loop_body_def)
  next
    case (Inr p)
    obtain d s1 where p: "p = (d, s1)" by (cases p)
    obtain t1 where t1: "r' = Inr (d, t1)" "sim_rel R s1 t1" using r' Inr p by (cases r') auto
    obtain d2 s2 where s2: "settle_tick m u (lv_initial_notification lv) d s1 = (d2, s2)" by (cases "settle_tick m u (lv_initial_notification lv) d s1")
    obtain t2 where t2: "settle_tick m u (lv_initial_notification lv) d t1 = (d2, t2)" "sim_rel R s2 t2"
      using settle_tick_rel[OF t1(2), of m u "lv_initial_notification lv" d] s2
      by (cases "settle_tick m u (lv_initial_notification lv) d t1") auto
    define la where "la = (if de_should_schedule d2
      then schedule_loop A (choose_pass A m (de_periodic_evaluation d2)) (settle_start dm) (fixed_dispatch m) False s2 else Some (Inr (False, s2)))"
    define lb where "lb = (if de_should_schedule d2
      then schedule_loop B (choose_pass B m (de_periodic_evaluation d2)) (settle_start dm) (fixed_dispatch m) False t2 else Some (Inr (False, t2)))"
    have la: "loop_body A dm m u target lv s = (case la of None \<Rightarrow> None | Some (Inl e) \<Rightarrow> Some (Inl e)
        | Some (Inr (started, s)) \<Rightarrow> Some (Inr (finish_iteration A m (de_periodic_evaluation d2) started s)))"
      using Some Inr p s2 by (simp add: loop_body_def la_def)
    have lb: "loop_body B dm m u target lv t = (case lb of None \<Rightarrow> None | Some (Inl e) \<Rightarrow> Some (Inl e)
        | Some (Inr (started, s)) \<Rightarrow> Some (Inr (finish_iteration B m (de_periodic_evaluation d2) started s)))"
      using r' t1 t2 by (simp add: loop_body_def lb_def)
    obtain xa where xa: "la = Some xa" using assms(1) la by (cases la) auto
    have st: "rel_sum (=) (sim_rel R) (start_jobs (settle_start dm) ids s) (start_jobs (settle_start dm) ids t)" if "sim_rel R s t" for ids s t
      by (rule start_jobs_rel[OF _ _ that]) (rule ws_settle_start)+
    obtain xb where xb: "lb = Some xb" "rel_sum (=) (rel_prod (=) (sim_rel R)) xa xb"
    proof (cases "de_should_schedule d2")
      case True
      from schedule_loop_sim[OF st xa[unfolded la_def if_P[OF True]] t2(2)] True show ?thesis using that by (auto simp: lb_def)
    next
      case False
      then show ?thesis using xa t2 that by (auto simp: la_def lb_def)
    qed
    show ?thesis
    proof (cases xa)
      case (Inl e)
      then show ?thesis using assms(1) la lb xa xb by (cases xb) auto
    next
      case (Inr q)
      then show ?thesis using assms(1) la lb xa xb finish_rel by (cases xb; cases q) auto
    qed
  qed
qed

lemma condition_rel: "sim_rel R s t \<Longrightarrow> loop_condition m target lv t \<longleftrightarrow> loop_condition m target lv s"
  using rel_fields[of R s t] by (simp add: loop_condition_def)

lemma main_loop_sim:
  assumes "main_loop A dm m u target lv s = Some x" "sim_rel R s t"
  shows "\<exists>y. main_loop B dm m u target lv t = Some y \<and> rel_sum (=) (sim_rel R) x y"
proof -
  have "ops = A \<longrightarrow> (\<forall>t. sim_rel R s t \<longrightarrow> (\<exists>y. main_loop B dm m u target lv t = Some y \<and> rel_sum (=) (sim_rel R) x y))"
    if "main_loop ops dm m u target lv s = Some x" for ops dm m u target lv s x
    using that
  proof (induction ops dm m u target lv s x rule: main_loop.raw_induct[rotated, consumes 1, case_names step])
    case (step loop ops dm m u target lv s x)
    show ?case
    proof (intro impI allI)
      fix t assume e: "ops = A" and r: "sim_rel R s t"
      show "\<exists>y. main_loop B dm m u target lv t = Some y \<and> rel_sum (=) (sim_rel R) x y"
      proof (cases "loop_condition m target lv s")
        case False
        then show ?thesis using step(2) r condition_rel[OF r] by (subst main_loop.simps) auto
      next
        case True
        then obtain z where z: "loop_body A dm m u target lv s = Some z" using step(2) e by (cases "loop_body A dm m u target lv s") auto
        obtain z' where z': "loop_body B dm m u target lv t = Some z'" "rel_sum (=) (rel_prod (=) (rel_prod (=) (sim_rel R))) z z'"
          using loop_body_sim[OF z r] by blast
        show ?thesis
        proof (cases z)
          case (Inl w)
          then show ?thesis using step(2) e True z z' condition_rel[OF r] by (subst main_loop.simps) (cases z'; auto)
        next
          case (Inr p)
          obtain go lv' s' where p: "p = (go, lv', s')" by (cases p)
          then obtain t' where t': "z' = Inr (go, lv', t')" "sim_rel R s' t'" using z' Inr by (cases z') auto
          show ?thesis
          proof (cases go)
            case True
            have "loop A dm m u target lv' s' = Some x" using step(2) e \<open>loop_condition m target lv s\<close> z Inr p True by simp
            from step(1)[OF this] t' show ?thesis using \<open>loop_condition m target lv s\<close> condition_rel[OF r] z' True
              by (subst main_loop.simps) simp
          next
            case False
            then show ?thesis using step(2) e True z z' Inr p t' condition_rel[OF r] by (subst main_loop.simps) auto
          qed
        qed
      qed
    qed
  qed
  then show ?thesis using assms by blast
qed

lemma queue_arrivals_rel:
  assumes "sim_rel R s t"
  shows "rel_sum (=) (rel_prod (=) (sim_rel R)) (record_queue_arrivals A u s) (record_queue_arrivals B u t)"
proof -
  obtain b where t: "t = with_scheduler b s" "R (m_scheduler s) b" using assms by (rule sim_relE)
  show ?thesis unfolding t(1) using count_law[OF t(2)] t(2)
    by (auto simp: record_queue_arrivals_def Let_def sim_rel_def split: option.split)
qed

lemma initial_pass_sim:
  assumes "initial_pass A dm m s = Some x" "sim_rel R s t"
  shows "\<exists>y. initial_pass B dm m t = Some y \<and> rel_sum (=) (rel_prod (=) (sim_rel R)) x y"
proof -
  define sa where "sa = (if dispatch_on_events m then align_backfill_tick s else s)"
  define ta where "ta = (if dispatch_on_events m then align_backfill_tick t else t)"
  have ra: "sim_rel R sa ta" using assms(2) align_rel[OF assms(2)] by (simp add: sa_def ta_def)
  have ru: "sim_rel R (sa\<lparr>m_scheduler := so_sync_to A (m_scheduler sa) (m_current_time sa)\<rparr>)
      (ta\<lparr>m_scheduler := so_sync_to B (m_scheduler ta) (m_current_time ta)\<rparr>)"
    using rel_updates(5)[OF ra sync_law[OF rel_fields(11)[OF ra]]] rel_fields(3)[OF ra] by simp
  define qa where "qa = record_queue_arrivals A (m_current_time (sa\<lparr>m_scheduler := so_sync_to A (m_scheduler sa) (m_current_time sa)\<rparr>)) (sa\<lparr>m_scheduler := so_sync_to A (m_scheduler sa) (m_current_time sa)\<rparr>)"
  define qb where "qb = record_queue_arrivals B (m_current_time (ta\<lparr>m_scheduler := so_sync_to B (m_scheduler ta) (m_current_time ta)\<rparr>)) (ta\<lparr>m_scheduler := so_sync_to B (m_scheduler ta) (m_current_time ta)\<rparr>)"
  have rq: "rel_sum (=) (rel_prod (=) (sim_rel R)) qa qb"
    using queue_arrivals_rel[OF ru, of "m_current_time sa"] rel_fields(3)[OF ra] by (simp add: qa_def qb_def)
  show ?thesis
  proof (cases qa)
    case (Inl e)
    then have "qb = Inl e" using rq by (cases qb) auto
    then have "initial_pass B dm m t = Some (Inl e)" "initial_pass A dm m s = Some (Inl e)" using Inl
      unfolding initial_pass_alt Let_def sa_def[symmetric] ta_def[symmetric] qa_def[symmetric] qb_def[symmetric] by simp_all
    then show ?thesis using assms(1) by auto
  next
    case (Inr p)
    obtain c s1 where p: "p = (c, s1)" by (cases p)
    obtain t1 where t1: "qb = Inr (c, t1)" "sim_rel R s1 t1" using rq Inr p by (cases qb) auto
    obtain ch s2 where s2: "apply_capacity_changes (m_current_time s1) s1 = (ch, s2)" by (cases "apply_capacity_changes (m_current_time s1) s1")
    obtain t2 where t2: "apply_capacity_changes (m_current_time s1) t1 = (ch, t2)" "sim_rel R s2 t2"
      using changes_rel[OF t1(2), of "m_current_time s1"] s2 by (cases "apply_capacity_changes (m_current_time s1) t1") auto
    define s3 where "s3 = initial_skip m c s2"
    define t3 where "t3 = initial_skip m c t2"
    have r3: "sim_rel R s3 t3" using initial_rel(2)[OF t2(2)] by (simp add: s3_def t3_def)
    define la where "la = schedule_loop A (choose_pass A m False) (settle_initial dm) (fixed_dispatch m) False s3"
    define lb where "lb = schedule_loop B (choose_pass B m False) (settle_initial dm) (fixed_dispatch m) False t3"
    have ia: "initial_pass A dm m s = (if \<not> (initial_flag m c s2 \<and> so_has_eligible_jobs A (m_scheduler s3)) then Some (Inr (dispatch_on_events m \<and> c, s3))
        else case la of None \<Rightarrow> None | Some (Inl e) \<Rightarrow> Some (Inl e) | Some (Inr (started, s)) \<Rightarrow> Some (Inr ((dispatch_on_events m \<and> c) \<and> \<not> started, s)))"
      unfolding initial_pass_alt Let_def sa_def[symmetric] Inr[unfolded qa_def] p sum.case prod.case s2 la_def s3_def by (rule refl)
    have ib: "initial_pass B dm m t = (if \<not> (initial_flag m c s2 \<and> so_has_eligible_jobs B (m_scheduler t3)) then Some (Inr (dispatch_on_events m \<and> c, t3))
        else case lb of None \<Rightarrow> None | Some (Inl e) \<Rightarrow> Some (Inl e) | Some (Inr (started, s)) \<Rightarrow> Some (Inr ((dispatch_on_events m \<and> c) \<and> \<not> started, s)))"
      unfolding initial_pass_alt Let_def ta_def[symmetric] t1(1)[unfolded qb_def] sum.case prod.case rel_fields(3)[OF t1(2)] t2(1)
        initial_rel(1)[OF t2(2)] lb_def t3_def by (rule refl)
    have el: "so_has_eligible_jobs B (m_scheduler t3) = so_has_eligible_jobs A (m_scheduler s3)"
      using eligible_law[OF rel_fields(11)[OF r3]] by simp
    show ?thesis
    proof (cases "initial_flag m c s2 \<and> so_has_eligible_jobs A (m_scheduler s3)")
      case False
      then show ?thesis using assms(1) ia ib el r3 by auto
    next
      case True
      then obtain xa where xa: "la = Some xa" using assms(1) ia by (cases la) auto
      have st: "rel_sum (=) (sim_rel R) (start_jobs (settle_initial dm) ids s) (start_jobs (settle_initial dm) ids t)" if "sim_rel R s t" for ids s t
        by (rule start_jobs_rel[OF _ _ that]) (rule ws_settle_initial)+
      obtain xb where xb: "lb = Some xb" "rel_sum (=) (rel_prod (=) (sim_rel R)) xa xb"
        using schedule_loop_sim[OF st xa[unfolded la_def] r3] by (auto simp: lb_def)
      then show ?thesis using assms(1) ia ib el True xa by (cases xa; cases xb) auto
    qed
  qed
qed

lemma advance_impl_sim:
  assumes "advance_to_impl A dm m target s = Some x" "sim_rel R s t"
  shows "\<exists>y. advance_to_impl B dm m target t = Some y \<and> rel_sum (=) (sim_rel R) x y"
proof (cases "target < m_current_time s")
  case True
  then show ?thesis using assms rel_fields(3)[OF assms(2)] by (auto simp: advance_to_impl_def)
next
  case False
  note now = rel_fields(3)[OF assms(2)]
  obtain z where z: "initial_pass A dm m s = Some z" using assms(1) False by (cases "initial_pass A dm m s") (auto simp: advance_to_impl_def)
  obtain z' where z': "initial_pass B dm m t = Some z'" "rel_sum (=) (rel_prod (=) (sim_rel R)) z z'"
    using initial_pass_sim[OF z assms(2)] by blast
  show ?thesis
  proof (cases z)
    case (Inl e)
    then show ?thesis using assms(1) False z z' now by (cases z') (auto simp: advance_to_impl_def)
  next
    case (Inr p)
    obtain nt s1 where p: "p = (nt, s1)" by (cases p)
    obtain t1 where t1: "z' = Inr (nt, t1)" "sim_rel R s1 t1" using z' Inr p by (cases z') auto
    define lv where "lv = read_loop_vars A nt s1"
    have lv: "read_loop_vars B nt t1 = lv" using loop_vars_rel[OF t1(2)] by (simp add: lv_def)
    define s2 where "s2 = update_peak (lv_active_count lv) (if periodic_backfill m then align_backfill_tick s1 else s1)"
    define t2 where "t2 = update_peak (lv_active_count lv) (if periodic_backfill m then align_backfill_tick t1 else t1)"
    have r2: "sim_rel R s2 t2" using peak_rel[OF t1(2)] peak_rel[OF align_rel[OF t1(2)]] by (simp add: s2_def t2_def)
    have a: "advance_to_impl A dm m target s = (case main_loop A dm m (m_current_time s) target lv s2 of None \<Rightarrow> None
        | Some (Inl e) \<Rightarrow> Some (Inl e) | Some (Inr s3) \<Rightarrow> Some (Inr (if target = dbl_max then s3 else s3\<lparr>m_current_time := target\<rparr>)))"
      using False z Inr p by (simp add: advance_to_impl_def Let_def lv_def[symmetric] s2_def)
    have b: "advance_to_impl B dm m target t = (case main_loop B dm m (m_current_time s) target lv t2 of None \<Rightarrow> None
        | Some (Inl e) \<Rightarrow> Some (Inl e) | Some (Inr s3) \<Rightarrow> Some (Inr (if target = dbl_max then s3 else s3\<lparr>m_current_time := target\<rparr>)))"
      using False z' t1 now lv by (simp add: advance_to_impl_def Let_def t2_def)
    obtain w where w: "main_loop A dm m (m_current_time s) target lv s2 = Some w"
      using assms(1) a by (cases "main_loop A dm m (m_current_time s) target lv s2") auto
    obtain w' where "main_loop B dm m (m_current_time s) target lv t2 = Some w'" "rel_sum (=) (sim_rel R) w w'"
      using main_loop_sim[OF w r2] by blast
    then show ?thesis using assms(1) a b w rel_updates(1) by (cases w; cases w') auto
  qed
qed

text \<open>One call, in both directions: not returning is shared as well.\<close>

lemma advance_rel:
  assumes "sim_rel R s t"
  shows "rel_option (rel_sum (=) (sim_rel R)) (advance_to A dm target s) (advance_to B dm target t)"
proof (cases "advance_to A dm target s")
  case (Some x)
  then show ?thesis using advance_impl_sim[of dm "mode_of (m_params s)" target s x t] assms rel_fields(1)[OF assms]
    by (auto simp: advance_to_def)
next
  case None
  have "advance_to B dm target t = None"
  proof (rule ccontr)
    assume "advance_to B dm target t \<noteq> None"
    then obtain y where "advance_to_impl B dm (mode_of (m_params s)) target t = Some y"
      using rel_fields(1)[OF assms] by (auto simp: advance_to_def)
    from bisimilar.advance_impl_sim[OF flipped this sim_rel_flip[THEN iffD2, OF assms]] None
    show False by (auto simp: advance_to_def)
  qed
  then show ?thesis using None by simp
qed

end

section \<open>Whole runs\<close>

locale bisimilar_submit = bisimilar +
  assumes insert_law: "R a b \<Longrightarrow> rel_sum (=) R (so_insert_job A a i u l n) (so_insert_job B b i u l n)"
    and ever_law: "R a b \<Longrightarrow> so_can_ever_run A a n = so_can_ever_run B b n"
begin

lemma submit_rel:
  assumes "sim_rel R s t"
  shows "rel_sum (=) (sim_rel R) (submit_job A i u v s) (submit_job B i u v t)"
proof -
  obtain b where t: "t = with_scheduler b s" "R (m_scheduler s) b" using assms by (rule sim_relE)
  show ?thesis
  proof (cases "job_at (m_trace s) i")
    case (Inr j)
    have "rel_sum (=) R (so_insert_job A (m_scheduler s) i u (limit_time j) (m_num_nodes j)) (so_insert_job B b i u (limit_time j) (m_num_nodes j))"
      by (rule insert_law[OF t(2)])
    then show ?thesis unfolding t(1) using Inr t(2) ever_law[OF t(2)]
      by (cases "so_insert_job A (m_scheduler s) i u (limit_time j) (m_num_nodes j)";
          cases "so_insert_job B b i u (limit_time j) (m_num_nodes j)") (auto simp: submit_job_def Let_def sim_rel_def)
  qed (simp add: submit_job_def t(1))
qed

lemma submit_all_rel: "sim_rel R s t \<Longrightarrow> rel_sum (=) (sim_rel R) (submit_all A ids s) (submit_all B ids t)"
proof (induction ids arbitrary: s t)
  case (Cons i ids)
  show ?case
  proof (cases "job_at (m_trace s) i")
    case (Inl e)
    then show ?thesis using rel_fields(2)[OF Cons(2)] by simp
  next
    case (Inr j)
    then show ?thesis using rel_fields(2)[OF Cons(2)]
      by (simp add: Let_def) (rule rel_case_sum[OF submit_rel[OF Cons(2)]], rule Cons(1))
  qed
qed simp

lemma open_rel: "sim_rel R s t \<Longrightarrow> sim_rel R (open_traces s) (open_traces t)"
  by (erule sim_relE) (simp add: open_traces_def sim_rel_def)

lemma reset_rel: "sim_rel R s t \<Longrightarrow> sim_rel R (reset_counters s) (reset_counters t)"
  by (erule sim_relE) (simp add: reset_counters_def reset_capacity_schedule_def sim_rel_def)

lemma run_batch_rel:
  assumes "sim_rel R s t"
  shows "rel_option (rel_sum (=) (sim_rel R)) (run_batch A dm mt s) (run_batch B dm mt t)"
proof -
  have r: "rel_sum (=) (sim_rel R) (submit_all A [0..<length (m_data (m_trace s))] s) (submit_all B [0..<length (m_data (m_trace t))] t)"
    using submit_all_rel[OF assms] rel_fields(2)[OF assms] by simp
  show ?thesis
    using r advance_rel
    by (cases "submit_all A [0..<length (m_data (m_trace s))] s"; cases "submit_all B [0..<length (m_data (m_trace t))] t")
      (auto simp: run_batch_def)
qed

lemma run_files_rel:
  "sim_rel R s t \<Longrightarrow> rel_option (rel_sum (=) (sim_rel R)) (run_files A dm sm available bytes files rng s) (run_files B dm sm available bytes files rng t)"
proof (induction files arbitrary: rng s t)
  case (Cons f fs)
  note fields = rel_fields[OF Cons(2)]
  show ?case
  proof (cases "load_next_file available bytes (m_current_time s) f (m_trace s)")
    case (Inl e)
    then show ?thesis using fields by simp
  next
    case (Inr p)
    obtain ids tr where p: "p = (ids, tr)" by (cases p)
    show ?thesis
    proof (cases "ids = []")
      case True
      have "sim_rel R (s\<lparr>m_trace := tr\<rparr>) (t\<lparr>m_trace := tr\<rparr>)" by (rule rel_updates(2)[OF Cons(2)])
      from Cons(1)[OF this] True Inr p fields show ?thesis by (simp add: Let_def)
    next
      case False
      show ?thesis
      proof (cases "if m_trace_mode tr = SIMULATION
          then determine_run_time_of (p_run_time_mode (m_params s)) (params_sample sm (m_params s)) ids rng tr else Inr (tr, rng)")
        case (Inl e)
        then show ?thesis using False Inr p fields by (simp add: Let_def)
      next
        case (Inr q)
        obtain tr2 rng2 where q: "q = (tr2, rng2)" by (cases q)
        note loaded = \<open>load_next_file available bytes (m_current_time s) f (m_trace s) = Inr p\<close>
        have n: "ids \<noteq> []" "load_next_file available bytes (m_current_time t) f (m_trace t) = Inr (ids, tr)"
          using False loaded p fields by simp_all
        have n3: "(if m_trace_mode tr = SIMULATION
            then determine_run_time_of (p_run_time_mode (m_params t)) (params_sample sm (m_params t)) ids rng tr else Inr (tr, rng)) = Inr (tr2, rng2)"
          using Inr q by (simp only: fields(1))
        have m: "load_next_file available bytes (m_current_time s) f (m_trace s) = Inr (ids, tr)"
          "(if m_trace_mode tr = SIMULATION
            then determine_run_time_of (p_run_time_mode (m_params s)) (params_sample sm (m_params s)) ids rng tr else Inr (tr, rng)) = Inr (tr2, rng2)"
          using loaded p Inr q by (simp_all only:)
        show ?thesis unfolding run_files.simps Let_def n n3 m sum.case prod.case if_not_P[OF n(1)] fields(1)
        proof (rule rel_case_some[OF submit_all_rel[OF rel_updates(2)[OF Cons(2)]]], goal_cases)
          case (1 v w)
          show ?case unfolding rel_fields(2)[OF 1]
          proof (cases "job_at (m_trace v) (List.last ids)", simp, simp only: sum.case, rule rel_case_option[OF advance_rel[OF 1]], goal_cases)
            case (1 j v w)
            then show ?case using Cons(1) by simp
          qed
        qed
      qed
    qed
  qed
qed simp

lemma initialize_rel:
  assumes "sim_rel R s t"
  shows "rel_sum (=) (rel_prod (=) (rel_prod (=) (sim_rel R))) (initialize_trace sm load n rng s) (initialize_trace sm load n rng t)"
proof -
  obtain b where t: "t = with_scheduler b s" "R (m_scheduler s) b" using assms by (rule sim_relE)
  show ?thesis
  proof (cases "initialize_trace sm load n rng s")
    case (Inl e)
    then show ?thesis by (simp add: t(1) ws_initialize)
  next
    case (Inr q)
    obtain k rng' s' where q: "q = (k, rng', s')" by (cases q)
    have "initialize_trace sm load n rng (with_scheduler (m_scheduler s) s) = Inr (k, rng', s')" using Inr q by simp
    then have "Inr (k, rng', with_scheduler (m_scheduler s) s') = (Inr (k, rng', s') :: exn + _)"
      unfolding ws_initialize Inr q by simp
    then have "m_scheduler s' = m_scheduler s" by (intro kept_scheduler) simp
    then show ?thesis using Inr q t by (simp add: ws_initialize sim_rel_def)
  qed
qed

lemma run_progressive_rel:
  assumes "sim_rel R s t"
  shows "rel_option (rel_sum (=) (sim_rel R)) (run_progressive A dm sm available bytes files rng s) (run_progressive B dm sm available bytes files rng t)"
proof -
  note r1 = reset_rel[OF rel_updates(2)[OF assms, of "(m_trace s)\<lparr>m_data := []\<rparr>"]]
  note r2 = open_rel[OF rel_updates(2)[OF r1, of "(m_trace (reset_counters (s\<lparr>m_trace := (m_trace s)\<lparr>m_data := []\<rparr>\<rparr>)))
    \<lparr>m_resource_history_capacity := p_resource_history_capacity (m_params s)\<rparr>"]]
  show ?thesis unfolding run_progressive_def Let_def rel_fields(1,2)[OF assms] rel_fields(2)[OF r1]
  proof (rule rel_case_option[OF run_files_rel[OF r2]], goal_cases)
    case (1 v w)
    then show ?case using advance_rel[OF 1] rel_fields(3)[OF 1] by simp
  qed
qed

lemma run_replay_rel:
  assumes "sim_rel R s t"
  shows "rel_sum (=) (sim_rel R) (run_replay dm stamp s) (run_replay dm stamp t)"
  by (rule rel_step[OF assms]) (rule ws_replay)+

theorem run_rel:
  assumes "sim_rel R s t"
  shows "rel_option (rel_sum (=) (sim_rel R)) (run A dm sm stamp available bytes load files rng s) (run B dm sm stamp available bytes load files rng t)"
proof -
  define p where "p = m_params s"
  note e = rel_fields[OF assms, folded p_def]
  define tr where "tr = (m_trace s)\<lparr>m_job_store_capacity := p_job_store_capacity p, m_job_store_overflow := p_job_store_overflow p,
    m_job_flush_interval := p_job_flush_interval p, m_memory_pressure_fraction := p_memory_pressure_fraction p\<rparr>"
  note r1 = rel_updates(2)[OF assms, of tr]
  show ?thesis
  proof (cases "(\<not> p_checkpoint_file p \<and> p_checkpoint_interval_jobs p \<noteq> 0) \<or> (case p_max_time p of None \<Rightarrow> False | Some t \<Rightarrow> \<not> isfinite t \<or> t < 0)")
    case True
    then show ?thesis by (auto simp: run_def e p_def[symmetric] Let_def)
  next
    case False
    then have no: "\<not> (\<not> p_checkpoint_file p \<and> p_checkpoint_interval_jobs p \<noteq> 0)"
      "\<not> (case p_max_time p of None \<Rightarrow> False | Some t \<Rightarrow> \<not> isfinite t \<or> t < 0)" by blast+
    show ?thesis unfolding run_def Let_def e(1,2) p_def[symmetric] tr_def[symmetric] if_not_P[OF no(1)] if_not_P[OF no(2)]
    proof (cases "p_infile_list p", simp_all only: if_True if_False, goal_cases)
      case 1
      show ?case by (simp add: run_progressive_rel[OF r1])
    next
      case 2
      have i: "rel_sum (=) (rel_prod (=) (rel_prod (=) (sim_rel R))) (initialize_trace sm load 0 rng (s\<lparr>m_trace := tr\<rparr>))
          (initialize_trace sm load 0 rng (t\<lparr>m_trace := tr\<rparr>))"
        by (rule initialize_rel[OF r1])
      show ?case
      proof (rule rel_case_some[OF i], erule rel_case_prod, erule rel_case_prod, goal_cases)
        case (1 v w n v' w' rng' s1 t1)
        note f = rel_fields[OF 1]
        note r2 = rel_updates(2)[OF 1]
        show ?case unfolding f(2) by (simp add: run_replay_rel[OF open_rel[OF r2]] run_batch_rel[OF open_rel[OF r2]] rel_some)
      qed
    qed
  qed
qed

end

section \<open>The circular queue runs as the deque does\<close>

definition circular_has_eligible_jobs :: "'a circular_queue_scheme \<Rightarrow> bool" where
  "circular_has_eligible_jobs s \<longleftrightarrow> circular_active_job_count s > 0"

definition circular_ops :: "circular_buffer \<Rightarrow> 'a circular_queue_scheme scheduler_ops" where
  "circular_ops b = \<lparr>so_insert_job = circular_insert_job b, so_schedule = circular_schedule, so_schedule_event = circular_schedule,
     so_sync_to = circular_sync_to, so_active_job_count = circular_active_job_count,
     so_get_next_arrival_time = circular_next_arrival_time, so_has_eligible_jobs = circular_has_eligible_jobs,
     so_can_ever_run = (\<lambda>_ _. True), so_set_capacity_outlook = set_capacity_outlook\<rparr>"

definition as_deque :: "circular_queue \<Rightarrow> fcfs_queue \<Rightarrow> bool" where
  "as_deque s d \<longleftrightarrow> deque_view s = d \<and> length (m_wait_queue s) \<le> m_capacity s \<and> m_overflow_policy s = GROW"

lemma view_outlook: "deque_view (set_capacity_outlook c u ch s) = set_capacity_outlook c u ch (deque_view s)"
  by (simp add: set_capacity_outlook_def fcfs_queue.defs)

lemma circular_bisimilar:
  assumes "buffer_ok b"
  shows "bisimilar_submit (circular_ops b) deque_ops as_deque"
proof -
  have pass: "rel_prod (=) as_deque (circular_schedule (set_capacity_outlook c u ch s) free running now)
      (deque_schedule (set_capacity_outlook c u ch d) free running now)" if "as_deque s d" for c u ch s d free running now
  proof -
    let ?s = "set_capacity_outlook c u ch s"
    have d: "set_capacity_outlook c u ch d = deque_view ?s" using that by (simp add: as_deque_def view_outlook)
    have w: "length (m_wait_queue ?s) \<le> m_capacity ?s" "m_overflow_policy ?s = GROW"
      using that by (simp_all add: as_deque_def set_capacity_outlook_def)
    show ?thesis unfolding d circular_schedule_eq view_schedule
      using w deque_schedule_length[of ?s free running now]
      by (cases "deque_schedule ?s free running now")
        (simp add: as_deque_def deque_schedule_capacity[of ?s free running now, symmetric] deque_schedule_overflow[of ?s free running now, symmetric])
  qed
  show ?thesis
  proof (unfold_locales, goal_cases)
    case (1 a d t)
    then have d: "d = deque_view a" and w: "length (m_wait_queue a) \<le> m_capacity a" "m_overflow_policy a = GROW"
      by (simp_all add: as_deque_def)
    have "deque_view (circular_sync_to a t) = deque_sync_to d t" unfolding d circular_sync_eq by (rule view_sync)
    moreover have "length (m_wait_queue (circular_sync_to a t)) \<le> m_capacity (circular_sync_to a t)"
      "m_overflow_policy (circular_sync_to a t) = GROW" using w by (simp_all add: circular_sync_to_def)
    ultimately show ?case by (simp add: as_deque_def circular_ops_def deque_ops_def)
  next
    case (7 a d i u l n)
    then have "length (m_wait_queue a) \<le> m_capacity a" "m_overflow_policy a = GROW" by (simp_all add: as_deque_def)
    from grow_insert[OF assms this, of i u l n] 7 show ?case
      by (auto simp: circular_ops_def deque_ops_def as_deque_def deque_insert_def)
  qed (auto simp: circular_ops_def deque_ops_def as_deque_def circular_active_job_count_def deque_active_job_count_def
      circular_next_arrival_time_def deque_next_arrival_time_def circular_has_eligible_jobs_def deque_has_eligible_jobs_def
      intro: pass)
qed

text \<open>What is left of related runs when the schedulers are taken away is equal.\<close>

lemma rel_runs_equal:
  fixes x :: "('e + ('a, 'g) simulation) option" and y :: "('e + ('b, 'g) simulation) option"
  assumes "rel_option (rel_sum (=) (sim_rel R)) x y"
  shows "map_option (map_sum id (with_scheduler ())) x = map_option (map_sum id (with_scheduler ())) y"
proof -
  have "with_scheduler () s = with_scheduler () t" if "sim_rel R s t" for s t
    using that by (rule sim_relE) simp
  then have "map_sum id (with_scheduler ()) a = map_sum id (with_scheduler ()) b"
    if "rel_sum (=) (sim_rel R) a b" for a :: "'e + ('a, 'g) simulation" and b :: "'e + ('b, 'g) simulation"
    using that by (cases a; cases b) auto
  then show ?thesis using assms by (cases x; cases y) auto
qed

lemma new_as_deque:
  "sim_rel as_deque (new_simulation p tr (new_circular total_nodes job_count policy capacity GROW depth) changes)
     (new_simulation p tr (new_deque total_nodes policy depth) changes)"
proof -
  have "deque_view (new_circular total_nodes job_count policy capacity GROW depth) = new_deque total_nodes policy depth"
    by (simp add: new_circular_def new_deque_def fcfs_queue.defs circular_queue.defs scheduler_base.defs)
  moreover have "length (m_wait_queue (new_circular total_nodes job_count policy capacity GROW depth)) \<le>
      m_capacity (new_circular total_nodes job_count policy capacity GROW depth)"
    "m_overflow_policy (new_circular total_nodes job_count policy capacity GROW depth) = GROW"
    by (simp_all add: new_circular_def fcfs_queue.defs circular_queue.defs scheduler_base.defs)
  ultimately show ?thesis
    by (simp add: sim_rel_def new_simulation_def reset_capacity_schedule_def with_scheduler_def as_deque_def)
qed

interpretation cd: bisimilar_submit "circular_ops documented_buffer" deque_ops as_deque
  by (rule circular_bisimilar[OF documented_buffer_ok])

end
