(* ===== verification/Hybrid_Plan.thy ===== *)
theory Hybrid_Plan
  imports Hybrid_Refine
begin

text \<open>
  The reservation guarantee of the hybrid and conservative policies.  The traversal is run with a
  third planner, one that also records every commitment (the protected reservations and the starts).
  It provides the \<open>planner\<close> interface, so it makes the decisions of the real one; its record shows that
  at no time do the commitments exceed the projected capacity.
\<close>

type_synonym booking = "sim_time \<times> num_nodes \<times> tdiff"
type_synonym log_plan = "segment list \<times> booking list"

definition log_fit :: "log_plan \<Rightarrow> num_nodes \<Rightarrow> tdiff \<Rightarrow> sim_time \<Rightarrow> sim_time option \<times> log_plan" where
  "log_fit p n d t = (earliest_fit (fst p) n d t, p)"

definition log_commit :: "log_plan \<Rightarrow> sim_time \<Rightarrow> num_nodes \<Rightarrow> tdiff \<Rightarrow> log_plan" where
  "log_commit p t n d = (reserve (fst p) t n d, (t, n, d) # snd p)"

interpretation lg: planner log_fit log_commit fst "\<lambda>p. wf_tl (fst p)"
  by unfold_locales (auto simp: log_fit_def log_commit_def)

section \<open>Breakpoints\<close>

text \<open>A search answers the requested start or a breakpoint of the profile, and a reservation adds its two
  ends as breakpoints.\<close>

lemma set_scan_fit: "set (scan_fit n stop b xs) \<subseteq> set xs"
  by (induction n stop b xs rule: scan_fit.induct) auto

lemma earliest_loop_time: "earliest_loop n d t0 seg = Some t \<Longrightarrow> t = t0 \<or> t \<in> fst ` set seg"
proof (induction n d t0 seg rule: earliest_loop.induct)
  case (1 n d t0 seg)
  define scan nxt where "scan = scan_fit n (t0 + d) True seg" and "nxt = dropWhile (\<lambda>s. snd s < n) (tl scan)"
  note eq = earliest_loop.simps[of n d t0 seg, folded scan_def, unfolded Let_def, folded nxt_def]
  show ?case
  proof (cases "scan = [] \<or> (scan \<noteq> seg \<and> t0 + d \<le> fst (hd scan))")
    case True
    then show ?thesis using 1(2) eq by simp
  next
    case False
    then have ne: "nxt \<noteq> []" and rec: "earliest_loop n d (fst (hd nxt)) nxt = Some t"
      using 1(2) eq by (simp_all split: if_splits)
    have "set nxt \<subseteq> set seg"
      using set_scan_fit[of n "t0 + d" True seg] set_dropWhileD[of _ "\<lambda>s. snd s < n" "tl scan"] list.set_sel(2)[of scan]
        False by (auto simp: nxt_def scan_def)
    moreover have "t = fst (hd nxt) \<or> t \<in> fst ` set nxt"
      using 1(1)[OF scan_def False nxt_def ne rec] by simp
    ultimately show ?thesis using ne hd_in_set[OF ne] by (metis image_eqI image_mono subsetD)
  qed
qed

lemma earliest_fit_time:
  assumes "earliest_fit xs n d t0 = Some t"
  shows "t = t0 \<or> t \<in> fst ` set xs"
proof -
  define seg where "seg = drop (upper_bound xs t0 - 1) xs"
  have sub: "set seg \<subseteq> set xs" by (simp add: seg_def set_drop_subset)
  show ?thesis
  proof (cases "d \<le> 0")
    case True
    with assms obtain x ys where "dropWhile (\<lambda>s. snd s < n) seg = x # ys" "t = t0 \<or> t = fst x"
      by (auto simp: earliest_fit_def seg_def Let_def split: if_splits list.splits)
    then show ?thesis using sub set_dropWhileD[of x "\<lambda>s. snd s < n" seg] by auto
  next
    case False
    with assms have "earliest_loop n d t0 seg = Some t" by (simp add: earliest_fit_def seg_def Let_def split: if_splits)
    from earliest_loop_time[OF this] sub show ?thesis by (metis image_mono subsetD)
  qed
qed

lemma split_at_times: "fst ` set (snd (split_at xs t)) \<subseteq> insert t (fst ` set xs)"
  by (auto simp: split_at_def Let_def dest: in_set_takeD in_set_dropD)

lemma sub_range_times: "fst ` set (sub_range lo hi n xs) \<subseteq> fst ` set xs"
  by (auto simp: sub_range_def image_image dest!: in_set_takeD in_set_dropD intro: rev_image_eqI)

lemma coalesce_times: "fst ` set (snd (coalesce b xs)) \<subseteq> fst ` set xs"
  by (auto simp: coalesce_def dest: in_set_takeD in_set_dropD)

lemma reserve_times: "fst ` set (reserve xs t0 n d) \<subseteq> insert t0 (insert (t0 + d) (fst ` set xs))"
proof (cases "d \<le> 0")
  case False
  define xs1 where "xs1 = snd (split_at xs t0)"
  define xs2 where "xs2 = snd (split_at xs1 (t0 + d))"
  define lo hi where "lo = fst (split_at xs t0)" and "hi = fst (split_at xs1 (t0 + d))"
  have "reserve xs t0 n d = snd (coalesce (if fst (coalesce lo (sub_range lo hi n xs2)) then hi - 1 else hi)
      (snd (coalesce lo (sub_range lo hi n xs2))))"
    using False by (simp add: reserve_def Let_def case_prod_beta xs1_def xs2_def lo_def hi_def)
  then have "fst ` set (reserve xs t0 n d) \<subseteq> fst ` set (sub_range lo hi n xs2)" 
    by (simp only:) (rule order_trans[OF coalesce_times coalesce_times])
  also have "\<dots> \<subseteq> fst ` set xs2" by (rule sub_range_times)
  also have "\<dots> \<subseteq> insert (t0 + d) (fst ` set xs1)" unfolding xs2_def by (rule split_at_times)
  also have "\<dots> \<subseteq> insert t0 (insert (t0 + d) (fst ` set xs))" using split_at_times[of xs t0] by (auto simp: xs1_def)
  finally show ?thesis .
qed (auto simp: reserve_def)

section \<open>The recording planner\<close>

definition booked :: "booking list \<Rightarrow> sim_time \<Rightarrow> nat" where
  "booked l t = sum_list (map (\<lambda>(b, n, d). if b \<le> t \<and> t < b + d then unat n else 0) l)"

lemma booked_simps [simp]:
  "booked [] t = 0"
  "booked ((b, n, d) # l) t = (if b \<le> t \<and> t < b + d then unat n else 0) + booked l t"
  by (simp_all add: booked_def)

text \<open>Whole numbers of seconds up to a bound.\<close>

definition whole :: "int \<Rightarrow> double set" where
  "whole K = dbl ` {0..K}"

lemma whole_mono: "K \<le> L \<Longrightarrow> whole K \<subseteq> whole L"
  by (auto simp: whole_def)

text \<open>The books balance: what is committed and what is left add up to the baseline, at every time, and the
  breakpoints of the profile are whole seconds up to the bound.\<close>

definition balanced :: "int \<Rightarrow> segment list \<Rightarrow> sim_time \<Rightarrow> log_plan \<Rightarrow> bool" where
  "balanced K base now p \<longleftrightarrow> wf_tl (fst p) \<and> origin (fst p) = now \<and> fst ` set (fst p) \<subseteq> whole K \<and> now \<in> whole K \<and>
     (\<forall>t. now \<le> t \<longrightarrow> unat (cap (fst p) t) + booked (snd p) t = unat (cap base t))"

lemma balanced_mono: "balanced K base now p \<Longrightarrow> K \<le> L \<Longrightarrow> balanced L base now p"
  using whole_mono[of K L] by (auto simp: balanced_def)

lemma balanced_commit:
  assumes p: "balanced K base now p" and b: "now \<le> b" and f: "fits (fst p) n d b"
    and r: "b \<in> whole K" "b + d \<in> whole L" "K \<le> L"
  shows "balanced L base now (log_commit p b n d)"
proof -
  have wf: "wf_tl (fst p)" "origin (fst p) = now" using p by (simp_all add: balanced_def)
  have "unat (cap (fst p) t - n) + unat n = unat (cap (fst p) t)" if "b \<le> t" "t < b + d" for t
    using f that by (simp add: fits_def unat_sub word_le_nat_alt)
  then have "unat (cap (reserve (fst p) b n d) t) + booked ((b, n, d) # snd p) t = unat (cap base t)" if "now \<le> t" for t
    using p that wf b by (auto simp: balanced_def tl_simps add.assoc[symmetric])
  moreover have "fst ` set (reserve (fst p) b n d) \<subseteq> whole L" using reserve_times[of "fst p" b n d] p r whole_mono[OF r(3)]
    by (simp add: balanced_def) (metis (no_types, lifting) insert_subset order_trans subsetD)
  ultimately show ?thesis using wf b p whole_mono[OF r(3)] by (auto simp: balanced_def log_commit_def)
qed

text \<open>With exact planning a job of a whole number of seconds is planned for exactly these, as long as the
  sums stay representable: each commitment moves the last breakpoint by at most its own length.\<close>

definition exact_job :: "'a scheduler_base_scheme \<Rightarrow> job_entry \<Rightarrow> int \<Rightarrow> bool" where
  "exact_job s j e \<longleftrightarrow> m_planning_time_resolution s = 0 \<and> run_time_estimate j = dbl e \<and> 0 \<le> e"

lemma exact_job_est:
  assumes "exact_job s j e" "K + e \<le> 9007199254740992" "t \<in> whole K"
  shows "est s t j = dbl e" "t + dbl e \<in> whole (K + e)"
proof -
  obtain a where a: "t = dbl a" "0 \<le> a" "a \<le> K" using assms(3) by (auto simp: whole_def)
  show "est s t j = dbl e" "t + dbl e \<in> whole (K + e)"
    using a assms(1,2) by (simp_all add: exact_job_def release_estimate_def Let_def dbl_add dbl_diff whole_def)
qed

lemma balanced_fit:
  "balanced K base now p \<Longrightarrow> earliest_fit (fst p) n d now = Some t \<Longrightarrow> t \<in> whole K"
  using earliest_fit_time[of "fst p" n d now t] by (auto simp: balanced_def)

lemma balanced_protect:
  assumes p: "balanced K base now (snd cp)" and ex: "exact_job s j e" "K + e \<le> 9007199254740992"
    and r: "\<And>t. r = Some t \<Longrightarrow> now \<le> t \<and> fits (fst (snd cp)) (nodes_requested j) (est s now j) t \<and> t \<in> whole K"
    and eq: "protect_job log_fit log_commit s now d cp j r = (c', p')"
  shows "balanced (K + e) base now p' \<and> length (snd p') + fst cp = length (snd (snd cp)) + c' \<and> set (snd (snd cp)) \<subseteq> set (snd p')"
proof -
  obtain c p0 where cp: "cp = (c, p0)" by (cases cp)
  have le: "K \<le> K + e" and now: "now \<in> whole K" using ex(1) p by (simp_all add: exact_job_def balanced_def)
  define x where "x = (if r = None then earliest_fit (fst p0) (nodes_requested j) (est s now j) now else r)"
  have wf: "wf_tl (fst p0)" "origin (fst p0) \<le> now" using p cp by (simp_all add: balanced_def)
  have x: "now \<le> t \<and> fits (fst p0) (nodes_requested j) (est s t j) t \<and> t \<in> whole K \<and> t + est s t j \<in> whole (K + e)"
    if "x = Some t" for t
  proof -
    have t: "now \<le> t \<and> fits (fst p0) (nodes_requested j) (est s now j) t \<and> t \<in> whole K"
      using that r cp earliest_fit_SomeD[OF wf] balanced_fit[of K base now p0] p
      by (auto simp: x_def split: if_splits)
    then show ?thesis using exact_job_est[OF ex] now by simp
  qed
  have "protect_job log_fit log_commit s now d cp j r = (if d \<noteq> 0 \<and> c \<ge> d then (c, p0) else
      case x of None \<Rightarrow> (c, p0) | Some t \<Rightarrow> if \<not> reservation_within_horizon s t now then (c, p0)
        else (Suc c, log_commit p0 t (nodes_requested j) (est s t j)))"
    by (simp add: protect_job_def cp log_fit_def x_def Let_def)
  then consider "c' = c" "p' = p0" | t where "x = Some t" "c' = Suc c" "p' = log_commit p0 t (nodes_requested j) (est s t j)"
    using eq by (auto split: if_splits option.splits)
  then show ?thesis
  proof cases
    case 1
    then show ?thesis using balanced_mono[OF _ le] p cp by simp
  next
    case 2
    then show ?thesis using balanced_commit[of K base now p0 t, OF _ _ _ _ _ le] p cp x[OF 2(1)] by (auto simp: log_commit_def)
  qed
qed

lemma balanced_scan:
  assumes "balanced K base now (snd cp)" "\<forall>j\<in>set js. exact_job s j (secs j)" "K + sum_list (map secs js) \<le> 9007199254740992"
    and "hybrid_scan log_fit log_commit s now u qd pd a aplan cp ex js = (st, js', ex', c', p')"
  shows "balanced (K + sum_list (map secs js)) base now p' \<and> length (snd p') + fst cp = length (snd (snd cp)) + c' + length st \<and>
    set (snd (snd cp)) \<subseteq> set (snd p') \<and> (\<forall>j\<in>set st. (now, nodes_requested j, est s now j) \<in> set (snd p'))"
  using assms
proof (induction js arbitrary: K a aplan cp ex st js')
  case (Cons j js)
  have wf: "wf_tl (fst (snd cp))" "origin (fst (snd cp)) \<le> now" using Cons.prems(1) by (simp_all add: balanced_def)
  have rest: "0 \<le> sum_list (map secs js)" using Cons.prems(2) by (intro sum_list_nonneg) (auto simp: exact_job_def)
  have sj: "exact_job s j (secs j)" "\<forall>j\<in>set js. exact_job s j (secs j)" "K + secs j + sum_list (map secs js) \<le> 9007199254740992"
    "K + secs j \<le> 9007199254740992" "0 \<le> secs j"
    using Cons.prems(2,3) rest by (auto simp: exact_job_def)
  have m: "balanced (K + secs j) base now (snd cp)" "balanced (K + sum_list (map secs (j # js))) base now (snd cp)"
    using balanced_mono[OF Cons.prems(1)] sj(5) rest by simp_all
  let ?x = "earliest_fit (fst (snd cp)) (nodes_requested j) (est s now j) now"
  have f: "log_fit (snd cp) (nodes_requested j) (est s now j) now = (?x, snd cp)" by (simp add: log_fit_def)
  show ?case
  proof (cases rule: scan_cases[where j = j and s = s and now = now and aplan = aplan and u = u and qd = qd and ex = ex and a = a])
    case skip
    then obtain ys where "hybrid_scan log_fit log_commit s now u qd pd a aplan cp ex js = (st, ys, ex', c', p')"
      using Cons.prems(4) by (auto simp: scan_skip simp del: hybrid_scan.simps elim: visitE)
    from Cons.IH[OF m(1) sj(2,3) this] show ?thesis by (simp add: add.assoc)
  next
    case stop
    then show ?thesis using Cons.prems m(2) by (auto simp: scan_stop simp del: hybrid_scan.simps)
  next
    case slot
    then obtain ys where "hybrid_scan log_fit log_commit s now u qd pd a aplan cp (Suc ex) js = (st, ys, ex', c', p')"
      using Cons.prems(4) by (auto simp: scan_slot simp del: hybrid_scan.simps elim: visitE)
    from Cons.IH[OF m(1) sj(2,3) this] show ?thesis by (simp add: add.assoc)
  next
    case big
    obtain c1 p1 where p1: "protect_job log_fit log_commit s now pd cp j None = (c1, p1)" by (rule prod.exhaust)
    from balanced_protect[OF Cons.prems(1) sj(1,4) _ p1] have b: "balanced (K + secs j) base now (snd (c1, p1))"
      "length (snd p1) + fst cp = length (snd (snd cp)) + c1" "set (snd (snd cp)) \<subseteq> set (snd p1)" by auto
    obtain ys where "hybrid_scan log_fit log_commit s now u qd pd a aplan (c1, p1) (Suc ex) js = (st, ys, ex', c', p')"
      using Cons.prems(4) big p1 by (auto simp: scan_big simp del: hybrid_scan.simps elim: visitE)
    from Cons.IH[OF b(1) sj(2,3) this] b(2,3) show ?thesis by (auto simp: add.assoc)
  next
    case cand
    show ?thesis
    proof (cases "?x = Some now")
      case True
      have fit: "fits (fst (snd cp)) (nodes_requested j) (est s now j) now" using earliest_fit_SomeD(2)[OF wf True] .
      define p1 where "p1 = log_commit (snd cp) now (nodes_requested j) (est s now j)"
      have now: "now \<in> whole K" using Cons.prems(1) by (simp add: balanced_def)
      have b: "balanced (K + secs j) base now (snd (fst cp, p1))"
        using balanced_commit[OF Cons.prems(1) order_refl fit now, of "K + secs j"] exact_job_est[OF sj(1,4) now] sj(5)
        by (simp add: p1_def)
      have l: "length (snd p1) = Suc (length (snd (snd cp)))" "set (snd p1) = insert (now, nodes_requested j, est s now j) (set (snd (snd cp)))"
        by (simp_all add: p1_def log_commit_def)
      note eq = scan_start[where f = log_fit and cp = cp, OF cand f[unfolded True], where g = log_commit and pd = pd and u = u and js = js,
          folded p1_def, unfolded Let_def]
      show ?thesis
      proof (cases "a - nodes_requested j = 0")
        case zero: True
        then show ?thesis using eq Cons.prems(4) balanced_mono[OF b, of "K + sum_list (map secs (j # js))"] rest l by auto
      next
        case nz: False
        from eq nz Cons.prems(4) have "take_start j (hybrid_scan log_fit log_commit s now u qd pd (a - nodes_requested j)
            (reserve aplan now (nodes_requested j) (est s now j)) (fst cp, p1) (Suc ex) js) = (st, js', ex', c', p')"
          by (simp del: hybrid_scan.simps)
        then obtain st1 ys where rec: "hybrid_scan log_fit log_commit s now u qd pd (a - nodes_requested j)
            (reserve aplan now (nodes_requested j) (est s now j)) (fst cp, p1) (Suc ex) js = (st1, ys, ex', c', p')"
          "st = j # st1" by (rule startE)
        from Cons.IH[OF b sj(2,3) rec(1)] l rec(2) show ?thesis by (auto simp: add.assoc)
      qed
    next
      case False
      obtain c1 p1 where p1: "protect_job log_fit log_commit s now pd (fst cp, snd cp) j ?x = (c1, p1)" by (rule prod.exhaust)
      have "now \<le> t \<and> fits (fst (snd (fst cp, snd cp))) (nodes_requested j) (est s now j) t \<and> t \<in> whole K" if "?x = Some t" for t
        using earliest_fit_SomeD[OF wf that] balanced_fit[OF Cons.prems(1) that] by simp
      from balanced_protect[OF _ sj(1,4) this p1] Cons.prems(1) have b: "balanced (K + secs j) base now (snd (c1, p1))"
        "length (snd p1) + fst cp = length (snd (snd cp)) + c1" "set (snd (snd cp)) \<subseteq> set (snd p1)" by auto
      have "visit j (hybrid_scan log_fit log_commit s now u qd pd a aplan (c1, p1) (Suc ex) js) = (st, js', ex', c', p')"
        using Cons.prems(4) scan_keep[where f = log_fit and cp = cp, OF cand f False, where g = log_commit and pd = pd and u = u and js = js] p1
        by simp
      then obtain ys where "hybrid_scan log_fit log_commit s now u qd pd a aplan (c1, p1) (Suc ex) js = (st, ys, ex', c', p')"
        by (rule visitE)
      from Cons.IH[OF b(1) sj(2,3) this] b(2,3) show ?thesis by (auto simp: add.assoc)
    qed
  qed
qed auto

text \<open>The traversal as a pass runs it, from the baseline profile with the head protected first.\<close>

lemma hybrid_commitments:
  assumes wf: "wf_tl base" "origin base = now" "fst ` set base \<subseteq> whole K" "now \<in> whole K"
    and st: "\<forall>j\<in>set (head # js). exact_job s j (secs j)" "K + sum_list (map secs (head # js)) \<le> 9007199254740992"
    and sc: "hybrid_scan log_fit log_commit s now u qd pd a base
        (protect_job log_fit log_commit s now pd (0, (base, [])) head None) ex js = (st, js', ex', c, p, l)"
  shows "fst (hybrid_scan timeline_fit reserve s now u qd pd a base
        (protect_job timeline_fit reserve s now pd (0, base) head None) ex js) = st \<and>
    length l = c + length st \<and> (\<forall>j\<in>set st. (now, nodes_requested j, est s now j) \<in> set l) \<and>
    (\<forall>t. now \<le> t \<longrightarrow> booked l t \<le> unat (cap base t))"
proof -
  obtain c1 p1 where p1: "protect_job log_fit log_commit s now pd (0, (base, [])) head None = (c1, p1)" by (rule prod.exhaust)
  have bal: "balanced K base now (snd (0 :: nat, (base, [])))" using wf by (simp add: balanced_def)
  have h: "exact_job s head (secs head)" "\<forall>j\<in>set js. exact_job s j (secs j)" using st by auto
  have "0 \<le> sum_list (map secs js)" using h(2) by (intro sum_list_nonneg) (auto simp: exact_job_def)
  then have le: "K + secs head \<le> 9007199254740992" "K + secs head + sum_list (map secs js) \<le> 9007199254740992" using st(2) by simp_all
  from balanced_protect[OF bal h(1) le(1) _ p1] have b: "balanced (K + secs head) base now (snd (c1, p1))" "length (snd p1) = c1" by auto
  from balanced_scan[OF b(1) h(2) le(2) sc[unfolded p1]] b(2)
  have r: "balanced (K + secs head + sum_list (map secs js)) base now (p, l)" "length l = c + length st"
    "\<forall>j\<in>set st. (now, nodes_requested j, est s now j) \<in> set l" by auto
  have "booked l t \<le> unat (cap base t)" if "now \<le> t" for t
    using r(1) that unfolding balanced_def snd_conv by (metis le_add2)
  moreover have "fst (hybrid_scan timeline_fit reserve s now u qd pd a base
        (protect_job timeline_fit reserve s now pd (0, base) head None) ex js) = st"
  proof -
    obtain c2 p2 where "protect_job log_fit log_commit s now pd (0, (base, [])) head None = (c2, p2)"
      "protect_job timeline_fit reserve s now pd (0, fst (base, [] :: booking list)) head None = (c2, fst p2)"
      "wf_tl (fst p2)" "origin (fst p2) = now"
      by (rule lg.protect_eqE[where p = "(base, [])" and r = None and s = s and d = pd and c = 0 and j = head and now = now])
         (use wf in auto)
    then show ?thesis using lg.scan_eq[where p = p2 and now = now and c = c2] sc by (metis fst_conv)
  qed
  ultimately show ?thesis using r by blast
qed

end
