(* ===== verification/Periodic.thy ===== *)
theory Periodic
  imports Hybrid_Plan
begin

text \<open>
  The schedulers with separate periodic backfill: \<^verbatim>\<open>FCFSPeriodicEasyCircularScheduler\<close>
  (\<^verbatim>\<open>src/src/sim/scheduler_fcfs_periodic_easy_circular.hpp\<close>, \<^verbatim>\<open>.cpp\<close>) and
  \<^verbatim>\<open>FCFSPeriodicHybridCircularScheduler\<close> (\<^verbatim>\<open>scheduler_fcfs_periodic_hybrid_circular.hpp\<close>, \<^verbatim>\<open>.cpp\<close>).  State
  events run \<^verbatim>\<open>schedule_event\<close>, which only consumes the front of the queue and publishes the head's
  reservation; ticks run \<^verbatim>\<open>schedule\<close>, which backfills.  The two classes have the same body of
  \<^verbatim>\<open>schedule_event\<close> after their own \<^verbatim>\<open>sync_to\<close>; it is the definition \<open>dispatch_event\<close>.
\<close>

section \<open>State and operations\<close>

record periodic_easy = circular_queue +
  m_backfill_evaluation_time :: sim_time

definition new_periodic_easy ::
  "num_nodes \<Rightarrow> nat \<Rightarrow> nat \<Rightarrow> circular_overflow_policy \<Rightarrow> nat \<Rightarrow> periodic_easy" where
  "new_periodic_easy total_nodes initial_job_count initial_capacity overflow depth =
     circular_queue.extend (new_circular total_nodes initial_job_count EASY initial_capacity overflow depth)
       (periodic_easy.fields dbl_lowest)"

definition dispatch_event ::
  "'a fcfs_queue_scheme \<Rightarrow> num_nodes \<Rightarrow> running_jobs \<Rightarrow> sim_time \<Rightarrow> job_no list \<times> 'a fcfs_queue_scheme" where
  "dispatch_event s free running now =
     (let s = (if m_removed_count s > 0 \<and> m_removed_count s * 2 > length (m_wait_queue s)
               then s\<lparr>m_wait_queue := filter (\<lambda>j. \<not> removed j) (m_wait_queue s),
                      m_eligible_end_idx := m_eligible_end_idx s
                        - length (filter removed (take (m_eligible_end_idx s) (m_wait_queue s))),
                      m_removed_count := 0\<rparr>
               else s)
      in if m_eligible_end_idx s = 0 then ([], s)
      else let (heads, avail, e, r, q) = start_heads (m_eligible_end_idx s) (m_removed_count s) free (m_wait_queue s);
               s = s\<lparr>m_wait_queue := q, m_eligible_end_idx := e, m_removed_count := r\<rparr>
           in (map job_id heads,
               if m_eligible_end_idx s - m_removed_count s \<noteq> 0
               then s\<lparr>m_fcfs_reservation_time := calculate_fcfs_reservation s (nodes_requested (hd q)) avail running now
                        (map (projected s now) heads)\<rparr>
               else s))"

definition periodic_easy_event ::
  "'a periodic_easy_scheme \<Rightarrow> num_nodes \<Rightarrow> running_jobs \<Rightarrow> sim_time \<Rightarrow> job_no list \<times> 'a periodic_easy_scheme" where
  "periodic_easy_event s free running now = dispatch_event (circular_sync_to s now) free running now"

definition periodic_easy_schedule ::
  "'a periodic_easy_scheme \<Rightarrow> num_nodes \<Rightarrow> running_jobs \<Rightarrow> sim_time \<Rightarrow> job_no list \<times> 'a periodic_easy_scheme" where
  "periodic_easy_schedule s free running now =
     (if m_backfill_evaluation_time s = now then periodic_easy_event s free running now
      else circular_schedule (s\<lparr>m_backfill_evaluation_time := now\<rparr>) free running now)"

definition periodic_hybrid_event ::
  "'a hybrid_circular_scheme \<Rightarrow> num_nodes \<Rightarrow> running_jobs \<Rightarrow> sim_time \<Rightarrow> job_no list \<times> 'a hybrid_circular_scheme" where
  "periodic_hybrid_event s free running now = dispatch_event (hc_sync_to s now) free running now"

text \<open>The inherited \<^verbatim>\<open>schedule\<close>, with the slot rule of the override.\<close>

definition periodic_hybrid_schedule ::
  "'a hybrid_circular_scheme \<Rightarrow> num_nodes \<Rightarrow> running_jobs \<Rightarrow> sim_time \<Rightarrow> job_no list \<times> 'a hybrid_circular_scheme" where
  "periodic_hybrid_schedule s free running now = hc_schedule True s free running now"

lemmas periodic_eval [eval_simps] = dispatch_event_def periodic_easy_event_def periodic_easy_schedule_def
  periodic_hybrid_event_def periodic_hybrid_schedule_def new_periodic_easy_def

section \<open>The event pass\<close>

lemma dispatch_event_eq:
  "dispatch_event s free running now =
     (let c = deque_compact s in
      if m_eligible_end_idx c = 0 then ([], c)
      else let (heads, avail, e, r, q) = start_heads (m_eligible_end_idx c) (m_removed_count c) free (m_wait_queue c);
               c = c\<lparr>m_wait_queue := q, m_eligible_end_idx := e, m_removed_count := r\<rparr>
           in (map job_id heads,
               if m_eligible_end_idx c - m_removed_count c \<noteq> 0
               then c\<lparr>m_fcfs_reservation_time := calculate_fcfs_reservation c (nodes_requested (hd q)) avail running now
                        (map (projected c now) heads)\<rparr>
               else c))"
  unfolding dispatch_event_def deque_compact_def Let_def by (rule refl)

text \<open>An event starts the longest feasible prefix of the waiting jobs and nothing else, and publishes
  the projection of the first job it could not start.\<close>

lemma dispatch_event_refines:
  assumes inv: "fq_inv s" and ev: "dispatch_event s free running now = (ids, s')"
    and sp: "spec_heads free (waiting s) = (hs, a, rest)"
  shows "ids = map job_id hs \<and> fq_inv s' \<and> waiting s' = rest \<and> future s' = future s \<and>
    (rest \<noteq> [] \<longrightarrow> m_fcfs_reservation_time s' =
       calculate_fcfs_reservation s (nodes_requested (hd rest)) a running now (map (projected s now) hs))"
proof -
  define c where "c = deque_compact s"
  have c: "fq_inv c" "waiting c = waiting s" "future c = future s"
    using compact_refines[OF inv] by (auto simp: c_def)
  have sc: "same_planning c s" by (simp add: same_planning_def c_def deque_compact_def)
  show ?thesis
  proof (cases "m_eligible_end_idx c = 0")
    case True
    then have "waiting s = []" using c(2) by (simp add: waiting_def)
    with True ev sp c show ?thesis by (auto simp: dispatch_event_eq c_def Let_def)
  next
    case False
    obtain hs' a' e r q where sh: "start_heads (m_eligible_end_idx c) (m_removed_count c) free (m_wait_queue c) =
      (hs', a', e, r, q)" by (metis prod_cases5)
    define d where "d = c\<lparr>m_wait_queue := q, m_eligible_end_idx := e, m_removed_count := r\<rparr>"
    note h = start_heads_inv[OF c(1) sh, folded d_def]
    have eqs: "hs' = hs" "a' = a" "rest = live (take e q)" using h sp c(2) by auto
    have d: "waiting d = rest" "future d = future s" using h eqs c(3) by (simp_all add: d_def waiting_def future_def)
    have act: "e - r \<noteq> 0 \<longleftrightarrow> rest \<noteq> []"
      using active_job_count_waiting[of d] h d(1) by (simp add: deque_active_job_count_def d_def)
    have "same_planning d s" using sc by (simp add: same_planning_def d_def)
    note cong = planning_cong[OF this]
    define x where "x = calculate_fcfs_reservation s (nodes_requested (hd q)) a running now (map (projected s now) hs)"
    have out: "ids = map job_id hs" "s' = (if rest \<noteq> [] then d\<lparr>m_fcfs_reservation_time := x\<rparr> else d)"
      using ev False sh act
      by (auto simp: dispatch_event_eq c_def[symmetric] Let_def d_def[symmetric] eqs cong x_def calculate_fcfs_reservation_def)
    have same: "fq_inv (d\<lparr>m_fcfs_reservation_time := y\<rparr>) = fq_inv d" "waiting (d\<lparr>m_fcfs_reservation_time := y\<rparr>) = waiting d"
      "future (d\<lparr>m_fcfs_reservation_time := y\<rparr>) = future d" for y by (simp_all add: fq_inv_def waiting_def future_def)
    have "hd rest = hd q" if "rest \<noteq> []" using h eqs live_pos that by (metis list.sel(1))
    then show ?thesis using out h d same by (simp add: x_def)
  qed
qed

end
