(* ===== verification/Periodic_Laws.thy ===== *)
theory Periodic_Laws
  imports Periodic Session
begin

text \<open>
  The contract of the periodic schedulers of theory \<open>Periodic\<close>: every interleaving of ticks and events
  conserves the jobs.  The circular hybrid queue has the capacity law of its buffer, as the circular
  EASY queue has.
\<close>

section \<open>The event pass\<close>

lemma dispatch_event_clock:
  "m_current_tracked_time (snd (dispatch_event s free running now)) = m_current_tracked_time s"
  by (simp add: dispatch_event_eq Let_def case_prod_beta deque_compact_def)

lemma dispatch_event_length:
  "length (m_wait_queue (snd (dispatch_event s free running now))) \<le> length (m_wait_queue s)"
proof -
  have "length (m_wait_queue (deque_compact s)) \<le> length (m_wait_queue s)" by (simp add: deque_compact_def)
  moreover obtain hs a e r q where sh: "start_heads (m_eligible_end_idx (deque_compact s)) (m_removed_count (deque_compact s))
      free (m_wait_queue (deque_compact s)) = (hs, a, e, r, q)" by (metis prod_cases5)
  ultimately show ?thesis using start_heads_length[OF sh] by (auto simp: dispatch_event_eq Let_def)
qed

lemma deque_sync_queue: "m_wait_queue (deque_sync_to s now) = m_wait_queue s"
  by (simp add: deque_sync_to_def)

lemma dispatch_event_law:
  assumes inv: "fq_inv s" and ev: "dispatch_event (deque_sync_to s now) free running now = (ids, s')"
  shows "fq_inv s' \<and> length (m_wait_queue s') \<le> length (m_wait_queue s) \<and>
    m_current_tracked_time s' = max (m_current_tracked_time s) now \<and>
    (\<exists>st. ids = map job_id st \<and> mset (pending s) = mset st + mset (pending s') \<and>
       nodes_sum st \<le> unat free \<and> (\<forall>j\<in>set st. submit_time j \<le> m_current_tracked_time s'))"
proof -
  define d where "d = deque_sync_to s now"
  have sync: "fq_inv d" using sync_to_refines[OF inv] by (simp add: d_def)
  have clk: "m_current_tracked_time d = max (m_current_tracked_time s) now" by (simp add: d_def deque_clock)
  have len: "length (m_wait_queue s') \<le> length (m_wait_queue s)"
    using dispatch_event_length[of d free running now] ev deque_sync_queue[of s now] by (simp add: d_def)
  have clk': "m_current_tracked_time s' = m_current_tracked_time d"
    using dispatch_event_clock[of d free running now] ev by (simp add: d_def)
  obtain hs a rest where sp: "spec_heads free (waiting d) = (hs, a, rest)" by (metis prod_cases3)
  note h = spec_heads_correct[OF sp]
  note r = dispatch_event_refines[OF sync ev[folded d_def] sp]
  have "mset (pending s) = mset hs + mset (pending s')"
    using arg_cong[OF sync_pending[OF inv, of now], of mset] h r by (simp add: pending_def d_def add.assoc)
  moreover have "\<forall>j\<in>set hs. submit_time j \<le> m_current_tracked_time s'"
    using h waiting_arrived[OF sync] clk' by auto
  moreover have "nodes_sum hs \<le> unat free" using h by auto
  ultimately show ?thesis using r len clk clk' by (auto intro!: exI[of _ hs])
qed

section \<open>Periodic EASY\<close>

lemma capacity_kept:
  "m_capacity (snd (dispatch_event s free running now)) = m_capacity s" for s :: "'a circular_queue_scheme"
  by (simp add: dispatch_event_eq Let_def case_prod_beta deque_compact_def)

lemma periodic_easy_event_law: "lawful circ_inv pending m_current_tracked_time periodic_easy_event"
  unfolding lawful_def
proof (intro allI impI)
  fix s :: "'a periodic_easy_scheme" and free running now ids s'
  assume inv: "circ_inv s" and ev: "periodic_easy_event s free running now = (ids, s')"
  have e: "dispatch_event (deque_sync_to s now) free running now = (ids, s')"
    using ev by (simp add: periodic_easy_event_def circular_sync_eq)
  have "m_capacity s' = m_capacity s"
    using capacity_kept[of "deque_sync_to s now" free running now] e by (simp add: deque_sync_to_def split: if_splits)
  moreover note dispatch_event_law[OF _ e]
  ultimately show "circ_inv s' \<and> m_current_tracked_time s' = max (m_current_tracked_time s) now \<and>
      (\<exists>st. ids = map job_id st \<and> mset (pending s) = mset st + mset (pending s') \<and>
         nodes_sum st \<le> unat free \<and> (\<forall>j\<in>set st. submit_time j \<le> m_current_tracked_time s'))"
    using inv by (auto simp: circ_inv_def)
qed

lemma evaluation_time_irrelevant [simp]:
  "circ_inv (s\<lparr>m_backfill_evaluation_time := t\<rparr>) = circ_inv s"
  "pending (s\<lparr>m_backfill_evaluation_time := t\<rparr>) = pending s"
  by (simp_all add: circ_inv_def fq_inv_def pending_def waiting_def future_def)

lemma periodic_easy_schedule_law: "lawful circ_inv pending m_current_tracked_time periodic_easy_schedule"
proof -
  have "circ_inv s' \<and> m_current_tracked_time s' = max (m_current_tracked_time s) now \<and>
      (\<exists>st. ids = map job_id st \<and> mset (pending s) = mset st + mset (pending s') \<and>
         nodes_sum st \<le> unat free \<and> (\<forall>j\<in>set st. submit_time j \<le> m_current_tracked_time s'))"
    if inv: "circ_inv s" and sch: "periodic_easy_schedule s free running now = (ids, s')"
    for s :: "'a periodic_easy_scheme" and free running now ids s'
  proof (cases "m_backfill_evaluation_time s = now")
    case True
    with sch have "periodic_easy_event s free running now = (ids, s')" by (simp add: periodic_easy_schedule_def)
    with periodic_easy_event_law inv show ?thesis unfolding lawful_def by blast
  next
    case False
    with sch have "circular_schedule (s\<lparr>m_backfill_evaluation_time := now\<rparr>) free running now = (ids, s')"
      by (simp add: periodic_easy_schedule_def)
    from cq.sch_law[OF _ this] inv show ?thesis by auto
  qed
  then show ?thesis unfolding lawful_def by blast
qed

lemma circular_scheduler_with:
  assumes "buffer_ok b" "lawful circ_inv pending m_current_tracked_time sch"
  shows "scheduler (circular_insert_job b) circular_sync_to sch
    (\<lambda>s i t. in_order s t) pending circ_inv (m_current_tracked_time :: 'a circular_queue_scheme \<Rightarrow> _)"
proof -
  have "scheduler (circular_insert_job b) circular_sync_to circular_schedule
    (\<lambda>s i t. in_order s t) pending circ_inv (m_current_tracked_time :: 'a circular_queue_scheme \<Rightarrow> _)"
    using assms(1) by (rule circular_scheduler)
  then show ?thesis using assms(2) unfolding scheduler_def lawful_def by blast
qed

lemma periodic_easy_event_scheduler:
  assumes "buffer_ok b"
  shows "event_scheduler (circular_insert_job b) circular_sync_to periodic_easy_schedule
    (\<lambda>s i t. in_order s t) pending circ_inv m_current_tracked_time periodic_easy_event"
  by (intro event_scheduler.intro event_scheduler_axioms.intro circular_scheduler_with assms
      periodic_easy_event_law periodic_easy_schedule_law)

sublocale buffer_law \<subseteq> pe: event_scheduler "circular_insert_job b" circular_sync_to periodic_easy_schedule
    "\<lambda>s i t. in_order s t" pending circ_inv m_current_tracked_time periodic_easy_event
  by (rule periodic_easy_event_scheduler[OF law])

section \<open>The circular hybrid queue\<close>

definition hc_inv :: "'a hybrid_circular_scheme \<Rightarrow> bool" where
  "hc_inv s \<longleftrightarrow> fq_inv s \<and> length (m_wait_queue s) \<le> mh_capacity s"

text \<open>An insertion that does not throw is the deque's, into a buffer with room.\<close>

lemma hc_insert_eq:
  assumes b: "buffer_ok b" and le: "length (m_wait_queue s) \<le> mh_capacity s" and ins: "hc_insert_job b s i t r n = Inr s'"
  shows "\<exists>c. s' = deque_insert_job (s\<lparr>mh_capacity := c\<rparr>) i t r n \<and> length (m_wait_queue s) < c"
proof (cases "length (m_wait_queue s) = mh_capacity s")
  case True
  define c where "c = max (mh_capacity s * 2) 1"
  have "length (m_wait_queue s) < c" using True by (simp add: c_def)
  moreover from this have "cb_set_capacity b c (m_wait_queue s) = m_wait_queue s"
    "cb_push_back b c (m_wait_queue s) x = m_wait_queue s @ [x]" for x
    using b unfolding buffer_ok_def by simp_all
  then have "s' = deque_insert_job (s\<lparr>mh_capacity := c\<rparr>) i t r n"
    using ins True by (simp add: hc_insert_job_def deque_insert_job_def Let_def c_def[symmetric, unfolded One_nat_def] split: if_splits)
  ultimately show ?thesis by blast
next
  case False
  then have "cb_push_back b (mh_capacity s) (m_wait_queue s) x = m_wait_queue s @ [x]" for x
    using b le unfolding buffer_ok_def by simp
  then have "s' = deque_insert_job (s\<lparr>mh_capacity := mh_capacity s\<rparr>) i t r n"
    using ins False by (simp add: hc_insert_job_def deque_insert_job_def Let_def split: if_splits)
  then show ?thesis using False le by (intro exI[of _ "mh_capacity s"]) simp
qed

lemma hc_insert_law:
  assumes b: "buffer_ok b" and inv: "hc_inv s" and ord: "in_order s t" and ins: "hc_insert_job b s i t r n = Inr s'"
  shows "hc_inv s' \<and> mset (pending s') = add_mset (new_entry i t r n) (mset (pending s)) \<and>
    m_current_tracked_time s' = m_current_tracked_time s"
proof -
  obtain c where s': "s' = deque_insert_job (s\<lparr>mh_capacity := c\<rparr>) i t r n" and c: "length (m_wait_queue s) < c"
    using hc_insert_eq[OF b _ ins] inv by (auto simp: hc_inv_def)
  have pre: "fq_inv (s\<lparr>mh_capacity := c\<rparr>)" "in_order (s\<lparr>mh_capacity := c\<rparr>) t"
    using inv ord by (simp_all add: hc_inv_def fq_inv_def in_order_def)
  have "deque_insert (s\<lparr>mh_capacity := c\<rparr>) i t r n = Inr s'" by (simp add: deque_insert_def s')
  note dq.ins_law[OF pre this]
  moreover have "pending (s\<lparr>mh_capacity := c\<rparr>) = pending s" by (simp add: pending_def waiting_def future_def)
  moreover have "length (m_wait_queue s') = Suc (length (m_wait_queue s))" "mh_capacity s' = c"
    by (simp_all add: s' deque_insert_job_def Let_def)
  ultimately show ?thesis using c by (simp add: hc_inv_def)
qed

lemma hc_scheduler_with:
  assumes b: "buffer_ok b" and sch: "lawful hc_inv pending m_current_tracked_time sch"
  shows "scheduler (hc_insert_job b) hc_sync_to sch
    (\<lambda>s i t. in_order s t) pending hc_inv (m_current_tracked_time :: 'a hybrid_circular_scheme \<Rightarrow> _)"
proof
  fix s :: "'a hybrid_circular_scheme" and i t r n s'
  assume "hc_inv s" "in_order s t" "hc_insert_job b s i t r n = Inr s'"
  then show "hc_inv s' \<and> mset (pending s') = add_mset (new_entry i t r n) (mset (pending s)) \<and>
      m_current_tracked_time s' = m_current_tracked_time s"
    by (rule hc_insert_law[OF b])
next
  fix s :: "'a hybrid_circular_scheme" and t
  assume "hc_inv s"
  then show "hc_inv (hc_sync_to s t) \<and> mset (pending (hc_sync_to s t)) = mset (pending s) \<and>
      m_current_tracked_time (hc_sync_to s t) = max (m_current_tracked_time s) t"
    using dq.syn_law[of s t] by (simp add: hc_inv_def hc_sync_eq) (simp add: deque_sync_to_def)
qed (use sch[unfolded lawful_def] in blast)

lemma hybrid_pass_capacity:
  "mh_capacity (snd (hybrid_pass f g pnew u s free running now)) = mh_capacity s" for s :: "'a hybrid_circular_scheme"
  by (simp add: hybrid_pass_def account_head_def Let_def case_prod_beta)

lemma hc_capacity_sync: "mh_capacity (deque_compact (deque_sync_to s now)) = mh_capacity s"
  by (simp add: deque_compact_def deque_sync_to_def)

lemma hc_schedule_law: "lawful hc_inv pending m_current_tracked_time (hc_schedule u)"
proof -
  have "hc_inv s' \<and> m_current_tracked_time s' = max (m_current_tracked_time s) now \<and>
      (\<exists>st. ids = map job_id st \<and> mset (pending s) = mset st + mset (pending s') \<and>
         nodes_sum st \<le> unat free \<and> (\<forall>j\<in>set st. submit_time j \<le> m_current_tracked_time s'))"
    if inv: "hc_inv s" and sch: "hc_schedule u s free running now = (ids, s')"
    for s :: "'a hybrid_circular_scheme" and free running now ids s'
  proof -
    define c where "c = deque_compact (deque_sync_to s now)"
    have call: "(let c = deque_compact (deque_sync_to s now) in
        if m_eligible_end_idx c = 0 then ([], c) else hybrid_pass timeline_fit reserve (\<lambda>xs. xs) u c free running now) = (ids, s')"
      using sch by (simp add: hc_schedule_def protection_eq)
    then have "mh_capacity s' = mh_capacity s"
      using hybrid_pass_capacity[of timeline_fit reserve "\<lambda>xs. xs" u c free running now] hc_capacity_sync[of s now]
      by (auto simp: Let_def c_def[symmetric] split: if_splits)
    moreover note hybrid_call_law[OF _ call]
    ultimately show ?thesis using inv unfolding hc_inv_def by auto
  qed
  then show ?thesis unfolding lawful_def by blast
qed

lemma mh_capacity_kept:
  "mh_capacity (snd (dispatch_event s free running now)) = mh_capacity s" for s :: "'a hybrid_circular_scheme"
  by (simp add: dispatch_event_eq Let_def case_prod_beta deque_compact_def)

lemma periodic_hybrid_event_law: "lawful hc_inv pending m_current_tracked_time periodic_hybrid_event"
proof -
  have "hc_inv s' \<and> m_current_tracked_time s' = max (m_current_tracked_time s) now \<and>
      (\<exists>st. ids = map job_id st \<and> mset (pending s) = mset st + mset (pending s') \<and>
         nodes_sum st \<le> unat free \<and> (\<forall>j\<in>set st. submit_time j \<le> m_current_tracked_time s'))"
    if inv: "hc_inv s" and ev: "periodic_hybrid_event s free running now = (ids, s')"
    for s :: "'a hybrid_circular_scheme" and free running now ids s'
  proof -
    have e: "dispatch_event (deque_sync_to s now) free running now = (ids, s')"
      using ev by (simp add: periodic_hybrid_event_def hc_sync_eq)
    have "mh_capacity s' = mh_capacity s"
      using mh_capacity_kept[of "deque_sync_to s now" free running now] e by (simp add: deque_sync_to_def split: if_splits)
    moreover note dispatch_event_law[OF _ e]
    ultimately show ?thesis using inv by (auto simp: hc_inv_def)
  qed
  then show ?thesis unfolding lawful_def by blast
qed

lemma periodic_hybrid_schedule_law: "lawful hc_inv pending m_current_tracked_time periodic_hybrid_schedule"
  using hc_schedule_law[of True] by (simp add: lawful_def periodic_hybrid_schedule_def)

sublocale buffer_law \<subseteq> hc: scheduler "hc_insert_job b" hc_sync_to "hc_schedule False"
    "\<lambda>s i t. in_order s t" pending hc_inv m_current_tracked_time
  by (intro hc_scheduler_with law hc_schedule_law)

lemma periodic_hybrid_event_scheduler:
  assumes "buffer_ok b"
  shows "event_scheduler (hc_insert_job b) hc_sync_to periodic_hybrid_schedule
    (\<lambda>s i t. in_order s t) pending hc_inv m_current_tracked_time periodic_hybrid_event"
  by (intro event_scheduler.intro event_scheduler_axioms.intro hc_scheduler_with assms
      periodic_hybrid_event_law periodic_hybrid_schedule_law)

sublocale buffer_law \<subseteq> ph: event_scheduler "hc_insert_job b" hc_sync_to periodic_hybrid_schedule
    "\<lambda>s i t. in_order s t" pending hc_inv m_current_tracked_time periodic_hybrid_event
  by (rule periodic_hybrid_event_scheduler[OF law])

end
