(* ===== verification/Dispatch.thy ===== *)
theory Dispatch
  imports Periodic_Laws
begin

text \<open>
  \<^verbatim>\<open>PeriodicFCFSHybridCircularScheduler\<close> (\<^verbatim>\<open>src/src/sim/scheduler_periodic_fcfs_hybrid_circular.hpp\<close>):
  periodic dispatch over a bounded prefix of the queue, with a planner chosen by a sample of the prefix.
  The sample counts distinct requests in an open-addressing hash table; \<^verbatim>\<open>std::hash\<close> on doubles is
  implementation-defined and is the parameter \<open>hash\<close> of the model.  The probing loop is a partial
  function: not returning is None, and that it returns is proved.
\<close>

unbundle bit_operations_syntax

section \<open>State\<close>

record periodic_dispatch = hybrid_circular +
  m_dispatch_queue_depth :: nat

definition new_periodic_dispatch ::
  "num_nodes \<Rightarrow> nat \<Rightarrow> backfill_policy \<Rightarrow> nat \<Rightarrow> circular_overflow_policy \<Rightarrow> nat \<Rightarrow> nat \<Rightarrow> exn + periodic_dispatch" where
  "new_periodic_dispatch total_nodes initial_job_count policy initial_capacity overflow reservation_depth dispatch_depth =
     (case new_hybrid_circular total_nodes initial_job_count (if policy = EASY then HYBRID else policy)
             initial_capacity overflow (if policy = EASY then 1 else reservation_depth) 0 of
        Inl e \<Rightarrow> Inl e
      | Inr s \<Rightarrow> Inr (hybrid_circular.extend s (periodic_dispatch.fields dispatch_depth)))"

section \<open>The planner choice\<close>

type_synonym shape = "num_nodes \<times> tdiff"

definition shape_of :: "job_entry \<Rightarrow> shape" where
  "shape_of j = (nodes_requested j, run_time_estimate j)"

definition first_slot :: "(tdiff \<Rightarrow> 64 word) \<Rightarrow> shape \<Rightarrow> 64 word" where
  "first_slot hash k = (hash (snd k) XOR (ucast (fst k) * 0x9e3779b9)) AND 255"

partial_function (option) probe :: "shape option list \<Rightarrow> shape \<Rightarrow> 64 word \<Rightarrow> 64 word option" where
  "probe shapes k slot =
     (if shapes ! unat slot \<noteq> None \<and> shapes ! unat slot \<noteq> Some k then probe shapes k ((slot + 1) AND 255)
      else Some slot)"

fun shapes_loop ::
  "(tdiff \<Rightarrow> 64 word) \<Rightarrow> shape option list \<Rightarrow> nat \<Rightarrow> nat \<Rightarrow> job_entry list \<Rightarrow> bool option" where
  "shapes_loop hash shapes cnt distnct [] = Some True"
| "shapes_loop hash shapes cnt distnct (j # js) =
     (if \<not> cnt < 128 then Some True
      else if removed j then shapes_loop hash shapes cnt distnct js
      else case probe shapes (shape_of j) (first_slot hash (shape_of j)) of
        None \<Rightarrow> None
      | Some slot \<Rightarrow>
          if shapes ! unat slot = None then
            (if Suc distnct > 112 then Some False
             else shapes_loop hash (shapes[unat slot := Some (shape_of j)]) (Suc cnt) (Suc distnct) js)
          else shapes_loop hash shapes (Suc cnt) distnct js)"

definition prefix_reuses_interval_shapes :: "(tdiff \<Rightarrow> 64 word) \<Rightarrow> 'a hybrid_circular_scheme \<Rightarrow> bool option" where
  "prefix_reuses_interval_shapes hash s =
     shapes_loop hash (replicate 256 None) 0 0 (take (m_eligible_end_idx s) (m_wait_queue s))"

definition schedule_cached_pass ::
  "'a hybrid_circular_scheme \<Rightarrow> num_nodes \<Rightarrow> running_jobs \<Rightarrow> sim_time \<Rightarrow> job_no list \<times> 'a hybrid_circular_scheme" where
  "schedule_cached_pass s free running now =
     schedule_with_protection cache_earliest_fit cache_reserve new_cache True s free running now"

definition schedule_dispatch_pass ::
  "(tdiff \<Rightarrow> 64 word) \<Rightarrow> 'a hybrid_circular_scheme \<Rightarrow> num_nodes \<Rightarrow> running_jobs \<Rightarrow> sim_time \<Rightarrow>
   (job_no list \<times> 'a hybrid_circular_scheme) option" where
  "schedule_dispatch_pass hash s free running now =
     (if m_backfill_policy s = CONSERVATIVE \<and> free \<noteq> 0 \<and> m_planning_time_resolution s = 0
         \<and> hybrid_active_job_count s \<ge> 128
      then case prefix_reuses_interval_shapes hash s of
             None \<Rightarrow> None
           | Some True \<Rightarrow> Some (schedule_cached_pass s free running now)
           | Some False \<Rightarrow> Some (hc_schedule True s free running now)
      else Some (hc_schedule True s free running now))"

section \<open>The bounded pass\<close>

text \<open>The walk over a prefix with holes: its end and the removed entries in it.\<close>

fun prefix_walk :: "nat \<Rightarrow> job_entry list \<Rightarrow> nat \<times> nat" where
  "prefix_walk depth [] = (0, 0)"
| "prefix_walk depth (j # js) =
     (if depth = 0 then (0, 0)
      else if removed j then (let (e, r) = prefix_walk depth js in (Suc e, Suc r))
      else (let (e, r) = prefix_walk (depth - 1) js in (Suc e, r)))"

definition periodic_dispatch_schedule ::
  "(tdiff \<Rightarrow> 64 word) \<Rightarrow> 'a periodic_dispatch_scheme \<Rightarrow> num_nodes \<Rightarrow> running_jobs \<Rightarrow> sim_time \<Rightarrow>
   (job_no list \<times> 'a periodic_dispatch_scheme) option" where
  "periodic_dispatch_schedule hash s free running now =
     (let s = hc_sync_to s now in
      if m_dispatch_queue_depth s = 0 \<or> hybrid_active_job_count s \<le> m_dispatch_queue_depth s
      then schedule_dispatch_pass hash s free running now
      else
        let s = (if m_removed_count s > 0 \<and> m_removed_count s * 2 > length (m_wait_queue s)
                 then s\<lparr>m_eligible_end_idx := m_eligible_end_idx s - m_removed_count s,
                        m_wait_queue := filter (\<lambda>j. \<not> removed j) (m_wait_queue s),
                        m_removed_count := 0\<rparr>
                 else s);
            (prefix_end, prefix_removed) =
              (if m_removed_count s \<noteq> 0
               then prefix_walk (m_dispatch_queue_depth s) (take (m_eligible_end_idx s) (m_wait_queue s))
               else (min (m_eligible_end_idx s) (m_dispatch_queue_depth s), 0));
            withheld = m_eligible_end_idx s - prefix_end;
            withheld_removed = m_removed_count s - prefix_removed
        in case schedule_dispatch_pass hash (s\<lparr>m_eligible_end_idx := prefix_end, m_removed_count := prefix_removed\<rparr>)
                  free running now of
             None \<Rightarrow> None
           | Some (ids, s') \<Rightarrow> Some (ids, s'\<lparr>m_eligible_end_idx := m_eligible_end_idx s' + withheld,
                                              m_removed_count := m_removed_count s' + withheld_removed\<rparr>))"

section \<open>The hash table\<close>

lemma mask_255: "x AND 255 = take_bit 8 (x :: 64 word)"
  by (simp add: take_bit_eq_mask mask_numeral)

lemma unat_mask: "unat (x AND 255 :: 64 word) = unat x mod 256"
  unfolding mask_255 by (simp add: take_bit_eq_mod unat_mod)

lemma unat_next: "unat slot < 256 \<Longrightarrow> unat ((slot + 1 :: 64 word) AND 255) = Suc (unat slot) mod 256"
  by (simp add: unat_mask unat_word_ariths)

definition stops :: "shape option list \<Rightarrow> shape \<Rightarrow> nat \<Rightarrow> bool" where
  "stops shapes k i \<longleftrightarrow> shapes ! (i mod 256) = None \<or> shapes ! (i mod 256) = Some k"

text \<open>The probe returns the first stopping slot at or after its start, around the table.\<close>

lemma probe_first:
  assumes "unat slot < 256" "stops shapes k (unat slot + d)" "\<forall>c<d. \<not> stops shapes k (unat slot + c)"
  shows "\<exists>slot'. probe shapes k slot = Some slot' \<and> unat slot' = (unat slot + d) mod 256"
  using assms
proof (induction d arbitrary: slot)
  case 0
  then show ?case by (auto simp: probe.simps[of shapes k slot] stops_def)
next
  case (Suc d)
  have nxt: "unat ((slot + 1) AND 255) = Suc (unat slot) mod 256" using Suc(2) by (rule unat_next)
  have shift: "stops shapes k (unat ((slot + 1) AND 255) + c) = stops shapes k (unat slot + Suc c)" for c
    unfolding nxt stops_def by (simp add: mod_add_left_eq)
  have "\<not> stops shapes k (unat slot)" using Suc(4) by force
  then have "probe shapes k slot = probe shapes k ((slot + 1) AND 255)"
    using Suc(2) by (subst probe.simps) (simp add: stops_def)
  moreover have "\<exists>slot'. probe shapes k ((slot + 1) AND 255) = Some slot' \<and>
      unat slot' = (unat ((slot + 1) AND 255) + d) mod 256"
  proof (rule Suc.IH)
    show "unat ((slot + 1) AND 255) < 256" by (simp add: unat_mask)
    show "stops shapes k (unat ((slot + 1) AND 255) + d)" using Suc(3) shift by blast
    show "\<forall>c<d. \<not> stops shapes k (unat ((slot + 1) AND 255) + c)" using Suc(4) shift Suc_less_eq by blast
  qed
  ultimately show ?case by (simp add: nxt mod_add_left_eq)
qed

definition stored :: "shape option list \<Rightarrow> shape set" where
  "stored shapes = {k. Some k \<in> set shapes}"

text \<open>Linear probing without deletion: keys are stored once, and every slot between a key's first
  slot and its position is taken.\<close>

definition table_ok :: "(tdiff \<Rightarrow> 64 word) \<Rightarrow> shape option list \<Rightarrow> bool" where
  "table_ok hash shapes \<longleftrightarrow> length shapes = 256 \<and>
     (\<forall>i<256. \<forall>j<256. shapes ! i \<noteq> None \<longrightarrow> shapes ! i = shapes ! j \<longrightarrow> i = j) \<and>
     (\<forall>i<256. \<forall>k. shapes ! i = Some k \<longrightarrow>
        (\<exists>m. i = (unat (first_slot hash k) + m) mod 256 \<and>
             (\<forall>c<m. shapes ! ((unat (first_slot hash k) + c) mod 256) \<noteq> None)))"

lemma stored_nth: "length shapes = 256 \<Longrightarrow> k \<in> stored shapes \<longleftrightarrow> (\<exists>i<256. shapes ! i = Some k)"
  by (auto simp: stored_def in_set_conv_nth)

lemma empty_slot:
  assumes ok: "table_ok hash shapes" and few: "card (stored shapes) < 256"
  shows "\<exists>i<256. shapes ! i = None"
proof (rule ccontr)
  assume "\<not> ?thesis"
  then have full: "\<forall>i<256. \<exists>k. shapes ! i = Some k" by auto
  have len: "length shapes = 256" using ok by (simp add: table_ok_def)
  have "finite (stored shapes)"
    unfolding stored_def by (rule finite_subset[of _ "the ` set shapes"]) force+
  moreover have "inj_on (\<lambda>i. the (shapes ! i)) {..<256}"
  proof (rule inj_onI)
    fix i j assume ij: "i \<in> {..<256 :: nat}" "j \<in> {..<256}" "the (shapes ! i) = the (shapes ! j)"
    then have "shapes ! i \<noteq> None" "shapes ! i = shapes ! j" using full by (metis lessThan_iff option.sel option.distinct(1))+
    then show "i = j" using ok ij by (simp add: table_ok_def)
  qed
  moreover have "(\<lambda>i. the (shapes ! i)) ` {..<256} \<subseteq> stored shapes"
    using full len by (force simp: stored_nth)
  ultimately have "card {..<256 :: nat} \<le> card (stored shapes)" by (rule card_inj_on_le[rotated 2])
  then show False using few by simp
qed

text \<open>A probe finds the key when it is stored and an empty slot when it is not.\<close>

lemma probe_table:
  assumes ok: "table_ok hash shapes" and few: "card (stored shapes) < 256"
  obtains slot where "probe shapes k (first_slot hash k) = Some slot" "unat slot < 256"
    "shapes ! unat slot = (if k \<in> stored shapes then Some k else None)"
    "\<exists>m. unat slot = (unat (first_slot hash k) + m) mod 256 \<and>
       (\<forall>c<m. shapes ! ((unat (first_slot hash k) + c) mod 256) \<noteq> None)"
proof -
  let ?h = "unat (first_slot hash k)"
  have len: "length shapes = 256" using ok by (simp add: table_ok_def)
  have h: "?h < 256" by (simp add: first_slot_def unat_mask)
  obtain i where i: "i < 256" "shapes ! i = None" using empty_slot[OF ok few] by blast
  have "stops shapes k (?h + (i + 256 - ?h))" using i h by (simp add: stops_def)
  then have ex: "\<exists>d. stops shapes k (?h + d)" by blast
  define d where "d = (LEAST d. stops shapes k (?h + d))"
  have d: "stops shapes k (?h + d)" "\<forall>c<d. \<not> stops shapes k (?h + c)"
    using LeastI_ex[OF ex] not_less_Least[of _ "\<lambda>d. stops shapes k (?h + d)"] by (auto simp: d_def)
  obtain slot where slot: "probe shapes k (first_slot hash k) = Some slot" "unat slot = (?h + d) mod 256"
    using probe_first[OF h d] by blast
  have taken: "\<forall>c<d. shapes ! ((?h + c) mod 256) \<noteq> None" using d(2) by (auto simp: stops_def)
  have at: "shapes ! unat slot = None \<or> shapes ! unat slot = Some k" using d(1) slot(2) by (simp add: stops_def)
  have "shapes ! unat slot = (if k \<in> stored shapes then Some k else None)"
  proof (cases "k \<in> stored shapes")
    case True
    then obtain p m where p: "p = (?h + m) mod 256" "shapes ! p = Some k" "\<forall>c<m. shapes ! ((?h + c) mod 256) \<noteq> None"
      using ok len unfolding table_ok_def stored_nth[OF len] by blast
    have "d \<le> m" using d(2) p(1,2) by (auto simp: stops_def not_less[symmetric])
    then have "shapes ! unat slot \<noteq> None" using p slot(2) by (cases "d = m") (simp, metis le_neq_implies_less)
    with at True show ?thesis by simp
  next
    case False
    then show ?thesis using at slot(2) len stored_nth[OF len, of k] by auto
  qed
  then show thesis using that[of slot] slot taken by auto
qed

lemma stored_update:
  assumes "length shapes = 256" "i < 256" "shapes ! i = None"
  shows "stored (shapes[i := Some k]) = insert k (stored shapes)"
proof -
  have len: "length (shapes[i := Some k]) = 256" using assms(1) by simp
  have "(\<exists>j<256. shapes[i := Some k] ! j = Some l) \<longleftrightarrow> l = k \<or> (\<exists>j<256. shapes ! j = Some l)" for l
  proof
    assume "\<exists>j<256. shapes[i := Some k] ! j = Some l"
    then show "l = k \<or> (\<exists>j<256. shapes ! j = Some l)" using assms by (auto simp: nth_list_update split: if_splits)
  next
    assume "l = k \<or> (\<exists>j<256. shapes ! j = Some l)"
    then show "\<exists>j<256. shapes[i := Some k] ! j = Some l"
    proof
      assume "l = k" then show ?thesis using assms by (intro exI[of _ i]) simp
    next
      assume "\<exists>j<256. shapes ! j = Some l"
      then obtain j where j: "j < 256" "shapes ! j = Some l" by blast
      then have "j \<noteq> i" using assms(3) by auto
      then show ?thesis using j by (intro exI[of _ j]) simp
    qed
  qed
  then show ?thesis by (intro set_eqI) (simp only: stored_nth[OF len] stored_nth[OF assms(1)] insert_iff)
qed

lemma table_insert:
  assumes ok: "table_ok hash shapes" and i: "i < 256" "shapes ! i = None" and k: "k \<notin> stored shapes"
    and m: "i = (unat (first_slot hash k) + m) mod 256" "\<forall>c<m. shapes ! ((unat (first_slot hash k) + c) mod 256) \<noteq> None"
  shows "table_ok hash (shapes[i := Some k])"
proof -
  have len: "length shapes = 256" using ok by (simp add: table_ok_def)
  have new: "\<forall>j<256. shapes ! j \<noteq> Some k" using k stored_nth[OF len] by blast
  have nth: "shapes[i := Some k] ! j = (if j = i then Some k else shapes ! j)" if "j < 256" for j
    using that i len by (simp add: nth_list_update)
  have keep: "shapes[i := Some k] ! (x mod 256) \<noteq> None" if "shapes ! (x mod 256) \<noteq> None" for x
    using that nth[of "x mod 256"] by simp
  have "\<exists>m. j = (unat (first_slot hash l) + m) mod 256 \<and>
      (\<forall>c<m. shapes[i := Some k] ! ((unat (first_slot hash l) + c) mod 256) \<noteq> None)"
    if j: "j < 256" "shapes[i := Some k] ! j = Some l" for j l
  proof (cases "j = i")
    case True
    then have "l = k" using nth j i by simp
    then show ?thesis using m True keep by blast
  next
    case False
    then have "shapes ! j = Some l" using nth j by simp
    then show ?thesis using ok j keep unfolding table_ok_def by blast
  qed
  moreover have "j = l" if "j < 256" "l < 256" "shapes[i := Some k] ! j \<noteq> None"
      "shapes[i := Some k] ! j = shapes[i := Some k] ! l" for j l
    using that new ok unfolding table_ok_def by (metis nth)
  ultimately show ?thesis using len unfolding table_ok_def by (metis length_list_update)
qed

text \<open>The sample is right: it says whether the first live entries, 128 at most, have at most 112
  distinct shapes, and it always returns.\<close>

lemma shapes_loop_correct:
  assumes "table_ok hash shapes" "distnct = card (stored shapes)" "distnct \<le> 112" "cnt \<le> 128"
  shows "shapes_loop hash shapes cnt distnct js =
    Some (card (stored shapes \<union> shape_of ` set (take (128 - cnt) (live js))) \<le> 112)"
  using assms
proof (induction js arbitrary: shapes cnt distnct)
  case (Cons j js)
  have fin: "finite (stored shapes)"
    unfolding stored_def by (rule finite_subset[of _ "the ` set shapes"]) force+
  show ?case
  proof (cases "cnt < 128 \<and> \<not> removed j")
    case False
    then show ?thesis using Cons by auto
  next
    case True
    have len: "length shapes = 256" using Cons.prems(1) by (simp add: table_ok_def)
    have few: "card (stored shapes) < 256" using Cons.prems(2,3) by simp
    obtain slot where slot: "probe shapes (shape_of j) (first_slot hash (shape_of j)) = Some slot" "unat slot < 256"
      "shapes ! unat slot = (if shape_of j \<in> stored shapes then Some (shape_of j) else None)"
      "\<exists>m. unat slot = (unat (first_slot hash (shape_of j)) + m) mod 256 \<and>
         (\<forall>c<m. shapes ! ((unat (first_slot hash (shape_of j)) + c) mod 256) \<noteq> None)"
      by (rule probe_table[OF Cons.prems(1) few])
    have tk: "take (128 - cnt) (live (j # js)) = j # take (128 - Suc cnt) (live js)"
      using True by (simp add: take_Cons' Suc_diff_Suc)
    show ?thesis
    proof (cases "shape_of j \<in> stored shapes")
      case old: True
      have "stored shapes \<union> shape_of ` set (take (128 - cnt) (live (j # js))) =
          stored shapes \<union> shape_of ` set (take (128 - Suc cnt) (live js))" unfolding tk using old by auto
      with Cons.IH[OF Cons.prems(1-3), of "Suc cnt"] True slot old show ?thesis by simp
    next
      case new: False
      define shapes' where "shapes' = shapes[unat slot := Some (shape_of j)]"
      have free: "shapes ! unat slot = None" using slot(3) new by simp
      have ok: "table_ok hash shapes'"
        using slot(4) table_insert[OF Cons.prems(1) slot(2) free new] unfolding shapes'_def by blast
      have st: "stored shapes' = insert (shape_of j) (stored shapes)" "card (stored shapes') = Suc distnct"
        using stored_update[OF len slot(2) free] new fin Cons.prems(2) by (simp_all add: shapes'_def)
      have un: "stored shapes \<union> shape_of ` set (take (128 - cnt) (live (j # js))) =
          stored shapes' \<union> shape_of ` set (take (128 - Suc cnt) (live js))" unfolding tk st by auto
      show ?thesis
      proof (cases "Suc distnct > 112")
        case True
        have "card (stored shapes') \<le> card (stored shapes' \<union> shape_of ` set (take (128 - Suc cnt) (live js)))"
          using fin st(1) by (intro card_mono) auto
        with True slot new st(2) \<open>cnt < 128 \<and> \<not> removed j\<close> show ?thesis unfolding un by simp
      next
        case False
        with Cons.IH[OF ok st(2)[symmetric]] \<open>cnt < 128 \<and> \<not> removed j\<close> slot new show ?thesis unfolding un
          by (simp add: shapes'_def[symmetric])
      qed
    qed
  qed
qed simp

lemma table_empty: "table_ok hash (replicate 256 None)" "stored (replicate 256 None) = {}"
  by (auto simp: table_ok_def stored_def)

lemma prefix_reuses_correct:
  "prefix_reuses_interval_shapes hash s = Some (card (shape_of ` set (take 128 (waiting s))) \<le> 112)"
  using shapes_loop_correct[OF table_empty(1), of 0 0 hash] table_empty(2)
  by (simp add: prefix_reuses_interval_shapes_def waiting_def)

end
