(* ===== verification/Block_Queue.thy ===== *)
theory Block_Queue
  imports Prelude
begin

text \<open>
  \<^verbatim>\<open>BlockWaitQueue\<close> (\<^verbatim>\<open>src/src/sim/block_wait_queue.hpp\<close>): the wait queue in blocks of \<open>2 ^ shift\<close>
  consecutive job identifiers (the template parameter \<^verbatim>\<open>BlockSize\<close>).  A block is a
  \<^verbatim>\<open>boost::multi_index\<close> container; its sequenced index is the list of its entries, and the first
  elements of its two ordered indices, which are not code of the repository, are the parameter
  \<open>multi_index\<close>.  What the code relies on is \<open>index_ok\<close>: the first element of an ordered index of a
  non-empty container is one of its elements with the least key.

  The contract is a list: an insertion appends, a removal deletes, a lookup finds, and the candidate
  search returns the first entry that qualifies, although it rejects whole blocks by their minima.
\<close>

section \<open>State\<close>

record block_job =
  bj_job_id :: job_no
  bj_submit_time :: sim_time
  bj_run_time_estimate :: tdiff
  bj_nodes_requested :: num_nodes

record multi_index =
  first_by_run_time :: "block_job list \<Rightarrow> block_job"
  first_by_nodes :: "block_job list \<Rightarrow> block_job"

record block_info =
  bi_block :: "block_job list"
  bi_active_count :: nat

record block_stats =
  blocks_skipped_empty :: nat
  blocks_checked :: nat
  blocks_skipped_time :: nat
  blocks_skipped_resource :: nat
  jobs_scanned :: nat

record block_queue =
  m_blocks :: "block_info list"
  m_current_block_idx :: nat
  m_first_job_id :: job_no
  m_last_job_id :: job_no
  m_total_jobs :: nat
  m_active_count :: nat
  m_stats :: block_stats

definition no_stats :: block_stats where
  "no_stats = \<lparr>blocks_skipped_empty = 0, blocks_checked = 0, blocks_skipped_time = 0, blocks_skipped_resource = 0, jobs_scanned = 0\<rparr>"

definition empty_block :: block_info where
  "empty_block = \<lparr>bi_block = [], bi_active_count = 0\<rparr>"

definition new_block_queue :: block_queue where
  "new_block_queue = \<lparr>m_blocks = [], m_current_block_idx = 0, m_first_job_id = 0, m_last_job_id = 0,
     m_total_jobs = 0, m_active_count = 0, m_stats = no_stats\<rparr>"

section \<open>Operations\<close>

fun compute_log2 :: "nat \<Rightarrow> nat" where
  "compute_log2 value = (if value \<le> 1 then 0 else 1 + compute_log2 (value div 2))"

declare compute_log2.simps [simp del]

definition block_of :: "nat \<Rightarrow> block_queue \<Rightarrow> job_no \<Rightarrow> nat" where
  "block_of bsize q i = (i - m_first_job_id q) div 2 ^ compute_log2 bsize"

definition bq_insert :: "nat \<Rightarrow> block_queue \<Rightarrow> job_no \<Rightarrow> sim_time \<Rightarrow> tdiff \<Rightarrow> num_nodes \<Rightarrow> exn + block_queue" where
  "bq_insert bsize q i t r n =
     (if m_total_jobs q \<noteq> 0 \<and> i \<le> m_last_job_id q then Inl Invalid_Argument
      else let q = (if m_total_jobs q = 0 then q\<lparr>m_first_job_id := i\<rparr> else q);
               k = block_of bsize q i;
               bs = m_blocks q @ replicate (Suc k - length (m_blocks q)) empty_block;
               b = bs ! k
           in if length (bi_block b) \<ge> bsize then Inl Invalid_Argument
              else Inr (q\<lparr>m_blocks := bs[k := \<lparr>bi_block = bi_block b @ [\<lparr>bj_job_id = i, bj_submit_time = t,
                              bj_run_time_estimate = r, bj_nodes_requested = n\<rparr>], bi_active_count = bi_active_count b + 1\<rparr>],
                          m_current_block_idx := k, m_last_job_id := i, m_total_jobs := m_total_jobs q + 1,
                          m_active_count := m_active_count q + 1\<rparr>))"

fun erase_job :: "job_no \<Rightarrow> block_job list \<Rightarrow> block_job list option" where
  "erase_job i [] = None"
| "erase_job i (j # js) =
     (if bj_job_id j = i then Some js else (case erase_job i js of None \<Rightarrow> None | Some js' \<Rightarrow> Some (j # js')))"

definition bq_remove :: "nat \<Rightarrow> block_queue \<Rightarrow> job_no \<Rightarrow> block_queue" where
  "bq_remove bsize q i =
     (if i < m_first_job_id q then q
      else let k = block_of bsize q i in
        if k \<ge> length (m_blocks q) then q
        else let b = m_blocks q ! k in
          case erase_job i (bi_block b) of
            None \<Rightarrow> q
          | Some js \<Rightarrow> q\<lparr>m_blocks := (m_blocks q)[k := \<lparr>bi_block = js, bi_active_count = bi_active_count b - 1\<rparr>],
                         m_active_count := m_active_count q - 1\<rparr>)"

definition get_min_run_time :: "multi_index \<Rightarrow> block_info \<Rightarrow> tdiff" where
  "get_min_run_time mi b =
     (if bi_active_count b = 0 then dbl_max
      else if bi_block b = [] then dbl_max else bj_run_time_estimate (first_by_run_time mi (bi_block b)))"

definition get_min_nodes :: "multi_index \<Rightarrow> block_info \<Rightarrow> num_nodes" where
  "get_min_nodes mi b =
     (if bi_active_count b = 0 then - 1
      else if bi_block b = [] then - 1 else bj_nodes_requested (first_by_nodes mi (bi_block b)))"

text \<open>The scan of one block: the entry found with the entries left, and the number of jobs looked at.\<close>

fun scan_block :: "num_nodes \<Rightarrow> sim_time \<Rightarrow> sim_time \<Rightarrow> block_job list \<Rightarrow> (block_job \<times> block_job list) option \<times> nat" where
  "scan_block avail now res [] = (None, 0)"
| "scan_block avail now res (j # js) =
     (if \<not> bj_submit_time j > now \<and> \<not> bj_nodes_requested j > avail \<and> now + bj_run_time_estimate j < res
      then (Some (j, js), 1)
      else (case scan_block avail now res js of
              (None, c) \<Rightarrow> (None, Suc c)
            | (Some (f, rest), c) \<Rightarrow> (Some (f, j # rest), Suc c)))"

fun scan_blocks ::
  "multi_index \<Rightarrow> num_nodes \<Rightarrow> sim_time \<Rightarrow> sim_time \<Rightarrow> block_stats \<Rightarrow> block_info list \<Rightarrow>
   block_job option \<times> block_info list \<times> block_stats" where
  "scan_blocks mi avail now res st [] = (None, [], st)"
| "scan_blocks mi avail now res st (b # bs) =
     (if bi_active_count b = 0 then
        (let (f, bs', st') = scan_blocks mi avail now res (st\<lparr>blocks_skipped_empty := blocks_skipped_empty st + 1\<rparr>) bs in (f, b # bs', st'))
      else let st = st\<lparr>blocks_checked := blocks_checked st + 1\<rparr> in
        if now + get_min_run_time mi b \<ge> res then
          (let (f, bs', st') = scan_blocks mi avail now res (st\<lparr>blocks_skipped_time := blocks_skipped_time st + 1\<rparr>) bs in (f, b # bs', st'))
        else if get_min_nodes mi b > avail then
          (let (f, bs', st') = scan_blocks mi avail now res (st\<lparr>blocks_skipped_resource := blocks_skipped_resource st + 1\<rparr>) bs in (f, b # bs', st'))
        else (case scan_block avail now res (bi_block b) of
            (Some (f, rest), c) \<Rightarrow>
              (Some f, \<lparr>bi_block = rest, bi_active_count = bi_active_count b - 1\<rparr> # bs, st\<lparr>jobs_scanned := jobs_scanned st + c\<rparr>)
          | (None, c) \<Rightarrow>
              (let (f, bs', st') = scan_blocks mi avail now res (st\<lparr>jobs_scanned := jobs_scanned st + c\<rparr>) bs in (f, b # bs', st'))))"

definition find_and_remove_backfill_candidate ::
  "multi_index \<Rightarrow> block_queue \<Rightarrow> num_nodes \<Rightarrow> sim_time \<Rightarrow> sim_time \<Rightarrow> (job_no \<times> tdiff \<times> num_nodes) option \<times> block_queue" where
  "find_and_remove_backfill_candidate mi q avail now res =
     (case scan_blocks mi avail now res (m_stats q) (m_blocks q) of
        (None, bs, st) \<Rightarrow> (None, q\<lparr>m_stats := st\<rparr>)
      | (Some j, bs, st) \<Rightarrow> (Some (bj_job_id j, bj_run_time_estimate j, bj_nodes_requested j),
                           q\<lparr>m_blocks := bs, m_active_count := m_active_count q - 1, m_stats := st\<rparr>))"

fun find_job :: "job_no \<Rightarrow> block_job list \<Rightarrow> (tdiff \<times> num_nodes) option" where
  "find_job i [] = None"
| "find_job i (j # js) = (if bj_job_id j = i then Some (bj_run_time_estimate j, bj_nodes_requested j) else find_job i js)"

definition get_job_info :: "nat \<Rightarrow> block_queue \<Rightarrow> job_no \<Rightarrow> (tdiff \<times> num_nodes) option" where
  "get_job_info bsize q i =
     (if i < m_first_job_id q then None
      else let k = block_of bsize q i in
        if k \<ge> length (m_blocks q) then None else find_job i (bi_block (m_blocks q ! k)))"

definition bq_waiting_resource_area :: "block_queue \<Rightarrow> sim_time \<Rightarrow> tdiff" where
  "bq_waiting_resource_area q now =
     foldl (\<lambda>area b. if bi_active_count b = 0 then area
        else foldl (\<lambda>area j. if bj_submit_time j \<le> now
               then area + dbl (uint (bj_nodes_requested j)) * bj_run_time_estimate j else area) area (bi_block b)) 0 (m_blocks q)"

definition for_each_active :: "block_queue \<Rightarrow> job_no list" where
  "for_each_active q = concat (map (\<lambda>b. if bi_active_count b = 0 then [] else map bj_job_id (bi_block b)) (m_blocks q))"

definition bq_active_count :: "block_queue \<Rightarrow> nat" where
  "bq_active_count q = m_active_count q"

definition bq_size :: "block_queue \<Rightarrow> nat" where
  "bq_size q = m_total_jobs q"

definition bq_empty :: "block_queue \<Rightarrow> bool" where
  "bq_empty q \<longleftrightarrow> m_active_count q = 0"

definition reset_stats :: "block_queue \<Rightarrow> block_queue" where
  "reset_stats q = q\<lparr>m_stats := no_stats\<rparr>"

section \<open>The list it stands for\<close>

definition bq_jobs :: "block_queue \<Rightarrow> block_job list" where
  "bq_jobs q = concat (map bi_block (m_blocks q))"

definition index_ok :: "multi_index \<Rightarrow> bool" where
  "index_ok mi \<longleftrightarrow>
     (\<forall>js. js \<noteq> [] \<longrightarrow> first_by_run_time mi js \<in> set js \<and> first_by_nodes mi js \<in> set js \<and>
        (\<forall>j\<in>set js. bj_run_time_estimate (first_by_run_time mi js) \<le> bj_run_time_estimate j \<and>
           bj_nodes_requested (first_by_nodes mi js) \<le> bj_nodes_requested j))"

definition block_ok :: "nat \<Rightarrow> block_queue \<Rightarrow> nat \<Rightarrow> bool" where
  "block_ok bsize q k \<longleftrightarrow>
     bi_active_count (m_blocks q ! k) = length (bi_block (m_blocks q ! k)) \<and>
     (\<forall>j\<in>set (bi_block (m_blocks q ! k)). m_first_job_id q \<le> bj_job_id j \<and> block_of bsize q (bj_job_id j) = k)"

definition bq_shape :: "nat \<Rightarrow> block_queue \<Rightarrow> bool" where
  "bq_shape bsize q \<longleftrightarrow> bsize = 2 ^ compute_log2 bsize \<and>
     (\<forall>k < length (m_blocks q). block_ok bsize q k) \<and>
     sorted_wrt (<) (map bj_job_id (bq_jobs q)) \<and>
     m_active_count q = length (bq_jobs q) \<and>
     (\<forall>j\<in>set (bq_jobs q). bj_job_id j \<le> m_last_job_id q)"

definition bq_ok :: "nat \<Rightarrow> block_queue \<Rightarrow> bool" where
  "bq_ok bsize q \<longleftrightarrow> bq_shape bsize q \<and>
     (if m_total_jobs q = 0 then m_blocks q = []
      else m_first_job_id q \<le> m_last_job_id q \<and> length (m_blocks q) = Suc (block_of bsize q (m_last_job_id q)))"

text \<open>The specification of an insertion: only an identifier that is not larger than the last one is
  refused.\<close>

definition bq_accepts :: "block_queue \<Rightarrow> job_no \<Rightarrow> bool" where
  "bq_accepts q i \<longleftrightarrow> m_total_jobs q = 0 \<or> m_last_job_id q < i"

lemma block_ids_sorted:
  assumes "bq_shape bsize q" "k < length (m_blocks q)"
  shows "sorted_wrt (<) (map bj_job_id (bi_block (m_blocks q ! k)))"
proof -
  have "m_blocks q = take k (m_blocks q) @ m_blocks q ! k # drop (Suc k) (m_blocks q)"
    using assms(2) by (simp add: id_take_nth_drop)
  then have "bq_jobs q = concat (map bi_block (take k (m_blocks q))) @ bi_block (m_blocks q ! k) @
      concat (map bi_block (drop (Suc k) (m_blocks q)))"
    unfolding bq_jobs_def by (metis concat.simps(2) concat_append list.simps(9) map_append)
  then show ?thesis using assms(1) by (simp add: bq_shape_def sorted_wrt_append)
qed

text \<open>A block of a larger identifier is not full: its identifiers are distinct and lie in its range,
  below the new one.\<close>

lemma block_not_full:
  assumes ok: "bq_shape bsize q" and k: "k < length (m_blocks q)" and kb: "block_of bsize q i = k"
    and above: "\<forall>j\<in>set (bi_block (m_blocks q ! k)). bj_job_id j < i" and fi: "m_first_job_id q \<le> i"
  shows "length (bi_block (m_blocks q ! k)) < bsize"
proof -
  let ?js = "bi_block (m_blocks q ! k)" let ?f = "m_first_job_id q"
  define w where "w = (2::nat) ^ compute_log2 bsize"
  have w0: "w > 0" by (simp add: w_def)
  have wb: "bsize = w" using ok unfolding w_def bq_shape_def by blast
  have sub: "set (map bj_job_id ?js) \<subseteq> {?f + k * w..<i}"
  proof
    fix x assume "x \<in> set (map bj_job_id ?js)"
    then obtain j where j: "j \<in> set ?js" "x = bj_job_id j" by auto
    then have "?f \<le> x" "(x - ?f) div w = k"
      using ok k by (auto simp: bq_shape_def block_ok_def block_of_def w_def)
    then have "k * w \<le> x - ?f" by (metis div_times_less_eq_dividend)
    then show "x \<in> {?f + k * w..<i}" using above j \<open>?f \<le> x\<close> by auto
  qed
  have "distinct (map bj_job_id ?js)"
    using block_ids_sorted[OF ok k] by (simp add: strict_sorted_iff)
  then have "length ?js = card (set (map bj_job_id ?js))" by (metis distinct_card length_map)
  also have "\<dots> \<le> i - (?f + k * w)" using card_mono[OF _ sub] by simp
  also have "\<dots> < w"
  proof -
    have "(i - ?f) div w = k" using kb by (simp add: block_of_def w_def)
    then have "i - ?f < k * w + w"
      using dividend_less_times_div[OF w0, of "i - ?f"] by (simp add: mult.commute)
    then show ?thesis using w0 by linarith
  qed
  finally show ?thesis using wb by simp
qed

text \<open>Opening the block of a new identifier: the blocks end with it, and the jobs are the same.\<close>

definition open_block :: "nat \<Rightarrow> block_queue \<Rightarrow> job_no \<Rightarrow> block_queue" where
  "open_block bsize q i =
     (let q = (if m_total_jobs q = 0 then q\<lparr>m_first_job_id := i\<rparr> else q)
      in q\<lparr>m_blocks := m_blocks q @ replicate (Suc (block_of bsize q i) - length (m_blocks q)) empty_block\<rparr>)"

lemma open_block_law:
  assumes ok: "bq_ok bsize q" and acc: "bq_accepts q i"
  defines "q1 \<equiv> open_block bsize q i"
  shows "bq_shape bsize q1" "bq_jobs q1 = bq_jobs q" "length (m_blocks q1) = Suc (block_of bsize q1 i)"
    "m_first_job_id q1 \<le> i" "\<forall>j\<in>set (bq_jobs q1). bj_job_id j < i"
    "m_total_jobs q1 = m_total_jobs q" "m_active_count q1 = m_active_count q"
proof -
  have len: "length (m_blocks q) \<le> Suc (block_of bsize (if m_total_jobs q = 0 then q\<lparr>m_first_job_id := i\<rparr> else q) i)"
    using ok acc by (auto simp: bq_ok_def bq_accepts_def block_of_def intro!: div_le_mono diff_le_mono)
  show jobs: "bq_jobs q1 = bq_jobs q"
    by (simp add: q1_def open_block_def bq_jobs_def Let_def empty_block_def map_replicate_const)
  show "length (m_blocks q1) = Suc (block_of bsize q1 i)"
    using len by (auto simp: q1_def open_block_def Let_def block_of_def)
  show "m_first_job_id q1 \<le> i" using ok acc by (auto simp: q1_def open_block_def Let_def bq_ok_def bq_accepts_def)
  show "\<forall>j\<in>set (bq_jobs q1). bj_job_id j < i"
    unfolding jobs using ok acc by (fastforce simp: bq_ok_def bq_shape_def bq_accepts_def bq_jobs_def)
  show "m_total_jobs q1 = m_total_jobs q" "m_active_count q1 = m_active_count q"
    by (simp_all add: q1_def open_block_def Let_def)
  have blocks: "block_ok bsize q1 k" if "k < length (m_blocks q1)" for k
  proof (cases "k < length (m_blocks q)")
    case True
    then have "block_ok bsize q k" using ok by (simp add: bq_ok_def bq_shape_def)
    moreover have "m_total_jobs q \<noteq> 0" using True ok by (auto simp: bq_ok_def split: if_splits)
    ultimately show ?thesis using True
      by (simp add: q1_def open_block_def Let_def block_ok_def block_of_def nth_append)
  next
    case False
    then have "m_blocks q1 ! k = empty_block"
      using that by (auto simp: q1_def open_block_def Let_def nth_append block_of_def)
    then show ?thesis by (simp add: block_ok_def empty_block_def)
  qed
  have same: "m_last_job_id q1 = m_last_job_id q" "m_active_count q1 = m_active_count q"
    by (simp_all add: q1_def open_block_def Let_def)
  show "bq_shape bsize q1"
    using ok blocks unfolding bq_shape_def jobs same bq_ok_def by blast
qed

definition block_job_of :: "job_no \<Rightarrow> sim_time \<Rightarrow> tdiff \<Rightarrow> num_nodes \<Rightarrow> block_job" where
  "block_job_of i t r n = \<lparr>bj_job_id = i, bj_submit_time = t, bj_run_time_estimate = r, bj_nodes_requested = n\<rparr>"

lemma bq_insert_law:
  assumes ok: "bq_ok bsize q"
  shows "if bq_accepts q i
    then \<exists>q'. bq_insert bsize q i t r n = Inr q' \<and> bq_ok bsize q' \<and> bq_jobs q' = bq_jobs q @ [block_job_of i t r n] \<and>
           m_last_job_id q' = i \<and> m_total_jobs q' = Suc (m_total_jobs q)
    else bq_insert bsize q i t r n = Inl Invalid_Argument"
proof (cases "bq_accepts q i")
  case False
  then show ?thesis by (auto simp: bq_accepts_def bq_insert_def)
next
  case True
  define q1 where "q1 = open_block bsize q i"
  note law = open_block_law[OF ok True, folded q1_def]
  define k where "k = block_of bsize q1 i"
  define b where "b = m_blocks q1 ! k"
  define q' where "q' = q1\<lparr>m_blocks := (m_blocks q1)[k := \<lparr>bi_block = bi_block b @ [block_job_of i t r n],
      bi_active_count = bi_active_count b + 1\<rparr>], m_current_block_idx := k, m_last_job_id := i,
      m_total_jobs := m_total_jobs q1 + 1, m_active_count := m_active_count q1 + 1\<rparr>"
  have k: "k < length (m_blocks q1)" "length (m_blocks q1) = Suc k" using law(3) by (simp_all add: k_def)
  have in_jobs: "set (bi_block b) \<subseteq> set (bq_jobs q1)" using nth_mem[OF k(1)] by (auto simp: b_def bq_jobs_def)
  have room: "length (bi_block b) < bsize"
    using block_not_full[OF law(1) k(1) k_def[symmetric] _ law(4)] law(5) in_jobs unfolding b_def by blast
  have ins: "bq_insert bsize q i t r n = Inr q'"
    using True room unfolding bq_insert_def q'_def b_def k_def q1_def open_block_def bq_accepts_def block_job_of_def
    by (auto simp: Let_def block_of_def)
  have split: "m_blocks q1 = butlast (m_blocks q1) @ [b]"
    using k by (metis append_butlast_last_id b_def diff_Suc_1 last_conv_nth length_0_conv nat.distinct(1))
  have blocks': "m_blocks q' = butlast (m_blocks q1) @ [\<lparr>bi_block = bi_block b @ [block_job_of i t r n],
      bi_active_count = bi_active_count b + 1\<rparr>]"
    using k by (simp add: q'_def) (metis butlast_list_update length_list_update list_update_length split append_butlast_last_id length_butlast diff_Suc_1)
  have jobs: "bq_jobs q' = bq_jobs q1 @ [block_job_of i t r n]"
    unfolding bq_jobs_def blocks' by (subst (2) split) simp
  have "block_ok bsize q' m" if "m < length (m_blocks q')" for m
  proof -
    have "block_ok bsize q1 m" using law(1) that by (simp add: bq_shape_def q'_def)
    then show ?thesis using law(4) k(1)
      by (cases "m = k") (auto simp: block_ok_def q'_def block_of_def b_def block_job_of_def k_def)
  qed
  then have shape: "bq_shape bsize q'"
    using law(1,2,5,7) ok unfolding bq_shape_def jobs
    by (auto simp: q'_def sorted_wrt_append block_job_of_def bq_ok_def bq_shape_def less_imp_le)
  have "bq_ok bsize q'" using shape law(3,4) k by (simp add: bq_ok_def q'_def block_of_def k_def)
  then show ?thesis using True ins jobs law(2,6) by (auto simp: q'_def)
qed

lemma filter_neq_id: "a \<notin> f ` set xs \<Longrightarrow> filter (\<lambda>y. f y \<noteq> a) xs = xs"
  by (induction xs) auto

lemma length_filter_neq:
  "distinct (map f xs) \<Longrightarrow> x \<in> set xs \<Longrightarrow> length (filter (\<lambda>y. f y \<noteq> f x) xs) = length xs - 1"
proof (induction xs)
  case (Cons y ys)
  show ?case
  proof (cases "f y = f x")
    case True
    then have "filter (\<lambda>z. f z \<noteq> f x) ys = ys" using Cons.prems(1) by (intro filter_neq_id) simp
    then show ?thesis using True by simp
  next
    case False
    then have "x \<in> set ys" using Cons.prems(2) by auto
    then show ?thesis using False Cons by (cases ys) auto
  qed
qed simp

lemma block_ids_distinct:
  "bq_ok bsize q \<Longrightarrow> k < length (m_blocks q) \<Longrightarrow> distinct (map bj_job_id (bi_block (m_blocks q ! k)))"
  using block_ids_sorted[of bsize q k] by (simp add: bq_ok_def strict_sorted_iff)

lemma bq_ok_stats [simp]: "bq_ok bsize (q\<lparr>m_stats := st\<rparr>) = bq_ok bsize q" "bq_jobs (q\<lparr>m_stats := st\<rparr>) = bq_jobs q"
  by (simp_all add: bq_ok_def bq_shape_def bq_jobs_def block_ok_def block_of_def)

text \<open>Taking one entry out of its block.\<close>

definition drop_entry :: "job_no \<Rightarrow> block_info \<Rightarrow> block_info" where
  "drop_entry i b = \<lparr>bi_block = filter (\<lambda>j. bj_job_id j \<noteq> i) (bi_block b), bi_active_count = bi_active_count b - 1\<rparr>"

definition without :: "block_queue \<Rightarrow> nat \<Rightarrow> job_no \<Rightarrow> block_queue" where
  "without q k i = q\<lparr>m_blocks := (m_blocks q)[k := drop_entry i (m_blocks q ! k)],
     m_active_count := m_active_count q - 1\<rparr>"

lemma without_law:
  assumes ok: "bq_ok bsize q" and k: "k < length (m_blocks q)" and j: "j \<in> set (bi_block (m_blocks q ! k))"
  defines "q' \<equiv> without q k (bj_job_id j)"
  shows "bq_ok bsize q'" "bq_jobs q' = filter (\<lambda>x. bj_job_id x \<noteq> bj_job_id j) (bq_jobs q)"
proof -
  let ?P = "\<lambda>x. bj_job_id x \<noteq> bj_job_id j"
  have shape: "bq_shape bsize q" using ok by (simp add: bq_ok_def)
  have kj: "block_of bsize q (bj_job_id j) = k" using shape k j by (simp add: bq_shape_def block_ok_def)
  have "map bi_block (m_blocks q') = map (filter ?P \<circ> bi_block) (m_blocks q)"
  proof (rule nth_equalityI)
    fix m assume "m < length (map bi_block (m_blocks q'))"
    then have m: "m < length (m_blocks q)" by (simp add: q'_def without_def drop_entry_def)
    then have "block_ok bsize q m" using shape by (simp add: bq_shape_def)
    then have "m \<noteq> k \<Longrightarrow> filter ?P (bi_block (m_blocks q ! m)) = bi_block (m_blocks q ! m)"
      using kj by (intro filter_neq_id) (auto simp: block_ok_def)
    then show "map bi_block (m_blocks q') ! m = map (filter ?P \<circ> bi_block) (m_blocks q) ! m"
      using m k by (cases "m = k") (simp_all add: q'_def without_def drop_entry_def)
  qed (simp add: q'_def without_def drop_entry_def)
  then show jobs: "bq_jobs q' = filter ?P (bq_jobs q)"
    by (simp add: bq_jobs_def filter_concat)
  have dist: "distinct (map bj_job_id (bq_jobs q))" using shape by (simp add: bq_shape_def strict_sorted_iff)
  have dk: "distinct (map bj_job_id (bi_block (m_blocks q ! k)))"
    using ok k by (rule block_ids_distinct)
  have "j \<in> set (bq_jobs q)" using nth_mem[OF k] j by (auto simp: bq_jobs_def)
  then have len: "length (bq_jobs q') = length (bq_jobs q) - 1"
    unfolding jobs using length_filter_neq[OF dist] by simp
  have "block_ok bsize q' m" if "m < length (m_blocks q')" for m
    using shape that k length_filter_neq[OF dk j]
    by (cases "m = k") (auto simp: bq_shape_def block_ok_def q'_def without_def drop_entry_def block_of_def)
  then have "bq_shape bsize q'"
    using shape len unfolding bq_shape_def jobs
    by (auto simp: q'_def without_def drop_entry_def sorted_wrt_map sorted_wrt_filter)
  then show "bq_ok bsize q'" using ok by (auto simp: bq_ok_def q'_def without_def drop_entry_def block_of_def)
qed

lemma erase_job_eq:
  "distinct (map bj_job_id js) \<Longrightarrow>
   erase_job i js = (if i \<in> bj_job_id ` set js then Some (filter (\<lambda>j. bj_job_id j \<noteq> i) js) else None)"
  by (induction js) (auto simp: filter_neq_id)

text \<open>An entry can only be in the block its identifier names.\<close>

lemma bq_jobs_block:
  assumes "bq_ok bsize q"
  shows "j \<in> set (bq_jobs q) \<longleftrightarrow>
    m_first_job_id q \<le> bj_job_id j \<and> block_of bsize q (bj_job_id j) < length (m_blocks q) \<and>
    j \<in> set (bi_block (m_blocks q ! block_of bsize q (bj_job_id j)))"
proof -
  have "j \<in> set (bq_jobs q) \<longleftrightarrow> (\<exists>k < length (m_blocks q). j \<in> set (bi_block (m_blocks q ! k)))"
    by (simp add: bq_jobs_def) (metis in_set_conv_nth)
  moreover have "block_of bsize q (bj_job_id j) = k \<and> m_first_job_id q \<le> bj_job_id j"
    if "k < length (m_blocks q)" "j \<in> set (bi_block (m_blocks q ! k))" for k
    using assms that by (simp add: bq_ok_def bq_shape_def block_ok_def)
  ultimately show ?thesis by blast
qed

lemma bq_remove_law:
  assumes ok: "bq_ok bsize q"
  shows "bq_ok bsize (bq_remove bsize q i) \<and> bq_jobs (bq_remove bsize q i) = filter (\<lambda>j. bj_job_id j \<noteq> i) (bq_jobs q)"
proof (cases "i \<in> bj_job_id ` set (bq_jobs q)")
  case True
  then obtain j where j: "j \<in> set (bq_jobs q)" "bj_job_id j = i" by auto
  define k where "k = block_of bsize q i"
  have k: "m_first_job_id q \<le> i" "k < length (m_blocks q)" "j \<in> set (bi_block (m_blocks q ! k))"
    using j bq_jobs_block[OF ok] unfolding k_def by blast+
  have "distinct (map bj_job_id (bi_block (m_blocks q ! k)))"
    using ok k(2) by (rule block_ids_distinct)
  then have "bq_remove bsize q i = without q k i"
    using k j(2) by (auto simp: bq_remove_def without_def drop_entry_def Let_def erase_job_eq k_def[symmetric])
  then show ?thesis using without_law[OF ok k(2,3)] j(2) by simp
next
  case False
  have "bq_remove bsize q i = q"
  proof (cases "m_first_job_id q \<le> i \<and> block_of bsize q i < length (m_blocks q)")
    case True
    then have "distinct (map bj_job_id (bi_block (m_blocks q ! block_of bsize q i)))"
      using ok by (intro block_ids_distinct) simp_all
    moreover have "i \<notin> bj_job_id ` set (bi_block (m_blocks q ! block_of bsize q i))"
      using False True bq_jobs_block[OF ok] by auto
    ultimately show ?thesis by (simp add: bq_remove_def Let_def erase_job_eq)
  qed (auto simp: bq_remove_def Let_def)
  then show ?thesis using ok False by (simp add: filter_neq_id)
qed

lemma find_job_find: "find_job i js = map_option (\<lambda>j. (bj_run_time_estimate j, bj_nodes_requested j)) (find (\<lambda>j. bj_job_id j = i) js)"
  by (induction js) auto

lemma find_unique: "distinct (map f js) \<Longrightarrow> j \<in> set js \<Longrightarrow> find (\<lambda>x. f x = f j) js = Some j"
  by (induction js) (auto simp: rev_image_eqI)

lemma get_job_info_law:
  assumes ok: "bq_ok bsize q" and j: "j \<in> set (bq_jobs q)"
  shows "get_job_info bsize q (bj_job_id j) = Some (bj_run_time_estimate j, bj_nodes_requested j)"
proof -
  define k where "k = block_of bsize q (bj_job_id j)"
  have k: "m_first_job_id q \<le> bj_job_id j" "k < length (m_blocks q)" "j \<in> set (bi_block (m_blocks q ! k))"
    using j bq_jobs_block[OF ok] unfolding k_def by blast+
  have "distinct (map bj_job_id (bi_block (m_blocks q ! k)))"
    using ok k(2) by (rule block_ids_distinct)
  then have "find (\<lambda>x. bj_job_id x = bj_job_id j) (bi_block (m_blocks q ! k)) = Some j" using k(3) by (rule find_unique)
  then show ?thesis using k by (simp add: get_job_info_def find_job_find k_def)
qed

lemma get_job_info_absent:
  assumes ok: "bq_ok bsize q" and i: "i \<notin> bj_job_id ` set (bq_jobs q)"
  shows "get_job_info bsize q i = None"
proof (cases "m_first_job_id q \<le> i \<and> block_of bsize q i < length (m_blocks q)")
  case True
  have "i \<notin> bj_job_id ` set (bi_block (m_blocks q ! block_of bsize q i))"
    using i True bq_jobs_block[OF ok] by auto
  then show ?thesis using True by (auto simp: get_job_info_def find_job_find find_None_iff image_iff)
qed (auto simp: get_job_info_def Let_def)

section \<open>The candidate search\<close>

definition qualifies :: "num_nodes \<Rightarrow> sim_time \<Rightarrow> sim_time \<Rightarrow> block_job \<Rightarrow> bool" where
  "qualifies avail now res j \<longleftrightarrow>
     bj_submit_time j \<le> now \<and> bj_nodes_requested j \<le> avail \<and> now + bj_run_time_estimate j < res"

lemma find_append: "find P (xs @ ys) = (case find P xs of None \<Rightarrow> find P ys | Some x \<Rightarrow> Some x)"
  by (induction xs) auto

lemma scan_block_find:
  "distinct (map bj_job_id js) \<Longrightarrow>
   fst (scan_block avail now res js) =
     map_option (\<lambda>j. (j, filter (\<lambda>x. bj_job_id x \<noteq> bj_job_id j) js)) (find (qualifies avail now res) js)"
proof (induction js)
  case (Cons a js)
  have "bj_job_id j \<noteq> bj_job_id a" if "find (qualifies avail now res) js = Some j" for j
    using that Cons.prems by (metis distinct.simps(2) find_Some_iff image_eqI list.simps(9) list.set_map nth_mem)
  moreover have "scan_block avail now res (a # js) = (if qualifies avail now res a then (Some (a, js), 1)
      else case scan_block avail now res js of (None, c) \<Rightarrow> (None, Suc c) | (Some (f, rest), c) \<Rightarrow> (Some (f, a # rest), Suc c))"
    by (simp add: qualifies_def not_less)
  ultimately show ?case using Cons by (auto simp: filter_neq_id simp del: scan_block.simps split: prod.splits option.splits)
qed simp

text \<open>A block rejected by one of its minima holds no entry that qualifies.\<close>

lemma block_rejected:
  assumes "index_ok mi" "bi_active_count b = length (bi_block b)"
    "res \<le> now + get_min_run_time mi b \<or> avail < get_min_nodes mi b \<or> bi_active_count b = 0"
  shows "find (qualifies avail now res) (bi_block b) = None"
proof -
  have "\<not> qualifies avail now res j" if j: "j \<in> set (bi_block b)" for j
  proof -
    have ne: "bi_block b \<noteq> []" using j by auto
    then have a: "get_min_run_time mi b \<le> bj_run_time_estimate j" "get_min_nodes mi b \<le> bj_nodes_requested j"
      using assms(1,2) j by (auto simp: index_ok_def get_min_run_time_def get_min_nodes_def)
    then have "now + get_min_run_time mi b \<le> now + bj_run_time_estimate j" by (intro dbl_add_right_mono)
    then show ?thesis using assms(2,3) a(2) ne by (auto simp: qualifies_def)
  qed
  then show ?thesis by (auto simp: find_None_iff)
qed

lemma scan_blocks_find:
  assumes "index_ok mi" "\<forall>b\<in>set bs. bi_active_count b = length (bi_block b) \<and> distinct (map bj_job_id (bi_block b))"
    "scan_blocks mi avail now res st bs = (f, bs', st')"
  shows "f = find (qualifies avail now res) (concat (map bi_block bs))"
    "f = None \<Longrightarrow> bs' = bs"
    "f = Some j \<Longrightarrow> \<exists>k < length bs. j \<in> set (bi_block (bs ! k)) \<and>
       bs' = bs[k := drop_entry (bj_job_id j) (bs ! k)]"
proof -
  have "f = find (qualifies avail now res) (concat (map bi_block bs)) \<and>
    (case f of None \<Rightarrow> bs' = bs | Some j \<Rightarrow> \<exists>k < length bs. j \<in> set (bi_block (bs ! k)) \<and>
       bs' = bs[k := drop_entry (bj_job_id j) (bs ! k)])"
    using assms(2,3)
  proof (induction bs arbitrary: st bs' st')
    case (Cons b bs)
    let ?P = "qualifies avail now res"
    have b: "bi_active_count b = length (bi_block b)" "distinct (map bj_job_id (bi_block b))" using Cons.prems(1) by auto
    obtain sb where sb: "scan_block avail now res (bi_block b) = sb" "fst sb = map_option (\<lambda>j. (j, filter (\<lambda>x. bj_job_id x \<noteq> bj_job_id j) (bi_block b))) (find ?P (bi_block b))"
      using scan_block_find[OF b(2)] by blast
    show ?case
    proof (cases "find ?P (bi_block b)")
      case None
      then obtain st1 bs1 where r: "scan_blocks mi avail now res st1 bs = (f, bs1, st')" "bs' = b # bs1"
        using Cons.prems(2) sb by (auto simp: Let_def split: if_splits prod.splits option.splits)
      then have ih: "f = find ?P (concat (map bi_block bs))" "case f of None \<Rightarrow> bs1 = bs | Some j \<Rightarrow> \<exists>k < length bs. j \<in> set (bi_block (bs ! k)) \<and>
         bs1 = bs[k := drop_entry (bj_job_id j) (bs ! k)]"
        using Cons.IH[OF _ r(1)] Cons.prems(1) by auto
      show ?thesis
      proof (cases f)
        case None then show ?thesis using ih r \<open>find ?P (bi_block b) = None\<close> by (simp add: find_append)
      next
        case (Some j)
        then obtain k where "k < length bs" "j \<in> set (bi_block (bs ! k))"
          "bs1 = bs[k := drop_entry (bj_job_id j) (bs ! k)]" using ih(2) by auto
        then have "Suc k < length (b # bs) \<and> j \<in> set (bi_block ((b # bs) ! Suc k)) \<and>
            b # bs1 = (b # bs)[Suc k := drop_entry (bj_job_id j) ((b # bs) ! Suc k)]" by simp
        moreover have "find ?P (concat (map bi_block (b # bs))) = Some j"
          using ih(1) Some None by (simp add: find_append)
        ultimately show ?thesis unfolding Some r(2) by auto
      qed
    next
      case (Some j)
      then have "\<not> (res \<le> now + get_min_run_time mi b \<or> avail < get_min_nodes mi b \<or> bi_active_count b = 0)"
        using block_rejected[OF assms(1) b(1)] by (metis option.distinct(1))
      then have "f = Some j" "bs' = drop_entry (bj_job_id j) b # bs"
        using Cons.prems(2) sb Some by (auto simp: Let_def drop_entry_def split: if_splits prod.splits option.splits)
      moreover have "j \<in> set (bi_block b)" using Some by (auto simp: find_Some_iff)
      ultimately show ?thesis using Some by (auto simp: find_append intro!: exI[of _ 0])
    qed
  qed simp
  then show "f = find (qualifies avail now res) (concat (map bi_block bs))" "f = None \<Longrightarrow> bs' = bs"
    "f = Some j \<Longrightarrow> \<exists>k < length bs. j \<in> set (bi_block (bs ! k)) \<and>
       bs' = bs[k := drop_entry (bj_job_id j) (bs ! k)]" by auto
qed

lemma find_and_remove_law:
  assumes ok: "bq_ok bsize q" and mi: "index_ok mi"
    and call: "find_and_remove_backfill_candidate mi q avail now res = (found, q')"
  shows "bq_ok bsize q' \<and>
    (case find (qualifies avail now res) (bq_jobs q) of
       None \<Rightarrow> found = None \<and> bq_jobs q' = bq_jobs q
     | Some j \<Rightarrow> found = Some (bj_job_id j, bj_run_time_estimate j, bj_nodes_requested j) \<and>
         bq_jobs q' = filter (\<lambda>x. bj_job_id x \<noteq> bj_job_id j) (bq_jobs q))"
proof -
  obtain f bs st where sc: "scan_blocks mi avail now res (m_stats q) (m_blocks q) = (f, bs, st)" by (metis prod_cases3)
  have all: "\<forall>b\<in>set (m_blocks q). bi_active_count b = length (bi_block b) \<and> distinct (map bj_job_id (bi_block b))"
    using ok block_ids_distinct[OF ok] by (auto simp: in_set_conv_nth bq_ok_def bq_shape_def block_ok_def)
  note s = scan_blocks_find[OF mi all sc]
  show ?thesis
  proof (cases f)
    case None
    then show ?thesis using s(1) call sc ok by (simp add: find_and_remove_backfill_candidate_def bq_jobs_def[symmetric]) auto
  next
    case (Some j)
    then obtain k where k: "k < length (m_blocks q)" "j \<in> set (bi_block (m_blocks q ! k))"
      "bs = (m_blocks q)[k := drop_entry (bj_job_id j) (m_blocks q ! k)]" using s(3) by blast
    have "q' = (without q k (bj_job_id j))\<lparr>m_stats := st\<rparr>"
      "found = Some (bj_job_id j, bj_run_time_estimate j, bj_nodes_requested j)"
      using call sc Some k(3) by (auto simp: find_and_remove_backfill_candidate_def without_def drop_entry_def)
    moreover have "find (qualifies avail now res) (bq_jobs q) = Some j" using s(1) Some by (simp add: bq_jobs_def)
    ultimately show ?thesis using without_law[OF ok k(1,2)] by simp
  qed
qed

section \<open>Whole-queue queries\<close>

lemma new_block_queue_ok: "bsize = 2 ^ compute_log2 bsize \<Longrightarrow> bq_ok bsize new_block_queue"
  by (simp add: bq_ok_def bq_shape_def new_block_queue_def bq_jobs_def)

lemma for_each_active_law: "bq_ok bsize q \<Longrightarrow> for_each_active q = map bj_job_id (bq_jobs q)"
proof -
  assume ok: "bq_ok bsize q"
  have "map (\<lambda>b. if bi_active_count b = 0 then [] else map bj_job_id (bi_block b)) (m_blocks q) =
      map (map bj_job_id \<circ> bi_block) (m_blocks q)"
    using ok by (auto simp: bq_ok_def bq_shape_def block_ok_def in_set_conv_nth)
  then show ?thesis unfolding for_each_active_def bq_jobs_def map_concat by (simp only: map_map)
qed

lemma bq_empty_law: "bq_ok bsize q \<Longrightarrow> bq_empty q \<longleftrightarrow> bq_jobs q = []"
  by (simp add: bq_empty_def bq_ok_def bq_shape_def)

lemmas block_queue_eval [eval_simps] = new_block_queue_def no_stats_def empty_block_def block_of_def bq_insert_def bq_remove_def
  get_min_run_time_def get_min_nodes_def find_and_remove_backfill_candidate_def get_job_info_def compute_log2.simps

end
