(* ===== verification/Easy_Block.thy ===== *)
theory Easy_Block
  imports Block_Queue Easy_Refine
begin

text \<open>
  \<^verbatim>\<open>FCFSEasyBlockScheduler\<close> (\<^verbatim>\<open>src/src/sim/scheduler_fcfs_easy_block.hpp\<close>, \<^verbatim>\<open>.cpp\<close> and
  \<^verbatim>\<open>scheduler_fcfs_easy_block_depth.cpp\<close>), in the default build.  The arrivals and the block queue are
  two structures over the same jobs; the pass throws when an arrival is missing from the block queue,
  which the invariant rules out.  The template parameter \<^verbatim>\<open>BlockSize\<close> is the argument \<open>bsize\<close>.

  The pass refines \<open>block_pass\<close>, the EASY pass of \<^verbatim>\<open>Easy_Spec\<close> with two differences the code has: a
  started head is projected with its raw run time, and a candidate must fit the profile also when the
  head is not planned.
\<close>

section \<open>State\<close>

record job_arrival =
  ja_job_id :: job_no
  ja_submit_time :: sim_time
  ja_removed :: bool

record block_scheduler = scheduler_base +
  bs_wait_queue :: block_queue
  bs_job_order :: "job_arrival list"
  bs_eligible_end_idx :: nat
  bs_current_tracked_time :: sim_time
  bs_removed_count :: nat
  bs_backfill_queue_depth :: nat

definition new_arrival :: "job_no \<Rightarrow> sim_time \<Rightarrow> job_arrival" where
  "new_arrival i t = \<lparr>ja_job_id = i, ja_submit_time = t, ja_removed = False\<rparr>"

definition new_block_scheduler :: "num_nodes \<Rightarrow> backfill_policy \<Rightarrow> nat \<Rightarrow> block_scheduler" where
  "new_block_scheduler total_nodes bf depth = scheduler_base.extend (new_base total_nodes bf)
     \<lparr>bs_wait_queue = new_block_queue, bs_job_order = [], bs_eligible_end_idx = 0, bs_current_tracked_time = 0,
      bs_removed_count = 0, bs_backfill_queue_depth = depth\<rparr>"

section \<open>Queue operations\<close>

definition block_insert_job ::
  "nat \<Rightarrow> block_scheduler \<Rightarrow> job_no \<Rightarrow> sim_time \<Rightarrow> tdiff \<Rightarrow> num_nodes \<Rightarrow> exn + block_scheduler" where
  "block_insert_job bsize s i t r n =
     (case bq_insert bsize (bs_wait_queue s) i t r n of
        Inl e \<Rightarrow> Inl e
      | Inr q \<Rightarrow> let s = s\<lparr>bs_wait_queue := q, bs_job_order := bs_job_order s @ [new_arrival i t]\<rparr> in
          Inr (if t \<le> bs_current_tracked_time s then s\<lparr>bs_eligible_end_idx := length (bs_job_order s)\<rparr> else s))"

definition block_sync_to :: "block_scheduler \<Rightarrow> sim_time \<Rightarrow> block_scheduler" where
  "block_sync_to s now =
     (if now \<le> bs_current_tracked_time s then s
      else s\<lparr>bs_eligible_end_idx := bs_eligible_end_idx s
               + length (takeWhile (\<lambda>a. ja_submit_time a \<le> now) (drop (bs_eligible_end_idx s) (bs_job_order s))),
             bs_current_tracked_time := now\<rparr>)"

definition block_next_arrival_time :: "block_scheduler \<Rightarrow> sim_time" where
  "block_next_arrival_time s =
     (case find (\<lambda>a. \<not> ja_removed a) (drop (bs_eligible_end_idx s) (bs_job_order s)) of
        None \<Rightarrow> dbl_max | Some a \<Rightarrow> ja_submit_time a)"

definition block_active_job_count :: "block_scheduler \<Rightarrow> nat" where
  "block_active_job_count s = bs_eligible_end_idx s - bs_removed_count s"

definition block_has_eligible_jobs :: "block_scheduler \<Rightarrow> bool" where
  "block_has_eligible_jobs s \<longleftrightarrow> block_active_job_count s > 0"

definition block_pending_job_ids :: "block_scheduler \<Rightarrow> job_no list" where
  "block_pending_job_ids s = map ja_job_id (filter (\<lambda>a. \<not> ja_removed a) (bs_job_order s))"

definition block_waiting_resource_area :: "block_scheduler \<Rightarrow> tdiff" where
  "block_waiting_resource_area s = bq_waiting_resource_area (bs_wait_queue s) (bs_current_tracked_time s)"

section \<open>The scheduling pass\<close>

fun mark_arrival :: "job_no \<Rightarrow> nat \<Rightarrow> job_arrival list \<Rightarrow> bool \<times> job_arrival list" where
  "mark_arrival i e [] = (False, [])"
| "mark_arrival i e (a # as) =
     (if e = 0 then (False, a # as)
      else if ja_job_id a = i \<and> \<not> ja_removed a then (True, a\<lparr>ja_removed := True\<rparr> # as)
      else let (found, as') = mark_arrival i (e - 1) as in (found, a # as'))"

abbreviation active :: "job_arrival list \<Rightarrow> job_arrival list" where
  "active as \<equiv> filter (\<lambda>a. \<not> ja_removed a) as"

lemma find_active: "find (\<lambda>a. \<not> ja_removed a) as = (case active as of [] \<Rightarrow> None | a # _ \<Rightarrow> Some a)"
  by (induction as) auto

lemma mark_arrival_active:
  "active (take e order) = a # as \<Longrightarrow> mark_arrival (ja_job_id a) e order = (found, order') \<Longrightarrow>
   found \<and> active (take e order') = as \<and> drop e order' = drop e order \<and> length order' = length order \<and>
   map ja_submit_time order' = map ja_submit_time order \<and>
   length (filter ja_removed (take e order')) = Suc (length (filter ja_removed (take e order)))"
proof (induction order arbitrary: e found order')
  case (Cons x order)
  obtain m where e: "e = Suc m" using Cons.prems(1) by (cases e) simp_all
  show ?case
  proof (cases "ja_removed x")
    case True
    obtain f o' where r: "mark_arrival (ja_job_id a) m order = (f, o')" by fastforce
    have "found = f" "order' = x # o'" using Cons.prems(2) True e r by simp_all
    then show ?thesis using Cons.IH[OF _ r] Cons.prems(1) True e by simp
  next
    case False
    then have "x = a" "active (take m order) = as" using Cons.prems(1) e by simp_all
    then show ?thesis using Cons.prems(2) False e by auto
  qed
qed simp

text \<open>Step 1: start heads while they fit.  Every round removes one arrival of the eligible prefix.\<close>

function block_heads ::
  "nat \<Rightarrow> sim_time \<Rightarrow> nat \<Rightarrow> num_nodes \<Rightarrow> block_queue \<Rightarrow> job_arrival list \<Rightarrow> nat \<Rightarrow>
   exn + (job_no list \<times> projected_starts \<times> num_nodes \<times> block_queue \<times> job_arrival list \<times> nat)" where
  "block_heads bsize now e avail q order r =
     (case find (\<lambda>a. \<not> ja_removed a) (take e order) of
        None \<Rightarrow> Inr ([], [], avail, q, order, r)
      | Some head \<Rightarrow>
         (case get_job_info bsize q (ja_job_id head) of
            None \<Rightarrow> Inl Logic_Error
          | Some (head_run_time, nodes_needed) \<Rightarrow>
              if nodes_needed \<le> avail then
                (let (found, order') = mark_arrival (ja_job_id head) e order in
                 case block_heads bsize now e (avail - nodes_needed) (bq_remove bsize q (ja_job_id head)) order'
                        (if found then r + 1 else r) of
                   Inl x \<Rightarrow> Inl x
                 | Inr (ids, starts, rest) \<Rightarrow>
                     Inr (ja_job_id head # ids,
                          \<lparr>rj_start_time = now, rj_run_time = head_run_time, rj_nodes = nodes_needed\<rparr> # starts, rest))
              else Inr ([], [], avail, q, order, r)))"
  by pat_completeness auto
termination
proof (relation "measure (\<lambda>(bsize, now, e, avail, q, order, r). length (active (take e order)))")
  fix bsize now e avail q order r head p rt n pr found order'
  assume f: "find (\<lambda>a. \<not> ja_removed a) (take e order) = Some head"
    and pr: "pr = mark_arrival (ja_job_id head) e order" "(found, order') = pr"
  from f obtain as where "active (take e order) = head # as" by (auto simp: find_active split: list.splits)
  then show "((bsize, now, e, avail - n, bq_remove bsize q (ja_job_id head), order', if found then r + 1 else r),
      bsize, now, e, avail, q, order, r) \<in> measure (\<lambda>(bsize, now, e, avail, q, order, r). length (active (take e order)))"
    using mark_arrival_active[of e order head as found order'] pr by simp
qed simp

declare block_heads.simps [simp del]

text \<open>Step 3: the default candidate scan over the eligible prefix.\<close>

fun block_scan ::
  "nat \<Rightarrow> 'a scheduler_base_scheme \<Rightarrow> sim_time \<Rightarrow> job_no \<Rightarrow> num_nodes \<Rightarrow> segment list \<Rightarrow> block_queue \<Rightarrow> job_arrival list \<Rightarrow>
   job_no list \<times> block_queue \<times> job_arrival list" where
  "block_scan bsize s now fcfs_head avail plan q [] = ([], q, [])"
| "block_scan bsize s now fcfs_head avail plan q (a # as) =
     (if avail = 0 then ([], q, a # as)
      else if ja_removed a \<or> ja_job_id a = fcfs_head then
        (let (ids, q', as') = block_scan bsize s now fcfs_head avail plan q as in (ids, q', a # as'))
      else case get_job_info bsize q (ja_job_id a) of
        None \<Rightarrow> (let (ids, q', as') = block_scan bsize s now fcfs_head avail plan q as in (ids, q', a # as'))
      | Some (run_time, nodes) \<Rightarrow>
          if nodes > avail \<or> \<not> can_fit plan now nodes (release_estimate s now run_time)
          then (let (ids, q', as') = block_scan bsize s now fcfs_head avail plan q as in (ids, q', a # as'))
          else (let (ids, q', as') = block_scan bsize s now fcfs_head (avail - nodes)
                       (reserve plan now nodes (release_estimate s now run_time)) (bq_remove bsize q (ja_job_id a)) as
                in (ja_job_id a # ids, q', a\<lparr>ja_removed := True\<rparr> # as')))"

text \<open>The scan under a queue depth, which throws for a missing entry.\<close>

fun depth_scan ::
  "nat \<Rightarrow> 'a scheduler_base_scheme \<Rightarrow> sim_time \<Rightarrow> num_nodes \<Rightarrow> segment list \<Rightarrow> block_queue \<Rightarrow> job_arrival list \<Rightarrow>
   exn + (job_no list \<times> block_queue \<times> job_arrival list)" where
  "depth_scan bsize s now avail plan q [] = Inr ([], q, [])"
| "depth_scan bsize s now avail plan q (a # as) =
     (let skip = (case depth_scan bsize s now avail plan q as of
                    Inl e \<Rightarrow> Inl e | Inr (ids, q', as') \<Rightarrow> Inr (ids, q', a # as'))
      in if avail = 0 then Inr ([], q, a # as)
      else if ja_removed a then skip
      else case get_job_info bsize q (ja_job_id a) of
        None \<Rightarrow> Inl Logic_Error
      | Some (run_time, nodes) \<Rightarrow>
          if nodes > avail then skip
          else if \<not> can_fit plan now nodes (release_estimate s now run_time) then skip
          else (case depth_scan bsize s now (avail - nodes) (reserve plan now nodes (release_estimate s now run_time))
                       (bq_remove bsize q (ja_job_id a)) as of
                  Inl e \<Rightarrow> Inl e
                | Inr (ids, q', as') \<Rightarrow> Inr (ja_job_id a # ids, q', a\<lparr>ja_removed := True\<rparr> # as')))"

definition backfill_with_queue_depth ::
  "nat \<Rightarrow> block_scheduler \<Rightarrow> bool \<Rightarrow> sim_time \<Rightarrow> segment list \<Rightarrow> num_nodes \<Rightarrow> exn + (job_no list \<times> block_scheduler)" where
  "backfill_with_queue_depth bsize s head_planned now plan avail =
     (let order = bs_job_order s;
          head_index = length (takeWhile ja_removed (take (bs_eligible_end_idx s) order));
          scan_end = queue_depth_scan_end (map ja_removed order) (head_index + 1) (bs_eligible_end_idx s)
                       (bs_backfill_queue_depth s) head_planned
      in case depth_scan bsize s now avail plan (bs_wait_queue s) (drop (head_index + 1) (take scan_end order)) of
           Inl e \<Rightarrow> Inl e
         | Inr (ids, q, as) \<Rightarrow>
             Inr (ids, s\<lparr>bs_wait_queue := q, bs_job_order := take (head_index + 1) order @ as @ drop scan_end order,
                        bs_removed_count := bs_removed_count s + length ids\<rparr>))"

definition block_schedule ::
  "nat \<Rightarrow> block_scheduler \<Rightarrow> num_nodes \<Rightarrow> running_jobs \<Rightarrow> sim_time \<Rightarrow> exn + (job_no list \<times> block_scheduler)" where
  "block_schedule bsize s free running now =
     (let s = block_sync_to s now; e = bs_eligible_end_idx s in
      if \<not> block_has_eligible_jobs s then Inr ([], s)
      else case block_heads bsize now e free (bs_wait_queue s) (bs_job_order s) (bs_removed_count s) of
        Inl x \<Rightarrow> Inl x
      | Inr (ids, starts, avail, q, order, r) \<Rightarrow>
          let s = s\<lparr>bs_wait_queue := q, bs_job_order := order, bs_removed_count := r\<rparr> in
          if block_active_job_count s = 0 \<or> m_backfill_policy s = NONE then Inr (ids, s)
          else case find (\<lambda>a. \<not> ja_removed a) (take e order) of
            None \<Rightarrow> Inr (ids, s)
          | Some head \<Rightarrow>
             (case get_job_info bsize q (ja_job_id head) of
                None \<Rightarrow> Inl Logic_Error
              | Some (head_run_time, head_nodes) \<Rightarrow>
                  let plan = reservation_timeline s avail running now starts;
                      res = value_or_max (earliest_fit plan head_nodes 0 now);
                      s = s\<lparr>m_fcfs_reservation_time := res\<rparr>;
                      planned = reservation_within_horizon s res now;
                      plan = (if planned then reserve plan res head_nodes (release_estimate s res head_run_time) else plan)
                  in if bs_backfill_queue_depth s \<noteq> 0 then
                       (case backfill_with_queue_depth bsize s planned now plan avail of
                          Inl x \<Rightarrow> Inl x | Inr (ids', s') \<Rightarrow> Inr (ids @ ids', s'))
                     else let (ids', q', as') = block_scan bsize s now (ja_job_id head) avail plan q (take e order) in
                       Inr (ids @ ids', s\<lparr>bs_wait_queue := q', bs_job_order := as' @ drop e order,
                                         bs_removed_count := r + length ids'\<rparr>)))"

lemmas block_sched_eval [eval_simps] = new_block_scheduler_def new_arrival_def block_insert_job_def block_sync_to_def
  block_active_job_count_def block_has_eligible_jobs_def backfill_with_queue_depth_def block_schedule_def block_heads.simps

end
