(* ===== verification/Scheduler_Factory.thy ===== *)
theory Scheduler_Factory
  imports Simulation Dispatch Ordered Easy_Block
begin

text \<open>
  \<^verbatim>\<open>create_scheduler\<close> (\<^verbatim>\<open>src/src/sim/scheduler_base.cpp\<close>): the class of scheduler that a configuration selects, and
  the configurations it refuses.  A pointer to \<^verbatim>\<open>SchedulerBase\<close> is the datatype \<open>any_scheduler\<close>, with one constructor for each
  class; a virtual function is a case distinction over it.  The warnings on the error stream are left out; \<^verbatim>\<open>std::exit\<close> is the
  exception \<open>Exit_Failure\<close>.
\<close>

unbundle bit_operations_syntax

section \<open>The classes\<close>

text \<open>The parameters beside those of \<open>sim_params\<close>; the optional ones have their defaults when they were not given.\<close>

record run_config =
  c_priority_policy :: priority_policy
  c_queue_impl :: queue_implementation
  c_block_size :: nat
  c_num_max_candidates :: nat
  c_wait_queue_capacity :: nat
  c_wait_queue_overflow :: circular_overflow_policy
  c_backfill_queue_depth :: nat
  c_dispatch_queue_depth :: nat
  c_outfile :: string
  c_resource_trace :: string
  c_redis_uri :: string
  c_redis_key_prefix :: string
  c_msec_output :: bool
  c_cores_per_node :: nat
  c_infile_list_parsed :: "string list"

datatype any_scheduler =
    FCFS_Easy_Deque fcfs_queue
  | FCFS_Easy_Circular circular_queue
  | FCFS_Easy_Block nat block_scheduler
  | FCFS_Easy_Multimap mm_queue
  | SJF_Easy mm_queue
  | LJF_Easy mm_queue
  | FCFS_Hybrid_Deque hybrid_queue
  | FCFS_Hybrid_Circular hybrid_circular
  | FCFS_Periodic_Easy periodic_easy
  | FCFS_Periodic_Hybrid hybrid_circular
  | Periodic_FCFS_Hybrid periodic_dispatch

section \<open>The factory\<close>

definition create_hybrid_scheduler ::
  "num_nodes \<Rightarrow> nat \<Rightarrow> backfill_policy \<Rightarrow> queue_implementation \<Rightarrow> nat \<Rightarrow> circular_overflow_policy \<Rightarrow> nat \<Rightarrow> nat \<Rightarrow> exn + any_scheduler" where
  "create_hybrid_scheduler total_nodes initial_job_count policy impl capacity overflow reservation_depth queue_depth =
     (if impl = DEQUE then map_sum id FCFS_Hybrid_Deque (new_hybrid_deque total_nodes policy reservation_depth queue_depth)
      else map_sum id FCFS_Hybrid_Circular
             (new_hybrid_circular total_nodes initial_job_count policy capacity overflow reservation_depth queue_depth))"

text \<open>The loop over \<^verbatim>\<open>temp\<close> that counts the shifts.\<close>

function log2_size :: "nat \<Rightarrow> nat" where
  "log2_size temp = (if 1 < temp then Suc (log2_size (drop_bit 1 temp)) else 0)"
  by auto
termination by (relation "measure id") (auto simp: drop_bit_Suc)

declare log2_size.simps [simp del]

definition create_block_scheduler :: "num_nodes \<Rightarrow> backfill_policy \<Rightarrow> nat \<Rightarrow> nat \<Rightarrow> exn + any_scheduler" where
  "create_block_scheduler total_nodes policy block_size queue_depth =
     (if block_size = 0 \<or> block_size AND (block_size - 1) \<noteq> 0 then Inl Exit_Failure
      else let n = log2_size block_size in
        if push_bit n 1 \<noteq> block_size then Inl Exit_Failure
        else if n \<in> {2, 3, 4, 5, 6, 7, 8}
        then Inr (FCFS_Easy_Block (2 ^ n) (new_block_scheduler total_nodes policy queue_depth))
        else Inl Exit_Failure)"

definition create_fixed_dispatch :: "sim_params \<Rightarrow> run_config \<Rightarrow> nat \<Rightarrow> exn + any_scheduler" where
  "create_fixed_dispatch p c initial_job_count =
     (if p_backfill_interval p \<noteq> 0 then Inl Invalid_Argument
      else if c_priority_policy c \<noteq> FCFS \<and> c_priority_policy c \<noteq> FCFS_CONSERVATIVE then Inl Invalid_Argument
      else if c_queue_impl c \<noteq> CIRCULAR then Inl Invalid_Argument
      else if c_backfill_queue_depth c \<noteq> 0 then Inl Invalid_Argument
      else if p_backfill_policy p = HYBRID \<and> p_reservation_depth p = 0 then Inl Invalid_Argument
      else map_sum id Periodic_FCFS_Hybrid
             (new_periodic_dispatch (p_total_nodes p) initial_job_count (p_backfill_policy p) (c_wait_queue_capacity c)
               (c_wait_queue_overflow c) (p_reservation_depth p) (c_dispatch_queue_depth c)))"

definition create_periodic_backfill :: "sim_params \<Rightarrow> run_config \<Rightarrow> nat \<Rightarrow> exn + any_scheduler" where
  "create_periodic_backfill p c initial_job_count =
     (if p_backfill_policy p = NONE then Inl Invalid_Argument
      else if c_priority_policy c \<noteq> FCFS \<and> c_priority_policy c \<noteq> FCFS_CONSERVATIVE then Inl Invalid_Argument
      else if c_queue_impl c \<noteq> CIRCULAR then Inl Invalid_Argument
      else if p_backfill_policy p = HYBRID \<and> p_reservation_depth p = 0 then Inl Invalid_Argument
      else if p_backfill_policy p = EASY
      then Inr (FCFS_Periodic_Easy (new_periodic_easy (p_total_nodes p) initial_job_count (c_wait_queue_capacity c)
                  (c_wait_queue_overflow c) (c_backfill_queue_depth c)))
      else map_sum id FCFS_Periodic_Hybrid
             (new_hybrid_circular (p_total_nodes p) initial_job_count (p_backfill_policy p) (c_wait_queue_capacity c)
               (c_wait_queue_overflow c) (p_reservation_depth p) (c_backfill_queue_depth c)))"

definition create_hybrid_of :: "sim_params \<Rightarrow> run_config \<Rightarrow> nat \<Rightarrow> exn + any_scheduler" where
  "create_hybrid_of p c initial_job_count =
     create_hybrid_scheduler (p_total_nodes p) initial_job_count (p_backfill_policy p) (c_queue_impl c) (c_wait_queue_capacity c)
       (c_wait_queue_overflow c) (p_reservation_depth p) (c_backfill_queue_depth c)"

text \<open>The switch over the priority policy.\<close>

definition create_by_priority :: "sim_params \<Rightarrow> run_config \<Rightarrow> nat \<Rightarrow> exn + any_scheduler" where
  "create_by_priority p c initial_job_count =
     (let priority = (if c_priority_policy c = FCFS_CONSERVATIVE \<and> p_backfill_policy p = EASY then FCFS else c_priority_policy c) in
      case priority of
        FCFS \<Rightarrow>
          (case c_queue_impl c of
             BLOCK \<Rightarrow> create_block_scheduler (p_total_nodes p) (p_backfill_policy p) (c_block_size c) (c_backfill_queue_depth c)
           | MULTIMAP \<Rightarrow> Inr (FCFS_Easy_Multimap (new_mm_queue (p_total_nodes p) (p_backfill_policy p) (c_backfill_queue_depth c)))
           | DEQUE \<Rightarrow> Inr (FCFS_Easy_Deque (new_deque (p_total_nodes p) (p_backfill_policy p) (c_backfill_queue_depth c)))
           | CIRCULAR \<Rightarrow> Inr (FCFS_Easy_Circular (new_circular (p_total_nodes p) initial_job_count (p_backfill_policy p)
               (c_wait_queue_capacity c) (c_wait_queue_overflow c) (c_backfill_queue_depth c))))
      | FCFS_ALT \<Rightarrow> Inr (FCFS_Easy_Multimap (new_mm_queue (p_total_nodes p) (p_backfill_policy p) (c_backfill_queue_depth c)))
      | FCFS_CONSERVATIVE \<Rightarrow> create_hybrid_of p c initial_job_count
      | SJF \<Rightarrow> Inr (SJF_Easy (new_mm_queue (p_total_nodes p) (p_backfill_policy p) (c_backfill_queue_depth c)))
      | LJF \<Rightarrow> Inr (LJF_Easy (new_mm_queue (p_total_nodes p) (p_backfill_policy p) (c_backfill_queue_depth c))))"

definition create_scheduler :: "sim_params \<Rightarrow> run_config \<Rightarrow> nat \<Rightarrow> exn + any_scheduler" where
  "create_scheduler p c initial_job_count =
     (if p_dispatch_on_events p \<and> p_dispatch_interval p \<le> 0 then Inl Invalid_Argument
      else if \<not> isfinite (p_dispatch_interval p) \<or> p_dispatch_interval p < 0 then Inl Invalid_Argument
      else if 0 < p_dispatch_interval p then create_fixed_dispatch p c initial_job_count
      else if c_dispatch_queue_depth c \<noteq> 0 then Inl Invalid_Argument
      else if \<not> isfinite (p_backfill_interval p) \<or> p_backfill_interval p < 0 then Inl Invalid_Argument
      else if 0 < p_backfill_interval p then create_periodic_backfill p c initial_job_count
      else if p_backfill_policy p = HYBRID
      then if p_reservation_depth p = 0 then Inl Invalid_Argument
           else if c_priority_policy c \<noteq> FCFS \<and> c_priority_policy c \<noteq> FCFS_CONSERVATIVE then Inl Invalid_Argument
           else create_hybrid_of p c initial_job_count
      else create_by_priority p c initial_job_count)"

section \<open>Virtual functions\<close>

fun any_base :: "any_scheduler \<Rightarrow> scheduler_base" where
  "any_base (FCFS_Easy_Deque s) = scheduler_base.truncate s"
| "any_base (FCFS_Easy_Circular s) = scheduler_base.truncate s"
| "any_base (FCFS_Easy_Block _ s) = scheduler_base.truncate s"
| "any_base (FCFS_Easy_Multimap s) = scheduler_base.truncate s"
| "any_base (SJF_Easy s) = scheduler_base.truncate s"
| "any_base (LJF_Easy s) = scheduler_base.truncate s"
| "any_base (FCFS_Hybrid_Deque s) = scheduler_base.truncate s"
| "any_base (FCFS_Hybrid_Circular s) = scheduler_base.truncate s"
| "any_base (FCFS_Periodic_Easy s) = scheduler_base.truncate s"
| "any_base (FCFS_Periodic_Hybrid s) = scheduler_base.truncate s"
| "any_base (Periodic_FCFS_Hybrid s) = scheduler_base.truncate s"

fun any_pending_job_ids :: "any_scheduler \<Rightarrow> job_no list" where
  "any_pending_job_ids (FCFS_Easy_Deque s) = deque_pending_job_ids s"
| "any_pending_job_ids (FCFS_Easy_Circular s) = circular_pending_job_ids s"
| "any_pending_job_ids (FCFS_Easy_Block _ s) = block_pending_job_ids s"
| "any_pending_job_ids (FCFS_Easy_Multimap s) = mm_pending_job_ids s"
| "any_pending_job_ids (SJF_Easy s) = mm_pending_job_ids s"
| "any_pending_job_ids (LJF_Easy s) = mm_pending_job_ids s"
| "any_pending_job_ids (FCFS_Hybrid_Deque s) = hybrid_pending_job_ids s"
| "any_pending_job_ids (FCFS_Hybrid_Circular s) = hc_pending_job_ids s"
| "any_pending_job_ids (FCFS_Periodic_Easy s) = circular_pending_job_ids s"
| "any_pending_job_ids (FCFS_Periodic_Hybrid s) = hc_pending_job_ids s"
| "any_pending_job_ids (Periodic_FCFS_Hybrid s) = hc_pending_job_ids s"

fun any_insert_job :: "circular_buffer \<Rightarrow> any_scheduler \<Rightarrow> job_no \<Rightarrow> sim_time \<Rightarrow> tdiff \<Rightarrow> num_nodes \<Rightarrow> exn + any_scheduler" where
  "any_insert_job b (FCFS_Easy_Deque s) i t r n = Inr (FCFS_Easy_Deque (deque_insert_job s i t r n))"
| "any_insert_job b (FCFS_Easy_Circular s) i t r n = map_sum id FCFS_Easy_Circular (circular_insert_job b s i t r n)"
| "any_insert_job b (FCFS_Easy_Block k s) i t r n = map_sum id (FCFS_Easy_Block k) (block_insert_job k s i t r n)"
| "any_insert_job b (FCFS_Easy_Multimap s) i t r n = Inr (FCFS_Easy_Multimap (fcfs_mm_insert_job s i t r n))"
| "any_insert_job b (SJF_Easy s) i t r n = Inr (SJF_Easy (sjf_insert_job s i t r n))"
| "any_insert_job b (LJF_Easy s) i t r n = Inr (LJF_Easy (ljf_insert_job s i t r n))"
| "any_insert_job b (FCFS_Hybrid_Deque s) i t r n = Inr (FCFS_Hybrid_Deque (hybrid_insert_job s i t r n))"
| "any_insert_job b (FCFS_Hybrid_Circular s) i t r n = map_sum id FCFS_Hybrid_Circular (hc_insert_job b s i t r n)"
| "any_insert_job b (FCFS_Periodic_Easy s) i t r n = map_sum id FCFS_Periodic_Easy (circular_insert_job b s i t r n)"
| "any_insert_job b (FCFS_Periodic_Hybrid s) i t r n = map_sum id FCFS_Periodic_Hybrid (hc_insert_job b s i t r n)"
| "any_insert_job b (Periodic_FCFS_Hybrid s) i t r n = map_sum id Periodic_FCFS_Hybrid (hc_insert_job b s i t r n)"

fun any_sync_to :: "any_scheduler \<Rightarrow> sim_time \<Rightarrow> any_scheduler" where
  "any_sync_to (FCFS_Easy_Deque s) now = FCFS_Easy_Deque (deque_sync_to s now)"
| "any_sync_to (FCFS_Easy_Circular s) now = FCFS_Easy_Circular (circular_sync_to s now)"
| "any_sync_to (FCFS_Easy_Block k s) now = FCFS_Easy_Block k (block_sync_to s now)"
| "any_sync_to (FCFS_Easy_Multimap s) now = FCFS_Easy_Multimap (mm_update_eligible s now)"
| "any_sync_to (SJF_Easy s) now = SJF_Easy (mm_update_eligible s now)"
| "any_sync_to (LJF_Easy s) now = LJF_Easy (mm_update_eligible s now)"
| "any_sync_to (FCFS_Hybrid_Deque s) now = FCFS_Hybrid_Deque (hybrid_sync_to s now)"
| "any_sync_to (FCFS_Hybrid_Circular s) now = FCFS_Hybrid_Circular (hc_sync_to s now)"
| "any_sync_to (FCFS_Periodic_Easy s) now = FCFS_Periodic_Easy (circular_sync_to s now)"
| "any_sync_to (FCFS_Periodic_Hybrid s) now = FCFS_Periodic_Hybrid (hc_sync_to s now)"
| "any_sync_to (Periodic_FCFS_Hybrid s) now = Periodic_FCFS_Hybrid (hc_sync_to s now)"

text \<open>A function of the base class runs on the members every class inherits.\<close>

fun any_put_base :: "scheduler_base \<Rightarrow> any_scheduler \<Rightarrow> any_scheduler" where
  "any_put_base b (FCFS_Easy_Deque s) = FCFS_Easy_Deque (scheduler_base.extend b (scheduler_base.more s))"
| "any_put_base b (FCFS_Easy_Circular s) = FCFS_Easy_Circular (scheduler_base.extend b (scheduler_base.more s))"
| "any_put_base b (FCFS_Easy_Block k s) = FCFS_Easy_Block k (scheduler_base.extend b (scheduler_base.more s))"
| "any_put_base b (FCFS_Easy_Multimap s) = FCFS_Easy_Multimap (scheduler_base.extend b (scheduler_base.more s))"
| "any_put_base b (SJF_Easy s) = SJF_Easy (scheduler_base.extend b (scheduler_base.more s))"
| "any_put_base b (LJF_Easy s) = LJF_Easy (scheduler_base.extend b (scheduler_base.more s))"
| "any_put_base b (FCFS_Hybrid_Deque s) = FCFS_Hybrid_Deque (scheduler_base.extend b (scheduler_base.more s))"
| "any_put_base b (FCFS_Hybrid_Circular s) = FCFS_Hybrid_Circular (scheduler_base.extend b (scheduler_base.more s))"
| "any_put_base b (FCFS_Periodic_Easy s) = FCFS_Periodic_Easy (scheduler_base.extend b (scheduler_base.more s))"
| "any_put_base b (FCFS_Periodic_Hybrid s) = FCFS_Periodic_Hybrid (scheduler_base.extend b (scheduler_base.more s))"
| "any_put_base b (Periodic_FCFS_Hybrid s) = Periodic_FCFS_Hybrid (scheduler_base.extend b (scheduler_base.more s))"

text \<open>The scheduler as the constructor of the simulation and a restart set it up.\<close>

definition make_scheduler :: "sim_params \<Rightarrow> run_config \<Rightarrow> nat \<Rightarrow> exn + any_scheduler" where
  "make_scheduler p c initial_job_count =
     (case create_scheduler p c initial_job_count of
        Inl e \<Rightarrow> Inl e
      | Inr s \<Rightarrow>
          (case set_planning_horizon (p_planning_horizon p) (set_planning_time_resolution (p_planning_time_resolution p) (any_base s)) of
             Inl e \<Rightarrow> Inl e
           | Inr b \<Rightarrow> Inr (any_put_base b s)))"


section \<open>What the factory promises\<close>

text \<open>The classes that hold reservations for more than the head of the queue.\<close>

fun chains_reservations :: "any_scheduler \<Rightarrow> bool" where
  "chains_reservations (FCFS_Hybrid_Deque _) = True"
| "chains_reservations (FCFS_Hybrid_Circular _) = True"
| "chains_reservations (FCFS_Periodic_Hybrid _) = True"
| "chains_reservations (Periodic_FCFS_Hybrid _) = True"
| "chains_reservations _ = False"

definition fresh_as :: "num_nodes \<Rightarrow> backfill_policy \<Rightarrow> any_scheduler \<Rightarrow> bool" where
  "fresh_as total_nodes policy s \<longleftrightarrow> any_pending_job_ids s = [] \<and> any_base s = new_base total_nodes policy"

named_theorems factory_simps \<open>the schedulers the factory makes\<close>

lemma fresh_classes [factory_simps]:
  "fresh_as m pol (FCFS_Easy_Deque (new_deque m pol d))"
  "fresh_as m pol (FCFS_Easy_Circular (new_circular m n pol w ov d))"
  "fresh_as m pol (FCFS_Easy_Block k (new_block_scheduler m pol d))"
  "fresh_as m pol (FCFS_Easy_Multimap (new_mm_queue m pol d))"
  "fresh_as m pol (SJF_Easy (new_mm_queue m pol d))"
  "fresh_as m pol (LJF_Easy (new_mm_queue m pol d))"
  "fresh_as m EASY (FCFS_Periodic_Easy (new_periodic_easy m n w ov d))"
  by (simp_all add: fresh_as_def new_deque_def new_circular_def new_block_scheduler_def new_mm_queue_def new_periodic_easy_def
      deque_pending_job_ids_def circular_pending_job_ids_def block_pending_job_ids_def mm_pending_job_ids_def
      scheduler_base.defs fcfs_queue.defs circular_queue.defs periodic_easy.defs mm_queue.defs new_base_def)

lemma hybrid_classes:
  assumes "pol \<noteq> EASY"
  shows "\<exists>s. new_hybrid_deque m pol r d = Inr s \<and> fresh_as m pol (FCFS_Hybrid_Deque s)"
    "\<exists>s. new_hybrid_circular m n pol w ov r d = Inr s \<and> fresh_as m pol (FCFS_Hybrid_Circular s) \<and> fresh_as m pol (FCFS_Periodic_Hybrid s)"
  using assms
  by (simp_all add: fresh_as_def new_hybrid_deque_def new_hybrid_circular_def hybrid_pending_job_ids_def
      hc_pending_job_ids_def scheduler_base.defs fcfs_queue.defs hybrid_queue.defs hybrid_circular.defs new_base_def)

lemma dispatch_class:
  "\<exists>s. new_periodic_dispatch m n pol w ov r d = Inr s \<and> fresh_as m (if pol = EASY then HYBRID else pol) (Periodic_FCFS_Hybrid s)"
  by (simp add: fresh_as_def new_hybrid_circular_def new_periodic_dispatch_def hc_pending_job_ids_def scheduler_base.defs fcfs_queue.defs
      hybrid_queue.defs hybrid_circular.defs periodic_dispatch.defs new_base_def)

lemma create_block_cases:
  "create_block_scheduler m pol b d =
     (if b \<in> {4, 8, 16, 32, 64, 128, 256} then Inr (FCFS_Easy_Block b (new_block_scheduler m pol d)) else Inl Exit_Failure)"
proof (cases "b \<in> {4, 8, 16, 32, 64, 128, 256}")
  case True
  then show ?thesis
    by (elim insertE emptyE; simp add: create_block_scheduler_def Let_def log2_size.simps drop_bit_Suc)
next
  case False
  have "push_bit k 1 \<noteq> b" if "k \<in> {2, 3, 4, 5, 6, 7, 8}" for k :: nat
    using that False by (elim insertE emptyE) (auto simp: push_bit_eq_mult)
  then show ?thesis using False by (auto simp: create_block_scheduler_def Let_def)
qed

definition factory_promise :: "sim_params \<Rightarrow> run_config \<Rightarrow> exn + any_scheduler \<Rightarrow> bool" where
  "factory_promise p c r = (case r of
     Inl e \<Rightarrow> e = Invalid_Argument \<or> (e = Exit_Failure \<and> c_queue_impl c = BLOCK \<and> c_block_size c \<notin> {4, 8, 16, 32, 64, 128, 256})
   | Inr s \<Rightarrow> fresh_as (p_total_nodes p) (if 0 < p_dispatch_interval p \<and> p_backfill_policy p = EASY then HYBRID else p_backfill_policy p) s \<and>
       (p_backfill_policy p \<noteq> HYBRID \<or> 0 < p_reservation_depth p) \<and>
       (chains_reservations s \<longleftrightarrow> 0 < p_dispatch_interval p \<or> p_backfill_policy p = HYBRID \<or>
          (p_backfill_policy p \<noteq> EASY \<and> (0 < p_backfill_interval p \<or> c_priority_policy c = FCFS_CONSERVATIVE))))"

lemma promise_refused [factory_simps]: "factory_promise p c (Inl Invalid_Argument)"
  by (simp add: factory_promise_def)

lemma promise_made [factory_simps]:
  "factory_promise p c (Inr s) \<longleftrightarrow>
     fresh_as (p_total_nodes p) (if 0 < p_dispatch_interval p \<and> p_backfill_policy p = EASY then HYBRID else p_backfill_policy p) s \<and>
     (p_backfill_policy p \<noteq> HYBRID \<or> 0 < p_reservation_depth p) \<and>
     (chains_reservations s \<longleftrightarrow> 0 < p_dispatch_interval p \<or> p_backfill_policy p = HYBRID \<or>
        (p_backfill_policy p \<noteq> EASY \<and> (0 < p_backfill_interval p \<or> c_priority_policy c = FCFS_CONSERVATIVE)))"
  by (simp add: factory_promise_def)

lemma hybrid_promise:
  assumes "p_backfill_policy p \<noteq> EASY" "\<not> 0 < p_dispatch_interval p" "p_backfill_policy p \<noteq> HYBRID \<or> 0 < p_reservation_depth p"
    and "p_backfill_policy p = HYBRID \<or> 0 < p_backfill_interval p \<or> c_priority_policy c = FCFS_CONSERVATIVE"
  shows "factory_promise p c (create_hybrid_of p c n)"
proof (cases "c_queue_impl c = DEQUE")
  case True
  obtain s where "new_hybrid_deque (p_total_nodes p) (p_backfill_policy p) (p_reservation_depth p) (c_backfill_queue_depth c) = Inr s"
    "fresh_as (p_total_nodes p) (p_backfill_policy p) (FCFS_Hybrid_Deque s)" using hybrid_classes(1)[OF assms(1)] by blast
  then show ?thesis using True assms by (auto simp: create_hybrid_of_def create_hybrid_scheduler_def factory_simps)
next
  case False
  obtain s where "new_hybrid_circular (p_total_nodes p) n (p_backfill_policy p) (c_wait_queue_capacity c) (c_wait_queue_overflow c)
      (p_reservation_depth p) (c_backfill_queue_depth c) = Inr s" "fresh_as (p_total_nodes p) (p_backfill_policy p) (FCFS_Hybrid_Circular s)"
    using hybrid_classes(2)[OF assms(1)] by blast
  then show ?thesis using False assms by (auto simp: create_hybrid_of_def create_hybrid_scheduler_def factory_simps)
qed

lemma fixed_promise:
  assumes "0 < p_dispatch_interval p"
  shows "factory_promise p c (create_fixed_dispatch p c n)"
proof -
  obtain s where "new_periodic_dispatch (p_total_nodes p) n (p_backfill_policy p) (c_wait_queue_capacity c) (c_wait_queue_overflow c)
      (p_reservation_depth p) (c_dispatch_queue_depth c) = Inr s"
    "fresh_as (p_total_nodes p) (if p_backfill_policy p = EASY then HYBRID else p_backfill_policy p) (Periodic_FCFS_Hybrid s)"
    using dispatch_class by blast
  then show ?thesis using assms by (auto simp: create_fixed_dispatch_def factory_simps)
qed

lemma periodic_promise:
  assumes "0 < p_backfill_interval p" "\<not> 0 < p_dispatch_interval p"
  shows "factory_promise p c (create_periodic_backfill p c n)"
proof (cases "p_backfill_policy p = EASY")
  case True
  then show ?thesis using assms by (simp add: create_periodic_backfill_def factory_simps)
next
  case False
  obtain s where "new_hybrid_circular (p_total_nodes p) n (p_backfill_policy p) (c_wait_queue_capacity c) (c_wait_queue_overflow c)
      (p_reservation_depth p) (c_backfill_queue_depth c) = Inr s" "fresh_as (p_total_nodes p) (p_backfill_policy p) (FCFS_Periodic_Hybrid s)"
    using hybrid_classes(2)[OF False] by blast
  then show ?thesis using assms False by (auto simp: create_periodic_backfill_def factory_simps)
qed

lemma priority_promise:
  assumes "\<not> 0 < p_dispatch_interval p" "\<not> 0 < p_backfill_interval p" "p_backfill_policy p \<noteq> HYBRID"
  shows "factory_promise p c (create_by_priority p c n)"
proof (cases "c_priority_policy c = FCFS_CONSERVATIVE \<and> p_backfill_policy p \<noteq> EASY")
  case True
  then show ?thesis using hybrid_promise[of p c n] assms by (simp add: create_by_priority_def)
next
  case False
  have "factory_promise p c (create_block_scheduler (p_total_nodes p) (p_backfill_policy p) (c_block_size c) (c_backfill_queue_depth c))"
    if "c_queue_impl c = BLOCK"
    using assms False that by (auto simp: create_block_cases factory_promise_def fresh_classes)
  then show ?thesis using False assms
    by (cases "c_priority_policy c"; cases "c_queue_impl c") (auto simp: create_by_priority_def factory_simps)
qed

theorem create_scheduler_law: "factory_promise p c (create_scheduler p c n)"
  using fixed_promise[of p c n] periodic_promise[of p c n] priority_promise[of p c n] hybrid_promise[of p c n]
  by (auto simp: create_scheduler_def promise_refused)

end
