(* ===== verification/Checkpoint.thy ===== *)
theory Checkpoint
  imports Simulation_Bisim Simulation_Queries Scheduler_Factory
begin

text \<open>
  Checkpoints of a simulation (\<^verbatim>\<open>src/src/sim/sim.cpp\<close>, \<^verbatim>\<open>save_checkpoint_impl\<close>, \<^verbatim>\<open>load_checkpoint_impl\<close>), for
  the standard trace, a built-in scheduler and a build without Redis.  The byte format belongs to the archive
  library: an archive is the list of the scalars written to it, each with its type, and a read takes the
  next one.  The parameters, which a visitor archives member by member, are one item.  A scheduler is not archived: it is built
  anew from the identifiers of the pending jobs.  What a stream or a file system answers is an argument: the positions
  of the two output streams, and whether the output files of the interrupted run can be continued.
\<close>

section \<open>The archive\<close>

datatype ('g, 'r) scalar =
    Magic string
  | Config sim_params run_config
  | Flag bool
  | Count nat
  | Nodes num_nodes
  | Limit "32 word"
  | Real double
  | Seconds int
  | Event_Kind dr_event_kind
  | Overflow circular_overflow_policy
  | Queue nat
  | Text string
  | Engine 'r
  | Delay_Engine 'g

type_synonym ('t, 'a) reader = "'t list \<Rightarrow> exn + ('a \<times> 't list)"

definition rret :: "'a \<Rightarrow> ('t, 'a) reader" where
  "rret x a = Inr (x, a)"

definition rbind :: "('t, 'a) reader \<Rightarrow> ('a \<Rightarrow> ('t, 'b) reader) \<Rightarrow> ('t, 'b) reader" where
  "rbind r f a = (case r a of Inl e \<Rightarrow> Inl e | Inr (x, a) \<Rightarrow> f x a)"

definition require :: "bool \<Rightarrow> ('t, unit) reader" where
  "require c a = (if c then Inr ((), a) else Inl Runtime_Error)"

text \<open>The typed reads.  An exhausted archive is the library's exception, a runtime error.\<close>

fun get_magic :: "(('g, 'r) scalar, string) reader" where
  "get_magic (Magic x # a) = Inr (x, a)" | "get_magic _ = Inl Runtime_Error"

fun get_config :: "(('g, 'r) scalar, sim_params \<times> run_config) reader" where
  "get_config (Config p c # a) = Inr ((p, c), a)" | "get_config _ = Inl Runtime_Error"

fun get_flag :: "(('g, 'r) scalar, bool) reader" where
  "get_flag (Flag x # a) = Inr (x, a)" | "get_flag _ = Inl Runtime_Error"

fun get_nat :: "(('g, 'r) scalar, nat) reader" where
  "get_nat (Count x # a) = Inr (x, a)" | "get_nat _ = Inl Runtime_Error"

fun get_nodes :: "(('g, 'r) scalar, num_nodes) reader" where
  "get_nodes (Nodes x # a) = Inr (x, a)" | "get_nodes _ = Inl Runtime_Error"

fun get_limit :: "(('g, 'r) scalar, 32 word) reader" where
  "get_limit (Limit x # a) = Inr (x, a)" | "get_limit _ = Inl Runtime_Error"

fun get_real :: "(('g, 'r) scalar, double) reader" where
  "get_real (Real x # a) = Inr (x, a)" | "get_real _ = Inl Runtime_Error"

fun get_seconds :: "(('g, 'r) scalar, int) reader" where
  "get_seconds (Seconds x # a) = Inr (x, a)" | "get_seconds _ = Inl Runtime_Error"

fun get_kind :: "(('g, 'r) scalar, dr_event_kind) reader" where
  "get_kind (Event_Kind x # a) = Inr (x, a)" | "get_kind _ = Inl Runtime_Error"

fun get_overflow :: "(('g, 'r) scalar, circular_overflow_policy) reader" where
  "get_overflow (Overflow x # a) = Inr (x, a)" | "get_overflow _ = Inl Runtime_Error"

fun get_queue :: "(('g, 'r) scalar, nat) reader" where
  "get_queue (Queue x # a) = Inr (x, a)" | "get_queue _ = Inl Runtime_Error"

fun get_text :: "(('g, 'r) scalar, string) reader" where
  "get_text (Text x # a) = Inr (x, a)" | "get_text _ = Inl Runtime_Error"

fun get_engine :: "(('g, 'r) scalar, 'r) reader" where
  "get_engine (Engine x # a) = Inr (x, a)" | "get_engine _ = Inl Runtime_Error"

fun get_delay_engine :: "(('g, 'r) scalar, 'g) reader" where
  "get_delay_engine (Delay_Engine x # a) = Inr (x, a)" | "get_delay_engine _ = Inl Runtime_Error"

definition checkpoint_collection_limit :: nat where
  "checkpoint_collection_limit = 100000000"

definition checkpoint_magic :: string where
  "checkpoint_magic = ''DREVTCKP''"

definition checkpoint_version :: nat where
  "checkpoint_version = 18"

text \<open>\<^verbatim>\<open>CheckpointReader::count\<close> and a collection behind its count.\<close>

definition get_count :: "(('g, 'r) scalar, nat) reader" where
  "get_count = rbind get_nat (\<lambda>n. rbind (require (n \<le> checkpoint_collection_limit)) (\<lambda>_. rret n))"

fun read_many :: "nat \<Rightarrow> ('t, 'a) reader \<Rightarrow> ('t, 'a list) reader" where
  "read_many 0 r = rret []"
| "read_many (Suc n) r = rbind r (\<lambda>x. rbind (read_many n r) (\<lambda>xs. rret (x # xs)))"

definition write_list :: "('a \<Rightarrow> ('g, 'r) scalar list) \<Rightarrow> 'a list \<Rightarrow> ('g, 'r) scalar list" where
  "write_list w xs = Count (length xs) # concat (map w xs)"

definition read_list :: "(('g, 'r) scalar, 'a) reader \<Rightarrow> (('g, 'r) scalar, 'a list) reader" where
  "read_list r = rbind get_count (\<lambda>n. read_many n r)"

named_theorems archive_simps \<open>reading back what was written\<close>

lemma rbind_simps [simp]:
  "rbind r f a = (case r a of Inl e \<Rightarrow> Inl e | Inr (x, a) \<Rightarrow> f x a)" "rret x a = Inr (x, a)"
  "require True a = Inr ((), a)" "require False a = Inl Runtime_Error"
  by (simp_all add: rbind_def rret_def require_def)

lemma get_count_written [archive_simps]: "n \<le> checkpoint_collection_limit \<Longrightarrow> get_count (Count n # a) = Inr (n, a)"
  by (simp add: get_count_def)

lemma read_many_written:
  "(\<And>x a. x \<in> set xs \<Longrightarrow> r (w x @ a) = Inr (g x, a)) \<Longrightarrow> read_many (length xs) r (concat (map w xs) @ a) = Inr (map g xs, a)"
  by (induction xs arbitrary: a) simp_all

lemma read_list_written [archive_simps]:
  assumes "\<And>x a. x \<in> set xs \<Longrightarrow> r (w x @ a) = Inr (x, a)" "length xs \<le> checkpoint_collection_limit"
  shows "read_list r (write_list w xs @ a) = Inr (xs, a)"
  using read_many_written[of xs r w "\<lambda>x. x"] assms by (simp add: read_list_def write_list_def get_count_written)

section \<open>Sequences of member reads\<close>

text \<open>A member is read and assigned; a group of members is read in the order of the list.\<close>

definition field :: "('t, 'v) reader \<Rightarrow> ('v \<Rightarrow> 'a \<Rightarrow> 'a) \<Rightarrow> 'a \<Rightarrow> ('t, 'a) reader" where
  "field r upd x = rbind r (\<lambda>v. rret (upd v x))"

fun read_seq :: "('a \<Rightarrow> ('t, 'a) reader) list \<Rightarrow> 'a \<Rightarrow> ('t, 'a) reader" where
  "read_seq [] x = rret x"
| "read_seq (f # fs) x = rbind (f x) (read_seq fs)"

lemma field_simp [simp]: "field r upd x a = (case r a of Inl e \<Rightarrow> Inl e | Inr (v, a) \<Rightarrow> Inr (upd v x, a))"
  by (simp add: field_def split: sum.split)

section \<open>The simulation with its restart state\<close>

record dat_context =
  dat_pAll_cnt :: nat
  dat_start :: epoch
  dat_end :: epoch
  dat_span :: tdiff
  dat_prev_job_q :: nat
  dat_reserved :: "(epoch \<times> epoch) list"

record ('g, 'r) checkpointed =
  cp_sim :: "(any_scheduler, 'g) simulation"
  cp_config :: run_config
  cp_rng :: 'r
  cp_restored_params :: "(sim_params \<times> run_config) option"
  cp_next_progressive_file :: nat
  cp_checkpoint_loaded :: bool
  cp_last_automatic_checkpoint_jobs :: nat
  cp_has_automatic_checkpoint :: bool
  cp_last_automatic_checkpoint_time :: sim_time
  cp_pre_start_jobs :: nat
  cp_warm_resource_area :: tdiff
  cp_warm_resource_end :: sim_time
  cp_event_queue :: "dr_event list"
  cp_dat :: dat_context
  cp_resource_trace_total_nodes :: num_nodes
  cp_resource_trace_msec :: bool
  cp_simulated_trace_msec :: bool

record checkpoint_env =
  ce_record_size :: nat
  ce_job_position :: "nat option"
  ce_resource_position :: "nat option"
  ce_job_segment :: "nat \<Rightarrow> bool"
  ce_resource_segment :: "nat \<Rightarrow> bool"

definition checkpoint_trace_kind :: nat where
  "checkpoint_trace_kind = 0"

definition checkpoint_output_bytes :: "nat option \<Rightarrow> exn + nat" where
  "checkpoint_output_bytes position = (case position of None \<Rightarrow> Inl Runtime_Error | Some n \<Rightarrow> Inr n)"

section \<open>Saving\<close>

definition write_epoch :: "epoch \<Rightarrow> ('g, 'r) scalar list" where
  "write_epoch t = [Seconds (fst t), Real (snd t)]"

definition write_change :: "capacity_change \<Rightarrow> ('g, 'r) scalar list" where
  "write_change c = [Real (cc_time c), Nodes (cc_total_nodes c)]"

definition write_header :: "checkpoint_env \<Rightarrow> ('g, 'r) checkpointed \<Rightarrow> ('g, 'r) scalar list" where
  "write_header env cp = [Magic checkpoint_magic, Count checkpoint_version, Count checkpoint_trace_kind, Count (ce_record_size env),
     Config (m_params (cp_sim cp)) (cp_config cp), Flag False] @ write_list write_change (m_capacity_changes (cp_sim cp))"

definition write_clock :: "('s, 'g) simulation \<Rightarrow> ('g, 'r) scalar list" where
  "write_clock s = [Real (m_current_time s), Real (m_next_backfill_evaluation s), Flag (m_periodic_backfill_dirty s),
     Nodes (m_job_rejection_capacity s), Count (m_next_capacity_change s), Nodes (m_current_capacity s), Real (m_capacity_area s),
     Real (m_capacity_area_time s), Count (m_jobs_completed s), Count (m_jobs_submitted s), Count (m_jobs_started s),
     Real (m_latest_submit_time s)]"

definition write_progress :: "('g, 'r) checkpointed \<Rightarrow> ('g, 'r) scalar list" where
  "write_progress cp = [Count (cp_next_progressive_file cp), Count (cp_last_automatic_checkpoint_jobs cp),
     Flag (cp_has_automatic_checkpoint cp), Real (cp_last_automatic_checkpoint_time cp), Count (cp_pre_start_jobs cp),
     Real (cp_warm_resource_area cp), Real (cp_warm_resource_end cp)]"

definition write_query :: "query_record \<Rightarrow> ('g, 'r) scalar list" where
  "write_query q = [Real (qr_submit_time q), Real (qr_limit_time q), Nodes (qr_num_nodes q), Real (qr_start_time q),
     Real (qr_end_time q), Flag (qr_tracked q), Flag (qr_scheduled q), Flag (qr_rejected q)]"

definition write_statistics :: "('s, 'g) simulation \<Rightarrow> ('g, 'r) scalar list" where
  "write_statistics s = [Count (unat (m_jobs_releasing s)), Count (m_queue_length_sum s), Count (m_queue_length_samples s),
     Count (m_queue_length_peak s), Count (m_first_appended_job_idx s)] @ write_list write_query (m_appended_job_query_records s)"

definition write_pending :: "any_scheduler \<Rightarrow> ('g, 'r) scalar list" where
  "write_pending sc = Real (m_fcfs_reservation_time (any_base sc)) # write_list (\<lambda>i. [Count i]) (sort (any_pending_job_ids sc))"

definition write_running :: "job_no \<times> running_job \<Rightarrow> ('g, 'r) scalar list" where
  "write_running r = [Count (fst r), Real (rj_start_time (snd r)), Real (rj_run_time (snd r)), Nodes (rj_nodes (snd r))]"

definition write_arrivals :: "sim_time \<times> nat \<Rightarrow> ('g, 'r) scalar list" where
  "write_arrivals r = [Real (fst r), Count (snd r)]"

definition write_event :: "dr_event \<Rightarrow> ('g, 'r) scalar list" where
  "write_event e = [Count (ev_job e), Real (ev_time e), Event_Kind (ev_kind e), Nodes (ev_nodes e)]"

definition write_store :: "'g trace \<Rightarrow> ('g, 'r) scalar list" where
  "write_store tr = [Count (m_num_reclaimed tr), Count (m_job_store_capacity tr), Flag (m_job_store_capacity_resolved tr),
     Overflow (m_job_store_overflow tr), Count (m_job_flush_interval tr), Count (m_departures_since_job_flush tr),
     Count (m_replay_jobs_enqueued tr), Real (m_memory_pressure_fraction tr), Flag (m_has_loaded_a_file tr)] @
     write_epoch (m_last_loaded_submit_time tr) @
     [Count (m_completed_count tr), Real (m_wait_time_sum tr), Real (m_turnaround_time_sum tr), Real (m_makespan tr),
      Count (m_next_job_to_write tr)]"

definition write_job :: "job_record \<Rightarrow> ('g, 'r) scalar list" where
  "write_job j = write_epoch (m_t_begin j) @ write_epoch (m_t_end j) @ write_epoch (m_t_submit j) @
     [Limit (m_t_limit j), Real (m_actual_run_time j), Nodes (m_num_nodes j), Queue (m_q j), Flag (m_is_simulated j),
      Flag (m_dat j), Nodes (m_busy_nodes j)]"

definition write_dat :: "dat_context \<Rightarrow> ('g, 'r) scalar list" where
  "write_dat d = [Count (dat_pAll_cnt d)] @ write_epoch (dat_start d) @ write_epoch (dat_end d) @
     [Real (dat_span d), Queue (dat_prev_job_q d)] @ write_list (\<lambda>x. write_epoch (fst x) @ write_epoch (snd x)) (dat_reserved d)"

definition write_sample :: "resource_sample \<Rightarrow> ('g, 'r) scalar list" where
  "write_sample r = [Real (rs_time r), Nodes (rs_allocated r), Nodes (rs_capacity r), Nodes (rs_releasing r)]"

definition write_history :: "'g trace \<Rightarrow> ('g, 'r) scalar list" where
  "write_history tr = [Count (m_resource_history_capacity tr), Flag (m_resource_history_capacity_resolved tr),
     Count (m_history_capacity tr)] @ write_list write_sample (m_resource_history tr)"

text \<open>Without a baseline the sample written is the member as it was constructed; nothing reads it.\<close>

definition write_recording :: "('g, 'r) checkpointed \<Rightarrow> ('g, 'r) scalar list" where
  "write_recording cp = (let tr = m_trace (cp_sim cp) in
     [Nodes (cp_resource_trace_total_nodes cp), Nodes (m_resource_trace_current_capacity tr), Flag (m_resource_capacity_initialized tr),
      Real (m_resource_recording_start tr)] @
     write_sample (case m_resource_recording_baseline tr of
       None \<Rightarrow> \<lparr>rs_time = 0, rs_allocated = 0, rs_capacity = 0, rs_releasing = 0\<rparr> | Some r \<Rightarrow> r) @
     [Flag (m_resource_recording_baseline tr \<noteq> None), Flag (cp_resource_trace_msec cp), Flag (cp_simulated_trace_msec cp)])"

text \<open>The output part; without Redis its boundary is empty.\<close>

definition write_outputs :: "bool \<Rightarrow> bool \<Rightarrow> nat \<Rightarrow> nat \<Rightarrow> ('g, 'r) scalar list" where
  "write_outputs job_open resource_open job_bytes resource_bytes =
     [Flag job_open, Flag resource_open, Count job_bytes, Count resource_bytes, Flag False, Count 0, Count 0, Count 0, Flag False,
      Count 0]"

definition write_checkpoint :: "checkpoint_env \<Rightarrow> bool \<Rightarrow> bool \<Rightarrow> nat \<Rightarrow> nat \<Rightarrow> ('g, 'r) checkpointed \<Rightarrow> ('g, 'r) scalar list" where
  "write_checkpoint env job_open resource_open job_bytes resource_bytes cp =
     (let s = cp_sim cp; tr = m_trace s in
      write_header env cp @ write_clock s @ write_progress cp @ write_statistics s @ write_pending (m_scheduler s) @
      write_list write_running (m_running_jobs s) @ write_list write_arrivals (m_pending_queue_arrivals s) @
      write_list write_event (cp_event_queue cp) @ [Engine (cp_rng cp), Delay_Engine (rd_rng (m_release_delay tr))] @
      write_store tr @ [Count (m_data_capacity tr)] @ write_list write_job (m_data tr) @ write_dat (cp_dat cp) @
      [Nodes (m_n_nodes_in_use tr), Nodes (m_n_nodes_releasing tr)] @ write_list write_event (m_evtq tr) @
      write_history tr @ write_recording cp @ write_outputs job_open resource_open job_bytes resource_bytes)"

definition set_trace :: "'g trace \<Rightarrow> ('g, 'r) checkpointed \<Rightarrow> ('g, 'r) checkpointed" where
  "set_trace tr cp = cp\<lparr>cp_sim := (cp_sim cp)\<lparr>m_trace := tr\<rparr>\<rparr>"

definition save_checkpoint_impl ::
  "checkpoint_env \<Rightarrow> bool \<Rightarrow> ('g, 'r) checkpointed \<Rightarrow> exn + (('g, 'r) scalar list \<times> ('g, 'r) checkpointed)" where
  "save_checkpoint_impl env preserve_outputs cp =
     (let tr = m_trace (cp_sim cp) in
      if cp_pre_start_jobs cp \<noteq> 0 then Inl Logic_Error
      else if m_trace_mode tr \<noteq> SIMULATION then Inl Logic_Error
      else let redis_output = preserve_outputs \<and> c_redis_uri (cp_config cp) \<noteq> [];
               job_open = preserve_outputs \<and> m_simulated_trace_ofs tr \<noteq> None;
               resource_open = preserve_outputs \<and> m_resource_trace_ofs tr \<noteq> None;
               tr = (if preserve_outputs then flush_simulated_trace_buffer tr else tr);
               tr = (if preserve_outputs \<and> resource_open then flush_resource_history tr else tr);
               cp = set_trace tr cp
      in case (if job_open \<and> \<not> redis_output then checkpoint_output_bytes (ce_job_position env) else Inr 0) of
           Inl e \<Rightarrow> Inl e
         | Inr job_bytes \<Rightarrow>
             (case (if resource_open \<and> \<not> redis_output then checkpoint_output_bytes (ce_resource_position env) else Inr 0) of
                Inl e \<Rightarrow> Inl e
              | Inr resource_bytes \<Rightarrow>
                  if redis_output then Inl Logic_Error
                  else Inr (write_checkpoint env job_open resource_open job_bytes resource_bytes cp, cp)))"

section \<open>Loading\<close>

definition read_epoch :: "(('g, 'r) scalar, epoch) reader" where
  "read_epoch = rbind get_seconds (\<lambda>n. rbind get_real (\<lambda>f. rret (n, f)))"

text \<open>The comparisons of the recorded configuration with that of the simulation; each mismatch is a runtime error.\<close>

definition same_schedule_parameters :: "sim_params \<Rightarrow> sim_params \<Rightarrow> bool" where
  "same_schedule_parameters r p \<longleftrightarrow> p_total_nodes r = p_total_nodes p \<and> p_backfill_policy r = p_backfill_policy p \<and>
     p_run_time_mode r = p_run_time_mode p \<and> p_run_time_distribution r = p_run_time_distribution p \<and>
     p_run_time_scale r = p_run_time_scale p \<and> p_run_time_stddev r = p_run_time_stddev p \<and>
     p_planning_horizon r = p_planning_horizon p \<and> p_reservation_depth r = p_reservation_depth p \<and>
     p_dispatch_on_events r = p_dispatch_on_events p \<and> p_dispatch_interval r = p_dispatch_interval p \<and>
     p_backfill_interval r = p_backfill_interval p \<and> p_planning_time_resolution r = p_planning_time_resolution p \<and>
     p_node_release_delay r = p_node_release_delay p \<and> p_node_release_delay_model r = p_node_release_delay_model p \<and>
     p_node_release_delay_spread r = p_node_release_delay_spread p \<and> p_checkpoint_interval_jobs r = p_checkpoint_interval_jobs p"

definition same_run_config :: "run_config \<Rightarrow> run_config \<Rightarrow> bool" where
  "same_run_config r c \<longleftrightarrow> c_priority_policy r = c_priority_policy c \<and> c_queue_impl r = c_queue_impl c \<and>
     c_block_size r = c_block_size c \<and> c_num_max_candidates r = c_num_max_candidates c \<and>
     c_wait_queue_capacity r = c_wait_queue_capacity c \<and> c_wait_queue_overflow r = c_wait_queue_overflow c \<and>
     c_backfill_queue_depth r = c_backfill_queue_depth c \<and> c_dispatch_queue_depth r = c_dispatch_queue_depth c \<and>
     c_outfile r = c_outfile c \<and> c_resource_trace r = c_resource_trace c \<and> c_redis_uri r = c_redis_uri c \<and>
     c_redis_key_prefix r = c_redis_key_prefix c \<and> c_msec_output r = c_msec_output c \<and>
     c_cores_per_node r = c_cores_per_node c \<and> c_infile_list_parsed r = c_infile_list_parsed c"

fun read_changes :: "capacity_change list \<Rightarrow> (('g, 'r) scalar, unit) reader" where
  "read_changes [] = rret ()"
| "read_changes (c # cs) =
     rbind get_real (\<lambda>t. rbind (require (t = cc_time c)) (\<lambda>_.
     rbind get_nodes (\<lambda>n. rbind (require (n = cc_total_nodes c)) (\<lambda>_. read_changes cs))))"

definition read_header :: "checkpoint_env \<Rightarrow> ('g, 'r) checkpointed \<Rightarrow> (('g, 'r) scalar, ('g, 'r) checkpointed) reader" where
  "read_header env cp =
     rbind get_magic (\<lambda>m. rbind (require (m = checkpoint_magic)) (\<lambda>_.
     rbind get_nat (\<lambda>v. rbind (require (v = checkpoint_version)) (\<lambda>_.
     rbind get_nat (\<lambda>k. rbind (require (k = checkpoint_trace_kind)) (\<lambda>_.
     rbind get_nat (\<lambda>w. rbind (require (w = ce_record_size env)) (\<lambda>_.
     rbind get_config (\<lambda>(p, c).
     rbind (require (same_schedule_parameters p (m_params (cp_sim cp)) \<and> same_run_config c (cp_config cp))) (\<lambda>_.
     rbind get_flag (\<lambda>custom. rbind (require (\<not> custom)) (\<lambda>_.
     rbind get_count (\<lambda>n. rbind (require (n = length (m_capacity_changes (cp_sim cp)))) (\<lambda>_.
     rbind (read_changes (m_capacity_changes (cp_sim cp))) (\<lambda>_.
     rret (set_trace ((m_trace (cp_sim cp))\<lparr>m_simulated_trace_ofs := None, m_resource_trace_ofs := None\<rparr>)
             (cp\<lparr>cp_restored_params := Some (p, c)\<rparr>)))))))))))))))))"

definition read_clock :: "('s, 'g) simulation \<Rightarrow> (('g, 'r) scalar, ('s, 'g) simulation) reader" where
  "read_clock = read_seq [
     field get_real (\<lambda>x s. s\<lparr>m_current_time := x\<rparr>),
     field get_real (\<lambda>x s. s\<lparr>m_next_backfill_evaluation := x\<rparr>),
     field get_flag (\<lambda>x s. s\<lparr>m_periodic_backfill_dirty := x\<rparr>),
     field get_nodes (\<lambda>x s. s\<lparr>m_job_rejection_capacity := x\<rparr>),
     field get_nat (\<lambda>x s. s\<lparr>m_next_capacity_change := x\<rparr>),
     field get_nodes (\<lambda>x s. s\<lparr>m_current_capacity := x\<rparr>),
     field get_real (\<lambda>x s. s\<lparr>m_capacity_area := x\<rparr>),
     field get_real (\<lambda>x s. s\<lparr>m_capacity_area_time := x\<rparr>),
     field get_nat (\<lambda>x s. s\<lparr>m_jobs_completed := x\<rparr>),
     field get_nat (\<lambda>x s. s\<lparr>m_jobs_submitted := x\<rparr>),
     field get_nat (\<lambda>x s. s\<lparr>m_jobs_started := x\<rparr>),
     field get_real (\<lambda>x s. s\<lparr>m_latest_submit_time := x\<rparr>)]"

definition read_progress :: "('g, 'r) checkpointed \<Rightarrow> (('g, 'r) scalar, ('g, 'r) checkpointed) reader" where
  "read_progress = read_seq [
     field get_count (\<lambda>x cp. cp\<lparr>cp_next_progressive_file := x\<rparr>),
     (\<lambda>cp. rbind (require (cp_next_progressive_file cp \<le> length (c_infile_list_parsed (cp_config cp)))) (\<lambda>_. rret cp)),
     field get_nat (\<lambda>x cp. cp\<lparr>cp_last_automatic_checkpoint_jobs := x\<rparr>),
     field get_flag (\<lambda>x cp. cp\<lparr>cp_has_automatic_checkpoint := x\<rparr>),
     field get_real (\<lambda>x cp. cp\<lparr>cp_last_automatic_checkpoint_time := x, cp_checkpoint_loaded := True\<rparr>),
     field get_nat (\<lambda>x cp. cp\<lparr>cp_pre_start_jobs := x\<rparr>),
     field get_real (\<lambda>x cp. cp\<lparr>cp_warm_resource_area := x\<rparr>),
     field get_real (\<lambda>x cp. cp\<lparr>cp_warm_resource_end := x\<rparr>)]"

definition new_query_record :: query_record where
  "new_query_record = \<lparr>qr_submit_time = 0, qr_limit_time = 0, qr_num_nodes = 0, qr_start_time = 0, qr_end_time = 0,
     qr_tracked = False, qr_scheduled = False, qr_rejected = False\<rparr>"

definition read_query :: "(('g, 'r) scalar, query_record) reader" where
  "read_query = read_seq [
     field get_real (\<lambda>x q. q\<lparr>qr_submit_time := x\<rparr>),
     field get_real (\<lambda>x q. q\<lparr>qr_limit_time := x\<rparr>),
     field get_nodes (\<lambda>x q. q\<lparr>qr_num_nodes := x\<rparr>),
     field get_real (\<lambda>x q. q\<lparr>qr_start_time := x\<rparr>),
     field get_real (\<lambda>x q. q\<lparr>qr_end_time := x\<rparr>),
     field get_flag (\<lambda>x q. q\<lparr>qr_tracked := x\<rparr>),
     field get_flag (\<lambda>x q. q\<lparr>qr_scheduled := x\<rparr>),
     field get_flag (\<lambda>x q. q\<lparr>qr_rejected := x\<rparr>)] new_query_record"

definition read_statistics :: "('s, 'g) simulation \<Rightarrow> (('g, 'r) scalar, ('s, 'g) simulation) reader" where
  "read_statistics = read_seq [
     field get_count (\<lambda>x s. s\<lparr>m_jobs_releasing := of_nat x\<rparr>),
     field get_nat (\<lambda>x s. s\<lparr>m_queue_length_sum := x\<rparr>),
     field get_nat (\<lambda>x s. s\<lparr>m_queue_length_samples := x\<rparr>),
     field get_nat (\<lambda>x s. s\<lparr>m_queue_length_peak := x\<rparr>),
     field get_nat (\<lambda>x s. s\<lparr>m_first_appended_job_idx := x\<rparr>),
     field (read_list read_query) (\<lambda>x s. s\<lparr>m_appended_job_query_records := x\<rparr>)]"

fun adjacent_equal :: "job_no list \<Rightarrow> bool" where
  "adjacent_equal (x # y # xs) \<longleftrightarrow> x = y \<or> adjacent_equal (y # xs)"
| "adjacent_equal _ \<longleftrightarrow> False"

definition read_pending :: "(('g, 'r) scalar, sim_time \<times> job_no list) reader" where
  "read_pending =
     rbind get_real (\<lambda>reservation_time. rbind (read_list get_nat) (\<lambda>ids.
     rbind (require (\<not> adjacent_equal (sort ids))) (\<lambda>_. rret (reservation_time, sort ids))))"

text \<open>\<^verbatim>\<open>emplace\<close> into a map, for each entry read.\<close>

definition emplace_all :: "('k \<times> 'v) list \<Rightarrow> ('k \<times> 'v) list" where
  "emplace_all es = fold (\<lambda>e m. if fst e \<in> fst ` set m then m else m @ [e]) es []"

definition read_running :: "(('g, 'r) scalar, job_no \<times> running_job) reader" where
  "read_running =
     rbind get_nat (\<lambda>i. rbind get_real (\<lambda>t. rbind get_real (\<lambda>r. rbind get_nodes (\<lambda>n.
     rret (i, \<lparr>rj_start_time = t, rj_run_time = r, rj_nodes = n\<rparr>)))))"

definition read_arrivals :: "(('g, 'r) scalar, sim_time \<times> nat) reader" where
  "read_arrivals = rbind get_real (\<lambda>t. rbind get_nat (\<lambda>n. rret (t, n)))"

definition read_event :: "(('g, 'r) scalar, dr_event) reader" where
  "read_event =
     rbind get_nat (\<lambda>i. rbind get_real (\<lambda>t. rbind get_kind (\<lambda>k. rbind get_nodes (\<lambda>n.
     rret (if k = Release then release_event i t n else job_event i t k)))))"

definition insert_events :: "dr_event list \<Rightarrow> dr_event list" where
  "insert_events es = fold evtq_insert es []"

definition read_maps :: "(any_scheduler, 'g) simulation \<Rightarrow> (('g, 'r) scalar, (any_scheduler, 'g) simulation) reader" where
  "read_maps = read_seq [
     field (read_list read_running) (\<lambda>x s. s\<lparr>m_running_jobs := emplace_all x\<rparr>),
     field (read_list read_arrivals) (\<lambda>x s. s\<lparr>m_pending_queue_arrivals := emplace_all x\<rparr>)]"

definition read_engines :: "('g, 'r) checkpointed \<Rightarrow> (('g, 'r) scalar, ('g, 'r) checkpointed) reader" where
  "read_engines = read_seq [
     field (read_list read_event) (\<lambda>x cp. cp\<lparr>cp_event_queue := insert_events x\<rparr>),
     field get_engine (\<lambda>x cp. cp\<lparr>cp_rng := x\<rparr>),
     field get_delay_engine (\<lambda>x cp. let tr = m_trace (cp_sim cp) in
       set_trace (tr\<lparr>m_release_delay := (m_release_delay tr)\<lparr>rd_rng := x\<rparr>\<rparr>) cp)]"

definition read_store :: "'g trace \<Rightarrow> (('g, 'r) scalar, 'g trace) reader" where
  "read_store = read_seq [
     field get_nat (\<lambda>x tr. tr\<lparr>m_num_reclaimed := x\<rparr>),
     field get_nat (\<lambda>x tr. tr\<lparr>m_job_store_capacity := x\<rparr>),
     field get_flag (\<lambda>x tr. tr\<lparr>m_job_store_capacity_resolved := x\<rparr>),
     field get_overflow (\<lambda>x tr. tr\<lparr>m_job_store_overflow := x\<rparr>),
     field get_nat (\<lambda>x tr. tr\<lparr>m_job_flush_interval := x\<rparr>),
     field get_nat (\<lambda>x tr. tr\<lparr>m_departures_since_job_flush := x\<rparr>),
     field get_nat (\<lambda>x tr. tr\<lparr>m_replay_jobs_enqueued := x\<rparr>),
     field get_real (\<lambda>x tr. tr\<lparr>m_memory_pressure_fraction := x\<rparr>),
     field get_flag (\<lambda>x tr. tr\<lparr>m_has_loaded_a_file := x\<rparr>),
     field read_epoch (\<lambda>x tr. tr\<lparr>m_last_loaded_submit_time := x\<rparr>),
     field get_nat (\<lambda>x tr. tr\<lparr>m_completed_count := x\<rparr>),
     field get_real (\<lambda>x tr. tr\<lparr>m_wait_time_sum := x\<rparr>),
     field get_real (\<lambda>x tr. tr\<lparr>m_turnaround_time_sum := x\<rparr>),
     field get_real (\<lambda>x tr. tr\<lparr>m_makespan := x\<rparr>),
     field get_nat (\<lambda>x tr. tr\<lparr>m_next_job_to_write := x\<rparr>)]"

definition read_job :: "(('g, 'r) scalar, job_record) reader" where
  "read_job =
     rbind read_epoch (\<lambda>b. rbind read_epoch (\<lambda>e. rbind read_epoch (\<lambda>submit. rbind get_limit (\<lambda>limit. rbind get_real (\<lambda>actual.
     rbind get_nodes (\<lambda>nodes. rbind get_queue (\<lambda>queue. rbind get_flag (\<lambda>simulated. rbind get_flag (\<lambda>dat. rbind get_nodes (\<lambda>busy.
     rret ((new_job_record submit nodes queue limit)\<lparr>m_t_begin := b, m_t_end := e, m_actual_run_time := actual,
             m_is_simulated := simulated, m_dat := dat, m_busy_nodes := busy\<rparr>)))))))))))"

text \<open>A bounded collection behind its capacity: the job store and the resource history.\<close>

definition read_bounded :: "(('g, 'r) scalar, 'v) reader \<Rightarrow> (('g, 'r) scalar, nat \<times> 'v list) reader" where
  "read_bounded r = rbind get_count (\<lambda>w. rbind get_count (\<lambda>n. rbind (require (n \<le> w)) (\<lambda>_.
     rbind (read_many n r) (\<lambda>xs. rret (w, xs)))))"

definition resident :: "'g trace \<Rightarrow> job_no \<Rightarrow> bool" where
  "resident tr i \<longleftrightarrow> m_num_reclaimed tr \<le> i \<and> i - m_num_reclaimed tr < length (m_data tr)"

definition read_jobs :: "(any_scheduler, 'g) simulation \<Rightarrow> (('g, 'r) scalar, (any_scheduler, 'g) simulation) reader" where
  "read_jobs = read_seq [
     field (read_bounded read_job) (\<lambda>x s. s\<lparr>m_trace := (m_trace s)\<lparr>m_data_capacity := fst x, m_data := snd x\<rparr>\<rparr>),
     (\<lambda>s. rbind (require (\<forall>r\<in>set (m_running_jobs s). resident (m_trace s) (fst r))) (\<lambda>_. rret s))]"

definition read_dat :: "dat_context \<Rightarrow> (('g, 'r) scalar, dat_context) reader" where
  "read_dat = read_seq [
     field get_nat (\<lambda>x d. d\<lparr>dat_pAll_cnt := x\<rparr>),
     field read_epoch (\<lambda>x d. d\<lparr>dat_start := x\<rparr>),
     field read_epoch (\<lambda>x d. d\<lparr>dat_end := x\<rparr>),
     field get_real (\<lambda>x d. d\<lparr>dat_span := x\<rparr>),
     field get_queue (\<lambda>x d. d\<lparr>dat_prev_job_q := x\<rparr>),
     field (read_list (rbind read_epoch (\<lambda>b. rbind read_epoch (\<lambda>e. rret (b, e))))) (\<lambda>x d. d\<lparr>dat_reserved := x\<rparr>)]"

definition read_sample :: "(('g, 'r) scalar, resource_sample) reader" where
  "read_sample =
     rbind get_real (\<lambda>t. rbind get_nodes (\<lambda>a. rbind get_nodes (\<lambda>c. rbind get_nodes (\<lambda>r.
     rret \<lparr>rs_time = t, rs_allocated = a, rs_capacity = c, rs_releasing = r\<rparr>))))"

definition read_events_and_history :: "'g trace \<Rightarrow> (('g, 'r) scalar, 'g trace) reader" where
  "read_events_and_history = read_seq [
     field get_nodes (\<lambda>x tr. tr\<lparr>m_n_nodes_in_use := x\<rparr>),
     field get_nodes (\<lambda>x tr. tr\<lparr>m_n_nodes_releasing := x\<rparr>),
     field (read_list read_event) (\<lambda>x tr. tr\<lparr>m_evtq := insert_events x\<rparr>),
     field get_nat (\<lambda>x tr. tr\<lparr>m_resource_history_capacity := x\<rparr>),
     field get_flag (\<lambda>x tr. tr\<lparr>m_resource_history_capacity_resolved := x\<rparr>),
     field (read_bounded read_sample) (\<lambda>x tr. tr\<lparr>m_history_capacity := fst x, m_resource_history := snd x\<rparr>)]"

definition read_recording :: "('g, 'r) checkpointed \<Rightarrow> (('g, 'r) scalar, ('g, 'r) checkpointed) reader" where
  "read_recording = read_seq [
     field get_nodes (\<lambda>x cp. cp\<lparr>cp_resource_trace_total_nodes := x\<rparr>),
     field get_nodes (\<lambda>x cp. set_trace ((m_trace (cp_sim cp))\<lparr>m_resource_trace_current_capacity := x\<rparr>) cp),
     field get_flag (\<lambda>x cp. set_trace ((m_trace (cp_sim cp))\<lparr>m_resource_capacity_initialized := x\<rparr>) cp),
     field get_real (\<lambda>x cp. set_trace ((m_trace (cp_sim cp))\<lparr>m_resource_recording_start := x\<rparr>) cp),
     field (rbind read_sample (\<lambda>x. rbind get_flag (\<lambda>has. rret (if has then Some x else None))))
       (\<lambda>x cp. set_trace ((m_trace (cp_sim cp))\<lparr>m_resource_recording_baseline := x\<rparr>) cp),
     field get_flag (\<lambda>x cp. cp\<lparr>cp_resource_trace_msec := x\<rparr>),
     field get_flag (\<lambda>x cp. cp\<lparr>cp_simulated_trace_msec := x\<rparr>)]"

text \<open>The flags and positions of the output, and the Redis boundary, of which only the flag is used here.\<close>

definition read_outputs :: "(('g, 'r) scalar, bool \<times> bool \<times> nat \<times> nat \<times> bool) reader" where
  "read_outputs =
     rbind get_flag (\<lambda>job_open. rbind get_flag (\<lambda>resource_open. rbind get_nat (\<lambda>job_bytes. rbind get_nat (\<lambda>resource_bytes.
     rbind get_flag (\<lambda>redis. rbind get_nat (\<lambda>_. rbind get_nat (\<lambda>_. rbind get_nat (\<lambda>_. rbind get_flag (\<lambda>_.
     rbind (read_list get_text) (\<lambda>_. rret (job_open, resource_open, job_bytes, resource_bytes, redis)))))))))))"

definition lift_sim ::
  "((any_scheduler, 'g) simulation \<Rightarrow> ('t, (any_scheduler, 'g) simulation) reader) \<Rightarrow> ('g, 'r) checkpointed \<Rightarrow> ('t, ('g, 'r) checkpointed) reader" where
  "lift_sim r cp = rbind (r (cp_sim cp)) (\<lambda>s. rret (cp\<lparr>cp_sim := s\<rparr>))"

definition lift_trace ::
  "('g trace \<Rightarrow> ('t, 'g trace) reader) \<Rightarrow> ('g, 'r) checkpointed \<Rightarrow> ('t, ('g, 'r) checkpointed) reader" where
  "lift_trace r cp = rbind (r (m_trace (cp_sim cp))) (\<lambda>tr. rret (set_trace tr cp))"

text \<open>The reads before and after the pending identifiers, and all of them; the buffered output lines are dropped.\<close>

definition read_before :: "checkpoint_env \<Rightarrow> ('g, 'r) checkpointed \<Rightarrow> (('g, 'r) scalar, ('g, 'r) checkpointed) reader" where
  "read_before env = read_seq [read_header env, lift_sim read_clock, read_progress, lift_sim read_statistics]"

definition read_after :: "('g, 'r) checkpointed \<Rightarrow> (('g, 'r) scalar, ('g, 'r) checkpointed) reader" where
  "read_after = read_seq [lift_sim read_maps, read_engines, lift_trace read_store, lift_sim read_jobs,
     (\<lambda>cp. rbind (read_dat (cp_dat cp)) (\<lambda>d. rret (cp\<lparr>cp_dat := d\<rparr>))), lift_trace read_events_and_history, read_recording]"

definition read_checkpoint ::
  "checkpoint_env \<Rightarrow> ('g, 'r) checkpointed \<Rightarrow>
   (('g, 'r) scalar, ('g, 'r) checkpointed \<times> (sim_time \<times> job_no list) \<times> (bool \<times> bool \<times> nat \<times> nat \<times> bool)) reader" where
  "read_checkpoint env cp =
     rbind (read_before env cp) (\<lambda>cp. rbind read_pending (\<lambda>queued. rbind (read_after cp) (\<lambda>cp. rbind read_outputs (\<lambda>out.
     rret (set_trace ((m_trace (cp_sim cp))\<lparr>m_simulated_trace_buffer := []\<rparr>) cp, queued, out)))))"

text \<open>The scheduler, built from the pending jobs.\<close>

definition still_pending :: "'g trace \<Rightarrow> job_no \<Rightarrow> bool" where
  "still_pending tr i \<longleftrightarrow> resident tr i \<and>
     \<not> (is_scheduled (m_data tr ! (i - m_num_reclaimed tr)) \<or> m_t_submit (m_data tr ! (i - m_num_reclaimed tr)) = unscheduled_sentinel)"

fun insert_pending :: "circular_buffer \<Rightarrow> 'g trace \<Rightarrow> job_no list \<Rightarrow> any_scheduler \<Rightarrow> exn + any_scheduler" where
  "insert_pending b tr [] sc = Inr sc"
| "insert_pending b tr (i # ids) sc =
     (let j = m_data tr ! (i - m_num_reclaimed tr) in
      case any_insert_job b sc i (convert_epoch (m_t_submit j)) (limit_time j) (m_num_nodes j) of
        Inl e \<Rightarrow> Inl e | Inr sc \<Rightarrow> insert_pending b tr ids sc)"

definition restore_scheduler :: "circular_buffer \<Rightarrow> run_config \<Rightarrow> sim_time \<times> job_no list \<Rightarrow> (any_scheduler, 'g) simulation \<Rightarrow> exn + any_scheduler" where
  "restore_scheduler b c queued s =
     (if \<not> (\<forall>i\<in>set (snd queued). still_pending (m_trace s) i) then Inl Runtime_Error
      else case make_scheduler (m_params s) c (length (m_data (m_trace s))) of
        Inl e \<Rightarrow> Inl e
      | Inr sc \<Rightarrow>
          (case insert_pending b (m_trace s) (snd queued) sc of
             Inl e \<Rightarrow> Inl e
           | Inr sc \<Rightarrow> let sc = any_sync_to sc (m_current_time s)
                       in Inr (any_put_base ((any_base sc)\<lparr>m_fcfs_reservation_time := fst queued\<rparr>) sc)))"

definition restart_output_segment :: "(nat \<Rightarrow> bool) \<Rightarrow> nat \<Rightarrow> exn + unit" where
  "restart_output_segment segment bytes = (if segment bytes then Inr () else Inl Runtime_Error)"

definition restore_output_files ::
  "checkpoint_env \<Rightarrow> bool \<Rightarrow> bool \<times> bool \<times> nat \<times> nat \<times> bool \<Rightarrow> 'g trace \<Rightarrow> exn + 'g trace" where
  "restore_output_files env restore_outputs out tr =
     (let (job_open, resource_open, job_bytes, resource_bytes, redis) = out in
      if restore_outputs \<and> redis then Inl Logic_Error
      else case (if restore_outputs \<and> job_open
                 then map_sum id (\<lambda>_. tr\<lparr>m_simulated_trace_ofs := Some []\<rparr>) (restart_output_segment (ce_job_segment env) job_bytes)
                 else Inr tr) of
        Inl e \<Rightarrow> Inl e
      | Inr tr \<Rightarrow>
          if restore_outputs \<and> \<not> redis \<and> resource_open
          then map_sum id (\<lambda>_. tr\<lparr>m_resource_trace_ofs := Some []\<rparr>) (restart_output_segment (ce_resource_segment env) resource_bytes)
          else Inr tr)"

definition load_checkpoint_impl ::
  "checkpoint_env \<Rightarrow> circular_buffer \<Rightarrow> bool \<Rightarrow> ('g, 'r) scalar list \<Rightarrow> ('g, 'r) checkpointed \<Rightarrow> exn + ('g, 'r) checkpointed" where
  "load_checkpoint_impl env b restore_outputs input cp =
     (case read_checkpoint env cp input of
        Inl e \<Rightarrow> Inl e
      | Inr ((cp, queued, out), _) \<Rightarrow>
          (case restore_scheduler b (cp_config cp) queued (cp_sim cp) of
             Inl e \<Rightarrow> Inl e
           | Inr sc \<Rightarrow>
               let cp = cp\<lparr>cp_sim := (cp_sim cp)\<lparr>m_scheduler := sc\<rparr>\<rparr>
               in map_sum id (\<lambda>tr. set_trace tr cp) (restore_output_files env restore_outputs out (m_trace (cp_sim cp)))))"

section \<open>Automatic checkpoints\<close>

text \<open>The result is the archive to write to the checkpoint file, if one is due; the store of the file is not modelled.\<close>

definition maybe_save_automatic_checkpoint ::
  "checkpoint_env \<Rightarrow> bool \<Rightarrow> ('g, 'r) checkpointed \<Rightarrow> exn + (('g, 'r) scalar list option \<times> ('g, 'r) checkpointed)" where
  "maybe_save_automatic_checkpoint env file_boundary cp =
     (let s = cp_sim cp; p = m_params s;
          interval_due = (p_checkpoint_interval_jobs p \<noteq> 0 \<and>
            p_checkpoint_interval_jobs p \<le> m_jobs_completed s - cp_last_automatic_checkpoint_jobs cp)
      in if \<not> p_checkpoint_file p then Inr (None, cp)
      else if \<not> file_boundary \<and> \<not> interval_due then Inr (None, cp)
      else if file_boundary \<and> cp_has_automatic_checkpoint cp \<and> m_jobs_completed s = cp_last_automatic_checkpoint_jobs cp \<and>
              m_current_time s = cp_last_automatic_checkpoint_time cp
      then Inr (None, cp)
      else map_sum id (map_prod Some id)
             (save_checkpoint_impl env True (cp\<lparr>cp_last_automatic_checkpoint_jobs := m_jobs_completed s,
                cp_has_automatic_checkpoint := True, cp_last_automatic_checkpoint_time := m_current_time s\<rparr>)))"

end
