(* ===== verification/Checkpoint_Laws.thy ===== *)
theory Checkpoint_Laws
  imports Checkpoint
begin

text \<open>
  What a checkpoint preserves.  Reading an archive gives back every member that was written, whatever the state of the
  simulation that reads it; an archive of another configuration is refused.  Each group of members has its own law, which
  the reader of the whole archive composes.
\<close>

section \<open>Reading back the groups\<close>

lemma get_simps [archive_simps]:
  "get_magic (Magic m # a) = Inr (m, a)" "get_config (Config p c # a) = Inr ((p, c), a)" "get_flag (Flag x # a) = Inr (x, a)"
  "get_nat (Count n # a) = Inr (n, a)" "get_nodes (Nodes w # a) = Inr (w, a)" "get_limit (Limit l # a) = Inr (l, a)"
  "get_real (Real t # a) = Inr (t, a)" "get_seconds (Seconds i # a) = Inr (i, a)" "get_kind (Event_Kind k # a) = Inr (k, a)"
  "get_overflow (Overflow v # a) = Inr (v, a)" "get_queue (Queue q # a) = Inr (q, a)" "get_text (Text t' # a) = Inr (t', a)"
  "get_engine (Engine r # a) = Inr (r, a)" "get_delay_engine (Delay_Engine g # a) = Inr (g, a)"
  by simp_all

lemma read_epoch_written [archive_simps]: "read_epoch (write_epoch t @ a) = Inr (t, a)"
  by (simp add: read_epoch_def write_epoch_def)

lemma read_query_written: "read_query (write_query q @ a) = Inr (q, a)"
  by (simp add: read_query_def write_query_def new_query_record_def)

lemma read_running_written: "read_running (write_running r @ a) = Inr (r, a)"
  by (cases r) (simp add: read_running_def write_running_def)

lemma read_arrivals_written: "read_arrivals (write_arrivals r @ a) = Inr (r, a)"
  by (cases r) (simp add: read_arrivals_def write_arrivals_def)

lemma read_sample_written [archive_simps]: "read_sample (write_sample r @ a) = Inr (r, a)"
  by (simp add: read_sample_def write_sample_def)

lemma read_job_written: "read_job (write_job j @ a) = Inr (j, a)"
  by (simp add: read_job_def write_job_def archive_simps new_job_record_def)

text \<open>Only the nodes of a release are read; the others have none.\<close>

definition plain_event :: "dr_event \<Rightarrow> bool" where
  "plain_event e \<longleftrightarrow> ev_kind e = Release \<or> ev_nodes e = 0"

lemma read_event_written: "plain_event e \<Longrightarrow> read_event (write_event e @ a) = Inr (e, a)"
  by (cases e) (auto simp: read_event_def write_event_def plain_event_def release_event_def job_event_def)

lemma fold_evtq_append:
  "evtq_ok (q @ es) \<Longrightarrow> fold evtq_insert es q = q @ es"
proof (induction es arbitrary: q)
  case (Cons e es)
  have "evtq_insert e q = q @ [e]" using Cons.prems
    by (induction q) (auto simp: evtq_ok_def event_less_key)
  then show ?case using Cons.IH[of "q @ [e]"] Cons.prems by simp
qed simp

lemma insert_events_sorted: "evtq_ok es \<Longrightarrow> insert_events es = es"
  using fold_evtq_append[of "[]" es] by (simp add: insert_events_def)

lemma fold_emplace:
  "distinct (map fst (m @ es)) \<Longrightarrow> fold (\<lambda>e m. if fst e \<in> fst ` set m then m else m @ [e]) es m = m @ es"
proof (induction es arbitrary: m)
  case (Cons e es)
  then have "fst e \<notin> fst ` set m" by auto
  then show ?case using Cons.IH[of "m @ [e]"] Cons.prems by simp
qed simp

lemma emplace_distinct: "distinct (map fst es) \<Longrightarrow> emplace_all es = es"
  using fold_emplace[of "[]" es] by (simp add: emplace_all_def)

lemma read_bounded_written:
  assumes "\<And>x a. x \<in> set xs \<Longrightarrow> r (w x @ a) = Inr (x, a)" "length xs \<le> n" "n \<le> checkpoint_collection_limit"
  shows "read_bounded r (Count n # write_list w xs @ a) = Inr ((n, xs), a)"
  using read_many_written[of xs r w "\<lambda>x. x"] assms by (simp add: read_bounded_def write_list_def get_count_written)

lemma adjacent_distinct: "sorted xs \<Longrightarrow> adjacent_equal xs \<longleftrightarrow> \<not> distinct xs"
proof (induction xs rule: adjacent_equal.induct)
  case (1 x y xs)
  then have "x \<in> set xs \<longrightarrow> x = y" by (auto simp: antisym)
  then show ?case using 1 by auto
qed simp_all

section \<open>The groups of a simulation\<close>

definition limited :: "'a list \<Rightarrow> bool" where
  "limited xs \<longleftrightarrow> length xs \<le> checkpoint_collection_limit"

lemma read_changes_written: "read_changes cs (concat (map write_change cs) @ a) = Inr ((), a)"
  by (induction cs) (simp_all add: write_change_def)

lemma read_header_written:
  assumes "limited (m_capacity_changes (cp_sim cp))" "m_capacity_changes (cp_sim target) = m_capacity_changes (cp_sim cp)"
    and "same_schedule_parameters (m_params (cp_sim cp)) (m_params (cp_sim target))" "same_run_config (cp_config cp) (cp_config target)"
  shows "read_header env target (write_header env cp @ a) =
    Inr (set_trace ((m_trace (cp_sim target))\<lparr>m_simulated_trace_ofs := None, m_resource_trace_ofs := None\<rparr>)
           (target\<lparr>cp_restored_params := Some (m_params (cp_sim cp), cp_config cp)\<rparr>), a)"
  using assms read_changes_written[of "m_capacity_changes (cp_sim cp)" a]
  by (simp add: read_header_def write_header_def archive_simps write_list_def limited_def)

lemma read_clock_written:
  "read_clock t (write_clock s @ a) = Inr (t\<lparr>m_current_time := m_current_time s,
     m_next_backfill_evaluation := m_next_backfill_evaluation s, m_periodic_backfill_dirty := m_periodic_backfill_dirty s,
     m_job_rejection_capacity := m_job_rejection_capacity s, m_next_capacity_change := m_next_capacity_change s,
     m_current_capacity := m_current_capacity s, m_capacity_area := m_capacity_area s, m_capacity_area_time := m_capacity_area_time s,
     m_jobs_completed := m_jobs_completed s, m_jobs_submitted := m_jobs_submitted s, m_jobs_started := m_jobs_started s,
     m_latest_submit_time := m_latest_submit_time s\<rparr>, a)"
  by (simp add: read_clock_def write_clock_def)

lemma read_progress_written:
  assumes "cp_next_progressive_file cp \<le> checkpoint_collection_limit"
    and "cp_next_progressive_file cp \<le> length (c_infile_list_parsed (cp_config t))"
  shows "read_progress t (write_progress cp @ a) = Inr (t\<lparr>cp_next_progressive_file := cp_next_progressive_file cp,
     cp_last_automatic_checkpoint_jobs := cp_last_automatic_checkpoint_jobs cp,
     cp_has_automatic_checkpoint := cp_has_automatic_checkpoint cp,
     cp_last_automatic_checkpoint_time := cp_last_automatic_checkpoint_time cp, cp_checkpoint_loaded := True,
     cp_pre_start_jobs := cp_pre_start_jobs cp, cp_warm_resource_area := cp_warm_resource_area cp,
     cp_warm_resource_end := cp_warm_resource_end cp\<rparr>, a)"
  using assms by (simp add: read_progress_def write_progress_def archive_simps)

lemma read_statistics_written:
  assumes "unat (m_jobs_releasing s) \<le> checkpoint_collection_limit" "limited (m_appended_job_query_records s)"
  shows "read_statistics t (write_statistics s @ a) = Inr (t\<lparr>m_jobs_releasing := m_jobs_releasing s,
     m_queue_length_sum := m_queue_length_sum s, m_queue_length_samples := m_queue_length_samples s,
     m_queue_length_peak := m_queue_length_peak s, m_first_appended_job_idx := m_first_appended_job_idx s,
     m_appended_job_query_records := m_appended_job_query_records s\<rparr>, a)"
  using assms read_list_written[of "m_appended_job_query_records s" read_query write_query a]
  by (simp add: read_statistics_def write_statistics_def archive_simps limited_def read_query_written)

lemma read_pending_written:
  assumes "limited (any_pending_job_ids sc)" "distinct (any_pending_job_ids sc)"
  shows "read_pending (write_pending sc @ a) = Inr ((m_fcfs_reservation_time (any_base sc), sort (any_pending_job_ids sc)), a)"
  using assms read_list_written[of "sort (any_pending_job_ids sc)" get_nat "\<lambda>i. [Count i]" a]
  by (simp add: read_pending_def write_pending_def limited_def adjacent_distinct sort_key_id_if_sorted)

lemma read_maps_written:
  assumes "limited (m_running_jobs s)" "distinct (map fst (m_running_jobs s))"
    "limited (m_pending_queue_arrivals s)" "distinct (map fst (m_pending_queue_arrivals s))"
  shows "read_maps t (write_list write_running (m_running_jobs s) @ write_list write_arrivals (m_pending_queue_arrivals s) @ a) =
    Inr (t\<lparr>m_running_jobs := m_running_jobs s, m_pending_queue_arrivals := m_pending_queue_arrivals s\<rparr>, a)"
  using assms
  by (simp add: read_maps_def limited_def read_list_written read_running_written read_arrivals_written emplace_distinct)

lemma read_engines_written:
  assumes "limited (cp_event_queue cp)" "evtq_ok (cp_event_queue cp)" "\<forall>e\<in>set (cp_event_queue cp). plain_event e"
  shows "read_engines t (write_list write_event (cp_event_queue cp) @ Engine r # Delay_Engine g # a) =
    Inr (set_trace ((m_trace (cp_sim t))\<lparr>m_release_delay := (m_release_delay (m_trace (cp_sim t)))\<lparr>rd_rng := g\<rparr>\<rparr>)
           (t\<lparr>cp_event_queue := cp_event_queue cp, cp_rng := r\<rparr>), a)"
  using assms by (simp add: read_engines_def limited_def read_list_written read_event_written insert_events_sorted Let_def)

lemma read_store_written:
  "read_store t (write_store tr @ a) = Inr (t\<lparr>m_num_reclaimed := m_num_reclaimed tr, m_job_store_capacity := m_job_store_capacity tr,
     m_job_store_capacity_resolved := m_job_store_capacity_resolved tr, m_job_store_overflow := m_job_store_overflow tr,
     m_job_flush_interval := m_job_flush_interval tr, m_departures_since_job_flush := m_departures_since_job_flush tr,
     m_replay_jobs_enqueued := m_replay_jobs_enqueued tr, m_memory_pressure_fraction := m_memory_pressure_fraction tr,
     m_has_loaded_a_file := m_has_loaded_a_file tr, m_last_loaded_submit_time := m_last_loaded_submit_time tr,
     m_completed_count := m_completed_count tr, m_wait_time_sum := m_wait_time_sum tr,
     m_turnaround_time_sum := m_turnaround_time_sum tr, m_makespan := m_makespan tr,
     m_next_job_to_write := m_next_job_to_write tr\<rparr>, a)"
  by (simp add: read_store_def write_store_def archive_simps)

lemma read_jobs_written:
  assumes "length (m_data tr) \<le> m_data_capacity tr" "m_data_capacity tr \<le> checkpoint_collection_limit"
    and "m_num_reclaimed (m_trace t) = m_num_reclaimed tr" "\<forall>r\<in>set (m_running_jobs t). resident tr (fst r)"
  shows "read_jobs t (Count (m_data_capacity tr) # write_list write_job (m_data tr) @ a) =
    Inr (t\<lparr>m_trace := (m_trace t)\<lparr>m_data_capacity := m_data_capacity tr, m_data := m_data tr\<rparr>\<rparr>, a)"
proof -
  have "\<forall>r\<in>set (m_running_jobs t). resident ((m_trace t)\<lparr>m_data_capacity := m_data_capacity tr, m_data := m_data tr\<rparr>) (fst r)"
    using assms(3,4) by (simp add: resident_def)
  then show ?thesis using assms by (simp add: read_jobs_def read_bounded_written read_job_written)
qed

lemma read_dat_written:
  assumes "limited (dat_reserved d)"
  shows "read_dat t (write_dat d @ a) = Inr (d, a)"
  using assms by (simp add: read_dat_def write_dat_def archive_simps limited_def read_list_written)

lemma read_events_written:
  assumes "limited (m_evtq tr)" "evtq_ok (m_evtq tr)" "\<forall>e\<in>set (m_evtq tr). plain_event e"
    "length (m_resource_history tr) \<le> m_history_capacity tr" "m_history_capacity tr \<le> checkpoint_collection_limit"
  shows "read_events_and_history t (Nodes (m_n_nodes_in_use tr) # Nodes (m_n_nodes_releasing tr) # write_list write_event (m_evtq tr) @
      write_history tr @ a) = Inr (t\<lparr>m_n_nodes_in_use := m_n_nodes_in_use tr, m_n_nodes_releasing := m_n_nodes_releasing tr,
        m_evtq := m_evtq tr, m_resource_history_capacity := m_resource_history_capacity tr,
        m_resource_history_capacity_resolved := m_resource_history_capacity_resolved tr,
        m_history_capacity := m_history_capacity tr, m_resource_history := m_resource_history tr\<rparr>, a)"
  using assms
  by (simp add: read_events_and_history_def write_history_def limited_def read_list_written read_event_written insert_events_sorted
      read_bounded_written read_sample_written)

lemma read_recording_written:
  "read_recording t (write_recording cp @ a) = Inr (set_trace ((m_trace (cp_sim t))\<lparr>
       m_resource_trace_current_capacity := m_resource_trace_current_capacity (m_trace (cp_sim cp)),
       m_resource_capacity_initialized := m_resource_capacity_initialized (m_trace (cp_sim cp)),
       m_resource_recording_start := m_resource_recording_start (m_trace (cp_sim cp)),
       m_resource_recording_baseline := m_resource_recording_baseline (m_trace (cp_sim cp))\<rparr>)
     (t\<lparr>cp_resource_trace_total_nodes := cp_resource_trace_total_nodes cp, cp_resource_trace_msec := cp_resource_trace_msec cp,
        cp_simulated_trace_msec := cp_simulated_trace_msec cp\<rparr>), a)"
  by (cases "m_resource_recording_baseline (m_trace (cp_sim cp))")
    (simp_all add: read_recording_def write_recording_def Let_def archive_simps set_trace_def)

lemma read_outputs_written:
  "read_outputs (write_outputs jo ro jb rb) = Inr ((jo, ro, jb, rb, False), [])"
  by (simp add: read_outputs_def write_outputs_def read_list_def get_count_def)

section \<open>The whole archive\<close>

text \<open>What the guards of the reader ask of a simulation.\<close>

definition archivable_trace :: "'g trace \<Rightarrow> bool" where
  "archivable_trace tr \<longleftrightarrow> length (m_data tr) \<le> m_data_capacity tr \<and> m_data_capacity tr \<le> checkpoint_collection_limit \<and>
     length (m_resource_history tr) \<le> m_history_capacity tr \<and> m_history_capacity tr \<le> checkpoint_collection_limit \<and>
     limited (m_evtq tr) \<and> evtq_ok (m_evtq tr) \<and> (\<forall>e\<in>set (m_evtq tr). plain_event e)"

definition archivable :: "('g, 'r) checkpointed \<Rightarrow> bool" where
  "archivable cp \<longleftrightarrow> (let s = cp_sim cp in
     limited (m_capacity_changes s) \<and> unat (m_jobs_releasing s) \<le> checkpoint_collection_limit \<and>
     limited (m_appended_job_query_records s) \<and>
     limited (any_pending_job_ids (m_scheduler s)) \<and> distinct (any_pending_job_ids (m_scheduler s)) \<and>
     limited (m_running_jobs s) \<and> distinct (map fst (m_running_jobs s)) \<and>
     limited (m_pending_queue_arrivals s) \<and> distinct (map fst (m_pending_queue_arrivals s)) \<and>
     (\<forall>r\<in>set (m_running_jobs s). resident (m_trace s) (fst r)) \<and> archivable_trace (m_trace s) \<and>
     cp_next_progressive_file cp \<le> checkpoint_collection_limit \<and>
     cp_next_progressive_file cp \<le> length (c_infile_list_parsed (cp_config cp)) \<and>
     limited (cp_event_queue cp) \<and> evtq_ok (cp_event_queue cp) \<and> (\<forall>e\<in>set (cp_event_queue cp). plain_event e) \<and>
     limited (dat_reserved (cp_dat cp)))"

text \<open>A simulation that may restore the checkpoint of another: it was constructed with a configuration that agrees where the
  reader compares.\<close>

definition compatible :: "('g, 'r) checkpointed \<Rightarrow> ('g, 'r) checkpointed \<Rightarrow> bool" where
  "compatible cp target \<longleftrightarrow> same_schedule_parameters (m_params (cp_sim cp)) (m_params (cp_sim target)) \<and>
     same_run_config (cp_config cp) (cp_config target) \<and> m_capacity_changes (cp_sim target) = m_capacity_changes (cp_sim cp)"

text \<open>The checkpointed simulation with the members that are not archived taken from the one that restores.\<close>

definition restored_trace :: "'g trace \<Rightarrow> 'g trace \<Rightarrow> 'g trace" where
  "restored_trace tr target = tr\<lparr>m_trace_mode := m_trace_mode target,
     m_release_delay := (m_release_delay target)\<lparr>rd_rng := rd_rng (m_release_delay tr)\<rparr>,
     m_release_delay_from := m_release_delay_from target, m_last_departure_delayed := m_last_departure_delayed target,
     m_last_release_time := m_last_release_time target, m_simulated_trace_ofs := None, m_resource_trace_ofs := None,
     m_simulated_trace_buffer := []\<rparr>"

definition restored_from :: "('g, 'r) checkpointed \<Rightarrow> ('g, 'r) checkpointed \<Rightarrow> ('g, 'r) checkpointed" where
  "restored_from cp target = cp\<lparr>cp_sim := (cp_sim cp)\<lparr>m_params := m_params (cp_sim target), m_scheduler := m_scheduler (cp_sim target),
       m_trace := restored_trace (m_trace (cp_sim cp)) (m_trace (cp_sim target))\<rparr>,
     cp_config := cp_config target, cp_restored_params := Some (m_params (cp_sim cp), cp_config cp), cp_checkpoint_loaded := True\<rparr>"

lemma lift_simps [simp]:
  "lift_sim r cp a = (case r (cp_sim cp) a of Inl e \<Rightarrow> Inl e | Inr (s, a) \<Rightarrow> Inr (cp\<lparr>cp_sim := s\<rparr>, a))"
  "lift_trace r' cp a = (case r' (m_trace (cp_sim cp)) a of Inl e \<Rightarrow> Inl e | Inr (tr, a) \<Rightarrow> Inr (set_trace tr cp, a))"
  by (simp_all add: lift_sim_def lift_trace_def split: sum.split)

lemma set_trace_simps [simp]:
  "cp_sim (set_trace tr cp) = (cp_sim cp)\<lparr>m_trace := tr\<rparr>" "cp_config (set_trace tr cp) = cp_config cp"
  "cp_dat (set_trace tr cp) = cp_dat cp"
  by (simp_all add: set_trace_def)

definition before_pending :: "('g, 'r) checkpointed \<Rightarrow> ('g, 'r) checkpointed \<Rightarrow> ('g, 'r) checkpointed" where
  "before_pending cp target = (let s = cp_sim cp in target\<lparr>
     cp_restored_params := Some (m_params s, cp_config cp), cp_next_progressive_file := cp_next_progressive_file cp,
     cp_last_automatic_checkpoint_jobs := cp_last_automatic_checkpoint_jobs cp,
     cp_has_automatic_checkpoint := cp_has_automatic_checkpoint cp,
     cp_last_automatic_checkpoint_time := cp_last_automatic_checkpoint_time cp, cp_checkpoint_loaded := True,
     cp_pre_start_jobs := cp_pre_start_jobs cp, cp_warm_resource_area := cp_warm_resource_area cp,
     cp_warm_resource_end := cp_warm_resource_end cp,
     cp_sim := s\<lparr>m_params := m_params (cp_sim target), m_scheduler := m_scheduler (cp_sim target),
       m_trace := (m_trace (cp_sim target))\<lparr>m_simulated_trace_ofs := None, m_resource_trace_ofs := None\<rparr>,
       m_running_jobs := m_running_jobs (cp_sim target), m_pending_queue_arrivals := m_pending_queue_arrivals (cp_sim target)\<rparr>\<rparr>)"

lemma read_before_written:
  assumes "archivable cp" "compatible cp target"
  shows "read_before env target (write_header env cp @ write_clock (cp_sim cp) @ write_progress cp @ write_statistics (cp_sim cp) @ a) =
    Inr (before_pending cp target, a)"
proof -
  have l: "limited (m_capacity_changes (cp_sim cp))" "unat (m_jobs_releasing (cp_sim cp)) \<le> checkpoint_collection_limit"
    "limited (m_appended_job_query_records (cp_sim cp))" "cp_next_progressive_file cp \<le> checkpoint_collection_limit"
    "cp_next_progressive_file cp \<le> length (c_infile_list_parsed (cp_config target))"
    using assms by (simp_all add: archivable_def compatible_def same_run_config_def Let_def)
  have c: "m_capacity_changes (cp_sim target) = m_capacity_changes (cp_sim cp)"
    "same_schedule_parameters (m_params (cp_sim cp)) (m_params (cp_sim target))" "same_run_config (cp_config cp) (cp_config target)"
    using assms(2) by (simp_all add: compatible_def)
  show ?thesis
    by (simp add: read_before_def read_header_written[OF l(1) c] read_clock_written read_progress_written[OF l(4)] l(5)
        read_statistics_written[OF l(2,3)])
      (simp add: before_pending_def set_trace_def Let_def c(1)[symmetric])
qed

lemma read_after_written:
  assumes "archivable cp" "t = before_pending cp target"
  shows "\<exists>t'. read_after t (write_list write_running (m_running_jobs (cp_sim cp)) @ write_list write_arrivals (m_pending_queue_arrivals (cp_sim cp)) @
      write_list write_event (cp_event_queue cp) @ Engine (cp_rng cp) # Delay_Engine (rd_rng (m_release_delay (m_trace (cp_sim cp)))) #
      write_store (m_trace (cp_sim cp)) @ Count (m_data_capacity (m_trace (cp_sim cp))) # write_list write_job (m_data (m_trace (cp_sim cp))) @
      write_dat (cp_dat cp) @ Nodes (m_n_nodes_in_use (m_trace (cp_sim cp))) # Nodes (m_n_nodes_releasing (m_trace (cp_sim cp))) #
      write_list write_event (m_evtq (m_trace (cp_sim cp))) @ write_history (m_trace (cp_sim cp)) @ write_recording cp @ a) = Inr (t', a) \<and>
    set_trace ((m_trace (cp_sim t'))\<lparr>m_simulated_trace_buffer := []\<rparr>) t' = restored_from cp target"
proof -
  let ?s = "cp_sim cp" and ?tr = "m_trace (cp_sim cp)"
  have m: "limited (m_running_jobs ?s)" "distinct (map fst (m_running_jobs ?s))" "limited (m_pending_queue_arrivals ?s)"
    "distinct (map fst (m_pending_queue_arrivals ?s))"
    and q: "limited (cp_event_queue cp)" "evtq_ok (cp_event_queue cp)" "\<forall>e\<in>set (cp_event_queue cp). plain_event e"
    and j: "length (m_data ?tr) \<le> m_data_capacity ?tr" "m_data_capacity ?tr \<le> checkpoint_collection_limit"
    and r: "\<forall>r\<in>set (m_running_jobs ?s). resident ?tr (fst r)"
    and d: "limited (dat_reserved (cp_dat cp))"
    and e: "limited (m_evtq ?tr)" "evtq_ok (m_evtq ?tr)" "\<forall>e\<in>set (m_evtq ?tr). plain_event e"
      "length (m_resource_history ?tr) \<le> m_history_capacity ?tr" "m_history_capacity ?tr \<le> checkpoint_collection_limit"
    using assms(1) by (simp_all add: archivable_def archivable_trace_def Let_def)
  show ?thesis
    by (simp add: read_after_def read_maps_written[OF m] read_engines_written[OF q] read_store_written r
        read_jobs_written[OF j] read_dat_written[OF d] read_events_written[OF e] read_recording_written)
      (simp add: assms(2) before_pending_def restored_from_def restored_trace_def set_trace_def Let_def)
qed

lemma read_checkpoint_written:
  assumes "archivable cp" "compatible cp target"
  shows "read_checkpoint env target (write_checkpoint env jo ro jb rb cp) =
    Inr ((restored_from cp target, (m_fcfs_reservation_time (any_base (m_scheduler (cp_sim cp))),
      sort (any_pending_job_ids (m_scheduler (cp_sim cp)))), (jo, ro, jb, rb, False)), [])"
proof -
  have p: "limited (any_pending_job_ids (m_scheduler (cp_sim cp)))" "distinct (any_pending_job_ids (m_scheduler (cp_sim cp)))"
    using assms(1) by (simp_all add: archivable_def Let_def)
  from read_after_written[OF assms(1) refl, of target "write_outputs jo ro jb rb"] obtain t' where
    t': "read_after (before_pending cp target) (write_list write_running (m_running_jobs (cp_sim cp)) @ write_list write_arrivals (m_pending_queue_arrivals (cp_sim cp)) @
      write_list write_event (cp_event_queue cp) @ Engine (cp_rng cp) # Delay_Engine (rd_rng (m_release_delay (m_trace (cp_sim cp)))) #
      write_store (m_trace (cp_sim cp)) @ Count (m_data_capacity (m_trace (cp_sim cp))) # write_list write_job (m_data (m_trace (cp_sim cp))) @
      write_dat (cp_dat cp) @ Nodes (m_n_nodes_in_use (m_trace (cp_sim cp))) # Nodes (m_n_nodes_releasing (m_trace (cp_sim cp))) #
      write_list write_event (m_evtq (m_trace (cp_sim cp))) @ write_history (m_trace (cp_sim cp)) @ write_recording cp @
      write_outputs jo ro jb rb) = Inr (t', write_outputs jo ro jb rb)"
    "set_trace ((m_trace (cp_sim t'))\<lparr>m_simulated_trace_buffer := []\<rparr>) t' = restored_from cp target" by blast
  show ?thesis
    by (simp add: read_checkpoint_def write_checkpoint_def Let_def read_before_written[OF assms] read_pending_written[OF p] t'
        read_outputs_written)
qed

section \<open>Round trip\<close>

definition outputs_closed :: "'g trace \<Rightarrow> bool" where
  "outputs_closed tr \<longleftrightarrow> m_simulated_trace_ofs tr = None \<and> m_resource_trace_ofs tr = None"

lemma save_closed:
  assumes "cp_pre_start_jobs cp = 0" "m_trace_mode (m_trace (cp_sim cp)) = SIMULATION"
    and "preserve \<Longrightarrow> outputs_closed (m_trace (cp_sim cp)) \<and> c_redis_uri (cp_config cp) = []"
  shows "save_checkpoint_impl env preserve cp = Inr (write_checkpoint env False False 0 0 cp, cp)"
proof -
  have "flush_simulated_trace_buffer (m_trace (cp_sim cp)) = m_trace (cp_sim cp)" if preserve
    using assms(3)[OF that] by (simp add: flush_simulated_trace_buffer_def outputs_closed_def)
  moreover have "set_trace (m_trace (cp_sim cp)) cp = cp" by (simp add: set_trace_def)
  ultimately show ?thesis using assms by (auto simp: save_checkpoint_impl_def Let_def outputs_closed_def)
qed

lemma load_written:
  assumes "archivable cp" "compatible cp target"
  shows "load_checkpoint_impl env b restore (write_checkpoint env False False jb rb cp) target =
    (case restore_scheduler b (cp_config target) (m_fcfs_reservation_time (any_base (m_scheduler (cp_sim cp))),
        sort (any_pending_job_ids (m_scheduler (cp_sim cp)))) (cp_sim (restored_from cp target)) of
       Inl e \<Rightarrow> Inl e
     | Inr sc \<Rightarrow> Inr ((restored_from cp target)\<lparr>cp_sim := (cp_sim (restored_from cp target))\<lparr>m_scheduler := sc\<rparr>\<rparr>))"
proof -
  have "cp_config (restored_from cp target) = cp_config target" by (simp add: restored_from_def)
  then show ?thesis
    by (simp add: load_checkpoint_impl_def read_checkpoint_written[OF assms] restore_output_files_def set_trace_def Let_def split: sum.split)
qed

text \<open>A configuration that differs where the reader compares.\<close>

lemma load_mismatch:
  assumes "\<not> (same_schedule_parameters (m_params (cp_sim cp)) (m_params (cp_sim target)) \<and> same_run_config (cp_config cp) (cp_config target))"
  shows "load_checkpoint_impl env b restore (write_checkpoint env' jo ro jb rb cp) target = Inl Runtime_Error"
proof -
  have eq: "(same_schedule_parameters (m_params (cp_sim cp)) (m_params (cp_sim target)) \<and>
    same_run_config (cp_config cp) (cp_config target)) = False" using assms by blast
  show ?thesis
    by (cases "ce_record_size env' = ce_record_size env")
      (simp_all add: load_checkpoint_impl_def read_checkpoint_def read_before_def read_header_def write_checkpoint_def
        write_header_def Let_def archive_simps eq)
qed

section \<open>Truncated archives\<close>

text \<open>A reader that takes a definite part of the archive: what follows does not matter, and a shorter archive is refused.\<close>

definition definite :: "('t, 'a) reader \<Rightarrow> bool" where
  "definite r \<longleftrightarrow> (\<forall>a v b. r a = Inr (v, b) \<longrightarrow>
     (\<exists>c. a = c @ b \<and> (\<forall>d. r (c @ d) = Inr (v, d)) \<and> (\<forall>d e. c = d @ e \<longrightarrow> e \<noteq> [] \<longrightarrow> r d = Inl Runtime_Error)))"

lemma definite_bind:
  assumes r: "definite r" and f: "\<And>x. definite (f x)"
  shows "definite (rbind r f)"
  unfolding definite_def
proof (intro allI impI)
  fix a v b
  assume "rbind r f a = Inr (v, b)"
  then obtain x a' where x: "r a = Inr (x, a')" "f x a' = Inr (v, b)" by (auto split: sum.splits)
  obtain c where c: "a = c @ a'" "\<forall>d. r (c @ d) = Inr (x, d)" "\<forall>d e. c = d @ e \<longrightarrow> e \<noteq> [] \<longrightarrow> r d = Inl Runtime_Error"
    using r x(1) unfolding definite_def by blast
  obtain k where k: "a' = k @ b" "\<forall>d. f x (k @ d) = Inr (v, d)" "\<forall>d e. k = d @ e \<longrightarrow> e \<noteq> [] \<longrightarrow> f x d = Inl Runtime_Error"
    using f x(2) unfolding definite_def by blast
  have "rbind r f d = Inl Runtime_Error" if "c @ k = d @ e" "e \<noteq> []" for d e
  proof -
    from that(1) consider us where "c = d @ us" "us @ k = e" | us where "c @ us = d" "k = us @ e"
      by (auto simp: append_eq_append_conv2)
    then show ?thesis
    proof cases
      case (1 us)
      show ?thesis
      proof (cases "us = []")
        case True
        then have "r d = Inr (x, [])" "f x [] = Inl Runtime_Error" using 1 c(2)[THEN spec, of "[]"] k(3) that(2) by simp_all
        then show ?thesis by simp
      next
        case False
        then have "r d = Inl Runtime_Error" using 1 c(3) by blast
        then show ?thesis by simp
      qed
    next
      case (2 us)
      then show ?thesis using c(2) k(3) that(2) by auto
    qed
  qed
  then show "\<exists>c. a = c @ b \<and> (\<forall>d. rbind r f (c @ d) = Inr (v, d)) \<and> (\<forall>d e. c = d @ e \<longrightarrow> e \<noteq> [] \<longrightarrow> rbind r f d = Inl Runtime_Error)"
    using c(1,2) k(1,2) by (intro exI[of _ "c @ k"]) simp
qed

lemma definite_ret: "definite (rret x)" "definite (require p)"
  by (auto simp: definite_def) (auto simp: require_def split: if_splits)

lemma definite_one:
  assumes "\<And>a v b. r a = Inr (v, b) \<Longrightarrow> \<exists>x. a = x # b \<and> (\<forall>d. r (x # d) = Inr (v, d))" "r [] = Inl Runtime_Error"
  shows "definite r"
  unfolding definite_def
proof (intro allI impI)
  fix a v b
  assume "r a = Inr (v, b)"
  then obtain x where x: "a = x # b" "\<forall>d. r (x # d) = Inr (v, d)" using assms(1) by blast
  show "\<exists>c. a = c @ b \<and> (\<forall>d. r (c @ d) = Inr (v, d)) \<and> (\<forall>d e. c = d @ e \<longrightarrow> e \<noteq> [] \<longrightarrow> r d = Inl Runtime_Error)"
    using x assms(2) by (intro exI[of _ "[x]"]) (auto simp: Cons_eq_append_conv)
qed

lemma definite_scalars:
  "definite get_magic" "definite get_config" "definite get_flag" "definite get_nat" "definite get_nodes" "definite get_limit"
  "definite get_real" "definite get_seconds" "definite get_kind" "definite get_overflow" "definite get_queue" "definite get_text"
  "definite get_engine" "definite get_delay_engine"
  by (rule definite_one; (simp | (elim get_magic.elims get_config.elims get_flag.elims get_nat.elims get_nodes.elims get_limit.elims
    get_real.elims get_seconds.elims get_kind.elims get_overflow.elims get_queue.elims get_text.elims get_engine.elims
    get_delay_engine.elims; simp)))+

lemma definite_case: "(\<And>a b. definite (f a b)) \<Longrightarrow> definite (case p of (a, b) \<Rightarrow> f a b)"
  by (cases p) simp

lemma definite_field: "definite r \<Longrightarrow> definite (field r upd x)"
  unfolding field_def by (intro definite_bind definite_ret)

lemma definite_seq: "definite (read_seq [] x)"
  "(\<And>x. definite (f x)) \<Longrightarrow> (\<And>x. definite (read_seq fs x)) \<Longrightarrow> definite (read_seq (f # fs) x)"
  by (simp_all only: read_seq.simps, intro definite_bind definite_ret) (intro definite_bind; assumption)

lemma definite_many: "definite r \<Longrightarrow> definite (read_many n r)"
  by (induction n) (auto intro: definite_bind definite_ret)

lemmas definite_intros = definite_bind definite_ret definite_scalars definite_case definite_field definite_seq definite_many

lemma definite_list: "definite r \<Longrightarrow> definite (read_list r)" "definite r \<Longrightarrow> definite (read_bounded r)" "definite get_count"
  unfolding read_list_def read_bounded_def get_count_def by (intro definite_intros; assumption?)+

lemma definite_changes: "definite (read_changes cs)"
  by (induction cs; simp only: read_changes.simps; intro definite_intros) assumption

lemma definite_records: "definite read_epoch" "definite read_query" "definite read_running" "definite read_arrivals"
  "definite read_event" "definite read_job" "definite read_sample" "definite read_pending" "definite read_outputs"
  unfolding read_epoch_def read_query_def read_running_def read_arrivals_def read_event_def read_job_def read_sample_def
    read_pending_def read_outputs_def
  by (intro definite_intros definite_list)+

lemma definite_groups: "definite (read_header env cp)" "definite (read_clock s)" "definite (read_progress cp)" "definite (read_statistics s)"
  "definite (read_maps s')" "definite (read_engines cp)" "definite (read_store tr)" "definite (read_jobs s')" "definite (read_dat dat)"
  "definite (read_events_and_history tr)" "definite (read_recording cp)"
  unfolding read_header_def read_clock_def read_progress_def read_statistics_def read_maps_def read_engines_def read_store_def
    read_jobs_def read_dat_def read_events_and_history_def read_recording_def
  by (intro definite_intros definite_list definite_records definite_changes)+

lemma definite_checkpoint: "definite (read_checkpoint env cp)"
  unfolding read_checkpoint_def read_before_def read_after_def lift_sim_def lift_trace_def
  by (intro definite_intros definite_list definite_records definite_groups)

lemma load_truncated:
  assumes "archivable cp" "compatible cp target" "write_checkpoint env jo ro jb rb cp = a @ lost" "lost \<noteq> []"
  shows "load_checkpoint_impl env b restore a target = Inl Runtime_Error"
proof -
  note r = read_checkpoint_written[OF assms(1,2), of env jo ro jb rb]
  from definite_checkpoint[of env target, unfolded definite_def, rule_format, OF r] assms(3,4)
  have "read_checkpoint env target a = Inl Runtime_Error" by auto
  then show ?thesis by (simp add: load_checkpoint_impl_def)
qed

end
