(* ===== verification/Dispatch_Laws.thy ===== *)
theory Dispatch_Laws
  imports Dispatch
begin

text \<open>
  Correctness of the periodic dispatch scheduler of theory \<open>Dispatch\<close>: the planner choice never changes
  a decision, the bounded pass looks only at the first candidates, and the withheld part of the queue
  is restored exactly.
\<close>

section \<open>The planner choice\<close>

lemma dispatch_pass_eq: "schedule_dispatch_pass hash s free running now = Some (hc_schedule True s free running now)"
  by (simp add: schedule_dispatch_pass_def schedule_cached_pass_def cached_schedule_eq prefix_reuses_correct split: bool.splits)

section \<open>The prefix\<close>

lemma prefix_walk_correct:
  "prefix_walk depth q = (e, r) \<Longrightarrow>
   e \<le> length q \<and> r = length (filter removed (take e q)) \<and> live (take e q) = take depth (live q)"
proof (induction depth q arbitrary: e r rule: prefix_walk.induct)
  case (2 depth j js)
  show ?case
  proof (cases "depth = 0")
    case False
    then show ?thesis using 2 by (auto split: if_splits prod.splits simp: take_Cons')
  qed (use 2(3) in auto)
qed auto

definition dispatch_prefix :: "'a periodic_dispatch_scheme \<Rightarrow> nat \<times> nat" where
  "dispatch_prefix s =
     (if m_removed_count s \<noteq> 0
      then prefix_walk (m_dispatch_queue_depth s) (take (m_eligible_end_idx s) (m_wait_queue s))
      else (min (m_eligible_end_idx s) (m_dispatch_queue_depth s), 0))"

lemma dispatch_prefix_correct:
  assumes inv: "fq_inv s" and p: "dispatch_prefix s = (e, r)"
  shows "e \<le> m_eligible_end_idx s" "r = length (filter removed (take e (m_wait_queue s)))"
    "live (take e (m_wait_queue s)) = take (m_dispatch_queue_depth s) (waiting s)"
proof -
  define q n where "q = m_wait_queue s" and "n = m_eligible_end_idx s"
  have n: "n \<le> length q" "m_removed_count s = length (filter removed (take n q))"
    using inv by (simp_all add: fq_inv_def q_def n_def)
  have "e \<le> n \<and> r = length (filter removed (take e q)) \<and> live (take e q) = take (m_dispatch_queue_depth s) (live (take n q))"
  proof (cases "m_removed_count s = 0")
    case True
    then have all: "\<forall>j\<in>set (take n q). \<not> removed j" using n by (simp add: filter_empty_conv)
    then have "live (take n q) = take n q" by (simp add: filter_id_conv)
    moreover have er: "e = min n (m_dispatch_queue_depth s)" "r = 0" using p True by (auto simp: dispatch_prefix_def n_def)
    then have "set (take e q) \<subseteq> set (take n q)" by (intro set_take_subset_set_take) simp
    then have "\<forall>j\<in>set (take e q). \<not> removed j" using all by blast
    then have "live (take e q) = take e q" "filter removed (take e q) = []" by (simp_all add: filter_id_conv filter_empty_conv)
    ultimately show ?thesis using er by (simp add: min.commute)
  next
    case False
    then have "prefix_walk (m_dispatch_queue_depth s) (take n q) = (e, r)" using p by (simp add: dispatch_prefix_def q_def n_def)
    note w = prefix_walk_correct[OF this]
    then have "e \<le> n" using n by simp
    then have "min e n = e" by simp
    with w show ?thesis using n by simp
  qed
  then show "e \<le> m_eligible_end_idx s" "r = length (filter removed (take e (m_wait_queue s)))"
    "live (take e (m_wait_queue s)) = take (m_dispatch_queue_depth s) (waiting s)"
    by (simp_all add: q_def n_def waiting_def)
qed

section \<open>Restoring the withheld part\<close>

lemma raw_step_extend:
  assumes step: "raw_step q p free ids q' e' r'" and p: "p \<le> e" "e \<le> length q"
  shows "raw_step q e free ids q' (e' + (e - p)) (r' + (length (filter removed (take e q)) - length (filter removed (take p q))))"
    and "take (e' + (e - p)) q' = take e' q' @ drop p (take e q)"
proof -
  have s: "e' \<le> length q'" "r' = length (filter removed (take e' q'))" "drop e' q' = drop p q"
    using step by (simp_all add: raw_step_def)
  obtain k where k: "k \<le> p" "e' = p - k" "map submit_time q' = drop k (map submit_time q)"
    using step by (auto simp: raw_step_def)
  obtain st where st: "ids = map job_id st" "mset (live (take p q)) = mset st + mset (live (take e' q'))" "nodes_sum st \<le> unat free"
    using step by (auto simp: raw_step_def)
  have tq: "take e q = take p q @ drop p (take e q)" using p by (metis append_take_drop_id min_absorb1 take_take)
  show tk: "take (e' + (e - p)) q' = take e' q' @ drop p (take e q)"
    using s by (simp add: take_add drop_take)
  have "length q' = length q - k" using arg_cong[OF k(3), of length] by simp
  then have "e' + (e - p) \<le> length q'" using k p by simp
  moreover have "r' + (length (filter removed (take e q)) - length (filter removed (take p q))) =
      length (filter removed (take (e' + (e - p)) q'))"
    unfolding tk s(2) using arg_cong[OF tq, of "\<lambda>z. length (filter removed z)"] by simp
  moreover have "drop (e' + (e - p)) q' = drop e q"
    using arg_cong[OF s(3), of "drop (e - p)"] p by (simp add: add.commute)
  moreover have "\<exists>k\<le>e. e' + (e - p) = e - k \<and> map submit_time q' = drop k (map submit_time q)"
    using k p by (intro exI[of _ k]) simp
  moreover have "mset (live (take e q)) = mset st + mset (live (take (e' + (e - p)) q'))"
    unfolding tk using st(2) arg_cong[OF tq, of "\<lambda>z. mset (live z)"] by (simp add: add.assoc)
  ultimately show "raw_step q e free ids q' (e' + (e - p)) (r' + (length (filter removed (take e q)) - length (filter removed (take p q))))"
    unfolding raw_step_def using st by blast
qed

lemma compact_explicit:
  assumes "fq_inv s"
  shows "(if m_removed_count s > 0 \<and> m_removed_count s * 2 > length (m_wait_queue s)
     then s\<lparr>m_eligible_end_idx := m_eligible_end_idx s - m_removed_count s,
            m_wait_queue := filter (\<lambda>j. \<not> removed j) (m_wait_queue s), m_removed_count := 0\<rparr>
     else s) = deque_compact s"
  using assms by (simp add: deque_compact_def fq_inv_def)

lemma compact_few: "m_removed_count (deque_compact s) * 2 \<le> length (m_wait_queue (deque_compact s))"
  by (simp add: deque_compact_def)

text \<open>On a bounded state whose clock has reached the pass, the base pass neither synchronises nor
  compacts.\<close>

lemma bounded_pass:
  assumes "now \<le> m_current_tracked_time b" "m_removed_count b * 2 \<le> length (m_wait_queue b)" "m_eligible_end_idx b \<noteq> 0"
  shows "hc_schedule u b free running now = hybrid_pass timeline_fit reserve (\<lambda>xs. xs) u b free running now"
proof -
  have "deque_compact (deque_sync_to b now) = b" using assms(1,2) by (simp add: deque_sync_to_def deque_compact_def)
  then show ?thesis using assms(3) by (simp add: hc_schedule_def protection_eq Let_def)
qed

lemma dispatch_schedule_cases:
  assumes inv: "fq_inv s" and d_def: "d = deque_sync_to s now"
  shows "periodic_dispatch_schedule hash s free running now =
    Some (if m_dispatch_queue_depth s = 0 \<or> length (waiting d) \<le> m_dispatch_queue_depth s
          then hc_schedule True d free running now
          else let c = deque_compact d; (p, r) = dispatch_prefix c;
                   (ids, s') = hc_schedule True (c\<lparr>m_eligible_end_idx := p, m_removed_count := r\<rparr>) free running now
               in (ids, s'\<lparr>m_eligible_end_idx := m_eligible_end_idx s' + (m_eligible_end_idx c - p),
                           m_removed_count := m_removed_count s' + (m_removed_count c - r)\<rparr>))"
proof -
  have sync: "fq_inv d" using sync_to_refines[OF inv] by (simp add: d_def)
  have q: "m_dispatch_queue_depth d = m_dispatch_queue_depth s" by (simp add: d_def deque_sync_to_def)
  have a: "hybrid_active_job_count d = length (waiting d)"
    using active_job_count_waiting[OF sync] by (simp add: hybrid_active_eq)
  show ?thesis
    unfolding periodic_dispatch_schedule_def hc_sync_eq d_def[symmetric] Let_def compact_explicit[OF sync]
      dispatch_pass_eq dispatch_prefix_def[symmetric] q a
    by (simp add: case_prod_beta)
qed

section \<open>The whole call\<close>

lemma hc_schedule_future:
  assumes inv: "fq_inv s" and now: "now \<le> m_current_tracked_time s" and sch: "hc_schedule u s free running now = (ids, s')"
  shows "future s' = future s"
proof -
  define c where "c = deque_compact s"
  have c: "fq_inv c" "future c = future s" using compact_refines[OF inv] by (auto simp: c_def)
  have sync: "deque_sync_to s now = s" using now by (simp add: deque_sync_to_def)
  have call: "(if m_eligible_end_idx c = 0 then ([], c)
      else hybrid_pass timeline_fit reserve (\<lambda>xs. xs) u c free running now) = (ids, s')"
    using sch unfolding hc_schedule_def protection_eq Let_def sync c_def .
  show ?thesis
  proof (cases "m_eligible_end_idx c = 0")
    case True
    then show ?thesis using call c by simp
  next
    case False
    then have p: "hybrid_pass timeline_fit reserve (\<lambda>xs. xs) u c free running now = (ids, s')" using call by simp
    have "m_eligible_end_idx c \<le> length (m_wait_queue c)"
      "m_removed_count c = length (filter removed (take (m_eligible_end_idx c) (m_wait_queue c)))"
      using c(1) by (simp_all add: fq_inv_def)
    from hybrid_pass_raw[OF this p] c(2) show ?thesis by (simp add: raw_step_def future_def)
  qed
qed

text \<open>The outcome: a law-abiding pass that took its jobs from the first \<open>Q\<close> waiting jobs and left the
  others in place.\<close>

definition dispatch_outcome ::
  "'a periodic_dispatch_scheme \<Rightarrow> num_nodes \<Rightarrow> job_entry list \<Rightarrow> job_no list \<Rightarrow> 'a periodic_dispatch_scheme \<Rightarrow> bool" where
  "dispatch_outcome s free W ids s' \<longleftrightarrow> hc_inv s' \<and>
     (\<exists>st front. ids = map job_id st \<and> nodes_sum st \<le> unat free \<and>
        (let Q = (if m_dispatch_queue_depth s = 0 then length W else m_dispatch_queue_depth s) in
         mset (take Q W) = mset st + mset front \<and> waiting s' = front @ drop Q W))"

lemma hybrid_pass_frame:
  fixes b :: "'a periodic_dispatch_scheme"
  assumes "hybrid_pass f g pnew u b free running now = (ids, s')"
  shows "mh_capacity s' = mh_capacity b" "m_dispatch_queue_depth s' = m_dispatch_queue_depth b"
proof -
  have "m_dispatch_queue_depth (snd (hybrid_pass f g pnew u b free running now)) = m_dispatch_queue_depth b"
    by (simp add: hybrid_pass_def account_head_def Let_def case_prod_beta)
  then show "m_dispatch_queue_depth s' = m_dispatch_queue_depth b" using assms by simp
  show "mh_capacity s' = mh_capacity b" using hybrid_pass_capacity[of f g pnew u b free running now] assms by simp
qed

lemma bounded_dispatch:
  fixes c :: "'a periodic_dispatch_scheme"
  assumes inv: "fq_inv c" and cap: "length (m_wait_queue c) \<le> mh_capacity c" and now: "now \<le> m_current_tracked_time c"
    and few: "m_removed_count c * 2 \<le> length (m_wait_queue c)"
    and Q: "m_dispatch_queue_depth c \<noteq> 0" "m_dispatch_queue_depth c < length (waiting c)"
    and p: "dispatch_prefix c = (p, r)"
    and sch: "hc_schedule True (c\<lparr>m_eligible_end_idx := p, m_removed_count := r\<rparr>) free running now = (ids, s')"
    and s2: "s2 = s'\<lparr>m_eligible_end_idx := m_eligible_end_idx s' + (m_eligible_end_idx c - p),
                    m_removed_count := m_removed_count s' + (m_removed_count c - r)\<rparr>"
  shows "dispatch_outcome c free (waiting c) ids s2 \<and> m_current_tracked_time s2 = m_current_tracked_time c \<and>
    (\<exists>st. ids = map job_id st \<and> mset (pending c) = mset st + mset (pending s2) \<and>
       nodes_sum st \<le> unat free \<and> (\<forall>j\<in>set st. submit_time j \<le> m_current_tracked_time s2))"
proof -
  define b where "b = c\<lparr>m_eligible_end_idx := p, m_removed_count := r\<rparr>"
  define q e where "q = m_wait_queue c" and "e = m_eligible_end_idx c"
  note pre = dispatch_prefix_correct[OF inv p, folded q_def e_def]
  have c: "e \<le> length q" "m_removed_count c = length (filter removed (take e q))"
    using inv by (simp_all add: fq_inv_def q_def e_def)
  have tq: "take e q = take p q @ drop p (take e q)" using pre(1) by (metis append_take_drop_id min_absorb1 take_take)
  have wd: "drop (m_dispatch_queue_depth c) (waiting c) = live (drop p (take e q))"
  proof -
    have "waiting c = live (take p q) @ live (drop p (take e q))"
      using tq by (metis filter_append waiting_def q_def e_def)
    moreover have "length (live (take p q)) = m_dispatch_queue_depth c" using pre(3) Q(2) by simp
    ultimately show ?thesis by simp
  qed
  have "r \<le> m_removed_count c" using pre(2) c(2) arg_cong[OF tq, of "\<lambda>z. length (filter removed z)"] by simp
  moreover have "p \<noteq> 0" using arg_cong[OF pre(3), of length] Q by (intro notI) simp
  ultimately have "hybrid_pass timeline_fit reserve (\<lambda>xs. xs) True b free running now = (ids, s')"
    using sch bounded_pass[of now b True free running] now few by (simp add: b_def)
  note pass = this
  have "p \<le> length q" using pre(1) c(1) by simp
  then have raw: "raw_step q p free ids (m_wait_queue s') (m_eligible_end_idx s') (m_removed_count s')"
    and clk: "m_current_tracked_time s' = m_current_tracked_time c"
    using hybrid_pass_raw[OF _ _ pass] pre(2) by (simp_all add: b_def q_def)
  note ext = raw_step_extend[OF raw pre(1) c(1)]
  have step: "raw_step q e free ids (m_wait_queue s2) (m_eligible_end_idx s2) (m_removed_count s2)"
    using ext(1) pre(2) c(2) by (simp add: s2 e_def)
  have clk2: "m_current_tracked_time s2 = m_current_tracked_time c" using clk by (simp add: s2)
  have law: "fq_inv s2 \<and> length (m_wait_queue s2) \<le> length q \<and>
      (\<exists>st. ids = map job_id st \<and> mset (pending c) = mset st + mset (pending s2) \<and>
         nodes_sum st \<le> unat free \<and> (\<forall>j\<in>set st. submit_time j \<le> m_current_tracked_time s2))"
    using raw_step_law[OF inv step[unfolded q_def e_def] clk2] by (simp add: q_def)
  moreover have "mh_capacity s2 = mh_capacity c" using hybrid_pass_frame(1)[OF pass] by (simp add: s2 b_def)
  ultimately have "hc_inv s2" using cap by (simp add: hc_inv_def q_def)
  moreover obtain st where "ids = map job_id st" "nodes_sum st \<le> unat free"
    "mset (live (take p q)) = mset st + mset (live (take (m_eligible_end_idx s') (m_wait_queue s')))"
    using raw by (auto simp: raw_step_def)
  moreover have "waiting s2 = live (take (m_eligible_end_idx s') (m_wait_queue s')) @ drop (m_dispatch_queue_depth c) (waiting c)"
    using ext(2) wd by (simp add: waiting_def s2 e_def)
  ultimately have "dispatch_outcome c free (waiting c) ids s2"
    unfolding dispatch_outcome_def Let_def using Q(1) pre(3) by auto
  then show ?thesis using law clk2 by blast
qed

lemma dispatch_schedule_law:
  fixes s :: "'a periodic_dispatch_scheme"
  assumes inv: "hc_inv s" and W: "W = waiting (hc_sync_to s now)"
  obtains ids s' where "periodic_dispatch_schedule hash s free running now = Some (ids, s')"
    "dispatch_outcome s free W ids s'" "m_current_tracked_time s' = max (m_current_tracked_time s) now"
    "\<exists>st. ids = map job_id st \<and> mset (pending s) = mset st + mset (pending s') \<and>
       nodes_sum st \<le> unat free \<and> (\<forall>j\<in>set st. submit_time j \<le> m_current_tracked_time s')"
proof -
  define d where "d = deque_sync_to s now"
  have fq: "fq_inv s" using inv by (simp add: hc_inv_def)
  have sync: "fq_inv d" using sync_to_refines[OF fq] by (simp add: d_def)
  have d: "m_wait_queue d = m_wait_queue s" "mh_capacity d = mh_capacity s" "pending d = pending s"
    "m_current_tracked_time d = max (m_current_tracked_time s) now" "m_dispatch_queue_depth d = m_dispatch_queue_depth s"
    using sync_pending[OF fq, of now] by (simp_all add: d_def deque_clock) (simp_all add: deque_sync_to_def)
  have Wd: "W = waiting d" by (simp add: W hc_sync_eq d_def)
  note eq = dispatch_schedule_cases[OF fq d_def, of hash free running]
  show thesis
  proof (cases "m_dispatch_queue_depth s = 0 \<or> length (waiting d) \<le> m_dispatch_queue_depth s")
    case True
    obtain ids s' where sch: "hc_schedule True d free running now = (ids, s')" by (rule prod.exhaust)
    have inv_d: "hc_inv d" using inv sync d by (simp add: hc_inv_def)
    have law: "hc_inv s'" "m_current_tracked_time s' = max (m_current_tracked_time s) now"
      "\<exists>st. ids = map job_id st \<and> mset (pending d) = mset st + mset (pending s') \<and>
         nodes_sum st \<le> unat free \<and> (\<forall>j\<in>set st. submit_time j \<le> m_current_tracked_time s')"
      using hc_schedule_law[of True, unfolded lawful_def, rule_format, OF inv_d sch] unfolding d(4) max.assoc max.idem by blast+
    have fut: "future s' = future d"
      using hc_schedule_future[OF sync _ sch] d(4) by simp
    obtain st where st: "ids = map job_id st" "mset (pending d) = mset st + mset (pending s')" "nodes_sum st \<le> unat free"
      using law(3) by blast
    then have "mset W = mset st + mset (waiting s')" using fut Wd by (simp add: pending_def add.assoc[symmetric])
    then have "dispatch_outcome s free W ids s'"
      unfolding dispatch_outcome_def Let_def using True law(1) st Wd by auto
    then show thesis using that[of ids s'] eq True sch law d(3) by simp
  next
    case False
    define c where "c = deque_compact d"
    obtain p r where p: "dispatch_prefix c = (p, r)" by (rule prod.exhaust)
    obtain ids s' where sch: "hc_schedule True (c\<lparr>m_eligible_end_idx := p, m_removed_count := r\<rparr>) free running now = (ids, s')"
      by (rule prod.exhaust)
    define s2 where "s2 = s'\<lparr>m_eligible_end_idx := m_eligible_end_idx s' + (m_eligible_end_idx c - p),
                    m_removed_count := m_removed_count s' + (m_removed_count c - r)\<rparr>"
    have c: "fq_inv c" "waiting c = waiting d" "pending c = pending s"
      using compact_refines[OF sync] compact_pending[OF sync] d(3) by (auto simp: c_def)
    have cf: "length (m_wait_queue c) \<le> mh_capacity c" "m_current_tracked_time c = max (m_current_tracked_time s) now"
      "m_dispatch_queue_depth c = m_dispatch_queue_depth s"
      using inv d by (auto simp: c_def deque_compact_def hc_inv_def intro: order_trans[OF length_filter_le])
    have "dispatch_outcome c free (waiting c) ids s2 \<and> m_current_tracked_time s2 = m_current_tracked_time c \<and>
      (\<exists>st. ids = map job_id st \<and> mset (pending c) = mset st + mset (pending s2) \<and>
         nodes_sum st \<le> unat free \<and> (\<forall>j\<in>set st. submit_time j \<le> m_current_tracked_time s2))"
      using False cf c compact_few[of d] by (intro bounded_dispatch[OF c(1) cf(1) _ _ _ _ p sch s2_def]) (auto simp: c_def)
    moreover have "periodic_dispatch_schedule hash s free running now = Some (ids, s2)"
      using eq False sch p by (simp add: Let_def c_def[symmetric] s2_def)
    moreover have "dispatch_outcome c free (waiting c) ids s2 = dispatch_outcome s free W ids s2"
      unfolding dispatch_outcome_def cf(3) c(2) Wd by (rule refl)
    ultimately show thesis using that[of ids s2] unfolding c(3) cf(2) by blast
  qed
qed

section \<open>The scheduler interface\<close>

definition dispatch_call ::
  "(tdiff \<Rightarrow> 64 word) \<Rightarrow> 'a periodic_dispatch_scheme \<Rightarrow> num_nodes \<Rightarrow> running_jobs \<Rightarrow> sim_time \<Rightarrow>
   job_no list \<times> 'a periodic_dispatch_scheme" where
  "dispatch_call hash s free running now =
     (case periodic_dispatch_schedule hash s free running now of Some x \<Rightarrow> x | None \<Rightarrow> ([], s))"

lemma dispatch_call_law: "lawful hc_inv pending m_current_tracked_time (dispatch_call hash)"
  unfolding lawful_def
proof (intro allI impI)
  fix s :: "'a periodic_dispatch_scheme" and free running now ids s'
  assume inv: "hc_inv s" and call: "dispatch_call hash s free running now = (ids, s')"
  obtain ids2 s2 where r: "periodic_dispatch_schedule hash s free running now = Some (ids2, s2)"
    "dispatch_outcome s free (waiting (hc_sync_to s now)) ids2 s2" "m_current_tracked_time s2 = max (m_current_tracked_time s) now"
    "\<exists>st. ids2 = map job_id st \<and> mset (pending s) = mset st + mset (pending s2) \<and>
       nodes_sum st \<le> unat free \<and> (\<forall>j\<in>set st. submit_time j \<le> m_current_tracked_time s2)"
    by (rule dispatch_schedule_law[OF inv refl])
  have "ids2 = ids" "s2 = s'" using call r(1) by (simp_all add: dispatch_call_def)
  then show "hc_inv s' \<and> m_current_tracked_time s' = max (m_current_tracked_time s) now \<and>
      (\<exists>st. ids = map job_id st \<and> mset (pending s) = mset st + mset (pending s') \<and>
         nodes_sum st \<le> unat free \<and> (\<forall>j\<in>set st. submit_time j \<le> m_current_tracked_time s'))"
    using r unfolding dispatch_outcome_def by blast
qed

sublocale buffer_law \<subseteq> pd: scheduler "hc_insert_job b" hc_sync_to "dispatch_call hash"
    "\<lambda>s i t. in_order s t" pending hc_inv m_current_tracked_time
  for hash
  by (intro hc_scheduler_with law dispatch_call_law)

end
