(* ===== verification/Easy_Block_Laws.thy ===== *)
theory Easy_Block_Laws
  imports Easy_Block Scheduler_Interface
begin

text \<open>
  Correctness of the block scheduler: the pass never throws, it refines \<open>block_pass\<close> on the list of the
  waiting jobs, it meets the scheduler contract, and where the head is planned and no rounding of run
  times is in effect it decides as the EASY pass of the other queues.
\<close>

section \<open>Looking up and removing\<close>

lemma get_job_info_eq: "bq_ok bsize q \<Longrightarrow> get_job_info bsize q i = find_job i (bq_jobs q)"
proof -
  assume ok: "bq_ok bsize q"
  have d: "distinct (map bj_job_id (bq_jobs q))" using ok by (simp add: bq_ok_def bq_shape_def strict_sorted_iff)
  show ?thesis
  proof (cases "i \<in> bj_job_id ` set (bq_jobs q)")
    case True
    then obtain j where "j \<in> set (bq_jobs q)" "i = bj_job_id j" by auto
    then show ?thesis using get_job_info_law[OF ok] find_unique[OF d] by (simp add: find_job_find)
  next
    case False
    then have "find (\<lambda>j. bj_job_id j = i) (bq_jobs q) = None" by (auto simp: find_None_iff)
    then show ?thesis using get_job_info_absent[OF ok False] by (simp add: find_job_find)
  qed
qed

lemma find_job_filter: "find_job i (filter (\<lambda>j. bj_job_id j \<noteq> k) js) = (if i = k then None else find_job i js)"
  by (induction js) auto

lemma find_job_append: "find_job i (js @ ks) = (case find_job i js of None \<Rightarrow> find_job i ks | Some p \<Rightarrow> Some p)"
  by (induction js) auto

lemma find_job_keep: "i \<notin> K \<Longrightarrow> find_job i (filter (\<lambda>j. bj_job_id j \<notin> K) js) = find_job i js"
  by (induction js) auto

lemma find_job_None: "find_job i js = None \<longleftrightarrow> i \<notin> bj_job_id ` set js"
  by (induction js) auto

definition arrival_entry :: "block_job list \<Rightarrow> job_arrival \<Rightarrow> job_entry" where
  "arrival_entry js a = (case find_job (ja_job_id a) js of
     None \<Rightarrow> new_entry (ja_job_id a) (ja_submit_time a) 0 0
   | Some (r, n) \<Rightarrow> new_entry (ja_job_id a) (ja_submit_time a) r n)"

lemma arrival_entry_fields [simp]:
  "job_id (arrival_entry js a) = ja_job_id a" "submit_time (arrival_entry js a) = ja_submit_time a"
  by (auto simp: arrival_entry_def new_entry_def split: option.splits)

lemma arrival_entry_found:
  "find_job (ja_job_id a) js = Some (r, n) \<Longrightarrow> run_time_estimate (arrival_entry js a) = r \<and> nodes_requested (arrival_entry js a) = n"
  by (simp add: arrival_entry_def new_entry_def)

lemma arrival_entry_filter: "ja_job_id a \<noteq> k \<Longrightarrow> arrival_entry (filter (\<lambda>j. bj_job_id j \<noteq> k) js) a = arrival_entry js a"
  by (simp add: arrival_entry_def find_job_filter)

definition covered :: "block_job list \<Rightarrow> job_arrival list \<Rightarrow> bool" where
  "covered js as \<longleftrightarrow> distinct (map ja_job_id as) \<and> ja_job_id ` set as \<subseteq> bj_job_id ` set js"

text \<open>The jobs left when the identifiers in \<open>K\<close> are taken out.\<close>

definition jobs_left :: "job_no set \<Rightarrow> block_job list \<Rightarrow> block_job list" where
  "jobs_left K js = filter (\<lambda>j. bj_job_id j \<notin> K) js"

definition arrivals_left :: "job_no set \<Rightarrow> job_arrival list \<Rightarrow> job_arrival list" where
  "arrivals_left K as = filter (\<lambda>a. ja_job_id a \<notin> K) as"

lemma jobs_left_filter: "jobs_left K (filter (\<lambda>j. bj_job_id j \<noteq> k) js) = jobs_left (insert k K) js"
  by (auto simp: jobs_left_def intro: filter_cong)

lemma covered_ConsD:
  assumes "covered js (a # as)"
  obtains r n where "find_job (ja_job_id a) js = Some (r, n)" "ja_job_id a \<notin> ja_job_id ` set as"
    "covered (filter (\<lambda>j. bj_job_id j \<noteq> ja_job_id a) js) as"
    "map (arrival_entry (filter (\<lambda>j. bj_job_id j \<noteq> ja_job_id a) js)) as = map (arrival_entry js) as" "covered js as"
    "arrivals_left (insert (ja_job_id a) K) (a # as) = arrivals_left K as"
proof -
  have "ja_job_id a \<in> bj_job_id ` set js" using assms by (simp add: covered_def)
  then obtain p where p: "find_job (ja_job_id a) js = Some p" using find_job_None by (metis not_None_eq)
  have n: "ja_job_id a \<notin> ja_job_id ` set as" using assms by (simp add: covered_def)
  have neq: "ja_job_id x \<noteq> ja_job_id a" if "x \<in> set as" for x using n that by (metis imageI)
  then have e: "map (arrival_entry (filter (\<lambda>j. bj_job_id j \<noteq> ja_job_id a) js)) as = map (arrival_entry js) as"
    by (simp add: arrival_entry_filter)
  have "ja_job_id ` set as \<subseteq> bj_job_id ` set js - {ja_job_id a}" using assms n unfolding covered_def by (simp add: subset_Diff_insert)
  moreover have "bj_job_id ` set (filter (\<lambda>j. bj_job_id j \<noteq> ja_job_id a) js) = bj_job_id ` set js - {ja_job_id a}" by auto
  ultimately have c: "covered (filter (\<lambda>j. bj_job_id j \<noteq> ja_job_id a) js) as" "covered js as"
    using assms by (auto simp: covered_def)
  have "arrivals_left (insert (ja_job_id a) K) (a # as) = arrivals_left K as"
    using neq by (auto simp: arrivals_left_def intro!: filter_cong)
  then show thesis using that[of "fst p" "snd p"] p n c e by simp
qed

section \<open>The loops\<close>

definition raw_projected :: "sim_time \<Rightarrow> job_entry \<Rightarrow> running_job" where
  "raw_projected now j = \<lparr>rj_start_time = now, rj_run_time = run_time_estimate j, rj_nodes = nodes_requested j\<rparr>"

lemma block_heads_refines:
  assumes "bq_ok bsize q" "active (take e order) = as" "covered (bq_jobs q) as"
    "spec_heads avail (map (arrival_entry (bq_jobs q)) as) = (hs, avail', rest)"
  shows "\<exists>q' order'. block_heads bsize now e avail q order r =
      Inr (map job_id hs, map (raw_projected now) hs, avail', q', order', r + length hs) \<and>
    bq_ok bsize q' \<and> bq_jobs q' = jobs_left (job_id ` set hs) (bq_jobs q) \<and>
    active (take e order') = arrivals_left (job_id ` set hs) as \<and>
    rest = map (arrival_entry (bq_jobs q')) (active (take e order')) \<and>
    drop e order' = drop e order \<and> map ja_submit_time order' = map ja_submit_time order \<and>
    length (filter ja_removed (take e order')) = length (filter ja_removed (take e order)) + length hs"
  using assms
proof (induction as arbitrary: avail q order r hs)
  case Nil
  then show ?case by (subst block_heads.simps) (simp add: find_active jobs_left_def arrivals_left_def)
next
  case (Cons a as)
  obtain rt n where f: "find_job (ja_job_id a) (bq_jobs q) = Some (rt, n)"
      "covered (filter (\<lambda>j. bj_job_id j \<noteq> ja_job_id a) (bq_jobs q)) as"
      "map (arrival_entry (filter (\<lambda>j. bj_job_id j \<noteq> ja_job_id a) (bq_jobs q))) as = map (arrival_entry (bq_jobs q)) as"
    using covered_ConsD[OF Cons.prems(3)] by metis
  note n = arrival_entry_found[OF f(1)]
  show ?case
  proof (cases "n \<le> avail")
    case False
    then have "hs = []" "avail' = avail" "rest = map (arrival_entry (bq_jobs q)) (a # as)" using Cons.prems(4) n by auto
    then show ?thesis using False f(1) Cons.prems(1,2)
      by (subst block_heads.simps) (simp add: find_active get_job_info_eq jobs_left_def arrivals_left_def)
  next
    case True
    obtain hs1 where h: "hs = arrival_entry (bq_jobs q) a # hs1"
      "spec_heads (avail - n) (map (arrival_entry (bq_jobs q)) as) = (hs1, avail', rest)"
      using Cons.prems(4) n True by (auto split: prod.splits)
    obtain found order1 where m: "mark_arrival (ja_job_id a) e order = (found, order1)" by fastforce
    note ma = mark_arrival_active[OF Cons.prems(2) m]
    define q1 where "q1 = bq_remove bsize q (ja_job_id a)"
    have q1: "bq_ok bsize q1" "bq_jobs q1 = filter (\<lambda>j. bj_job_id j \<noteq> ja_job_id a) (bq_jobs q)"
      using bq_remove_law[OF Cons.prems(1)] by (simp_all add: q1_def)
    obtain q' order' where ih: "block_heads bsize now e (avail - n) q1 order1 (r + 1) =
        Inr (map job_id hs1, map (raw_projected now) hs1, avail', q', order', r + 1 + length hs1)"
      "bq_ok bsize q'" "bq_jobs q' = jobs_left (job_id ` set hs1) (bq_jobs q1)"
      "active (take e order') = arrivals_left (job_id ` set hs1) as"
      "rest = map (arrival_entry (bq_jobs q')) (active (take e order'))"
      "drop e order' = drop e order1" "map ja_submit_time order' = map ja_submit_time order1"
      "length (filter ja_removed (take e order')) = length (filter ja_removed (take e order1)) + length hs1"
      using Cons.IH[OF q1(1), of order1 "avail - n" hs1 "r + 1"] ma f(2,3) h(2) unfolding q1(2) by metis
    have "block_heads bsize now e avail q order r =
        Inr (map job_id hs, map (raw_projected now) hs, avail', q', order', r + length hs)"
      using True f(1) Cons.prems(1,2) m ma ih(1) n
      by (subst block_heads.simps) (simp add: find_active get_job_info_eq h(1) q1_def raw_projected_def)
    moreover have "bq_jobs q' = jobs_left (job_id ` set hs) (bq_jobs q)"
      unfolding ih(3) q1(2) jobs_left_filter by (simp add: h(1))
    moreover have "active (take e order') = arrivals_left (job_id ` set hs) (a # as)"
      using covered_ConsD[OF Cons.prems(3), where K = "job_id ` set hs1"] ih(4) h(1) by (metis arrival_entry_fields(1) image_insert list.simps(15))
    ultimately show ?thesis using ih ma h(1) by auto
  qed
qed

lemma block_scan_zero [simp]: "block_scan bsize s now h 0 plan q as = ([], q, as)"
  by (cases as) simp_all

lemma left_empty [simp]: "jobs_left {} js = js" "arrivals_left {} as = as"
  by (simp_all add: jobs_left_def arrivals_left_def)

lemma active_left_removed: "ja_removed a \<Longrightarrow> active (a # as) = active as"
  by simp

lemma block_scan_refines:
  assumes "bq_ok bsize q" "covered (bq_jobs q) (active as)" "h \<notin> ja_job_id ` set (active as)" "avail \<noteq> 0"
    "spec_backfill s now True True avail plan (map (arrival_entry (bq_jobs q)) (active as)) = (st, kept)"
  shows "\<exists>q' as'. block_scan bsize s now h avail plan q as = (map job_id st, q', as') \<and>
    bq_ok bsize q' \<and> bq_jobs q' = jobs_left (job_id ` set st) (bq_jobs q) \<and>
    active as' = arrivals_left (job_id ` set st) (active as) \<and> kept = map (arrival_entry (bq_jobs q')) (active as') \<and>
    map ja_submit_time as' = map ja_submit_time as \<and>
    length (filter ja_removed as') = length (filter ja_removed as) + length st"
  using assms
proof (induction as arbitrary: avail plan q st kept)
  case (Cons a as)
  show ?case
  proof (cases "ja_removed a")
    case True
    then have "spec_backfill s now True True avail plan (map (arrival_entry (bq_jobs q)) (active as)) = (st, kept)"
      "covered (bq_jobs q) (active as)" "h \<notin> ja_job_id ` set (active as)" using Cons.prems by simp_all
    from Cons.IH[OF Cons.prems(1) this(2,3) Cons.prems(4) this(1)] True Cons.prems(4)
    show ?thesis by (auto split: prod.splits)
  next
    case False
    then have act: "active (a # as) = a # active as" by simp
    have cov: "covered (bq_jobs q) (a # active as)" using Cons.prems(2) act by simp
    obtain rt n where f: "find_job (ja_job_id a) (bq_jobs q) = Some (rt, n)" "ja_job_id a \<notin> ja_job_id ` set (active as)"
        "covered (filter (\<lambda>j. bj_job_id j \<noteq> ja_job_id a) (bq_jobs q)) (active as)"
        "map (arrival_entry (filter (\<lambda>j. bj_job_id j \<noteq> ja_job_id a) (bq_jobs q))) (active as) = map (arrival_entry (bq_jobs q)) (active as)"
        "covered (bq_jobs q) (active as)"
      using covered_ConsD[OF cov] by metis
    note n = arrival_entry_found[OF f(1)]
    have ha: "h \<noteq> ja_job_id a" "h \<notin> ja_job_id ` set (active as)" using Cons.prems(3) act by auto
    let ?d = "release_estimate s now rt"
    let ?j = "arrival_entry (bq_jobs q) a"
    show ?thesis
    proof (cases "n \<le> avail \<and> can_fit plan now n ?d")
      case no: False
      then have ad: "\<not> admits s now True True avail plan ?j" using n by (simp add: admits_def)
      obtain kept1 where k: "kept = ?j # kept1"
        "spec_backfill s now True True avail plan (map (arrival_entry (bq_jobs q)) (active as)) = (st, kept1)"
        using Cons.prems(5) ad unfolding act by (auto split: prod.splits)
      obtain q' as' where ih: "block_scan bsize s now h avail plan q as = (map job_id st, q', as')"
        "bq_ok bsize q'" "bq_jobs q' = jobs_left (job_id ` set st) (bq_jobs q)"
        "active as' = arrivals_left (job_id ` set st) (active as)" "kept1 = map (arrival_entry (bq_jobs q')) (active as')"
        "map ja_submit_time as' = map ja_submit_time as"
        "length (filter ja_removed as') = length (filter ja_removed as) + length st"
        using Cons.IH[OF Cons.prems(1) f(5) ha(2) Cons.prems(4) k(2)] by blast
      have sub: "job_id ` set st \<subseteq> ja_job_id ` set (active as)"
        using mset_eq_setD[of "map (arrival_entry (bq_jobs q)) (active as)" "st @ kept1"] spec_backfill_mset[OF k(2)]
        by (auto simp: set_eq_iff image_iff) (metis arrival_entry_fields(1))
      have "arrival_entry (bq_jobs q') a = ?j" using sub f(2) unfolding ih(3) arrival_entry_def jobs_left_def
        by (subst find_job_keep) auto
      moreover have "arrivals_left (job_id ` set st) (a # active as) = a # arrivals_left (job_id ` set st) (active as)"
        using sub f(2) by (auto simp: arrivals_left_def)
      moreover have "block_scan bsize s now h avail plan q (a # as) = (map job_id st, q', a # as')"
        using no ih(1) f(1) False ha(1) Cons.prems(1,4) by (auto simp: get_job_info_eq)
      ultimately show ?thesis using ih k(1) act False by auto
    next
      case yes: True
      then have ad: "admits s now True True avail plan ?j" using n by (simp add: admits_def)
      define q1 where "q1 = bq_remove bsize q (ja_job_id a)"
      have q1: "bq_ok bsize q1" "bq_jobs q1 = filter (\<lambda>j. bj_job_id j \<noteq> ja_job_id a) (bq_jobs q)"
        using bq_remove_law[OF Cons.prems(1)] by (simp_all add: q1_def)
      have jl: "jobs_left K (bq_jobs q1) = jobs_left (insert (ja_job_id a) K) (bq_jobs q)"
        "arrivals_left (insert (ja_job_id a) K) (a # active as) = arrivals_left K (active as)" for K
        unfolding q1(2) jobs_left_filter using covered_ConsD[OF cov] by metis+
      have nn: "\<not> avail < n" using yes by (simp add: not_less)
      have scan: "block_scan bsize s now h avail plan q (a # as) =
          (let (ids, q', as') = block_scan bsize s now h (avail - n) (reserve plan now n ?d) q1 as
           in (ja_job_id a # ids, q', a\<lparr>ja_removed := True\<rparr> # as'))"
        using yes nn f(1) False ha(1) Cons.prems(1,4) by (simp add: get_job_info_eq q1_def)
      show ?thesis
      proof (cases "avail - n = 0")
        case True
        then have "st = [?j]" "kept = map (arrival_entry (bq_jobs q)) (active as)"
          using Cons.prems(5) ad n unfolding act by simp_all
        moreover have "block_scan bsize s now h avail plan q (a # as) = ([ja_job_id a], q1, a\<lparr>ja_removed := True\<rparr> # as)"
          using scan unfolding True by simp
        ultimately show ?thesis using q1 jl[of "{}"] f(4) act False by auto
      next
        case more: False
        obtain st1 where k: "st = ?j # st1"
          "spec_backfill s now True True (avail - n) (reserve plan now n ?d) (map (arrival_entry (bq_jobs q)) (active as)) = (st1, kept)"
          using Cons.prems(5) ad n more unfolding act by (auto simp: charge_def split: prod.splits)
        obtain q' as' where ih: "block_scan bsize s now h (avail - n) (reserve plan now n ?d) q1 as = (map job_id st1, q', as')"
          "bq_ok bsize q'" "bq_jobs q' = jobs_left (job_id ` set st1) (bq_jobs q1)"
          "active as' = arrivals_left (job_id ` set st1) (active as)" "kept = map (arrival_entry (bq_jobs q')) (active as')"
          "map ja_submit_time as' = map ja_submit_time as"
          "length (filter ja_removed as') = length (filter ja_removed as) + length st1"
          using Cons.IH[OF q1(1) _ ha(2) more, of _ st1 kept] f(3,4) k(2) unfolding q1(2) by metis
        have "block_scan bsize s now h avail plan q (a # as) = (map job_id st, q', a\<lparr>ja_removed := True\<rparr> # as')"
          using scan ih(1) k(1) by simp
        moreover have "bq_jobs q' = jobs_left (job_id ` set st) (bq_jobs q)" using ih(3) jl(1) k(1) by simp
        moreover have "active (a\<lparr>ja_removed := True\<rparr> # as') = arrivals_left (job_id ` set st) (active (a # as))"
          unfolding act using ih(4) jl(2)[of "job_id ` set st1"] k(1) by simp
        moreover have "kept = map (arrival_entry (bq_jobs q')) (active (a\<lparr>ja_removed := True\<rparr> # as'))" using ih(5) by simp
        moreover have "map ja_submit_time (a\<lparr>ja_removed := True\<rparr> # as') = map ja_submit_time (a # as)"
          "length (filter ja_removed (a\<lparr>ja_removed := True\<rparr> # as')) = length (filter ja_removed (a # as)) + length st"
          using ih(6,7) k(1) False by simp_all
        ultimately show ?thesis using ih(2) by blast
      qed
    qed
  qed
qed simp

text \<open>Both scans stop at once when no node is free.\<close>

definition bf_part :: "'a scheduler_base_scheme \<Rightarrow> sim_time \<Rightarrow> num_nodes \<Rightarrow> segment list \<Rightarrow> job_entry list \<Rightarrow> job_entry list \<times> job_entry list" where
  "bf_part s now avail plan cs = (if avail = 0 then ([], cs) else spec_backfill s now True True avail plan cs)"

lemma bf_part_mset: "bf_part s now avail plan cs = (st, kept) \<Longrightarrow> mset cs = mset st + mset kept"
  using spec_backfill_mset by (fastforce simp: bf_part_def split: if_splits)

lemma bf_part_refines:
  assumes "bq_ok bsize q" "covered (bq_jobs q) (active as)" "h \<notin> ja_job_id ` set (active as)"
    "bf_part s now avail plan (map (arrival_entry (bq_jobs q)) (active as)) = (st, kept)"
  shows "\<exists>q' as'. block_scan bsize s now h avail plan q as = (map job_id st, q', as') \<and>
    bq_ok bsize q' \<and> bq_jobs q' = jobs_left (job_id ` set st) (bq_jobs q) \<and>
    active as' = arrivals_left (job_id ` set st) (active as) \<and> kept = map (arrival_entry (bq_jobs q')) (active as') \<and>
    map ja_submit_time as' = map ja_submit_time as \<and>
    length (filter ja_removed as') = length (filter ja_removed as) + length st"
proof (cases "avail = 0")
  case True
  then show ?thesis using assms by (auto simp: bf_part_def)
next
  case False
  then show ?thesis using block_scan_refines[OF assms(1-3) False] assms(4) unfolding bf_part_def by simp
qed

text \<open>Under the coverage invariant the depth scan does not throw, and it is the default scan.\<close>

lemma depth_scan_eq:
  assumes "bq_ok bsize q" "covered (bq_jobs q) (active as)" "h \<notin> ja_job_id ` set (active as)"
  shows "depth_scan bsize s now avail plan q as = Inr (block_scan bsize s now h avail plan q as)"
  using assms
proof (induction as arbitrary: avail plan q)
  case (Cons a as)
  show ?case
  proof (cases "ja_removed a")
    case True
    then show ?thesis using Cons by (auto simp: Let_def split: prod.splits)
  next
    case False
    have cov: "covered (bq_jobs q) (a # active as)" using Cons.prems(2) False by simp
    obtain rt n where f: "find_job (ja_job_id a) (bq_jobs q) = Some (rt, n)"
        "covered (filter (\<lambda>j. bj_job_id j \<noteq> ja_job_id a) (bq_jobs q)) (active as)" "covered (bq_jobs q) (active as)"
      using covered_ConsD[OF cov] by metis
    have h: "h \<noteq> ja_job_id a" "h \<notin> ja_job_id ` set (active as)" using Cons.prems(3) False by auto
    have q1: "bq_ok bsize (bq_remove bsize q (ja_job_id a))"
      "covered (bq_jobs (bq_remove bsize q (ja_job_id a))) (active as)"
      using bq_remove_law[OF Cons.prems(1)] f(2) by simp_all
    have "get_job_info bsize q (ja_job_id a) = Some (rt, n)" using f(1) get_job_info_eq[OF Cons.prems(1)] by simp
    then show ?thesis using False h(1)
      by (simp add: Let_def Cons.IH[OF Cons.prems(1) f(3) h(2)] Cons.IH[OF q1 h(2)] split: prod.splits)
  qed
qed simp

section \<open>The invariant and the abstraction\<close>

definition bs_inv :: "nat \<Rightarrow> block_scheduler \<Rightarrow> bool" where
  "bs_inv bsize s \<longleftrightarrow> bq_ok bsize (bs_wait_queue s) \<and>
     bs_eligible_end_idx s \<le> length (bs_job_order s) \<and>
     bs_removed_count s = length (filter ja_removed (take (bs_eligible_end_idx s) (bs_job_order s))) \<and>
     (\<forall>a\<in>set (drop (bs_eligible_end_idx s) (bs_job_order s)). \<not> ja_removed a \<and> bs_current_tracked_time s < ja_submit_time a) \<and>
     (\<forall>a\<in>set (take (bs_eligible_end_idx s) (bs_job_order s)). ja_submit_time a \<le> bs_current_tracked_time s) \<and>
     sorted (map ja_submit_time (bs_job_order s)) \<and>
     map ja_job_id (active (bs_job_order s)) = map bj_job_id (bq_jobs (bs_wait_queue s))"

definition bs_waiting :: "block_scheduler \<Rightarrow> job_entry list" where
  "bs_waiting s = map (arrival_entry (bq_jobs (bs_wait_queue s))) (active (take (bs_eligible_end_idx s) (bs_job_order s)))"

definition bs_future :: "block_scheduler \<Rightarrow> job_entry list" where
  "bs_future s = map (arrival_entry (bq_jobs (bs_wait_queue s))) (drop (bs_eligible_end_idx s) (bs_job_order s))"

definition bs_pending :: "block_scheduler \<Rightarrow> job_entry list" where
  "bs_pending s = bs_waiting s @ bs_future s"

definition bs_in_order :: "block_scheduler \<Rightarrow> job_no \<Rightarrow> sim_time \<Rightarrow> bool" where
  "bs_in_order s i t \<longleftrightarrow> (\<forall>a\<in>set (bs_job_order s). ja_submit_time a \<le> t)"

lemma active_split:
  "active (bs_job_order s) = active (take (bs_eligible_end_idx s) (bs_job_order s)) @ active (drop (bs_eligible_end_idx s) (bs_job_order s))"
  by (metis append_take_drop_id filter_append)

lemma bs_pending_eq: "bs_inv bsize s \<Longrightarrow> bs_pending s = map (arrival_entry (bq_jobs (bs_wait_queue s))) (active (bs_job_order s))"
  by (simp add: bs_pending_def bs_waiting_def bs_future_def active_split[of s] bs_inv_def filter_id_conv)

lemma bs_inv_covered:
  assumes "bs_inv bsize s"
  shows "covered (bq_jobs (bs_wait_queue s)) (active (bs_job_order s))"
    "covered (bq_jobs (bs_wait_queue s)) (active (take (bs_eligible_end_idx s) (bs_job_order s)))"
proof -
  have "distinct (map bj_job_id (bq_jobs (bs_wait_queue s)))"
    using assms by (simp add: bs_inv_def bq_ok_def bq_shape_def strict_sorted_iff)
  moreover have "map ja_job_id (active (bs_job_order s)) = map bj_job_id (bq_jobs (bs_wait_queue s))"
    using assms by (simp add: bs_inv_def)
  ultimately show c: "covered (bq_jobs (bs_wait_queue s)) (active (bs_job_order s))"
    unfolding covered_def by (metis list.set_map order_refl)
  show "covered (bq_jobs (bs_wait_queue s)) (active (take (bs_eligible_end_idx s) (bs_job_order s)))"
    using c unfolding covered_def active_split[of s] by auto
qed

lemma bs_active_count: "bs_inv bsize s \<Longrightarrow> block_active_job_count s = length (bs_waiting s)"
  using sum_length_filter_compl[of ja_removed "take (bs_eligible_end_idx s) (bs_job_order s)"]
  by (simp add: block_active_job_count_def bs_waiting_def bs_inv_def)

lemma bs_pending_ids: "bs_inv bsize s \<Longrightarrow> block_pending_job_ids s = map job_id (bs_pending s)"
  by (simp add: bs_pending_eq block_pending_job_ids_def)

lemma bs_sync:
  assumes "bs_inv bsize s"
  shows "bs_inv bsize (block_sync_to s now) \<and> bs_pending (block_sync_to s now) = bs_pending s \<and>
    bs_current_tracked_time (block_sync_to s now) = max (bs_current_tracked_time s) now"
proof (cases "now \<le> bs_current_tracked_time s")
  case True
  then show ?thesis using assms by (simp add: block_sync_to_def max_def)
next
  case False
  define fs where "fs = drop (bs_eligible_end_idx s) (bs_job_order s)"
  define k where "k = length (takeWhile (\<lambda>a. ja_submit_time a \<le> now) fs)"
  let ?s = "block_sync_to s now"
  have tk: "take k fs = takeWhile (\<lambda>a. ja_submit_time a \<le> now) fs" "drop k fs = dropWhile (\<lambda>a. ja_submit_time a \<le> now) fs"
    by (simp_all add: k_def takeWhile_eq_take[symmetric] dropWhile_eq_drop[symmetric])
  have "k \<le> length fs" by (simp add: k_def length_takeWhile_le)
  then have idx: "bs_eligible_end_idx ?s = bs_eligible_end_idx s + k" "bs_eligible_end_idx ?s \<le> length (bs_job_order s)"
    using False assms by (auto simp: block_sync_to_def k_def fs_def bs_inv_def)
  have same: "bs_job_order ?s = bs_job_order s" "bs_wait_queue ?s = bs_wait_queue s" "bs_removed_count ?s = bs_removed_count s"
    "bs_current_tracked_time ?s = now" using False by (simp_all add: block_sync_to_def)
  have t: "take (bs_eligible_end_idx ?s) (bs_job_order s) = take (bs_eligible_end_idx s) (bs_job_order s) @ take k fs"
    unfolding idx(1) fs_def by (simp add: take_add)
  have d: "drop (bs_eligible_end_idx ?s) (bs_job_order s) = drop k fs"
    unfolding idx(1) fs_def by (simp add: add.commute)
  have sfs: "sorted (map ja_submit_time fs)" using assms by (simp add: bs_inv_def fs_def sorted_wrt_drop flip: drop_map)
  then have late: "\<forall>a\<in>set (drop k fs). now < ja_submit_time a"
    unfolding tk(2) by (induction fs) (auto simp: not_le intro: less_le_trans)
  have early: "\<forall>a\<in>set (take k fs). ja_submit_time a \<le> now" unfolding tk(1) by (auto dest: set_takeWhileD)
  have nr: "\<forall>a\<in>set fs. \<not> ja_removed a" using assms by (simp add: bs_inv_def fs_def)
  then have nrk: "filter ja_removed (take k fs) = []" by (auto simp: filter_empty_conv dest: in_set_takeD)
  have "bs_inv bsize ?s"
    using assms late early nr nrk idx(2) False unfolding bs_inv_def same t d
    by (auto dest: in_set_dropD)
  then show ?thesis using assms False by (auto simp: bs_pending_eq[of bsize] same max_def)
qed

lemma bs_insert:
  assumes inv: "bs_inv bsize s" and ord: "bs_in_order s i t" and ins: "block_insert_job bsize s i t r n = Inr s'"
  shows "bs_inv bsize s' \<and> bs_pending s' = bs_pending s @ [new_entry i t r n] \<and>
    bs_current_tracked_time s' = bs_current_tracked_time s"
proof -
  obtain q where q: "bq_insert bsize (bs_wait_queue s) i t r n = Inr q" using ins by (auto simp: block_insert_job_def split: sum.splits)
  have ok: "bq_ok bsize (bs_wait_queue s)" using inv by (simp add: bs_inv_def)
  have ql: "bq_ok bsize q" "bq_jobs q = bq_jobs (bs_wait_queue s) @ [block_job_of i t r n]"
    using bq_insert_law[OF ok, of i t r n] q by (auto split: if_splits)
  have s': "bs_wait_queue s' = q" "bs_job_order s' = bs_job_order s @ [new_arrival i t]"
    "bs_current_tracked_time s' = bs_current_tracked_time s" "bs_removed_count s' = bs_removed_count s"
    "bs_eligible_end_idx s' = (if t \<le> bs_current_tracked_time s then Suc (length (bs_job_order s)) else bs_eligible_end_idx s)"
    using ins q by (auto simp: block_insert_job_def Let_def)
  have "drop (bs_eligible_end_idx s) (bs_job_order s) = []" if "t \<le> bs_current_tracked_time s"
  proof (rule ccontr)
    assume "drop (bs_eligible_end_idx s) (bs_job_order s) \<noteq> []"
    then obtain a where "a \<in> set (drop (bs_eligible_end_idx s) (bs_job_order s))" by (meson list.set_sel(1))
    then have "bs_current_tracked_time s < ja_submit_time a" "ja_submit_time a \<le> t"
      using inv ord by (auto simp: bs_inv_def bs_in_order_def dest: in_set_dropD)
    then show False using that by simp
  qed
  then have e: "t \<le> bs_current_tracked_time s \<Longrightarrow> bs_eligible_end_idx s = length (bs_job_order s)"
    using inv by (simp add: bs_inv_def)
  have inv': "bs_inv bsize s'"
    using inv ql ord e unfolding bs_inv_def s' by (auto simp: new_arrival_def block_job_of_def sorted_append bs_in_order_def)
  have new: "i \<notin> bj_job_id ` set (bq_jobs (bs_wait_queue s))"
    using ql by (auto simp: bq_ok_def bq_shape_def sorted_wrt_append block_job_of_def)
  have "find_job k (bq_jobs q) = (if k = i then Some (r, n) else find_job k (bq_jobs (bs_wait_queue s)))" for k
    using new find_job_None[of i "bq_jobs (bs_wait_queue s)"] unfolding ql(2)
    by (auto simp: find_job_append block_job_of_def split: option.splits)
  then have "arrival_entry (bq_jobs q) a = (if ja_job_id a = i then new_entry i (ja_submit_time a) r n else arrival_entry (bq_jobs (bs_wait_queue s)) a)" for a
    by (simp add: arrival_entry_def)
  moreover have "i \<notin> ja_job_id ` set (active (bs_job_order s))"
    using new inv by (metis bs_inv_def list.set_map)
  ultimately show ?thesis using inv' s' by (auto simp: bs_pending_eq[OF inv] bs_pending_eq[OF inv'] new_arrival_def)
qed

text \<open>Taking started jobs out of both structures keeps the invariant and the future jobs.\<close>

lemma left_commute:
  "map ja_job_id (arrivals_left K as) = filter (\<lambda>i. i \<notin> K) (map ja_job_id as)"
  "map bj_job_id (jobs_left K js) = filter (\<lambda>i. i \<notin> K) (map bj_job_id js)"
  by (simp_all add: arrivals_left_def jobs_left_def filter_map o_def)

lemma bs_inv_step:
  assumes inv: "bs_inv bsize s"
    and q: "bq_ok bsize q" "bq_jobs q = jobs_left K (bq_jobs (bs_wait_queue s))"
    and o: "active (take (bs_eligible_end_idx s) order) = arrivals_left K (active (take (bs_eligible_end_idx s) (bs_job_order s)))"
      "drop (bs_eligible_end_idx s) order = drop (bs_eligible_end_idx s) (bs_job_order s)"
      "map ja_submit_time order = map ja_submit_time (bs_job_order s)"
    and r: "r = length (filter ja_removed (take (bs_eligible_end_idx s) order))"
    and K: "K \<subseteq> ja_job_id ` set (active (take (bs_eligible_end_idx s) (bs_job_order s)))"
    and s': "bs_wait_queue s' = q" "bs_job_order s' = order" "bs_removed_count s' = r"
      "bs_eligible_end_idx s' = bs_eligible_end_idx s" "bs_current_tracked_time s' = bs_current_tracked_time s"
  shows "bs_inv bsize s' \<and> bs_future s' = bs_future s"
proof -
  let ?e = "bs_eligible_end_idx s" and ?o = "bs_job_order s"
  have len: "length order = length ?o" using o(3) by (metis length_map)
  have fut: "active (drop ?e ?o) = drop ?e ?o" using inv by (simp add: bs_inv_def filter_id_conv)
  have dis: "distinct (map ja_job_id (active (take ?e ?o) @ drop ?e ?o))"
    using bs_inv_covered(1)[OF inv] unfolding covered_def active_split fut by simp
  then have notK: "ja_job_id a \<notin> K" if "a \<in> set (drop ?e ?o)" for a using that K by auto
  then have "arrivals_left K (drop ?e ?o) = drop ?e ?o" by (simp add: arrivals_left_def filter_id_conv)
  then have "active order = arrivals_left K (active ?o)"
    unfolding active_split using o(1,2) fut
    by (metis append_take_drop_id arrivals_left_def filter_append)
  then have ids: "map ja_job_id (active order) = map bj_job_id (bq_jobs q)"
    using inv unfolding q(2) by (simp only: left_commute bs_inv_def)
  have "map ja_submit_time (take ?e order) = map ja_submit_time (take ?e ?o)" using o(3) by (metis take_map)
  then have "set (map ja_submit_time (take ?e order)) = set (map ja_submit_time (take ?e ?o))" by simp
  then have early: "\<forall>a\<in>set (take ?e order). ja_submit_time a \<le> bs_current_tracked_time s"
    using inv unfolding bs_inv_def by (metis (no_types, lifting) image_iff list.set_map)
  have "bs_inv bsize s'"
    using inv q(1) len early ids unfolding bs_inv_def s' o(2,3) r by simp
  moreover have "arrival_entry (bq_jobs q) a = arrival_entry (bq_jobs (bs_wait_queue s)) a" if "a \<in> set (drop ?e ?o)" for a
    unfolding arrival_entry_def q(2) jobs_left_def using find_job_keep[OF notK[OF that]] by simp
  ultimately show ?thesis by (simp add: bs_future_def s' o(2))
qed

section \<open>The abstract pass\<close>

definition block_pass ::
  "'a scheduler_base_scheme \<Rightarrow> nat \<Rightarrow> num_nodes \<Rightarrow> running_jobs \<Rightarrow> sim_time \<Rightarrow> job_entry list \<Rightarrow> easy_result" where
  "block_pass s depth free running now ws =
     (let (hs, avail, rest) = spec_heads free ws;
          none = \<lparr>er_heads = hs, er_backfilled = [], er_waiting = rest, er_avail = avail,
                  er_reservation = m_fcfs_reservation_time s\<rparr>
      in case rest of [] \<Rightarrow> none
         | head # behind \<Rightarrow>
           if m_backfill_policy s = NONE then none
           else let plan = reservation_timeline s avail running now (map (raw_projected now) hs);
                    res = value_or_max (earliest_fit plan (nodes_requested head) 0 now);
                    planned = reservation_within_horizon s res now;
                    plan = (if planned then reserve plan res (nodes_requested head)
                              (release_estimate s res (run_time_estimate head)) else plan);
                    (cs, unseen) = candidates depth planned behind;
                    (st, kept) = bf_part s now avail plan cs
                in none\<lparr>er_backfilled := st, er_waiting := head # kept @ unseen, er_reservation := res\<rparr>)"

lemma block_pass_none:
  assumes "spec_heads free ws = (hs, avail, rest)" "rest = [] \<or> m_backfill_policy s = NONE"
  shows "block_pass s depth free running now ws = \<lparr>er_heads = hs, er_backfilled = [], er_waiting = rest, er_avail = avail,
      er_reservation = m_fcfs_reservation_time s\<rparr>"
  unfolding block_pass_def Let_def assms(1) prod.case using assms(2) by (cases rest) auto

lemma block_pass_scan:
  assumes "spec_heads free ws = (hs, avail, head # behind)" "m_backfill_policy s \<noteq> NONE"
    and plan: "plan = reservation_timeline s avail running now (map (raw_projected now) hs)"
    and res: "res = value_or_max (earliest_fit plan (nodes_requested head) 0 now)"
    and planned: "planned = reservation_within_horizon s res now"
    and plan': "plan' = (if planned then reserve plan res (nodes_requested head)
                  (release_estimate s res (run_time_estimate head)) else plan)"
    and c: "candidates depth planned behind = (cs, unseen)" and bf: "bf_part s now avail plan' cs = (st, kept)"
  shows "block_pass s depth free running now ws =
    \<lparr>er_heads = hs, er_backfilled = st, er_waiting = head # kept @ unseen, er_avail = avail, er_reservation = res\<rparr>"
  unfolding block_pass_def Let_def assms(1) prod.case list.case plan[symmetric] res[symmetric] planned[symmetric]
    plan'[symmetric] c bf using assms(2) by simp

text \<open>The default scan steps over the removed arrivals before the head and over the head.\<close>

lemma block_scan_skip:
  assumes "\<forall>a\<in>set pre. ja_removed a"
  shows "block_scan bsize s now (ja_job_id h) avail plan q (pre @ h # post) =
    (let (ids, q', post') = block_scan bsize s now (ja_job_id h) avail plan q post in (ids, q', pre @ h # post'))"
  using assms by (cases "avail = 0") (simp, induction pre, auto split: prod.splits)

lemma active_ConsD:
  assumes "active as = h # hs"
  shows "\<exists>pre post. as = pre @ h # post \<and> (\<forall>a\<in>set pre. ja_removed a) \<and> \<not> ja_removed h \<and> active post = hs"
  using assms by (metis (mono_tags, lifting) filter_eq_ConsD)

lemma entry_left: "ja_job_id a \<notin> K \<Longrightarrow> arrival_entry (jobs_left K js) a = arrival_entry js a"
  unfolding arrival_entry_def jobs_left_def by (subst find_job_keep) auto

text \<open>The scan of a part \<open>p1\<close> of the arrivals behind the head, on both structures.\<close>

lemma scan_part:
  assumes inv: "bs_inv bsize s"
    and e: "e = bs_eligible_end_idx s" and split: "take e (bs_job_order s) = pre @ h # p1 @ p2"
    and pre: "\<forall>a\<in>set pre. ja_removed a" and h: "\<not> ja_removed h"
    and E: "E = arrival_entry (bq_jobs (bs_wait_queue s))"
    and bf: "bf_part b now avail plan (map E (active p1)) = (st, kept)"
  shows "\<exists>q p1'. block_scan bsize b now (ja_job_id h) avail plan (bs_wait_queue s) p1 = (map job_id st, q, p1') \<and>
    depth_scan bsize b now avail plan (bs_wait_queue s) p1 = Inr (map job_id st, q, p1') \<and>
    (\<forall>s'. bs_wait_queue s' = q \<longrightarrow> bs_job_order s' = pre @ h # p1' @ p2 @ drop e (bs_job_order s) \<longrightarrow>
       bs_removed_count s' = bs_removed_count s + length st \<longrightarrow> bs_eligible_end_idx s' = e \<longrightarrow>
       bs_current_tracked_time s' = bs_current_tracked_time s \<longrightarrow>
       bs_inv bsize s' \<and> bs_future s' = bs_future s \<and> bs_waiting s' = E h # kept @ map E (active p2))"
proof -
  let ?q = "bs_wait_queue s" and ?K = "job_id ` set st"
  have ok: "bq_ok bsize ?q" using inv by (simp add: bs_inv_def)
  have act: "active (take e (bs_job_order s)) = h # active p1 @ active p2"
    unfolding split using pre h by (simp add: filter_empty_conv)
  have cov: "covered (bq_jobs ?q) (h # active p1 @ active p2)" using bs_inv_covered(2)[OF inv] act e by simp
  then have cov1: "covered (bq_jobs ?q) (active p1)" "ja_job_id h \<notin> ja_job_id ` set (active p1)"
    and dis: "ja_job_id h \<notin> ja_job_id ` set (active p1)" "ja_job_id ` set (active p1) \<inter> ja_job_id ` set (active p2) = {}"
    by (auto simp: covered_def)
  obtain q p1' where sc: "block_scan bsize b now (ja_job_id h) avail plan ?q p1 = (map job_id st, q, p1')"
    "bq_ok bsize q" "bq_jobs q = jobs_left ?K (bq_jobs ?q)" "active p1' = arrivals_left ?K (active p1)"
    "kept = map (arrival_entry (bq_jobs q)) (active p1')" "map ja_submit_time p1' = map ja_submit_time p1"
    "length (filter ja_removed p1') = length (filter ja_removed p1) + length st"
    using bf_part_refines[OF ok cov1 bf[unfolded E]] by blast
  have ds: "depth_scan bsize b now avail plan ?q p1 = Inr (map job_id st, q, p1')"
    using depth_scan_eq[OF ok cov1, of b now avail plan] unfolding sc(1) .
  have "set st \<subseteq> set (map E (active p1))"
    using mset_eq_setD[of "map E (active p1)" "st @ kept"] bf_part_mset[OF bf] by auto
  then have "?K \<subseteq> job_id ` set (map E (active p1))" by (rule image_mono)
  then have K: "?K \<subseteq> ja_job_id ` set (active p1)" unfolding E by (simp only: set_map image_image arrival_entry_fields)
  have len: "length p1' = length p1" using sc(6) by (metis length_map)
  have lt: "length (pre @ h # p1 @ p2) = e" using split inv e
    by (metis bs_inv_def length_take min.absorb2)
  define order where "order = pre @ h # p1' @ p2 @ drop e (bs_job_order s)"
  have tk: "take e order = pre @ h # p1' @ p2" "drop e order = drop e (bs_job_order s)"
    using lt len by (auto simp: order_def)
  have act': "active (take e order) = h # active p1' @ active p2"
    unfolding tk using pre h by (simp add: filter_empty_conv)
  have hK: "ja_job_id h \<notin> ?K" and p2K: "\<forall>a\<in>set (active p2). ja_job_id a \<notin> ?K" using K dis by blast+
  have left: "active (take e order) = arrivals_left ?K (active (take e (bs_job_order s)))"
  proof -
    have "arrivals_left ?K (active p2) = active p2" using p2K unfolding arrivals_left_def by (intro filter_True)
    then show ?thesis unfolding act' act sc(4) using hK by (simp add: arrivals_left_def)
  qed
  have "map ja_submit_time order = map ja_submit_time ((pre @ h # p1 @ p2) @ drop e (bs_job_order s))"
    by (simp add: order_def sc(6))
  then have sub: "map ja_submit_time order = map ja_submit_time (bs_job_order s)"
    unfolding split[symmetric] by simp
  have rem: "bs_removed_count s + length st = length (filter ja_removed (take e order))"
    using inv sc(7) unfolding tk bs_inv_def e[symmetric] split by simp
  have K': "?K \<subseteq> ja_job_id ` set (active (take e (bs_job_order s)))" unfolding act using K by auto
  have w: "map (arrival_entry (bq_jobs q)) (active (take e order)) = E h # kept @ map E (active p2)"
    unfolding act' sc(3) E using hK p2K sc(5)[unfolded sc(3)] by (auto simp: entry_left)
  show ?thesis
  proof (intro exI conjI allI impI)
    fix s' :: block_scheduler assume s': "bs_wait_queue s' = q" "bs_job_order s' = pre @ h # p1' @ p2 @ drop e (bs_job_order s)"
      "bs_removed_count s' = bs_removed_count s + length st" "bs_eligible_end_idx s' = e"
      "bs_current_tracked_time s' = bs_current_tracked_time s"
    note st = bs_inv_step[OF inv sc(2,3) left[unfolded e] tk(2)[unfolded e] sub rem[unfolded e] K'[unfolded e] s'(1)
        s'(2)[folded order_def] s'(3) s'(4)[unfolded e] s'(5)]
    then show "bs_inv bsize s'" "bs_future s' = bs_future s" by simp_all
    show "bs_waiting s' = E h # kept @ map E (active p2)"
      using w unfolding bs_waiting_def s'(1,4) s'(2)[folded order_def] .
  qed (use sc(1) ds in simp_all)
qed

text \<open>The state after the head loop.\<close>

lemma heads_part:
  assumes inv: "bs_inv bsize s" and sh: "spec_heads free (bs_waiting s) = (hs, avail, rest)"
  shows "\<exists>q order r. block_heads bsize now (bs_eligible_end_idx s) free (bs_wait_queue s) (bs_job_order s) (bs_removed_count s) =
      Inr (map job_id hs, map (raw_projected now) hs, avail, q, order, r) \<and>
    (\<forall>s'. s' = s\<lparr>bs_wait_queue := q, bs_job_order := order, bs_removed_count := r\<rparr> \<longrightarrow>
       bs_inv bsize s' \<and> bs_waiting s' = rest \<and> bs_future s' = bs_future s)"
proof -
  let ?e = "bs_eligible_end_idx s" and ?q = "bs_wait_queue s" and ?o = "bs_job_order s"
  have ok: "bq_ok bsize ?q" using inv by (simp add: bs_inv_def)
  obtain q order where b: "block_heads bsize now ?e free ?q ?o (bs_removed_count s) =
      Inr (map job_id hs, map (raw_projected now) hs, avail, q, order, bs_removed_count s + length hs)"
    "bq_ok bsize q" "bq_jobs q = jobs_left (job_id ` set hs) (bq_jobs ?q)"
    "active (take ?e order) = arrivals_left (job_id ` set hs) (active (take ?e ?o))"
    "rest = map (arrival_entry (bq_jobs q)) (active (take ?e order))"
    "drop ?e order = drop ?e ?o" "map ja_submit_time order = map ja_submit_time ?o"
    "length (filter ja_removed (take ?e order)) = length (filter ja_removed (take ?e ?o)) + length hs"
    using block_heads_refines[OF ok refl bs_inv_covered(2)[OF inv] sh[unfolded bs_waiting_def], of now "bs_removed_count s"] by blast
  have "set hs \<subseteq> set (bs_waiting s)" using spec_heads_correct[OF sh] by auto
  then have "job_id ` set hs \<subseteq> job_id ` set (bs_waiting s)" by (rule image_mono)
  then have K: "job_id ` set hs \<subseteq> ja_job_id ` set (active (take ?e ?o))"
    unfolding bs_waiting_def by (simp only: set_map image_image arrival_entry_fields)
  have r: "bs_removed_count s + length hs = length (filter ja_removed (take ?e order))" using b(8) inv by (simp add: bs_inv_def)
  have "bs_inv bsize s' \<and> bs_waiting s' = rest \<and> bs_future s' = bs_future s"
    if "s' = s\<lparr>bs_wait_queue := q, bs_job_order := order, bs_removed_count := bs_removed_count s + length hs\<rparr>" for s'
    using bs_inv_step[OF inv b(2,3,4,6,7) r K, of s'] b(5) that by (simp add: bs_waiting_def)
  then show ?thesis using b(1) by blast
qed

text \<open>The scan behind the head, whichever of the two loops runs it.\<close>

lemma backfill_part:
  assumes inv: "bs_inv bsize s" and w: "bs_waiting s = head # behind"
    and c: "candidates (bs_backfill_queue_depth s) planned behind = (cs, unseen)"
    and bf: "bf_part s now avail plan cs = (st, kept)"
  obtains a where "find (\<lambda>a. \<not> ja_removed a) (take (bs_eligible_end_idx s) (bs_job_order s)) = Some a"
    "get_job_info bsize (bs_wait_queue s) (ja_job_id a) = Some (run_time_estimate head, nodes_requested head)"
    "bs_backfill_queue_depth s \<noteq> 0 \<Longrightarrow> \<exists>s'. backfill_with_queue_depth bsize s planned now plan avail = Inr (map job_id st, s') \<and>
        bs_inv bsize s' \<and> bs_waiting s' = head # kept @ unseen \<and> bs_future s' = bs_future s"
    "bs_backfill_queue_depth s = 0 \<Longrightarrow> \<exists>q as. block_scan bsize s now (ja_job_id a) avail plan (bs_wait_queue s)
          (take (bs_eligible_end_idx s) (bs_job_order s)) = (map job_id st, q, as) \<and>
        (\<forall>s'. s' = s\<lparr>bs_wait_queue := q, bs_job_order := as @ drop (bs_eligible_end_idx s) (bs_job_order s),
                     bs_removed_count := bs_removed_count s + length (map job_id st)\<rparr> \<longrightarrow>
           bs_inv bsize s' \<and> bs_waiting s' = head # kept @ unseen \<and> bs_future s' = bs_future s)"
proof -
  define e order E where "e = bs_eligible_end_idx s" and "order = bs_job_order s" and "E = arrival_entry (bq_jobs (bs_wait_queue s))"
  obtain a hs where act: "active (take e order) = a # hs" "head = E a" "behind = map E hs"
    using w by (auto simp: bs_waiting_def e_def order_def E_def)
  obtain pre post where sp: "take e order = pre @ a # post" "\<forall>x\<in>set pre. ja_removed x" "\<not> ja_removed a" "active post = hs"
    using active_ConsD[OF act(1)] by blast
  have ok: "bq_ok bsize (bs_wait_queue s)" using inv by (simp add: bs_inv_def)
  have e: "e \<le> length order" using inv by (simp add: e_def order_def bs_inv_def)
  have cov: "covered (bq_jobs (bs_wait_queue s)) (a # hs)"
    using bs_inv_covered(2)[OF inv] act(1) unfolding e_def order_def by simp
  obtain rt n where "find_job (ja_job_id a) (bq_jobs (bs_wait_queue s)) = Some (rt, n)"
    using covered_ConsD[OF cov] by metis
  then have info: "get_job_info bsize (bs_wait_queue s) (ja_job_id a) = Some (run_time_estimate head, nodes_requested head)"
    using arrival_entry_found[of a] by (simp add: get_job_info_eq[OF ok] act(2) E_def)
  have find: "find (\<lambda>a. \<not> ja_removed a) (take e order) = Some a" using act(1) by (simp add: find_active)
  show thesis
  proof (rule that[OF find[unfolded e_def order_def] info])
    assume d: "bs_backfill_queue_depth s = 0"
    then have cs: "cs = map E (active post)" "unseen = []" using c act(3) sp(4) by (simp_all add: candidates_def)
    obtain q p1' where sc: "block_scan bsize s now (ja_job_id a) avail plan (bs_wait_queue s) post = (map job_id st, q, p1')"
      and fin: "\<forall>s'. bs_wait_queue s' = q \<longrightarrow> bs_job_order s' = pre @ a # p1' @ [] @ drop e (bs_job_order s) \<longrightarrow>
       bs_removed_count s' = bs_removed_count s + length st \<longrightarrow> bs_eligible_end_idx s' = e \<longrightarrow>
       bs_current_tracked_time s' = bs_current_tracked_time s \<longrightarrow>
       bs_inv bsize s' \<and> bs_future s' = bs_future s \<and> bs_waiting s' = E a # kept @ map E (active [])"
      using scan_part[OF inv e_def, of pre a post "[]", OF _ sp(2,3) E_def bf[unfolded cs(1)]] sp(1) order_def by auto
    have "block_scan bsize s now (ja_job_id a) avail plan (bs_wait_queue s) (take e order) = (map job_id st, q, pre @ a # p1')"
      unfolding sp(1) by (simp add: block_scan_skip[OF sp(2)] sc)
    then show "\<exists>q as. block_scan bsize s now (ja_job_id a) avail plan (bs_wait_queue s)
          (take (bs_eligible_end_idx s) (bs_job_order s)) = (map job_id st, q, as) \<and>
        (\<forall>s'. s' = s\<lparr>bs_wait_queue := q, bs_job_order := as @ drop (bs_eligible_end_idx s) (bs_job_order s),
                     bs_removed_count := bs_removed_count s + length (map job_id st)\<rparr> \<longrightarrow>
           bs_inv bsize s' \<and> bs_waiting s' = head # kept @ unseen \<and> bs_future s' = bs_future s)"
      using fin act(2) cs(2) unfolding e_def order_def by auto
  next
    assume d: "bs_backfill_queue_depth s \<noteq> 0"
    define m where "m = bs_backfill_queue_depth s - (if planned then 1 else 0)"
    define k where "k = depth_walk m (map ja_removed post)"
    note dw = depth_walk_filter[of m ja_removed post, folded k_def]
    have cs: "cs = map E (active (take k post))" "unseen = map E (active (drop k post))"
      using c d dw act(3) sp(4) by (auto simp: candidates_def m_def Let_def take_map drop_map)
    have hi: "length (takeWhile ja_removed (take e order)) = length pre"
      unfolding sp(1) using sp(2,3) by (simp add: takeWhile_append2 takeWhile_eq_all_conv)
    have post: "post = drop (Suc (length pre)) (take e order)" unfolding sp(1) by simp
    have se: "queue_depth_scan_end (map ja_removed order) (Suc (length pre)) e (bs_backfill_queue_depth s) planned = Suc (length pre) + k"
      using d unfolding queue_depth_scan_end_def k_def m_def post by (simp add: take_map drop_map)
    have le: "Suc (length pre) + length post = e" using e sp(1)
      by (metis add_Suc_right add_Suc_shift length_Cons length_append length_take min.absorb2)
    have full: "order = pre @ a # post @ drop e order" using sp(1) by (metis append_Cons append_assoc append_take_drop_id)
    have parts: "drop (Suc (length pre)) (take (Suc (length pre) + k) order) = take k post"
      "take (Suc (length pre)) order = pre @ [a]" "drop (Suc (length pre) + k) order = drop k post @ drop e order"
      using dw le by (subst full; simp)+
    obtain q p1' where sc: "depth_scan bsize s now avail plan (bs_wait_queue s) (take k post) = Inr (map job_id st, q, p1')"
      and fin: "\<forall>s'. bs_wait_queue s' = q \<longrightarrow> bs_job_order s' = pre @ a # p1' @ drop k post @ drop e (bs_job_order s) \<longrightarrow>
       bs_removed_count s' = bs_removed_count s + length st \<longrightarrow> bs_eligible_end_idx s' = e \<longrightarrow>
       bs_current_tracked_time s' = bs_current_tracked_time s \<longrightarrow>
       bs_inv bsize s' \<and> bs_future s' = bs_future s \<and> bs_waiting s' = E a # kept @ map E (active (drop k post))"
      using scan_part[OF inv e_def, of pre a "take k post" "drop k post", OF _ sp(2,3) E_def bf[unfolded cs(1)]]
        sp(1) order_def by auto
    show "\<exists>s'. backfill_with_queue_depth bsize s planned now plan avail = Inr (map job_id st, s') \<and>
        bs_inv bsize s' \<and> bs_waiting s' = head # kept @ unseen \<and> bs_future s' = bs_future s"
      unfolding backfill_with_queue_depth_def Let_def e_def[symmetric] order_def[symmetric]
      using sc fin parts hi se cs(2) act(2) by (simp add: order_def e_def)
  qed
qed

section \<open>The scheduling call\<close>

lemma bs_pass_cong:
  assumes "same_planning s s'"
  shows "bf_part s = bf_part s'" "m_fcfs_reservation_time s = m_fcfs_reservation_time s' \<Longrightarrow> block_pass s = block_pass s'"
proof -
  show b: "bf_part s = bf_part s'"
    by (intro ext) (simp add: bf_part_def spec_backfill_cong[OF assms])
  show "block_pass s = block_pass s'" if "m_fcfs_reservation_time s = m_fcfs_reservation_time s'"
    unfolding block_pass_def planning_cong[OF assms] that b ..
qed

lemma block_schedule_refines:
  assumes inv: "bs_inv bsize s"
    and er: "er = block_pass s (bs_backfill_queue_depth s) free running now (bs_waiting (block_sync_to s now))"
  shows "\<exists>s'. block_schedule bsize s free running now = Inr (map job_id (er_heads er @ er_backfilled er), s') \<and>
    bs_inv bsize s' \<and> bs_waiting s' = er_waiting er \<and> bs_future s' = bs_future (block_sync_to s now) \<and>
    bs_current_tracked_time s' = max (bs_current_tracked_time s) now"
proof -
  define s0 where "s0 = block_sync_to s now"
  have inv0: "bs_inv bsize s0" and clk0: "bs_current_tracked_time s0 = max (bs_current_tracked_time s) now"
    using bs_sync[OF inv] by (simp_all add: s0_def)
  have sp: "same_planning s0 s" "m_fcfs_reservation_time s0 = m_fcfs_reservation_time s" "bs_backfill_queue_depth s0 = bs_backfill_queue_depth s"
    by (simp_all add: s0_def block_sync_to_def same_planning_def)
  have er0: "er = block_pass s0 (bs_backfill_queue_depth s0) free running now (bs_waiting s0)"
    unfolding er s0_def[symmetric] sp(3) bs_pass_cong(2)[OF sp(1,2)] ..
  obtain hs avail rest where sh: "spec_heads free (bs_waiting s0) = (hs, avail, rest)" by (metis prod_cases3)
  show ?thesis
  proof (cases "bs_waiting s0 = []")
    case True
    then have "\<not> block_has_eligible_jobs s0" using bs_active_count[OF inv0] by (simp add: block_has_eligible_jobs_def)
    moreover have "er_heads er = []" "er_backfilled er = []" "er_waiting er = []" using er0 True by (simp_all add: block_pass_def)
    ultimately show ?thesis using inv0 clk0 True by (simp add: block_schedule_def s0_def[symmetric])
  next
    case False
    then have elig: "block_has_eligible_jobs s0" using bs_active_count[OF inv0] by (simp add: block_has_eligible_jobs_def)
    obtain q order r s1 where h: "block_heads bsize now (bs_eligible_end_idx s0) free (bs_wait_queue s0) (bs_job_order s0) (bs_removed_count s0) =
        Inr (map job_id hs, map (raw_projected now) hs, avail, q, order, r)"
      and s1: "s1 = s0\<lparr>bs_wait_queue := q, bs_job_order := order, bs_removed_count := r\<rparr>"
      and l1: "bs_inv bsize s1" "bs_waiting s1 = rest" "bs_future s1 = bs_future s0"
      using heads_part[OF inv0 sh] by metis
    have clk1: "bs_current_tracked_time s1 = max (bs_current_tracked_time s) now" using clk0 s1 by simp
    note eval = block_schedule_def s0_def[symmetric] Let_def h sum.case prod.case s1[symmetric]
    show ?thesis
    proof (cases "rest = [] \<or> m_backfill_policy s0 = NONE")
      case True
      then have "er = \<lparr>er_heads = hs, er_backfilled = [], er_waiting = rest, er_avail = avail,
          er_reservation = m_fcfs_reservation_time s0\<rparr>"
        unfolding er0 by (rule block_pass_none[OF sh])
      moreover have "block_active_job_count s1 = 0 \<or> m_backfill_policy s1 = NONE"
        using True bs_active_count[OF l1(1)] l1(2) s1 by auto
      then have "block_schedule bsize s free running now = Inr (map job_id hs, s1)"
        unfolding eval using elig by simp
      ultimately show ?thesis using l1 clk1 s0_def by simp
    next
      case more: False
      then obtain head behind where rest: "rest = head # behind" by (cases rest) auto
      define plan res where "plan = reservation_timeline s0 avail running now (map (raw_projected now) hs)"
        and "res = value_or_max (earliest_fit plan (nodes_requested head) 0 now)"
      define s2 where "s2 = s1\<lparr>m_fcfs_reservation_time := res\<rparr>"
      have p: "same_planning s1 s0" "same_planning s2 s0" by (simp_all add: s1 s2_def same_planning_def)
      define planned where "planned = reservation_within_horizon s0 res now"
      define plan' where "plan' = (if planned then reserve plan res (nodes_requested head) (release_estimate s0 res (run_time_estimate head)) else plan)"
      obtain cs unseen where c: "candidates (bs_backfill_queue_depth s0) planned behind = (cs, unseen)" by fastforce
      obtain st kept where bf: "bf_part s0 now avail plan' cs = (st, kept)" by fastforce
      have er': "er = \<lparr>er_heads = hs, er_backfilled = st, er_waiting = head # kept @ unseen, er_avail = avail, er_reservation = res\<rparr>"
        unfolding er0 using more by (intro block_pass_scan[OF sh[unfolded rest] _ plan_def res_def planned_def plan'_def c bf]) simp
      have l2: "bs_inv bsize s2" "bs_waiting s2 = head # behind" "bs_future s2 = bs_future s0" "bs_backfill_queue_depth s2 = bs_backfill_queue_depth s0"
        using l1 rest by (simp_all add: s2_def bs_inv_def bs_waiting_def bs_future_def s1)
      obtain a where a: "find (\<lambda>a. \<not> ja_removed a) (take (bs_eligible_end_idx s0) order) = Some a"
        "get_job_info bsize q (ja_job_id a) = Some (run_time_estimate head, nodes_requested head)"
        and deep: "bs_backfill_queue_depth s2 \<noteq> 0 \<Longrightarrow> \<exists>s'. backfill_with_queue_depth bsize s2 planned now plan' avail = Inr (map job_id st, s') \<and>
          bs_inv bsize s' \<and> bs_waiting s' = head # kept @ unseen \<and> bs_future s' = bs_future s2"
        and flat: "bs_backfill_queue_depth s2 = 0 \<Longrightarrow> \<exists>q' as. block_scan bsize s2 now (ja_job_id a) avail plan' q (take (bs_eligible_end_idx s0) order) = (map job_id st, q', as) \<and>
          (\<forall>s'. s' = s2\<lparr>bs_wait_queue := q', bs_job_order := as @ drop (bs_eligible_end_idx s0) order, bs_removed_count := r + length (map job_id st)\<rparr> \<longrightarrow>
             bs_inv bsize s' \<and> bs_waiting s' = head # kept @ unseen \<and> bs_future s' = bs_future s2)"
        by (rule backfill_part[OF l2(1,2) c[folded l2(4)] bf[folded bs_pass_cong(1)[OF p(2)]]])
           (simp add: s2_def s1)
      have act: "\<not> (block_active_job_count s1 = 0 \<or> m_backfill_policy s1 = NONE)"
        using more rest bs_active_count[OF l1(1)] l1(2) s1 by simp
      have sched: "block_schedule bsize s free running now =
        (if bs_backfill_queue_depth s2 \<noteq> 0 then
           (case backfill_with_queue_depth bsize s2 planned now plan' avail of Inl x \<Rightarrow> Inl x | Inr (ids', s') \<Rightarrow> Inr (map job_id hs @ ids', s'))
         else (case block_scan bsize s2 now (ja_job_id a) avail plan' q (take (bs_eligible_end_idx s0) order) of (ids', q', as') \<Rightarrow>
           Inr (map job_id hs @ ids', s2\<lparr>bs_wait_queue := q', bs_job_order := as' @ drop (bs_eligible_end_idx s0) order,
             bs_removed_count := r + length ids'\<rparr>)))"
        unfolding eval a option.case planning_cong[OF p(1)] plan_def[symmetric] res_def[symmetric] s2_def[symmetric]
          planning_cong[OF p(2)] planned_def[symmetric] plan'_def[symmetric]
        using elig act more by simp
      have "\<exists>s'. block_schedule bsize s free running now = Inr (map job_id hs @ map job_id st, s') \<and>
          bs_inv bsize s' \<and> bs_waiting s' = head # kept @ unseen \<and> bs_future s' = bs_future s2 \<and> bs_current_tracked_time s' = bs_current_tracked_time s2"
      proof (cases "bs_backfill_queue_depth s2 = 0")
        case True
        then show ?thesis using flat[OF True] sched by auto
      next
        case False
        then obtain s' where s': "backfill_with_queue_depth bsize s2 planned now plan' avail = Inr (map job_id st, s')"
          "bs_inv bsize s'" "bs_waiting s' = head # kept @ unseen" "bs_future s' = bs_future s2" using deep by blast
        moreover have "bs_current_tracked_time s' = bs_current_tracked_time s2"
          using s'(1) by (auto simp: backfill_with_queue_depth_def Let_def split: sum.splits prod.splits)
        ultimately show ?thesis using sched False by simp
      qed
      then show ?thesis using l2(3) clk1 er' by (auto simp: s2_def s0_def)
    qed
  qed
qed

text \<open>The heads are the longest prefix that fits, the heads and the backfilled jobs leave the waiting
  list, and they fit the free nodes.\<close>

lemma bf_part_nodes: "bf_part s now avail plan cs = (st, kept) \<Longrightarrow> nodes_sum st \<le> unat avail"
  using spec_backfill_nodes by (auto simp: bf_part_def split: if_splits)

lemma block_pass_account:
  assumes er: "er = block_pass s depth free running now ws"
  shows "mset ws = mset (er_heads er @ er_backfilled er) + mset (er_waiting er) \<and>
    nodes_sum (er_heads er @ er_backfilled er) \<le> unat free"
proof -
  obtain hs avail rest where sh: "spec_heads free ws = (hs, avail, rest)" by (metis prod_cases3)
  note c = spec_heads_correct[OF sh]
  show ?thesis
  proof (cases "rest = [] \<or> m_backfill_policy s = NONE")
    case True
    then have "er = \<lparr>er_heads = hs, er_backfilled = [], er_waiting = rest, er_avail = avail,
        er_reservation = m_fcfs_reservation_time s\<rparr>"
      unfolding er by (rule block_pass_none[OF sh])
    then show ?thesis using c by simp
  next
    case False
    then obtain head behind where rest: "rest = head # behind" by (cases rest) auto
    define plan res where "plan = reservation_timeline s avail running now (map (raw_projected now) hs)"
      and "res = value_or_max (earliest_fit plan (nodes_requested head) 0 now)"
    define planned where "planned = reservation_within_horizon s res now"
    define plan' where "plan' = (if planned then reserve plan res (nodes_requested head)
        (release_estimate s res (run_time_estimate head)) else plan)"
    obtain cs unseen where p1: "candidates depth planned behind = (cs, unseen)" by fastforce
    obtain st kept where p2: "bf_part s now avail plan' cs = (st, kept)" by fastforce
    have "er = \<lparr>er_heads = hs, er_backfilled = st, er_waiting = head # kept @ unseen, er_avail = avail, er_reservation = res\<rparr>"
      unfolding er using False by (intro block_pass_scan[OF sh[unfolded rest] _ plan_def res_def planned_def plan'_def p1 p2]) simp
    then show ?thesis using c rest candidates_append[OF p1] bf_part_mset[OF p2] bf_part_nodes[OF p2]
      by (simp add: add.assoc)
  qed
qed

definition block_run :: "nat \<Rightarrow> block_scheduler \<Rightarrow> num_nodes \<Rightarrow> running_jobs \<Rightarrow> sim_time \<Rightarrow> job_no list \<times> block_scheduler" where
  "block_run bsize s free running now = (case block_schedule bsize s free running now of Inl e \<Rightarrow> ([], s) | Inr p \<Rightarrow> p)"

lemma bs_waiting_arrived: "bs_inv bsize s \<Longrightarrow> j \<in> set (bs_waiting s) \<Longrightarrow> submit_time j \<le> bs_current_tracked_time s"
  by (auto simp: bs_inv_def bs_waiting_def)

interpretation bk: scheduler "block_insert_job bsize" block_sync_to "block_run bsize" bs_in_order bs_pending "bs_inv bsize" bs_current_tracked_time
  for bsize
proof
  fix s i t r n s' assume "bs_inv bsize s" "bs_in_order s i t" "block_insert_job bsize s i t r n = Inr s'"
  then show "bs_inv bsize s' \<and> mset (bs_pending s') = add_mset (new_entry i t r n) (mset (bs_pending s)) \<and>
      bs_current_tracked_time s' = bs_current_tracked_time s"
    using bs_insert by fastforce
next
  fix s t assume "bs_inv bsize s"
  then show "bs_inv bsize (block_sync_to s t) \<and> mset (bs_pending (block_sync_to s t)) = mset (bs_pending s) \<and>
      bs_current_tracked_time (block_sync_to s t) = max (bs_current_tracked_time s) t"
    using bs_sync by simp
next
  fix s free running now ids s' assume inv: "bs_inv bsize s" and run: "block_run bsize s free running now = (ids, s')"
  define er where "er = block_pass s (bs_backfill_queue_depth s) free running now (bs_waiting (block_sync_to s now))"
  have r: "ids = map job_id (er_heads er @ er_backfilled er)" "bs_inv bsize s'" "bs_waiting s' = er_waiting er"
    "bs_future s' = bs_future (block_sync_to s now)" "bs_current_tracked_time s' = max (bs_current_tracked_time s) now"
    using block_schedule_refines[OF inv er_def] run by (auto simp: block_run_def)
  note a = block_pass_account[OF er_def]
  have "mset (bs_pending s) = mset (er_heads er @ er_backfilled er) + mset (bs_pending s')"
  proof -
    have "bs_pending s = bs_waiting (block_sync_to s now) @ bs_future s'"
      using bs_sync[OF inv, of now] r(4) by (simp add: bs_pending_def)
    then show ?thesis using a r(3) by (simp add: bs_pending_def add.assoc)
  qed
  moreover have "\<forall>j\<in>set (er_heads er @ er_backfilled er). submit_time j \<le> bs_current_tracked_time s'"
  proof
    fix j assume "j \<in> set (er_heads er @ er_backfilled er)"
    then have "j \<in> set (bs_waiting (block_sync_to s now))" using a
      by (metis UnI1 set_mset_mset set_mset_union)
    then show "submit_time j \<le> bs_current_tracked_time s'"
      using bs_waiting_arrived[of bsize "block_sync_to s now"] bs_sync[OF inv] r(5) by fastforce
  qed
  ultimately show "bs_inv bsize s' \<and> bs_current_tracked_time s' = max (bs_current_tracked_time s) now \<and>
      (\<exists>st. ids = map job_id st \<and> mset (bs_pending s) = mset st + mset (bs_pending s') \<and>
         nodes_sum st \<le> unat free \<and> (\<forall>j\<in>set st. submit_time j \<le> bs_current_tracked_time s'))"
    using r a by blast
qed

lemma new_block_scheduler_inv:
  "bsize = 2 ^ compute_log2 bsize \<Longrightarrow> bs_inv bsize (new_block_scheduler total_nodes bf depth)"
  "bs_pending (new_block_scheduler total_nodes bf depth) = []"
  using new_block_queue_ok[of bsize]
  by (simp_all add: bs_inv_def bs_pending_def bs_waiting_def bs_future_def new_block_scheduler_def scheduler_base.defs
      new_block_queue_def bq_jobs_def)

section \<open>Agreement with the other EASY queues\<close>

text \<open>Where started heads are projected as the other queues do and a blocked head is planned, the pass
  is the EASY pass.\<close>

lemma block_pass_easy:
  assumes "\<forall>j\<in>set ws. release_estimate s now (run_time_estimate j) = run_time_estimate j"
    and "\<And>hs avail head behind. spec_heads free ws = (hs, avail, head # behind) \<Longrightarrow>
       reservation_within_horizon s (value_or_max (earliest_fit (head_plan s avail running now hs) (nodes_requested head) 0 now)) now"
  shows "block_pass s depth free running now ws = easy_pass s depth free running now ws"
proof -
  obtain hs avail rest where sh: "spec_heads free ws = (hs, avail, rest)" by (metis prod_cases3)
  have "map (raw_projected now) hs = map (projected s now) hs"
    using assms(1) spec_heads_correct[OF sh] by (auto simp: raw_projected_def projected_def)
  then have plan: "reservation_timeline s avail running now (map (raw_projected now) hs) = head_plan s avail running now hs"
    by (simp only: head_plan_def)
  show ?thesis
  proof (cases rest)
    case Nil
    then show ?thesis by (simp add: block_pass_def easy_pass_def sh)
  next
    case (Cons head behind)
    define res where "res = value_or_max (earliest_fit (head_plan s avail running now hs) (nodes_requested head) 0 now)"
    have w: "reservation_within_horizon s res now" using assms(2) sh Cons by (simp add: res_def)
    then have "res \<noteq> dbl_max" by (auto simp: reservation_within_horizon_def split: if_splits)
    then show ?thesis using w
      unfolding block_pass_def easy_pass_def Let_def sh prod.case Cons list.case plan res_def[symmetric]
      by (auto simp: bf_part_def dest: candidates_append split: prod.splits)
  qed
qed

end
