(* ===== verification/Any_Scheduler.thy ===== *)
theory Any_Scheduler
  imports Scheduler_Factory Dispatch_Laws Ordered_Laws Easy_Block_Laws Simulation_Bisim
begin

text \<open>
  The virtual table of \<^verbatim>\<open>SchedulerBase\<close> over the datatype of the classes.  The circular classes meet the contract of the
  simulation as the deque classes do, so any scheduler that the factory makes for the event-driven mode does, except that of
  the block queue, whose identifiers have to increase.
\<close>

section \<open>The table\<close>

fun any_schedule :: "(tdiff \<Rightarrow> 64 word) \<Rightarrow> any_scheduler schedule_fun" where
  "any_schedule hash (FCFS_Easy_Deque s) free running now = map_prod id FCFS_Easy_Deque (deque_schedule s free running now)"
| "any_schedule hash (FCFS_Easy_Circular s) free running now = map_prod id FCFS_Easy_Circular (circular_schedule s free running now)"
| "any_schedule hash (FCFS_Easy_Block k s) free running now = map_prod id (FCFS_Easy_Block k) (block_run k s free running now)"
| "any_schedule hash (FCFS_Easy_Multimap s) free running now = map_prod id FCFS_Easy_Multimap (fcfs_mm_schedule s free running now)"
| "any_schedule hash (SJF_Easy s) free running now = map_prod id SJF_Easy (sjf_schedule s free running now)"
| "any_schedule hash (LJF_Easy s) free running now = map_prod id LJF_Easy (ljf_schedule s free running now)"
| "any_schedule hash (FCFS_Hybrid_Deque s) free running now = map_prod id FCFS_Hybrid_Deque (hybrid_schedule s free running now)"
| "any_schedule hash (FCFS_Hybrid_Circular s) free running now = map_prod id FCFS_Hybrid_Circular (hc_schedule False s free running now)"
| "any_schedule hash (FCFS_Periodic_Easy s) free running now = map_prod id FCFS_Periodic_Easy (periodic_easy_schedule s free running now)"
| "any_schedule hash (FCFS_Periodic_Hybrid s) free running now = map_prod id FCFS_Periodic_Hybrid (periodic_hybrid_schedule s free running now)"
| "any_schedule hash (Periodic_FCFS_Hybrid s) free running now = map_prod id Periodic_FCFS_Hybrid (dispatch_call hash s free running now)"

text \<open>\<^verbatim>\<open>schedule_event\<close> calls \<^verbatim>\<open>schedule\<close> unless a class overrides it.\<close>

fun any_schedule_event :: "(tdiff \<Rightarrow> 64 word) \<Rightarrow> any_scheduler schedule_fun" where
  "any_schedule_event hash (FCFS_Periodic_Easy s) free running now = map_prod id FCFS_Periodic_Easy (periodic_easy_event s free running now)"
| "any_schedule_event hash (FCFS_Periodic_Hybrid s) free running now = map_prod id FCFS_Periodic_Hybrid (periodic_hybrid_event s free running now)"
| "any_schedule_event hash sc free running now = any_schedule hash sc free running now"

fun any_active_job_count :: "any_scheduler \<Rightarrow> nat" where
  "any_active_job_count (FCFS_Easy_Deque s) = deque_active_job_count s"
| "any_active_job_count (FCFS_Easy_Circular s) = circular_active_job_count s"
| "any_active_job_count (FCFS_Easy_Block _ s) = block_active_job_count s"
| "any_active_job_count (FCFS_Easy_Multimap s) = mm_active_job_count s"
| "any_active_job_count (SJF_Easy s) = mm_active_job_count s"
| "any_active_job_count (LJF_Easy s) = mm_active_job_count s"
| "any_active_job_count (FCFS_Hybrid_Deque s) = hybrid_active_job_count s"
| "any_active_job_count (FCFS_Hybrid_Circular s) = hybrid_active_job_count s"
| "any_active_job_count (FCFS_Periodic_Easy s) = circular_active_job_count s"
| "any_active_job_count (FCFS_Periodic_Hybrid s) = hybrid_active_job_count s"
| "any_active_job_count (Periodic_FCFS_Hybrid s) = hybrid_active_job_count s"

fun any_next_arrival_time :: "any_scheduler \<Rightarrow> sim_time" where
  "any_next_arrival_time (FCFS_Easy_Deque s) = deque_next_arrival_time s"
| "any_next_arrival_time (FCFS_Easy_Circular s) = circular_next_arrival_time s"
| "any_next_arrival_time (FCFS_Easy_Block _ s) = block_next_arrival_time s"
| "any_next_arrival_time (FCFS_Easy_Multimap s) = mm_next_arrival_time s"
| "any_next_arrival_time (SJF_Easy s) = mm_next_arrival_time s"
| "any_next_arrival_time (LJF_Easy s) = mm_next_arrival_time s"
| "any_next_arrival_time (FCFS_Hybrid_Deque s) = hybrid_next_arrival_time s"
| "any_next_arrival_time (FCFS_Hybrid_Circular s) = hc_next_arrival_time s"
| "any_next_arrival_time (FCFS_Periodic_Easy s) = circular_next_arrival_time s"
| "any_next_arrival_time (FCFS_Periodic_Hybrid s) = hc_next_arrival_time s"
| "any_next_arrival_time (Periodic_FCFS_Hybrid s) = hc_next_arrival_time s"

text \<open>The three multimap classes test their index of eligible jobs, the others count.\<close>

fun any_has_eligible_jobs :: "any_scheduler \<Rightarrow> bool" where
  "any_has_eligible_jobs (FCFS_Easy_Multimap s) = mm_has_eligible_jobs s"
| "any_has_eligible_jobs (SJF_Easy s) = mm_has_eligible_jobs s"
| "any_has_eligible_jobs (LJF_Easy s) = mm_has_eligible_jobs s"
| "any_has_eligible_jobs sc = (any_active_job_count sc > 0)"

definition any_set_capacity_outlook :: "num_nodes \<Rightarrow> num_nodes \<Rightarrow> capacity_change list \<Rightarrow> any_scheduler \<Rightarrow> any_scheduler" where
  "any_set_capacity_outlook c u ch sc = any_put_base (set_capacity_outlook c u ch (any_base sc)) sc"

definition any_ops :: "circular_buffer \<Rightarrow> (tdiff \<Rightarrow> 64 word) \<Rightarrow> any_scheduler scheduler_ops" where
  "any_ops b hash = \<lparr>so_insert_job = any_insert_job b, so_schedule = any_schedule hash, so_schedule_event = any_schedule_event hash,
     so_sync_to = any_sync_to, so_active_job_count = any_active_job_count, so_get_next_arrival_time = any_next_arrival_time,
     so_has_eligible_jobs = any_has_eligible_jobs, so_can_ever_run = (\<lambda>_ _. True),
     so_set_capacity_outlook = any_set_capacity_outlook\<rparr>"

section \<open>The circular classes in the simulation\<close>

lemma circular_grow_kept:
  "m_overflow_policy (circular_sync_to s t) = m_overflow_policy s"
  "m_overflow_policy (snd (circular_schedule s free running now)) = m_overflow_policy s" for s :: "'a circular_queue_scheme"
  by (simp_all add: circular_sync_to_def circular_schedule_eq deque_schedule_overflow)

lemma circular_next_eq: "circular_next_arrival_time s = deque_next_arrival_time s"
  by (simp add: circular_next_arrival_time_def deque_next_arrival_time_def)

lemma circular_grow_inserts:
  assumes "buffer_ok b" "circ_inv s" "m_overflow_policy s = GROW"
  shows "\<exists>s'. circular_insert_job b s i t r n = Inr s' \<and> m_overflow_policy s' = GROW"
  using assms circular_insert_eq[OF assms(1), of s i t r n] by (auto simp: circ_inv_def deque_insert_job_def Let_def)

definition circ_growing :: "'a circular_queue_scheme \<Rightarrow> bool" where
  "circ_growing s \<longleftrightarrow> circ_inv s \<and> m_overflow_policy s = GROW"

sublocale buffer_law \<subseteq> csim: sim_scheduler "circular_ops b" "\<lambda>s i t. in_order s t" pending circ_growing m_current_tracked_time
proof (unfold_locales, goal_cases)
  case (1 s i t r n s')
  then show ?case using ins_law[of s t i r n s'] circular_grow_inserts[OF law, of s i t r n]
    by (auto simp: circular_ops_def circ_growing_def)
next
  case (2 s t)
  then show ?case using syn_law[of s t] circular_grow_kept(1)[of s t] by (simp add: circular_ops_def circ_growing_def)
next
  case (3 s free running now ids s')
  then show ?case using sch_law[of s free running now ids s'] circular_grow_kept(2)[of s free running now]
    unfolding circular_ops_def circ_growing_def scheduler_ops.simps by (elim conjE) (metis snd_conv)
next
  case (4 s c u ch)
  then show ?case using fq_outlook[of s c u ch]
    by (simp add: circular_ops_def circ_growing_def circ_inv_def) (simp add: set_capacity_outlook_def)
next
  case (5 s)
  then show ?case
    by (simp add: circular_ops_def circ_growing_def circ_inv_def circular_active_eq active_job_count_waiting fq_arrived)
next
  case (6 s)
  then show ?case using fq_arrival[of s] by (simp add: circular_ops_def circular_next_eq circ_growing_def circ_inv_def)
next
  case (7 s)
  then show ?case by (simp add: circular_ops_def circular_has_eligible_jobs_def)
next
  case (8 s free running now s')
  then show ?case using deque_progress[of s free running now s']
    by (simp add: circular_ops_def circ_growing_def circ_inv_def circular_schedule_eq)
next
  case (9 s t i r n)
  then show ?case using fq_accept[of s t] circular_grow_inserts[OF law, of s i t r n]
    by (auto simp: circular_ops_def circ_growing_def circ_inv_def)
next
  case (10 s n)
  then show ?case by (simp add: circular_ops_def)
qed

definition hc_ops :: "circular_buffer \<Rightarrow> 'a hybrid_circular_scheme scheduler_ops" where
  "hc_ops b = \<lparr>so_insert_job = hc_insert_job b, so_schedule = hc_schedule False, so_schedule_event = hc_schedule False,
     so_sync_to = hc_sync_to, so_active_job_count = hybrid_active_job_count,
     so_get_next_arrival_time = hc_next_arrival_time, so_has_eligible_jobs = hybrid_has_eligible_jobs,
     so_can_ever_run = (\<lambda>_ _. True), so_set_capacity_outlook = set_capacity_outlook\<rparr>"

definition hc_growing :: "'a hybrid_circular_scheme \<Rightarrow> bool" where
  "hc_growing s \<longleftrightarrow> hc_inv s \<and> mh_overflow_policy s = GROW"

lemma hc_grow_inserts:
  assumes "mh_overflow_policy s = GROW"
  shows "\<exists>s'. hc_insert_job b s i t r n = Inr s' \<and> mh_overflow_policy s' = GROW"
  using assms by (auto simp: hc_insert_job_def Let_def)

lemma hybrid_pass_overflow:
  "mh_overflow_policy (snd (hybrid_pass f g pnew u s free running now)) = mh_overflow_policy s" for s :: "'a hybrid_circular_scheme"
  by (simp add: hybrid_pass_def account_head_def Let_def case_prod_beta)

lemma hc_grow_kept:
  "mh_overflow_policy (hc_sync_to s t) = mh_overflow_policy s"
  "mh_overflow_policy (snd (hc_schedule u s free running now)) = mh_overflow_policy s" for s :: "'a hybrid_circular_scheme"
proof -
  have "mh_overflow_policy (deque_compact (deque_sync_to s now)) = mh_overflow_policy s"
    by (simp add: deque_compact_def deque_sync_to_def)
  then show "mh_overflow_policy (snd (hc_schedule u s free running now)) = mh_overflow_policy s"
    by (simp add: hc_schedule_def protection_eq Let_def hybrid_pass_overflow)
qed (simp add: hc_sync_to_def)

lemma hc_schedule_hybrid: "hc_schedule False s free running now = hybrid_schedule s free running now"
  by (simp add: hybrid_schedule_eq hc_schedule_def protection_eq)

lemma hc_next_eq: "hc_next_arrival_time s = deque_next_arrival_time s"
  by (simp add: hc_next_arrival_time_def deque_next_arrival_time_def)

sublocale buffer_law \<subseteq> hsim: sim_scheduler "hc_ops b" "\<lambda>s i t. in_order s t" pending hc_growing m_current_tracked_time
proof (unfold_locales, goal_cases)
  case (1 s i t r n s')
  then show ?case using hc.ins_law[of s t i r n s'] hc_grow_inserts[of s b i t r n]
    by (auto simp: hc_ops_def hc_growing_def)
next
  case (2 s t)
  then show ?case using hc.syn_law[of s t] hc_grow_kept(1)[of s t] by (simp add: hc_ops_def hc_growing_def)
next
  case (3 s free running now ids s')
  then show ?case using hc.sch_law[of s free running now ids s'] hc_grow_kept(2)[of False s free running now]
    unfolding hc_ops_def hc_growing_def scheduler_ops.simps by (elim conjE) (metis snd_conv)
next
  case (4 s c u ch)
  then show ?case using fq_outlook[of s c u ch]
    by (simp add: hc_ops_def hc_growing_def hc_inv_def) (simp add: set_capacity_outlook_def)
next
  case (5 s)
  then show ?case by (simp add: hc_ops_def hc_growing_def hc_inv_def hybrid_queries active_job_count_waiting fq_arrived)
next
  case (6 s)
  then show ?case using fq_arrival[of s] by (simp add: hc_ops_def hc_next_eq hc_growing_def hc_inv_def)
next
  case (7 s)
  then show ?case by (simp add: hc_ops_def hybrid_has_eligible_jobs_def)
next
  case (8 s free running now s')
  then show ?case using hybrid_progress[of s free running now s']
    by (simp add: hc_ops_def hc_growing_def hc_inv_def hc_schedule_hybrid)
next
  case (9 s t i r n)
  then show ?case using fq_accept[of s t] hc_grow_inserts[of s b i t r n] by (auto simp: hc_ops_def hc_growing_def hc_inv_def)
next
  case (10 s n)
  then show ?case by (simp add: hc_ops_def)
qed

section \<open>A class behind the pointer\<close>

fun any_jobs :: "any_scheduler \<Rightarrow> job_entry list" where
  "any_jobs (FCFS_Easy_Deque s) = pending s"
| "any_jobs (FCFS_Easy_Circular s) = pending s"
| "any_jobs (FCFS_Easy_Block _ s) = bs_pending s"
| "any_jobs (FCFS_Easy_Multimap s) = mm_jobs s"
| "any_jobs (SJF_Easy s) = mm_jobs s"
| "any_jobs (LJF_Easy s) = mm_jobs s"
| "any_jobs (FCFS_Hybrid_Deque s) = pending s"
| "any_jobs (FCFS_Hybrid_Circular s) = pending s"
| "any_jobs (FCFS_Periodic_Easy s) = pending s"
| "any_jobs (FCFS_Periodic_Hybrid s) = pending s"
| "any_jobs (Periodic_FCFS_Hybrid s) = pending s"

text \<open>The table does on the constructor of a class what the class does.\<close>

definition dispatches_to :: "'u scheduler_ops \<Rightarrow> ('s \<Rightarrow> 'u) \<Rightarrow> 's scheduler_ops \<Rightarrow> bool" where
  "dispatches_to U C A \<longleftrightarrow> (\<forall>x.
     (\<forall>i t r n. so_insert_job U (C x) i t r n = map_sum id C (so_insert_job A x i t r n)) \<and>
     (\<forall>c u ch. so_set_capacity_outlook U c u ch (C x) = C (so_set_capacity_outlook A c u ch x)) \<and>
     (\<forall>free running now. so_schedule U (C x) free running now = map_prod id C (so_schedule A x free running now) \<and>
        so_schedule_event U (C x) free running now = map_prod id C (so_schedule_event A x free running now)) \<and>
     (\<forall>t. so_sync_to U (C x) t = C (so_sync_to A x t)) \<and> so_active_job_count U (C x) = so_active_job_count A x \<and>
     so_get_next_arrival_time U (C x) = so_get_next_arrival_time A x \<and> so_has_eligible_jobs U (C x) = so_has_eligible_jobs A x \<and>
     (\<forall>n. so_can_ever_run U (C x) n = so_can_ever_run A x n))"

lemma outlook_commutes:
  "scheduler_base.extend (set_capacity_outlook c u ch (scheduler_base.truncate s)) (scheduler_base.more s) = set_capacity_outlook c u ch s"
  by (cases s) (simp add: set_capacity_outlook_def scheduler_base.defs)

lemma dispatch_simps:
  "dispatches_to (any_ops b hash) FCFS_Easy_Deque deque_ops"
  "dispatches_to (any_ops b hash) FCFS_Easy_Circular (circular_ops b)"
  "dispatches_to (any_ops b hash) FCFS_Easy_Multimap (mm_ops fcfs_mm_insert_job fcfs_mm_find_head)"
  "dispatches_to (any_ops b hash) SJF_Easy (mm_ops sjf_insert_job sjf_find_fcfs_head)"
  "dispatches_to (any_ops b hash) LJF_Easy (mm_ops ljf_insert_job ljf_find_fcfs_head)"
  "dispatches_to (any_ops b hash) FCFS_Hybrid_Deque hybrid_ops"
  "dispatches_to (any_ops b hash) FCFS_Hybrid_Circular (hc_ops b)"
  by (simp_all add: dispatches_to_def any_ops_def deque_ops_def circular_ops_def mm_ops_def hybrid_ops_def hc_ops_def
      any_set_capacity_outlook_def outlook_commutes deque_has_eligible_jobs_def
      circular_has_eligible_jobs_def hybrid_has_eligible_jobs_def deque_insert_def hybrid_insert_def
      fcfs_mm_schedule_def sjf_schedule_def ljf_schedule_def)

lemma rel_sum_embed: "rel_sum (=) (\<lambda>x s. s = C x) r (map_sum id C r)"
  by (cases r) simp_all

lemma dispatch_bisimilar:
  assumes "dispatches_to U C A"
  shows "bisimilar_submit A U (\<lambda>x s. s = C x)"
  using assms by unfold_locales (auto simp: dispatches_to_def rel_prod_sel rel_sum_embed)

lemma drains_related:
  assumes "rel_option (rel_sum (=) (sim_rel R)) r r'" "\<And>x s. R x s \<Longrightarrow> jobs' s = jobs x" "drains jobs p recs r"
  shows "drains jobs' p recs r'"
proof -
  obtain s where s: "r = Some (Inr s)" "drains jobs p recs (Some (Inr s))"
    using assms(3) by (auto simp: drains_def split: option.splits sum.splits)
  then obtain t where t: "r' = Some (Inr t)" "sim_rel R s t" using assms(1) by (cases r') (auto elim: rel_sum.cases)
  obtain b where "t = with_scheduler b s" "R (m_scheduler s) b" using t(2) by (rule sim_relE)
  then show ?thesis using s(2) assms(2)[of "m_scheduler s" b] by (simp add: t(1) drains_def)
qed

section \<open>The schedulers of the event-driven mode\<close>

lemma set_base_twice [simp]: "scheduler_base.extend (scheduler_base.truncate s) (scheduler_base.more s) = s"
  by (cases s) (simp add: scheduler_base.defs)

text \<open>The classes of the event-driven mode, with no job and a clock that has not started.\<close>

fun event_ready :: "any_scheduler \<Rightarrow> bool" where
  "event_ready (FCFS_Easy_Deque s) \<longleftrightarrow> fq_inv s \<and> pending s = [] \<and> m_current_tracked_time s \<le> 0"
| "event_ready (FCFS_Easy_Circular s) \<longleftrightarrow> circ_growing s \<and> pending s = [] \<and> m_current_tracked_time s \<le> 0"
| "event_ready (FCFS_Easy_Multimap s) \<longleftrightarrow> mm_inv (<) mm_submit_time s \<and> mm_jobs s = [] \<and> mm_current_tracked_time s \<le> 0"
| "event_ready (SJF_Easy s) \<longleftrightarrow> mm_inv (<) mm_run_time s \<and> mm_jobs s = [] \<and> mm_current_tracked_time s \<le> 0"
| "event_ready (LJF_Easy s) \<longleftrightarrow> mm_inv descending_run_time mm_run_time s \<and> mm_jobs s = [] \<and> mm_current_tracked_time s \<le> 0"
| "event_ready (FCFS_Hybrid_Deque s) \<longleftrightarrow> fq_inv s \<and> pending s = [] \<and> m_current_tracked_time s \<le> 0"
| "event_ready (FCFS_Hybrid_Circular s) \<longleftrightarrow> hc_growing s \<and> pending s = [] \<and> m_current_tracked_time s \<le> 0"
| "event_ready _ \<longleftrightarrow> False"

lemma new_circular_ready: "circ_growing (new_circular n k policy w GROW depth) \<and> pending (new_circular n k policy w GROW depth) = [] \<and>
    m_current_tracked_time (new_circular n k policy w GROW depth) \<le> 0"
  by (simp add: new_circular_def circular_queue.defs fcfs_queue.defs new_base_def scheduler_base.defs circ_growing_def circ_inv_def
      fq_inv_def pending_def waiting_def future_def)

lemma new_hc_ready:
  assumes "new_hybrid_circular n k policy w GROW rdepth depth = Inr s"
  shows "hc_growing s \<and> pending s = [] \<and> m_current_tracked_time s \<le> 0"
  using assms by (auto simp: new_hybrid_circular_def hybrid_circular.defs hybrid_queue.defs fcfs_queue.defs new_base_def scheduler_base.defs
      hc_growing_def hc_inv_def fq_inv_def pending_def waiting_def future_def split: if_splits)

text \<open>The classes of the event-driven mode whose queue is a ring buffer: only these have an overflow policy.\<close>

fun has_ring :: "any_scheduler \<Rightarrow> bool" where
  "has_ring (FCFS_Easy_Circular s) \<longleftrightarrow> True"
| "has_ring (FCFS_Hybrid_Circular s) \<longleftrightarrow> True"
| "has_ring _ \<longleftrightarrow> False"

lemma hybrid_ready:
  assumes "create_hybrid_of p c n = Inr sc" "has_ring sc \<longrightarrow> c_wait_queue_overflow c = GROW"
  shows "event_ready sc"
proof (cases "c_queue_impl c = DEQUE")
  case True
  then show ?thesis using assms new_hybrid_empty
    by (cases "new_hybrid_deque (p_total_nodes p) (p_backfill_policy p) (p_reservation_depth p) (c_backfill_queue_depth c)")
      (auto simp: create_hybrid_of_def create_hybrid_scheduler_def)
next
  case False
  then obtain s where s: "sc = FCFS_Hybrid_Circular s" "new_hybrid_circular (p_total_nodes p) n (p_backfill_policy p)
      (c_wait_queue_capacity c) (c_wait_queue_overflow c) (p_reservation_depth p) (c_backfill_queue_depth c) = Inr s"
    using assms(1) by (cases "new_hybrid_circular (p_total_nodes p) n (p_backfill_policy p) (c_wait_queue_capacity c)
          (c_wait_queue_overflow c) (p_reservation_depth p) (c_backfill_queue_depth c)")
      (auto simp: create_hybrid_of_def create_hybrid_scheduler_def)
  then show ?thesis using assms(2) new_hc_ready[of "p_total_nodes p" n] by simp
qed

lemma created_ready:
  assumes "create_scheduler p c n = Inr sc" "mode_of p = Event_Driven" "has_ring sc \<longrightarrow> c_wait_queue_overflow c = GROW" "c_queue_impl c \<noteq> BLOCK"
  shows "event_ready sc"
proof -
  have i: "\<not> 0 < p_dispatch_interval p" "\<not> 0 < p_backfill_interval p" using assms(2) by (auto simp: mode_of_def split: if_splits)
  have "create_by_priority p c n = Inr sc \<or> create_hybrid_of p c n = Inr sc"
    using assms(1) i by (auto simp: create_scheduler_def split: if_splits)
  then show ?thesis
  proof
    assume "create_by_priority p c n = Inr sc"
    then show ?thesis using assms(3,4) hybrid_ready[of p c n sc] new_circular_ready
      by (cases "c_priority_policy c"; cases "c_queue_impl c")
        (auto simp: create_by_priority_def Let_def new_deque_empty new_mm_empty split: if_splits)
  qed (rule hybrid_ready[OF _ assms(3)])
qed

lemma planned_extend:
  "scheduler_base.extend ((scheduler_base.truncate s)\<lparr>m_planning_time_resolution := r, m_planning_horizon := h\<rparr>) (scheduler_base.more s) =
     s\<lparr>m_planning_time_resolution := r, m_planning_horizon := h\<rparr>"
  by (cases s) (simp add: scheduler_base.defs)

lemma planned_ready:
  "event_ready sc \<Longrightarrow> event_ready (any_put_base ((any_base sc)\<lparr>m_planning_time_resolution := r, m_planning_horizon := h\<rparr>) sc)"
  by (cases sc) (auto simp: planned_extend fq_inv_def pending_def waiting_def future_def circ_growing_def circ_inv_def hc_growing_def
      hc_inv_def mm_inv_def mm_jobs_def)

lemma made_ready:
  assumes "make_scheduler p c n = Inr sc" "mode_of p = Event_Driven" "has_ring sc \<longrightarrow> c_wait_queue_overflow c = GROW" "c_queue_impl c \<noteq> BLOCK"
  shows "event_ready sc"
proof -
  obtain s where s: "create_scheduler p c n = Inr s"
    "sc = any_put_base ((any_base s)\<lparr>m_planning_time_resolution := p_planning_time_resolution p, m_planning_horizon := p_planning_horizon p\<rparr>) s"
    using assms(1) by (auto simp: make_scheduler_def set_planning_horizon_def set_planning_time_resolution_def split: sum.splits if_splits)
  have "has_ring sc = has_ring s" unfolding s(2) by (cases s) simp_all
  then have "event_ready s" using assms(3) by (intro created_ready[OF s(1) assms(2) _ assms(4)]) simp
  then show ?thesis unfolding s(2) by (rule planned_ready)
qed

text \<open>A run over the table is the run of the class.\<close>

lemma drains_dispatched:
  assumes "dispatches_to U C A" "\<And>x. jobs' (C x) = jobs x"
    and "drains jobs p recs (run A dm sm max_stamp available record_size load files rng (new_simulation p tr s []))"
  shows "drains jobs' p recs (run U dm sm max_stamp available record_size load files rng (new_simulation p tr (C s) []))"
proof -
  have "sim_rel (\<lambda>x y. y = C x) (new_simulation p tr s []) (new_simulation p tr (C s) [])"
    by (simp add: sim_rel_def new_simulation_def reset_capacity_schedule_def with_scheduler_def)
  from bisimilar_submit.run_rel[OF dispatch_bisimilar[OF assms(1)] this] show ?thesis
    by (rule drains_related[OF _ _ assms(3)]) (simp add: assms(2))
qed

context buffer_law
begin

lemma circular_run:
  assumes "batch_params p" "load (p_max_jobs p) = Some loaded" "p_max_time p = None" "well_posed D k p (run_records sm p r loaded)"
    and "circ_growing s \<and> pending s = [] \<and> m_current_tracked_time s \<le> 0"
  shows "drains pending p (run_records sm p r loaded)
    (run (circular_ops b) dm sm max_stamp available record_size load files r (new_simulation p (new_trace SIMULATION rng) s []))"
  by (rule csim.whole_run_law[where load = load, OF assms(1,2) _ assms(4,3)]) (simp add: csim.fresh_scheduler_def assms(5))

lemma hybrid_circular_run:
  assumes "batch_params p" "load (p_max_jobs p) = Some loaded" "p_max_time p = None" "well_posed D k p (run_records sm p r loaded)"
    and "hc_growing s \<and> pending s = [] \<and> m_current_tracked_time s \<le> 0"
  shows "drains pending p (run_records sm p r loaded)
    (run (hc_ops b) dm sm max_stamp available record_size load files r (new_simulation p (new_trace SIMULATION rng) s []))"
  by (rule hsim.whole_run_law[where load = load, OF assms(1,2) _ assms(4,3)]) (simp add: hsim.fresh_scheduler_def assms(5))

end

theorem made_run:
  assumes b: "buffer_ok b" and ready: "event_ready sc" and p: "batch_params p" "p_max_time p = None" "load (p_max_jobs p) = Some loaded"
    and w: "well_posed D k p (run_records sm p r loaded)"
  shows "drains any_jobs p (run_records sm p r loaded)
    (run (any_ops b hash) dm sm max_stamp available record_size load files r (new_simulation p (new_trace SIMULATION rng) sc []))"
proof -
  note l = buffer_law.intro[OF b]
  show ?thesis
  proof (cases sc)
    case (FCFS_Easy_Deque s)
    show ?thesis unfolding FCFS_Easy_Deque
      by (rule drains_dispatched[OF dispatch_simps(1) _ dqs.whole_run_law[where load = load, OF p(1,3) _ w p(2)]])
        (use ready FCFS_Easy_Deque in \<open>simp_all add: dqs.fresh_scheduler_def\<close>)
  next
    case (FCFS_Easy_Circular s)
    show ?thesis unfolding FCFS_Easy_Circular
      by (rule drains_dispatched[OF dispatch_simps(2) _ buffer_law.circular_run[OF l, where load = load, OF p(1,3,2) w]]) (use ready FCFS_Easy_Circular in simp_all)
  next
    case (FCFS_Easy_Multimap s)
    show ?thesis unfolding FCFS_Easy_Multimap
      by (rule drains_dispatched[OF dispatch_simps(3) _ fms.simulated.whole_run_law[where load = load, OF p(1,3) _ w p(2)]])
        (use ready FCFS_Easy_Multimap in \<open>simp_all add: fms.simulated.fresh_scheduler_def\<close>)
  next
    case (SJF_Easy s)
    show ?thesis unfolding SJF_Easy
      by (rule drains_dispatched[OF dispatch_simps(4) _ sjs.simulated.whole_run_law[where load = load, OF p(1,3) _ w p(2)]])
        (use ready SJF_Easy in \<open>simp_all add: sjs.simulated.fresh_scheduler_def\<close>)
  next
    case (LJF_Easy s)
    show ?thesis unfolding LJF_Easy
      by (rule drains_dispatched[OF dispatch_simps(5) _ ljs.simulated.whole_run_law[where load = load, OF p(1,3) _ w p(2)]])
        (use ready LJF_Easy in \<open>simp_all add: ljs.simulated.fresh_scheduler_def\<close>)
  next
    case (FCFS_Hybrid_Deque s)
    show ?thesis unfolding FCFS_Hybrid_Deque
      by (rule drains_dispatched[OF dispatch_simps(6) _ hds.whole_run_law[where load = load, OF p(1,3) _ w p(2)]])
        (use ready FCFS_Hybrid_Deque in \<open>simp_all add: hds.fresh_scheduler_def\<close>)
  next
    case (FCFS_Hybrid_Circular s)
    show ?thesis unfolding FCFS_Hybrid_Circular
      by (rule drains_dispatched[OF dispatch_simps(7) _ buffer_law.hybrid_circular_run[OF l, where load = load, OF p(1,3,2) w]]) (use ready FCFS_Hybrid_Circular in simp_all)
  qed (use ready in simp_all)
qed

end
