(* ===== verification/Restart.thy ===== *)
theory Restart
  imports Checkpoint_Laws Easy_Refine Any_Scheduler
begin

text \<open>
  Restarting a simulation on a first-come EASY scheduler, with the ring buffer that grows (the default) or the deque.  The
  restored queue is not the one that was running: it has no entries of started jobs, and its clock is the clock of the
  simulation.  It answers alike, so the restored simulation goes through the events that the interrupted one would have gone
  through.
\<close>

section \<open>Queues that answer alike\<close>

definition same_settings :: "'a fcfs_queue_scheme \<Rightarrow> 'b fcfs_queue_scheme \<Rightarrow> bool" where
  "same_settings a b \<longleftrightarrow> m_backfill_policy a = m_backfill_policy b \<and> m_planning_time_resolution a = m_planning_time_resolution b \<and>
     m_planning_horizon a = m_planning_horizon b \<and> m_backfill_queue_depth a = m_backfill_queue_depth b"

definition alike :: "fcfs_queue \<Rightarrow> fcfs_queue \<Rightarrow> bool" where
  "alike a b \<longleftrightarrow> fq_inv a \<and> fq_inv b \<and> waiting a = waiting b \<and> future a = future b \<and> same_settings a b \<and>
     m_fcfs_reservation_time a = m_fcfs_reservation_time b \<and> m_current_tracked_time a \<le> m_current_tracked_time b"

lemma settings_kept:
  "same_settings (deque_sync_to a now) a" "same_settings (deque_compact a) a" "same_settings (set_capacity_outlook c u ch a) a"
  "same_settings (snd (deque_pass a free running now)) a" "same_settings (snd (deque_schedule a free running now)) a"
proof -
  show sync: "same_settings (deque_sync_to a now) a" for a :: "'a fcfs_queue_scheme"
    by (simp add: same_settings_def deque_sync_to_def)
  show comp: "same_settings (deque_compact a) a" for a :: "'a fcfs_queue_scheme"
    by (simp add: same_settings_def deque_compact_def)
  show pass: "same_settings (snd (deque_pass a free running now)) a" for a :: "'a fcfs_queue_scheme"
    by (simp add: same_settings_def deque_pass_def Let_def case_prod_beta)
  show "same_settings (snd (deque_schedule a free running now)) a"
    using sync[of a] comp[of "deque_sync_to a now"] pass[of "deque_compact (deque_sync_to a now)"]
    by (simp add: deque_schedule_def Let_def) (simp add: same_settings_def)
qed (simp add: same_settings_def set_capacity_outlook_def)

lemma settings_eq: "same_settings a' a \<Longrightarrow> same_settings b' b \<Longrightarrow> same_settings a b \<Longrightarrow> same_settings a' b'"
  by (simp add: same_settings_def)

lemma alike_sync:
  assumes "alike a b"
  shows "alike (deque_sync_to a t) (deque_sync_to b t)"
proof -
  have i: "fq_inv a" "fq_inv b" "waiting a = waiting b" "future a = future b" "m_current_tracked_time a \<le> m_current_tracked_time b"
    using assms by (simp_all add: alike_def)
  have late: "takeWhile (\<lambda>j. submit_time j \<le> t) (future b) = [] \<and> dropWhile (\<lambda>j. submit_time j \<le> t) (future b) = future b"
    if "t \<le> m_current_tracked_time b"
    using i(2) that by (cases "future b") (auto simp: fq_inv_def future_def)
  show ?thesis
    using assms sync_to_refines[OF i(1), of t] sync_to_refines[OF i(2), of t] late i settings_eq[OF settings_kept(1) settings_kept(1), of a b]
    by (auto simp: alike_def deque_clock) (auto simp: deque_sync_to_def)
qed

lemma alike_outlook: "alike a b \<Longrightarrow> alike (set_capacity_outlook c u ch a) (set_capacity_outlook c u ch b)"
  by (simp add: alike_def same_settings_def set_capacity_outlook_def fq_inv_def waiting_def future_def)

lemma alike_schedule:
  assumes "alike a b"
  shows "rel_prod (=) alike (deque_schedule (set_capacity_outlook c u ch a) free running now)
    (deque_schedule (set_capacity_outlook c u ch b) free running now)"
proof -
  define a' b' where "a' = set_capacity_outlook c u ch a" and "b' = set_capacity_outlook c u ch b"
  have l: "alike a' b'" using alike_outlook[OF assms] by (simp add: a'_def b'_def)
  have pl: "same_planning a' b'"
    using assms by (simp add: a'_def b'_def same_planning_def set_capacity_outlook_def alike_def same_settings_def)
  have sy: "waiting (deque_sync_to a' now) = waiting (deque_sync_to b' now)" "future (deque_sync_to a' now) = future (deque_sync_to b' now)"
    using alike_sync[OF l, of now] by (simp_all add: alike_def)
  have i: "fq_inv a'" "fq_inv b'" "same_settings a' b'" "m_fcfs_reservation_time a' = m_fcfs_reservation_time b'"
    "m_current_tracked_time a' \<le> m_current_tracked_time b'" using l by (simp_all add: alike_def)
  note ra = deque_schedule_refines[OF i(1) refl, of free running now]
  note rb = deque_schedule_refines[OF i(2) refl, of free running now]
  have "easy_pass a' = easy_pass b'" by (rule easy_pass_cong[OF pl i(4)])
  moreover have "m_backfill_queue_depth a' = m_backfill_queue_depth b'" using i(3) by (simp add: same_settings_def)
  ultimately show ?thesis
    using ra rb sy i settings_eq[OF settings_kept(5)[of a' free running now] settings_kept(5)[of b' free running now] i(3)]
    unfolding a'_def[symmetric] b'_def[symmetric] rel_prod_sel alike_def by (simp add: deque_clock max.coboundedI1)
qed

interpretation rs: bisimilar deque_ops deque_ops alike
proof (unfold_locales, goal_cases)
  case (1 a b t)
  then show ?case by (simp add: deque_ops_def alike_sync)
next
  case (2 a b)
  then show ?case by (simp add: deque_ops_def alike_def active_job_count_waiting)
next
  case (3 a b)
  then show ?case by (simp add: deque_ops_def alike_def next_arrival_future)
next
  case (4 a b)
  then show ?case by (simp add: deque_ops_def deque_has_eligible_jobs_def alike_def active_job_count_waiting)
next
  case (5 a b c u ch free running now)
  then show ?case using alike_schedule[OF 5] by (simp add: deque_ops_def)
next
  case (6 a b c u ch free running now)
  then show ?case using alike_schedule[OF 6] by (simp add: deque_ops_def)
qed

section \<open>The restored queue\<close>

text \<open>The pending jobs are those of the records, in the order of their identifiers.\<close>

definition queue_of_records :: "'g trace \<Rightarrow> fcfs_queue \<Rightarrow> bool" where
  "queue_of_records tr d \<longleftrightarrow> sorted_wrt (<) (map job_id (pending d)) \<and>
     (\<forall>j\<in>set (pending d). still_pending tr (job_id j) \<and>
        (let r = m_data tr ! (job_id j - m_num_reclaimed tr) in
         convert_epoch (m_t_submit r) = submit_time j \<and> limit_time r = run_time_estimate j \<and> m_num_nodes r = nodes_requested j))"

lemma map_sum_Inr: "map_sum id f r = Inr y \<longleftrightarrow> (\<exists>x. r = Inr x \<and> y = f x)"
  by (cases r) auto

lemma sorted_pending: "fq_inv d \<Longrightarrow> sorted (map submit_time (pending d))"
  using pending_split[of d, symmetric] by (simp add: pending_def fq_inv_def sorted_filter flip: map_append)

lemma put_base_deque: "any_put_base ((any_base (FCFS_Easy_Deque d))\<lparr>m_fcfs_reservation_time := r\<rparr>) (FCFS_Easy_Deque d) =
    FCFS_Easy_Deque (d\<lparr>m_fcfs_reservation_time := r\<rparr>)"
  by (cases d) (simp add: scheduler_base.defs)

definition pending_entry :: "'g trace \<Rightarrow> job_no \<Rightarrow> job_entry" where
  "pending_entry tr i = (let r = m_data tr ! (i - m_num_reclaimed tr) in
     new_entry i (convert_epoch (m_t_submit r)) (limit_time r) (m_num_nodes r))"

lemma insert_pending_deque:
  assumes "fq_inv d" "sorted (map submit_time (m_wait_queue d @ map (pending_entry tr) ids))"
  shows "\<exists>d'. insert_pending b tr ids (FCFS_Easy_Deque d) = Inr (FCFS_Easy_Deque d') \<and> fq_inv d' \<and>
    m_wait_queue d' = m_wait_queue d @ map (pending_entry tr) ids \<and> m_current_tracked_time d' = m_current_tracked_time d \<and>
    same_settings d' d"
  using assms
proof (induction ids arbitrary: d)
  case Nil
  then show ?case by (simp add: same_settings_def)
next
  case (Cons i ids)
  define r where "r = m_data tr ! (i - m_num_reclaimed tr)"
  define d1 where "d1 = deque_insert_job d i (convert_epoch (m_t_submit r)) (limit_time r) (m_num_nodes r)"
  have "in_order d (convert_epoch (m_t_submit r))"
    using Cons.prems(2) by (auto simp: in_order_def sorted_append pending_entry_def r_def Let_def new_entry_def)
  from insert_job_refines[OF Cons.prems(1) this] have inv: "fq_inv d1" by (simp add: d1_def)
  have q: "m_wait_queue d1 = m_wait_queue d @ [pending_entry tr i]" "m_current_tracked_time d1 = m_current_tracked_time d" "same_settings d1 d"
    by (simp_all add: d1_def deque_insert_job_def Let_def pending_entry_def r_def same_settings_def)
  have "sorted (map submit_time (m_wait_queue d1 @ map (pending_entry tr) ids))" using Cons.prems(2) by (simp add: q(1))
  from Cons.IH[OF inv this] q show ?case
    by (auto simp: Let_def r_def[symmetric] d1_def[symmetric] same_settings_def)
qed

lemma split_by_time:
  assumes "fq_inv a" "fq_inv b" "pending a = pending b" "m_current_tracked_time a \<le> m_current_tracked_time b"
    and "\<forall>j\<in>set (future a). m_current_tracked_time b < submit_time j"
  shows "waiting a = waiting b \<and> future a = future b"
proof -
  let ?t = "m_current_tracked_time b"
  have fa: "filter (\<lambda>j. submit_time j \<le> ?t) (waiting a) = waiting a" "filter (\<lambda>j. \<not> submit_time j \<le> ?t) (waiting a) = []"
    using waiting_arrived[OF assms(1)] assms(4) by (auto simp: filter_empty_conv intro!: filter_True order_trans[OF _ assms(4)])
  have ga: "filter (\<lambda>j. submit_time j \<le> ?t) (future a) = []" "filter (\<lambda>j. \<not> submit_time j \<le> ?t) (future a) = future a"
    using assms(5) by (auto simp: filter_empty_conv intro!: filter_True)
  have fb: "filter (\<lambda>j. submit_time j \<le> ?t) (waiting b) = waiting b" "filter (\<lambda>j. \<not> submit_time j \<le> ?t) (waiting b) = []"
    using waiting_arrived[OF assms(2)] by (auto simp: filter_empty_conv intro!: filter_True)
  have gb: "filter (\<lambda>j. submit_time j \<le> ?t) (future b) = []" "filter (\<lambda>j. \<not> submit_time j \<le> ?t) (future b) = future b"
    using assms(2) by (auto simp: filter_empty_conv fq_inv_def future_def intro!: filter_True)
  from assms(3) have "filter P (waiting a) @ filter P (future a) = filter P (waiting b) @ filter P (future b)" for P
    by (metis filter_append pending_def)
  from this[of "\<lambda>j. submit_time j \<le> ?t"] this[of "\<lambda>j. \<not> submit_time j \<le> ?t"] show ?thesis by (simp only: fa ga fb gb append_Nil append_Nil2)
qed

section \<open>The two classes behind the pointer\<close>

text \<open>The queue of a first-come EASY scheduler: of the deque class, or of the circular class when its buffer grows.\<close>

fun fcfs_easy :: "any_scheduler \<Rightarrow> fcfs_queue option" where
  "fcfs_easy (FCFS_Easy_Deque d) = Some d"
| "fcfs_easy (FCFS_Easy_Circular c) =
     (if length (m_wait_queue c) \<le> m_capacity c \<and> m_overflow_policy c = GROW then Some (deque_view c) else None)"
| "fcfs_easy _ = None"

lemma fcfs_easyE:
  assumes "fcfs_easy x = Some d"
  obtains "x = FCFS_Easy_Deque d" | c where "x = FCFS_Easy_Circular c" "as_deque c d"
  using assms by (cases x) (auto simp: as_deque_def split: if_splits)

lemma fcfs_easy_circular [simp]: "fcfs_easy (FCFS_Easy_Circular c) = Some d \<longleftrightarrow> as_deque c d"
  by (auto simp: as_deque_def)

declare fcfs_easy.simps(2) [simp del]

lemma easy_bisimilar: "bisimilar (any_ops b hash) deque_ops (\<lambda>x d. fcfs_easy x = Some d)"
proof -
  note dd = dispatch_simps(1)[of b hash, unfolded dispatches_to_def] and dc = dispatch_simps(2)[of b hash, unfolded dispatches_to_def]
  have ops: "so_sync_to (circular_ops b) = so_sync_to (circular_ops documented_buffer)"
    "so_active_job_count (circular_ops b) = so_active_job_count (circular_ops documented_buffer)"
    "so_get_next_arrival_time (circular_ops b) = so_get_next_arrival_time (circular_ops documented_buffer)"
    "so_has_eligible_jobs (circular_ops b) = so_has_eligible_jobs (circular_ops documented_buffer)"
    "so_schedule (circular_ops b) = so_schedule (circular_ops documented_buffer)"
    "so_schedule_event (circular_ops b) = so_schedule_event (circular_ops documented_buffer)"
    "so_set_capacity_outlook (circular_ops b) = so_set_capacity_outlook (circular_ops documented_buffer :: circular_queue scheduler_ops)"
    by (simp_all add: circular_ops_def)
  have pd: "rel_prod (=) (\<lambda>x d. fcfs_easy x = Some d) (map_prod id FCFS_Easy_Deque p) p" for p :: "job_no list \<times> fcfs_queue"
    by (cases p) simp
  have pc: "rel_prod (=) (\<lambda>x d. fcfs_easy x = Some d) (map_prod id FCFS_Easy_Circular p) q" if "rel_prod (=) as_deque p q"
    for p :: "job_no list \<times> circular_queue" and q
    using that by (cases p; cases q) simp
  show ?thesis
  proof (unfold_locales, goal_cases)
    case (1 x d t)
    then show ?case by (rule fcfs_easyE) (simp_all add: dd dc ops cd.sync_law)
  next
    case (2 x d)
    then show ?case by (rule fcfs_easyE) (simp_all add: dd dc ops cd.count_law)
  next
    case (3 x d)
    then show ?case by (rule fcfs_easyE) (simp_all add: dd dc ops cd.next_law)
  next
    case (4 x d)
    then show ?case by (rule fcfs_easyE) (simp_all add: dd dc ops cd.eligible_law)
  next
    case (5 x d c u ch free running now)
    then show ?case
      by (rule fcfs_easyE) (use pc[OF cd.pass_law[of _ d c u ch free running now]] in \<open>simp_all add: dd dc ops pd\<close>)
  next
    case (6 x d c u ch free running now)
    then show ?case
      by (rule fcfs_easyE) (use pc[OF cd.event_law[of _ d c u ch free running now]] in \<open>simp_all add: dd dc ops pd\<close>)
  qed
qed

lemma bisimilar_trans:
  assumes "bisimilar A B R" "bisimilar B C S"
  shows "bisimilar A C (R OO S)"
proof -
  note l = bisimilar.sync_law[OF assms(1)] bisimilar.sync_law[OF assms(2)]
  have pass: "rel_prod (=) (R OO S) p r" if "rel_prod (=) R p q" "rel_prod (=) S q r" for p q r
    using that by (auto simp: rel_prod_sel)
  show ?thesis
  proof (unfold_locales, goal_cases)
    case (1 a c t)
    then show ?case using l by blast
  next
    case (2 a c)
    then show ?case using bisimilar.count_law[OF assms(1)] bisimilar.count_law[OF assms(2)] by fastforce
  next
    case (3 a c)
    then show ?case using bisimilar.next_law[OF assms(1)] bisimilar.next_law[OF assms(2)] by fastforce
  next
    case (4 a c)
    then show ?case using bisimilar.eligible_law[OF assms(1)] bisimilar.eligible_law[OF assms(2)] by fastforce
  next
    case (5 a e c u ch free running now)
    then show ?case using pass[OF bisimilar.pass_law[OF assms(1)] bisimilar.pass_law[OF assms(2)]] by blast
  next
    case (6 a e c u ch free running now)
    then show ?case using pass[OF bisimilar.event_law[OF assms(1)] bisimilar.event_law[OF assms(2)]] by blast
  qed
qed

definition any_alike :: "any_scheduler \<Rightarrow> any_scheduler \<Rightarrow> bool" where
  "any_alike x y \<longleftrightarrow> (case (fcfs_easy x, fcfs_easy y) of (Some a, Some b) \<Rightarrow> alike a b | _ \<Rightarrow> False)"

lemma any_alike_iff: "any_alike x y \<longleftrightarrow> (\<exists>a b. fcfs_easy x = Some a \<and> fcfs_easy y = Some b \<and> alike a b)"
  by (auto simp: any_alike_def split: option.splits)

lemma restart_bisimilar: "bisimilar (any_ops b hash) (any_ops b hash) any_alike"
proof -
  have "any_alike = ((\<lambda>x d. fcfs_easy x = Some d) OO alike) OO (\<lambda>x d. fcfs_easy x = Some d)\<inverse>\<inverse>"
    by (auto simp: fun_eq_iff any_alike_iff)
  then show ?thesis
    using bisimilar_trans[OF bisimilar_trans[OF easy_bisimilar rs.bisimilar_axioms] bisimilar.flipped[OF easy_bisimilar]] by simp
qed

text \<open>What a first-come EASY scheduler shows of its queue.\<close>

lemma fcfs_easy_shows:
  assumes "fcfs_easy x = Some d"
  shows "any_jobs x = pending d" "any_pending_job_ids x = deque_pending_job_ids d"
    "m_fcfs_reservation_time (any_base x) = m_fcfs_reservation_time d" "fcfs_easy (any_sync_to x t) = Some (deque_sync_to d t)"
    "fcfs_easy (any_put_base ((any_base x)\<lparr>m_fcfs_reservation_time := r\<rparr>) x) = Some (d\<lparr>m_fcfs_reservation_time := r\<rparr>)"
    "has_ring (any_sync_to x t) = has_ring x"
proof -
  show "any_jobs x = pending d" "any_pending_job_ids x = deque_pending_job_ids d"
    "m_fcfs_reservation_time (any_base x) = m_fcfs_reservation_time d"
    using assms by (auto elim!: fcfs_easyE simp: as_deque_def pending_def waiting_def future_def circular_pending_job_ids_def
        deque_pending_job_ids_def scheduler_base.defs fcfs_queue.defs)
  show "fcfs_easy (any_sync_to x t) = Some (deque_sync_to d t)"
    using assms bisimilar.sync_law[OF easy_bisimilar assms, of documented_buffer "\<lambda>_. 0" t] by (simp add: any_ops_def deque_ops_def)
  show "fcfs_easy (any_put_base ((any_base x)\<lparr>m_fcfs_reservation_time := r\<rparr>) x) = Some (d\<lparr>m_fcfs_reservation_time := r\<rparr>)"
    using assms
  proof (rule fcfs_easyE)
    fix c assume "x = FCFS_Easy_Circular c" "as_deque c d"
    then show ?thesis by (cases c) (auto simp: as_deque_def scheduler_base.defs fcfs_queue.defs)
  qed (simp only: put_base_deque fcfs_easy.simps)
  show "has_ring (any_sync_to x t) = has_ring x" by (cases x) simp_all
qed

lemma any_alike_jobs: "any_alike x y \<Longrightarrow> any_jobs x = any_jobs y"
  by (auto simp: any_alike_iff alike_def pending_def fcfs_easy_shows(1))

lemma alike_ids: "any_alike x y \<Longrightarrow> any_pending_job_ids x = any_pending_job_ids y"
  by (auto simp: any_alike_iff alike_def fcfs_easy_shows(2) pending_ids_split)

lemma insert_pending_easy:
  assumes "fcfs_easy x = Some d" "has_ring x \<longrightarrow> buffer_ok b"
    and "insert_pending b tr ids (FCFS_Easy_Deque d) = Inr (FCFS_Easy_Deque d')"
  shows "\<exists>y. insert_pending b tr ids x = Inr y \<and> fcfs_easy y = Some d'"
  using assms
proof (induction ids arbitrary: x d)
  case (Cons i ids)
  define r where "r = m_data tr ! (i - m_num_reclaimed tr)"
  define d1 where "d1 = deque_insert_job d i (convert_epoch (m_t_submit r)) (limit_time r) (m_num_nodes r)"
  have rest: "insert_pending b tr ids (FCFS_Easy_Deque d1) = Inr (FCFS_Easy_Deque d')"
    using Cons.prems(3) by (simp add: Let_def r_def d1_def)
  from Cons.prems(1) show ?case
  proof (rule fcfs_easyE)
    assume "x = FCFS_Easy_Deque d"
    then show ?thesis using Cons.prems(3) by auto
  next
    fix c assume c: "x = FCFS_Easy_Circular c" "as_deque c d"
    then have b: "buffer_ok b" using Cons.prems(2) by simp
    have "length (m_wait_queue c) \<le> m_capacity c" "m_overflow_policy c = GROW" "d = deque_view c" using c(2) by (simp_all add: as_deque_def)
    from grow_insert[OF b this(1,2), of i "convert_epoch (m_t_submit r)" "limit_time r" "m_num_nodes r"] this(3)
    obtain c1 where c1: "circular_insert_job b c i (convert_epoch (m_t_submit r)) (limit_time r) (m_num_nodes r) = Inr c1" "as_deque c1 d1"
      by (auto simp: as_deque_def d1_def)
    from Cons.IH[of "FCFS_Easy_Circular c1" d1] c1(2) b rest show ?thesis
      by (simp add: c(1) Let_def r_def[symmetric] c1(1))
  qed
qed simp

section \<open>The restored scheduler\<close>

lemma put_ring:
  fixes x :: circular_queue
  shows "m_wait_queue (scheduler_base.extend b (scheduler_base.more x)) = m_wait_queue x"
    "m_capacity (scheduler_base.extend b (scheduler_base.more x)) = m_capacity x"
    "m_overflow_policy (scheduler_base.extend b (scheduler_base.more x)) = m_overflow_policy x"
  by (cases x, simp add: scheduler_base.defs)+

lemma made_easy:
  assumes "make_scheduler p c n = Inr x" "fcfs_easy x = Some d"
  shows "m_wait_queue d = [] \<and> m_eligible_end_idx d = 0 \<and> m_removed_count d = 0 \<and> m_current_tracked_time d = 0"
proof -
  have "create_fixed_dispatch p c n \<noteq> Inr (FCFS_Easy_Deque d)" "create_periodic_backfill p c n \<noteq> Inr (FCFS_Easy_Deque d)"
    "create_hybrid_of p c n \<noteq> Inr (FCFS_Easy_Deque d)" "create_block_scheduler m pol bs q \<noteq> Inr (FCFS_Easy_Deque d)"
    "create_fixed_dispatch p c n \<noteq> Inr (FCFS_Easy_Circular e)" "create_periodic_backfill p c n \<noteq> Inr (FCFS_Easy_Circular e)"
    "create_hybrid_of p c n \<noteq> Inr (FCFS_Easy_Circular e)" "create_block_scheduler m pol bs q \<noteq> Inr (FCFS_Easy_Circular e)"
    for d e m pol bs q
    by (simp_all add: create_fixed_dispatch_def create_periodic_backfill_def create_hybrid_of_def create_hybrid_scheduler_def
        create_block_cases map_sum_Inr)
  then have no: "create_fixed_dispatch p c n \<noteq> Inr s" "create_periodic_backfill p c n \<noteq> Inr s" "create_hybrid_of p c n \<noteq> Inr s"
    "create_block_scheduler m pol bs q \<noteq> Inr s" if "fcfs_easy s \<noteq> None" for s m pol bs q
    using that by (cases s; simp)+
  obtain s b where s: "create_scheduler p c n = Inr s" "x = any_put_base b s"
    using assms(1) by (auto simp: make_scheduler_def split: sum.splits)
  have "create_fixed_dispatch p c n = Inr s \<or> create_periodic_backfill p c n = Inr s \<or> create_hybrid_of p c n = Inr s \<or>
      create_by_priority p c n = Inr s"
    using s(1) by (auto simp: create_scheduler_def split: if_splits)
  moreover have "fcfs_easy s \<noteq> None"
    using assms(2) unfolding s(2) by (cases s) (auto simp: put_ring as_deque_def fcfs_easy.simps(2) simp del: fcfs_easy_circular split: if_splits)
  ultimately have "create_by_priority p c n = Inr s" using no(1-3) by blast
  then have "s = FCFS_Easy_Deque (new_deque (p_total_nodes p) (p_backfill_policy p) (c_backfill_queue_depth c)) \<or>
      s = FCFS_Easy_Circular (new_circular (p_total_nodes p) n (p_backfill_policy p) (c_wait_queue_capacity c) (c_wait_queue_overflow c) (c_backfill_queue_depth c))"
    using no(3,4)[OF \<open>fcfs_easy s \<noteq> None\<close>] \<open>fcfs_easy s \<noteq> None\<close>
    by (auto simp: create_by_priority_def Let_def split: if_splits priority_policy.splits queue_implementation.splits)
  then show ?thesis using assms(2) unfolding s(2)
    by (auto simp: as_deque_def new_deque_def new_circular_def scheduler_base.defs fcfs_queue.defs circular_queue.defs)
qed

lemma restored_easy:
  assumes "fq_inv d" "queue_of_records (m_trace s) d" "0 \<le> m_current_tracked_time d" "m_current_tracked_time d \<le> m_current_time s"
    and "\<forall>j\<in>set (future d). m_current_time s < submit_time j"
    and made: "make_scheduler (m_params s) c (length (m_data (m_trace s))) = Inr x" "fcfs_easy x = Some d0" "has_ring x \<longrightarrow> buffer_ok b"
    and "same_settings d d0"
  shows "\<exists>y d'. restore_scheduler b c (m_fcfs_reservation_time d, sort (deque_pending_job_ids d)) s = Inr y \<and>
    fcfs_easy y = Some d' \<and> alike d d'"
proof -
  let ?tr = "m_trace s" and ?ids = "deque_pending_job_ids d"
  have ids: "?ids = map job_id (pending d)" using pending_ids_split[OF assms(1)] by (simp add: pending_def)
  have sorted: "sort ?ids = ?ids"
    using assms(2) by (intro sort_key_id_if_sorted) (auto simp: queue_of_records_def ids intro: strict_sorted_imp_sorted)
  have alive: "\<not> removed j" if "j \<in> set (pending d)" for j
    using that assms(1) by (auto simp: pending_def waiting_def future_def fq_inv_def)
  have entries: "map (pending_entry ?tr) ?ids = pending d" unfolding ids map_map
  proof (rule map_idI)
    fix j assume j: "j \<in> set (pending d)"
    then show "(pending_entry ?tr \<circ> job_id) j = j" using assms(2) alive[OF j]
      by (cases j) (auto simp: queue_of_records_def pending_entry_def new_entry_def Let_def)
  qed
  have d0: "m_wait_queue d0 = []" "m_eligible_end_idx d0 = 0" "m_removed_count d0 = 0" "m_current_tracked_time d0 = 0"
    using made_easy[OF made(1,2)] by simp_all
  have inv0: "fq_inv d0" by (simp add: fq_inv_def d0)
  have srt: "sorted (map submit_time (m_wait_queue d0 @ map (pending_entry ?tr) ?ids))"
    unfolding entries using sorted_pending[OF assms(1)] by (simp add: d0)
  obtain d1 where d1: "insert_pending b ?tr ?ids (FCFS_Easy_Deque d0) = Inr (FCFS_Easy_Deque d1)" "fq_inv d1"
    "m_wait_queue d1 = pending d" "m_current_tracked_time d1 = 0" "same_settings d1 d0"
    using insert_pending_deque[OF inv0 srt, of b] by (auto simp: d0 entries)
  obtain y1 where y1: "insert_pending b ?tr ?ids x = Inr y1" "fcfs_easy y1 = Some d1"
    using insert_pending_easy[OF made(2,3) d1(1)] by blast
  define d2 where "d2 = deque_sync_to d1 (m_current_time s)"
  define d3 where "d3 = d2\<lparr>m_fcfs_reservation_time := m_fcfs_reservation_time d\<rparr>"
  define y2 where "y2 = any_sync_to y1 (m_current_time s)"
  have y2: "fcfs_easy y2 = Some d2" using fcfs_easy_shows(4)[OF y1(2)] by (simp add: y2_def d2_def)
  define y where "y = any_put_base ((any_base y2)\<lparr>m_fcfs_reservation_time := m_fcfs_reservation_time d\<rparr>) y2"
  have y: "fcfs_easy y = Some d3" unfolding y_def d3_def by (rule fcfs_easy_shows(5)[OF y2])
  have "\<forall>i\<in>set ?ids. still_pending ?tr i" using assms(2) by (auto simp: queue_of_records_def ids)
  then have r: "restore_scheduler b c (m_fcfs_reservation_time d, sort ?ids) s = Inr y"
    by (simp add: restore_scheduler_def sorted made(1) y1(1) Let_def y2_def[symmetric] y_def)
  have inv2: "fq_inv d2" using sync_to_refines[OF d1(2)] by (simp add: d2_def)
  have t2: "m_current_tracked_time d2 = m_current_time s" using assms(3,4) by (simp add: d2_def deque_clock d1(4))
  have q2: "m_wait_queue d2 = pending d" by (simp add: d2_def deque_sync_to_def d1(3))
  have p2: "pending d2 = pending d"
    using pending_split[OF inv2] alive by (simp add: q2 pending_def filter_True)
  have w: "waiting d = waiting d2 \<and> future d = future d2"
    by (rule split_by_time[OF assms(1) inv2]) (use p2 t2 assms(4,5) in simp_all)
  have "same_settings d2 d0" unfolding d2_def using settings_kept(1)[of d1 "m_current_time s"] d1(5) by (simp add: same_settings_def)
  then have "alike d d3"
    using assms(1,4,9) inv2 w t2
    by (simp add: alike_def d3_def same_settings_def) (simp add: fq_inv_def waiting_def future_def)
  then show ?thesis using r y by blast
qed

section \<open>The restored simulation\<close>

text \<open>What no archive holds: the parameters and the configuration, the mode of the trace, the distribution of the node-release
  delay and the record of the last release.  A target that the program constructs for a restart has them as the interrupted
  simulation had them.\<close>

definition same_build :: "('g, 'r) checkpointed \<Rightarrow> ('g, 'r) checkpointed \<Rightarrow> bool" where
  "same_build cp target \<longleftrightarrow> compatible cp target \<and> m_params (cp_sim target) = m_params (cp_sim cp) \<and>
     (let tr = m_trace (cp_sim cp); tt = m_trace (cp_sim target) in
      m_trace_mode tt = m_trace_mode tr \<and> m_release_delay_from tt = m_release_delay_from tr \<and>
      (m_release_delay tt)\<lparr>rd_rng := rd_rng (m_release_delay tr)\<rparr> = m_release_delay tr \<and>
      m_last_departure_delayed tt = m_last_departure_delayed tr \<and> m_last_release_time tt = m_last_release_time tr)"

text \<open>A simulation whose outputs are taken away: an archive that does not preserve them restores this one.\<close>

definition output_free :: "'g trace \<Rightarrow> 'g trace" where
  "output_free tr = tr\<lparr>m_simulated_trace_ofs := None, m_resource_trace_ofs := None, m_simulated_trace_buffer := []\<rparr>"

lemma output_free_same: "outputs_closed tr \<Longrightarrow> m_simulated_trace_buffer tr = [] \<Longrightarrow> output_free tr = tr"
  by (simp add: output_free_def outputs_closed_def)

lemma restored_same_build:
  assumes "same_build cp target"
  shows "cp_sim (restored_from cp target) =
    with_scheduler (m_scheduler (cp_sim target)) ((cp_sim cp)\<lparr>m_trace := output_free (m_trace (cp_sim cp))\<rparr>)"
proof -
  have "restored_trace (m_trace (cp_sim cp)) (m_trace (cp_sim target)) = output_free (m_trace (cp_sim cp))"
    using assms by (simp add: restored_trace_def output_free_def same_build_def Let_def)
  then show ?thesis using assms by (simp add: restored_from_def same_build_def with_scheduler_def)
qed

text \<open>A simulation between two calls of \<^verbatim>\<open>advance_to\<close> on a first-come EASY scheduler; \<open>d\<close> is its queue.\<close>

definition interrupted :: "('g, 'r) checkpointed \<Rightarrow> fcfs_queue \<Rightarrow> bool" where
  "interrupted cp d \<longleftrightarrow> archivable cp \<and> cp_pre_start_jobs cp = 0 \<and> m_trace_mode (m_trace (cp_sim cp)) = SIMULATION \<and>
     fcfs_easy (m_scheduler (cp_sim cp)) = Some d \<and> fq_inv d \<and> queue_of_records (m_trace (cp_sim cp)) d \<and>
     0 \<le> m_current_tracked_time d \<and> m_current_tracked_time d \<le> m_current_time (cp_sim cp) \<and>
     (\<forall>j\<in>set (future d). m_current_time (cp_sim cp) < submit_time j)"

text \<open>The same with the output files closed, as a restart needs it.\<close>

definition resumable :: "('g, 'r) checkpointed \<Rightarrow> fcfs_queue \<Rightarrow> bool" where
  "resumable cp d \<longleftrightarrow> interrupted cp d \<and> outputs_closed (m_trace (cp_sim cp)) \<and> m_simulated_trace_buffer (m_trace (cp_sim cp)) = [] \<and>
     c_redis_uri (cp_config cp) = []"

definition observed :: "(any_scheduler, 'g) simulation \<Rightarrow> (unit, 'g) simulation \<times> job_entry list" where
  "observed s = (with_scheduler () s, any_jobs (m_scheduler s))"

lemma related_observed:
  fixes x y :: "('e + (any_scheduler, 'g) simulation) option"
  assumes "rel_option (rel_sum (=) (sim_rel any_alike)) x y"
  shows "map_option (map_sum id observed) x = map_option (map_sum id observed) y"
proof -
  have o: "observed s = observed t" if "sim_rel any_alike s t" for s t :: "(any_scheduler, 'g) simulation"
    using that by (rule sim_relE) (simp add: observed_def any_alike_jobs)
  then have "map_sum id observed a = map_sum id observed b"
    if "rel_sum (=) (sim_rel any_alike) a b" for a b :: "'e + (any_scheduler, 'g) simulation"
    using that by (cases a; cases b) auto
  then show ?thesis using assms by (cases x; cases y) auto
qed

lemma restart_related:
  assumes r: "interrupted cp d" and build: "same_build cp target"
    and made: "make_scheduler (m_params (cp_sim cp)) (cp_config target) (length (m_data (m_trace (cp_sim cp)))) = Inr x0"
      "fcfs_easy x0 = Some d0" "has_ring x0 \<longrightarrow> buffer_ok b"
    and set: "same_settings d d0" and outputs: "preserve \<Longrightarrow> outputs_closed (m_trace (cp_sim cp)) \<and> c_redis_uri (cp_config cp) = []"
  shows "\<exists>a cp'. save_checkpoint_impl env preserve cp = Inr (a, cp) \<and> load_checkpoint_impl env b restore a target = Inr cp' \<and>
    sim_rel any_alike ((cp_sim cp)\<lparr>m_trace := output_free (m_trace (cp_sim cp))\<rparr>) (cp_sim cp') \<and>
    cp_rng cp' = cp_rng cp \<and> cp_next_progressive_file cp' = cp_next_progressive_file cp"
proof -
  let ?s = "(cp_sim cp)\<lparr>m_trace := output_free (m_trace (cp_sim cp))\<rparr>" and ?a = "write_checkpoint env False False 0 0 cp"
  have arch: "archivable cp" and sc: "fcfs_easy (m_scheduler (cp_sim cp)) = Some d" and inv: "fq_inv d"
    and q: "queue_of_records (m_trace (cp_sim cp)) d" and t: "0 \<le> m_current_tracked_time d"
      "m_current_tracked_time d \<le> m_current_time (cp_sim cp)" "\<forall>j\<in>set (future d). m_current_time (cp_sim cp) < submit_time j"
    using r by (simp_all add: interrupted_def)
  have save: "save_checkpoint_impl env preserve cp = Inr (?a, cp)"
    using r outputs by (intro save_closed) (simp_all add: interrupted_def)
  note sim = restored_same_build[OF build]
  define s1 where "s1 = with_scheduler (m_scheduler (cp_sim target)) ?s"
  have e: "m_trace s1 = output_free (m_trace (cp_sim cp))" "m_params s1 = m_params (cp_sim cp)" "m_current_time s1 = m_current_time (cp_sim cp)"
    by (simp_all add: s1_def)
  have q1: "queue_of_records (m_trace s1) d" using q by (simp add: e output_free_def queue_of_records_def still_pending_def resident_def)
  have made1: "make_scheduler (m_params s1) (cp_config target) (length (m_data (m_trace s1))) = Inr x0"
    using made(1) by (simp add: e output_free_def)
  note queue = fcfs_easy_shows(2,3)[OF sc]
  obtain y d' where y: "restore_scheduler b (cp_config target) (m_fcfs_reservation_time d, sort (deque_pending_job_ids d)) s1 = Inr y"
    "fcfs_easy y = Some d'" "alike d d'"
    using restored_easy[OF inv q1 t(1) _ _ made1 made(2,3) set] t by (auto simp: e)
  define cp' where "cp' = (restored_from cp target)\<lparr>cp_sim := with_scheduler y ?s\<rparr>"
  have "compatible cp target" using build by (simp add: same_build_def)
  from load_written[OF arch this, of env b restore 0 0]
  have load: "load_checkpoint_impl env b restore ?a target = Inr cp'"
    by (simp add: sim queue y(1) s1_def[symmetric] cp'_def) (simp add: s1_def with_scheduler_def)
  have "any_alike (m_scheduler ?s) y" using sc y(2,3) by (simp add: any_alike_iff)
  then have rel: "sim_rel any_alike ?s (cp_sim cp')" by (simp add: sim_relI cp'_def)
  have "cp_rng cp' = cp_rng cp" "cp_next_progressive_file cp' = cp_next_progressive_file cp" by (simp_all add: cp'_def restored_from_def)
  then show ?thesis using save load rel by blast
qed

theorem restart_law:
  assumes "resumable cp d" "same_build cp target"
    and "make_scheduler (m_params (cp_sim cp)) (cp_config target) (length (m_data (m_trace (cp_sim cp)))) = Inr x0"
    and "fcfs_easy x0 = Some d0" "has_ring x0 \<longrightarrow> buffer_ok b" and "same_settings d d0"
  shows "\<exists>a cp'. save_checkpoint_impl env True cp = Inr (a, cp) \<and> load_checkpoint_impl env b True a target = Inr cp' \<and>
    cp_rng cp' = cp_rng cp \<and> cp_next_progressive_file cp' = cp_next_progressive_file cp \<and> observed (cp_sim cp') = observed (cp_sim cp) \<and>
    (\<forall>dm t. map_option (map_sum id observed) (advance_to (any_ops b hash) dm t (cp_sim cp')) =
      map_option (map_sum id observed) (advance_to (any_ops b hash) dm t (cp_sim cp)))"
proof -
  obtain a cp' where l: "save_checkpoint_impl env True cp = Inr (a, cp)" "load_checkpoint_impl env b True a target = Inr cp'"
    "sim_rel any_alike (cp_sim cp) (cp_sim cp')" "cp_rng cp' = cp_rng cp" "cp_next_progressive_file cp' = cp_next_progressive_file cp"
    using restart_related[OF _ assms(2-6), of True env True] assms(1) output_free_same by (fastforce simp: resumable_def)
  have adv: "map_option (map_sum id observed) (advance_to (any_ops b hash) dm t (cp_sim cp')) =
      map_option (map_sum id observed) (advance_to (any_ops b hash) dm t (cp_sim cp))" for dm t
    by (rule sym, rule related_observed[OF bisimilar.advance_rel[OF restart_bisimilar l(3)]])
  have "observed (cp_sim cp') = observed (cp_sim cp)" using l(3) by (rule sim_relE) (simp add: observed_def any_alike_jobs)
  then show ?thesis using l adv by blast
qed

end
