(* ===== verification/Exact_Query.thy ===== *)
theory Exact_Query
  imports Restart
begin

text \<open>
  \<^verbatim>\<open>get_exact_job_start_times\<close> (\<^verbatim>\<open>src/src/sim/sim.cpp\<close>): the simulation is saved to memory, a second simulation loads the
  archive and runs to the end, and the answers are read from it.  The law is that these are the answers of the simulation itself,
  had it been run to the end with its outputs and automatic checkpoints off.  The clone that the constructor makes is an argument.
\<close>

section \<open>The query\<close>

datatype exact_start_outcome = Exact_Started | Exact_Rejected | Capacity_Unreachable

record exact_start_result =
  es_job_idx :: job_no
  es_outcome :: exact_start_outcome
  es_start_time :: "sim_time option"

text \<open>The answers for an enumeration of the queue, read from the job records.\<close>

fun enumerated_starts :: "'g trace \<Rightarrow> job_no list \<Rightarrow> exn + exact_start_result list" where
  "enumerated_starts tr [] = Inr []"
| "enumerated_starts tr (i # is) =
     (case job_at tr i of
        Inl e \<Rightarrow> Inl e
      | Inr j \<Rightarrow>
          map_sum id ((#) \<lparr>es_job_idx = i, es_outcome = (if is_scheduled j then Exact_Started else Capacity_Unreachable),
              es_start_time = (if is_scheduled j then Some (convert_epoch (m_t_begin j)) else None)\<rparr>)
            (enumerated_starts tr is))"

text \<open>The answers for requested jobs, read from their statuses.\<close>

definition start_of_status :: "job_status \<Rightarrow> exact_start_result" where
  "start_of_status st =
     \<lparr>es_job_idx = st_job_idx st,
      es_outcome = (if st_start_time st \<noteq> None then Exact_Started
                    else if st_state st = REJECTED then Exact_Rejected else Capacity_Unreachable),
      es_start_time = st_start_time st\<rparr>"

definition exact_answers :: "job_no list \<Rightarrow> job_no list \<Rightarrow> (any_scheduler, 'g) simulation \<Rightarrow> exn + exact_start_result list" where
  "exact_answers job_idxs requested s =
     (if job_idxs = [] then enumerated_starts (m_trace s) requested
      else map_sum id (map start_of_status) (get_job_statuses any_pending_job_ids requested 0 s))"

text \<open>The outputs and the automatic checkpoints of the clone are turned off.\<close>

definition silence :: "('g, 'r) checkpointed \<Rightarrow> ('g, 'r) checkpointed" where
  "silence cp = cp\<lparr>cp_sim := (cp_sim cp)\<lparr>m_params := (m_params (cp_sim cp))\<lparr>p_checkpoint_file := False, p_checkpoint_interval_jobs := 0\<rparr>\<rparr>,
     cp_config := (cp_config cp)\<lparr>c_outfile := [], c_resource_trace := [], c_redis_uri := [], c_redis_key_prefix := []\<rparr>,
     cp_has_automatic_checkpoint := False\<rparr>"

definition requested_jobs :: "job_no list \<Rightarrow> nat \<Rightarrow> any_scheduler \<Rightarrow> job_no list" where
  "requested_jobs job_idxs depth sc = (if job_idxs = [] then take_depth depth (any_pending_job_ids sc) else job_idxs)"

definition get_exact_job_start_times ::
  "circular_buffer \<Rightarrow> (tdiff \<Rightarrow> 64 word) \<Rightarrow> 'g delay_math \<Rightarrow> checkpoint_env \<Rightarrow> exn + ('g, 'r) checkpointed \<Rightarrow> job_no list \<Rightarrow> nat \<Rightarrow>
   ('g, 'r) checkpointed \<Rightarrow> (exn + exact_start_result list) option" where
  "get_exact_job_start_times b hash dm env clone job_idxs depth cp =
     (let requested = requested_jobs job_idxs depth (m_scheduler (cp_sim cp)) in
      if requested = [] then Some (Inr [])
      else case save_checkpoint_impl env False cp of
        Inl e \<Rightarrow> Some (Inl e)
      | Inr (a, _) \<Rightarrow>
          (case clone of
             Inl e \<Rightarrow> Some (Inl e)
           | Inr clone \<Rightarrow>
               (case load_checkpoint_impl env b False a clone of
                  Inl e \<Rightarrow> Some (Inl e)
                | Inr clone \<Rightarrow>
                    map_option (\<lambda>r. case r of Inl e \<Rightarrow> Inl e | Inr s \<Rightarrow> exact_answers job_idxs requested s)
                      (advance_to (any_ops b hash) dm dbl_max (cp_sim (silence clone))))))"

section \<open>The answers are those of the run itself\<close>

lemma statuses_scheduler:
  assumes "f c = f (m_scheduler s)"
  shows "get_job_statuses f idxs depth (with_scheduler c s) = get_job_statuses f idxs depth s"
proof -
  have t: "tracked_query (with_scheduler c s) i = tracked_query s i" for i by (simp add: tracked_query_def)
  have "tracked_statuses (with_scheduler c s) is = tracked_statuses s is" for "is" by (induction "is") (simp_all add: t split: sum.split)
  moreover have "query_profile (with_scheduler c s) = query_profile s" by (simp add: query_profile_def query_deltas_def)
  ultimately show ?thesis unfolding get_job_statuses_def by (simp only: ws_fields assms)
qed

lemma related_answers:
  assumes "sim_rel any_alike s t"
  shows "exact_answers idxs requested s = exact_answers idxs requested t"
  using assms
  by (rule sim_relE) (simp add: exact_answers_def statuses_scheduler[of any_pending_job_ids] alike_ids)

text \<open>The simulation that is asked, with its outputs and its automatic checkpoints off.\<close>

definition undisturbed :: "('g, 'r) checkpointed \<Rightarrow> (any_scheduler, 'g) simulation" where
  "undisturbed cp = (cp_sim (silence cp))\<lparr>m_trace := output_free (m_trace (cp_sim cp))\<rparr>"

lemma undisturbed_same:
  assumes "outputs_closed (m_trace (cp_sim cp))" "m_simulated_trace_buffer (m_trace (cp_sim cp)) = []"
    and "\<not> p_checkpoint_file (m_params (cp_sim cp))" "p_checkpoint_interval_jobs (m_params (cp_sim cp)) = 0"
  shows "undisturbed cp = cp_sim cp"
proof -
  have "(m_params (cp_sim cp))\<lparr>p_checkpoint_file := False, p_checkpoint_interval_jobs := 0\<rparr> = m_params (cp_sim cp)"
    using assms(3,4) by (cases "m_params (cp_sim cp)") simp
  then show ?thesis by (simp add: undisturbed_def silence_def output_free_same[OF assms(1,2)])
qed

theorem exact_start_law:
  assumes r: "interrupted cp d" and build: "same_build cp clone"
    and made: "make_scheduler (m_params (cp_sim cp)) (cp_config clone) (length (m_data (m_trace (cp_sim cp)))) = Inr x0"
      "fcfs_easy x0 = Some d0" "has_ring x0 \<longrightarrow> buffer_ok b"
    and set: "same_settings d d0"
  shows "get_exact_job_start_times b hash dm env (Inr clone) job_idxs depth cp =
    (let requested = requested_jobs job_idxs depth (m_scheduler (cp_sim cp)) in
     if requested = [] then Some (Inr [])
     else map_option (\<lambda>r. case r of Inl e \<Rightarrow> Inl e | Inr s \<Rightarrow> exact_answers job_idxs requested s)
       (advance_to (any_ops b hash) dm dbl_max (undisturbed cp)))"
proof (cases "requested_jobs job_idxs depth (m_scheduler (cp_sim cp)) = []")
  case True
  then show ?thesis by (simp add: get_exact_job_start_times_def)
next
  case False
  let ?s = "(cp_sim cp)\<lparr>m_trace := output_free (m_trace (cp_sim cp))\<rparr>"
  obtain a cp' where l: "save_checkpoint_impl env False cp = Inr (a, cp)" "load_checkpoint_impl env b False a clone = Inr cp'"
    "sim_rel any_alike ?s (cp_sim cp')" using restart_related[OF r build made set, of False env False] by blast
  obtain y where y: "cp_sim cp' = with_scheduler y ?s" "any_alike (m_scheduler ?s) y" using l(3) by (rule sim_relE)
  have "cp_sim (silence cp') = with_scheduler y (undisturbed cp)" "m_scheduler (undisturbed cp) = m_scheduler ?s"
    by (simp_all add: silence_def undisturbed_def y(1) with_scheduler_def)
  then have rel: "sim_rel any_alike (undisturbed cp) (cp_sim (silence cp'))" using y(2) by (simp add: sim_relI)
  show ?thesis
    using bisimilar.advance_rel[OF restart_bisimilar rel, of b hash dm dbl_max] False
    by (cases "advance_to (any_ops b hash) dm dbl_max (undisturbed cp)"; cases "advance_to (any_ops b hash) dm dbl_max (cp_sim (silence cp'))")
      (auto simp: get_exact_job_start_times_def l Let_def split: sum.splits intro: related_answers[symmetric])
qed

end
