(* ===== verification/Examples.thy ===== *)
theory Examples
  imports Simulation_Stats Exact_Query
begin

text \<open>
  Concrete states on which the properties are instantiated: a ten-node cluster with one running job,
  and an EASY queue whose head is blocked behind it.
\<close>

definition ex_running :: running_jobs where
  "ex_running = [(0, \<lparr>rj_start_time = dbl 0, rj_run_time = dbl 10, rj_nodes = 6\<rparr>)]"

definition ex_queue :: fcfs_queue where
  "ex_queue = deque_insert_job (deque_insert_job (deque_insert_job (new_deque 10 EASY 0)
     1 (dbl 0) (dbl 100) 8) 2 (dbl 0) (dbl 5) 2) 3 (dbl 1) (dbl 50) 4"

lemma ex_queue_eq: "ex_queue = \<lparr>m_total_nodes = 10, m_backfill_policy = EASY, m_fcfs_reservation_time = dbl 0,
    m_planning_time_resolution = dbl 0, m_outlook_capacity = 0, m_outlook_occupied = 0, m_outlook_changes = [],
    m_planning_horizon = dbl_max,
    m_wait_queue = [new_entry 1 (dbl 0) (dbl 100) 8, new_entry 2 (dbl 0) (dbl 5) 2, new_entry 3 (dbl 1) (dbl 50) 4],
    m_eligible_end_idx = 2, m_current_tracked_time = dbl 0, m_removed_count = 0, m_backfill_queue_depth = 0\<rparr>"
  by (simp add: ex_queue_def new_deque_def new_base_def deque_insert_job_def Let_def scheduler_base.defs
      fcfs_queue.defs dbl_simps)

lemma ex_queue_inv: "fq_inv ex_queue"
  by (simp add: fq_inv_def ex_queue_eq new_entry_def dbl_simps)

definition ex_after :: fcfs_queue where
  "ex_after = ex_queue\<lparr>m_fcfs_reservation_time := dbl 10,
      m_wait_queue := [new_entry 1 (dbl 0) (dbl 100) 8, (new_entry 2 (dbl 0) (dbl 5) 2)\<lparr>removed := True\<rparr>,
        new_entry 3 (dbl 1) (dbl 50) 4],
      m_eligible_end_idx := 3, m_current_tracked_time := dbl 1, m_removed_count := 1\<rparr>"

lemma ex_queue_pass: "deque_schedule ex_queue 4 ex_running (dbl 1) = ([2], ex_after)"
  by (simp add: ex_after_def ex_queue_eq ex_running_def eval_simps Let_def dbl_simps word_less_def)

lemma ex_after_simps:
  "m_fcfs_reservation_time ex_after = dbl 10"
  "waiting ex_after = [new_entry 1 (dbl 0) (dbl 100) 8, new_entry 3 (dbl 1) (dbl 50) 4]"
  "waiting (deque_sync_to ex_queue (dbl 1)) =
     [new_entry 1 (dbl 0) (dbl 100) 8, new_entry 2 (dbl 0) (dbl 5) 2, new_entry 3 (dbl 1) (dbl 50) 4]"
  "release_estimate ex_queue (dbl a) (dbl b) = dbl a + dbl b - dbl a"
  by (simp_all add: ex_after_def ex_queue_eq waiting_def new_entry_def deque_sync_to_def arrived_prefix_def
      release_estimate_def dbl_simps)

lemma ex_queue_planning:
  "outlook_ok ex_queue" "m_outlook_occupied ex_queue \<le> m_outlook_capacity ex_queue"
  "m_backfill_policy ex_queue \<noteq> NONE" "reservation_within_horizon ex_queue (dbl 10) (dbl 1)"
  by (simp_all add: ex_queue_eq outlook_ok_def reservation_within_horizon_def dbl_simps)

lemma ex_balance: "balance_at ex_queue 4 ex_running (dbl 1) [] t < 2 ^ 32"
  by (simp add: balance_at_def released_def ex_queue_eq ex_running_def initial_balance_def end_time_def dbl_simps)

definition ex_timeline :: "segment list" where
  "ex_timeline = [(dbl 0, 4), (dbl 10, 10), (dbl 20, 2)]"

lemma ex_timeline_wf: "wf_tl ex_timeline" "origin ex_timeline = dbl 0"
  by (simp_all add: wf_tl_def origin_def ex_timeline_def dbl_simps)

text \<open>A hybrid queue state with the default horizon and resolution, and a profile for its traversal.\<close>

definition ex_hybrid :: hybrid_queue where
  "ex_hybrid = \<lparr>m_total_nodes = 10, m_backfill_policy = HYBRID, m_fcfs_reservation_time = 0,
    m_planning_time_resolution = 0, m_outlook_capacity = 0, m_outlook_occupied = 0, m_outlook_changes = [],
    m_planning_horizon = dbl_max, m_wait_queue = [], m_eligible_end_idx = 0, m_current_tracked_time = 0,
    m_removed_count = 0, m_backfill_queue_depth = 0, m_reservation_depth = 2, m_backfill_depth_time = dbl_lowest,
    m_backfill_depth_examined = 0, m_backfill_depth_head_accounted = False\<rparr>"

definition ex_base :: "segment list" where
  "ex_base = [(dbl 0, 4), (dbl 10, 10)]"

definition ex_candidates :: "job_entry list" where
  "ex_candidates = [new_entry 2 (dbl 0) (dbl 5) 2, new_entry 3 (dbl 0) (dbl 50) 4]"

lemma ex_fits:
  "earliest_fit ex_base 8 (dbl 100) (dbl 0) = Some (dbl 10)"
  "earliest_fit ex_base 2 0 (dbl 0) = Some (dbl 0)"
  "earliest_fit [(dbl 0, 4), (dbl 10, 2), (dbl 110, 10)] 2 (dbl 5) (dbl 0) = Some (dbl 0)"
  "earliest_fit [(dbl 0, 2), (dbl 5, 4), (dbl 10, 10)] 4 0 (dbl 0) = Some (dbl 5)"
  "earliest_fit [(dbl 0, 2), (dbl 5, 4), (dbl 10, 2), (dbl 110, 10)] 4 (dbl 50) (dbl 0) = Some (dbl 110)"
  by (simp_all add: ex_base_def eval_simps Let_def dbl_simps)

lemma ex_reserves:
  "reserve ex_base (dbl 10) 8 (dbl 100) = [(dbl 0, 4), (dbl 10, 2), (dbl 110, 10)]"
  "reserve ex_base (dbl 0) 2 (dbl 5) = [(dbl 0, 2), (dbl 5, 4), (dbl 10, 10)]"
  "reserve [(dbl 0, 4), (dbl 10, 2), (dbl 110, 10)] (dbl 0) 2 (dbl 5) = [(dbl 0, 2), (dbl 5, 4), (dbl 10, 2), (dbl 110, 10)]"
  "reserve [(dbl 0, 2), (dbl 5, 4), (dbl 10, 2), (dbl 110, 10)] (dbl 110) 4 (dbl 50) =
     [(dbl 0, 2), (dbl 5, 4), (dbl 10, 2), (dbl 110, 6), (dbl 160, 10)]"
  by (simp_all add: ex_base_def eval_simps Let_def dbl_simps)

lemma ex_hybrid_planning:
  "release_estimate ex_hybrid (dbl 0) (dbl 100) = dbl 100" "release_estimate ex_hybrid (dbl 10) (dbl 100) = dbl 100"
  "release_estimate ex_hybrid (dbl 0) (dbl 5) = dbl 5" "release_estimate ex_hybrid (dbl 0) (dbl 50) = dbl 50"
  "release_estimate ex_hybrid (dbl 110) (dbl 50) = dbl 50"
  "reservation_within_horizon ex_hybrid (dbl 0) (dbl 0)" "reservation_within_horizon ex_hybrid (dbl 5) (dbl 0)"
  "reservation_within_horizon ex_hybrid (dbl 10) (dbl 0)" "reservation_within_horizon ex_hybrid (dbl 110) (dbl 0)"
  by (simp_all add: ex_hybrid_def eval_simps Let_def dbl_simps)

lemma ex_traversal:
  "hybrid_scan log_fit log_commit ex_hybrid (dbl 0) False 0 2 4 ex_base
     (protect_job log_fit log_commit ex_hybrid (dbl 0) 2 (0, (ex_base, [])) (new_entry 1 (dbl 0) (dbl 100) 8) None) 1 ex_candidates =
   ([new_entry 2 (dbl 0) (dbl 5) 2], [(new_entry 2 (dbl 0) (dbl 5) 2)\<lparr>removed := True\<rparr>, new_entry 3 (dbl 0) (dbl 50) 4], 3, 2,
    [(dbl 0, 2), (dbl 5, 4), (dbl 10, 2), (dbl 110, 6), (dbl 160, 10)],
    [(dbl 110, 4, dbl 50), (dbl 0, 2, dbl 5), (dbl 10, 8, dbl 100)])"
  by (simp add: ex_candidates_def protect_job_def log_fit_def log_commit_def ex_fits ex_reserves ex_hybrid_planning
      new_entry_def value_or_max_def word_less_def Let_def)

text \<open>A dispatch queue of two waiting jobs with a depth of one.\<close>

definition ex_dispatch :: periodic_dispatch where
  "ex_dispatch = \<lparr>m_total_nodes = 10, m_backfill_policy = CONSERVATIVE, m_fcfs_reservation_time = 0,
    m_planning_time_resolution = 0, m_outlook_capacity = 0, m_outlook_occupied = 0, m_outlook_changes = [],
    m_planning_horizon = dbl_max,
    m_wait_queue = [new_entry 1 (dbl 0) (dbl 5) 4, new_entry 2 (dbl 0) (dbl 5) 2], m_eligible_end_idx = 2,
    m_current_tracked_time = dbl 0, m_removed_count = 0, m_backfill_queue_depth = 0, m_reservation_depth = 2,
    m_backfill_depth_time = dbl_lowest, m_backfill_depth_examined = 0, m_backfill_depth_head_accounted = False,
    mh_capacity = 4, mh_overflow_policy = ABORT, m_dispatch_queue_depth = 1\<rparr>"

lemma ex_dispatch_facts:
  "hc_inv ex_dispatch" "m_dispatch_queue_depth ex_dispatch = 1"
  "waiting (hc_sync_to ex_dispatch (dbl 1)) = [new_entry 1 (dbl 0) (dbl 5) 4, new_entry 2 (dbl 0) (dbl 5) 2]"
  by (simp_all add: hc_inv_def fq_inv_def waiting_def hc_sync_to_def ex_dispatch_def new_entry_def dbl_simps)

definition ex_periodic :: periodic_easy where
  "ex_periodic = \<lparr>m_total_nodes = 10, m_backfill_policy = EASY, m_fcfs_reservation_time = 0,
    m_planning_time_resolution = 0, m_outlook_capacity = 0, m_outlook_occupied = 0, m_outlook_changes = [],
    m_planning_horizon = dbl_max,
    m_wait_queue = [new_entry 1 (dbl 0) (dbl 5) 4, new_entry 2 (dbl 0) (dbl 5) 8], m_eligible_end_idx = 2,
    m_current_tracked_time = dbl 0, m_removed_count = 0, m_backfill_queue_depth = 0,
    m_capacity = 4, m_overflow_policy = ABORT, m_backfill_evaluation_time = dbl_lowest\<rparr>"

lemma ex_periodic_facts:
  "fq_inv ex_periodic"
  "waiting (deque_sync_to ex_periodic (dbl 1)) = [new_entry 1 (dbl 0) (dbl 5) 4, new_entry 2 (dbl 0) (dbl 5) 8]"
  "spec_heads 10 (waiting (deque_sync_to ex_periodic (dbl 1))) =
     ([new_entry 1 (dbl 0) (dbl 5) 4], 6, [new_entry 2 (dbl 0) (dbl 5) 8])"
proof -
  show w: "waiting (deque_sync_to ex_periodic (dbl 1)) = [new_entry 1 (dbl 0) (dbl 5) 4, new_entry 2 (dbl 0) (dbl 5) 8]"
    by (simp add: waiting_def ex_periodic_def new_entry_def deque_sync_to_def arrived_prefix_def dbl_simps)
  show "spec_heads 10 (waiting (deque_sync_to ex_periodic (dbl 1))) =
     ([new_entry 1 (dbl 0) (dbl 5) 4], 6, [new_entry 2 (dbl 0) (dbl 5) 8])"
    unfolding w by (simp add: new_entry_def)
qed (simp add: fq_inv_def ex_periodic_def new_entry_def dbl_simps)

text \<open>The blocked head again, on the ordered queues.\<close>

definition ex_sjf :: mm_queue where
  "ex_sjf = sjf_insert_job (sjf_insert_job (sjf_insert_job (new_mm_queue 10 EASY 0)
     1 (dbl 0) (dbl 100) 8) 2 (dbl 1) (dbl 5) 2) 3 (dbl 1) (dbl 50) 4"

definition ex_mm :: mm_queue where
  "ex_mm = fcfs_mm_insert_job (fcfs_mm_insert_job (fcfs_mm_insert_job (new_mm_queue 10 EASY 0)
     1 (dbl 0) (dbl 100) 8) 2 (dbl 1) (dbl 5) 2) 3 (dbl 1) (dbl 50) 4"

lemma ex_sjf_eq: "ex_sjf = \<lparr>m_total_nodes = 10, m_backfill_policy = EASY, m_fcfs_reservation_time = dbl 0,
    m_planning_time_resolution = dbl 0, m_outlook_capacity = 0, m_outlook_occupied = 0, m_outlook_changes = [],
    m_planning_horizon = dbl_max,
    mm_wait_queue = [(dbl 5, mm_entry_of 2 (dbl 1) (dbl 5) 2), (dbl 50, mm_entry_of 3 (dbl 1) (dbl 50) 4),
      (dbl 100, mm_entry_of 1 (dbl 0) (dbl 100) 8)],
    mm_eligible_jobs = {1}, mm_current_tracked_time = dbl 0, mm_backfill_queue_depth = 0\<rparr>"
  by (simp add: ex_sjf_def eval_simps Let_def dbl_simps)

lemma ex_mm_eq: "ex_mm = \<lparr>m_total_nodes = 10, m_backfill_policy = EASY, m_fcfs_reservation_time = dbl 0,
    m_planning_time_resolution = dbl 0, m_outlook_capacity = 0, m_outlook_occupied = 0, m_outlook_changes = [],
    m_planning_horizon = dbl_max,
    mm_wait_queue = [(dbl 0, mm_entry_of 1 (dbl 0) (dbl 100) 8), (dbl 1, mm_entry_of 2 (dbl 1) (dbl 5) 2),
      (dbl 1, mm_entry_of 3 (dbl 1) (dbl 50) 4)],
    mm_eligible_jobs = {1}, mm_current_tracked_time = dbl 0, mm_backfill_queue_depth = 0\<rparr>"
  by (simp add: ex_mm_def eval_simps Let_def dbl_simps)

lemma ex_sjf_inv: "mm_inv (<) mm_run_time ex_sjf"
  unfolding ex_sjf_def by (intro sj.ins_inv mm_inv_new) (simp_all add: eval_simps Let_def dbl_simps)

definition ex_sjf_after :: mm_queue where
  "ex_sjf_after = snd (sjf_schedule ex_sjf 4 ex_running (dbl 1))"

lemma ex_sjf_pass:
  "sjf_schedule ex_sjf 4 ex_running (dbl 1) = ([2], ex_sjf_after)"
  "sjf_find_fcfs_head (mm_update_eligible ex_sjf (dbl 1)) = Some 2"
  "snd (mm_wait_queue (mm_update_eligible ex_sjf (dbl 1)) ! 2) = mm_entry_of 1 (dbl 0) (dbl 100) 8"
proof -
  have "fst (sjf_schedule ex_sjf 4 ex_running (dbl 1)) = [2]"
    by (simp add: ex_sjf_eq ex_running_def eval_simps Let_def dbl_simps word_less_def)
  then show "sjf_schedule ex_sjf 4 ex_running (dbl 1) = ([2], ex_sjf_after)" by (simp add: ex_sjf_after_def prod_eq_iff)
qed (simp_all add: ex_sjf_eq eval_simps Let_def dbl_simps)

lemma ex_sjf_planning:
  "outlook_ok ex_sjf" "m_outlook_occupied ex_sjf \<le> m_outlook_capacity ex_sjf"
  "calculate_fcfs_reservation ex_sjf 8 4 ex_running (dbl 1) [] = dbl 10"
  "balance_at ex_sjf 4 ex_running (dbl 1) [] t < 2 ^ 32"
  "reservation_within_horizon ex_sjf (dbl 10) (dbl 1)"
  "release_estimate ex_sjf (dbl 10) (dbl 100) = dbl 100"
  "\<forall>j\<in>set (mm_jobs ex_sjf). dbl 1 < dbl 1 + release_estimate ex_sjf (dbl 1) (run_time_estimate j)"
  "m_backfill_policy ex_sjf = EASY" "dbl 1 < dbl 10" "dbl 10 < dbl 10 + dbl 100"
  by (simp_all add: ex_sjf_eq ex_running_def outlook_ok_def balance_at_def released_def mm_jobs_def eval_simps Let_def dbl_simps)

lemma ex_mm_facts:
  "mm_inv (<) mm_submit_time ex_mm"
  "mm_waiting (mm_update_eligible ex_mm (dbl 1)) =
     entry_of (mm_entry_of 1 (dbl 0) (dbl 100) 8) # [entry_of (mm_entry_of 2 (dbl 1) (dbl 5) 2), entry_of (mm_entry_of 3 (dbl 1) (dbl 50) 4)]"
  "m_backfill_policy ex_mm = EASY" "mm_backfill_queue_depth ex_mm = 0"
  "calculate_fcfs_reservation ex_mm 8 4 ex_running (dbl 1) [] = dbl 10"
  "mm_nodes (mm_entry_of 1 (dbl 0) (dbl 100) 8) = 8" "dbl 1 < dbl 10"
proof -
  show "mm_inv (<) mm_submit_time ex_mm"
    unfolding ex_mm_def by (intro fm.ins_inv mm_inv_new) (simp_all add: eval_simps Let_def dbl_simps)
qed (simp_all add: ex_mm_eq mm_waiting_def ex_running_def eval_simps Let_def dbl_simps)

text \<open>The blocked head again, on the block queue with blocks of four identifiers; an index that sorts.\<close>

definition ex_index :: multi_index where
  "ex_index = \<lparr>first_by_run_time = (\<lambda>js. hd (sort_key bj_run_time_estimate js)),
     first_by_nodes = (\<lambda>js. hd (sort_key bj_nodes_requested js))\<rparr>"

lemma hd_sort_key_least:
  assumes "js \<noteq> []"
  shows "hd (sort_key f js) \<in> set js \<and> (\<forall>j\<in>set js. f (hd (sort_key f js)) \<le> f j)"
proof -
  have ne: "sort_key f js \<noteq> []" using assms by (metis length_sort length_0_conv)
  then obtain a as where s: "sort_key f js = a # as" by (cases "sort_key f js") auto
  have "sorted (map f (a # as))" using sorted_sort_key[of f js] s by simp
  moreover have "set js = set (a # as)" using s by (metis set_sort)
  ultimately show ?thesis using s by auto
qed

lemma ex_index_ok: "index_ok ex_index"
  using hd_sort_key_least[of _ bj_run_time_estimate] hd_sort_key_least[of _ bj_nodes_requested]
  unfolding index_ok_def ex_index_def multi_index.simps by blast

definition ex_block_queue :: block_queue where
  "ex_block_queue = \<lparr>m_blocks = [
       \<lparr>bi_block = [block_job_of 1 (dbl 0) (dbl 100) 8, block_job_of 2 (dbl 0) (dbl 5) 2, block_job_of 3 (dbl 1) (dbl 50) 4], bi_active_count = 3\<rparr>,
       \<lparr>bi_block = [block_job_of 7 (dbl 1) (dbl 4) 1], bi_active_count = 1\<rparr>],
     m_current_block_idx = 1, m_first_job_id = 1, m_last_job_id = 7, m_total_jobs = 4, m_active_count = 4, m_stats = no_stats\<rparr>"

lemma log2_four: "compute_log2 4 = 2"
  by (simp add: compute_log2.simps)

lemma ex_block_queue_ok: "bq_ok 4 ex_block_queue"
  by (simp add: bq_ok_def bq_shape_def block_ok_def bq_jobs_def block_of_def ex_block_queue_def log2_four block_job_of_def
      less_Suc_eq all_conj_distrib numeral_2_eq_2)

definition ex_block :: block_scheduler where
  "ex_block = \<lparr>m_total_nodes = 10, m_backfill_policy = EASY, m_fcfs_reservation_time = dbl 0,
    m_planning_time_resolution = dbl 0, m_outlook_capacity = 0, m_outlook_occupied = 0, m_outlook_changes = [],
    m_planning_horizon = dbl_max, bs_wait_queue = ex_block_queue,
    bs_job_order = [new_arrival 1 (dbl 0), new_arrival 2 (dbl 0), new_arrival 3 (dbl 1), new_arrival 7 (dbl 1)],
    bs_eligible_end_idx = 4, bs_current_tracked_time = dbl 1, bs_removed_count = 0, bs_backfill_queue_depth = 0\<rparr>"

lemma ex_block_inv: "bs_inv 4 ex_block"
  using ex_block_queue_ok
  by (simp add: bs_inv_def ex_block_def new_arrival_def dbl_simps) (simp add: ex_block_queue_def bq_jobs_def block_job_of_def)

lemma ex_block_waiting:
  "bs_waiting (block_sync_to ex_block (dbl 1)) = [new_entry 1 (dbl 0) (dbl 100) 8, new_entry 2 (dbl 0) (dbl 5) 2,
     new_entry 3 (dbl 1) (dbl 50) 4, new_entry 7 (dbl 1) (dbl 4) 1]"
  "bs_backfill_queue_depth ex_block = 0"
  by (simp_all add: bs_waiting_def block_sync_to_def ex_block_def ex_block_queue_def new_arrival_def bq_jobs_def block_job_of_def arrival_entry_def)

definition ex_block_deque :: fcfs_queue where
  "ex_block_deque = \<lparr>m_total_nodes = 10, m_backfill_policy = EASY, m_fcfs_reservation_time = dbl 0,
    m_planning_time_resolution = dbl 0, m_outlook_capacity = 0, m_outlook_occupied = 0, m_outlook_changes = [],
    m_planning_horizon = dbl_max,
    m_wait_queue = [new_entry 1 (dbl 0) (dbl 100) 8, new_entry 2 (dbl 0) (dbl 5) 2, new_entry 3 (dbl 1) (dbl 50) 4, new_entry 7 (dbl 1) (dbl 4) 1],
    m_eligible_end_idx = 4, m_current_tracked_time = dbl 1, m_removed_count = 0, m_backfill_queue_depth = 0\<rparr>"

lemma ex_block_deque_facts:
  "fq_inv ex_block_deque"
  "waiting (deque_sync_to ex_block_deque (dbl 1)) = [new_entry 1 (dbl 0) (dbl 100) 8, new_entry 2 (dbl 0) (dbl 5) 2,
     new_entry 3 (dbl 1) (dbl 50) 4, new_entry 7 (dbl 1) (dbl 4) 1]"
  "\<forall>j\<in>set [new_entry 1 (dbl 0) (dbl 100) 8, new_entry 2 (dbl 0) (dbl 5) 2, new_entry 3 (dbl 1) (dbl 50) 4, new_entry 7 (dbl 1) (dbl 4) 1].
     release_estimate ex_block_deque (dbl 1) (run_time_estimate j) = run_time_estimate j"
  "spec_heads 4 (new_entry 1 (dbl 0) (dbl 100) 8 # js) = ([], 4, new_entry 1 (dbl 0) (dbl 100) 8 # js)"
  "reservation_within_horizon ex_block_deque (value_or_max (earliest_fit (head_plan ex_block_deque 4 ex_running (dbl 1) []) 8 0 (dbl 1))) (dbl 1)"
  "same_planning ex_block ex_block_deque" "m_fcfs_reservation_time ex_block = m_fcfs_reservation_time ex_block_deque"
  "m_backfill_queue_depth ex_block_deque = 0"
  by (simp_all add: fq_inv_def waiting_def deque_sync_to_def ex_block_deque_def ex_block_def same_planning_def new_entry_def
      head_plan_def ex_running_def eval_simps Let_def dbl_simps word_less_def)

text \<open>A trace with one submitted job of four nodes for five seconds, then with the job started at time one.\<close>

definition ex_delay_math :: "unit delay_math" where
  "ex_delay_math = \<lparr>dm_unit = (\<lambda>g. (0, g)), dm_pow = (\<lambda>x y. x), dm_log1p = (\<lambda>x. x), dm_below_one = 0\<rparr>"

definition ex_request :: append_request where
  "ex_request = \<lparr>ar_submit_time = (0, 0), ar_num_nodes = 4, ar_queue = 0, ar_limit_time = 10, ar_actual_run_time = Some (dbl 5)\<rparr>"

definition ex_trace :: "unit trace" where
  "ex_trace = (new_trace SIMULATION ())\<lparr>m_data := [request_record ex_request], m_data_capacity := 4096, m_job_store_capacity_resolved := True\<rparr>"

definition ex_trace_started :: "unit trace" where
  "ex_trace_started = ex_trace\<lparr>m_data := [started_record (dbl 1) (request_record ex_request)],
     m_evtq := [job_event 0 (dbl 1) Arrival, job_event 0 (dbl 6) Departure], m_replay_jobs_enqueued := 1\<rparr>"

lemma ex_trace_append: "append_job 0 ex_request (new_trace SIMULATION ()) = Inr (0, ex_trace)"
  by (simp add: append_job_def ex_trace_def new_trace_def resolve_job_store_capacity_def reclaim_front_jobs_def data_full_def
      push_record_def request_record_def ex_request_def Let_def)

lemma dbl_not_le_0: "\<not> dbl 5 \<le> 0"
  by (simp add: dbl_simps)

lemma ex_record:
  "job_at ex_trace 0 = Inr (request_record ex_request)" "m_t_submit (request_record ex_request) = (0, 0)"
  "m_actual_run_time (timed_record (request_record ex_request)) = dbl 5" "m_evtq ex_trace = []"
  "m_num_nodes (request_record ex_request) = 4" "num_jobs ex_trace = 1"
  by (simp_all add: job_at_def ex_trace_def new_trace_def request_record_def ex_request_def timed_record_def new_job_record_def
      num_jobs_def Let_def dbl_simps dbl_not_le_0)

lemma ex_trace_start: "insert_job 0 (dbl 1) ex_trace = Inr ex_trace_started"
  unfolding insert_job_eq[OF ex_record(1)] start_events_def ex_record(3,4)
  by (simp add: ex_trace_started_def set_job_def ex_trace_def new_trace_def job_event_def event_less_def dbl_simps)

lemma ex_trace_reachable:
  "trace_reachable ex_delay_math (new_trace SIMULATION ())" "trace_reachable ex_delay_math ex_trace"
  "trace_reachable ex_delay_math ex_trace_started"
proof -
  show i: "trace_reachable ex_delay_math (new_trace SIMULATION ())" by (rule trace_reachable.init)
  show a: "trace_reachable ex_delay_math ex_trace" by (rule trace_reachable.step[OF i trace_step.append[OF ex_trace_append]])
  have "trace_step ex_delay_math ex_trace ex_trace_started"
    by (rule trace_step.begin_job[OF ex_record(1) _ _ ex_record(3) _ _ _ ex_trace_start])
      (simp_all add: ex_record unscheduled_sentinel_def)
  then show "trace_reachable ex_delay_math ex_trace_started" by (rule trace_reachable.step[OF a])
qed

text \<open>The same job on a trace with a release delay of seven seconds, the output of completed jobs open and a flush after every
  departure.  After the departure the record of the job is written and reclaimed, and its nodes are being released.\<close>

definition ex_delay :: "unit release_delay" where
  "ex_delay = \<lparr>rd_delay = dbl 7, rd_spread = 0, rd_model = CONSTANT, rd_active = True, rd_rng = ()\<rparr>"

definition ex_delayed_new :: "unit trace" where
  "ex_delayed_new = start_simulated_trace True (set_job_flush_interval 1 (set_node_release_delay ex_delay (new_trace SIMULATION ())))"

definition ex_delayed :: "unit trace" where
  "ex_delayed = ex_delayed_new\<lparr>m_data := [request_record ex_request], m_data_capacity := 4096, m_job_store_capacity_resolved := True\<rparr>"

definition ex_delayed_started :: "unit trace" where
  "ex_delayed_started = ex_delayed\<lparr>m_data := [started_record (dbl 1) (request_record ex_request)],
     m_evtq := [job_event 0 (dbl 1) Arrival, job_event 0 (dbl 6) Departure], m_replay_jobs_enqueued := 1\<rparr>"

definition ex_delayed_running :: "unit trace" where
  "ex_delayed_running = record_resource_sample (dbl 1) 4 (ex_delayed_started\<lparr>m_evtq := [job_event 0 (dbl 6) Departure], m_n_nodes_in_use := 4\<rparr>)"

lemmas ex_delayed_defs = ex_delayed_new_def ex_delay_def start_simulated_trace_def set_job_flush_interval_def set_node_release_delay_def
  simulated_trace_output_active_def new_trace_def

lemma ex_delayed_append: "append_job 0 ex_request ex_delayed_new = Inr (0, ex_delayed)"
  by (simp add: append_job_def ex_delayed_def ex_delayed_defs resolve_job_store_capacity_def reclaim_front_jobs_def data_full_def
      push_record_def request_record_def ex_request_def Let_def)

lemma ex_delayed_job: "job_at ex_delayed 0 = Inr (request_record ex_request)" "m_evtq ex_delayed = []"
  by (simp_all add: job_at_def ex_delayed_def ex_delayed_defs)

lemma ex_delayed_start: "insert_job 0 (dbl 1) ex_delayed = Inr ex_delayed_started"
  unfolding insert_job_eq[OF ex_delayed_job(1)] start_events_def ex_record(3) ex_delayed_job(2)
  by (simp add: ex_delayed_started_def set_job_def ex_delayed_def ex_delayed_defs job_event_def event_less_def dbl_simps)

lemma ex_started_nodes: "job_at ex_delayed_started 0 = Inr (started_record (dbl 1) (request_record ex_request))"
  "m_num_nodes (request_record ex_request) = 4"
  by (simp_all add: job_at_def ex_delayed_started_def ex_delayed_def ex_delayed_defs ex_record)

lemma ex_delayed_arrival: "process_single_event ex_delay_math ex_delayed_started = Inr (True, ex_delayed_running)"
proof -
  have q: "m_evtq ex_delayed_started = job_event 0 (dbl 1) Arrival # [job_event 0 (dbl 6) Departure]" by (simp add: ex_delayed_started_def)
  have a: "account_event ex_delay_math (job_event 0 (dbl 1) Arrival) (ex_delayed_started\<lparr>m_evtq := [job_event 0 (dbl 6) Departure]\<rparr>) =
      Inr (ex_delayed_started\<lparr>m_evtq := [job_event 0 (dbl 6) Departure], m_n_nodes_in_use := 4\<rparr>)"
    using ex_started_nodes by (simp add: account_event_def job_event_def)
      (simp add: ex_delayed_started_def ex_delayed_def ex_delayed_defs)
  have d: "m_departures_since_job_flush ex_delayed_running = 0" "m_job_flush_interval ex_delayed_running = 1"
    by (simp_all add: ex_delayed_running_def ex_delayed_started_def ex_delayed_def ex_delayed_defs record_resource_sample_def
        resolve_resource_history_capacity_def Let_def)
  show ?thesis
    unfolding process_single_event_def q list.case a sum.case Let_def
    by (simp add: job_event_def ex_delayed_running_def[symmetric, unfolded job_event_def] d effective_job_flush_interval_def)
qed

lemma ex_delayed_reachable:
  "trace_reachable ex_delay_math ex_delayed_new" "trace_reachable ex_delay_math ex_delayed"
  "trace_reachable ex_delay_math ex_delayed_started" "trace_reachable ex_delay_math ex_delayed_running"
proof -
  show i: "trace_reachable ex_delay_math ex_delayed_new" unfolding ex_delayed_new_def
    by (intro trace_reachable.step[OF _ trace_step.open_jobs] trace_reachable.step[OF _ trace_step.flush_interval]
        trace_reachable.step[OF _ trace_step.release_delay] trace_reachable.init)
  show a: "trace_reachable ex_delay_math ex_delayed"
    by (rule trace_reachable.step[OF i trace_step.append[OF ex_delayed_append]])
  have "trace_step ex_delay_math ex_delayed ex_delayed_started"
    by (rule trace_step.begin_job[OF ex_delayed_job(1) _ _ ex_record(3) _ _ _ ex_delayed_start])
      (simp_all add: ex_record unscheduled_sentinel_def ex_delayed_job)
  then show b: "trace_reachable ex_delay_math ex_delayed_started" by (rule trace_reachable.step[OF a])
  show "trace_reachable ex_delay_math ex_delayed_running"
    by (rule trace_reachable.step[OF b trace_step.event[OF ex_delayed_arrival]])
qed

text \<open>The departure: the nodes are held for seven seconds more, and the record of the job is written and reclaimed meanwhile.\<close>

lemma ex_delayed_release:
  "\<exists>tr'. process_single_event ex_delay_math ex_delayed_running = Inr (True, tr') \<and> m_evtq tr' = [release_event 0 (dbl 13) 4] \<and>
     m_num_reclaimed tr' = 1 \<and> trace_reachable ex_delay_math tr'"
proof -
  define tr1 where "tr1 = finish_job_nodes ex_delay_math 0 (dbl 6) 4 (ex_delayed_running\<lparr>m_evtq := []\<rparr>)"
  have running: "m_data ex_delayed_running = [started_record (dbl 1) (request_record ex_request)]" "m_num_reclaimed ex_delayed_running = 0"
    "m_trace_mode ex_delayed_running = SIMULATION" "m_next_job_to_write ex_delayed_running = 0" "m_release_delay ex_delayed_running = ex_delay"
    "m_release_delay_from ex_delayed_running \<le> dbl 6" "m_evtq ex_delayed_running = [job_event 0 (dbl 6) Departure]"
    "m_departures_since_job_flush ex_delayed_running = 0" "m_job_flush_interval ex_delayed_running = 1"
    "m_simulated_trace_ofs ex_delayed_running = Some []"
    by (simp_all add: ex_delayed_running_def ex_delayed_started_def ex_delayed_def ex_delayed_defs record_resource_sample_def
        resolve_resource_history_capacity_def Let_def dbl_simps)
  have "convert_epoch (m_t_end (started_record (dbl 1) (request_record ex_request))) = dbl 1 + dbl 5"
    unfolding started_record_def by (rule end_time_whole) (simp_all add: set_begin_time_def ex_record)
  moreover have "m_t_submit (started_record (dbl 1) (request_record ex_request)) = (0, 0)" by (simp add: ex_record)
  ultimately have started: "m_t_submit (started_record (dbl 1) (request_record ex_request)) \<noteq> unscheduled_sentinel"
    "convert_epoch (m_t_end (started_record (dbl 1) (request_record ex_request))) = dbl 6"
    by (simp_all add: unscheduled_sentinel_def dbl_simps)
  have a: "account_event ex_delay_math (job_event 0 (dbl 6) Departure) (ex_delayed_running\<lparr>m_evtq := []\<rparr>) = Inr tr1"
    using ex_started_nodes(2) by (simp add: account_event_def job_event_def job_at_def running tr1_def)
  have tr1: "tr1 = ex_delayed_running\<lparr>m_n_nodes_in_use := m_n_nodes_in_use ex_delayed_running - 4,
      m_n_nodes_releasing := m_n_nodes_releasing ex_delayed_running + 4, m_evtq := [release_event 0 (dbl 13) 4],
      m_last_release_time := dbl 13, m_last_departure_delayed := True, m_release_delay := ex_delay\<rparr>"
    using running(6) by (simp add: tr1_def finish_job_nodes_def running ex_delay_def delay_sample_def Let_def dbl_simps)
  define tr2 where "tr2 = (record_resource_sample (dbl 6) (m_n_nodes_in_use tr1) tr1)\<lparr>m_departures_since_job_flush := 1\<rparr>"
  have d: "m_departures_since_job_flush (record_resource_sample (dbl 6) (m_n_nodes_in_use tr1) tr1) = 0"
    "m_job_flush_interval (record_resource_sample (dbl 6) (m_n_nodes_in_use tr1) tr1) = 1"
    by (simp_all add: tr1 running record_resource_sample_def resolve_resource_history_capacity_def flush_resource_history_def Let_def split: option.split)
  have p: "process_single_event ex_delay_math ex_delayed_running =
      (case flush_completed_jobs_impl (dbl 6) tr2 of Inl x \<Rightarrow> Inl x | Inr tr \<Rightarrow> Inr (True, tr))"
    unfolding process_single_event_def running(7) list.case a sum.case Let_def
    by (simp add: d tr2_def job_event_def effective_job_flush_interval_def simulated_trace_output_active_def)
      (simp add: tr1 running release_event_def job_event_def dbl_simps)
  obtain tr' where f: "flush_completed_jobs_impl (dbl 6) tr2 = Inr tr'"
    using process_single_event_ok[OF trace_reachable_ok[OF ex_delayed_reachable(4)], of ex_delay_math] unfolding p
    by (auto split: sum.splits)
  have "reclaimable_prefix tr2 (dbl 6) (m_num_reclaimed tr2) (m_data tr2) = 1"
    using started by (simp add: tr2_def tr1 running is_job_reclaimable_def release_event_def job_event_def dbl_simps)
  then have "m_evtq tr' = [release_event 0 (dbl 13) 4]" "m_num_reclaimed tr' = 1"
    using flush_completed_keeps[OF f] by (simp_all add: same_account_def dropped_def) (simp_all add: tr2_def tr1 running)
  then show ?thesis using f p trace_reachable.step[OF ex_delayed_reachable(4) trace_step.event] by fastforce
qed

text \<open>A batch of two jobs on ten nodes: four nodes for five seconds, and eight nodes submitted two seconds later.\<close>

definition ex_params :: sim_params where
  "ex_params = \<lparr>p_total_nodes = 10, p_backfill_interval = 0, p_dispatch_interval = 0, p_dispatch_on_events = False,
     p_planning_time_resolution = 0, p_job_flush_interval = 0, p_resource_history_capacity = 0, p_outfile_opens = False,
     p_resource_trace_opens = False, p_backfill_policy = EASY, p_planning_horizon = dbl_max, p_reservation_depth = 0,
     p_max_jobs = 0, p_max_time = None, p_infile_list = False, p_checkpoint_file = False, p_checkpoint_interval_jobs = 0,
     p_job_store_capacity = 0, p_job_store_overflow = GROW, p_memory_pressure_fraction = 0, p_run_time_mode = ACTUAL,
     p_run_time_distribution = NORMAL, p_run_time_scale = 0, p_run_time_stddev = 0, p_node_release_delay = 0,
     p_node_release_delay_model = CONSTANT, p_node_release_delay_spread = 0\<rparr>"

definition ex_batch :: "job_record list" where
  "ex_batch = [request_record ex_request,
     request_record \<lparr>ar_submit_time = (2, 0), ar_num_nodes = 8, ar_queue = 0, ar_limit_time = 7, ar_actual_run_time = Some (dbl 3)\<rparr>]"

definition ex_seconds :: "job_no \<Rightarrow> int" where
  "ex_seconds i = (if i = 0 then 5 else 3)"

lemma convert_whole: "convert_epoch (n, 0) = dbl n"
  by (simp add: convert_epoch_def)

lemma fresh_request:
  "ar_actual_run_time q = Some (dbl d) \<Longrightarrow> 0 < d \<Longrightarrow> d \<le> 1000 \<Longrightarrow> fst (ar_submit_time q) = n \<Longrightarrow> n \<le> 1000 \<Longrightarrow>
   fresh_record d (request_record q)"
  by (auto simp: fresh_record_def request_record_def timed_record_def new_job_record_def unscheduled_sentinel_def dbl_zero dbl_le)

lemma ex_batch_posed: "well_posed ex_seconds 2 ex_params ex_batch"
proof -
  have f: "fresh_record 5 (ex_batch ! 0)" "fresh_record 3 (ex_batch ! 1)"
    by (simp_all add: ex_batch_def ex_request_def fresh_request)
  have t: "convert_epoch (m_t_submit (ex_batch ! 0)) = dbl 0" "convert_epoch (m_t_submit (ex_batch ! 1)) = dbl 2"
    by (simp_all add: ex_batch_def ex_request_def request_record_def new_job_record_def convert_whole)
  have l: "length ex_batch = Suc 1" by (simp add: ex_batch_def)
  have m: "map (\<lambda>r. convert_epoch (m_t_submit r)) ex_batch = [dbl 0, dbl 2]"
    by (simp add: ex_batch_def ex_request_def request_record_def new_job_record_def convert_whole)
  show ?thesis unfolding well_posed_def m l
    using f t by (auto simp: less_Suc_eq ex_seconds_def within_bound_def dbl_le ex_params_def mode_of_def upt_rec)
qed

lemma ex_hybrid_new: "\<exists>hq. new_hybrid_deque n CONSERVATIVE 0 0 = Inr hq"
  by (simp add: new_hybrid_deque_def)

text \<open>The simulation around that cluster: the records of the running job and of the three queued ones.\<close>

definition ex_queued :: "num_nodes \<Rightarrow> int \<Rightarrow> 32 word \<Rightarrow> job_record" where
  "ex_queued nodes submit limit = new_job_record (submit, 0) nodes 0 limit"

definition ex_sim_trace :: "unit trace" where
  "ex_sim_trace = (new_trace SIMULATION ())\<lparr>m_data := [ex_queued 6 0 10, ex_queued 8 0 100, ex_queued 2 0 5, ex_queued 4 1 50],
     m_n_nodes_in_use := 6\<rparr>"

definition ex_sim :: "(fcfs_queue, unit) simulation" where
  "ex_sim = (new_simulation ex_params ex_sim_trace ex_queue [])\<lparr>m_current_time := dbl 1, m_running_jobs := ex_running\<rparr>"

lemma ex_sim_simps:
  "m_current_time ex_sim = dbl 1" "m_params ex_sim = ex_params" "m_scheduler ex_sim = ex_queue"
  "m_current_capacity ex_sim = 10" "m_running_jobs ex_sim = ex_running" "m_capacity_changes ex_sim = []"
  "get_nodes_occupied (m_trace ex_sim) = 6"
  by (simp_all add: ex_sim_def new_simulation_def reset_capacity_schedule_def reset_resource_capacity_def ex_params_def
      ex_sim_trace_def new_trace_def get_nodes_occupied_def)

lemma ex_sim_data: "m_data (m_trace ex_sim) = [ex_queued 6 0 10, ex_queued 8 0 100, ex_queued 2 0 5, ex_queued 4 1 50]"
  "m_num_reclaimed (m_trace ex_sim) = 0"
  by (simp_all add: ex_sim_def new_simulation_def reset_capacity_schedule_def reset_resource_capacity_def ex_sim_trace_def new_trace_def)

lemma ex_sim_jobs:
  "job_at (m_trace ex_sim) (Suc 0) = Inr (ex_queued 8 0 100)" "job_at (m_trace ex_sim) 2 = Inr (ex_queued 2 0 5)"
  "job_at (m_trace ex_sim) 3 = Inr (ex_queued 4 1 50)"
  by (simp_all add: job_at_def ex_sim_data numeral_2_eq_2 numeral_3_eq_3)

lemma ex_sim_ids: "deque_pending_job_ids ex_queue = [1, 2, 3]"
  by (simp add: deque_pending_job_ids_def ex_queue_eq new_entry_def)

lemma ex_sim_profile: "query_profile ex_sim = [(dbl 1, 4), (dbl 10, 10)]"
  by (simp add: query_profile_def query_deltas_def ex_sim_simps ex_running_def Let_def clamp_def dbl_simps)

lemma ex_queued_simps: "m_num_nodes (ex_queued n t l) = n" "limit_time (ex_queued n t l) = dbl (uint l)"
  "convert_epoch (m_t_submit (ex_queued n t l)) = dbl t"
  by (simp_all add: ex_queued_def new_job_record_def limit_time_def convert_epoch_def)

lemma ex_sim_fits:
  "earliest_fit [(dbl 1, 4), (dbl 10, 10)] 8 (dbl 100) (dbl 1) = Some (dbl 10)"
  "reserve [(dbl 1, 4), (dbl 10, 10)] (dbl 10) 8 (dbl 100) = [(dbl 1, 4), (dbl 10, 2), (dbl 110, 10)]"
  "earliest_fit [(dbl 1, 4), (dbl 10, 2), (dbl 110, 10)] 2 (dbl 5) (dbl 1) = Some (dbl 1)"
  by (simp_all add: eval_simps Let_def dbl_simps word_less_def)

lemma ex_sim_forecast:
  "forecast ex_params (dbl 1) (m_trace ex_sim) (query_profile ex_sim) (False, 0) [1, 2] =
    Inr [\<lparr>pl_job = 1, pl_start = dbl 10, pl_nodes = 8, pl_limit = dbl 100, pl_reserved = True\<rparr>,
         \<lparr>pl_job = 2, pl_start = dbl 1, pl_nodes = 2, pl_limit = dbl 5, pl_reserved = False\<rparr>]"
proof -
  have "max (dbl 1) (dbl 0) = dbl 1" "dbl 10 - dbl 1 \<le> dbl_max" "\<not> dbl 10 \<le> dbl 1"
    by (simp_all add: dbl_diff dbl_le dbl_le_max max_def)
  then show ?thesis
    by (simp add: ex_sim_jobs ex_sim_profile ex_queued_simps ex_sim_fits protects_def ex_params_def)
qed

lemma ex_sim_drain: "\<exists>es. get_queue_drain_start_times deque_pending_job_ids 0 2 ex_sim = Inr es"
proof -
  have z: "isfinite 0" "\<not> dbl 1 < 0" by (simp_all add: dbl_zero isfinite_dbl dbl_less)
  have "\<forall>i\<in>set [1, 2]. \<exists>r. job_at (m_trace ex_sim) i = Inr r" by (simp add: ex_sim_jobs)
  from drain_plans_total[OF this, of drain_fit drain_reserve ex_params "dbl 1" "query_profile ex_sim" "(False, 0)"]
  obtain pls final where "drain_plans drain_fit drain_reserve ex_params (dbl 1) (m_trace ex_sim) (query_profile ex_sim) (False, 0) [1, 2] =
      Inr (pls, final)" by blast
  then show ?thesis using z by (simp add: get_queue_drain_start_times_def ex_sim_simps ex_sim_ids take_depth_def)
qed

lemma ex_sim_statuses: "\<exists>sts. get_job_statuses deque_pending_job_ids [] 2 ex_sim = Inr sts"
proof -
  have t: "take_depth 2 (deque_pending_job_ids (m_scheduler ex_sim)) = [1, 2]" by (simp add: ex_sim_simps ex_sim_ids take_depth_def)
  show ?thesis
    by (simp add: get_job_statuses_def t pending_status_def ex_sim_simps(1,2) ex_sim_forecast del: forecast.simps One_nat_def)
qed

text \<open>A recorded history: two jobs that overlap.\<close>

definition ex_recorded :: "num_nodes \<Rightarrow> int \<Rightarrow> int \<Rightarrow> int \<Rightarrow> job_record" where
  "ex_recorded nodes submit start stop = (new_job_record (submit, 0) nodes 0 10)\<lparr>m_t_begin := (start, 0), m_t_end := (stop, 0)\<rparr>"

definition ex_history :: "unit trace" where
  "ex_history = (new_trace REPLAY ())\<lparr>m_data := [ex_recorded 6 0 0 5, ex_recorded 4 1 2 8]\<rparr>"

lemma ex_history_unreplayed: "unreplayed (dbl 1) (dbl 8) ex_history"
  by (simp add: unreplayed_def ex_history_def new_trace_def trace_ok_unstarted write_ok_def replayable_def ex_recorded_def
      new_job_record_def convert_whole unscheduled_sentinel_def dbl_le)

text \<open>The whole run on the two-job batch, with the run times of the records.\<close>

definition ex_sampling :: "unit sampling" where
  "ex_sampling = \<lparr>sm_normal = (\<lambda>m d r. (m, r)), sm_lognormal = (\<lambda>m d r. (m, r)), sm_uniform = (\<lambda>lo hi r. (lo, r)), sm_log = (\<lambda>x. x)\<rparr>"

lemma ex_run_records: "run_records ex_sampling ex_params () ex_batch = ex_batch"
  "run_records ex_sampling (ex_params\<lparr>p_max_time := t\<rparr>) () ex_batch = ex_batch"
proof -
  have "sorted (map m_t_submit ex_batch)"
    by (simp add: ex_batch_def ex_request_def request_record_def new_job_record_def less_eq_prod_def)
  then have "sort_key m_t_submit ex_batch = ex_batch" by (rule sort_key_id_if_sorted)
  moreover have "fst (determine_job_run_time ACTUAL sample js ()) = js" for sample :: "tdiff \<Rightarrow> unit \<Rightarrow> tdiff \<times> unit" and js
    by (induction js) (simp_all add: determine_one_job_run_time_def case_prod_beta)
  ultimately show "run_records ex_sampling ex_params () ex_batch = ex_batch"
    "run_records ex_sampling (ex_params\<lparr>p_max_time := t\<rparr>) () ex_batch = ex_batch"
    by (simp_all add: run_records_def ex_params_def)
qed

lemma ex_run_params: "batch_params ex_params" "p_max_time ex_params = None" "batch_params (ex_params\<lparr>p_max_time := Some (dbl 4)\<rparr>)"
  "well_posed ex_seconds 2 (ex_params\<lparr>p_max_time := t\<rparr>) ex_batch"
proof -
  have mode: "mode_of (ex_params\<lparr>p_max_time := t\<rparr>) = mode_of ex_params" by (simp add: mode_of_def)
  show "well_posed ex_seconds 2 (ex_params\<lparr>p_max_time := t\<rparr>) ex_batch"
    using ex_batch_posed mode by (simp add: well_posed_def)
  have "(0::sim_time) \<le> dbl 4" by (simp add: dbl_zero dbl_le)
  then show "batch_params (ex_params\<lparr>p_max_time := Some (dbl 4)\<rparr>)" by (simp add: batch_params_def ex_params_def isfinite_dbl)
qed (simp_all add: batch_params_def ex_params_def)

text \<open>The run of the batch on the deque scheduler.\<close>

lemma ex_deque_run:
  "\<exists>s. run deque_ops ex_delay_math ex_sampling (dbl 100) 0 1 (\<lambda>n. Some ex_batch) [] ()
      (new_simulation ex_params (new_trace SIMULATION ()) (new_deque 10 EASY 0) []) = Some (Inr s) \<and>
    m_jobs_submitted s = 2 \<and> m_jobs_completed s = 2"
proof -
  let ?run = "run deque_ops ex_delay_math ex_sampling (dbl 100) 0 1 (\<lambda>n. Some ex_batch) [] ()
      (new_simulation ex_params (new_trace SIMULATION ()) (new_deque 10 EASY 0) [])"
  have "drains pending ex_params (run_records ex_sampling ex_params () ex_batch) ?run"
  proof (rule dqs.whole_run_law[where load = "\<lambda>n. Some ex_batch", OF ex_run_params(1) refl _ _ ex_run_params(2)])
    show "dqs.fresh_scheduler (new_deque 10 EASY 0)" by (simp add: dqs.fresh_scheduler_def new_deque_empty)
    show "well_posed ex_seconds 2 ex_params (run_records ex_sampling ex_params () ex_batch)" using ex_batch_posed by (simp add: ex_run_records)
  qed
  moreover have "length (filter (\<lambda>r. m_num_nodes r \<le> p_total_nodes ex_params) ex_batch) = 2"
    by (simp add: ex_batch_def ex_params_def request_record_def new_job_record_def ex_request_def word_le_nat_alt)
  ultimately show ?thesis unfolding ex_run_records by (auto simp: drains_def split: option.splits sum.splits)
qed

text \<open>That cluster after the scheduling pass, as the program saves it: two jobs run, two are queued behind them.\<close>

definition ex_begun :: "num_nodes \<Rightarrow> int \<Rightarrow> int \<Rightarrow> 32 word \<Rightarrow> job_record" where
  "ex_begun nodes submit start limit = set_begin_time (start, 0) (new_job_record (submit, 0) nodes 0 limit)"

definition ex_saved_trace :: "unit trace" where
  "ex_saved_trace = (new_trace SIMULATION ())\<lparr>m_data := [ex_begun 6 0 0 10, ex_queued 8 0 100, ex_begun 2 0 1 5, ex_queued 4 1 50],
     m_data_capacity := 4, m_n_nodes_in_use := 8,
     m_evtq := [\<lparr>ev_job = 2, ev_time = dbl 6, ev_nodes = 0, ev_kind = Departure\<rparr>,
                \<lparr>ev_job = 0, ev_time = dbl 10, ev_nodes = 0, ev_kind = Departure\<rparr>]\<rparr>"

definition ex_config :: run_config where
  "ex_config = \<lparr>c_priority_policy = FCFS, c_queue_impl = DEQUE, c_block_size = 16, c_num_max_candidates = 0, c_wait_queue_capacity = 0,
     c_wait_queue_overflow = GROW, c_backfill_queue_depth = 0, c_dispatch_queue_depth = 0, c_outfile = [], c_resource_trace = [],
     c_redis_uri = [], c_redis_key_prefix = [], c_msec_output = False, c_cores_per_node = 1, c_infile_list_parsed = []\<rparr>"

definition ex_checkpointed :: "(any_scheduler, unit) simulation \<Rightarrow> (unit, unit) checkpointed" where
  "ex_checkpointed s = \<lparr>cp_sim = s, cp_config = ex_config, cp_rng = (), cp_restored_params = None, cp_next_progressive_file = 0,
     cp_checkpoint_loaded = False, cp_last_automatic_checkpoint_jobs = 0, cp_has_automatic_checkpoint = False,
     cp_last_automatic_checkpoint_time = 0, cp_pre_start_jobs = 0, cp_warm_resource_area = 0, cp_warm_resource_end = 0,
     cp_event_queue = [], cp_dat = \<lparr>dat_pAll_cnt = 0, dat_start = (0, 0), dat_end = (0, 0), dat_span = 0, dat_prev_job_q = 0,
       dat_reserved = []\<rparr>, cp_resource_trace_total_nodes = 0, cp_resource_trace_msec = False, cp_simulated_trace_msec = False\<rparr>"

definition ex_saved :: "(unit, unit) checkpointed" where
  "ex_saved = ex_checkpointed ((new_simulation ex_params ex_saved_trace (FCFS_Easy_Deque ex_after) [])\<lparr>m_trace := ex_saved_trace, m_current_time := dbl 1,
     m_jobs_submitted := 4, m_jobs_started := 2,
     m_running_jobs := ex_running @ [(2, \<lparr>rj_start_time = dbl 1, rj_run_time = dbl 5, rj_nodes = 2\<rparr>)]\<rparr>)"

definition ex_target :: "(unit, unit) checkpointed" where
  "ex_target = ex_checkpointed (new_simulation ex_params (new_trace SIMULATION ()) (FCFS_Easy_Deque (new_deque 10 EASY 0)) [])"

lemma ex_saved_simps:
  "cp_config ex_saved = ex_config" "cp_config ex_target = ex_config" "m_params (cp_sim ex_saved) = ex_params"
  "m_params (cp_sim ex_target) = ex_params" "m_scheduler (cp_sim ex_saved) = FCFS_Easy_Deque ex_after"
  "m_current_time (cp_sim ex_saved) = dbl 1" "m_trace (cp_sim ex_saved) = ex_saved_trace" "m_capacity_changes (cp_sim ex_saved) = []"
  "m_capacity_changes (cp_sim ex_target) = []"
  "cp_pre_start_jobs ex_saved = 0" "c_redis_uri ex_config = []"
  by (simp_all add: ex_saved_def ex_target_def ex_checkpointed_def new_simulation_def reset_capacity_schedule_def
      reset_resource_capacity_def ex_saved_trace_def new_trace_def ex_config_def)

lemma ex_after_ids: "pending ex_after = [new_entry 1 (dbl 0) (dbl 100) 8, new_entry 3 (dbl 1) (dbl 50) 4]" "future ex_after = []"
  "deque_pending_job_ids ex_after = [1, 3]" "fq_inv ex_after" "m_current_tracked_time ex_after = dbl 1"
  by (simp_all add: ex_after_def ex_queue_eq pending_def waiting_def future_def new_entry_def fq_inv_def deque_pending_job_ids_def
      dbl_simps)

lemma ex_saved_archivable: "archivable ex_saved"
proof -
  have "evtq_ok (m_evtq ex_saved_trace)"
    by (simp add: ex_saved_trace_def new_trace_def evtq_ok_def ev_key_def dbl_less less_prod_def)
  then have t: "archivable_trace ex_saved_trace"
    by (simp add: archivable_trace_def ex_saved_trace_def new_trace_def limited_def checkpoint_collection_limit_def plain_event_def)
  show ?thesis using t
    by (simp add: archivable_def Let_def ex_saved_simps ex_after_ids)
      (simp add: ex_saved_def ex_checkpointed_def new_simulation_def reset_capacity_schedule_def reset_resource_capacity_def
        limited_def checkpoint_collection_limit_def ex_running_def resident_def ex_saved_trace_def new_trace_def ex_config_def evtq_ok_def)
qed

lemma ex_saved_resumable: "resumable ex_saved ex_after"
proof -
  have q: "queue_of_records ex_saved_trace ex_after"
    by (simp add: queue_of_records_def ex_after_ids new_entry_def still_pending_def resident_def ex_saved_trace_def new_trace_def
        ex_queued_def new_job_record_def is_scheduled_def unscheduled_sentinel_def convert_whole limit_time_def)
  have "m_trace_mode ex_saved_trace = SIMULATION" "outputs_closed ex_saved_trace" "m_simulated_trace_buffer ex_saved_trace = []"
    by (simp_all add: ex_saved_trace_def new_trace_def outputs_closed_def)
  then show ?thesis using q
    by (simp add: resumable_def interrupted_def ex_saved_archivable ex_saved_simps ex_after_ids dbl_zero dbl_le)
qed

definition ex_env :: checkpoint_env where
  "ex_env = \<lparr>ce_record_size = 88, ce_job_position = Some 120, ce_resource_position = None, ce_job_segment = (\<lambda>n. n = 120),
     ce_resource_segment = (\<lambda>n. False)\<rparr>"

definition ex_hash :: "tdiff \<Rightarrow> 64 word" where
  "ex_hash t = (if t = 0 then 0 else 1)"

lemma ex_same_build: "same_build ex_saved ex_target"
  by (simp add: same_build_def compatible_def ex_saved_simps same_schedule_parameters_def same_run_config_def Let_def)
    (simp add: ex_saved_trace_def ex_target_def ex_checkpointed_def new_simulation_def reset_capacity_schedule_def
      reset_resource_capacity_def new_trace_def no_release_delay_def)

lemma ex_made:
  "make_scheduler ex_params ex_config n = Inr (FCFS_Easy_Deque (new_deque 10 EASY 0))"
  "same_settings ex_after (new_deque 10 EASY 0)"
proof -
  show "same_settings ex_after (new_deque 10 EASY 0)"
    by (simp add: same_settings_def ex_after_def ex_queue_eq new_deque_def new_base_def scheduler_base.defs fcfs_queue.defs dbl_zero)
  have "\<not> dbl_max < 0" by (simp add: dbl_zero dbl_less_max not_less dbl_le_max)
  moreover have "isfinite dbl_max"
    by (simp add: isfinite_def val_inject[symmetric] val_dbl_max dbl_inf.rep_eq uminus_double.rep_eq huge_def)
  ultimately show "make_scheduler ex_params ex_config n = Inr (FCFS_Easy_Deque (new_deque 10 EASY 0))"
    by (simp add: make_scheduler_def create_scheduler_def create_by_priority_def ex_params_def ex_config_def set_planning_horizon_def
        set_planning_time_resolution_def new_deque_def new_base_def scheduler_base.defs fcfs_queue.defs)
qed

text \<open>The same simulation on the ring buffer that grows.\<close>

definition ex_ring :: circular_queue where
  "ex_ring = fcfs_queue.extend ex_after (circular_queue.fields 16 GROW)"

definition on_ring :: "circular_queue \<Rightarrow> (unit, unit) checkpointed \<Rightarrow> (unit, unit) checkpointed" where
  "on_ring c cp = cp\<lparr>cp_sim := with_scheduler (FCFS_Easy_Circular c) (cp_sim cp), cp_config := (cp_config cp)\<lparr>c_queue_impl := CIRCULAR\<rparr>\<rparr>"

definition ex_new_ring :: circular_queue where
  "ex_new_ring = new_circular 10 4 EASY 0 GROW 0"

lemma ex_ring_views: "as_deque ex_ring ex_after" "as_deque ex_new_ring (new_deque 10 EASY 0)"
proof -
  have "length (m_wait_queue ex_after) \<le> 16" by (simp add: ex_after_def ex_queue_eq)
  then show "as_deque ex_ring ex_after"
    by (cases ex_after) (simp add: as_deque_def ex_ring_def fcfs_queue.defs circular_queue.defs)
  show "as_deque ex_new_ring (new_deque 10 EASY 0)"
    using new_as_deque[of ex_params ex_saved_trace 10 4 EASY 0 0 "[]"] by (simp add: sim_rel_def new_simulation_def reset_capacity_schedule_def with_scheduler_def ex_new_ring_def)
qed

lemma ex_ring_interrupted: "interrupted (on_ring ex_ring ex_saved) ex_after"
proof -
  have e: "fcfs_easy (FCFS_Easy_Circular ex_ring) = Some ex_after" using ex_ring_views(1) by simp
  have "archivable (on_ring ex_ring ex_saved)"
    using ex_saved_archivable fcfs_easy_shows(2)[OF e]
    by (simp add: archivable_def Let_def on_ring_def ex_saved_simps del: any_pending_job_ids.simps) simp
  then show ?thesis
    using ex_saved_resumable e by (simp add: resumable_def interrupted_def on_ring_def)
qed

lemma ex_ring_same_build: "same_build (on_ring ex_ring ex_saved) (on_ring ex_new_ring ex_target)"
proof -
  have "same_schedule_parameters q q" for q by (simp add: same_schedule_parameters_def)
  then show ?thesis using ex_same_build by (simp add: same_build_def compatible_def on_ring_def same_run_config_def)
qed

lemma ex_ring_made:
  "make_scheduler ex_params (ex_config\<lparr>c_queue_impl := CIRCULAR\<rparr>) 4 = Inr (FCFS_Easy_Circular ex_new_ring)"
proof -
  have "isfinite dbl_max" "\<not> dbl_max < 0"
    by (simp_all add: dbl_zero dbl_less_max not_less dbl_le_max isfinite_def val_inject[symmetric] val_dbl_max dbl_inf.rep_eq uminus_double.rep_eq huge_def)
  then show ?thesis
    by (simp add: make_scheduler_def create_scheduler_def create_by_priority_def ex_params_def ex_config_def set_planning_horizon_def
        set_planning_time_resolution_def ex_new_ring_def new_circular_def new_base_def scheduler_base.defs fcfs_queue.defs circular_queue.defs)
qed

end
