(* ===== verification/Custom_Examples.thy ===== *)
theory Custom_Examples
  imports Custom_Laws Examples
begin

text \<open>
  The custom scheduler on the ten-node cluster of the other examples: a blocked head and two candidates, a selector that takes the first,
  one that answers with a job nobody offered, and the query that plans without the running job.
\<close>

definition ex_custom :: custom_queue where
  "ex_custom = \<lparr>m_total_nodes = 10, m_backfill_policy = EASY, m_fcfs_reservation_time = dbl 0,
    m_planning_time_resolution = dbl 0, m_outlook_capacity = 0, m_outlook_occupied = 0, m_outlook_changes = [],
    m_planning_horizon = dbl_max,
    cq_wait_queue = [new_custom_entry 1 (dbl 0) (dbl 100) 8 1, new_custom_entry 2 (dbl 0) (dbl 5) 2 2, new_custom_entry 3 (dbl 0) (dbl 50) 2 3],
    cq_capacity = 4, cq_overflow_policy = GROW, cq_eligible_end_idx = 3, cq_current_tracked_time = dbl 0, cq_removed_count = 0,
    m_num_max_candidates = 2, m_newly_eligible_begin_idx = 0, m_arrival_update_pending = True, m_reevaluate_all_candidates = True,
    m_candidate_preparation_pending = True, m_resource_area = dbl 0, m_resource_area_time = dbl 0, m_resource_area_start = dbl 0,
    m_accounted_available_nodes = 4, cq_backfill_queue_depth = 0\<rparr>"

definition ex_custom_now :: custom_queue where
  "ex_custom_now = ex_custom\<lparr>m_newly_eligible_begin_idx := 3, cq_current_tracked_time := dbl 1, m_arrival_update_pending := False\<rparr>"

lemma ex_custom_inv: "cq_inv ex_custom"
  by (simp add: cq_inv_def fq_inv_def ex_custom_def new_custom_entry_def new_entry_def job_entry.defs custom_entry.defs dbl_simps)

lemma entry_simps [simp]:
  "job_id (new_custom_entry i t r n c) = i" "submit_time (new_custom_entry i t r n c) = t" "run_time_estimate (new_custom_entry i t r n c) = r"
  "nodes_requested (new_custom_entry i t r n c) = n" "\<not> removed (new_custom_entry i t r n c)" "m_cost (new_custom_entry i t r n c) = c"
  by (simp_all add: new_custom_entry_def new_entry_def job_entry.defs custom_entry.defs)

lemma ex_custom_sync:
  "custom_sync_to ex_custom (dbl 1) = ex_custom\<lparr>m_newly_eligible_begin_idx := 3, cq_current_tracked_time := dbl 1\<rparr>"
  by (simp add: ex_custom_def custom_sync_to_def Let_def dbl_simps)

lemma ex_custom_at: "at_call ex_custom (dbl 1) = ex_custom_now"
  by (simp add: at_call_def ex_custom_sync ex_custom_now_def) (simp add: custom_compact_def ex_custom_def)

lemma ex_custom_heads: "dispatch_heads ex_custom_now 4 = ([], 4, ex_custom_now)"
  by (simp add: dispatch_heads_def ex_custom_now_def ex_custom_def word_less_def)

lemma ex_custom_reserve: "reserve_head ex_custom_now 4 ex_running (dbl 1) [] = ex_custom_now\<lparr>m_fcfs_reservation_time := dbl 10\<rparr>"
  by (simp add: reserve_head_def ex_custom_now_def ex_custom_def ex_running_def eval_simps Let_def dbl_simps)

lemma ex_custom_plan:
  "protected_plan (ex_custom_now\<lparr>m_fcfs_reservation_time := x, m_candidate_preparation_pending := y\<rparr>) 4 (dbl 1) (dbl 10) ex_running [] =
     [(dbl 1, 4), (dbl 10, 2), (dbl 110, 10)]"
  by (simp add: protected_plan_def ex_custom_now_def ex_custom_def ex_running_def eval_simps Let_def dbl_simps)

lemma ex_custom_fits:
  "can_fit [(dbl 1, 4), (dbl 10, 2), (dbl 110, 10)] (dbl 1) 2 (dbl 5)" "can_fit [(dbl 1, 4), (dbl 10, 2), (dbl 110, 10)] (dbl 1) 2 (dbl 50)"
  by (simp_all add: eval_simps Let_def dbl_simps)

abbreviation ex_custom_reserved :: custom_queue where
  "ex_custom_reserved \<equiv> ex_custom_now\<lparr>m_fcfs_reservation_time := dbl 10\<rparr>"

lemma ex_custom_planning:
  "reservation_within_horizon ex_custom_now (dbl 10) (dbl 1)" "m_backfill_policy ex_custom_now = EASY"
  "reservation_within_horizon ex_custom_reserved (dbl 10) (dbl 1)"
  "reservation_within_horizon (ex_custom_reserved\<lparr>m_candidate_preparation_pending := y\<rparr>) (dbl 10) (dbl 1)"
  "release_estimate ex_custom_reserved (dbl 1) (dbl 5) = dbl 5" "release_estimate ex_custom_reserved (dbl 1) (dbl 50) = dbl 50"
  "release_estimate (ex_custom_reserved\<lparr>m_candidate_preparation_pending := y\<rparr>) (dbl 1) (dbl 5) = dbl 5"
  "custom_active_job_count ex_custom_now = 3"
  by (simp_all add: ex_custom_now_def ex_custom_def reservation_within_horizon_def release_estimate_def custom_active_job_count_def Let_def dbl_simps)

lemma ex_custom_candidates: "pass_candidates ex_custom_reserved 4 ex_running (dbl 1) [] = [(2, 2), (3, 3)]"
proof -
  have p: "protected_plan ex_custom_reserved 4 (dbl 1) (dbl 10) ex_running [] = [(dbl 1, 4), (dbl 10, 2), (dbl 110, 10)]"
    using ex_custom_plan[where x = "dbl 10" and y = True] by (simp add: ex_custom_now_def ex_custom_def)
  have s: "cq_wait_queue ex_custom_reserved = [new_custom_entry 1 (dbl 0) (dbl 100) 8 1, new_custom_entry 2 (dbl 0) (dbl 5) 2 2, new_custom_entry 3 (dbl 0) (dbl 50) 2 3]"
    "m_num_max_candidates ex_custom_reserved = 2" "cq_eligible_end_idx ex_custom_reserved = 3" "cq_backfill_queue_depth ex_custom_reserved = 0"
    "m_reevaluate_all_candidates ex_custom_reserved"
    by (simp_all add: ex_custom_now_def ex_custom_def)
  have "\<not> (4::num_nodes) < 2" by (simp add: word_less_def)
  then show ?thesis
    by (simp add: pass_candidates_def find_backfill_candidates_from_def s p ex_custom_planning queue_depth_scan_end_def Let_def feasible_def
        candidate_of_def ex_custom_fits)
qed

lemma ex_custom_offered: "offered ex_custom 4 ex_running (dbl 1) = [(2, 2), (3, 3)]"
  by (simp add: offered_def ex_custom_at call_candidates_def ex_custom_heads ex_custom_planning ex_custom_reserve ex_custom_candidates)

definition ex_custom_after :: custom_queue where
  "ex_custom_after = ex_custom_reserved\<lparr>m_candidate_preparation_pending := False,
     cq_wait_queue := [new_custom_entry 1 (dbl 0) (dbl 100) 8 1, (new_custom_entry 2 (dbl 0) (dbl 5) 2 2)\<lparr>removed := True\<rparr>,
       new_custom_entry 3 (dbl 0) (dbl 50) 2 3], cq_removed_count := 1\<rparr>"

lemma ex_custom_start:
  "start_selected p [] 4 ex_running ex_running [] (dbl 1) [(2, 2), (3, 3)] 2 (ex_custom_reserved\<lparr>m_candidate_preparation_pending := False\<rparr>) w =
   (Inr [2], ex_custom_after, w)"
proof -
  have s: "m_fcfs_reservation_time (ex_custom_reserved\<lparr>m_candidate_preparation_pending := False\<rparr>) = dbl 10"
    "cq_wait_queue (ex_custom_reserved\<lparr>m_candidate_preparation_pending := False\<rparr>) =
       [new_custom_entry 1 (dbl 0) (dbl 100) 8 1, new_custom_entry 2 (dbl 0) (dbl 5) 2 2, new_custom_entry 3 (dbl 0) (dbl 50) 2 3]"
    "cq_eligible_end_idx (ex_custom_reserved\<lparr>m_candidate_preparation_pending := False\<rparr>) = 3"
    "cq_removed_count (ex_custom_reserved\<lparr>m_candidate_preparation_pending := False\<rparr>) = 0"
    by (simp_all add: ex_custom_now_def ex_custom_def)
  show ?thesis
    by (simp add: start_selected_def s ex_custom_plan ex_custom_planning ex_custom_fits Let_def) (simp add: ex_custom_after_def ex_custom_now_def ex_custom_def)
qed

lemma ex_custom_call:
  assumes "m_job_cost_function p = c" "on_jobs_became_eligible p = (\<lambda>_ _ _ _ _ w. w)" "on_backfill_candidates_ready p = (\<lambda>_ _ _ _ _ w. w)"
  shows "custom_schedule p ex_custom 4 ex_running (dbl 1) w =
    (case select_backfill_candidate p [(2, 2), (3, 3)] 4 ex_running (dbl 1) w of
       (Inl e, w) \<Rightarrow> (Inl e, ex_custom_reserved\<lparr>m_candidate_preparation_pending := False\<rparr>, w)
     | (Inr None, w) \<Rightarrow> end_of_cycle p [] 4 ex_running (dbl 1) (ex_custom_reserved\<lparr>m_candidate_preparation_pending := False\<rparr>) w
     | (Inr (Some i), w) \<Rightarrow> start_selected p [] 4 ex_running ex_running [] (dbl 1) [(2, 2), (3, 3)] i
         (ex_custom_reserved\<lparr>m_candidate_preparation_pending := False\<rparr>) w)"
proof -
  have e: "cq_eligible_end_idx ex_custom_now \<noteq> 0" by (simp add: ex_custom_now_def ex_custom_def)
  have "custom_schedule p ex_custom 4 ex_running (dbl 1) w = custom_pass p ex_custom_now 4 ex_running (dbl 1) w"
    using e unfolding custom_schedule_def Let_def at_call_def[symmetric] ex_custom_at by (simp add: assms)
  moreover have "effective_running ex_running [] [] = ex_running" by (simp add: effective_running_def)
  ultimately show ?thesis
    unfolding custom_pass_def ex_custom_heads Let_def prod.case list.map ex_custom_reserve ex_custom_candidates
    by (simp only:) (simp add: ex_custom_planning assms)
qed

lemma ex_custom_pass: "custom_schedule first_choice ex_custom 4 ex_running (dbl 1) () = (Inr [2], ex_custom_after, ())"
proof -
  have "custom_schedule first_choice ex_custom 4 ex_running (dbl 1) () =
      start_selected first_choice [] 4 ex_running ex_running [] (dbl 1) [(2, 2), (3, 3)] 2 (ex_custom_reserved\<lparr>m_candidate_preparation_pending := False\<rparr>) ()"
    by (subst ex_custom_call[OF refl]) (simp_all add: first_choice_select, simp_all add: first_choice_def base_policy_def)
  then show ?thesis unfolding ex_custom_start .
qed

lemma ex_custom_facts:
  "outlook_ok ex_custom" "m_outlook_occupied ex_custom \<le> m_outlook_capacity ex_custom" "m_backfill_policy ex_custom \<noteq> NONE"
  "m_fcfs_reservation_time ex_custom_after = dbl 10" "reservation_within_horizon ex_custom (dbl 10) (dbl 1)"
  "waiting (queue_view ex_custom_after) = [new_entry 1 (dbl 0) (dbl 100) 8, new_entry 3 (dbl 0) (dbl 50) 2]"
  "waiting (queue_view (custom_sync_to ex_custom (dbl 1))) =
     [new_entry 1 (dbl 0) (dbl 100) 8, new_entry 2 (dbl 0) (dbl 5) 2, new_entry 3 (dbl 0) (dbl 50) 2]"
  "release_estimate ex_custom (dbl a) (dbl b) = dbl a + dbl b - dbl a" "m_num_max_candidates ex_custom = 2" "m_reevaluate_all_candidates ex_custom"
  "cq_backfill_queue_depth ex_custom = 0"
  unfolding ex_custom_sync
  by (simp_all add: ex_custom_after_def ex_custom_now_def ex_custom_def waiting_def new_entry_def outlook_ok_def
      reservation_within_horizon_def release_estimate_def dbl_simps)

lemma ex_custom_balance: "balance_at ex_custom 4 ex_running (dbl 1) [] t < 2 ^ 32"
  by (simp add: balance_at_def released_def ex_custom_def ex_running_def initial_balance_def end_time_def dbl_simps)

text \<open>A selector that answers with a job it was not offered.\<close>

definition ex_stray :: "unit custom_policy" where
  "ex_stray = base_policy (Some (\<lambda>i t r n w. (Inr 0, w))) (Some (\<lambda>cs w. (Inr (Some 9), w)))"

lemma ex_stray_select: "select_backfill_candidate ex_stray cs a eff now w = (Inr (Some 9), w)"
  by (simp add: ex_stray_def base_policy_def select_backfill_candidate_def)

lemma ex_custom_easy:
  "er_reservation (easy_pass ex_custom 0 4 ex_running (dbl 1) (waiting (queue_view (custom_sync_to ex_custom (dbl 1))))) = dbl 10"
proof -
  have plan: "head_plan ex_custom 4 ex_running (dbl 1) [] = [(dbl 1, 4), (dbl 10, 10)]"
    by (simp add: head_plan_def ex_custom_def ex_running_def eval_simps Let_def dbl_simps)
  have sh: "spec_heads 4 (waiting (queue_view (custom_sync_to ex_custom (dbl 1)))) = ([], 4, waiting (queue_view (custom_sync_to ex_custom (dbl 1))))"
    by (simp add: ex_custom_facts(7) new_entry_def word_less_def)
  have res: "value_or_max (earliest_fit [(dbl 1, 4), (dbl 10, 10)] 8 0 (dbl 1)) = dbl 10"
    by (simp add: eval_simps Let_def dbl_simps)
  show ?thesis
    unfolding easy_pass_def sh Let_def prod.case ex_custom_facts(7) list.case plan
    using res ex_custom_facts(3) by (simp add: new_entry_def case_prod_beta plan)
qed

end
