(* ===== verification/Number.thy ===== *)
theory Number
  imports Epoch
begin

text \<open>
  The numbers that text can give: a binary64 value of the theory Double, or NaN, which \<^verbatim>\<open>std::stod\<close> reads from the
  text of a NaN and which \<open>\<infinity> - \<infinity>\<close>, \<open>0 / 0\<close> and \<open>\<infinity> / \<infinity>\<close> give.  Every comparison with NaN is false, so the order is not total, and
  the conversion to an integer type is defined only for a number whose whole part the type can hold.
\<close>

datatype number = Num double | NaN

instantiation number :: "{zero, plus, minus, ord}"
begin

definition zero_number :: number where
  "0 = Num 0"

fun plus_number :: "number \<Rightarrow> number \<Rightarrow> number" where
  "Num a + Num b = (if \<not> isfinite a \<and> b = - a then NaN else Num (a + b))"
| "(_ :: number) + _ = NaN"

fun minus_number :: "number \<Rightarrow> number \<Rightarrow> number" where
  "Num a - Num b = (if \<not> isfinite a \<and> b = a then NaN else Num (a - b))"
| "(_ :: number) - _ = NaN"

fun less_eq_number :: "number \<Rightarrow> number \<Rightarrow> bool" where
  "Num a \<le> Num b \<longleftrightarrow> a \<le> b"
| "(_ :: number) \<le> _ \<longleftrightarrow> False"

fun less_number :: "number \<Rightarrow> number \<Rightarrow> bool" where
  "Num a < Num b \<longleftrightarrow> a < b"
| "(_ :: number) < _ \<longleftrightarrow> False"

instance ..

end

fun num_divide :: "number \<Rightarrow> number \<Rightarrow> number" where
  "num_divide (Num a) (Num b) = (if a = 0 \<and> b = 0 \<or> \<not> isfinite a \<and> \<not> isfinite b then NaN else Num (a / b))"
| "num_divide _ _ = NaN"

fun num_ceil :: "number \<Rightarrow> number" where
  "num_ceil (Num v) = Num (dbl_ceil v)"
| "num_ceil NaN = NaN"

fun num_floor :: "number \<Rightarrow> number" where
  "num_floor (Num v) = Num (dbl_floor v)"
| "num_floor NaN = NaN"

text \<open>The value of a number that is known not to be NaN.\<close>

fun num_value :: "number \<Rightarrow> double" where
  "num_value (Num v) = v"
| "num_value NaN = 0"

text \<open>\<^verbatim>\<open>static_cast\<close> to an integer type with the given least and greatest value: the whole part, when the type holds it.\<close>

fun to_integer :: "int \<Rightarrow> int \<Rightarrow> number \<Rightarrow> exn + int" where
  "to_integer lo hi (Num v) = (if lo \<le> dbl_trunc v \<and> dbl_trunc v \<le> hi then Inr (dbl_trunc v) else Inl Undefined_Conversion)"
| "to_integer lo hi NaN = Inl Undefined_Conversion"

definition to_time :: "number \<Rightarrow> exn + int" where
  "to_time = to_integer (- 9223372036854775808) 9223372036854775807"

definition to_unsigned :: "number \<Rightarrow> exn + int" where
  "to_unsigned = to_integer 0 4294967295"

lemma to_time_error: "to_time x = Inl e \<Longrightarrow> e = Undefined_Conversion"
  by (cases x) (auto simp: to_time_def split: if_splits)

lemma to_time_NumD: "to_time x = Inr n \<Longrightarrow> \<exists>v. x = Num v \<and> n = dbl_trunc v"
  by (cases x) (auto simp: to_time_def split: if_splits)

lemma to_unsigned_NumD: "to_unsigned x = Inr n \<Longrightarrow> \<exists>v. x = Num v \<and> n = dbl_trunc v \<and> 0 \<le> n \<and> n \<le> 4294967295"
  by (cases x) (auto simp: to_unsigned_def split: if_splits)

lemma to_time_dbl [dbl_simps]: "\<bar>a\<bar> \<le> 9007199254740992 \<Longrightarrow> to_time (Num (dbl a)) = Inr a"
  by (auto simp: to_time_def dbl_trunc_dbl)

lemma to_unsigned_dbl [dbl_simps]: "0 \<le> a \<Longrightarrow> a \<le> 4294967295 \<Longrightarrow> to_unsigned (Num (dbl a)) = Inr a"
  by (simp add: to_unsigned_def dbl_trunc_dbl)

text \<open>A finite number less its whole part.\<close>

lemma to_time_finite: "to_time (Num v) = Inr n \<Longrightarrow> isfinite v"
proof -
  assume "to_time (Num v) = Inr n"
  then have b: "- 9223372036854775808 \<le> dbl_trunc v" "dbl_trunc v \<le> 9223372036854775807"
    by (auto simp: to_time_def split: if_splits)
  have h: "huge = of_int (2 ^ 1024)" by (simp add: huge_def)
  have "dbl_trunc dbl_inf = 2 ^ 1024" "dbl_trunc (- dbl_inf) = - (2 ^ 1024)"
    by (simp_all only: dbl_trunc.rep_eq dbl_inf.rep_eq uminus_double.rep_eq h floor_of_int ceiling_of_int flip: of_int_minus) simp_all
  then show ?thesis using b by (auto simp: isfinite_def)
qed

lemma num_fraction: "to_time (Num v) = Inr n \<Longrightarrow> num_value (Num v - Num w) = v - w"
  by (drule to_time_finite) simp

end
