(* ===== verification/Parse_Utils.thy ===== *)
theory Parse_Utils
  imports Number
begin

text \<open>
  The text routines of the loaders (\<^verbatim>\<open>src/src/trace/parse_utils.cpp\<close>) and the calendar conversions they call
  (\<^verbatim>\<open>src/src/trace/epoch.cpp\<close>), in the default build without the legacy queue names.  A \<^verbatim>\<open>std::string\<close> is a list of
  bytes.  The integer conversions \<^verbatim>\<open>std::stoull\<close> and \<^verbatim>\<open>std::stoi\<close> are written out; what the C library reads through
  its locale and time zone (floating point text, \<^verbatim>\<open>std::get_time\<close>, \<^verbatim>\<open>mktime\<close>, \<^verbatim>\<open>timegm\<close>, \<^verbatim>\<open>localtime\<close> with \<^verbatim>\<open>strftime\<close>)
  is the record \<open>text_library\<close>, an argument of the definitions that use it.  A text can read as NaN; the
  conversion of NaN or of a number that \<^verbatim>\<open>time_t\<close> cannot hold is the outcome \<open>Undefined_Conversion\<close>.
\<close>

section \<open>Strings\<close>

type_synonym substr_pos = "nat \<times> nat"

definition substr :: "string \<Rightarrow> substr_pos \<Rightarrow> string" where
  "substr str p = take (snd p) (drop (fst p) str)"

definition find_first_not_of :: "string \<Rightarrow> string \<Rightarrow> nat option" where
  "find_first_not_of str chars =
     (let k = length (takeWhile (\<lambda>c. c \<in> set chars) str) in if k = length str then None else Some k)"

definition find_last_where :: "(char \<Rightarrow> bool) \<Rightarrow> string \<Rightarrow> nat option" where
  "find_last_where p str =
     (let k = length (takeWhile (\<lambda>c. \<not> p c) (rev str)) in if k = length str then None else Some (length str - 1 - k))"

definition find_last_not_of :: "string \<Rightarrow> string \<Rightarrow> nat option" where
  "find_last_not_of str chars = find_last_where (\<lambda>c. c \<notin> set chars) str"

definition find_last_of :: "string \<Rightarrow> string \<Rightarrow> nat option" where
  "find_last_of str chars = find_last_where (\<lambda>c. c \<in> set chars) str"

definition find_char :: "char \<Rightarrow> string \<Rightarrow> nat option" where
  "find_char c str = (let k = length (takeWhile (\<lambda>d. d \<noteq> c) str) in if k = length str then None else Some k)"

definition is_space :: "char \<Rightarrow> bool" where
  "is_space c \<longleftrightarrow> c \<in> {CHR 0x20, CHR 0x09, CHR 0x0A, CHR 0x0B, CHR 0x0C, CHR 0x0D}"

definition is_digit :: "char \<Rightarrow> bool" where
  "is_digit c \<longleftrightarrow> 48 \<le> (of_char c :: nat) \<and> (of_char c :: nat) \<le> 57"

definition blank :: "char \<Rightarrow> bool" where
  "blank c \<longleftrightarrow> c = CHR 0x20 \<or> c = CHR 0x09"

definition digit_value :: "char \<Rightarrow> nat" where
  "digit_value c = of_char c - 48"

fun decimal_value :: "nat \<Rightarrow> string \<Rightarrow> nat" where
  "decimal_value v [] = v"
| "decimal_value v (c # cs) = decimal_value (10 * v + digit_value c) cs"

definition to_upper :: "char \<Rightarrow> char" where
  "to_upper c = (if 97 \<le> (of_char c :: nat) \<and> (of_char c :: nat) \<le> 122 then char_of (of_char c - 32 :: nat) else c)"

definition to_lower :: "char \<Rightarrow> char" where
  "to_lower c = (if 65 \<le> (of_char c :: nat) \<and> (of_char c :: nat) \<le> 90 then char_of (of_char c + 32 :: nat) else c)"

section \<open>Integers\<close>

text \<open>\<^verbatim>\<open>std::stoull\<close> and \<^verbatim>\<open>std::stoi\<close> in base ten: white space, a sign, digits; the number and how many
  characters were read.  A negative unsigned number is negated modulo \<open>2 ^ 64\<close>.\<close>

definition after_sign :: "string \<Rightarrow> string" where
  "after_sign r = (if r \<noteq> [] \<and> (hd r = CHR ''-'' \<or> hd r = CHR ''+'') then tl r else r)"

definition is_negative :: "string \<Rightarrow> bool" where
  "is_negative r \<longleftrightarrow> r \<noteq> [] \<and> hd r = CHR ''-''"

definition stoull :: "string \<Rightarrow> exn + nat \<times> nat" where
  "stoull str =
     (let r = dropWhile is_space str; d = after_sign r; ds = takeWhile is_digit d; v = decimal_value 0 ds
      in if ds = [] then Inl Invalid_Argument
         else if 2 ^ 64 \<le> v then Inl Out_Of_Range
         else Inr (if is_negative r then (2 ^ 64 - v) mod 2 ^ 64 else v, length str - length d + length ds))"

definition stoi :: "string \<Rightarrow> exn + int" where
  "stoi str =
     (let r = dropWhile is_space str; ds = takeWhile is_digit (after_sign r);
          v = (if is_negative r then - int (decimal_value 0 ds) else int (decimal_value 0 ds))
      in if ds = [] then Inl Invalid_Argument else if v < - (2 ^ 31) \<or> 2 ^ 31 \<le> v then Inl Out_Of_Range else Inr v)"

definition parse_unsigned :: "string \<Rightarrow> nat \<Rightarrow> exn + nat" where
  "parse_unsigned str max_value =
     (case find_first_not_of str [CHR 0x20, CHR 0x09] of
        None \<Rightarrow> Inl Invalid_Argument
      | Some first \<Rightarrow>
          if str ! first = CHR ''-'' \<or> str ! first = CHR ''+'' then Inl Invalid_Argument
          else case stoull str of
            Inl e \<Rightarrow> Inl Invalid_Argument
          | Inr (v, pos) \<Rightarrow>
              if pos \<noteq> length str then Inl Invalid_Argument
              else if max_value < v then Inl Invalid_Argument
              else Inr v)"

definition set_by_unsigned :: "string \<Rightarrow> exn + 32 word" where
  "set_by_unsigned str =
     (case parse_unsigned str 4294967295 of Inl e \<Rightarrow> Inl e | Inr v \<Rightarrow> Inr (of_nat v))"

definition set_by_queue_id :: "string \<Rightarrow> exn + nat" where
  "set_by_queue_id str =
     (if str = [] \<or> \<not> list_all is_digit str then Inl Invalid_Argument
      else case stoull str of
        Inl e \<Rightarrow> Inl e
      | Inr (v, pos) \<Rightarrow> if v = 0 \<or> 10 < v then Inl Invalid_Argument else Inr v)"

section \<open>Splitting a line\<close>

definition trim_chars :: "string \<Rightarrow> string \<Rightarrow> string" where
  "trim_chars str whitespace =
     (case find_first_not_of str whitespace of
        None \<Rightarrow> []
      | Some i_beg \<Rightarrow> case find_last_not_of str whitespace of
          None \<Rightarrow> []
        | Some i_end \<Rightarrow> substr str (i_beg, i_end - i_beg + 1))"

definition trim :: "string \<Rightarrow> string" where
  "trim str = trim_chars str [CHR 0x20, CHR 0x09]"

text \<open>\<^verbatim>\<open>comma_separate\<close>: \<open>i\<close> is the index of the next character and \<open>s\<close> the start of the current field.\<close>

fun comma_loop :: "string \<Rightarrow> nat \<Rightarrow> nat \<Rightarrow> substr_pos list \<times> nat" where
  "comma_loop [] i s = ([], s)"
| "comma_loop (c # cs) i s =
     (if c = CHR '','' then (let (ret, s') = comma_loop cs (i + 1) (i + 1) in ((s, i - s) # ret, s'))
      else comma_loop cs (i + 1) s)"

definition comma_separate :: "string \<Rightarrow> substr_pos list" where
  "comma_separate str =
     (if str = [] then []
      else let (ret, s) = comma_loop str 0 0
           in ret @ [if List.last str = CHR '','' then (length str, 0) else (s, length str - s)])"

function whitespace_loop :: "string \<Rightarrow> nat \<Rightarrow> substr_pos list" where
  "whitespace_loop rest i =
     (let r = dropWhile blank rest; s = i + (length rest - length r)
      in if r = [] then []
         else let n = length (takeWhile (\<lambda>c. \<not> blank c) r) in (s, n) # whitespace_loop (drop n r) (s + n))"
  by pat_completeness auto

termination
proof (relation "measure (\<lambda>(rest, i). length rest)")
  fix rest :: string and i r s n
  assume a: "r = dropWhile blank rest" "r \<noteq> []" "n = length (takeWhile (\<lambda>c. \<not> blank c) r)"
  then have "\<not> blank (hd r)" using hd_dropWhile by metis
  then have "0 < n" using a(2,3) by (cases r) auto
  moreover have "length r \<le> length rest" unfolding a(1) by (rule length_dropWhile_le)
  ultimately show "((drop n r, s + n), rest, i) \<in> measure (\<lambda>(rest, i). length rest)"
    using a(2) by (cases r) auto
qed simp

definition whitespace_separate :: "string \<Rightarrow> substr_pos list" where
  "whitespace_separate str = whitespace_loop str 0"

text \<open>\<^verbatim>\<open>replace_comma_within_quotation\<close>: the state of the scan is the open quotation, the escape and the number of \<open>#\<close> seen.\<close>

record quote_state =
  db_quote_open :: bool
  qs_esc :: bool
  qs_hash :: "32 word"

definition quote_step :: "char \<Rightarrow> quote_state \<Rightarrow> char \<times> quote_state" where
  "quote_step c q =
     (if c = CHR 0x5C then (c, q\<lparr>qs_esc := \<not> qs_esc q\<rparr>)
      else let q = q\<lparr>qs_esc := False\<rparr> in
        if c = CHR ''#'' then (c, if \<not> db_quote_open q then q\<lparr>qs_hash := qs_hash q + 1\<rparr> else q)
        else if c = CHR '';'' then (c, if \<not> db_quote_open q then q\<lparr>qs_hash := 0\<rparr> else q)
        else if 0 < qs_hash q then (c, q)
        else if c = CHR 0x22 \<and> \<not> qs_esc q then (c, q\<lparr>db_quote_open := \<not> db_quote_open q\<rparr>)
        else if c = CHR '','' \<and> \<not> qs_esc q then (if db_quote_open q then CHR 0x60 else CHR '','', q)
        else (c, q))"

fun quote_loop :: "string \<Rightarrow> quote_state \<Rightarrow> string" where
  "quote_loop [] q = []"
| "quote_loop (c # cs) q = (let (d, q) = quote_step c q in d # quote_loop cs q)"

definition replace_comma_within_quotation :: "string \<Rightarrow> string" where
  "replace_comma_within_quotation line = quote_loop line \<lparr>db_quote_open = False, qs_esc = False, qs_hash = 0\<rparr>"

fun search_ci :: "string \<Rightarrow> string \<Rightarrow> bool" where
  "search_ci [] sub = False"
| "search_ci (c # cs) sub \<longleftrightarrow>
     length sub \<le> length (c # cs) \<and> map to_upper (take (length sub) (c # cs)) = map to_upper sub \<or> search_ci cs sub"

section \<open>Timestamps\<close>

datatype timestamp_encoding = EPOCH | CALENDAR

record 'tm text_library =
  tl_stod :: "string \<Rightarrow> exn + number \<times> nat"
  tl_atof :: "string \<Rightarrow> double"
  tl_get_time :: "string \<Rightarrow> 'tm option"
  tl_mktime :: "'tm \<Rightarrow> int"
  tl_timegm :: "'tm \<Rightarrow> int"
  tl_local_text :: "int \<Rightarrow> string option"
  tl_fraction_text :: "double \<Rightarrow> string"

definition detect_timestamp_encoding :: "'tm text_library \<Rightarrow> string \<Rightarrow> timestamp_encoding" where
  "detect_timestamp_encoding lib str =
     (case tl_stod lib str of Inl e \<Rightarrow> CALENDAR | Inr (v, pos) \<Rightarrow> if pos = length str then EPOCH else CALENDAR)"

definition set_by_double :: "'tm text_library \<Rightarrow> string \<Rightarrow> exn + number" where
  "set_by_double lib str =
     (case tl_stod lib str of Inl e \<Rightarrow> Inl e | Inr (v, pos) \<Rightarrow> if pos \<noteq> length str then Inl Invalid_Argument else Inr v)"

definition date_separator :: "string \<Rightarrow> string" where
  "date_separator str = (if 10 < length str \<and> str ! 10 = CHR ''T'' then str[10 := CHR 0x20] else str)"

definition is_timestamp :: "'tm text_library \<Rightarrow> string \<Rightarrow> bool" where
  "is_timestamp lib str \<longleftrightarrow> tl_get_time lib (date_separator str) \<noteq> None"

definition convert_time :: "'tm text_library \<Rightarrow> string \<Rightarrow> exn + epoch" where
  "convert_time lib str =
     (case tl_get_time lib (date_separator str) of
        None \<Rightarrow> Inl Invalid_Argument
      | Some t \<Rightarrow>
          let frac = (case find_last_of str ''.'' of
                        None \<Rightarrow> 0
                      | Some i \<Rightarrow> to_single (tl_atof lib (''0.'' @ drop (i + 1) str)))
          in Inr (tl_mktime lib t, frac))"

definition parse_timezone_offset :: "string \<Rightarrow> exn + int" where
  "parse_timezone_offset tz =
     (if tz = [] \<or> tz = ''Z'' then Inr 0
      else if length tz < 5 then Inl Invalid_Argument
      else let sign = (if hd tz = CHR ''-'' then - 1 else 1) in
        case stoi (substr tz (1, 2)) of
          Inl e \<Rightarrow> Inl e
        | Inr hours \<Rightarrow> case stoi (substr tz (4, 2)) of
            Inl e \<Rightarrow> Inl e
          | Inr minutes \<Rightarrow> Inr (sign * (hours * 3600 + minutes * 60)))"

definition zone_position :: "string \<Rightarrow> nat option" where
  "zone_position str = (case find_last_of str ''+-Z'' of Some i \<Rightarrow> if 10 < i then Some i else None | None \<Rightarrow> None)"

definition parse_time_with_timezone :: "'tm text_library \<Rightarrow> string \<Rightarrow> exn + epoch \<times> string" where
  "parse_time_with_timezone lib str =
     (let (explicit, tz_offset, time_part) =
        (case zone_position str of
           None \<Rightarrow> (False, ''+00:00'', str)
         | Some i \<Rightarrow> (True, if drop i str = ''Z'' then ''+00:00'' else drop i str, take i str));
          time_part = (case find_char (CHR ''T'') time_part of None \<Rightarrow> time_part | Some i \<Rightarrow> time_part[i := CHR 0x20])
      in case tl_get_time lib time_part of
           None \<Rightarrow> Inl Invalid_Argument
         | Some t \<Rightarrow>
             let frac = (case find_char (CHR ''.'') time_part of
                           None \<Rightarrow> 0
                         | Some i \<Rightarrow> to_single (tl_atof lib (''0.'' @ drop (i + 1) time_part)))
             in if explicit
                then (case parse_timezone_offset tz_offset of
                        Inl e \<Rightarrow> Inl e
                      | Inr offset \<Rightarrow> Inr ((tl_timegm lib t - offset, frac), tz_offset))
                else Inr ((tl_mktime lib t, frac), tz_offset))"

definition set_by_epoch :: "'tm text_library \<Rightarrow> string \<Rightarrow> timestamp_encoding \<Rightarrow> exn + epoch" where
  "set_by_epoch lib str encoding =
     (if str = [] then Inr (0, 0)
      else case encoding of
        EPOCH \<Rightarrow>
          (case tl_stod lib str of
             Inl e \<Rightarrow> Inl e
           | Inr (seconds, pos) \<Rightarrow>
               if pos \<noteq> length str then Inl Invalid_Argument
               else (case to_time seconds of
                       Inl e \<Rightarrow> Inl e
                     | Inr sec_int \<Rightarrow> Inr (sec_int, to_single (num_value (seconds - Num (dbl sec_int))))))
      | CALENDAR \<Rightarrow>
          if zone_position str \<noteq> None
          then (case parse_time_with_timezone lib str of Inl e \<Rightarrow> Inl e | Inr (utc_time, tz_offset) \<Rightarrow> Inr utc_time)
          else convert_time lib str)"

definition epoch_to_string :: "'tm text_library \<Rightarrow> epoch \<Rightarrow> string" where
  "epoch_to_string lib t =
     (case tl_local_text lib (fst t) of None \<Rightarrow> ''Invalid time'' | Some text \<Rightarrow> text @ tl (tl_fraction_text lib (snd t)))"

end
