(* ===== verification/Loaders.thy ===== *)
theory Loaders
  imports Parse_Utils Scheduler_Base
begin

text \<open>
  The loaders: the capacity schedule (\<^verbatim>\<open>src/src/sim/capacity_schedule.cpp\<close>), the columns of a trace
  (\<^verbatim>\<open>src/src/trace/data_columns.cpp\<close>), the rows of a CSV trace (\<^verbatim>\<open>job_io.cpp\<close> and the constructor of \<^verbatim>\<open>Job_Record\<close> from the
  fields of a row) and the Pcon and SWF formats (\<^verbatim>\<open>trace_policy.cpp\<close>), in the default build.  A file is the list of the
  lines that \<^verbatim>\<open>std::getline\<close> gives, or \<open>None\<close> when it cannot be opened.  Messages are not modelled.
\<close>

section \<open>Capacity schedule\<close>

text \<open>\<^verbatim>\<open>columns.emplace\<close> keeps the first column of a name.\<close>

fun first_index :: "string \<Rightarrow> string list \<Rightarrow> nat option" where
  "first_index name [] = None"
| "first_index name (x # xs) = (if x = name then Some 0 else map_option Suc (first_index name xs))"

definition header_names :: "string \<Rightarrow> string list" where
  "header_names line = map (\<lambda>p. trim (substr line p)) (comma_separate line)"

text \<open>A handler of \<^verbatim>\<open>std::exception\<close> that throws \<^verbatim>\<open>invalid_argument\<close>; no handler runs where C++ leaves the execution undefined.\<close>

definition rethrown :: "exn \<Rightarrow> exn" where
  "rethrown e = (if is_undefined e then e else Invalid_Argument)"

text \<open>One data row: its encoding is detected from the first and kept; the times must increase.\<close>

definition capacity_row ::
  "'tm text_library \<Rightarrow> nat \<Rightarrow> nat \<Rightarrow> num_nodes \<Rightarrow> timestamp_encoding option \<Rightarrow> capacity_change list \<Rightarrow> string \<Rightarrow>
    exn + timestamp_encoding \<times> capacity_change" where
  "capacity_row lib time_col nodes_col configured_maximum encoding changes line =
     (let vals = comma_separate line in
      if length vals \<le> time_col \<or> length vals \<le> nodes_col then Inl Invalid_Argument
      else let time_value = trim (substr line (vals ! time_col));
               enc = (case encoding of None \<Rightarrow> detect_timestamp_encoding lib time_value | Some e \<Rightarrow> e)
           in case set_by_epoch lib time_value enc of
                Inl e \<Rightarrow> Inl (rethrown e)
              | Inr parsed_time \<Rightarrow>
                  (case set_by_unsigned (trim (substr line (vals ! nodes_col))) of
                     Inl e \<Rightarrow> Inl Invalid_Argument
                   | Inr parsed_nodes \<Rightarrow>
                       let t = convert_epoch parsed_time in
                       if changes \<noteq> [] \<and> t \<le> cc_time (List.last changes) then Inl Invalid_Argument
                       else if configured_maximum < parsed_nodes then Inl Invalid_Argument
                       else Inr (enc, \<lparr>cc_time = t, cc_total_nodes = parsed_nodes\<rparr>)))"

fun capacity_rows ::
  "'tm text_library \<Rightarrow> nat \<Rightarrow> nat \<Rightarrow> num_nodes \<Rightarrow> timestamp_encoding option \<Rightarrow> capacity_change list \<Rightarrow> string list \<Rightarrow> exn + capacity_change list" where
  "capacity_rows lib time_col nodes_col configured_maximum encoding changes [] = Inr changes"
| "capacity_rows lib time_col nodes_col configured_maximum encoding changes (line # lines) =
     (if trim line = [] then capacity_rows lib time_col nodes_col configured_maximum encoding changes lines
      else case capacity_row lib time_col nodes_col configured_maximum encoding changes line of
        Inl e \<Rightarrow> Inl e
      | Inr (enc, change) \<Rightarrow> capacity_rows lib time_col nodes_col configured_maximum (Some enc) (changes @ [change]) lines)"

definition load_capacity_schedule ::
  "'tm text_library \<Rightarrow> (string \<Rightarrow> string list option) \<Rightarrow> string \<Rightarrow> num_nodes \<Rightarrow> exn + capacity_change list" where
  "load_capacity_schedule lib file filename configured_maximum =
     (if filename = [] then Inr []
      else case file filename of
        None \<Rightarrow> Inl Runtime_Error
      | Some [] \<Rightarrow> Inl Invalid_Argument
      | Some (line # lines) \<Rightarrow>
          (case (first_index ''time'' (header_names line), first_index ''total_nodes'' (header_names line)) of
             (Some time_col, Some nodes_col) \<Rightarrow>
               (case capacity_rows lib time_col nodes_col configured_maximum None [] lines of
                  Inl e \<Rightarrow> Inl e
                | Inr changes \<Rightarrow> if changes = [] then Inl Invalid_Argument else Inr changes)
           | _ \<Rightarrow> Inl Invalid_Argument))"

section \<open>Columns\<close>

record data_columns =
  m_cols_to_read :: "(nat \<times> string) list"
  m_col_by_name :: "string \<Rightarrow> (nat \<times> nat) option"
  m_total_columns :: nat
  m_queue_idx :: nat
  m_has_q_id_column :: bool
  m_col_to_avoid :: string
  m_col_to_avoid_idx :: nat
  m_trace_format :: string
  dc_trace_mode :: trace_mode
  m_cores_per_node_override :: "32 word"
  m_swf_cores_per_node :: "32 word"
  m_swf_skipped :: nat

text \<open>The lookup tables of \<^verbatim>\<open>init\<close>, which \<^verbatim>\<open>check_header\<close> builds again: a repeated name is refused.\<close>

fun index_columns :: "nat \<Rightarrow> (nat \<times> string) list \<Rightarrow> data_columns \<Rightarrow> exn + data_columns" where
  "index_columns i [] dc = Inr dc"
| "index_columns i (c # cs) dc =
     (if m_col_by_name dc (snd c) \<noteq> None then Inl Invalid_Argument
      else let dc = dc\<lparr>m_col_by_name := (m_col_by_name dc)(snd c \<mapsto> (fst c, i))\<rparr>;
               dc = (if snd c = ''q_id'' then dc\<lparr>m_queue_idx := i\<rparr> else dc)
           in index_columns (i + 1) cs dc)"

definition sort_columns :: "data_columns \<Rightarrow> data_columns" where
  "sort_columns dc = (if m_trace_format dc \<noteq> ''simple'' then dc\<lparr>m_cols_to_read := sort_key fst (m_cols_to_read dc)\<rparr> else dc)"

definition new_data_columns :: "string \<Rightarrow> exn + data_columns" where
  "new_data_columns format =
     (let cols = (if format = ''simple''
                  then [(3, ''num_nodes''), (1, ''begin_time''), (2, ''end_time''), (0, ''job_submit_time''), (5, ''queue''),
                        (6, ''time_limit''), (7, ''actual_run_time'')]
                  else if format = ''swf''
                  then [(4, ''num_nodes''), (1, ''job_submit_time''), (14, ''q_id''), (8, ''time_limit''), (3, ''actual_run_time'')]
                  else [(11, ''num_nodes''), (23, ''begin_time''), (24, ''end_time''), (29, ''job_submit_time''), (30, ''queue''),
                        (32, ''time_limit'')]);
          dc = \<lparr>m_cols_to_read = cols, m_col_by_name = Map.empty, m_total_columns = 0, m_queue_idx = 0, m_has_q_id_column = False,
                m_col_to_avoid = (if format = ''simple'' \<or> format = ''swf'' then [] else ''user_script''),
                m_col_to_avoid_idx = 4294967295, m_trace_format = format, dc_trace_mode = REPLAY,
                m_cores_per_node_override = 0, m_swf_cores_per_node = 1, m_swf_skipped = 0\<rparr>
      in case index_columns 0 cols dc of Inl e \<Rightarrow> Inl e | Inr dc \<Rightarrow> Inr (sort_columns dc))"

definition trailing_space :: "char \<Rightarrow> bool" where
  "trailing_space c \<longleftrightarrow> c \<in> {CHR 0x20, CHR 0x09, CHR 0x0D, CHR 0x0A}"

definition strip_trailing :: "string \<Rightarrow> string" where
  "strip_trailing line = rev (dropWhile trailing_space (rev line))"

definition drop_byte_order_mark :: "string \<Rightarrow> string" where
  "drop_byte_order_mark line = (if take 3 line = [CHR 0xEF, CHR 0xBB, CHR 0xBF] then drop 3 line else line)"

text \<open>The names of a header line.  Reading a stream up to each comma gives one more field than there are commas.\<close>

fun getline_commas :: "string \<Rightarrow> string \<Rightarrow> string list" where
  "getline_commas field [] = [field]"
| "getline_commas field (c # cs) = (if c = CHR '','' then field # getline_commas [] cs else getline_commas (field @ [c]) cs)"

definition column_names :: "string \<Rightarrow> string list" where
  "column_names line = map strip_trailing (getline_commas [] line)"

text \<open>\<^verbatim>\<open>col_map[name] = i\<close> keeps the last column of a name, and \<^verbatim>\<open>m_col_to_avoid_idx\<close> too.\<close>

fun last_index :: "string \<Rightarrow> nat \<Rightarrow> string list \<Rightarrow> nat option" where
  "last_index name i [] = None"
| "last_index name i (x # xs) =
     (case last_index name (i + 1) xs of Some k \<Rightarrow> Some k | None \<Rightarrow> if x = name then Some i else None)"

fun find_column_optional :: "string list \<Rightarrow> string list \<Rightarrow> nat option" where
  "find_column_optional col_names [] = None"
| "find_column_optional col_names (name # names) =
     (case last_index name 0 col_names of Some i \<Rightarrow> Some i | None \<Rightarrow> find_column_optional col_names names)"

definition time_limit_aliases :: "string list" where
  "time_limit_aliases = [''time_limit'', ''timelimit'', ''walltime'']"

definition submit_time_aliases :: "string list" where
  "submit_time_aliases = [''job_submit_time'', ''submit_time'']"

definition actual_run_time_aliases :: "string list" where
  "actual_run_time_aliases = [''actual_run_time'', ''actual_runtime'', ''duration'', ''actual_duration'', ''run_time'']"

text \<open>A required column that is not there is an \<^verbatim>\<open>invalid_argument\<close>.\<close>

fun find_columns :: "string list \<Rightarrow> string list list \<Rightarrow> exn + (nat \<times> string) list" where
  "find_columns col_names [] = Inr []"
| "find_columns col_names (names # rest) =
     (case find_column_optional col_names names of
        None \<Rightarrow> Inl Invalid_Argument
      | Some i \<Rightarrow> (case find_columns col_names rest of Inl e \<Rightarrow> Inl e | Inr cs \<Rightarrow> Inr ((i, hd names) # cs)))"

definition required_columns :: "trace_mode \<Rightarrow> string list list" where
  "required_columns mode =
     (case mode of
        REPLAY \<Rightarrow> [[''num_nodes''], [''begin_time''], [''end_time''], submit_time_aliases, time_limit_aliases]
      | SIMULATION \<Rightarrow> [[''num_nodes''], submit_time_aliases, time_limit_aliases])"

definition with_queue :: "nat option \<Rightarrow> (nat \<times> string) list \<Rightarrow> (nat \<times> string) list" where
  "with_queue q cols = (case q of Some i \<Rightarrow> butlast cols @ [(i, ''q_id''), List.last cols] | None \<Rightarrow> cols)"

definition with_run_time :: "nat option \<Rightarrow> (nat \<times> string) list \<Rightarrow> (nat \<times> string) list" where
  "with_run_time a cols = (case a of Some i \<Rightarrow> cols @ [(i, ''actual_run_time'')] | None \<Rightarrow> cols)"

definition selected_columns :: "string list \<Rightarrow> trace_mode \<Rightarrow> exn + (nat \<times> string) list" where
  "selected_columns col_names mode =
     (case find_columns col_names (required_columns mode) of
        Inl e \<Rightarrow> Inl e
      | Inr cols \<Rightarrow> Inr (with_run_time (find_column_optional col_names actual_run_time_aliases)
                           (with_queue (last_index ''q_id'' 0 col_names) cols)))"

definition check_header :: "(string \<Rightarrow> string list option) \<Rightarrow> string \<Rightarrow> data_columns \<Rightarrow> exn + bool \<times> data_columns" where
  "check_header file fname dc =
     (if fname = [] then Inr (False, dc)
      else if m_trace_format dc = ''swf'' then Inr (True, dc\<lparr>dc_trace_mode := SIMULATION, m_has_q_id_column := True\<rparr>)
      else case file fname of
        None \<Rightarrow> Inr (False, dc)
      | Some lines \<Rightarrow>
          if m_cols_to_read dc = [] then Inr (True, dc)
          else let line = (case lines of [] \<Rightarrow> [] | l # _ \<Rightarrow> l);
                   col_names = column_names (drop_byte_order_mark line);
                   dc = (case last_index (m_col_to_avoid dc) 0 col_names of Some i \<Rightarrow> dc\<lparr>m_col_to_avoid_idx := i\<rparr> | None \<Rightarrow> dc);
                   has_begin_time = ''begin_time'' \<in> set col_names; has_end_time = ''end_time'' \<in> set col_names
               in if has_begin_time \<noteq> has_end_time then Inl Invalid_Argument
                  else let dc = dc\<lparr>dc_trace_mode := (if has_begin_time then REPLAY else SIMULATION),
                                   m_has_q_id_column := (''q_id'' \<in> set col_names)\<rparr>
                       in case selected_columns col_names (dc_trace_mode dc) of
                            Inl e \<Rightarrow> Inl e
                          | Inr cols \<Rightarrow>
                              let dc = sort_columns (dc\<lparr>m_cols_to_read := cols, m_total_columns := length col_names,
                                                        m_col_by_name := Map.empty\<rparr>)
                              in case index_columns 0 (m_cols_to_read dc) dc of
                                   Inl e \<Rightarrow> Inl e
                                 | Inr dc \<Rightarrow> Inr (True, dc))"

text \<open>\<^verbatim>\<open>pick_values\<close>.  Both of its loops store \<open>col_pos[c.first]\<close>, and together they visit every selected column.\<close>

fun pick_columns :: "substr_pos list \<Rightarrow> (nat \<times> string) list \<Rightarrow> exn + substr_pos list" where
  "pick_columns col_pos [] = Inr []"
| "pick_columns col_pos (c # cs) =
     (if length col_pos \<le> fst c then Inl Undefined_Read
      else case pick_columns col_pos cs of Inl e \<Rightarrow> Inl e | Inr ps \<Rightarrow> Inr (col_pos ! fst c # ps))"

definition pick_values :: "data_columns \<Rightarrow> string \<Rightarrow> exn + substr_pos list" where
  "pick_values dc str =
     (let col_pos = comma_separate str in
      if length col_pos < m_total_columns dc then Inl Length_Error
      else let col_pos = (if m_total_columns dc < length col_pos then comma_separate (replace_comma_within_quotation str) else col_pos)
           in pick_columns col_pos (m_cols_to_read dc))"

section \<open>Rows of a CSV trace\<close>

lift_definition runtime_timestamp_tolerance :: tdiff is "fl (1 / 10 ^ 6)" by simp

text \<open>The two checks of a run time start with \<^verbatim>\<open>std::isfinite\<close>, so a run time of NaN fails them; they are written for the other
  numbers.\<close>

definition validate_replay_run_time :: "tdiff \<Rightarrow> tdiff \<Rightarrow> bool" where
  "validate_replay_run_time actual recorded \<longleftrightarrow>
     isfinite actual \<and> \<not> runtime_timestamp_tolerance < (if actual - recorded < 0 then - (actual - recorded) else actual - recorded)"

text \<open>The order of the three times of a replayed job; when it is wrong they are read back from their text once.\<close>

definition times_in_order :: "epoch \<Rightarrow> epoch \<Rightarrow> epoch \<Rightarrow> bool" where
  "times_in_order submit begin_t end_t \<longleftrightarrow> \<not> (epoch_less end_t begin_t \<or> epoch_less begin_t submit)"

definition normalize_times :: "'tm text_library \<Rightarrow> epoch \<Rightarrow> epoch \<Rightarrow> epoch \<Rightarrow> exn + epoch \<times> epoch \<times> epoch" where
  "normalize_times lib submit begin_t end_t =
     (if times_in_order submit begin_t end_t then Inr (submit, begin_t, end_t)
      else case (convert_time lib (epoch_to_string lib submit), convert_time lib (epoch_to_string lib begin_t),
                 convert_time lib (epoch_to_string lib end_t)) of
        (Inr submit, Inr begin_t, Inr end_t) \<Rightarrow>
          if times_in_order submit begin_t end_t then Inr (submit, begin_t, end_t) else Inl Domain_Error
      | _ \<Rightarrow> Inl Domain_Error)"

definition replay_record ::
  "'tm text_library \<Rightarrow> num_nodes \<Rightarrow> string list \<Rightarrow> nat \<Rightarrow> timestamp_encoding \<Rightarrow> exn + job_record" where
  "replay_record lib nodes vals queue encoding =
     (case set_by_epoch lib (vals ! 1) encoding of Inl e \<Rightarrow> Inl e | Inr begin_t \<Rightarrow>
      case set_by_epoch lib (vals ! 2) encoding of Inl e \<Rightarrow> Inl e | Inr end_t \<Rightarrow>
      case set_by_epoch lib (vals ! 3) encoding of Inl e \<Rightarrow> Inl e | Inr submit \<Rightarrow>
      case normalize_times lib submit begin_t end_t of Inl e \<Rightarrow> Inl e | Inr (submit, begin_t, end_t) \<Rightarrow>
      case set_by_unsigned (vals ! 4) of Inl e \<Rightarrow> Inl e | Inr limit \<Rightarrow>
        let recorded = epoch_minus end_t begin_t;
            job = (new_job_record submit nodes queue limit)\<lparr>m_t_begin := begin_t, m_t_end := end_t\<rparr>
        in if length vals = 6
           then (case set_by_double lib (vals ! 5) of
                   Inl e \<Rightarrow> Inl e
                 | Inr NaN \<Rightarrow> Inl Domain_Error
                 | Inr (Num actual) \<Rightarrow> if validate_replay_run_time actual recorded
                                       then Inr (job\<lparr>m_actual_run_time := actual\<rparr>) else Inl Domain_Error)
           else Inr (job\<lparr>m_actual_run_time := recorded\<rparr>))"

definition simulation_record ::
  "'tm text_library \<Rightarrow> num_nodes \<Rightarrow> string list \<Rightarrow> nat \<Rightarrow> timestamp_encoding \<Rightarrow> exn + job_record" where
  "simulation_record lib nodes vals queue encoding =
     (case set_by_epoch lib (vals ! 1) encoding of Inl e \<Rightarrow> Inl e | Inr submit \<Rightarrow>
      case set_by_unsigned (vals ! 2) of Inl e \<Rightarrow> Inl e | Inr limit \<Rightarrow>
        let job = new_job_record submit nodes queue limit
        in if length vals = 4
           then (case set_by_double lib (vals ! 3) of
                   Inl e \<Rightarrow> Inl e
                 | Inr NaN \<Rightarrow> Inl Domain_Error
                 | Inr (Num actual) \<Rightarrow> if validate_simulation_run_time actual limit
                                       then Inr (job\<lparr>m_actual_run_time := actual\<rparr>) else Inl Domain_Error)
           else Inr job)"

definition job_record_of_fields ::
  "'tm text_library \<Rightarrow> string list \<Rightarrow> nat \<Rightarrow> bool \<Rightarrow> timestamp_encoding \<Rightarrow> exn + job_record" where
  "job_record_of_fields lib vals queue is_replay_mode encoding =
     (let expected_fields = (if is_replay_mode then 5 else 3) in
      if length vals \<noteq> expected_fields \<and> length vals \<noteq> expected_fields + 1 then Inl Invalid_Argument
      else case set_by_unsigned (vals ! 0) of
        Inl e \<Rightarrow> Inl e
      | Inr nodes \<Rightarrow> if is_replay_mode then replay_record lib nodes vals queue encoding
                     else simulation_record lib nodes vals queue encoding)"

text \<open>The fields of a row, with the queue: a \<open>q_id\<close> column is taken out of the fields.\<close>

fun row_fields :: "nat option \<Rightarrow> nat \<Rightarrow> string list \<Rightarrow> nat \<Rightarrow> exn + string list \<times> nat" where
  "row_fields q_idx i [] queue = Inr ([], queue)"
| "row_fields q_idx i (v # vs) queue =
     (if q_idx = Some i
      then (case set_by_queue_id v of Inl e \<Rightarrow> Inl e | Inr q \<Rightarrow> row_fields q_idx (i + 1) vs q)
      else case row_fields q_idx (i + 1) vs queue of Inl e \<Rightarrow> Inl e | Inr (fs, q) \<Rightarrow> Inr (v # fs, q))"

definition read_fields :: "data_columns \<Rightarrow> string \<Rightarrow> exn + string list \<times> nat" where
  "read_fields dc line =
     (case pick_values dc line of
        Inl e \<Rightarrow> Inl e
      | Inr val_pos \<Rightarrow> row_fields (if m_has_q_id_column dc then Some (m_queue_idx dc) else None) 0
                          (map (\<lambda>p. trim (substr line p)) val_pos) 1)"

text \<open>One pass over the rows: \<^verbatim>\<open>domain_error\<close> drops the row, any other exception is rethrown as \<^verbatim>\<open>invalid_argument\<close>.\<close>

definition csv_row ::
  "'tm text_library \<Rightarrow> data_columns \<Rightarrow> timestamp_encoding option \<Rightarrow> string \<Rightarrow> timestamp_encoding option \<times> (exn + job_record)" where
  "csv_row lib dc encoding line =
     (case read_fields dc line of
        Inl e \<Rightarrow> (encoding, Inl e)
      | Inr (vals, queue) \<Rightarrow>
          if length vals < 2 then (encoding, Inl Out_Of_Range)
          else let enc = (case encoding of None \<Rightarrow> detect_timestamp_encoding lib (vals ! 1) | Some e \<Rightarrow> e)
               in (Some enc, job_record_of_fields lib vals queue (dc_trace_mode dc = REPLAY) enc))"

fun load_rows ::
  "'tm text_library \<Rightarrow> data_columns \<Rightarrow> nat \<Rightarrow> nat \<Rightarrow> timestamp_encoding option \<Rightarrow> job_record list \<Rightarrow> string list \<Rightarrow> exn + job_record list" where
  "load_rows lib dc max_cnt cnt encoding data [] = Inr data"
| "load_rows lib dc max_cnt cnt encoding data (l # lines) =
     (let line = strip_trailing l in
      if line = [] then load_rows lib dc max_cnt cnt encoding data lines
      else if max_cnt \<le> cnt then Inr data
      else case csv_row lib dc encoding line of
        (enc, Inl e) \<Rightarrow> if e = Domain_Error then load_rows lib dc max_cnt (cnt + 1) enc data lines else Inl (rethrown e)
      | (enc, Inr job) \<Rightarrow> load_rows lib dc max_cnt (cnt + 1) enc (data @ [job]) lines)"

definition count_limit :: "nat \<Rightarrow> nat" where
  "count_limit max_cnt = (if max_cnt = 0 then 2 ^ 64 - 1 else max_cnt)"

definition load_csv :: "'tm text_library \<Rightarrow> (string \<Rightarrow> string list option) \<Rightarrow> string \<Rightarrow> data_columns \<Rightarrow> job_record list \<Rightarrow> nat \<Rightarrow> exn + job_record list" where
  "load_csv lib file fname dc data max_cnt =
     (if fname = [] then Inl Exit_Failure
      else case file fname of
        None \<Rightarrow> Inl Exit_Failure
      | Some lines \<Rightarrow> if m_cols_to_read dc = [] then Inr data
                      else load_rows lib dc (count_limit max_cnt) 0 None data (tl lines))"

text \<open>The constructor of \<^verbatim>\<open>BasicTrace\<close> checks the header; the load of the standard policy reads the rows with those columns.\<close>

definition open_columns :: "(string \<Rightarrow> string list option) \<Rightarrow> string \<Rightarrow> string \<Rightarrow> exn + data_columns" where
  "open_columns file fname format =
     (case new_data_columns format of
        Inl e \<Rightarrow> Inl e
      | Inr dc \<Rightarrow> (case check_header file fname dc of Inl e \<Rightarrow> Inl e | Inr (ok, dc) \<Rightarrow> if ok then Inr dc else Inl Runtime_Error))"

definition load_standard ::
  "'tm text_library \<Rightarrow> (string \<Rightarrow> string list option) \<Rightarrow> string \<Rightarrow> string \<Rightarrow> nat \<Rightarrow> exn + job_record list" where
  "load_standard lib file fname format max_count =
     (case open_columns file fname format of Inl e \<Rightarrow> Inl e | Inr dc \<Rightarrow> load_csv lib file fname dc [] max_count)"

section \<open>Pcon traces\<close>

record pcon_record =
  pcon_job :: job_record
  avgpcon :: number
  minpcon :: number
  maxpcon :: number

fun pcon_rows ::
  "'tm text_library \<Rightarrow> nat \<Rightarrow> nat \<Rightarrow> nat \<Rightarrow> nat \<Rightarrow> nat \<Rightarrow> job_record list \<Rightarrow> pcon_record list \<Rightarrow> string list \<Rightarrow> exn + pcon_record list" where
  "pcon_rows lib avg_index min_index max_index max_count seen jobs records [] = Inr records"
| "pcon_rows lib avg_index min_index max_index max_count seen jobs records (line # lines) =
     (if \<not> (seen < max_count \<and> length records < length jobs) then Inr records
      else let vals = comma_separate line; value = (\<lambda>i. set_by_double lib (trim (substr line (vals ! i)))) in
        if length vals \<le> avg_index \<or> length vals \<le> min_index \<or> length vals \<le> max_index then Inl Invalid_Argument
        else case value avg_index of Inl e \<Rightarrow> Inl e | Inr a \<Rightarrow>
             case value min_index of Inl e \<Rightarrow> Inl e | Inr mi \<Rightarrow>
             case value max_index of Inl e \<Rightarrow> Inl e | Inr ma \<Rightarrow>
               pcon_rows lib avg_index min_index max_index max_count (seen + 1) jobs
                 (records @ [\<lparr>pcon_job = jobs ! length records, avgpcon = a, minpcon = mi, maxpcon = ma\<rparr>]) lines)"

definition load_pcon ::
  "'tm text_library \<Rightarrow> (string \<Rightarrow> string list option) \<Rightarrow> string \<Rightarrow> data_columns \<Rightarrow> pcon_record list \<Rightarrow> nat \<Rightarrow> exn + pcon_record list" where
  "load_pcon lib file fname dc records max_count =
     (case load_csv lib file fname dc [] max_count of
        Inl e \<Rightarrow> Inl e
      | Inr jobs \<Rightarrow>
          (case file fname of
             None \<Rightarrow> Inl Exit_Failure
           | Some [] \<Rightarrow> Inl Exit_Failure
           | Some (line # lines) \<Rightarrow>
               (case (first_index ''avgpcon'' (header_names line), first_index ''minpcon'' (header_names line),
                      first_index ''maxpcon'' (header_names line)) of
                  (Some a, Some mi, Some ma) \<Rightarrow>
                    (case pcon_rows lib a mi ma (count_limit max_count) 0 jobs records lines of
                       Inl e \<Rightarrow> Inl e
                     | Inr records \<Rightarrow> if length records \<noteq> length jobs then Inl Invalid_Argument else Inr records)
                | _ \<Rightarrow> Inl Invalid_Argument)))"

section \<open>SWF traces\<close>

text \<open>The limit of a job is a whole number, so only its run time can be NaN; then \<open>m_run_time_is_nan\<close> holds and the value in
  \<open>m_actual_run_time\<close> means nothing.\<close>

record swf_record = job_record +
  m_swf_job_number :: "32 word"
  m_swf_queue :: "8 word"
  m_run_time_is_nan :: bool

definition parse_swf_num :: "'tm text_library \<Rightarrow> string \<Rightarrow> exn + number" where
  "parse_swf_num lib token =
     (case tl_stod lib token of
        Inl e \<Rightarrow> Inl Invalid_Argument
      | Inr (v, pos) \<Rightarrow> if pos \<noteq> length token then Inl Invalid_Argument else Inr v)"

definition parse_swf_header_value :: "'tm text_library \<Rightarrow> string \<Rightarrow> string \<Rightarrow> number option" where
  "parse_swf_header_value lib line key =
     (case find_char (CHR '':'') line of
        None \<Rightarrow> None
      | Some colon \<Rightarrow>
          let k = trim (substr line (1, colon - 1)) in
          if map to_lower k \<noteq> map to_lower key then None
          else case tl_stod lib (trim (drop (colon + 1) line)) of
            Inl e \<Rightarrow> None
          | Inr (v, pos) \<Rightarrow> if 0 < pos then Some v else None)"

fun header_max_nodes :: "'tm text_library \<Rightarrow> string list \<Rightarrow> 32 word" where
  "header_max_nodes lib [] = 0"
| "header_max_nodes lib (line # lines) =
     (if line = [] then header_max_nodes lib lines
      else if hd line \<noteq> CHR '';''
      then (if find_first_not_of line [CHR 0x20, CHR 0x09, CHR 0x0D] \<noteq> None then 0 else header_max_nodes lib lines)
      else case parse_swf_header_value lib line ''MaxNodes'' of
        None \<Rightarrow> header_max_nodes lib lines
      | Some v \<Rightarrow> if 0 < v \<and> v \<le> Num (dbl 4294967295) then word_of_int (dbl_trunc (num_value v)) else header_max_nodes lib lines)"

record swf_state =
  unix_start :: number
  swf_max_nodes :: number
  swf_max_procs :: number
  cores_per_node :: "number option"
  swf_accepted :: nat
  swf_skips :: nat

definition swf_metadata :: "'tm text_library \<Rightarrow> string \<Rightarrow> swf_state \<Rightarrow> swf_state" where
  "swf_metadata lib line st =
     (case parse_swf_header_value lib line ''UnixStartTime'' of
        Some v \<Rightarrow> st\<lparr>unix_start := v\<rparr>
      | None \<Rightarrow> case parse_swf_header_value lib line ''MaxNodes'' of
          Some v \<Rightarrow> st\<lparr>swf_max_nodes := v\<rparr>
        | None \<Rightarrow> case parse_swf_header_value lib line ''MaxProcs'' of
            Some v \<Rightarrow> st\<lparr>swf_max_procs := v\<rparr>
          | None \<Rightarrow> st)"

definition fix_divisor :: "32 word \<Rightarrow> swf_state \<Rightarrow> swf_state" where
  "fix_divisor cores_override st =
     (if cores_per_node st \<noteq> None then st
      else st\<lparr>cores_per_node := Some (
        if 0 < cores_override then Num (dbl (uint cores_override))
        else if 0 < swf_max_nodes st \<and> 0 < swf_max_procs st \<and> swf_max_nodes st \<le> swf_max_procs st
        then num_floor (num_divide (swf_max_procs st) (swf_max_nodes st))
        else Num (dbl 1))\<rparr>)"

definition swf_job :: "number \<Rightarrow> number \<Rightarrow> number \<Rightarrow> number \<Rightarrow> number \<Rightarrow> number \<Rightarrow> number \<Rightarrow> number \<Rightarrow> exn + swf_record" where
  "swf_job start cores job_number submit_rel run_time procs requested queue_no =
     (let limit_for_run = (if 0 < requested then num_ceil requested else 0);
          run_time_used = (if 0 < limit_for_run \<and> limit_for_run < run_time then limit_for_run else run_time);
          submit = start + submit_rel
      in case to_time (num_floor submit) of Inl e \<Rightarrow> Inl e | Inr submit_sec \<Rightarrow>
        let submit_epoch = (submit_sec, to_single (num_value (submit - Num (dbl submit_sec))));
            nodes_d = num_ceil (num_divide procs cores);
            limit_d = num_ceil (if 0 < requested then requested else run_time)
        in if Num (dbl 4294967295) < nodes_d \<or> Num (dbl 4294967295) < limit_d then Inl Invalid_Argument
           else case to_unsigned nodes_d of Inl e \<Rightarrow> Inl e | Inr nodes \<Rightarrow>
             case to_unsigned limit_d of Inl e \<Rightarrow> Inl e | Inr limit \<Rightarrow>
               let job = (new_job_record submit_epoch (word_of_int nodes) 1 (word_of_int limit))
                           \<lparr>m_actual_run_time := num_value run_time_used\<rparr>
               in Inr (job_record.extend job
                    (swf_record.fields
                       (if 0 \<le> job_number \<and> job_number \<le> Num (dbl 4294967295) then word_of_int (dbl_trunc (num_value job_number)) else 0)
                       (if Num (dbl 1) \<le> queue_no \<and> queue_no \<le> Num (dbl 255) then word_of_int (dbl_trunc (num_value queue_no)) else 0)
                       (run_time_used = NaN))))"

fun swf_numbers :: "'tm text_library \<Rightarrow> string \<Rightarrow> substr_pos list \<Rightarrow> nat list \<Rightarrow> exn + number list" where
  "swf_numbers lib line tokens [] = Inr []"
| "swf_numbers lib line tokens (idx # idxs) =
     (case parse_swf_num lib (substr line (tokens ! (idx - 1))) of
        Inl e \<Rightarrow> Inl e
      | Inr v \<Rightarrow> (case swf_numbers lib line tokens idxs of Inl e \<Rightarrow> Inl e | Inr vs \<Rightarrow> Inr (v # vs)))"

text \<open>A data line, with the divisor fixed: a record, or none when the job has no processors or no run time.\<close>

definition swf_row :: "'tm text_library \<Rightarrow> swf_state \<Rightarrow> string \<Rightarrow> exn + swf_record option" where
  "swf_row lib st line =
     (let tokens = whitespace_separate line in
      if length tokens < 18 then Inl Invalid_Argument
      else case swf_numbers lib line tokens [1, 2, 4, 5, 9, 15] of
        Inl e \<Rightarrow> Inl e
      | Inr vs \<Rightarrow>
          let run_time = vs ! 2; procs = vs ! 3 in
          if procs \<le> 0 \<or> run_time \<le> 0 then Inr None
          else case swf_job (unix_start st) (the (cores_per_node st)) (vs ! 0) (vs ! 1) run_time procs (vs ! 4) (vs ! 5) of
            Inl e \<Rightarrow> Inl e
          | Inr job \<Rightarrow> Inr (Some job))"

fun swf_rows ::
  "'tm text_library \<Rightarrow> 32 word \<Rightarrow> nat \<Rightarrow> swf_state \<Rightarrow> swf_record list \<Rightarrow> string list \<Rightarrow> exn + swf_state \<times> swf_record list" where
  "swf_rows lib cores_override max_count st records [] = Inr (st, records)"
| "swf_rows lib cores_override max_count st records (l # lines) =
     (if max_count \<le> swf_accepted st then Inr (st, records)
      else let line = strip_trailing l in
        if line = [] then swf_rows lib cores_override max_count st records lines
        else if hd line = CHR '';'' then swf_rows lib cores_override max_count (swf_metadata lib line st) records lines
        else let st = fix_divisor cores_override st in
          case swf_row lib st line of
            Inl e \<Rightarrow> Inl e
          | Inr None \<Rightarrow> swf_rows lib cores_override max_count (st\<lparr>swf_skips := swf_skips st + 1\<rparr>) records lines
          | Inr (Some job) \<Rightarrow>
              swf_rows lib cores_override max_count (st\<lparr>swf_accepted := swf_accepted st + 1\<rparr>) (records @ [job]) lines)"

definition load_swf ::
  "'tm text_library \<Rightarrow> (string \<Rightarrow> string list option) \<Rightarrow> string \<Rightarrow> data_columns \<Rightarrow> swf_record list \<Rightarrow> nat \<Rightarrow> exn + swf_record list \<times> data_columns" where
  "load_swf lib file fname dc records max_count =
     (case file fname of
        None \<Rightarrow> Inl Exit_Failure
      | Some lines \<Rightarrow>
          (case swf_rows lib (m_cores_per_node_override dc) (count_limit max_count)
                  \<lparr>unix_start = 0, swf_max_nodes = 0, swf_max_procs = 0, cores_per_node = None, swf_accepted = 0, swf_skips = 0\<rparr> records lines of
             Inl e \<Rightarrow> Inl e
           | Inr (st, loaded) \<Rightarrow>
               let first_new = length records
               in (case to_unsigned (case cores_per_node st of None \<Rightarrow> Num (dbl 1) | Some c \<Rightarrow> c) of
                    Inl e \<Rightarrow> Inl e
                  | Inr cores \<Rightarrow>
                      Inr (take first_new loaded @ sort_key m_t_submit (drop first_new loaded),
                           dc\<lparr>m_swf_cores_per_node := word_of_int cores, m_swf_skipped := swf_skips st\<rparr>))))"

end
