(* ===== verification/Parse_Laws.thy ===== *)
theory Parse_Laws
  imports Parse_Utils
begin

text \<open>
  The laws of the text routines: \<^verbatim>\<open>trim\<close> is the two-sided \<open>dropWhile\<close>, \<^verbatim>\<open>comma_separate\<close> and \<^verbatim>\<open>whitespace_separate\<close> cut a
  line into the fields and words it was joined from, \<^verbatim>\<open>parse_unsigned\<close> accepts exactly the decimal numbers in range when the
  text holds no white space but blanks, and quoted commas are replaced whatever the escapes say.
\<close>

section \<open>Trimming\<close>

lemma rev_dropWhile_rev: "rev (dropWhile p (rev m)) = take (length m - length (takeWhile p (rev m))) m"
  by (simp add: dropWhile_eq_drop rev_drop)

lemma length_takeWhile_last: "\<exists>c\<in>set m. \<not> p c \<Longrightarrow> length (takeWhile p m) < length m"
  by (induction m) auto

lemma trim_chars_eq:
  "trim_chars str ws = rev (dropWhile (\<lambda>c. c \<in> set ws) (rev (dropWhile (\<lambda>c. c \<in> set ws) str)))"
proof -
  let ?w = "\<lambda>c. c \<in> set ws"
  let ?b = "takeWhile ?w str" and ?m = "dropWhile ?w str"
  let ?e = "takeWhile ?w (rev str)"
  have split: "str = ?b @ ?m" by simp
  show ?thesis
  proof (cases "?m = []")
    case True
    then have "length ?b = length str" by (metis split append_Nil2)
    then show ?thesis unfolding True by (simp add: trim_chars_def find_first_not_of_def Let_def)
  next
    case False
    then have nb: "length ?b < length str" by (metis length_append length_greater_0_conv less_add_same_cancel1 split)
    have hm: "\<not> ?w (hd ?m)" using hd_dropWhile[OF False] .
    have rm: "rev str = rev ?m @ rev ?b" by (subst split) (simp only: rev_append)
    have ex: "\<exists>c\<in>set (rev ?m). \<not> ?w c" unfolding set_rev using hm hd_in_set[OF False] by (rule bexI)
    have "takeWhile ?w (rev str) = takeWhile ?w (rev ?m)" unfolding rm using ex by (auto intro: takeWhile_append1)
    then have e: "length ?e \<le> length ?m - 1" "?e = takeWhile ?w (rev ?m)"
    proof -
      show e': "?e = takeWhile ?w (rev ?m)" by fact
      have "length (takeWhile ?w (rev ?m)) < length (rev ?m)" by (rule length_takeWhile_last[OF ex])
      then show "length ?e \<le> length ?m - 1" unfolding e' by simp
    qed
    have len: "length str = length ?b + length ?m" by (metis length_append split)
    have ne: "length ?e \<noteq> length str" using e(1) len False by (cases ?m) auto
    have last: "find_last_not_of str ws = Some (length str - 1 - length ?e)"
      using ne by (simp add: find_last_not_of_def find_last_where_def Let_def)
    have first: "find_first_not_of str ws = Some (length ?b)" using nb by (simp add: find_first_not_of_def Let_def)
    have d: "drop (length ?b) str = ?m" by (metis append_eq_conv_conj split)
    have n: "length str - 1 - length ?e - length ?b + 1 = length ?m - length ?e" using e(1) len False by (cases ?m) auto
    have "rev (dropWhile ?w (rev ?m)) = take (length ?m - length ?e) ?m" unfolding e(2) by (rule rev_dropWhile_rev)
    then show ?thesis unfolding trim_chars_def first last option.case substr_def fst_conv snd_conv n d ..
  qed
qed

lemma trim_eq: "trim str = rev (dropWhile blank (rev (dropWhile blank str)))"
proof -
  have "(\<lambda>c. c \<in> set [CHR 0x20, CHR 0x09]) = blank" by (auto simp: blank_def fun_eq_iff)
  then show ?thesis unfolding trim_def trim_chars_eq by simp
qed

lemma trim_clean: "list_all (\<lambda>c. \<not> blank c) str \<Longrightarrow> trim str = str"
proof -
  assume a: "list_all (\<lambda>c. \<not> blank c) str"
  then have "dropWhile blank str = str" "dropWhile blank (rev str) = rev str"
    by (metis dropWhile_eq_self_iff hd_in_set list_all_iff set_rev)+
  then show ?thesis by (simp add: trim_eq)
qed

section \<open>Fields\<close>

fun split_commas :: "string \<Rightarrow> string list" where
  "split_commas [] = [[]]"
| "split_commas (c # cs) = (if c = CHR '','' then [] # split_commas cs else (c # hd (split_commas cs)) # tl (split_commas cs))"

fun join_commas :: "string list \<Rightarrow> string" where
  "join_commas [] = []"
| "join_commas [f] = f"
| "join_commas (f # g # fs) = f @ CHR '','' # join_commas (g # fs)"

lemma split_commas_ne [simp]: "split_commas cs \<noteq> []"
  by (cases cs) auto

lemma comma_loop_split:
  "comma_loop cs (length pre) s = (ret, s') \<Longrightarrow> s \<le> length pre \<Longrightarrow>
    s' \<le> length pre + length cs \<and>
    map (substr (pre @ cs)) ret @ [drop s' (pre @ cs)] = (drop s pre @ hd (split_commas cs)) # tl (split_commas cs)"
proof (induction cs arbitrary: pre s ret s')
  case Nil
  then show ?case by simp
next
  case (Cons c cs)
  have l: "length pre + 1 = length (pre @ [c])" by simp
  show ?case
  proof (cases "c = CHR '',''")
    case True
    obtain r t where rt: "comma_loop cs (length (pre @ [c])) (length (pre @ [c])) = (r, t)" by fastforce
    note rt' = rt[unfolded length_append list.size add_0 add_0_right One_nat_def add_Suc_right]
    have ret: "ret = (s, length pre - s) # r" "s' = t"
      using Cons.prems(1) True rt' by auto
    have "substr (pre @ c # cs) (s, length pre - s) = drop s pre" using Cons.prems(2) by (simp add: substr_def)
    then show ?thesis using Cons.IH[OF rt] True unfolding ret by (simp add: hd_Cons_tl[OF split_commas_ne] del: hd_Cons_tl) 
  next
    case False
    then have "comma_loop cs (length (pre @ [c])) s = (ret, s')" using Cons.prems(1) by simp
    from Cons.IH[OF this] show ?thesis using Cons.prems(2) False by simp
  qed
qed

lemma comma_loop_last: "comma_loop cs i s = (ret, s') \<Longrightarrow> cs \<noteq> [] \<Longrightarrow> List.last cs = CHR '','' \<Longrightarrow> s' = i + length cs"
proof (induction cs arbitrary: i s ret s')
  case (Cons c cs)
  show ?case
  proof (cases "cs = []")
    case True
    then show ?thesis using Cons.prems by auto
  next
    case False
    then show ?thesis using Cons.IH Cons.prems by (fastforce split: prod.splits if_splits)
  qed
qed simp

lemma comma_fields: "str \<noteq> [] \<Longrightarrow> map (substr str) (comma_separate str) = split_commas str"
proof -
  assume ne: "str \<noteq> []"
  obtain ret s where l: "comma_loop str (length ([] :: string)) 0 = (ret, s)" by fastforce
  note sp = comma_loop_split[OF l le0, unfolded append_Nil]
  have "map (substr str) (comma_separate str) = map (substr str) ret @ [drop s str]"
    using ne l comma_loop_last[OF l ne] sp by (auto simp: comma_separate_def substr_def)
  also have "\<dots> = split_commas str" using sp by simp
  finally show ?thesis .
qed

lemma length_comma_separate: "str \<noteq> [] \<Longrightarrow> length (comma_separate str) = length (split_commas str)"
  using arg_cong[OF comma_fields, of str length] by simp

lemma split_single: "CHR '','' \<notin> set f \<Longrightarrow> split_commas f = [f]"
  by (induction f) auto

lemma split_append: "CHR '','' \<notin> set f \<Longrightarrow> split_commas (f @ CHR '','' # cs) = f # split_commas cs"
  by (induction f) auto

lemma split_join: "fs \<noteq> [] \<Longrightarrow> \<forall>f\<in>set fs. CHR '','' \<notin> set f \<Longrightarrow> split_commas (join_commas fs) = fs"
  by (induction fs rule: join_commas.induct) (auto simp: split_single split_append)

lemma join_Cons: "fs \<noteq> [] \<Longrightarrow> join_commas (f # fs) = f @ CHR '','' # join_commas fs"
  by (cases fs) auto

lemma join_char: "join_commas ((c # f) # fs) = c # join_commas (f # fs)"
  by (cases fs) auto

lemma join_split: "join_commas (split_commas cs) = cs"
  by (induction cs) (simp_all add: join_Cons join_char hd_Cons_tl)

lemma fields_roundtrip:
  assumes "join_commas fs \<noteq> []" "\<forall>f\<in>set fs. CHR '','' \<notin> set f"
  shows "map (substr (join_commas fs)) (comma_separate (join_commas fs)) = fs"
proof -
  have "fs \<noteq> []" using assms(1) by auto
  then show ?thesis using comma_fields[OF assms(1)] split_join[OF _ assms(2)] by simp
qed

section \<open>Words\<close>

fun split_words :: "string \<Rightarrow> string list" where
  "split_words [] = []"
| "split_words (c # cs) =
     (if blank c then split_words cs
      else case cs of
        [] \<Rightarrow> [[c]]
      | d # ds \<Rightarrow> if blank d then [c] # split_words cs else (c # hd (split_words cs)) # tl (split_words cs))"

lemma split_words_drop: "split_words (dropWhile blank cs) = split_words cs"
  by (induction cs) auto

lemma split_words_take:
  "r \<noteq> [] \<Longrightarrow> \<not> blank (hd r) \<Longrightarrow>
    split_words r = takeWhile (\<lambda>c. \<not> blank c) r # split_words (dropWhile (\<lambda>c. \<not> blank c) r)"
proof (induction r)
  case (Cons c r)
  then show ?case by (cases r) auto
qed simp

lemma whitespace_loop_words: "map (substr (pre @ rest)) (whitespace_loop rest (length pre)) = split_words rest"
proof (induction rest "length pre" arbitrary: pre rule: whitespace_loop.induct)
  case (1 rest)
  define r where "r = dropWhile blank rest"
  define b where "b = takeWhile blank rest"
  define w where "w = takeWhile (\<lambda>c. \<not> blank c) r"
  have rest: "rest = b @ r" unfolding b_def r_def by simp
  show ?case
  proof (cases "r = []")
    case True
    then show ?thesis using split_words_drop[of rest] unfolding r_def[symmetric] True
      by (subst whitespace_loop.simps) (simp add: True Let_def flip: r_def)
  next
    case False
    have hr: "\<not> blank (hd r)" using hd_dropWhile False unfolding r_def by blast
    define d where "d = dropWhile (\<lambda>c. \<not> blank c) r"
    have r: "r = w @ d" unfolding w_def d_def by simp
    have dr: "drop (length w) r = d" unfolding r by simp
    have i: "length pre + (length rest - length r) + length w = length (pre @ b @ w)" unfolding rest by simp
    have pre: "pre @ rest = (pre @ b @ w) @ d" unfolding rest r by simp
    have ih: "map (substr ((pre @ b @ w) @ d)) (whitespace_loop d (length (pre @ b @ w))) = split_words d"
      using 1[OF r_def refl False w_def[THEN arg_cong[where f = length]], of "pre @ b @ w"] unfolding dr i by simp
    have at: "length pre + (length rest - length r) = length (pre @ b)" unfolding rest by simp
    have loop: "whitespace_loop rest (length pre) =
        (length (pre @ b), length w) # whitespace_loop d (length (pre @ b @ w))"
      unfolding whitespace_loop.simps[of rest] Let_def r_def[symmetric] w_def[symmetric] dr at
      using False by (simp add: add.assoc del: whitespace_loop.simps)
    have word: "substr ((pre @ b @ w) @ d) (length (pre @ b), length w) = w" by (simp add: substr_def)
    have words: "split_words rest = w # split_words d"
      using split_words_drop[of rest] split_words_take[OF False hr] unfolding r_def[symmetric] w_def d_def by simp
    show ?thesis unfolding loop words list.map pre ih word ..
  qed
qed

lemma whitespace_words: "map (substr str) (whitespace_separate str) = split_words str"
  using whitespace_loop_words[of "[]" str] by (simp add: whitespace_separate_def)

lemma split_words_ok: "\<forall>w\<in>set (split_words cs). w \<noteq> [] \<and> list_all (\<lambda>c. \<not> blank c) w"
proof (induction "length cs" arbitrary: cs rule: less_induct)
  case less
  have l: "length (dropWhile blank cs) \<le> length cs" by (rule length_dropWhile_le)
  show ?case
  proof (cases "dropWhile blank cs = []")
    case True
    then show ?thesis using split_words_drop[of cs] unfolding True by simp
  next
    case False
    define r w where "r = dropWhile blank cs" and "w = takeWhile (\<lambda>c. \<not> blank c) r"
    have h: "r \<noteq> []" "\<not> blank (hd r)" using hd_dropWhile[OF False] False by (simp_all add: r_def)
    then have w: "w \<noteq> []" "list_all (\<lambda>c. \<not> blank c) w"
      unfolding w_def by (cases r, simp_all, auto simp: list_all_iff dest: set_takeWhileD)
    have "length r = length w + length (dropWhile (\<lambda>c. \<not> blank c) r)"
      unfolding w_def length_append[symmetric] takeWhile_dropWhile_id ..
    then have "length (dropWhile (\<lambda>c. \<not> blank c) r) < length cs" using w(1) l unfolding r_def[symmetric] by (cases w) auto
    then show ?thesis using less split_words_take[OF h] split_words_drop[of cs] w unfolding r_def[symmetric] w_def[symmetric] by simp
  qed
qed

section \<open>Quotations\<close>

lemma length_quote_loop: "length (quote_loop cs q) = length cs"
  by (induction cs arbitrary: q) (simp_all add: case_prod_beta)

text \<open>The escape is cleared before the tests that read it: the scan is the same whatever the escapes.\<close>

lemma quote_step_esc: "c \<noteq> CHR 0x5C \<Longrightarrow> quote_step c (q\<lparr>qs_esc := e\<rparr>) = quote_step c q"
  by (simp add: quote_step_def Let_def)

lemma quote_loop_esc: "quote_loop cs (q\<lparr>qs_esc := e\<rparr>) = quote_loop cs q"
proof (induction cs arbitrary: q e)
  case (Cons c cs)
  show ?case
  proof (cases "c = CHR 0x5C")
    case True
    have "quote_loop cs (q\<lparr>qs_esc := \<not> e\<rparr>) = quote_loop cs (q\<lparr>qs_esc := \<not> qs_esc q\<rparr>)" by (simp only: Cons.IH)
    then show ?thesis using True by (simp add: quote_step_def)
  next
    case False
    then show ?thesis by (simp add: quote_step_esc)
  qed
qed simp

section \<open>Numbers\<close>

lemma find_first_not_of_blank:
  "find_first_not_of str [CHR 0x20, CHR 0x09] =
    (if dropWhile blank str = [] then None else Some (length (takeWhile blank str)))"
  "dropWhile blank str \<noteq> [] \<Longrightarrow> str ! length (takeWhile blank str) = hd (dropWhile blank str)"
proof -
  have w: "(\<lambda>c. c \<in> set [CHR 0x20, CHR 0x09]) = blank" by (auto simp: blank_def fun_eq_iff)
  have split: "str = takeWhile blank str @ dropWhile blank str" by simp
  show "find_first_not_of str [CHR 0x20, CHR 0x09] =
    (if dropWhile blank str = [] then None else Some (length (takeWhile blank str)))"
    unfolding find_first_not_of_def w Let_def
    by (metis append_Nil2 append_eq_append_conv length_append split)
  show "str ! length (takeWhile blank str) = hd (dropWhile blank str)" if "dropWhile blank str \<noteq> []"
    by (subst (1) split) (simp only: nth_append_length_plus[of _ _ 0, unfolded add_0_right] hd_conv_nth[OF that])
qed

fun decimal :: "nat \<Rightarrow> string" where
  "decimal n = (if n < 10 then [char_of (48 + n)] else decimal (n div 10) @ [char_of (48 + n mod 10)])"

declare decimal.simps [simp del]

lemma decimal_value_append: "decimal_value v (cs @ [c]) = 10 * decimal_value v cs + digit_value c"
  by (induction cs arbitrary: v) simp_all

lemma digit_char: "n < 10 \<Longrightarrow> is_digit (char_of (48 + n)) \<and> digit_value (char_of (48 + n)) = n"
  by (simp add: is_digit_def digit_value_def)

lemma decimal_ok: "list_all is_digit (decimal n) \<and> decimal n \<noteq> [] \<and> decimal_value 0 (decimal n) = n"
proof (induction n rule: decimal.induct)
  case (1 n)
  show ?case
  proof (cases "n < 10")
    case True
    then show ?thesis using digit_char[OF True] by (subst (1 2 3) decimal.simps) simp
  next
    case False
    have "n mod 10 < 10" by simp
    then show ?thesis using 1[OF False] False digit_char[of "n mod 10"]
      by (subst (1 2 3) decimal.simps) (simp add: decimal_value_append)
  qed
qed

lemma is_digit_not: "is_digit c \<Longrightarrow> \<not> blank c \<and> \<not> is_space c \<and> c \<noteq> CHR ''-'' \<and> c \<noteq> CHR ''+'' \<and> c \<noteq> CHR '',''"
  by (auto simp: is_digit_def blank_def is_space_def)

lemma length_takeWhile_all: "length (takeWhile p xs) = length xs \<longleftrightarrow> list_all p xs"
  by (induction xs) auto

lemma stoull_prefix:
  assumes "list_all is_space b" "d \<noteq> []" "\<not> is_space (hd d)" "hd d \<noteq> CHR ''-''" "hd d \<noteq> CHR ''+''"
  shows "stoull (b @ d) = (let ds = takeWhile is_digit d; v = decimal_value 0 ds in
    if ds = [] then Inl Invalid_Argument else if 2 ^ 64 \<le> v then Inl Out_Of_Range else Inr (v, length b + length ds))"
proof -
  have "dropWhile is_space (b @ d) = d" using assms(1-3) by (cases d) (auto simp: list_all_iff dropWhile_append)
  then show ?thesis using assms(2,4,5) by (simp add: stoull_def after_sign_def is_negative_def Let_def)
qed

lemma parse_unsigned_prefix:
  assumes b: "list_all blank b" and d: "d \<noteq> []" "\<not> blank (hd d)" "\<not> is_space (hd d)" and m: "max_value < 2 ^ 64"
  shows "parse_unsigned (b @ d) max_value =
    (if list_all is_digit d \<and> decimal_value 0 d \<le> max_value then Inr (decimal_value 0 d) else Inl Invalid_Argument)"
proof -
  have drop: "dropWhile blank (b @ d) = d" "takeWhile blank (b @ d) = b"
    using b d by (cases d; auto simp: list_all_iff dropWhile_append takeWhile_append)+
  have first: "find_first_not_of (b @ d) [CHR 0x20, CHR 0x09] = Some (length b)" "(b @ d) ! length b = hd d"
    using find_first_not_of_blank[of "b @ d"] d(1) unfolding drop by simp_all
  have bs: "list_all is_space b" using b by (auto simp: list_all_iff blank_def is_space_def)
  show ?thesis
  proof (cases "hd d = CHR ''-'' \<or> hd d = CHR ''+''")
    case True
    then have "\<not> list_all is_digit d" using d(1) is_digit_not by (metis hd_in_set list_all_iff)
    then show ?thesis using True by (simp add: parse_unsigned_def first)
  next
    case False
    then have st: "stoull (b @ d) = (let ds = takeWhile is_digit d; v = decimal_value 0 ds in
        if ds = [] then Inl Invalid_Argument else if 2 ^ 64 \<le> v then Inl Out_Of_Range else Inr (v, length b + length ds))"
      using stoull_prefix[OF bs d(1,3)] by simp
    show ?thesis
    proof (cases "list_all is_digit d")
      case True
      then have tk: "takeWhile is_digit d = d" by (simp add: list_all_iff)
      show ?thesis using True False st[unfolded tk] m d(1) by (simp add: parse_unsigned_def first Let_def)
    next
      case nd: False
      then have "length (takeWhile is_digit d) \<noteq> length d" unfolding length_takeWhile_all .
      then show ?thesis using nd False st by (simp add: parse_unsigned_def first Let_def)
    qed
  qed
qed

lemma parse_unsigned_cases:
  assumes sp: "\<forall>c\<in>set str. is_space c \<longrightarrow> blank c" and m: "max_value < 2 ^ 64"
  shows "parse_unsigned str max_value = (let d = dropWhile blank str in
    if d \<noteq> [] \<and> list_all is_digit d \<and> decimal_value 0 d \<le> max_value then Inr (decimal_value 0 d) else Inl Invalid_Argument)"
proof (cases "dropWhile blank str = []")
  case True
  then show ?thesis using find_first_not_of_blank(1)[of str] by (simp add: parse_unsigned_def del: dropWhile_eq_Nil_conv)
next
  case False
  have b: "list_all blank (takeWhile blank str)" by (auto simp: list_all_iff dest: set_takeWhileD)
  have hd: "\<not> blank (hd (dropWhile blank str))" using hd_dropWhile[OF False] .
  have "hd (dropWhile blank str) \<in> set str" using hd_in_set[OF False] set_dropWhileD by metis
  then have "\<not> is_space (hd (dropWhile blank str))" using sp hd by blast
  from parse_unsigned_prefix[OF b False hd this m] show ?thesis using False by (simp add: Let_def del: dropWhile_eq_Nil_conv)
qed

lemma parse_decimal: "v \<le> max_value \<Longrightarrow> max_value < 2 ^ 64 \<Longrightarrow> parse_unsigned (decimal v) max_value = Inr v"
proof -
  assume a: "v \<le> max_value" "max_value < 2 ^ 64"
  note ok = decimal_ok[of v]
  then have sp: "\<forall>c\<in>set (decimal v). is_space c \<longrightarrow> blank c" using is_digit_not by (auto simp: list_all_iff)
  have "dropWhile blank (decimal v) = decimal v"
    using ok is_digit_not by (metis dropWhile_eq_self_iff hd_in_set list_all_iff)
  then show ?thesis using parse_unsigned_cases[OF sp a(2)] ok a(1) by simp
qed

lemma set_by_decimal: "set_by_unsigned (decimal (unat w)) = Inr (w :: 32 word)"
proof -
  have "unat w \<le> 4294967295" using unsigned_less[of w, where 'a = nat] by simp
  then show ?thesis by (simp add: set_by_unsigned_def parse_decimal)
qed

text \<open>A carriage return hides a sign from the check: \<^verbatim>\<open>std::stoull\<close> skips it and accepts the sign.\<close>

lemma hidden_sign:
  "parse_unsigned (CHR 0x0D # ''-18446744073709551615'') 4294967295 = Inr 1"
  by (simp add: parse_unsigned_def find_first_not_of_def stoull_def is_space_def is_digit_def digit_value_def after_sign_def is_negative_def Let_def)

text \<open>A zone offset without its colon is read as whole hours and a single digit of minutes.\<close>

lemma offset_without_colon: "parse_timezone_offset ''+0530'' = Inr 18000"
  by (simp add: parse_timezone_offset_def stoi_def substr_def is_space_def is_digit_def digit_value_def after_sign_def is_negative_def Let_def)

lemma offset_with_colon: "parse_timezone_offset ''+05:30'' = Inr 19800"
  by (simp add: parse_timezone_offset_def stoi_def substr_def is_space_def is_digit_def digit_value_def after_sign_def is_negative_def Let_def)

end
