(* ===== verification/Loader_Laws.thy ===== *)
theory Loader_Laws
  imports Loaders Parse_Laws
begin

text \<open>
  The laws of the loaders: a capacity schedule is strictly increasing and within the machine, and is read back from the text it
  was written as; a job read from a CSV file is valid for the simulation, which runs no job past its limit, and so is a job
  read from an SWF log unless the run time of its line reads as NaN; the
  columns of a simple trace are found by their names, in any order.
\<close>

section \<open>Capacity schedule\<close>

definition schedule_ok :: "num_nodes \<Rightarrow> capacity_change list \<Rightarrow> bool" where
  "schedule_ok m changes \<longleftrightarrow> sorted_wrt (<) (map cc_time changes) \<and> (\<forall>c\<in>set changes. cc_total_nodes c \<le> m)"

lemma sorted_snoc: "sorted_wrt (<) xs \<Longrightarrow> xs = [] \<or> List.last xs < (x :: 'a::linorder) \<Longrightarrow> sorted_wrt (<) (xs @ [x])"
  by (cases xs rule: rev_cases) (auto simp: sorted_wrt_append)

lemma schedule_ok_snoc:
  assumes "schedule_ok m changes" "changes = [] \<or> cc_time (List.last changes) < cc_time c" "cc_total_nodes c \<le> m"
  shows "schedule_ok m (changes @ [c])"
proof -
  have "map cc_time changes = [] \<or> List.last (map cc_time changes) < cc_time c" using assms(2) by (cases changes rule: rev_cases) auto
  then show ?thesis using assms sorted_snoc[of "map cc_time changes" "cc_time c"] by (auto simp: schedule_ok_def)
qed

lemma capacity_row_ok:
  assumes "capacity_row lib tc nc m enc changes line = Inr (enc', c)" "schedule_ok m changes"
  shows "schedule_ok m (changes @ [c])"
proof (rule schedule_ok_snoc[OF assms(2)])
  show "changes = [] \<or> cc_time (List.last changes) < cc_time c" "cc_total_nodes c \<le> m"
    using assms(1) by (auto simp: capacity_row_def Let_def split: if_splits sum.splits)
qed

lemma capacity_rows_ok:
  "capacity_rows lib tc nc m enc changes lines = Inr res \<Longrightarrow> schedule_ok m changes \<Longrightarrow> schedule_ok m res"
  by (induction lines arbitrary: enc changes) (auto split: if_splits sum.splits prod.splits dest: capacity_row_ok)

lemma outlook_of_schedule:
  "schedule_ok m changes \<Longrightarrow> outlook_ok (set_capacity_outlook nodes occ (drop k changes) s)"
  by (simp add: schedule_ok_def outlook_ok_def set_capacity_outlook_def drop_map[symmetric] sorted_wrt_drop)

lemma load_capacity_ok:
  assumes "load_capacity_schedule lib file fname m = Inr changes"
  shows "schedule_ok m changes \<and> (changes = [] \<longleftrightarrow> fname = [])"
  using assms capacity_rows_ok[of lib _ _ m None "[]" _ changes]
  by (auto simp: load_capacity_schedule_def schedule_ok_def split: if_splits option.splits list.splits sum.splits)

text \<open>A cell whose conversion to a time is undefined: it reads whole as NaN, or as a number that \<^verbatim>\<open>time_t\<close> cannot hold.\<close>

definition undefined_time :: "'tm text_library \<Rightarrow> string \<Rightarrow> bool" where
  "undefined_time lib cell \<longleftrightarrow>
     (case tl_stod lib cell of Inl e \<Rightarrow> False | Inr (v, pos) \<Rightarrow> pos = length cell \<and> to_time v = Inl Undefined_Conversion)"

text \<open>The text library throws the exceptions of C++.\<close>

definition throws_only :: "'tm text_library \<Rightarrow> bool" where
  "throws_only lib \<longleftrightarrow> (\<forall>cell e. tl_stod lib cell = Inl e \<longrightarrow> \<not> is_undefined e)"

lemma stoi_throws: "stoi str = Inl e \<Longrightarrow> e = Invalid_Argument \<or> e = Out_Of_Range"
  by (auto simp: stoi_def Let_def split: if_splits)

lemma calendar_throws:
  "convert_time lib cell = Inl e \<Longrightarrow> \<not> is_undefined e"
  "parse_time_with_timezone lib cell = Inl e \<Longrightarrow> \<not> is_undefined e"
  by (auto simp: convert_time_def parse_time_with_timezone_def parse_timezone_offset_def is_undefined_def Let_def
      split: option.splits if_splits sum.splits prod.splits dest!: stoi_throws)

lemma set_by_epoch_undefined:
  assumes "throws_only lib" "set_by_epoch lib cell enc = Inl e" "is_undefined e"
  shows "e = Undefined_Conversion \<and> undefined_time lib cell"
proof (cases enc)
  case EPOCH
  then show ?thesis using assms to_time_error
    by (auto simp: set_by_epoch_def undefined_time_def throws_only_def is_undefined_def split: if_splits sum.splits prod.splits)
next
  case CALENDAR
  then show ?thesis using assms(2,3) calendar_throws[of lib cell]
    by (auto simp: set_by_epoch_def split: if_splits sum.splits prod.splits)
qed

lemma capacity_row_undefined:
  assumes "throws_only lib" "capacity_row lib tc nc m enc changes line = Inl e" "is_undefined e"
  shows "e = Undefined_Conversion \<and> tc < length (comma_separate line) \<and>
    undefined_time lib (trim (substr line (comma_separate line ! tc)))"
  using assms(2,3) set_by_epoch_undefined[OF assms(1)]
  by (auto simp: capacity_row_def Let_def rethrown_def is_undefined_def set_by_unsigned_def parse_unsigned_def
      split: if_splits sum.splits option.splits prod.splits)

lemma capacity_rows_undefined:
  "throws_only lib \<Longrightarrow> capacity_rows lib tc nc m enc changes lines = Inl e \<Longrightarrow> is_undefined e \<Longrightarrow>
    e = Undefined_Conversion \<and> (\<exists>line\<in>set lines. tc < length (comma_separate line) \<and>
      undefined_time lib (trim (substr line (comma_separate line ! tc))))"
  by (induction lines arbitrary: enc changes)
    (auto split: if_splits sum.splits prod.splits dest: capacity_row_undefined)

text \<open>The time cells of a schedule file.\<close>

definition time_cells :: "string list \<Rightarrow> string list" where
  "time_cells lines = (case lines of [] \<Rightarrow> [] | h # rows \<Rightarrow>
     (case first_index ''time'' (header_names h) of
        None \<Rightarrow> []
      | Some k \<Rightarrow> map (\<lambda>row. trim (substr row (comma_separate row ! k))) (filter (\<lambda>row. k < length (comma_separate row)) rows)))"

lemma load_capacity_undefined:
  assumes "throws_only lib" "load_capacity_schedule lib file fname m = Inl e" "is_undefined e"
  shows "e = Undefined_Conversion \<and> (\<exists>lines. file fname = Some lines \<and> (\<exists>cell\<in>set (time_cells lines). undefined_time lib cell))"
proof -
  obtain h rows k nc where f: "file fname = Some (h # rows)" "first_index ''time'' (header_names h) = Some k"
    "capacity_rows lib k nc m None [] rows = Inl e"
    using assms(2,3) by (auto simp: load_capacity_schedule_def is_undefined_def split: if_splits option.splits list.splits sum.splits)
  from capacity_rows_undefined[OF assms(1) f(3) assms(3)] f(1,2) show ?thesis
    by (fastforce simp: time_cells_def)
qed

text \<open>Writing a schedule: \<open>text\<close> prints a time.\<close>

definition schedule_lines :: "(sim_time \<Rightarrow> string) \<Rightarrow> capacity_change list \<Rightarrow> string list" where
  "schedule_lines time_text changes =
     ''time,total_nodes'' # map (\<lambda>c. join_commas [time_text (cc_time c), decimal (unat (cc_total_nodes c))]) changes"

definition plain_text :: "string \<Rightarrow> bool" where
  "plain_text f \<longleftrightarrow> f \<noteq> [] \<and> list_all (\<lambda>c. \<not> is_space c \<and> c \<noteq> CHR '','') f"

lemma plain_textD:
  assumes "plain_text f"
  shows "trim f = f" "CHR '','' \<notin> set f" "f \<noteq> []" "\<not> blank (hd f)"
proof -
  have "list_all (\<lambda>c. \<not> blank c) f" using assms by (auto simp: plain_text_def list_all_iff is_space_def blank_def)
  then show "trim f = f" by (rule trim_clean)
  show "CHR '','' \<notin> set f" "f \<noteq> []" using assms by (auto simp: plain_text_def list_all_iff)
  then show "\<not> blank (hd f)" using \<open>list_all _ f\<close> by (simp add: list_all_iff)
qed

lemma trim_Nil: "trim str = [] \<longleftrightarrow> list_all blank str"
proof -
  have "list_all blank (dropWhile blank str) \<longleftrightarrow> list_all blank str" by (induction str) auto
  then show ?thesis by (simp add: trim_eq list_all_iff)
qed

lemma plain_decimal: "plain_text (decimal n)"
  using decimal_ok[of n] is_digit_not by (auto simp: plain_text_def list_all_iff)

lemma fields_at: "str \<noteq> [] \<Longrightarrow> i < length (split_commas str) \<Longrightarrow> substr str (comma_separate str ! i) = split_commas str ! i"
  using comma_fields[of str] length_comma_separate[of str] by (metis nth_map)

lemma plain_join: "plain_text f \<Longrightarrow> plain_text g \<Longrightarrow> split_commas (join_commas [f, g]) = [f, g] \<and> join_commas [f, g] \<noteq> []"
  using split_join[of "[f, g]"] plain_textD by auto

text \<open>A time that a timestamp holds: the seconds fit \<^verbatim>\<open>time_t\<close> and the fraction its single precision.\<close>

definition fits_timestamp :: "sim_time \<Rightarrow> bool" where
  "fits_timestamp t \<longleftrightarrow> to_time (Num t) = Inr (fst (to_epoch t)) \<and> convert_epoch (to_epoch t) = t"

lemma capacity_row_written:
  assumes t: "plain_text (text t)" "tl_stod lib (text t) = Inr (Num t, length (text t))" "fits_timestamp t"
    and n: "n \<le> m" and prev: "changes \<noteq> [] \<Longrightarrow> cc_time (List.last changes) < t" and enc: "enc = None \<or> enc = Some EPOCH"
  shows "capacity_row lib 0 1 m enc changes (join_commas [text t, decimal (unat n)]) = Inr (EPOCH, \<lparr>cc_time = t, cc_total_nodes = n\<rparr>)"
proof -
  let ?line = "join_commas [text t, decimal (unat n)]"
  note j = plain_join[OF t(1) plain_decimal[of "unat n"]]
  have vals: "length (comma_separate ?line) = 2" "substr ?line (comma_separate ?line ! 0) = text t"
    "substr ?line (comma_separate ?line ! 1) = decimal (unat n)"
    using j fields_at[of ?line 0] fields_at[of ?line 1] length_comma_separate[of ?line] by (simp_all del: join_commas.simps)
  have e: "(case enc of None \<Rightarrow> detect_timestamp_encoding lib (text t) | Some e \<Rightarrow> e) = EPOCH"
    using enc t(2) by (auto simp: detect_timestamp_encoding_def)
  have s: "set_by_epoch lib (text t) EPOCH = Inr (to_epoch t)"
    using t(2,3) plain_textD(3)[OF t(1)] num_fraction[of t]
    by (simp add: set_by_epoch_def to_epoch_def fits_timestamp_def Let_def del: minus_number.simps)
  have c: "convert_epoch (to_epoch t) = t" using t(3) by (simp add: fits_timestamp_def)
  show ?thesis
    using n prev unfolding capacity_row_def Let_def vals plain_textD(1)[OF t(1)] plain_textD(1)[OF plain_decimal] e s set_by_decimal sum.case c
    by (auto simp: not_le)
qed

lemma capacity_rows_written:
  assumes "\<forall>c\<in>set cs. plain_text (text (cc_time c)) \<and> tl_stod lib (text (cc_time c)) = Inr (Num (cc_time c), length (text (cc_time c))) \<and>
      fits_timestamp (cc_time c)"
    and "schedule_ok m (changes @ cs)" "enc = None \<or> enc = Some EPOCH"
  shows "capacity_rows lib 0 1 m enc changes (map (\<lambda>c. join_commas [text (cc_time c), decimal (unat (cc_total_nodes c))]) cs) = Inr (changes @ cs)"
  using assms
proof (induction cs arbitrary: changes enc)
  case (Cons c cs)
  let ?line = "join_commas [text (cc_time c), decimal (unat (cc_total_nodes c))]"
  have "capacity_row lib 0 1 m enc changes ?line = Inr (EPOCH, \<lparr>cc_time = cc_time c, cc_total_nodes = cc_total_nodes c\<rparr>)"
  proof (rule capacity_row_written)
    show "cc_time (List.last changes) < cc_time c" if "changes \<noteq> []"
      using Cons.prems(2) that by (auto simp: schedule_ok_def sorted_wrt_append)
    show "cc_total_nodes c \<le> m" using Cons.prems(2) by (simp add: schedule_ok_def)
  qed (use Cons.prems in simp_all)
  then have row: "capacity_row lib 0 1 m enc changes ?line = Inr (EPOCH, c)" by (cases c) simp
  have "hd (text (cc_time c)) \<in> set ?line" using plain_textD(3)[of "text (cc_time c)"] Cons.prems(1) by simp
  then have "trim ?line \<noteq> []" using plain_textD(4)[of "text (cc_time c)"] Cons.prems(1) unfolding trim_Nil list_all_iff by auto
  then show ?case using row Cons.IH[of "changes @ [c]" "Some EPOCH"] Cons.prems by (simp del: join_commas.simps)
qed simp

lemma load_capacity_written:
  assumes "\<forall>c\<in>set cs. plain_text (text (cc_time c)) \<and> tl_stod lib (text (cc_time c)) = Inr (Num (cc_time c), length (text (cc_time c))) \<and>
      fits_timestamp (cc_time c)"
    and "schedule_ok m cs" "cs \<noteq> []" "fname \<noteq> []" "file fname = Some (schedule_lines text cs)"
  shows "load_capacity_schedule lib file fname m = Inr cs"
proof -
  have h: "first_index ''time'' (header_names ''time,total_nodes'') = Some 0" "first_index ''total_nodes'' (header_names ''time,total_nodes'') = Some 1"
    by (simp_all add: header_names_def comma_separate_def substr_def trim_def trim_chars_def find_first_not_of_def find_last_not_of_def find_last_where_def Let_def)
  show ?thesis
    using assms(3-5) capacity_rows_written[OF assms(1), of m "[]" None] assms(2)
    by (simp add: load_capacity_schedule_def schedule_lines_def h del: join_commas.simps)
qed

section \<open>Columns in any order\<close>

definition csv_lines :: "string list \<Rightarrow> (string \<Rightarrow> string) list \<Rightarrow> string list" where
  "csv_lines names rows = join_commas names # map (\<lambda>row. join_commas (map row names)) rows"

definition plain_name :: "string \<Rightarrow> bool" where
  "plain_name f \<longleftrightarrow> plain_text f \<and> CHR 0xEF \<notin> set f"

lemma getline_commas_eq: "getline_commas f cs = (f @ hd (split_commas cs)) # tl (split_commas cs)"
  by (induction cs arbitrary: f) (auto simp: hd_Cons_tl)

lemma strip_plain: "plain_text f \<Longrightarrow> strip_trailing f = f"
proof -
  assume a: "plain_text f"
  then have "rev f \<noteq> []" "\<not> trailing_space (hd (rev f))"
    by (auto simp: plain_text_def list_all_iff hd_rev trailing_space_def is_space_def)
  then have "dropWhile trailing_space (rev f) = rev f" by (cases "rev f") auto
  then show ?thesis by (simp add: strip_trailing_def)
qed

lemma join_ne: "names \<noteq> [] \<Longrightarrow> \<forall>n\<in>set names. n \<noteq> [] \<Longrightarrow> join_commas names \<noteq> []"
  by (cases names rule: join_commas.cases) auto

lemma last_join: "names \<noteq> [] \<Longrightarrow> List.last names \<noteq> [] \<Longrightarrow> List.last (join_commas names) = List.last (List.last names)"
  by (induction names rule: join_commas.induct) (auto simp: join_ne split: if_splits dest: arg_cong[where f = length] elim!: join_commas.elims)

lemma set_join: "c \<in> set (join_commas names) \<Longrightarrow> c = CHR '','' \<or> (\<exists>n\<in>set names. c \<in> set n)"
  by (induction names rule: join_commas.induct) auto

lemma strip_join:
  assumes "names \<noteq> []" "\<forall>n\<in>set names. plain_text n"
  shows "strip_trailing (join_commas names) = join_commas names"
proof -
  have l: "plain_text (List.last names)" using assms by simp
  have ne: "join_commas names \<noteq> []" using assms by (intro join_ne) (auto simp: plain_text_def)
  have "List.last (join_commas names) = List.last (List.last names)" using assms(1) l by (intro last_join) (auto simp: plain_text_def)
  moreover have "\<not> trailing_space (List.last (List.last names))"
    using l by (auto simp: plain_text_def list_all_iff trailing_space_def is_space_def)
  ultimately have "\<not> trailing_space (hd (rev (join_commas names)))" by (simp add: hd_rev)
  then have "dropWhile trailing_space (rev (join_commas names)) = rev (join_commas names)" using ne by (cases "rev (join_commas names)") auto
  then show ?thesis by (simp add: strip_trailing_def)
qed

lemma column_names_join:
  assumes "names \<noteq> []" "\<forall>n\<in>set names. plain_name n"
  shows "column_names (drop_byte_order_mark (join_commas names)) = names"
proof -
  have p: "\<forall>n\<in>set names. plain_text n" using assms(2) by (simp add: plain_name_def)
  have "CHR 0xEF \<notin> set (join_commas names)" using assms(2) by (auto simp: plain_name_def dest!: set_join)
  then have "take 3 (join_commas names) \<noteq> [CHR 0xEF, CHR 0xBB, CHR 0xBF]" by (metis in_set_takeD list.set_intros(1))
  then have d: "drop_byte_order_mark (join_commas names) = join_commas names" by (simp add: drop_byte_order_mark_def)
  have "split_commas (join_commas names) = names" using assms(1) p plain_textD(2) by (intro split_join) auto
  then have "getline_commas [] (join_commas names) = names" using assms(1) by (simp add: getline_commas_eq)
  moreover have "map strip_trailing names = names" using p strip_plain by (intro map_idI) auto
  ultimately show ?thesis by (simp add: column_names_def d)
qed

lemma last_index_None: "last_index n k names = None \<longleftrightarrow> n \<notin> set names"
proof (induction names arbitrary: k)
  case (Cons x names)
  then show ?case using Cons.IH[of "k + 1"] by (cases "last_index n (k + 1) names") auto
qed simp

lemma last_index_Some: "last_index n k names = Some i \<Longrightarrow> k \<le> i \<and> i - k < length names \<and> names ! (i - k) = n"
proof (induction names arbitrary: k)
  case (Cons x names)
  show ?case
  proof (cases "last_index n (k + 1) names")
    case None
    then show ?thesis using Cons.prems by (auto split: if_splits)
  next
    case (Some j)
    then show ?thesis using Cons.IH[of "k + 1"] Cons.prems by (auto simp: nth_Cons' Suc_diff_le)
  qed
qed simp

text \<open>Two selections agree when they name the same columns, wherever these are.\<close>

definition same_column :: "string list \<Rightarrow> string list \<Rightarrow> nat \<Rightarrow> nat \<Rightarrow> bool" where
  "same_column names1 names2 i j \<longleftrightarrow> i < length names1 \<and> j < length names2 \<and> names1 ! i = names2 ! j"

definition same_selection :: "string list \<Rightarrow> string list \<Rightarrow> nat \<times> string \<Rightarrow> nat \<times> string \<Rightarrow> bool" where
  "same_selection names1 names2 c d \<longleftrightarrow> snd c = snd d \<and> same_column names1 names2 (fst c) (fst d)"

lemma last_index_same:
  "set names1 = set names2 \<Longrightarrow> rel_option (same_column names1 names2) (last_index n 0 names1) (last_index n 0 names2)"
  using last_index_None[of n 0 names1] last_index_None[of n 0 names2] last_index_Some[of n 0 names1] last_index_Some[of n 0 names2]
  by (cases "last_index n 0 names1"; cases "last_index n 0 names2") (auto simp: same_column_def)

lemma find_column_same:
  "set names1 = set names2 \<Longrightarrow> rel_option (same_column names1 names2) (find_column_optional names1 al) (find_column_optional names2 al)"
proof (induction al)
  case (Cons n al)
  then show ?case using last_index_same[OF Cons.prems, of n]
    by (cases "last_index n 0 names1"; cases "last_index n 0 names2") auto
qed simp

lemma find_columns_same:
  "set names1 = set names2 \<Longrightarrow> rel_sum (=) (list_all2 (same_selection names1 names2)) (find_columns names1 als) (find_columns names2 als)"
proof (induction als)
  case (Cons al als)
  note IH = Cons.IH[OF Cons.prems] and h = find_column_same[OF Cons.prems, of al]
  from IH h show ?case
    by (cases "find_column_optional names1 al"; cases "find_column_optional names2 al";
        cases "find_columns names1 als"; cases "find_columns names2 als") (auto simp: same_selection_def)
qed simp

lemma list_all2_insert_last:
  assumes "list_all2 P xs ys" "xs \<noteq> []" "P a b"
  shows "list_all2 P (butlast xs @ [a, List.last xs]) (butlast ys @ [b, List.last ys])"
proof -
  obtain xs' x where x: "xs = xs' @ [x]" using assms(2) by (cases xs rule: rev_cases) auto
  then obtain ys' y where y: "ys = ys' @ [y]" "list_all2 P xs' ys'" "P x y" using assms(1) by (auto simp: list_all2_append1 list_all2_Cons1)
  show ?thesis using y(2,3) assms(3) unfolding x y(1) by (simp add: list_all2_appendI)
qed

lemma with_queue_same:
  "rel_option (same_column n1 n2) q1 q2 \<Longrightarrow> list_all2 (same_selection n1 n2) c1 c2 \<Longrightarrow> c1 \<noteq> [] \<Longrightarrow>
    list_all2 (same_selection n1 n2) (with_queue q1 c1) (with_queue q2 c2)"
  by (cases q1; cases q2) (auto simp: with_queue_def same_selection_def[of _ _ "(_, ''q_id'')"] intro!: list_all2_insert_last)

lemma with_run_time_same:
  "rel_option (same_column n1 n2) q1 q2 \<Longrightarrow> list_all2 (same_selection n1 n2) c1 c2 \<Longrightarrow>
    list_all2 (same_selection n1 n2) (with_run_time q1 c1) (with_run_time q2 c2)"
  by (cases q1; cases q2) (auto simp: with_run_time_def same_selection_def[of _ _ "(_, ''actual_run_time'')"] intro!: list_all2_appendI)

lemma find_columns_length: "find_columns names als = Inr cols \<Longrightarrow> length cols = length als"
  by (induction als arbitrary: cols) (auto split: option.splits sum.splits)

lemma required_length: "length (required_columns mode) = (if mode = REPLAY then 5 else 3)"
  by (cases mode) (simp_all add: required_columns_def)

lemma selected_columns_same:
  assumes s: "set names1 = set names2"
  shows "rel_sum (=) (list_all2 (same_selection names1 names2)) (selected_columns names1 mode) (selected_columns names2 mode)"
  using find_columns_same[OF s, of "required_columns mode"]
proof (cases rule: rel_sum.cases)
  case (2 c1 c2)
  have "c1 \<noteq> []" using find_columns_length[OF 2(1)] required_length[of mode] by (auto split: if_splits)
  from with_run_time_same[OF find_column_same[OF s] with_queue_same[OF last_index_same[OF s] 2(3) this]] 2(1,2)
  show ?thesis by (simp add: selected_columns_def)
qed (simp add: selected_columns_def)

text \<open>The lookup tables of two selections agree on the queue and refuse the same names.\<close>

abbreviation frame :: "data_columns \<Rightarrow> data_columns" where
  "frame dc \<equiv> dc\<lparr>m_col_by_name := Map.empty, m_queue_idx := 0\<rparr>"

lemma index_columns_same:
  assumes "list_all2 (same_selection n1 n2) c1 c2" "\<forall>n. (m_col_by_name d1 n = None) = (m_col_by_name d2 n = None)" "m_queue_idx d1 = m_queue_idx d2"
  shows "rel_sum (=) (\<lambda>e1 e2. m_queue_idx e1 = m_queue_idx e2 \<and> frame e1 = frame d1 \<and> frame e2 = frame d2)
    (index_columns i c1 d1) (index_columns i c2 d2)"
  using assms
proof (induction arbitrary: i d1 d2 rule: list_all2_induct)
  case (Cons c c1 d c2)
  then have sd: "snd c = snd d" by (simp add: same_selection_def)
  define e1 e2 where
    "e1 = (let dc = d1\<lparr>m_col_by_name := (m_col_by_name d1)(snd c \<mapsto> (fst c, i))\<rparr> in if snd c = ''q_id'' then dc\<lparr>m_queue_idx := i\<rparr> else dc)" and
    "e2 = (let dc = d2\<lparr>m_col_by_name := (m_col_by_name d2)(snd d \<mapsto> (fst d, i))\<rparr> in if snd d = ''q_id'' then dc\<lparr>m_queue_idx := i\<rparr> else dc)"
  have "\<forall>n. (m_col_by_name e1 n = None) = (m_col_by_name e2 n = None)" "m_queue_idx e1 = m_queue_idx e2"
    using Cons.prems sd by (auto simp: e1_def e2_def Let_def)
  note ih = Cons.IH[OF this, of "i + 1"]
  have "frame e1 = frame d1" "frame e2 = frame d2" by (simp_all add: e1_def e2_def Let_def)
  then have "rel_sum (=) (\<lambda>f1 f2. m_queue_idx f1 = m_queue_idx f2 \<and> frame f1 = frame d1 \<and> frame f2 = frame d2)
      (index_columns (i + 1) c1 e1) (index_columns (i + 1) c2 e2)" using ih by simp
  then show ?case using Cons.prems(1) sd by (simp add: e1_def e2_def Let_def)
qed simp

text \<open>A row of plain cells is read cell by cell.\<close>

lemma pick_columns_in:
  "\<forall>c\<in>set cols. fst c < length col_pos \<Longrightarrow> pick_columns col_pos cols = Inr (map (\<lambda>c. col_pos ! fst c) cols)"
  by (induction cols) auto

lemma pick_plain:
  assumes "names \<noteq> []" "\<forall>n\<in>set names. plain_text (row n)" "m_total_columns dc = length names"
    and "\<forall>c\<in>set (m_cols_to_read dc). fst c < length names"
  shows "\<exists>ps. pick_values dc (join_commas (map row names)) = Inr ps \<and>
    map (\<lambda>p. trim (substr (join_commas (map row names)) p)) ps = map (\<lambda>c. row (names ! fst c)) (m_cols_to_read dc)"
proof -
  let ?line = "join_commas (map row names)"
  have pt: "\<forall>f\<in>set (map row names). plain_text f" using assms(2) by simp
  have ne: "?line \<noteq> []" using assms(1) pt by (intro join_ne) (auto simp: plain_text_def)
  have sp: "split_commas ?line = map row names" using assms(1) pt plain_textD(2) by (intro split_join) auto
  have len: "length (comma_separate ?line) = length names" using length_comma_separate[OF ne] sp by simp
  have at: "trim (substr ?line (comma_separate ?line ! i)) = row (names ! i)" if "i < length names" for i
    using fields_at[OF ne, of i] that assms(2) plain_textD(1) unfolding sp by simp
  show ?thesis using assms(3,4) len at by (intro exI[of _ "map (\<lambda>c. comma_separate ?line ! fst c) (m_cols_to_read dc)"])
    (simp add: pick_values_def Let_def pick_columns_in)
qed

definition same_layout :: "string list \<Rightarrow> string list \<Rightarrow> data_columns \<Rightarrow> data_columns \<Rightarrow> bool" where
  "same_layout names1 names2 d1 d2 \<longleftrightarrow> dc_trace_mode d1 = dc_trace_mode d2 \<and> m_has_q_id_column d1 = m_has_q_id_column d2 \<and>
     m_queue_idx d1 = m_queue_idx d2 \<and> m_total_columns d1 = length names1 \<and> m_total_columns d2 = length names2 \<and>
     list_all2 (same_selection names1 names2) (m_cols_to_read d1) (m_cols_to_read d2)"

definition header_mode :: "string list \<Rightarrow> trace_mode" where
  "header_mode names = (if ''begin_time'' \<in> set names then REPLAY else SIMULATION)"

definition header_columns :: "data_columns \<Rightarrow> string list \<Rightarrow> (nat \<times> string) list \<Rightarrow> data_columns" where
  "header_columns dc names cols =
     (case last_index (m_col_to_avoid dc) 0 names of Some i \<Rightarrow> dc\<lparr>m_col_to_avoid_idx := i\<rparr> | None \<Rightarrow> dc)
       \<lparr>dc_trace_mode := header_mode names, m_has_q_id_column := (''q_id'' \<in> set names), m_cols_to_read := cols,
        m_total_columns := length names, m_col_by_name := Map.empty\<rparr>"

lemma check_header_plain:
  assumes "m_trace_format dc = ''simple''" "m_cols_to_read dc \<noteq> []" "fname \<noteq> []"
    and "file fname = Some (csv_lines names rows)" "names \<noteq> []" "\<forall>n\<in>set names. plain_name n"
  shows "check_header file fname dc =
    (if (''begin_time'' \<in> set names) \<noteq> (''end_time'' \<in> set names) then Inl Invalid_Argument
     else case selected_columns names (header_mode names) of
       Inl e \<Rightarrow> Inl e
     | Inr cols \<Rightarrow> (case index_columns 0 cols (header_columns dc names cols) of Inl e \<Rightarrow> Inl e | Inr dc \<Rightarrow> Inr (True, dc)))"
proof -
  have f: "m_trace_format (case last_index (m_col_to_avoid dc) 0 names of Some i \<Rightarrow> dc\<lparr>m_col_to_avoid_idx := i\<rparr> | None \<Rightarrow> dc) = ''simple''"
    using assms(1) by (cases "last_index (m_col_to_avoid dc) 0 names") simp_all
  have u: "m_col_to_avoid_idx_update g (x\<lparr>dc_trace_mode := m\<rparr>) = (m_col_to_avoid_idx_update g x)\<lparr>dc_trace_mode := m\<rparr>" for g x m by simp
  show ?thesis
    using assms(2-4) f
    unfolding check_header_def assms(1,4) csv_lines_def option.case list.case column_names_join[OF assms(5,6)] Let_def
      header_mode_def[symmetric]
    by (auto simp: header_columns_def header_mode_def sort_columns_def split: sum.splits)
qed

lemma rel_sum_case:
  "rel_sum (=) R a b \<Longrightarrow> (\<And>x y. R x y \<Longrightarrow> rel_sum (=) S (f x) (g y)) \<Longrightarrow>
    rel_sum (=) S (case a of Inl e \<Rightarrow> Inl e | Inr x \<Rightarrow> f x) (case b of Inl e \<Rightarrow> Inl e | Inr y \<Rightarrow> g y)"
  by (cases a; cases b) auto

lemma check_header_same:
  assumes dc: "m_trace_format dc = ''simple''" "m_cols_to_read dc \<noteq> []" "fname \<noteq> []"
    and f1: "file1 fname = Some (csv_lines names1 rows)" "names1 \<noteq> []" "\<forall>n\<in>set names1. plain_name n"
    and f2: "file2 fname = Some (csv_lines names2 rows)" "names2 \<noteq> []" "\<forall>n\<in>set names2. plain_name n"
    and s: "set names1 = set names2"
  shows "rel_sum (=) (\<lambda>(b1, d1) (b2, d2). b1 = b2 \<and> same_layout names1 names2 d1 d2) (check_header file1 fname dc) (check_header file2 fname dc)"
proof -
  have m: "header_mode names1 = header_mode names2" using s by (simp add: header_mode_def)
  have step: "rel_sum (=) (\<lambda>(b1, d1) (b2, d2). b1 = b2 \<and> same_layout names1 names2 d1 d2)
      (case index_columns 0 c1 (header_columns dc names1 c1) of Inl e \<Rightarrow> Inl e | Inr dc \<Rightarrow> Inr (True, dc))
      (case index_columns 0 c2 (header_columns dc names2 c2) of Inl e \<Rightarrow> Inl e | Inr dc \<Rightarrow> Inr (True, dc))"
    if c: "list_all2 (same_selection names1 names2) c1 c2" for c1 c2
  proof (rule rel_sum_case[OF index_columns_same[OF c]])
    fix e1 e2
    assume a: "m_queue_idx e1 = m_queue_idx e2 \<and> frame e1 = frame (header_columns dc names1 c1) \<and> frame e2 = frame (header_columns dc names2 c2)"
    have "dc_trace_mode (frame e1) = header_mode names1 \<and> dc_trace_mode (frame e2) = header_mode names2"
      "m_has_q_id_column (frame e1) = (''q_id'' \<in> set names1) \<and> m_has_q_id_column (frame e2) = (''q_id'' \<in> set names2)"
      "m_cols_to_read (frame e1) = c1 \<and> m_cols_to_read (frame e2) = c2"
      "m_total_columns (frame e1) = length names1 \<and> m_total_columns (frame e2) = length names2"
      unfolding conjunct1[OF conjunct2[OF a]] conjunct2[OF conjunct2[OF a]] by (simp_all add: header_columns_def)
    then show "rel_sum (=) (\<lambda>(b1, d1) (b2, d2). b1 = b2 \<and> same_layout names1 names2 d1 d2) (Inr (True, e1)) (Inr (True, e2))"
      using conjunct1[OF a] c m s by (simp add: same_layout_def)
  qed (auto simp: header_columns_def split: option.splits)
  show ?thesis
    unfolding check_header_plain[of dc fname file1 names1 rows, OF dc f1] check_header_plain[of dc fname file2 names2 rows, OF dc f2] s m
    using rel_sum_case[OF selected_columns_same[OF s] step] by simp
qed

lemma read_fields_same:
  assumes "same_layout names1 names2 d1 d2" "names1 \<noteq> []" "names2 \<noteq> []"
    and "\<forall>n\<in>set names1. plain_text (row n)" "\<forall>n\<in>set names2. plain_text (row n)"
  shows "read_fields d1 (join_commas (map row names1)) = read_fields d2 (join_commas (map row names2))"
proof -
  have c: "list_all2 (same_selection names1 names2) (m_cols_to_read d1) (m_cols_to_read d2)" using assms(1) by (simp add: same_layout_def)
  then have in1: "\<forall>c\<in>set (m_cols_to_read d1). fst c < length names1" and in2: "\<forall>c\<in>set (m_cols_to_read d2). fst c < length names2"
    by (auto simp: list_all2_conv_all_nth in_set_conv_nth same_selection_def same_column_def) (metis fst_conv)+
  have eq: "map (\<lambda>c. row (names1 ! fst c)) (m_cols_to_read d1) = map (\<lambda>c. row (names2 ! fst c)) (m_cols_to_read d2)"
    using c by (auto simp: list_all2_conv_all_nth same_selection_def same_column_def intro!: nth_equalityI)
  obtain p1 where p1: "pick_values d1 (join_commas (map row names1)) = Inr p1"
    "map (\<lambda>p. trim (substr (join_commas (map row names1)) p)) p1 = map (\<lambda>c. row (names1 ! fst c)) (m_cols_to_read d1)"
    using pick_plain[OF assms(2,4) _ in1] assms(1) by (auto simp: same_layout_def)
  obtain p2 where p2: "pick_values d2 (join_commas (map row names2)) = Inr p2"
    "map (\<lambda>p. trim (substr (join_commas (map row names2)) p)) p2 = map (\<lambda>c. row (names2 ! fst c)) (m_cols_to_read d2)"
    using pick_plain[OF assms(3,5) _ in2] assms(1) by (auto simp: same_layout_def)
  show ?thesis unfolding read_fields_def p1 p2 sum.case eq using assms(1) by (simp add: same_layout_def)
qed

lemma load_rows_same:
  assumes "same_layout names1 names2 d1 d2" "names1 \<noteq> []" "names2 \<noteq> []"
    and "\<forall>row\<in>set rows. \<forall>n\<in>set names1. plain_text (row n)" "\<forall>row\<in>set rows. \<forall>n\<in>set names2. plain_text (row n)"
  shows "load_rows lib d1 k cnt enc data (map (\<lambda>row. join_commas (map row names1)) rows) =
    load_rows lib d2 k cnt enc data (map (\<lambda>row. join_commas (map row names2)) rows)"
  using assms(4,5)
proof (induction rows arbitrary: cnt enc data)
  case (Cons row rows)
  let ?l1 = "join_commas (map row names1)" and ?l2 = "join_commas (map row names2)"
  have p1: "\<forall>n\<in>set names1. plain_text (row n)" and p2: "\<forall>n\<in>set names2. plain_text (row n)" using Cons.prems by simp_all
  have st: "strip_trailing ?l1 = ?l1" "strip_trailing ?l2 = ?l2" using p1 p2 assms(2,3) by (simp_all add: strip_join)
  have ne: "?l1 \<noteq> []" "?l2 \<noteq> []" using p1 p2 assms(2,3) plain_textD(3) by (intro join_ne, simp, force)+
  have "csv_row lib d1 enc ?l1 = csv_row lib d2 enc ?l2"
    unfolding csv_row_def read_fields_same[OF assms(1-3) p1 p2] conjunct1[OF assms(1)[unfolded same_layout_def]] ..
  then show ?case using Cons st ne by (auto simp: Let_def split: prod.splits sum.splits)
qed simp

lemma load_standard_same:
  assumes "fname \<noteq> []"
    and f1: "file1 fname = Some (csv_lines names1 rows)" "names1 \<noteq> []" "\<forall>n\<in>set names1. plain_name n"
    and f2: "file2 fname = Some (csv_lines names2 rows)" "names2 \<noteq> []" "\<forall>n\<in>set names2. plain_name n"
    and s: "set names1 = set names2" and p: "\<forall>row\<in>set rows. \<forall>n\<in>set names1. plain_text (row n)"
  shows "load_standard lib file1 fname ''simple'' k = load_standard lib file2 fname ''simple'' k"
proof -
  obtain dc where dc: "new_data_columns ''simple'' = Inr dc" "m_trace_format dc = ''simple''" "m_cols_to_read dc \<noteq> []"
    by (simp add: new_data_columns_def Let_def sort_columns_def)
  from check_header_same[of dc fname file1 names1 rows file2 names2, OF dc(2,3) assms(1) f1 f2 s] show ?thesis
  proof (cases rule: rel_sum.cases)
    case (2 x y)
    obtain b d1 d2 where xy: "x = (b, d1)" "y = (b, d2)" "same_layout names1 names2 d1 d2" using 2(3) by (cases x; cases y) auto
    have c: "(m_cols_to_read d1 = []) = (m_cols_to_read d2 = [])" using xy(3) by (auto simp: same_layout_def)
    have "load_csv lib file1 fname d1 [] k = load_csv lib file2 fname d2 [] k"
      using load_rows_same[OF xy(3) f1(2) f2(2) p, of lib "count_limit k" 0 None "[]"] p s c assms(1) f1(1) f2(1)
      by (simp add: load_csv_def csv_lines_def)
    then show ?thesis using 2(1,2) xy(1,2) by (simp add: load_standard_def open_columns_def dc(1))
  qed (simp add: load_standard_def open_columns_def dc(1))
qed

section \<open>Loaded jobs are valid\<close>

text \<open>A job of a simulation trace waits for the scheduler and does not run past its limit; the times of a replayed job are
  in order and its run time is the recorded one, up to the tolerance.\<close>

definition loaded_job_valid :: "trace_mode \<Rightarrow> job_record \<Rightarrow> bool" where
  "loaded_job_valid mode j \<longleftrightarrow> \<not> m_is_simulated j \<and>
     (case mode of
        SIMULATION \<Rightarrow> m_t_begin j = unscheduled_sentinel \<and> m_t_end j = unscheduled_sentinel \<and>
          validate_simulation_run_time (m_actual_run_time j) (m_t_limit j)
      | REPLAY \<Rightarrow> times_in_order (m_t_submit j) (m_t_begin j) (m_t_end j) \<and>
          (m_actual_run_time j = epoch_minus (m_t_end j) (m_t_begin j) \<or>
           validate_replay_run_time (m_actual_run_time j) (epoch_minus (m_t_end j) (m_t_begin j))))"

lemma nonneg_uint: "0 \<le> dbl (uint (w :: 32 word))"
proof -
  have "uint w \<le> 4294967295" using uint_lt2p[of w] by simp
  then show ?thesis by (simp add: dbl_simps)
qed

lemma zero_run_time_valid: "validate_simulation_run_time 0 limit"
  using nonneg_uint[of limit] isfinite_dbl[of 0] by (simp add: validate_simulation_run_time_def not_less dbl_zero)

lemma normalize_times_ok: "normalize_times lib s b e = Inr (s', b', e') \<Longrightarrow> times_in_order s' b' e'"
  by (auto simp: normalize_times_def split: if_splits sum.splits)

lemma record_valid:
  "replay_record lib nodes vals queue enc = Inr j \<Longrightarrow> loaded_job_valid REPLAY j"
  "simulation_record lib nodes vals queue enc = Inr j \<Longrightarrow> loaded_job_valid SIMULATION j"
  by (auto simp: replay_record_def simulation_record_def loaded_job_valid_def new_job_record_def zero_run_time_valid Let_def
      split: sum.splits prod.splits if_splits number.splits dest!: normalize_times_ok)

lemma csv_row_valid: "csv_row lib dc enc line = (enc', Inr j) \<Longrightarrow> loaded_job_valid (dc_trace_mode dc) j"
  by (cases "dc_trace_mode dc")
    (auto simp: csv_row_def job_record_of_fields_def Let_def record_valid split: sum.splits prod.splits if_splits)

lemma load_rows_valid:
  "load_rows lib dc k cnt enc data lines = Inr js \<Longrightarrow> cnt \<le> k \<Longrightarrow>
    \<exists>new. js = data @ new \<and> length new + cnt \<le> k \<and> (\<forall>j\<in>set new. loaded_job_valid (dc_trace_mode dc) j)"
proof (induction lines arbitrary: cnt enc data)
  case (Cons l lines)
  let ?line = "strip_trailing l"
  show ?case
  proof (cases "?line = [] \<or> k \<le> cnt")
    case True
    then show ?thesis using Cons by (auto simp: Let_def split: if_splits)
  next
    case False
    obtain enc' r where r: "csv_row lib dc enc ?line = (enc', r)" by fastforce
    show ?thesis
    proof (cases r)
      case (Inl e)
      then have "load_rows lib dc k (cnt + 1) enc' data lines = Inr js" using Cons.prems(1) False r by (auto simp: Let_def split: if_splits)
      from Cons.IH[OF this] False show ?thesis by auto
    next
      case (Inr j)
      then have "load_rows lib dc k (cnt + 1) enc' (data @ [j]) lines = Inr js" using Cons.prems(1) False r by (auto simp: Let_def split: if_splits)
      from Cons.IH[OF this] False csv_row_valid[OF r[unfolded Inr]] show ?thesis by auto
    qed
  qed
qed simp

lemma load_csv_valid:
  assumes "load_csv lib file fname dc [] k = Inr js"
  shows "(\<forall>j\<in>set js. loaded_job_valid (dc_trace_mode dc) j) \<and> length js \<le> count_limit k"
  using assms load_rows_valid[of lib dc "count_limit k" 0 None "[]" _ js]
  by (auto simp: load_csv_def split: if_splits option.splits)

section \<open>SWF\<close>

lemma dbl_ceil_int:
  assumes "0 < x" "dbl_ceil x \<le> dbl 4294967295"
  obtains n where "1 \<le> n" "n \<le> 4294967295" "dbl_ceil x = dbl n" "x \<le> dbl n"
proof -
  define n where "n = \<lceil>val x\<rceil>"
  have x: "0 < val x" using assms(1) by (simp add: less_double.rep_eq zero_double.rep_eq)
  have b: "val (dbl_ceil x) \<le> 4294967295" using assms(2) by (simp add: less_eq_double.rep_eq val_dbl)
  have big: "(4294967296 :: rat) < huge" by (simp add: huge_def)
  have fin: "\<bar>val x\<bar> \<noteq> huge" using b big x by (auto simp: dbl_ceil.rep_eq split: if_splits)
  then have c: "val (dbl_ceil x) = fl (of_int n)" by (simp add: dbl_ceil.rep_eq n_def)
  have "n \<le> 4294967295"
  proof (rule ccontr)
    assume "\<not> n \<le> 4294967295"
    then have "(4294967296 :: rat) \<le> of_int n" by simp
    then have "fl (of_int 4294967296) \<le> fl (of_int n)" by (intro fl_mono) simp
    moreover have "fl (of_int 4294967296) = (4294967296 :: rat)" using val_dbl[of 4294967296] by (simp add: dbl.rep_eq)
    ultimately show False using b c by simp
  qed
  moreover have "1 \<le> n" using x by (simp add: n_def)
  moreover have "dbl_ceil x = dbl n" using c by (simp add: dbl.rep_eq flip: val_inject)
  moreover have "x \<le> dbl n" using calculation(1,2) by (simp add: less_eq_double.rep_eq val_dbl n_def)
  ultimately show ?thesis using that by blast
qed

text \<open>What holds of every loaded job.  A run time of NaN passes every test of the loader.\<close>

definition swf_job_valid :: "swf_record \<Rightarrow> bool" where
  "swf_job_valid j \<longleftrightarrow> \<not> m_is_simulated j \<and> m_t_begin j = unscheduled_sentinel \<and> m_t_end j = unscheduled_sentinel \<and> 0 < m_t_limit j \<and>
     (\<not> m_run_time_is_nan j \<longrightarrow> 0 < m_actual_run_time j \<and> validate_simulation_run_time (m_actual_run_time j) (m_t_limit j))"

lemma swf_job_fields:
  assumes "swf_job start cores no rel run_time procs requested q = Inr j"
  obtains limit where "to_unsigned (num_ceil (if 0 < requested then requested else run_time)) = Inr limit" "m_t_limit j = word_of_int limit"
    "\<not> Num (dbl 4294967295) < num_ceil (if 0 < requested then requested else run_time)"
    "\<not> m_is_simulated j" "m_t_begin j = unscheduled_sentinel" "m_t_end j = unscheduled_sentinel"
    "m_run_time_is_nan j \<longleftrightarrow> (if 0 < requested \<and> 0 < num_ceil requested \<and> num_ceil requested < run_time then num_ceil requested else run_time) = NaN"
    "m_actual_run_time j = num_value (if 0 < requested \<and> 0 < num_ceil requested \<and> num_ceil requested < run_time then num_ceil requested else run_time)"
proof -
  define used where "used = (let limit_for_run = if 0 < requested then num_ceil requested else 0 in
    if 0 < limit_for_run \<and> limit_for_run < run_time then limit_for_run else run_time)"
  define base where "base = (if 0 < requested then requested else run_time)"
  define J where "J = (\<lambda>sec nodes limit. job_record.extend
    ((new_job_record (sec, to_single (num_value (start + rel - Num (dbl sec)))) (word_of_int nodes) 1 (word_of_int limit))
      \<lparr>m_actual_run_time := num_value used\<rparr>)
    (swf_record.fields (if 0 \<le> no \<and> no \<le> Num (dbl 4294967295) then word_of_int (dbl_trunc (num_value no)) else 0)
      (if Num (dbl 1) \<le> q \<and> q \<le> Num (dbl 255) then word_of_int (dbl_trunc (num_value q)) else 0) (used = NaN)))"
  have "swf_job start cores no rel run_time procs requested q = (case to_time (num_floor (start + rel)) of Inl e \<Rightarrow> Inl e | Inr sec \<Rightarrow>
      if Num (dbl 4294967295) < num_ceil (num_divide procs cores) \<or> Num (dbl 4294967295) < num_ceil base then Inl Invalid_Argument
      else case to_unsigned (num_ceil (num_divide procs cores)) of Inl e \<Rightarrow> Inl e | Inr nodes \<Rightarrow>
        case to_unsigned (num_ceil base) of Inl e \<Rightarrow> Inl e | Inr limit \<Rightarrow> Inr (J sec nodes limit))"
    by (simp only: swf_job_def Let_def used_def base_def J_def)
  then obtain sec nodes limit where l: "\<not> Num (dbl 4294967295) < num_ceil base" "to_unsigned (num_ceil base) = Inr limit" "j = J sec nodes limit"
    using assms by (auto split: sum.splits if_splits)
  have u: "used = (if 0 < requested \<and> 0 < num_ceil requested \<and> num_ceil requested < run_time then num_ceil requested else run_time)"
    by (simp add: used_def zero_number_def Let_def)
  show thesis
    by (rule that[of limit])
      (use l in \<open>simp_all add: J_def new_job_record_def job_record.extend_def swf_record.fields_def base_def flip: u\<close>)
qed

lemma swf_job_ok:
  assumes "swf_job start cores no rel run_time procs requested q = Inr j" "\<not> run_time \<le> 0"
  shows "swf_job_valid j \<and> (m_run_time_is_nan j \<longrightarrow> run_time = NaN)"
proof -
  obtain limit where f: "to_unsigned (num_ceil (if 0 < requested then requested else run_time)) = Inr limit" "m_t_limit j = word_of_int limit"
    "\<not> Num (dbl 4294967295) < num_ceil (if 0 < requested then requested else run_time)"
    "\<not> m_is_simulated j" "m_t_begin j = unscheduled_sentinel" "m_t_end j = unscheduled_sentinel"
    "m_run_time_is_nan j \<longleftrightarrow> (if 0 < requested \<and> 0 < num_ceil requested \<and> num_ceil requested < run_time then num_ceil requested else run_time) = NaN"
    "m_actual_run_time j = num_value (if 0 < requested \<and> 0 < num_ceil requested \<and> num_ceil requested < run_time then num_ceil requested else run_time)"
    by (rule swf_job_fields[OF assms(1)])
  obtain b where b: "(if 0 < requested then requested else run_time) = Num b" "0 < b"
    using f(1) assms(2) by (cases requested; cases run_time) (auto simp: zero_number_def to_unsigned_def not_le split: if_splits)
  have "dbl_ceil b \<le> dbl 4294967295" using f(3) b(1) by (simp add: not_less)
  from dbl_ceil_int[OF b(2) this] obtain n where n: "1 \<le> n" "n \<le> 4294967295" "dbl_ceil b = dbl n" "b \<le> dbl n" .
  have "to_unsigned (Num (dbl n)) = Inr n" using n(1,2) by (intro to_unsigned_dbl) simp_all
  then have l: "m_t_limit j = word_of_int n" using f(1,2) b(1) n(3) by simp
  have un: "uint (word_of_int n :: 32 word) = n" using n by (simp add: uint_word_of_int)
  have dn: "0 < dbl n" using n by (simp add: dbl_simps)
  have common: "\<not> m_is_simulated j \<and> m_t_begin j = unscheduled_sentinel \<and> m_t_end j = unscheduled_sentinel \<and> 0 < m_t_limit j"
    using f(4-6) l un n(1) by (simp add: word_less_def)
  show ?thesis
  proof (cases run_time)
    case NaN
    then show ?thesis using common f(7) by (simp add: swf_job_valid_def)
  next
    case (Num r)
    define u where "u = (if 0 < requested \<and> dbl n < r then dbl n else r)"
    have used: "(if 0 < requested \<and> 0 < num_ceil requested \<and> num_ceil requested < run_time then num_ceil requested else run_time) = Num u"
      using b n(3) dn Num by (cases requested) (auto simp: u_def zero_number_def)
    have u: "0 < u" "u \<le> dbl n"
      using assms(2) b n(4) dn Num by (auto simp: u_def zero_number_def split: if_splits)
    have "(4294967295 :: rat) < huge" by (simp add: huge_def)
    moreover have "val (dbl n) \<le> 4294967295" using n by (simp add: val_dbl)
    ultimately have "isfinite u"
      using u by (auto simp: isfinite_def dbl_inf.rep_eq uminus_double.rep_eq less_eq_double.rep_eq less_double.rep_eq zero_double.rep_eq)
    then have "validate_simulation_run_time u (m_t_limit j)" using u l un by (simp add: validate_simulation_run_time_def not_less)
    then show ?thesis using common f(7,8) u(1) unfolding used by (simp add: swf_job_valid_def)
  qed
qed

text \<open>The run time of a data line reads as NaN.\<close>

definition nan_run_time :: "'tm text_library \<Rightarrow> string \<Rightarrow> bool" where
  "nan_run_time lib line \<longleftrightarrow> (let tokens = whitespace_separate line in
     4 \<le> length tokens \<and> parse_swf_num lib (substr line (tokens ! 3)) = Inr NaN)"

lemma swf_row_ok:
  assumes "swf_row lib st line = Inr (Some j)"
  shows "swf_job_valid j \<and> (m_run_time_is_nan j \<longrightarrow> nan_run_time lib line)"
proof -
  let ?tokens = "whitespace_separate line"
  obtain vs where v: "18 \<le> length ?tokens" "swf_numbers lib line ?tokens [1, 2, 4, 5, 9, 15] = Inr vs" "\<not> vs ! 2 \<le> 0"
    "swf_job (unix_start st) (the (cores_per_node st)) (vs ! 0) (vs ! 1) (vs ! 2) (vs ! 3) (vs ! 4) (vs ! 5) = Inr j"
    using assms by (auto simp: swf_row_def Let_def split: if_splits sum.splits)
  have "parse_swf_num lib (substr line (?tokens ! 3)) = Inr (vs ! 2)" using v(2) by (auto split: sum.splits)
  then show ?thesis using swf_job_ok[OF v(4,3)] v(1) by (auto simp: nan_run_time_def Let_def)
qed

definition from_log :: "'tm text_library \<Rightarrow> string list \<Rightarrow> swf_record \<Rightarrow> bool" where
  "from_log lib lines j \<longleftrightarrow> swf_job_valid j \<and> (m_run_time_is_nan j \<longrightarrow> (\<exists>l\<in>set lines. nan_run_time lib (strip_trailing l)))"

lemma from_log_Cons: "\<forall>j\<in>set js. from_log lib lines j \<Longrightarrow> \<forall>j\<in>set js. from_log lib (l # lines) j"
  by (auto simp: from_log_def)

lemma swf_state_keeps [simp]:
  "swf_accepted (swf_metadata lib line st) = swf_accepted st" "swf_accepted (fix_divisor c st) = swf_accepted st"
  by (simp_all add: swf_metadata_def fix_divisor_def split: option.split)

lemma swf_rows_ok:
  "swf_rows lib c k st records lines = Inr (st', loaded) \<Longrightarrow> swf_accepted st \<le> k \<Longrightarrow>
    \<exists>new. loaded = records @ new \<and> swf_accepted st + length new \<le> k \<and> (\<forall>j\<in>set new. from_log lib lines j)"
proof (induction lines arbitrary: st records)
  case (Cons l lines)
  let ?line = "strip_trailing l" and ?st = "fix_divisor c st"
  have widen: "\<exists>new. loaded = records @ new \<and> swf_accepted st + length new \<le> k \<and> (\<forall>j\<in>set new. from_log lib (l # lines) j)"
    if "\<exists>new. loaded = records @ new \<and> swf_accepted st + length new \<le> k \<and> (\<forall>j\<in>set new. from_log lib lines j)"
    using that from_log_Cons by blast
  consider "k \<le> swf_accepted st" | "\<not> k \<le> swf_accepted st" "?line = []"
    | "\<not> k \<le> swf_accepted st" "?line \<noteq> []" "hd ?line = CHR '';''" | "\<not> k \<le> swf_accepted st" "?line \<noteq> []" "hd ?line \<noteq> CHR '';''" by blast
  then show ?case
  proof cases
    case 1
    then show ?thesis using Cons.prems by simp
  next
    case 2
    then show ?thesis using Cons.IH[of st records] Cons.prems by (intro widen) (simp add: Let_def)
  next
    case 3
    from Cons.IH[of "swf_metadata lib ?line st" records] Cons.prems 3 show ?thesis by (intro widen) (simp add: Let_def)
  next
    case 4
    show ?thesis
    proof (cases "swf_row lib ?st ?line")
      case (Inl e)
      then show ?thesis using 4 Cons.prems by (simp add: Let_def)
    next
      case (Inr r)
      show ?thesis
      proof (cases r)
        case None
        from Cons.IH[of "?st\<lparr>swf_skips := swf_skips ?st + 1\<rparr>" records] Cons.prems 4 Inr None
        show ?thesis by (intro widen) (simp add: Let_def)
      next
        case (Some j)
        have "swf_rows lib c k (?st\<lparr>swf_accepted := swf_accepted ?st + 1\<rparr>) (records @ [j]) lines = Inr (st', loaded)"
          using Cons.prems(1) 4 Inr Some by (simp add: Let_def)
        from Cons.IH[OF this] 4(1) obtain new where n: "loaded = (records @ [j]) @ new" "Suc (swf_accepted st) + length new \<le> k"
          "\<forall>j\<in>set new. from_log lib lines j" by auto
        have "from_log lib (l # lines) j" using swf_row_ok[OF Inr[unfolded Some]] by (auto simp: from_log_def)
        then show ?thesis using n from_log_Cons[OF n(3)] by (intro exI[of _ "j # new"]) simp
      qed
    qed
  qed
qed simp

lemma load_swf_ok:
  assumes "load_swf lib file fname dc records k = Inr (loaded, dc')"
  shows "\<exists>lines new. file fname = Some lines \<and> loaded = records @ new \<and> length new \<le> count_limit k \<and>
    sorted (map m_t_submit new) \<and> (\<forall>j\<in>set new. from_log lib lines j)"
proof -
  obtain lines st l where l: "file fname = Some lines"
    "swf_rows lib (m_cores_per_node_override dc) (count_limit k)
       \<lparr>unix_start = 0, swf_max_nodes = 0, swf_max_procs = 0, cores_per_node = None, swf_accepted = 0, swf_skips = 0\<rparr> records lines = Inr (st, l)"
    "loaded = take (length records) l @ sort_key m_t_submit (drop (length records) l)"
    using assms by (auto simp: load_swf_def Let_def split: option.splits sum.splits)
  from swf_rows_ok[OF l(2)] obtain new where "l = records @ new" "length new \<le> count_limit k" "\<forall>j\<in>set new. from_log lib lines j" by auto
  then show ?thesis using l(1,3) by (intro exI[of _ lines] exI[of _ "sort_key m_t_submit new"]) simp
qed

section \<open>Rows that cannot be read, and rows that are not counted\<close>

text \<open>With more commas than columns the quoted ones are replaced, which may leave fewer fields than the selection needs.\<close>

lemma quoted_row_undefined:
  assumes "m_total_columns dc = 3" "m_cols_to_read dc = [(0, ''num_nodes''), (1, ''job_submit_time''), (2, ''time_limit'')]"
  shows "pick_values dc (CHR 0x22 # ''1,2,3,4'' @ [CHR 0x22]) = Inl Undefined_Read"
  by (simp add: pick_values_def assms comma_separate_def replace_comma_within_quotation_def quote_step_def Let_def)

end
