(* ===== verification/Loader_Examples.thy ===== *)
theory Loader_Examples
  imports Loader_Laws
begin

text \<open>
  Concrete files.  The example library reads and prints whole seconds in decimal, and reads NaN; it knows no calendar.
\<close>

definition ex_stod :: "string \<Rightarrow> exn + number \<times> nat" where
  "ex_stod str = (let ds = takeWhile is_digit str in
     if str = ''nan'' then Inr (NaN, 3)
     else if ds = [] then Inl Invalid_Argument else Inr (Num (dbl (int (decimal_value 0 ds))), length ds))"

definition ex_library :: "unit text_library" where
  "ex_library = \<lparr>tl_stod = ex_stod, tl_atof = (\<lambda>s. 0), tl_get_time = (\<lambda>s. None), tl_mktime = (\<lambda>t. 0), tl_timegm = (\<lambda>t. 0),
     tl_local_text = (\<lambda>t. None), tl_fraction_text = (\<lambda>d. ''0.000000'')\<rparr>"

definition ex_time_text :: "sim_time \<Rightarrow> string" where
  "ex_time_text t = decimal (nat (dbl_trunc t))"

lemma ex_stod_decimal: "ex_stod (decimal n) = Inr (Num (dbl (int n)), length (decimal n))"
proof -
  have "decimal n \<noteq> ''nan''" using decimal_ok[of n] by (auto simp: list_all_iff is_digit_def)
  have tk: "takeWhile is_digit (decimal n) = decimal n" using decimal_ok[of n] by (simp add: list_all_iff)
  show ?thesis using decimal_ok[of n] \<open>decimal n \<noteq> ''nan''\<close> by (simp add: ex_stod_def Let_def tk del: takeWhile_eq_all_conv)
qed

lemma ex_time_text_ok:
  assumes "0 \<le> a" "a \<le> 9007199254740992"
  shows "plain_text (ex_time_text (dbl a)) \<and> tl_stod ex_library (ex_time_text (dbl a)) = Inr (Num (dbl a), length (ex_time_text (dbl a))) \<and>
    fits_timestamp (dbl a)"
  using assms by (simp add: fits_timestamp_def ex_time_text_def ex_library_def ex_stod_decimal plain_decimal convert_epoch_def to_epoch_def Let_def dbl_simps)

definition ex_schedule :: "capacity_change list" where
  "ex_schedule = [\<lparr>cc_time = dbl 10, cc_total_nodes = 8\<rparr>, \<lparr>cc_time = dbl 20, cc_total_nodes = 4\<rparr>]"

lemma ex_schedule_ok: "schedule_ok 10 ex_schedule"
  by (simp add: schedule_ok_def ex_schedule_def dbl_simps)

lemma ex_schedule_loads:
  "load_capacity_schedule ex_library (\<lambda>f. Some (schedule_lines ex_time_text ex_schedule)) ''s'' 10 = Inr ex_schedule"
  using ex_schedule_ok ex_time_text_ok[of 10] ex_time_text_ok[of 20]
  by (intro load_capacity_written)
    (simp_all, simp_all add: ex_schedule_def)

text \<open>Three names in two orders, and a row.\<close>

definition ex_row :: "string \<Rightarrow> string" where
  "ex_row name = (if name = ''num_nodes'' then ''4'' else if name = ''submit_time'' then ''7'' else ''60'')"

definition ex_names :: "string list" where "ex_names = [''num_nodes'', ''submit_time'', ''walltime'']"

lemma ex_names_ok: "\<forall>n\<in>set ex_names. plain_name n \<and> plain_text (ex_row n)"
  by (simp add: ex_names_def ex_row_def plain_name_def plain_text_def is_space_def)

lemmas parse_eval = comma_separate_def substr_def trim_def trim_chars_def find_first_not_of_def find_last_not_of_def find_last_where_def
  strip_trailing_def trailing_space_def stoull_def parse_unsigned_def set_by_unsigned_def is_space_def is_digit_def digit_value_def
  after_sign_def is_negative_def

lemma ex_columns:
  "open_columns (\<lambda>f. Some (csv_lines ex_names [ex_row])) ''t'' ''simple'' =
     Inr \<lparr>m_cols_to_read = [(0, ''num_nodes''), (1, ''job_submit_time''), (2, ''time_limit'')],
       m_col_by_name = [''num_nodes'' \<mapsto> (0, 0), ''job_submit_time'' \<mapsto> (1, 1), ''time_limit'' \<mapsto> (2, 2)], m_total_columns = 3, m_queue_idx = 0,
       m_has_q_id_column = False, m_col_to_avoid = [], m_col_to_avoid_idx = 4294967295, m_trace_format = ''simple'',
       dc_trace_mode = SIMULATION, m_cores_per_node_override = 0, m_swf_cores_per_node = 1, m_swf_skipped = 0\<rparr>"
  by (simp add: open_columns_def new_data_columns_def check_header_def csv_lines_def ex_names_def Let_def column_names_def drop_byte_order_mark_def
      strip_trailing_def trailing_space_def selected_columns_def required_columns_def submit_time_aliases_def time_limit_aliases_def
      actual_run_time_aliases_def with_queue_def with_run_time_def sort_columns_def fun_eq_iff)

lemmas row_eval = pick_values_def read_fields_def csv_row_def job_record_of_fields_def simulation_record_def detect_timestamp_encoding_def
  set_by_epoch_def set_by_double_def ex_library_def ex_stod_def Let_def header_names_def count_limit_def

definition ex_dc :: data_columns where
  "ex_dc = \<lparr>m_cols_to_read = [(0, ''num_nodes''), (1, ''job_submit_time''), (2, ''time_limit'')],
     m_col_by_name = [''num_nodes'' \<mapsto> (0, 0), ''job_submit_time'' \<mapsto> (1, 1), ''time_limit'' \<mapsto> (2, 2)], m_total_columns = 3, m_queue_idx = 0,
     m_has_q_id_column = False, m_col_to_avoid = [], m_col_to_avoid_idx = 4294967295, m_trace_format = ''simple'',
     dc_trace_mode = SIMULATION, m_cores_per_node_override = 0, m_swf_cores_per_node = 1, m_swf_skipped = 0\<rparr>"

text \<open>The rows of the example, and the same columns used on a file with another header, which the load does not look at.\<close>

lemma ex_load:
  "load_csv ex_library (\<lambda>f. Some [''num_nodes,submit_time,walltime'', ''4,7,60'']) ''t'' ex_dc [] 0 =
     Inr [new_job_record (7, 0) 4 1 60]"
  by (simp add: load_csv_def ex_dc_def row_eval parse_eval dbl_simps)

lemma ex_load_next_file:
  "load_csv ex_library (\<lambda>f. Some [''walltime,submit_time,num_nodes'', ''60,7,4'']) ''t'' ex_dc [] 0 =
     Inr [new_job_record (7, 0) 60 1 4]"
  by (simp add: load_csv_def ex_dc_def row_eval parse_eval dbl_simps)

text \<open>A format whose columns are sorted by their place in the file takes the fields in that order, whatever their names.\<close>

lemma ex_sorted_format:
  "load_standard ex_library (\<lambda>f. Some [''walltime,submit_time,num_nodes'', ''60,7,4'']) ''t'' ''lassen'' 0 =
     Inr [new_job_record (7, 0) 60 1 4]"
  by (simp add: load_standard_def open_columns_def new_data_columns_def check_header_def column_names_def drop_byte_order_mark_def
      selected_columns_def required_columns_def submit_time_aliases_def time_limit_aliases_def
      actual_run_time_aliases_def with_queue_def with_run_time_def sort_columns_def load_csv_def row_eval parse_eval dbl_simps)

text \<open>A job dropped from a Pcon trace shifts the power values: the second job gets those of the first row.\<close>

definition ex_pcon_dc :: data_columns where
  "ex_pcon_dc = ex_dc\<lparr>m_cols_to_read := [(0, ''num_nodes''), (1, ''job_submit_time''), (2, ''time_limit''), (3, ''actual_run_time'')],
     m_total_columns := 6\<rparr>"

lemma ex_pcon_shift:
  "load_pcon ex_library (\<lambda>f. Some [''n,s,l,r,avgpcon,minpcon,maxpcon'' , ''1,0,5,9,11,11,11'', ''2,0,5,5,22,22,22''])
     ''t'' (ex_pcon_dc\<lparr>m_total_columns := 7\<rparr>) [] 0 =
     Inr [\<lparr>pcon_job = (new_job_record (0, 0) 2 1 5)\<lparr>m_actual_run_time := dbl 5\<rparr>, avgpcon = Num (dbl 11), minpcon = Num (dbl 11), maxpcon = Num (dbl 11)\<rparr>]"
  by (simp add: load_pcon_def load_csv_def ex_pcon_dc_def ex_dc_def row_eval parse_eval validate_simulation_run_time_def dbl_simps new_job_record_def)

text \<open>An SWF log with one job that ran past its requested time.\<close>

definition ex_swf :: "string list" where
  "ex_swf = [''; MaxNodes: 2'', ''; MaxProcs: 4'', ''1 5 0 10 4 0 0 4 8 0 0 0 0 0 1 0 0 0'']"

lemma ex_swf_tokens:
  "whitespace_separate ''1 5 0 10 4 0 0 4 8 0 0 0 0 0 1 0 0 0'' =
     [(0, 1), (2, 1), (4, 1), (6, 2), (9, 1), (11, 1), (13, 1), (15, 1), (17, 1), (19, 1), (21, 1), (23, 1), (25, 1), (27, 1), (29, 1), (31, 1), (33, 1), (35, 1)]"
  by (simp add: whitespace_separate_def blank_def Let_def)

definition ex_swf_job :: swf_record where
  "ex_swf_job = job_record.extend ((new_job_record (5, 0) 2 1 8)\<lparr>m_actual_run_time := dbl 8\<rparr>) (swf_record.fields 1 1 False)"

lemma dbl_round [dbl_simps]:
  assumes "\<bar>a\<bar> \<le> 9007199254740992"
  shows "dbl_ceil (dbl a) = dbl a" "dbl_floor (dbl a) = dbl a"
proof -
  have b: "\<bar>a\<bar> \<le> 2 ^ 53" using assms by simp
  show "dbl_ceil (dbl a) = dbl a" "dbl_floor (dbl a) = dbl a"
    using small_ne_huge[OF b] fl_of_int[OF b] by (simp_all add: dbl_ceil.rep_eq dbl_floor.rep_eq val_dbl[OF b] flip: val_inject)
qed

lemma ex_swf_load:
  "load_swf ex_library (\<lambda>f. Some ex_swf) ''t'' ex_dc [] 0 = Inr ([ex_swf_job], ex_dc\<lparr>m_swf_cores_per_node := 2\<rparr>)"
  by (simp add: load_swf_def ex_swf_def swf_row_def swf_job_def swf_metadata_def parse_swf_header_value_def parse_swf_num_def fix_divisor_def
      ex_swf_tokens find_char_def to_lower_def ex_swf_job_def zero_number_def row_eval parse_eval dbl_simps ex_dc_def)

text \<open>The same job with a run time of NaN is loaded, and a capacity schedule with a time of NaN is undefined.\<close>

lemma ex_nan_tokens:
  "whitespace_separate ''1 5 0 nan 4 0 0 4 8 0 0 0 0 0 1 0 0 0'' =
     [(0, 1), (2, 1), (4, 1), (6, 3), (10, 1), (12, 1), (14, 1), (16, 1), (18, 1), (20, 1), (22, 1), (24, 1), (26, 1), (28, 1), (30, 1), (32, 1), (34, 1), (36, 1)]"
  by (simp add: whitespace_separate_def blank_def Let_def)

lemma ex_swf_nan_load:
  "load_swf ex_library (\<lambda>f. Some [''1 5 0 nan 4 0 0 4 8 0 0 0 0 0 1 0 0 0'']) ''t'' ex_dc [] 0 =
     Inr ([job_record.extend (new_job_record (5, 0) 4 1 8) (swf_record.fields 1 1 True)], ex_dc)"
  by (simp add: load_swf_def swf_row_def swf_job_def parse_swf_num_def fix_divisor_def zero_number_def
      ex_nan_tokens row_eval parse_eval dbl_simps ex_dc_def new_job_record_def)

lemma ex_nan_time:
  "load_capacity_schedule ex_library (\<lambda>f. Some [''time,total_nodes'', ''5,1'', ''nan,1'', ''3,1'']) ''s'' 10 = Inl Undefined_Conversion"
  by (simp add: load_capacity_schedule_def capacity_row_def set_by_unsigned_def rethrown_def is_undefined_def to_time_def
      row_eval parse_eval dbl_simps)

end
