(* ===== verification/Spec2Isabelle.thy ===== *)
theory Spec2Isabelle
  imports Custom_Examples Loader_Examples
begin

text \<open>
  A verification library for the discrete-event simulator of batch scheduling in \<^verbatim>\<open>src/src\<close>
  (\<^verbatim>\<open>BasicSimulation\<close>, \<^verbatim>\<open>BasicTrace\<close>, the \<^verbatim>\<open>SchedulerBase\<close> family).  A simulation holds a trace of jobs and a scheduler.
  Submission hands a job to the scheduler; the event loop \<^verbatim>\<open>advance_to\<close> moves the clock over the events of the
  trace, the arrivals, the changes of capacity and the ticks of a periodic scheduler; at each stop it offers the
  free nodes to the scheduler and gives the jobs that come back to the trace, which orders their starts
  and departures in its event queue and accounts for the nodes.

  \<^bold>\<open>Representation.\<close>  A \<^verbatim>\<open>double\<close> is binary64, built in \<open>Double\<close> as the rationals that are their own rounding; every
  operation rounds the exact result to nearest even.  It has the infinities and no NaN: the clock, the run times and the plans are
  computed as doubles.  Two loaders, of the capacity schedule and of SWF logs, take the numbers of \<^verbatim>\<open>std::stod\<close> without a finiteness test;
  there the numbers are of the type \<open>number\<close> of the theory \<open>Number\<close>, a double or NaN, with the comparisons and the arithmetic of
  NaN, and a conversion to an integer type that C++ leaves undefined is the exception \<open>Undefined_Conversion\<close>.  A run time of NaN in an SWF job is
  a flag of the record, and the model does not run such a job.  Node counts are \<open>32 word\<close>, and wrap as
  \<^verbatim>\<open>num_nodes_t\<close> does; identifiers and sizes, which only grow by one, are \<open>nat\<close>.  A class is a record with the data members of its source,
  a method is a function on it, an exception is the left value of a sum with the constructor of its C++ type.
  Loops are structural recursions where they walk a container.  The event loop of the simulation is a
  \<^verbatim>\<open>partial_function (option)\<close>: \<open>None\<close> is a loop that never ends, and the properties prove \<open>Some\<close>; every other loop is total.
  No definition uses fuel.  What is outside \<^verbatim>\<open>src/\<close> is an argument: the order index of \<^verbatim>\<open>boost::multi_index\<close>, the buffer growth of
  \<^verbatim>\<open>boost::circular_buffer\<close>, \<^verbatim>\<open>std::hash\<close>, the random engine with the functions of \<^verbatim>\<open><cmath>\<close> and the
  distributions, the memory reading of the system, the text conversions that depend on the locale and the time zone, and the lines of a
  file.

  \<^bold>\<open>Theories.\<close>  \<open>Prelude\<close> names the scalar types, the enumerations and the exceptions; \<open>Double\<close> the arithmetic of the clock;
  \<open>Number\<close> the numbers that a file may hold; \<open>Epoch\<close> the timestamps and job records (\<^verbatim>\<open>trace/epoch.hpp\<close>, \<^verbatim>\<open>job_record.hpp\<close>).
  \<^item> Planning: \<open>Timeline\<close> is \<^verbatim>\<open>Reservation_Timeline\<close>, specified by the capacity function \<open>cap\<close>; \<open>Scheduler_Base\<close> the
    state and helpers of \<^verbatim>\<open>SchedulerBase\<close>, whose profile is the projected signed balance; \<open>Search_Cache\<close> the locale \<open>planner\<close>
    with its two providers, the plain timeline and \<^verbatim>\<open>Reservation_Search_Cache\<close>.
  \<^item> EASY: \<open>Easy_Spec\<close> is the pass on plain lists with the EASY guarantee; \<open>Easy_Deque\<close> and \<open>Easy_Circular\<close> are the two classes and
    \<open>Easy_Refine\<close> their refinement; \<open>Block_Queue\<close>, \<open>Easy_Block\<close>, \<open>Easy_Block_Laws\<close> the block queue and its scheduler; \<open>Ordered\<close> and
    \<open>Ordered_Laws\<close> the multimap schedulers (reference FCFS, SJF, LJF), one locale with three interpretations; \<open>Custom\<close> and
    \<open>Custom_Laws\<close> the custom scheduler, whose cost function, selector and hooks are arguments with a state of their own.
  \<^item> Hybrid and conservative: \<open>Hybrid\<close>, written once over any \<open>planner\<close>; \<open>Hybrid_Refine\<close> and \<open>Hybrid_Plan\<close> its laws.
  \<^item> Periodic: \<open>Periodic\<close>, \<open>Periodic_Laws\<close>, \<open>Dispatch\<close>, \<open>Dispatch_Laws\<close>.
  \<^item> Contracts: \<open>Scheduler_Interface\<close> states what a client relies on in a scheduler, \<open>Session\<close> the same for schedulers
    with ticks and events, both as locales over step relations; every queue interprets them.
  \<^item> Trace: \<open>Events\<close> is the event queue and the release delay; \<open>Trace\<close> the job store and the event
    processing of \<^verbatim>\<open>trace.cpp\<close>; \<open>Trace_Laws\<close> its invariants over reachable states; \<open>Replay\<close> \<^verbatim>\<open>run_job_trace\<close>.
  \<^item> Simulation: \<open>Simulation\<close> is submission, streaming append and the event loop of \<^verbatim>\<open>sim.cpp\<close> over a table \<open>scheduler_ops\<close> of the virtual
    functions, in its four modes; \<open>Simulation_Laws\<close>, \<open>Simulation_Loop\<close> and \<open>Simulation_Advance\<close> prove its contract in the event-driven mode in the locale
    \<open>sim_scheduler\<close>, which \<open>Simulation_Schedulers\<close> interprets on the deque, the hybrid deque and the three multimaps.  \<open>Simulation_Runs\<close>
    holds the entry points above the loop (\<^verbatim>\<open>append_jobs\<close>, \<^verbatim>\<open>initialize_trace\<close>, \<^verbatim>\<open>run\<close> and its three branches, the sampled run times);
    \<open>Simulation_Queries\<close>, \<open>Simulation_Drain\<close>, \<open>Simulation_Stats\<close> the status forecast, the drain estimate, the backfill window and the statistics.
    \<open>Simulation_Bisim\<close> is the locale \<open>bisimilar\<close>: related schedulers give related simulations, call by call and for whole runs.
  \<^item> Configuration and restart: \<open>Scheduler_Factory\<close> is \<^verbatim>\<open>create_scheduler\<close> over the datatype \<open>any_scheduler\<close> of the eleven classes, and
    \<open>Any_Scheduler\<close> the table of virtual functions over it; \<open>Checkpoint\<close> is saving and loading (\<^verbatim>\<open>save_checkpoint_impl\<close>,
    \<^verbatim>\<open>load_checkpoint_impl\<close>), \<open>Checkpoint_Laws\<close> the round trip and the refusals, \<open>Restart\<close> the continued simulation,
    \<open>Exact_Query\<close> the query through a clone.
  \<^item> Input: \<open>Parse_Utils\<close> is the text routines of \<^verbatim>\<open>parse_utils.cpp\<close> and the timestamps of \<^verbatim>\<open>epoch.cpp\<close>, \<open>Loaders\<close> the
    capacity schedule, the columns and rows of a trace and the Pcon and SWF formats; \<open>Parse_Laws\<close> and \<open>Loader_Laws\<close> their laws.
  \<^item> \<open>Examples\<close>, \<open>Custom_Examples\<close> and \<open>Loader_Examples\<close> have the concrete states and files of the witnesses.

  \<^bold>\<open>What is shown.\<close>  Planning: a search returns the least feasible start and a reservation changes exactly its interval.  Schedulers: each
  data structure refines an abstract pass or decides as another one does, no job is started twice or lost,
  and the reservation of a blocked head is not delayed by what is started past it, in the custom scheduler
  whatever its selector does.  Trace: the node counters equal what the pending events
  say in every reachable state (any configuration of store, outputs and release delay, any order of appends, starts, events and
  flushes), no event refers to a reclaimed record, and a refused batch leaves the trace as it was.  Simulation: a batch run returns,
  completes every job that the machine can run and never uses more nodes than there are; with
  a time limit it stops there with the books balanced; a replay returns.  This holds for whatever scheduler the factory makes in the
  event-driven mode, the block queue and ring buffers that may not grow apart.  Input: a capacity schedule that loads is ordered and within the machine, loading
  one is undefined only for a time that is NaN or out of range, and it is read back as it was written; the jobs of a CSV file are
  valid for the simulation, and those of an SWF log unless their run time is NaN; the columns of a simple trace may stand in any order.  Queries: a forecast is feasible and plans as the scheduler does.  Checkpoints: an archive
  is read back as it was written, a mismatched or truncated one is refused, and on the first-come EASY classes
  (the default ring buffer, and the deque) a restart is not observable and the exact query is exact.

  \<^bold>\<open>Bounds.\<close>  The liveness of a run is for whole-second submissions and limits whose sum stays below
  \<open>2 ^ 53\<close> and for the event-driven mode, without release delay or scheduled capacity changes; the definitions cover the rest.  The hybrid traversal keeps its promises for
  whole seconds whose sum stays below \<open>2 ^ 53\<close>, with any horizon.  Jobs of a reachable trace start at whole seconds.
  \<open>balance < 2 ^ 32\<close> appears where the code narrows a signed balance to \<^verbatim>\<open>num_nodes_t\<close>.

  \<^bold>\<open>Not modelled.\<close>  The warm start of a replay (\<^verbatim>\<open>run_warm_start\<close>); the custom scheduler in the event loop and in a checkpoint, and
  overrides that write its members; schedule windows, which nothing uses; the byte
  encoding of the archive, which is a library's, and the Pcon and SWF fields of a checkpoint; the legacy queue names and the formatting of times, the command line, the output text and its Redis sink; the gRPC server and client, the MPI feeder, the
  random engine wrapper, the experimental drivers and the statistics programs; the legacy build options (exclusive queues, named queues).  They are input
  and output, generated or glue code, or code outside the simulator.
\<close>

section \<open>The EASY schedulers\<close>

text \<open>
  C1: backfilling never delays the head.  After a scheduling pass of the deque scheduler with a blocked
  head inside the planning horizon, the jobs it started (heads and backfilled candidates) can be
  counted as running and the head projected again: the result is exactly the reservation the pass
  published.  Assumed: the capacity outlook is ordered and not overcommitted, the balance fits 32 bits,
  and the durations are large enough to advance the clock.
\<close>

theorem easy_head_not_delayed:
  assumes "fq_inv s" and "outlook_ok s" "m_outlook_occupied s \<le> m_outlook_capacity s"
    and "m_backfill_policy s \<noteq> NONE"
    and "\<forall>t. now \<le> t \<longrightarrow> balance_at s free running now [] t < 2 ^ 32"
    and sch: "deque_schedule s free running now = (ids, s')"
    and "waiting s' = head # rest"
    and "reservation_within_horizon s (m_fcfs_reservation_time s') now"
    and "m_fcfs_reservation_time s' < m_fcfs_reservation_time s'
        + release_estimate s (m_fcfs_reservation_time s') (run_time_estimate head)"
    and "\<forall>j\<in>set (waiting (deque_sync_to s now)). now < now + release_estimate s now (run_time_estimate j)"
  shows "\<exists>st. ids = map job_id st \<and> mset (pending s) = mset st + mset (pending s') \<and>
    calculate_fcfs_reservation s (nodes_requested head) (free - sum_list (map nodes_requested st)) running now
      (map (projected s now) st) = m_fcfs_reservation_time s'"
proof -
  define er where "er = easy_pass s (m_backfill_queue_depth s) free running now (waiting (deque_sync_to s now))"
  note r = deque_schedule_refines[OF assms(1) er_def, unfolded sch fst_conv snd_conv]
  have "calculate_fcfs_reservation s (nodes_requested head)
      (free - sum_list (map nodes_requested (er_heads er @ er_backfilled er))) running now
      (map (projected s now) (er_heads er @ er_backfilled er)) = er_reservation er"
    using assms r by (intro easy_pass_guarantee[OF assms(2,3) _ assms(4) er_def]) auto
  moreover have "mset (pending s) = mset (er_heads er @ er_backfilled er) + mset (pending s')"
    by (rule deque_started[OF assms(1) er_def sch])
  ultimately show ?thesis using r by (intro exI[of _ "er_heads er @ er_backfilled er"]) auto
qed

theorem easy_head_not_delayed_witness:
  "\<exists>st. [2] = map job_id st \<and> mset (pending ex_queue) = mset st + mset (pending ex_after) \<and>
    calculate_fcfs_reservation ex_queue 8 (4 - sum_list (map nodes_requested st)) ex_running (dbl 1)
      (map (projected ex_queue (dbl 1)) st) = dbl 10"
proof -
  have "nodes_requested (new_entry 1 (dbl 0) (dbl 100) 8) = 8" by (simp add: new_entry_def)
  moreover have "dbl 10 < dbl 10 + release_estimate ex_queue (dbl 10) (run_time_estimate (new_entry 1 (dbl 0) (dbl 100) 8))"
    "\<forall>j\<in>set (waiting (deque_sync_to ex_queue (dbl 1))). dbl 1 < dbl 1 + release_estimate ex_queue (dbl 1) (run_time_estimate j)"
    by (simp_all add: ex_after_simps new_entry_def dbl_simps)
  ultimately show ?thesis
    using easy_head_not_delayed[OF ex_queue_inv ex_queue_planning(1-3) _ ex_queue_pass ex_after_simps(2)]
      ex_balance ex_queue_planning(4) by (simp add: ex_after_simps(1))
qed

text \<open>
  C2: the deque scheduler refines the abstract EASY pass.  On any state that satisfies the documented
  invariant, the identifiers returned, the jobs left waiting, the future arrivals and the published
  reservation are those of the pass on plain lists, and the invariant holds again.
\<close>

theorem deque_refines_easy_pass:
  assumes "fq_inv s"
  shows "let er = easy_pass s (m_backfill_queue_depth s) free running now (waiting (deque_sync_to s now));
             s' = snd (deque_schedule s free running now) in
    fst (deque_schedule s free running now) = map job_id (er_heads er @ er_backfilled er) \<and>
    fq_inv s' \<and> waiting s' = er_waiting er \<and> future s' = future (deque_sync_to s now) \<and>
    m_fcfs_reservation_time s' = er_reservation er"
  using deque_schedule_refines[OF assms refl] by (simp add: Let_def)

theorem deque_refines_easy_pass_witness:
  "er_waiting (easy_pass ex_queue 0 4 ex_running (dbl 1) (waiting (deque_sync_to ex_queue (dbl 1)))) =
   [new_entry 1 (dbl 0) (dbl 100) 8, new_entry 3 (dbl 1) (dbl 50) 4]"
  using deque_refines_easy_pass[OF ex_queue_inv, of 4 ex_running "dbl 1"]
  by (simp add: Let_def ex_queue_pass ex_after_simps(2)) (simp add: ex_queue_eq)

text \<open>
  The circular scheduler call by call: for every buffer that behaves as documented, every initial capacity and every sequence of
  submissions, synchronisations and passes, a circular scheduler with the GROW policy never throws and returns the batches of
  the deque scheduler.
\<close>

theorem circular_decides_as_deque:
  assumes "buffer_ok b"
  shows "batches_of (run_ops (circular_insert_job b) circular_sync_to circular_schedule
      (new_circular total_nodes job_count bf capacity GROW depth) ops) =
    batches_of (run_ops deque_insert deque_sync_to deque_schedule (new_deque total_nodes bf depth) ops)"
proof -
  have "deque_view (new_circular total_nodes job_count bf capacity GROW depth) = new_deque total_nodes bf depth"
    by (simp add: new_circular_def new_deque_def fcfs_queue.defs circular_queue.defs scheduler_base.defs)
  moreover have "length (m_wait_queue (new_circular total_nodes job_count bf capacity GROW depth)) \<le>
      m_capacity (new_circular total_nodes job_count bf capacity GROW depth)"
    "m_overflow_policy (new_circular total_nodes job_count bf capacity GROW depth) = GROW"
    by (simp_all add: new_circular_def fcfs_queue.defs circular_queue.defs scheduler_base.defs)
  ultimately show ?thesis using grow_run_eq[OF assms] by metis
qed

text \<open>
  C3: no job is lost and none is started twice.  For every sequence of calls whose submissions arrive in
  submit-time order with distinct identifiers, the identifiers returned by all passes are distinct, and
  together with the identifiers still pending they are exactly the submitted ones.
\<close>

theorem deque_jobs_started_once:
  assumes "admissible (\<lambda>s i t. in_order s t) deque_insert deque_sync_to deque_schedule (new_deque total_nodes bf depth) ops"
    and "run_ops deque_insert deque_sync_to deque_schedule (new_deque total_nodes bf depth) ops = Inr (batches, s')"
    and "distinct (submitted ops)"
  shows "distinct (concat batches) \<and> set (concat batches) \<inter> set (map job_id (pending s')) = {} \<and>
    set (concat batches) \<union> set (map job_id (pending s')) = set (submitted ops)"
  using assms by (intro dq.started_once[of "new_deque total_nodes bf depth"])
    (simp_all add: fq_inv_def pending_def waiting_def future_def new_deque_def fcfs_queue.defs scheduler_base.defs)

theorem deque_jobs_started_once_witness:
  "\<exists>s'. run_ops deque_insert deque_sync_to deque_schedule (new_deque 10 EASY 0)
      [Submit 1 (dbl 0) (dbl 5) 4, Submit 2 (dbl 1) (dbl 5) 8, Pass 10 [] (dbl 1)] = Inr ([[1]], s') \<and>
    set [1] \<union> set (map job_id (pending s')) = {1, 2}"
proof -
  define ops where "ops = [Submit 1 (dbl 0) (dbl 5) 4, Submit 2 (dbl 1) (dbl 5) 8, Pass 10 [] (dbl 1)]"
  have adm: "admissible (\<lambda>s i t. in_order s t) deque_insert deque_sync_to deque_schedule (new_deque 10 EASY 0) ops"
    by (simp add: ops_def deque_insert_def in_order_def eval_simps Let_def dbl_simps)
  obtain s' where run: "run_ops deque_insert deque_sync_to deque_schedule (new_deque 10 EASY 0) ops = Inr ([[1]], s')"
    by (simp add: ops_def deque_insert_def eval_simps Let_def dbl_simps word_less_def)
  show ?thesis using deque_jobs_started_once[OF adm run] run by (auto simp: ops_def)
qed

section \<open>The block queue and its scheduler\<close>

text \<open>
  C4: the block scheduler keeps its two structures in step.  On any state that satisfies the invariant
  a scheduling call does not throw one of its \<^verbatim>\<open>logic_error\<close>s; the identifiers it returns, the jobs left
  waiting and the future arrivals are those of the abstract pass on the list of waiting jobs, whichever
  of the two candidate loops runs, and the invariant holds again.
\<close>

theorem block_refines_block_pass:
  assumes "bs_inv bsize s"
  shows "\<exists>ids s'. block_schedule bsize s free running now = Inr (ids, s') \<and> bs_inv bsize s' \<and>
    (let er = block_pass s (bs_backfill_queue_depth s) free running now (bs_waiting (block_sync_to s now)) in
     ids = map job_id (er_heads er @ er_backfilled er) \<and> bs_waiting s' = er_waiting er \<and>
     bs_future s' = bs_future (block_sync_to s now))"
  using block_schedule_refines[OF assms refl, of free running now] by (auto simp: Let_def)

theorem block_refines_block_pass_witness:
  "\<exists>ids s'. block_schedule 4 ex_block 4 ex_running (dbl 1) = Inr (ids, s') \<and> bs_inv 4 s'"
  using block_refines_block_pass[OF ex_block_inv, of 4 ex_running "dbl 1"] by blast

text \<open>
  C5: the block scheduler decides as the deque scheduler.  Given the same waiting jobs, the same
  planning parameters and the same depth, the two return the same identifiers in the same order,
  provided that the release estimate of a waiting job is its run time and that a head that does not
  fit is reserved within the horizon.
\<close>

theorem block_decides_as_deque:
  assumes "bs_inv bsize s" "fq_inv d"
    and "bs_waiting (block_sync_to s now) = waiting (deque_sync_to d now)" "bs_backfill_queue_depth s = m_backfill_queue_depth d"
    and "same_planning s d" "m_fcfs_reservation_time s = m_fcfs_reservation_time d"
    and "\<forall>j\<in>set (waiting (deque_sync_to d now)). release_estimate d now (run_time_estimate j) = run_time_estimate j"
    and "\<forall>hs avail head behind. spec_heads free (waiting (deque_sync_to d now)) = (hs, avail, head # behind) \<longrightarrow>
       reservation_within_horizon d (value_or_max (earliest_fit (head_plan d avail running now hs) (nodes_requested head) 0 now)) now"
  shows "\<exists>s'. block_schedule bsize s free running now = Inr (fst (deque_schedule d free running now), s')"
proof -
  have "block_pass d (m_backfill_queue_depth d) free running now (waiting (deque_sync_to d now)) =
      easy_pass d (m_backfill_queue_depth d) free running now (waiting (deque_sync_to d now))"
    using assms(7,8) by (intro block_pass_easy) blast+
  then show ?thesis
    using block_schedule_refines[OF assms(1) refl, of free running now] deque_schedule_refines[OF assms(2) refl, of free running now]
    unfolding assms(3,4) bs_pass_cong(2)[OF assms(5,6)] by auto
qed

theorem block_decides_as_deque_witness:
  "\<exists>s'. block_schedule 4 ex_block 4 ex_running (dbl 1) = Inr (fst (deque_schedule ex_block_deque 4 ex_running (dbl 1)), s')"
proof (rule block_decides_as_deque[OF ex_block_inv ex_block_deque_facts(1)])
  show "\<forall>hs avail head behind. spec_heads 4 (waiting (deque_sync_to ex_block_deque (dbl 1))) = (hs, avail, head # behind) \<longrightarrow>
       reservation_within_horizon ex_block_deque (value_or_max (earliest_fit (head_plan ex_block_deque avail ex_running (dbl 1) hs)
         (nodes_requested head) 0 (dbl 1))) (dbl 1)"
    unfolding ex_block_deque_facts(2) ex_block_deque_facts(4) by (auto simp: ex_block_deque_facts(5) new_entry_def)
qed (simp_all add: ex_block_deque_facts ex_block_waiting)

text \<open>
  The block scheduler loses no job and starts none twice, for every block size that is a power of
  two (the \<^verbatim>\<open>static_assert\<close> of the class).
\<close>

theorem block_jobs_started_once:
  assumes "bsize = 2 ^ compute_log2 bsize"
    and "admissible bs_in_order (block_insert_job bsize) block_sync_to (block_run bsize) (new_block_scheduler total_nodes bf depth) ops"
    and "run_ops (block_insert_job bsize) block_sync_to (block_run bsize) (new_block_scheduler total_nodes bf depth) ops = Inr (batches, s')"
    and "distinct (submitted ops)"
  shows "distinct (concat batches) \<and> set (concat batches) \<inter> set (map job_id (bs_pending s')) = {} \<and>
    set (concat batches) \<union> set (map job_id (bs_pending s')) = set (submitted ops)"
  using assms by (intro bk.started_once[of bsize "new_block_scheduler total_nodes bf depth"]) (simp_all add: new_block_scheduler_inv)

theorem block_jobs_started_once_witness:
  "\<exists>s'. run_ops (block_insert_job 4) block_sync_to (block_run 4) (new_block_scheduler 10 EASY 0)
      [Submit 1 (dbl 0) (dbl 5) 4, Submit 2 (dbl 1) (dbl 5) 8, Pass 10 [] (dbl 1)] = Inr ([[1]], s') \<and>
    set [1] \<union> set (map job_id (bs_pending s')) = {1, 2}"
proof -
  define ops where "ops = [Submit 1 (dbl 0) (dbl 5) 4, Submit 2 (dbl 1) (dbl 5) 8, Pass 10 [] (dbl 1)]"
  have adm: "admissible bs_in_order (block_insert_job 4) block_sync_to (block_run 4) (new_block_scheduler 10 EASY 0) ops"
    by (simp add: ops_def bs_in_order_def eval_simps Let_def dbl_simps)
  obtain s' where run: "run_ops (block_insert_job 4) block_sync_to (block_run 4) (new_block_scheduler 10 EASY 0) ops = Inr ([[1]], s')"
    by (simp add: ops_def block_run_def eval_simps Let_def dbl_simps word_less_def)
  have "(4::nat) = 2 ^ compute_log2 4" by (simp add: log2_four)
  then show ?thesis using block_jobs_started_once[OF _ adm run] run by (auto simp: ops_def)
qed

text \<open>
  Rejecting blocks by their minima loses nothing.  The candidate search of the block queue returns
  the first entry in arrival order that has arrived, fits the free nodes and ends before the
  reservation, removes exactly that entry, and returns nothing only when no entry qualifies.
\<close>

theorem block_candidate_is_first:
  assumes "bq_ok bsize q" "index_ok mi" "find_and_remove_backfill_candidate mi q avail now res = (found, q')"
  shows "bq_ok bsize q' \<and>
    found = map_option (\<lambda>j. (bj_job_id j, bj_run_time_estimate j, bj_nodes_requested j)) (find (qualifies avail now res) (bq_jobs q)) \<and>
    bq_jobs q' = filter (\<lambda>j. Some (bj_job_id j) \<noteq> map_option fst found) (bq_jobs q)"
  using find_and_remove_law[OF assms] by (auto split: option.splits)

theorem block_candidate_is_first_witness:
  "fst (find_and_remove_backfill_candidate ex_index ex_block_queue 4 (dbl 1) (dbl 10)) = Some (2, dbl 5, 2)"
  using block_candidate_is_first[OF ex_block_queue_ok ex_index_ok prod.collapse[symmetric], of 4 "dbl 1" "dbl 10"]
  by (simp add: ex_block_queue_def bq_jobs_def qualifies_def block_job_of_def dbl_simps word_less_def)

text \<open>
  An insertion throws \<^verbatim>\<open>invalid_argument\<close> exactly on an identifier that does not exceed the last one.
  Every other insertion, with any gaps between identifiers and after any removals, finds room in its
  block (the second check of the code never fires) and appends the job in arrival order.
\<close>

theorem block_insert_errors:
  assumes "bq_ok bsize q"
  shows "(bq_insert bsize q i t r n = Inl Invalid_Argument \<longleftrightarrow> m_total_jobs q \<noteq> 0 \<and> i \<le> m_last_job_id q) \<and>
    (m_total_jobs q = 0 \<or> m_last_job_id q < i \<longrightarrow> (\<exists>q'. bq_insert bsize q i t r n = Inr q' \<and> bq_ok bsize q' \<and>
       bq_jobs q' = bq_jobs q @ [block_job_of i t r n] \<and> m_last_job_id q' = i))"
  using bq_insert_law[OF assms, of i t r n] by (auto simp: bq_accepts_def not_less split: if_splits)

theorem block_insert_errors_witness:
  "bq_insert 4 ex_block_queue 7 (dbl 2) (dbl 3) 1 = Inl Invalid_Argument \<and>
   (\<exists>q'. bq_insert 4 ex_block_queue 9 (dbl 2) (dbl 3) 1 = Inr q' \<and> m_last_job_id q' = 9)"
  using block_insert_errors[OF ex_block_queue_ok, of 7 "dbl 2" "dbl 3" 1] block_insert_errors[OF ex_block_queue_ok, of 9 "dbl 2" "dbl 3" 1]
  by (auto simp: ex_block_queue_def)

section \<open>The custom scheduler\<close>

text \<open>
  C6: no selector can delay the head.  The choice of the backfilled job belongs to code outside the class, but whatever that code answers,
  and however its cost function and hooks behave, a call that returns has started heads and at most one
  candidate whose run leaves the head's reservation, projected again with the started jobs running, where the call published it.
\<close>

theorem custom_head_not_delayed:
  assumes "cq_inv s" and "outlook_ok s" "m_outlook_occupied s \<le> m_outlook_capacity s"
    and "\<forall>t. now \<le> t \<longrightarrow> balance_at s free running now [] t < 2 ^ 32"
    and "m_backfill_policy s \<noteq> NONE"
    and "custom_schedule p s free running now w = (Inr ids, s', w')"
    and "waiting (queue_view s') = head # behind"
    and "reservation_within_horizon s (m_fcfs_reservation_time s') now"
    and "m_fcfs_reservation_time s' < m_fcfs_reservation_time s' + release_estimate s (m_fcfs_reservation_time s') (run_time_estimate head)"
    and "\<forall>j\<in>set (waiting (queue_view (custom_sync_to s now))). now < now + release_estimate s now (run_time_estimate j)"
  shows "\<exists>st. ids = map job_id st \<and> mset (waiting (queue_view (custom_sync_to s now))) = mset st + mset (waiting (queue_view s')) \<and>
    calculate_fcfs_reservation s (nodes_requested head) (free - sum_list (map nodes_requested st)) running now (map (projected s now) st) =
      m_fcfs_reservation_time s'"
  using assms by (intro custom_head_kept) auto

theorem custom_head_not_delayed_witness:
  "\<exists>st. [2] = map job_id st \<and> calculate_fcfs_reservation ex_custom 8 (4 - sum_list (map nodes_requested st)) ex_running (dbl 1)
      (map (projected ex_custom (dbl 1)) st) = dbl 10"
proof -
  have entry: "nodes_requested (new_entry 1 (dbl 0) (dbl 100) 8) = 8" "run_time_estimate (new_entry 1 (dbl 0) (dbl 100) 8) = dbl 100"
    by (simp_all add: new_entry_def)
  have at: "m_fcfs_reservation_time ex_custom_after = dbl 10" by (simp add: ex_custom_after_def ex_custom_def)
  have ahead: "dbl 10 < dbl 10 + release_estimate ex_custom (dbl 10) (dbl 100)"
    and jobs: "\<forall>j\<in>set (waiting (queue_view (custom_sync_to ex_custom (dbl 1)))). dbl 1 < dbl 1 + release_estimate ex_custom (dbl 1) (run_time_estimate j)"
    by (simp_all add: ex_custom_facts(7,8) new_entry_def dbl_simps)
  have balance: "\<forall>t. dbl 1 \<le> t \<longrightarrow> balance_at ex_custom 4 ex_running (dbl 1) [] t < 2 ^ 32" using ex_custom_balance by simp
  note kept = custom_head_not_delayed[OF ex_custom_inv ex_custom_facts(1,2) balance ex_custom_facts(3) ex_custom_pass ex_custom_facts(6), unfolded at entry,
      OF ex_custom_facts(5) ahead jobs]
  show ?thesis using kept by (elim exE conjE) (intro exI conjI)
qed

text \<open>
  C7: what a call makes of the selector's answer.  Let \<open>hs\<close> be the heads that fit and \<open>rest\<close> the jobs behind them.  When nothing can
  be offered the call returns the heads.  Otherwise the selector is asked once, about exactly the offered candidates: it may throw, and the call throws the same;
  it may decline, and the call returns the heads; it may name an offered job, which is returned behind the heads; any other job is \<^verbatim>\<open>invalid_argument\<close>.
  The invariant holds after every outcome.  Before an exception the heads have left the queue, so they are neither waiting nor returned.
\<close>

theorem custom_answers:
  assumes "cq_inv s" and "spec_heads free (waiting (queue_view (custom_sync_to s now))) = (hs, avail, rest)"
    and "custom_schedule p s free running now w = (r, s', w')"
  shows "cq_inv s' \<and> (\<forall>e. r = Inl e \<longrightarrow> waiting (queue_view s') = rest) \<and>
    (if offered s free running now = [] then r = Inr (map job_id hs)
      else \<exists>effective w1. r = (case fst (select_backfill_candidate p (offered s free running now) avail effective now w1) of
        Inl e \<Rightarrow> Inl e
      | Inr None \<Rightarrow> Inr (map job_id hs)
      | Inr (Some i) \<Rightarrow> if i \<in> fst ` set (offered s free running now) then Inr (map job_id hs @ [i]) else Inl Invalid_Argument))"
  using custom_schedule_outcome[OF assms] by (auto simp: custom_outcome_def answered_def)

theorem custom_answers_witness:
  "fst (custom_schedule ex_stray ex_custom 4 ex_running (dbl 1) ()) = Inl Invalid_Argument"
proof -
  have sh: "spec_heads 4 (waiting (queue_view (custom_sync_to ex_custom (dbl 1)))) = ([], 4, waiting (queue_view (custom_sync_to ex_custom (dbl 1))))"
    by (simp add: ex_custom_facts(7) new_entry_def word_less_def)
  obtain r s' w' where c: "custom_schedule ex_stray ex_custom 4 ex_running (dbl 1) () = (r, s', w')" by (metis prod_cases3)
  show ?thesis using custom_answers[OF ex_custom_inv sh c] by (simp add: c ex_custom_offered ex_stray_select)
qed

text \<open>
  C8: taking the first candidate is EASY backfilling.  The class documents that its feasibility test is that of the circular EASY scheduler.  Where
  the head has a projected start, with a full scan and a selector that takes the first candidate, a call returns the heads of the abstract EASY pass, which the
  deque and circular schedulers refine, and the first job that the pass backfills; the event loop repeats the call for the next.
\<close>

theorem custom_first_is_easy:
  assumes "cq_inv s" and "0 < m_num_max_candidates s" and "m_reevaluate_all_candidates s \<or> cq_backfill_queue_depth s \<noteq> 0"
    and "\<forall>cs a eff w. cs \<noteq> [] \<longrightarrow> fst (select_backfill_candidate p cs a eff now w) = Inr (Some (fst (hd cs)))"
    and "er = easy_pass s (cq_backfill_queue_depth s) free running now (waiting (queue_view (custom_sync_to s now)))"
    and "\<forall>j\<in>set (waiting (queue_view (custom_sync_to s now))). 0 < nodes_requested j"
    and "er_reservation er \<noteq> dbl_max"
    and "custom_schedule p s free running now w = (r, s', w')"
  shows "r = Inr (map job_id (er_heads er @ take 1 (er_backfilled er)))"
  using assms by (intro first_choice_is_easy[where er = er]) auto

theorem custom_first_is_easy_witness:
  "let er = easy_pass ex_custom 0 4 ex_running (dbl 1) (waiting (queue_view (custom_sync_to ex_custom (dbl 1)))) in
   map job_id (er_heads er @ take 1 (er_backfilled er)) = [2]"
proof -
  have "er_reservation (easy_pass ex_custom (cq_backfill_queue_depth ex_custom) 4 ex_running (dbl 1)
      (waiting (queue_view (custom_sync_to ex_custom (dbl 1))))) \<noteq> dbl_max"
    by (simp add: ex_custom_facts(11) ex_custom_easy dbl_simps)
  moreover have "\<forall>j\<in>set (waiting (queue_view (custom_sync_to ex_custom (dbl 1)))). 0 < nodes_requested j"
    by (simp add: ex_custom_facts(7) new_entry_def)
  moreover have "\<forall>cs a eff w. cs \<noteq> [] \<longrightarrow>
      fst (select_backfill_candidate first_choice cs a eff (dbl 1) w) = Inr (Some (fst (hd cs)))"
    by (auto simp: first_choice_select split: list.split)
  ultimately have "Inr [2] = (Inr (map job_id (er_heads (easy_pass ex_custom (cq_backfill_queue_depth ex_custom) 4 ex_running (dbl 1)
      (waiting (queue_view (custom_sync_to ex_custom (dbl 1))))) @
      take 1 (er_backfilled (easy_pass ex_custom (cq_backfill_queue_depth ex_custom) 4 ex_running (dbl 1)
      (waiting (queue_view (custom_sync_to ex_custom (dbl 1)))))))) :: exn + job_no list)"
    by (intro custom_first_is_easy[OF ex_custom_inv _ _ _ refl _ _ ex_custom_pass]) (simp_all add: ex_custom_facts(9,10))
  then show ?thesis by (simp add: ex_custom_facts(11) Let_def)
qed

text \<open>
  A head that the profile has no place for, as after a reduction of the capacity, is where the two part: the built-in schedulers
  start nothing behind it, the custom one offers every job that fits the free nodes.
\<close>

theorem custom_unprojected_head:
  assumes "cq_inv s" "0 < m_num_max_candidates s" "m_backfill_policy s \<noteq> NONE" "m_reevaluate_all_candidates s \<or> cq_backfill_queue_depth s \<noteq> 0"
    and "spec_heads free (waiting (queue_view (custom_sync_to s now))) = (hs, a, head # behind)"
    and "calculate_fcfs_reservation s (nodes_requested head) a running now (map (projected s now) hs) = dbl_max"
  shows "map fst (offered s free running now) = map job_id (take (m_num_max_candidates s)
      (filter (\<lambda>j. nodes_requested j \<le> a) (fst (candidates (cq_backfill_queue_depth s) False behind))))"
    and "er_backfilled (easy_pass s (cq_backfill_queue_depth s) free running now (waiting (queue_view (custom_sync_to s now)))) = []"
  using unprojected_head[OF assms] by blast+

text \<open>
  The public query \<^verbatim>\<open>find_backfill_candidates\<close> plans without the running jobs.  On a blocked head the subtraction of the reservation wraps, and every
  job that fits now is reported, however long it would hold the nodes that the head waits for.
\<close>

theorem custom_query_ignores_reservation:
  assumes "m_outlook_changes s = []" "\<not> (a = 0 \<and> m_outlook_capacity s < m_outlook_occupied s)"
    and "cq_wait_queue s = head # behind" "a < nodes_requested head" "nodes_requested head \<le> 2147483648"
    and "now \<le> res" "0 < m_num_max_candidates s" "cq_backfill_queue_depth s = 0"
  shows "find_backfill_candidates s a now res =
    map candidate_of (take (m_num_max_candidates s)
      (filter (\<lambda>j. \<not> removed j \<and> nodes_requested j \<le> a) (take (cq_eligible_end_idx s - 1) behind)))"
  by (rule query_ignores_reservation[OF assms])

text \<open>
  No job is lost and none is started twice, for any selector that answers with a candidate or declines; and the
  resource area that the event loop accumulates over whole-second event times is exactly the integral of the allocated nodes.
\<close>

theorem custom_jobs_started_once:
  assumes "custom_buffer_ok b" "honest p" "new_custom tn initial bf m p capacity overflow = Inr s"
    and "admissible custom_accepts (custom_insert b p) custom_sync (custom_call p) (s, w) ops"
    and "run_ops (custom_insert b p) custom_sync (custom_call p) (s, w) ops = Inr (batches, s')" "distinct (submitted ops)"
  shows "distinct (concat batches) \<and> set (concat batches) \<inter> set (map job_id (custom_pending (fst s'))) = {} \<and>
    set (concat batches) \<union> set (map job_id (custom_pending (fst s'))) = set (submitted ops)"
  using custom_client.custom_started_once[OF custom_client.intro[OF assms(1,2)] _ _ assms(4,5,6)] new_custom_inv(1,2)[OF assms(3)] by simp

theorem custom_area_is_integral:
  assumes "m_resource_area s = dbl area" "m_resource_area_time s = dbl t" "m_accounted_available_nodes s \<le> m_total_nodes s"
    and "0 \<le> t" "sorted (t # map fst es)" "\<forall>e\<in>set es. fst e \<le> l \<and> snd e \<le> m_total_nodes s"
    and "0 \<le> area" "area \<le> uint (m_total_nodes s) * t" "uint (m_total_nodes s) * l \<le> 9007199254740992" "t \<le> l" "l \<le> 9007199254740992"
  shows "\<exists>s'. account es s = Inr s' \<and>
    m_resource_area s' = dbl (area + node_seconds (uint (m_total_nodes s)) t (uint (m_accounted_available_nodes s)) es)"
  by (rule account_exact[OF assms])

section \<open>The hybrid and conservative schedulers\<close>

text \<open>
  C9: the hybrid and conservative policies keep their promises.  Run the candidate traversal with a
  planner that records its commitments: it starts the jobs the real traversal starts, every started
  job and every protected job is one commitment, and at every time the commitments of that time fit
  the projected capacity.  The horizon is arbitrary (the default is the largest double).  The clock, the times of the
  profile, all at most \<open>K\<close>, and the run times \<open>secs j\<close> of the head and the candidates are whole seconds, the planning
  resolution is 0, the default, and \<open>K\<close> plus all these run times is at most \<open>2\<^sup>5\<^sup>3\<close>: no reservation can then be placed
  beyond the whole numbers that doubles hold exactly.
\<close>

theorem hybrid_no_oversubscription:
  assumes "wf_tl base" "origin base = now" "fst ` set base \<subseteq> whole K" "now \<in> whole K"
    and "m_planning_time_resolution s = 0" "\<forall>j\<in>set (head # js). run_time_estimate j = dbl (secs j) \<and> 0 \<le> secs j"
    and "K + sum_list (map secs (head # js)) \<le> 9007199254740992"
    and "hybrid_scan log_fit log_commit s now u qd pd avail base
        (protect_job log_fit log_commit s now pd (0, (base, [])) head None) ex js = (st, js', ex', c, p, l)"
  shows "fst (hybrid_scan timeline_fit reserve s now u qd pd avail base
        (protect_job timeline_fit reserve s now pd (0, base) head None) ex js) = st \<and>
    length l = c + length st \<and>
    (\<forall>j\<in>set st. (now, nodes_requested j, release_estimate s now (run_time_estimate j)) \<in> set l) \<and>
    (\<forall>t. now \<le> t \<longrightarrow> booked l t \<le> unat (cap base t))"
  using hybrid_commitments[OF assms(1-4) _ assms(7,8)] assms(5,6) by (simp add: exact_job_def)

theorem hybrid_no_oversubscription_witness:
  "m_planning_horizon ex_hybrid = dbl_max \<and>
   fst (hybrid_scan timeline_fit reserve ex_hybrid (dbl 0) False 0 2 4 ex_base
        (protect_job timeline_fit reserve ex_hybrid (dbl 0) 2 (0, ex_base) (new_entry 1 (dbl 0) (dbl 100) 8) None) 1 ex_candidates) =
     [new_entry 2 (dbl 0) (dbl 5) 2] \<and>
   booked [(dbl 110, 4, dbl 50), (dbl 0, 2, dbl 5), (dbl 10, 8, dbl 100)] (dbl 12) \<le> unat (cap ex_base (dbl 12))"
proof -
  define secs :: "job_entry \<Rightarrow> int" where "secs j = (if job_id j = 1 then 100 else if job_id j = 2 then 5 else 50)" for j
  have "wf_tl ex_base" "origin ex_base = dbl 0" by (simp_all add: ex_base_def wf_tl_def origin_def dbl_simps)
  moreover have "fst ` set ex_base \<subseteq> whole 10" "dbl 0 \<in> whole 10" by (simp_all add: ex_base_def whole_def)
  moreover have "m_planning_time_resolution ex_hybrid = 0" by (simp add: ex_hybrid_def)
  moreover have "\<forall>j\<in>set (new_entry 1 (dbl 0) (dbl 100) 8 # ex_candidates). run_time_estimate j = dbl (secs j) \<and> 0 \<le> secs j"
    "10 + sum_list (map secs (new_entry 1 (dbl 0) (dbl 100) 8 # ex_candidates)) \<le> 9007199254740992"
    by (simp_all add: ex_candidates_def new_entry_def secs_def)
  ultimately have "fst (hybrid_scan timeline_fit reserve ex_hybrid (dbl 0) False 0 2 4 ex_base
        (protect_job timeline_fit reserve ex_hybrid (dbl 0) 2 (0, ex_base) (new_entry 1 (dbl 0) (dbl 100) 8) None) 1 ex_candidates) =
     [new_entry 2 (dbl 0) (dbl 5) 2] \<and> (\<forall>t. dbl 0 \<le> t \<longrightarrow>
       booked [(dbl 110, 4, dbl 50), (dbl 0, 2, dbl 5), (dbl 10, 8, dbl 100)] t \<le> unat (cap ex_base t))"
    using hybrid_no_oversubscription[OF _ _ _ _ _ _ _ ex_traversal, of 10 secs] by blast
  moreover have "dbl 0 \<le> dbl 12" by (simp add: dbl_simps)
  moreover have "m_planning_horizon ex_hybrid = dbl_max" by (simp add: ex_hybrid_def)
  ultimately show ?thesis by blast
qed

text \<open>
  The variants of the hybrid scheduler make the same decisions.  On the same state a call of the
  deque class is a call of the circular class, and the traversal with the search cache as its
  protection planner is the traversal with the plain timeline, for both slot rules.
\<close>

theorem hybrid_variants_agree:
  "hybrid_schedule s free running now = hc_schedule False s free running now \<and>
   schedule_with_protection cache_earliest_fit cache_reserve new_cache uses_slot s free running now =
     hc_schedule uses_slot s free running now"
  by (simp add: cached_schedule_eq hybrid_schedule_eq) (simp add: hc_schedule_def protection_eq)

text \<open>
  Construction errors: the two hybrid classes throw exactly when they are given the EASY policy; the
  dispatch class, which passes EASY on as HYBRID with one reservation, never throws.
\<close>

theorem hybrid_rejects_easy:
  "(new_hybrid_deque total_nodes policy rd qd = Inl e \<longleftrightarrow> policy = EASY \<and> e = Invalid_Argument) \<and>
   (new_hybrid_circular total_nodes job_count policy capacity overflow rd qd = Inl e \<longleftrightarrow> policy = EASY \<and> e = Invalid_Argument) \<and>
   (\<exists>s. new_periodic_dispatch total_nodes job_count policy capacity overflow rd dd = Inr s \<and>
     (policy = EASY \<longrightarrow> m_backfill_policy s = HYBRID \<and> m_reservation_depth s = 1))"
  by (auto simp: new_hybrid_deque_def new_hybrid_circular_def new_periodic_dispatch_def new_base_def scheduler_base.defs
      fcfs_queue.defs hybrid_queue.defs hybrid_circular.defs periodic_dispatch.defs)

section \<open>Periodic scheduling\<close>

text \<open>
  Ticks and events of the periodic EASY scheduler never lose or repeat a job.  For every buffer
  that behaves as documented and every session from a new scheduler, in which submissions arrive in
  submit-time order with distinct identifiers, the started identifiers are distinct and, with the
  pending ones, exactly the submitted ones.
\<close>

theorem periodic_jobs_started_once:
  assumes "buffer_ok b"
    and "session (circular_insert_job b) circular_sync_to periodic_easy_schedule periodic_easy_event
        (\<lambda>s i t. in_order s t) (new_periodic_easy total_nodes job_count capacity overflow depth) s sub st"
    and "distinct sub"
  shows "distinct st \<and> set st \<inter> set (map job_id (pending s)) = {} \<and> set st \<union> set (map job_id (pending s)) = set sub"
proof -
  have "circ_inv (new_periodic_easy total_nodes job_count capacity overflow depth)"
    "pending (new_periodic_easy total_nodes job_count capacity overflow depth) = []"
    by (simp_all add: new_periodic_easy_def new_circular_def circ_inv_def fq_inv_def pending_def waiting_def future_def
        circular_queue.defs fcfs_queue.defs scheduler_base.defs periodic_easy.defs)
  from event_scheduler.session_once[OF periodic_easy_event_scheduler[OF assms(1)] assms(2) this assms(3)] show ?thesis .
qed

theorem periodic_jobs_started_once_witness:
  "\<exists>s. session (circular_insert_job documented_buffer) circular_sync_to periodic_easy_schedule periodic_easy_event
        (\<lambda>s i t. in_order s t) (new_periodic_easy 10 0 2 ABORT 0) s [1] [1] \<and> map job_id (pending s) = []"
proof -
  define s0 where "s0 = new_periodic_easy 10 0 2 ABORT 0"
  obtain s1 where s1: "circular_insert_job documented_buffer s0 1 (dbl 0) (dbl 5) 4 = Inr s1"
      "fst (periodic_easy_event s1 10 [] (dbl 1)) = [1]"
    by (simp add: s0_def circular_insert_job_def documented_buffer_def new_circular_def circular_sync_to_def
        circular_queue.defs periodic_easy.defs eval_simps Let_def dbl_simps word_less_def)
  have "in_order s0 (dbl 0)"
    by (simp add: in_order_def s0_def new_periodic_easy_def new_circular_def circular_queue.defs fcfs_queue.defs
        scheduler_base.defs periodic_easy.defs)
  then have "session (circular_insert_job documented_buffer) circular_sync_to periodic_easy_schedule periodic_easy_event
      (\<lambda>s i t. in_order s t) s0 s1 [1] []"
    using s1(1) by (rule session.submit[where pre = "\<lambda>s i t. in_order s t", OF session.start])
  from session.event[OF this, of 10 "[]" "dbl 1" "[1]" "snd (periodic_easy_event s1 10 [] (dbl 1))"] s1(2)
  have "session (circular_insert_job documented_buffer) circular_sync_to periodic_easy_schedule periodic_easy_event
      (\<lambda>s i t. in_order s t) s0 (snd (periodic_easy_event s1 10 [] (dbl 1))) [1] [1]" by (simp add: prod_eq_iff)
  note ses = this[unfolded s0_def]
  have only: "P = {}" if "distinct [a] \<and> set [a] \<inter> P = {} \<and> set [a] \<union> P = set [a]" for a :: nat and P using that by auto
  have "set (map job_id (pending (snd (periodic_easy_event s1 10 [] (dbl 1))))) = {}"
    by (rule only[OF periodic_jobs_started_once[OF documented_buffer_ok ses distinct_singleton]])
  then have "map job_id (pending (snd (periodic_easy_event s1 10 [] (dbl 1)))) = []" by (simp only: set_empty)
  with ses show ?thesis by blast
qed

text \<open>
  An event dispatches in order and nothing else.  The waiting jobs split into the jobs started and
  the jobs left: the started ones fit the free nodes together, the next one would not, and its
  projected start is the published reservation.
\<close>

theorem event_starts_fcfs_prefix:
  assumes "fq_inv s" and "periodic_easy_event s free running now = (ids, s')"
    and "spec_heads free (waiting (deque_sync_to s now)) = (hs, avail, rest)"
  shows "ids = map job_id hs \<and> fq_inv s' \<and> waiting (deque_sync_to s now) = hs @ rest \<and> waiting s' = rest \<and>
    nodes_sum hs + unat avail = unat free \<and>
    (rest \<noteq> [] \<longrightarrow> avail < nodes_requested (hd rest) \<and> m_fcfs_reservation_time s' =
       calculate_fcfs_reservation (deque_sync_to s now) (nodes_requested (hd rest)) avail running now
         (map (projected (deque_sync_to s now) now) hs))"
proof -
  have "fq_inv (deque_sync_to s now)" using sync_to_refines[OF assms(1)] by blast
  from dispatch_event_refines[OF this _ assms(3)] assms(2) spec_heads_correct[OF assms(3)] show ?thesis
    by (auto simp: periodic_easy_event_def circular_sync_eq)
qed

theorem event_starts_fcfs_prefix_witness:
  "\<exists>s'. periodic_easy_event ex_periodic 10 [] (dbl 1) = ([1], s') \<and> waiting s' = [new_entry 2 (dbl 0) (dbl 5) 8]"
proof -
  obtain ids s' where ev: "periodic_easy_event ex_periodic 10 [] (dbl 1) = (ids, s')" by (rule prod.exhaust)
  from event_starts_fcfs_prefix[OF ex_periodic_facts(1) ev ex_periodic_facts(3)] ev show ?thesis
    by (simp add: new_entry_def)
qed

text \<open>
  C10: periodic dispatch looks only at its prefix and restores what it withheld.  For every hash function
  the call returns; with \<open>Q\<close> the dispatch depth (all waiting jobs when it is zero), the started jobs
  come from the first \<open>Q\<close> waiting jobs and fit the free nodes, and the jobs still waiting are the
  others of that prefix followed by the withheld ones in their order.
\<close>

theorem dispatch_examines_prefix:
  assumes "hc_inv s" and W: "W = waiting (hc_sync_to s now)"
    and Q: "Q = (if m_dispatch_queue_depth s = 0 then length W else m_dispatch_queue_depth s)"
  shows "\<exists>st front s'. periodic_dispatch_schedule hash s free running now = Some (map job_id st, s') \<and> hc_inv s' \<and>
    nodes_sum st \<le> unat free \<and> mset (take Q W) = mset st + mset front \<and> waiting s' = front @ drop Q W"
  by (rule dispatch_schedule_law[OF assms(1) W, of hash free running]) (auto simp: dispatch_outcome_def Q Let_def)

theorem dispatch_examines_prefix_witness:
  "\<exists>st front s'. periodic_dispatch_schedule (\<lambda>_. 0) ex_dispatch 10 [] (dbl 1) = Some (map job_id st, s') \<and>
    mset [new_entry 1 (dbl 0) (dbl 5) 4] = mset st + mset front \<and> waiting s' = front @ [new_entry 2 (dbl 0) (dbl 5) 2]"
  using dispatch_examines_prefix[OF ex_dispatch_facts(1) refl refl, where hash = "\<lambda>_. 0" and now = "dbl 1" and free = 10 and running = "[]"]
  by (auto simp: ex_dispatch_facts)

text \<open>
  C11: the sampling loop terminates and counts right.  Whatever the hash function, linear probing in the
  half-full table always stops, and the answer is whether the first 128 live eligible jobs have at
  most 112 distinct shapes.
\<close>

theorem shape_sample_correct:
  "prefix_reuses_interval_shapes hash s =
     Some (card (shape_of ` set (take 128 (filter (\<lambda>j. \<not> removed j) (take (m_eligible_end_idx s) (m_wait_queue s))))) \<le> 112)"
  using prefix_reuses_correct[of hash s] by (simp add: waiting_def)

section \<open>The ordered schedulers\<close>

text \<open>
  C12: shortest-job-first backfilling does not delay the head.  When the head the call finds is blocked,
  reserved after the current time and inside the horizon, the jobs the call starts, in shortest-first
  order, leave its projected start where the call published it.
\<close>

theorem ordered_head_not_delayed:
  assumes "mm_inv (<) mm_run_time s" "outlook_ok s" "m_outlook_occupied s \<le> m_outlook_capacity s"
    and "\<forall>t. now \<le> t \<longrightarrow> balance_at s free running now [] t < 2 ^ 32"
    and u: "u = mm_update_eligible s now" and h: "sjf_find_fcfs_head u = Some h"
    and e: "e = entry_of (snd (mm_wait_queue u ! h))" and "\<not> nodes_requested e \<le> free" "0 < free"
    and sch: "sjf_schedule s free running now = (ids, s')"
    and "res = calculate_fcfs_reservation s (nodes_requested e) free running now []" "now < res"
    and "reservation_within_horizon s res now" "res < res + release_estimate s res (run_time_estimate e)"
    and "\<forall>j\<in>set (mm_jobs s). now < now + release_estimate s now (run_time_estimate j)"
    and "m_backfill_policy s = EASY \<or> m_backfill_policy s = CONSERVATIVE"
  shows "\<exists>st. ids = map job_id st \<and> m_fcfs_reservation_time s' = res \<and>
    calculate_fcfs_reservation s (nodes_requested e) (free - sum_list (map nodes_requested st)) running now
      (map (projected s now) st) = res"
proof -
  have "distinct (map (\<lambda>p. mm_job_id (snd p)) (mm_wait_queue u))"
    using mm_update_law(1)[OF assms(1), of now] u by (simp add: mm_inv_def)
  then show ?thesis
    using mm_head_not_delayed[where find_head = sjf_find_fcfs_head, OF assms(2,3) _ u h _ _ e assms(8,9) _ _ assms(11-16)]
      sj.find_valid[OF h] assms(4) sch by (simp add: sjf_schedule_def)
qed

theorem ordered_head_not_delayed_witness:
  "\<exists>st. [2] = map job_id st \<and> m_fcfs_reservation_time ex_sjf_after = dbl 10 \<and>
    calculate_fcfs_reservation ex_sjf 8 (4 - sum_list (map nodes_requested st)) ex_running (dbl 1)
      (map (projected ex_sjf (dbl 1)) st) = dbl 10"
proof -
  have e: "entry_of (mm_entry_of 1 (dbl 0) (dbl 100) 8) = entry_of (snd (mm_wait_queue (mm_update_eligible ex_sjf (dbl 1)) ! 2))"
    by (simp add: ex_sjf_pass(3))
  have "nodes_requested (entry_of (mm_entry_of 1 (dbl 0) (dbl 100) 8)) = 8" "run_time_estimate (entry_of (mm_entry_of 1 (dbl 0) (dbl 100) 8)) = dbl 100"
    by (simp_all add: mm_entry_of_def)
  then show ?thesis
    using ordered_head_not_delayed[OF ex_sjf_inv ex_sjf_planning(1,2) _ refl ex_sjf_pass(2) e _ _ ex_sjf_pass(1), of "dbl 10"]
      ex_sjf_planning(3-) by simp
qed

text \<open>
  The shortest-job-first queue is well-formed and loses nothing.  After any sequence of calls whose
  submissions have fresh identifiers, the queue is ordered by run time, the eligible identifiers are
  exactly those of the arrived jobs, and the started and pending identifiers are the submitted ones,
  each once.
\<close>

theorem sjf_jobs_started_once:
  assumes "admissible (\<lambda>s i t. i \<notin> set (map (\<lambda>p. mm_job_id (snd p)) (mm_wait_queue s)))
      (\<lambda>s i t r n. Inr (sjf_insert_job s i t r n)) mm_update_eligible sjf_schedule (new_mm_queue total_nodes bf depth) ops"
    and "run_ops (\<lambda>s i t r n. Inr (sjf_insert_job s i t r n)) mm_update_eligible sjf_schedule (new_mm_queue total_nodes bf depth) ops
      = Inr (batches, s')"
    and "distinct (submitted ops)"
  shows "sorted (map (\<lambda>p. mm_run_time (snd p)) (mm_wait_queue s')) \<and>
    mm_eligible_jobs s' = (\<lambda>p. mm_job_id (snd p)) ` {p \<in> set (mm_wait_queue s'). mm_submit_time (snd p) \<le> mm_current_tracked_time s'} \<and>
    distinct (concat batches) \<and> set (concat batches) \<inter> set (mm_pending_job_ids s') = {} \<and>
    set (concat batches) \<union> set (mm_pending_job_ids s') = set (submitted ops)"
proof -
  have sch: "sjf_schedule = mm_schedule sjf_find_fcfs_head" by (intro ext) (simp add: sjf_schedule_def)
  have i: "mm_inv (<) mm_run_time s'" using sj.run_conserves[OF mm_inv_new(1) assms(1,2)[unfolded sch]] by blast
  have "map job_id (mm_jobs s') = mm_pending_job_ids s'" by (simp add: mm_jobs_def mm_pending_job_ids_def)
  moreover have "sorted (map (\<lambda>p. mm_run_time (snd p)) (mm_wait_queue s'))" using i by (rule mm_inv_sorted)
  moreover have "mm_eligible_jobs s' = (\<lambda>p. mm_job_id (snd p)) ` {p \<in> set (mm_wait_queue s'). mm_submit_time (snd p) \<le> mm_current_tracked_time s'}"
    using i unfolding mm_inv_def by blast
  ultimately show ?thesis using sj.started_once[OF mm_inv_new assms(1,2)[unfolded sch] assms(3)] by simp
qed

theorem sjf_jobs_started_once_witness:
  "\<exists>s'. run_ops (\<lambda>s i t r n. Inr (sjf_insert_job s i t r n)) mm_update_eligible sjf_schedule (new_mm_queue 10 EASY 0)
      [Submit 1 (dbl 0) (dbl 9) 4, Submit 2 (dbl 0) (dbl 5) 8, Pass 10 [] (dbl 1)] = Inr ([[2]], s') \<and>
    {2} \<union> set (mm_pending_job_ids s') = {1, 2}"
proof -
  define ops where "ops = [Submit 1 (dbl 0) (dbl 9) 4, Submit 2 (dbl 0) (dbl 5) 8, Pass 10 [] (dbl 1)]"
  have adm: "admissible (\<lambda>s i t. i \<notin> set (map (\<lambda>p. mm_job_id (snd p)) (mm_wait_queue s)))
      (\<lambda>s i t r n. Inr (sjf_insert_job s i t r n)) mm_update_eligible sjf_schedule (new_mm_queue 10 EASY 0) ops"
    by (simp add: ops_def eval_simps Let_def dbl_simps)
  obtain s' where run: "run_ops (\<lambda>s i t r n. Inr (sjf_insert_job s i t r n)) mm_update_eligible sjf_schedule (new_mm_queue 10 EASY 0) ops
      = Inr ([[2]], s')"
    by (simp add: ops_def eval_simps Let_def dbl_simps word_less_def)
  show ?thesis using sjf_jobs_started_once[OF adm run] run by (auto simp: ops_def)
qed

text \<open>
  C13: the multimap implementation agrees with the EASY pass that the deque implements.  With a blocked
  head reserved after the current time a call starts exactly the jobs of the pass and publishes its
  reservation; with a head that fits it starts the pass's first job, one per call.
\<close>

theorem multimap_refines_easy_pass:
  assumes "mm_inv (<) mm_submit_time s" "mm_waiting (mm_update_eligible s now) = j # js"
    and "m_backfill_policy s = EASY" "0 < free"
    and "nodes_requested j \<le> free \<or> now < calculate_fcfs_reservation s (nodes_requested j) free running now []"
  shows "let er = easy_pass s (mm_backfill_queue_depth s) free running now (j # js) in
    fst (fcfs_mm_schedule s free running now) =
      (if nodes_requested j \<le> free then [job_id (hd (er_heads er))] else map job_id (er_heads er @ er_backfilled er)) \<and>
    (\<not> nodes_requested j \<le> free \<longrightarrow> m_fcfs_reservation_time (snd (fcfs_mm_schedule s free running now)) = er_reservation er)"
  using fcfs_mm_refines[OF assms(1) refl assms(2) refl assms(3,4,5)] assms(2) by (simp add: Let_def)

theorem multimap_refines_easy_pass_witness:
  "let er = easy_pass ex_mm 0 4 ex_running (dbl 1) [entry_of (mm_entry_of 1 (dbl 0) (dbl 100) 8),
      entry_of (mm_entry_of 2 (dbl 1) (dbl 5) 2), entry_of (mm_entry_of 3 (dbl 1) (dbl 50) 4)] in
   fst (fcfs_mm_schedule ex_mm 4 ex_running (dbl 1)) = map job_id (er_heads er @ er_backfilled er)"
  using multimap_refines_easy_pass[OF ex_mm_facts(1,2,3), of 4 ex_running] ex_mm_facts(4-) by (simp add: Let_def)

section \<open>Planning\<close>

text \<open>
  C14: the earliest-fit search is correct.  On an ordered profile and a start not before its origin, the
  answer is the least feasible start (a start is feasible when the capacity covers the request there
  and at every time of its interval), no answer means no start is feasible, and \<^verbatim>\<open>can_fit\<close> says whether
  the given start is feasible.
\<close>

theorem timeline_earliest_fit:
  assumes "wf_tl xs" "origin xs \<le> start"
  shows "least_fit xs n d start (earliest_fit xs n d start) \<and> (can_fit xs start n d \<longleftrightarrow> fits xs n d start)"
  using assms earliest_fit_least can_fit_iff by blast

theorem timeline_earliest_fit_witness:
  "earliest_fit ex_timeline 6 (dbl 5) (dbl 1) = Some (dbl 10) \<and>
   least_fit ex_timeline 6 (dbl 5) (dbl 1) (Some (dbl 10))"
proof -
  have "earliest_fit ex_timeline 6 (dbl 5) (dbl 1) = Some (dbl 10)"
    by (simp add: ex_timeline_def eval_simps Let_def dbl_simps)
  with timeline_earliest_fit[OF ex_timeline_wf(1), of "dbl 1" 6 "dbl 5"] show ?thesis
    by (simp add: ex_timeline_wf dbl_simps)
qed

text \<open>
  C15: a reservation subtracts its nodes exactly on its interval.  The profile stays ordered with the same
  origin, the capacity inside the interval is lowered by the request and unchanged elsewhere, and when
  the request fits, the subtraction does not wrap at any time.
\<close>

theorem timeline_reserve:
  assumes "wf_tl xs" "origin xs \<le> start"
  shows "wf_tl (reserve xs start n d) \<and> origin (reserve xs start n d) = origin xs \<and>
    (\<forall>t. origin xs \<le> t \<longrightarrow> cap (reserve xs start n d) t =
      (if start \<le> t \<and> t < start + d then cap xs t - n else cap xs t)) \<and>
    (fits xs n d start \<longrightarrow> (\<forall>t. origin xs \<le> t \<longrightarrow> cap (reserve xs start n d) t \<le> cap xs t))"
  using reserve_correct[OF assms] reserve_fits_le[OF assms] by blast

theorem timeline_reserve_witness:
  "cap (reserve ex_timeline (dbl 10) 6 (dbl 5)) (dbl 12) = 4"
proof -
  have "dbl 0 \<le> dbl 10" "dbl 0 \<le> dbl 12" "dbl 10 \<le> dbl 12" "dbl 12 < dbl 10 + dbl 5" by (simp_all add: dbl_simps)
  moreover have "cap ex_timeline (dbl 12) = 10" by (simp add: ex_timeline_def dbl_simps)
  ultimately show ?thesis using timeline_reserve[OF ex_timeline_wf(1), of "dbl 10" 6 "dbl 5"]
    by (simp add: ex_timeline_wf)
qed

text \<open>
  C16: the projected profile means what it should.  It is ordered and starts at the current time, and at
  every time from then on its capacity is the signed balance clamped at zero: the free nodes (or the
  deficit of an overcommitted system), plus the nodes of the running and just-started jobs that have
  ended by then, plus the difference of the scheduled capacity between then and now.
\<close>

theorem profile_is_projected_balance:
  assumes "outlook_ok s" "now \<le> t"
  shows "wf_tl (reservation_timeline s free running now starts) \<and>
    origin (reservation_timeline s free running now starts) = now \<and>
    cap (reservation_timeline s free running now starts) t =
      clamp (balance_at s free running now starts t)"
  using assms by (simp add: tl_simps)

theorem profile_is_projected_balance_witness:
  "cap (reservation_timeline ex_queue 4 ex_running (dbl 1) []) (dbl 12) = 10"
proof -
  have "dbl 1 \<le> dbl 12" by (simp add: dbl_simps)
  from profile_is_projected_balance[OF ex_queue_planning(1) this, of 4 ex_running "[]"]
  show ?thesis by (simp add: balance_at_def released_def initial_balance_def end_time_def ex_running_def
      ex_queue_eq dbl_simps clamp_def)
qed

text \<open>
  C17: the search cache never changes an answer.  On any state with sound bounds, a query answers as the
  plain timeline does and leaves the plan alone, a reservation changes the plan as the plain one does,
  and both keep the invariant: every retained bound is a true lower bound on the current plan, and
  there are at most 256 of them.
\<close>

theorem search_cache_transparent:
  assumes "cache_ok c" "origin (m_plan c) \<le> start"
  shows "fst (cache_earliest_fit c n d start) = earliest_fit (m_plan c) n d start \<and>
    m_plan (snd (cache_earliest_fit c n d start)) = m_plan c \<and> cache_ok (snd (cache_earliest_fit c n d start)) \<and>
    m_plan (cache_reserve c start n d) = reserve (m_plan c) start n d \<and> cache_ok (cache_reserve c start n d)"
  using sc.fit_eq[OF assms] sc.fit_plan[OF assms] sc.fit_ok[OF assms] sc.commit_plan[OF assms] sc.commit_ok[OF assms]
  by simp

theorem search_cache_transparent_witness:
  "fst (cache_earliest_fit (new_cache ex_timeline) 6 (dbl 5) (dbl 1)) = Some (dbl 10)"
proof -
  have ok: "cache_ok (new_cache ex_timeline)" by (rule new_cache_ok[OF ex_timeline_wf(1)])
  have le: "origin (m_plan (new_cache ex_timeline)) \<le> dbl 1"
    by (simp add: new_cache_def ex_timeline_wf dbl_simps)
  have "earliest_fit ex_timeline 6 (dbl 5) (dbl 1) = Some (dbl 10)"
    by (simp add: ex_timeline_def eval_simps Let_def dbl_simps)
  with search_cache_transparent[OF ok le, of 6 "dbl 5"] show ?thesis by (simp add: new_cache_def)
qed

section \<open>The trace\<close>

text \<open>
  C18: the node accounting of a trace agrees with its event queue.  In every state reached by
  configuring the trace (its store, its outputs, a release delay of any model), submitting jobs one by one, in batches or from a
  file, starting them at whole seconds, processing events, running up to a time, flushing and changing the
  reported capacity, the counter of allocated nodes is the sum over the pending end events less the sum
  over the pending start events, the counter of releasing nodes is the sum over the pending release
  events, and the queue is strictly ordered by time, kind and job.  The witness is a trace with a release delay whose
  job has ended: its four nodes are pending in a release event, and its record is already reclaimed.
\<close>

theorem trace_accounting:
  assumes "trace_reachable dm tr"
  shows "m_n_nodes_in_use tr + pend tr Arrival (m_evtq tr) = pend tr Departure (m_evtq tr) \<and>
    m_n_nodes_releasing tr = pend tr Release (m_evtq tr) \<and> sorted_wrt (<) (map ev_key (m_evtq tr))"
  using trace_reachable_ok[OF assms] by (simp add: trace_ok_def queue_ok_def evtq_ok_def)

theorem trace_accounting_witness:
  "\<exists>tr. process_single_event ex_delay_math ex_delayed_running = Inr (True, tr) \<and> m_evtq tr = [release_event 0 (dbl 13) 4] \<and>
     m_n_nodes_in_use tr = 0 \<and> m_n_nodes_releasing tr = 4"
proof -
  obtain tr where tr: "process_single_event ex_delay_math ex_delayed_running = Inr (True, tr)" "m_evtq tr = [release_event 0 (dbl 13) 4]"
    "trace_reachable ex_delay_math tr" using ex_delayed_release by blast
  then have "pend tr Arrival (m_evtq tr) = 0" "pend tr Departure (m_evtq tr) = 0" "pend tr Release (m_evtq tr) = 4"
    by (simp_all add: pend_def event_nodes_def release_event_def job_event_def)
  then show ?thesis using tr trace_accounting[OF tr(3)] by auto
qed

text \<open>
  C19: no event of a reachable trace fails.  Reclamation removes records from the front of the store while
  events are pending; in every reachable state the next event can still be processed, and the completed jobs can be flushed at any
  time: the exceptions of the record lookup and of the output cursor are never thrown, and the result says whether the queue
  was empty.  Every pending start or end event finds its record, and the cursor of the output is not behind the records that are
  stored.  The witness has its output open and writes a record.
\<close>

theorem trace_events_never_fail:
  assumes "trace_reachable dm tr"
  shows "(\<exists>tr'. process_single_event dm tr = Inr (m_evtq tr \<noteq> [], tr')) \<and> (\<exists>tr'. flush_completed_jobs_impl now tr = Inr tr') \<and>
    m_num_reclaimed tr \<le> m_next_job_to_write tr \<and>
    (\<forall>e\<in>set (m_evtq tr). ev_kind e = Release \<or> (\<exists>j. job_at tr (ev_job e) = Inr j))"
proof -
  have ok: "trace_ok tr" by (rule trace_reachable_ok[OF assms])
  then have "write_ok tr" by (simp add: trace_ok_def)
  then show ?thesis using process_single_event_ok[OF ok] pending_job[OF ok] flush_total[of tr now] by (auto simp: write_ok_def)
qed

theorem trace_events_never_fail_witness:
  "m_simulated_trace_ofs ex_delayed_running \<noteq> None \<and>
   (\<exists>tr'. process_single_event ex_delay_math ex_delayed_running = Inr (True, tr') \<and> m_num_reclaimed tr' = 1 \<and> 1 \<le> m_next_job_to_write tr')"
proof -
  obtain tr where tr: "process_single_event ex_delay_math ex_delayed_running = Inr (True, tr)" "m_num_reclaimed tr = 1"
    "trace_reachable ex_delay_math tr" using ex_delayed_release by blast
  then have "1 \<le> m_next_job_to_write tr" using trace_events_never_fail[OF tr(3), of 0] by simp
  moreover have "m_simulated_trace_ofs ex_delayed_running = Some []"
    by (simp add: ex_delayed_running_def ex_delayed_started_def ex_delayed_def ex_delayed_defs)
  ultimately show ?thesis using tr by auto
qed

text \<open>
  C20: running events up to a time always returns.  Processing a departure may insert a release event, so
  the loop is not over a fixed set; it still ends, throws nothing, and leaves no event at or before the
  target time.  The witness runs a trace with a release delay of seven seconds from its start event past the release.
\<close>

theorem run_until_inclusive_returns:
  assumes "trace_reachable dm tr"
  shows "\<exists>tr'. run_until_inclusive dm target tr = Inr tr' \<and> (\<forall>e\<in>set (m_evtq tr'). target < ev_time e)"
  using run_until_inclusive_ok[OF trace_reachable_ok[OF assms]] by blast

theorem run_until_inclusive_returns_witness:
  "rd_active (m_release_delay ex_delayed_started) \<and> m_evtq ex_delayed_started = [job_event 0 (dbl 1) Arrival, job_event 0 (dbl 6) Departure] \<and>
   (\<exists>tr'. run_until_inclusive ex_delay_math (dbl 20) ex_delayed_started = Inr tr' \<and> (\<forall>e\<in>set (m_evtq tr'). dbl 20 < ev_time e))"
  using run_until_inclusive_returns[OF ex_delayed_reachable(3), of "dbl 20"]
  by (simp add: ex_delayed_started_def) (simp add: ex_delayed_def ex_delayed_defs)

text \<open>
  Job identifiers are permanent.  When a job is appended to a reachable trace, its identifier is the
  number of jobs ever stored, the new record is found under it, and every record that is still stored
  is found under its old identifier, although records may have been reclaimed to make room.
\<close>

theorem append_job_permanent:
  assumes "trace_reachable dm tr" "append_job now req tr = Inr (i, tr')"
  shows "i = num_jobs tr \<and> job_at tr' i = Inr (request_record req) \<and>
    (\<forall>k\<in>{m_num_reclaimed tr'..<num_jobs tr}. job_at tr' k = job_at tr k)"
proof -
  have "write_ok tr" using trace_reachable_ok[OF assms(1)] by (simp add: trace_ok_def)
  then obtain tr1 where t: "store_step now tr tr1" "Trace_Laws.stored tr1 [request_record req] tr'" "i = num_jobs tr"
    using append_job_step[OF _ assms(2)] by blast
  then have n: "num_jobs tr1 = num_jobs tr" using num_jobs_dropped by (auto simp: store_step_def)
  have "job_at tr' i = Inr (request_record req)" using stored_new[OF t(2), of 0] n t(3) by simp
  moreover have "job_at tr' k = job_at tr k" if "m_num_reclaimed tr' \<le> k" "k < num_jobs tr" for k
    using stored_job_at[OF t(2), of k] store_step_job_at[OF t(1), of k] that n t(2) by (simp add: Trace_Laws.stored_def)
  ultimately show ?thesis using t(3) by simp
qed

theorem append_job_permanent_witness:
  "job_at ex_trace 0 = Inr (request_record ex_request)"
  using append_job_permanent[OF ex_trace_reachable(1) ex_trace_append] by blast

text \<open>
  C21: a batch is accepted whole or not at all.  The call is modelled with the trace it leaves behind, also when it throws.  A
  batch whose submit times decrease somewhere raises a
  runtime error and leaves the trace as it was; a batch for which there is no room raises one with no job added.  When a batch
  is accepted it was in order, its identifiers are
  consecutive from the next free one, and each record is found under its identifier.  In every case the records that are still
  stored are found under their old identifiers.
\<close>

theorem append_jobs_batch:
  assumes "trace_reachable dm tr" "append_jobs_st available record_size now reqs tr = (r, tr')"
  shows "(\<forall>k\<in>{m_num_reclaimed tr'..<num_jobs tr}. job_at tr' k = job_at tr k) \<and>
    (case r of
      Inl e \<Rightarrow> e = Runtime_Error \<and> num_jobs tr' = num_jobs tr \<and> (\<not> nondecreasing (map ar_submit_time reqs) \<longrightarrow> tr' = tr)
    | Inr ids \<Rightarrow> nondecreasing (map ar_submit_time reqs) \<and> ids = [num_jobs tr..<num_jobs tr + length reqs] \<and>
        num_jobs tr' = num_jobs tr + length reqs \<and>
        (\<forall>k<length reqs. job_at tr' (num_jobs tr + k) = Inr (request_record (reqs ! k))))"
proof -
  have "write_ok tr" using trace_reachable_ok[OF assms(1)] by (simp add: trace_ok_def)
  note st = append_jobs_st_step[OF this assms(2)]
  have n: "num_jobs tr1 = num_jobs tr" if "store_step now tr tr1" for tr1
    using that num_jobs_dropped by (auto simp: store_step_def)
  show ?thesis
  proof (cases r)
    case (Inl e)
    then show ?thesis using st n store_step_job_at[of now tr tr'] by (auto split: if_splits)
  next
    case (Inr ids)
    then obtain tr1 where t: "store_step now tr tr1" "Trace_Laws.stored tr1 (map request_record reqs) tr'" using st by auto
    have "job_at tr' k = job_at tr k" if "m_num_reclaimed tr' \<le> k" "k < num_jobs tr" for k
      using stored_job_at[OF t(2), of k] store_step_job_at[OF t(1), of k] that n[OF t(1)] t(2) by (simp add: Trace_Laws.stored_def)
    moreover have "num_jobs tr' = num_jobs tr + length reqs"
      using t(2) n[OF t(1)] by (simp add: Trace_Laws.stored_def num_jobs_def)
    ultimately show ?thesis using Inr st stored_new[OF t(2)] n[OF t(1)] by auto
  qed
qed

theorem append_jobs_batch_witness:
  "append_jobs_st 0 96 0 [ex_request, ex_request\<lparr>ar_submit_time := (- 1, 0)\<rparr>] (new_trace SIMULATION ()) =
     (Inl Runtime_Error, new_trace SIMULATION ())"
proof -
  let ?reqs = "[ex_request, ex_request\<lparr>ar_submit_time := (- 1, 0)\<rparr>]"
  obtain r tr' where c: "append_jobs_st 0 96 0 ?reqs (new_trace SIMULATION ()) = (r, tr')" by (rule prod.exhaust)
  have "\<not> nondecreasing (map ar_submit_time ?reqs)" by (simp add: ex_request_def epoch_less_def)
  then show ?thesis using append_jobs_batch[OF ex_trace_reachable(1) c] unfolding c by (cases r) auto
qed

text \<open>
  Storing a clock value as a timestamp loses nothing on the grid of the single-precision fraction: a
  non-negative time that is a multiple of 1/2^f seconds, f at most 23, converts to a timestamp with a
  fraction in [0,1) and back to itself.
\<close>

theorem epoch_roundtrip:
  assumes "val t = of_int n * 2 powi (- int f)" "0 \<le> n" "n \<le> 2 ^ 53" "f \<le> 23"
  shows "convert_epoch (to_epoch t) = t \<and> 0 \<le> snd (to_epoch t) \<and> snd (to_epoch t) < dbl 1"
  by (rule epoch_roundtrip_grid[OF assms])

theorem epoch_roundtrip_witness:
  "convert_epoch (to_epoch (dbl 86400)) = dbl 86400"
  using epoch_roundtrip[of "dbl 86400" 86400 0] by (simp add: val_dbl)

text \<open>
  C22: a release delay is finite and non-negative.  For every configuration that the constructor accepts,
  any random engine and any results of the library functions, the sampled delay is a finite number of
  seconds at or above zero, and the sampler can be used again with the same guarantee.
\<close>

theorem release_delay_bounds:
  assumes "new_release_delay delay model spread rng = Inr d"
  shows "isfinite (fst (delay_sample dm d n)) \<and> 0 \<le> fst (delay_sample dm d n) \<and>
    isfinite (fst (delay_sample dm (snd (delay_sample dm d n)) n')) \<and> 0 \<le> fst (delay_sample dm (snd (delay_sample dm d n)) n')"
  using delay_sample_bounds[OF new_release_delay_ok[OF assms]]
    delay_sample_bounds[of "snd (delay_sample dm d n)" dm n'] by blast

theorem release_delay_bounds_witness:
  "0 \<le> fst (delay_sample ex_delay_math \<lparr>rd_delay = dbl 3, rd_spread = 0, rd_model = CONSTANT, rd_active = True, rd_rng = ()\<rparr> 4)"
proof -
  have "new_release_delay (dbl 3) CONSTANT 0 () = Inr \<lparr>rd_delay = dbl 3, rd_spread = 0, rd_model = CONSTANT, rd_active = True, rd_rng = ()\<rparr>"
    by (simp add: new_release_delay_def validate_node_release_delay_def node_release_delay_requested_def isfinite_dbl dbl_simps)
  from release_delay_bounds[OF this, of ex_delay_math 4] show ?thesis by blast
qed

section \<open>The simulation\<close>

text \<open>
  C23: a run completes every job it accepts.  \<open>run_records\<close> are the records that the loader returned, stably
  sorted by submission and with their run times chosen by the configured mode.  When they are submitted and
  run at whole seconds, within 2^53 seconds in all, \<open>run\<close> on the deque scheduler returns: no job waits, no event
  is pending, the jobs submitted are the ones that fit the machine, all of them have completed, and no
  recorded sample has more nodes in use than the machine has.
\<close>

theorem batch_run_completes:
  assumes "batch_params p" "p_max_time p = None" "load (p_max_jobs p) = Some loaded"
    and "well_posed D b p (run_records sm p r loaded)"
  shows "drains pending p (run_records sm p r loaded)
    (run deque_ops dm sm max_stamp available record_size load files r
      (new_simulation p (new_trace SIMULATION rng) (new_deque (p_total_nodes p) policy depth) []))"
  by (rule dqs.whole_run_law[where load = load, OF assms(1,3) _ assms(4,2)])
    (simp add: dqs.fresh_scheduler_def new_deque_empty)

theorem batch_run_completes_witness:
  "drains pending ex_params ex_batch (run deque_ops ex_delay_math ex_sampling (dbl 100) 0 1 (\<lambda>n. Some ex_batch) [] ()
    (new_simulation ex_params (new_trace SIMULATION ()) (new_deque (p_total_nodes ex_params) EASY 0) []))"
  using batch_run_completes[where load = "\<lambda>n. Some ex_batch" and loaded = ex_batch and sm = ex_sampling and r = "()" and p = ex_params
      and D = ex_seconds and b = 2 and dm = ex_delay_math and max_stamp = "dbl 100" and available = 0 and record_size = 1 and
      files = "[]" and rng = "()" and policy = EASY and depth = 0, OF ex_run_params(1,2) refl]
    ex_batch_posed
  unfolding ex_run_records by blast

text \<open>
  C24: a run stopped at a time limit is consistent.  It returns with the clock at the limit and every
  event up to it processed; each accepted job is waiting, running or completed, and counted once; when
  the machine is idle every waiting job is still to arrive; and no more nodes are in use, or were in use at any
  recorded sample, than the machine has.
\<close>

theorem batch_stop_accounts:
  assumes "batch_params p" "p_max_time p = Some t" "t < dbl_max" "load (p_max_jobs p) = Some loaded"
    and "well_posed D b p (run_records sm p r loaded)"
  shows "stops_at pending p (run_records sm p r loaded) t
    (run deque_ops dm sm max_stamp available record_size load files r
      (new_simulation p (new_trace SIMULATION rng) (new_deque (p_total_nodes p) policy depth) []))"
  by (rule dqs.whole_run_until_law[where load = load, OF assms(1,4) _ assms(5,2,3)])
    (simp add: dqs.fresh_scheduler_def new_deque_empty)

theorem batch_stop_accounts_witness:
  "stops_at pending (ex_params\<lparr>p_max_time := Some (dbl 4)\<rparr>) ex_batch (dbl 4)
    (run deque_ops ex_delay_math ex_sampling (dbl 100) 0 1 (\<lambda>n. Some ex_batch) [] ()
      (new_simulation (ex_params\<lparr>p_max_time := Some (dbl 4)\<rparr>) (new_trace SIMULATION ())
        (new_deque (p_total_nodes (ex_params\<lparr>p_max_time := Some (dbl 4)\<rparr>)) EASY 0) []))"
proof -
  have "p_max_time (ex_params\<lparr>p_max_time := Some (dbl 4)\<rparr>) = Some (dbl 4)" "dbl 4 < dbl_max" by (simp_all add: dbl_less_max)
  from batch_stop_accounts[where load = "\<lambda>n. Some ex_batch" and loaded = ex_batch and sm = ex_sampling and r = "()"
      and D = ex_seconds and b = 2 and dm = ex_delay_math and max_stamp = "dbl 100" and available = 0 and record_size = 1 and
      files = "[]" and rng = "()" and policy = EASY and depth = 0, OF ex_run_params(3) this refl]
  show ?thesis unfolding ex_run_records using ex_run_params(4) by blast
qed

text \<open>
  C25: no policy starves a job.  Take parameters in the event-driven mode and whatever scheduler the
  factory makes of them, other than with the block queue, whose identifiers have to increase.  A ring buffer, when the
  scheduler has one, must be allowed to grow: with ABORT an insertion may throw; the other classes are covered whatever
  overflow policy is configured.  A batch run without a time limit
  on that scheduler, through the virtual functions, returns and completes every job that fits the machine.  The records are
  well posed: in order of submission, at whole seconds, with positive whole run times, within \<open>2\<^sup>5\<^sup>3\<close> seconds in all.
\<close>

theorem batch_any_scheduler:
  assumes "buffer_ok b" "make_scheduler p c n = Inr sc" "has_ring sc \<longrightarrow> c_wait_queue_overflow c = GROW" "c_queue_impl c \<noteq> BLOCK"
    and "batch_params p" "p_max_time p = None" "load (p_max_jobs p) = Some loaded" "well_posed D k p (run_records sm p r loaded)"
  shows "drains any_jobs p (run_records sm p r loaded)
    (run (any_ops b hash) dm sm max_stamp available record_size load files r (new_simulation p (new_trace SIMULATION rng) sc []))"
proof -
  have "mode_of p = Event_Driven" using assms(8) by (simp add: well_posed_def)
  from made_ready[OF assms(2) this assms(3,4)] show ?thesis by (rule made_run[where load = load, OF assms(1) _ assms(5-8)])
qed

theorem batch_any_scheduler_witness:
  "drains any_jobs ex_params ex_batch
    (run (any_ops documented_buffer (\<lambda>_. 0)) ex_delay_math ex_sampling (dbl 100) 0 1 (\<lambda>n. Some ex_batch) [] ()
      (new_simulation ex_params (new_trace SIMULATION ()) (FCFS_Easy_Deque (new_deque 10 EASY 0)) []))"
proof -
  have c: "has_ring (FCFS_Easy_Deque (new_deque 10 EASY 0)) \<longrightarrow> c_wait_queue_overflow ex_config = GROW" "c_queue_impl ex_config \<noteq> BLOCK"
    by (simp_all add: ex_config_def)
  have w: "well_posed ex_seconds 2 ex_params (run_records ex_sampling ex_params () ex_batch)"
    unfolding ex_run_records by (rule ex_batch_posed)
  from batch_any_scheduler[OF documented_buffer_ok ex_made(1) c ex_run_params(1,2), where load = "\<lambda>n. Some ex_batch" and hash = "\<lambda>_. 0"
      and dm = ex_delay_math and max_stamp = "dbl 100" and available = 0 and record_size = 1 and files = "[]" and rng = "()", OF refl w]
  show ?thesis unfolding ex_run_records .
qed

text \<open>
  No policy starves a job.  Under the hybrid deque scheduler (any backfill policy its constructor
  accepts) and under the ordered multimap schedulers (first-come, shortest and longest job first) a run
  returns and completes every job that fits the machine.
\<close>

theorem batch_every_policy:
  assumes "batch_params p" "p_max_time p = None" "load (p_max_jobs p) = Some loaded"
    and "well_posed D b p (run_records sm p r loaded)" and "new_hybrid_deque (p_total_nodes p) policy depth rdepth = Inr hq"
  shows "drains pending p (run_records sm p r loaded)
      (run hybrid_ops dm sm max_stamp available record_size load files r (new_simulation p (new_trace SIMULATION rng) hq [])) \<and>
    drains mm_jobs p (run_records sm p r loaded)
      (run (mm_ops fcfs_mm_insert_job fcfs_mm_find_head) dm sm max_stamp available record_size load files r
        (new_simulation p (new_trace SIMULATION rng) (new_mm_queue (p_total_nodes p) policy' depth') [])) \<and>
    drains mm_jobs p (run_records sm p r loaded)
      (run (mm_ops sjf_insert_job sjf_find_fcfs_head) dm sm max_stamp available record_size load files r
        (new_simulation p (new_trace SIMULATION rng) (new_mm_queue (p_total_nodes p) policy' depth') [])) \<and>
    drains mm_jobs p (run_records sm p r loaded)
      (run (mm_ops ljf_insert_job ljf_find_fcfs_head) dm sm max_stamp available record_size load files r
        (new_simulation p (new_trace SIMULATION rng) (new_mm_queue (p_total_nodes p) policy' depth') []))"
proof (intro conjI)
  show "drains pending p (run_records sm p r loaded)
      (run hybrid_ops dm sm max_stamp available record_size load files r (new_simulation p (new_trace SIMULATION rng) hq []))"
    by (rule hds.whole_run_law[where load = load, OF assms(1,3) _ assms(4,2)])
      (use new_hybrid_empty[OF assms(5)] in \<open>simp add: hds.fresh_scheduler_def\<close>)
qed (rule fms.simulated.whole_run_law[where load = load, OF assms(1,3) _ assms(4,2)]
       sjs.simulated.whole_run_law[where load = load, OF assms(1,3) _ assms(4,2)]
       ljs.simulated.whole_run_law[where load = load, OF assms(1,3) _ assms(4,2)];
     simp add: fms.simulated.fresh_scheduler_def sjs.simulated.fresh_scheduler_def ljs.simulated.fresh_scheduler_def new_mm_empty)+

theorem batch_every_policy_witness:
  "drains mm_jobs ex_params ex_batch
    (run (mm_ops sjf_insert_job sjf_find_fcfs_head) ex_delay_math ex_sampling (dbl 100) 0 1 (\<lambda>n. Some ex_batch) [] ()
      (new_simulation ex_params (new_trace SIMULATION ()) (new_mm_queue (p_total_nodes ex_params) EASY 0) []))"
proof -
  obtain hq where hq: "new_hybrid_deque (p_total_nodes ex_params) CONSERVATIVE 0 0 = Inr hq" using ex_hybrid_new by blast
  have w: "well_posed ex_seconds 2 ex_params (run_records ex_sampling ex_params () ex_batch)"
    unfolding ex_run_records by (rule ex_batch_posed)
  from batch_every_policy[where load = "\<lambda>n. Some ex_batch" and loaded = ex_batch and dm = ex_delay_math and max_stamp = "dbl 100"
      and available = 0 and record_size = 1 and files = "[]" and rng = "()" and policy' = EASY and depth' = 0,
      OF ex_run_params(1,2) refl w hq]
  show ?thesis unfolding ex_run_records by (elim conjE)
qed

text \<open>
  C26: the circular scheduler, which the repository documents as identical to the deque scheduler in
  every respect but the container, is.  For every buffer that behaves as documented, every initial
  capacity, every mode of the simulation and every input, \<open>run\<close> on a circular scheduler with
  the GROW policy and \<open>run\<close> on the deque scheduler end in the same exception or in the same
  simulation up to the scheduler, or neither returns.
\<close>

theorem circular_run_as_deque:
  assumes "buffer_ok b"
  shows "map_option (map_sum id (with_scheduler ())) (run (circular_ops b) dm sm max_stamp available record_size load files r
      (new_simulation p tr (new_circular total_nodes job_count policy capacity GROW depth) changes)) =
    map_option (map_sum id (with_scheduler ())) (run deque_ops dm sm max_stamp available record_size load files r
      (new_simulation p tr (new_deque total_nodes policy depth) changes))"
  by (rule rel_runs_equal[OF bisimilar_submit.run_rel[OF circular_bisimilar[OF assms] new_as_deque]])

theorem circular_run_as_deque_witness:
  "\<exists>s. map_option (map_sum id (with_scheduler ())) (run (circular_ops documented_buffer) ex_delay_math ex_sampling (dbl 100) 0 1
      (\<lambda>n. Some ex_batch) [] () (new_simulation ex_params (new_trace SIMULATION ()) (new_circular 10 0 EASY 1 GROW 0) [])) = Some (Inr s) \<and>
    m_jobs_submitted s = 2 \<and> m_jobs_completed s = 2"
  using circular_run_as_deque[OF documented_buffer_ok, where load = "\<lambda>n. Some ex_batch" and sm = ex_sampling and r = "()" and p = ex_params
      and dm = ex_delay_math and max_stamp = "dbl 100" and available = 0 and record_size = 1 and files = "[]" and tr = "new_trace SIMULATION ()"
      and policy = EASY and depth = 0 and capacity = 1 and total_nodes = 10 and job_count = 0 and changes = "[]"]
    ex_deque_run by (auto simp: ex_params_def)

text \<open>
  The batch append agrees with the single one.  On a store within its capacity and without a memory
  limit, a batch of one request gives the exception, the identifier and the state that \<open>append_job\<close> gives, although
  the two grow and reclaim the store by different code; and a batch passes the checks exactly when each
  request, taken alone, is not before the clock or an earlier submission, has a positive whole limit of at most
  32 bits, and no run time outside it.
\<close>

theorem append_batch_of_one:
  assumes "store_open (m_trace s)"
  shows "sim_append_jobs ops available record_size [r] s = map_sum id (\<lambda>(i, s). ([i], s))
      (sim_append_job ops (sr_submit_time r) (sr_num_nodes r) (sr_queue r) (sr_limit_time r) (sr_actual_run_time r) s) \<and>
    (check_requests s rs = Inr () \<longleftrightarrow> list_all (request_valid s) rs)"
  using sim_append_one[OF assms] check_requests_law by blast

theorem append_batch_of_one_witness:
  "sim_append_jobs deque_ops 0 1 [\<lparr>sr_submit_time = dbl 0, sr_num_nodes = 4, sr_queue = 0, sr_limit_time = dbl 10, sr_actual_run_time = None\<rparr>]
      (new_simulation ex_params ex_trace (new_deque 10 EASY 0) []) =
    map_sum id (\<lambda>(i, s). ([i], s)) (sim_append_job deque_ops (dbl 0) 4 0 (dbl 10) None
      (new_simulation ex_params ex_trace (new_deque 10 EASY 0) []))"
proof -
  have "store_open (m_trace (new_simulation ex_params ex_trace (new_deque 10 EASY 0) []))"
    by (simp add: store_open_def new_simulation_def reset_capacity_schedule_def reset_resource_capacity_def ex_trace_def
        new_trace_def resolve_job_store_capacity_def)
  from append_batch_of_one[OF this, where r = "\<lparr>sr_submit_time = dbl 0, sr_num_nodes = 4, sr_queue = 0, sr_limit_time = dbl 10,
      sr_actual_run_time = None\<rparr>"]
  show ?thesis by simp
qed

text \<open>
  The bounds of a sampled run time.  For a positive limit the normal and the lognormal case return a
  positive run time of at least one second, or of the whole limit when that is shorter, and at most the
  limit, whatever is drawn.  The uniform case keeps no floor: with a zero scale and a draw at the lower end
  of the interval the run time is zero, which insertion reads as a job that runs its whole limit.
\<close>

theorem sampled_run_time_bounds:
  assumes "0 < limit"
  shows "(distr \<noteq> DT_UNIFORM \<longrightarrow>
      min (dbl 1) limit \<le> fst (sample_run_time sm distr scale stddev limit r) \<and>
      fst (sample_run_time sm distr scale stddev limit r) \<le> limit \<and> 0 < fst (sample_run_time sm distr scale stddev limit r)) \<and>
    (fst (sm_uniform sm (limit * scale) (limit * (scale + stddev)) r) = limit * scale \<longrightarrow>
      fst (sample_run_time sm DT_UNIFORM scale stddev limit r) = limit * scale)"
  by (intro conjI impI) (simp_all add: sample_run_time_law[OF assms] sample_uniform[OF assms])

theorem sampled_run_time_bounds_witness:
  "dbl 1 \<le> fst (sample_run_time ex_sampling NORMAL 0 0 (dbl 60) ()) \<and> fst (sample_run_time ex_sampling DT_UNIFORM 0 (dbl 1) (dbl 60) ()) = 0"
proof -
  have p: "0 < dbl 60" "min (dbl 1) (dbl 60) = dbl 1" "dbl 60 * 0 = 0" by (simp_all add: dbl_zero dbl_less dbl_mult dbl_le min_def)
  from sampled_run_time_bounds[OF p(1), where sm = ex_sampling and r = "()" and scale = 0] show ?thesis
    using p by (auto simp: ex_sampling_def)
qed

section \<open>Replay\<close>

text \<open>
  C27: a replay ends.  On a loaded history whose records are submitted by \<open>hz\<close>, end by \<open>fin\<close> and end no
  earlier than they start, \<open>run_job_trace\<close> returns: reclamation never loses the record the walk is at, and
  no event up to the limit is left.  The accounting of nodes holds; every job was enqueued if the limit
  is not before \<open>hz\<close>; and no node is in use if all recorded ends are within the processed time.
\<close>

theorem replay_returns:
  assumes "unreplayed hz fin tr" and "stop = (if max_time = dbl_max then max_stamp else max_time)"
  shows "\<exists>tr'. run_job_trace dm max_stamp opens total_nodes max_time tr = Inr tr' \<and>
    m_n_nodes_in_use tr' + pend tr' Arrival (m_evtq tr') = pend tr' Departure (m_evtq tr') \<and>
    (\<forall>e\<in>set (m_evtq tr'). stop < ev_time e) \<and>
    (hz \<le> max_time \<longrightarrow> m_replay_jobs_enqueued tr' = num_jobs tr) \<and> (fin \<le> stop \<longrightarrow> m_n_nodes_in_use tr' = 0)"
  using run_job_trace_law[OF assms, of dm opens total_nodes] by (auto simp: trace_ok_def)

theorem replay_returns_witness:
  "\<exists>tr'. run_job_trace ex_delay_math (dbl 100) False 10 (dbl 20) ex_history = Inr tr' \<and>
    m_replay_jobs_enqueued tr' = 2 \<and> m_n_nodes_in_use tr' = 0"
proof -
  have "dbl 20 = (if dbl 20 = dbl_max then dbl 100 else dbl 20)" using dbl_neq_max[of 20] by simp
  moreover have "dbl 1 \<le> dbl 20" "dbl 8 \<le> dbl 20" "num_jobs ex_history = 2"
    by (simp_all add: dbl_le num_jobs_def ex_history_def new_trace_def)
  ultimately show ?thesis using replay_returns[OF ex_history_unreplayed, of "dbl 20" "dbl 20" "dbl 100" ex_delay_math False 10] by auto
qed

section \<open>Loading\<close>

text \<open>
  C28: a capacity schedule that loads is one the planner can use.  A schedule that loads has strictly
  increasing times and capacities within the configured maximum, it is empty only when no file was named, and what remains of it
  at any moment is the ordered outlook that the planning theorems assume.  The numbers of the library may be NaN or of any size.
  The loader does not check a time before it converts it: the order test \<^verbatim>\<open>time <= changes.back().time\<close> is false for NaN, and the
  conversion to \<^verbatim>\<open>time_t\<close> is undefined for NaN and for numbers out of its range.  The model answers
  \<open>Undefined_Conversion\<close> there, and the second part says that this happens only for a file with such a cell in its time column.
\<close>

theorem capacity_schedule_loaded:
  shows "case load_capacity_schedule lib files fname m of
      Inr changes \<Rightarrow> sorted_wrt (<) (map cc_time changes) \<and> (\<forall>c\<in>set changes. cc_total_nodes c \<le> m) \<and> (changes = [] \<longleftrightarrow> fname = []) \<and>
        outlook_ok (set_capacity_outlook capacity occ (drop k changes) s)
    | Inl e \<Rightarrow> throws_only lib \<longrightarrow> is_undefined e \<longrightarrow>
        e = Undefined_Conversion \<and> (\<exists>lines. files fname = Some lines \<and> (\<exists>cell\<in>set (time_cells lines). undefined_time lib cell))"
proof (cases "load_capacity_schedule lib files fname m")
  case (Inl e)
  then show ?thesis using load_capacity_undefined[of lib files fname m e] by simp
next
  case (Inr changes)
  then show ?thesis using load_capacity_ok[OF Inr] outlook_of_schedule[of m changes capacity occ k s] by (simp add: schedule_ok_def)
qed

theorem capacity_schedule_loaded_witness:
  "outlook_ok (set_capacity_outlook 10 0 (drop 1 ex_schedule) ex_queue) \<and>
   (\<exists>cell\<in>set (time_cells [''time,total_nodes'', ''5,1'', ''nan,1'', ''3,1'']). undefined_time ex_library cell)"
proof -
  have "throws_only ex_library" by (simp add: throws_only_def ex_library_def ex_stod_def Let_def is_undefined_def)
  then show ?thesis
    using capacity_schedule_loaded[where lib = ex_library and files = "\<lambda>f. Some (schedule_lines ex_time_text ex_schedule)" and fname = "''s''"
        and m = 10 and capacity = 10 and occ = 0 and k = 1 and s = ex_queue]
      capacity_schedule_loaded[where lib = ex_library and files = "\<lambda>f. Some [''time,total_nodes'', ''5,1'', ''nan,1'', ''3,1'']" and fname = "''s''"
        and m = 10 and capacity = 10 and occ = 0 and k = 1 and s = ex_queue]
    unfolding ex_schedule_loads ex_nan_time by (simp add: is_undefined_def)
qed

text \<open>
  C29: a capacity schedule is read back as it was written.  An ordered schedule within the maximum, written under the
  documented header with its times printed as seconds and its capacities in decimal, loads as itself.  Assumed of the library: it
  reads the whole printed text of a time, which holds no comma and no white space, as that time; and the time converts to a
  timestamp and back without loss.
\<close>

theorem capacity_schedule_roundtrip:
  assumes "\<forall>c\<in>set cs. plain_text (time_text (cc_time c)) \<and>
      tl_stod lib (time_text (cc_time c)) = Inr (Num (cc_time c), length (time_text (cc_time c))) \<and> fits_timestamp (cc_time c)"
    and "sorted_wrt (<) (map cc_time cs)" "\<forall>c\<in>set cs. cc_total_nodes c \<le> m" "cs \<noteq> []" "fname \<noteq> []"
    and "file fname = Some (schedule_lines time_text cs)"
  shows "load_capacity_schedule lib file fname m = Inr cs"
  using assms by (intro load_capacity_written) (auto simp: schedule_ok_def)

theorem capacity_schedule_roundtrip_witness:
  "load_capacity_schedule ex_library (\<lambda>f. Some (schedule_lines ex_time_text ex_schedule)) ''s'' 10 = Inr ex_schedule"
  using ex_schedule_ok ex_time_text_ok[of 10] ex_time_text_ok[of 20]
  by (intro capacity_schedule_roundtrip)
    (simp_all add: schedule_ok_def, simp_all add: ex_schedule_def)

text \<open>
  C30: the columns of a simple trace are found by name.  Two files with the same set of column names, whose rows hold the same cell
  under every name, load the same jobs or fail with the same error, in whatever order their columns stand.  Names and cells
  are without commas and white space, and the names without the bytes of a byte-order mark.
\<close>

theorem csv_column_order:
  assumes "set names1 = set names2" "names1 \<noteq> []" "names2 \<noteq> []"
    and "\<forall>n\<in>set names1. plain_name n" "\<forall>row\<in>set rows. \<forall>n\<in>set names1. plain_text (row n)"
    and "fname \<noteq> []" "file1 fname = Some (csv_lines names1 rows)" "file2 fname = Some (csv_lines names2 rows)"
  shows "load_standard lib file1 fname ''simple'' k = load_standard lib file2 fname ''simple'' k"
proof -
  have "\<forall>n\<in>set names2. plain_name n" using assms(1,4) by simp
  from load_standard_same[of fname file1 names1 rows file2 names2, OF assms(6,7,2,4,8,3) this assms(1,5)] show ?thesis .
qed

theorem csv_column_order_witness:
  "load_standard ex_library (\<lambda>f. Some (csv_lines ex_names [ex_row])) ''t'' ''simple'' 0 =
    load_standard ex_library (\<lambda>f. Some (csv_lines (rev ex_names) [ex_row])) ''t'' ''simple'' 0"
  using ex_names_ok by (intro csv_column_order[of ex_names "rev ex_names" "[ex_row]"]) (auto simp: ex_names_def)



text \<open>
  C32: an SWF log loads as jobs that the simulation accepts, but for one hole.  A load that succeeds keeps the earlier
  records and appends at most the requested number of new ones in submission order; each is unscheduled, with a positive limit and a positive,
  finite run time within it: jobs that ran past their requested time are cut at the limit, and rounding up to whole seconds loses none.
  The hole is NaN, which \<^verbatim>\<open>std::stod\<close> reads: it passes the tests of the loader, is not cut, and is stored.  Such a job is
  loaded only when the run-time field of a line of the log reads as NaN; the witness has a log of each kind.
\<close>

theorem swf_jobs_valid:
  assumes "load_swf lib file fname dc records k = Inr (loaded, dc')"
  shows "\<exists>lines new. file fname = Some lines \<and> loaded = records @ new \<and> length new \<le> count_limit k \<and> sorted (map m_t_submit new) \<and>
    (\<forall>j\<in>set new. \<not> m_is_simulated j \<and> m_t_begin j = unscheduled_sentinel \<and> m_t_end j = unscheduled_sentinel \<and> 0 < m_t_limit j \<and>
       (if m_run_time_is_nan j then \<exists>l\<in>set lines. nan_run_time lib (strip_trailing l)
        else 0 < m_actual_run_time j \<and> validate_simulation_run_time (m_actual_run_time j) (m_t_limit j)))"
  using load_swf_ok[OF assms] by (fastforce simp: from_log_def swf_job_valid_def)

theorem swf_jobs_valid_witness:
  "validate_simulation_run_time (m_actual_run_time ex_swf_job) (m_t_limit ex_swf_job) \<and>
   nan_run_time ex_library (strip_trailing ''1 5 0 nan 4 0 0 4 8 0 0 0 0 0 1 0 0 0'')"
  using swf_jobs_valid[OF ex_swf_load] swf_jobs_valid[OF ex_swf_nan_load] by (auto simp: ex_swf_job_def swf_record.defs job_record.defs)

section \<open>Queries\<close>

text \<open>
  C33: the forecast of the pending starts is feasible.  Whatever prefix of the queue is placed, and whatever
  policy marks as reserved, at every time from the clock on the nodes of the placements that run then are
  at most the clamped signed balance: the free nodes now, plus the releases of the running jobs, plus the
  scheduled changes of capacity.  No placement starts before the clock or before its job is submitted.
\<close>

theorem forecast_never_overcommits:
  assumes "forecast p (m_current_time s) tr (query_profile s) c ids = Inr pls" "m_current_time s \<le> t"
  shows "forecast_load pls t \<le> unat (clamp (query_balance s t)) \<and>
    (\<forall>pl\<in>set pls. pl_job pl \<in> set ids \<and> m_current_time s \<le> pl_start pl \<and>
       (\<exists>r. job_at tr (pl_job pl) = Inr r \<and> pl_nodes pl = m_num_nodes r \<and> pl_limit pl = limit_time r \<and>
          convert_epoch (m_t_submit r) \<le> pl_start pl))"
  using forecast_load_le[OF assms(1) _ _ assms(2)] forecast_starts[OF assms(1)] query_profile_law[of s t] assms(2) by auto

theorem forecast_never_overcommits_witness:
  "forecast_load [\<lparr>pl_job = 1, pl_start = dbl 10, pl_nodes = 8, pl_limit = dbl 100, pl_reserved = True\<rparr>,
     \<lparr>pl_job = 2, pl_start = dbl 1, pl_nodes = 2, pl_limit = dbl 5, pl_reserved = False\<rparr>] (dbl 10) \<le>
   unat (clamp (query_balance ex_sim (dbl 10)))"
proof -
  have "m_current_time ex_sim \<le> dbl 10" by (simp add: ex_sim_simps dbl_le)
  from forecast_never_overcommits[OF ex_sim_forecast[folded ex_sim_simps(1)] this] show ?thesis by (simp only: ex_sim_simps)
qed

text \<open>
  C34: a job status is well formed.  One status is returned for each requested job, in the order of the
  request (or, without one, for the pending jobs up to the depth).  A pending status has no actual times, and
  an expected start, not before the clock, exactly when it has a kind; a running one ends after the clock,
  a completed one by it, and a rejected one has no times.  A request for a job that was not appended is
  the out-of-range error.
\<close>

theorem job_statuses_well_formed:
  assumes "get_job_statuses pending_job_ids idxs depth s = Inr sts"
  shows "list_all (status_ok (m_current_time s)) sts \<and>
    map st_job_idx sts = (if idxs = [] then take_depth depth (pending_job_ids (m_scheduler s)) else idxs) \<and>
    (\<forall>i\<in>set idxs. tracked_query s i \<noteq> Inl Out_Of_Range) \<and>
    ((\<exists>i\<in>set idxs'. tracked_query s i = Inl Out_Of_Range) \<longrightarrow> get_job_statuses pending_job_ids idxs' depth s = Inl Out_Of_Range)"
proof -
  have e: "get_job_statuses pending_job_ids is depth s = Inl Out_Of_Range" if "\<exists>i\<in>set is. tracked_query s i = Inl Out_Of_Range" for "is"
    using that tracked_statuses_error[of "is" s] by (cases "is") (auto simp: get_job_statuses_def Let_def)
  have "\<forall>i\<in>set idxs. tracked_query s i \<noteq> Inl Out_Of_Range" using e[of idxs] assms by auto
  then show ?thesis using get_job_statuses_law[OF assms] e by blast
qed

theorem job_statuses_well_formed_witness:
  "\<exists>sts. get_job_statuses deque_pending_job_ids [] 2 ex_sim = Inr sts \<and> map st_job_idx sts = [1, 2] \<and> list_all (status_ok (dbl 1)) sts"
proof -
  have t: "take_depth 2 (deque_pending_job_ids (m_scheduler ex_sim)) = [1, 2]" by (simp add: ex_sim_simps ex_sim_ids take_depth_def)
  obtain sts where s: "get_job_statuses deque_pending_job_ids [] 2 ex_sim = Inr sts" using ex_sim_statuses by blast
  have n: "m_current_time ex_sim = dbl 1" by (simp add: ex_sim_simps)
  from job_statuses_well_formed[OF s, of "[]"] s show ?thesis unfolding t n by simp
qed

text \<open>
  The forecast searches the plan of the scheduler.  \<open>query_profile\<close> nets signed deltas in a map,
  \<open>reservation_timeline\<close> sorts and merges a vector; when the scheduler's outlook is the one the simulation
  publishes, every search from the clock on has the same answer on both, also in an overcommitted
  system.
\<close>

theorem query_profile_is_plan:
  assumes "m_current_time s \<le> start"
    and "b' = set_capacity_outlook (m_current_capacity s) (get_nodes_occupied (m_trace s))
      (drop (m_next_capacity_change s) (m_capacity_changes s)) b"
  shows "earliest_fit (query_profile s) n d start =
    earliest_fit (reservation_timeline b' (get_available_nodes s) (m_running_jobs s) (m_current_time s) []) n d start"
  by (rule same_cap_fit[OF query_profile_plan[OF assms(2)] assms(1)])

theorem query_profile_is_plan_witness:
  "earliest_fit (reservation_timeline (set_capacity_outlook 10 6 [] ex_queue) (get_available_nodes ex_sim) ex_running (dbl 1) [])
     8 (dbl 100) (dbl 1) = Some (dbl 10)"
proof -
  have "m_current_time ex_sim \<le> dbl 1" by (simp add: ex_sim_simps)
  from query_profile_is_plan[OF this refl, of 8 "dbl 100" ex_queue] show ?thesis
    by (simp add: ex_sim_simps ex_sim_profile ex_sim_fits)
qed

text \<open>
  The drain estimate plans as the timeline does.  Its search has no case for an empty duration and its
  subtraction does not merge equal neighbours, but on every simulation state the plans of the protected jobs,
  and the exception if a job is unknown, are those the loop makes with \<open>earliest_fit\<close> and \<open>reserve\<close>.
\<close>

theorem drain_plan_is_timeline:
  "map_sum id fst (drain_plans drain_fit drain_reserve p (m_current_time s) tr (query_profile s) c ids) =
   map_sum id fst (drain_plans earliest_fit reserve p (m_current_time s) tr (query_profile s) c ids)"
  using query_profile_law[of s] by (intro drain_plans_timeline) (simp add: same_cap_def)

text \<open>
  C35: the drain estimates are feasible.  A utilization outside [0, 1], or not finite, is the one invalid argument, and the only other
  exception is that of a queued job without a record.  Otherwise there is one estimate for each pending job up to the depth, in queue
  order.  A reserved job starts at or after the clock at a time at which it fits the profile for its
  whole limit, and at every time the reserved windows leave what the profile has.  Any other job has the
  estimate infinity, or a time not before the clock at which the profile has its nodes.
\<close>

theorem drain_estimates_feasible:
  shows "(get_queue_drain_start_times pending_job_ids utilization depth s = Inl Invalid_Argument \<longleftrightarrow>
      \<not> (isfinite utilization \<and> 0 \<le> utilization \<and> utilization \<le> dbl 1)) \<and>
    (case get_queue_drain_start_times pending_job_ids utilization depth s of
      Inl e \<Rightarrow> e = Invalid_Argument \<or> (e = Runtime_Error \<and> (\<exists>i\<in>set (take_depth depth (pending_job_ids (m_scheduler s))). job_at (m_trace s) i = Inl e))
    | Inr ests \<Rightarrow> map de_job ests = take_depth depth (pending_job_ids (m_scheduler s)) \<and>
      (\<exists>pls final. drain_plans drain_fit drain_reserve (m_params s) (m_current_time s) (m_trace s) (query_profile s) (False, 0)
        (take_depth depth (pending_job_ids (m_scheduler s))) = Inr (pls, final) \<and>
      (\<forall>t. m_current_time s \<le> t \<longrightarrow> reserved_load pls t + unat (cap final t) = unat (cap (query_profile s) t)) \<and>
      list_all2 (\<lambda>pl e. m_current_time s \<le> de_start e \<and>
        (if pp_reserved pl then de_kind e = RESERVED \<and> fits (query_profile s) (pp_nodes pl) (pp_limit pl) (de_start e)
         else de_kind e = ESTIMATED \<and> (de_start e = dbl_inf \<or> pp_nodes pl \<le> cap (query_profile s) (de_start e)))) pls ests))"
proof (cases "get_queue_drain_start_times pending_job_ids utilization depth s")
  case (Inl e)
  then show ?thesis using drain_errors[of pending_job_ids utilization depth s e] by auto
next
  case (Inr ests)
  then show ?thesis using drain_errors[of pending_job_ids utilization depth s] drain_estimates_law[OF Inr] by simp
qed

theorem drain_estimates_feasible_witness:
  "map de_job (case get_queue_drain_start_times deque_pending_job_ids 0 2 ex_sim of Inr es \<Rightarrow> es) = [1, 2] \<and>
   get_queue_drain_start_times deque_pending_job_ids (dbl 2) 2 ex_sim = Inl Invalid_Argument"
proof -
  obtain es where e: "get_queue_drain_start_times deque_pending_job_ids 0 2 ex_sim = Inr es" using ex_sim_drain by blast
  have "\<not> dbl 2 \<le> dbl 1" by (simp add: dbl_simps)
  then show ?thesis
    using drain_estimates_feasible[of deque_pending_job_ids 0 2 ex_sim] drain_estimates_feasible[of deque_pending_job_ids "dbl 2" 2 ex_sim] e
    by (simp add: ex_sim_simps ex_sim_ids take_depth_def)
qed

section \<open>The factory, checkpoints and restarts\<close>

text \<open>
  C36: what the factory makes.  A refusal is \<^verbatim>\<open>invalid_argument\<close>, or the exit of the program on a block size that is not
  one of the seven supported powers of two.  Otherwise the scheduler has no job and the base members of a new one, with the
  policy that was configured (EASY becomes HYBRID in the fixed-interval mode).  Which classes hold reservations for jobs behind the
  head is decided by the intervals, the policy and the priority together: under CONSERVATIVE with the default FCFS
  priority and no interval only the head is protected, although the command line says that all jobs get reservations.
\<close>

theorem factory_selects:
  "case create_scheduler p c n of
     Inl e \<Rightarrow> e = Invalid_Argument \<or> (e = Exit_Failure \<and> c_queue_impl c = BLOCK \<and> c_block_size c \<notin> {4, 8, 16, 32, 64, 128, 256})
   | Inr s \<Rightarrow>
       any_pending_job_ids s = [] \<and>
       any_base s = new_base (p_total_nodes p)
         (if 0 < p_dispatch_interval p \<and> p_backfill_policy p = EASY then HYBRID else p_backfill_policy p) \<and>
       (p_backfill_policy p = HYBRID \<longrightarrow> 0 < p_reservation_depth p) \<and>
       (chains_reservations s \<longleftrightarrow> 0 < p_dispatch_interval p \<or> p_backfill_policy p = HYBRID \<or>
          (p_backfill_policy p \<noteq> EASY \<and> (0 < p_backfill_interval p \<or> c_priority_policy c = FCFS_CONSERVATIVE)))"
  using create_scheduler_law[of p c n] by (auto simp: factory_promise_def fresh_as_def split: sum.splits)

theorem factory_selects_witness:
  "\<exists>s. create_scheduler (ex_params\<lparr>p_backfill_policy := CONSERVATIVE\<rparr>) ex_config 0 = Inr s \<and> m_backfill_policy (any_base s) = CONSERVATIVE \<and>
    \<not> chains_reservations s"
proof -
  have "create_scheduler (ex_params\<lparr>p_backfill_policy := CONSERVATIVE\<rparr>) ex_config 0 = Inr (FCFS_Easy_Deque (new_deque 10 CONSERVATIVE 0))"
    by (simp add: create_scheduler_def create_by_priority_def ex_params_def ex_config_def)
  with factory_selects[where p = "ex_params\<lparr>p_backfill_policy := CONSERVATIVE\<rparr>" and c = ex_config and n = 0] show ?thesis
    by (simp add: ex_params_def ex_config_def new_base_def)
qed

text \<open>
  C37: a checkpoint is read back as it was written.  For a simulation within the limits of the archive and a target constructed with
  a configuration that agrees where the reader compares, the reader consumes the archive exactly and gives the
  saved simulation, with the members that no archive holds from the target; beside it the reservation of the head, the
  pending identifiers in increasing order, and the flags and positions of the output.
\<close>

theorem checkpoint_roundtrip:
  assumes "archivable cp" "compatible cp target"
  shows "read_checkpoint env target (write_checkpoint env job_open resource_open job_bytes resource_bytes cp) =
    Inr ((restored_from cp target, (m_fcfs_reservation_time (any_base (m_scheduler (cp_sim cp))),
      sort (any_pending_job_ids (m_scheduler (cp_sim cp)))), (job_open, resource_open, job_bytes, resource_bytes, False)), [])"
  by (rule read_checkpoint_written[OF assms])

theorem checkpoint_roundtrip_witness:
  "\<exists>cp. read_checkpoint ex_env ex_target (write_checkpoint ex_env True False 77 0 ex_saved) =
      Inr ((cp, (dbl 10, [1, 3]), (True, False, 77, 0, False)), []) \<and> m_current_time (cp_sim cp) = dbl 1 \<and>
      m_data (m_trace (cp_sim cp)) = m_data ex_saved_trace"
proof -
  have "compatible ex_saved ex_target" using ex_same_build by (simp add: same_build_def)
  from checkpoint_roundtrip[OF ex_saved_archivable this, of ex_env True False 77 0] show ?thesis
    by (simp add: ex_saved_simps ex_after_ids(3) scheduler_base.defs ex_after_simps(1))
      (simp add: restored_from_def restored_trace_def ex_saved_simps)
qed

text \<open>
  C38: what a restart refuses.  A checkpoint of a run whose parameters differ from those of the restoring simulation in any
  member that the reader compares, and every proper beginning of a checkpoint, wherever it was cut, end in a runtime error.
\<close>

theorem checkpoint_refused:
  "(\<not> same_schedule_parameters (m_params (cp_sim cp)) (m_params (cp_sim target)) \<or> \<not> same_run_config (cp_config cp) (cp_config target) \<longrightarrow>
     load_checkpoint_impl env b restore (write_checkpoint env' jo ro jb rb cp) target = Inl Runtime_Error) \<and>
   (archivable cp \<and> compatible cp target \<and> write_checkpoint env jo ro jb rb cp = a @ lost \<and> lost \<noteq> [] \<longrightarrow>
     load_checkpoint_impl env b restore a target = Inl Runtime_Error)"
  using load_mismatch[of cp target] load_truncated[of cp target env jo ro jb rb a lost b restore] by blast

theorem checkpoint_refused_witness:
  "load_checkpoint_impl ex_env documented_buffer True (write_checkpoint ex_env True False 7 0 ex_saved)
      (ex_target\<lparr>cp_config := ex_config\<lparr>c_priority_policy := SJF\<rparr>\<rparr>) = Inl Runtime_Error \<and>
   load_checkpoint_impl ex_env documented_buffer True (butlast (write_checkpoint ex_env True False 7 0 ex_saved)) ex_target = Inl Runtime_Error"
proof -
  have c: "compatible ex_saved ex_target" using ex_same_build by (simp add: same_build_def)
  have m: "\<not> same_run_config (cp_config ex_saved) (cp_config (ex_target\<lparr>cp_config := ex_config\<lparr>c_priority_policy := SJF\<rparr>\<rparr>))"
    by (simp add: same_run_config_def ex_saved_simps) (simp add: ex_config_def)
  have "write_checkpoint ex_env True False 7 0 ex_saved \<noteq> []" by (simp add: write_checkpoint_def write_header_def Let_def)
  then have s: "write_checkpoint ex_env True False 7 0 ex_saved =
      butlast (write_checkpoint ex_env True False 7 0 ex_saved) @ [last (write_checkpoint ex_env True False 7 0 ex_saved)]" by simp
  show ?thesis
    using checkpoint_refused[where cp = ex_saved and target = "ex_target\<lparr>cp_config := ex_config\<lparr>c_priority_policy := SJF\<rparr>\<rparr>"
        and env = ex_env and b = documented_buffer and restore = True and env' = ex_env and jo = True and ro = False and jb = 7 and rb = 0] m
      checkpoint_refused[where cp = ex_saved and target = ex_target and env = ex_env and b = documented_buffer and restore = True
        and jo = True and ro = False and jb = 7 and rb = 0 and a = "butlast (write_checkpoint ex_env True False 7 0 ex_saved)"
        and lost = "[last (write_checkpoint ex_env True False 7 0 ex_saved)]"]
      ex_saved_archivable c s by blast
qed





end
